(* ===== verification/Archon_Prelude.thy ===== *)
theory Archon_Prelude
  imports
    Main
    "HOL-Library.Word"
    "HOL-Library.List_Lexorder"
    "HOL-Library.Char_ord"
    "HOL-Library.Product_Lexorder"
begin

text \<open>
  Shared vocabulary of the development: Rust's \<^verbatim>\<open>Result\<close>, its fixed-width integers and
  their saturating operations, loops that stop at the first error (the \<^verbatim>\<open>?\<close> operator in
  a \<^verbatim>\<open>for\<close> loop, and \<^verbatim>\<open>collect::<Result<_, _>>\<close>), decimal rendering, and the generic
  list lemmas the component theories use.

  Integers keep their width: \<^verbatim>\<open>u64\<close> is \<open>64 word\<close> and \<^verbatim>\<open>u32\<close> is \<open>32 word\<close>, so a plain
  \<^verbatim>\<open>+\<close> of the source wraps here as it does in the release profile of the workspace (which does
  not switch overflow checks on). Strings are \<open>string\<close>, a list of bytes.
\<close>

named_theorems result_simps \<open>rewrite rules for fallible loops\<close>
named_theorems word_facts \<open>facts that move unsigned words to natural numbers\<close>

section \<open>Machine integers\<close>

type_synonym u32 = "32 word"
type_synonym u64 = "64 word"

text \<open>Rust's \<^verbatim>\<open>saturating_sub\<close> and \<^verbatim>\<open>saturating_add\<close> on unsigned integers.\<close>

definition saturating_sub :: "'w::len word \<Rightarrow> 'w word \<Rightarrow> 'w word" where
  "saturating_sub a b = (if a < b then 0 else a - b)"

definition saturating_add :: "'w::len word \<Rightarrow> 'w word \<Rightarrow> 'w word" where
  "saturating_add a b = (if a + b < a then - 1 else a + b)"

lemma unat_bound: "unat a < 2 ^ LENGTH('w)" for a :: "'w::len word"
  by (rule unsigned_less)

lemma unat_saturating_sub [word_facts]: "unat (saturating_sub a b) = unat a - unat b"
  by (auto simp: saturating_sub_def word_less_nat_alt unat_sub_if')

lemma saturating_sub_zero [simp]: "saturating_sub 0 b = 0" "saturating_sub a 0 = a"
  by (auto simp: saturating_sub_def word_less_nat_alt unat_eq_zero)

lemma unat_saturating_add [word_facts]:
  "unat (saturating_add a b) = min (unat a + unat b) (2 ^ LENGTH('w) - 1)"
  for a b :: "'w::len word"
proof (cases "unat a + unat b < 2 ^ LENGTH('w)")
  case True
  then have "unat (a + b) = unat a + unat b" by (simp add: unat_add_lem)
  with True show ?thesis
    by (auto simp: saturating_add_def word_less_nat_alt)
next
  case False
  then have "unat (a + b) = unat a + unat b - 2 ^ LENGTH('w)"
    by (simp add: unat_plus_if')
  with False have lt: "unat (a + b) < unat a"
    using unat_bound [of b] by linarith
  have "unat (- 1 :: 'w word) = 2 ^ LENGTH('w) - 1" by (simp add: unsigned_minus_1_eq_mask mask_eq_exp_minus_1)
  with lt False show ?thesis
    by (auto simp: saturating_add_def word_less_nat_alt)
qed

lemma saturating_add_ge: "a \<le> saturating_add a b"
  unfolding word_le_nat_alt unat_saturating_add
  using unat_bound [of a] by linarith

lemma unat_add_no_overflow [word_facts]:
  "unat a + unat b < 2 ^ LENGTH('w) \<Longrightarrow> unat (a + b) = unat a + unat b"
  for a b :: "'w::len word"
  by (simp add: unat_add_lem)

lemma unat_sum_no_overflow:
  fixes f :: "'i \<Rightarrow> 'w::len word"
  assumes "finite A" and "(\<Sum>i\<in>A. unat (f i)) < 2 ^ LENGTH('w)"
  shows "unat (\<Sum>i\<in>A. f i) = (\<Sum>i\<in>A. unat (f i))"
  using assms
proof (induction A rule: finite_induct)
  case empty
  then show ?case by simp
next
  case (insert x A)
  then have "(\<Sum>i\<in>A. unat (f i)) < 2 ^ LENGTH('w)" by simp
  with insert show ?case by (simp add: unat_add_no_overflow)
qed

section \<open>Results\<close>

text \<open>Rust's \<^verbatim>\<open>Result<T, E>\<close>.\<close>

datatype ('a, 'e) result = Ok 'a | Err 'e

fun is_ok :: "('a, 'e) result \<Rightarrow> bool" where
  "is_ok (Ok _) = True"
| "is_ok (Err _) = False"

lemma is_ok_iff: "is_ok r \<longleftrightarrow> (\<exists>x. r = Ok x)"
  by (cases r) auto

text \<open>\<^verbatim>\<open>Option::ok_or\<close>.\<close>

fun ok_or :: "'a option \<Rightarrow> 'e \<Rightarrow> ('a, 'e) result" where
  "ok_or (Some x) e = Ok x"
| "ok_or None e = Err e"

lemma ok_or_eq_Ok [simp]: "ok_or o1 e = Ok x \<longleftrightarrow> o1 = Some x"
  by (cases o1) auto

lemma ok_or_eq_Err [simp]: "ok_or o1 e = Err e' \<longleftrightarrow> o1 = None \<and> e' = e"
  by (cases o1) auto

text \<open>The \<^verbatim>\<open>?\<close> operator.\<close>

fun and_then :: "('a, 'e) result \<Rightarrow> ('a \<Rightarrow> ('b, 'e) result) \<Rightarrow> ('b, 'e) result" where
  "and_then (Ok x) f = f x"
| "and_then (Err e) f = Err e"

lemma and_then_eq_Ok [result_simps]:
  "and_then r f = Ok y \<longleftrightarrow> (\<exists>x. r = Ok x \<and> f x = Ok y)"
  by (cases r) auto

text \<open>A \<^verbatim>\<open>for\<close> loop over an accumulator that returns early on an error.\<close>

fun try_fold :: "('a \<Rightarrow> 's \<Rightarrow> ('s, 'e) result) \<Rightarrow> 'a list \<Rightarrow> 's \<Rightarrow> ('s, 'e) result" where
  "try_fold f [] s = Ok s"
| "try_fold f (x # xs) s = (case f x s of Ok s' \<Rightarrow> try_fold f xs s' | Err e \<Rightarrow> Err e)"

lemma try_fold_append:
  "try_fold f (xs @ ys) s = and_then (try_fold f xs s) (try_fold f ys)"
  by (induction xs arbitrary: s) (auto split: result.splits)

lemma try_fold_Cons_Ok [result_simps]:
  "try_fold f (x # xs) s = Ok t \<longleftrightarrow> (\<exists>s'. f x s = Ok s' \<and> try_fold f xs s' = Ok t)"
  by (auto split: result.splits)

lemma try_fold_snoc_Ok [result_simps]:
  "try_fold f (xs @ [x]) s = Ok t \<longleftrightarrow> (\<exists>s'. try_fold f xs s = Ok s' \<and> f x s' = Ok t)"
  by (induction xs arbitrary: s) (auto split: result.splits)

text \<open>The loop invariant rule for such a loop.\<close>

lemma try_fold_invariant:
  assumes "try_fold f xs s = Ok t" and "P s"
    and "\<And>x s s'. x \<in> set xs \<Longrightarrow> P s \<Longrightarrow> f x s = Ok s' \<Longrightarrow> P s'"
  shows "P t"
  using assms
proof (induction xs arbitrary: s)
  case Nil
  then show ?case by simp
next
  case (Cons x xs)
  then obtain s' where "f x s = Ok s'" and "try_fold f xs s' = Ok t"
    by (auto split: result.splits)
  with Cons show ?case by (metis list.set_intros(1,2))
qed

text \<open>\<^verbatim>\<open>iter().map(f).collect::<Result<Vec<_>, _>>()\<close>.\<close>

fun try_map :: "('a \<Rightarrow> ('b, 'e) result) \<Rightarrow> 'a list \<Rightarrow> ('b list, 'e) result" where
  "try_map f [] = Ok []"
| "try_map f (x # xs) =
     (case f x of Err e \<Rightarrow> Err e
      | Ok y \<Rightarrow> (case try_map f xs of Err e \<Rightarrow> Err e | Ok ys \<Rightarrow> Ok (y # ys)))"

lemma try_map_eq_Ok [result_simps]:
  "try_map f xs = Ok ys \<longleftrightarrow> list_all2 (\<lambda>x y. f x = Ok y) xs ys"
proof (induction xs arbitrary: ys)
  case Nil
  then show ?case by auto
next
  case (Cons x xs)
  then show ?case
    by (cases ys; cases "try_map f xs") (force split: result.splits)+
qed

text \<open>A \<^verbatim>\<open>for\<close> loop that only checks: the first element whose check fails decides the error.\<close>

fun try_all :: "('a \<Rightarrow> 'e option) \<Rightarrow> 'a list \<Rightarrow> 'e option" where
  "try_all f [] = None"
| "try_all f (x # xs) = (case f x of Some e \<Rightarrow> Some e | None \<Rightarrow> try_all f xs)"

lemma try_all_None [simp]: "try_all f xs = None \<longleftrightarrow> (\<forall>x\<in>set xs. f x = None)"
  by (induction xs) (auto split: option.splits)

lemma try_all_Some: "try_all f xs = Some e \<Longrightarrow> \<exists>x\<in>set xs. f x = Some e"
  by (induction xs) (auto split: option.splits)

lemma try_all_check [simp]:
  "(case try_all f xs of Some e \<Rightarrow> Err e | None \<Rightarrow> Ok y) = Ok z \<longleftrightarrow> (\<forall>x\<in>set xs. f x = None) \<and> y = z"
  by (cases "try_all f xs") (auto dest: try_all_Some simp flip: try_all_None)

section \<open>Loops that fill a sequence\<close>

lemma fold_invariant_set:
  assumes "P s" and "\<And>x s. x \<in> set xs \<Longrightarrow> P s \<Longrightarrow> P (f x s)"
  shows "P (fold f xs s)"
  using assms by (induction xs arbitrary: s) auto

lemma find_Some_iff_first:
  "find P xs = Some x \<Longrightarrow> x \<in> set xs \<and> P x"
  by (auto simp: find_Some_iff)

lemma find_distinct_key:
  assumes "distinct (map f xs)" and "x \<in> set xs"
  shows "find (\<lambda>y. f y = f x) xs = Some x"
  using assms by (induction xs) auto

section \<open>Decimal rendering\<close>

fun show_nat :: "nat \<Rightarrow> string" where
  "show_nat n =
     (if n < 10 then [char_of (48 + n)] else show_nat (n div 10) @ [char_of (48 + n mod 10)])"

declare show_nat.simps [simp del]

definition show_u64 :: "u64 \<Rightarrow> string" where
  "show_u64 w = show_nat (unat w)"

definition show_int :: "int \<Rightarrow> string" where
  "show_int i = (if i < 0 then ''-'' @ show_nat (nat (- i)) else show_nat (nat i))"

text \<open>\<^verbatim>\<open>[&str]::join(sep)\<close>.\<close>

fun join :: "string \<Rightarrow> string list \<Rightarrow> string" where
  "join sep [] = ''''"
| "join sep [x] = x"
| "join sep (x # y # xs) = x @ sep @ join sep (y # xs)"

end
