(* ===== verification/Ordered_Map.thy ===== *)
theory Ordered_Map
  imports Archon_Prelude "HOL-Library.Multiset"
begin

text \<open>
  Rust's \<^verbatim>\<open>BTreeMap<K, V>\<close>: a finite map whose iteration order is the order of its keys. The
  type is the subtype of association lists with strictly increasing keys, so that no value of the
  model breaks the map's own invariant and equality of maps is equality of their entries.
  The operations the sources use are lifted from list functions; the locale \<open>ordered_map\<close> states
  what a client may rely on (a lookup after an insert or a removal, and how entries and lookups
  agree), and every other lemma about maps is proved once from these laws.
\<close>

section \<open>Association lists in key order\<close>

fun upd_entries :: "'k::linorder \<Rightarrow> 'v \<Rightarrow> ('k \<times> 'v) list \<Rightarrow> ('k \<times> 'v) list" where
  "upd_entries k v [] = [(k, v)]"
| "upd_entries k v ((k', v') # ps) =
     (if k < k' then (k, v) # (k', v') # ps
      else if k = k' then (k, v) # ps
      else (k', v') # upd_entries k v ps)"

definition del_entries :: "'k \<Rightarrow> ('k \<times> 'v) list \<Rightarrow> ('k \<times> 'v) list" where
  "del_entries k ps = filter (\<lambda>p. fst p \<noteq> k) ps"

definition key_ordered :: "('k::linorder \<times> 'v) list \<Rightarrow> bool" where
  "key_ordered ps \<longleftrightarrow> sorted_wrt (<) (map fst ps)"

lemma fst_upd_entries: "fst ` set (upd_entries k v ps) = insert k (fst ` set ps)"
proof (induction ps)
  case (Cons p ps)
  then show ?case by (cases p) auto
qed simp

lemma key_ordered_upd: "key_ordered ps \<Longrightarrow> key_ordered (upd_entries k v ps)"
proof (induction ps)
  case Nil
  then show ?case by (simp add: key_ordered_def)
next
  case (Cons p ps)
  obtain k' v' where p: "p = (k', v')" by (cases p)
  from Cons.prems p have lt: "\<forall>x\<in>fst ` set ps. k' < x" and "key_ordered ps"
    by (auto simp: key_ordered_def)
  with Cons.IH have IH: "key_ordered (upd_entries k v ps)" by blast
  show ?case
  proof (cases "k < k'")
    case True
    with Cons.prems p lt show ?thesis by (force simp: key_ordered_def)
  next
    case False
    have "\<forall>x\<in>fst ` set (upd_entries k v ps). k' < x" if "k \<noteq> k'"
      using lt False that by (auto simp: fst_upd_entries)
    with IH Cons.prems p False show ?thesis by (auto simp: key_ordered_def)
  qed
qed

lemma key_ordered_del: "key_ordered ps \<Longrightarrow> key_ordered (del_entries k ps)"
  by (induction ps) (auto simp: key_ordered_def del_entries_def)

lemma key_ordered_distinct: "key_ordered ps \<Longrightarrow> distinct (map fst ps)"
  by (simp add: key_ordered_def strict_sorted_iff)

lemma map_of_upd_entries: "map_of (upd_entries k v ps) = (map_of ps)(k \<mapsto> v)"
proof (induction ps)
  case (Cons p ps)
  then show ?case by (cases p) (auto simp: fun_eq_iff)
qed auto

lemma map_of_del_entries: "map_of (del_entries k ps) = (map_of ps)(k := None)"
  by (induction ps) (auto simp: del_entries_def fun_eq_iff)

section \<open>The map type and its operations\<close>

typedef (overloaded) ('k::linorder, 'v) btree = "{ps :: ('k \<times> 'v) list. key_ordered ps}"
  morphisms btree_entries Abs_btree
  by (rule exI [of _ "[]"]) (simp add: key_ordered_def)

setup_lifting type_definition_btree

lift_definition btree_empty :: "('k::linorder, 'v) btree" is "[]"
  by (simp add: key_ordered_def)

lift_definition btree_insert :: "'k::linorder \<Rightarrow> 'v \<Rightarrow> ('k, 'v) btree \<Rightarrow> ('k, 'v) btree" is upd_entries
  by (rule key_ordered_upd)

lift_definition btree_remove :: "'k::linorder \<Rightarrow> ('k, 'v) btree \<Rightarrow> ('k, 'v) btree" is del_entries
  by (rule key_ordered_del)

lift_definition btree_get :: "('k::linorder, 'v) btree \<Rightarrow> 'k \<Rightarrow> 'v option" is map_of .

definition btree_keys :: "('k::linorder, 'v) btree \<Rightarrow> 'k list" where
  "btree_keys m = map fst (btree_entries m)"

definition btree_values :: "('k::linorder, 'v) btree \<Rightarrow> 'v list" where
  "btree_values m = map snd (btree_entries m)"

definition btree_is_empty :: "('k::linorder, 'v) btree \<Rightarrow> bool" where
  "btree_is_empty m \<longleftrightarrow> btree_entries m = []"

definition btree_contains_key :: "('k::linorder, 'v) btree \<Rightarrow> 'k \<Rightarrow> bool" where
  "btree_contains_key m k \<longleftrightarrow> btree_get m k \<noteq> None"

text \<open>\<^verbatim>\<open>get(k).copied().unwrap_or(d)\<close>.\<close>

definition btree_get_or :: "'v \<Rightarrow> ('k::linorder, 'v) btree \<Rightarrow> 'k \<Rightarrow> 'v" where
  "btree_get_or d m k = (case btree_get m k of None \<Rightarrow> d | Some v \<Rightarrow> v)"

text \<open>\<^verbatim>\<open>*m.entry(k).or_insert(d) = f(..)\<close>.\<close>

definition btree_entry :: "'v \<Rightarrow> ('v \<Rightarrow> 'v) \<Rightarrow> 'k::linorder \<Rightarrow> ('k, 'v) btree \<Rightarrow> ('k, 'v) btree" where
  "btree_entry d f k m = btree_insert k (f (btree_get_or d m k)) m"

text \<open>\<^verbatim>\<open>if let Some(v) = m.get_mut(&k) { *v = f(*v) }\<close>.\<close>

definition btree_modify :: "'k::linorder \<Rightarrow> ('v \<Rightarrow> 'v) \<Rightarrow> ('k, 'v) btree \<Rightarrow> ('k, 'v) btree" where
  "btree_modify k f m = (case btree_get m k of None \<Rightarrow> m | Some v \<Rightarrow> btree_insert k (f v) m)"

text \<open>\<^verbatim>\<open>into_iter().collect::<BTreeMap<_, _>>()\<close>: a later pair replaces an earlier one.\<close>

definition btree_collect :: "('k::linorder \<times> 'v) list \<Rightarrow> ('k, 'v) btree" where
  "btree_collect ps = fold (\<lambda>(k, v) m. btree_insert k v m) ps btree_empty"

text \<open>\<^verbatim>\<open>for v in m.values_mut() { *v = f(*v) }\<close>.\<close>

lift_definition btree_map_values :: "('v \<Rightarrow> 'w) \<Rightarrow> ('k::linorder, 'v) btree \<Rightarrow> ('k, 'w) btree"
  is "\<lambda>f ps. map (\<lambda>p. (fst p, f (snd p))) ps"
  by (simp add: key_ordered_def comp_def)

instantiation btree :: (linorder, equal) equal
begin

definition equal_btree :: "('a, 'b) btree \<Rightarrow> ('a, 'b) btree \<Rightarrow> bool" where
  "equal_btree a b \<longleftrightarrow> btree_entries a = btree_entries b"

instance
  by standard (simp add: equal_btree_def btree_entries_inject)

end

section \<open>The interface\<close>

text \<open>What a client of an ordered map relies on.\<close>

locale ordered_map =
  fixes empty :: "'m"
    and insert :: "'k::linorder \<Rightarrow> 'v \<Rightarrow> 'm \<Rightarrow> 'm"
    and remove :: "'k \<Rightarrow> 'm \<Rightarrow> 'm"
    and get :: "'m \<Rightarrow> 'k \<Rightarrow> 'v option"
    and entries :: "'m \<Rightarrow> ('k \<times> 'v) list"
  assumes get_empty: "get empty k = None"
    and get_insert: "get (insert k v m) k' = (if k' = k then Some v else get m k')"
    and get_remove: "get (remove k m) k' = (if k' = k then None else get m k')"
    and entries_get: "(k, v) \<in> set (entries m) \<longleftrightarrow> get m k = Some v"
    and entries_ordered: "sorted_wrt (<) (map fst (entries m))"
    and map_ext: "(\<And>k. get m k = get m' k) \<Longrightarrow> m = m'"
begin

lemma entries_distinct: "distinct (map fst (entries m))"
  using entries_ordered [of m] by (simp add: strict_sorted_iff)

lemma distinct_entries: "distinct (entries m)"
  using entries_distinct [of m] by (simp add: distinct_map)

lemma keys_get: "k \<in> fst ` set (entries m) \<longleftrightarrow> get m k \<noteq> None"
  using entries_get [of k _ m] by (auto simp: image_iff) (metis fst_conv)

lemma set_entries: "set (entries m) = {(k, v). get m k = Some v}"
  by (auto simp: entries_get)

lemma finite_dom_get: "finite (dom (get m))"
proof -
  have "dom (get m) = fst ` set (entries m)" using keys_get [of _ m] by blast
  then show ?thesis by simp
qed

lemma entries_empty: "entries empty = []"
  using entries_get [of _ _ empty] get_empty by (cases "entries empty") auto

lemma insert_same: "get m k = Some v \<Longrightarrow> insert k v m = m"
  by (rule map_ext) (auto simp: get_insert)

lemma insert_insert: "insert k v (insert k w m) = insert k v m"
  by (rule map_ext) (auto simp: get_insert)

text \<open>A loop over the entries of one map that updates another one key by key.\<close>

lemma get_fold_list:
  assumes "distinct (map fst xs)"
  shows "get (fold (\<lambda>(k, a) m. insert k (f k (get m k) a) m) xs l) k =
    (case map_of xs k of None \<Rightarrow> get l k | Some a \<Rightarrow> Some (f k (get l k) a))"
  using assms
proof (induction xs arbitrary: l)
  case Nil
  then show ?case by simp
next
  case (Cons p xs)
  obtain j a where p: "p = (j, a)" by (cases p)
  from Cons.prems p have fresh: "map_of xs j = None"
    by (force simp: map_of_eq_None_iff)
  have "get (fold (\<lambda>(k, a) m. insert k (f k (get m k) a) m) (p # xs) l) k =
      (case map_of xs k of None \<Rightarrow> get (insert j (f j (get l j) a) l) k
       | Some a' \<Rightarrow> Some (f k (get (insert j (f j (get l j) a) l) k) a'))"
    using Cons p by simp
  with fresh p show ?case by (auto simp: get_insert split: option.splits)
qed

lemma map_of_entries: "map_of (entries m) k = get m k"
proof (cases "get m k")
  case None
  then show ?thesis using keys_get [of k m] by (simp add: map_of_eq_None_iff)
next
  case (Some v)
  then have "(k, v) \<in> set (entries m)" by (simp add: entries_get)
  with Some show ?thesis using entries_distinct by simp
qed

lemma get_fold_entries:
  "get (fold (\<lambda>(k, a) m. insert k (f k (get m k) a) m) (entries r) l) k =
    (case get r k of None \<Rightarrow> get l k | Some a \<Rightarrow> Some (f k (get l k) a))"
  using get_fold_list [OF entries_distinct, of f r l k] by (simp add: map_of_entries)

end

lemma btree_get_empty [simp]: "btree_get btree_empty k = None"
  by transfer simp

lemma btree_get_insert [simp]:
  "btree_get (btree_insert k v m) k' = (if k' = k then Some v else btree_get m k')"
  by transfer (simp add: map_of_upd_entries)

lemma btree_get_remove [simp]:
  "btree_get (btree_remove k m) k' = (if k' = k then None else btree_get m k')"
  by transfer (simp add: map_of_del_entries)

lemma btree_entries_ordered: "sorted_wrt (<) (map fst (btree_entries m))"
  using btree_entries [of m] by (simp add: key_ordered_def)

lemma btree_entries_distinct: "distinct (map fst (btree_entries m))"
  using btree_entries [of m] by (simp add: key_ordered_distinct)

lemma btree_mem_entries [simp]: "(k, v) \<in> set (btree_entries m) \<longleftrightarrow> btree_get m k = Some v"
  by (simp add: btree_get.rep_eq btree_entries_distinct)

lemma key_ordered_unique:
  assumes "key_ordered ps" and "key_ordered qs" and "map_of ps = map_of qs"
  shows "ps = qs"
proof -
  have dp: "distinct (map fst ps)" "distinct (map fst qs)"
    using assms by (simp_all add: key_ordered_distinct)
  have sets: "set ps = set qs"
    using assms(3) map_of_eq_Some_iff [OF dp(1)] map_of_eq_Some_iff [OF dp(2)] by auto
  have "inj_on fst (set ps \<union> set qs)"
    using dp sets by (simp add: distinct_map)
  with assms(1,2) dp sets show ?thesis
    by (auto simp: key_ordered_def strict_sorted_iff intro: map_sorted_distinct_set_unique)
qed

lemma btree_ext: "(\<And>k. btree_get m k = btree_get m' k) \<Longrightarrow> m = m'"
  by transfer (blast intro: key_ordered_unique)

interpretation btree: ordered_map btree_empty btree_insert btree_remove btree_get btree_entries
  by unfold_locales (auto simp: btree_entries_ordered intro: btree_ext)

section \<open>Derived facts\<close>

lemma btree_keys_iff [simp]: "k \<in> set (btree_keys m) \<longleftrightarrow> (\<exists>v. btree_get m k = Some v)"
  using btree.keys_get [of k m] by (auto simp: btree_keys_def)

lemma btree_values_iff [simp]: "v \<in> set (btree_values m) \<longleftrightarrow> (\<exists>k. btree_get m k = Some v)"
proof
  assume "v \<in> set (btree_values m)"
  then obtain k where "(k, v) \<in> set (btree_entries m)" by (auto simp: btree_values_def)
  then show "\<exists>k. btree_get m k = Some v" by auto
next
  assume "\<exists>k. btree_get m k = Some v"
  then obtain k where "(k, v) \<in> set (btree_entries m)" by auto
  then have "snd (k, v) \<in> snd ` set (btree_entries m)" by (rule imageI)
  then show "v \<in> set (btree_values m)" by (simp add: btree_values_def)
qed

text \<open>Bounded quantification over an iterator, in terms of lookups.\<close>

lemma btree_ball_entries:
  "(\<forall>p\<in>set (btree_entries m). P p) \<longleftrightarrow> (\<forall>k v. btree_get m k = Some v \<longrightarrow> P (k, v))"
  using btree_mem_entries [of _ _ m] by (metis surj_pair)

lemma btree_ball_keys:
  "(\<forall>k\<in>set (btree_keys m). P k) \<longleftrightarrow> (\<forall>k v. btree_get m k = Some v \<longrightarrow> P k)"
  by (auto simp: Ball_def)

lemma btree_ball_values:
  "(\<forall>v\<in>set (btree_values m). P v) \<longleftrightarrow> (\<forall>k v. btree_get m k = Some v \<longrightarrow> P v)"
  by (auto simp: Ball_def)

lemmas btree_ball = btree_ball_entries btree_ball_keys btree_ball_values

lemma btree_keys_sorted: "sorted_wrt (<) (btree_keys m)"
  by (simp add: btree_keys_def btree_entries_ordered)

lemma btree_keys_distinct [simp]: "distinct (btree_keys m)"
  by (simp add: btree_keys_def btree_entries_distinct)

lemma btree_is_empty_iff: "btree_is_empty m \<longleftrightarrow> (\<forall>k. btree_get m k = None)"
proof
  assume "btree_is_empty m"
  then show "\<forall>k. btree_get m k = None"
    using btree.map_of_entries [of m] by (auto simp: btree_is_empty_def)
next
  assume "\<forall>k. btree_get m k = None"
  then have "m = btree_empty" by (intro btree_ext) simp
  then show "btree_is_empty m" by (simp add: btree_is_empty_def btree.entries_empty)
qed

lemma btree_get_or_insert [simp]:
  "btree_get_or d (btree_insert k v m) k' = (if k' = k then v else btree_get_or d m k')"
  by (simp add: btree_get_or_def)

lemma btree_get_or_empty [simp]: "btree_get_or d btree_empty k = d"
  by (simp add: btree_get_or_def)

lemma btree_get_entry [simp]:
  "btree_get (btree_entry d f k m) k' =
     (if k' = k then Some (f (btree_get_or d m k)) else btree_get m k')"
  by (simp add: btree_entry_def)

lemma btree_get_modify [simp]:
  "btree_get (btree_modify k f m) k' =
     (if k' = k then map_option f (btree_get m k) else btree_get m k')"
  by (auto simp: btree_modify_def split: option.splits)

lemma btree_get_map_values [simp]:
  "btree_get (btree_map_values f m) k = map_option f (btree_get m k)"
proof (transfer fixing: f k)
  fix ps
  show "map_of (map (\<lambda>p. (fst p, f (snd p))) ps) k = map_option f (map_of ps k)"
    by (induction ps) auto
qed

lemma btree_get_fold_entry:
  "btree_get (fold (\<lambda>(k, a). btree_entry d (g a) k) (btree_entries r) l) k =
     (case btree_get r k of None \<Rightarrow> btree_get l k | Some a \<Rightarrow> Some (g a (btree_get_or d l k)))"
proof -
  have eq: "(\<lambda>(k, a). btree_entry d (g a) k) =
      (\<lambda>(k, a) m. btree_insert k (g a (case btree_get m k of None \<Rightarrow> d | Some v \<Rightarrow> v)) m)"
    by (simp add: fun_eq_iff btree_entry_def btree_get_or_def)
  show ?thesis
    unfolding eq using btree.get_fold_list
      [OF btree_entries_distinct, of "\<lambda>k o1 a. g a (case o1 of None \<Rightarrow> d | Some v \<Rightarrow> v)" r l k]
    by (simp add: btree_get_or_def btree_get.rep_eq [symmetric] split: option.split)
qed

lemma finite_btree_dom [simp]: "finite {k. \<exists>v. btree_get m k = Some v}"
  using btree.finite_dom_get [of m] by (simp add: dom_def)

lemma btree_sum_entries:
  fixes g :: "'k::linorder \<times> 'v \<Rightarrow> 'n::comm_monoid_add"
  shows "sum_list (map g (btree_entries m)) = (\<Sum>p | btree_get m (fst p) = Some (snd p). g p)"
proof -
  have "sum_list (map g (btree_entries m)) = sum g (set (btree_entries m))"
    by (rule sum_list_distinct_conv_sum_set) (rule btree.distinct_entries)
  also have "set (btree_entries m) = {p. btree_get m (fst p) = Some (snd p)}"
    by (auto simp: btree.set_entries)
  finally show ?thesis .
qed

lemma btree_collect_Nil [simp]: "btree_collect [] = btree_empty"
  by (simp add: btree_collect_def)

lemma btree_collect_snoc [simp]:
  "btree_collect (ps @ [(k, v)]) = btree_insert k v (btree_collect ps)"
  by (simp add: btree_collect_def)

lemma btree_get_collect: "btree_get (btree_collect ps) k = map_of (rev ps) k"
  by (induction ps rule: rev_induct) auto

end
