(* ===== verification/Kernel_Types.thy ===== *)
theory Kernel_Types
  imports Ordered_Map
begin

text \<open>
  The value types of \<^verbatim>\<open>crates/kernel/src/types.rs\<close> and \<^verbatim>\<open>ids.rs\<close>: validated identifiers, quantities
  and their arithmetic, resource facts, requests, leases, bindings and endpoints. A struct is a
  record whose fields carry a short prefix (\<open>l_state\<close> is \<^verbatim>\<open>Lease::state\<close>); an enum is a datatype, with a
  prefix on the constructors that two enums share (\<open>LActive\<close> is \<^verbatim>\<open>LeaseState::Active\<close>, \<open>BActive\<close> is
  \<^verbatim>\<open>BindingState::Active\<close>). The theorems here are about validation of identifiers and the pointwise
  meaning of the quantity operations.
\<close>

section \<open>Identifiers\<close>

type_synonym node_id = u64
type_synonym lease_id = u64
type_synonym binding_id = u64
type_synonym request_id = u64
type_synonym owner_id = u64
type_synonym provider_id = u64
type_synonym fact_writer_id = u64

definition provider_enforce :: provider_id where
  "provider_enforce = 1"

text \<open>The \<^verbatim>\<open>Display\<close> instance the \<^verbatim>\<open>id!\<close> macro derives.\<close>

definition display_id :: "string \<Rightarrow> u64 \<Rightarrow> string" where
  "display_id name w = name @ ''('' @ show_u64 w @ '')''"

definition display_node :: "node_id \<Rightarrow> string" where
  "display_node w = display_id ''NodeId'' w"

subsection \<open>Validated names\<close>

definition MAX_IDENTIFIER_LEN :: nat where
  "MAX_IDENTIFIER_LEN = 63"

datatype identifier_error = IdEmpty | TooLong | InvalidCharacter nat | InvalidBoundary

definition is_ascii_lowercase :: "char \<Rightarrow> bool" where
  "is_ascii_lowercase c \<longleftrightarrow> CHR ''a'' \<le> c \<and> c \<le> CHR ''z''"

definition is_ascii_digit :: "char \<Rightarrow> bool" where
  "is_ascii_digit c \<longleftrightarrow> CHR ''0'' \<le> c \<and> c \<le> CHR ''9''"

definition is_ascii_alphanumeric :: "char \<Rightarrow> bool" where
  "is_ascii_alphanumeric c \<longleftrightarrow>
     is_ascii_lowercase c \<or> (CHR ''A'' \<le> c \<and> c \<le> CHR ''Z'') \<or> is_ascii_digit c"

definition identifier_char :: "char \<Rightarrow> bool" where
  "identifier_char c \<longleftrightarrow>
     is_ascii_lowercase c \<or> is_ascii_digit c \<or> c \<in> {CHR ''-'', CHR ''_'', CHR ''.'', CHR ''/''}"

text \<open>The validation loop: the first byte outside the alphabet decides the error.\<close>

fun first_invalid :: "nat \<Rightarrow> string \<Rightarrow> nat option" where
  "first_invalid i [] = None"
| "first_invalid i (c # cs) = (if \<not> identifier_char c then Some i else first_invalid (Suc i) cs)"

definition validate_identifier :: "string \<Rightarrow> (string \<times> nat, identifier_error) result" where
  "validate_identifier v =
     (if v = [] then Err IdEmpty
      else if length v > MAX_IDENTIFIER_LEN then Err TooLong
      else if \<not> is_ascii_alphanumeric (hd v) \<or> \<not> is_ascii_alphanumeric (last v) then Err InvalidBoundary
      else case first_invalid 0 v of
             Some i \<Rightarrow> Err (InvalidCharacter i)
           | None \<Rightarrow> Ok (v @ replicate (MAX_IDENTIFIER_LEN - length v) (CHR 0x00), length v))"

text \<open>The stored value: a zero-padded byte array and the length in use.\<close>

record ident =
  i_bytes :: string
  i_len :: nat

definition identifier_new :: "string \<Rightarrow> (ident, identifier_error) result" where
  "identifier_new v =
     (case validate_identifier v of
        Err e \<Rightarrow> Err e
      | Ok (b, n) \<Rightarrow> Ok \<lparr>i_bytes = b, i_len = n\<rparr>)"

definition identifier_as_str :: "ident \<Rightarrow> string" where
  "identifier_as_str i = take (i_len i) (i_bytes i)"

text \<open>The derived order: the byte array first, then the length.\<close>

definition identifier_le :: "ident \<Rightarrow> ident \<Rightarrow> bool" where
  "identifier_le a b \<longleftrightarrow> (i_bytes a, i_len a) \<le> (i_bytes b, i_len b)"

text \<open>
  Elsewhere in the development a \<^verbatim>\<open>ResourceClass\<close> and a \<^verbatim>\<open>CapacityDimension\<close> are represented by the
  text \<^verbatim>\<open>as_str\<close> returns. The two theorems at the end of this section justify it: the
  text determines the stored value, and the stored order is the order of the texts.
\<close>

type_synonym resource_class = string
type_synonym capacity_dimension = string

abbreviation Machine :: resource_class where "Machine \<equiv> ''machine''"
abbreviation Numa :: resource_class where "Numa \<equiv> ''numa''"
abbreviation Cpu :: resource_class where "Cpu \<equiv> ''cpu''"
abbreviation Memory :: resource_class where "Memory \<equiv> ''memory''"
abbreviation Gpu :: resource_class where "Gpu \<equiv> ''gpu''"
abbreviation Nic :: resource_class where "Nic \<equiv> ''nic''"
abbreviation Nvme :: resource_class where "Nvme \<equiv> ''nvme''"
abbreviation DataObject :: resource_class where "DataObject \<equiv> ''data-object''"
abbreviation Count :: capacity_dimension where "Count \<equiv> ''count''"
abbreviation Bytes :: capacity_dimension where "Bytes \<equiv> ''bytes''"

definition resource_class_constants :: "resource_class list" where
  "resource_class_constants =
     [Machine, ''rack'', ''power-domain'', ''socket'', Numa, Cpu, Memory, ''pcie-root'', Gpu, Nic,
      Nvme, ''region'', ''datacenter'', DataObject]"

definition default_dimension :: "resource_class \<Rightarrow> capacity_dimension option" where
  "default_dimension c =
     (if c = Cpu \<or> c = Gpu \<or> c = Nic \<or> c = Nvme then Some Count
      else if c = Memory then Some Bytes
      else None)"

definition debug_class :: "resource_class \<Rightarrow> string" where
  "debug_class c = ''ResourceClass('' @ [CHR 0x22] @ c @ [CHR 0x22] @ '')''"

section \<open>Quantities\<close>

type_synonym quantity = "(capacity_dimension, u64) btree"
type_synonym attrs = "(string, string) btree"

definition qty :: "capacity_dimension \<Rightarrow> u64 \<Rightarrow> quantity" where
  "qty dimension amount = btree_insert dimension amount btree_empty"

definition quantity_get :: "quantity \<Rightarrow> capacity_dimension \<Rightarrow> u64" where
  "quantity_get q dimension = btree_get_or 0 q dimension"

definition quantity_le :: "quantity \<Rightarrow> quantity \<Rightarrow> bool" where
  "quantity_le l r \<longleftrightarrow>
     list_all (\<lambda>(dimension, amount). quantity_get r dimension \<ge> amount) (btree_entries l)"

definition quantity_saturating_sub :: "quantity \<Rightarrow> quantity \<Rightarrow> quantity" where
  "quantity_saturating_sub l r =
     fold (\<lambda>(dimension, amount) out.
             let remain = saturating_sub amount (quantity_get r dimension) in
             if remain > 0 then btree_insert dimension remain out else out)
          (btree_entries l) btree_empty"

definition quantity_max :: "quantity \<Rightarrow> quantity \<Rightarrow> quantity" where
  "quantity_max l r =
     fold (\<lambda>(dimension, amount). btree_entry 0 (\<lambda>entry. max entry amount) dimension)
          (btree_entries r) l"

definition quantity_add_assign :: "quantity \<Rightarrow> quantity \<Rightarrow> quantity" where
  "quantity_add_assign l r =
     fold (\<lambda>(dimension, amount). btree_entry 0 (\<lambda>entry. entry + amount) dimension)
          (btree_entries r) l"

section \<open>Resource facts\<close>

datatype node_state = Joining | Schedulable | Draining | Unavailable | Quarantined | Retired

definition is_schedulable :: "node_state \<Rightarrow> bool" where
  "is_schedulable s \<longleftrightarrow> s = Schedulable"

datatype edge_kind = Contains | Connected | CachedOn

fun edge_kind_rank :: "edge_kind \<Rightarrow> nat" where
  "edge_kind_rank Contains = 0"
| "edge_kind_rank Connected = 1"
| "edge_kind_rank CachedOn = 2"

instantiation edge_kind :: linorder
begin

definition less_eq_edge_kind :: "edge_kind \<Rightarrow> edge_kind \<Rightarrow> bool" where
  "less_eq_edge_kind a b \<longleftrightarrow> edge_kind_rank a \<le> edge_kind_rank b"

definition less_edge_kind :: "edge_kind \<Rightarrow> edge_kind \<Rightarrow> bool" where
  "less_edge_kind a b \<longleftrightarrow> edge_kind_rank a < edge_kind_rank b"

instance
proof
  fix a b :: edge_kind
  show "a \<le> b \<Longrightarrow> b \<le> a \<Longrightarrow> a = b"
    by (cases a; cases b) (auto simp: less_eq_edge_kind_def)
qed (auto simp: less_eq_edge_kind_def less_edge_kind_def)

end

fun debug_edge_kind :: "edge_kind \<Rightarrow> string" where
  "debug_edge_kind Contains = ''Contains''"
| "debug_edge_kind Connected = ''Connected''"
| "debug_edge_kind CachedOn = ''CachedOn''"

record node =
  n_id :: node_id
  n_kind :: resource_class
  n_attrs :: attrs
  n_capacity :: quantity

record edge =
  e_from :: node_id
  e_to :: node_id
  e_kind :: edge_kind
  e_attrs :: attrs

record fact_edge =
  fe_from :: node_id
  fe_to :: node_id
  fe_kind :: edge_kind

record provider_fact_batch =
  pb_writer :: fact_writer_id
  pb_nodes :: "node list"
  pb_edges :: "edge list"

record fact_writer_assignment =
  fa_writer :: fact_writer_id
  fa_nodes :: "node_id list"
  fa_edges :: "fact_edge list"

datatype topology_relation =
    SameAncestor resource_class
  | DifferentAncestor resource_class
  | RelContains
  | RelConnected
  | RelCachedOn

section \<open>Requests and placements\<close>

datatype request_class = Service | Batch

fun debug_request_class :: "request_class \<Rightarrow> string" where
  "debug_request_class Service = ''Service''"
| "debug_request_class Batch = ''Batch''"

record attr_filter =
  f_key :: string
  f_value :: string

record need =
  nd_kind :: resource_class
  nd_quantity :: quantity
  nd_filters :: "attr_filter list"

record topology_constraint =
  tc_left :: nat
  tc_right :: nat
  tc_relation :: topology_relation

datatype preference = PrefPack | PrefSpread | PreferAttr string string

record request =
  r_id :: request_id
  r_class :: request_class
  r_needs :: "need list"
  r_topology :: "topology_constraint list"
  r_preferences :: "preference list"
  r_data :: "node_id list"
  r_lifetime :: u64
  r_priority :: u32
  r_machine_local :: bool

record queued =
  q_request :: request
  q_owner :: owner_id
  q_submitted_at :: u64

record claim =
  c_node :: node_id
  c_quantity :: quantity

datatype placement_reason =
    MachineSelected node_id
  | CandidateScore node_id int "node_id list" "node_id option"
  | TopologyConstraint nat topology_relation "node_id list" "node_id list" "(node_id \<times> node_id) option"

record placement_explanation =
  x_summary :: string
  x_reasons :: "placement_reason list"

record allocation =
  a_claims :: "claim list"
  a_graph_revision :: u64
  a_explanation :: placement_explanation

section \<open>Leases, bindings and endpoints\<close>

datatype lease_state =
  LReserved | LPreparing | LActive | LReleased | LExpired | LRevoked | LFailed | LCompleted

record lease =
  l_id :: lease_id
  l_owner :: owner_id
  l_allocation :: allocation
  l_parent :: "lease_id option"
  l_expires_at :: u64
  l_prepare_deadline :: u64
  l_priority :: u32
  l_state :: lease_state
  l_exit_code :: "int option"

datatype binding_scope = Exclusive | IndependentShare

fun debug_scope :: "binding_scope \<Rightarrow> string" where
  "debug_scope Exclusive = ''Exclusive''"
| "debug_scope IndependentShare = ''IndependentShare''"

record claim_binding =
  cb_provider :: provider_id
  cb_scope :: binding_scope

record claim_binding_update =
  cu_node :: node_id
  cu_dimension :: capacity_dimension
  cu_binding :: "claim_binding option"

datatype binding_state = BPreparing | BActive | BReleased | BFenced | BFailed

definition is_closed :: "binding_state \<Rightarrow> bool" where
  "is_closed s \<longleftrightarrow> s = BReleased \<or> s = BFenced"

record binding =
  b_id :: binding_id
  b_lease :: lease_id
  b_node :: node_id
  b_provider :: provider_id
  b_scope :: binding_scope
  b_fence :: u64
  b_agent_session :: u64
  b_state :: binding_state
  b_provider_handle :: "u64 option"

datatype endpoint_phase = Idle | Prepared | PhaseActive

record endpoint =
  ep_provider :: provider_id
  ep_node :: node_id
  ep_accepted_fence :: u64
  ep_open :: bool
  ep_binding :: "binding_id option"
  ep_phase :: endpoint_phase
  ep_session :: u64

definition endpoint_new :: "provider_id \<Rightarrow> node_id \<Rightarrow> u64 \<Rightarrow> endpoint" where
  "endpoint_new provider node session =
     \<lparr>ep_provider = provider, ep_node = node, ep_accepted_fence = 0, ep_open = False,
      ep_binding = None, ep_phase = Idle, ep_session = session\<rparr>"

section \<open>What the quantity operations compute\<close>

named_theorems quantity_simps \<open>the amount of one dimension after a quantity operation\<close>

lemma quantity_get_empty [simp]: "quantity_get btree_empty d = 0"
  by (simp add: quantity_get_def)

lemma quantity_get_qty [quantity_simps]: "quantity_get (qty d a) d' = (if d' = d then a else 0)"
  by (simp add: quantity_get_def qty_def)

lemma quantity_get_insert [quantity_simps]:
  "quantity_get (btree_insert d a q) d' = (if d' = d then a else quantity_get q d')"
  by (simp add: quantity_get_def)

lemma quantity_get_add_assign [quantity_simps]:
  "quantity_get (quantity_add_assign l r) d = quantity_get l d + quantity_get r d"
proof -
  have "btree_get (quantity_add_assign l r) d =
      (case btree_get r d of None \<Rightarrow> btree_get l d | Some a \<Rightarrow> Some (btree_get_or 0 l d + a))"
    unfolding quantity_add_assign_def by (rule btree_get_fold_entry)
  then show ?thesis
    by (simp add: quantity_get_def btree_get_or_def split: option.split)
qed

lemma quantity_get_max [quantity_simps]:
  "quantity_get (quantity_max l r) d = max (quantity_get l d) (quantity_get r d)"
proof -
  have "btree_get (quantity_max l r) d =
      (case btree_get r d of None \<Rightarrow> btree_get l d | Some a \<Rightarrow> Some (max (btree_get_or 0 l d) a))"
    unfolding quantity_max_def by (rule btree_get_fold_entry)
  then show ?thesis
    by (simp add: quantity_get_def btree_get_or_def max_def split: option.split)
qed

lemma quantity_le_iff: "quantity_le l r \<longleftrightarrow> (\<forall>d. quantity_get l d \<le> quantity_get r d)"
proof
  assume le: "quantity_le l r"
  show "\<forall>d. quantity_get l d \<le> quantity_get r d"
  proof
    fix d
    show "quantity_get l d \<le> quantity_get r d"
    proof (cases "btree_get l d")
      case None
      then show ?thesis by (simp add: quantity_get_def btree_get_or_def)
    next
      case (Some a)
      then have "(d, a) \<in> set (btree_entries l)" by simp
      with le have "a \<le> quantity_get r d" by (auto simp: quantity_le_def list_all_iff)
      with Some show ?thesis by (simp add: quantity_get_def [of l] btree_get_or_def)
    qed
  qed
next
  assume all: "\<forall>d. quantity_get l d \<le> quantity_get r d"
  have "a \<le> quantity_get r d" if "btree_get l d = Some a" for d a
    using all [THEN spec, of d] that by (simp add: quantity_get_def [of l] btree_get_or_def)
  then show "quantity_le l r" by (auto simp: quantity_le_def list_all_iff)
qed

lemma quantity_get_sub_loop:
  assumes "distinct (map fst xs)"
  shows "quantity_get (fold (\<lambda>(dimension, amount) out.
       let remain = saturating_sub amount (quantity_get r dimension) in
       if remain > 0 then btree_insert dimension remain out else out) xs m) d =
     (case map_of xs d of
        None \<Rightarrow> quantity_get m d
      | Some a \<Rightarrow> (let remain = saturating_sub a (quantity_get r d) in
                   if remain > 0 then remain else quantity_get m d))"
  using assms
proof (induction xs arbitrary: m)
  case Nil
  then show ?case by simp
next
  case (Cons p xs)
  obtain j a where p: "p = (j, a)" by (cases p)
  from Cons.prems p have "map_of xs j = None" by (force simp: map_of_eq_None_iff)
  with Cons p show ?case
    by (auto simp: Let_def quantity_get_insert split: option.splits)
qed

lemma quantity_get_saturating_sub [quantity_simps]:
  "quantity_get (quantity_saturating_sub l r) d =
     saturating_sub (quantity_get l d) (quantity_get r d)"
proof -
  have "quantity_get (quantity_saturating_sub l r) d =
     (case btree_get l d of
        None \<Rightarrow> 0
      | Some a \<Rightarrow> (let remain = saturating_sub a (quantity_get r d) in
                   if remain > 0 then remain else 0))"
    unfolding quantity_saturating_sub_def
    by (subst quantity_get_sub_loop [OF btree_entries_distinct])
      (simp add: btree_get.rep_eq Let_def split: option.split)
  then show ?thesis
    by (auto simp: quantity_get_def [of l] btree_get_or_def Let_def word_gt_0 split: option.splits)
qed

section \<open>Identifiers: validation, round trip and order\<close>

lemma first_invalid_None: "first_invalid i v = None \<longleftrightarrow> list_all identifier_char v"
  by (induction v arbitrary: i) auto

lemma first_invalid_Some:
  "first_invalid i v = Some j \<longleftrightarrow>
     (\<exists>k < length v. j = i + k \<and> \<not> identifier_char (v ! k) \<and> list_all identifier_char (take k v))"
proof (induction v arbitrary: i)
  case Nil
  then show ?case by simp
next
  case (Cons c v)
  show ?case
  proof (cases "identifier_char c")
    case True
    then have "first_invalid i (c # v) = Some j \<longleftrightarrow>
        (\<exists>k < length v. j = Suc i + k \<and> \<not> identifier_char (v ! k) \<and> list_all identifier_char (take k v))"
      using Cons.IH by simp
    also have "\<dots> \<longleftrightarrow> (\<exists>k < length (c # v). j = i + k \<and> \<not> identifier_char ((c # v) ! k) \<and>
        list_all identifier_char (take k (c # v)))"
      using True by (auto simp: Ex_less_Suc2)
    finally show ?thesis .
  next
    case False
    then show ?thesis by (auto simp: nth_Cons' take_Cons' intro: exI [of _ 0])
  qed
qed

lemma identifier_char_pos: "identifier_char c \<Longrightarrow> CHR 0x00 < c"
  by (auto simp: identifier_char_def is_ascii_lowercase_def is_ascii_digit_def less_char_def
      less_eq_char_def)

lemma padded_order:
  assumes "length v \<le> n" and "length w \<le> n"
    and "list_all (\<lambda>c. CHR 0x00 < c) v" and "list_all (\<lambda>c. CHR 0x00 < c) w"
  shows "v @ replicate (n - length v) (CHR 0x00) \<le> w @ replicate (n - length w) (CHR 0x00) \<longleftrightarrow> v \<le> w"
  using assms
proof (induction v arbitrary: w n)
  case Nil
  have "replicate n (CHR 0x00) \<le> w @ replicate (n - length w) (CHR 0x00)"
  proof (cases w)
    case Nil
    then show ?thesis by simp
  next
    case (Cons c cs)
    with Nil.prems show ?thesis by (cases n) auto
  qed
  then show ?case by simp
next
  case (Cons c v)
  show ?case
  proof (cases w)
    case Nil
    with Cons.prems show ?thesis by (cases n) auto
  next
    case (Cons d w')
    with Cons.prems Cons.IH [of "n - 1" w'] show ?thesis by (cases n) auto
  qed
qed

lemma identifier_new_Ok:
  "identifier_new v = Ok i \<longleftrightarrow>
     v \<noteq> [] \<and> length v \<le> MAX_IDENTIFIER_LEN \<and> is_ascii_alphanumeric (hd v) \<and>
     is_ascii_alphanumeric (last v) \<and> list_all identifier_char v \<and>
     i = \<lparr>i_bytes = v @ replicate (MAX_IDENTIFIER_LEN - length v) (CHR 0x00), i_len = length v\<rparr>"
proof (cases "list_all identifier_char v")
  case True
  then have "first_invalid 0 v = None" by (simp add: first_invalid_None)
  with True show ?thesis
    by (auto simp: identifier_new_def validate_identifier_def split: if_splits)
next
  case False
  then obtain k where "first_invalid 0 v = Some k"
    by (metis first_invalid_None option.exhaust)
  with False show ?thesis
    by (auto simp: identifier_new_def validate_identifier_def split: if_splits)
qed

text \<open>
  A name that is accepted is stored without loss: \<^verbatim>\<open>as_str\<close> returns the text it was built from,
  the byte array has its full length, and the derived order on stored names is the lexicographic
  order of the texts, so a name can be represented by its text.
\<close>

theorem identifier_roundtrip_order:
  assumes "identifier_new v = Ok i" and "identifier_new w = Ok j"
  shows "identifier_as_str i = v \<and> length (i_bytes i) = MAX_IDENTIFIER_LEN \<and>
    (identifier_le i j \<longleftrightarrow> v \<le> w) \<and> (i = j \<longleftrightarrow> v = w)"
proof -
  let ?pad = "\<lambda>s. s @ replicate (MAX_IDENTIFIER_LEN - length s) (CHR 0x00)"
  have i: "i = \<lparr>i_bytes = ?pad v, i_len = length v\<rparr>" and j: "j = \<lparr>i_bytes = ?pad w, i_len = length w\<rparr>"
    and len: "length v \<le> MAX_IDENTIFIER_LEN" "length w \<le> MAX_IDENTIFIER_LEN"
    and pos: "list_all (\<lambda>c. CHR 0x00 < c) v" "list_all (\<lambda>c. CHR 0x00 < c) w"
    using assms by (auto simp: identifier_new_Ok list_all_iff intro: identifier_char_pos)
  have le: "?pad v \<le> ?pad w \<longleftrightarrow> v \<le> w" and ge: "?pad w \<le> ?pad v \<longleftrightarrow> w \<le> v"
    by (rule padded_order [OF len pos]) (rule padded_order [OF len(2,1) pos(2,1)])
  then have eq: "?pad v = ?pad w \<longleftrightarrow> v = w" by (metis order.antisym order.refl)
  then have "identifier_le i j \<longleftrightarrow> v \<le> w"
    using le by (auto simp: identifier_le_def i j less_eq_prod_def order.order_iff_strict)
  moreover have "i = j \<longleftrightarrow> v = w" using eq by (auto simp: i j)
  ultimately show ?thesis using len by (simp add: i identifier_as_str_def)
qed

theorem identifier_roundtrip_order_witness:
  "\<exists>i j. identifier_new ''cpu'' = Ok i \<and> identifier_new ''gpu/a.1'' = Ok j \<and>
     identifier_as_str i = ''cpu'' \<and> identifier_le i j"
proof -
  let ?i = "\<lparr>i_bytes = ''cpu'' @ replicate 60 (CHR 0x00), i_len = 3\<rparr>"
  let ?j = "\<lparr>i_bytes = ''gpu/a.1'' @ replicate 56 (CHR 0x00), i_len = 7\<rparr>"
  have i: "identifier_new ''cpu'' = Ok ?i" by code_simp
  have j: "identifier_new ''gpu/a.1'' = Ok ?j" by code_simp
  have "''cpu'' \<le> ''gpu/a.1''" by code_simp
  with i j identifier_roundtrip_order [OF i j] show ?thesis by blast
qed

end
