(* ===== verification/Step_Systems.thy ===== *)
theory Step_Systems
  imports Main
begin

text \<open>
  Deterministic step systems as the components use them: a state, an event that changes it, and
  what every event keeps. The two locales are interpreted for the endpoint state machine and for
  the cluster; a run is a fold over a sequence of events, so any interleaving of the callers'
  operations is one such sequence.
\<close>

locale invariant_system =
  fixes step :: "'e \<Rightarrow> 's \<Rightarrow> 's"
    and inv :: "'s \<Rightarrow> bool"
  assumes inv_step: "inv s \<Longrightarrow> inv (step e s)"
begin

lemma inv_run: "inv s \<Longrightarrow> inv (fold step es s)"
  by (induction es arbitrary: s) (auto intro: inv_step)

end

locale monotone_system = invariant_system step inv
  for step :: "'e \<Rightarrow> 's \<Rightarrow> 's" and inv :: "'s \<Rightarrow> bool" +
  fixes counter :: "'s \<Rightarrow> 'c::preorder"
  assumes counter_step: "inv s \<Longrightarrow> counter s \<le> counter (step e s)"
begin

lemma counter_run: "inv s \<Longrightarrow> counter s \<le> counter (fold step es s)"
proof (induction es arbitrary: s)
  case Nil
  then show ?case by simp
next
  case (Cons e es)
  have "counter s \<le> counter (step e s)" using Cons.prems by (rule counter_step)
  also have "\<dots> \<le> counter (fold step es (step e s))"
    using Cons.prems by (intro Cons.IH inv_step)
  finally show ?case by simp
qed

text \<open>A property of one counter value that every event keeps holds along a run.\<close>

lemma stable_run:
  assumes "inv s" and "P s" and "\<And>e s. inv s \<Longrightarrow> P s \<Longrightarrow> P (step e s)"
  shows "P (fold step es s)"
  using assms(1,2)
  by (induction es arbitrary: s) (auto intro: inv_step assms(3))

end

end
