(* ===== verification/Kernel_Endpoint.thy ===== *)
theory Kernel_Endpoint
  imports Kernel_Types Step_Systems
begin

text \<open>
  The provider-side endpoint of \<^verbatim>\<open>crates/kernel/src/endpoint.rs\<close>: it accepts prepare, activate,
  release and fence operations that carry a fencing generation and an agent session. The lemmas
  show that the endpoint refuses everything that belongs to a superseded generation or session,
  whatever the order in which operations arrive.
\<close>

datatype endpoint_op = OpPrepare | OpActivate | OpRelease | OpFence

datatype endpoint_error =
    EpStaleSession u64 u64
  | EpStaleFence u64 u64
  | EpConflict
  | EpWrongPhase endpoint_phase

type_synonym endpoint_result = "endpoint \<times> (unit, endpoint_error) result"

definition endpoint_prepare :: "endpoint \<Rightarrow> binding_id \<Rightarrow> u64 \<Rightarrow> endpoint_result" where
  "endpoint_prepare ep binding fence =
     (if fence < ep_accepted_fence ep then (ep, Err (EpStaleFence (ep_accepted_fence ep) fence))
      else if fence = ep_accepted_fence ep then
        (if ep_open ep \<and> ep_binding ep = Some binding \<and> ep_phase ep = Prepared then (ep, Ok ())
         else (ep, Err EpConflict))
      else (ep\<lparr>ep_accepted_fence := fence, ep_open := True, ep_binding := Some binding,
               ep_phase := Prepared\<rparr>, Ok ()))"

definition endpoint_activate :: "endpoint \<Rightarrow> binding_id \<Rightarrow> u64 \<Rightarrow> endpoint_result" where
  "endpoint_activate ep binding fence =
     (if \<not> ep_open ep \<or> ep_binding ep \<noteq> Some binding \<or> fence \<noteq> ep_accepted_fence ep then
        (ep, Err EpConflict)
      else if ep_phase ep \<noteq> Prepared \<and> ep_phase ep \<noteq> PhaseActive then
        (ep, Err (EpWrongPhase (ep_phase ep)))
      else (ep\<lparr>ep_phase := PhaseActive\<rparr>, Ok ()))"

definition endpoint_close :: "endpoint \<Rightarrow> u64 \<Rightarrow> endpoint_result" where
  "endpoint_close ep fence =
     (if fence < ep_accepted_fence ep then (ep, Ok ())
      else (ep\<lparr>ep_accepted_fence := fence, ep_open := False, ep_binding := None, ep_phase := Idle\<rparr>,
            Ok ()))"

definition endpoint_apply ::
    "endpoint \<Rightarrow> endpoint_op \<Rightarrow> binding_id \<Rightarrow> u64 \<Rightarrow> u64 \<Rightarrow> endpoint_result" where
  "endpoint_apply ep op binding fence session =
     (if session \<noteq> ep_session ep then (ep, Err (EpStaleSession (ep_session ep) session))
      else case op of
             OpPrepare \<Rightarrow> endpoint_prepare ep binding fence
           | OpActivate \<Rightarrow> endpoint_activate ep binding fence
           | OpRelease \<Rightarrow> endpoint_close ep fence
           | OpFence \<Rightarrow> endpoint_close ep fence)"

definition endpoint_handshake :: "endpoint \<Rightarrow> u64 \<Rightarrow> endpoint" where
  "endpoint_handshake ep session = (if session > ep_session ep then ep\<lparr>ep_session := session\<rparr> else ep)"

lemmas endpoint_defs =
  endpoint_apply_def endpoint_prepare_def endpoint_activate_def endpoint_close_def
  endpoint_handshake_def

section \<open>Well-formedness and runs\<close>

text \<open>An endpoint is open exactly while it holds a binding, and idle exactly while it is closed.\<close>

definition endpoint_wf :: "endpoint \<Rightarrow> bool" where
  "endpoint_wf ep \<longleftrightarrow> (ep_open ep \<longleftrightarrow> ep_binding ep \<noteq> None) \<and> (ep_open ep \<longleftrightarrow> ep_phase ep \<noteq> Idle)"

text \<open>The two ways a caller reaches an endpoint.\<close>

datatype endpoint_event = Operate endpoint_op binding_id u64 u64 | Handshake u64

fun endpoint_step :: "endpoint_event \<Rightarrow> endpoint \<Rightarrow> endpoint" where
  "endpoint_step (Operate op binding fence session) ep = fst (endpoint_apply ep op binding fence session)"
| "endpoint_step (Handshake session) ep = endpoint_handshake ep session"

lemma endpoint_wf_new: "endpoint_wf (endpoint_new p n s)"
  by (simp add: endpoint_wf_def endpoint_new_def)

lemma endpoint_step_wf: "endpoint_wf ep \<Longrightarrow> endpoint_wf (endpoint_step e ep)"
  by (cases e) (auto simp: endpoint_defs endpoint_wf_def split: endpoint_op.splits)

lemma endpoint_step_fence: "ep_accepted_fence ep \<le> ep_accepted_fence (endpoint_step e ep)"
  by (cases e) (auto simp: endpoint_defs split: endpoint_op.splits)

lemma endpoint_step_session: "ep_session ep \<le> ep_session (endpoint_step e ep)"
  by (cases e) (auto simp: endpoint_defs split: endpoint_op.splits)

interpretation ep_fence: monotone_system endpoint_step endpoint_wf ep_accepted_fence
  by unfold_locales (auto intro: endpoint_step_wf endpoint_step_fence)

interpretation ep_session: monotone_system endpoint_step endpoint_wf ep_session
  by unfold_locales (auto intro: endpoint_step_session)

text \<open>The generation an endpoint has closed: superseded, or current and shut.\<close>

definition generation_closed :: "u64 \<Rightarrow> endpoint \<Rightarrow> bool" where
  "generation_closed fence ep \<longleftrightarrow>
     fence < ep_accepted_fence ep \<or> (fence = ep_accepted_fence ep \<and> \<not> ep_open ep)"

lemma generation_closed_step:
  "generation_closed fence ep \<Longrightarrow> generation_closed fence (endpoint_step e ep)"
  by (cases e) (auto simp: endpoint_defs generation_closed_def split: endpoint_op.splits)

section \<open>Properties\<close>

text \<open>
  An endpoint that refuses an operation is left exactly as it was, and an operation from any
  session other than the current one is always refused.
\<close>

theorem endpoint_error_atomic:
  "(snd (endpoint_apply ep op binding fence session) = Err e \<longrightarrow>
      fst (endpoint_apply ep op binding fence session) = ep) \<and>
   (session \<noteq> ep_session ep \<longrightarrow>
      endpoint_apply ep op binding fence session = (ep, Err (EpStaleSession (ep_session ep) session)))"
  by (auto simp: endpoint_defs split: endpoint_op.splits if_splits)

theorem endpoint_error_atomic_witness:
  "endpoint_apply (endpoint_new 1 7 3) OpPrepare 5 1 2 = (endpoint_new 1 7 3, Err (EpStaleSession 3 2)) \<and>
   fst (endpoint_apply (endpoint_new 1 7 3) OpActivate 5 1 3) = endpoint_new 1 7 3"
proof -
  have "ep_session (endpoint_new 1 7 3) = 3" by (simp add: endpoint_new_def)
  moreover have "snd (endpoint_apply (endpoint_new 1 7 3) OpActivate 5 1 3) = Err EpConflict"
    by (simp add: endpoint_defs endpoint_new_def)
  ultimately show ?thesis
    using endpoint_error_atomic [of "endpoint_new 1 7 3" OpPrepare 5 1 2 "EpStaleSession 3 2"]
      endpoint_error_atomic [of "endpoint_new 1 7 3" OpActivate 5 1 3 EpConflict]
    by simp
qed

text \<open>
  Fencing is final. Once an endpoint has accepted a release or fence of a generation, then
  after any further sequence of operations and handshakes, from any callers and in any order, a
  prepare or an activate of that generation (or an older one) is refused, for every binding.
\<close>

theorem fenced_generation_stays_dead:
  assumes "endpoint_wf ep" and "session = ep_session ep" and "op = OpRelease \<or> op = OpFence"
    and "ep' = fold endpoint_step es (fst (endpoint_apply ep op binding fence session))"
    and "old \<le> fence" and "late = OpPrepare \<or> late = OpActivate"
  shows "\<exists>e. endpoint_apply ep' late b old s = (ep', Err e)"
proof -
  let ?closed = "fst (endpoint_apply ep op binding fence session)"
  have wf: "endpoint_wf ?closed"
    using endpoint_step_wf [OF assms(1), of "Operate op binding fence session"] by simp
  have "generation_closed old ?closed"
    using assms(2,3,5)
    by (cases "fence < ep_accepted_fence ep") (auto simp: endpoint_defs generation_closed_def)
  then have "generation_closed old ep'"
    unfolding assms(4)
    by (rule ep_fence.stable_run [where P = "generation_closed old", OF wf])
      (rule generation_closed_step)
  then show ?thesis
    using assms(6) by (auto simp: endpoint_defs generation_closed_def)
qed

theorem fenced_generation_stays_dead_witness:
  "\<exists>e. endpoint_apply
     (fold endpoint_step [Operate OpPrepare 8 5 3, Operate OpActivate 8 5 3, Operate OpRelease 8 5 3, Handshake 4]
       (fst (endpoint_apply (endpoint_new 1 7 3) OpFence 6 4 3))) OpPrepare 6 4 4 =
    (fold endpoint_step [Operate OpPrepare 8 5 3, Operate OpActivate 8 5 3, Operate OpRelease 8 5 3, Handshake 4]
       (fst (endpoint_apply (endpoint_new 1 7 3) OpFence 6 4 3)), Err e)"
  by (rule fenced_generation_stays_dead [where ep = "endpoint_new 1 7 3" and op = OpFence and fence = 4
        and binding = 6 and session = 3, OF endpoint_wf_new _ _ refl])
    (simp_all add: endpoint_new_def)

text \<open>
  Along every run the accepted fence and the session only grow, and an endpoint that becomes
  active was prepared for that very binding and generation in the state before.
\<close>

theorem endpoint_run_monotone:
  assumes "endpoint_wf ep" and "ep' = fold endpoint_step es ep"
    and "endpoint_apply ep' OpActivate b fence s = (ep'', Ok ())"
  shows "ep_accepted_fence ep \<le> ep_accepted_fence ep'' \<and> ep_session ep \<le> ep_session ep'' \<and>
    s = ep_session ep' \<and> ep_open ep' \<and> ep_binding ep' = Some b \<and> fence = ep_accepted_fence ep' \<and>
    ep_phase ep' \<in> {Prepared, PhaseActive} \<and> ep'' = ep'\<lparr>ep_phase := PhaseActive\<rparr>"
proof -
  have act: "s = ep_session ep' \<and> ep_open ep' \<and> ep_binding ep' = Some b \<and> fence = ep_accepted_fence ep' \<and>
      ep_phase ep' \<in> {Prepared, PhaseActive} \<and> ep'' = ep'\<lparr>ep_phase := PhaseActive\<rparr>"
    using assms(3) by (auto simp: endpoint_defs split: if_splits)
  moreover have "ep_accepted_fence ep \<le> ep_accepted_fence ep'"
    unfolding assms(2) by (rule ep_fence.counter_run [OF assms(1)])
  moreover have "ep_session ep \<le> ep_session ep'"
    unfolding assms(2) by (rule ep_session.counter_run [OF assms(1)])
  ultimately show ?thesis by auto
qed

theorem endpoint_run_monotone_witness:
  "ep_accepted_fence (endpoint_new 1 7 3) \<le>
     ep_accepted_fence ((fold endpoint_step [Operate OpPrepare 8 5 3] (endpoint_new 1 7 3))\<lparr>ep_phase := PhaseActive\<rparr>)"
  using endpoint_run_monotone [where ep = "endpoint_new 1 7 3" and es = "[Operate OpPrepare 8 5 3]" and b = 8
      and fence = 5 and s = 3
      and ep'' = "(fold endpoint_step [Operate OpPrepare 8 5 3] (endpoint_new 1 7 3))\<lparr>ep_phase := PhaseActive\<rparr>",
      OF endpoint_wf_new refl]
  by (simp add: endpoint_defs endpoint_new_def)

end
