(* ===== verification/Kernel_Error.thy ===== *)
theory Kernel_Error
  imports Kernel_Types
begin

text \<open>
  The kernel's error type and its \<^verbatim>\<open>Display\<close> rendering (\<^verbatim>\<open>crates/kernel/src/error.rs\<close>). The variants
  \<^verbatim>\<open>Quarantined\<close>, \<^verbatim>\<open>LeaseState\<close> and \<^verbatim>\<open>BindingState\<close> carry the suffix \<open>Err\<close>, since a state of
  the same name exists.
\<close>

datatype error =
    UnknownNode node_id
  | UnknownLease lease_id
  | UnknownBinding binding_id
  | DuplicateLease lease_id
  | DuplicateBinding binding_id
  | NotAgreed
  | QuarantinedErr node_id
  | StaleSession u64 u64
  | StaleEpoch u64 u64
  | StaleGraphRevision u64 u64
  | Overlap node_id
  | ChildEscapesParent lease_id lease_id
  | ParentNotActive lease_id
  | LeaseStateErr lease_id lease_state
  | BindingStateErr binding_id binding_state
  | BindingsNotPrepared lease_id
  | NoAgent node_id
  | RenewNotLater
  | ExpireNotDue
  | PrepareDeadlinePassed lease_id
  | LeaseExpired lease_id
  | HasLiveDescendants lease_id
  | FenceMismatch binding_id u64 u64
  | InvalidTopology string
  | CapacityBelowOccupancy node_id
  | DuplicateClaim node_id
  | UnclaimableNode node_id
  | ChildBindingRefused lease_id
  | UnquarantineBlocked node_id
  | ResourceBusy node_id
  | Refused string
  | Invalid string

fun debug_lease_state :: "lease_state \<Rightarrow> string" where
  "debug_lease_state LReserved = ''Reserved''"
| "debug_lease_state LPreparing = ''Preparing''"
| "debug_lease_state LActive = ''Active''"
| "debug_lease_state LReleased = ''Released''"
| "debug_lease_state LExpired = ''Expired''"
| "debug_lease_state LRevoked = ''Revoked''"
| "debug_lease_state LFailed = ''Failed''"
| "debug_lease_state LCompleted = ''Completed''"

fun debug_binding_state :: "binding_state \<Rightarrow> string" where
  "debug_binding_state BPreparing = ''Preparing''"
| "debug_binding_state BActive = ''Active''"
| "debug_binding_state BReleased = ''Released''"
| "debug_binding_state BFenced = ''Fenced''"
| "debug_binding_state BFailed = ''Failed''"

definition display_lease :: "lease_id \<Rightarrow> string" where
  "display_lease w = display_id ''LeaseId'' w"

definition display_binding :: "binding_id \<Rightarrow> string" where
  "display_binding w = display_id ''BindingId'' w"

fun display_error :: "error \<Rightarrow> string" where
  "display_error (UnknownNode i) = ''unknown node '' @ display_node i"
| "display_error (UnknownLease i) = ''unknown lease '' @ display_lease i"
| "display_error (UnknownBinding i) = ''unknown binding '' @ display_binding i"
| "display_error (DuplicateLease i) = ''duplicate lease '' @ display_lease i"
| "display_error (DuplicateBinding i) = ''duplicate binding '' @ display_binding i"
| "display_error NotAgreed = ''cluster has no agreement''"
| "display_error (QuarantinedErr i) = ''node '' @ display_node i @ '' is quarantined''"
| "display_error (StaleSession expected got) =
     ''stale session: expected '' @ show_u64 expected @ '', got '' @ show_u64 got"
| "display_error (StaleEpoch current got) =
     ''stale epoch: current '' @ show_u64 current @ '', got '' @ show_u64 got"
| "display_error (StaleGraphRevision current got) =
     ''stale graph revision: current '' @ show_u64 current @ '', got '' @ show_u64 got"
| "display_error (Overlap i) = ''exclusive overlap on '' @ display_node i"
| "display_error (ChildEscapesParent c p) =
     ''child '' @ display_lease c @ '' escapes parent '' @ display_lease p"
| "display_error (ParentNotActive p) = ''parent '' @ display_lease p @ '' is not active''"
| "display_error (LeaseStateErr l s) =
     ''lease '' @ display_lease l @ '' in state '' @ debug_lease_state s"
| "display_error (BindingStateErr b s) =
     ''binding '' @ display_binding b @ '' in state '' @ debug_binding_state s"
| "display_error (BindingsNotPrepared l) =
     ''lease '' @ display_lease l @ '' is missing prepared bindings''"
| "display_error (NoAgent m) = ''no agent session for '' @ display_node m"
| "display_error RenewNotLater = ''renewal must extend expires_at''"
| "display_error ExpireNotDue = ''lease has not reached expires_at''"
| "display_error (PrepareDeadlinePassed l) =
     ''lease '' @ display_lease l @ '' passed its prepare deadline''"
| "display_error (LeaseExpired l) =
     ''lease '' @ display_lease l @ '' expired before activation''"
| "display_error (HasLiveDescendants l) =
     ''lease '' @ display_lease l @ '' still has live descendants''"
| "display_error (FenceMismatch b expected got) =
     ''binding '' @ display_binding b @ '' fence '' @ show_u64 got @ '' does not match '' @ show_u64 expected"
| "display_error (InvalidTopology reason) = ''invalid topology: '' @ reason"
| "display_error (CapacityBelowOccupancy i) =
     ''node '' @ display_node i @ '' capacity would drop below occupied units''"
| "display_error (DuplicateClaim i) =
     ''allocation claims node '' @ display_node i @ '' more than once''"
| "display_error (UnclaimableNode i) =
     ''node '' @ display_node i @ '' is not a claimable resource''"
| "display_error (ChildBindingRefused l) =
     ''lease '' @ display_lease l @ '' is a child; only root leases hold Bindings''"
| "display_error (UnquarantineBlocked i) =
     ''cannot unquarantine '' @ display_node i @ '' before fence ack''"
| "display_error (ResourceBusy i) =
     ''resource '' @ display_node i @ '' still has live authority''"
| "display_error (Refused explanation) = ''refused: '' @ explanation"
| "display_error (Invalid reason) = ''invalid command: '' @ reason"

end
