(* ===== verification/Parent_Forest.thy ===== *)
theory Parent_Forest
  imports Archon_Prelude
begin

text \<open>
  Parent-pointer forests. Two parts of the kernel keep one: the resource graph (the container of a
  node) and the lease table (the lease a child lease was delegated from). Both are walked by loops
  whose termination rests on the absence of cycles:
  \<^item> upwards, \<^verbatim>\<open>while let Some(node) = current { out.push(node); current = parent(node) }\<close>;
  \<^item> downwards with an explicit stack, and
  \<^item> downwards by a recursion that emits a node after its subtree.
  The first two are \<open>partial_function\<close>s, so that a walk that never ends has no value; the last one
  counts its depth. The locale \<open>forest\<close> states what the owner of such a table has to keep true,
  and the lemmas proved in it show that the walks end and which nodes they visit.
\<close>

partial_function (option) walk_up ::
    "('a \<Rightarrow> 'a option) \<Rightarrow> 'a option \<Rightarrow> 'a list \<Rightarrow> 'a list option" where
  "walk_up par current out =
     (case current of None \<Rightarrow> Some out
      | Some node \<Rightarrow> walk_up par (par node) (out @ [node]))"

text \<open>The stack keeps its top at the head; \<open>kids\<close> is pushed as a whole, so its last element ends
  on top.\<close>

partial_function (option) walk_stack ::
    "('a \<Rightarrow> 'a list) \<Rightarrow> 'a list \<Rightarrow> 'a list \<Rightarrow> 'a list option" where
  "walk_stack kids stack out =
     (case stack of [] \<Rightarrow> Some out
      | node # rest \<Rightarrow> walk_stack kids (rev (kids node) @ rest) (out @ [node]))"

fun walk_post :: "('a \<Rightarrow> 'a list) \<Rightarrow> nat \<Rightarrow> 'a \<Rightarrow> 'a list" where
  "walk_post kids 0 node = []"
| "walk_post kids (Suc depth) node =
     concat (map (\<lambda>child. walk_post kids depth child @ [child]) (kids node))"

lemma walk_up_simps [simp]:
  "walk_up par None out = Some out"
  "walk_up par (Some x) out = walk_up par (par x) (out @ [x])"
  by (simp_all add: walk_up.simps [of par "None"] walk_up.simps [of par "Some x"])

lemma walk_stack_simps [simp]:
  "walk_stack kids [] out = Some out"
  "walk_stack kids (x # st) out = walk_stack kids (rev (kids x) @ st) (out @ [x])"
  by (simp_all add: walk_stack.simps [of kids "[]"] walk_stack.simps [of kids "x # st"])

declare walk_up.simps [code] walk_stack.simps [code]

locale forest =
  fixes inv :: "'s \<Rightarrow> bool"
    and par :: "'s \<Rightarrow> 'a \<Rightarrow> 'a option"
    and kids :: "'s \<Rightarrow> 'a \<Rightarrow> 'a list"
    and bound :: "'s \<Rightarrow> nat"
  assumes par_wf: "inv s \<Longrightarrow> wfp (\<lambda>p x. par s x = Some p)"
    and par_finite: "inv s \<Longrightarrow> finite (dom (par s))"
    and par_bound: "inv s \<Longrightarrow> card (dom (par s)) \<le> bound s"
    and kids_par: "inv s \<Longrightarrow> set (kids s p) = {x. par s x = Some p}"
begin

text \<open>One step up, and its transitive closure: the strict ancestors.\<close>

definition up :: "'s \<Rightarrow> 'a \<Rightarrow> 'a \<Rightarrow> bool" where
  "up s x p \<longleftrightarrow> par s x = Some p"

lemma up_wf: "inv s \<Longrightarrow> wfp (up s)\<inverse>\<inverse>"
  using par_wf [of s] by (simp add: up_def [abs_def] conversep_iff [abs_def])

lemma up_irrefl:
  assumes "inv s"
  shows "\<not> (up s)\<^sup>+\<^sup>+ x x"
proof -
  have "acyclic {(p, x). up s x p}"
    using up_wf [OF assms] by (simp add: wfp_def wf_acyclic)
  then have "acyclic ({(p, x). up s x p}\<inverse>)" by (simp only: acyclic_converse)
  then have "acyclic {(x, p). up s x p}" by (simp add: converse_unfold)
  then show ?thesis by (simp add: acyclic_def tranclp_unfold)
qed

lemma kids_up: "inv s \<Longrightarrow> set (kids s p) = {x. up s x p}"
  by (simp add: kids_par up_def)

lemma down_wf:
  assumes "inv s"
  shows "wfp (up s)"
proof -
  have "finite {(x, p). up s x p}"
  proof (rule finite_subset)
    show "{(x, p). up s x p} \<subseteq> (\<lambda>x. (x, the (par s x))) ` dom (par s)"
      by (force simp: up_def)
    show "finite ((\<lambda>x. (x, the (par s x))) ` dom (par s))"
      using par_finite [OF assms] by simp
  qed
  moreover have "acyclic {(x, p). up s x p}"
    using up_irrefl [OF assms] by (simp add: acyclic_def tranclp_unfold)
  ultimately have "wf {(x, p). up s x p}" by (rule finite_acyclic_wf)
  then show ?thesis by (simp add: wfp_def)
qed

lemma walk_up_total:
  assumes "inv s"
  shows "\<exists>xs. (\<forall>out. walk_up (par s) (par s x) out = Some (out @ xs)) \<and>
    set xs = {a. (up s)\<^sup>+\<^sup>+ x a}"
proof (induction x rule: wfp_induct_rule [OF up_wf [OF assms]])
  case (1 x)
  show ?case
  proof (cases "par s x")
    case None
    then have "{a. (up s)\<^sup>+\<^sup>+ x a} = {}" by (auto simp: up_def dest: tranclpD)
    with None show ?thesis by auto
  next
    case (Some p)
    then have "(up s)\<inverse>\<inverse> p x" by (simp add: up_def)
    then obtain xs where xs: "\<forall>out. walk_up (par s) (par s p) out = Some (out @ xs)"
        and set_xs: "set xs = {a. (up s)\<^sup>+\<^sup>+ p a}"
      using "1" by blast
    have "{a. (up s)\<^sup>+\<^sup>+ x a} = insert p {a. (up s)\<^sup>+\<^sup>+ p a}"
    proof -
      have "(up s)\<^sup>+\<^sup>+ x a \<longleftrightarrow> a = p \<or> (up s)\<^sup>+\<^sup>+ p a" for a
      proof
        assume "(up s)\<^sup>+\<^sup>+ x a"
        then obtain z where "up s x z" and "(up s)\<^sup>*\<^sup>* z a" by (blast dest: tranclpD)
        with Some show "a = p \<or> (up s)\<^sup>+\<^sup>+ p a" by (auto simp: up_def dest: rtranclpD)
      next
        assume "a = p \<or> (up s)\<^sup>+\<^sup>+ p a"
        moreover have "up s x p" using Some by (simp add: up_def)
        ultimately show "(up s)\<^sup>+\<^sup>+ x a" by (auto intro: tranclp_into_tranclp2)
      qed
      then show ?thesis by auto
    qed
    with Some xs set_xs show ?thesis
      by (intro exI [of _ "p # xs"]) simp
  qed
qed

lemma relpow_up_bound:
  assumes "inv s" and "(up s ^^ k) x a"
  shows "k \<le> bound s"
proof -
  have "\<exists>xs. length xs = k \<and> distinct xs \<and> set xs \<subseteq> dom (par s) \<and> (\<forall>y\<in>set xs. (up s)\<^sup>*\<^sup>* x y)"
    using assms(2)
  proof (induction k arbitrary: x)
    case 0
    then show ?case by auto
  next
    case (Suc k)
    then obtain y where y: "up s x y" and "(up s ^^ k) y a"
      by (meson relpowp_Suc_D2)
    with Suc.IH obtain xs where xs: "length xs = k" "distinct xs" "set xs \<subseteq> dom (par s)"
        "\<forall>z\<in>set xs. (up s)\<^sup>*\<^sup>* y z"
      by blast
    have "\<forall>z\<in>set xs. (up s)\<^sup>+\<^sup>+ x z"
      using xs(4) y by (meson rtranclp_into_tranclp2)
    then have "x \<notin> set xs" using up_irrefl [OF assms(1)] by blast
    moreover have "x \<in> dom (par s)" using y by (auto simp: up_def)
    ultimately show ?case
      using xs y by (intro exI [of _ "x # xs"]) (auto intro: converse_rtranclp_into_rtranclp)
  qed
  then show ?thesis
    using par_bound [OF assms(1)] card_mono [OF par_finite [OF assms(1)]]
    by (metis distinct_card le_trans)
qed

lemma set_walk_post:
  assumes "inv s"
  shows "set (walk_post (kids s) n x) = {y. \<exists>k. 0 < k \<and> k \<le> n \<and> (up s ^^ k) y x}"
proof (induction n arbitrary: x)
  case 0
  then show ?case by auto
next
  case (Suc n)
  have "set (walk_post (kids s) (Suc n) x) =
      {y. \<exists>c. up s c x \<and> (y = c \<or> (\<exists>k. 0 < k \<and> k \<le> n \<and> (up s ^^ k) y c))}"
    using Suc kids_up [OF assms] by auto
  also have "\<dots> = {y. \<exists>k. k \<le> n \<and> (\<exists>c. (up s ^^ k) y c \<and> up s c x)}"
    by (auto intro: exI [of _ 0]) (metis bot_nat_0.not_eq_extremum relpowp_0_E)
  also have "\<dots> = {y. \<exists>k. 0 < k \<and> k \<le> Suc n \<and> (up s ^^ k) y x}"
    by (auto simp: gr0_conv_Suc) (metis Suc_le_mono relpowp_Suc_I, metis Suc_le_mono relpowp_Suc_E)
  finally show ?case .
qed

lemma set_walk_post_complete:
  assumes "inv s" and "bound s \<le> n"
  shows "set (walk_post (kids s) n x) = {y. (up s)\<^sup>+\<^sup>+ y x}"
proof -
  have "(up s)\<^sup>+\<^sup>+ y x \<longleftrightarrow> (\<exists>k. 0 < k \<and> k \<le> n \<and> (up s ^^ k) y x)" for y
    using relpow_up_bound [OF assms(1), of _ y x] assms(2)
    by (auto simp: tranclp_power dest: le_trans)
  then show ?thesis by (simp add: set_walk_post [OF assms(1)])
qed

lemma walk_post_unfold:
  assumes "inv s" and "bound s < n"
  shows "walk_post (kids s) n x =
    concat (map (\<lambda>c. walk_post (kids s) n c @ [c]) (kids s x))"
proof -
  have stable: "walk_post (kids s) (Suc d) y = walk_post (kids s) d y"
    if "\<And>z. \<not> (up s ^^ Suc d) z y" for d y
    using that
  proof (induction d arbitrary: y)
    case 0
    then have "kids s y = []"
      using kids_up [OF assms(1), of y] by (cases "kids s y") auto
    then show ?case by simp
  next
    case (Suc d)
    have "walk_post (kids s) (Suc d) c = walk_post (kids s) d c" if "c \<in> set (kids s y)" for c
    proof (rule Suc.IH)
      fix z
      show "\<not> (up s ^^ Suc d) z c"
        using Suc.prems [of z] that kids_up [OF assms(1), of y] by auto
    qed
    then show ?case by (simp cong: map_cong)
  qed
  have "\<not> (up s ^^ n) z x" for z x
    using relpow_up_bound [OF assms(1), of n z x] assms(2) by auto
  moreover obtain d where n: "n = Suc d" using assms(2) by (cases n) auto
  ultimately have "walk_post (kids s) (Suc d) c = walk_post (kids s) d c" for c
    by (intro stable) auto
  with n show ?thesis by simp
qed

lemma walk_stack_total:
  assumes "inv s"
  shows "\<exists>xs. (\<forall>st out. walk_stack (kids s) (rev (kids s x) @ st) out = walk_stack (kids s) st (out @ xs)) \<and>
    set xs = {y. (up s)\<^sup>+\<^sup>+ y x}"
proof (induction x rule: wfp_induct_rule [OF down_wf [OF assms]])
  case (1 x)
  have list: "\<exists>xs. (\<forall>st out. walk_stack (kids s) (cs @ st) out = walk_stack (kids s) st (out @ xs)) \<and>
      set xs = set cs \<union> {y. \<exists>c\<in>set cs. (up s)\<^sup>+\<^sup>+ y c}"
    if "\<forall>c\<in>set cs. up s c x" for cs
    using that
  proof (induction cs)
    case Nil
    show ?case by (intro exI [of _ "[]"]) simp
  next
    case (Cons c cs)
    then obtain xs where xs: "\<forall>st out. walk_stack (kids s) (cs @ st) out = walk_stack (kids s) st (out @ xs)"
        "set xs = set cs \<union> {y. \<exists>c\<in>set cs. (up s)\<^sup>+\<^sup>+ y c}" by auto
    from Cons.prems "1" obtain ys where ys:
        "\<forall>st out. walk_stack (kids s) (rev (kids s c) @ st) out = walk_stack (kids s) st (out @ ys)"
        "set ys = {y. (up s)\<^sup>+\<^sup>+ y c}" by force
    from xs ys show ?case by (intro exI [of _ "c # ys @ xs"]) auto
  qed
  have "\<forall>c\<in>set (rev (kids s x)). up s c x"
    using kids_par [OF assms] by (simp add: up_def)
  then obtain xs where
      "\<forall>st out. walk_stack (kids s) (rev (kids s x) @ st) out = walk_stack (kids s) st (out @ xs)"
      and set_xs: "set xs = set (kids s x) \<union> {y. \<exists>c\<in>set (kids s x). (up s)\<^sup>+\<^sup>+ y c}"
    using list [of "rev (kids s x)"] by auto
  moreover have "set xs = {y. (up s)\<^sup>+\<^sup>+ y x}"
    unfolding set_xs using kids_par [OF assms, of x]
    by (auto simp: up_def [symmetric] intro: tranclp.trancl_into_trancl elim: tranclp.cases)
  ultimately show ?case by blast
qed

end

end
