(* ===== verification/Kernel_Graph.thy ===== *)
theory Kernel_Graph
  imports Kernel_Error Parent_Forest
begin

text \<open>
  The resource graph of \<^verbatim>\<open>crates/kernel/src/graph.rs\<close>: nodes and edges discovered by providers, the
  containment forest with its indexes, the claim contracts that turn capacity into lease
  authority, and the provenance of every fact. A method that takes \<^verbatim>\<open>&mut self\<close> and returns a
  \<^verbatim>\<open>Result\<close> is a function from a graph to the new graph or an error; none of these methods writes
  to \<^verbatim>\<open>self\<close> before its last check, so an error means an unchanged graph.
\<close>

type_synonym edge_fact_key = "node_id \<times> node_id \<times> edge_kind"
type_synonym claim_contracts = "(node_id, (capacity_dimension, claim_binding) btree) btree"

definition from_edge :: "edge \<Rightarrow> edge_fact_key" where
  "from_edge e = (e_from e, e_to e, e_kind e)"

definition from_fact :: "fact_edge \<Rightarrow> edge_fact_key" where
  "from_fact e = (fe_from e, fe_to e, fe_kind e)"

record graph =
  g_revision :: u64
  g_nodes :: "(node_id, node) btree"
  g_edges :: "edge list"
  g_parent :: "(node_id, node_id) btree"
  g_children :: "(node_id, node_id list) btree"
  g_by_class :: "(resource_class, node_id list) btree"
  g_claim_bindings :: claim_contracts
  g_node_fact_writers :: "(node_id, fact_writer_id) btree"
  g_edge_fact_writers :: "(edge_fact_key, fact_writer_id) btree"
  g_observations :: "(node_id, attrs) btree"

definition graph_new :: graph where
  "graph_new =
     \<lparr>g_revision = 0, g_nodes = btree_empty, g_edges = [], g_parent = btree_empty,
      g_children = btree_empty, g_by_class = btree_empty, g_claim_bindings = btree_empty,
      g_node_fact_writers = btree_empty, g_edge_fact_writers = btree_empty,
      g_observations = btree_empty\<rparr>"

section \<open>Lookups and walks\<close>

definition graph_node :: "graph \<Rightarrow> node_id \<Rightarrow> node option" where
  "graph_node g i = btree_get (g_nodes g) i"

definition graph_nodes :: "graph \<Rightarrow> node list" where
  "graph_nodes g = btree_values (g_nodes g)"

definition nodes_of_class :: "graph \<Rightarrow> resource_class \<Rightarrow> node_id list" where
  "nodes_of_class g kind = btree_get_or [] (g_by_class g) kind"

definition graph_parent :: "graph \<Rightarrow> node_id \<Rightarrow> node_id option" where
  "graph_parent g i = btree_get (g_parent g) i"

definition graph_children :: "graph \<Rightarrow> node_id \<Rightarrow> node_id list" where
  "graph_children g i = btree_get_or [] (g_children g) i"

text \<open>The loop of \<^verbatim>\<open>ancestors\<close>; without a container cycle it ends (see \<open>ancestors_terminates\<close>).\<close>

definition ancestors_loop :: "graph \<Rightarrow> node_id \<Rightarrow> node_id list option" where
  "ancestors_loop g i = walk_up (graph_parent g) (graph_parent g i) []"

definition ancestors :: "graph \<Rightarrow> node_id \<Rightarrow> node_id list" where
  "ancestors g i = (case ancestors_loop g i of Some out \<Rightarrow> out | None \<Rightarrow> [])"

definition descendants_loop :: "graph \<Rightarrow> node_id \<Rightarrow> node_id list option" where
  "descendants_loop g i = walk_stack (graph_children g) (rev (graph_children g i)) []"

definition descendants :: "graph \<Rightarrow> node_id \<Rightarrow> node_id list" where
  "descendants g i = (case descendants_loop g i of Some out \<Rightarrow> out | None \<Rightarrow> [])"

definition node_has_kind :: "graph \<Rightarrow> resource_class \<Rightarrow> node_id \<Rightarrow> bool" where
  "node_has_kind g kind i = (case graph_node g i of Some n \<Rightarrow> n_kind n = kind | None \<Rightarrow> False)"

definition ancestor_of_class :: "graph \<Rightarrow> node_id \<Rightarrow> resource_class \<Rightarrow> node_id option" where
  "ancestor_of_class g i kind =
     (if node_has_kind g kind i then Some i
      else find (node_has_kind g kind) (ancestors g i))"

definition machine_of :: "graph \<Rightarrow> node_id \<Rightarrow> node_id option" where
  "machine_of g i = ancestor_of_class g i Machine"

definition has_edge :: "graph \<Rightarrow> node_id \<Rightarrow> node_id \<Rightarrow> edge_kind \<Rightarrow> bool" where
  "has_edge g l r kind \<longleftrightarrow>
     list_ex (\<lambda>e. e_kind e = kind \<and> ((e_from e = l \<and> e_to e = r) \<or> (e_from e = r \<and> e_to e = l)))
       (g_edges g)"

definition caches :: "graph \<Rightarrow> node_id \<Rightarrow> node_id \<Rightarrow> bool" where
  "caches g i data \<longleftrightarrow>
     has_edge g data i CachedOn \<or> list_ex (\<lambda>a. has_edge g data a CachedOn) (ancestors g i)"

definition observation :: "graph \<Rightarrow> node_id \<Rightarrow> string \<Rightarrow> string option" where
  "observation g i key =
     (case btree_get (g_observations g) i of None \<Rightarrow> None | Some attrs \<Rightarrow> btree_get attrs key)"

definition degraded_ancestor :: "graph \<Rightarrow> node_id \<Rightarrow> node_id option" where
  "degraded_ancestor g i =
     (let degraded = (\<lambda>n. observation g n ''health'' = Some ''degraded'') in
      if degraded i then Some i else find degraded (ancestors g i))"

definition same_ancestor :: "graph \<Rightarrow> node_id \<Rightarrow> node_id \<Rightarrow> resource_class \<Rightarrow> bool" where
  "same_ancestor g l r kind =
     (case (ancestor_of_class g l kind, ancestor_of_class g r kind) of
        (Some a, Some b) \<Rightarrow> a = b
      | _ \<Rightarrow> False)"

fun satisfies :: "graph \<Rightarrow> node_id \<Rightarrow> node_id \<Rightarrow> topology_relation \<Rightarrow> bool" where
  "satisfies g l r (SameAncestor kind) = same_ancestor g l r kind"
| "satisfies g l r (DifferentAncestor kind) =
     (case (ancestor_of_class g l kind, ancestor_of_class g r kind) of
        (Some a, Some b) \<Rightarrow> a \<noteq> b
      | _ \<Rightarrow> False)"
| "satisfies g l r RelContains \<longleftrightarrow> l \<in> set (ancestors g r) \<or> r \<in> set (ancestors g l)"
| "satisfies g l r RelConnected = has_edge g l r Connected"
| "satisfies g l r RelCachedOn = has_edge g l r CachedOn"

fun related :: "graph \<Rightarrow> node_id \<Rightarrow> node_id \<Rightarrow> edge_kind \<Rightarrow> bool" where
  "related g l r Contains \<longleftrightarrow> l \<in> set (ancestors g r) \<or> r \<in> set (ancestors g l)"
| "related g l r Connected = has_edge g l r Connected"
| "related g l r CachedOn = has_edge g l r CachedOn"

section \<open>Claim contracts\<close>

definition claim_binding_of :: "graph \<Rightarrow> node_id \<Rightarrow> capacity_dimension \<Rightarrow> claim_binding option" where
  "claim_binding_of g i dimension =
     (case btree_get (g_claim_bindings g) i of None \<Rightarrow> None | Some dims \<Rightarrow> btree_get dims dimension)"

definition claim_binding_for_quantity :: "graph \<Rightarrow> node_id \<Rightarrow> quantity \<Rightarrow> (claim_binding, error) result" where
  "claim_binding_for_quantity g i q =
     (if graph_node g i = None then Err (UnknownNode i)
      else
        case try_fold (\<lambda>(dimension, amount) selected.
               if amount = 0 then Ok selected
               else case claim_binding_of g i dimension of
                      None \<Rightarrow> Err (UnclaimableNode i)
                    | Some binding \<Rightarrow>
                        (case selected of
                           Some existing \<Rightarrow>
                             if existing \<noteq> binding then
                               Err (Refused (''claim on '' @ display_node i @
                                 '' spans capacity dimensions with different provider bindings''))
                             else Ok selected
                         | None \<Rightarrow> Ok (Some binding)))
             (btree_entries q) None of
          Err e \<Rightarrow> Err e
        | Ok None \<Rightarrow> Err (UnclaimableNode i)
        | Ok (Some b) \<Rightarrow> Ok b)"

definition set_claim_binding :: "claim_binding_update \<Rightarrow> graph \<Rightarrow> (graph, error) result" where
  "set_claim_binding u g =
     (if graph_node g (cu_node u) = None then Err (UnknownNode (cu_node u))
      else case cu_binding u of
        Some binding \<Rightarrow>
          Ok (g\<lparr>g_claim_bindings :=
                  btree_entry btree_empty (btree_insert (cu_dimension u) binding) (cu_node u)
                    (g_claim_bindings g)\<rparr>)
      | None \<Rightarrow>
          Ok (case btree_get (g_claim_bindings g) (cu_node u) of
                None \<Rightarrow> g
              | Some dims \<Rightarrow>
                  let dims' = btree_remove (cu_dimension u) dims in
                  g\<lparr>g_claim_bindings :=
                      (if btree_is_empty dims' then btree_remove (cu_node u) (g_claim_bindings g)
                       else btree_insert (cu_node u) dims' (g_claim_bindings g))\<rparr>))"

definition validate_update_keys :: "claim_binding_update list \<Rightarrow> (unit, error) result" where
  "validate_update_keys updates =
     and_then
       (try_fold (\<lambda>u seen.
          if (cu_node u, cu_dimension u) \<in> seen then
            Err (Refused (''duplicate claim-binding update for '' @ display_node (cu_node u) @
                          '' dimension '' @ cu_dimension u))
          else Ok (insert (cu_node u, cu_dimension u) seen)) updates {})
       (\<lambda>_. Ok ())"

definition validate_claim_bindings :: "(node_id, node) btree \<Rightarrow> claim_contracts \<Rightarrow> (unit, error) result" where
  "validate_claim_bindings nodes bindings =
     (case try_all (\<lambda>(i, dims).
             case btree_get nodes i of
               None \<Rightarrow> Some (UnknownNode i)
             | Some n \<Rightarrow>
                 try_all (\<lambda>dimension.
                   if quantity_get (n_capacity n) dimension = 0 then
                     Some (Refused (''claim binding for '' @ display_node i @ '' dimension '' @ dimension @
                                    '' has no positive capacity''))
                   else None) (btree_keys dims))
           (btree_entries bindings) of
        Some e \<Rightarrow> Err e
      | None \<Rightarrow> Ok ())"

section \<open>Containment\<close>

text \<open>The cycle check of \<^verbatim>\<open>validate_contains\<close>: follow containers from \<open>start\<close> until there is none
  left or a node repeats.\<close>

function contains_cycle ::
    "(node_id, node_id) btree \<Rightarrow> node_id set \<Rightarrow> node_id option \<Rightarrow> bool" where
  "contains_cycle parent visited None = False"
| "contains_cycle parent visited (Some n) =
     (if n \<in> visited then True
      else contains_cycle parent (insert n visited) (btree_get parent n))"
  by pat_completeness auto

text \<open>Every step of the check marks another node; a node without a container ends it.\<close>

termination
proof (relation "measure (\<lambda>(parent, visited, current).
    2 * card (set (btree_keys parent) - visited) + (if current = None then 0 else 1))", goal_cases)
  case 1
  then show ?case by simp
next
  case (2 parent visited n)
  have fin: "finite (set (btree_keys parent) - visited)" by simp
  show ?case
  proof (cases "btree_get parent n")
    case None
    have "card (set (btree_keys parent) - insert n visited) \<le> card (set (btree_keys parent) - visited)"
      by (rule card_mono [OF fin]) auto
    with None show ?thesis by simp
  next
    case (Some p)
    with 2 have "n \<in> set (btree_keys parent) - visited" by simp
    moreover have "set (btree_keys parent) - insert n visited = (set (btree_keys parent) - visited) - {n}"
      by auto
    ultimately have "card (set (btree_keys parent) - insert n visited) < card (set (btree_keys parent) - visited)"
      using fin by (simp only: card_Diff1_less)
    with Some show ?thesis by simp
  qed
qed

definition contains_parent :: "edge list \<Rightarrow> ((node_id, node_id) btree, error) result" where
  "contains_parent edges =
     try_fold (\<lambda>e parent.
         if e_kind e \<noteq> Contains then Ok parent
         else if e_from e = e_to e then
           Err (InvalidTopology (''node '' @ display_node (e_from e) @ '' contains itself''))
         else case btree_get parent (e_to e) of
                Some previous \<Rightarrow>
                  if previous \<noteq> e_from e then
                    Err (InvalidTopology (''node '' @ display_node (e_to e) @ '' has more than one container''))
                  else Ok (btree_insert (e_to e) (e_from e) parent)
              | None \<Rightarrow> Ok (btree_insert (e_to e) (e_from e) parent))
       edges btree_empty"

definition validate_contains :: "edge list \<Rightarrow> (unit, error) result" where
  "validate_contains edges =
     (case contains_parent edges of
        Err e \<Rightarrow> Err e
      | Ok parent \<Rightarrow>
          (case try_all (\<lambda>start.
                  if contains_cycle parent {} (Some start) then
                    Some (InvalidTopology (''Contains cycle through node '' @ display_node start))
                  else None) (btree_keys parent) of
             Some e \<Rightarrow> Err e
           | None \<Rightarrow> Ok ()))"

definition rebuild :: "graph \<Rightarrow> graph" where
  "rebuild g =
     (let by_class = fold (\<lambda>n. btree_entry [] (\<lambda>ids. ids @ [n_id n]) (n_kind n)) (graph_nodes g) btree_empty;
          contained = filter (\<lambda>e. e_kind e = Contains) (g_edges g)
      in g\<lparr>g_parent := fold (\<lambda>e. btree_insert (e_to e) (e_from e)) contained btree_empty,
           g_children := btree_map_values sort
             (fold (\<lambda>e. btree_entry [] (\<lambda>ids. ids @ [e_to e]) (e_from e)) contained btree_empty),
           g_by_class := btree_map_values sort by_class\<rparr>)"

section \<open>Updates\<close>

definition stage_node :: "node \<Rightarrow> (node_id, node) btree \<Rightarrow> ((node_id, node) btree, error) result" where
  "stage_node n staged =
     (if btree_contains_key (n_attrs n) ''health'' then
        Err (Refused (''resource fact '' @ display_node (n_id n) @ '' uses reserved observation key health''))
      else Ok (btree_insert (n_id n) n staged))"

definition stage_edge :: "(node_id, node) btree \<Rightarrow> edge \<Rightarrow> edge list \<Rightarrow> (edge list, error) result" where
  "stage_edge nodes e staged =
     (if \<not> btree_contains_key nodes (e_from e) then Err (UnknownNode (e_from e))
      else if \<not> btree_contains_key nodes (e_to e) then Err (UnknownNode (e_to e))
      else if \<not> list_ex (\<lambda>x. from_edge x = from_edge e) staged then Ok (staged @ [e])
      else Ok (map (\<lambda>x. if from_edge x = from_edge e then x\<lparr>e_attrs := e_attrs e\<rparr> else x) staged))"

definition apply_fact_values :: "graph \<Rightarrow> node list \<Rightarrow> edge list \<Rightarrow> (graph, error) result" where
  "apply_fact_values g nodes edges =
     and_then (try_fold stage_node nodes (g_nodes g)) (\<lambda>staged_nodes.
     and_then (try_fold (stage_edge staged_nodes) edges (g_edges g)) (\<lambda>staged_edges.
     and_then (validate_contains staged_edges) (\<lambda>_.
     and_then (validate_claim_bindings staged_nodes (g_claim_bindings g)) (\<lambda>_.
       Ok (rebuild (g\<lparr>g_nodes := staged_nodes, g_edges := staged_edges\<rparr>))))))"

definition has_fact_writers :: "graph \<Rightarrow> bool" where
  "has_fact_writers g \<longleftrightarrow>
     \<not> btree_is_empty (g_node_fact_writers g) \<or> \<not> btree_is_empty (g_edge_fact_writers g)"

definition graph_apply :: "graph \<Rightarrow> node list \<Rightarrow> edge list \<Rightarrow> (graph, error) result" where
  "graph_apply g nodes edges =
     (if (nodes \<noteq> [] \<or> edges \<noteq> []) \<and> has_fact_writers g then
        Err (Refused ''legacy unowned Graph updates are disabled after explicit fact ownership is established'')
      else and_then (apply_fact_values g nodes edges) (\<lambda>g'.
        Ok (g'\<lparr>g_revision := saturating_add (g_revision g') 1\<rparr>)))"

definition removals :: "claim_binding_update list \<Rightarrow> claim_binding_update list" where
  "removals updates = filter (\<lambda>u. cu_binding u = None) updates"

definition additions :: "claim_binding_update list \<Rightarrow> claim_binding_update list" where
  "additions updates = filter (\<lambda>u. cu_binding u \<noteq> None) updates"

definition graph_apply_resource_facts ::
    "graph \<Rightarrow> node list \<Rightarrow> edge list \<Rightarrow> claim_binding_update list \<Rightarrow> (graph, error) result" where
  "graph_apply_resource_facts g nodes edges updates =
     and_then (validate_update_keys updates) (\<lambda>_.
     let target_revision = saturating_add (g_revision g) 1 in
     and_then (try_fold set_claim_binding (removals updates) g) (\<lambda>staged.
     and_then (graph_apply staged nodes edges) (\<lambda>staged.
     and_then (try_fold set_claim_binding (additions updates) staged) (\<lambda>staged.
     and_then (validate_claim_bindings (g_nodes staged) (g_claim_bindings staged)) (\<lambda>_.
       Ok (staged\<lparr>g_revision := target_revision\<rparr>))))))"

subsection \<open>Facts with an owner\<close>

definition display_writer :: "fact_writer_id \<Rightarrow> string" where
  "display_writer w = display_id ''FactWriterId'' w"

definition display_edge :: "edge_fact_key \<Rightarrow> string" where
  "display_edge k =
     (case k of (f, t, kind) \<Rightarrow> display_node f @ '' -> '' @ display_node t @ '' '' @ debug_edge_kind kind)"

definition check_node_owner ::
    "graph \<Rightarrow> fact_writer_id \<Rightarrow> node \<Rightarrow> node_id set \<Rightarrow> (node_id set, error) result" where
  "check_node_owner staged writer n seen =
     (if n_id n \<in> seen then
        Err (Refused (''resource fact update names node '' @ display_node (n_id n) @ '' more than once''))
      else case btree_get (g_node_fact_writers staged) (n_id n) of
        Some w \<Rightarrow>
          if w \<noteq> writer then
            Err (Refused (''resource node '' @ display_node (n_id n) @ '' belongs to fact writer '' @
              display_writer w @ '' and cannot be overwritten by '' @ display_writer writer))
          else Ok (insert (n_id n) seen)
      | None \<Rightarrow>
          if btree_contains_key (g_nodes staged) (n_id n) then
            Err (Refused (''legacy resource node '' @ display_node (n_id n) @
              '' has no fact writer; adopt verified ownership before mutation''))
          else Ok (insert (n_id n) seen))"

definition check_edge_owner ::
    "graph \<Rightarrow> fact_writer_id \<Rightarrow> edge \<Rightarrow> edge_fact_key set \<Rightarrow> (edge_fact_key set, error) result" where
  "check_edge_owner staged writer e seen =
     (let key = from_edge e in
      if key \<in> seen then
        Err (Refused (''resource fact update names edge '' @ display_edge key @ '' more than once''))
      else case btree_get (g_edge_fact_writers staged) key of
        Some w \<Rightarrow>
          if w \<noteq> writer then
            Err (Refused (''resource edge '' @ display_edge key @ '' belongs to fact writer '' @
              display_writer w @ '' and cannot be overwritten by '' @ display_writer writer))
          else Ok (insert key seen)
      | None \<Rightarrow>
          if list_ex (\<lambda>x. from_edge x = key) (g_edges staged) then
            Err (Refused (''legacy resource edge '' @ display_edge key @
              '' has no fact writer; adopt verified ownership before mutation''))
          else Ok (insert key seen))"

definition apply_batch ::
    "provider_fact_batch \<Rightarrow> graph \<times> node_id set \<times> edge_fact_key set \<Rightarrow>
     (graph \<times> node_id set \<times> edge_fact_key set, error) result" where
  "apply_batch batch = (\<lambda>(staged, seen_nodes, seen_edges).
     and_then (try_fold (check_node_owner staged (pb_writer batch)) (pb_nodes batch) seen_nodes) (\<lambda>seen_nodes.
     and_then (try_fold (check_edge_owner staged (pb_writer batch)) (pb_edges batch) seen_edges) (\<lambda>seen_edges.
     and_then (apply_fact_values staged (pb_nodes batch) (pb_edges batch)) (\<lambda>staged.
       Ok (staged\<lparr>g_node_fact_writers :=
                     fold (\<lambda>n. btree_insert (n_id n) (pb_writer batch)) (pb_nodes batch)
                       (g_node_fact_writers staged),
                   g_edge_fact_writers :=
                     fold (\<lambda>e. btree_insert (from_edge e) (pb_writer batch)) (pb_edges batch)
                       (g_edge_fact_writers staged)\<rparr>,
            seen_nodes, seen_edges)))))"

definition graph_apply_provider_facts ::
    "graph \<Rightarrow> provider_fact_batch list \<Rightarrow> claim_binding_update list \<Rightarrow> (graph, error) result" where
  "graph_apply_provider_facts g batches updates =
     and_then (validate_update_keys updates) (\<lambda>_.
     let target_revision = saturating_add (g_revision g) 1 in
     and_then (try_fold set_claim_binding (removals updates) g) (\<lambda>staged.
     and_then (try_fold apply_batch batches (staged, {}, {})) (\<lambda>(staged, _, _).
     and_then (try_fold set_claim_binding (additions updates) staged) (\<lambda>staged.
     and_then (validate_claim_bindings (g_nodes staged) (g_claim_bindings staged)) (\<lambda>_.
       Ok (staged\<lparr>g_revision := target_revision\<rparr>))))))"

text \<open>Adoption threads the two staged writer maps and the two sets of names already seen.\<close>

type_synonym adoption =
  "(node_id, fact_writer_id) btree \<times> (edge_fact_key, fact_writer_id) btree \<times> node_id set \<times> edge_fact_key set"

definition adopt_node :: "graph \<Rightarrow> fact_writer_id \<Rightarrow> node_id \<Rightarrow> adoption \<Rightarrow> (adoption, error) result" where
  "adopt_node g writer n = (\<lambda>(staged_nodes, staged_edges, seen_nodes, seen_edges).
     if n \<in> seen_nodes then
       Err (Refused (''fact writer adoption names node '' @ display_node n @ '' more than once''))
     else if \<not> btree_contains_key (g_nodes g) n then Err (UnknownNode n)
     else case btree_get staged_nodes n of
       Some w \<Rightarrow>
         if w \<noteq> writer then
           Err (Refused (''resource node '' @ display_node n @ '' already belongs to fact writer '' @
             display_writer w @ ''; cannot adopt '' @ display_writer writer))
         else Ok (btree_insert n writer staged_nodes, staged_edges, insert n seen_nodes, seen_edges)
     | None \<Rightarrow> Ok (btree_insert n writer staged_nodes, staged_edges, insert n seen_nodes, seen_edges))"

definition adopt_edge :: "graph \<Rightarrow> fact_writer_id \<Rightarrow> fact_edge \<Rightarrow> adoption \<Rightarrow> (adoption, error) result" where
  "adopt_edge g writer e = (\<lambda>(staged_nodes, staged_edges, seen_nodes, seen_edges).
     let key = from_fact e in
     if key \<in> seen_edges then
       Err (Refused (''fact writer adoption names edge '' @ display_edge key @ '' more than once''))
     else if \<not> list_ex (\<lambda>x. from_edge x = key) (g_edges g) then
       Err (Refused (''cannot adopt missing resource edge '' @ display_edge key))
     else case btree_get staged_edges key of
       Some w \<Rightarrow>
         if w \<noteq> writer then
           Err (Refused (''resource edge '' @ display_edge key @ '' already belongs to fact writer '' @
             display_writer w @ ''; cannot adopt '' @ display_writer writer))
         else Ok (staged_nodes, btree_insert key writer staged_edges, seen_nodes, insert key seen_edges)
     | None \<Rightarrow> Ok (staged_nodes, btree_insert key writer staged_edges, seen_nodes, insert key seen_edges))"

definition adopt_assignment :: "graph \<Rightarrow> fact_writer_assignment \<Rightarrow> adoption \<Rightarrow> (adoption, error) result" where
  "adopt_assignment g a st =
     and_then (try_fold (adopt_node g (fa_writer a)) (fa_nodes a) st)
              (try_fold (adopt_edge g (fa_writer a)) (fa_edges a))"

definition graph_adopt_fact_writers :: "graph \<Rightarrow> fact_writer_assignment list \<Rightarrow> (graph, error) result" where
  "graph_adopt_fact_writers g assignments =
     and_then (try_fold (adopt_assignment g) assignments
                 (g_node_fact_writers g, g_edge_fact_writers g, {}, {}))
       (\<lambda>(staged_nodes, staged_edges, _, _).
          Ok (g\<lparr>g_node_fact_writers := staged_nodes, g_edge_fact_writers := staged_edges\<rparr>))"

definition node_fact_writer :: "graph \<Rightarrow> node_id \<Rightarrow> fact_writer_id option" where
  "node_fact_writer g i = btree_get (g_node_fact_writers g) i"

definition edge_fact_writer :: "graph \<Rightarrow> fact_edge \<Rightarrow> fact_writer_id option" where
  "edge_fact_writer g e = btree_get (g_edge_fact_writers g) (from_fact e)"

definition edge_fact_writers :: "graph \<Rightarrow> (fact_edge \<times> fact_writer_id) list" where
  "edge_fact_writers g =
     map (\<lambda>((f, t, kind), writer). (\<lparr>fe_from = f, fe_to = t, fe_kind = kind\<rparr>, writer))
       (btree_entries (g_edge_fact_writers g))"

subsection \<open>Observations\<close>

definition set_observation :: "graph \<Rightarrow> node_id \<Rightarrow> string \<Rightarrow> string \<Rightarrow> graph \<times> bool" where
  "set_observation g i key value =
     (if \<not> btree_contains_key (g_nodes g) i then (g, False)
      else (g\<lparr>g_observations := btree_entry btree_empty (btree_insert key value) i (g_observations g)\<rparr>, True))"

text \<open>Legacy snapshots: \<^verbatim>\<open>health\<close> moves from the facts to the observations, unless one is there.\<close>

definition migrate_legacy_observations :: "graph \<Rightarrow> graph" where
  "migrate_legacy_observations g =
     (let legacy = List.map_filter (\<lambda>(i, n). map_option (Pair i) (btree_get (n_attrs n) ''health''))
            (btree_entries (g_nodes g));
          nodes = btree_map_values (\<lambda>n. n\<lparr>n_attrs := btree_remove ''health'' (n_attrs n)\<rparr>) (g_nodes g)
      in g\<lparr>g_nodes := nodes,
           g_observations :=
             fold (\<lambda>(i, health). btree_entry btree_empty
                     (\<lambda>attrs. btree_entry health (\<lambda>x. x) ''health'' attrs) i)
               legacy (g_observations g)\<rparr>)"

end
