(* ===== verification/Graph_Facts.thy ===== *)
theory Graph_Facts
  imports Kernel_Graph
begin

text \<open>
  What the resource graph keeps true. \<open>graph_wf\<close> collects the invariant: facts are indexed by their
  own identity, edges join known nodes and are stored once, containment is a forest, the three
  indexes are the ones \<^verbatim>\<open>rebuild\<close> computes, and every claim contract names positive capacity. The
  theory shows that \<^verbatim>\<open>validate_contains\<close> accepts exactly the forests, that the ancestor and descendant
  walks end on every well-formed graph and what they return, that every update keeps the invariant,
  and the ownership rules of provider facts.
\<close>

section \<open>Containment is a forest\<close>

declare contains_cycle.simps(2) [simp del]

definition contained_in :: "edge list \<Rightarrow> node_id \<Rightarrow> node_id \<Rightarrow> bool" where
  "contained_in es x p \<longleftrightarrow> (\<exists>e\<in>set es. e_kind e = Contains \<and> e_to e = x \<and> e_from e = p)"

definition one_container :: "edge list \<Rightarrow> bool" where
  "one_container es \<longleftrightarrow> (\<forall>x p q. contained_in es x p \<longrightarrow> contained_in es x q \<longrightarrow> p = q)"

definition containment_wf :: "edge list \<Rightarrow> bool" where
  "containment_wf es \<longleftrightarrow> one_container es \<and> wfp (\<lambda>p x. contained_in es x p)"

lemma contained_in_snoc:
  "contained_in (es @ [e]) x p \<longleftrightarrow>
     contained_in es x p \<or> (e_kind e = Contains \<and> e_to e = x \<and> e_from e = p)"
  by (auto simp: contained_in_def)

lemma contains_parent_spec:
  "case contains_parent es of
     Ok m \<Rightarrow> (\<forall>x p. btree_get m x = Some p \<longleftrightarrow> contained_in es x p) \<and> (\<forall>x. \<not> contained_in es x x)
   | Err e \<Rightarrow> \<not> one_container es \<or> (\<exists>x. contained_in es x x)"
proof (induction es rule: rev_induct)
  case Nil
  then show ?case by (simp add: contains_parent_def contained_in_def)
next
  case (snoc e es)
  show ?case
  proof (cases "contains_parent es")
    case (Err err)
    then have "contains_parent (es @ [e]) = Err err"
      by (simp add: contains_parent_def try_fold_append)
    moreover have "\<not> one_container (es @ [e]) \<or> (\<exists>x. contained_in (es @ [e]) x x)"
      using snoc Err by (auto simp: one_container_def contained_in_snoc)
    ultimately show ?thesis by simp
  next
    case (Ok m)
    with snoc have m: "\<And>x p. btree_get m x = Some p \<longleftrightarrow> contained_in es x p"
        and irr: "\<And>x. \<not> contained_in es x x" by auto
    have step: "contains_parent (es @ [e]) =
      (if e_kind e \<noteq> Contains then Ok m
       else if e_from e = e_to e then
         Err (InvalidTopology (''node '' @ display_node (e_from e) @ '' contains itself''))
       else case btree_get m (e_to e) of
              Some previous \<Rightarrow>
                if previous \<noteq> e_from e then
                  Err (InvalidTopology (''node '' @ display_node (e_to e) @ '' has more than one container''))
                else Ok (btree_insert (e_to e) (e_from e) m)
            | None \<Rightarrow> Ok (btree_insert (e_to e) (e_from e) m))"
      using Ok by (simp add: contains_parent_def try_fold_append split: option.split)
    show ?thesis
    proof (cases "btree_get m (e_to e)")
      case None
      then have "\<not> contained_in es (e_to e) p" for p using m [of "e_to e" p] by simp
      then show ?thesis using None irr m by (auto simp: step contained_in_snoc)
    next
      case (Some q)
      then have q: "contained_in es (e_to e) q" using m by blast
      have uniq: "contained_in es (e_to e) p \<Longrightarrow> p = q" for p
        using Some m by (metis option.inject)
      show ?thesis
      proof (cases "e_kind e = Contains \<and> e_from e \<noteq> q")
        case True
        with q have "\<not> one_container (es @ [e])"
          unfolding one_container_def contained_in_snoc by blast
        with True Some show ?thesis
          by (cases "e_from e = e_to e") (auto simp: step contained_in_snoc)
      next
        case False
        have "contained_in (es @ [e]) x p \<longleftrightarrow> contained_in es x p" for x p
          using False q by (auto simp: contained_in_snoc)
        moreover have "contains_parent (es @ [e]) = Ok m"
        proof -
          have "btree_insert (e_to e) q m = m" using Some by (rule btree.insert_same)
          moreover have "e_to e \<noteq> q" using irr q by blast
          ultimately show ?thesis using False Some by (auto simp: step)
        qed
        ultimately show ?thesis using irr m by simp
      qed
    qed
  qed
qed

lemma contains_cycle_acc:
  "\<not> contains_cycle m visited current \<Longrightarrow> current = Some n \<Longrightarrow>
     Wellfounded.accp (\<lambda>p x. btree_get m x = Some p) n"
proof (induction m visited current arbitrary: n rule: contains_cycle.induct)
  case (1 parent visited)
  then show ?case by simp
next
  case (2 parent visited k)
  then have rest: "k \<notin> visited" "\<not> contains_cycle parent (insert k visited) (btree_get parent k)" and "n = k"
    by (auto simp: contains_cycle.simps split: if_splits)
  have "Wellfounded.accp (\<lambda>p x. btree_get parent x = Some p) p" if "btree_get parent k = Some p" for p
    using "2.IH" [OF rest(1)] rest that by simp
  then show ?case using \<open>n = k\<close> by (blast intro: accp.accI)
qed

lemma contains_cycle_sound:
  assumes wf: "wfp (\<lambda>p x. btree_get m x = Some p)"
  shows "(\<And>n v. current = Some n \<Longrightarrow> v \<in> visited \<Longrightarrow> (\<lambda>x p. btree_get m x = Some p)\<^sup>+\<^sup>+ v n) \<Longrightarrow>
    \<not> contains_cycle m visited current"
  using wf
proof (induction m visited current rule: contains_cycle.induct)
  case (1 parent visited)
  then show ?case by simp
next
  case (2 parent visited k)
  let ?up = "\<lambda>x p. btree_get parent x = Some p"
  have "acyclic {(p, x). btree_get parent x = Some p}"
    using "2.prems"(2) by (simp add: wfp_def wf_acyclic)
  then have "acyclic ({(p, x). btree_get parent x = Some p}\<inverse>)" by (simp only: acyclic_converse)
  then have irr: "\<not> ?up\<^sup>+\<^sup>+ k k"
    by (simp add: acyclic_def tranclp_unfold converse_unfold)
  then have fresh: "k \<notin> visited" using "2.prems"(1) by blast
  moreover have "\<not> contains_cycle parent (insert k visited) (btree_get parent k)"
  proof (rule "2.IH" [OF fresh _ "2.prems"(2)])
    fix n v
    assume n: "btree_get parent k = Some n" and v: "v \<in> insert k visited"
    show "?up\<^sup>+\<^sup>+ v n"
    proof (cases "v = k")
      case True
      with n show ?thesis by (simp add: tranclp.r_into_trancl)
    next
      case False
      with v "2.prems"(1) have "?up\<^sup>+\<^sup>+ v k" by blast
      then show ?thesis using n by (rule tranclp.trancl_into_trancl)
    qed
  qed
  ultimately show ?case by (simp add: contains_cycle.simps)
qed

lemma validate_contains_Ok: "validate_contains es = Ok () \<longleftrightarrow> containment_wf es"
proof (cases "contains_parent es")
  case (Err e)
  then have "\<not> one_container es \<or> (\<exists>x. contained_in es x x)"
    using contains_parent_spec [of es] by simp
  moreover have "\<not> contained_in es x x" if "wfp (\<lambda>p x. contained_in es x p)" for x
    using that by (meson wfp_imp_irreflp irreflpD)
  ultimately have "\<not> containment_wf es" by (auto simp: containment_wf_def)
  with Err show ?thesis by (simp add: validate_contains_def)
next
  case (Ok m)
  then have m: "\<And>x p. btree_get m x = Some p \<longleftrightarrow> contained_in es x p"
    using contains_parent_spec [of es] by simp
  then have one: "one_container es" by (metis one_container_def option.inject)
  have rel: "(\<lambda>p x. contained_in es x p) = (\<lambda>p x. btree_get m x = Some p)" by (simp add: m)
  have "validate_contains es = Ok () \<longleftrightarrow> (\<forall>s\<in>set (btree_keys m). \<not> contains_cycle m {} (Some s))"
    using Ok by (auto simp: validate_contains_def split: if_splits)
  also have "\<dots> \<longleftrightarrow> wfp (\<lambda>p x. btree_get m x = Some p)"
  proof
    assume nocycle: "\<forall>s\<in>set (btree_keys m). \<not> contains_cycle m {} (Some s)"
    have "Wellfounded.accp (\<lambda>p x. btree_get m x = Some p) n" for n
    proof (cases "btree_get m n")
      case None
      then show ?thesis by (auto intro: accp.accI)
    next
      case (Some p)
      with nocycle show ?thesis by (auto intro: contains_cycle_acc)
    qed
    then show "wfp (\<lambda>p x. btree_get m x = Some p)" by (rule accp_wfpI [rule_format])
  next
    assume "wfp (\<lambda>p x. btree_get m x = Some p)"
    then show "\<forall>s\<in>set (btree_keys m). \<not> contains_cycle m {} (Some s)"
      using contains_cycle_sound by blast
  qed
  finally show ?thesis using one by (simp add: containment_wf_def rel)
qed

section \<open>The invariant\<close>

definition contracts_wf :: "(node_id, node) btree \<Rightarrow> claim_contracts \<Rightarrow> bool" where
  "contracts_wf nodes bindings \<longleftrightarrow>
     (\<forall>i dims. btree_get bindings i = Some dims \<longrightarrow>
        (\<exists>n. btree_get nodes i = Some n \<and>
             (\<forall>d b. btree_get dims d = Some b \<longrightarrow> quantity_get (n_capacity n) d \<noteq> 0)))"

definition facts_wf :: "graph \<Rightarrow> bool" where
  "facts_wf g \<longleftrightarrow>
     (\<forall>i n. btree_get (g_nodes g) i = Some n \<longrightarrow>
        n_id n = i \<and> \<not> btree_contains_key (n_attrs n) ''health'') \<and>
     (\<forall>e\<in>set (g_edges g). btree_contains_key (g_nodes g) (e_from e) \<and>
        btree_contains_key (g_nodes g) (e_to e)) \<and>
     distinct (map from_edge (g_edges g)) \<and>
     containment_wf (g_edges g) \<and>
     rebuild g = g"

definition owners_wf :: "graph \<Rightarrow> bool" where
  "owners_wf g \<longleftrightarrow>
     (\<forall>i w. btree_get (g_node_fact_writers g) i = Some w \<longrightarrow> btree_contains_key (g_nodes g) i) \<and>
     (\<forall>k w. btree_get (g_edge_fact_writers g) k = Some w \<longrightarrow> k \<in> from_edge ` set (g_edges g)) \<and>
     (\<forall>i a. btree_get (g_observations g) i = Some a \<longrightarrow> btree_contains_key (g_nodes g) i)"

definition graph_wf :: "graph \<Rightarrow> bool" where
  "graph_wf g \<longleftrightarrow> facts_wf g \<and> owners_wf g \<and> contracts_wf (g_nodes g) (g_claim_bindings g)"

lemma validate_claim_bindings_Ok:
  "validate_claim_bindings nodes bindings = Ok () \<longleftrightarrow> contracts_wf nodes bindings"
proof -
  have "validate_claim_bindings nodes bindings = Ok () \<longleftrightarrow>
    (\<forall>i dims. btree_get bindings i = Some dims \<longrightarrow> (\<exists>n. btree_get nodes i = Some n \<and>
       (\<forall>d\<in>set (btree_keys dims). quantity_get (n_capacity n) d \<noteq> 0)))"
    unfolding validate_claim_bindings_def try_all_check btree_ball_entries
    by (simp split: option.splits if_splits) (metis option.distinct(1) option.exhaust option.inject)
  then show ?thesis by (simp only: contracts_wf_def btree_ball_keys)
qed

subsection \<open>The indexes\<close>

lemma get_fold_insert_edges:
  assumes "one_container es"
  shows "btree_get (fold (\<lambda>e. btree_insert (e_to e) (e_from e)) (filter (\<lambda>e. e_kind e = Contains) es) btree_empty) x =
    Some p \<longleftrightarrow> contained_in es x p"
  using assms
proof (induction es rule: rev_induct)
  case Nil
  then show ?case by (simp add: contained_in_def)
next
  case (snoc e es)
  then have "one_container es" by (auto simp: one_container_def contained_in_snoc)
  with snoc.IH have IH: "btree_get (fold (\<lambda>e. btree_insert (e_to e) (e_from e)) (filter (\<lambda>e. e_kind e = Contains) es) btree_empty) x =
    Some p \<longleftrightarrow> contained_in es x p" by simp
  have "e_kind e = Contains \<Longrightarrow> contained_in es (e_to e) p \<Longrightarrow> p = e_from e"
    using snoc.prems unfolding one_container_def contained_in_snoc by blast
  with IH show ?case by (auto simp: contained_in_snoc)
qed

lemma set_index_fold:
  "set (btree_get_or [] (btree_map_values sort
      (fold (\<lambda>x. btree_entry [] (\<lambda>ids. ids @ [v x]) (k x)) xs btree_empty)) key) =
   v ` {x \<in> set xs. k x = key}"
proof -
  have "set (btree_get_or [] (fold (\<lambda>x. btree_entry [] (\<lambda>ids. ids @ [v x]) (k x)) xs btree_empty) key) =
      v ` {x \<in> set xs. k x = key}"
    by (induction xs rule: rev_induct) (auto simp: btree_get_or_def split: option.splits)
  then show ?thesis by (auto simp: btree_get_or_def split: option.splits)
qed

lemma rebuild_rebuild [simp]: "rebuild (rebuild g) = rebuild g"
  by (simp add: rebuild_def Let_def graph_nodes_def)

lemma rebuild_fields [simp]:
  "g_nodes (rebuild g) = g_nodes g" "g_edges (rebuild g) = g_edges g"
  "g_revision (rebuild g) = g_revision g" "g_claim_bindings (rebuild g) = g_claim_bindings g"
  "g_node_fact_writers (rebuild g) = g_node_fact_writers g"
  "g_edge_fact_writers (rebuild g) = g_edge_fact_writers g"
  "g_observations (rebuild g) = g_observations g"
  by (simp_all add: rebuild_def Let_def)

lemma graph_parent_iff:
  assumes "facts_wf g"
  shows "graph_parent g x = Some p \<longleftrightarrow> contained_in (g_edges g) x p"
proof -
  have "g_parent g = g_parent (rebuild g)" using assms by (simp add: facts_wf_def)
  then show ?thesis
    using assms get_fold_insert_edges [of "g_edges g" x p]
    by (simp add: graph_parent_def rebuild_def Let_def facts_wf_def containment_wf_def)
qed

lemma graph_children_iff:
  assumes "facts_wf g"
  shows "set (graph_children g p) = {x. contained_in (g_edges g) x p}"
proof -
  have "g_children g = g_children (rebuild g)" using assms by (simp add: facts_wf_def)
  then have "set (graph_children g p) =
      e_to ` {e \<in> set (filter (\<lambda>e. e_kind e = Contains) (g_edges g)). e_from e = p}"
    unfolding graph_children_def by (simp add: rebuild_def Let_def set_index_fold)
  then show ?thesis by (auto simp: contained_in_def)
qed

lemma nodes_of_class_iff:
  assumes "facts_wf g"
  shows "i \<in> set (nodes_of_class g kind) \<longleftrightarrow> node_has_kind g kind i"
proof -
  have "g_by_class g = g_by_class (rebuild g)" using assms by (simp add: facts_wf_def)
  then have "set (nodes_of_class g kind) = n_id ` {n \<in> set (graph_nodes g). n_kind n = kind}"
    unfolding nodes_of_class_def by (simp add: rebuild_def Let_def set_index_fold)
  then show ?thesis
    using assms
    by (auto simp: graph_nodes_def node_has_kind_def graph_node_def facts_wf_def image_iff
        split: option.splits)
qed

lemma facts_wf_parent_wf: "facts_wf g \<Longrightarrow> wfp (\<lambda>p x. graph_parent g x = Some p)"
  by (simp add: graph_parent_iff facts_wf_def containment_wf_def)

interpretation gf: forest facts_wf graph_parent graph_children "\<lambda>g. length (btree_entries (g_parent g))"
proof unfold_locales
  fix g p
  assume wf: "facts_wf g"
  show "wfp (\<lambda>p x. graph_parent g x = Some p)" using wf by (rule facts_wf_parent_wf)
  have dom: "dom (graph_parent g) = set (btree_keys (g_parent g))"
    by (auto simp: graph_parent_def)
  then show "finite (dom (graph_parent g))" by simp
  show "card (dom (graph_parent g)) \<le> length (btree_entries (g_parent g))"
    unfolding dom by (rule order_trans [OF card_length]) (simp add: btree_keys_def)
  show "set (graph_children g p) = {x. graph_parent g x = Some p}"
    using wf by (simp add: graph_children_iff graph_parent_iff)
qed

section \<open>The walks\<close>

lemma ancestors_set:
  assumes "facts_wf g"
  shows "set (ancestors g x) = {a. (gf.up g)\<^sup>+\<^sup>+ x a}"
proof -
  obtain xs where "\<forall>out. walk_up (graph_parent g) (graph_parent g x) out = Some (out @ xs)"
      and "set xs = {a. (gf.up g)\<^sup>+\<^sup>+ x a}"
    using gf.walk_up_total [OF assms, of x] by blast
  then show ?thesis by (simp add: ancestors_def ancestors_loop_def)
qed

lemma ancestors_unfold:
  assumes "facts_wf g"
  shows "ancestors g x = (case graph_parent g x of None \<Rightarrow> [] | Some p \<Rightarrow> p # ancestors g p)"
proof (cases "graph_parent g x")
  case None
  then show ?thesis by (simp add: ancestors_def ancestors_loop_def)
next
  case (Some p)
  obtain xs where "\<forall>out. walk_up (graph_parent g) (graph_parent g p) out = Some (out @ xs)"
    using gf.walk_up_total [OF assms, of p] by blast
  with Some show ?thesis by (simp add: ancestors_def ancestors_loop_def)
qed

lemma ancestors_known:
  assumes "facts_wf g" and "a \<in> set (ancestors g x)"
  shows "graph_node g a \<noteq> None"
proof -
  from assms have "(gf.up g)\<^sup>+\<^sup>+ x a" by (simp add: ancestors_set)
  then obtain y where "gf.up g y a" by (auto elim: tranclp.cases)
  then have "contained_in (g_edges g) y a" using assms(1) by (simp add: gf.up_def graph_parent_iff)
  with assms(1) show ?thesis
    by (auto simp: contained_in_def facts_wf_def btree_contains_key_def graph_node_def)
qed

lemma descendants_set:
  assumes "facts_wf g"
  shows "set (descendants g x) = {y. x \<in> set (ancestors g y)}"
proof -
  obtain xs where xs: "\<forall>st out. walk_stack (graph_children g) (rev (graph_children g x) @ st) out =
        walk_stack (graph_children g) st (out @ xs)"
      and set_xs: "set xs = {y. (gf.up g)\<^sup>+\<^sup>+ y x}"
    using gf.walk_stack_total [OF assms, of x] by blast
  from xs [THEN spec, of "[]"] have "descendants_loop g x = Some xs"
    by (simp add: descendants_loop_def)
  with set_xs show ?thesis by (simp add: descendants_def ancestors_set [OF assms])
qed

section \<open>Updates keep the invariant\<close>

text \<open>The invariant on facts reads five fields only.\<close>

lemma rebuild_fixpoint:
  "rebuild g = g \<longleftrightarrow>
     g_parent g = g_parent (rebuild g) \<and> g_children g = g_children (rebuild g) \<and>
     g_by_class g = g_by_class (rebuild g)"
  by (cases g) (auto simp: rebuild_def Let_def graph_nodes_def)

lemma facts_wf_cong:
  assumes "g_nodes g' = g_nodes g" "g_edges g' = g_edges g" "g_parent g' = g_parent g"
    "g_children g' = g_children g" "g_by_class g' = g_by_class g"
  shows "facts_wf g' = facts_wf g"
proof -
  have "rebuild g' = g' \<longleftrightarrow> rebuild g = g"
    unfolding rebuild_fixpoint using assms by (simp add: rebuild_def Let_def graph_nodes_def)
  then show ?thesis using assms by (simp add: facts_wf_def)
qed

lemma stage_node_Ok:
  "stage_node n m = Ok m' \<longleftrightarrow>
     \<not> btree_contains_key (n_attrs n) ''health'' \<and> m' = btree_insert (n_id n) n m"
  by (auto simp: stage_node_def)

lemma stage_nodes_get:
  "try_fold stage_node ns m = Ok m' \<Longrightarrow>
     btree_get m' i = (case find (\<lambda>n. n_id n = i) (rev ns) of Some n \<Rightarrow> Some n | None \<Rightarrow> btree_get m i)"
proof (induction ns arbitrary: m' rule: rev_induct)
  case Nil
  then show ?case by simp
next
  case (snoc n ns)
  then obtain m1 where "try_fold stage_node ns m = Ok m1" and "m' = btree_insert (n_id n) n m1"
    by (auto simp: try_fold_snoc_Ok stage_node_Ok)
  with snoc.IH [of m1] show ?case by auto
qed

lemma stage_nodes_no_health:
  "try_fold stage_node ns m = Ok m' \<Longrightarrow> n \<in> set ns \<Longrightarrow> \<not> btree_contains_key (n_attrs n) ''health''"
  by (induction ns arbitrary: m) (auto simp: stage_node_def split: result.splits if_splits)

lemma stage_nodes_wf:
  assumes "try_fold stage_node ns m = Ok m'"
    and "\<forall>i n. btree_get m i = Some n \<longrightarrow> n_id n = i \<and> \<not> btree_contains_key (n_attrs n) ''health''"
  shows "\<forall>i n. btree_get m' i = Some n \<longrightarrow> n_id n = i \<and> \<not> btree_contains_key (n_attrs n) ''health''"
  using assms(2) stage_nodes_no_health [OF assms(1)]
  by (auto simp: stage_nodes_get [OF assms(1)] split: option.splits dest!: find_Some_iff_first)

lemma stage_nodes_mono:
  "try_fold stage_node ns m = Ok m' \<Longrightarrow> btree_contains_key m i \<Longrightarrow> btree_contains_key m' i"
  by (auto simp: btree_contains_key_def stage_nodes_get split: option.splits)

lemma from_edge_attrs [simp]: "from_edge (x\<lparr>e_attrs := a\<rparr>) = from_edge x"
  by (simp add: from_edge_def)

lemma stage_edge_keys:
  assumes "stage_edge nodes e es = Ok es'"
  shows "map from_edge es' = (if from_edge e \<in> from_edge ` set es then map from_edge es
                          else map from_edge es @ [from_edge e])"
proof -
  have "list_ex (\<lambda>x. from_edge x = from_edge e) es \<longleftrightarrow> from_edge e \<in> from_edge ` set es"
    by (simp add: list_ex_iff image_iff) metis
  then show ?thesis using assms by (auto simp: stage_edge_def split: if_splits)
qed

definition edges_known :: "(node_id, node) btree \<Rightarrow> edge list \<Rightarrow> bool" where
  "edges_known nodes es \<longleftrightarrow>
     (\<forall>k\<in>set (map from_edge es). btree_contains_key nodes (fst k) \<and> btree_contains_key nodes (fst (snd k)))"

lemma edges_known_iff:
  "edges_known nodes es \<longleftrightarrow>
     (\<forall>e\<in>set es. btree_contains_key nodes (e_from e) \<and> btree_contains_key nodes (e_to e))"
  by (simp add: edges_known_def from_edge_def)

lemma stage_edges_wf:
  assumes "try_fold (stage_edge nodes) es old = Ok new"
    and "distinct (map from_edge old)" and "edges_known nodes old"
  shows "distinct (map from_edge new) \<and> edges_known nodes new \<and>
    set (map from_edge old) \<subseteq> set (map from_edge new)"
proof (rule try_fold_invariant [OF assms(1), where P = "\<lambda>st. distinct (map from_edge st) \<and>
      edges_known nodes st \<and> set (map from_edge old) \<subseteq> set (map from_edge st)"])
  show "distinct (map from_edge old) \<and> edges_known nodes old \<and>
      set (map from_edge old) \<subseteq> set (map from_edge old)" using assms by simp
next
  fix e st st'
  assume inv: "distinct (map from_edge st) \<and> edges_known nodes st \<and>
      set (map from_edge old) \<subseteq> set (map from_edge st)"
    and step: "stage_edge nodes e st = Ok st'"
  have known: "btree_contains_key nodes (e_from e) \<and> btree_contains_key nodes (e_to e)"
    using step by (auto simp: stage_edge_def split: if_splits)
  have keys: "map from_edge st' = (if from_edge e \<in> from_edge ` set st then map from_edge st
      else map from_edge st @ [from_edge e])"
    using step by (rule stage_edge_keys)
  show "distinct (map from_edge st') \<and> edges_known nodes st' \<and>
      set (map from_edge old) \<subseteq> set (map from_edge st')"
    using inv known unfolding edges_known_def keys by (auto simp: from_edge_def)
qed

lemma apply_fact_values_Ok:
  assumes "apply_fact_values g ns es = Ok g'"
  obtains nodes edges where "try_fold stage_node ns (g_nodes g) = Ok nodes"
    and "try_fold (stage_edge nodes) es (g_edges g) = Ok edges"
    and "containment_wf edges" and "contracts_wf nodes (g_claim_bindings g)"
    and "g' = rebuild (g\<lparr>g_nodes := nodes, g_edges := edges\<rparr>)"
  using assms
  by (auto simp: apply_fact_values_def and_then_eq_Ok validate_contains_Ok validate_claim_bindings_Ok)

lemma apply_fact_values_wf:
  assumes "apply_fact_values g ns es = Ok g'" and "facts_wf g" and "owners_wf g"
  shows "facts_wf g' \<and> owners_wf g' \<and> contracts_wf (g_nodes g') (g_claim_bindings g')"
proof -
  obtain nodes edges where n: "try_fold stage_node ns (g_nodes g) = Ok nodes"
    and e: "try_fold (stage_edge nodes) es (g_edges g) = Ok edges"
    and wf: "containment_wf edges" "contracts_wf nodes (g_claim_bindings g)"
    and g': "g' = rebuild (g\<lparr>g_nodes := nodes, g_edges := edges\<rparr>)"
    using assms(1) by (rule apply_fact_values_Ok)
  have "edges_known nodes (g_edges g)"
    using assms(2) stage_nodes_mono [OF n] by (auto simp: edges_known_iff facts_wf_def)
  then have edges: "distinct (map from_edge edges) \<and> edges_known nodes edges \<and>
      set (map from_edge (g_edges g)) \<subseteq> set (map from_edge edges)"
    using assms(2) by (intro stage_edges_wf [OF e]) (simp_all add: facts_wf_def)
  have nodes: "\<forall>i n. btree_get nodes i = Some n \<longrightarrow> n_id n = i \<and> \<not> btree_contains_key (n_attrs n) ''health''"
    using assms(2) by (intro stage_nodes_wf [OF n]) (simp add: facts_wf_def)
  have "facts_wf g'"
    using nodes edges wf by (simp add: facts_wf_def g' edges_known_iff)
  moreover have "owners_wf g'"
    using assms(3) edges stage_nodes_mono [OF n] by (auto simp: owners_wf_def g')
  ultimately show ?thesis using wf by (simp add: g')
qed

lemma set_claim_binding_fields:
  assumes "set_claim_binding u g = Ok g'"
  shows "\<exists>cb. g' = g\<lparr>g_claim_bindings := cb\<rparr>"
proof -
  have "g' = g\<lparr>g_claim_bindings := g_claim_bindings g'\<rparr>"
    using assms by (auto simp: set_claim_binding_def Let_def split: if_splits option.splits)
  then show ?thesis by blast
qed

lemma set_claim_bindings_fields:
  assumes "try_fold set_claim_binding us g = Ok g'"
  shows "\<exists>cb. g' = g\<lparr>g_claim_bindings := cb\<rparr>"
proof (rule try_fold_invariant [OF assms])
  show "\<exists>cb. g = g\<lparr>g_claim_bindings := cb\<rparr>" by (rule exI [of _ "g_claim_bindings g"]) simp
next
  fix u s s'
  assume "\<exists>cb. s = g\<lparr>g_claim_bindings := cb\<rparr>" and "set_claim_binding u s = Ok s'"
  then obtain cb cb' where "s = g\<lparr>g_claim_bindings := cb\<rparr>" and "s' = s\<lparr>g_claim_bindings := cb'\<rparr>"
    using set_claim_binding_fields by blast
  then show "\<exists>cb. s' = g\<lparr>g_claim_bindings := cb\<rparr>" by auto
qed

lemma facts_owners_contracts [simp]:
  "facts_wf (g\<lparr>g_claim_bindings := cb\<rparr>) = facts_wf g"
  "owners_wf (g\<lparr>g_claim_bindings := cb\<rparr>) = owners_wf g"
  "facts_wf (g\<lparr>g_revision := r\<rparr>) = facts_wf g"
  "owners_wf (g\<lparr>g_revision := r\<rparr>) = owners_wf g"
  "facts_wf (g\<lparr>g_node_fact_writers := nw, g_edge_fact_writers := ew\<rparr>) = facts_wf g"
  "facts_wf (g\<lparr>g_observations := ob\<rparr>) = facts_wf g"
  by (rule facts_wf_cong; simp | simp add: owners_wf_def)+

lemma graph_apply_wf:
  assumes "graph_apply g ns es = Ok g'" and "facts_wf g" and "owners_wf g"
  shows "graph_wf g'"
  using assms apply_fact_values_wf [OF _ assms(2,3)]
  by (auto simp: graph_apply_def graph_wf_def and_then_eq_Ok split: if_splits)

lemma graph_apply_resource_facts_wf:
  assumes "graph_apply_resource_facts g ns es us = Ok g'" and "graph_wf g"
  shows "graph_wf g'"
proof -
  from assms(1) obtain s1 s2 s3 where
      "try_fold set_claim_binding (removals us) g = Ok s1" and s2: "graph_apply s1 ns es = Ok s2"
      and s3: "try_fold set_claim_binding (additions us) s2 = Ok s3"
      and valid: "contracts_wf (g_nodes s3) (g_claim_bindings s3)"
      and g': "\<exists>r. g' = s3\<lparr>g_revision := r\<rparr>"
    by (auto simp: graph_apply_resource_facts_def and_then_eq_Ok Let_def validate_claim_bindings_Ok)
  then obtain cb where "s1 = g\<lparr>g_claim_bindings := cb\<rparr>" by (auto dest: set_claim_bindings_fields)
  with assms(2) have "facts_wf s1" "owners_wf s1" by (simp_all add: graph_wf_def)
  with s2 have "graph_wf s2" by (rule graph_apply_wf)
  with set_claim_bindings_fields [OF s3] have "facts_wf s3" "owners_wf s3"
    by (auto simp: graph_wf_def)
  with g' valid show ?thesis by (auto simp: graph_wf_def)
qed

subsection \<open>Provider facts\<close>

lemma get_fold_insert_const:
  "btree_get (fold (\<lambda>x. btree_insert (f x) w) xs m) i = (if i \<in> f ` set xs then Some w else btree_get m i)"
  by (induction xs arbitrary: m) auto

lemma stage_edges_added:
  assumes "try_fold (stage_edge nodes) es old = Ok new"
  shows "from_edge ` set old \<union> from_edge ` set es \<subseteq> from_edge ` set new"
  using assms
proof (induction es arbitrary: old)
  case Nil
  then show ?case by simp
next
  case (Cons e es)
  then obtain mid where mid: "stage_edge nodes e old = Ok mid"
      and rest: "try_fold (stage_edge nodes) es mid = Ok new" by (auto split: result.splits)
  have "set (map from_edge old) \<union> {from_edge e} \<subseteq> set (map from_edge mid)"
    unfolding stage_edge_keys [OF mid] by auto
  then have "from_edge ` set old \<union> {from_edge e} \<subseteq> from_edge ` set mid" by (simp only: list.set_map)
  with Cons.IH [OF rest] show ?case by (simp only: list.set image_insert) blast
qed

lemma stage_edges_frame:
  assumes "try_fold (stage_edge nodes) es old = Ok new" and "x \<in> set old"
    and "from_edge x \<notin> from_edge ` set es"
  shows "x \<in> set new"
proof (rule try_fold_invariant [OF assms(1), where P = "\<lambda>st. x \<in> set st"])
  show "x \<in> set old" by (rule assms(2))
next
  fix e st st'
  assume "e \<in> set es" and x: "x \<in> set st" and step: "stage_edge nodes e st = Ok st'"
  with assms(3) have "from_edge x \<noteq> from_edge e" by auto
  with x step show "x \<in> set st'"
    by (auto simp: stage_edge_def image_iff split: if_splits intro: bexI [of _ x])
qed

lemma check_node_owners_Ok:
  assumes "try_fold (check_node_owner s w) ns seen = Ok seen'" and "n \<in> set ns"
  shows "btree_get (g_node_fact_writers s) (n_id n) = Some w \<or>
    (btree_get (g_node_fact_writers s) (n_id n) = None \<and> btree_get (g_nodes s) (n_id n) = None)"
  using assms
  by (induction ns arbitrary: seen)
    (auto simp: check_node_owner_def btree_contains_key_def split: result.splits option.splits if_splits)

lemma check_edge_owners_Ok:
  assumes "try_fold (check_edge_owner s w) es seen = Ok seen'" and "e \<in> set es"
  shows "btree_get (g_edge_fact_writers s) (from_edge e) = Some w \<or>
    (btree_get (g_edge_fact_writers s) (from_edge e) = None \<and> from_edge e \<notin> from_edge ` set (g_edges s))"
  using assms
proof (induction es arbitrary: seen)
  case Nil
  then show ?case by simp
next
  case (Cons x es)
  then obtain mid where mid: "check_edge_owner s w x seen = Ok mid"
      and rest: "try_fold (check_edge_owner s w) es mid = Ok seen'" by (auto split: result.splits)
  show ?case
  proof (cases "e = x")
    case True
    with mid show ?thesis
      by (auto simp: check_edge_owner_def Let_def list_ex_iff image_iff split: option.splits if_splits)
  next
    case False
    with Cons.prems Cons.IH [OF rest] show ?thesis by simp
  qed
qed

lemma apply_batch_Ok:
  assumes "apply_batch b (s, sn, se) = Ok (s', sn', se')"
  obtains mid where
    "\<And>n. n \<in> set (pb_nodes b) \<Longrightarrow> btree_get (g_node_fact_writers s) (n_id n) = Some (pb_writer b) \<or>
       (btree_get (g_node_fact_writers s) (n_id n) = None \<and> btree_get (g_nodes s) (n_id n) = None)"
    and "\<And>e. e \<in> set (pb_edges b) \<Longrightarrow> btree_get (g_edge_fact_writers s) (from_edge e) = Some (pb_writer b) \<or>
       (btree_get (g_edge_fact_writers s) (from_edge e) = None \<and> from_edge e \<notin> from_edge ` set (g_edges s))"
    and "apply_fact_values s (pb_nodes b) (pb_edges b) = Ok mid"
    and "s' = mid\<lparr>g_node_fact_writers :=
                fold (\<lambda>n. btree_insert (n_id n) (pb_writer b)) (pb_nodes b) (g_node_fact_writers mid),
              g_edge_fact_writers :=
                fold (\<lambda>e. btree_insert (from_edge e) (pb_writer b)) (pb_edges b) (g_edge_fact_writers mid)\<rparr>"
proof -
  from assms obtain sn1 se1 mid where n: "try_fold (check_node_owner s (pb_writer b)) (pb_nodes b) sn = Ok sn1"
      and e: "try_fold (check_edge_owner s (pb_writer b)) (pb_edges b) se = Ok se1"
      and mid: "apply_fact_values s (pb_nodes b) (pb_edges b) = Ok mid"
      and s': "s' = mid\<lparr>g_node_fact_writers :=
                fold (\<lambda>n. btree_insert (n_id n) (pb_writer b)) (pb_nodes b) (g_node_fact_writers mid),
              g_edge_fact_writers :=
                fold (\<lambda>e. btree_insert (from_edge e) (pb_writer b)) (pb_edges b) (g_edge_fact_writers mid)\<rparr>"
    by (auto simp: apply_batch_def and_then_eq_Ok)
  show ?thesis
    by (rule that [OF check_node_owners_Ok [OF n] check_edge_owners_Ok [OF e] mid s'])
qed

lemma apply_batch_wf:
  assumes "apply_batch b (s, sn, se) = Ok (s', sn', se')" and "facts_wf s" and "owners_wf s"
  shows "facts_wf s' \<and> owners_wf s'"
proof -
  obtain mid where mid: "apply_fact_values s (pb_nodes b) (pb_edges b) = Ok mid"
      and s': "s' = mid\<lparr>g_node_fact_writers :=
                fold (\<lambda>n. btree_insert (n_id n) (pb_writer b)) (pb_nodes b) (g_node_fact_writers mid),
              g_edge_fact_writers :=
                fold (\<lambda>e. btree_insert (from_edge e) (pb_writer b)) (pb_edges b) (g_edge_fact_writers mid)\<rparr>"
    using apply_batch_Ok [OF assms(1)] by metis
  have wf: "facts_wf mid" "owners_wf mid" using apply_fact_values_wf [OF mid assms(2,3)] by auto
  obtain nodes edges where n: "try_fold stage_node (pb_nodes b) (g_nodes s) = Ok nodes"
    and e: "try_fold (stage_edge nodes) (pb_edges b) (g_edges s) = Ok edges"
    and g': "mid = rebuild (s\<lparr>g_nodes := nodes, g_edges := edges\<rparr>)"
    using mid by (rule apply_fact_values_Ok)
  have "btree_contains_key (g_nodes mid) (n_id x)" if "x \<in> set (pb_nodes b)" for x
    using that
    by (auto simp: g' btree_contains_key_def stage_nodes_get [OF n] find_None_iff split: option.splits)
  moreover have "from_edge ` set (pb_edges b) \<subseteq> from_edge ` set (g_edges mid)"
    using stage_edges_added [OF e] by (simp add: g')
  ultimately have "owners_wf s'"
    using wf(2) by (auto simp: s' owners_wf_def get_fold_insert_const split: if_splits)
  then show ?thesis using wf(1) by (simp add: s')
qed

lemma apply_batches_wf:
  assumes "try_fold apply_batch bs (s, sn, se) = Ok (s', sn', se')" and "facts_wf s" and "owners_wf s"
  shows "facts_wf s' \<and> owners_wf s'"
  using try_fold_invariant [OF assms(1), where P = "\<lambda>(s, _, _). facts_wf s \<and> owners_wf s"] assms(2,3)
  by (auto dest: apply_batch_wf)

lemma graph_apply_provider_facts_Ok:
  assumes "graph_apply_provider_facts g bs us = Ok g'"
  obtains cb s sn se cb' where
    "try_fold apply_batch bs (g\<lparr>g_claim_bindings := cb\<rparr>, {}, {}) = Ok (s, sn, se)"
    and "contracts_wf (g_nodes s) cb'"
    and "g' = s\<lparr>g_claim_bindings := cb', g_revision := saturating_add (g_revision g) 1\<rparr>"
proof -
  from assms obtain s1 s sn se s3 where
      s1: "try_fold set_claim_binding (removals us) g = Ok s1"
      and s: "try_fold apply_batch bs (s1, {}, {}) = Ok (s, sn, se)"
      and s3: "try_fold set_claim_binding (additions us) s = Ok s3"
      and valid: "contracts_wf (g_nodes s3) (g_claim_bindings s3)"
      and g': "g' = s3\<lparr>g_revision := saturating_add (g_revision g) 1\<rparr>"
    by (auto simp: graph_apply_provider_facts_def and_then_eq_Ok Let_def validate_claim_bindings_Ok)
  from set_claim_bindings_fields [OF s1] set_claim_bindings_fields [OF s3] obtain cb cb' where
      "s1 = g\<lparr>g_claim_bindings := cb\<rparr>" and "s3 = s\<lparr>g_claim_bindings := cb'\<rparr>" by blast
  with s valid g' show ?thesis by (intro that [of cb s sn se cb']) auto
qed

lemma graph_apply_provider_facts_wf:
  assumes "graph_apply_provider_facts g bs us = Ok g'" and "graph_wf g"
  shows "graph_wf g'"
proof -
  obtain cb s sn se cb' where
      s: "try_fold apply_batch bs (g\<lparr>g_claim_bindings := cb\<rparr>, {}, {}) = Ok (s, sn, se)"
      and valid: "contracts_wf (g_nodes s) cb'"
      and g': "g' = s\<lparr>g_claim_bindings := cb', g_revision := saturating_add (g_revision g) 1\<rparr>"
    using assms(1) by (rule graph_apply_provider_facts_Ok)
  have "facts_wf s \<and> owners_wf s"
    using assms(2) by (intro apply_batches_wf [OF s]) (simp_all add: graph_wf_def)
  then show ?thesis using valid by (simp add: g' graph_wf_def)
qed

text \<open>A batch changes a fact that exists only when its writer owns it, and never changes an owner.\<close>

lemma apply_batch_node_frame:
  assumes "apply_batch b (s, sn, se) = Ok (s', sn', se')" and "btree_get (g_nodes s) i = Some n"
    and "btree_get (g_node_fact_writers s) i \<noteq> Some (pb_writer b)"
  shows "btree_get (g_nodes s') i = Some n \<and>
    btree_get (g_node_fact_writers s') i = btree_get (g_node_fact_writers s) i"
proof -
  obtain mid where own: "\<And>x. x \<in> set (pb_nodes b) \<Longrightarrow>
        btree_get (g_node_fact_writers s) (n_id x) = Some (pb_writer b) \<or>
        (btree_get (g_node_fact_writers s) (n_id x) = None \<and> btree_get (g_nodes s) (n_id x) = None)"
      and mid: "apply_fact_values s (pb_nodes b) (pb_edges b) = Ok mid"
      and s': "s' = mid\<lparr>g_node_fact_writers :=
                fold (\<lambda>n. btree_insert (n_id n) (pb_writer b)) (pb_nodes b) (g_node_fact_writers mid),
              g_edge_fact_writers :=
                fold (\<lambda>e. btree_insert (from_edge e) (pb_writer b)) (pb_edges b) (g_edge_fact_writers mid)\<rparr>"
    using apply_batch_Ok [OF assms(1)] by metis
  have fresh: "i \<notin> n_id ` set (pb_nodes b)" using own assms(2,3) by force
  obtain nodes edges where nodes: "try_fold stage_node (pb_nodes b) (g_nodes s) = Ok nodes"
      and mid': "mid = rebuild (s\<lparr>g_nodes := nodes, g_edges := edges\<rparr>)"
    using mid by (rule apply_fact_values_Ok)
  have "find (\<lambda>x. n_id x = i) (rev (pb_nodes b)) = None" using fresh by (auto simp: find_None_iff)
  then show ?thesis
    using fresh assms(2) by (simp add: s' mid' get_fold_insert_const stage_nodes_get [OF nodes])
qed

lemma apply_batch_node_owner:
  assumes "apply_batch b (s, sn, se) = Ok (s', sn', se')"
    and "btree_get (g_node_fact_writers s) i = Some w"
  shows "btree_get (g_node_fact_writers s') i = Some w"
proof -
  obtain mid where own: "\<And>x. x \<in> set (pb_nodes b) \<Longrightarrow>
        btree_get (g_node_fact_writers s) (n_id x) = Some (pb_writer b) \<or>
        (btree_get (g_node_fact_writers s) (n_id x) = None \<and> btree_get (g_nodes s) (n_id x) = None)"
      and mid: "apply_fact_values s (pb_nodes b) (pb_edges b) = Ok mid"
      and s': "s' = mid\<lparr>g_node_fact_writers :=
                fold (\<lambda>n. btree_insert (n_id n) (pb_writer b)) (pb_nodes b) (g_node_fact_writers mid),
              g_edge_fact_writers :=
                fold (\<lambda>e. btree_insert (from_edge e) (pb_writer b)) (pb_edges b) (g_edge_fact_writers mid)\<rparr>"
    using apply_batch_Ok [OF assms(1)] by metis
  have "i \<in> n_id ` set (pb_nodes b) \<Longrightarrow> w = pb_writer b" using own assms(2) by force
  moreover have "g_node_fact_writers mid = g_node_fact_writers s"
    using mid by (auto elim: apply_fact_values_Ok)
  ultimately show ?thesis using assms(2) by (auto simp: s' get_fold_insert_const)
qed

lemma apply_batches_node_frame:
  assumes "try_fold apply_batch bs (s, sn, se) = Ok (s', sn', se')"
    and "btree_get (g_nodes s) i = Some n"
    and "\<forall>b\<in>set bs. btree_get (g_node_fact_writers s) i \<noteq> Some (pb_writer b)"
  shows "btree_get (g_nodes s') i = Some n \<and>
    btree_get (g_node_fact_writers s') i = btree_get (g_node_fact_writers s) i"
  using try_fold_invariant [OF assms(1), where P = "\<lambda>(t, _, _). btree_get (g_nodes t) i = Some n \<and>
      btree_get (g_node_fact_writers t) i = btree_get (g_node_fact_writers s) i"] assms(2,3)
  by (force dest: apply_batch_node_frame)

lemma apply_batches_node_owner:
  assumes "try_fold apply_batch bs (s, sn, se) = Ok (s', sn', se')"
    and "btree_get (g_node_fact_writers s) i = Some w"
  shows "btree_get (g_node_fact_writers s') i = Some w"
  using try_fold_invariant [OF assms(1), where P = "\<lambda>(t, _, _). btree_get (g_node_fact_writers t) i = Some w"]
    assms(2)
  by (force dest: apply_batch_node_owner)

section \<open>A sample graph\<close>

text \<open>
  A machine (node 1) that contains a GPU (node 2) with two units and a memory node (node 3); the GPU
  is claimable through the enforcement provider with an exclusive binding, the memory in
  independent shares. The witnesses below and in the later theories evaluate the kernel on it.
\<close>

definition sample_machine :: node where
  "sample_machine = \<lparr>n_id = 1, n_kind = Machine, n_attrs = btree_empty, n_capacity = btree_empty\<rparr>"

definition sample_gpu :: node where
  "sample_gpu = \<lparr>n_id = 2, n_kind = Gpu, n_attrs = btree_empty, n_capacity = qty Count 2\<rparr>"

definition sample_memory :: node where
  "sample_memory = \<lparr>n_id = 3, n_kind = Memory, n_attrs = btree_empty, n_capacity = qty Bytes 64\<rparr>"

definition sample_contains :: "node_id \<Rightarrow> node_id \<Rightarrow> edge" where
  "sample_contains f t = \<lparr>e_from = f, e_to = t, e_kind = Contains, e_attrs = btree_empty\<rparr>"

definition sample_batch :: provider_fact_batch where
  "sample_batch = \<lparr>pb_writer = 7, pb_nodes = [sample_machine, sample_gpu, sample_memory],
     pb_edges = [sample_contains 1 2, sample_contains 1 3]\<rparr>"

definition sample_contracts :: "claim_binding_update list" where
  "sample_contracts =
     [\<lparr>cu_node = 2, cu_dimension = Count,
       cu_binding = Some \<lparr>cb_provider = provider_enforce, cb_scope = Exclusive\<rparr>\<rparr>,
      \<lparr>cu_node = 3, cu_dimension = Bytes,
       cu_binding = Some \<lparr>cb_provider = provider_enforce, cb_scope = IndependentShare\<rparr>\<rparr>]"

definition sample_graph :: graph where
  "sample_graph =
     (case graph_apply_provider_facts graph_new [sample_batch] sample_contracts of
        Ok g \<Rightarrow> g | Err _ \<Rightarrow> graph_new)"

text \<open>
  Provenance of resource facts: an accepted provider update leaves the facts of a node alone
  unless one of its batches comes from the writer that owns the node; it never takes a node away
  from its owner; and it advances the revision by exactly one.
\<close>

theorem provider_facts_ownership:
  assumes "graph_apply_provider_facts g bs us = Ok g'"
  shows "(\<forall>i w. node_fact_writer g i = Some w \<longrightarrow> node_fact_writer g' i = Some w) \<and>
    (\<forall>i n. graph_node g i = Some n \<longrightarrow> (\<forall>b\<in>set bs. node_fact_writer g i \<noteq> Some (pb_writer b)) \<longrightarrow>
       graph_node g' i = Some n) \<and>
    g_revision g' = saturating_add (g_revision g) 1"
proof -
  obtain cb s sn se cb' where
      s: "try_fold apply_batch bs (g\<lparr>g_claim_bindings := cb\<rparr>, {}, {}) = Ok (s, sn, se)"
      and g': "g' = s\<lparr>g_claim_bindings := cb', g_revision := saturating_add (g_revision g) 1\<rparr>"
    using assms by (rule graph_apply_provider_facts_Ok)
  have "node_fact_writer g' i = Some w" if "node_fact_writer g i = Some w" for i w
    using apply_batches_node_owner [OF s, of i w] that by (simp add: node_fact_writer_def g')
  moreover have "graph_node g' i = Some n"
    if "graph_node g i = Some n" and "\<forall>b\<in>set bs. node_fact_writer g i \<noteq> Some (pb_writer b)" for i n
    using apply_batches_node_frame [OF s, of i n] that
    by (simp add: node_fact_writer_def graph_node_def g')
  ultimately show ?thesis by (simp add: g')
qed

lemma sample_graph_Ok:
  "graph_apply_provider_facts graph_new [sample_batch] sample_contracts = Ok sample_graph"
proof -
  have "is_ok (graph_apply_provider_facts graph_new [sample_batch] sample_contracts)" by code_simp
  then show ?thesis by (auto simp: is_ok_iff sample_graph_def)
qed

text \<open>A later update by another writer that adds a node of its own.\<close>

definition sample_update :: provider_fact_batch where
  "sample_update = \<lparr>pb_writer = 8,
     pb_nodes = [\<lparr>n_id = 4, n_kind = Nic, n_attrs = btree_empty, n_capacity = qty Count 1\<rparr>],
     pb_edges = [sample_contains 1 4]\<rparr>"

theorem provider_facts_ownership_witness:
  "\<exists>g'. graph_apply_provider_facts sample_graph [sample_update] [] = Ok g' \<and>
     graph_node g' 2 = Some sample_gpu \<and> node_fact_writer g' 2 = Some 7 \<and> g_revision g' = 2"
proof -
  have "is_ok (graph_apply_provider_facts sample_graph [sample_update] [])" by code_simp
  then obtain g' where g': "graph_apply_provider_facts sample_graph [sample_update] [] = Ok g'"
    by (auto simp: is_ok_iff)
  have "graph_node sample_graph 2 = Some sample_gpu" "node_fact_writer sample_graph 2 = Some 7"
    "saturating_add (g_revision sample_graph) 1 = 2" "pb_writer sample_update = 8"
    by code_simp+
  then show ?thesis using provider_facts_ownership [OF g'] g' by auto
qed

subsection \<open>Adoption and observations\<close>

lemma adopt_node_step:
  assumes "adopt_node g w n (ns, es, sn, se) = Ok (ns', es', sn', se')"
  shows "es' = es \<and> btree_contains_key (g_nodes g) n \<and> ns' = btree_insert n w ns \<and>
    (btree_get ns n = None \<or> btree_get ns n = Some w)"
  using assms by (auto simp: adopt_node_def split: if_splits option.splits)

lemma adopt_edge_step:
  assumes "adopt_edge g w e (ns, es, sn, se) = Ok (ns', es', sn', se')"
  shows "ns' = ns \<and> from_fact e \<in> from_edge ` set (g_edges g) \<and> es' = btree_insert (from_fact e) w es \<and>
    (btree_get es (from_fact e) = None \<or> btree_get es (from_fact e) = Some w)"
  using assms
  by (auto simp: adopt_edge_def Let_def list_ex_iff split: if_splits option.splits) (metis image_eqI)+

definition adoption_ok :: "graph \<Rightarrow> adoption \<Rightarrow> bool" where
  "adoption_ok g = (\<lambda>(ns, es, _, _).
     (\<forall>i w. btree_get (g_node_fact_writers g) i = Some w \<longrightarrow> btree_get ns i = Some w) \<and>
     (\<forall>k w. btree_get (g_edge_fact_writers g) k = Some w \<longrightarrow> btree_get es k = Some w) \<and>
     (\<forall>i w. btree_get ns i = Some w \<longrightarrow> btree_contains_key (g_nodes g) i) \<and>
     (\<forall>k w. btree_get es k = Some w \<longrightarrow> k \<in> from_edge ` set (g_edges g)))"

lemma adopt_node_ok:
  assumes "adopt_node g w n st = Ok st'" and "adoption_ok g st"
  shows "adoption_ok g st'"
  using assms by (cases st; cases st') (auto simp: adoption_ok_def dest!: adopt_node_step split: if_splits)

lemma adopt_edge_ok:
  assumes "adopt_edge g w e st = Ok st'" and "adoption_ok g st"
  shows "adoption_ok g st'"
  using assms by (cases st; cases st') (auto simp: adoption_ok_def simp del: split_paired_All dest!: adopt_edge_step split: if_splits)

lemma adopt_assignment_ok:
  assumes "adopt_assignment g a st = Ok st'" and "adoption_ok g st"
  shows "adoption_ok g st'"
proof -
  from assms(1) obtain mid where mid: "try_fold (adopt_node g (fa_writer a)) (fa_nodes a) st = Ok mid"
      and st': "try_fold (adopt_edge g (fa_writer a)) (fa_edges a) mid = Ok st'"
    by (auto simp: adopt_assignment_def and_then_eq_Ok)
  have "adoption_ok g mid"
    using mid assms(2) by (rule try_fold_invariant) (rule adopt_node_ok)
  with st' show ?thesis by (rule try_fold_invariant) (rule adopt_edge_ok)
qed

lemma adopt_fact_writers_ok:
  assumes "graph_adopt_fact_writers g as = Ok g'" and "owners_wf g"
  obtains ns es sn se where "g' = g\<lparr>g_node_fact_writers := ns, g_edge_fact_writers := es\<rparr>"
    and "adoption_ok g (ns, es, sn, se)"
proof -
  from assms(1) obtain ns es sn se where
      run: "try_fold (adopt_assignment g) as (g_node_fact_writers g, g_edge_fact_writers g, {}, {}) =
        Ok (ns, es, sn, se)"
      and g': "g' = g\<lparr>g_node_fact_writers := ns, g_edge_fact_writers := es\<rparr>"
    by (auto simp: graph_adopt_fact_writers_def and_then_eq_Ok)
  have "adoption_ok g (g_node_fact_writers g, g_edge_fact_writers g, {}, {})"
    using assms(2) by (auto simp: adoption_ok_def owners_wf_def)
  with run have "adoption_ok g (ns, es, sn, se)"
    by (rule try_fold_invariant) (rule adopt_assignment_ok)
  with g' show ?thesis by (rule that)
qed

lemma graph_adopt_fact_writers_wf:
  assumes "graph_adopt_fact_writers g as = Ok g'" and "graph_wf g"
  shows "graph_wf g'"
proof -
  from assms(2) have "owners_wf g" by (simp add: graph_wf_def)
  with assms(1) obtain ns es sn se where g': "g' = g\<lparr>g_node_fact_writers := ns, g_edge_fact_writers := es\<rparr>"
    and ok: "adoption_ok g (ns, es, sn, se)" by (rule adopt_fact_writers_ok)
  have "owners_wf g'"
    using ok assms(2) by (auto simp: g' adoption_ok_def owners_wf_def graph_wf_def)
  with assms(2) show ?thesis by (simp add: g' graph_wf_def)
qed

lemma set_observation_wf: "graph_wf g \<Longrightarrow> graph_wf (fst (set_observation g i key v))"
  by (auto simp: set_observation_def graph_wf_def owners_wf_def)

lemma graph_new_wf: "graph_wf graph_new"
proof -
  have "rebuild graph_new = graph_new"
    by (rule graph.equality)
      (simp_all add: rebuild_def graph_new_def Let_def graph_nodes_def btree_values_def btree.entries_empty
        btree_map_values_def Abs_btree_inverse btree_empty_def key_ordered_def)
  then show ?thesis
    by (simp add: graph_wf_def facts_wf_def owners_wf_def contracts_wf_def graph_new_def
        containment_wf_def one_container_def contained_in_def wfp_on_bot)
qed

lemma sample_graph_wf: "graph_wf sample_graph"
  using sample_graph_Ok graph_new_wf by (rule graph_apply_provider_facts_wf)

subsection \<open>What updates keep of the nodes\<close>

lemma apply_fact_values_nodes:
  assumes "apply_fact_values g ns es = Ok g'" and "graph_node g i \<noteq> None"
  shows "graph_node g' i \<noteq> None"
proof -
  obtain nodes edges where n: "try_fold stage_node ns (g_nodes g) = Ok nodes"
      and g': "g' = rebuild (g\<lparr>g_nodes := nodes, g_edges := edges\<rparr>)"
    using assms(1) by (rule apply_fact_values_Ok)
  show ?thesis
    using stage_nodes_mono [OF n, of i] assms(2) by (simp add: g' graph_node_def btree_contains_key_def)
qed

lemma graph_apply_nodes:
  assumes "graph_apply g ns es = Ok g'" and "graph_node g i \<noteq> None"
  shows "graph_node g' i \<noteq> None"
proof -
  from assms(1) obtain g1 r where "apply_fact_values g ns es = Ok g1" and "g' = g1\<lparr>g_revision := r\<rparr>"
    by (auto simp: graph_apply_def and_then_eq_Ok split: if_splits)
  with apply_fact_values_nodes [OF _ assms(2)] show ?thesis by (auto simp: graph_node_def)
qed

lemma set_claim_bindings_nodes:
  assumes "try_fold set_claim_binding us g = Ok g'"
  shows "graph_node g' i = graph_node g i"
  using set_claim_bindings_fields [OF assms] by (auto simp: graph_node_def)

lemma graph_apply_resource_facts_nodes:
  assumes "graph_apply_resource_facts g ns es us = Ok g'" and "graph_node g i \<noteq> None"
  shows "graph_node g' i \<noteq> None"
proof -
  from assms(1) obtain s1 s2 s3 r where s1: "try_fold set_claim_binding (removals us) g = Ok s1"
      and s2: "graph_apply s1 ns es = Ok s2" and s3: "try_fold set_claim_binding (additions us) s2 = Ok s3"
      and g': "g' = s3\<lparr>g_revision := r\<rparr>"
    by (auto simp: graph_apply_resource_facts_def and_then_eq_Ok Let_def)
  have "graph_node s1 i \<noteq> None" using assms(2) set_claim_bindings_nodes [OF s1] by simp
  then have "graph_node s2 i \<noteq> None" by (rule graph_apply_nodes [OF s2])
  then have "graph_node s3 i \<noteq> None" using set_claim_bindings_nodes [OF s3] by simp
  then show ?thesis by (simp add: g' graph_node_def)
qed

lemma graph_apply_provider_facts_nodes:
  assumes "graph_apply_provider_facts g bs us = Ok g'" and "graph_node g i \<noteq> None"
  shows "graph_node g' i \<noteq> None"
proof -
  obtain cb s sn se cb' where
      s: "try_fold apply_batch bs (g\<lparr>g_claim_bindings := cb\<rparr>, {}, {}) = Ok (s, sn, se)"
      and g': "g' = s\<lparr>g_claim_bindings := cb', g_revision := saturating_add (g_revision g) 1\<rparr>"
    using assms(1) by (rule graph_apply_provider_facts_Ok)
  have step: "graph_node t' i \<noteq> None"
    if run: "apply_batch b (t, tn, te) = Ok (t', tn', te')" and old: "graph_node t i \<noteq> None" for b t tn te t' tn' te'
  proof -
    obtain mid where "apply_fact_values t (pb_nodes b) (pb_edges b) = Ok mid" and "g_nodes t' = g_nodes mid"
      using run by (auto simp: apply_batch_def and_then_eq_Ok)
    with apply_fact_values_nodes [OF _ old] show ?thesis by (simp add: graph_node_def)
  qed
  have "graph_node (fst (s, sn, se)) i \<noteq> None"
    using s by (rule try_fold_invariant) (use assms(2) step in \<open>auto simp: graph_node_def\<close>)
  then show ?thesis by (simp add: g' graph_node_def)
qed

text \<open>Provenance and observations do not enter the topology.\<close>

lemma graph_views_cong:
  assumes "g_nodes g' = g_nodes g" and "g_parent g' = g_parent g"
  shows "graph_node g' = graph_node g" "ancestors g' = ancestors g" "machine_of g' = machine_of g"
proof -
  show node: "graph_node g' = graph_node g" by (rule ext) (simp add: graph_node_def assms)
  have par: "graph_parent g' = graph_parent g" by (rule ext) (simp add: graph_parent_def assms)
  show anc: "ancestors g' = ancestors g"
    by (rule ext) (simp only: ancestors_def ancestors_loop_def par)
  show "machine_of g' = machine_of g"
    by (rule ext) (simp only: machine_of_def ancestor_of_class_def node_has_kind_def [abs_def] node anc)
qed

text \<open>
  C34. The containment check is exact: a set of edges is accepted precisely when no node has two
  containers and the container relation is well-founded (no node contains itself, directly or through
  others).
\<close>

theorem validate_contains_exact:
  "validate_contains es = Ok () \<longleftrightarrow>
     (\<forall>x p q. contained_in es x p \<longrightarrow> contained_in es x q \<longrightarrow> p = q) \<and>
     wfp (\<lambda>p x. contained_in es x p)"
  unfolding validate_contains_Ok containment_wf_def one_container_def ..

theorem validate_contains_exact_witness:
  "validate_contains [sample_contains 1 2, sample_contains 2 1] \<noteq> Ok () \<and>
   \<not> wfp (\<lambda>p x. contained_in [sample_contains 1 2, sample_contains 2 1] x p)"
proof -
  let ?es = "[sample_contains 1 2, sample_contains 2 1]"
  have bad: "validate_contains ?es \<noteq> Ok ()" by code_simp
  have "\<forall>x p q. contained_in ?es x p \<longrightarrow> contained_in ?es x q \<longrightarrow> p = q"
    by (auto simp: contained_in_def sample_contains_def)
  with bad show ?thesis using validate_contains_exact [of ?es] by blast
qed

text \<open>
  On a well-formed graph both tree walks return: the loop of \<^verbatim>\<open>ancestors\<close> ends with the
  chain of containers, the loop of \<^verbatim>\<open>descendants\<close> ends with exactly the nodes that have the given
  node among their ancestors, and no node is its own ancestor.
\<close>

theorem graph_walks_terminate:
  assumes "graph_wf g"
  shows "\<exists>up down. ancestors_loop g x = Some up \<and> descendants_loop g x = Some down \<and>
    up = (case graph_parent g x of None \<Rightarrow> [] | Some p \<Rightarrow> p # ancestors g p) \<and>
    set down = {y. x \<in> set (ancestors g y)} \<and> x \<notin> set up"
proof -
  from assms have wf: "facts_wf g" by (simp add: graph_wf_def)
  obtain up where up: "ancestors_loop g x = Some up"
    using gf.walk_up_total [OF wf, of x] by (auto simp: ancestors_loop_def)
  obtain xs where "\<forall>st out. walk_stack (graph_children g) (rev (graph_children g x) @ st) out =
        walk_stack (graph_children g) st (out @ xs)"
    using gf.walk_stack_total [OF wf, of x] by blast
  from this [THEN spec, of "[]"] have down: "descendants_loop g x = Some xs"
    by (simp add: descendants_loop_def)
  have "up = ancestors g x" "xs = descendants g x"
    using up down by (simp_all add: ancestors_def descendants_def)
  moreover have "x \<notin> set (ancestors g x)"
    using gf.up_irrefl [OF wf, of x] by (simp only: ancestors_set [OF wf] mem_Collect_eq) simp
  ultimately show ?thesis
    using up down ancestors_unfold [OF wf, of x] descendants_set [OF wf, of x]
    by blast
qed

theorem graph_walks_terminate_witness:
  "graph_wf sample_graph \<and> ancestors_loop sample_graph 2 = Some [1]"
proof -
  obtain up where up: "ancestors_loop sample_graph 2 = Some up"
      and eq: "up = (case graph_parent sample_graph 2 of None \<Rightarrow> [] | Some p \<Rightarrow> p # ancestors sample_graph p)"
    using graph_walks_terminate [OF sample_graph_wf, of 2] by blast
  have "graph_parent sample_graph 2 = Some 1" "graph_parent sample_graph 1 = None" by code_simp+
  moreover from this have "ancestors sample_graph 1 = []"
    by (simp add: ancestors_def ancestors_loop_def)
  ultimately show ?thesis using up eq sample_graph_wf by simp
qed

text \<open>
  C33. Every way to change the graph keeps it well-formed: legacy and provider updates, claim
  contracts, adoption of fact writers and observations.
\<close>

theorem graph_updates_keep_wf:
  assumes "graph_wf g"
  shows "(graph_apply g ns es = Ok g1 \<longrightarrow> graph_wf g1) \<and>
    (graph_apply_resource_facts g ns es us = Ok g2 \<longrightarrow> graph_wf g2) \<and>
    (graph_apply_provider_facts g bs us = Ok g3 \<longrightarrow> graph_wf g3) \<and>
    (graph_adopt_fact_writers g as = Ok g4 \<longrightarrow> graph_wf g4) \<and>
    graph_wf (fst (set_observation g i key v))"
  using assms graph_apply_wf [of g ns es g1]
  by (auto simp: graph_wf_def [of g] set_observation_wf intro: graph_apply_resource_facts_wf
      graph_apply_provider_facts_wf graph_adopt_fact_writers_wf)

theorem graph_updates_keep_wf_witness:
  "\<exists>g'. graph_wf sample_graph \<and> graph_apply_provider_facts sample_graph [sample_update] [] = Ok g' \<and> graph_wf g'"
proof -
  have "is_ok (graph_apply_provider_facts sample_graph [sample_update] [])" by code_simp
  then obtain g' where g': "graph_apply_provider_facts sample_graph [sample_update] [] = Ok g'"
    by (auto simp: is_ok_iff)
  moreover have "graph_wf g'"
    using graph_updates_keep_wf [OF sample_graph_wf, of "[]" "[]" g' "[]" g' "[sample_update]" g'] g' by blast
  ultimately show ?thesis using sample_graph_wf by blast
qed

end
