(* ===== verification/Delegation.thy ===== *)
theory Delegation
  imports Main
begin

text \<open>
  Accounting in a delegation forest. A table of grants gives each grant a parent (or none) and a
  number of units; a set of grants is live. A live grant is charged to its parent when that is live,
  so what counts against the resource are the live roots. The theory shows when the charge stays
  within bounds: it does not grow when grants end, provided that every parent covers its live
  children and that only a grant without a parent ever ends before its children do.
\<close>

definition roots :: "('i \<Rightarrow> 'i option) \<Rightarrow> 'i set \<Rightarrow> 'i set" where
  "roots par live = {i \<in> live. \<forall>p. par i = Some p \<longrightarrow> p \<notin> live}"

definition kids :: "('i \<Rightarrow> 'i option) \<Rightarrow> 'i set \<Rightarrow> 'i \<Rightarrow> 'i set" where
  "kids par live p = {i \<in> live. par i = Some p}"

text \<open>A parent that is itself a child outlives its children.\<close>

definition lineage :: "('i \<Rightarrow> 'i option) \<Rightarrow> 'i set \<Rightarrow> bool" where
  "lineage par live \<longleftrightarrow> (\<forall>i\<in>live. \<forall>p. par i = Some p \<longrightarrow> par p \<noteq> None \<longrightarrow> p \<in> live)"

definition delegated :: "('i \<Rightarrow> 'i option) \<Rightarrow> ('i \<Rightarrow> nat) \<Rightarrow> 'i set \<Rightarrow> bool" where
  "delegated par u live \<longleftrightarrow> (\<forall>p. sum u (kids par live p) \<le> u p)"

lemma roots_subset: "roots par live \<subseteq> live"
  by (auto simp: roots_def)

lemma finite_roots [simp]: "finite live \<Longrightarrow> finite (roots par live)"
  by (rule finite_subset [OF roots_subset])

lemma finite_kids [simp]: "finite live \<Longrightarrow> finite (kids par live p)"
  by (auto simp: kids_def)

lemma sum_by_parent:
  fixes u :: "'i \<Rightarrow> nat"
  assumes "finite A" and "\<forall>i\<in>A. \<exists>t\<in>T. par i = Some t" and "finite T"
  shows "sum u A = (\<Sum>t\<in>T. sum u {i \<in> A. par i = Some t})"
proof -
  have "sum u A = sum u (\<Union>t\<in>T. {i \<in> A. par i = Some t})"
    using assms(2) by (intro arg_cong [where f = "sum u"]) auto
  also have "\<dots> = (\<Sum>t\<in>T. sum u {i \<in> A. par i = Some t})"
    using assms by (intro sum.UNION_disjoint) auto
  finally show ?thesis .
qed

lemma roots_shrink:
  fixes u :: "'i \<Rightarrow> nat"
  assumes fin: "finite live" and sub: "live' \<subseteq> live"
    and lin: "lineage par live'" and del: "delegated par u live"
  shows "sum u (roots par live') \<le> sum u (roots par live)"
proof -
  let ?tops = "{i \<in> live'. par i = None}"
  let ?ended = "{t \<in> live - live'. par t = None}"
  let ?freed = "{i \<in> roots par live'. \<exists>t\<in>?ended. par i = Some t}"
  let ?kept = "{i \<in> roots par live'. \<exists>t. par i = Some t \<and> t \<notin> live}"
  have fin': "finite live'" using fin sub by (rule finite_subset [rotated])
  have split: "roots par live' = ?tops \<union> ?freed \<union> ?kept"
  proof
    show "roots par live' \<subseteq> ?tops \<union> ?freed \<union> ?kept"
    proof
      fix i assume i: "i \<in> roots par live'"
      show "i \<in> ?tops \<union> ?freed \<union> ?kept"
      proof (cases "par i")
        case None
        with i show ?thesis by (auto simp: roots_def)
      next
        case (Some t)
        with i have "t \<notin> live'" "i \<in> live'" by (auto simp: roots_def)
        with Some lin have "par t = None" by (auto simp: lineage_def)
        with i Some \<open>t \<notin> live'\<close> show ?thesis by (cases "t \<in> live") auto
      qed
    qed
  qed (auto simp: roots_def)
  have parts: "?freed \<inter> ?kept = {}" "?tops \<inter> (?freed \<union> ?kept) = {}" by auto
  have fins: "finite ?tops" "finite ?freed" "finite ?kept" "finite ?ended"
    using fin fin' by auto
  have "sum u ?freed = (\<Sum>t\<in>?ended. sum u {i \<in> ?freed. par i = Some t})"
    using fins by (intro sum_by_parent) auto
  also have "\<dots> \<le> (\<Sum>t\<in>?ended. u t)"
  proof (rule sum_mono)
    fix t assume "t \<in> ?ended"
    have "sum u {i \<in> ?freed. par i = Some t} \<le> sum u (kids par live t)"
      using fin sub by (intro sum_mono2) (auto simp: kids_def roots_def)
    also have "\<dots> \<le> u t" using del by (simp add: delegated_def)
    finally show "sum u {i \<in> ?freed. par i = Some t} \<le> u t" .
  qed
  finally have freed: "sum u ?freed \<le> sum u ?ended" .
  have "sum u (roots par live') = sum u ?tops + (sum u ?freed + sum u ?kept)"
  proof -
    have "sum u (roots par live') = sum u (?tops \<union> (?freed \<union> ?kept))"
      by (rule arg_cong [OF split [unfolded Un_assoc]])
    also have "\<dots> = sum u ?tops + sum u (?freed \<union> ?kept)"
      using fins parts by (intro sum.union_disjoint) simp_all
    also have "sum u (?freed \<union> ?kept) = sum u ?freed + sum u ?kept"
      using fins parts by (intro sum.union_disjoint) simp_all
    finally show ?thesis .
  qed
  also have "\<dots> \<le> sum u ?tops + (sum u ?ended + sum u ?kept)" using freed by simp
  also have "\<dots> = sum u (?tops \<union> (?ended \<union> ?kept))"
  proof -
    have "?ended \<inter> ?kept = {}" "?tops \<inter> (?ended \<union> ?kept) = {}" by auto
    with fins show ?thesis by (simp add: sum.union_disjoint)
  qed
  also have "\<dots> \<le> sum u (roots par live)"
    using fin sub by (intro sum_mono2) (auto simp: roots_def)
  finally show ?thesis .
qed

lemma delegated_shrink:
  fixes u :: "'i \<Rightarrow> nat"
  assumes "delegated par u live" and "finite live" and "live' \<subseteq> live"
  shows "delegated par u live'"
  unfolding delegated_def
proof
  fix p
  have "sum u (kids par live' p) \<le> sum u (kids par live p)"
    using assms(2,3) by (intro sum_mono2) (auto simp: kids_def)
  also have "\<dots> \<le> u p" using assms(1) by (simp add: delegated_def)
  finally show "sum u (kids par live' p) \<le> u p" .
qed

text \<open>A new grant has no children yet: it counts when it has no parent, and is covered otherwise.\<close>

lemma roots_insert_top:
  assumes "i \<notin> live" and "par i = None" and "kids par live i = {}"
  shows "roots par (insert i live) = insert i (roots par live)"
  using assms by (auto simp: roots_def kids_def)

lemma roots_insert_child:
  assumes "i \<notin> live" and "par i = Some p" and "p \<in> live" and "kids par live i = {}" and "p \<noteq> i"
  shows "roots par (insert i live) = roots par live"
  using assms by (auto simp: roots_def kids_def)

lemma kids_insert:
  "kids par (insert i live) p = (if par i = Some p then insert i (kids par live p) else kids par live p)"
  by (auto simp: kids_def)

lemma lineage_insert:
  assumes "lineage par live" and "\<forall>p. par i = Some p \<longrightarrow> p \<in> live" and "kids par live i = {}"
  shows "lineage par (insert i live)"
  using assms by (auto simp: lineage_def kids_def)

text \<open>The functions are read on the live grants only.\<close>

lemma roots_cong: "(\<And>i. i \<in> live \<Longrightarrow> par i = par' i) \<Longrightarrow> roots par live = roots par' live"
  by (auto simp: roots_def)

lemma kids_cong: "(\<And>i. i \<in> live \<Longrightarrow> par i = par' i) \<Longrightarrow> kids par live p = kids par' live p"
  by (auto simp: kids_def)

end
