(* ===== verification/Kernel_Occupancy.thy ===== *)
theory Kernel_Occupancy
  imports Graph_Facts Delegation
begin

text \<open>
  Occupied capacity (\<^verbatim>\<open>crates/kernel/src/occupancy.rs\<close>): which leases occupy resources, what they use on
  each node, and the checks a new claim has to pass. The lemmas compute the loops: the amount in
  use is a sum over the occupying leases whose parent does not occupy, in the ring of 64-bit words;
  the safety theory shows that this sum never wraps in a reachable cluster.
\<close>

record occupancy =
  o_used :: "(node_id, quantity) btree"

definition remaining :: "occupancy \<Rightarrow> graph \<Rightarrow> node_id \<Rightarrow> (quantity, error) result" where
  "remaining occ g n =
     (case graph_node g n of
        None \<Rightarrow> Err (UnknownNode n)
      | Some nd \<Rightarrow> Ok (quantity_saturating_sub (n_capacity nd) (btree_get_or btree_empty (o_used occ) n)))"

definition can_cover :: "occupancy \<Rightarrow> graph \<Rightarrow> claim \<Rightarrow> (bool, error) result" where
  "can_cover occ g c =
     and_then (remaining occ g (c_node c)) (\<lambda>free. Ok (quantity_le (c_quantity c) free))"

definition used_on :: "occupancy \<Rightarrow> node_id \<Rightarrow> quantity" where
  "used_on occ n = btree_get_or btree_empty (o_used occ) n"

definition is_used :: "occupancy \<Rightarrow> node_id \<Rightarrow> bool" where
  "is_used occ n \<longleftrightarrow> \<not> btree_is_empty (used_on occ n)"

text \<open>The loop returns at the first node that is unknown or exceeded.\<close>

fun exceeds_loop :: "graph \<Rightarrow> (node_id \<times> quantity) list \<Rightarrow> (node_id option, error) result" where
  "exceeds_loop g [] = Ok None"
| "exceeds_loop g ((n, used) # rest) =
     (case graph_node g n of
        None \<Rightarrow> Err (UnknownNode n)
      | Some nd \<Rightarrow> if \<not> quantity_le used (n_capacity nd) then Ok (Some n) else exceeds_loop g rest)"

definition exceeds_capacity :: "occupancy \<Rightarrow> graph \<Rightarrow> (node_id option, error) result" where
  "exceeds_capacity occ g = exceeds_loop g (btree_entries (o_used occ))"

definition lease_occupies :: "lease \<Rightarrow> bool \<Rightarrow> bool" where
  "lease_occupies l open_bindings \<longleftrightarrow>
     l_state l = LReserved \<or> l_state l = LPreparing \<or> l_state l = LActive \<or> open_bindings"

definition resolve_claim :: "graph \<Rightarrow> claim \<Rightarrow> (claim, error) result" where
  "resolve_claim g c =
     (case graph_node g (c_node c) of
        None \<Rightarrow> Err (UnknownNode (c_node c))
      | Some nd \<Rightarrow>
          let quantity = (if btree_is_empty (c_quantity c) then n_capacity nd else c_quantity c) in
          and_then (claim_binding_for_quantity g (c_node c) quantity)
            (\<lambda>_. Ok \<lparr>c_node = c_node c, c_quantity = quantity\<rparr>))"

definition covers :: "claim list \<Rightarrow> claim list \<Rightarrow> bool" where
  "covers parent child \<longleftrightarrow>
     list_all (\<lambda>cc. list_ex (\<lambda>pc. c_node pc = c_node cc \<and> quantity_le (c_quantity cc) (c_quantity pc)) parent)
       child"

definition claims_by_node :: "claim list \<Rightarrow> (node_id, quantity) btree" where
  "claims_by_node claims =
     fold (\<lambda>c. btree_entry btree_empty (\<lambda>entry. quantity_max entry (c_quantity c)) (c_node c))
       claims btree_empty"

text \<open>The inner loop of both occupancy counts: the claims of one lease, node by node.\<close>

definition add_claims :: "lease \<Rightarrow> (node_id, quantity) btree \<Rightarrow> (node_id, quantity) btree" where
  "add_claims l used =
     fold (\<lambda>(n, q). btree_entry btree_empty (\<lambda>entry. quantity_add_assign entry q) n)
       (btree_entries (claims_by_node (a_claims (l_allocation l)))) used"

definition occupying_leases :: "lease list \<Rightarrow> lease_id set \<Rightarrow> lease_id set \<Rightarrow> lease list" where
  "occupying_leases leases open_binding_leases excepted =
     filter (\<lambda>l. l_id l \<notin> excepted \<and> lease_occupies l (l_id l \<in> open_binding_leases)) leases"

definition occupancy_from_leases :: "lease list \<Rightarrow> lease_id set \<Rightarrow> lease_id set \<Rightarrow> occupancy" where
  "occupancy_from_leases leases open_binding_leases excepted =
     (let occupying = occupying_leases leases open_binding_leases excepted;
          roots = set (map l_id (filter (\<lambda>l.
            case l_parent l of
              None \<Rightarrow> True
            | Some parent \<Rightarrow> list_all (\<lambda>other. l_id other \<noteq> parent) occupying) occupying))
      in \<lparr>o_used = fold (\<lambda>l used. if l_id l \<notin> roots then used else add_claims l used) occupying btree_empty\<rparr>)"

definition subtree_used :: "(lease_id, lease) btree \<Rightarrow> lease_id set \<Rightarrow> lease_id \<Rightarrow> lease_id \<Rightarrow> occupancy" where
  "subtree_used leases open_binding_leases parent excepted =
     \<lparr>o_used = fold (\<lambda>l used.
         if l_id l = excepted \<or> l_parent l \<noteq> Some parent then used
         else if \<not> lease_occupies l (l_id l \<in> open_binding_leases) then used
         else add_claims l used) (btree_values leases) btree_empty\<rparr>"

definition claim_fits :: "quantity \<Rightarrow> quantity \<Rightarrow> quantity \<Rightarrow> bool" where
  "claim_fits capacity used claim \<longleftrightarrow>
     list_all (\<lambda>(dimension, amount).
       saturating_sub (quantity_get capacity dimension) (quantity_get used dimension) \<ge> amount)
       (btree_entries claim)"

section \<open>What one lease uses\<close>

text \<open>The units of one dimension a lease holds on a node, and the units a node has.\<close>

definition lease_units :: "lease \<Rightarrow> node_id \<Rightarrow> capacity_dimension \<Rightarrow> u64" where
  "lease_units l n d =
     quantity_get (btree_get_or btree_empty (claims_by_node (a_claims (l_allocation l))) n) d"

definition capacity_of :: "graph \<Rightarrow> node_id \<Rightarrow> capacity_dimension \<Rightarrow> u64" where
  "capacity_of g n d = (case graph_node g n of None \<Rightarrow> 0 | Some nd \<Rightarrow> quantity_get (n_capacity nd) d)"

lemma quantity_get_collapse:
  "btree_get_or btree_empty m n = (case btree_get m n of None \<Rightarrow> btree_empty | Some q \<Rightarrow> q)"
  by (simp add: btree_get_or_def)

lemma claims_by_node_snoc:
  "quantity_get (btree_get_or btree_empty (claims_by_node (cs @ [c])) n) d =
     (if c_node c = n
      then max (quantity_get (btree_get_or btree_empty (claims_by_node cs) n) d) (quantity_get (c_quantity c) d)
      else quantity_get (btree_get_or btree_empty (claims_by_node cs) n) d)"
  by (simp add: claims_by_node_def btree_get_or_def quantity_simps)

lemma claims_by_node_unclaimed:
  assumes "n \<notin> c_node ` set cs"
  shows "quantity_get (btree_get_or btree_empty (claims_by_node cs) n) d = 0"
  using assms
proof (induction cs rule: rev_induct)
  case Nil
  then show ?case by (simp add: claims_by_node_def)
next
  case (snoc c cs)
  then show ?case by (auto simp: claims_by_node_snoc)
qed

lemma claims_by_node_claimed:
  assumes "distinct (map c_node cs)" and "c \<in> set cs"
  shows "quantity_get (btree_get_or btree_empty (claims_by_node cs) (c_node c)) d = quantity_get (c_quantity c) d"
  using assms
proof (induction cs rule: rev_induct)
  case Nil
  then show ?case by simp
next
  case (snoc x cs)
  show ?case
  proof (cases "c = x")
    case True
    with snoc.prems have "c_node x \<notin> c_node ` set cs" by simp
    with True show ?thesis by (simp add: claims_by_node_snoc claims_by_node_unclaimed)
  next
    case False
    with snoc.prems have "c \<in> set cs" and "c_node x \<noteq> c_node c" by auto
    with snoc show ?thesis by (simp add: claims_by_node_snoc)
  qed
qed

lemma used_add_claims:
  "quantity_get (btree_get_or btree_empty (add_claims l used) n) d =
     quantity_get (btree_get_or btree_empty used n) d + lease_units l n d"
proof -
  have "btree_get (add_claims l used) n =
     (case btree_get (claims_by_node (a_claims (l_allocation l))) n of
        None \<Rightarrow> btree_get used n
      | Some q \<Rightarrow> Some (quantity_add_assign (btree_get_or btree_empty used n) q))"
    unfolding add_claims_def by (rule btree_get_fold_entry)
  then show ?thesis
    by (simp add: lease_units_def btree_get_or_def quantity_simps split: option.split)
qed

lemma used_fold_claims:
  "quantity_get (btree_get_or btree_empty (fold (\<lambda>l used. if P l then add_claims l used else used) ls m) n) d =
     quantity_get (btree_get_or btree_empty m n) d + sum_list (map (\<lambda>l. lease_units l n d) (filter P ls))"
  by (induction ls arbitrary: m) (auto simp: used_add_claims)

section \<open>The loops as sums\<close>

text \<open>A lease table is indexed by the identity of its leases; it gives each lease its parent and its
  units, so that the accounting of \<open>Delegation\<close> applies to the occupying leases.\<close>

definition ids_ok :: "(lease_id, lease) btree \<Rightarrow> bool" where
  "ids_ok L \<longleftrightarrow> (\<forall>i l. btree_get L i = Some l \<longrightarrow> l_id l = i)"

definition parent_of :: "(lease_id, lease) btree \<Rightarrow> lease_id \<Rightarrow> lease_id option" where
  "parent_of L i = (case btree_get L i of None \<Rightarrow> None | Some l \<Rightarrow> l_parent l)"

definition units_of :: "(lease_id, lease) btree \<Rightarrow> node_id \<Rightarrow> capacity_dimension \<Rightarrow> lease_id \<Rightarrow> u64" where
  "units_of L n d i = (case btree_get L i of None \<Rightarrow> 0 | Some l \<Rightarrow> lease_units l n d)"

definition occupying_ids :: "(lease_id, lease) btree \<Rightarrow> lease_id set \<Rightarrow> lease_id set \<Rightarrow> lease_id set" where
  "occupying_ids L open_leases excepted =
     {i. \<exists>l. btree_get L i = Some l \<and> i \<notin> excepted \<and> lease_occupies l (i \<in> open_leases)}"

lemma ids_okD: "ids_ok L \<Longrightarrow> btree_get L i = Some l \<Longrightarrow> l_id l = i"
  by (simp add: ids_ok_def)

lemma occupying_known: "i \<in> occupying_ids L op ex \<Longrightarrow> \<exists>l. btree_get L i = Some l"
  by (auto simp: occupying_ids_def)

lemma finite_occupying [simp]: "finite (occupying_ids L op ex)"
  by (rule finite_subset [OF _ finite_btree_dom [of L]]) (auto simp: occupying_ids_def)

lemma sum_values_filter:
  fixes f :: "lease \<Rightarrow> 'n::comm_monoid_add"
  shows "sum_list (map f (filter P (btree_values L))) =
    (\<Sum>i | \<exists>l. btree_get L i = Some l \<and> P l. case btree_get L i of None \<Rightarrow> 0 | Some l \<Rightarrow> f l)"
proof -
  let ?at = "\<lambda>i. the (btree_get L i)"
  let ?ks = "filter (\<lambda>i. P (?at i)) (btree_keys L)"
  have vals: "btree_values L = map ?at (btree_keys L)"
    unfolding btree_values_def btree_keys_def by auto
  have "sum_list (map f (filter P (btree_values L))) = sum_list (map (\<lambda>i. f (?at i)) ?ks)"
    unfolding vals by (simp add: filter_map comp_def)
  also have "\<dots> = (\<Sum>i\<in>set ?ks. f (?at i))"
    by (rule sum_list_distinct_conv_sum_set) simp
  also have "\<dots> = (\<Sum>i | \<exists>l. btree_get L i = Some l \<and> P l. case btree_get L i of None \<Rightarrow> 0 | Some l \<Rightarrow> f l)"
    by (rule sum.cong) auto
  finally show ?thesis .
qed

text \<open>The list of occupying leases that the code builds, and the identities of its roots.\<close>

lemma occupying_list:
  fixes L op ex l
  assumes "ids_ok L"
  defines "occupying \<equiv> occupying_leases (btree_values L) op ex"
  shows "l \<in> set occupying \<longleftrightarrow> l_id l \<in> occupying_ids L op ex \<and> btree_get L (l_id l) = Some l"
    and "l_id ` set occupying = occupying_ids L op ex"
proof -
  show mem: "l \<in> set occupying \<longleftrightarrow> l_id l \<in> occupying_ids L op ex \<and> btree_get L (l_id l) = Some l" for l
    by (auto simp: occupying_def occupying_leases_def occupying_ids_def dest: ids_okD [OF assms(1)])
  have "i \<in> l_id ` set occupying" if i: "i \<in> occupying_ids L op ex" for i
  proof -
    from i obtain l where l: "btree_get L i = Some l" by (auto dest: occupying_known)
    then have "l_id l = i" by (rule ids_okD [OF assms(1)])
    with i l show ?thesis by (intro image_eqI [of _ _ l]) (auto simp: mem)
  qed
  then show "l_id ` set occupying = occupying_ids L op ex" by (auto simp: mem)
qed

lemma root_list:
  fixes L op ex
  assumes "ids_ok L"
  defines "occupying \<equiv> occupying_leases (btree_values L) op ex"
  shows "set (map l_id (filter (\<lambda>l. case l_parent l of None \<Rightarrow> True
      | Some parent \<Rightarrow> list_all (\<lambda>other. l_id other \<noteq> parent) occupying) occupying)) =
    roots (parent_of L) (occupying_ids L op ex)" (is "?list = _")
proof (rule set_eqI)
  fix i
  let ?O = "occupying_ids L op ex"
  note occ = occupying_list [OF assms(1), where op = op and ex = ex, folded occupying_def]
  have "i \<in> ?list \<longleftrightarrow> (\<exists>l\<in>set occupying. l_id l = i \<and> (\<forall>p. l_parent l = Some p \<longrightarrow> p \<notin> ?O))"
    unfolding occ(2) [symmetric] by (force simp: list_all_iff split: option.splits)
  also have "\<dots> \<longleftrightarrow> (\<exists>l. btree_get L i = Some l \<and> i \<in> ?O \<and> (\<forall>p. l_parent l = Some p \<longrightarrow> p \<notin> ?O))"
  proof
    assume "\<exists>l. btree_get L i = Some l \<and> i \<in> ?O \<and> (\<forall>p. l_parent l = Some p \<longrightarrow> p \<notin> ?O)"
    then obtain l where "btree_get L i = Some l" "i \<in> ?O" "\<forall>p. l_parent l = Some p \<longrightarrow> p \<notin> ?O"
      by blast
    moreover from this have "l_id l = i" by (intro ids_okD [OF assms(1)])
    ultimately show "\<exists>l\<in>set occupying. l_id l = i \<and> (\<forall>p. l_parent l = Some p \<longrightarrow> p \<notin> ?O)"
      by (intro bexI [of _ l]) (simp_all add: occ(1))
  qed (auto simp: occ(1))
  also have "\<dots> \<longleftrightarrow> i \<in> roots (parent_of L) ?O"
    using occupying_known [of i L op ex] by (cases "btree_get L i") (auto simp: roots_def parent_of_def)
  finally show "i \<in> ?list \<longleftrightarrow> i \<in> roots (parent_of L) ?O" .
qed

lemma used_on_leases:
  assumes "ids_ok L"
  shows "quantity_get (used_on (occupancy_from_leases (btree_values L) op ex) n) d =
    sum (units_of L n d) (roots (parent_of L) (occupying_ids L op ex))"
proof -
  let ?occ = "\<lambda>l. l_id l \<notin> ex \<and> lease_occupies l (l_id l \<in> op)"
  let ?R = "roots (parent_of L) (occupying_ids L op ex)"
  have flip: "(\<lambda>l used. if l_id l \<notin> ?R then used else add_claims l used) =
      (\<lambda>l used. if l_id l \<in> ?R then add_claims l used else used)"
    by (simp add: fun_eq_iff)
  have "quantity_get (used_on (occupancy_from_leases (btree_values L) op ex) n) d =
      quantity_get (btree_get_or btree_empty
        (fold (\<lambda>l used. if l_id l \<in> ?R then add_claims l used else used)
          (occupying_leases (btree_values L) op ex) btree_empty) n) d"
    unfolding used_on_def occupancy_from_leases_def Let_def root_list [OF assms] flip occupancy.simps ..
  also have "\<dots> = sum_list (map (\<lambda>l. lease_units l n d)
      (filter (\<lambda>l. ?occ l \<and> l_id l \<in> ?R) (btree_values L)))"
    unfolding used_fold_claims by (simp add: conj_commute occupying_leases_def)
  also have "\<dots> = (\<Sum>i | \<exists>l. btree_get L i = Some l \<and> ?occ l \<and> l_id l \<in> ?R. units_of L n d i)"
    unfolding sum_values_filter units_of_def ..
  also have "{i. \<exists>l. btree_get L i = Some l \<and> ?occ l \<and> l_id l \<in> ?R} = ?R"
    by (auto simp: roots_def occupying_ids_def dest: ids_okD [OF assms])
  finally show ?thesis .
qed

lemma subtree_used_sum:
  assumes "ids_ok L"
  shows "quantity_get (used_on (subtree_used L op p ex) n) d =
    sum (units_of L n d) (kids (parent_of L) (occupying_ids L op {ex}) p)"
proof -
  let ?P = "\<lambda>l. \<not> (l_id l = ex \<or> l_parent l \<noteq> Some p) \<and> lease_occupies l (l_id l \<in> op)"
  have eq: "(\<lambda>l used. if l_id l = ex \<or> l_parent l \<noteq> Some p then used
         else if \<not> lease_occupies l (l_id l \<in> op) then used else add_claims l used) =
      (\<lambda>l used. if ?P l then add_claims l used else used)"
    by (auto simp: fun_eq_iff)
  have "quantity_get (used_on (subtree_used L op p ex) n) d =
      sum_list (map (\<lambda>l. lease_units l n d) (filter ?P (btree_values L)))"
    unfolding subtree_used_def used_on_def occupancy.simps eq used_fold_claims by simp
  also have "\<dots> = (\<Sum>i | \<exists>l. btree_get L i = Some l \<and> ?P l. units_of L n d i)"
    unfolding sum_values_filter units_of_def ..
  also have "{i. \<exists>l. btree_get L i = Some l \<and> ?P l} = kids (parent_of L) (occupying_ids L op {ex}) p"
    by (auto simp: kids_def parent_of_def occupying_ids_def dest: ids_okD [OF assms])
  finally show ?thesis .
qed

section \<open>The checks\<close>

lemma can_cover_Ok:
  "can_cover occ g c = Ok b \<longleftrightarrow>
     graph_node g (c_node c) \<noteq> None \<and>
     b = (\<forall>d. unat (quantity_get (c_quantity c) d) \<le>
       unat (capacity_of g (c_node c) d) - unat (quantity_get (used_on occ (c_node c)) d))"
  by (auto simp: can_cover_def remaining_def quantity_le_iff capacity_of_def used_on_def quantity_simps
      word_le_nat_alt unat_saturating_sub split: option.splits)

lemma claim_fits_iff:
  "claim_fits cap used q \<longleftrightarrow>
     (\<forall>d. unat (quantity_get q d) \<le> unat (quantity_get cap d) - unat (quantity_get used d))"
proof -
  have "claim_fits cap used q \<longleftrightarrow> quantity_le q (quantity_saturating_sub cap used)"
    unfolding claim_fits_def quantity_le_def by (simp add: quantity_simps)
  then show ?thesis
    by (simp add: quantity_le_iff quantity_simps word_le_nat_alt unat_saturating_sub)
qed

lemma exceeds_loop_None:
  "exceeds_loop g ps = Ok None \<longleftrightarrow>
     (\<forall>(n, used)\<in>set ps. \<exists>nd. graph_node g n = Some nd \<and> quantity_le used (n_capacity nd))"
  by (induction g ps rule: exceeds_loop.induct) (auto split: option.splits)

lemma exceeds_capacity_None:
  assumes "exceeds_capacity occ g = Ok None"
  shows "quantity_get (used_on occ n) d \<le> capacity_of g n d"
proof (cases "btree_get (o_used occ) n")
  case None
  then show ?thesis by (simp add: used_on_def btree_get_or_def)
next
  case (Some q)
  then have "(n, q) \<in> set (btree_entries (o_used occ))" by simp
  with assms obtain nd where "graph_node g n = Some nd" and "quantity_le q (n_capacity nd)"
    unfolding exceeds_capacity_def exceeds_loop_None by blast
  with Some show ?thesis by (simp add: used_on_def btree_get_or_def capacity_of_def quantity_le_iff)
qed

lemma resolve_claim_Ok:
  assumes "resolve_claim g c = Ok c'"
  shows "c_node c' = c_node c \<and> graph_node g (c_node c) \<noteq> None \<and>
    (\<not> btree_is_empty (c_quantity c) \<longrightarrow> c' = c) \<and>
    is_ok (claim_binding_for_quantity g (c_node c) (c_quantity c'))"
  using assms
  by (cases c) (auto simp: resolve_claim_def and_then_eq_Ok Let_def split: option.splits if_splits)

end
