(* ===== verification/Kernel_Command.thy ===== *)
theory Kernel_Command
  imports Kernel_Types
begin

text \<open>
  Commands and effects (\<^verbatim>\<open>crates/kernel/src/command.rs\<close>): a command is the unit of the replicated log, an
  effect is what the controller asks an agent to do. The effects carry the prefix \<open>Eff\<close>.
\<close>

datatype (plugins only: code size) command =
    ApplyGraph "node list" "edge list"
  | ApplyResourceFacts "node list" "edge list" "claim_binding_update list"
  | ApplyProviderFacts "provider_fact_batch list" "claim_binding_update list"
  | AdoptFactWriters "fact_writer_assignment list"
  | ReserveLease lease_id owner_id allocation u64 u32
  | PromoteLease lease_id u64
  | OpenLease lease_id owner_id allocation "lease_id option" u64 u64 u32
  | ActivateLease lease_id
  | FailLease lease_id string
  | ReleaseLease lease_id
  | CompleteLease lease_id int
  | RevokeLease lease_id
  | ExpireLease lease_id
  | RenewLease lease_id u64
  | OpenBinding binding_id lease_id node_id provider_id binding_scope
  | ActivateBinding binding_id
  | FenceBinding binding_id
  | FailBinding binding_id string
  | ReleaseBinding binding_id
  | RecordBindingPrepared binding_id u64 u64 u64
  | RecordBindingActive binding_id u64 u64
  | RecordBindingReleased binding_id u64 u64
  | RecordBindingFenced binding_id u64 u64
  | RecordBindingFailed binding_id u64 string u64
  | SetAgentSession node_id u64
  | SetNodeHealth node_id string
  | SetNodeState node_id node_state
  | RebindSession binding_id u64
  | AdvanceEndpointFence node_id provider_id u64
  | QuarantineNode node_id
  | UnquarantineNode node_id

text \<open>The operands of an enforcement effect: binding, node, provider, fence, session, epoch.\<close>

datatype (plugins only: code size) effect =
    EffPrepare binding_id node_id provider_id u64 u64 u64
  | EffActivate binding_id node_id provider_id u64 u64 u64
  | EffRelease binding_id node_id provider_id u64 u64 u64
  | EffFence binding_id node_id provider_id u64 u64 u64
  | EffReconcile node_id u64 u64 "binding_id list"

end
