(* ===== verification/Kernel_Cluster.thy ===== *)
theory Kernel_Cluster
  imports Kernel_Occupancy Kernel_Command
begin

text \<open>
  The cluster (\<^verbatim>\<open>crates/kernel/src/cluster.rs\<close>): the replicated state of the control plane and the transition
  function \<^verbatim>\<open>Cluster::apply\<close> over it. Every operation takes the cluster and returns the cluster it leaves
  behind together with its result, also when the result is an error, since nothing in the types of
  the source forbids an operation to change the state and fail afterwards; that none does in a
  reachable cluster is a theorem.
\<close>

record cluster =
  k_epoch :: u64
  k_now :: u64
  k_agreed :: bool
  k_replaying :: bool
  k_graph :: graph
  k_log :: "command list"
  k_leases :: "(lease_id, lease) btree"
  k_bindings :: "(binding_id, binding) btree"
  k_sessions :: "(node_id, u64) btree"
  k_last_fence :: "(provider_id \<times> node_id, u64) btree"
  k_node_states :: "(node_id, node_state) btree"

definition cluster_new :: cluster where
  "cluster_new =
     \<lparr>k_epoch = 1, k_now = 0, k_agreed = True, k_replaying = False, k_graph = graph_new, k_log = [],
      k_leases = btree_empty, k_bindings = btree_empty, k_sessions = btree_empty,
      k_last_fence = btree_empty, k_node_states = btree_empty\<rparr>"

type_synonym outcome = "cluster \<times> (effect list, error) result"

text \<open>The \<^verbatim>\<open>?\<close> operator on a result, and a checking loop, in an operation on the cluster.\<close>

fun on_ok :: "('a, error) result \<Rightarrow> cluster \<Rightarrow> ('a \<Rightarrow> outcome) \<Rightarrow> outcome" where
  "on_ok (Ok x) c k = k x"
| "on_ok (Err e) c k = (c, Err e)"

fun unless_error :: "error option \<Rightarrow> cluster \<Rightarrow> outcome \<Rightarrow> outcome" where
  "unless_error None c k = k"
| "unless_error (Some e) c k = (c, Err e)"

section \<open>Clock, agreement and views\<close>

definition set_now :: "cluster \<Rightarrow> u64 \<Rightarrow> cluster" where
  "set_now c now = c\<lparr>k_now := now\<rparr>"

definition set_agreement :: "cluster \<Rightarrow> bool \<Rightarrow> cluster" where
  "set_agreement c agreed = c\<lparr>k_agreed := agreed\<rparr>"

definition set_replaying :: "cluster \<Rightarrow> bool \<Rightarrow> cluster" where
  "set_replaying c replaying = c\<lparr>k_replaying := replaying\<rparr>"

definition advance_epoch :: "cluster \<Rightarrow> cluster" where
  "advance_epoch c = c\<lparr>k_epoch := saturating_add (k_epoch c) 1\<rparr>"

definition node_state_of :: "cluster \<Rightarrow> node_id \<Rightarrow> node_state option" where
  "node_state_of c n =
     map_option (\<lambda>_. btree_get_or Schedulable (k_node_states c) n) (graph_node (k_graph c) n)"

definition placement_blocked :: "cluster \<Rightarrow> node_id set" where
  "placement_blocked c =
     set (map n_id (filter (\<lambda>n.
       \<not> (case node_state_of c (n_id n) of Some s \<Rightarrow> is_schedulable s | None \<Rightarrow> False))
       (graph_nodes (k_graph c))))"

definition open_bindings :: "cluster \<Rightarrow> lease_id \<Rightarrow> bool" where
  "open_bindings c l \<longleftrightarrow>
     list_ex (\<lambda>b. b_lease b = l \<and> \<not> is_closed (b_state b)) (btree_values (k_bindings c))"

definition open_binding_leases :: "cluster \<Rightarrow> lease_id set" where
  "open_binding_leases c =
     set (map b_lease (filter (\<lambda>b. \<not> is_closed (b_state b)) (btree_values (k_bindings c))))"

definition occupancy_except :: "cluster \<Rightarrow> lease_id set \<Rightarrow> occupancy" where
  "occupancy_except c excepted =
     occupancy_from_leases (btree_values (k_leases c)) (open_binding_leases c) excepted"

definition occupies :: "cluster \<Rightarrow> lease_id \<Rightarrow> bool" where
  "occupies c i =
     (case btree_get (k_leases c) i of
        Some l \<Rightarrow> lease_occupies l (open_bindings c (l_id l))
      | None \<Rightarrow> False)"

definition lease_children :: "cluster \<Rightarrow> lease_id \<Rightarrow> lease_id list" where
  "lease_children c parent =
     map l_id (filter (\<lambda>l. l_parent l = Some parent) (btree_values (k_leases c)))"

text \<open>\<^verbatim>\<open>walk_descendants\<close>: children in order, each after its own descendants. The depth bound is one
  more than the number of leases; \<open>descendants_postorder_unfold\<close> shows that it is never reached.\<close>

definition descendants_postorder :: "cluster \<Rightarrow> lease_id \<Rightarrow> lease_id list" where
  "descendants_postorder c parent =
     walk_post (\<lambda>p. sort (lease_children c p)) (Suc (length (btree_entries (k_leases c)))) parent"

definition bindings_for :: "cluster \<Rightarrow> lease_id \<Rightarrow> binding_id list" where
  "bindings_for c l = map b_id (filter (\<lambda>b. b_lease b = l) (btree_values (k_bindings c)))"

definition machine_bindings :: "cluster \<Rightarrow> node_id \<Rightarrow> binding_id list" where
  "machine_bindings c machine =
     map b_id (filter (\<lambda>b. machine_of (k_graph c) (b_node b) = Some machine) (btree_values (k_bindings c)))"

definition live_machine_bindings :: "cluster \<Rightarrow> node_id \<Rightarrow> binding_id list" where
  "live_machine_bindings c machine =
     filter (\<lambda>i. case btree_get (k_bindings c) i of
                   Some b \<Rightarrow> b_state b = BPreparing \<or> b_state b = BActive
                 | None \<Rightarrow> False) (machine_bindings c machine)"

definition node_quarantined :: "cluster \<Rightarrow> node_id \<Rightarrow> bool" where
  "node_quarantined c n =
     (let blocked = (\<lambda>i. case btree_get (k_node_states c) i of
                           Some s \<Rightarrow> \<not> is_schedulable s | None \<Rightarrow> False)
      in blocked n \<or> list_ex blocked (ancestors (k_graph c) n))"

definition require_session :: "cluster \<Rightarrow> node_id \<Rightarrow> u64 \<Rightarrow> (node_id, error) result" where
  "require_session c n session =
     and_then (ok_or (machine_of (k_graph c) n) (UnknownNode n)) (\<lambda>machine.
     and_then (ok_or (btree_get (k_sessions c) machine) (NoAgent machine)) (\<lambda>expected.
       if expected \<noteq> session then Err (StaleSession expected session) else Ok machine))"

definition require_fence :: "binding_id \<Rightarrow> u64 \<Rightarrow> u64 \<Rightarrow> (unit, error) result" where
  "require_fence binding expected got =
     (if expected \<noteq> got then Err (FenceMismatch binding expected got) else Ok ())"

definition binding_effect ::
    "cluster \<Rightarrow> binding \<Rightarrow> (binding_id \<Rightarrow> node_id \<Rightarrow> provider_id \<Rightarrow> u64 \<Rightarrow> u64 \<Rightarrow> u64 \<Rightarrow> effect) \<Rightarrow> effect" where
  "binding_effect c b kind =
     (let session = (case machine_of (k_graph c) (b_node b) of
                       None \<Rightarrow> b_agent_session b
                     | Some machine \<Rightarrow> btree_get_or (b_agent_session b) (k_sessions c) machine)
      in kind (b_id b) (b_node b) (b_provider b) (b_fence b) session (k_epoch c))"

definition fence_effects :: "cluster \<Rightarrow> lease_id \<Rightarrow> effect list" where
  "fence_effects c l =
     map (\<lambda>b. binding_effect c b EffFence)
       (filter (\<lambda>b. b_lease b = l \<and> \<not> is_closed (b_state b)) (btree_values (k_bindings c)))"

definition release_effects :: "cluster \<Rightarrow> lease_id \<Rightarrow> effect list" where
  "release_effects c l =
     map (\<lambda>b. binding_effect c b EffRelease)
       (filter (\<lambda>b. b_lease b = l \<and> \<not> is_closed (b_state b)) (btree_values (k_bindings c)))"

section \<open>Resource facts\<close>

text \<open>The loop of \<^verbatim>\<open>install_resource_graph\<close> over the claims of the occupying leases.\<close>

definition moved_claim :: "cluster \<Rightarrow> graph \<Rightarrow> error option" where
  "moved_claim c staged =
     try_all (\<lambda>l. try_all (\<lambda>cl.
         if machine_of (k_graph c) (c_node cl) \<noteq> machine_of staged (c_node cl)
         then Some (ResourceBusy (c_node cl)) else None) (a_claims (l_allocation l)))
       (filter (\<lambda>l. lease_occupies l (l_id l \<in> open_binding_leases c)) (btree_values (k_leases c)))"

definition install_resource_graph :: "cluster \<Rightarrow> graph \<Rightarrow> outcome" where
  "install_resource_graph c staged =
     on_ok (exceeds_capacity
              (occupancy_from_leases (btree_values (k_leases c)) (open_binding_leases c) {}) staged) c
       (\<lambda>exceeded. case exceeded of
          Some n \<Rightarrow> (c, Err (CapacityBelowOccupancy n))
        | None \<Rightarrow> unless_error (moved_claim c staged) c (c\<lparr>k_graph := staged\<rparr>, Ok []))"

definition apply_graph :: "cluster \<Rightarrow> node list \<Rightarrow> edge list \<Rightarrow> outcome" where
  "apply_graph c nodes edges =
     (if \<not> k_agreed c then (c, Err NotAgreed)
      else on_ok (graph_apply (k_graph c) nodes edges) c (install_resource_graph c))"

definition apply_resource_facts ::
    "cluster \<Rightarrow> node list \<Rightarrow> edge list \<Rightarrow> claim_binding_update list \<Rightarrow> outcome" where
  "apply_resource_facts c nodes edges updates =
     (if \<not> k_agreed c then (c, Err NotAgreed)
      else on_ok (graph_apply_resource_facts (k_graph c) nodes edges updates) c (install_resource_graph c))"

definition apply_provider_facts ::
    "cluster \<Rightarrow> provider_fact_batch list \<Rightarrow> claim_binding_update list \<Rightarrow> outcome" where
  "apply_provider_facts c batches updates =
     (if \<not> k_agreed c then (c, Err NotAgreed)
      else on_ok (graph_apply_provider_facts (k_graph c) batches updates) c (install_resource_graph c))"

definition adopt_fact_writers :: "cluster \<Rightarrow> fact_writer_assignment list \<Rightarrow> outcome" where
  "adopt_fact_writers c assignments =
     (if \<not> k_agreed c then (c, Err NotAgreed)
      else on_ok (graph_adopt_fact_writers (k_graph c) assignments) c
        (\<lambda>staged. (c\<lparr>k_graph := staged\<rparr>, Ok [])))"

section \<open>Leases\<close>

text \<open>The loop that resolves the claims of a new lease and refuses a node named twice.\<close>

definition resolve_claims :: "graph \<Rightarrow> claim list \<Rightarrow> (claim list, error) result" where
  "resolve_claims g claims =
     and_then
       (try_fold (\<lambda>cl (out, seen).
          if c_node cl \<in> seen then Err (DuplicateClaim (c_node cl))
          else and_then (resolve_claim g cl) (\<lambda>r. Ok (out @ [r], insert (c_node cl) seen)))
          claims ([], {}))
       (\<lambda>(out, _). Ok out)"

definition quarantined_claim :: "cluster \<Rightarrow> claim list \<Rightarrow> error option" where
  "quarantined_claim c claims =
     try_all (\<lambda>cl. if node_quarantined c (c_node cl) then Some (QuarantinedErr (c_node cl)) else None) claims"

definition uncovered_claim :: "cluster \<Rightarrow> lease_id \<Rightarrow> claim list \<Rightarrow> error option" where
  "uncovered_claim c i claims =
     (let occ = occupancy_from_leases (btree_values (k_leases c)) (open_binding_leases c) {i} in
      try_all (\<lambda>cl. case can_cover occ (k_graph c) cl of
                      Err e \<Rightarrow> Some e
                    | Ok ok \<Rightarrow> if \<not> ok then Some (Overlap (c_node cl)) else None) claims)"

definition reserve_lease ::
    "cluster \<Rightarrow> lease_id \<Rightarrow> owner_id \<Rightarrow> allocation \<Rightarrow> u64 \<Rightarrow> u32 \<Rightarrow> outcome" where
  "reserve_lease c i owner alloc expires_at priority =
     (if \<not> k_agreed c then (c, Err NotAgreed)
      else case btree_get (k_leases c) i of
        Some existing \<Rightarrow>
          if l_state existing = LReserved \<and> l_owner existing = owner \<and>
             a_claims (l_allocation existing) = a_claims alloc \<and> l_expires_at existing = expires_at
          then (c, Ok []) else (c, Err (DuplicateLease i))
      | None \<Rightarrow>
          if a_graph_revision alloc \<noteq> g_revision (k_graph c) then
            (c, Err (StaleGraphRevision (g_revision (k_graph c)) (a_graph_revision alloc)))
          else on_ok (resolve_claims (k_graph c) (a_claims alloc)) c (\<lambda>claims.
            unless_error (quarantined_claim c claims) c (
            unless_error (uncovered_claim c i claims) c (
              c\<lparr>k_leases := btree_insert i
                  \<lparr>l_id = i, l_owner = owner, l_allocation = alloc\<lparr>a_claims := claims\<rparr>, l_parent = None,
                   l_expires_at = expires_at, l_prepare_deadline = 0, l_priority = priority,
                   l_state = LReserved, l_exit_code = None\<rparr> (k_leases c)\<rparr>,
              Ok []))))"

definition promote_lease :: "cluster \<Rightarrow> lease_id \<Rightarrow> u64 \<Rightarrow> outcome" where
  "promote_lease c i prepare_deadline =
     (if \<not> k_agreed c then (c, Err NotAgreed)
      else on_ok (ok_or (btree_get (k_leases c) i) (UnknownLease i)) c (\<lambda>l.
        if l_state l = LPreparing then (c, Ok [])
        else if l_state l \<noteq> LReserved then (c, Err (LeaseStateErr i (l_state l)))
        else on_ok (try_map (resolve_claim (k_graph c)) (a_claims (l_allocation l))) c (\<lambda>claims.
          unless_error (quarantined_claim c claims) c (
          if \<not> k_replaying c \<and> k_now c \<ge> l_expires_at l then (c, Err (LeaseExpired i))
          else unless_error (uncovered_claim c i claims) c (
            c\<lparr>k_leases := btree_modify i (\<lambda>l. l\<lparr>
                l_allocation := (l_allocation l)\<lparr>a_claims := claims, a_graph_revision := g_revision (k_graph c)\<rparr>,
                l_state := LPreparing, l_prepare_deadline := prepare_deadline\<rparr>) (k_leases c)\<rparr>,
            Ok [])))))"

text \<open>What a child lease has to satisfy against its parent: the parent is active, covers the claims,
  and every claim fits beside the parent's other live children.\<close>

definition child_fits :: "cluster \<Rightarrow> lease_id \<Rightarrow> lease_id \<Rightarrow> claim list \<Rightarrow> error option" where
  "child_fits c i parent_id claims =
     (case btree_get (k_leases c) parent_id of
        None \<Rightarrow> Some (UnknownLease parent_id)
      | Some parent \<Rightarrow>
          if l_state parent \<noteq> LActive then Some (ParentNotActive parent_id)
          else if \<not> covers (a_claims (l_allocation parent)) claims then Some (ChildEscapesParent i parent_id)
          else try_all (\<lambda>cl.
            case find (\<lambda>pc. c_node pc = c_node cl) (a_claims (l_allocation parent)) of
              None \<Rightarrow> Some (ChildEscapesParent i parent_id)
            | Some pc \<Rightarrow>
                if \<not> claim_fits (c_quantity pc)
                     (used_on (subtree_used (k_leases c) (open_binding_leases c) parent_id i) (c_node cl))
                     (c_quantity cl)
                then Some (Overlap (c_node cl)) else None) claims)"

definition open_lease ::
    "cluster \<Rightarrow> lease_id \<Rightarrow> owner_id \<Rightarrow> allocation \<Rightarrow> lease_id option \<Rightarrow> u64 \<Rightarrow> u64 \<Rightarrow> u32 \<Rightarrow> outcome" where
  "open_lease c i owner alloc parent expires_at prepare_deadline priority =
     (if \<not> k_agreed c then (c, Err NotAgreed)
      else case btree_get (k_leases c) i of
        Some existing \<Rightarrow>
          if l_owner existing = owner \<and> l_parent existing = parent \<and>
             a_claims (l_allocation existing) = a_claims alloc
          then (c, Ok []) else (c, Err (DuplicateLease i))
      | None \<Rightarrow>
          if a_graph_revision alloc \<noteq> g_revision (k_graph c) then
            (c, Err (StaleGraphRevision (g_revision (k_graph c)) (a_graph_revision alloc)))
          else on_ok (resolve_claims (k_graph c) (a_claims alloc)) c (\<lambda>claims.
            unless_error (quarantined_claim c claims) c (
            unless_error (case parent of
                            Some parent_id \<Rightarrow> child_fits c i parent_id claims
                          | None \<Rightarrow> uncovered_claim c i claims) c (
              c\<lparr>k_leases := btree_insert i
                  \<lparr>l_id = i, l_owner = owner, l_allocation = alloc\<lparr>a_claims := claims\<rparr>, l_parent = parent,
                   l_expires_at = expires_at, l_prepare_deadline = prepare_deadline, l_priority = priority,
                   l_state = LPreparing, l_exit_code = None\<rparr> (k_leases c)\<rparr>,
              Ok []))))"

text \<open>A binding that is ready for activation.\<close>

definition binding_prepared :: "binding \<Rightarrow> bool" where
  "binding_prepared b \<longleftrightarrow> b_state b = BPreparing \<and> b_provider_handle b \<noteq> None"

definition unprepared_binding :: "cluster \<Rightarrow> lease_id \<Rightarrow> bool" where
  "unprepared_binding c i \<longleftrightarrow>
     list_ex (\<lambda>k. case btree_get (k_bindings c) k of None \<Rightarrow> True | Some b \<Rightarrow> \<not> binding_prepared b)
       (bindings_for c i)"

definition claim_prepared :: "cluster \<Rightarrow> lease_id \<Rightarrow> claim \<Rightarrow> bool" where
  "claim_prepared c i cl \<longleftrightarrow>
     list_ex (\<lambda>b. b_lease b = i \<and> b_node b = c_node cl \<and> binding_prepared b) (btree_values (k_bindings c))"

definition activate_lease :: "cluster \<Rightarrow> lease_id \<Rightarrow> outcome" where
  "activate_lease c i =
     (if \<not> k_agreed c then (c, Err NotAgreed)
      else on_ok (ok_or (btree_get (k_leases c) i) (UnknownLease i)) c (\<lambda>l.
        if l_state l = LActive then (c, Ok [])
        else if l_state l \<noteq> LPreparing then (c, Err (LeaseStateErr i (l_state l)))
        else if a_graph_revision (l_allocation l) \<noteq> g_revision (k_graph c) then
          (c, Err (StaleGraphRevision (g_revision (k_graph c)) (a_graph_revision (l_allocation l))))
        else let claims = a_claims (l_allocation l) in
          unless_error (quarantined_claim c claims) c (
          if \<not> k_replaying c \<and> k_now c \<ge> l_expires_at l then (c, Err (LeaseExpired i))
          else if \<not> k_replaying c \<and> k_now c > l_prepare_deadline l then (c, Err (PrepareDeadlinePassed i))
          else unless_error
            (case l_parent l of
               Some parent_id \<Rightarrow>
                 (case btree_get (k_leases c) parent_id of
                    None \<Rightarrow> Some (UnknownLease parent_id)
                  | Some parent \<Rightarrow> if l_state parent \<noteq> LActive then Some (ParentNotActive parent_id) else None)
             | None \<Rightarrow> uncovered_claim c i claims) c (
          if unprepared_binding c i then (c, Err (BindingsNotPrepared i))
          else if l_parent l = None \<and> \<not> list_all (claim_prepared c i) claims then (c, Err (BindingsNotPrepared i))
          else (c\<lparr>k_leases := btree_modify i (\<lambda>l. l\<lparr>l_state := LActive\<rparr>) (k_leases c)\<rparr>, Ok [])))))"

text \<open>\<^verbatim>\<open>if let Some(lease) = leases.get_mut(&id) && !matches!(lease.state, kept) { lease.state = final }\<close>.\<close>

definition end_lease :: "lease_state list \<Rightarrow> lease_state \<Rightarrow> lease_id \<Rightarrow> cluster \<Rightarrow> cluster" where
  "end_lease kept final i c =
     c\<lparr>k_leases := btree_modify i (\<lambda>l. if l_state l \<in> set kept then l else l\<lparr>l_state := final\<rparr>) (k_leases c)\<rparr>"

definition closed_states :: "lease_state list" where
  "closed_states = [LFailed, LReleased, LRevoked, LExpired]"

text \<open>The loop over the descendants: end each one, collect the fences of its open bindings.\<close>

definition end_descendants ::
    "lease_state list \<Rightarrow> lease_state \<Rightarrow> lease_id list \<Rightarrow> cluster \<Rightarrow> cluster \<times> effect list" where
  "end_descendants kept final ds c =
     fold (\<lambda>d (c, effects). let c' = end_lease kept final d c in (c', effects @ fence_effects c' d))
       ds (c, [])"

definition fail_lease :: "cluster \<Rightarrow> lease_id \<Rightarrow> string \<Rightarrow> outcome" where
  "fail_lease c i reason =
     (let (c1, effects) = end_descendants closed_states LFailed (descendants_postorder c i) c in
      on_ok (ok_or (btree_get (k_leases c1) i) (UnknownLease i)) c1 (\<lambda>l.
        if l_state l \<in> set closed_states then (c1, Ok effects)
        else let c2 = c1\<lparr>k_leases := btree_insert i (l\<lparr>l_state := LFailed\<rparr>) (k_leases c1)\<rparr>
             in (c2, Ok (effects @ fence_effects c2 i))))"

definition live_descendants :: "cluster \<Rightarrow> lease_id \<Rightarrow> lease_id list" where
  "live_descendants c i =
     filter (\<lambda>d. case btree_get (k_leases c) d of Some l \<Rightarrow> occupies c (l_id l) | None \<Rightarrow> False)
       (descendants_postorder c i)"

definition release_lease :: "cluster \<Rightarrow> lease_id \<Rightarrow> outcome" where
  "release_lease c i =
     (if live_descendants c i \<noteq> [] then (c, Err (HasLiveDescendants i))
      else on_ok (ok_or (btree_get (k_leases c) i) (UnknownLease i)) c (\<lambda>l.
        if l_state l = LReleased then (c, Ok (release_effects c i))
        else if \<not> (l_state l = LActive \<or> l_state l = LReserved) then (c, Err (LeaseStateErr i (l_state l)))
        else let c' = c\<lparr>k_leases := btree_insert i (l\<lparr>l_state := LReleased\<rparr>) (k_leases c)\<rparr>
             in (c', Ok (release_effects c' i))))"

text \<open>Revocation collects fences only for descendants that are in the table.\<close>

definition revoke_lease :: "cluster \<Rightarrow> lease_id \<Rightarrow> outcome" where
  "revoke_lease c i =
     (let (c1, effects) =
            fold (\<lambda>d (c, effects).
                case btree_get (k_leases c) d of
                  None \<Rightarrow> (c, effects)
                | Some l \<Rightarrow> let c' = end_lease closed_states LRevoked d c in (c', effects @ fence_effects c' d))
              (descendants_postorder c i) (c, [])
      in on_ok (ok_or (btree_get (k_leases c1) i) (UnknownLease i)) c1 (\<lambda>l.
           let c2 = end_lease closed_states LRevoked i c1
           in (c2, Ok (effects @ fence_effects c2 i))))"

definition expire_lease :: "cluster \<Rightarrow> lease_id \<Rightarrow> outcome" where
  "expire_lease c i =
     on_ok (ok_or (btree_get (k_leases c) i) (UnknownLease i)) c (\<lambda>l.
       if l_state l = LExpired then (c, Ok (fence_effects c i))
       else if \<not> (l_state l = LPreparing \<or> l_state l = LActive \<or> l_state l = LReserved) then
         (c, Err (LeaseStateErr i (l_state l)))
       else if \<not> k_replaying c \<and> k_now c < l_expires_at l then (c, Err ExpireNotDue)
       else let (c1, effects) = end_descendants closed_states LExpired (descendants_postorder c i) c in
         on_ok (ok_or (btree_get (k_leases c1) i) (UnknownLease i)) c1 (\<lambda>l.
           let c2 = c1\<lparr>k_leases := btree_insert i (l\<lparr>l_state := LExpired\<rparr>) (k_leases c1)\<rparr>
           in (c2, Ok (effects @ fence_effects c2 i))))"

definition complete_lease :: "cluster \<Rightarrow> lease_id \<Rightarrow> int \<Rightarrow> outcome" where
  "complete_lease c i exit_code =
     (let final = (if exit_code = 0 then LCompleted else LFailed) in
      on_ok (ok_or (btree_get (k_leases c) i) (UnknownLease i)) c (\<lambda>l.
        if l_state l = LCompleted \<or> l_state l = LFailed then (c, Ok (fence_effects c i))
        else if \<not> (l_state l = LPreparing \<or> l_state l = LActive \<or> l_state l = LReserved) then
          (c, Err (LeaseStateErr i (l_state l)))
        else let (c1, effects) =
               end_descendants (closed_states @ [LCompleted]) final (descendants_postorder c i) c in
          on_ok (ok_or (btree_get (k_leases c1) i) (UnknownLease i)) c1 (\<lambda>l.
            let c2 = c1\<lparr>k_leases :=
                  btree_insert i (l\<lparr>l_state := final, l_exit_code := Some exit_code\<rparr>) (k_leases c1)\<rparr>
            in (c2, Ok (effects @ fence_effects c2 i)))))"

definition renew_lease :: "cluster \<Rightarrow> lease_id \<Rightarrow> u64 \<Rightarrow> outcome" where
  "renew_lease c i new_expires_at =
     (if \<not> k_agreed c then (c, Err NotAgreed)
      else on_ok (ok_or (btree_get (k_leases c) i) (UnknownLease i)) c (\<lambda>l.
        if \<not> (l_state l = LActive \<or> l_state l = LReserved) then (c, Err (LeaseStateErr i (l_state l)))
        else if new_expires_at = l_expires_at l then (c, Ok [])
        else if new_expires_at \<le> l_expires_at l \<or> (\<not> k_replaying c \<and> new_expires_at \<le> k_now c) then
          (c, Err RenewNotLater)
        else (c\<lparr>k_leases := btree_insert i (l\<lparr>l_expires_at := new_expires_at\<rparr>) (k_leases c)\<rparr>, Ok [])))"

section \<open>Bindings\<close>

definition display_provider :: "provider_id \<Rightarrow> string" where
  "display_provider w = display_id ''ProviderId'' w"

definition conflicting_endpoint :: "cluster \<Rightarrow> provider_id \<Rightarrow> node_id \<Rightarrow> binding_scope \<Rightarrow> bool" where
  "conflicting_endpoint c provider n scope \<longleftrightarrow>
     list_ex (\<lambda>b. b_provider b = provider \<and> b_node b = n \<and> \<not> is_closed (b_state b) \<and>
                  (scope = Exclusive \<or> b_scope b = Exclusive)) (btree_values (k_bindings c))"

definition open_binding ::
    "cluster \<Rightarrow> binding_id \<Rightarrow> lease_id \<Rightarrow> node_id \<Rightarrow> provider_id \<Rightarrow> binding_scope \<Rightarrow> outcome" where
  "open_binding c i lease_id n provider scope =
     (case btree_get (k_bindings c) i of
        Some existing \<Rightarrow>
          if b_lease existing = lease_id \<and> b_node existing = n \<and> b_provider existing = provider \<and>
             b_scope existing = scope then
            if b_state existing = BPreparing then (c, Ok [binding_effect c existing EffPrepare])
            else (c, Ok [])
          else (c, Err (DuplicateBinding i))
      | None \<Rightarrow>
          on_ok (ok_or (btree_get (k_leases c) lease_id) (UnknownLease lease_id)) c (\<lambda>l.
          if l_state l \<noteq> LPreparing then (c, Err (LeaseStateErr lease_id (l_state l)))
          else if l_parent l \<noteq> None then (c, Err (ChildBindingRefused lease_id))
          else case find (\<lambda>cl. c_node cl = n) (a_claims (l_allocation l)) of
            None \<Rightarrow> (c, Err (Invalid ''binding node is not in lease claims''))
          | Some cl \<Rightarrow>
              on_ok (claim_binding_for_quantity (k_graph c) n (c_quantity cl)) c (\<lambda>required.
              if cb_provider required \<noteq> provider \<or> cb_scope required \<noteq> scope then
                (c, Err (Refused (''binding for '' @ display_node n @ '' must use provider '' @
                   display_provider (cb_provider required) @ '' with '' @ debug_scope (cb_scope required) @ '' scope'')))
              else if node_quarantined c n then (c, Err (QuarantinedErr n))
              else on_ok (ok_or (machine_of (k_graph c) n) (UnknownNode n)) c (\<lambda>machine.
                on_ok (ok_or (btree_get (k_sessions c) machine) (NoAgent machine)) c (\<lambda>session.
                if conflicting_endpoint c provider n scope then (c, Err (ResourceBusy n))
                else
                  let (fence, c1) =
                        (case scope of
                           Exclusive \<Rightarrow>
                             (let fence = btree_get_or 0 (k_last_fence c) (provider, n) + 1
                              in (fence, c\<lparr>k_last_fence := btree_insert (provider, n) fence (k_last_fence c)\<rparr>))
                         | IndependentShare \<Rightarrow> (max i 1, c));
                      b = \<lparr>b_id = i, b_lease = lease_id, b_node = n, b_provider = provider, b_scope = scope,
                           b_fence = fence, b_agent_session = session, b_state = BPreparing,
                           b_provider_handle = None\<rparr>;
                      effect = binding_effect c1 b EffPrepare
                  in (c1\<lparr>k_bindings := btree_insert i b (k_bindings c1)\<rparr>, Ok [effect]))))))"

definition activate_binding :: "cluster \<Rightarrow> binding_id \<Rightarrow> outcome" where
  "activate_binding c i =
     on_ok (ok_or (btree_get (k_bindings c) i) (UnknownBinding i)) c (\<lambda>b.
     on_ok (ok_or (btree_get (k_leases c) (b_lease b)) (UnknownLease (b_lease b))) c (\<lambda>l.
       if l_state l \<noteq> LActive then (c, Err (LeaseStateErr (l_id l) (l_state l)))
       else if b_state b = BActive then (c, Ok [binding_effect c b EffActivate])
       else if b_state b \<noteq> BPreparing then (c, Err (BindingStateErr i (b_state b)))
       else (c\<lparr>k_bindings := btree_modify i (\<lambda>b. b\<lparr>b_state := BActive\<rparr>) (k_bindings c)\<rparr>,
             Ok [binding_effect c b EffActivate])))"

definition fence_binding :: "cluster \<Rightarrow> binding_id \<Rightarrow> outcome" where
  "fence_binding c i =
     on_ok (ok_or (btree_get (k_bindings c) i) (UnknownBinding i)) c (\<lambda>b.
       if b_state b = BFenced then (c, Ok [binding_effect c b EffFence])
       else if b_state b = BReleased then (c, Ok [])
       else (c, Ok [binding_effect c b EffFence]))"

definition fail_binding :: "cluster \<Rightarrow> binding_id \<Rightarrow> string \<Rightarrow> outcome" where
  "fail_binding c i reason =
     on_ok (ok_or (btree_get (k_bindings c) i) (UnknownBinding i)) c (\<lambda>b.
       if is_closed (b_state b) then (c, Ok [])
       else let c' = c\<lparr>k_bindings := btree_insert i (b\<lparr>b_state := BFailed\<rparr>) (k_bindings c)\<rparr> in
         on_ok (ok_or (btree_get (k_bindings c') i) (UnknownBinding i)) c' (\<lambda>b.
           (c', Ok [binding_effect c' b EffFence])))"

definition release_binding :: "cluster \<Rightarrow> binding_id \<Rightarrow> outcome" where
  "release_binding c i =
     on_ok (ok_or (btree_get (k_bindings c) i) (UnknownBinding i)) c (\<lambda>b.
       if b_state b = BReleased then (c, Ok [binding_effect c b EffRelease])
       else if is_closed (b_state b) then (c, Ok [])
       else (c, Ok [binding_effect c b EffRelease]))"

text \<open>Acknowledgements from agents: the session has to be current and the fence that of the binding.\<close>

definition record_prepared :: "cluster \<Rightarrow> binding_id \<Rightarrow> u64 \<Rightarrow> u64 \<Rightarrow> u64 \<Rightarrow> outcome" where
  "record_prepared c i session handle fence =
     on_ok (ok_or (btree_get (k_bindings c) i) (UnknownBinding i)) c (\<lambda>b.
     on_ok (require_session c (b_node b) session) c (\<lambda>_.
     on_ok (require_fence i (b_fence b) fence) c (\<lambda>_.
       if b_state b = BPreparing \<or> b_state b = BActive then
         (c\<lparr>k_bindings := btree_modify i
              (\<lambda>b. b\<lparr>b_provider_handle := Some handle, b_agent_session := session\<rparr>) (k_bindings c)\<rparr>, Ok [])
       else (c, Err (BindingStateErr i (b_state b))))))"

definition record_active :: "cluster \<Rightarrow> binding_id \<Rightarrow> u64 \<Rightarrow> u64 \<Rightarrow> outcome" where
  "record_active c i session fence =
     on_ok (ok_or (btree_get (k_bindings c) i) (UnknownBinding i)) c (\<lambda>b.
     on_ok (require_session c (b_node b) session) c (\<lambda>_.
     on_ok (require_fence i (b_fence b) fence) c (\<lambda>_.
       if b_state b = BActive then
         (c\<lparr>k_bindings := btree_modify i (\<lambda>b. b\<lparr>b_agent_session := session\<rparr>) (k_bindings c)\<rparr>, Ok [])
       else (c, Err (BindingStateErr i (b_state b))))))"

definition record_released :: "cluster \<Rightarrow> binding_id \<Rightarrow> u64 \<Rightarrow> u64 \<Rightarrow> outcome" where
  "record_released c i session fence =
     on_ok (ok_or (btree_get (k_bindings c) i) (UnknownBinding i)) c (\<lambda>b.
     on_ok (require_session c (b_node b) session) c (\<lambda>_.
     on_ok (require_fence i (b_fence b) fence) c (\<lambda>_.
       (c\<lparr>k_bindings := btree_modify i
            (\<lambda>b. b\<lparr>b_agent_session := session, b_state := BReleased\<rparr>) (k_bindings c)\<rparr>, Ok []))))"

definition record_fenced :: "cluster \<Rightarrow> binding_id \<Rightarrow> u64 \<Rightarrow> u64 \<Rightarrow> outcome" where
  "record_fenced c i session fence =
     on_ok (ok_or (btree_get (k_bindings c) i) (UnknownBinding i)) c (\<lambda>b.
     on_ok (require_session c (b_node b) session) c (\<lambda>_.
     on_ok (require_fence i (b_fence b) fence) c (\<lambda>_.
       (c\<lparr>k_bindings := btree_modify i
            (\<lambda>b. b\<lparr>b_agent_session := session, b_state := BFenced\<rparr>) (k_bindings c)\<rparr>, Ok []))))"

definition record_failed :: "cluster \<Rightarrow> binding_id \<Rightarrow> u64 \<Rightarrow> string \<Rightarrow> u64 \<Rightarrow> outcome" where
  "record_failed c i session reason fence =
     on_ok (ok_or (btree_get (k_bindings c) i) (UnknownBinding i)) c (\<lambda>b.
     on_ok (require_session c (b_node b) session) c (\<lambda>_.
     on_ok (require_fence i (b_fence b) fence) c (\<lambda>_.
       let lease_id = b_lease b;
           c1 = c\<lparr>k_bindings := btree_modify i
                    (\<lambda>b. let b1 = b\<lparr>b_agent_session := session\<rparr> in
                         if \<not> is_closed (b_state b1) then b1\<lparr>b_state := BFailed\<rparr> else b1) (k_bindings c)\<rparr>
       in on_ok (ok_or (btree_get (k_leases c1) lease_id) (UnknownLease lease_id)) c1 (\<lambda>l.
            let c2 = end_lease closed_states LFailed lease_id c1
            in (c2, Ok (fence_effects c2 lease_id))))))"

definition rebind_session :: "cluster \<Rightarrow> binding_id \<Rightarrow> u64 \<Rightarrow> outcome" where
  "rebind_session c i session =
     on_ok (ok_or (btree_get (k_bindings c) i) (UnknownBinding i)) c (\<lambda>b.
     on_ok (require_session c (b_node b) session) c (\<lambda>_.
       (c\<lparr>k_bindings := btree_modify i (\<lambda>b. b\<lparr>b_agent_session := session\<rparr>) (k_bindings c)\<rparr>, Ok [])))"

section \<open>Nodes, sessions and fences\<close>

definition in_scope :: "cluster \<Rightarrow> node_id \<Rightarrow> node_id \<Rightarrow> bool" where
  "in_scope c n candidate \<longleftrightarrow> candidate = n \<or> n \<in> set (ancestors (k_graph c) candidate)"

definition node_has_live_authority :: "cluster \<Rightarrow> node_id \<Rightarrow> bool" where
  "node_has_live_authority c n \<longleftrightarrow>
     list_ex (\<lambda>l. occupies c (l_id l) \<and> list_ex (\<lambda>cl. in_scope c n (c_node cl)) (a_claims (l_allocation l)))
       (btree_values (k_leases c)) \<or>
     list_ex (\<lambda>b. \<not> is_closed (b_state b) \<and> in_scope c n (b_node b)) (btree_values (k_bindings c))"

text \<open>A node is unknown to \<^verbatim>\<open>node_state\<close> exactly when it is unknown to the graph, so one case covers the check
  and the \<^verbatim>\<open>expect\<close> after it.\<close>

definition set_node_state :: "cluster \<Rightarrow> node_id \<Rightarrow> node_state \<Rightarrow> outcome" where
  "set_node_state c n state =
     (case node_state_of c n of
        None \<Rightarrow> (c, Err (UnknownNode n))
      | Some current \<Rightarrow>
          if current = Retired \<and> state \<noteq> Retired then
            (c, Err (Invalid ''retired resources require a new identity''))
          else if state = Schedulable \<and> current \<noteq> Schedulable \<and> current \<noteq> Draining \<and>
                  list_ex (\<lambda>b. \<not> is_closed (b_state b) \<and> in_scope c n (b_node b)) (btree_values (k_bindings c)) then
            (c, Err (UnquarantineBlocked n))
          else if state = Retired \<and> node_has_live_authority c n then (c, Err (ResourceBusy n))
          else if state = Schedulable then (c\<lparr>k_node_states := btree_remove n (k_node_states c)\<rparr>, Ok [])
          else (c\<lparr>k_node_states := btree_insert n state (k_node_states c)\<rparr>, Ok []))"

definition set_node_health :: "cluster \<Rightarrow> node_id \<Rightarrow> string \<Rightarrow> outcome" where
  "set_node_health c n health =
     (let (g, known) = set_observation (k_graph c) n ''health'' health;
          c' = c\<lparr>k_graph := g\<rparr>
      in if known then (c', Ok []) else (c', Err (UnknownNode n)))"

definition cluster_migrate_legacy_observations :: "cluster \<Rightarrow> cluster" where
  "cluster_migrate_legacy_observations c = c\<lparr>k_graph := migrate_legacy_observations (k_graph c)\<rparr>"

definition set_agent_session :: "cluster \<Rightarrow> node_id \<Rightarrow> u64 \<Rightarrow> outcome" where
  "set_agent_session c machine session =
     on_ok (ok_or (graph_node (k_graph c) machine) (UnknownNode machine)) c (\<lambda>n.
       if n_kind n \<noteq> Machine then (c, Err (Invalid ''agent session requires a machine node''))
       else
         let c' = c\<lparr>k_sessions := btree_insert machine session (k_sessions c)\<rparr>;
             reconcile = EffReconcile machine session (k_epoch c') (live_machine_bindings c' machine)
         in case btree_get (k_sessions c) machine of
              Some current \<Rightarrow>
                if session < current then (c, Err (StaleSession current session)) else (c', Ok [reconcile])
            | None \<Rightarrow> (c', Ok [reconcile]))"

definition advance_endpoint_fence :: "cluster \<Rightarrow> node_id \<Rightarrow> provider_id \<Rightarrow> u64 \<Rightarrow> outcome" where
  "advance_endpoint_fence c n provider fence =
     (if graph_node (k_graph c) n = None then (c, Err (UnknownNode n))
      else if fence = 0 then (c, Err (Invalid ''endpoint fence watermark must be positive''))
      else (c\<lparr>k_last_fence := btree_entry 0 (\<lambda>watermark. if fence > watermark then fence else watermark)
                (provider, n) (k_last_fence c)\<rparr>, Ok []))"

definition quarantine_node :: "cluster \<Rightarrow> node_id \<Rightarrow> outcome" where
  "quarantine_node c n = set_node_state c n Quarantined"

definition unquarantine_node :: "cluster \<Rightarrow> node_id \<Rightarrow> outcome" where
  "unquarantine_node c n =
     (if graph_node (k_graph c) n = None then (c, Err (UnknownNode n))
      else if node_state_of c n \<noteq> Some Quarantined then (c, Ok [])
      else set_node_state c n Schedulable)"

section \<open>The transition function and the log\<close>

fun dispatch :: "cluster \<Rightarrow> command \<Rightarrow> outcome" where
  "dispatch c (ApplyGraph nodes edges) = apply_graph c nodes edges"
| "dispatch c (ApplyResourceFacts nodes edges updates) = apply_resource_facts c nodes edges updates"
| "dispatch c (ApplyProviderFacts batches updates) = apply_provider_facts c batches updates"
| "dispatch c (AdoptFactWriters assignments) = adopt_fact_writers c assignments"
| "dispatch c (ReserveLease i owner alloc expires_at priority) = reserve_lease c i owner alloc expires_at priority"
| "dispatch c (PromoteLease i prepare_deadline) = promote_lease c i prepare_deadline"
| "dispatch c (OpenLease i owner alloc parent expires_at prepare_deadline priority) =
     open_lease c i owner alloc parent expires_at prepare_deadline priority"
| "dispatch c (ActivateLease i) = activate_lease c i"
| "dispatch c (FailLease i reason) = fail_lease c i reason"
| "dispatch c (ReleaseLease i) = release_lease c i"
| "dispatch c (RevokeLease i) = revoke_lease c i"
| "dispatch c (ExpireLease i) = expire_lease c i"
| "dispatch c (CompleteLease i exit_code) = complete_lease c i exit_code"
| "dispatch c (RenewLease i new_expires_at) = renew_lease c i new_expires_at"
| "dispatch c (OpenBinding i lease_id n provider scope) = open_binding c i lease_id n provider scope"
| "dispatch c (ActivateBinding i) = activate_binding c i"
| "dispatch c (FenceBinding i) = fence_binding c i"
| "dispatch c (FailBinding i reason) = fail_binding c i reason"
| "dispatch c (ReleaseBinding i) = release_binding c i"
| "dispatch c (RecordBindingPrepared i session handle fence) = record_prepared c i session handle fence"
| "dispatch c (RecordBindingActive i session fence) = record_active c i session fence"
| "dispatch c (RecordBindingReleased i session fence) = record_released c i session fence"
| "dispatch c (RecordBindingFenced i session fence) = record_fenced c i session fence"
| "dispatch c (RecordBindingFailed i session reason fence) = record_failed c i session reason fence"
| "dispatch c (SetAgentSession machine session) = set_agent_session c machine session"
| "dispatch c (SetNodeHealth n health) = set_node_health c n health"
| "dispatch c (SetNodeState n state) = set_node_state c n state"
| "dispatch c (RebindSession i session) = rebind_session c i session"
| "dispatch c (AdvanceEndpointFence n provider fence) = advance_endpoint_fence c n provider fence"
| "dispatch c (QuarantineNode n) = quarantine_node c n"
| "dispatch c (UnquarantineNode n) = unquarantine_node c n"

definition cluster_apply :: "cluster \<Rightarrow> command \<Rightarrow> outcome" where
  "cluster_apply c command =
     (case dispatch c command of
        (c', Ok effects) \<Rightarrow> (c'\<lparr>k_log := k_log c' @ [command]\<rparr>, Ok effects)
      | (c', Err e) \<Rightarrow> (c', Err e))"

definition replay_step :: "command \<Rightarrow> cluster \<Rightarrow> (cluster, error) result" where
  "replay_step command c = (case cluster_apply c command of (c', Ok _) \<Rightarrow> Ok c' | (_, Err e) \<Rightarrow> Err e)"

definition replay :: "command list \<Rightarrow> (cluster, error) result" where
  "replay commands =
     and_then (try_fold replay_step commands (set_replaying cluster_new True))
       (\<lambda>c. Ok (set_replaying c False))"

section \<open>The digest\<close>

record lease_digest =
  ld_state :: lease_state
  ld_exit_code :: "int option"
  ld_owner :: owner_id
  ld_parent :: "lease_id option"
  ld_priority :: u32
  ld_expires_at :: u64
  ld_prepare_deadline :: u64
  ld_graph_revision :: u64
  ld_claims :: "(node_id \<times> quantity) list"

record binding_digest =
  bd_state :: binding_state
  bd_lease :: lease_id
  bd_node :: node_id
  bd_provider :: provider_id
  bd_scope :: binding_scope
  bd_fence :: u64
  bd_session :: u64

record digest =
  d_epoch :: u64
  d_now :: u64
  d_agreed :: bool
  d_graph_revision :: u64
  d_graph_nodes :: "(node_id, resource_class \<times> quantity \<times> attrs) btree"
  d_graph_edges :: "(node_id \<times> node_id \<times> edge_kind) list"
  d_graph_claim_bindings :: claim_contracts
  d_graph_observations :: "(node_id, attrs) btree"
  d_graph_node_fact_writers :: "(node_id, fact_writer_id) btree"
  d_graph_edge_fact_writers :: "(fact_edge \<times> fact_writer_id) list"
  d_leases :: "(lease_id, lease_digest) btree"
  d_bindings :: "(binding_id, binding_digest) btree"
  d_sessions :: "(node_id, u64) btree"
  d_last_fence :: "(provider_id \<times> node_id, u64) btree"
  d_node_states :: "(node_id, node_state) btree"

definition digest_lease :: "lease \<Rightarrow> lease_digest" where
  "digest_lease l =
     \<lparr>ld_state = l_state l, ld_exit_code = l_exit_code l, ld_owner = l_owner l, ld_parent = l_parent l,
      ld_priority = l_priority l, ld_expires_at = l_expires_at l, ld_prepare_deadline = l_prepare_deadline l,
      ld_graph_revision = a_graph_revision (l_allocation l),
      ld_claims = map (\<lambda>cl. (c_node cl, c_quantity cl)) (a_claims (l_allocation l))\<rparr>"

definition digest_binding :: "binding \<Rightarrow> binding_digest" where
  "digest_binding b =
     \<lparr>bd_state = b_state b, bd_lease = b_lease b, bd_node = b_node b, bd_provider = b_provider b,
      bd_scope = b_scope b, bd_fence = b_fence b, bd_session = b_agent_session b\<rparr>"

definition cluster_digest :: "cluster \<Rightarrow> digest" where
  "cluster_digest c =
     (let g = k_graph c in
      \<lparr>d_epoch = k_epoch c, d_now = k_now c, d_agreed = k_agreed c, d_graph_revision = g_revision g,
       d_graph_nodes = btree_collect (map (\<lambda>n. (n_id n, n_kind n, n_capacity n, n_attrs n)) (graph_nodes g)),
       d_graph_edges = map (\<lambda>e. (e_from e, e_to e, e_kind e)) (g_edges g),
       d_graph_claim_bindings = g_claim_bindings g,
       d_graph_observations = g_observations g,
       d_graph_node_fact_writers = g_node_fact_writers g,
       d_graph_edge_fact_writers = edge_fact_writers g,
       d_leases = btree_collect (map (\<lambda>(i, l). (i, digest_lease l)) (btree_entries (k_leases c))),
       d_bindings = btree_collect (map (\<lambda>(i, b). (i, digest_binding b)) (btree_entries (k_bindings c))),
       d_sessions = k_sessions c,
       d_last_fence = k_last_fence c,
       d_node_states = k_node_states c\<rparr>)"

end
