(* ===== verification/Cluster_Spec.thy ===== *)
theory Cluster_Spec
  imports Kernel_Cluster Step_Systems
begin

text \<open>
  The abstract specification of the cluster. \<open>kernel_step\<close> lists the kinds of change the control plane may
  make to its state, each with the conditions that make it safe, without saying which command makes
  it or how the conditions are checked: a graph that still holds all live claims, a new lease that
  fits, a move of leases through their life cycle, a new or moved binding, a raised fence or session, a
  node state, and everything that is outside authority (clock, epoch, agreement, log). The theory
  \<open>Cluster_Invariant\<close> shows that these steps keep the invariant, \<open>Cluster_Refinement\<close> that every
  command of the source is a sequence of them.
\<close>

section \<open>Life cycles\<close>

fun lease_moves :: "lease_state \<Rightarrow> lease_state \<Rightarrow> bool" where
  "lease_moves LReserved s \<longleftrightarrow> s \<noteq> LActive"
| "lease_moves LPreparing s \<longleftrightarrow> s \<noteq> LReserved \<and> s \<noteq> LReleased"
| "lease_moves LActive s \<longleftrightarrow> s \<noteq> LReserved \<and> s \<noteq> LPreparing"
| "lease_moves LCompleted s \<longleftrightarrow> s \<in> {LCompleted, LFailed, LRevoked, LExpired}"
| "lease_moves LReleased s \<longleftrightarrow> s = LReleased"
| "lease_moves LExpired s \<longleftrightarrow> s = LExpired"
| "lease_moves LRevoked s \<longleftrightarrow> s = LRevoked"
| "lease_moves LFailed s \<longleftrightarrow> s = LFailed"

definition lease_next :: "lease \<Rightarrow> lease \<Rightarrow> bool" where
  "lease_next l l' \<longleftrightarrow>
     l_id l' = l_id l \<and> l_owner l' = l_owner l \<and> l_parent l' = l_parent l \<and> l_priority l' = l_priority l \<and>
     a_claims (l_allocation l') = a_claims (l_allocation l) \<and>
     l_expires_at l \<le> l_expires_at l' \<and> lease_moves (l_state l) (l_state l')"

fun binding_moves :: "binding_state \<Rightarrow> binding_state \<Rightarrow> bool" where
  "binding_moves BPreparing s = True"
| "binding_moves BActive s \<longleftrightarrow> s \<noteq> BPreparing"
| "binding_moves BFailed s \<longleftrightarrow> s \<noteq> BPreparing \<and> s \<noteq> BActive"
| "binding_moves BReleased s \<longleftrightarrow> is_closed s"
| "binding_moves BFenced s \<longleftrightarrow> is_closed s"

definition binding_next :: "binding \<Rightarrow> binding \<Rightarrow> bool" where
  "binding_next b b' \<longleftrightarrow>
     b_id b' = b_id b \<and> b_lease b' = b_lease b \<and> b_node b' = b_node b \<and> b_provider b' = b_provider b \<and>
     b_scope b' = b_scope b \<and> b_fence b' = b_fence b \<and> binding_moves (b_state b) (b_state b')"

definition lease_live_state :: "lease_state \<Rightarrow> bool" where
  "lease_live_state s \<longleftrightarrow> s = LReserved \<or> s = LPreparing \<or> s = LActive"

lemma lease_occupies_iff: "lease_occupies l b \<longleftrightarrow> lease_live_state (l_state l) \<or> b"
  by (auto simp: lease_occupies_def lease_live_state_def)

lemma lease_moves_refl [simp]: "lease_moves s s"
  by (cases s) auto

lemma lease_moves_dead: "lease_moves a b \<Longrightarrow> lease_live_state b \<Longrightarrow> lease_live_state a"
  by (cases a) (auto simp: lease_live_state_def)

lemma lease_next_refl [simp]: "lease_next l l"
  by (simp add: lease_next_def)

lemma binding_moves_refl [simp]: "binding_moves s s"
  by (cases s) (auto simp: is_closed_def)

lemma binding_moves_trans: "binding_moves a b \<Longrightarrow> binding_moves b c \<Longrightarrow> binding_moves a c"
  by (cases a; cases b) (auto simp: is_closed_def)

lemma binding_moves_closed: "binding_moves a b \<Longrightarrow> is_closed a \<Longrightarrow> is_closed b"
  by (cases a) (auto simp: is_closed_def)

lemma binding_next_refl [simp]: "binding_next b b"
  by (simp add: binding_next_def)

lemma binding_next_trans: "binding_next a b \<Longrightarrow> binding_next b c \<Longrightarrow> binding_next a c"
  unfolding binding_next_def by (metis binding_moves_trans)

section \<open>Accounting\<close>

text \<open>The live leases, what they are charged on a node, and the units they hold as natural numbers.\<close>

definition live :: "cluster \<Rightarrow> lease_id set" where
  "live c = occupying_ids (k_leases c) (open_binding_leases c) {}"

definition units :: "cluster \<Rightarrow> node_id \<Rightarrow> capacity_dimension \<Rightarrow> lease_id \<Rightarrow> nat" where
  "units c n d i = unat (units_of (k_leases c) n d i)"

definition charge :: "cluster \<Rightarrow> node_id \<Rightarrow> capacity_dimension \<Rightarrow> nat" where
  "charge c n d = sum (units c n d) (roots (parent_of (k_leases c)) (live c))"

definition claims_ok :: "graph \<Rightarrow> claim list \<Rightarrow> bool" where
  "claims_ok g claims \<longleftrightarrow>
     distinct (map c_node claims) \<and>
     (\<forall>cl\<in>set claims. \<not> btree_is_empty (c_quantity cl) \<and> graph_node g (c_node cl) \<noteq> None)"

text \<open>A new lease: a root has to fit into what is left of each node, a child beside its siblings into
  what its active parent holds.\<close>

definition lease_admissible :: "cluster \<Rightarrow> lease \<Rightarrow> bool" where
  "lease_admissible c l \<longleftrightarrow>
     claims_ok (k_graph c) (a_claims (l_allocation l)) \<and>
     (case l_parent l of
        None \<Rightarrow>
          (l_state l = LReserved \<or> l_state l = LPreparing) \<and>
          (\<forall>n d. charge c n d + unat (lease_units l n d) \<le> unat (capacity_of (k_graph c) n d))
      | Some p \<Rightarrow>
          l_state l = LPreparing \<and>
          (\<exists>pl. btree_get (k_leases c) p = Some pl \<and> l_state pl = LActive \<and>
             (\<forall>n d. sum (units c n d) (kids (parent_of (k_leases c)) (live c) p) + unat (lease_units l n d)
                     \<le> unat (lease_units pl n d))))"

text \<open>A new binding: of a top-level lease that is being prepared, on a node it claims, and alone on an
  exclusive endpoint, whose fence it advances.\<close>

definition binding_admissible :: "cluster \<Rightarrow> binding \<Rightarrow> bool" where
  "binding_admissible c b \<longleftrightarrow>
     b_state b = BPreparing \<and>
     (\<exists>l. btree_get (k_leases c) (b_lease b) = Some l \<and> l_state l = LPreparing \<and> l_parent l = None \<and>
          b_node b \<in> c_node ` set (a_claims (l_allocation l))) \<and>
     \<not> conflicting_endpoint c (b_provider b) (b_node b) (b_scope b) \<and>
     (b_scope b = Exclusive \<longrightarrow> b_fence b = btree_get_or 0 (k_last_fence c) (b_provider b, b_node b) + 1)"

definition advance_fences :: "cluster \<Rightarrow> binding \<Rightarrow> (provider_id \<times> node_id, u64) btree" where
  "advance_fences c b =
     (if b_scope b = Exclusive
      then btree_insert (b_provider b, b_node b) (b_fence b) (k_last_fence c)
      else k_last_fence c)"

section \<open>The steps\<close>

inductive kernel_step :: "cluster \<Rightarrow> cluster \<Rightarrow> bool" where
  graph_step:
    "graph_wf g \<Longrightarrow> (\<forall>i. graph_node (k_graph c) i \<noteq> None \<longrightarrow> graph_node g i \<noteq> None) \<Longrightarrow>
     (\<forall>n d. charge c n d \<le> unat (capacity_of g n d)) \<Longrightarrow>
     (\<forall>i\<in>live c. \<forall>l. btree_get (k_leases c) i = Some l \<longrightarrow>
        (\<forall>cl\<in>set (a_claims (l_allocation l)). machine_of g (c_node cl) = machine_of (k_graph c) (c_node cl))) \<Longrightarrow>
     kernel_step c (c\<lparr>k_graph := g\<rparr>)"
| new_lease_step:
    "btree_get (k_leases c) (l_id l) = None \<Longrightarrow> lease_admissible c l \<Longrightarrow>
     kernel_step c (c\<lparr>k_leases := btree_insert (l_id l) l (k_leases c)\<rparr>)"
| move_step:
    "(\<forall>i. rel_option lease_next (btree_get (k_leases c) i) (btree_get L i)) \<Longrightarrow>
     (\<forall>i. rel_option binding_next (btree_get (k_bindings c) i) (btree_get B i)) \<Longrightarrow>
     lineage (parent_of L) (live (c\<lparr>k_leases := L, k_bindings := B\<rparr>)) \<Longrightarrow>
     kernel_step c (c\<lparr>k_leases := L, k_bindings := B\<rparr>)"
| new_binding_step:
    "btree_get (k_bindings c) (b_id b) = None \<Longrightarrow> binding_admissible c b \<Longrightarrow>
     kernel_step c (c\<lparr>k_last_fence := advance_fences c b, k_bindings := btree_insert (b_id b) b (k_bindings c)\<rparr>)"
| fence_step:
    "btree_get_or 0 (k_last_fence c) k \<le> fence \<Longrightarrow>
     kernel_step c (c\<lparr>k_last_fence := btree_insert k fence (k_last_fence c)\<rparr>)"
| session_step:
    "node_has_kind (k_graph c) Machine m \<Longrightarrow>
     (\<forall>current. btree_get (k_sessions c) m = Some current \<longrightarrow> current \<le> session) \<Longrightarrow>
     kernel_step c (c\<lparr>k_sessions := btree_insert m session (k_sessions c)\<rparr>)"
| node_state_step:
    "graph_node (k_graph c) n \<noteq> None \<Longrightarrow>
     (btree_get (k_node_states c) n = Some Retired \<longrightarrow> btree_get S n = Some Retired) \<Longrightarrow>
     (\<forall>i. i \<noteq> n \<longrightarrow> btree_get S i = btree_get (k_node_states c) i) \<Longrightarrow>
     kernel_step c (c\<lparr>k_node_states := S\<rparr>)"
| tick_step:
    "kernel_step c (c\<lparr>k_epoch := e, k_now := t, k_agreed := a, k_log := lg\<rparr>)"

section \<open>The invariant\<close>

definition lease_table_ok :: "(lease_id, lease) btree \<Rightarrow> bool" where
  "lease_table_ok L \<longleftrightarrow>
     ids_ok L \<and> (\<forall>i p. parent_of L i = Some p \<longrightarrow> btree_get L p \<noteq> None) \<and>
     wfp (\<lambda>p i. parent_of L i = Some p)"

definition accounts_ok :: "cluster \<Rightarrow> bool" where
  "accounts_ok c \<longleftrightarrow>
     lineage (parent_of (k_leases c)) (live c) \<and>
     (\<forall>n d. delegated (parent_of (k_leases c)) (units c n d) (live c)) \<and>
     (\<forall>n d. charge c n d \<le> unat (capacity_of (k_graph c) n d))"

definition exclusive_ok :: "(binding_id, binding) btree \<Rightarrow> bool" where
  "exclusive_ok B \<longleftrightarrow>
     (\<forall>i j b b'. btree_get B i = Some b \<longrightarrow> btree_get B j = Some b' \<longrightarrow> i \<noteq> j \<longrightarrow>
        \<not> is_closed (b_state b) \<longrightarrow> \<not> is_closed (b_state b') \<longrightarrow>
        b_provider b = b_provider b' \<longrightarrow> b_node b = b_node b' \<longrightarrow>
        b_scope b = IndependentShare)"

definition bindings_ok :: "cluster \<Rightarrow> bool" where
  "bindings_ok c \<longleftrightarrow>
     (\<forall>i b. btree_get (k_bindings c) i = Some b \<longrightarrow>
        b_id b = i \<and>
        (\<exists>l. btree_get (k_leases c) (b_lease b) = Some l \<and> l_parent l = None \<and>
             b_node b \<in> c_node ` set (a_claims (l_allocation l)))) \<and>
     exclusive_ok (k_bindings c)"

definition leases_ok :: "cluster \<Rightarrow> bool" where
  "leases_ok c \<longleftrightarrow>
     lease_table_ok (k_leases c) \<and>
     (\<forall>i l. btree_get (k_leases c) i = Some l \<longrightarrow> claims_ok (k_graph c) (a_claims (l_allocation l)))"

definition cluster_inv :: "cluster \<Rightarrow> bool" where
  "cluster_inv c \<longleftrightarrow> graph_wf (k_graph c) \<and> leases_ok c \<and> accounts_ok c \<and> bindings_ok c"

end
