(* ===== verification/Cluster_Invariant.thy ===== *)
theory Cluster_Invariant
  imports Cluster_Spec
begin

text \<open>
  Every step of the specification keeps the cluster's invariant: the graph is well-formed, the leases form
  a forest with well-formed claims, every parent covers its live children, no node is charged
  beyond its capacity, and an exclusive endpoint has at most one open binding.
\<close>

section \<open>What the accounts depend on\<close>

lemma open_binding_leases_iff:
  "l \<in> open_binding_leases c \<longleftrightarrow>
     (\<exists>i b. btree_get (k_bindings c) i = Some b \<and> b_lease b = l \<and> \<not> is_closed (b_state b))"
  by (auto simp: open_binding_leases_def)

lemma live_iff:
  "i \<in> live c \<longleftrightarrow>
     (\<exists>l. btree_get (k_leases c) i = Some l \<and>
        (lease_live_state (l_state l) \<or> i \<in> open_binding_leases c))"
  by (simp add: live_def occupying_ids_def lease_occupies_iff)

lemma finite_live [simp]: "finite (live c)"
  by (simp add: live_def)

lemma accounts_cong:
  assumes "k_leases c' = k_leases c" and "k_bindings c' = k_bindings c"
  shows "live c' = live c" "units c' = units c" "charge c' = charge c"
  using assms by (simp_all add: live_def units_def charge_def open_binding_leases_def fun_eq_iff)

lemma live_parent:
  assumes "leases_ok c" and "parent_of (k_leases c) i = Some p"
  shows "\<exists>l pl. btree_get (k_leases c) i = Some l \<and> l_parent l = Some p \<and> btree_get (k_leases c) p = Some pl"
  using assms by (auto simp: leases_ok_def lease_table_ok_def parent_of_def split: option.splits)

lemma used_charge:
  assumes "leases_ok c" and "charge c n d < 2 ^ 64"
  shows "unat (quantity_get (used_on (occupancy_except c {}) n) d) = charge c n d"
proof -
  have "ids_ok (k_leases c)" using assms(1) by (simp add: leases_ok_def lease_table_ok_def)
  then have "quantity_get (used_on (occupancy_except c {}) n) d =
      sum (units_of (k_leases c) n d) (roots (parent_of (k_leases c)) (live c))"
    unfolding occupancy_except_def live_def by (rule used_on_leases)
  also have "unat \<dots> = charge c n d"
    using assms(2) unfolding charge_def units_def by (intro unat_sum_no_overflow) simp_all
  finally show ?thesis .
qed

lemma charge_bound:
  assumes "accounts_ok c"
  shows "charge c n d < 2 ^ 64"
proof -
  from assms have "charge c n d \<le> unat (capacity_of (k_graph c) n d)" by (simp add: accounts_ok_def)
  also have "\<dots> < 2 ^ 64" using unat_bound [of "capacity_of (k_graph c) n d"] by simp
  finally show ?thesis .
qed

section \<open>Moves\<close>

lemma rel_option_Some2D: "rel_option R (f i) (Some y) \<Longrightarrow> \<exists>x. f i = Some x \<and> R x y"
  by (cases "f i") auto

lemma move_leases:
  assumes "\<forall>i. rel_option lease_next (btree_get L i) (btree_get L' i)"
  shows "parent_of L' = parent_of L" and "units_of L' = units_of L"
    and "btree_get L' i = Some l' \<Longrightarrow> \<exists>l. btree_get L i = Some l \<and> lease_next l l'"
    and "btree_get L i = Some l \<Longrightarrow> \<exists>l'. btree_get L' i = Some l' \<and> lease_next l l'"
    and "ids_ok L \<Longrightarrow> ids_ok L'"
proof -
  have step: "(btree_get L i = None \<and> btree_get L' i = None) \<or>
      (\<exists>l l'. btree_get L i = Some l \<and> btree_get L' i = Some l' \<and> lease_next l l')" for i
    using assms [THEN spec, of i] by (auto simp: option.rel_sel)
  show "parent_of L' = parent_of L" "units_of L' = units_of L"
  proof -
    have "parent_of L' i = parent_of L i" for i
      using step [of i] by (auto simp: parent_of_def lease_next_def)
    then show "parent_of L' = parent_of L" by (rule ext)
    have "units_of L' n d i = units_of L n d i" for n d i
      using step [of i] by (auto simp: units_of_def lease_next_def lease_units_def)
    then show "units_of L' = units_of L" by (intro ext)
  qed
  show "btree_get L' i = Some l' \<Longrightarrow> \<exists>l. btree_get L i = Some l \<and> lease_next l l'"
    using step [of i] by auto
  show "btree_get L i = Some l \<Longrightarrow> \<exists>l'. btree_get L' i = Some l' \<and> lease_next l l'"
    using step [of i] by auto
  show "ids_ok L \<Longrightarrow> ids_ok L'"
    using step unfolding ids_ok_def lease_next_def by (metis option.distinct(1) option.inject)
qed

lemma move_bindings:
  assumes "\<forall>i. rel_option binding_next (btree_get B i) (btree_get B' i)" and "btree_get B' i = Some b'"
  shows "\<exists>b. btree_get B i = Some b \<and> binding_next b b'"
  using assms(1) [THEN spec, of i] assms(2) by (auto dest: rel_option_Some2D)

lemma binding_next_open: "binding_next b b' \<Longrightarrow> \<not> is_closed (b_state b') \<Longrightarrow> \<not> is_closed (b_state b)"
  unfolding binding_next_def using binding_moves_closed by blast

lemma move_live:
  assumes "\<forall>i. rel_option lease_next (btree_get (k_leases c) i) (btree_get L i)"
    and "\<forall>i. rel_option binding_next (btree_get (k_bindings c) i) (btree_get B i)"
  shows "live (c\<lparr>k_leases := L, k_bindings := B\<rparr>) \<subseteq> live c"
proof
  fix i
  let ?c' = "c\<lparr>k_leases := L, k_bindings := B\<rparr>"
  assume "i \<in> live ?c'"
  then obtain l' where l': "btree_get L i = Some l'"
      and occ: "lease_live_state (l_state l') \<or> i \<in> open_binding_leases ?c'"
    by (auto simp: live_iff)
  obtain l where l: "btree_get (k_leases c) i = Some l" "lease_next l l'"
    using move_leases(3) [OF assms(1) l'] by blast
  have "i \<in> open_binding_leases c" if "i \<in> open_binding_leases ?c'"
    using that move_bindings [OF assms(2)] unfolding open_binding_leases_iff
    by (fastforce simp: binding_next_def dest: binding_next_open)
  with occ l show "i \<in> live c"
    by (auto simp: live_iff lease_next_def dest: lease_moves_dead)
qed

lemma move_step_accounts:
  assumes "\<forall>i. rel_option lease_next (btree_get (k_leases c) i) (btree_get L i)"
    and "\<forall>i. rel_option binding_next (btree_get (k_bindings c) i) (btree_get B i)"
    and "lineage (parent_of L) (live (c\<lparr>k_leases := L, k_bindings := B\<rparr>))"
    and "accounts_ok c"
  shows "accounts_ok (c\<lparr>k_leases := L, k_bindings := B\<rparr>)"
proof -
  let ?c' = "c\<lparr>k_leases := L, k_bindings := B\<rparr>"
  note same = move_leases(1,2) [OF assms(1)]
  have sub: "live ?c' \<subseteq> live c" using assms(1,2) by (rule move_live)
  have units: "units ?c' = units c" by (simp add: units_def fun_eq_iff same)
  have del: "delegated (parent_of (k_leases c)) (units c n d) (live c)" for n d
    using assms(4) by (simp add: accounts_ok_def)
  have "charge ?c' n d \<le> charge c n d" for n d
    unfolding charge_def units using roots_shrink [OF finite_live sub assms(3) [unfolded same] del]
    by (simp add: same)
  then have "charge ?c' n d \<le> unat (capacity_of (k_graph c) n d)" for n d
    using assms(4) by (meson accounts_ok_def order.trans)
  moreover have "delegated (parent_of (k_leases c)) (units c n d) (live ?c')" for n d
    using del finite_live sub by (rule delegated_shrink)
  ultimately show ?thesis using assms(3) by (simp add: accounts_ok_def units same)
qed

lemma move_step_inv:
  assumes "\<forall>i. rel_option lease_next (btree_get (k_leases c) i) (btree_get L i)"
    and "\<forall>i. rel_option binding_next (btree_get (k_bindings c) i) (btree_get B i)"
    and "lineage (parent_of L) (live (c\<lparr>k_leases := L, k_bindings := B\<rparr>))"
    and "cluster_inv c"
  shows "cluster_inv (c\<lparr>k_leases := L, k_bindings := B\<rparr>)"
proof -
  note mv = move_leases [OF assms(1)] and mb = move_bindings [OF assms(2)]
  have ok: "leases_ok c" "accounts_ok c" "bindings_ok c" "graph_wf (k_graph c)"
    using assms(4) by (simp_all add: cluster_inv_def)
  have "btree_get L p \<noteq> None" if "parent_of (k_leases c) i = Some p" for i p
    using live_parent [OF ok(1) that] mv(4) by blast
  moreover have "claims_ok (k_graph c) (a_claims (l_allocation l'))" if "btree_get L i = Some l'" for i l'
    using mv(3) [OF that] ok(1) by (auto simp: leases_ok_def lease_next_def)
  ultimately have "leases_ok (c\<lparr>k_leases := L, k_bindings := B\<rparr>)"
    using ok(1) mv(5) by (auto simp: leases_ok_def lease_table_ok_def mv(1))
  moreover have "bindings_ok (c\<lparr>k_leases := L, k_bindings := B\<rparr>)"
  proof -
    have "b_id b' = i \<and> (\<exists>l. btree_get L (b_lease b') = Some l \<and> l_parent l = None \<and>
        b_node b' \<in> c_node ` set (a_claims (l_allocation l)))" if b': "btree_get B i = Some b'" for i b'
    proof -
      obtain b where b: "btree_get (k_bindings c) i = Some b" "binding_next b b'" using mb [OF b'] by blast
      then obtain l where l: "btree_get (k_leases c) (b_lease b) = Some l" "l_parent l = None"
          "b_node b \<in> c_node ` set (a_claims (l_allocation l))" "b_id b = i"
        using ok(3) by (force simp: bindings_ok_def)
      moreover obtain l' where "btree_get L (b_lease b) = Some l'" "lease_next l l'"
        using mv(4) [OF l(1)] by blast
      ultimately show ?thesis using b(2) by (auto simp: binding_next_def lease_next_def)
    qed
    moreover have "exclusive_ok B"
      unfolding exclusive_ok_def
    proof (intro allI impI)
      fix i j b b'
      assume prems: "btree_get B i = Some b" "btree_get B j = Some b'" "i \<noteq> j" "\<not> is_closed (b_state b)"
        "\<not> is_closed (b_state b')" "b_provider b = b_provider b'" "b_node b = b_node b'"
      obtain x y where "btree_get (k_bindings c) i = Some x" "binding_next x b"
          "btree_get (k_bindings c) j = Some y" "binding_next y b'"
        using mb prems(1,2) by blast
      with prems ok(3) binding_next_open show "b_scope b = IndependentShare"
        unfolding bindings_ok_def exclusive_ok_def binding_next_def by metis
    qed
    ultimately show ?thesis by (simp add: bindings_ok_def)
  qed
  moreover have "accounts_ok (c\<lparr>k_leases := L, k_bindings := B\<rparr>)"
    using assms(1-3) ok(2) by (rule move_step_accounts)
  ultimately show ?thesis using ok(4) by (simp add: cluster_inv_def)
qed

section \<open>New leases\<close>

lemma wfp_parent_insert:
  assumes "lease_table_ok L" and "btree_get L (l_id l) = None"
    and "\<forall>p. l_parent l = Some p \<longrightarrow> btree_get L p \<noteq> None"
  shows "lease_table_ok (btree_insert (l_id l) l L)"
proof -
  let ?i = "l_id l"
  let ?L = "btree_insert ?i l L"
  have par: "parent_of ?L j = (if j = ?i then l_parent l else parent_of L j)" for j
    by (simp add: parent_of_def)
  have fresh: "parent_of L j \<noteq> Some ?i" for j
    using assms(1,2) unfolding lease_table_ok_def by metis
  have wf: "wfp (\<lambda>p i. parent_of L i = Some p)" using assms(1) by (simp add: lease_table_ok_def)
  have "Wellfounded.accp (\<lambda>p i. parent_of ?L i = Some p) j" if "j \<noteq> ?i" for j
    using that
  proof (induction j rule: wfp_induct_rule [OF wf])
    case (1 j)
    show ?case
    proof (rule accp.accI)
      fix p assume "parent_of ?L j = Some p"
      with 1 fresh [of j] show "Wellfounded.accp (\<lambda>p i. parent_of ?L i = Some p) p" by (auto simp: par)
    qed
  qed
  note others = this
  have "Wellfounded.accp (\<lambda>p i. parent_of ?L i = Some p) ?i"
  proof (rule accp.accI)
    fix p assume "parent_of ?L ?i = Some p"
    with assms(2,3) have "p \<noteq> ?i" by (auto simp: par)
    then show "Wellfounded.accp (\<lambda>p i. parent_of ?L i = Some p) p" by (rule others)
  qed
  with others have "Wellfounded.accp (\<lambda>p i. parent_of ?L i = Some p) j" for j by metis
  then have "wfp (\<lambda>p i. parent_of ?L i = Some p)" by (rule accp_wfpI [rule_format])
  moreover have "ids_ok ?L"
    using assms(1) by (simp add: lease_table_ok_def ids_ok_def)
  moreover have "btree_get ?L p \<noteq> None" if "parent_of ?L j = Some p" for j p
  proof (cases "j = ?i")
    case True
    with assms(3) that show ?thesis by (simp add: par)
  next
    case False
    with that have "parent_of L j = Some p" by (simp add: par)
    then have "btree_get L p \<noteq> None" using assms(1) unfolding lease_table_ok_def by blast
    then show ?thesis by simp
  qed
  ultimately show ?thesis by (simp add: lease_table_ok_def)
qed

lemma new_lease_accounts:
  assumes "btree_get (k_leases c) (l_id l) = None" and "lease_admissible c l" and "cluster_inv c"
  shows "accounts_ok (c\<lparr>k_leases := btree_insert (l_id l) l (k_leases c)\<rparr>)"
proof -
  let ?i = "l_id l"
  let ?L = "k_leases c"
  let ?L' = "btree_insert ?i l ?L"
  let ?c' = "c\<lparr>k_leases := ?L'\<rparr>"
  have ok: "leases_ok c" "accounts_ok c" using assms(3) by (simp_all add: cluster_inv_def)
  have par: "parent_of ?L' j = (if j = ?i then l_parent l else parent_of ?L j)" for j
    by (simp add: parent_of_def)
  have units: "units ?c' n d j = (if j = ?i then unat (lease_units l n d) else units c n d j)" for n d j
    by (simp add: units_def units_of_def)
  have old: "?i \<notin> live c" using assms(1) by (simp add: live_iff)
  have fresh: "parent_of ?L j \<noteq> Some ?i" for j
    using live_parent [OF ok(1), of j ?i] assms(1) by auto
  have state: "lease_live_state (l_state l)"
    using assms(2) by (auto simp: lease_admissible_def lease_live_state_def split: option.splits)
  have live: "live ?c' = insert ?i (live c)"
    using state assms(1) by (auto simp: live_iff open_binding_leases_iff split: if_splits)
  have same_roots: "roots (parent_of ?L') (live c) = roots (parent_of ?L) (live c)"
    and same_kids: "kids (parent_of ?L') (live c) p = kids (parent_of ?L) (live c) p" for p
    using old by (auto intro!: roots_cong kids_cong simp: par)
  have nokids: "kids (parent_of ?L') (live c) ?i = {}"
    unfolding same_kids using fresh by (auto simp: kids_def)
  have sums: "sum (units ?c' n d) A = sum (units c n d) A" if "A \<subseteq> live c" for n d A
    using that old by (intro sum.cong) (auto simp: units)
  have kids_sub: "kids par (live c) p \<subseteq> live c" for par p by (auto simp: kids_def)
  have lin: "lineage (parent_of ?L') (live c)"
    using ok fresh old by (auto simp: accounts_ok_def lineage_def par)
  have parent: "p \<in> live c \<and> p \<noteq> ?i" if "l_parent l = Some p" for p
    using assms(1,2) that by (auto simp: lease_admissible_def live_iff lease_live_state_def)
  have "lineage (parent_of ?L') (live ?c')"
    unfolding live using lin nokids parent by (intro lineage_insert) (auto simp: par)
  moreover have "delegated (parent_of ?L') (units ?c' n d) (live ?c')" for n d
    unfolding delegated_def
  proof
    fix p
    have del: "sum (units c n d) (kids (parent_of ?L) (live c) p) \<le> units c n d p"
      using ok(2) by (simp add: accounts_ok_def delegated_def)
    show "sum (units ?c' n d) (kids (parent_of ?L') (live ?c') p) \<le> units ?c' n d p"
    proof (cases "p = ?i")
      case True
      then have "kids (parent_of ?L') (live ?c') p = {}"
        using nokids parent [of ?i] by (auto simp: live kids_insert par)
      then show ?thesis by simp
    next
      case p: False
      show ?thesis
      proof (cases "l_parent l = Some p")
        case True
        then obtain pl where pl: "btree_get ?L p = Some pl"
            and fits: "sum (units c n d) (kids (parent_of ?L) (live c) p) + unat (lease_units l n d)
                \<le> unat (lease_units pl n d)"
          using assms(2) by (auto simp: lease_admissible_def)
        have "?i \<notin> kids (parent_of ?L) (live c) p" using old by (auto simp: kids_def)
        then have "sum (units ?c' n d) (kids (parent_of ?L') (live ?c') p) =
            unat (lease_units l n d) + sum (units c n d) (kids (parent_of ?L) (live c) p)"
          using True by (simp add: live kids_insert par same_kids sums [OF kids_sub] units [of n d ?i])
        with fits pl p show ?thesis by (simp add: units [of n d p]) (simp add: units_def units_of_def)
      next
        case False
        then show ?thesis
          using p del by (simp add: live kids_insert par same_kids sums [OF kids_sub] units [of n d p])
      qed
    qed
  qed
  moreover have "charge ?c' n d \<le> unat (capacity_of (k_graph ?c') n d)" for n d
  proof (cases "l_parent l")
    case None
    have "roots (parent_of ?L') (live ?c') = insert ?i (roots (parent_of ?L) (live c))"
      unfolding live using None old nokids same_roots by (simp add: roots_insert_top par)
    moreover have "?i \<notin> roots (parent_of ?L) (live c)" using old by (simp add: roots_def)
    ultimately have "charge ?c' n d = unat (lease_units l n d) + charge c n d"
      by (simp add: charge_def sums [OF roots_subset] units [of n d ?i])
    with None assms(2) show ?thesis by (simp add: lease_admissible_def add.commute)
  next
    case (Some p)
    have "roots (parent_of ?L') (live ?c') = roots (parent_of ?L') (live c)"
      unfolding live using Some old nokids parent [OF Some]
      by (intro roots_insert_child [of _ _ _ p]) (auto simp: par)
    then have "charge ?c' n d = charge c n d"
      unfolding charge_def by (simp add: same_roots sums [OF roots_subset])
    then show ?thesis using ok(2) by (simp add: accounts_ok_def)
  qed
  ultimately show ?thesis by (simp add: accounts_ok_def)
qed

lemma new_lease_inv:
  assumes "btree_get (k_leases c) (l_id l) = None" and "lease_admissible c l" and "cluster_inv c"
  shows "cluster_inv (c\<lparr>k_leases := btree_insert (l_id l) l (k_leases c)\<rparr>)"
proof -
  have ok: "leases_ok c" "bindings_ok c" using assms(3) by (simp_all add: cluster_inv_def)
  have "lease_table_ok (btree_insert (l_id l) l (k_leases c))"
    using assms(1,2) ok(1)
    by (intro wfp_parent_insert) (auto simp: leases_ok_def lease_admissible_def)
  then have "leases_ok (c\<lparr>k_leases := btree_insert (l_id l) l (k_leases c)\<rparr>)"
    using ok(1) assms(2) by (auto simp: leases_ok_def lease_admissible_def)
  moreover have "bindings_ok (c\<lparr>k_leases := btree_insert (l_id l) l (k_leases c)\<rparr>)"
    using ok(2) assms(1) by (fastforce simp: bindings_ok_def)
  ultimately show ?thesis
    using new_lease_accounts [OF assms] assms(3) by (simp add: cluster_inv_def)
qed

section \<open>The other steps\<close>

lemma graph_step_inv:
  assumes "graph_wf g" and "\<forall>i. graph_node (k_graph c) i \<noteq> None \<longrightarrow> graph_node g i \<noteq> None"
    and "\<forall>n d. charge c n d \<le> unat (capacity_of g n d)" and "cluster_inv c"
  shows "cluster_inv (c\<lparr>k_graph := g\<rparr>)"
proof -
  have "live (c\<lparr>k_graph := g\<rparr>) = live c" "units (c\<lparr>k_graph := g\<rparr>) = units c"
      "charge (c\<lparr>k_graph := g\<rparr>) = charge c"
    by (rule accounts_cong; simp)+
  with assms show ?thesis
    by (auto simp: cluster_inv_def leases_ok_def accounts_ok_def bindings_ok_def claims_ok_def)
qed

lemma exclusive_ok_insert:
  assumes "exclusive_ok B"
    and "\<And>j b'. btree_get B j = Some b' \<Longrightarrow> \<not> is_closed (b_state b') \<Longrightarrow> b_provider b' = b_provider b \<Longrightarrow>
      b_node b' = b_node b \<Longrightarrow> b_scope b = IndependentShare \<and> b_scope b' = IndependentShare"
  shows "exclusive_ok (btree_insert i b B)"
  unfolding exclusive_ok_def
proof (intro allI impI)
  fix j k x y
  assume prems: "btree_get (btree_insert i b B) j = Some x" "btree_get (btree_insert i b B) k = Some y"
    "j \<noteq> k" "\<not> is_closed (b_state x)" "\<not> is_closed (b_state y)"
    "b_provider x = b_provider y" "b_node x = b_node y"
  consider "j = i" "x = b" "btree_get B k = Some y" | "k = i" "y = b" "btree_get B j = Some x"
    | "btree_get B j = Some x" "btree_get B k = Some y"
    using prems(1-3) by (metis btree_get_insert option.inject)
  then show "b_scope x = IndependentShare"
  proof cases
    case 1
    with prems assms(2) [of k y] show ?thesis by simp
  next
    case 2
    with prems assms(2) [of j x] show ?thesis by simp
  next
    case 3
    show ?thesis by (rule assms(1) [unfolded exclusive_ok_def, rule_format, OF 3 prems(3-7)])
  qed
qed

lemma new_binding_inv:
  assumes "btree_get (k_bindings c) (b_id b) = None" and "binding_admissible c b" and "cluster_inv c"
  shows "cluster_inv (c\<lparr>k_last_fence := F, k_bindings := btree_insert (b_id b) b (k_bindings c)\<rparr>)"
    (is "cluster_inv ?c'")
proof -
  have ok: "leases_ok c" "accounts_ok c" "bindings_ok c" "graph_wf (k_graph c)"
    using assms(3) by (simp_all add: cluster_inv_def)
  obtain l where l: "btree_get (k_leases c) (b_lease b) = Some l" "l_state l = LPreparing" "l_parent l = None"
      "b_node b \<in> c_node ` set (a_claims (l_allocation l))"
    using assms(2) by (auto simp: binding_admissible_def)
  have "x \<in> open_binding_leases ?c' \<longleftrightarrow> x \<in> open_binding_leases c \<or> x = b_lease b" for x
  proof -
    have "\<not> is_closed (b_state b)" using assms(2) by (simp add: binding_admissible_def is_closed_def)
    then have "x = b_lease b \<Longrightarrow> x \<in> open_binding_leases ?c'"
      unfolding open_binding_leases_iff by (intro exI [of _ "b_id b"] exI [of _ b]) simp
    moreover have "x \<in> open_binding_leases c \<Longrightarrow> x \<in> open_binding_leases ?c'"
    proof -
      assume "x \<in> open_binding_leases c"
      then obtain i y where y: "btree_get (k_bindings c) i = Some y" "b_lease y = x" "\<not> is_closed (b_state y)"
        by (auto simp: open_binding_leases_iff)
      then have "i \<noteq> b_id b" using assms(1) by auto
      with y show "x \<in> open_binding_leases ?c'"
        unfolding open_binding_leases_iff by (intro exI [of _ i] exI [of _ y]) simp
    qed
    moreover have "x \<in> open_binding_leases ?c' \<Longrightarrow> x \<in> open_binding_leases c \<or> x = b_lease b"
      unfolding open_binding_leases_iff by (auto split: if_splits)
    ultimately show ?thesis by blast
  qed
  then have live: "live ?c' = live c"
    using l by (auto simp: live_iff lease_live_state_def)
  then have "accounts_ok ?c'"
    using ok(2) by (simp add: accounts_ok_def charge_def units_def [abs_def])
  moreover have "exclusive_ok (btree_insert (b_id b) b (k_bindings c))"
  proof (rule exclusive_ok_insert)
    show "exclusive_ok (k_bindings c)" using ok(3) by (simp add: bindings_ok_def)
    fix j b'
    assume "btree_get (k_bindings c) j = Some b'" "\<not> is_closed (b_state b')"
      "b_provider b' = b_provider b" "b_node b' = b_node b"
    then have "\<not> (b_scope b = Exclusive \<or> b_scope b' = Exclusive)"
      using assms(2) by (auto simp: binding_admissible_def conflicting_endpoint_def list_ex_iff)
    then show "b_scope b = IndependentShare \<and> b_scope b' = IndependentShare"
      by (cases "b_scope b"; cases "b_scope b'") simp_all
  qed
  ultimately show ?thesis
    using ok l by (auto simp: cluster_inv_def leases_ok_def bindings_ok_def)
qed

lemma cluster_inv_cong:
  assumes "k_graph c' = k_graph c" and "k_leases c' = k_leases c" and "k_bindings c' = k_bindings c"
  shows "cluster_inv c' = cluster_inv c"
  using assms accounts_cong [OF assms(2,3)]
  by (simp add: cluster_inv_def leases_ok_def accounts_ok_def bindings_ok_def)

lemma kernel_step_inv:
  assumes "kernel_step c c'" and "cluster_inv c"
  shows "cluster_inv c'"
  using assms
proof (cases rule: kernel_step.cases)
  case (graph_step g)
  with assms(2) show ?thesis by (auto intro: graph_step_inv)
next
  case (new_lease_step l)
  with assms(2) show ?thesis by (auto intro: new_lease_inv)
next
  case (move_step L B)
  with assms(2) show ?thesis by (auto intro: move_step_inv)
next
  case (new_binding_step b)
  with assms(2) show ?thesis by (auto intro: new_binding_inv)
next
  case (fence_step k fence)
  then have "cluster_inv c' = cluster_inv c" by (intro cluster_inv_cong) simp_all
  with assms(2) show ?thesis by simp
next
  case (session_step m session)
  then have "cluster_inv c' = cluster_inv c" by (intro cluster_inv_cong) simp_all
  with assms(2) show ?thesis by simp
next
  case (node_state_step n S)
  then have "cluster_inv c' = cluster_inv c" by (intro cluster_inv_cong) simp_all
  with assms(2) show ?thesis by simp
next
  case (tick_step e t a lg)
  then have "cluster_inv c' = cluster_inv c" by (intro cluster_inv_cong) simp_all
  with assms(2) show ?thesis by simp
qed

end
