(* ===== verification/Cluster_Refinement.thy ===== *)
theory Cluster_Refinement
  imports Cluster_Invariant
begin

text \<open>
  Every command of the source is a step of the specification. For each operation of \<^verbatim>\<open>cluster.rs\<close> the
  theory shows, in a cluster that satisfies the invariant, that the state it leaves is one
  \<open>kernel_step\<close> away and that an operation that reports an error has changed nothing. The introduction
  rules \<open>sound_intros\<close> walk the control flow of an operation, so that only the state changes at its
  end remain to be justified.
\<close>

section \<open>Control flow\<close>

definition sound :: "cluster \<Rightarrow> outcome \<Rightarrow> bool" where
  "sound c out \<longleftrightarrow> kernel_step c (fst out) \<and> (\<forall>e. snd out = Err e \<longrightarrow> fst out = c)"

named_theorems sound_intros \<open>control flow of cluster operations\<close>

lemma idle_step: "kernel_step c c"
  using tick_step [where c = c and e = "k_epoch c" and t = "k_now c" and a = "k_agreed c" and lg = "k_log c"]
  by simp

lemma sound_same [sound_intros]: "sound c (c, r)"
  by (simp add: sound_def idle_step)

lemma sound_step: "kernel_step c c' \<Longrightarrow> sound c (c', Ok effects)"
  by (simp add: sound_def)

lemma sound_on_ok [sound_intros]: "(\<And>x. r = Ok x \<Longrightarrow> sound c (k x)) \<Longrightarrow> sound c (on_ok r c k)"
  by (cases r) (simp_all add: sound_same)

lemma sound_unless [sound_intros]: "(o1 = None \<Longrightarrow> sound c k) \<Longrightarrow> sound c (unless_error o1 c k)"
  by (cases o1) (simp_all add: sound_same)

lemma sound_if [sound_intros]:
  "(b \<Longrightarrow> sound c x) \<Longrightarrow> (\<not> b \<Longrightarrow> sound c y) \<Longrightarrow> sound c (if b then x else y)"
  by simp

lemma sound_option [sound_intros]:
  "(o1 = None \<Longrightarrow> sound c x) \<Longrightarrow> (\<And>a. o1 = Some a \<Longrightarrow> sound c (f a)) \<Longrightarrow>
     sound c (case o1 of None \<Rightarrow> x | Some a \<Rightarrow> f a)"
  by (cases o1) simp_all

lemma btree_modify_Some: "btree_get m i = Some v \<Longrightarrow> btree_modify i f m = btree_insert i (f v) m"
  by (simp add: btree_modify_def)

lemma cluster_inv_parts:
  assumes "cluster_inv c"
  shows "graph_wf (k_graph c)" "leases_ok c" "accounts_ok c" "bindings_ok c" "lease_table_ok (k_leases c)"
    "ids_ok (k_leases c)" "lineage (parent_of (k_leases c)) (live c)"
  using assms by (simp_all add: cluster_inv_def leases_ok_def lease_table_ok_def accounts_ok_def)

section \<open>The lease forest\<close>

lemma lease_children_set:
  assumes "ids_ok (k_leases c)"
  shows "set (lease_children c p) = {i. parent_of (k_leases c) i = Some p}"
proof (rule set_eqI)
  fix i
  have "i \<in> set (lease_children c p) \<longleftrightarrow>
      (\<exists>k l. btree_get (k_leases c) k = Some l \<and> l_parent l = Some p \<and> l_id l = i)"
    by (auto simp: lease_children_def)
  also have "\<dots> \<longleftrightarrow> (\<exists>l. btree_get (k_leases c) i = Some l \<and> l_parent l = Some p)"
    using ids_okD [OF assms] by blast
  also have "\<dots> \<longleftrightarrow> parent_of (k_leases c) i = Some p"
    by (auto simp: parent_of_def split: option.splits)
  finally show "i \<in> set (lease_children c p) \<longleftrightarrow> i \<in> {i. parent_of (k_leases c) i = Some p}" by simp
qed

interpretation lf: forest leases_ok "\<lambda>c. parent_of (k_leases c)" "\<lambda>c p. sort (lease_children c p)"
  "\<lambda>c. length (btree_entries (k_leases c))"
proof unfold_locales
  fix c p
  assume ok: "leases_ok c"
  show "wfp (\<lambda>p i. parent_of (k_leases c) i = Some p)"
    using ok by (simp add: leases_ok_def lease_table_ok_def)
  have sub: "dom (parent_of (k_leases c)) \<subseteq> set (btree_keys (k_leases c))"
    by (auto simp: parent_of_def split: option.splits)
  then show "finite (dom (parent_of (k_leases c)))" by (rule finite_subset) simp
  have "card (dom (parent_of (k_leases c))) \<le> card (set (btree_keys (k_leases c)))"
    using sub by (intro card_mono) auto
  also have "\<dots> \<le> length (btree_entries (k_leases c))"
    by (rule order_trans [OF card_length]) (simp add: btree_keys_def)
  finally show "card (dom (parent_of (k_leases c))) \<le> length (btree_entries (k_leases c))" .
  show "set (sort (lease_children c p)) = {x. parent_of (k_leases c) x = Some p}"
    using ok lease_children_set [of c p] by (simp add: leases_ok_def lease_table_ok_def)
qed

lemma descendants_postorder_set:
  assumes "leases_ok c"
  shows "set (descendants_postorder c i) = {j. (lf.up c)\<^sup>+\<^sup>+ j i}"
  unfolding descendants_postorder_def by (rule lf.set_walk_post_complete [OF assms]) simp

lemma descendants_postorder_unfold:
  assumes "leases_ok c"
  shows "descendants_postorder c i =
    concat (map (\<lambda>child. descendants_postorder c child @ [child]) (sort (lease_children c i)))"
  unfolding descendants_postorder_def by (rule lf.walk_post_unfold [OF assms]) simp

lemma descendant_child:
  assumes "leases_ok c" and "parent_of (k_leases c) j = Some p" and "p = i \<or> p \<in> set (descendants_postorder c i)"
  shows "j \<in> set (descendants_postorder c i)"
proof -
  have "lf.up c j p" using assms(2) by (simp add: lf.up_def)
  with assms(3) have "(lf.up c)\<^sup>+\<^sup>+ j i"
    unfolding descendants_postorder_set [OF assms(1)]
    by (auto intro: tranclp.r_into_trancl tranclp_into_tranclp2)
  then show ?thesis by (simp add: descendants_postorder_set [OF assms(1)])
qed

section \<open>Moves of leases and bindings\<close>

lemma rel_option_refl_insert:
  assumes "btree_get m i = Some v" and "R v v'" and "\<And>x. R x x"
  shows "\<forall>j. rel_option R (btree_get m j) (btree_get (btree_insert i v' m) j)"
  using assms by (auto intro: option.rel_refl)

lemma update_lease_step:
  assumes "cluster_inv c" and "btree_get (k_leases c) i = Some l" and "lease_next l l'"
    and "lease_live_state (l_state l) \<Longrightarrow> lease_live_state (l_state l')"
  shows "kernel_step c (c\<lparr>k_leases := btree_insert i l' (k_leases c)\<rparr>)"
proof -
  let ?L = "btree_insert i l' (k_leases c)"
  have nx: "\<forall>j. rel_option lease_next (btree_get (k_leases c) j) (btree_get ?L j)"
    using assms(2,3) by (rule rel_option_refl_insert) simp
  have "live (c\<lparr>k_leases := ?L, k_bindings := k_bindings c\<rparr>) = live c"
    using assms(2-4) unfolding set_eq_iff live_iff open_binding_leases_iff
    by (auto simp: lease_next_def dest: lease_moves_dead split: if_splits)
  then have "lineage (parent_of ?L) (live (c\<lparr>k_leases := ?L, k_bindings := k_bindings c\<rparr>))"
    using cluster_inv_parts(7) [OF assms(1)] move_leases(1) [OF nx] by simp
  with nx have "kernel_step c (c\<lparr>k_leases := ?L, k_bindings := k_bindings c\<rparr>)"
    by (intro move_step) (auto intro: option.rel_refl)
  then show ?thesis by simp
qed

text \<open>A lease that has a binding has no parent, so moving bindings never breaks the lineage.\<close>

lemma open_leases_top:
  assumes "bindings_ok c" and "i \<in> open_binding_leases c"
  shows "parent_of (k_leases c) i = None"
  using assms by (fastforce simp: bindings_ok_def open_binding_leases_iff parent_of_def)

lemma move_lineage:
  assumes inv: "cluster_inv c"
    and L: "\<forall>i. rel_option lease_next (btree_get (k_leases c) i) (btree_get L i)"
    and B: "\<forall>i. rel_option binding_next (btree_get (k_bindings c) i) (btree_get B i)"
    and ended: "\<And>i p l'. parent_of (k_leases c) i = Some p \<Longrightarrow> parent_of (k_leases c) p \<noteq> None \<Longrightarrow>
      i \<in> live c \<Longrightarrow> btree_get L i = Some l' \<Longrightarrow> lease_live_state (l_state l') \<Longrightarrow>
      btree_get L p = btree_get (k_leases c) p"
  shows "lineage (parent_of L) (live (c\<lparr>k_leases := L, k_bindings := B\<rparr>))" (is "lineage _ (live ?c')")
  unfolding lineage_def
proof (intro ballI allI impI)
  note ok = cluster_inv_parts [OF inv] and mv = move_leases [OF L]
  fix i p
  assume i: "i \<in> live ?c'" and p: "parent_of L i = Some p" and pp: "parent_of L p \<noteq> None"
  have par: "parent_of (k_leases c) i = Some p" "parent_of (k_leases c) p \<noteq> None"
    using p pp by (simp_all add: mv(1))
  have i_live: "i \<in> live c" using i move_live [OF L B] by blast
  then have "p \<in> live c" using ok(7) par by (auto simp: lineage_def)
  moreover have "p \<notin> open_binding_leases c" using open_leases_top [OF ok(4), of p] par(2) by auto
  ultimately obtain l where l: "btree_get (k_leases c) p = Some l" "lease_live_state (l_state l)"
    by (auto simp: live_iff)
  have "i \<notin> open_binding_leases ?c'"
  proof
    assume "i \<in> open_binding_leases ?c'"
    then have "i \<in> open_binding_leases c"
      using move_bindings [OF B] unfolding open_binding_leases_iff
      by (fastforce simp: binding_next_def dest: binding_next_open)
    with open_leases_top [OF ok(4)] par(1) show False by auto
  qed
  with i obtain l' where "btree_get L i = Some l'" "lease_live_state (l_state l')"
    by (auto simp: live_iff)
  then have "btree_get L p = btree_get (k_leases c) p" by (rule ended [OF par i_live])
  with l show "p \<in> live ?c'" by (auto simp: live_iff)
qed

lemma update_binding_step:
  assumes "cluster_inv c" and "btree_get (k_bindings c) i = Some b" and "binding_next b b'"
  shows "kernel_step c (c\<lparr>k_bindings := btree_insert i b' (k_bindings c)\<rparr>)"
proof -
  let ?B = "btree_insert i b' (k_bindings c)"
  have L: "\<forall>j. rel_option lease_next (btree_get (k_leases c) j) (btree_get (k_leases c) j)"
    by (auto intro: option.rel_refl)
  have B: "\<forall>j. rel_option binding_next (btree_get (k_bindings c) j) (btree_get ?B j)"
    using assms(2,3) by (rule rel_option_refl_insert) simp
  have "kernel_step c (c\<lparr>k_leases := k_leases c, k_bindings := ?B\<rparr>)"
    by (rule move_step [OF L B]) (rule move_lineage [OF assms(1) L B], rule refl)
  then show ?thesis by simp
qed

section \<open>Resource facts\<close>

lemma occupying_values:
  assumes "ids_ok (k_leases c)"
  shows "set (filter (\<lambda>l. lease_occupies l (l_id l \<in> open_binding_leases c)) (btree_values (k_leases c))) =
    {l. \<exists>i\<in>live c. btree_get (k_leases c) i = Some l}"
  using ids_okD [OF assms] by (force simp: live_iff lease_occupies_iff)

lemma moved_claim_None:
  assumes "ids_ok (k_leases c)"
  shows "moved_claim c g = None \<longleftrightarrow>
    (\<forall>i\<in>live c. \<forall>l. btree_get (k_leases c) i = Some l \<longrightarrow>
       (\<forall>cl\<in>set (a_claims (l_allocation l)). machine_of g (c_node cl) = machine_of (k_graph c) (c_node cl)))"
  unfolding moved_claim_def try_all_None occupying_values [OF assms] by (auto split: if_splits)

lemma install_resource_graph_sound:
  assumes "cluster_inv c" and "graph_wf g"
    and "\<And>i. graph_node (k_graph c) i \<noteq> None \<Longrightarrow> graph_node g i \<noteq> None"
  shows "sound c (install_resource_graph c g)"
  unfolding install_resource_graph_def occupancy_except_def [symmetric]
proof (intro sound_intros sound_step graph_step allI)
  note ok = cluster_inv_parts [OF assms(1)]
  fix x
  assume "exceeds_capacity (occupancy_except c {}) g = Ok x" "x = None" and fixed: "moved_claim c g = None"
  then have none: "exceeds_capacity (occupancy_except c {}) g = Ok None" by simp
  show "charge c n d \<le> unat (capacity_of g n d)" for n d
    using exceeds_capacity_None [OF none, of n d] used_charge [OF ok(2) charge_bound [OF ok(3)], of n d]
    by (simp add: word_le_nat_alt)
  show "\<forall>i\<in>live c. \<forall>l. btree_get (k_leases c) i = Some l \<longrightarrow>
      (\<forall>cl\<in>set (a_claims (l_allocation l)). machine_of g (c_node cl) = machine_of (k_graph c) (c_node cl))"
    using fixed by (simp only: moved_claim_None [OF ok(6)])
qed (use assms in simp_all)

lemma apply_graph_sound: "cluster_inv c \<Longrightarrow> sound c (apply_graph c ns es)"
  unfolding apply_graph_def
  by (intro sound_intros install_resource_graph_sound)
    (auto simp: cluster_inv_def graph_wf_def [of "k_graph c"] intro: graph_apply_wf dest: graph_apply_nodes)

lemma apply_resource_facts_sound: "cluster_inv c \<Longrightarrow> sound c (apply_resource_facts c ns es us)"
  unfolding apply_resource_facts_def
  by (intro sound_intros install_resource_graph_sound)
    (auto simp: cluster_inv_def intro: graph_apply_resource_facts_wf dest: graph_apply_resource_facts_nodes)

lemma apply_provider_facts_sound: "cluster_inv c \<Longrightarrow> sound c (apply_provider_facts c bs us)"
  unfolding apply_provider_facts_def
  by (intro sound_intros install_resource_graph_sound)
    (auto simp: cluster_inv_def intro: graph_apply_provider_facts_wf dest: graph_apply_provider_facts_nodes)

text \<open>Changes of the graph that leave nodes and containers alone.\<close>

lemma graph_annotation_step:
  assumes "cluster_inv c" and "graph_wf g" and "g_nodes g = g_nodes (k_graph c)" and "g_parent g = g_parent (k_graph c)"
  shows "kernel_step c (c\<lparr>k_graph := g\<rparr>)"
proof (rule graph_step)
  note views = graph_views_cong [OF assms(3,4)]
  show "graph_wf g" by (rule assms(2))
  show "\<forall>i. graph_node (k_graph c) i \<noteq> None \<longrightarrow> graph_node g i \<noteq> None" by (simp add: views)
  show "\<forall>n d. charge c n d \<le> unat (capacity_of g n d)"
    using cluster_inv_parts(3) [OF assms(1)] by (simp add: accounts_ok_def capacity_of_def views)
qed (simp add: graph_views_cong [OF assms(3,4)])

lemma adopt_fact_writers_sound: "cluster_inv c \<Longrightarrow> sound c (adopt_fact_writers c as)"
  unfolding adopt_fact_writers_def
proof (intro sound_intros sound_step graph_annotation_step)
  fix g
  assume inv: "cluster_inv c" and g: "graph_adopt_fact_writers (k_graph c) as = Ok g"
  have wf: "graph_wf (k_graph c)" using inv by (rule cluster_inv_parts)
  with g show "graph_wf g" by (rule graph_adopt_fact_writers_wf)
  from wf have "owners_wf (k_graph c)" by (simp add: graph_wf_def)
  with g show "g_nodes g = g_nodes (k_graph c)" "g_parent g = g_parent (k_graph c)"
    by (auto elim: adopt_fact_writers_ok)
qed

lemma set_node_health_sound: "cluster_inv c \<Longrightarrow> sound c (set_node_health c n h)"
proof (cases "btree_contains_key (g_nodes (k_graph c)) n")
  case True
  assume inv: "cluster_inv c"
  have "graph_wf (fst (set_observation (k_graph c) n ''health'' h))"
    using cluster_inv_parts(1) [OF inv] by (rule set_observation_wf)
  with inv True show ?thesis
    by (auto simp: set_node_health_def set_observation_def intro!: sound_step graph_annotation_step)
next
  case False
  then show "sound c (set_node_health c n h)"
    by (simp add: set_node_health_def set_observation_def sound_same)
qed

section \<open>New leases\<close>

lemma claim_binding_nonempty:
  "is_ok (claim_binding_for_quantity g n q) \<Longrightarrow> \<not> btree_is_empty q"
  by (auto simp: claim_binding_for_quantity_def btree_is_empty_def split: if_splits)

lemma resolve_claims_Ok:
  assumes "resolve_claims g claims = Ok out"
  shows "claims_ok g out"
proof -
  let ?step = "\<lambda>cl (out, seen). if c_node cl \<in> seen then Err (DuplicateClaim (c_node cl))
          else and_then (resolve_claim g cl) (\<lambda>r. Ok (out @ [r], insert (c_node cl) seen))"
  let ?P = "\<lambda>(out, seen). claims_ok g out \<and> seen = c_node ` set out"
  from assms obtain seen where run: "try_fold ?step claims ([], {}) = Ok (out, seen)"
    by (auto simp: resolve_claims_def and_then_eq_Ok)
  have "?P (out, seen)"
    using run
  proof (rule try_fold_invariant)
    show "?P ([], {})" by (simp add: claims_ok_def)
  next
    fix cl st st'
    assume P: "?P st" and step: "?step cl st = Ok st'"
    obtain o1 s1 where st: "st = (o1, s1)" by (cases st)
    from step st obtain r where r: "resolve_claim g cl = Ok r" and new: "c_node cl \<notin> s1"
        and st': "st' = (o1 @ [r], insert (c_node cl) s1)"
      by (auto simp: and_then_eq_Ok split: if_splits)
    have "c_node r = c_node cl" "graph_node g (c_node r) \<noteq> None" "\<not> btree_is_empty (c_quantity r)"
      using resolve_claim_Ok [OF r] claim_binding_nonempty by auto
    with P new show "?P st'" by (auto simp: st st' claims_ok_def)
  qed
  then show ?thesis by simp
qed

lemma lease_units_claimed:
  assumes "distinct (map c_node (a_claims (l_allocation l)))" and "cl \<in> set (a_claims (l_allocation l))"
  shows "lease_units l (c_node cl) d = quantity_get (c_quantity cl) d"
  unfolding lease_units_def by (rule claims_by_node_claimed [OF assms])

lemma lease_units_unclaimed:
  "n \<notin> c_node ` set (a_claims (l_allocation l)) \<Longrightarrow> lease_units l n d = 0"
  unfolding lease_units_def by (rule claims_by_node_unclaimed)

lemma live_except_fresh:
  "btree_get (k_leases c) i = None \<Longrightarrow> occupying_ids (k_leases c) (open_binding_leases c) {i} = live c"
  by (auto simp: live_def occupying_ids_def)

lemma used_except_fresh:
  assumes "cluster_inv c" and "btree_get (k_leases c) i = None"
  shows "unat (quantity_get (used_on (occupancy_from_leases (btree_values (k_leases c))
    (open_binding_leases c) {i}) n) d) = charge c n d"
proof -
  note ok = cluster_inv_parts [OF assms(1)]
  have "quantity_get (used_on (occupancy_from_leases (btree_values (k_leases c)) (open_binding_leases c) {i}) n) d =
      quantity_get (used_on (occupancy_except c {}) n) d"
    unfolding occupancy_except_def used_on_leases [OF ok(6)] live_except_fresh [OF assms(2)] live_def [symmetric] ..
  then show ?thesis using used_charge [OF ok(2) charge_bound [OF ok(3)]] by simp
qed

lemma uncovered_claim_None:
  assumes "cluster_inv c" and "btree_get (k_leases c) i = None"
    and "uncovered_claim c i (a_claims (l_allocation l)) = None"
    and "claims_ok (k_graph c) (a_claims (l_allocation l))"
  shows "charge c n d + unat (lease_units l n d) \<le> unat (capacity_of (k_graph c) n d)"
proof -
  have bound: "charge c n d \<le> unat (capacity_of (k_graph c) n d)"
    using cluster_inv_parts(3) [OF assms(1)] by (simp add: accounts_ok_def)
  show ?thesis
  proof (cases "n \<in> c_node ` set (a_claims (l_allocation l))")
    case False
    with bound show ?thesis by (simp add: lease_units_unclaimed)
  next
    case True
    then obtain cl where cl: "cl \<in> set (a_claims (l_allocation l))" and n: "n = c_node cl" by blast
    have "can_cover (occupancy_from_leases (btree_values (k_leases c)) (open_binding_leases c) {i})
        (k_graph c) cl = Ok True"
      (is "?cover = _")
    proof (cases ?cover)
      case (Ok b)
      with assms(3) cl show ?thesis by (cases b) (auto simp: uncovered_claim_def Let_def)
    next
      case (Err e)
      with assms(3) cl show ?thesis by (auto simp: uncovered_claim_def Let_def)
    qed
    then have "unat (quantity_get (c_quantity cl) d) \<le> unat (capacity_of (k_graph c) n d) - charge c n d"
      by (simp add: can_cover_Ok used_except_fresh [OF assms(1,2)] n)
    moreover have "lease_units l n d = quantity_get (c_quantity cl) d"
      using assms(4) cl by (simp add: n lease_units_claimed claims_ok_def)
    ultimately show ?thesis using bound by simp
  qed
qed

lemma reserve_lease_sound:
  assumes "cluster_inv c"
  shows "sound c (reserve_lease c i owner alloc expires_at priority)"
  unfolding reserve_lease_def
proof (intro sound_intros)
  fix claims
  assume fresh: "btree_get (k_leases c) i = None" and claims: "resolve_claims (k_graph c) (a_claims alloc) = Ok claims"
    and cover: "uncovered_claim c i claims = None"
  let ?l = "\<lparr>l_id = i, l_owner = owner, l_allocation = alloc\<lparr>a_claims := claims\<rparr>, l_parent = None,
     l_expires_at = expires_at, l_prepare_deadline = 0, l_priority = priority,
     l_state = LReserved, l_exit_code = None\<rparr>"
  have "lease_admissible c ?l"
    using uncovered_claim_None [OF assms fresh, of ?l] cover resolve_claims_Ok [OF claims]
    by (simp add: lease_admissible_def)
  then show "sound c (c\<lparr>k_leases := btree_insert i ?l (k_leases c)\<rparr>, Ok [])"
    using fresh new_lease_step [of c ?l] by (intro sound_step) simp
qed

lemma child_fits_None:
  assumes inv: "cluster_inv c" and fresh: "btree_get (k_leases c) i = None"
    and fits: "child_fits c i p (a_claims (l_allocation l)) = None"
    and claims: "claims_ok (k_graph c) (a_claims (l_allocation l))"
  obtains pl where "btree_get (k_leases c) p = Some pl" and "l_state pl = LActive"
    and "\<forall>n d. sum (units c n d) (kids (parent_of (k_leases c)) (live c) p) + unat (lease_units l n d)
       \<le> unat (lease_units pl n d)"
proof -
  note ok = cluster_inv_parts [OF inv]
  from fits obtain pl where pl: "btree_get (k_leases c) p = Some pl" "l_state pl = LActive"
      and each: "\<And>cl. cl \<in> set (a_claims (l_allocation l)) \<Longrightarrow>
        \<exists>pc. find (\<lambda>pc. c_node pc = c_node cl) (a_claims (l_allocation pl)) = Some pc \<and>
          claim_fits (c_quantity pc) (used_on (subtree_used (k_leases c) (open_binding_leases c) p i) (c_node cl))
            (c_quantity cl)"
    by (auto simp: child_fits_def split: option.splits if_splits)
  have pclaims: "distinct (map c_node (a_claims (l_allocation pl)))"
    using ok(2) pl(1) by (auto simp: leases_ok_def claims_ok_def)
  have "sum (units c n d) (kids (parent_of (k_leases c)) (live c) p) + unat (lease_units l n d)
       \<le> unat (lease_units pl n d)" for n d
  proof -
    let ?K = "kids (parent_of (k_leases c)) (live c) p"
    have del: "sum (units c n d) ?K \<le> unat (lease_units pl n d)"
    proof -
      have "sum (units c n d) ?K \<le> units c n d p" using ok(3) by (simp add: accounts_ok_def delegated_def)
      also have "\<dots> = unat (lease_units pl n d)" using pl(1) by (simp add: units_def units_of_def)
      finally show ?thesis .
    qed
    have "sum (units c n d) ?K < 2 ^ LENGTH(64)"
      using del unat_bound [of "lease_units pl n d"] by linarith
    then have siblings: "unat (quantity_get (used_on (subtree_used (k_leases c) (open_binding_leases c) p i) n) d) =
        sum (units c n d) ?K"
      unfolding subtree_used_sum [OF ok(6)] live_except_fresh [OF fresh] units_def
      by (intro unat_sum_no_overflow) (simp_all add: units_def)
    show ?thesis
    proof (cases "n \<in> c_node ` set (a_claims (l_allocation l))")
      case False
      with del show ?thesis by (simp add: lease_units_unclaimed)
    next
      case True
      then obtain cl where cl: "cl \<in> set (a_claims (l_allocation l))" and n: "n = c_node cl" by blast
      from each [OF cl] obtain pc where pc: "pc \<in> set (a_claims (l_allocation pl))" "c_node pc = n"
          and fit: "claim_fits (c_quantity pc)
            (used_on (subtree_used (k_leases c) (open_binding_leases c) p i) n) (c_quantity cl)"
        by (auto simp: n dest: find_Some_iff_first)
      have "unat (quantity_get (c_quantity cl) d) \<le> unat (quantity_get (c_quantity pc) d) - sum (units c n d) ?K"
        using fit [unfolded claim_fits_iff, THEN spec, of d] by (simp only: siblings)
      moreover have "lease_units l n d = quantity_get (c_quantity cl) d"
        using claims cl by (simp add: n lease_units_claimed claims_ok_def)
      moreover have "lease_units pl n d = quantity_get (c_quantity pc) d"
        using lease_units_claimed [OF pclaims pc(1)] pc(2) by simp
      ultimately show ?thesis using del by simp
    qed
  qed
  with pl show ?thesis by (intro that) auto
qed

lemma open_lease_sound:
  assumes "cluster_inv c"
  shows "sound c (open_lease c i owner alloc parent expires_at prepare_deadline priority)"
  unfolding open_lease_def
proof (intro sound_intros)
  fix claims
  assume fresh: "btree_get (k_leases c) i = None" and claims: "resolve_claims (k_graph c) (a_claims alloc) = Ok claims"
    and fits: "(case parent of Some parent_id \<Rightarrow> child_fits c i parent_id claims
                | None \<Rightarrow> uncovered_claim c i claims) = None"
  let ?l = "\<lparr>l_id = i, l_owner = owner, l_allocation = alloc\<lparr>a_claims := claims\<rparr>, l_parent = parent,
     l_expires_at = expires_at, l_prepare_deadline = prepare_deadline, l_priority = priority,
     l_state = LPreparing, l_exit_code = None\<rparr>"
  have ok: "claims_ok (k_graph c) (a_claims (l_allocation ?l))" using resolve_claims_Ok [OF claims] by simp
  have "lease_admissible c ?l"
  proof (cases parent)
    case None
    with uncovered_claim_None [OF assms fresh, of ?l] fits ok show ?thesis by (simp add: lease_admissible_def)
  next
    case (Some p)
    with fits have "child_fits c i p (a_claims (l_allocation ?l)) = None" by simp
    from assms fresh this ok obtain pl where "btree_get (k_leases c) p = Some pl" "l_state pl = LActive"
        "\<forall>n d. sum (units c n d) (kids (parent_of (k_leases c)) (live c) p) + unat (lease_units ?l n d)
          \<le> unat (lease_units pl n d)"
      by (rule child_fits_None)
    with Some ok show ?thesis by (simp add: lease_admissible_def)
  qed
  then show "sound c (c\<lparr>k_leases := btree_insert i ?l (k_leases c)\<rparr>, Ok [])"
    using fresh new_lease_step [of c ?l] by (intro sound_step) simp
qed

section \<open>Promotion, activation and renewal\<close>

lemma resolve_stored_claims:
  assumes "claims_ok g claims" and "try_map (resolve_claim g) claims = Ok out"
  shows "out = claims"
proof -
  have "list_all2 (\<lambda>cl cl'. resolve_claim g cl = Ok cl') claims out"
    using assms(2) by (simp add: try_map_eq_Ok)
  moreover have "\<forall>cl\<in>set claims. \<not> btree_is_empty (c_quantity cl)" using assms(1) by (simp add: claims_ok_def)
  ultimately show ?thesis
    by (induction rule: list_all2_induct) (auto dest: resolve_claim_Ok)
qed

lemma promote_lease_sound:
  assumes "cluster_inv c"
  shows "sound c (promote_lease c i deadline)"
  unfolding promote_lease_def
proof (intro sound_intros sound_step)
  fix l claims
  assume l: "ok_or (btree_get (k_leases c) i) (UnknownLease i) = Ok l" and "\<not> l_state l \<noteq> LReserved"
    and claims: "try_map (resolve_claim (k_graph c)) (a_claims (l_allocation l)) = Ok claims"
  then have get: "btree_get (k_leases c) i = Some l" and state: "l_state l = LReserved" by simp_all
  have "claims = a_claims (l_allocation l)"
    using cluster_inv_parts(2) [OF assms] get claims
    by (intro resolve_stored_claims) (auto simp: leases_ok_def)
  then show "kernel_step c (c\<lparr>k_leases := btree_modify i (\<lambda>l. l\<lparr>
       l_allocation := (l_allocation l)\<lparr>a_claims := claims, a_graph_revision := g_revision (k_graph c)\<rparr>,
       l_state := LPreparing, l_prepare_deadline := deadline\<rparr>) (k_leases c)\<rparr>)"
    unfolding btree_modify_Some [OF get] using state
    by (intro update_lease_step [OF assms get]) (simp_all add: lease_next_def lease_live_state_def)
qed

lemma activate_lease_sound:
  assumes "cluster_inv c"
  shows "sound c (activate_lease c i)"
  unfolding activate_lease_def Let_def
proof (intro sound_intros sound_step)
  fix l
  assume l: "ok_or (btree_get (k_leases c) i) (UnknownLease i) = Ok l" and "\<not> l_state l \<noteq> LPreparing"
  then have get: "btree_get (k_leases c) i = Some l" and state: "l_state l = LPreparing" by simp_all
  show "kernel_step c (c\<lparr>k_leases := btree_modify i (\<lambda>l. l\<lparr>l_state := LActive\<rparr>) (k_leases c)\<rparr>)"
    unfolding btree_modify_Some [OF get] using state
    by (intro update_lease_step [OF assms get]) (simp_all add: lease_next_def lease_live_state_def)
qed

lemma renew_lease_sound:
  assumes "cluster_inv c"
  shows "sound c (renew_lease c i t)"
  unfolding renew_lease_def
proof (intro sound_intros sound_step)
  fix l
  assume l: "ok_or (btree_get (k_leases c) i) (UnknownLease i) = Ok l"
    and "\<not> (t \<le> l_expires_at l \<or> \<not> k_replaying c \<and> t \<le> k_now c)"
  then have get: "btree_get (k_leases c) i = Some l" and later: "l_expires_at l \<le> t" by auto
  then show "kernel_step c (c\<lparr>k_leases := btree_insert i (l\<lparr>l_expires_at := t\<rparr>) (k_leases c)\<rparr>)"
    by (intro update_lease_step [OF assms get]) (simp_all add: lease_next_def)
qed

section \<open>Ending leases\<close>

definition ended :: "lease_state list \<Rightarrow> lease_state \<Rightarrow> lease \<Rightarrow> lease" where
  "ended kept final l = (if l_state l \<in> set kept then l else l\<lparr>l_state := final\<rparr>)"

lemma end_lease_ended: "end_lease kept final i c = c\<lparr>k_leases := btree_modify i (ended kept final) (k_leases c)\<rparr>"
  by (simp add: end_lease_def ended_def [abs_def])

lemma ended_ended [simp]: "ended kept final (ended kept final l) = ended kept final l"
  by (simp add: ended_def)

lemma ended_closed:
  assumes "final = LFailed \<or> final = LRevoked \<or> final = LExpired"
  shows "lease_next l (ended closed_states final l) \<and> \<not> lease_live_state (l_state (ended closed_states final l))"
  using assms by (cases "l_state l") (auto simp: ended_def closed_states_def lease_next_def lease_live_state_def)

lemma ended_completed:
  assumes "final = LFailed \<or> final = LCompleted"
  shows "lease_next l (ended (closed_states @ [LCompleted]) final l) \<and>
    \<not> lease_live_state (l_state (ended (closed_states @ [LCompleted]) final l))"
  using assms by (cases "l_state l") (auto simp: ended_def closed_states_def lease_next_def lease_live_state_def)

definition leases_ended :: "lease_state list \<Rightarrow> lease_state \<Rightarrow> lease_id set \<Rightarrow>
    (lease_id, lease) btree \<Rightarrow> (lease_id, lease) btree \<Rightarrow> bool" where
  "leases_ended kept final A L L' \<longleftrightarrow>
     (\<forall>j. btree_get L' j = (if j \<in> A then map_option (ended kept final) (btree_get L j) else btree_get L j))"

lemma end_descendants_leases:
  "\<exists>L effects. end_descendants kept final ds c = (c\<lparr>k_leases := L\<rparr>, effects) \<and>
     leases_ended kept final (set ds) (k_leases c) L"
proof (induction ds rule: rev_induct)
  case Nil
  have "end_descendants kept final [] c = (c\<lparr>k_leases := k_leases c\<rparr>, [])" by (simp add: end_descendants_def)
  then show ?case by (intro exI) (auto simp: leases_ended_def)
next
  case (snoc d ds)
  then obtain L effects where run: "end_descendants kept final ds c = (c\<lparr>k_leases := L\<rparr>, effects)"
      and L: "leases_ended kept final (set ds) (k_leases c) L" by blast
  have "end_descendants kept final (ds @ [d]) c =
      (let c' = end_lease kept final d (c\<lparr>k_leases := L\<rparr>) in (c', effects @ fence_effects c' d))"
    using run by (simp add: end_descendants_def)
  moreover have "leases_ended kept final (set (ds @ [d])) (k_leases c) (btree_modify d (ended kept final) L)"
    using L by (auto simp: leases_ended_def option.map_comp comp_def)
  ultimately show ?case
    by (intro exI [of _ "btree_modify d (ended kept final) L"]) (simp add: end_lease_ended Let_def)
qed

lemma revoke_loop_leases:
  "\<exists>L effects. fold (\<lambda>d (c, effects).
       case btree_get (k_leases c) d of
         None \<Rightarrow> (c, effects)
       | Some l \<Rightarrow> let c' = end_lease kept final d c in (c', effects @ fence_effects c' d))
     ds (c, []) = (c\<lparr>k_leases := L\<rparr>, effects) \<and> leases_ended kept final (set ds) (k_leases c) L"
    (is "\<exists>L effects. fold ?f ds _ = _ \<and> _")
proof (induction ds rule: rev_induct)
  case Nil
  have "fold ?f [] (c, []) = (c\<lparr>k_leases := k_leases c\<rparr>, [])" by simp
  then show ?case by (intro exI) (auto simp: leases_ended_def)
next
  case (snoc d ds)
  then obtain L effects where run: "fold ?f ds (c, []) = (c\<lparr>k_leases := L\<rparr>, effects)"
      and L: "leases_ended kept final (set ds) (k_leases c) L" by blast
  have L': "leases_ended kept final (set (ds @ [d])) (k_leases c) (btree_modify d (ended kept final) L)"
    using L by (auto simp: leases_ended_def option.map_comp comp_def)
  show ?case
  proof (cases "btree_get L d")
    case None
    then have "btree_modify d (ended kept final) L = L" by (simp add: btree_modify_def)
    with run None L' show ?thesis by (intro exI [of _ L]) simp
  next
    case (Some l)
    with run L' show ?thesis
      by (intro exI [of _ "btree_modify d (ended kept final) L"]) (simp add: end_lease_ended Let_def)
  qed
qed

lemma unknown_no_descendants:
  assumes "leases_ok c" and "btree_get (k_leases c) i = None"
  shows "descendants_postorder c i = []"
proof -
  have "\<not> lf.up c k i" for k
    using live_parent [OF assms(1), of k i] assms(2) by (auto simp: lf.up_def)
  then have "\<not> (lf.up c)\<^sup>+\<^sup>+ j i" for j by (auto elim: tranclp.cases)
  then have "set (descendants_postorder c i) = {}" by (simp add: descendants_postorder_set [OF assms(1)])
  then show ?thesis by simp
qed

lemma end_tree_step:
  assumes inv: "cluster_inv c"
    and others: "\<And>j. j \<noteq> i \<Longrightarrow> j \<notin> set (descendants_postorder c i) \<Longrightarrow> btree_get L j = btree_get (k_leases c) j"
    and tree: "\<And>j. j = i \<or> j \<in> set (descendants_postorder c i) \<Longrightarrow>
      rel_option (\<lambda>l l'. lease_next l l' \<and> \<not> lease_live_state (l_state l')) (btree_get (k_leases c) j) (btree_get L j)"
  shows "kernel_step c (c\<lparr>k_leases := L\<rparr>)"
proof -
  note ok = cluster_inv_parts [OF inv]
  let ?D = "set (descendants_postorder c i)"
  have L: "\<forall>j. rel_option lease_next (btree_get (k_leases c) j) (btree_get L j)"
  proof
    fix j
    show "rel_option lease_next (btree_get (k_leases c) j) (btree_get L j)"
    proof (cases "j = i \<or> j \<in> ?D")
      case True
      then show ?thesis using tree [of j] by (rule_tac option.rel_mono_strong) auto
    next
      case False
      then show ?thesis using others [of j] by (auto intro: option.rel_refl)
    qed
  qed
  have B: "\<forall>j. rel_option binding_next (btree_get (k_bindings c) j) (btree_get (k_bindings c) j)"
    by (auto intro: option.rel_refl)
  have "kernel_step c (c\<lparr>k_leases := L, k_bindings := k_bindings c\<rparr>)"
  proof (rule move_step [OF L B], rule move_lineage [OF inv L B])
    fix j p l'
    assume p: "parent_of (k_leases c) j = Some p" and l': "btree_get L j = Some l'" "lease_live_state (l_state l')"
    have "\<not> (j = i \<or> j \<in> ?D)"
    proof
      assume "j = i \<or> j \<in> ?D"
      from tree [OF this] l' show False by (cases "btree_get (k_leases c) j") auto
    qed
    then have "p \<noteq> i" "p \<notin> ?D" using descendant_child [OF ok(2) p, of i] by auto
    then show "btree_get L p = btree_get (k_leases c) p" by (rule others)
  qed
  then show ?thesis by simp
qed

text \<open>Ending the descendants first and the lease itself afterwards ends the whole tree.\<close>

lemma end_tree_ended:
  assumes inv: "cluster_inv c"
    and desc: "leases_ended kept final (set (descendants_postorder c i)) (k_leases c) L"
    and next1: "\<And>l. lease_next l (ended kept final l) \<and> \<not> lease_live_state (l_state (ended kept final l))"
    and get: "btree_get (k_leases c) i = Some l"
    and self: "lease_next l l'" "\<not> lease_live_state (l_state l')"
  shows "kernel_step c (c\<lparr>k_leases := btree_insert i l' L\<rparr>)"
  using inv
proof (rule end_tree_step)
  fix j
  assume "j \<noteq> i" "j \<notin> set (descendants_postorder c i)"
  then show "btree_get (btree_insert i l' L) j = btree_get (k_leases c) j"
    using desc by (simp add: leases_ended_def)
next
  fix j
  assume "j = i \<or> j \<in> set (descendants_postorder c i)"
  then show "rel_option (\<lambda>l l'. lease_next l l' \<and> \<not> lease_live_state (l_state l'))
      (btree_get (k_leases c) j) (btree_get (btree_insert i l' L) j)"
    using desc next1 get self by (cases "btree_get (k_leases c) j") (auto simp: leases_ended_def)
qed

lemma leases_ended_self:
  assumes "leases_ok c" and "leases_ended kept final (set (descendants_postorder c i)) (k_leases c) L"
  shows "btree_get L i = btree_get (k_leases c) i"
proof -
  have "i \<notin> set (descendants_postorder c i)"
    using lf.up_irrefl [OF assms(1), of i] by (simp add: descendants_postorder_set [OF assms(1)])
  then show ?thesis using assms(2) by (simp add: leases_ended_def)
qed

lemma ended_unknown:
  assumes "leases_ok c" and "leases_ended kept final (set (descendants_postorder c i)) (k_leases c) L"
    and "btree_get L i = None"
  shows "L = k_leases c"
proof (rule btree_ext)
  fix j
  have "btree_get (k_leases c) i = None" using leases_ended_self [OF assms(1,2)] assms(3) by simp
  then have "descendants_postorder c i = []" by (rule unknown_no_descendants [OF assms(1)])
  then show "btree_get L j = btree_get (k_leases c) j" using assms(2) by (simp add: leases_ended_def)
qed

lemma fail_lease_sound:
  assumes inv: "cluster_inv c"
  shows "sound c (fail_lease c i reason)"
proof -
  note ok = cluster_inv_parts [OF inv]
  obtain L effects where run: "end_descendants closed_states LFailed (descendants_postorder c i) c =
        (c\<lparr>k_leases := L\<rparr>, effects)"
      and L: "leases_ended closed_states LFailed (set (descendants_postorder c i)) (k_leases c) L"
    using end_descendants_leases by blast
  have out: "fail_lease c i reason = on_ok (ok_or (btree_get L i) (UnknownLease i)) (c\<lparr>k_leases := L\<rparr>) (\<lambda>l.
      if l_state l \<in> set closed_states then (c\<lparr>k_leases := L\<rparr>, Ok effects)
      else let c2 = c\<lparr>k_leases := btree_insert i (l\<lparr>l_state := LFailed\<rparr>) L\<rparr>
           in (c2, Ok (effects @ fence_effects c2 i)))"
    by (cases "btree_get L i") (simp_all add: fail_lease_def run Let_def split: if_split)
  show ?thesis
  proof (cases "btree_get L i")
    case None
    then have "L = k_leases c" by (rule ended_unknown [OF ok(2) L])
    with None show ?thesis by (simp add: out sound_same)
  next
    case (Some l)
    then have get: "btree_get (k_leases c) i = Some l" using leases_ended_self [OF ok(2) L] by simp
    have "kernel_step c (c\<lparr>k_leases := btree_insert i (ended closed_states LFailed l) L\<rparr>)"
      using ended_closed [of LFailed] by (intro end_tree_ended [OF inv L _ get]) auto
    with Some show ?thesis
      by (simp add: out ended_def Let_def sound_step btree.insert_same split: if_splits)
  qed
qed

lemma revoke_lease_sound:
  assumes inv: "cluster_inv c"
  shows "sound c (revoke_lease c i)"
proof -
  note ok = cluster_inv_parts [OF inv]
  obtain L effects where run: "fold (\<lambda>d (c, effects).
       case btree_get (k_leases c) d of
         None \<Rightarrow> (c, effects)
       | Some l \<Rightarrow> let c' = end_lease closed_states LRevoked d c in (c', effects @ fence_effects c' d))
     (descendants_postorder c i) (c, []) = (c\<lparr>k_leases := L\<rparr>, effects)"
      and L: "leases_ended closed_states LRevoked (set (descendants_postorder c i)) (k_leases c) L"
    using revoke_loop_leases by blast
  have out: "revoke_lease c i = on_ok (ok_or (btree_get L i) (UnknownLease i)) (c\<lparr>k_leases := L\<rparr>) (\<lambda>l.
      let c2 = end_lease closed_states LRevoked i (c\<lparr>k_leases := L\<rparr>)
      in (c2, Ok (effects @ fence_effects c2 i)))"
    unfolding revoke_lease_def run by simp
  show ?thesis
  proof (cases "btree_get L i")
    case None
    then have "L = k_leases c" by (rule ended_unknown [OF ok(2) L])
    with None show ?thesis by (simp add: out sound_same)
  next
    case (Some l)
    then have get: "btree_get (k_leases c) i = Some l" using leases_ended_self [OF ok(2) L] by simp
    have "kernel_step c (c\<lparr>k_leases := btree_insert i (ended closed_states LRevoked l) L\<rparr>)"
      using ended_closed [of LRevoked] by (intro end_tree_ended [OF inv L _ get]) auto
    with Some show ?thesis
      by (simp add: out Let_def end_lease_ended btree_modify_Some sound_step)
  qed
qed

lemma expire_lease_sound:
  assumes inv: "cluster_inv c"
  shows "sound c (expire_lease c i)"
  unfolding expire_lease_def
proof (intro sound_intros)
  note ok = cluster_inv_parts [OF inv]
  fix l
  assume "ok_or (btree_get (k_leases c) i) (UnknownLease i) = Ok l"
    and "\<not> \<not> (l_state l = LPreparing \<or> l_state l = LActive \<or> l_state l = LReserved)"
  then have get: "btree_get (k_leases c) i = Some l"
    and state: "l_state l = LPreparing \<or> l_state l = LActive \<or> l_state l = LReserved" by auto
  obtain L effects where run: "end_descendants closed_states LExpired (descendants_postorder c i) c =
        (c\<lparr>k_leases := L\<rparr>, effects)"
      and L: "leases_ended closed_states LExpired (set (descendants_postorder c i)) (k_leases c) L"
    using end_descendants_leases by blast
  have same: "btree_get L i = Some l" using leases_ended_self [OF ok(2) L] get by simp
  have "kernel_step c (c\<lparr>k_leases := btree_insert i (l\<lparr>l_state := LExpired\<rparr>) L\<rparr>)"
    using ended_closed [of LExpired] state
    by (intro end_tree_ended [OF inv L _ get]) (auto simp: lease_next_def lease_live_state_def)
  then show "sound c (let (c1, effects) = end_descendants closed_states LExpired (descendants_postorder c i) c in
       on_ok (ok_or (btree_get (k_leases c1) i) (UnknownLease i)) c1 (\<lambda>l.
         let c2 = c1\<lparr>k_leases := btree_insert i (l\<lparr>l_state := LExpired\<rparr>) (k_leases c1)\<rparr>
         in (c2, Ok (effects @ fence_effects c2 i))))"
    by (simp add: run same Let_def sound_step)
qed

lemma complete_lease_sound:
  assumes inv: "cluster_inv c"
  shows "sound c (complete_lease c i code)"
  unfolding complete_lease_def Let_def
proof (intro sound_intros)
  note ok = cluster_inv_parts [OF inv]
  fix l
  let ?final = "if code = 0 then LCompleted else LFailed"
  assume "ok_or (btree_get (k_leases c) i) (UnknownLease i) = Ok l"
    and "\<not> \<not> (l_state l = LPreparing \<or> l_state l = LActive \<or> l_state l = LReserved)"
  then have get: "btree_get (k_leases c) i = Some l"
    and state: "l_state l = LPreparing \<or> l_state l = LActive \<or> l_state l = LReserved" by auto
  obtain L effects where run: "end_descendants (closed_states @ [LCompleted]) ?final (descendants_postorder c i) c =
        (c\<lparr>k_leases := L\<rparr>, effects)"
      and L: "leases_ended (closed_states @ [LCompleted]) ?final (set (descendants_postorder c i)) (k_leases c) L"
    using end_descendants_leases by blast
  have same: "btree_get L i = Some l" using leases_ended_self [OF ok(2) L] get by simp
  have "kernel_step c (c\<lparr>k_leases := btree_insert i (l\<lparr>l_state := ?final, l_exit_code := Some code\<rparr>) L\<rparr>)"
    using state
    by (intro end_tree_ended [OF inv L _ get] ended_completed) (auto simp: lease_next_def lease_live_state_def)
  then show "sound c (case end_descendants (closed_states @ [LCompleted]) ?final (descendants_postorder c i) c of
      (c1, effects) \<Rightarrow>
       on_ok (ok_or (btree_get (k_leases c1) i) (UnknownLease i)) c1 (\<lambda>l.
         (c1\<lparr>k_leases := btree_insert i (l\<lparr>l_state := ?final, l_exit_code := Some code\<rparr>) (k_leases c1)\<rparr>,
          Ok (effects @ fence_effects
            (c1\<lparr>k_leases := btree_insert i (l\<lparr>l_state := ?final, l_exit_code := Some code\<rparr>) (k_leases c1)\<rparr>) i))))"
    unfolding run by (simp add: same sound_step)
qed

lemma release_lease_sound:
  assumes inv: "cluster_inv c"
  shows "sound c (release_lease c i)"
  unfolding release_lease_def Let_def
proof (intro sound_intros sound_step)
  note ok = cluster_inv_parts [OF inv]
  fix l
  assume none: "\<not> live_descendants c i \<noteq> []" and "ok_or (btree_get (k_leases c) i) (UnknownLease i) = Ok l"
    and "\<not> \<not> (l_state l = LActive \<or> l_state l = LReserved)"
  then have get: "btree_get (k_leases c) i = Some l" and state: "l_state l = LActive \<or> l_state l = LReserved"
    by auto
  let ?L = "btree_insert i (l\<lparr>l_state := LReleased\<rparr>) (k_leases c)"
  have L: "\<forall>j. rel_option lease_next (btree_get (k_leases c) j) (btree_get ?L j)"
    using get state by (intro rel_option_refl_insert [where v = l]) (auto simp: lease_next_def)
  have B: "\<forall>j. rel_option binding_next (btree_get (k_bindings c) j) (btree_get (k_bindings c) j)"
    by (auto intro: option.rel_refl)
  have "kernel_step c (c\<lparr>k_leases := ?L, k_bindings := k_bindings c\<rparr>)"
  proof (rule move_step [OF L B], rule move_lineage [OF inv L B])
    fix j p
    assume p: "parent_of (k_leases c) j = Some p" and j: "j \<in> live c"
    have "p \<noteq> i"
    proof
      assume "p = i"
      then have "j \<in> set (descendants_postorder c i)" using descendant_child [OF ok(2) p] by simp
      moreover have "\<exists>l. btree_get (k_leases c) j = Some l \<and> occupies c (l_id l)"
        using j ids_okD [OF ok(6)]
        by (fastforce simp: live_iff occupies_def lease_occupies_iff open_bindings_def list_ex_iff open_binding_leases_iff)
      ultimately have "j \<in> set (live_descendants c i)" by (auto simp: live_descendants_def)
      with none show False by simp
    qed
    then show "btree_get ?L p = btree_get (k_leases c) p" by simp
  qed
  then show "kernel_step c (c\<lparr>k_leases := ?L\<rparr>)" by simp
qed

section \<open>Bindings\<close>

lemma open_binding_sound:
  assumes inv: "cluster_inv c"
  shows "sound c (open_binding c i lease n provider scope)"
  unfolding open_binding_def
proof (intro sound_intros)
  fix l cl required machine session
  assume fresh: "btree_get (k_bindings c) i = None"
    and "ok_or (btree_get (k_leases c) lease) (UnknownLease lease) = Ok l"
    and "\<not> l_state l \<noteq> LPreparing" and "\<not> l_parent l \<noteq> None"
    and "find (\<lambda>cl. c_node cl = n) (a_claims (l_allocation l)) = Some cl"
    and free: "\<not> conflicting_endpoint c provider n scope"
  then have l: "btree_get (k_leases c) lease = Some l" "l_state l = LPreparing" "l_parent l = None"
      "n \<in> c_node ` set (a_claims (l_allocation l))"
    by (auto dest: find_Some_iff_first)
  let ?fence = "case scope of Exclusive \<Rightarrow> btree_get_or 0 (k_last_fence c) (provider, n) + 1
    | IndependentShare \<Rightarrow> max i 1"
  let ?b = "\<lparr>b_id = i, b_lease = lease, b_node = n, b_provider = provider, b_scope = scope, b_fence = ?fence,
     b_agent_session = session, b_state = BPreparing, b_provider_handle = None\<rparr>"
  have "binding_admissible c ?b" using l free by (auto simp: binding_admissible_def)
  with fresh have "kernel_step c (c\<lparr>k_last_fence := advance_fences c ?b,
      k_bindings := btree_insert (b_id ?b) ?b (k_bindings c)\<rparr>)"
    by (intro new_binding_step) simp_all
  then show "sound c
     (let (fence, c1) =
            (case scope of
               Exclusive \<Rightarrow>
                 (let fence = btree_get_or 0 (k_last_fence c) (provider, n) + 1
                  in (fence, c\<lparr>k_last_fence := btree_insert (provider, n) fence (k_last_fence c)\<rparr>))
             | IndependentShare \<Rightarrow> (max i 1, c));
          b = \<lparr>b_id = i, b_lease = lease, b_node = n, b_provider = provider, b_scope = scope,
               b_fence = fence, b_agent_session = session, b_state = BPreparing, b_provider_handle = None\<rparr>;
          effect = binding_effect c1 b EffPrepare
      in (c1\<lparr>k_bindings := btree_insert i b (k_bindings c1)\<rparr>, Ok [effect]))"
    by (cases scope) (simp_all add: Let_def advance_fences_def sound_step)
qed

lemma activate_binding_sound:
  assumes "cluster_inv c"
  shows "sound c (activate_binding c i)"
  unfolding activate_binding_def
proof (intro sound_intros sound_step)
  fix b
  assume "ok_or (btree_get (k_bindings c) i) (UnknownBinding i) = Ok b" and "\<not> b_state b \<noteq> BPreparing"
  then have get: "btree_get (k_bindings c) i = Some b" and state: "b_state b = BPreparing" by simp_all
  show "kernel_step c (c\<lparr>k_bindings := btree_modify i (\<lambda>b. b\<lparr>b_state := BActive\<rparr>) (k_bindings c)\<rparr>)"
    unfolding btree_modify_Some [OF get] using state
    by (intro update_binding_step [OF assms get]) (simp add: binding_next_def)
qed

lemma fence_binding_sound: "sound c (fence_binding c i)"
  unfolding fence_binding_def by (intro sound_intros)

lemma release_binding_sound: "sound c (release_binding c i)"
  unfolding release_binding_def by (intro sound_intros)

lemma fail_binding_sound:
  assumes "cluster_inv c"
  shows "sound c (fail_binding c i reason)"
  unfolding fail_binding_def
proof (intro sound_intros)
  fix b
  assume "ok_or (btree_get (k_bindings c) i) (UnknownBinding i) = Ok b" and "\<not> is_closed (b_state b)"
  then have get: "btree_get (k_bindings c) i = Some b" and state: "\<not> is_closed (b_state b)" by simp_all
  have "kernel_step c (c\<lparr>k_bindings := btree_insert i (b\<lparr>b_state := BFailed\<rparr>) (k_bindings c)\<rparr>)"
    using state
    by (intro update_binding_step [OF assms get]) (cases "b_state b"; simp add: binding_next_def is_closed_def)
  then show "sound c (let c' = c\<lparr>k_bindings := btree_insert i (b\<lparr>b_state := BFailed\<rparr>) (k_bindings c)\<rparr> in
      on_ok (ok_or (btree_get (k_bindings c') i) (UnknownBinding i)) c' (\<lambda>b.
        (c', Ok [binding_effect c' b EffFence])))"
    by (simp add: Let_def sound_step)
qed

lemma ok_or_OkD: "ok_or o1 e = Ok x \<Longrightarrow> o1 = Some x"
  by simp

lemma closing_moves: "is_closed s' \<Longrightarrow> binding_moves s s'"
  by (cases s) (auto simp: is_closed_def)

lemma record_prepared_sound:
  assumes "cluster_inv c"
  shows "sound c (record_prepared c i session handle fence)"
  unfolding record_prepared_def
  by (intro sound_intros sound_step)
    (auto simp: btree_modify_Some binding_next_def intro!: update_binding_step [OF assms] dest!: ok_or_OkD)

lemma record_active_sound:
  assumes "cluster_inv c"
  shows "sound c (record_active c i session fence)"
  unfolding record_active_def
  by (intro sound_intros sound_step)
    (auto simp: btree_modify_Some binding_next_def intro!: update_binding_step [OF assms] dest!: ok_or_OkD)

lemma record_released_sound:
  assumes "cluster_inv c"
  shows "sound c (record_released c i session fence)"
  unfolding record_released_def
  by (intro sound_intros sound_step)
    (auto simp: btree_modify_Some binding_next_def is_closed_def
      intro!: update_binding_step [OF assms] closing_moves dest!: ok_or_OkD)

lemma record_fenced_sound:
  assumes "cluster_inv c"
  shows "sound c (record_fenced c i session fence)"
  unfolding record_fenced_def
  by (intro sound_intros sound_step)
    (auto simp: btree_modify_Some binding_next_def is_closed_def
      intro!: update_binding_step [OF assms] closing_moves dest!: ok_or_OkD)

lemma rebind_session_sound:
  assumes "cluster_inv c"
  shows "sound c (rebind_session c i session)"
  unfolding rebind_session_def
  by (intro sound_intros sound_step)
    (auto simp: btree_modify_Some binding_next_def intro!: update_binding_step [OF assms] dest!: ok_or_OkD)

text \<open>A reported failure moves the binding and ends the lease in one step.\<close>

lemma record_failed_sound:
  assumes inv: "cluster_inv c"
  shows "sound c (record_failed c i session reason fence)"
  unfolding record_failed_def
proof (intro sound_intros)
  note ok = cluster_inv_parts [OF inv]
  fix b
  assume "ok_or (btree_get (k_bindings c) i) (UnknownBinding i) = Ok b"
  then have get: "btree_get (k_bindings c) i = Some b" by simp
  then obtain l where l: "btree_get (k_leases c) (b_lease b) = Some l" "l_parent l = None"
    using ok(4) by (auto simp: bindings_ok_def)
  let ?f = "\<lambda>b. let b1 = b\<lparr>b_agent_session := session\<rparr> in
    if \<not> is_closed (b_state b1) then b1\<lparr>b_state := BFailed\<rparr> else b1"
  let ?B = "btree_modify i ?f (k_bindings c)"
  let ?L = "btree_insert (b_lease b) (ended closed_states LFailed l) (k_leases c)"
  have "binding_next b (?f b)"
    by (cases "b_state b") (simp_all add: binding_next_def is_closed_def)
  then have B: "\<forall>j. rel_option binding_next (btree_get (k_bindings c) j) (btree_get ?B j)"
    unfolding btree_modify_Some [OF get] using get by (intro rel_option_refl_insert) simp_all
  have L: "\<forall>j. rel_option lease_next (btree_get (k_leases c) j) (btree_get ?L j)"
    using l(1) by (rule rel_option_refl_insert) (auto intro: conjunct1 [OF ended_closed])
  have "kernel_step c (c\<lparr>k_leases := ?L, k_bindings := ?B\<rparr>)"
  proof (rule move_step [OF L B], rule move_lineage [OF inv L B])
    fix j p
    assume "parent_of (k_leases c) p \<noteq> None"
    then have "p \<noteq> b_lease b" using l by (auto simp: parent_of_def)
    then show "btree_get ?L p = btree_get (k_leases c) p" by simp
  qed
  moreover have "c\<lparr>k_leases := ?L, k_bindings := ?B\<rparr> =
      end_lease closed_states LFailed (b_lease b) (c\<lparr>k_bindings := ?B\<rparr>)"
    by (simp add: end_lease_ended btree_modify_Some [OF l(1)])
  ultimately show "sound c (let lease_id = b_lease b; c1 = c\<lparr>k_bindings := ?B\<rparr> in
      on_ok (ok_or (btree_get (k_leases c1) lease_id) (UnknownLease lease_id)) c1 (\<lambda>l.
        let c2 = end_lease closed_states LFailed lease_id c1 in (c2, Ok (fence_effects c2 lease_id))))"
    using l(1) by (simp add: Let_def sound_step)
qed

section \<open>Nodes, sessions and fences\<close>

lemma set_node_state_sound: "sound c (set_node_state c n s)"
  unfolding set_node_state_def
proof (intro sound_intros sound_step)
  fix current
  assume current: "node_state_of c n = Some current" and retired: "\<not> (current = Retired \<and> s \<noteq> Retired)"
  then have n: "graph_node (k_graph c) n \<noteq> None"
    and cur: "btree_get (k_node_states c) n = Some Retired \<Longrightarrow> s = Retired"
    by (auto simp: node_state_of_def btree_get_or_def)
  show "kernel_step c (c\<lparr>k_node_states := btree_insert n s (k_node_states c)\<rparr>)"
    using n cur by (intro node_state_step) auto
  show "kernel_step c (c\<lparr>k_node_states := btree_remove n (k_node_states c)\<rparr>)" if "s = Schedulable"
    using n cur that by (intro node_state_step) auto
qed

lemma set_agent_session_sound: "sound c (set_agent_session c m session)"
  unfolding set_agent_session_def Let_def
proof (intro sound_intros sound_step)
  fix node
  assume "ok_or (graph_node (k_graph c) m) (UnknownNode m) = Ok node" and "\<not> n_kind node \<noteq> Machine"
  then have m: "node_has_kind (k_graph c) Machine m" by (simp add: node_has_kind_def)
  show "kernel_step c (c\<lparr>k_sessions := btree_insert m session (k_sessions c)\<rparr>)"
    if "btree_get (k_sessions c) m = None"
    using m that by (intro session_step) simp_all
  show "kernel_step c (c\<lparr>k_sessions := btree_insert m session (k_sessions c)\<rparr>)"
    if "btree_get (k_sessions c) m = Some current" and "\<not> session < current" for current
    using m that by (intro session_step) auto
qed

lemma advance_endpoint_fence_sound: "sound c (advance_endpoint_fence c n provider fence)"
  unfolding advance_endpoint_fence_def btree_entry_def
  by (intro sound_intros sound_step fence_step) auto

lemma quarantine_node_sound: "sound c (quarantine_node c n)"
  unfolding quarantine_node_def by (rule set_node_state_sound)

lemma unquarantine_node_sound: "sound c (unquarantine_node c n)"
  unfolding unquarantine_node_def by (intro sound_intros set_node_state_sound)

lemmas operations_sound =
  apply_graph_sound apply_resource_facts_sound apply_provider_facts_sound adopt_fact_writers_sound
  reserve_lease_sound promote_lease_sound open_lease_sound activate_lease_sound fail_lease_sound
  release_lease_sound revoke_lease_sound expire_lease_sound complete_lease_sound renew_lease_sound
  open_binding_sound activate_binding_sound fence_binding_sound fail_binding_sound release_binding_sound
  record_prepared_sound record_active_sound record_released_sound record_fenced_sound record_failed_sound
  set_agent_session_sound set_node_health_sound set_node_state_sound rebind_session_sound
  advance_endpoint_fence_sound quarantine_node_sound unquarantine_node_sound

lemma dispatch_sound:
  assumes "cluster_inv c"
  shows "sound c (dispatch c cmd)"
  using assms by (cases cmd) (simp_all add: operations_sound)

end
