(* ===== verification/Cluster_Runs.thy ===== *)
theory Cluster_Runs
  imports Cluster_Refinement
begin

text \<open>
  Runs of the control plane: any sequence of commands, accepted or rejected, interleaved with the changes
  callers make outside the log (clock, agreement, epoch, migration of a loaded snapshot). The
  cluster is an \<open>invariant_system\<close> over these events, so the invariant holds in every reachable state,
  and its session counters are a \<open>monotone_system\<close>. The theorems are the safety properties of the
  control plane on reachable clusters.
\<close>

section \<open>Events\<close>

datatype event =
    EvApply command
  | EvNow u64
  | EvAgreement bool
  | EvEpoch
  | EvMigrate

fun step_event :: "event \<Rightarrow> cluster \<Rightarrow> cluster" where
  "step_event (EvApply cmd) c = fst (cluster_apply c cmd)"
| "step_event (EvNow t) c = set_now c t"
| "step_event (EvAgreement a) c = set_agreement c a"
| "step_event EvEpoch c = advance_epoch c"
| "step_event EvMigrate c = cluster_migrate_legacy_observations c"

definition cluster_run :: "event list \<Rightarrow> cluster" where
  "cluster_run es = fold step_event es cluster_new"

text \<open>A sample run for the witnesses: facts, an agent session, a reservation, its two bindings, activation.\<close>

definition sample_alloc :: allocation where
  "sample_alloc = \<lparr>a_claims = [\<lparr>c_node = 2, c_quantity = qty Count 2\<rparr>, \<lparr>c_node = 3, c_quantity = qty Bytes 16\<rparr>],
     a_graph_revision = 1, a_explanation = \<lparr>x_summary = '''', x_reasons = []\<rparr>\<rparr>"

definition sample_setup :: "event list" where
  "sample_setup = map EvApply [ApplyProviderFacts [sample_batch] sample_contracts, SetAgentSession 1 5,
     ReserveLease 10 1 sample_alloc 100 0]"

definition sample_prepare :: "event list" where
  "sample_prepare = map EvApply [PromoteLease 10 50,
     OpenBinding 20 10 2 provider_enforce Exclusive, OpenBinding 21 10 3 provider_enforce IndependentShare,
     RecordBindingPrepared 20 5 77 1, RecordBindingPrepared 21 5 78 21]"

definition sample_run :: "event list" where
  "sample_run = sample_setup @ sample_prepare @ map EvApply [ActivateLease 10, ActivateBinding 20, ActivateBinding 21]"

lemma cluster_run_snoc: "cluster_run (es @ [e]) = step_event e (cluster_run es)"
  by (simp add: cluster_run_def)

lemma cluster_run_append: "cluster_run (es @ es') = fold step_event es' (cluster_run es)"
  by (simp add: cluster_run_def)

lemma migrate_identity:
  assumes "facts_wf g"
  shows "migrate_legacy_observations g = g"
proof -
  have none: "btree_get (n_attrs n) ''health'' = None" if "btree_get (g_nodes g) i = Some n" for i n
    using assms that by (auto simp: facts_wf_def btree_contains_key_def)
  have "List.map_filter (\<lambda>(i, n). map_option (Pair i) (btree_get (n_attrs n) ''health'')) (btree_entries (g_nodes g)) = []"
    using none by (auto simp: List.map_filter_def filter_empty_conv)
  moreover have "btree_map_values (\<lambda>n. n\<lparr>n_attrs := btree_remove ''health'' (n_attrs n)\<rparr>) (g_nodes g) = g_nodes g"
  proof (rule btree_ext)
    fix i
    have "btree_remove ''health'' (n_attrs n) = n_attrs n" if "btree_get (g_nodes g) i = Some n" for n
      using none [OF that] by (intro btree_ext) simp
    then show "btree_get (btree_map_values (\<lambda>n. n\<lparr>n_attrs := btree_remove ''health'' (n_attrs n)\<rparr>) (g_nodes g)) i =
        btree_get (g_nodes g) i"
      by (cases "btree_get (g_nodes g) i") simp_all
  qed
  ultimately show ?thesis by (simp add: migrate_legacy_observations_def)
qed

text \<open>An event is a step of the specification, up to the log.\<close>

lemma step_event_kernel:
  assumes "cluster_inv c"
  obtains m lg where "kernel_step c m" and "step_event e c = m\<lparr>k_log := lg\<rparr>"
proof (cases e)
  case (EvApply cmd)
  obtain m r where d: "dispatch c cmd = (m, r)" by (cases "dispatch c cmd")
  have "kernel_step c m" using dispatch_sound [OF assms, of cmd] by (simp add: sound_def d)
  moreover have "\<exists>lg. step_event e c = m\<lparr>k_log := lg\<rparr>"
  proof (cases r)
    case (Ok effects)
    with d EvApply show ?thesis by (auto simp: cluster_apply_def)
  next
    case (Err err)
    with d EvApply have "step_event e c = m\<lparr>k_log := k_log m\<rparr>" by (simp add: cluster_apply_def)
    then show ?thesis ..
  qed
  ultimately show ?thesis using that by blast
next
  case (EvNow t)
  have "kernel_step c (c\<lparr>k_epoch := k_epoch c, k_now := t, k_agreed := k_agreed c, k_log := k_log c\<rparr>)"
    by (rule tick_step)
  with EvNow show ?thesis by (intro that [of "c\<lparr>k_now := t\<rparr>" "k_log c"]) (simp_all add: set_now_def)
next
  case (EvAgreement a)
  have "kernel_step c (c\<lparr>k_epoch := k_epoch c, k_now := k_now c, k_agreed := a, k_log := k_log c\<rparr>)"
    by (rule tick_step)
  with EvAgreement show ?thesis
    by (intro that [of "c\<lparr>k_agreed := a\<rparr>" "k_log c"]) (simp_all add: set_agreement_def)
next
  case EvEpoch
  have "kernel_step c (c\<lparr>k_epoch := saturating_add (k_epoch c) 1, k_now := k_now c, k_agreed := k_agreed c, k_log := k_log c\<rparr>)"
    by (rule tick_step)
  with EvEpoch show ?thesis
    by (intro that [of "c\<lparr>k_epoch := saturating_add (k_epoch c) 1\<rparr>" "k_log c"]) (simp_all add: advance_epoch_def)
next
  case EvMigrate
  have "facts_wf (k_graph c)" using cluster_inv_parts(1) [OF assms] by (simp add: graph_wf_def)
  then have "step_event e c = c\<lparr>k_log := k_log c\<rparr>"
    using EvMigrate by (simp add: cluster_migrate_legacy_observations_def migrate_identity)
  with idle_step show ?thesis by (rule that)
qed

lemma cluster_inv_log [simp]: "cluster_inv (c\<lparr>k_log := lg\<rparr>) = cluster_inv c"
  by (rule cluster_inv_cong) simp_all

lemma step_event_inv:
  assumes inv: "cluster_inv c"
  shows "cluster_inv (step_event e c)"
proof -
  from inv obtain m lg where "kernel_step c m" and "step_event e c = m\<lparr>k_log := lg\<rparr>" by (rule step_event_kernel)
  with kernel_step_inv [OF _ inv] show ?thesis by simp
qed

interpretation ci: invariant_system step_event cluster_inv
  by unfold_locales (rule step_event_inv)

lemma cluster_new_inv: "cluster_inv cluster_new"
proof -
  have "live cluster_new = {}" by (simp add: live_def occupying_ids_def cluster_new_def)
  then show ?thesis
    using graph_new_wf
    by (simp add: cluster_inv_def leases_ok_def lease_table_ok_def accounts_ok_def bindings_ok_def exclusive_ok_def
        ids_ok_def parent_of_def cluster_new_def lineage_def delegated_def kids_def charge_def roots_def wfp_on_bot)
qed

lemma cluster_run_inv: "cluster_inv (cluster_run es)"
  unfolding cluster_run_def by (rule ci.inv_run [OF cluster_new_inv])

section \<open>What one step keeps\<close>

lemma kernel_step_leases:
  assumes "kernel_step c c'" and "btree_get (k_leases c) i = Some l"
  shows "\<exists>l'. btree_get (k_leases c') i = Some l' \<and> lease_next l l'"
  using assms
  by (cases rule: kernel_step.cases) (auto dest: move_leases(4))

lemma kernel_step_bindings:
  assumes "kernel_step c c'" and "btree_get (k_bindings c) i = Some b"
  shows "\<exists>b'. btree_get (k_bindings c') i = Some b' \<and> binding_next b b'"
  using assms
proof (cases rule: kernel_step.cases)
  case (move_step L B)
  then have "rel_option binding_next (Some b) (btree_get B i)" using assms(2) by metis
  with move_step show ?thesis by (cases "btree_get B i") auto
qed auto

lemma kernel_step_sessions:
  assumes "kernel_step c c'" and "btree_get (k_sessions c) m = Some s"
  shows "\<exists>s'. btree_get (k_sessions c') m = Some s' \<and> s \<le> s'"
  using assms by (cases rule: kernel_step.cases) auto

lemma kernel_step_retired:
  assumes "kernel_step c c'" and "btree_get (k_node_states c) n = Some Retired"
  shows "btree_get (k_node_states c') n = Some Retired"
  using assms
proof (cases rule: kernel_step.cases)
  case (node_state_step n' S)
  with assms(2) show ?thesis by (cases "n = n'") auto
qed auto

lemma kernel_step_nodes:
  assumes "kernel_step c c'" and "graph_node (k_graph c) i \<noteq> None"
  shows "graph_node (k_graph c') i \<noteq> None"
  using assms by (cases rule: kernel_step.cases) auto

lemma kernel_step_machine:
  assumes "kernel_step c c'" and "i \<in> live c" and "btree_get (k_leases c) i = Some l"
    and "cl \<in> set (a_claims (l_allocation l))"
  shows "machine_of (k_graph c') (c_node cl) = machine_of (k_graph c) (c_node cl)"
  using assms by (cases rule: kernel_step.cases) auto

section \<open>Authority\<close>

text \<open>
  C1. No overcommitment: in every reachable cluster the units of each dimension that live leases hold
  on a node, counting each delegation tree once, fit into the capacity the node has, and the
  occupancy the kernel computes in 64-bit arithmetic is exactly that number, so none of its sums wraps.
\<close>

theorem no_overcommit:
  "charge (cluster_run es) n d \<le> unat (capacity_of (k_graph (cluster_run es)) n d) \<and>
   unat (quantity_get (used_on (occupancy_except (cluster_run es) {}) n) d) = charge (cluster_run es) n d"
proof -
  note ok = cluster_inv_parts [OF cluster_run_inv, of es]
  show ?thesis
    using ok(3) used_charge [OF ok(2) charge_bound [OF ok(3)]] by (simp add: accounts_ok_def)
qed

text \<open>
  C22. Delegation stays within its parent: in every reachable cluster the live direct children of a lease
  hold together no more than the lease itself, on every node and in every dimension.
\<close>

theorem children_within_parent:
  "sum (units (cluster_run es) n d) (kids (parent_of (k_leases (cluster_run es))) (live (cluster_run es)) p)
     \<le> units (cluster_run es) n d p"
  using cluster_inv_parts(3) [OF cluster_run_inv, of es] by (simp add: accounts_ok_def delegated_def)

text \<open>
  One holder per exclusive endpoint: in a reachable cluster two different open bindings of the same
  provider on the same node are both independent shares.
\<close>

theorem exclusive_endpoint_single:
  assumes "btree_get (k_bindings (cluster_run es)) i = Some b" and "btree_get (k_bindings (cluster_run es)) j = Some b'"
    and "\<not> is_closed (b_state b)" and "\<not> is_closed (b_state b')"
    and "b_provider b = b_provider b'" and "b_node b = b_node b'" and "b_scope b = Exclusive"
  shows "i = j \<and> b' = b"
proof (rule ccontr)
  assume "\<not> (i = j \<and> b' = b)"
  with assms(1,2) have "i \<noteq> j" by auto
  moreover have "exclusive_ok (k_bindings (cluster_run es))"
    using cluster_inv_parts(4) [OF cluster_run_inv, of es] by (simp add: bindings_ok_def)
  ultimately have "b_scope b = IndependentShare"
    using assms(1-6) unfolding exclusive_ok_def by blast
  with assms(7) show False by simp
qed

text \<open>
  C24. A rejected command changes nothing: whatever a reachable cluster refuses, its state is the one from
  before, log included.
\<close>

theorem rejected_command_changes_nothing:
  assumes "cluster_apply (cluster_run es) cmd = (c', Err e)"
  shows "c' = cluster_run es"
proof -
  have "dispatch (cluster_run es) cmd = (c', Err e)"
    using assms by (auto simp: cluster_apply_def split: prod.splits result.splits)
  with dispatch_sound [OF cluster_run_inv, of es cmd] show ?thesis by (simp add: sound_def)
qed

text \<open>
  C23. Refinement: an accepted command takes a reachable cluster along one step of the specification
  \<open>kernel_step\<close> and appends itself to the log; it does nothing else.
\<close>

theorem commands_refine_spec:
  assumes "cluster_apply (cluster_run es) cmd = (c', Ok effects)"
  shows "\<exists>m. kernel_step (cluster_run es) m \<and> c' = m\<lparr>k_log := k_log m @ [cmd]\<rparr>"
proof -
  obtain m where "dispatch (cluster_run es) cmd = (m, Ok effects)" and "c' = m\<lparr>k_log := k_log m @ [cmd]\<rparr>"
    using assms by (auto simp: cluster_apply_def split: prod.splits result.splits)
  with dispatch_sound [OF cluster_run_inv, of es cmd] show ?thesis by (auto simp: sound_def)
qed

section \<open>Life cycles\<close>

lemma step_event_leases:
  assumes "cluster_inv c" and "btree_get (k_leases c) i = Some l"
  shows "\<exists>l'. btree_get (k_leases (step_event e c)) i = Some l' \<and> lease_next l l'"
proof -
  from assms(1) obtain m lg where "kernel_step c m" and "step_event e c = m\<lparr>k_log := lg\<rparr>"
    by (rule step_event_kernel)
  with kernel_step_leases [OF _ assms(2)] show ?thesis by simp
qed

lemma step_event_bindings:
  assumes "cluster_inv c" and "btree_get (k_bindings c) i = Some b"
  shows "\<exists>b'. btree_get (k_bindings (step_event e c)) i = Some b' \<and> binding_next b b'"
proof -
  from assms(1) obtain m lg where "kernel_step c m" and "step_event e c = m\<lparr>k_log := lg\<rparr>"
    by (rule step_event_kernel)
  with kernel_step_bindings [OF _ assms(2)] show ?thesis by simp
qed

text \<open>
  C32. The life cycle of a lease: an event never removes a lease, never changes its owner, parent,
  priority or claims, never shortens it, and moves its state only along \<open>lease_moves\<close>. A released,
  expired, revoked or failed lease keeps its state.
\<close>

theorem lease_life_cycle:
  assumes "btree_get (k_leases (cluster_run es)) i = Some l"
  shows "\<exists>l'. btree_get (k_leases (cluster_run (es @ [e]))) i = Some l' \<and>
    l_owner l' = l_owner l \<and> l_parent l' = l_parent l \<and> l_priority l' = l_priority l \<and>
    a_claims (l_allocation l') = a_claims (l_allocation l) \<and> l_expires_at l \<le> l_expires_at l' \<and>
    lease_moves (l_state l) (l_state l')"
  using step_event_leases [OF cluster_run_inv assms, of e] by (auto simp: cluster_run_snoc lease_next_def)

text \<open>
  The life cycle of a binding: an event never removes a binding, never changes what it binds or its
  fence, and moves its state only along \<open>binding_moves\<close>; once released or fenced it stays so.
\<close>

theorem binding_life_cycle:
  assumes "btree_get (k_bindings (cluster_run es)) i = Some b"
  shows "\<exists>b'. btree_get (k_bindings (cluster_run (es @ [e]))) i = Some b' \<and>
    b_lease b' = b_lease b \<and> b_node b' = b_node b \<and> b_provider b' = b_provider b \<and> b_scope b' = b_scope b \<and>
    b_fence b' = b_fence b \<and> binding_moves (b_state b) (b_state b') \<and>
    (is_closed (b_state b) \<longrightarrow> is_closed (b_state b'))"
  using step_event_bindings [OF cluster_run_inv assms, of e]
  by (auto simp: cluster_run_snoc binding_next_def dest: binding_moves_closed)

lemma occupies_iff_live:
  assumes "cluster_inv c"
  shows "occupies c i \<longleftrightarrow> i \<in> live c"
proof (cases "btree_get (k_leases c) i")
  case None
  then show ?thesis by (simp add: occupies_def live_iff)
next
  case (Some l)
  then have "l_id l = i" by (rule ids_okD [OF cluster_inv_parts(6) [OF assms]])
  moreover have "open_bindings c i \<longleftrightarrow> i \<in> open_binding_leases c"
    by (simp add: open_bindings_def list_ex_iff open_binding_leases_iff Bex_def) blast
  ultimately show ?thesis using Some by (simp add: occupies_def live_iff lease_occupies_iff)
qed

lemma kernel_step_live:
  assumes "kernel_step c c'" and "cluster_inv c" and "btree_get (k_leases c) i \<noteq> None" and "i \<in> live c'"
  shows "i \<in> live c"
  using assms
proof (cases rule: kernel_step.cases)
  case (move_step L B)
  with assms(4) move_live show ?thesis by blast
next
  case (new_lease_step l)
  with assms(3,4) show ?thesis by (auto simp: live_iff open_binding_leases_def split: if_splits)
next
  case (new_binding_step b)
  then obtain l where "btree_get (k_leases c) (b_lease b) = Some l" "lease_live_state (l_state l)"
    by (auto simp: binding_admissible_def lease_live_state_def)
  with new_binding_step(1) assms(4) show ?thesis
    by (auto simp: live_iff open_binding_leases_iff split: if_splits)
qed (auto simp: live_def open_binding_leases_def)

lemma step_event_dead:
  assumes "cluster_inv c" and "btree_get (k_leases c) i \<noteq> None" and "i \<notin> live c"
  shows "btree_get (k_leases (step_event e c)) i \<noteq> None \<and> i \<notin> live (step_event e c)"
proof -
  from assms(1) obtain m lg where m: "kernel_step c m" and e: "step_event e c = m\<lparr>k_log := lg\<rparr>"
    by (rule step_event_kernel)
  have "live (step_event e c) = live m" unfolding e by (rule accounts_cong) simp_all
  moreover have "i \<notin> live m" using kernel_step_live [OF m assms(1,2)] assms(3) by blast
  moreover have "btree_get (k_leases m) i \<noteq> None" using kernel_step_leases [OF m, of i] assms(2) by fastforce
  ultimately show ?thesis by (simp add: e)
qed

text \<open>
  Authority that has ended does not come back: a lease of a reachable cluster that no longer occupies
  resources never occupies any again, whatever happens.
\<close>

theorem ended_lease_never_occupies:
  assumes "btree_get (k_leases (cluster_run es)) i \<noteq> None" and "\<not> occupies (cluster_run es) i"
  shows "\<not> occupies (cluster_run (es @ es')) i"
proof -
  let ?P = "\<lambda>c. cluster_inv c \<and> btree_get (k_leases c) i \<noteq> None \<and> i \<notin> live c"
  have "?P (cluster_run es)" using assms cluster_run_inv by (simp add: occupies_iff_live)
  then have "?P (fold step_event es' (cluster_run es))"
    by (induction es' rule: rev_induct) (auto simp: step_event_inv dest: step_event_dead)
  then show ?thesis by (simp add: cluster_run_append occupies_iff_live)
qed

text \<open>
  Enforcement keeps its route: while a lease is live, no event changes the machine that the node of
  one of its claims belongs to, so acknowledgements and fences keep going to the same agent.
\<close>

theorem live_claim_keeps_machine:
  assumes "occupies (cluster_run es) i" and "btree_get (k_leases (cluster_run es)) i = Some l"
    and "cl \<in> set (a_claims (l_allocation l))"
  shows "machine_of (k_graph (cluster_run (es @ [e]))) (c_node cl) = machine_of (k_graph (cluster_run es)) (c_node cl)"
proof -
  obtain m lg where m: "kernel_step (cluster_run es) m" and e: "step_event e (cluster_run es) = m\<lparr>k_log := lg\<rparr>"
    using cluster_run_inv by (rule step_event_kernel)
  have "i \<in> live (cluster_run es)" using assms(1) by (simp add: occupies_iff_live [OF cluster_run_inv])
  then have "machine_of (k_graph m) (c_node cl) = machine_of (k_graph (cluster_run es)) (c_node cl)"
    using assms(2,3) by (rule kernel_step_machine [OF m])
  then show ?thesis by (simp add: cluster_run_snoc e)
qed

section \<open>Counters and states that only move forward\<close>

definition session_rank :: "node_id \<Rightarrow> cluster \<Rightarrow> nat" where
  "session_rank m c = (case btree_get (k_sessions c) m of None \<Rightarrow> 0 | Some s \<Rightarrow> Suc (unat s))"

interpretation sessions: monotone_system step_event cluster_inv "session_rank m" for m
proof unfold_locales
  fix c e
  assume "cluster_inv c"
  then obtain k lg where k: "kernel_step c k" and e: "step_event e c = k\<lparr>k_log := lg\<rparr>"
    by (rule step_event_kernel)
  show "session_rank m c \<le> session_rank m (step_event e c)"
  proof (cases "btree_get (k_sessions c) m")
    case None
    then show ?thesis by (simp add: session_rank_def)
  next
    case (Some s)
    then obtain s' where "btree_get (k_sessions k) m = Some s'" "s \<le> s'"
      using kernel_step_sessions [OF k] by blast
    with Some show ?thesis by (simp add: session_rank_def e word_le_nat_alt)
  qed
qed

text \<open>
  Agent sessions only move forward: once a machine has a session, every later state has one that is
  at least as recent, so a delayed hello of an older agent process is never reinstated.
\<close>

theorem sessions_never_go_back:
  assumes "btree_get (k_sessions (cluster_run es)) m = Some s"
  shows "\<exists>s'. btree_get (k_sessions (cluster_run (es @ es'))) m = Some s' \<and> s \<le> s'"
proof -
  have "session_rank m (cluster_run es) \<le> session_rank m (cluster_run (es @ es'))"
    unfolding cluster_run_append by (rule sessions.counter_run [OF cluster_run_inv])
  with assms show ?thesis
    by (auto simp: session_rank_def word_le_nat_alt split: option.splits)
qed

text \<open>
  Retirement is final: a node that has been retired stays retired.
\<close>

theorem retired_stays_retired:
  assumes "btree_get (k_node_states (cluster_run es)) n = Some Retired"
  shows "btree_get (k_node_states (cluster_run (es @ es'))) n = Some Retired"
proof -
  have step: "btree_get (k_node_states (step_event e c)) n = Some Retired"
    if "cluster_inv c" and "btree_get (k_node_states c) n = Some Retired" for e c
  proof -
    from that(1) obtain m lg where "kernel_step c m" and "step_event e c = m\<lparr>k_log := lg\<rparr>"
      by (rule step_event_kernel)
    with kernel_step_retired [OF _ that(2)] show ?thesis by simp
  qed
  show ?thesis
    unfolding cluster_run_append
    using ci.inv_run [OF cluster_run_inv] assms step
    by (induction es' rule: rev_induct) auto
qed

section \<open>Witnesses\<close>

lemma accepted:
  assumes "is_ok (snd (cluster_apply c cmd))"
  obtains c' effects where "cluster_apply c cmd = (c', Ok effects)"
  using assms by (cases "cluster_apply c cmd"; cases "snd (cluster_apply c cmd)") simp_all

lemma refused:
  assumes "\<not> is_ok (snd (cluster_apply c cmd))"
  obtains c' e where "cluster_apply c cmd = (c', Err e)"
  using assms by (cases "cluster_apply c cmd"; cases "snd (cluster_apply c cmd)") simp_all

lemma sample_lease:
  obtains l where "btree_get (k_leases (cluster_run sample_run)) 10 = Some l" and "l_state l = LActive"
    and "\<lparr>c_node = 2, c_quantity = qty Count 2\<rparr> \<in> set (a_claims (l_allocation l))"
proof -
  have "map_option (\<lambda>l. (l_state l, \<lparr>c_node = 2, c_quantity = qty Count 2\<rparr> \<in> set (a_claims (l_allocation l))))
      (btree_get (k_leases (cluster_run sample_run)) 10) = Some (LActive, True)"
    by code_simp
  then show ?thesis using that by auto
qed

lemma sample_binding:
  obtains b where "btree_get (k_bindings (cluster_run sample_run)) 20 = Some b" and "b_state b = BActive"
    and "b_scope b = Exclusive"
proof -
  have "map_option (\<lambda>b. (b_state b, b_scope b)) (btree_get (k_bindings (cluster_run sample_run)) 20) =
      Some (BActive, Exclusive)"
    by code_simp
  then show ?thesis using that by auto
qed

lemma exclusive_endpoint_single_witness:
  "\<exists>b. btree_get (k_bindings (cluster_run sample_run)) 20 = Some b \<and> b_scope b = Exclusive \<and>
     \<not> (\<exists>j b'. btree_get (k_bindings (cluster_run sample_run)) j = Some b' \<and> \<not> is_closed (b_state b') \<and>
        b_provider b' = b_provider b \<and> b_node b' = b_node b \<and> j \<noteq> 20)"
proof -
  obtain b where b: "btree_get (k_bindings (cluster_run sample_run)) 20 = Some b" "b_state b = BActive" "b_scope b = Exclusive"
    by (rule sample_binding)
  have "j = 20" if "btree_get (k_bindings (cluster_run sample_run)) j = Some b'" "\<not> is_closed (b_state b')"
      "b_provider b' = b_provider b" "b_node b' = b_node b" for j b'
    using exclusive_endpoint_single [OF b(1) that(1) _ that(2) that(3) [symmetric] that(4) [symmetric] b(3)]
    by (simp add: b(2) is_closed_def)
  with b(1,3) show ?thesis by blast
qed

lemma rejected_command_changes_nothing_witness:
  "fst (cluster_apply (cluster_run sample_run) (ReserveLease 11 1 sample_alloc 100 0)) = cluster_run sample_run"
proof -
  have "\<not> is_ok (snd (cluster_apply (cluster_run sample_run) (ReserveLease 11 1 sample_alloc 100 0)))" by code_simp
  then obtain c' e where r: "cluster_apply (cluster_run sample_run) (ReserveLease 11 1 sample_alloc 100 0) = (c', Err e)"
    by (rule refused)
  from rejected_command_changes_nothing [OF r] r show ?thesis by simp
qed

lemma commands_refine_spec_witness:
  "\<exists>m. kernel_step (cluster_run sample_run) m \<and>
     fst (cluster_apply (cluster_run sample_run) (RevokeLease 10)) = m\<lparr>k_log := k_log m @ [RevokeLease 10]\<rparr>"
proof -
  have "is_ok (snd (cluster_apply (cluster_run sample_run) (RevokeLease 10)))" by code_simp
  then obtain c' effects where r: "cluster_apply (cluster_run sample_run) (RevokeLease 10) = (c', Ok effects)"
    by (rule accepted)
  from commands_refine_spec [OF r] r show ?thesis by simp
qed

lemma lease_life_cycle_witness:
  "\<exists>l'. btree_get (k_leases (cluster_run (sample_run @ [EvApply (RevokeLease 10)]))) 10 = Some l' \<and>
     lease_moves LActive (l_state l')"
proof -
  obtain l where "btree_get (k_leases (cluster_run sample_run)) 10 = Some l" "l_state l = LActive" by (rule sample_lease)
  with lease_life_cycle [of sample_run 10 l "EvApply (RevokeLease 10)"] show ?thesis by auto
qed

lemma binding_life_cycle_witness:
  "\<exists>b'. btree_get (k_bindings (cluster_run (sample_run @ [EvApply (RevokeLease 10)]))) 20 = Some b' \<and>
     binding_moves BActive (b_state b')"
proof -
  obtain b where "btree_get (k_bindings (cluster_run sample_run)) 20 = Some b" "b_state b = BActive" by (rule sample_binding)
  with binding_life_cycle [of sample_run 20 b "EvApply (RevokeLease 10)"] show ?thesis by auto
qed

lemma ended_lease_never_occupies_witness:
  "\<not> occupies (cluster_run ((sample_setup @ [EvApply (RevokeLease 10)]) @ sample_prepare)) 10"
proof -
  have "btree_get (k_leases (cluster_run (sample_setup @ [EvApply (RevokeLease 10)]))) 10 \<noteq> None \<and>
      \<not> occupies (cluster_run (sample_setup @ [EvApply (RevokeLease 10)])) 10"
    by code_simp
  then show ?thesis using ended_lease_never_occupies by blast
qed

lemma live_claim_keeps_machine_witness:
  "machine_of (k_graph (cluster_run (sample_run @ [EvApply (ApplyGraph [] [])]))) 2 = machine_of (k_graph (cluster_run sample_run)) 2"
proof -
  obtain l where "btree_get (k_leases (cluster_run sample_run)) 10 = Some l"
      "\<lparr>c_node = 2, c_quantity = qty Count 2\<rparr> \<in> set (a_claims (l_allocation l))" by (rule sample_lease)
  moreover have "occupies (cluster_run sample_run) 10" by code_simp
  ultimately show ?thesis using live_claim_keeps_machine by fastforce
qed

lemma sessions_never_go_back_witness:
  "\<exists>s'. btree_get (k_sessions (cluster_run (sample_setup @ [EvApply (SetAgentSession 1 4)]))) 1 = Some s' \<and> 5 \<le> s'"
proof -
  have "btree_get (k_sessions (cluster_run sample_setup)) 1 = Some 5" by code_simp
  then show ?thesis by (rule sessions_never_go_back)
qed

lemma retired_stays_retired_witness:
  "btree_get (k_node_states (cluster_run ((sample_setup @ map EvApply [RevokeLease 10, SetNodeState 2 Retired]) @
     [EvApply (SetNodeState 2 Schedulable)]))) 2 = Some Retired"
proof -
  have "btree_get (k_node_states (cluster_run (sample_setup @ map EvApply [RevokeLease 10, SetNodeState 2 Retired]))) 2 =
      Some Retired"
    by code_simp
  then show ?thesis by (rule retired_stays_retired)
qed

end
