(* ===== verification/Cluster_Commands.thy ===== *)
theory Cluster_Commands
  imports Cluster_Runs
begin

text \<open>
  What single commands guarantee: the guards an accepted command has passed, what a retry does, the
  fences a terminated lease gets, and the fences of exclusive endpoints. The rewrite rules
  \<open>op_simps\<close> turn "the operation returned \<open>Ok\<close>" into its path through the source.
\<close>

named_theorems op_simps \<open>an operation that succeeded took this path\<close>

lemma on_ok_Ok [op_simps]: "on_ok r c k = (c', Ok y) \<longleftrightarrow> (\<exists>x. r = Ok x \<and> k x = (c', Ok y))"
  by (cases r) auto

lemma unless_error_Ok [op_simps]: "unless_error o1 c k = (c', Ok y) \<longleftrightarrow> o1 = None \<and> k = (c', Ok y)"
  by (cases o1) auto

lemma cluster_apply_Ok [op_simps]:
  "cluster_apply c cmd = (c', Ok effects) \<longleftrightarrow>
     (\<exists>m. dispatch c cmd = (m, Ok effects) \<and> c' = m\<lparr>k_log := k_log m @ [cmd]\<rparr>)"
  by (auto simp: cluster_apply_def split: prod.splits result.splits)

section \<open>Acknowledgements\<close>

text \<open>The binding, session and fence an acknowledgement names.\<close>

fun ack_of :: "command \<Rightarrow> (binding_id \<times> u64 \<times> u64) option" where
  "ack_of (RecordBindingPrepared i session handle fence) = Some (i, session, fence)"
| "ack_of (RecordBindingActive i session fence) = Some (i, session, fence)"
| "ack_of (RecordBindingReleased i session fence) = Some (i, session, fence)"
| "ack_of (RecordBindingFenced i session fence) = Some (i, session, fence)"
| "ack_of (RecordBindingFailed i session reason fence) = Some (i, session, fence)"
| "ack_of _ = None"

lemma require_session_Ok [op_simps]:
  "require_session c n s = Ok m \<longleftrightarrow> machine_of (k_graph c) n = Some m \<and> btree_get (k_sessions c) m = Some s"
  by (auto simp: require_session_def and_then_eq_Ok split: if_splits)

lemma require_fence_Ok [op_simps]: "require_fence i expected got = Ok u \<longleftrightarrow> got = expected"
  by (auto simp: require_fence_def)

text \<open>
  Acknowledgements are accepted only from the current agent process and for the current
  generation: the session is the one of the machine that holds the binding's node, the fence is the one the
  binding was opened with.
\<close>

theorem ack_from_current_agent:
  assumes "cluster_apply c cmd = (c', Ok effects)" and "ack_of cmd = Some (i, session, fence)"
  shows "\<exists>b m. btree_get (k_bindings c) i = Some b \<and> fence = b_fence b \<and>
    machine_of (k_graph c) (b_node b) = Some m \<and> btree_get (k_sessions c) m = Some session"
  using assms
  by (cases cmd) (auto simp: op_simps record_prepared_def record_active_def record_released_def
      record_fenced_def record_failed_def Let_def)

section \<open>Activation\<close>

text \<open>
  A lease becomes active only when everything it needs is in place: it was preparing against the current
  graph revision, neither its lifetime nor its preparation deadline has passed (unless history is being
  replayed), none of its nodes is blocked, its parent is active, and if it is a top-level lease every
  claim has a binding that the provider reported as prepared.
\<close>

theorem activation_guards:
  assumes "cluster_apply c (ActivateLease i) = (c', Ok effects)"
    and "btree_get (k_leases c) i = Some l" and "l_state l \<noteq> LActive"
  shows "l_state l = LPreparing \<and> k_agreed c \<and> a_graph_revision (l_allocation l) = g_revision (k_graph c) \<and>
    (\<not> k_replaying c \<longrightarrow> k_now c < l_expires_at l \<and> k_now c \<le> l_prepare_deadline l) \<and>
    (\<forall>cl\<in>set (a_claims (l_allocation l)). \<not> node_quarantined c (c_node cl)) \<and>
    (\<forall>p. l_parent l = Some p \<longrightarrow> (\<exists>pl. btree_get (k_leases c) p = Some pl \<and> l_state pl = LActive)) \<and>
    (l_parent l = None \<longrightarrow> (\<forall>cl\<in>set (a_claims (l_allocation l)). \<exists>k b. btree_get (k_bindings c) k = Some b \<and>
       b_lease b = i \<and> b_node b = c_node cl \<and> b_state b = BPreparing \<and> b_provider_handle b \<noteq> None)) \<and>
    btree_get (k_leases c') i = Some (l\<lparr>l_state := LActive\<rparr>)"
proof -
  from assms obtain m where "activate_lease c i = (m, Ok effects)" and c': "k_leases c' = k_leases m"
    by (auto simp: op_simps)
  with assms(2,3) have "l_state l = LPreparing" "k_agreed c"
      "a_graph_revision (l_allocation l) = g_revision (k_graph c)"
      and q: "quarantined_claim c (a_claims (l_allocation l)) = None"
      and time: "\<not> (\<not> k_replaying c \<and> k_now c \<ge> l_expires_at l)" "\<not> (\<not> k_replaying c \<and> k_now c > l_prepare_deadline l)"
      and parent: "\<And>p. l_parent l = Some p \<Longrightarrow> \<exists>pl. btree_get (k_leases c) p = Some pl \<and> l_state pl = LActive"
      and claims: "l_parent l = None \<Longrightarrow> list_all (claim_prepared c i) (a_claims (l_allocation l))"
      and m: "m = c\<lparr>k_leases := btree_modify i (\<lambda>l. l\<lparr>l_state := LActive\<rparr>) (k_leases c)\<rparr>"
    by (auto simp: activate_lease_def Let_def op_simps split: if_splits option.splits)
  moreover have "\<forall>cl\<in>set (a_claims (l_allocation l)). \<not> node_quarantined c (c_node cl)"
    using q by (auto simp: quarantined_claim_def split: if_splits)
  moreover have "\<exists>k b. btree_get (k_bindings c) k = Some b \<and> b_lease b = i \<and> b_node b = c_node cl \<and>
      b_state b = BPreparing \<and> b_provider_handle b \<noteq> None"
    if "l_parent l = None" and "cl \<in> set (a_claims (l_allocation l))" for cl
    using claims [OF that(1)] that(2)
    by (fastforce simp: list_all_iff claim_prepared_def list_ex_iff binding_prepared_def)
  moreover have "btree_get (k_leases c') i = Some (l\<lparr>l_state := LActive\<rparr>)"
    using assms(2) by (simp add: c' m)
  ultimately show ?thesis by auto
qed

section \<open>New leases\<close>

lemma quarantined_claim_None:
  "quarantined_claim c claims = None \<longleftrightarrow> (\<forall>cl\<in>set claims. \<not> node_quarantined c (c_node cl))"
  by (auto simp: quarantined_claim_def split: if_splits)

lemma node_quarantined_iff:
  "\<not> node_quarantined c n \<longleftrightarrow>
     (\<forall>a\<in>insert n (set (ancestors (k_graph c) n)). \<forall>s. btree_get (k_node_states c) a = Some s \<longrightarrow> s = Schedulable)"
  by (auto simp: node_quarantined_def list_ex_iff is_schedulable_def split: option.splits)

definition creates_lease :: "command \<Rightarrow> lease_id \<Rightarrow> bool" where
  "creates_lease cmd i =
     (case cmd of
        ReserveLease j owner alloc expires_at priority \<Rightarrow> j = i
      | OpenLease j owner alloc parent expires_at prepare_deadline priority \<Rightarrow> j = i
      | _ \<Rightarrow> False)"

text \<open>
  New authority avoids blocked resources: when a command creates a lease, the cluster is in
  agreement, and neither a claimed node nor any of its containers is joining, draining, unavailable,
  quarantined or retired.
\<close>

theorem new_lease_avoids_blocked:
  assumes "cluster_apply c cmd = (c', Ok effects)" and "creates_lease cmd i" and "btree_get (k_leases c) i = None"
  shows "\<exists>l. btree_get (k_leases c') i = Some l \<and> k_agreed c \<and>
    (\<forall>cl\<in>set (a_claims (l_allocation l)). \<forall>a\<in>insert (c_node cl) (set (ancestors (k_graph c) (c_node cl))).
       \<forall>s. btree_get (k_node_states c) a = Some s \<longrightarrow> s = Schedulable)"
proof -
  from assms(2) consider owner alloc t p where "cmd = ReserveLease i owner alloc t p"
    | owner alloc parent t d p where "cmd = OpenLease i owner alloc parent t d p"
    by (auto simp: creates_lease_def split: command.splits)
  then have "\<exists>l. btree_get (k_leases c') i = Some l \<and> k_agreed c \<and>
      (\<forall>cl\<in>set (a_claims (l_allocation l)). \<not> node_quarantined c (c_node cl))"
  proof cases
    case 1
    with assms(1,3) show ?thesis
      by (auto simp: op_simps reserve_lease_def quarantined_claim_None split: if_splits)
  next
    case 2
    with assms(1,3) show ?thesis
      by (auto simp: op_simps open_lease_def quarantined_claim_None split: if_splits)
  qed
  then show ?thesis unfolding node_quarantined_iff .
qed

section \<open>Termination\<close>

text \<open>The lease a command terminates together with its descendants.\<close>

fun terminates :: "command \<Rightarrow> lease_id option" where
  "terminates (FailLease i reason) = Some i"
| "terminates (RevokeLease i) = Some i"
| "terminates (ExpireLease i) = Some i"
| "terminates (CompleteLease i code) = Some i"
| "terminates _ = None"

lemma fence_effects_cong:
  assumes "k_bindings c' = k_bindings c" and "k_graph c' = k_graph c" and "k_sessions c' = k_sessions c"
    and "k_epoch c' = k_epoch c"
  shows "fence_effects c' i = fence_effects c i"
  unfolding fence_effects_def binding_effect_def assms ..

lemma terminate_outcome:
  assumes inv: "cluster_inv c" and out: "dispatch c cmd = (m, Ok effects)" and ends: "terminates cmd = Some i"
    and get: "btree_get (k_leases c) i = Some l" and state: "lease_live_state (l_state l)"
  shows "(\<forall>j\<in>insert i (set (descendants_postorder c i)). \<forall>l'. btree_get (k_leases m) j = Some l' \<longrightarrow>
       \<not> lease_live_state (l_state l')) \<and> set (fence_effects c i) \<subseteq> set effects"
proof -
  note ok = cluster_inv_parts [OF inv]
  have done1: ?thesis
    if L: "leases_ended kept final (set (descendants_postorder c i)) (k_leases c) L"
      and m: "m = c\<lparr>k_leases := btree_insert i l' L\<rparr>" and eff: "effects = pre @ fence_effects m i"
      and fin: "\<And>l. \<not> lease_live_state (l_state (ended kept final l))" and l': "\<not> lease_live_state (l_state l')"
    for kept final L l' pre
  proof -
    have "fence_effects m i = fence_effects c i" by (rule fence_effects_cong) (simp_all add: m)
    moreover have "\<not> lease_live_state (l_state x)"
      if "j = i \<or> j \<in> set (descendants_postorder c i)" "btree_get (k_leases m) j = Some x" for j x
      using that L l' fin by (auto simp: m leases_ended_def split: if_splits)
    ultimately show ?thesis by (auto simp: eff)
  qed
  have closed: "\<not> lease_live_state (l_state (ended closed_states final l))"
    if "final = LFailed \<or> final = LRevoked \<or> final = LExpired" for final l
    using ended_closed [OF that] by simp
  have dead: "l_state l \<notin> set closed_states" using state by (auto simp: closed_states_def lease_live_state_def)
  from ends consider reason where "cmd = FailLease i reason" | "cmd = RevokeLease i" | "cmd = ExpireLease i"
    | code where "cmd = CompleteLease i code" by (cases cmd) auto
  then show ?thesis
  proof cases
    case 1
    obtain L pre where run: "end_descendants closed_states LFailed (descendants_postorder c i) c = (c\<lparr>k_leases := L\<rparr>, pre)"
        and L: "leases_ended closed_states LFailed (set (descendants_postorder c i)) (k_leases c) L"
      using end_descendants_leases by blast
    have "btree_get L i = Some l" using leases_ended_self [OF ok(2) L] get by simp
    with out 1 dead have "m = c\<lparr>k_leases := btree_insert i (l\<lparr>l_state := LFailed\<rparr>) L\<rparr>"
        "effects = pre @ fence_effects m i"
      by (auto simp: fail_lease_def run Let_def)
    with L closed show ?thesis by (intro done1) (auto simp: lease_live_state_def)
  next
    case 2
    obtain L pre where run: "fold (\<lambda>d (c, effects).
         case btree_get (k_leases c) d of
           None \<Rightarrow> (c, effects)
         | Some l \<Rightarrow> let c' = end_lease closed_states LRevoked d c in (c', effects @ fence_effects c' d))
       (descendants_postorder c i) (c, []) = (c\<lparr>k_leases := L\<rparr>, pre)"
        and L: "leases_ended closed_states LRevoked (set (descendants_postorder c i)) (k_leases c) L"
      using revoke_loop_leases by blast
    have "btree_get L i = Some l" using leases_ended_self [OF ok(2) L] get by simp
    moreover have "revoke_lease c i = (m, Ok effects)" using out 2 by simp
    ultimately have "m = c\<lparr>k_leases := btree_insert i (ended closed_states LRevoked l) L\<rparr>"
        "effects = pre @ fence_effects m i"
      unfolding revoke_lease_def run by (auto simp: Let_def end_lease_ended btree_modify_Some)
    with L closed show ?thesis by (intro done1) auto
  next
    case 3
    obtain L pre where run: "end_descendants closed_states LExpired (descendants_postorder c i) c = (c\<lparr>k_leases := L\<rparr>, pre)"
        and L: "leases_ended closed_states LExpired (set (descendants_postorder c i)) (k_leases c) L"
      using end_descendants_leases by blast
    have "btree_get L i = Some l" using leases_ended_self [OF ok(2) L] get by simp
    with out 3 get state have "m = c\<lparr>k_leases := btree_insert i (l\<lparr>l_state := LExpired\<rparr>) L\<rparr>"
        "effects = pre @ fence_effects m i"
      by (auto simp: expire_lease_def run Let_def lease_live_state_def split: if_splits)
    with L closed show ?thesis by (intro done1) (auto simp: lease_live_state_def)
  next
    case 4
    let ?final = "if code = 0 then LCompleted else LFailed"
    obtain L pre where run: "end_descendants (closed_states @ [LCompleted]) ?final (descendants_postorder c i) c =
          (c\<lparr>k_leases := L\<rparr>, pre)"
        and L: "leases_ended (closed_states @ [LCompleted]) ?final (set (descendants_postorder c i)) (k_leases c) L"
      using end_descendants_leases by blast
    have "btree_get L i = Some l" using leases_ended_self [OF ok(2) L] get by simp
    moreover have "complete_lease c i code = (m, Ok effects)" using out 4 by simp
    ultimately have "m = c\<lparr>k_leases := btree_insert i (l\<lparr>l_state := ?final, l_exit_code := Some code\<rparr>) L\<rparr>"
        "effects = pre @ fence_effects m i"
      using get state unfolding complete_lease_def Let_def run by (auto simp: lease_live_state_def split: if_splits)
    moreover have "\<not> lease_live_state (l_state (ended (closed_states @ [LCompleted]) ?final l))" for l
      using ended_completed [of ?final l] by auto
    ultimately show ?thesis using L by (intro done1) (auto simp: lease_live_state_def split: if_splits)
  qed
qed

text \<open>
  C26. Termination is complete: when a live lease fails, is revoked, expires or completes, neither it nor any
  of its descendants keeps a live state, and for every binding of the lease that is still open the command
  emits a fence that carries the binding's own generation.
\<close>

theorem termination_is_complete:
  assumes "cluster_apply (cluster_run es) cmd = (c', Ok effects)" and "terminates cmd = Some i"
    and "btree_get (k_leases (cluster_run es)) i = Some l" and "lease_live_state (l_state l)"
  shows "(\<forall>j\<in>insert i (set (descendants_postorder (cluster_run es) i)). \<forall>l'. btree_get (k_leases c') j = Some l' \<longrightarrow>
       \<not> lease_live_state (l_state l')) \<and>
    (\<forall>k b. btree_get (k_bindings (cluster_run es)) k = Some b \<longrightarrow> b_lease b = i \<longrightarrow> \<not> is_closed (b_state b) \<longrightarrow>
       (\<exists>session. EffFence k (b_node b) (b_provider b) (b_fence b) session (k_epoch (cluster_run es)) \<in> set effects))"
proof -
  from assms(1) obtain m where m: "dispatch (cluster_run es) cmd = (m, Ok effects)" and c': "k_leases c' = k_leases m"
    by (auto simp: op_simps)
  note out = terminate_outcome [OF cluster_run_inv m assms(2-4)]
  have "\<exists>session. EffFence k (b_node b) (b_provider b) (b_fence b) session (k_epoch (cluster_run es)) \<in> set effects"
    if b: "btree_get (k_bindings (cluster_run es)) k = Some b" "b_lease b = i" "\<not> is_closed (b_state b)" for k b
  proof -
    have "b_id b = k"
      using cluster_inv_parts(4) [OF cluster_run_inv, of es] b(1) by (simp add: bindings_ok_def)
    moreover have "binding_effect (cluster_run es) b EffFence \<in> set (fence_effects (cluster_run es) i)"
      using b by (auto simp: fence_effects_def)
    ultimately show ?thesis using out by (auto simp: binding_effect_def Let_def)
  qed
  with out show ?thesis by (simp add: c')
qed

text \<open>
  Time guards: an accepted expiry of a live lease means that its expiry time has come, an accepted
  renewal moves the expiry time strictly forward and past the current time, unless it repeats the one in
  force (history replay excepted).
\<close>

theorem time_guards:
  assumes "\<not> k_replaying c" and "btree_get (k_leases c) i = Some l"
  shows "(cluster_apply c (ExpireLease i) = (c1, Ok e1) \<longrightarrow> lease_live_state (l_state l) \<longrightarrow> l_expires_at l \<le> k_now c) \<and>
    (cluster_apply c (RenewLease i t) = (c2, Ok e2) \<longrightarrow>
       t = l_expires_at l \<or> (l_expires_at l < t \<and> k_now c < t)) \<and>
    (cluster_apply c (RenewLease i t) = (c2, Ok e2) \<longrightarrow>
       btree_get (k_leases c2) i = Some (l\<lparr>l_expires_at := t\<rparr>))"
  using assms
  by (auto simp: op_simps expire_lease_def renew_lease_def Let_def lease_live_state_def split: if_splits)

section \<open>Nodes\<close>

text \<open>
  Node state changes respect live authority: a node is retired only when no live lease claims it or
  anything below it and no binding there is open; a blocked node that was not draining is made
  schedulable only when every binding on it or below it is closed.
\<close>

theorem node_state_guards:
  assumes "cluster_apply (cluster_run es) (SetNodeState n s) = (c', Ok effects)"
  shows "(s = Retired \<longrightarrow> (\<forall>i l cl. occupies (cluster_run es) i \<longrightarrow> btree_get (k_leases (cluster_run es)) i = Some l \<longrightarrow>
       cl \<in> set (a_claims (l_allocation l)) \<longrightarrow> \<not> in_scope (cluster_run es) n (c_node cl))) \<and>
    (s = Retired \<or> (s = Schedulable \<and> btree_get_or Schedulable (k_node_states (cluster_run es)) n \<notin> {Schedulable, Draining}) \<longrightarrow>
      (\<forall>k b. btree_get (k_bindings (cluster_run es)) k = Some b \<longrightarrow> in_scope (cluster_run es) n (b_node b) \<longrightarrow>
        is_closed (b_state b)))"
proof -
  let ?c = "cluster_run es"
  obtain current where current: "node_state_of ?c n = Some current"
      and busy: "\<not> (s = Schedulable \<and> current \<noteq> Schedulable \<and> current \<noteq> Draining \<and>
        list_ex (\<lambda>b. \<not> is_closed (b_state b) \<and> in_scope ?c n (b_node b)) (btree_values (k_bindings ?c)))"
      and live: "\<not> (s = Retired \<and> node_has_live_authority ?c n)"
    using assms by (auto simp: op_simps set_node_state_def split: option.splits if_splits)
  have "current = btree_get_or Schedulable (k_node_states ?c) n"
    using current by (auto simp: node_state_of_def)
  moreover have "l_id l = i" if "btree_get (k_leases ?c) i = Some l" for i l
    using that by (rule ids_okD [OF cluster_inv_parts(6) [OF cluster_run_inv]])
  ultimately show ?thesis
    using busy live unfolding node_has_live_authority_def list_ex_iff by (fastforce simp: Bex_def)
qed

section \<open>Fences of exclusive endpoints\<close>

definition watermark :: "cluster \<Rightarrow> provider_id \<Rightarrow> node_id \<Rightarrow> u64" where
  "watermark c p n = btree_get_or 0 (k_last_fence c) (p, n)"

text \<open>The generation of a binding: scope, endpoint and fence.\<close>

definition generation :: "cluster \<Rightarrow> binding_id \<Rightarrow> (binding_scope \<times> provider_id \<times> node_id \<times> u64) option" where
  "generation c i = map_option (\<lambda>b. (b_scope b, b_provider b, b_node b, b_fence b)) (btree_get (k_bindings c) i)"

definition fences_ok :: "cluster \<Rightarrow> bool" where
  "fences_ok c \<longleftrightarrow>
     (\<forall>i p n f. generation c i = Some (Exclusive, p, n, f) \<longrightarrow> f \<le> watermark c p n) \<and>
     (\<forall>i j p n f. generation c i = Some (Exclusive, p, n, f) \<longrightarrow> generation c j = Some (Exclusive, p, n, f) \<longrightarrow> i = j)"

lemma word_less_plus_one:
  fixes w :: u64
  assumes "w \<noteq> - 1"
  shows "w < w + 1"
proof -
  have "unat (- 1 :: u64) = 2 ^ 64 - 1" by (simp add: unsigned_minus_1_eq_mask mask_eq_exp_minus_1)
  moreover have "unat w \<noteq> unat (- 1 :: u64)" using assms unsigned_word_eqI [of w "- 1", where 'a = nat] by blast
  ultimately have "unat w + unat (1 :: u64) < 2 ^ LENGTH(64)"
    using unat_bound [of w] by (simp only: unsigned_1 len_of_numeral_defs) simp
  then have "unat (w + 1) = unat w + unat (1 :: u64)" by (rule unat_add_no_overflow)
  then show ?thesis by (simp add: word_less_nat_alt)
qed

lemma fences_ok_mono:
  assumes "fences_ok c" and "generation c' = generation c" and "\<And>p n. watermark c p n \<le> watermark c' p n"
  shows "fences_ok c'"
  unfolding fences_ok_def assms(2)
proof (intro conjI allI impI)
  fix i p n f
  assume "generation c i = Some (Exclusive, p, n, f)"
  with assms(1) have "f \<le> watermark c p n" unfolding fences_ok_def by blast
  also have "\<dots> \<le> watermark c' p n" by (rule assms(3))
  finally show "f \<le> watermark c' p n" .
next
  fix i j p n f
  assume "generation c i = Some (Exclusive, p, n, f)" "generation c j = Some (Exclusive, p, n, f)"
  with assms(1) show "i = j" unfolding fences_ok_def by blast
qed

lemma fences_ok_cong:
  assumes "k_bindings c' = k_bindings c" and "k_last_fence c' = k_last_fence c"
  shows "fences_ok c' = fences_ok c"
proof -
  have "generation c' = generation c" by (rule ext) (simp add: generation_def assms)
  moreover have "watermark c' = watermark c" by (intro ext) (simp add: watermark_def assms)
  ultimately show ?thesis by (simp only: fences_ok_def)
qed

lemma kernel_step_fences:
  assumes "kernel_step c c'" and "fences_ok c" and "\<And>p n. watermark c p n \<noteq> - 1"
  shows "fences_ok c'"
  using assms(1)
proof (cases rule: kernel_step.cases)
  case (move_step L B)
  have "map_option (\<lambda>b. (b_scope b, b_provider b, b_node b, b_fence b)) y =
      map_option (\<lambda>b. (b_scope b, b_provider b, b_node b, b_fence b)) x"
    if "rel_option binding_next x y" for x y
    using that by (cases x; cases y) (simp_all add: binding_next_def)
  then have "generation c' = generation c"
    using move_step(3) by (intro ext) (simp add: generation_def move_step(1))
  with assms(2) show ?thesis by (rule fences_ok_mono) (simp add: watermark_def move_step(1))
next
  case (new_binding_step b)
  let ?old = "watermark c (b_provider b) (b_node b)"
  have gen: "generation c' i = (if i = b_id b then Some (b_scope b, b_provider b, b_node b, b_fence b)
      else generation c i)" for i
    by (simp add: generation_def new_binding_step(1))
  show ?thesis
  proof (cases "b_scope b")
    case Exclusive
    then have fence: "b_fence b = ?old + 1"
      using new_binding_step(3) by (simp add: binding_admissible_def watermark_def)
    then have less: "?old < b_fence b" using assms(3) by (simp add: word_less_plus_one)
    have wm: "watermark c' p n = (if (p, n) = (b_provider b, b_node b) then b_fence b else watermark c p n)" for p n
      using Exclusive by (simp add: watermark_def new_binding_step(1) advance_fences_def)
    have old: "f \<le> watermark c p n" if "generation c j = Some (Exclusive, p, n, f)" for j p n f
      using that assms(2) unfolding fences_ok_def by blast
    have fresh: "generation c j \<noteq> Some (Exclusive, b_provider b, b_node b, b_fence b)" for j
      using old [of j] less by auto
    show ?thesis
      unfolding fences_ok_def
    proof (intro conjI allI impI)
      fix i p n f
      assume "generation c' i = Some (Exclusive, p, n, f)"
      then show "f \<le> watermark c' p n"
        using old [of i p n f] less by (auto simp: gen wm split: if_splits)
    next
      fix i j p n f
      assume i: "generation c' i = Some (Exclusive, p, n, f)" and j: "generation c' j = Some (Exclusive, p, n, f)"
      then show "i = j"
        using fresh [of i] fresh [of j] assms(2) unfolding fences_ok_def gen
        by (cases "i = b_id b"; cases "j = b_id b") auto
    qed
  next
    case IndependentShare
    then have "watermark c' = watermark c"
      by (simp add: fun_eq_iff watermark_def new_binding_step(1) advance_fences_def)
    then show ?thesis
      using assms(2) IndependentShare unfolding fences_ok_def gen by (auto split: if_splits)
  qed
next
  case (fence_step k fence)
  have "generation c' = generation c" by (rule ext) (simp add: generation_def fence_step(1))
  moreover have "watermark c p n \<le> watermark c' p n" for p n
  proof -
    have "watermark c' p n = (if (p, n) = k then fence else watermark c p n)"
      by (simp add: watermark_def fence_step(1))
    moreover have "watermark c p n \<le> fence" if "(p, n) = k"
      using fence_step(2) that by (simp only: watermark_def)
    ultimately show ?thesis by simp
  qed
  ultimately show ?thesis by (rule fences_ok_mono [OF assms(2)])
qed (use assms(2) fences_ok_cong [of c' c] in simp_all)

text \<open>
  C25. Fences identify generations: as long as no fence watermark reaches the largest 64-bit value,
  two different exclusive bindings on the same endpoint never carry the same fence, whether they are
  open or closed, and no fence exceeds the watermark the next one has to pass.
\<close>

theorem exclusive_fences_unique:
  assumes "\<forall>k<length es. \<forall>p n. watermark (cluster_run (take k es)) p n \<noteq> - 1"
  shows "(generation (cluster_run es) i = Some (Exclusive, p, n, f) \<longrightarrow> f \<le> watermark (cluster_run es) p n) \<and>
    (generation (cluster_run es) i = Some (Exclusive, p, n, f) \<longrightarrow>
     generation (cluster_run es) j = Some (Exclusive, p, n, f) \<longrightarrow> i = j)"
proof -
  have "fences_ok (cluster_run es)"
    using assms
  proof (induction es rule: rev_induct)
    case Nil
    then show ?case by (simp add: cluster_run_def cluster_new_def fences_ok_def generation_def)
  next
    case (snoc e es)
    then have wm: "\<forall>k\<le>length es. \<forall>p n. watermark (cluster_run (take k (es @ [e]))) p n \<noteq> - 1" by simp
    have "\<forall>k<length es. \<forall>p n. watermark (cluster_run (take k es)) p n \<noteq> - 1"
    proof (intro allI impI)
      fix k p n
      assume "k < length es"
      with wm [rule_format, of k p n] show "watermark (cluster_run (take k es)) p n \<noteq> - 1" by simp
    qed
    then have ok: "fences_ok (cluster_run es)" by (rule snoc.IH)
    have below: "watermark (cluster_run es) p n \<noteq> - 1" for p n
      using wm [rule_format, of "length es" p n] by simp
    obtain m lg where m: "kernel_step (cluster_run es) m" and e: "step_event e (cluster_run es) = m\<lparr>k_log := lg\<rparr>"
      using cluster_run_inv by (rule step_event_kernel)
    have "fences_ok m" using m ok below by (rule kernel_step_fences)
    then show ?case using fences_ok_cong [of "m\<lparr>k_log := lg\<rparr>" m] by (simp add: cluster_run_snoc e)
  qed
  then have "f \<le> watermark (cluster_run es) p n" if "generation (cluster_run es) i = Some (Exclusive, p, n, f)"
    using that unfolding fences_ok_def by blast
  moreover have "i = j" if "generation (cluster_run es) i = Some (Exclusive, p, n, f)"
      and "generation (cluster_run es) j = Some (Exclusive, p, n, f)"
    using \<open>fences_ok (cluster_run es)\<close> that unfolding fences_ok_def by blast
  ultimately show ?thesis by blast
qed

section \<open>Retries\<close>

lemma resolve_claims_explicit:
  assumes "resolve_claims g claims = Ok out" and "\<forall>cl\<in>set claims. \<not> btree_is_empty (c_quantity cl)"
  shows "out = claims"
proof -
  let ?step = "\<lambda>cl (out, seen). if c_node cl \<in> seen then Err (DuplicateClaim (c_node cl))
          else and_then (resolve_claim g cl) (\<lambda>r. Ok (out @ [r], insert (c_node cl) seen))"
  have "o2 = o1 @ cls" if "try_fold ?step cls (o1, s1) = Ok (o2, s2)"
      and "\<forall>cl\<in>set cls. \<not> btree_is_empty (c_quantity cl)" for cls o1 s1 o2 s2
    using that
  proof (induction cls arbitrary: o1 s1)
    case Nil
    then show ?case by simp
  next
    case (Cons cl cls)
    then obtain r where r: "resolve_claim g cl = Ok r"
        and rest: "try_fold ?step cls (o1 @ [r], insert (c_node cl) s1) = Ok (o2, s2)"
      by (cases "c_node cl \<in> s1"; cases "resolve_claim g cl") auto
    have "r = cl" using resolve_claim_Ok [OF r] Cons.prems(2) by simp
    with Cons.IH [OF rest] Cons.prems(2) show ?case by simp
  qed
  moreover obtain seen where "try_fold ?step claims ([], {}) = Ok (out, seen)"
    using assms(1) by (auto simp: resolve_claims_def and_then_eq_Ok)
  ultimately show ?thesis using assms(2) by fastforce
qed

text \<open>The commands a client may send again when the reply got lost.\<close>

definition retryable :: "command \<Rightarrow> bool" where
  "retryable cmd =
     (case cmd of
        ReserveLease i owner alloc expires_at priority \<Rightarrow>
          list_all (\<lambda>cl. \<not> btree_is_empty (c_quantity cl)) (a_claims alloc)
      | OpenLease i owner alloc parent expires_at prepare_deadline priority \<Rightarrow>
          list_all (\<lambda>cl. \<not> btree_is_empty (c_quantity cl)) (a_claims alloc)
      | PromoteLease i deadline \<Rightarrow> True
      | ActivateLease i \<Rightarrow> True
      | RenewLease i t \<Rightarrow> True
      | OpenBinding i lease n provider scope \<Rightarrow> True
      | ActivateBinding i \<Rightarrow> True
      | AdvanceEndpointFence n provider fence \<Rightarrow> True
      | _ \<Rightarrow> False)"

lemma retry_reserve:
  assumes "reserve_lease c i owner alloc t p = (m, Ok e1)"
    and "list_all (\<lambda>cl. \<not> btree_is_empty (c_quantity cl)) (a_claims alloc)"
  shows "reserve_lease (m\<lparr>k_log := lg\<rparr>) i owner alloc t p = (m\<lparr>k_log := lg\<rparr>, Ok [])"
proof -
  have "\<exists>l. btree_get (k_leases m) i = Some l \<and> l_state l = LReserved \<and> l_owner l = owner \<and>
      a_claims (l_allocation l) = a_claims alloc \<and> l_expires_at l = t \<and> k_agreed m"
  proof (cases "btree_get (k_leases c) i")
    case (Some l)
    with assms(1) show ?thesis by (auto simp: reserve_lease_def split: if_splits)
  next
    case None
    with assms(1) obtain claims where "resolve_claims (k_graph c) (a_claims alloc) = Ok claims"
        and m: "m = c\<lparr>k_leases := btree_insert i \<lparr>l_id = i, l_owner = owner,
          l_allocation = alloc\<lparr>a_claims := claims\<rparr>, l_parent = None, l_expires_at = t, l_prepare_deadline = 0,
          l_priority = p, l_state = LReserved, l_exit_code = None\<rparr> (k_leases c)\<rparr>" and "k_agreed c"
      by (auto simp: reserve_lease_def op_simps split: if_splits)
    with assms(2) show ?thesis by (simp add: m list_all_iff resolve_claims_explicit)
  qed
  then show ?thesis by (auto simp: reserve_lease_def)
qed

lemma retry_open:
  assumes "open_lease c i owner alloc parent t d p = (m, Ok e1)"
    and "list_all (\<lambda>cl. \<not> btree_is_empty (c_quantity cl)) (a_claims alloc)"
  shows "open_lease (m\<lparr>k_log := lg\<rparr>) i owner alloc parent t d p = (m\<lparr>k_log := lg\<rparr>, Ok [])"
proof -
  have "\<exists>l. btree_get (k_leases m) i = Some l \<and> l_parent l = parent \<and> l_owner l = owner \<and>
      a_claims (l_allocation l) = a_claims alloc \<and> k_agreed m"
  proof (cases "btree_get (k_leases c) i")
    case (Some l)
    with assms(1) show ?thesis by (auto simp: open_lease_def split: if_splits)
  next
    case None
    with assms(1) obtain claims where "resolve_claims (k_graph c) (a_claims alloc) = Ok claims"
        and m: "m = c\<lparr>k_leases := btree_insert i \<lparr>l_id = i, l_owner = owner,
          l_allocation = alloc\<lparr>a_claims := claims\<rparr>, l_parent = parent, l_expires_at = t, l_prepare_deadline = d,
          l_priority = p, l_state = LPreparing, l_exit_code = None\<rparr> (k_leases c)\<rparr>" and "k_agreed c"
      by (auto simp: open_lease_def op_simps split: if_splits)
    with assms(2) show ?thesis by (simp add: m list_all_iff resolve_claims_explicit)
  qed
  then show ?thesis by (auto simp: open_lease_def)
qed

lemma retry_promote:
  assumes "promote_lease c i d = (m, Ok e1)"
  shows "promote_lease (m\<lparr>k_log := lg\<rparr>) i d = (m\<lparr>k_log := lg\<rparr>, Ok [])"
proof -
  have "\<exists>l. btree_get (k_leases m) i = Some l \<and> l_state l = LPreparing \<and> k_agreed m"
    using assms by (auto simp: promote_lease_def op_simps split: if_splits)
  then show ?thesis by (auto simp: promote_lease_def)
qed

lemma retry_activate:
  assumes "activate_lease c i = (m, Ok e1)"
  shows "activate_lease (m\<lparr>k_log := lg\<rparr>) i = (m\<lparr>k_log := lg\<rparr>, Ok [])"
proof -
  have "\<exists>l. btree_get (k_leases m) i = Some l \<and> l_state l = LActive \<and> k_agreed m"
    using assms by (auto simp: activate_lease_def op_simps Let_def split: if_splits)
  then show ?thesis by (auto simp: activate_lease_def)
qed

lemma retry_renew:
  assumes "renew_lease c i t = (m, Ok e1)"
  shows "renew_lease (m\<lparr>k_log := lg\<rparr>) i t = (m\<lparr>k_log := lg\<rparr>, Ok [])"
proof -
  have "\<exists>l. btree_get (k_leases m) i = Some l \<and> (l_state l = LActive \<or> l_state l = LReserved) \<and>
      l_expires_at l = t \<and> k_agreed m"
    using assms by (auto simp: renew_lease_def op_simps split: if_splits)
  then show ?thesis by (auto simp: renew_lease_def)
qed

lemma retry_open_binding:
  assumes "open_binding c i l n p s = (m, Ok e1)"
  shows "\<exists>e2. open_binding (m\<lparr>k_log := lg\<rparr>) i l n p s = (m\<lparr>k_log := lg\<rparr>, Ok e2)"
proof -
  have "\<exists>b. btree_get (k_bindings m) i = Some b \<and> b_lease b = l \<and> b_node b = n \<and> b_provider b = p \<and> b_scope b = s"
  proof (cases "btree_get (k_bindings c) i")
    case (Some b)
    with assms show ?thesis by (auto simp: open_binding_def split: if_splits)
  next
    case None
    with assms show ?thesis
      by (auto simp: open_binding_def op_simps Let_def split: if_splits option.splits binding_scope.splits)
  qed
  then show ?thesis by (auto simp: open_binding_def)
qed

lemma retry_activate_binding:
  assumes "activate_binding c i = (m, Ok e1)"
  shows "\<exists>e2. activate_binding (m\<lparr>k_log := lg\<rparr>) i = (m\<lparr>k_log := lg\<rparr>, Ok e2)"
proof -
  have "\<exists>b l. btree_get (k_bindings m) i = Some b \<and> b_state b = BActive \<and>
      btree_get (k_leases m) (b_lease b) = Some l \<and> l_state l = LActive"
    using assms by (auto simp: activate_binding_def op_simps split: if_splits)
  then show ?thesis by (auto simp: activate_binding_def)
qed

lemma retry_advance_fence:
  assumes "advance_endpoint_fence c n p f = (m, Ok e1)"
  shows "advance_endpoint_fence (m\<lparr>k_log := lg\<rparr>) n p f = (m\<lparr>k_log := lg\<rparr>, Ok [])"
proof -
  let ?F = "btree_entry 0 (\<lambda>watermark. if f > watermark then f else watermark) (p, n)"
  have "?F (?F (k_last_fence c)) = ?F (k_last_fence c)"
    by (rule btree_ext) (auto simp: btree_entry_def)
  with assms show ?thesis by (auto simp: advance_endpoint_fence_def split: if_splits)
qed

text \<open>
  Retries are safe: sending an accepted command of the lease and binding protocol again right after
  it was accepted is accepted too and changes nothing but the log. For the commands that create a lease
  this needs claims with explicit quantities.
\<close>

theorem retry_changes_nothing:
  assumes "cluster_apply c cmd = (c', Ok effects)" and "retryable cmd"
  shows "\<exists>again. cluster_apply c' cmd = (c'\<lparr>k_log := k_log c' @ [cmd]\<rparr>, Ok again)"
proof -
  from assms(1) obtain m where m: "dispatch c cmd = (m, Ok effects)" and c': "c' = m\<lparr>k_log := k_log m @ [cmd]\<rparr>"
    by (auto simp: op_simps)
  have "\<exists>again. dispatch (m\<lparr>k_log := lg\<rparr>) cmd = (m\<lparr>k_log := lg\<rparr>, Ok again)" for lg
    using m assms(2)
    by (cases cmd) (auto simp: retryable_def retry_advance_fence retry_reserve retry_open retry_promote
        retry_activate retry_renew retry_open_binding retry_activate_binding)
  then have "\<exists>again. dispatch c' cmd = (c', Ok again)" unfolding c' .
  then show ?thesis by (auto simp: op_simps)
qed

section \<open>Witnesses\<close>

lemma ack_from_current_agent_witness:
  "\<exists>b m. btree_get (k_bindings (cluster_run sample_run)) 20 = Some b \<and> 1 = b_fence b \<and>
     machine_of (k_graph (cluster_run sample_run)) (b_node b) = Some m \<and>
     btree_get (k_sessions (cluster_run sample_run)) m = Some 5"
proof -
  have "is_ok (snd (cluster_apply (cluster_run sample_run) (RecordBindingActive 20 5 1)))" by code_simp
  then obtain c' effects where "cluster_apply (cluster_run sample_run) (RecordBindingActive 20 5 1) = (c', Ok effects)"
    by (rule accepted)
  then show ?thesis by (rule ack_from_current_agent) simp
qed

lemma activation_guards_witness:
  "\<exists>l. btree_get (k_leases (cluster_run (sample_setup @ sample_prepare))) 10 = Some l \<and> l_state l = LPreparing \<and>
     a_graph_revision (l_allocation l) = g_revision (k_graph (cluster_run (sample_setup @ sample_prepare)))"
proof -
  have "is_ok (snd (cluster_apply (cluster_run (sample_setup @ sample_prepare)) (ActivateLease 10)))" by code_simp
  then obtain c' effects where r: "cluster_apply (cluster_run (sample_setup @ sample_prepare)) (ActivateLease 10) = (c', Ok effects)"
    by (rule accepted)
  have "map_option l_state (btree_get (k_leases (cluster_run (sample_setup @ sample_prepare))) 10) = Some LPreparing"
    by code_simp
  then obtain l where l: "btree_get (k_leases (cluster_run (sample_setup @ sample_prepare))) 10 = Some l"
      and "l_state l = LPreparing" by auto
  then have "l_state l \<noteq> LActive" by simp
  from activation_guards [OF r l this] l show ?thesis by blast
qed

lemma new_lease_avoids_blocked_witness:
  "\<exists>l. btree_get (k_leases (fst (cluster_apply (cluster_run (take 2 sample_setup)) (ReserveLease 10 1 sample_alloc 100 0)))) 10 = Some l \<and>
     k_agreed (cluster_run (take 2 sample_setup))"
proof -
  have "is_ok (snd (cluster_apply (cluster_run (take 2 sample_setup)) (ReserveLease 10 1 sample_alloc 100 0)))" by code_simp
  then obtain c' effects where
      r: "cluster_apply (cluster_run (take 2 sample_setup)) (ReserveLease 10 1 sample_alloc 100 0) = (c', Ok effects)"
    by (rule accepted)
  have "btree_get (k_leases (cluster_run (take 2 sample_setup))) 10 = None" by code_simp
  with new_lease_avoids_blocked [OF r, of 10] r show ?thesis by (auto simp: creates_lease_def)
qed

lemma termination_is_complete_witness:
  "\<exists>c' effects b. cluster_apply (cluster_run sample_run) (RevokeLease 10) = (c', Ok effects) \<and>
     btree_get (k_bindings (cluster_run sample_run)) 20 = Some b \<and>
     (\<exists>session. EffFence 20 (b_node b) (b_provider b) (b_fence b) session (k_epoch (cluster_run sample_run)) \<in> set effects)"
proof -
  have "is_ok (snd (cluster_apply (cluster_run sample_run) (RevokeLease 10)))" by code_simp
  then obtain c' effects where r: "cluster_apply (cluster_run sample_run) (RevokeLease 10) = (c', Ok effects)"
    by (rule accepted)
  obtain l where l: "btree_get (k_leases (cluster_run sample_run)) 10 = Some l" "l_state l = LActive" by (rule sample_lease)
  have "map_option (\<lambda>b. (b_state b, b_lease b)) (btree_get (k_bindings (cluster_run sample_run)) 20) = Some (BActive, 10)"
    by code_simp
  then obtain b where b: "btree_get (k_bindings (cluster_run sample_run)) 20 = Some b" "b_state b = BActive" "b_lease b = 10"
    by auto
  have "lease_live_state (l_state l)" by (simp add: l(2) lease_live_state_def)
  from termination_is_complete [OF r _ l(1) this] b
  have "\<exists>session. EffFence 20 (b_node b) (b_provider b) (b_fence b) session (k_epoch (cluster_run sample_run)) \<in> set effects"
    by (simp add: is_closed_def)
  with r b(1) show ?thesis by blast
qed

lemma time_guards_witness:
  "\<exists>l. btree_get (k_leases (cluster_run sample_run)) 10 = Some l \<and> l_expires_at l < 200 \<and> k_now (cluster_run sample_run) < 200"
proof -
  have "is_ok (snd (cluster_apply (cluster_run sample_run) (RenewLease 10 200)))" by code_simp
  then obtain c2 e2 where r: "cluster_apply (cluster_run sample_run) (RenewLease 10 200) = (c2, Ok e2)" by (rule accepted)
  have "map_option l_expires_at (btree_get (k_leases (cluster_run sample_run)) 10) = Some 100" by code_simp
  then obtain l where l: "btree_get (k_leases (cluster_run sample_run)) 10 = Some l" and x: "l_expires_at l = 100" by auto
  have "\<not> k_replaying (cluster_run sample_run)" by code_simp
  from time_guards [OF this l] r x have "k_now (cluster_run sample_run) < 200" by fastforce
  with l x show ?thesis by simp
qed

lemma node_state_guards_witness:
  "\<not> (\<exists>k b. btree_get (k_bindings (cluster_run (sample_setup @ [EvApply (RevokeLease 10)]))) k = Some b \<and>
      in_scope (cluster_run (sample_setup @ [EvApply (RevokeLease 10)])) 2 (b_node b) \<and> \<not> is_closed (b_state b))"
proof -
  have "is_ok (snd (cluster_apply (cluster_run (sample_setup @ [EvApply (RevokeLease 10)])) (SetNodeState 2 Retired)))"
    by code_simp
  then obtain c' effects where
      "cluster_apply (cluster_run (sample_setup @ [EvApply (RevokeLease 10)])) (SetNodeState 2 Retired) = (c', Ok effects)"
    by (rule accepted)
  from node_state_guards [OF this] show ?thesis by blast
qed

lemma watermark_finite:
  assumes "\<forall>f\<in>set (btree_values (k_last_fence c)). f \<noteq> - 1"
  shows "watermark c p n \<noteq> - 1"
  using assms by (auto simp: watermark_def btree_get_or_def split: option.splits)

lemma exclusive_fences_unique_witness:
  "generation (cluster_run (sample_setup @ take 2 sample_prepare)) 20 = Some (Exclusive, provider_enforce, 2, 1) \<and>
   1 \<le> watermark (cluster_run (sample_setup @ take 2 sample_prepare)) provider_enforce 2"
proof -
  let ?es = "sample_setup @ take 2 sample_prepare"
  have g: "generation (cluster_run ?es) 20 = Some (Exclusive, provider_enforce, 2, 1)" by code_simp
  have "\<forall>k\<in>set [0..<length ?es]. \<forall>f\<in>set (btree_values (k_last_fence (cluster_run (take k ?es)))). f \<noteq> - 1" by code_simp
  then have "\<forall>k<length ?es. \<forall>p n. watermark (cluster_run (take k ?es)) p n \<noteq> - 1"
    using watermark_finite by (simp add: atLeast0LessThan)
  from exclusive_fences_unique [OF this] g show ?thesis by blast
qed

lemma retry_changes_nothing_witness:
  "\<exists>again. snd (cluster_apply (fst (cluster_apply (cluster_run sample_run) (RenewLease 10 200))) (RenewLease 10 200)) = Ok again"
proof -
  have "is_ok (snd (cluster_apply (cluster_run sample_run) (RenewLease 10 200)))" by code_simp
  then obtain c2 e2 where r: "cluster_apply (cluster_run sample_run) (RenewLease 10 200) = (c2, Ok e2)" by (rule accepted)
  from retry_changes_nothing [OF r] r show ?thesis by (auto simp: retryable_def)
qed

end
