(* ===== verification/Cluster_Replay.thy ===== *)
theory Cluster_Replay
  imports Cluster_Commands
begin

text \<open>
  Recovery by replay. The log holds the accepted commands only, while clock, agreement and epoch
  changes stay outside it. The theory shows that this is enough: replaying the log of any reachable cluster
  into a fresh one succeeds and rebuilds the graph, leases, bindings, sessions, fences and node states
  exactly. \<open>shadow\<close> is the replaying twin of a cluster: same authority, but in agreement, replaying, and
  with a clock, epoch and log of its own.
\<close>

definition shadow :: "u64 \<Rightarrow> u64 \<Rightarrow> command list \<Rightarrow> cluster \<Rightarrow> cluster" where
  "shadow e t lg c = c\<lparr>k_epoch := e, k_now := t, k_agreed := True, k_replaying := True, k_log := lg\<rparr>"

named_theorems shadow_simps \<open>views that do not read the clock, the epoch or the log\<close>

lemma shadow_fields [shadow_simps, simp]:
  "k_agreed (shadow e t lg c)" "k_replaying (shadow e t lg c)"
  "k_graph (shadow e t lg c) = k_graph c" "k_leases (shadow e t lg c) = k_leases c"
  "k_bindings (shadow e t lg c) = k_bindings c" "k_sessions (shadow e t lg c) = k_sessions c"
  "k_last_fence (shadow e t lg c) = k_last_fence c" "k_node_states (shadow e t lg c) = k_node_states c"
  "k_epoch (shadow e t lg c) = e" "k_now (shadow e t lg c) = t" "k_log (shadow e t lg c) = lg"
  by (simp_all add: shadow_def)

lemma shadow_updates [shadow_simps, simp]:
  "(shadow e t lg c)\<lparr>k_graph := g\<rparr> = shadow e t lg (c\<lparr>k_graph := g\<rparr>)"
  "(shadow e t lg c)\<lparr>k_leases := L\<rparr> = shadow e t lg (c\<lparr>k_leases := L\<rparr>)"
  "(shadow e t lg c)\<lparr>k_bindings := B\<rparr> = shadow e t lg (c\<lparr>k_bindings := B\<rparr>)"
  "(shadow e t lg c)\<lparr>k_sessions := S\<rparr> = shadow e t lg (c\<lparr>k_sessions := S\<rparr>)"
  "(shadow e t lg c)\<lparr>k_last_fence := F\<rparr> = shadow e t lg (c\<lparr>k_last_fence := F\<rparr>)"
  "(shadow e t lg c)\<lparr>k_node_states := N\<rparr> = shadow e t lg (c\<lparr>k_node_states := N\<rparr>)"
  "(shadow e t lg c)\<lparr>k_log := lg'\<rparr> = shadow e t lg' c"
  by (simp_all add: shadow_def)

lemma shadow_views [shadow_simps, simp]:
  "open_binding_leases (shadow e t lg c) = open_binding_leases c"
  "open_bindings (shadow e t lg c) = open_bindings c"
  "occupies (shadow e t lg c) = occupies c"
  "lease_children (shadow e t lg c) = lease_children c"
  "bindings_for (shadow e t lg c) = bindings_for c"
  "node_quarantined (shadow e t lg c) = node_quarantined c"
  "require_session (shadow e t lg c) = require_session c"
  "conflicting_endpoint (shadow e t lg c) = conflicting_endpoint c"
  "in_scope (shadow e t lg c) = in_scope c"
  "node_state_of (shadow e t lg c) = node_state_of c"
proof -
  show op: "open_binding_leases (shadow e t lg c) = open_binding_leases c"
    unfolding open_binding_leases_def shadow_fields ..
  show ob: "open_bindings (shadow e t lg c) = open_bindings c"
    by (rule ext) (simp only: open_bindings_def shadow_fields)
  show "occupies (shadow e t lg c) = occupies c"
    by (rule ext) (simp only: occupies_def shadow_fields ob)
  show "lease_children (shadow e t lg c) = lease_children c"
    by (rule ext) (simp only: lease_children_def shadow_fields)
  show "bindings_for (shadow e t lg c) = bindings_for c"
    by (rule ext) (simp only: bindings_for_def shadow_fields)
  show "node_quarantined (shadow e t lg c) = node_quarantined c"
    by (rule ext) (simp only: node_quarantined_def shadow_fields)
  show "require_session (shadow e t lg c) = require_session c"
    by (intro ext) (simp only: require_session_def shadow_fields)
  show "conflicting_endpoint (shadow e t lg c) = conflicting_endpoint c"
    by (intro ext) (simp only: conflicting_endpoint_def shadow_fields)
  show "in_scope (shadow e t lg c) = in_scope c"
    by (intro ext) (simp only: in_scope_def shadow_fields)
  show "node_state_of (shadow e t lg c) = node_state_of c"
    by (intro ext) (simp only: node_state_of_def shadow_fields)
qed

lemma shadow_checks [shadow_simps, simp]:
  "descendants_postorder (shadow e t lg c) = descendants_postorder c"
  "live_descendants (shadow e t lg c) = live_descendants c"
  "moved_claim (shadow e t lg c) = moved_claim c"
  "quarantined_claim (shadow e t lg c) = quarantined_claim c"
  "uncovered_claim (shadow e t lg c) = uncovered_claim c"
  "child_fits (shadow e t lg c) = child_fits c"
  "unprepared_binding (shadow e t lg c) = unprepared_binding c"
  "claim_prepared (shadow e t lg c) = claim_prepared c"
  "node_has_live_authority (shadow e t lg c) = node_has_live_authority c"
proof -
  show dp: "descendants_postorder (shadow e t lg c) = descendants_postorder c"
    by (rule ext) (simp only: descendants_postorder_def shadow_simps)
  show "live_descendants (shadow e t lg c) = live_descendants c"
    by (rule ext) (simp only: live_descendants_def shadow_simps dp)
  show "moved_claim (shadow e t lg c) = moved_claim c"
    by (rule ext) (simp only: moved_claim_def shadow_simps)
  show "quarantined_claim (shadow e t lg c) = quarantined_claim c"
    by (rule ext) (simp only: quarantined_claim_def shadow_simps)
  show "uncovered_claim (shadow e t lg c) = uncovered_claim c"
    by (intro ext) (simp only: uncovered_claim_def shadow_simps)
  show "child_fits (shadow e t lg c) = child_fits c"
    by (intro ext) (simp only: child_fits_def shadow_simps)
  show "unprepared_binding (shadow e t lg c) = unprepared_binding c"
    by (rule ext) (simp only: unprepared_binding_def shadow_simps)
  show "claim_prepared (shadow e t lg c) = claim_prepared c"
    by (intro ext) (simp only: claim_prepared_def shadow_simps)
  show "node_has_live_authority (shadow e t lg c) = node_has_live_authority c"
    by (intro ext) (simp only: node_has_live_authority_def shadow_simps)
qed

lemma end_lease_shadow: "end_lease kept final i (shadow e t lg c) = shadow e t lg (end_lease kept final i c)"
  by (simp add: end_lease_def)

section \<open>Every accepted command is accepted by the twin\<close>

text \<open>\<open>follows\<close> relates two outcomes: whatever the first one accepts, the second one accepts with the
  same change.\<close>

definition follows :: "u64 \<Rightarrow> u64 \<Rightarrow> command list \<Rightarrow> outcome \<Rightarrow> outcome \<Rightarrow> bool" where
  "follows e t lg out out' \<longleftrightarrow> (\<forall>c effects. out = (c, Ok effects) \<longrightarrow> (\<exists>effects'. out' = (shadow e t lg c, Ok effects')))"

named_theorems follows_intros \<open>control flow of two outcomes\<close>

lemma follows_refused [follows_intros]: "follows e t lg (c, Err err) out"
  by (simp add: follows_def)

lemma follows_accepted [follows_intros]: "follows e t lg (c, Ok effects) (shadow e t lg c, Ok effects')"
  by (simp add: follows_def)

lemma follows_guard [follows_intros]:
  "(b' \<Longrightarrow> b) \<Longrightarrow> (\<not> b \<Longrightarrow> follows e t lg x y) \<Longrightarrow>
     follows e t lg (if b then (c, Err err) else x) (if b' then z else y)"
  by (auto simp: follows_def)

lemma follows_if [follows_intros]:
  "(b \<Longrightarrow> follows e t lg x x') \<Longrightarrow> (\<not> b \<Longrightarrow> follows e t lg y y') \<Longrightarrow>
     follows e t lg (if b then x else y) (if b then x' else y')"
  by simp

lemma follows_on_ok [follows_intros]:
  "(\<And>x. r = Ok x \<Longrightarrow> follows e t lg (k x) (k' x)) \<Longrightarrow> follows e t lg (on_ok r c k) (on_ok r c' k')"
  by (cases r) (simp_all add: follows_refused)

lemma follows_unless [follows_intros]:
  "(o1 = None \<Longrightarrow> follows e t lg k k') \<Longrightarrow> follows e t lg (unless_error o1 c k) (unless_error o1 c' k')"
  by (cases o1) (simp_all add: follows_refused)

lemma follows_option [follows_intros]:
  "(o1 = None \<Longrightarrow> follows e t lg x x') \<Longrightarrow> (\<And>a. o1 = Some a \<Longrightarrow> follows e t lg (f a) (f' a)) \<Longrightarrow>
     follows e t lg (case o1 of None \<Rightarrow> x | Some a \<Rightarrow> f a) (case o1 of None \<Rightarrow> x' | Some a \<Rightarrow> f' a)"
  by (cases o1) simp_all

lemma install_follows: "follows e t lg (install_resource_graph c g) (install_resource_graph (shadow e t lg c) g)"
  unfolding install_resource_graph_def shadow_simps by (intro follows_intros)

lemma graph_commands_follow:
  "follows e t lg (apply_graph c ns es) (apply_graph (shadow e t lg c) ns es)"
  "follows e t lg (apply_resource_facts c ns es us) (apply_resource_facts (shadow e t lg c) ns es us)"
  "follows e t lg (apply_provider_facts c bs us) (apply_provider_facts (shadow e t lg c) bs us)"
  "follows e t lg (adopt_fact_writers c as) (adopt_fact_writers (shadow e t lg c) as)"
  unfolding apply_graph_def apply_resource_facts_def apply_provider_facts_def adopt_fact_writers_def shadow_simps
  by (intro follows_intros install_follows; simp)+

lemma lease_commands_follow:
  "follows e t lg (reserve_lease c i owner alloc ex pr) (reserve_lease (shadow e t lg c) i owner alloc ex pr)"
  "follows e t lg (promote_lease c i d) (promote_lease (shadow e t lg c) i d)"
  "follows e t lg (open_lease c i owner alloc parent ex d pr) (open_lease (shadow e t lg c) i owner alloc parent ex d pr)"
  "follows e t lg (activate_lease c i) (activate_lease (shadow e t lg c) i)"
  "follows e t lg (renew_lease c i ex) (renew_lease (shadow e t lg c) i ex)"
  "follows e t lg (release_lease c i) (release_lease (shadow e t lg c) i)"
  unfolding reserve_lease_def promote_lease_def open_lease_def activate_lease_def renew_lease_def release_lease_def
    Let_def shadow_simps
  by (intro follows_intros; (simp; fail)?)+

lemma end_descendants_shadow:
  "fst (end_descendants kept final ds (shadow e t lg c)) = shadow e t lg (fst (end_descendants kept final ds c))"
proof (induction ds rule: rev_induct)
  case Nil
  then show ?case by (simp add: end_descendants_def)
next
  case (snoc d ds)
  then show ?case
    by (simp add: end_descendants_def Let_def case_prod_beta end_lease_shadow)
qed

lemma revoke_loop_shadow:
  "fst (fold (\<lambda>d (c, effects).
       case btree_get (k_leases c) d of
         None \<Rightarrow> (c, effects)
       | Some l \<Rightarrow> let c' = end_lease kept final d c in (c', effects @ fence_effects c' d)) ds (shadow e t lg c, [])) =
   shadow e t lg (fst (fold (\<lambda>d (c, effects).
       case btree_get (k_leases c) d of
         None \<Rightarrow> (c, effects)
       | Some l \<Rightarrow> let c' = end_lease kept final d c in (c', effects @ fence_effects c' d)) ds (c, [])))"
proof (induction ds rule: rev_induct)
  case Nil
  then show ?case by simp
next
  case (snoc d ds)
  then show ?case
    by (simp add: Let_def case_prod_beta end_lease_shadow split: option.split)
qed

lemma follows_pair:
  assumes "fst q = shadow e t lg (fst p)" and "\<And>c x y. p = (c, x) \<Longrightarrow> follows e t lg (f c x) (f (shadow e t lg c) y)"
  shows "follows e t lg (case p of (c, x) \<Rightarrow> f c x) (case q of (c, x) \<Rightarrow> f c x)"
  using assms by (cases p; cases q) auto

lemma termination_commands_follow:
  "follows e t lg (fail_lease c i r) (fail_lease (shadow e t lg c) i r)"
  "follows e t lg (revoke_lease c i) (revoke_lease (shadow e t lg c) i)"
  "follows e t lg (expire_lease c i) (expire_lease (shadow e t lg c) i)"
  "follows e t lg (complete_lease c i code) (complete_lease (shadow e t lg c) i code)"
proof -
  show "follows e t lg (fail_lease c i r) (fail_lease (shadow e t lg c) i r)"
    unfolding fail_lease_def Let_def shadow_simps
    by (intro follows_pair end_descendants_shadow) (simp only: shadow_simps, intro follows_intros)
  show "follows e t lg (revoke_lease c i) (revoke_lease (shadow e t lg c) i)"
    unfolding revoke_lease_def Let_def shadow_simps
    by (intro follows_pair revoke_loop_shadow [unfolded Let_def])
      (simp only: shadow_simps end_lease_shadow, intro follows_intros)
  show "follows e t lg (expire_lease c i) (expire_lease (shadow e t lg c) i)"
    unfolding expire_lease_def Let_def shadow_simps
    apply (intro follows_intros; (simp; fail)?)
    apply (rule follows_pair [OF end_descendants_shadow])
    apply (simp only: shadow_simps)
    apply (intro follows_intros)
    done
  show "follows e t lg (complete_lease c i code) (complete_lease (shadow e t lg c) i code)"
    unfolding complete_lease_def Let_def shadow_simps
    apply (intro follows_intros; (simp; fail)?)
    apply (rule follows_pair [OF end_descendants_shadow])
    apply (simp only: shadow_simps)
    apply (intro follows_intros)
    done
qed

lemma binding_commands_follow:
  "follows e t lg (open_binding c i l n p s) (open_binding (shadow e t lg c) i l n p s)"
  "follows e t lg (activate_binding c i) (activate_binding (shadow e t lg c) i)"
  "follows e t lg (fence_binding c i) (fence_binding (shadow e t lg c) i)"
  "follows e t lg (fail_binding c i r) (fail_binding (shadow e t lg c) i r)"
  "follows e t lg (release_binding c i) (release_binding (shadow e t lg c) i)"
  "follows e t lg (record_prepared c i ss h f) (record_prepared (shadow e t lg c) i ss h f)"
  "follows e t lg (record_active c i ss f) (record_active (shadow e t lg c) i ss f)"
  "follows e t lg (record_released c i ss f) (record_released (shadow e t lg c) i ss f)"
  "follows e t lg (record_fenced c i ss f) (record_fenced (shadow e t lg c) i ss f)"
  "follows e t lg (record_failed c i ss r f) (record_failed (shadow e t lg c) i ss r f)"
  "follows e t lg (rebind_session c i ss) (rebind_session (shadow e t lg c) i ss)"
proof -
  show "follows e t lg (open_binding c i l n p s) (open_binding (shadow e t lg c) i l n p s)"
    unfolding open_binding_def Let_def shadow_simps
    by (cases s) (simp_all only: binding_scope.case prod.case shadow_simps, (intro follows_intros; (simp; fail)?)+)
  show "follows e t lg (record_failed c i ss r f) (record_failed (shadow e t lg c) i ss r f)"
    unfolding record_failed_def Let_def shadow_simps end_lease_shadow by (intro follows_intros)
qed (unfold activate_binding_def fence_binding_def fail_binding_def release_binding_def record_prepared_def
    record_active_def record_released_def record_fenced_def rebind_session_def Let_def shadow_simps,
    (intro follows_intros)+)

lemma node_commands_follow:
  "follows e t lg (set_node_state c n s) (set_node_state (shadow e t lg c) n s)"
  "follows e t lg (set_node_health c n h) (set_node_health (shadow e t lg c) n h)"
  "follows e t lg (set_agent_session c n ss) (set_agent_session (shadow e t lg c) n ss)"
  "follows e t lg (advance_endpoint_fence c n p f) (advance_endpoint_fence (shadow e t lg c) n p f)"
  "follows e t lg (quarantine_node c n) (quarantine_node (shadow e t lg c) n)"
  "follows e t lg (unquarantine_node c n) (unquarantine_node (shadow e t lg c) n)"
  unfolding quarantine_node_def unquarantine_node_def set_node_state_def set_node_health_def set_agent_session_def
    advance_endpoint_fence_def Let_def case_prod_beta shadow_simps
  by (intro follows_intros; (simp; fail)?)+

lemma dispatch_follows: "follows e t lg (dispatch c cmd) (dispatch (shadow e t lg c) cmd)"
  by (cases cmd) (simp_all add: graph_commands_follow lease_commands_follow termination_commands_follow
      binding_commands_follow node_commands_follow)

section \<open>Replaying the log\<close>

lemma cluster_apply_follows:
  assumes "cluster_apply c cmd = (c', Ok effects)"
  shows "\<exists>again. cluster_apply (shadow e t lg c) cmd = (shadow e t (lg @ [cmd]) c', Ok again)"
proof -
  from assms obtain m where m: "dispatch c cmd = (m, Ok effects)" and c': "c' = m\<lparr>k_log := k_log m @ [cmd]\<rparr>"
    by (auto simp: op_simps)
  obtain again where "dispatch (shadow e t lg c) cmd = (shadow e t lg m, Ok again)"
    using dispatch_follows [of e t lg c cmd] m unfolding follows_def by blast
  moreover have "shadow e t (lg @ [cmd]) m = shadow e t (lg @ [cmd]) c'" by (simp add: c' shadow_def)
  ultimately show ?thesis by (auto simp: op_simps)
qed

text \<open>No operation writes the log (only \<^verbatim>\<open>Cluster::apply\<close> does), the agreement or the flag of a replay.\<close>

definition keeps_log :: "cluster \<Rightarrow> outcome \<Rightarrow> bool" where
  "keeps_log c out \<longleftrightarrow>
     k_log (fst out) = k_log c \<and> k_agreed (fst out) = k_agreed c \<and> k_replaying (fst out) = k_replaying c"

named_theorems log_intros \<open>operations that leave the log alone\<close>

lemma log_pair [log_intros]:
  "k_log c' = k_log c \<Longrightarrow> k_agreed c' = k_agreed c \<Longrightarrow> k_replaying c' = k_replaying c \<Longrightarrow> keeps_log c (c', r)"
  by (simp add: keeps_log_def)

lemma log_on_ok [log_intros]:
  "keeps_log c (c1, Ok []) \<Longrightarrow> (\<And>x. r = Ok x \<Longrightarrow> keeps_log c (k x)) \<Longrightarrow> keeps_log c (on_ok r c1 k)"
  by (cases r) (simp_all add: keeps_log_def)

lemma log_unless [log_intros]: "keeps_log c k \<Longrightarrow> keeps_log c (unless_error o1 c k)"
  by (cases o1) (simp_all add: keeps_log_def)

lemma log_if [log_intros]: "keeps_log c x \<Longrightarrow> keeps_log c y \<Longrightarrow> keeps_log c (if b then x else y)"
  by simp

lemma log_option [log_intros]:
  "keeps_log c x \<Longrightarrow> (\<And>a. keeps_log c (f a)) \<Longrightarrow> keeps_log c (case o1 of None \<Rightarrow> x | Some a \<Rightarrow> f a)"
  by (cases o1) simp_all

lemma log_case_prod: "keeps_log c (f (fst p) (snd p)) \<Longrightarrow> keeps_log c (case p of (c1, x) \<Rightarrow> f c1 x)"
  by (simp add: case_prod_beta)

lemma end_lease_log:
  "k_log (end_lease kept final i c) = k_log c" "k_agreed (end_lease kept final i c) = k_agreed c"
  "k_replaying (end_lease kept final i c) = k_replaying c"
  by (simp_all add: end_lease_def)

lemma end_descendants_log:
  "k_log (fst (end_descendants kept final ds c)) = k_log c" "k_agreed (fst (end_descendants kept final ds c)) = k_agreed c"
  "k_replaying (fst (end_descendants kept final ds c)) = k_replaying c"
  using end_descendants_leases [of kept final ds c] by auto

lemma commands_keep_log:
  "keeps_log c (apply_graph c ns es)" "keeps_log c (apply_resource_facts c ns es us)"
  "keeps_log c (apply_provider_facts c bs us)" "keeps_log c (adopt_fact_writers c as)"
  "keeps_log c (reserve_lease c i owner alloc ex pr)" "keeps_log c (promote_lease c i d)"
  "keeps_log c (open_lease c i owner alloc parent ex d pr)" "keeps_log c (activate_lease c i)"
  "keeps_log c (renew_lease c i ex)" "keeps_log c (release_lease c i)"
  "keeps_log c (activate_binding c k)" "keeps_log c (fence_binding c k)" "keeps_log c (fail_binding c k r)"
  "keeps_log c (release_binding c k)" "keeps_log c (record_prepared c k ss h f)"
  "keeps_log c (record_active c k ss f)" "keeps_log c (record_released c k ss f)"
  "keeps_log c (record_fenced c k ss f)" "keeps_log c (record_failed c k ss r f)"
  "keeps_log c (rebind_session c k ss)" "keeps_log c (set_node_state c n s)" "keeps_log c (set_node_health c n hl)"
  "keeps_log c (set_agent_session c n ss)" "keeps_log c (advance_endpoint_fence c n p f)"
  "keeps_log c (quarantine_node c n)" "keeps_log c (unquarantine_node c n)"
  unfolding apply_graph_def apply_resource_facts_def apply_provider_facts_def adopt_fact_writers_def
    install_resource_graph_def reserve_lease_def promote_lease_def open_lease_def activate_lease_def renew_lease_def
    release_lease_def activate_binding_def fence_binding_def fail_binding_def release_binding_def record_prepared_def
    record_active_def record_released_def record_fenced_def record_failed_def rebind_session_def
    quarantine_node_def unquarantine_node_def set_node_state_def set_node_health_def set_agent_session_def
    advance_endpoint_fence_def Let_def case_prod_beta
  by (intro log_intros; simp add: end_lease_log)+

lemma dispatch_keeps_log: "keeps_log c (dispatch c cmd)"
proof (cases cmd)
  case (FailLease i r)
  then show ?thesis
    by (simp only: dispatch.simps fail_lease_def Let_def)
      (intro log_case_prod log_intros; simp add: end_descendants_log)
next
  case (RevokeLease i)
  obtain L pre where run: "fold (\<lambda>d (c, effects).
       case btree_get (k_leases c) d of
         None \<Rightarrow> (c, effects)
       | Some l \<Rightarrow> let c' = end_lease closed_states LRevoked d c in (c', effects @ fence_effects c' d))
     (descendants_postorder c i) (c, []) = (c\<lparr>k_leases := L\<rparr>, pre)"
    using revoke_loop_leases by blast
  have "keeps_log c (revoke_lease c i)"
    unfolding revoke_lease_def run by (simp add: Let_def) (intro log_intros; simp add: end_lease_log)
  with RevokeLease show ?thesis by simp
next
  case (ExpireLease i)
  then show ?thesis
    by (simp only: dispatch.simps expire_lease_def Let_def)
      (intro log_case_prod log_intros; simp add: end_descendants_log)
next
  case (CompleteLease i code)
  then show ?thesis
    by (simp only: dispatch.simps complete_lease_def Let_def)
      (intro log_case_prod log_intros; simp add: end_descendants_log)
next
  case (OpenBinding i l n p s)
  then show ?thesis
    by (cases s) (simp_all only: dispatch.simps open_binding_def Let_def binding_scope.case prod.case,
      (intro log_intros; simp)+)
qed (simp_all add: commands_keep_log)

lemma replay_log:
  "try_fold replay_step (k_log (cluster_run es)) (set_replaying cluster_new True) =
     Ok (shadow 1 0 (k_log (cluster_run es)) (cluster_run es))"
proof (induction es rule: rev_induct)
  case Nil
  show ?case by (simp add: cluster_run_def cluster_new_def set_replaying_def shadow_def)
next
  case (snoc e es)
  let ?c = "cluster_run es"
  show ?case
  proof (cases e)
    case (EvApply cmd)
    obtain c' r where out: "cluster_apply ?c cmd = (c', r)" by (cases "cluster_apply ?c cmd")
    show ?thesis
    proof (cases r)
      case (Ok effects)
      obtain again where "cluster_apply (shadow 1 0 (k_log ?c) ?c) cmd = (shadow 1 0 (k_log ?c @ [cmd]) c', Ok again)"
        using cluster_apply_follows out Ok by blast
      moreover have "k_log c' = k_log ?c @ [cmd]"
        using out Ok dispatch_keeps_log [of ?c cmd] by (auto simp: op_simps keeps_log_def)
      ultimately show ?thesis
        using snoc out EvApply by (simp add: cluster_run_snoc try_fold_append replay_step_def)
    next
      case (Err err)
      with out have "dispatch ?c cmd = (c', Err err)"
        by (auto simp: cluster_apply_def split: prod.splits result.splits)
      then have "c' = ?c" using dispatch_sound [OF cluster_run_inv, of es cmd] by (simp add: sound_def)
      with snoc out EvApply show ?thesis by (simp add: cluster_run_snoc)
    qed
  next
    case EvMigrate
    have "facts_wf (k_graph ?c)"
      using cluster_inv_parts(1) [OF cluster_run_inv] by (simp add: graph_wf_def)
    with snoc EvMigrate show ?thesis
      by (simp add: cluster_run_snoc cluster_migrate_legacy_observations_def migrate_identity)
  qed (use snoc in \<open>simp_all add: cluster_run_snoc set_now_def set_agreement_def advance_epoch_def shadow_def\<close>)
qed

text \<open>
  Recovery by replay: for every reachable cluster, whatever commands were rejected in between and
  however clock, agreement and epoch moved, replaying its log into a fresh cluster succeeds and rebuilds
  the graph, the leases, the bindings, the sessions, the fence watermarks and the node states; the
  digests agree in everything but clock, agreement and epoch.
\<close>

theorem replay_rebuilds_authority:
  "\<exists>r. replay (k_log (cluster_run es)) = Ok r \<and>
     k_graph r = k_graph (cluster_run es) \<and> k_leases r = k_leases (cluster_run es) \<and>
     k_bindings r = k_bindings (cluster_run es) \<and> k_sessions r = k_sessions (cluster_run es) \<and>
     k_last_fence r = k_last_fence (cluster_run es) \<and> k_node_states r = k_node_states (cluster_run es) \<and>
     k_log r = k_log (cluster_run es) \<and>
     cluster_digest r = (cluster_digest (cluster_run es))\<lparr>d_epoch := 1, d_now := 0, d_agreed := True\<rparr>"
proof -
  let ?r = "set_replaying (shadow 1 0 (k_log (cluster_run es)) (cluster_run es)) False"
  have "replay (k_log (cluster_run es)) = Ok ?r"
    using replay_log [of es] by (simp add: replay_def)
  then show ?thesis
    by (intro exI [of _ ?r]) (simp add: set_replaying_def shadow_def cluster_digest_def Let_def)
qed

end
