(* ===== verification/Kernel_Select.thy ===== *)
theory Kernel_Select
  imports Kernel_Occupancy
begin

text \<open>
  Placement (\<^verbatim>\<open>crates/kernel/src/select.rs\<close>): candidates of a need, their score and rank, greedy choice under the
  topology constraints, and the bounded backtracking search on one machine. Scores are \<open>i64\<close> in the source; they
  are sums over claims, nodes and preferences that are in memory, so they are integers here. The trace of rejected
  pairs and the state of the search are passed on explicitly, also past an error.
\<close>

section \<open>Contexts\<close>

datatype pack_mode = Pack | Spread

fun debug_pack_mode :: "pack_mode \<Rightarrow> string" where
  "debug_pack_mode Pack = ''Pack''"
| "debug_pack_mode Spread = ''Spread''"

record score_ctx =
  sc_graph :: graph
  sc_occupancy :: occupancy
  sc_request :: request
  sc_already :: "claim list list"
  sc_mode :: pack_mode
  sc_memory_want :: u64

record topology_failure =
  tf_constraint :: nat
  tf_left :: node_id
  tf_right :: node_id

type_synonym topology_trace = "(nat, topology_failure) btree"

definition record_failure :: "topology_failure \<Rightarrow> topology_trace \<Rightarrow> topology_trace" where
  "record_failure failure trace =
     (if btree_contains_key trace (tf_constraint failure) then trace
      else btree_insert (tf_constraint failure) failure trace)"

record select_ctx =
  se_graph :: graph
  se_occupancy :: occupancy
  se_request :: request
  se_mode :: pack_mode
  se_quarantine :: "node_id set"

definition select_mode :: "request \<Rightarrow> pack_mode" where
  "select_mode r =
     fold (\<lambda>p mode. case p of PrefPack \<Rightarrow> Pack | PrefSpread \<Rightarrow> Spread | PreferAttr _ _ \<Rightarrow> mode)
       (r_preferences r) (case r_class r of Service \<Rightarrow> Pack | Batch \<Rightarrow> Pack)"

section \<open>Candidates\<close>

definition is_consumable_need :: "need \<Rightarrow> bool" where
  "is_consumable_need n \<longleftrightarrow> nd_kind n = Memory \<or> list_ex (\<lambda>d. d \<noteq> Count) (btree_keys (nd_quantity n))"

definition consumable_quantity :: "need \<Rightarrow> quantity" where
  "consumable_quantity n =
     (if nd_kind n = Memory then qty Bytes (quantity_get (nd_quantity n) Bytes) else nd_quantity n)"

definition need_unit :: "need \<Rightarrow> quantity" where
  "need_unit n = (if is_consumable_need n then consumable_quantity n else qty Count 1)"

text \<open>\<^verbatim>\<open>quantity_get(&need.quantity, Count).max(1)\<close>; the source compares it with the length of a vector.\<close>

definition need_count :: "need \<Rightarrow> nat" where
  "need_count n = unat (max (quantity_get (nd_quantity n) Count) 1)"

text \<open>A node is blocked when it or an ancestor is in the set.\<close>

definition blocked_by :: "graph \<Rightarrow> node_id set \<Rightarrow> node_id \<Rightarrow> bool" where
  "blocked_by g quarantine n \<longleftrightarrow> n \<in> quarantine \<or> list_ex (\<lambda>a. a \<in> quarantine) (ancestors g n)"

definition filters_match :: "need \<Rightarrow> node \<Rightarrow> bool" where
  "filters_match n nd \<longleftrightarrow> \<not> list_ex (\<lambda>f. btree_get (n_attrs nd) (f_key f) \<noteq> Some (f_value f)) (nd_filters n)"

definition candidates :: "graph \<Rightarrow> occupancy \<Rightarrow> need \<Rightarrow> node_id set \<Rightarrow> (node_id list, error) result" where
  "candidates g occ n quarantine =
     (if nd_kind n = DataObject then Err (Refused ''data objects are locality hints, not claimable resources'')
      else try_fold (\<lambda>i out.
        case graph_node g i of
          None \<Rightarrow> Err (UnknownNode i)
        | Some nd \<Rightarrow>
            if \<not> is_ok (claim_binding_for_quantity g i (need_unit n)) then Ok out
            else if blocked_by g quarantine (n_id nd) then Ok out
            else if \<not> filters_match n nd then Ok out
            else and_then (can_cover occ g \<lparr>c_node = i, c_quantity = need_unit n\<rparr>)
                   (\<lambda>ok. Ok (if ok then out @ [i] else out)))
        (nodes_of_class g (nd_kind n)) [])"

section \<open>Scores\<close>

definition extras :: "claim list list \<Rightarrow> claim list \<Rightarrow> claim list" where
  "extras already chosen = concat already @ chosen"

definition machine_load :: "graph \<Rightarrow> occupancy \<Rightarrow> node_id \<Rightarrow> claim list \<Rightarrow> nat" where
  "machine_load g occ machine extra =
     length (filter (\<lambda>i. is_used occ i \<or> list_ex (\<lambda>cl. c_node cl = i) extra) (descendants g machine))"

text \<open>The four parts of \<^verbatim>\<open>score_node\<close>: neighbours and load, attribute preferences, cached data, health.\<close>

definition pack_score :: "score_ctx \<Rightarrow> claim list \<Rightarrow> node_id \<Rightarrow> int" where
  "pack_score ctx extra n =
     (case machine_of (sc_graph ctx) n of
        None \<Rightarrow> 0
      | Some machine \<Rightarrow>
          let same_request = int (length (filter (\<lambda>cl. machine_of (sc_graph ctx) (c_node cl) = Some machine) extra));
              load = int (machine_load (sc_graph ctx) (sc_occupancy ctx) machine extra);
              near = list_ex (\<lambda>cl. satisfies (sc_graph ctx) n (c_node cl) (SameAncestor Numa)) extra
          in (case sc_mode ctx of
                Pack \<Rightarrow> 100 * same_request + 10 * load
              | Spread \<Rightarrow> - (100 * same_request) - 10 * load) +
             (if near \<and> sc_mode ctx = Pack then 50 else 0))"

definition preference_score :: "score_ctx \<Rightarrow> node_id \<Rightarrow> int" where
  "preference_score ctx n =
     fold (\<lambda>p score. case p of
         PreferAttr key value \<Rightarrow>
           (case graph_node (sc_graph ctx) n of
              Some item \<Rightarrow> if btree_get (n_attrs item) key = Some value then score + 1000000 else score
            | None \<Rightarrow> score)
       | _ \<Rightarrow> score) (r_preferences (sc_request ctx)) 0"

definition data_score :: "score_ctx \<Rightarrow> node_id \<Rightarrow> int" where
  "data_score ctx n =
     10000 * int (length (filter (caches (sc_graph ctx) n) (remdups (r_data (sc_request ctx)))))"

definition health_score :: "score_ctx \<Rightarrow> node_id \<Rightarrow> int" where
  "health_score ctx n = (if degraded_ancestor (sc_graph ctx) n \<noteq> None then - 20000 else 0)"

text \<open>The fragmentation term, in MiB and capped.\<close>

definition memory_score :: "score_ctx \<Rightarrow> node_id \<Rightarrow> (int, error) result" where
  "memory_score ctx n =
     (if sc_memory_want ctx > 0 then
        and_then (remaining (sc_occupancy ctx) (sc_graph ctx) n) (\<lambda>free.
          let leftover = min (uint (saturating_sub (quantity_get free Bytes) (sc_memory_want ctx)) div 2 ^ 20) 4000
          in Ok (case sc_mode ctx of Pack \<Rightarrow> - leftover | Spread \<Rightarrow> leftover))
      else Ok 0)"

definition score_node :: "score_ctx \<Rightarrow> claim list \<Rightarrow> node_id \<Rightarrow> (int, error) result" where
  "score_node ctx chosen n =
     and_then (memory_score ctx n) (\<lambda>memory.
       Ok (pack_score ctx (extras (sc_already ctx) chosen) n + preference_score ctx n + data_score ctx n +
           health_score ctx n + memory))"

text \<open>Highest score first, then the smaller node id.\<close>

definition rank :: "score_ctx \<Rightarrow> claim list \<Rightarrow> node_id list \<Rightarrow> (node_id list, error) result" where
  "rank ctx chosen cands =
     and_then (try_map (\<lambda>n. and_then (score_node ctx chosen n) (\<lambda>s. Ok (s, n))) cands)
       (\<lambda>scored. Ok (map snd (sort_key (\<lambda>(s, n). (- s, n)) scored)))"

section \<open>Topology\<close>

definition claims_are_unique :: "claim list list \<Rightarrow> bool" where
  "claims_are_unique picked \<longleftrightarrow> distinct (map c_node (concat picked))"

definition constraint_failure ::
    "graph \<Rightarrow> claim list list \<Rightarrow> nat \<times> topology_constraint \<Rightarrow> topology_failure option" where
  "constraint_failure g picked = (\<lambda>(index, c).
     if tc_left c \<ge> length picked \<or> tc_right c \<ge> length picked then None
     else try_all (\<lambda>left. try_all (\<lambda>right.
         if \<not> satisfies g (c_node left) (c_node right) (tc_relation c)
         then Some \<lparr>tf_constraint = index, tf_left = c_node left, tf_right = c_node right\<rparr> else None)
       (picked ! tc_right c)) (picked ! tc_left c))"

definition topology_failure_of :: "graph \<Rightarrow> claim list list \<Rightarrow> request \<Rightarrow> topology_failure option" where
  "topology_failure_of g picked r = try_all (constraint_failure g picked) (enumerate 0 (r_topology r))"

definition topology_holds :: "graph \<Rightarrow> claim list list \<Rightarrow> request \<Rightarrow> bool" where
  "topology_holds g picked r \<longleftrightarrow> claims_are_unique picked \<and> topology_failure_of g picked r = None"

definition topology_holds_traced ::
    "graph \<Rightarrow> claim list list \<Rightarrow> request \<Rightarrow> topology_trace \<Rightarrow> topology_trace \<times> bool" where
  "topology_holds_traced g picked r trace =
     (if \<not> claims_are_unique picked then (trace, False)
      else case topology_failure_of g picked r of
             Some failure \<Rightarrow> (record_failure failure trace, False)
           | None \<Rightarrow> (trace, True))"

section \<open>Greedy choice\<close>

text \<open>The note on a chosen node.\<close>

definition placement_note :: "graph \<Rightarrow> request \<Rightarrow> node_id \<Rightarrow> int \<Rightarrow> string" where
  "placement_note g r n score =
     display_node n @ '' score='' @ show_int score @
     (if list_ex (caches g n) (r_data r) then '' data-local'' else '''') @
     (if degraded_ancestor g n \<noteq> None then '' health-degraded'' else '''')"

type_synonym need_choice = "topology_trace \<times> (claim list \<times> string list, error) result"

text \<open>The refusals of a consumable need.\<close>

definition no_capacity :: "need \<Rightarrow> error" where
  "no_capacity n =
     Refused (if nd_kind n = Memory then ''memory need has zero bytes''
              else ''need '' @ debug_class (nd_kind n) @ '' has no positive capacity'')"

definition no_free_node :: "need \<Rightarrow> u64 \<Rightarrow> error" where
  "no_free_node n memory_want =
     Refused (if nd_kind n = Memory then ''no memory node has '' @ show_u64 memory_want @ '' free bytes''
              else ''no '' @ debug_class (nd_kind n) @ '' node has the requested capacity'')"

text \<open>The loop over the ranked nodes of a consumable need: the first one that covers it and satisfies the topology.\<close>

fun place_consumable :: "score_ctx \<Rightarrow> need \<Rightarrow> node_id list \<Rightarrow> topology_trace \<Rightarrow> need_choice" where
  "place_consumable ctx n [] trace = (trace, Err (no_free_node n (sc_memory_want ctx)))"
| "place_consumable ctx n (i # rest) trace =
     (let cl = \<lparr>c_node = i, c_quantity = consumable_quantity n\<rparr> in
      case can_cover (sc_occupancy ctx) (sc_graph ctx) cl of
        Err e \<Rightarrow> (trace, Err e)
      | Ok ok \<Rightarrow>
          if \<not> ok then place_consumable ctx n rest trace
          else case topology_holds_traced (sc_graph ctx) (sc_already ctx @ [[cl]]) (sc_request ctx) trace of
                 (trace', holds) \<Rightarrow>
                   if holds then
                     (trace', and_then (score_node ctx [] i) (\<lambda>score.
                        Ok ([cl], [placement_note (sc_graph ctx) (sc_request ctx) i score])))
                   else place_consumable ctx n rest trace')"

text \<open>The loop that fills a group with single units, on one machine or anywhere.\<close>

fun fill_group ::
    "score_ctx \<Rightarrow> nat \<Rightarrow> node_id list \<Rightarrow> claim list \<Rightarrow> string list \<Rightarrow> topology_trace \<Rightarrow> need_choice" where
  "fill_group ctx num [] chosen notes trace = (trace, Ok (chosen, notes))"
| "fill_group ctx num (i # rest) chosen notes trace =
     (if length chosen \<ge> num then (trace, Ok (chosen, notes))
      else let cl = \<lparr>c_node = i, c_quantity = qty Count 1\<rparr> in
        case topology_holds_traced (sc_graph ctx) (sc_already ctx @ [chosen @ [cl]]) (sc_request ctx) trace of
          (trace', holds) \<Rightarrow>
            if holds then
              (case score_node ctx chosen i of
                 Err e \<Rightarrow> (trace', Err e)
               | Ok score \<Rightarrow>
                   fill_group ctx num rest (chosen @ [cl])
                     (notes @ [placement_note (sc_graph ctx) (sc_request ctx) i score]) trace')
            else fill_group ctx num rest chosen notes trace')"

definition select_spread ::
    "need \<Rightarrow> score_ctx \<Rightarrow> node_id list \<Rightarrow> nat \<Rightarrow> topology_trace \<Rightarrow> need_choice" where
  "select_spread n ctx cands num trace =
     (case rank ctx [] cands of
        Err e \<Rightarrow> (trace, Err e)
      | Ok ranked \<Rightarrow>
          (case fill_group ctx num ranked [] [] trace of
             (trace', Err e) \<Rightarrow> (trace', Err e)
           | (trace', Ok (chosen, notes)) \<Rightarrow>
               if length chosen \<noteq> num then
                 (trace', Err (Refused (''need '' @ debug_class (nd_kind n) @ '' x'' @ show_nat num @
                    '' found only '' @ show_nat (length chosen))))
               else (trace', Ok (chosen, notes))))"

text \<open>The ranked nodes by machine, and the machines in the order of their first node.\<close>

definition group_by_machine ::
    "graph \<Rightarrow> node_id list \<Rightarrow> node_id list \<times> (node_id, node_id list) btree" where
  "group_by_machine g ranked =
     fold (\<lambda>n (machines, by_machine).
         case machine_of g n of
           None \<Rightarrow> (machines, by_machine)
         | Some machine \<Rightarrow>
             (if btree_contains_key by_machine machine then machines else machines @ [machine],
              btree_insert machine (btree_get_or [] by_machine machine @ [n]) by_machine))
       ranked ([], btree_empty)"

fun place_on_machines ::
    "score_ctx \<Rightarrow> need \<Rightarrow> nat \<Rightarrow> (node_id, node_id list) btree \<Rightarrow> node_id list \<Rightarrow> topology_trace \<Rightarrow> need_choice" where
  "place_on_machines ctx n num by_machine [] trace =
     (trace, Err (Refused (''need '' @ debug_class (nd_kind n) @ '' x'' @ show_nat num @
        '' does not fit on any single machine'')))"
| "place_on_machines ctx n num by_machine (machine # rest) trace =
     (case fill_group ctx num (btree_get_or [] by_machine machine) [] [] trace of
        (trace', Err e) \<Rightarrow> (trace', Err e)
      | (trace', Ok (chosen, notes)) \<Rightarrow>
          if length chosen = num then (trace', Ok (chosen, notes))
          else place_on_machines ctx n num by_machine rest trace')"

definition allowed_nodes :: "node_id set option \<Rightarrow> node_id list \<Rightarrow> node_id list" where
  "allowed_nodes allowed = filter (\<lambda>n. case allowed of None \<Rightarrow> True | Some s \<Rightarrow> n \<in> s)"

definition select_need_in ::
    "select_ctx \<Rightarrow> need \<Rightarrow> claim list list \<Rightarrow> node_id set option \<Rightarrow> topology_trace \<Rightarrow> need_choice" where
  "select_need_in se n already allowed trace =
     (case candidates (se_graph se) (se_occupancy se) n (se_quarantine se) of
        Err e \<Rightarrow> (trace, Err e)
      | Ok all \<Rightarrow>
          let cands = allowed_nodes allowed all;
              wanted = consumable_quantity n;
              ctx = (\<lambda>want. \<lparr>sc_graph = se_graph se, sc_occupancy = se_occupancy se, sc_request = se_request se,
                       sc_already = already, sc_mode = se_mode se, sc_memory_want = want\<rparr>) in
          if cands = [] then
            (trace, Err (Refused (''no '' @ debug_class (nd_kind n) @ '' node within the allowed set'')))
          else if is_consumable_need n then
            if btree_is_empty wanted \<or> list_all (\<lambda>a. a = 0) (btree_values wanted) then (trace, Err (no_capacity n))
            else
              (case rank (ctx (quantity_get wanted Bytes)) [] cands of
                 Err e \<Rightarrow> (trace, Err e)
               | Ok ranked \<Rightarrow> place_consumable (ctx (quantity_get wanted Bytes)) n ranked trace)
          else if \<not> r_machine_local (se_request se) then select_spread n (ctx 0) cands (need_count n) trace
          else
            (case rank (ctx 0) [] cands of
               Err e \<Rightarrow> (trace, Err e)
             | Ok ranked \<Rightarrow>
                 (case group_by_machine (se_graph se) ranked of
                    (machines, by_machine) \<Rightarrow>
                      place_on_machines (ctx 0) n (need_count n) by_machine machines trace)))"

definition select_need :: "select_ctx \<Rightarrow> need \<Rightarrow> claim list list \<Rightarrow> topology_trace \<Rightarrow> need_choice" where
  "select_need se n already trace = select_need_in se n already None trace"

section \<open>Explanations\<close>

definition explain_ctx :: "graph \<Rightarrow> occupancy \<Rightarrow> request \<Rightarrow> pack_mode \<Rightarrow> claim list list \<Rightarrow> nat \<Rightarrow> score_ctx" where
  "explain_ctx g occ r mode picked index =
     \<lparr>sc_graph = g, sc_occupancy = occ, sc_request = r, sc_already = take index picked, sc_mode = mode,
      sc_memory_want = quantity_get (consumable_quantity (r_needs r ! index)) Bytes\<rparr>"

text \<open>Both loops over the groups visit the claims with the claims of the same group before them.\<close>

definition each_claim ::
    "claim list list \<Rightarrow> (nat \<Rightarrow> claim list \<Rightarrow> claim \<Rightarrow> ('b, error) result) \<Rightarrow> ('b list, error) result" where
  "each_claim picked f =
     try_map (\<lambda>(index, k). f index (take k (picked ! index)) (picked ! index ! k))
       (concat (map (\<lambda>index. map (Pair index) [0..<length (picked ! index)]) [0..<length picked]))"

definition selection_notes ::
    "graph \<Rightarrow> occupancy \<Rightarrow> request \<Rightarrow> pack_mode \<Rightarrow> claim list list \<Rightarrow> (string list, error) result" where
  "selection_notes g occ r mode picked =
     each_claim picked (\<lambda>index chosen cl.
       and_then (score_node (explain_ctx g occ r mode picked index) chosen (c_node cl))
         (\<lambda>score. Ok (placement_note g r (c_node cl) score)))"

definition claim_nodes :: "claim list \<Rightarrow> string" where
  "claim_nodes claims = join '','' (map (\<lambda>cl. display_node (c_node cl)) claims)"

definition ancestor_nodes :: "graph \<Rightarrow> claim list \<Rightarrow> resource_class \<Rightarrow> string" where
  "ancestor_nodes g claims kind =
     join '','' (map display_node
       (sorted_list_of_set (set (List.map_filter (\<lambda>cl. ancestor_of_class g (c_node cl) kind) claims))))"

fun relation_name :: "topology_relation \<Rightarrow> string" where
  "relation_name (SameAncestor kind) = ''same-ancestor('' @ kind @ '')''"
| "relation_name (DifferentAncestor kind) = ''different-ancestor('' @ kind @ '')''"
| "relation_name RelContains = ''contains''"
| "relation_name RelConnected = ''connected''"
| "relation_name RelCachedOn = ''cached-on''"

definition need_label :: "nat \<Rightarrow> claim list \<Rightarrow> string" where
  "need_label index claims = ''need['' @ show_nat index @ '']='' @ claim_nodes claims"

fun selected_note :: "graph \<Rightarrow> nat \<Rightarrow> claim list \<Rightarrow> nat \<Rightarrow> claim list \<Rightarrow> topology_relation \<Rightarrow> string" where
  "selected_note g li left ri right (SameAncestor kind) =
     ''selected '' @ need_label li left @ '' and '' @ need_label ri right @ '' under '' @ kind @ '' '' @
     ancestor_nodes g left kind"
| "selected_note g li left ri right (DifferentAncestor kind) =
     ''selected '' @ need_label li left @ '' under '' @ kind @ '' '' @ ancestor_nodes g left kind @ '' and '' @
     need_label ri right @ '' under '' @ kind @ '' '' @ ancestor_nodes g right kind"
| "selected_note g li left ri right RelContains =
     ''selected containment-related '' @ need_label li left @ '' and '' @ need_label ri right"
| "selected_note g li left ri right RelConnected =
     ''selected connected '' @ need_label li left @ '' and '' @ need_label ri right"
| "selected_note g li left ri right RelCachedOn =
     ''selected cache-related '' @ need_label li left @ '' and '' @ need_label ri right"

text \<open>The traced failures whose constraint and groups exist, with the constraint.\<close>

definition traced_constraints ::
    "claim list list \<Rightarrow> request \<Rightarrow> topology_trace \<Rightarrow> (nat \<times> topology_failure \<times> topology_constraint) list" where
  "traced_constraints picked r trace =
     List.map_filter (\<lambda>(index, failure).
         if index < length (r_topology r) \<and> tc_left (r_topology r ! index) < length picked \<and>
            tc_right (r_topology r ! index) < length picked
         then Some (index, failure, r_topology r ! index) else None) (btree_entries trace)"

definition topology_notes :: "graph \<Rightarrow> claim list list \<Rightarrow> request \<Rightarrow> topology_trace \<Rightarrow> string list" where
  "topology_notes g picked r trace =
     map (\<lambda>(index, failure, c).
         ''topology['' @ show_nat index @ ''] '' @ relation_name (tc_relation c) @ '' constrained placement (rejected '' @
         display_node (tf_left failure) @ '' vs '' @ display_node (tf_right failure) @ ''); '' @
         selected_note g (tc_left c) (picked ! tc_left c) (tc_right c) (picked ! tc_right c) (tc_relation c))
       (traced_constraints picked r trace)"

definition placement_reasons ::
    "graph \<Rightarrow> occupancy \<Rightarrow> request \<Rightarrow> pack_mode \<Rightarrow> claim list list \<Rightarrow> topology_trace \<Rightarrow> (placement_reason list, error) result" where
  "placement_reasons g occ r mode picked trace =
     and_then
       (each_claim picked (\<lambda>index chosen cl.
          and_then (score_node (explain_ctx g occ r mode picked index) chosen (c_node cl)) (\<lambda>score.
            Ok (CandidateScore (c_node cl) score (sorted_list_of_set (set (filter (caches g (c_node cl)) (r_data r))))
                  (degraded_ancestor g (c_node cl))))))
       (\<lambda>scores. Ok (scores @
          map (\<lambda>(index, failure, c).
              TopologyConstraint index (tc_relation c) (map c_node (picked ! tc_left c)) (map c_node (picked ! tc_right c))
                (Some (tf_left failure, tf_right failure)))
            (traced_constraints picked r trace)))"

definition notes_suffix :: "string list \<Rightarrow> string" where
  "notes_suffix notes = (if notes = [] then '''' else ''; '' @ join ''; '' notes)"

definition machine_allocation ::
    "graph \<Rightarrow> request \<Rightarrow> pack_mode \<Rightarrow> node_id \<Rightarrow> claim list \<Rightarrow> string list \<Rightarrow> placement_reason list \<Rightarrow> allocation" where
  "machine_allocation g r mode machine claims notes reasons =
     \<lparr>a_claims = claims, a_graph_revision = g_revision g,
      a_explanation =
        \<lparr>x_summary = debug_request_class (r_class r) @ '' '' @ debug_pack_mode mode @ '' selected '' @
            show_nat (length claims) @ '' claims on '' @ display_node machine @ notes_suffix notes,
         x_reasons = MachineSelected machine # reasons\<rparr>\<rparr>"

section \<open>Backtracking on one machine\<close>

definition FALLBACK_SEARCH_BUDGET :: nat where
  "FALLBACK_SEARCH_BUDGET = 4096"

record machine_search =
  ms_graph :: graph
  ms_occupancy :: occupancy
  ms_request :: request
  ms_quarantine :: "node_id set"
  ms_allowed :: "node_id set"

text \<open>What the search changes: the groups picked so far, the trace and the remaining budget.\<close>

record search_state =
  ss_picked :: "claim list list"
  ss_trace :: topology_trace
  ss_budget :: nat

definition consume :: "search_state \<Rightarrow> search_state option" where
  "consume st = (if ss_budget st = 0 then None else Some (st\<lparr>ss_budget := ss_budget st - 1\<rparr>))"

definition set_group :: "nat \<Rightarrow> claim list \<Rightarrow> search_state \<Rightarrow> search_state" where
  "set_group index claims st = st\<lparr>ss_picked := (ss_picked st)[index := claims]\<rparr>"

text \<open>\<^verbatim>\<open>topology_holds_traced\<close> on the groups of the search.\<close>

definition check_topology :: "machine_search \<Rightarrow> search_state \<Rightarrow> search_state \<times> bool" where
  "check_topology S st =
     (case topology_holds_traced (ms_graph S) (ss_picked st) (ms_request S) (ss_trace st) of
        (trace, holds) \<Rightarrow> (st\<lparr>ss_trace := trace\<rparr>, holds))"

text \<open>The first part of \<^verbatim>\<open>MachineSearch::needs\<close>: the ranked candidates of a need, \<open>None\<close> when there are none.\<close>

definition search_candidates ::
    "machine_search \<Rightarrow> need \<Rightarrow> claim list list \<Rightarrow> (node_id list option, error) result" where
  "search_candidates S n picked =
     and_then (candidates (ms_graph S) (ms_occupancy S) n (ms_quarantine S)) (\<lambda>all.
       let cands = filter (\<lambda>i. i \<in> ms_allowed S) all in
       if cands = [] then Ok None
       else and_then (rank \<lparr>sc_graph = ms_graph S, sc_occupancy = ms_occupancy S, sc_request = ms_request S,
                            sc_already = picked, sc_mode = select_mode (ms_request S),
                            sc_memory_want = quantity_get (consumable_quantity n) Bytes\<rparr> [] cands)
              (\<lambda>ranked. Ok (Some ranked)))"

type_synonym search_outcome = "search_state \<times> (bool, error) result"

text \<open>
  The mutually recursive methods \<^verbatim>\<open>needs\<close> and \<^verbatim>\<open>group\<close> with their loops as functions of their own. The needs from
  \<^verbatim>\<open>index\<close> on and the ranked nodes from \<^verbatim>\<open>start\<close> on are passed as lists.
\<close>

function (sequential) search_needs :: "machine_search \<Rightarrow> nat \<Rightarrow> need list \<Rightarrow> search_state \<Rightarrow> search_outcome"
and search_consumable :: "machine_search \<Rightarrow> nat \<Rightarrow> need \<Rightarrow> need list \<Rightarrow> node_id list \<Rightarrow> search_state \<Rightarrow> search_outcome"
and search_group ::
    "machine_search \<Rightarrow> nat \<Rightarrow> need \<Rightarrow> need list \<Rightarrow> node_id list \<Rightarrow> claim list \<Rightarrow> search_state \<Rightarrow> search_outcome"
and search_group_loop ::
    "machine_search \<Rightarrow> nat \<Rightarrow> need \<Rightarrow> need list \<Rightarrow> node_id list \<Rightarrow> claim list \<Rightarrow> search_state \<Rightarrow> search_outcome"
where
  "search_needs S index [] st = (case check_topology S st of (st', holds) \<Rightarrow> (st', Ok holds))"
| "search_needs S index (n # ns) st =
     (case search_candidates S n (ss_picked st) of
        Err e \<Rightarrow> (st, Err e)
      | Ok None \<Rightarrow> (st, Ok False)
      | Ok (Some ranked) \<Rightarrow>
          if is_consumable_need n then search_consumable S index n ns ranked st
          else search_group S index n ns ranked [] st)"
| "search_consumable S index n ns [] st = (st, Ok False)"
| "search_consumable S index n ns (i # rest) st =
     (case consume st of
        None \<Rightarrow> (st, Ok False)
      | Some st1 \<Rightarrow>
          let cl = \<lparr>c_node = i, c_quantity = consumable_quantity n\<rparr> in
          (case can_cover (ms_occupancy S) (ms_graph S) cl of
             Err e \<Rightarrow> (st1, Err e)
           | Ok False \<Rightarrow> search_consumable S index n ns rest st1
           | Ok True \<Rightarrow>
               (case check_topology S (set_group index [cl] st1) of
                  (st2, holds) \<Rightarrow>
                    (case (if holds then search_needs S (Suc index) ns st2 else (st2, Ok False)) of
                       (st3, Ok False) \<Rightarrow> search_consumable S index n ns rest (set_group index [] st3)
                     | done1 \<Rightarrow> done1))))"
| "search_group S index n ns nodes chosen st =
     (if length chosen = need_count n then search_needs S (Suc index) ns st
      else search_group_loop S index n ns nodes chosen st)"
| "search_group_loop S index n ns [] chosen st = (st, Ok False)"
| "search_group_loop S index n ns (i # rest) chosen st =
     (case consume st of
        None \<Rightarrow> (st, Ok False)
      | Some st1 \<Rightarrow>
          let cl = \<lparr>c_node = i, c_quantity = qty Count 1\<rparr> in
          (case can_cover (ms_occupancy S) (ms_graph S) cl of
             Err e \<Rightarrow> (st1, Err e)
           | Ok False \<Rightarrow> search_group_loop S index n ns rest chosen st1
           | Ok True \<Rightarrow>
               (case check_topology S (set_group index (chosen @ [cl]) st1) of
                  (st2, holds) \<Rightarrow>
                    (case (if holds then search_group S index n ns rest (chosen @ [cl]) st2 else (st2, Ok False)) of
                       (st3, Ok False) \<Rightarrow> search_group_loop S index n ns rest chosen (set_group index chosen st3)
                     | done1 \<Rightarrow> done1))))"
  by pat_completeness auto

termination
  by (relation "measures [
      \<lambda>x. case x of Inl (Inl (S, index, ns, st)) \<Rightarrow> 2 * length ns
        | Inl (Inr (S, index, n, ns, nodes, st)) \<Rightarrow> 2 * length ns + 1
        | Inr (Inl (S, index, n, ns, nodes, chosen, st)) \<Rightarrow> 2 * length ns + 1
        | Inr (Inr (S, index, n, ns, nodes, chosen, st)) \<Rightarrow> 2 * length ns + 1,
      \<lambda>x. case x of Inl (Inl (S, index, ns, st)) \<Rightarrow> 0
        | Inl (Inr (S, index, n, ns, nodes, st)) \<Rightarrow> length nodes
        | Inr (Inl (S, index, n, ns, nodes, chosen, st)) \<Rightarrow> 2 * length nodes + 1
        | Inr (Inr (S, index, n, ns, nodes, chosen, st)) \<Rightarrow> 2 * length nodes]") simp_all

section \<open>Placing a request\<close>

text \<open>The loop over the needs, with the groups picked so far and their notes.\<close>

fun greedy_needs ::
    "select_ctx \<Rightarrow> node_id set option \<Rightarrow> need list \<Rightarrow> claim list list \<Rightarrow> string list \<Rightarrow> topology_trace \<Rightarrow>
     topology_trace \<times> (claim list list \<times> string list, error) result" where
  "greedy_needs se allowed [] picked notes trace = (trace, Ok (picked, notes))"
| "greedy_needs se allowed (n # ns) picked notes trace =
     (case select_need_in se n picked allowed trace of
        (trace', Err e) \<Rightarrow> (trace', Err e)
      | (trace', Ok (claims, need_notes)) \<Rightarrow>
          greedy_needs se allowed ns (picked @ [claims]) (notes @ need_notes) trace')"

definition accept_on_machine ::
    "select_ctx \<Rightarrow> node_id \<Rightarrow> claim list list \<Rightarrow> string list \<Rightarrow> topology_trace \<Rightarrow> (allocation, error) result" where
  "accept_on_machine se machine picked notes trace =
     and_then (placement_reasons (se_graph se) (se_occupancy se) (se_request se) (se_mode se) picked trace)
       (\<lambda>reasons. Ok (machine_allocation (se_graph se) (se_request se) (se_mode se) machine (concat picked)
          (notes @ topology_notes (se_graph se) picked (se_request se) trace) reasons))"

definition no_machine :: "request \<Rightarrow> error" where
  "no_machine r =
     Refused (if r_topology r = [] then ''no single machine hosts every need of this workload''
              else ''no single machine satisfies every need and topology constraint of this workload'')"

definition machine_scope :: "graph \<Rightarrow> node_id \<Rightarrow> node_id set" where
  "machine_scope g machine = insert machine (set (descendants g machine))"

definition fallback_search :: "select_ctx \<Rightarrow> node_id \<Rightarrow> topology_trace \<Rightarrow> search_outcome" where
  "fallback_search se machine trace =
     search_needs
       \<lparr>ms_graph = se_graph se, ms_occupancy = se_occupancy se, ms_request = se_request se,
        ms_quarantine = se_quarantine se, ms_allowed = machine_scope (se_graph se) machine\<rparr>
       0 (r_needs (se_request se))
       \<lparr>ss_picked = replicate (length (r_needs (se_request se))) [], ss_trace = trace,
        ss_budget = FALLBACK_SEARCH_BUDGET\<rparr>"

fun try_machines :: "select_ctx \<Rightarrow> node_id list \<Rightarrow> topology_trace \<Rightarrow> (allocation, error) result" where
  "try_machines se [] trace = Err (no_machine (se_request se))"
| "try_machines se (machine # rest) trace =
     (if blocked_by (se_graph se) (se_quarantine se) machine then try_machines se rest trace
      else case greedy_needs se (Some (machine_scope (se_graph se) machine)) (r_needs (se_request se)) [] [] trace of
        (trace1, greedy) \<Rightarrow>
          (case (case greedy of
                   Err _ \<Rightarrow> None
                 | Ok (picked, notes) \<Rightarrow>
                     if topology_holds (se_graph se) picked (se_request se) then Some (picked, notes) else None) of
             Some (picked, notes) \<Rightarrow> accept_on_machine se machine picked notes trace1
           | None \<Rightarrow>
               if r_topology (se_request se) = [] then try_machines se rest trace1
               else case fallback_search se machine trace1 of
                      (st, Err e) \<Rightarrow> Err e
                    | (st, Ok True) \<Rightarrow>
                        and_then (selection_notes (se_graph se) (se_occupancy se) (se_request se) (se_mode se) (ss_picked st))
                          (\<lambda>notes. accept_on_machine se machine (ss_picked st) notes (ss_trace st))
                    | (st, Ok False) \<Rightarrow> try_machines se rest (ss_trace st)))"

definition select_one_machine :: "select_ctx \<Rightarrow> (allocation, error) result" where
  "select_one_machine se = try_machines se (nodes_of_class (se_graph se) Machine) btree_empty"

definition select_needs :: "select_ctx \<Rightarrow> (allocation, error) result" where
  "select_needs se =
     (case greedy_needs se None (r_needs (se_request se)) [] [] btree_empty of
        (trace, Err e) \<Rightarrow> Err e
      | (trace, Ok (picked, notes)) \<Rightarrow>
          if \<not> topology_holds (se_graph se) picked (se_request se) then
            Err (Refused ''topology constraints were not satisfied'')
          else
            and_then (placement_reasons (se_graph se) (se_occupancy se) (se_request se) (se_mode se) picked trace)
              (\<lambda>reasons. Ok \<lparr>a_claims = concat picked, a_graph_revision = g_revision (se_graph se),
                 a_explanation =
                   \<lparr>x_summary = debug_request_class (r_class (se_request se)) @ '' '' @ debug_pack_mode (se_mode se) @
                       '' selected '' @ show_nat (length (concat picked)) @ '' claims'' @
                       notes_suffix (notes @ topology_notes (se_graph se) picked (se_request se) trace),
                    x_reasons = reasons\<rparr>\<rparr>))"

definition select :: "graph \<Rightarrow> occupancy \<Rightarrow> request \<Rightarrow> node_id set \<Rightarrow> (allocation, error) result" where
  "select g occ r quarantine =
     (if list_ex (\<lambda>c. tc_left c \<ge> length (r_needs r) \<or> tc_right c \<ge> length (r_needs r)) (r_topology r) then
        Err (Refused ''topology constraint names a nonexistent need'')
      else
        let se = \<lparr>se_graph = g, se_occupancy = occ, se_request = r, se_mode = select_mode r,
                  se_quarantine = quarantine\<rparr> in
        if r_machine_local r \<and> length (r_needs r) > 1 then select_one_machine se else select_needs se)"

end
