(* ===== verification/Placement.thy ===== *)
theory Placement
  imports Kernel_Select "HOL-Library.Multiset"
begin

text \<open>
  What a placement has to be and that every way to find one delivers it: the candidates of a need are the eligible
  nodes, the rank is an ordered permutation of them, the greedy choice and the backtracking search answer each
  need with a group of claims on eligible nodes, and the search misses no placement while its budget lasts.
\<close>

section \<open>Specification\<close>

text \<open>A node that may serve one unit of a need.\<close>

definition eligible :: "graph \<Rightarrow> occupancy \<Rightarrow> node_id set \<Rightarrow> need \<Rightarrow> node_id \<Rightarrow> bool" where
  "eligible g occ quarantine n i \<longleftrightarrow>
     (\<exists>nd. graph_node g i = Some nd \<and> n_kind nd = nd_kind n \<and> filters_match n nd) \<and>
     is_ok (claim_binding_for_quantity g i (need_unit n)) \<and> \<not> blocked_by g quarantine i \<and>
     can_cover occ g \<lparr>c_node = i, c_quantity = need_unit n\<rparr> = Ok True"

text \<open>The number of claims a need asks for.\<close>

definition group_size :: "need \<Rightarrow> nat" where
  "group_size n = (if is_consumable_need n then 1 else need_count n)"

text \<open>A group of claims that answers a need.\<close>

definition answers :: "graph \<Rightarrow> occupancy \<Rightarrow> node_id set \<Rightarrow> node_id set \<Rightarrow> need \<Rightarrow> claim list \<Rightarrow> bool" where
  "answers g occ quarantine allowed n claims \<longleftrightarrow>
     length claims = group_size n \<and>
     (\<forall>cl\<in>set claims. eligible g occ quarantine n (c_node cl) \<and> c_quantity cl = need_unit n \<and> c_node cl \<in> allowed)"

text \<open>The constraints of a request, as the source documents them.\<close>

definition respects_topology :: "graph \<Rightarrow> request \<Rightarrow> claim list list \<Rightarrow> bool" where
  "respects_topology g r picked \<longleftrightarrow>
     distinct (map c_node (concat picked)) \<and>
     (\<forall>c\<in>set (r_topology r). tc_left c < length picked \<longrightarrow> tc_right c < length picked \<longrightarrow>
        (\<forall>a\<in>set (picked ! tc_left c). \<forall>b\<in>set (picked ! tc_right c). satisfies g (c_node a) (c_node b) (tc_relation c)))"

definition placement_for ::
    "graph \<Rightarrow> occupancy \<Rightarrow> node_id set \<Rightarrow> node_id set \<Rightarrow> request \<Rightarrow> claim list list \<Rightarrow> bool" where
  "placement_for g occ quarantine allowed r picked \<longleftrightarrow>
     list_all2 (answers g occ quarantine allowed) (r_needs r) picked \<and> respects_topology g r picked"

section \<open>Candidates and their rank\<close>

lemma try_fold_filter:
  assumes "\<And>x out. x \<in> set xs \<Longrightarrow> f x out = Ok (if P x then out @ [x] else out)"
  shows "try_fold f xs out = Ok (out @ filter P xs)"
  using assms by (induction xs arbitrary: out) simp_all

lemma graph_node_id: "graph_wf g \<Longrightarrow> graph_node g i = Some nd \<Longrightarrow> n_id nd = i"
  by (simp add: graph_wf_def facts_wf_def graph_node_def)

lemma nodes_of_class_known:
  assumes "graph_wf g" and "i \<in> set (nodes_of_class g kind)"
  obtains nd where "graph_node g i = Some nd" and "n_kind nd = kind"
  using assms by (auto simp: nodes_of_class_iff graph_wf_def node_has_kind_def split: option.splits)

lemma candidates_eq:
  assumes "graph_wf g"
  shows "candidates g occ n quarantine =
    (if nd_kind n = DataObject then Err (Refused ''data objects are locality hints, not claimable resources'')
     else Ok (filter (eligible g occ quarantine n) (nodes_of_class g (nd_kind n))))"
proof -
  have step: "(case graph_node g i of
          None \<Rightarrow> Err (UnknownNode i)
        | Some nd \<Rightarrow>
            if \<not> is_ok (claim_binding_for_quantity g i (need_unit n)) then Ok out
            else if blocked_by g quarantine (n_id nd) then Ok out
            else if \<not> filters_match n nd then Ok out
            else and_then (can_cover occ g \<lparr>c_node = i, c_quantity = need_unit n\<rparr>)
                   (\<lambda>ok. Ok (if ok then out @ [i] else out))) =
      Ok (if eligible g occ quarantine n i then out @ [i] else out)"
    if i: "i \<in> set (nodes_of_class g (nd_kind n))" for i out
  proof -
    from assms i obtain nd where nd: "graph_node g i = Some nd" "n_kind nd = nd_kind n" by (rule nodes_of_class_known)
    obtain ok where ok: "can_cover occ g \<lparr>c_node = i, c_quantity = need_unit n\<rparr> = Ok ok"
      using nd(1) by (simp add: can_cover_def remaining_def)
    show ?thesis using nd ok graph_node_id [OF assms nd(1)] by (simp add: eligible_def)
  qed
  show ?thesis unfolding candidates_def using try_fold_filter [OF step] by simp
qed

lemma sum_parts_Ok: "score_node ctx chosen i = Ok s \<longleftrightarrow>
    (\<exists>m. memory_score ctx i = Ok m \<and>
      s = pack_score ctx (extras (sc_already ctx) chosen) i + preference_score ctx i + data_score ctx i + health_score ctx i + m)"
  by (auto simp: score_node_def and_then_eq_Ok)

lemma rank_Ok:
  assumes "rank ctx chosen cands = Ok ranked"
  shows "mset ranked = mset cands"
    and "sorted_wrt (\<lambda>i j. \<exists>s t. score_node ctx chosen i = Ok s \<and> score_node ctx chosen j = Ok t \<and> (t < s \<or> s = t \<and> i \<le> j)) ranked"
proof -
  let ?key = "\<lambda>(s, n). (- s, n) :: int \<times> node_id"
  obtain scored where "list_all2 (\<lambda>n y. and_then (score_node ctx chosen n) (\<lambda>s. Ok (s, n)) = Ok y) cands scored"
      and ranked: "ranked = map snd (sort_key ?key scored)"
    using assms by (auto simp: rank_def and_then_eq_Ok try_map_eq_Ok)
  then have scored: "list_all2 (\<lambda>n y. score_node ctx chosen n = Ok (fst y) \<and> snd y = n) cands scored"
    by (elim list_all2_mono) (auto simp: and_then_eq_Ok)
  have "map snd scored = cands"
    using scored by (induction rule: list_all2_induct) simp_all
  moreover have "mset ranked = mset (map snd scored)" unfolding ranked by simp
  ultimately show "mset ranked = mset cands" by simp
  have sc: "score_node ctx chosen (snd y) = Ok (fst y)" if "y \<in> set scored" for y
    using scored that by (induction rule: list_all2_induct) auto
  have "sorted_wrt (\<lambda>x y. ?key x \<le> ?key y) (sort_key ?key scored)"
    using sorted_sort_key [of ?key scored] by (simp add: sorted_map)
  then have "sorted_wrt (\<lambda>x y. \<exists>s t. score_node ctx chosen (snd x) = Ok s \<and> score_node ctx chosen (snd y) = Ok t \<and>
      (t < s \<or> s = t \<and> snd x \<le> snd y)) (sort_key ?key scored)"
    by (rule sorted_wrt_mono_rel [rotated]) (auto simp: sc less_eq_prod_def)
  then show "sorted_wrt (\<lambda>i j. \<exists>s t. score_node ctx chosen i = Ok s \<and> score_node ctx chosen j = Ok t \<and>
      (t < s \<or> s = t \<and> i \<le> j)) ranked"
    unfolding ranked by (simp add: sorted_wrt_map)
qed

lemma rank_set: "rank ctx chosen cands = Ok ranked \<Longrightarrow> set ranked = set cands"
  using rank_Ok(1) by (metis set_mset_mset)

section \<open>Topology\<close>

lemma constraint_failure_None:
  "constraint_failure g picked (k, c) = None \<longleftrightarrow>
     (tc_left c < length picked \<longrightarrow> tc_right c < length picked \<longrightarrow>
        (\<forall>a\<in>set (picked ! tc_left c). \<forall>b\<in>set (picked ! tc_right c). satisfies g (c_node a) (c_node b) (tc_relation c)))"
  by (auto simp: constraint_failure_def not_le)

lemma topology_holds_iff: "topology_holds g picked r \<longleftrightarrow> respects_topology g r picked"
proof -
  have "topology_failure_of g picked r = None \<longleftrightarrow>
      (\<forall>k < length (r_topology r). constraint_failure g picked (k, r_topology r ! k) = None)"
    by (auto simp: topology_failure_of_def in_set_enumerate_eq)
  also have "\<dots> \<longleftrightarrow> (\<forall>c\<in>set (r_topology r). tc_left c < length picked \<longrightarrow> tc_right c < length picked \<longrightarrow>
        (\<forall>a\<in>set (picked ! tc_left c). \<forall>b\<in>set (picked ! tc_right c). satisfies g (c_node a) (c_node b) (tc_relation c)))"
    by (simp add: constraint_failure_None all_set_conv_all_nth [of "r_topology r"])
  finally show ?thesis by (simp add: topology_holds_def respects_topology_def claims_are_unique_def)
qed

lemma topology_traced:
  "topology_holds_traced g picked r trace = (trace', holds) \<Longrightarrow> holds \<longleftrightarrow> respects_topology g r picked"
  by (auto simp: topology_holds_traced_def topology_holds_def simp flip: topology_holds_iff split: if_splits option.splits)

lemma distinct_submset:
  assumes "distinct ys" and "mset xs \<subseteq># mset ys"
  shows "distinct xs"
proof -
  have "count (mset xs) x \<le> 1" for x
    using assms mset_subset_eq_count [OF assms(2), of x] by (cases "x \<in> set ys") (simp_all add: distinct_count_atmost_1 count_mset_0_iff [symmetric] del: count_mset_0_iff)
  then show ?thesis
    by (metis count_mset_0_iff distinct_count_atmost_1 le_antisym less_one not_le)
qed

text \<open>Fewer claims satisfy the constraints, too; their order inside a group does not matter.\<close>

lemma respects_topology_mono:
  assumes "list_all2 (\<lambda>a b. mset a \<subseteq># mset b) p p'" and "respects_topology g r p'"
  shows "respects_topology g r p"
proof -
  have "mset (concat p) \<subseteq># mset (concat p')"
    using assms(1) by (induction rule: list_all2_induct) (auto intro: subset_mset.add_mono)
  then have "mset (map c_node (concat p)) \<subseteq># mset (map c_node (concat p'))"
    by (simp add: image_mset_subseteq_mono)
  then have d: "distinct (map c_node (concat p))"
    using assms(2) unfolding respects_topology_def by (metis distinct_submset)
  have len: "length p = length p'" using assms(1) by (rule list_all2_lengthD)
  have sub: "set (p ! k) \<subseteq> set (p' ! k)" if "k < length p" for k
    using list_all2_nthD [OF assms(1) that] by (metis set_mset_mono set_mset_mset)
  show ?thesis
    using assms(2) d sub unfolding respects_topology_def len by blast
qed

section \<open>The greedy choice\<close>

definition scope_of :: "node_id set option \<Rightarrow> node_id set" where
  "scope_of allowed = (case allowed of None \<Rightarrow> UNIV | Some s \<Rightarrow> s)"

abbreviation unit_claim :: "node_id \<Rightarrow> claim" where
  "unit_claim i \<equiv> \<lparr>c_node = i, c_quantity = qty Count 1\<rparr>"

lemma place_consumable_Ok:
  assumes "place_consumable ctx n nodes trace = (trace', Ok (claims, notes))"
  shows "\<exists>i\<in>set nodes. claims = [\<lparr>c_node = i, c_quantity = consumable_quantity n\<rparr>]"
  using assms
  by (induction ctx n nodes trace rule: place_consumable.induct)
    (auto simp: Let_def and_then_eq_Ok split: result.splits prod.splits if_splits)

lemma fill_group_Ok:
  assumes "fill_group ctx num nodes chosen notes trace = (trace', Ok (claims, notes'))"
  shows "\<exists>ids. claims = chosen @ map unit_claim ids \<and> set ids \<subseteq> set nodes"
  using assms
proof (induction ctx num nodes chosen "notes" trace rule: fill_group.induct)
  case (1 ctx num chosen nts0 trace)
  then show ?case by simp
next
  case (2 ctx num i rest chosen nts0 trace)
  have skip: "\<exists>ids. claims = c @ map unit_claim ids \<and> set ids \<subseteq> set (i # rest)"
    if "\<exists>ids. claims = c @ map unit_claim ids \<and> set ids \<subseteq> set rest" for c
    using that by auto
  obtain trace1 holds where t: "topology_holds_traced (sc_graph ctx) (sc_already ctx @ [chosen @ [unit_claim i]])
      (sc_request ctx) trace = (trace1, holds)" by fastforce
  consider "num \<le> length chosen" | "\<not> num \<le> length chosen" "\<not> holds"
    | score where "\<not> num \<le> length chosen" "holds" "score_node ctx chosen i = Ok score"
    using 2(3) t by (cases "num \<le> length chosen"; cases holds; cases "score_node ctx chosen i") (simp_all add: Let_def)
  then show ?case
  proof cases
    case 1
    with 2(3) show ?thesis by simp
  next
    case 2
    with "2.IH"(2) [OF 2(1) refl t [symmetric] 2(2)] "2.prems" t show ?thesis by (intro skip) simp
  next
    case 3
    with "2.IH"(1) [OF 3(1) refl t [symmetric] 3(2,3)] "2.prems" t obtain ids where
      "claims = (chosen @ [unit_claim i]) @ map unit_claim ids" "set ids \<subseteq> set rest" by auto
    then show ?thesis by (intro exI [of _ "i # ids"]) auto
  qed
qed

lemma group_by_machine_members:
  assumes "group_by_machine g ranked = (machines, by_machine)" and "i \<in> set (btree_get_or [] by_machine m)"
  shows "i \<in> set ranked \<and> machine_of g i = Some m"
proof -
  let ?P = "\<lambda>(machines :: node_id list, by_machine). \<forall>m. \<forall>i\<in>set (btree_get_or [] by_machine m).
      i \<in> set ranked \<and> machine_of g i = Some m"
  have "?P (group_by_machine g ranked)"
    unfolding group_by_machine_def
    by (rule fold_invariant_set) (auto simp: btree_get_or_def split: option.splits if_splits prod.splits)
  with assms show ?thesis by auto
qed

lemma place_on_machines_Ok:
  assumes "place_on_machines ctx n num by_machine machines trace = (trace', Ok (claims, notes))"
  shows "length claims = num \<and>
    (\<exists>m ids. claims = map unit_claim ids \<and> set ids \<subseteq> set (btree_get_or [] by_machine m))"
  using assms
proof (induction ctx n num by_machine machines trace rule: place_on_machines.induct)
  case (1 ctx n num by_machine trace)
  then show ?case by simp
next
  case (2 ctx n num by_machine m rest trace)
  obtain trace1 r where f: "fill_group ctx num (btree_get_or [] by_machine m) [] [] trace = (trace1, r)" by fastforce
  with 2(2) obtain cls nts where r: "r = Ok (cls, nts)" by (cases r) auto
  show ?case
  proof (cases "length cls = num")
    case True
    with 2(2) f r have "claims = cls" by simp
    with True fill_group_Ok [OF f [unfolded r]] show ?thesis by auto
  next
    case False
    with 2 f r show ?thesis by auto
  qed
qed

lemma select_spread_Ok:
  assumes "select_spread n ctx cands num trace = (trace', Ok (claims, notes))"
  shows "length claims = num \<and> (\<exists>ids. claims = map unit_claim ids \<and> set ids \<subseteq> set cands)"
  using assms
  by (auto simp: select_spread_def split: result.splits prod.splits if_splits dest!: fill_group_Ok dest: rank_set)

text \<open>The answer to a need, and that it stays on one machine where the request asks for that.\<close>

lemma select_need_in_Ok:
  fixes se n already allowed trace
  defines "g \<equiv> se_graph se"
  assumes "graph_wf g" and "select_need_in se n already allowed trace = (trace', Ok (claims, notes))"
  shows "answers g (se_occupancy se) (se_quarantine se) (scope_of allowed) n claims"
    and "r_machine_local (se_request se) \<Longrightarrow> \<not> is_consumable_need n \<Longrightarrow>
      \<exists>m. \<forall>cl\<in>set claims. machine_of g (c_node cl) = Some m"
proof -
  let ?E = "eligible g (se_occupancy se) (se_quarantine se) n"
  let ?ctx = "\<lambda>want. \<lparr>sc_graph = g, sc_occupancy = se_occupancy se, sc_request = se_request se, sc_already = already,
      sc_mode = se_mode se, sc_memory_want = want\<rparr>"
  define cands where "cands = allowed_nodes allowed (filter ?E (nodes_of_class g (nd_kind n)))"
  have cands: "?E i" "i \<in> scope_of allowed" if "i \<in> set cands" for i
    using that by (auto simp: cands_def allowed_nodes_def scope_of_def split: option.splits)
  note out = assms(3) [unfolded select_need_in_def Let_def, folded g_def]
  have units: "answers g (se_occupancy se) (se_quarantine se) (scope_of allowed) n (map unit_claim ids)"
    if "\<not> is_consumable_need n" "length ids = need_count n" "set ids \<subseteq> set cands" for ids
    using that cands by (auto simp: answers_def group_size_def need_unit_def)
  consider (consumable) ranked where "is_consumable_need n" "rank (?ctx (quantity_get (consumable_quantity n) Bytes)) [] cands = Ok ranked"
        "place_consumable (?ctx (quantity_get (consumable_quantity n) Bytes)) n ranked trace = (trace', Ok (claims, notes))"
    | (spread) "\<not> is_consumable_need n" "\<not> r_machine_local (se_request se)"
        "select_spread n (?ctx 0) cands (need_count n) trace = (trace', Ok (claims, notes))"
    | (machine) ranked machines by_machine where "\<not> is_consumable_need n" "rank (?ctx 0) [] cands = Ok ranked"
        "group_by_machine g ranked = (machines, by_machine)"
        "place_on_machines (?ctx 0) n (need_count n) by_machine machines trace = (trace', Ok (claims, notes))"
    using out unfolding candidates_eq [OF assms(2)]
    by (auto simp: cands_def split: if_splits result.splits prod.splits)
  then have "answers g (se_occupancy se) (se_quarantine se) (scope_of allowed) n claims \<and>
      (r_machine_local (se_request se) \<longrightarrow> \<not> is_consumable_need n \<longrightarrow> (\<exists>m. \<forall>cl\<in>set claims. machine_of g (c_node cl) = Some m))"
  proof cases
    case consumable
    then obtain i where "i \<in> set cands" "claims = [\<lparr>c_node = i, c_quantity = consumable_quantity n\<rparr>]"
      using place_consumable_Ok rank_set by blast
    with consumable(1) cands show ?thesis by (simp add: answers_def group_size_def need_unit_def)
  next
    case spread
    with select_spread_Ok [OF spread(3)] units show ?thesis by auto
  next
    case machine
    from place_on_machines_Ok [OF machine(4)] obtain m ids where claims: "claims = map unit_claim ids"
        and len: "length claims = need_count n" and sub: "set ids \<subseteq> set (btree_get_or [] by_machine m)" by blast
    have "i \<in> set cands \<and> machine_of g i = Some m" if "i \<in> set ids" for i
      using group_by_machine_members [OF machine(3)] sub that rank_set [OF machine(2)] by blast
    with claims len machine(1) units show ?thesis by auto
  qed
  then show "answers g (se_occupancy se) (se_quarantine se) (scope_of allowed) n claims"
    and "r_machine_local (se_request se) \<Longrightarrow> \<not> is_consumable_need n \<Longrightarrow>
      \<exists>m. \<forall>cl\<in>set claims. machine_of g (c_node cl) = Some m"
    by blast+
qed

text \<open>What one group has to satisfy: it answers the need, on one machine where that is asked for.\<close>

definition group_for :: "select_ctx \<Rightarrow> node_id set \<Rightarrow> need \<Rightarrow> claim list \<Rightarrow> bool" where
  "group_for se allowed n claims \<longleftrightarrow>
     answers (se_graph se) (se_occupancy se) (se_quarantine se) allowed n claims \<and>
     (r_machine_local (se_request se) \<longrightarrow> \<not> is_consumable_need n \<longrightarrow>
        (\<exists>m. \<forall>cl\<in>set claims. machine_of (se_graph se) (c_node cl) = Some m))"

lemma greedy_needs_Ok:
  assumes "graph_wf (se_graph se)" and "greedy_needs se allowed ns picked notes trace = (trace', Ok (picked', notes'))"
  shows "\<exists>gs. picked' = picked @ gs \<and> list_all2 (group_for se (scope_of allowed)) ns gs"
  using assms
proof (induction se allowed ns picked "notes" trace rule: greedy_needs.induct)
  case (1 se allowed picked nts0 trace)
  then show ?case by simp
next
  case (2 se allowed n ns picked nts0 trace)
  from 2(3) obtain trace1 claims nts where s: "select_need_in se n picked allowed trace = (trace1, Ok (claims, nts))"
      and rest: "greedy_needs se allowed ns (picked @ [claims]) (nts0 @ nts) trace1 = (trace', Ok (picked', notes'))"
    by (auto split: prod.splits result.splits)
  from "2.IH" [OF s [symmetric] refl refl 2(2) rest] obtain gs where
    "picked' = (picked @ [claims]) @ gs" "list_all2 (group_for se (scope_of allowed)) ns gs" by blast
  moreover have "group_for se (scope_of allowed) n claims"
    using select_need_in_Ok [OF 2(2) s] by (simp add: group_for_def)
  ultimately show ?case by (intro exI [of _ "claims # gs"]) simp
qed

end
