(* ===== verification/Placement_Search.thy ===== *)
theory Placement_Search
  imports Placement "HOL-Library.Sublist"
begin

text \<open>
  The backtracking search on one machine: it answers with a placement, it restores the groups it tried when it
  fails, it never uses more than its budget, and when it fails with budget left no placement exists.
\<close>

section \<open>The outcome of a search\<close>

abbreviation need_claim :: "need \<Rightarrow> node_id \<Rightarrow> claim" where
  "need_claim n i \<equiv> \<lparr>c_node = i, c_quantity = need_unit n\<rparr>"

abbreviation searched :: "machine_search \<Rightarrow> need \<Rightarrow> claim list \<Rightarrow> bool" where
  "searched S \<equiv> answers (ms_graph S) (ms_occupancy S) (ms_quarantine S) (ms_allowed S)"

definition usable :: "machine_search \<Rightarrow> need \<Rightarrow> node_id \<Rightarrow> bool" where
  "usable S n i \<longleftrightarrow> eligible (ms_graph S) (ms_occupancy S) (ms_quarantine S) n i \<and> i \<in> ms_allowed S"

text \<open>Groups for the remaining needs that complete the groups chosen before.\<close>

definition completes :: "machine_search \<Rightarrow> claim list list \<Rightarrow> need list \<Rightarrow> claim list list \<Rightarrow> bool" where
  "completes S pre ns gs \<longleftrightarrow>
     list_all2 (searched S) ns gs \<and> respects_topology (ms_graph S) (ms_request S) (pre @ gs)"

fun outcome_ok ::
    "machine_search \<Rightarrow> claim list list \<Rightarrow> need list \<Rightarrow> search_state \<Rightarrow> bool \<Rightarrow> search_outcome \<Rightarrow> bool" where
  "outcome_ok S pre ns st possible (st', r) \<longleftrightarrow>
     ss_budget st' \<le> ss_budget st \<and>
     (r = Ok True \<longrightarrow> (\<exists>gs. ss_picked st' = pre @ gs \<and> completes S pre ns gs)) \<and>
     (r = Ok False \<longrightarrow> ss_picked st' = ss_picked st \<and> (0 < ss_budget st' \<longrightarrow> \<not> possible))"

lemma check_topology_eq:
  assumes "check_topology S st = (st', holds)"
  shows "ss_picked st' = ss_picked st \<and> ss_budget st' = ss_budget st \<and>
    (holds \<longleftrightarrow> respects_topology (ms_graph S) (ms_request S) (ss_picked st))"
  using assms topology_traced by (fastforce simp: check_topology_def split: prod.splits)

lemma consume_eq:
  "consume st = Some st' \<Longrightarrow> ss_picked st' = ss_picked st \<and> ss_budget st' < ss_budget st"
  by (auto simp: consume_def split: if_splits)

lemma set_group_eq [simp]:
  "ss_budget (set_group index x st) = ss_budget st" "ss_picked (set_group index x st) = (ss_picked st)[index := x]"
  by (simp_all add: set_group_def)

text \<open>One step of either loop: try a group, search on when the topology holds, otherwise go back and continue.\<close>

lemma outcome_branch:
  assumes picked: "ss_picked st = pre @ back # post" and st1: "consume st = Some st1"
    and check: "check_topology S (set_group (length pre) x st1) = (st2, holds)"
    and sub: "holds \<Longrightarrow> outcome_ok S pre ns st2 possible1 (sub st2)"
    and cont: "\<And>st3. ss_picked st3 = pre @ x # post \<Longrightarrow> (if holds then sub st2 else (st2, Ok False)) = (st3, Ok False) \<Longrightarrow>
        outcome_ok S pre ns (set_group (length pre) back st3) possible2 (cont (set_group (length pre) back st3))"
    and stuck: "possible1 \<Longrightarrow> respects_topology (ms_graph S) (ms_request S) (pre @ x # post)"
  shows "outcome_ok S pre ns st (possible1 \<or> possible2)
    (case (if holds then sub st2 else (st2, Ok False)) of
       (st3, Ok False) \<Rightarrow> cont (set_group (length pre) back st3)
     | done1 \<Rightarrow> done1)"
proof -
  note st1' = consume_eq [OF st1] and st2 = check_topology_eq [OF check]
  obtain st3 r where sr: "(if holds then sub st2 else (st2, Ok False)) = (st3, r)" by fastforce
  have holds: "\<not> holds \<Longrightarrow> \<not> possible1" and p2: "ss_picked st2 = pre @ x # post"
    using st2 stuck picked st1' by auto
  have out: "outcome_ok S pre ns st2 possible1 (st3, r)"
  proof (cases holds)
    case True
    then show ?thesis using sub sr by simp
  next
    case False
    then show ?thesis using sr holds by auto
  qed
  show ?thesis
  proof (cases "r = Ok False")
    case True
    with out p2 have p3: "ss_picked st3 = pre @ x # post" by simp
    obtain st4 r4 where c: "cont (set_group (length pre) back st3) = (st4, r4)" by fastforce
    have "outcome_ok S pre ns (set_group (length pre) back st3) possible2 (st4, r4)"
      using cont [OF p3] sr True c by simp
    then show ?thesis unfolding sr using True out c st1' st2 picked p3 by auto
  next
    case False
    then have "(case (st3, r) of (st3, Ok False) \<Rightarrow> cont (set_group (length pre) back st3) | done1 \<Rightarrow> done1) = (st3, r)"
      by (auto split: result.splits bool.splits)
    with False out st1' st2 show ?thesis unfolding sr by auto
  qed
qed

section \<open>Groups and topology\<close>

lemma grown_groups:
  assumes "respects_topology g r (pre @ y # gs)" and "mset x \<subseteq># mset y" and "length gs = k"
  shows "respects_topology g r (pre @ x # replicate k [])"
proof (rule respects_topology_mono [OF _ assms(1)], rule list_all2_appendI)
  show "list_all2 (\<lambda>a b. mset a \<subseteq># mset b) pre pre" by (simp add: list_all2_refl)
  show "list_all2 (\<lambda>a b. mset a \<subseteq># mset b) (x # replicate k []) (y # gs)"
    using assms(2,3) by (simp add: list_all2_conv_all_nth [of _ "replicate k []"])
qed

lemma completes_Cons:
  "completes S pre (n # ns) (x # gs) \<longleftrightarrow> searched S n x \<and> completes S (pre @ [x]) ns gs"
  by (auto simp: completes_def)

lemma completes_length: "completes S pre ns gs \<Longrightarrow> length gs = length ns"
  by (metis completes_def list_all2_lengthD)

lemma completes_respects:
  assumes "completes S (pre @ [y]) ns gs" and "mset x \<subseteq># mset y"
  shows "respects_topology (ms_graph S) (ms_request S) (pre @ x # replicate (length ns) [])"
  using grown_groups [of _ _ pre y gs x] assms completes_length [OF assms(1)] by (simp add: completes_def)

lemma need_claim_iff: "(\<exists>i. y = need_claim n i \<and> P i) \<longleftrightarrow> c_quantity y = need_unit n \<and> P (c_node y)"
  by (cases y) auto

lemma answers_one:
  assumes "is_consumable_need n"
  shows "searched S n x \<longleftrightarrow> (\<exists>i. x = [need_claim n i] \<and> usable S n i)"
  using assms by (auto simp: answers_def group_size_def usable_def length_Suc_conv need_claim_iff)

lemma answers_many:
  assumes "\<not> is_consumable_need n"
  shows "searched S n x \<longleftrightarrow> length x = need_count n \<and> (\<forall>cl\<in>set x. usable S n (c_node cl) \<and> c_quantity cl = need_unit n)"
  using assms by (auto simp: answers_def group_size_def usable_def)

lemma usable_covered: "usable S n i \<Longrightarrow> can_cover (ms_occupancy S) (ms_graph S) (need_claim n i) = Ok True"
  by (simp add: usable_def eligible_def)

lemma need_count_pos: "0 < need_count n"
  by (auto simp: need_count_def unat_gt_0 max_def)

section \<open>The candidates of a need\<close>

lemma distinct_nodes_of_class:
  assumes "graph_wf g"
  shows "distinct (nodes_of_class g kind)"
proof -
  have index: "btree_get_or [] (fold (\<lambda>n. btree_entry [] (\<lambda>ids. ids @ [n_id n]) (n_kind n)) ns m) k =
      btree_get_or [] m k @ map n_id (filter (\<lambda>n. n_kind n = k) ns)" for ns m k
    by (induction ns arbitrary: m) (auto simp: btree_get_or_def)
  have eq: "nodes_of_class g kind = btree_get_or []
      (btree_map_values sort (fold (\<lambda>n. btree_entry [] (\<lambda>ids. ids @ [n_id n]) (n_kind n)) (graph_nodes g) btree_empty)) kind"
    using assms unfolding graph_wf_def facts_wf_def nodes_of_class_def
    by (metis (no_types, lifting) graph.select_convs(6) graph.surjective graph.update_convs(6) rebuild_def)
  have "map n_id (graph_nodes g) = btree_keys (g_nodes g)"
    using assms by (auto simp: graph_nodes_def btree_values_def btree_keys_def graph_wf_def facts_wf_def)
  then have "distinct (map n_id (graph_nodes g))" by simp
  then show ?thesis
    using index [of "graph_nodes g" btree_empty kind] unfolding eq
    by (simp add: btree_get_or_def distinct_map_filter split: option.splits)
qed

lemma search_candidates_Ok:
  assumes "graph_wf (ms_graph S)" and "search_candidates S n picked = Ok r"
  shows "(r = None \<longrightarrow> (\<forall>i. \<not> usable S n i)) \<and> (\<forall>ranked. r = Some ranked \<longrightarrow> distinct ranked \<and> set ranked = {i. usable S n i})"
proof -
  define all where "all = filter (eligible (ms_graph S) (ms_occupancy S) (ms_quarantine S) n)
      (nodes_of_class (ms_graph S) (nd_kind n))"
  define cands where "cands = filter (\<lambda>i. i \<in> ms_allowed S) all"
  have set: "set cands = {i. usable S n i}"
    using assms(1) by (auto simp: cands_def all_def usable_def eligible_def nodes_of_class_iff graph_wf_def node_has_kind_def)
  have "distinct cands" using distinct_nodes_of_class [OF assms(1)] by (simp add: cands_def all_def)
  then have ranked: "distinct ranked \<and> set ranked = set cands" if "rank ctx [] cands = Ok ranked" for ctx ranked
    using rank_Ok(1) [OF that] by (metis mset_eq_imp_distinct_iff set_mset_mset)
  obtain "nd_kind n \<noteq> DataObject"
    using assms(2) by (cases "nd_kind n = DataObject") (simp_all add: search_candidates_def candidates_eq [OF assms(1)])
  then obtain ctx where "(if cands = [] then Ok None else and_then (rank ctx [] cands) (\<lambda>ranked. Ok (Some ranked))) = Ok r"
    using assms(2) unfolding search_candidates_def candidates_eq [OF assms(1)] all_def [symmetric]
    by (simp only: if_False and_then.simps Let_def cands_def [symmetric] simp_thms)
  then consider "cands = []" "r = None" | r' where "rank ctx [] cands = Ok r'" "r = Some r'"
    by (cases "cands = []"; cases "rank ctx [] cands") simp_all
  then show ?thesis by cases (use set ranked in auto)
qed

section \<open>The search\<close>

text \<open>What each of the four functions promises for a given call.\<close>

definition possible_group ::
    "machine_search \<Rightarrow> claim list list \<Rightarrow> need \<Rightarrow> need list \<Rightarrow> node_id list \<Rightarrow> claim list \<Rightarrow> bool" where
  "possible_group S pre n ns nodes chosen \<longleftrightarrow>
     (\<exists>ids gs. subseq ids nodes \<and> length chosen + length ids = need_count n \<and>
        completes S (pre @ [chosen @ map (need_claim n) ids]) ns gs)"

definition needs_ok :: "machine_search \<Rightarrow> nat \<Rightarrow> need list \<Rightarrow> search_state \<Rightarrow> bool" where
  "needs_ok S index ns st \<longleftrightarrow> graph_wf (ms_graph S) \<longrightarrow>
     (\<forall>pre. index = length pre \<longrightarrow> ss_picked st = pre @ replicate (length ns) [] \<longrightarrow>
        outcome_ok S pre ns st (\<exists>gs. completes S pre ns gs) (search_needs S index ns st))"

definition consumable_ok :: "machine_search \<Rightarrow> nat \<Rightarrow> need \<Rightarrow> need list \<Rightarrow> node_id list \<Rightarrow> search_state \<Rightarrow> bool" where
  "consumable_ok S index n ns nodes st \<longleftrightarrow> graph_wf (ms_graph S) \<longrightarrow> is_consumable_need n \<longrightarrow>
     (\<forall>i\<in>set nodes. usable S n i) \<longrightarrow>
     (\<forall>pre. index = length pre \<longrightarrow> ss_picked st = pre @ [] # replicate (length ns) [] \<longrightarrow>
        outcome_ok S pre (n # ns) st (\<exists>i\<in>set nodes. \<exists>gs. completes S (pre @ [[need_claim n i]]) ns gs)
          (search_consumable S index n ns nodes st))"

definition group_call ::
    "machine_search \<Rightarrow> nat \<Rightarrow> need \<Rightarrow> need list \<Rightarrow> node_id list \<Rightarrow> claim list \<Rightarrow> search_state \<Rightarrow> bool \<Rightarrow> search_outcome \<Rightarrow> bool" where
  "group_call S index n ns nodes chosen st unfilled out \<longleftrightarrow> graph_wf (ms_graph S) \<longrightarrow> \<not> is_consumable_need n \<longrightarrow>
     (\<forall>i\<in>set nodes. usable S n i) \<longrightarrow> (\<forall>cl\<in>set chosen. usable S n (c_node cl) \<and> c_quantity cl = need_unit n) \<longrightarrow>
     (if unfilled then length chosen < need_count n else length chosen \<le> need_count n) \<longrightarrow>
     (\<forall>pre. index = length pre \<longrightarrow> ss_picked st = pre @ chosen # replicate (length ns) [] \<longrightarrow>
        outcome_ok S pre (n # ns) st (possible_group S pre n ns nodes chosen) out)"

lemma outcome_ok_mono:
  assumes "outcome_ok S pre ns st possible out" and "possible' \<Longrightarrow> possible"
  shows "outcome_ok S pre ns st possible' out"
  using assms by (cases out) auto

text \<open>Searching on after a group is an outcome for the longer list of needs.\<close>

lemma outcome_ok_Cons:
  assumes "outcome_ok S (pre @ [x]) ns st possible out" and "searched S n x"
  shows "outcome_ok S pre (n # ns) st possible out"
proof -
  obtain st' r where out: "out = (st', r)" by fastforce
  have "\<exists>gs. ss_picked st' = pre @ gs \<and> completes S pre (n # ns) gs" if "r = Ok True"
  proof -
    from assms(1) that out obtain gs where "ss_picked st' = (pre @ [x]) @ gs" "completes S (pre @ [x]) ns gs" by auto
    with assms(2) show ?thesis by (intro exI [of _ "x # gs"]) (simp add: completes_Cons)
  qed
  with assms(1) out show ?thesis by auto
qed

lemma needs_ok_Nil: "needs_ok S index [] st"
proof -
  obtain st' holds where "check_topology S st = (st', holds)" by fastforce
  with check_topology_eq [OF this] show ?thesis by (auto simp: needs_ok_def completes_def)
qed

text \<open>Without a usable node nothing answers a need.\<close>

lemma unanswerable:
  assumes "\<forall>i. \<not> usable S n i"
  shows "\<not> completes S pre (n # ns) gs"
proof
  assume "completes S pre (n # ns) gs"
  then obtain x where x: "searched S n x" by (auto simp: completes_def list_all2_Cons1)
  then have "x \<noteq> []" using need_count_pos [of n] by (auto simp: answers_def group_size_def split: if_splits)
  then have "hd x \<in> set x" by simp
  with x assms show False by (auto simp: answers_def usable_def)
qed

text \<open>A group of units can be chosen in the order of the rank.\<close>

lemma completes_in_rank_order:
  assumes "\<not> is_consumable_need n" and "distinct ranked" and "set ranked = {i. usable S n i}"
    and "completes S pre (n # ns) gs"
  shows "possible_group S pre n ns ranked []"
proof -
  from assms(4) obtain x gs' where gs: "searched S n x" "completes S (pre @ [x]) ns gs'"
    by (auto simp: completes_Cons list_all2_Cons1 completes_def)
  define ids where "ids = filter (\<lambda>i. i \<in> c_node ` set x) ranked"
  have units: "x = map (need_claim n) (map c_node x)" using gs(1) by (simp add: answers_def map_idI)
  have "distinct (map c_node x)" using gs(2) by (simp add: completes_def respects_topology_def)
  moreover have "distinct ids" "set ids = set (map c_node x)"
    using assms(2,3) gs(1) by (auto simp: ids_def answers_many [OF assms(1)])
  ultimately have same: "mset ids = mset (map c_node x)" by (metis set_eq_iff_mset_eq_distinct)
  then have m: "mset (map (need_claim n) ids) = mset x" by (subst units) (metis mset_map)
  have "list_all2 (\<lambda>a b. mset a \<subseteq># mset b) ((pre @ [map (need_claim n) ids]) @ gs') ((pre @ [x]) @ gs')"
    by (intro list_all2_appendI) (simp_all add: list_all2_refl m [simplified])
  with gs(2) have "completes S (pre @ [[] @ map (need_claim n) ids]) ns gs'"
    by (auto simp: completes_def intro: respects_topology_mono)
  moreover have "length [] + length ids = need_count n"
    using same gs(1) by (metis add.left_neutral answers_many [OF assms(1)] length_map list.size(3) mset_eq_length)
  moreover have "subseq ids ranked" unfolding ids_def by (rule subseq_filter_left)
  ultimately show ?thesis unfolding possible_group_def by blast
qed

lemma needs_ok_Cons:
  assumes cons: "\<And>ranked. search_candidates S n (ss_picked st) = Ok (Some ranked) \<Longrightarrow> is_consumable_need n \<Longrightarrow>
      consumable_ok S index n ns ranked st"
    and grp: "\<And>ranked. search_candidates S n (ss_picked st) = Ok (Some ranked) \<Longrightarrow> \<not> is_consumable_need n \<Longrightarrow>
      group_call S index n ns ranked [] st False (search_group S index n ns ranked [] st)"
  shows "needs_ok S index (n # ns) st"
  unfolding needs_ok_def
proof (intro impI allI)
  fix pre
  assume wf: "graph_wf (ms_graph S)" and index: "index = length pre"
    and "ss_picked st = pre @ replicate (length (n # ns)) []"
  then have picked: "ss_picked st = pre @ [] # replicate (length ns) []" by simp
  consider e where "search_candidates S n (ss_picked st) = Err e" | "search_candidates S n (ss_picked st) = Ok None"
    | ranked where "search_candidates S n (ss_picked st) = Ok (Some ranked)"
    by (metis option.exhaust result.exhaust)
  then show "outcome_ok S pre (n # ns) st (\<exists>gs. completes S pre (n # ns) gs) (search_needs S index (n # ns) st)"
  proof cases
    case 1
    then show ?thesis by simp
  next
    case 2
    then show ?thesis using search_candidates_Ok [OF wf 2] by (simp add: unanswerable)
  next
    case 3
    have ranked: "distinct ranked" "set ranked = {i. usable S n i}" using search_candidates_Ok [OF wf 3] by simp_all
    show ?thesis
    proof (cases "is_consumable_need n")
      case True
      have "outcome_ok S pre (n # ns) st (\<exists>i\<in>set ranked. \<exists>gs. completes S (pre @ [[need_claim n i]]) ns gs)
          (search_consumable S index n ns ranked st)"
        using cons [OF 3 True] True wf index picked ranked(2) by (simp add: consumable_ok_def)
      moreover have "\<exists>i\<in>set ranked. \<exists>gs. completes S (pre @ [[need_claim n i]]) ns gs"
        if "\<exists>gs. completes S pre (n # ns) gs"
        using that ranked(2) by (auto simp: completes_def list_all2_Cons1 answers_one [OF True])
      ultimately have "outcome_ok S pre (n # ns) st (\<exists>gs. completes S pre (n # ns) gs) (search_consumable S index n ns ranked st)"
        by (rule outcome_ok_mono)
      with 3 True show ?thesis by simp
    next
      case False
      have "outcome_ok S pre (n # ns) st (possible_group S pre n ns ranked []) (search_group S index n ns ranked [] st)"
        using grp [OF 3 False] False wf index picked ranked(2) by (simp add: group_call_def)
      then have "outcome_ok S pre (n # ns) st (\<exists>gs. completes S pre (n # ns) gs) (search_group S index n ns ranked [] st)"
        by (rule outcome_ok_mono) (use completes_in_rank_order [OF False ranked] in blast)
      with 3 False show ?thesis by (simp del: search_group.simps)
    qed
  qed
qed

lemma consumable_ok_Nil: "consumable_ok S index n ns [] st"
  by (simp add: consumable_ok_def)

lemma consumable_ok_Cons:
  assumes sub: "\<And>st1 st2. consume st = Some st1 \<Longrightarrow>
      can_cover (ms_occupancy S) (ms_graph S) \<lparr>c_node = i, c_quantity = consumable_quantity n\<rparr> = Ok True \<Longrightarrow>
      check_topology S (set_group index [\<lparr>c_node = i, c_quantity = consumable_quantity n\<rparr>] st1) = (st2, True) \<Longrightarrow> needs_ok S (Suc index) ns st2"
    and cont: "\<And>st1 st2 holds st3. consume st = Some st1 \<Longrightarrow>
      can_cover (ms_occupancy S) (ms_graph S) \<lparr>c_node = i, c_quantity = consumable_quantity n\<rparr> = Ok True \<Longrightarrow>
      check_topology S (set_group index [\<lparr>c_node = i, c_quantity = consumable_quantity n\<rparr>] st1) = (st2, holds) \<Longrightarrow>
      (if holds then search_needs S (Suc index) ns st2 else (st2, Ok False)) = (st3, Ok False) \<Longrightarrow>
      consumable_ok S index n ns rest (set_group index [] st3)"
  shows "consumable_ok S index n ns (i # rest) st"
  unfolding consumable_ok_def
proof (intro impI allI)
  fix pre
  let ?p1 = "\<exists>gs. completes S (pre @ [[need_claim n i]]) ns gs"
  let ?p2 = "\<exists>i\<in>set rest. \<exists>gs. completes S (pre @ [[need_claim n i]]) ns gs"
  assume wf: "graph_wf (ms_graph S)" and n: "is_consumable_need n" and use: "\<forall>i\<in>set (i # rest). usable S n i"
    and index: "index = length pre" and picked: "ss_picked st = pre @ [] # replicate (length ns) []"
  have unit: "need_unit n = consumable_quantity n" using n by (simp add: need_unit_def)
  have covered: "can_cover (ms_occupancy S) (ms_graph S) (need_claim n i) = Ok True" using use usable_covered by simp
  show "outcome_ok S pre (n # ns) st (\<exists>i\<in>set (i # rest). \<exists>gs. completes S (pre @ [[need_claim n i]]) ns gs)
      (search_consumable S index n ns (i # rest) st)"
  proof (cases "consume st")
    case None
    then show ?thesis by (simp add: consume_def split: if_splits)
  next
    case (Some st1)
    obtain st2 holds where check: "check_topology S (set_group index [need_claim n i] st1) = (st2, holds)" by fastforce
    have p2: "ss_picked st2 = (pre @ [[need_claim n i]]) @ replicate (length ns) []"
      using check_topology_eq [OF check] consume_eq [OF Some] picked index by simp
    have "outcome_ok S pre (n # ns) st (?p1 \<or> ?p2)
        (case (if holds then search_needs S (Suc index) ns st2 else (st2, Ok False)) of
           (st3, Ok False) \<Rightarrow> search_consumable S index n ns rest (set_group (length pre) [] st3)
         | done1 \<Rightarrow> done1)"
    proof (rule outcome_branch [OF picked Some check [unfolded index]])
      assume holds
      with sub [OF Some covered [unfolded unit]] check [unfolded unit] wf p2 index
      have "outcome_ok S (pre @ [[need_claim n i]]) ns st2 ?p1 (search_needs S (Suc index) ns st2)"
        by (simp add: needs_ok_def)
      then show "outcome_ok S pre (n # ns) st2 ?p1 (search_needs S (Suc index) ns st2)"
        by (rule outcome_ok_Cons) (use use n in \<open>simp add: answers_one\<close>)
    next
      fix st3
      assume "ss_picked st3 = pre @ [need_claim n i] # replicate (length ns) []"
        and "(if holds then search_needs S (Suc index) ns st2 else (st2, Ok False)) = (st3, Ok False)"
      with cont [OF Some covered [unfolded unit] check [unfolded unit]] wf n use index
      show "outcome_ok S pre (n # ns) (set_group (length pre) [] st3) ?p2
          (search_consumable S index n ns rest (set_group (length pre) [] st3))"
        by (simp add: consumable_ok_def)
    next
      assume ?p1
      then show "respects_topology (ms_graph S) (ms_request S) (pre @ [need_claim n i] # replicate (length ns) [])"
        using completes_respects by blast
    qed
    moreover have "search_consumable S index n ns (i # rest) st =
        (case (if holds then search_needs S (Suc index) ns st2 else (st2, Ok False)) of
           (st3, Ok False) \<Rightarrow> search_consumable S index n ns rest (set_group (length pre) [] st3)
         | done1 \<Rightarrow> done1)"
      unfolding search_consumable.simps Some option.case Let_def covered [unfolded unit] result.case bool.case
        check [unfolded unit index] prod.case index ..
    ultimately show ?thesis by simp
  qed
qed

lemma group_call_full:
  assumes "length chosen = need_count n \<Longrightarrow> needs_ok S (Suc index) ns st"
    and "length chosen \<noteq> need_count n \<Longrightarrow>
      group_call S index n ns nodes chosen st True (search_group_loop S index n ns nodes chosen st)"
  shows "group_call S index n ns nodes chosen st False (search_group S index n ns nodes chosen st)"
proof (cases "length chosen = need_count n")
  case False
  with assms(2) show ?thesis by (simp add: group_call_def)
next
  case True
  show ?thesis
    unfolding group_call_def
  proof (intro impI allI)
    fix pre
    assume wf: "graph_wf (ms_graph S)" and n: "\<not> is_consumable_need n"
      and chosen: "\<forall>cl\<in>set chosen. usable S n (c_node cl) \<and> c_quantity cl = need_unit n"
      and index: "index = length pre" and picked: "ss_picked st = pre @ chosen # replicate (length ns) []"
    have "outcome_ok S (pre @ [chosen]) ns st (\<exists>gs. completes S (pre @ [chosen]) ns gs) (search_needs S (Suc index) ns st)"
      using assms(1) [OF True] wf index picked by (simp add: needs_ok_def)
    then have "outcome_ok S pre (n # ns) st (\<exists>gs. completes S (pre @ [chosen]) ns gs) (search_needs S (Suc index) ns st)"
      by (rule outcome_ok_Cons) (simp add: answers_many [OF n] True chosen)
    then show "outcome_ok S pre (n # ns) st (possible_group S pre n ns nodes chosen) (search_group S index n ns nodes chosen st)"
      using True outcome_ok_mono by (fastforce simp: possible_group_def)
  qed
qed

text \<open>A group that is still possible either takes the next node or does without it.\<close>

lemma possible_group_Cons:
  assumes "length chosen < need_count n" and "possible_group S pre n ns (i # rest) chosen"
  shows "possible_group S pre n ns rest (chosen @ [need_claim n i]) \<or> possible_group S pre n ns rest chosen"
proof -
  from assms(2) obtain ids gs where ids: "subseq ids (i # rest)" "length chosen + length ids = need_count n"
      "completes S (pre @ [chosen @ map (need_claim n) ids]) ns gs"
    unfolding possible_group_def by blast
  from assms(1) ids(2) obtain k ks where k: "ids = k # ks" by (cases ids) auto
  show ?thesis
  proof (cases "k = i")
    case True
    with ids k have "possible_group S pre n ns rest (chosen @ [need_claim n i])"
      unfolding possible_group_def by (intro exI [of _ ks] exI [of _ gs]) (simp add: subseq_Cons2_iff)
    then show ?thesis ..
  next
    case False
    with ids k have "subseq ids rest" by (simp add: subseq_Cons2_iff split: if_splits)
    with ids show ?thesis unfolding possible_group_def by blast
  qed
qed

lemma group_loop_Nil: "group_call S index n ns [] chosen st True (search_group_loop S index n ns [] chosen st)"
  by (auto simp: group_call_def possible_group_def dest: list_emb_Nil2)

lemma group_loop_Cons:
  assumes sub: "\<And>st1 st2. consume st = Some st1 \<Longrightarrow> can_cover (ms_occupancy S) (ms_graph S) (unit_claim i) = Ok True \<Longrightarrow>
      check_topology S (set_group index (chosen @ [unit_claim i]) st1) = (st2, True) \<Longrightarrow>
      group_call S index n ns rest (chosen @ [unit_claim i]) st2 False
        (search_group S index n ns rest (chosen @ [unit_claim i]) st2)"
    and cont: "\<And>st1 st2 holds st3. consume st = Some st1 \<Longrightarrow> can_cover (ms_occupancy S) (ms_graph S) (unit_claim i) = Ok True \<Longrightarrow>
      check_topology S (set_group index (chosen @ [unit_claim i]) st1) = (st2, holds) \<Longrightarrow>
      (if holds then search_group S index n ns rest (chosen @ [unit_claim i]) st2 else (st2, Ok False)) = (st3, Ok False) \<Longrightarrow>
      group_call S index n ns rest chosen (set_group index chosen st3) True
        (search_group_loop S index n ns rest chosen (set_group index chosen st3))"
  shows "group_call S index n ns (i # rest) chosen st True (search_group_loop S index n ns (i # rest) chosen st)"
  unfolding group_call_def if_True
proof (intro impI allI)
  fix pre
  let ?x = "chosen @ [unit_claim i]"
  let ?p1 = "possible_group S pre n ns rest ?x" and ?p2 = "possible_group S pre n ns rest chosen"
  assume wf: "graph_wf (ms_graph S)" and n: "\<not> is_consumable_need n" and use: "\<forall>i\<in>set (i # rest). usable S n i"
    and chosen: "\<forall>cl\<in>set chosen. usable S n (c_node cl) \<and> c_quantity cl = need_unit n"
    and few: "length chosen < need_count n"
    and index: "index = length pre" and picked: "ss_picked st = pre @ chosen # replicate (length ns) []"
  have unit: "need_unit n = qty Count 1" using n by (simp add: need_unit_def)
  have covered: "can_cover (ms_occupancy S) (ms_graph S) (unit_claim i) = Ok True"
    using use usable_covered [of S n i] unit by simp
  show "outcome_ok S pre (n # ns) st (possible_group S pre n ns (i # rest) chosen)
      (search_group_loop S index n ns (i # rest) chosen st)"
  proof (cases "consume st")
    case None
    then show ?thesis by (simp add: consume_def split: if_splits)
  next
    case (Some st1)
    obtain st2 holds where check: "check_topology S (set_group index ?x st1) = (st2, holds)" by fastforce
    have p2: "ss_picked st2 = pre @ ?x # replicate (length ns) []"
      using check_topology_eq [OF check] consume_eq [OF Some] picked index by simp
    have "outcome_ok S pre (n # ns) st (?p1 \<or> ?p2)
        (case (if holds then search_group S index n ns rest ?x st2 else (st2, Ok False)) of
           (st3, Ok False) \<Rightarrow> search_group_loop S index n ns rest chosen (set_group (length pre) chosen st3)
         | done1 \<Rightarrow> done1)"
    proof (rule outcome_branch [OF picked Some check [unfolded index]])
      assume holds
      with sub [OF Some covered] check wf n use chosen few p2 index unit
      show "outcome_ok S pre (n # ns) st2 ?p1 (search_group S index n ns rest ?x st2)"
        by (auto simp: group_call_def simp del: search_group.simps)
    next
      fix st3
      assume "ss_picked st3 = pre @ ?x # replicate (length ns) []"
        and "(if holds then search_group S index n ns rest ?x st2 else (st2, Ok False)) = (st3, Ok False)"
      with cont [OF Some covered check] wf n use chosen few index
      show "outcome_ok S pre (n # ns) (set_group (length pre) chosen st3) ?p2
          (search_group_loop S index n ns rest chosen (set_group (length pre) chosen st3))"
        by (simp add: group_call_def del: search_group.simps)
    next
      assume ?p1
      then obtain ids gs where "completes S (pre @ [?x @ map (need_claim n) ids]) ns gs" unfolding possible_group_def by blast
      then show "respects_topology (ms_graph S) (ms_request S) (pre @ ?x # replicate (length ns) [])"
        by (rule completes_respects) simp
    qed
    then have "outcome_ok S pre (n # ns) st (?p1 \<or> ?p2) (search_group_loop S index n ns (i # rest) chosen st)"
      unfolding search_group_loop.simps Some option.case Let_def covered result.case bool.case check [unfolded index]
        prod.case index .
    then show ?thesis
      by (rule outcome_ok_mono) (use possible_group_Cons [OF few] unit in auto)
  qed
qed

lemma search_ok:
  "needs_ok S index ns st"
  "consumable_ok S index n ns nodes st"
  "group_call S index n ns nodes chosen st False (search_group S index n ns nodes chosen st)"
  "group_call S index n ns nodes chosen st True (search_group_loop S index n ns nodes chosen st)"
proof (induction S index ns st and S index n ns nodes st and S index n ns nodes chosen st and S index n ns nodes chosen st
    rule: search_needs_search_consumable_search_group_search_group_loop.induct)
  case (1 S index st)
  show ?case by (rule needs_ok_Nil)
next
  case (2 S index n ns st)
  show ?case by (rule needs_ok_Cons) (use 2 in simp_all)
next
  case (3 S index n ns st)
  show ?case by (rule consumable_ok_Nil)
next
  case (4 S index n ns i rest st)
  show ?case
  proof (rule consumable_ok_Cons)
    fix st1 st2
    assume "consume st = Some st1"
      and "can_cover (ms_occupancy S) (ms_graph S) \<lparr>c_node = i, c_quantity = consumable_quantity n\<rparr> = Ok True"
      and "check_topology S (set_group index [\<lparr>c_node = i, c_quantity = consumable_quantity n\<rparr>] st1) = (st2, True)"
    then show "needs_ok S (Suc index) ns st2" by (metis "4.IH"(1))
  qed (rule "4.IH"(2) [OF _ refl _ refl sym sym refl refl])
next
  case (5 S index n ns nodes chosen st)
  show ?case by (rule group_call_full) (use 5 in simp_all)
next
  case (6 S index n ns chosen st)
  show ?case by (rule group_loop_Nil)
next
  case (7 S index n ns i rest chosen st)
  show ?case
  proof (rule group_loop_Cons)
    fix st1 st2
    assume "consume st = Some st1" and "can_cover (ms_occupancy S) (ms_graph S) (unit_claim i) = Ok True"
      and "check_topology S (set_group index (chosen @ [unit_claim i]) st1) = (st2, True)"
    then show "group_call S index n ns rest (chosen @ [unit_claim i]) st2 False
        (search_group S index n ns rest (chosen @ [unit_claim i]) st2)" by (metis "7.IH"(1))
  qed (rule "7.IH"(2) [OF _ refl _ refl sym sym refl refl])
qed

section \<open>Selection\<close>

lemma fallback_search_outcome:
  assumes "graph_wf (se_graph se)"
  shows "outcome_ok
    \<lparr>ms_graph = se_graph se, ms_occupancy = se_occupancy se, ms_request = se_request se,
     ms_quarantine = se_quarantine se, ms_allowed = machine_scope (se_graph se) machine\<rparr> []
    (r_needs (se_request se))
    \<lparr>ss_picked = replicate (length (r_needs (se_request se))) [], ss_trace = trace, ss_budget = FALLBACK_SEARCH_BUDGET\<rparr>
    (\<exists>picked. placement_for (se_graph se) (se_occupancy se) (se_quarantine se) (machine_scope (se_graph se) machine)
      (se_request se) picked)
    (fallback_search se machine trace)"
  unfolding fallback_search_def placement_for_def
  by (rule outcome_ok_mono [OF search_ok(1) [unfolded needs_ok_def, rule_format]])
    (use assms in \<open>auto simp: completes_def\<close>)

text \<open>
  C31. The fallback search is exact within its budget: it never spends more than the budget, a success is a placement
  of the whole request inside the machine, and a failure with budget left means that the machine has no
  placement at all.
\<close>

theorem fallback_search_exact:
  assumes "graph_wf (se_graph se)" and "fallback_search se machine trace = (st, r)"
  shows "ss_budget st \<le> FALLBACK_SEARCH_BUDGET \<and>
    (r = Ok True \<longrightarrow> placement_for (se_graph se) (se_occupancy se) (se_quarantine se)
       (machine_scope (se_graph se) machine) (se_request se) (ss_picked st)) \<and>
    (r = Ok False \<longrightarrow> 0 < ss_budget st \<longrightarrow> \<not> (\<exists>picked. placement_for (se_graph se) (se_occupancy se) (se_quarantine se)
       (machine_scope (se_graph se) machine) (se_request se) picked))"
  using fallback_search_outcome [OF assms(1), of machine trace] assms(2)
  by (auto simp: completes_def placement_for_def)

definition sample_need :: "resource_class \<Rightarrow> capacity_dimension \<Rightarrow> u64 \<Rightarrow> need" where
  "sample_need kind d amount = \<lparr>nd_kind = kind, nd_quantity = qty d amount, nd_filters = []\<rparr>"

definition sample_request :: "request_id \<Rightarrow> u32 \<Rightarrow> need list \<Rightarrow> request" where
  "sample_request i priority needs =
     \<lparr>r_id = i, r_class = Batch, r_needs = needs, r_topology = [], r_preferences = [], r_data = [], r_lifetime = 60,
      r_priority = priority, r_machine_local = True\<rparr>"

definition sample_ctx :: select_ctx where
  "sample_ctx =
     \<lparr>se_graph = sample_graph, se_occupancy = occupancy_from_leases [] {} {},
      se_request = sample_request 1 5 [sample_need Memory Bytes 8], se_mode = Pack, se_quarantine = {}\<rparr>"

theorem fallback_search_exact_witness:
  "\<exists>st. fallback_search sample_ctx 1 btree_empty = (st, Ok True) \<and>
     placement_for sample_graph (occupancy_from_leases [] {} {}) {} (machine_scope sample_graph 1)
       (sample_request 1 5 [sample_need Memory Bytes 8]) (ss_picked st)"
proof -
  obtain st r where search: "fallback_search sample_ctx 1 btree_empty = (st, r)" by fastforce
  have "snd (fallback_search sample_ctx 1 btree_empty) = Ok True" by code_simp
  with search have "r = Ok True" by simp
  with fallback_search_exact [OF _ search] sample_graph_wf search show ?thesis by (simp add: sample_ctx_def)
qed

text \<open>The placements of the loop over the machines.\<close>

lemma accept_on_machine_Ok:
  assumes "accept_on_machine se machine picked nts trace = Ok a"
  shows "a_claims a = concat picked \<and> a_graph_revision a = g_revision (se_graph se)"
  using assms by (auto simp: accept_on_machine_def and_then_eq_Ok machine_allocation_def)

definition placed_on :: "select_ctx \<Rightarrow> node_id set \<Rightarrow> allocation \<Rightarrow> bool" where
  "placed_on se allowed a \<longleftrightarrow> a_graph_revision a = g_revision (se_graph se) \<and>
     (\<exists>picked. a_claims a = concat picked \<and>
        placement_for (se_graph se) (se_occupancy se) (se_quarantine se) allowed (se_request se) picked)"

lemma group_for_answers:
  "list_all2 (group_for se allowed) ns gs \<Longrightarrow>
    list_all2 (answers (se_graph se) (se_occupancy se) (se_quarantine se) allowed) ns gs"
  by (erule list_all2_mono) (simp add: group_for_def)

lemma try_machines_Ok:
  assumes "graph_wf (se_graph se)" and "try_machines se machines trace = Ok a"
  shows "\<exists>machine\<in>set machines. \<not> blocked_by (se_graph se) (se_quarantine se) machine \<and>
    placed_on se (machine_scope (se_graph se) machine) a"
  using assms(2)
proof (induction machines arbitrary: trace)
  case Nil
  then show ?case by simp
next
  case (Cons machine rest)
  let ?scope = "machine_scope (se_graph se) machine"
  show ?case
  proof (cases "blocked_by (se_graph se) (se_quarantine se) machine")
    case True
    with Cons show ?thesis by auto
  next
    case free: False
    obtain trace1 greedy where gr: "greedy_needs se (Some ?scope) (r_needs (se_request se)) [] [] trace = (trace1, greedy)"
      by fastforce
    consider (greedy) picked nts where "greedy = Ok (picked, nts)" "topology_holds (se_graph se) picked (se_request se)"
        "accept_on_machine se machine picked nts trace1 = Ok a"
      | (next_machine) trace2 where "try_machines se rest trace2 = Ok a"
      | (fallback) st nts where "fallback_search se machine trace1 = (st, Ok True)"
        "accept_on_machine se machine (ss_picked st) nts (ss_trace st) = Ok a"
      using Cons.prems free gr
      by (auto simp: and_then_eq_Ok split: result.splits prod.splits if_splits bool.splits)
    then show ?thesis
    proof cases
      case greedy
      then have "list_all2 (group_for se ?scope) (r_needs (se_request se)) picked"
        using greedy_needs_Ok [OF assms(1)] gr by (fastforce simp: scope_of_def)
      with greedy have "placed_on se ?scope a"
        using accept_on_machine_Ok [OF greedy(3)] group_for_answers
        by (auto simp: placed_on_def placement_for_def topology_holds_iff)
      with free show ?thesis by auto
    next
      case next_machine
      with Cons.IH show ?thesis by auto
    next
      case fallback
      then have "placed_on se ?scope a"
        using accept_on_machine_Ok [OF fallback(2)] fallback_search_outcome [OF assms(1), of machine trace1] fallback(1)
        by (auto simp: placed_on_def completes_def placement_for_def)
      with free show ?thesis by auto
    qed
  qed
qed

end
