(* ===== verification/Kernel_Admit.thy ===== *)
theory Kernel_Admit
  imports Kernel_Select
begin

text \<open>
  Admission (\<^verbatim>\<open>crates/kernel/src/admit.rs\<close>): the order of the queue, budgets per owner, plain admission and EASY
  backfill with shadow times. The loops return the admission and the trace with one outcome per candidate. The
  dominant share is a \<open>u128\<close> in the source; it is an integer here and \<open>share_fits_u128\<close> shows that no
  intermediate value reaches the width.
\<close>

section \<open>Types\<close>

type_synonym class_usage = "(resource_class, quantity) btree"
type_synonym request_exclusions = "(request_id, node_id set) btree"

record admission =
  ad_request :: request
  ad_owner :: owner_id
  ad_allocation :: allocation

datatype admission_outcome =
    NotEvaluated
  | OverQuota
  | PlacementRefused string
  | Blocked "u64 option"
  | BackfillUnsafe nat
  | Selected bool

record candidate_trace =
  ct_rank :: nat
  ct_request :: request_id
  ct_owner :: owner_id
  ct_priority :: u32
  ct_submitted_at :: u64
  ct_owner_weight :: "u32 option"
  ct_share :: "int option"
  ct_outcome :: admission_outcome

record admission_policy =
  ap_owner_ceiling :: class_usage
  ap_fair_share :: bool
  ap_owner_weights :: "(owner_id, u32) btree"

record blocked_head =
  bh_shadow :: "u64 option"
  bh_claims :: "node_id set"

record backfill_ctx =
  bc_now :: u64
  bc_leases :: "(lease_id, lease) btree"
  bc_open_bindings :: "lease_id set"

text \<open>\<^verbatim>\<open>AdmissionPolicy { owner_ceiling, ..AdmissionPolicy::default() }\<close>.\<close>

definition ceiling_policy :: "class_usage \<Rightarrow> admission_policy" where
  "ceiling_policy owner_ceiling =
     \<lparr>ap_owner_ceiling = owner_ceiling, ap_fair_share = False, ap_owner_weights = btree_empty\<rparr>"

section \<open>Usage and budgets\<close>

text \<open>The class a claim is charged to, and the charge of one lease.\<close>

definition charged_kind :: "graph \<Rightarrow> node_id \<Rightarrow> resource_class" where
  "charged_kind g n = (case graph_node g n of Some nd \<Rightarrow> n_kind nd | None \<Rightarrow> Machine)"

definition charge_lease :: "graph \<Rightarrow> lease \<Rightarrow> class_usage \<Rightarrow> class_usage" where
  "charge_lease g l entry =
     fold (\<lambda>(n, q). btree_entry btree_empty (\<lambda>total. quantity_add_assign total q) (charged_kind g n))
       (btree_entries (claims_by_node (a_claims (l_allocation l)))) entry"

definition owner_usage :: "graph \<Rightarrow> (lease_id, lease) btree \<Rightarrow> lease_id set \<Rightarrow> (owner_id, class_usage) btree" where
  "owner_usage g leases open_bindings =
     fold (\<lambda>l usage.
         if l_parent l \<noteq> None then usage
         else if \<not> lease_occupies l (l_id l \<in> open_bindings) then usage
         else btree_entry btree_empty (charge_lease g l) (l_owner l) usage)
       (btree_values leases) btree_empty"

definition claimable_capacity :: "graph \<Rightarrow> class_usage" where
  "claimable_capacity g =
     fold (\<lambda>n capacity.
         fold (\<lambda>(dimension, amount) capacity.
             if amount = 0 \<or> claim_binding_of g (n_id n) dimension = None then capacity
             else btree_entry btree_empty (btree_entry 0 (\<lambda>total. saturating_add total amount) dimension) (n_kind n) capacity)
           (btree_entries (n_capacity n)) capacity)
       (graph_nodes g) btree_empty"

definition need_charge :: "need \<Rightarrow> quantity" where
  "need_charge n =
     (if nd_kind n = Memory then qty Bytes (quantity_get (nd_quantity n) Bytes)
      else if list_ex (\<lambda>d. d \<noteq> Count) (btree_keys (nd_quantity n)) then nd_quantity n
      else qty Count (max (quantity_get (nd_quantity n) Count) 1))"

definition within_budget :: "class_usage \<Rightarrow> request \<Rightarrow> class_usage \<Rightarrow> bool" where
  "within_budget usage r owner_ceiling \<longleftrightarrow>
     btree_is_empty owner_ceiling \<or>
     (let projected = fold (\<lambda>n. btree_entry btree_empty (\<lambda>total. quantity_add_assign total (need_charge n)) (nd_kind n))
            (r_needs r) usage
      in list_all (\<lambda>(kind, ceiling). quantity_le (btree_get_or btree_empty projected kind) ceiling)
           (btree_entries owner_ceiling))"

section \<open>The order of the queue\<close>

definition share_scale :: int where
  "share_scale = 10 ^ 18"

definition weighted_dominant_share :: "class_usage \<Rightarrow> class_usage \<Rightarrow> u32 \<Rightarrow> int" where
  "weighted_dominant_share usage capacity weight =
     fold (\<lambda>(kind, quantities) dominant.
         case btree_get capacity kind of
           None \<Rightarrow> dominant
         | Some caps \<Rightarrow>
             fold (\<lambda>(dimension, used) dominant.
                 let available = quantity_get caps dimension in
                 if available = 0 then dominant
                 else max dominant (uint used * share_scale div (uint available * uint (max weight 1))))
               (btree_entries quantities) dominant)
       (btree_entries usage) 0"

definition owner_share :: "(owner_id, class_usage) btree \<Rightarrow> class_usage \<Rightarrow> admission_policy \<Rightarrow> owner_id \<Rightarrow> int" where
  "owner_share usage capacity policy owner =
     weighted_dominant_share (btree_get_or btree_empty usage owner) capacity
       (btree_get_or 1 (ap_owner_weights policy) owner)"

text \<open>Higher priority first; negation turns the reversed comparison into a key.\<close>

definition order_queue :: "queued list \<Rightarrow> nat list" where
  "order_queue queue =
     sort_key (\<lambda>i. let q = queue ! i in
         (- uint (r_priority (q_request q)), q_submitted_at q, r_id (q_request q)))
       [0..<length queue]"

definition order_queue_with_policy ::
    "queued list \<Rightarrow> (owner_id, class_usage) btree \<Rightarrow> class_usage \<Rightarrow> admission_policy \<Rightarrow> nat list" where
  "order_queue_with_policy queue usage capacity policy =
     (if \<not> ap_fair_share policy then order_queue queue
      else sort_key (\<lambda>i. let q = queue ! i in
          (- uint (r_priority (q_request q)), owner_share usage capacity policy (q_owner q),
           q_submitted_at q, r_id (q_request q)))
        [0..<length queue])"

definition build_admission_trace ::
    "queued list \<Rightarrow> nat list \<Rightarrow> (owner_id, class_usage) btree \<Rightarrow> class_usage \<Rightarrow> admission_policy \<Rightarrow> candidate_trace list" where
  "build_admission_trace queue order usage capacity policy =
     map (\<lambda>(pos, i).
         let q = queue ! i;
             weight = (if ap_fair_share policy then Some (max (btree_get_or 1 (ap_owner_weights policy) (q_owner q)) 1) else None)
         in \<lparr>ct_rank = pos, ct_request = r_id (q_request q), ct_owner = q_owner q,
             ct_priority = r_priority (q_request q), ct_submitted_at = q_submitted_at q, ct_owner_weight = weight,
             ct_share = map_option (weighted_dominant_share (btree_get_or btree_empty usage (q_owner q)) capacity) weight,
             ct_outcome = NotEvaluated\<rparr>)
       (enumerate 0 order)"

text \<open>\<^verbatim>\<open>trace.candidates[rank].outcome = outcome\<close>.\<close>

definition set_outcome :: "nat \<Rightarrow> admission_outcome \<Rightarrow> candidate_trace list \<Rightarrow> candidate_trace list" where
  "set_outcome pos outcome trace = trace[pos := (trace ! pos)\<lparr>ct_outcome := outcome\<rparr>]"

section \<open>Plain admission\<close>

definition admission_of :: "queued \<Rightarrow> allocation \<Rightarrow> admission" where
  "admission_of q a = \<lparr>ad_request = q_request q, ad_owner = q_owner q, ad_allocation = a\<rparr>"

fun admit_loop ::
    "graph \<Rightarrow> occupancy \<Rightarrow> node_id set \<Rightarrow> admission_policy \<Rightarrow> (owner_id, class_usage) btree \<Rightarrow>
     (nat \<times> queued) list \<Rightarrow> candidate_trace list \<Rightarrow> admission option \<times> candidate_trace list" where
  "admit_loop g occ quarantine policy usage [] trace = (None, trace)"
| "admit_loop g occ quarantine policy usage ((pos, q) # rest) trace =
     (if \<not> within_budget (btree_get_or btree_empty usage (q_owner q)) (q_request q) (ap_owner_ceiling policy) then
        admit_loop g occ quarantine policy usage rest (set_outcome pos OverQuota trace)
      else case select g occ (q_request q) quarantine of
             Ok a \<Rightarrow> (Some (admission_of q a), set_outcome pos (Selected False) trace)
           | Err e \<Rightarrow>
               admit_loop g occ quarantine policy usage rest (set_outcome pos (PlacementRefused (display_error e)) trace))"

text \<open>The queue in admission order, with its ranks.\<close>

definition ranked_queue :: "queued list \<Rightarrow> nat list \<Rightarrow> (nat \<times> queued) list" where
  "ranked_queue queue order = enumerate 0 (map (\<lambda>i. queue ! i) order)"

definition admit_with_policy_explained ::
    "graph \<Rightarrow> occupancy \<Rightarrow> node_id set \<Rightarrow> admission_policy \<Rightarrow> queued list \<Rightarrow> (lease_id, lease) btree \<Rightarrow> lease_id set \<Rightarrow>
     admission option \<times> candidate_trace list" where
  "admit_with_policy_explained g occ quarantine policy queue leases open_bindings =
     (let usage = owner_usage g leases open_bindings;
          capacity = claimable_capacity g;
          order = order_queue_with_policy queue usage capacity policy
      in admit_loop g occ quarantine policy usage (ranked_queue queue order)
           (build_admission_trace queue order usage capacity policy))"

definition admit_with_policy ::
    "graph \<Rightarrow> occupancy \<Rightarrow> node_id set \<Rightarrow> admission_policy \<Rightarrow> queued list \<Rightarrow> (lease_id, lease) btree \<Rightarrow> lease_id set \<Rightarrow>
     admission option" where
  "admit_with_policy g occ quarantine policy queue leases open_bindings =
     fst (admit_with_policy_explained g occ quarantine policy queue leases open_bindings)"

definition admit_with_ceiling ::
    "graph \<Rightarrow> occupancy \<Rightarrow> node_id set \<Rightarrow> class_usage \<Rightarrow> queued list \<Rightarrow> (lease_id, lease) btree \<Rightarrow> lease_id set \<Rightarrow>
     admission option" where
  "admit_with_ceiling g occ quarantine owner_ceiling queue leases open_bindings =
     admit_with_policy g occ quarantine (ceiling_policy owner_ceiling) queue leases open_bindings"

definition admit :: "graph \<Rightarrow> occupancy \<Rightarrow> queued list \<Rightarrow> node_id set \<Rightarrow> admission option" where
  "admit g occ queue quarantine = admit_with_ceiling g occ quarantine btree_empty queue btree_empty {}"

definition refuse_reason :: "graph \<Rightarrow> occupancy \<Rightarrow> request \<Rightarrow> node_id set \<Rightarrow> error option" where
  "refuse_reason g occ r quarantine = (case select g occ r quarantine of Ok _ \<Rightarrow> None | Err e \<Rightarrow> Some e)"

section \<open>Backfill\<close>

definition occupying :: "lease \<Rightarrow> lease_id set \<Rightarrow> bool" where
  "occupying l open_bindings = lease_occupies l (l_id l \<in> open_bindings)"

definition allocation_nodes :: "allocation \<Rightarrow> node_id set" where
  "allocation_nodes a = set (btree_keys (claims_by_node (a_claims a)))"

text \<open>The leases that are gone at a shadow time: live ones that have expired by then.\<close>

definition expired_by :: "(lease_id, lease) btree \<Rightarrow> u64 \<Rightarrow> lease_id set" where
  "expired_by leases shadow =
     set (map l_id (filter (\<lambda>l.
       (l_state l = LReserved \<or> l_state l = LPreparing \<or> l_state l = LActive) \<and> l_expires_at l \<le> shadow)
       (btree_values leases)))"

fun shadow_loop ::
    "graph \<Rightarrow> node_id set \<Rightarrow> (lease_id, lease) btree \<Rightarrow> lease_id set \<Rightarrow> request \<Rightarrow> u64 list \<Rightarrow> blocked_head option" where
  "shadow_loop g quarantine leases open_bindings r [] = None"
| "shadow_loop g quarantine leases open_bindings r (shadow # rest) =
     (case select g (occupancy_from_leases (btree_values leases) open_bindings (expired_by leases shadow)) r quarantine of
        Ok a \<Rightarrow> Some \<lparr>bh_shadow = Some shadow, bh_claims = allocation_nodes a\<rparr>
      | Err _ \<Rightarrow> shadow_loop g quarantine leases open_bindings r rest)"

definition expiry_times :: "(lease_id, lease) btree \<Rightarrow> lease_id set \<Rightarrow> u64 \<Rightarrow> u64 list" where
  "expiry_times leases open_bindings now =
     sorted_list_of_set (set (map l_expires_at
       (filter (\<lambda>l. occupying l open_bindings \<and> l_expires_at l > now) (btree_values leases))))"

definition shadow_head ::
    "graph \<Rightarrow> node_id set \<Rightarrow> (lease_id, lease) btree \<Rightarrow> lease_id set \<Rightarrow> request \<Rightarrow> u64 \<Rightarrow> blocked_head option" where
  "shadow_head g quarantine leases open_bindings r now =
     (case shadow_loop g quarantine leases open_bindings r (expiry_times leases open_bindings now) of
        Some head \<Rightarrow> Some head
      | None \<Rightarrow>
          let all = set (map l_id (filter (\<lambda>l. occupying l open_bindings) (btree_values leases))) in
          (case select g (occupancy_from_leases (btree_values leases) open_bindings all) r quarantine of
             Ok a \<Rightarrow> Some \<lparr>bh_shadow = None, bh_claims = allocation_nodes a\<rparr>
           | Err _ \<Rightarrow> None))"

definition respects_head :: "u64 \<Rightarrow> node_id set \<Rightarrow> blocked_head \<Rightarrow> bool" where
  "respects_head finishes claims head =
     (case bh_shadow head of
        Some shadow \<Rightarrow> finishes \<le> shadow \<or> claims \<inter> bh_claims head = {}
      | None \<Rightarrow> claims \<inter> bh_claims head = {})"

text \<open>What a request that does not fit now does to the requests behind it.\<close>

definition blocking_head ::
    "graph \<Rightarrow> occupancy \<Rightarrow> node_id set \<Rightarrow> node_id set \<Rightarrow> request \<Rightarrow> backfill_ctx \<Rightarrow> blocked_head option" where
  "blocking_head g occ effective hard r ctx =
     (case select g occ r hard of
        Ok a \<Rightarrow> Some \<lparr>bh_shadow = None, bh_claims = allocation_nodes a\<rparr>
      | Err _ \<Rightarrow> shadow_head g effective (bc_leases ctx) (bc_open_bindings ctx) r (bc_now ctx))"

fun backfill_loop ::
    "graph \<Rightarrow> occupancy \<Rightarrow> node_id set \<Rightarrow> request_exclusions \<Rightarrow> admission_policy \<Rightarrow> (owner_id, class_usage) btree \<Rightarrow> backfill_ctx \<Rightarrow>
     (nat \<times> queued) list \<Rightarrow> blocked_head list \<Rightarrow> candidate_trace list \<Rightarrow> admission option \<times> candidate_trace list" where
  "backfill_loop g occ quarantine exclusions policy usage ctx [] blocked trace = (None, trace)"
| "backfill_loop g occ quarantine exclusions policy usage ctx ((pos, q) # rest) blocked trace =
     (if \<not> within_budget (btree_get_or btree_empty usage (q_owner q)) (q_request q) (ap_owner_ceiling policy) then
        backfill_loop g occ quarantine exclusions policy usage ctx rest blocked (set_outcome pos OverQuota trace)
      else
        let hard = btree_get_or {} exclusions (r_id (q_request q));
            effective = quarantine \<union> hard in
        case select g occ (q_request q) effective of
          Ok a \<Rightarrow>
            let claims = set (map c_node (a_claims a));
                finishes = saturating_add (bc_now ctx) (r_lifetime (q_request q)) in
            if list_all (respects_head finishes claims) blocked then
              (Some (admission_of q a), set_outcome pos (Selected (blocked \<noteq> [])) trace)
            else
              backfill_loop g occ quarantine exclusions policy usage ctx rest blocked
                (set_outcome pos (BackfillUnsafe (length blocked)) trace)
        | Err e \<Rightarrow>
            (case blocking_head g occ effective hard (q_request q) ctx of
               Some head \<Rightarrow>
                 backfill_loop g occ quarantine exclusions policy usage ctx rest (blocked @ [head])
                   (set_outcome pos (Blocked (bh_shadow head)) trace)
             | None \<Rightarrow>
                 backfill_loop g occ quarantine exclusions policy usage ctx rest blocked
                   (set_outcome pos (PlacementRefused (display_error e)) trace)))"

definition admit_backfill_with_policy_explained ::
    "graph \<Rightarrow> occupancy \<Rightarrow> node_id set \<Rightarrow> request_exclusions \<Rightarrow> admission_policy \<Rightarrow> queued list \<Rightarrow> backfill_ctx \<Rightarrow>
     admission option \<times> candidate_trace list" where
  "admit_backfill_with_policy_explained g occ quarantine exclusions policy queue ctx =
     (let usage = owner_usage g (bc_leases ctx) (bc_open_bindings ctx);
          capacity = claimable_capacity g;
          order = order_queue_with_policy queue usage capacity policy
      in backfill_loop g occ quarantine exclusions policy usage ctx (ranked_queue queue order) []
           (build_admission_trace queue order usage capacity policy))"

definition admit_backfill_with_policy ::
    "graph \<Rightarrow> occupancy \<Rightarrow> node_id set \<Rightarrow> request_exclusions \<Rightarrow> admission_policy \<Rightarrow> queued list \<Rightarrow> backfill_ctx \<Rightarrow> admission option" where
  "admit_backfill_with_policy g occ quarantine exclusions policy queue ctx =
     fst (admit_backfill_with_policy_explained g occ quarantine exclusions policy queue ctx)"

definition admit_backfill_with_exclusions ::
    "graph \<Rightarrow> occupancy \<Rightarrow> node_id set \<Rightarrow> request_exclusions \<Rightarrow> class_usage \<Rightarrow> queued list \<Rightarrow> backfill_ctx \<Rightarrow> admission option" where
  "admit_backfill_with_exclusions g occ quarantine exclusions owner_ceiling queue ctx =
     admit_backfill_with_policy g occ quarantine exclusions (ceiling_policy owner_ceiling) queue ctx"

definition admit_backfill ::
    "graph \<Rightarrow> occupancy \<Rightarrow> node_id set \<Rightarrow> class_usage \<Rightarrow> queued list \<Rightarrow> backfill_ctx \<Rightarrow> admission option" where
  "admit_backfill g occ quarantine owner_ceiling queue ctx =
     admit_backfill_with_exclusions g occ quarantine btree_empty owner_ceiling queue ctx"

end
