(* ===== verification/Kernel_Preempt.thy ===== *)
theory Kernel_Preempt
  imports Kernel_Admit Kernel_Cluster
begin

text \<open>
  Preemption planning (\<^verbatim>\<open>crates/kernel/src/preempt.rs\<close>) and the methods of \<^verbatim>\<open>Cluster\<close> that read the schedulers
  (\<^verbatim>\<open>crates/kernel/src/lib.rs\<close>).
\<close>

section \<open>The facade of the cluster\<close>

definition cluster_occupancy :: "cluster \<Rightarrow> occupancy" where
  "cluster_occupancy c = occupancy_except c {}"

definition allocate :: "cluster \<Rightarrow> request \<Rightarrow> (allocation, error) result" where
  "allocate c r = select (k_graph c) (cluster_occupancy c) r (placement_blocked c)"

definition cluster_admit :: "cluster \<Rightarrow> queued list \<Rightarrow> admission option" where
  "cluster_admit c queue = admit (k_graph c) (cluster_occupancy c) queue (placement_blocked c)"

definition cluster_admit_with_ceiling :: "cluster \<Rightarrow> queued list \<Rightarrow> class_usage \<Rightarrow> admission option" where
  "cluster_admit_with_ceiling c queue owner_ceiling =
     admit_with_ceiling (k_graph c) (cluster_occupancy c) (placement_blocked c) owner_ceiling queue (k_leases c)
       (open_binding_leases c)"

definition cluster_admit_with_policy :: "cluster \<Rightarrow> queued list \<Rightarrow> admission_policy \<Rightarrow> admission option" where
  "cluster_admit_with_policy c queue policy =
     admit_with_policy (k_graph c) (cluster_occupancy c) (placement_blocked c) policy queue (k_leases c)
       (open_binding_leases c)"

definition cluster_backfill_ctx :: "cluster \<Rightarrow> backfill_ctx" where
  "cluster_backfill_ctx c =
     \<lparr>bc_now = k_now c, bc_leases = k_leases c, bc_open_bindings = open_binding_leases c\<rparr>"

definition cluster_admit_backfill_with_policy ::
    "cluster \<Rightarrow> queued list \<Rightarrow> admission_policy \<Rightarrow> request_exclusions \<Rightarrow> admission option" where
  "cluster_admit_backfill_with_policy c queue policy exclusions =
     admit_backfill_with_policy (k_graph c) (cluster_occupancy c) (placement_blocked c) exclusions policy queue
       (cluster_backfill_ctx c)"

definition cluster_admit_backfill_with_exclusions ::
    "cluster \<Rightarrow> queued list \<Rightarrow> class_usage \<Rightarrow> request_exclusions \<Rightarrow> admission option" where
  "cluster_admit_backfill_with_exclusions c queue owner_ceiling exclusions =
     admit_backfill_with_exclusions (k_graph c) (cluster_occupancy c) (placement_blocked c) exclusions owner_ceiling queue
       (cluster_backfill_ctx c)"

definition cluster_admit_backfill :: "cluster \<Rightarrow> queued list \<Rightarrow> class_usage \<Rightarrow> admission option" where
  "cluster_admit_backfill c queue owner_ceiling = cluster_admit_backfill_with_exclusions c queue owner_ceiling btree_empty"

section \<open>Preemption\<close>

datatype preemption_outcome = AlreadyFeasible | Planned | NotFeasible

record preemption_step =
  pt_rank :: nat
  pt_lease :: lease_id
  pt_owner :: owner_id
  pt_priority :: u32
  pt_feasible :: bool

record preemption_plan_t =
  pp_request :: request_id
  pp_priority :: u32
  pp_outcome :: preemption_outcome
  pp_victims :: "lease_id list"
  pp_steps :: "preemption_step list"

text \<open>The eligible leases, lowest priority first and the youngest id first among equals. \<^verbatim>\<open>cluster.leases[id]\<close> is
  the lease the candidate was taken from, so the sort looks at the leases themselves.\<close>

definition preemption_candidates :: "cluster \<Rightarrow> request \<Rightarrow> lease list" where
  "preemption_candidates c r =
     sort_key (\<lambda>l. (l_priority l, - uint (l_id l)))
       (filter (\<lambda>l. l_parent l = None \<and> l_priority l < r_priority r \<and> occupies c (l_id l)) (btree_values (k_leases c)))"

definition projected_except :: "cluster \<Rightarrow> lease_id list \<Rightarrow> lease_id set" where
  "projected_except c victims = set victims \<union> (\<Union>v\<in>set victims. set (descendants_postorder c v))"

definition feasible_without :: "cluster \<Rightarrow> request \<Rightarrow> lease_id list \<Rightarrow> bool" where
  "feasible_without c r victims =
     is_ok (select (k_graph c) (occupancy_except c (projected_except c victims)) r (placement_blocked c))"

fun preemption_loop ::
    "cluster \<Rightarrow> request \<Rightarrow> (nat \<times> lease) list \<Rightarrow> lease_id list \<Rightarrow> preemption_step list \<Rightarrow> preemption_plan_t" where
  "preemption_loop c r [] victims steps =
     \<lparr>pp_request = r_id r, pp_priority = r_priority r, pp_outcome = NotFeasible, pp_victims = [], pp_steps = steps\<rparr>"
| "preemption_loop c r ((pos, l) # rest) victims steps =
     (let victims' = victims @ [l_id l];
          feasible = feasible_without c r victims';
          steps' = steps @ [\<lparr>pt_rank = pos, pt_lease = l_id l, pt_owner = l_owner l, pt_priority = l_priority l,
                              pt_feasible = feasible\<rparr>]
      in if feasible then
           \<lparr>pp_request = r_id r, pp_priority = r_priority r, pp_outcome = Planned, pp_victims = victims', pp_steps = steps'\<rparr>
         else preemption_loop c r rest victims' steps')"

definition preemption_plan :: "cluster \<Rightarrow> request \<Rightarrow> preemption_plan_t" where
  "preemption_plan c r =
     (if is_ok (select (k_graph c) (cluster_occupancy c) r (placement_blocked c)) then
        \<lparr>pp_request = r_id r, pp_priority = r_priority r, pp_outcome = AlreadyFeasible, pp_victims = [], pp_steps = []\<rparr>
      else preemption_loop c r (enumerate 0 (preemption_candidates c r)) [] [])"

definition preempt_victims :: "cluster \<Rightarrow> request \<Rightarrow> lease_id list option" where
  "preempt_victims c r =
     (let plan = preemption_plan c r in
      case pp_outcome plan of
        NotFeasible \<Rightarrow> None
      | _ \<Rightarrow> Some (pp_victims plan))"

end
