(* ===== verification/Allocation_Contract.thy ===== *)
theory Allocation_Contract
  imports Placement_Search Cluster_Commands Kernel_Preempt
begin

text \<open>
  The contract between placement and the cluster. Whoever places requests promises allocations that name each node
  once, keep to unblocked nodes with a provider contract and fit beside the current occupancy; the cluster
  then accepts them as reservations. \<open>select\<close> is such an allocator.
\<close>

section \<open>What selection delivers\<close>

lemma select_needs_Ok:
  assumes "graph_wf (se_graph se)" and "select_needs se = Ok a"
  shows "a_graph_revision a = g_revision (se_graph se) \<and> (\<exists>picked. a_claims a = concat picked \<and>
    list_all2 (group_for se UNIV) (r_needs (se_request se)) picked \<and>
    respects_topology (se_graph se) (se_request se) picked)"
proof -
  obtain trace picked nts where gr: "greedy_needs se None (r_needs (se_request se)) [] [] btree_empty = (trace, Ok (picked, nts))"
      and "topology_holds (se_graph se) picked (se_request se)" and "a_claims a = concat picked"
      and "a_graph_revision a = g_revision (se_graph se)"
    using assms(2) by (auto simp: select_needs_def and_then_eq_Ok split: prod.splits result.splits if_splits)
  moreover have "list_all2 (group_for se UNIV) (r_needs (se_request se)) picked"
    using greedy_needs_Ok [OF assms(1) gr] by (simp add: scope_of_def)
  ultimately show ?thesis by (auto simp: topology_holds_iff)
qed

lemma select_Ok:
  fixes g occ r quarantine
  defines "se \<equiv> \<lparr>se_graph = g, se_occupancy = occ, se_request = r, se_mode = select_mode r, se_quarantine = quarantine\<rparr>"
  assumes "select g occ r quarantine = Ok a"
  obtains "r_machine_local r" and "1 < length (r_needs r)" and "try_machines se (nodes_of_class g Machine) btree_empty = Ok a"
    | "\<not> (r_machine_local r \<and> 1 < length (r_needs r))" and "select_needs se = Ok a"
  using assms
  by (cases "r_machine_local r \<and> 1 < length (r_needs r)") (auto simp: select_def select_one_machine_def Let_def split: if_splits)

lemma answers_anywhere: "answers g occ q allowed n x \<Longrightarrow> answers g occ q UNIV n x"
  by (auto simp: answers_def)

lemma placement_for_anywhere: "placement_for g occ q allowed r picked \<Longrightarrow> placement_for g occ q UNIV r picked"
  by (auto simp: placement_for_def elim!: list_all2_mono intro: answers_anywhere)

lemma placement_for_within:
  assumes "placement_for g occ q allowed r picked" and "cl \<in> set (concat picked)"
  shows "c_node cl \<in> allowed"
proof -
  from assms(2) obtain x where "x \<in> set picked" "cl \<in> set x" by auto
  then obtain k where "k < length picked" "cl \<in> set (picked ! k)" by (auto simp: in_set_conv_nth [of x])
  then show ?thesis using assms(1) by (auto simp: placement_for_def list_all2_conv_all_nth answers_def)
qed

lemma select_placement:
  assumes wf: "graph_wf g" and ok: "select g occ r quarantine = Ok a"
  shows "a_graph_revision a = g_revision g \<and> (\<exists>picked. a_claims a = concat picked \<and> placement_for g occ quarantine UNIV r picked)"
proof -
  let ?se = "\<lparr>se_graph = g, se_occupancy = occ, se_request = r, se_mode = select_mode r, se_quarantine = quarantine\<rparr>"
  from ok show ?thesis
  proof (cases rule: select_Ok)
    case 1
    then obtain allowed where "placed_on ?se allowed a" using try_machines_Ok [of ?se "nodes_of_class g Machine" btree_empty a] wf by auto
    then show ?thesis using placement_for_anywhere by (fastforce simp: placed_on_def)
  next
    case 2
    with select_needs_Ok [of ?se a] wf show ?thesis by (auto simp: placement_for_def dest!: group_for_answers)
  qed
qed

text \<open>
  C27. Selection is sound: an allocation answers every need of the request with the number of claims it asks for, on
  nodes of the right kind that match its filters, are not blocked, have a provider contract and enough free
  capacity; no node is claimed twice, every topology constraint names existing needs and holds between their
  groups. A machine-local request with several needs is placed inside one unblocked machine, with a
  single need its units share a machine.
\<close>

theorem select_sound:
  assumes "graph_wf g" and "select g occ r quarantine = Ok a"
  shows "a_graph_revision a = g_revision g \<and>
    (\<forall>c\<in>set (r_topology r). tc_left c < length (r_needs r) \<and> tc_right c < length (r_needs r)) \<and>
    (\<exists>picked. a_claims a = concat picked \<and> placement_for g occ quarantine UNIV r picked) \<and>
    (r_machine_local r \<longrightarrow> 1 < length (r_needs r) \<longrightarrow>
      (\<exists>m. node_has_kind g Machine m \<and> \<not> blocked_by g quarantine m \<and> (\<forall>cl\<in>set (a_claims a). c_node cl \<in> machine_scope g m))) \<and>
    (r_machine_local r \<longrightarrow> (\<forall>n. r_needs r = [n] \<longrightarrow> \<not> is_consumable_need n \<longrightarrow>
      (\<exists>m. \<forall>cl\<in>set (a_claims a). machine_of g (c_node cl) = Some m)))"
proof -
  let ?se = "\<lparr>se_graph = g, se_occupancy = occ, se_request = r, se_mode = select_mode r, se_quarantine = quarantine\<rparr>"
  have range: "\<forall>c\<in>set (r_topology r). tc_left c < length (r_needs r) \<and> tc_right c < length (r_needs r)"
    using assms(2) by (auto simp: select_def list_ex_iff not_le split: if_splits)
  have one: "\<exists>m. node_has_kind g Machine m \<and> \<not> blocked_by g quarantine m \<and> (\<forall>cl\<in>set (a_claims a). c_node cl \<in> machine_scope g m)"
    if "r_machine_local r" "1 < length (r_needs r)"
    using assms(2)
  proof (cases rule: select_Ok)
    case 1
    then obtain m where m: "m \<in> set (nodes_of_class g Machine)" "\<not> blocked_by g quarantine m" "placed_on ?se (machine_scope g m) a"
      using try_machines_Ok [of ?se "nodes_of_class g Machine" btree_empty a] assms(1) by auto
    moreover have "node_has_kind g Machine m" using m(1) assms(1) by (simp add: nodes_of_class_iff graph_wf_def)
    ultimately show ?thesis using placement_for_within by (fastforce simp: placed_on_def)
  qed (use that in simp)
  have single: "\<exists>m. \<forall>cl\<in>set (a_claims a). machine_of g (c_node cl) = Some m"
    if "r_machine_local r" "r_needs r = [n]" "\<not> is_consumable_need n" for n
    using assms(2)
  proof (cases rule: select_Ok)
    case 2
    then show ?thesis using select_needs_Ok [of ?se a] assms(1) that by (auto simp: group_for_def list_all2_Cons1)
  qed (use that in simp)
  show ?thesis using select_placement [OF assms] range one single by blast
qed

theorem select_sound_witness:
  "\<exists>a picked. select sample_graph (occupancy_from_leases [] {} {})
       (sample_request 1 5 [sample_need Memory Bytes 8, sample_need Gpu Count 1]) {} = Ok a \<and>
     a_claims a = concat picked \<and>
     placement_for sample_graph (occupancy_from_leases [] {} {}) {} UNIV
       (sample_request 1 5 [sample_need Memory Bytes 8, sample_need Gpu Count 1]) picked"
proof -
  have "is_ok (select sample_graph (occupancy_from_leases [] {} {})
      (sample_request 1 5 [sample_need Memory Bytes 8, sample_need Gpu Count 1]) {})" by code_simp
  then obtain a where a: "select sample_graph (occupancy_from_leases [] {} {})
      (sample_request 1 5 [sample_need Memory Bytes 8, sample_need Gpu Count 1]) {} = Ok a" by (auto simp: is_ok_iff)
  with select_sound [OF sample_graph_wf a] show ?thesis by blast
qed

section \<open>The contract\<close>

definition allocation_ok :: "graph \<Rightarrow> occupancy \<Rightarrow> node_id set \<Rightarrow> allocation \<Rightarrow> bool" where
  "allocation_ok g occ quarantine a \<longleftrightarrow> a_graph_revision a = g_revision g \<and> distinct (map c_node (a_claims a)) \<and>
     (\<forall>cl\<in>set (a_claims a). \<not> btree_is_empty (c_quantity cl) \<and> \<not> blocked_by g quarantine (c_node cl) \<and>
        is_ok (claim_binding_for_quantity g (c_node cl) (c_quantity cl)) \<and> can_cover occ g cl = Ok True)"

lemma placement_blocked_iff:
  assumes "graph_wf (k_graph c)" and "graph_node (k_graph c) i \<noteq> None"
  shows "i \<in> placement_blocked c \<longleftrightarrow> (case btree_get (k_node_states c) i of Some s \<Rightarrow> \<not> is_schedulable s | None \<Rightarrow> False)"
proof -
  from assms(2) obtain nd where nd: "graph_node (k_graph c) i = Some nd" by blast
  then have id: "n_id nd = i" by (rule graph_node_id [OF assms(1)])
  have mem: "nd' \<in> set (graph_nodes (k_graph c)) \<and> n_id nd' = i \<longleftrightarrow> nd' = nd" for nd'
    using nd assms(1) id by (auto simp: graph_nodes_def graph_wf_def facts_wf_def graph_node_def)
  have "i \<in> placement_blocked c \<longleftrightarrow>
      (\<exists>nd'. (nd' \<in> set (graph_nodes (k_graph c)) \<and> n_id nd' = i) \<and>
         \<not> (case node_state_of c (n_id nd') of Some s \<Rightarrow> is_schedulable s | None \<Rightarrow> False))"
    by (auto simp: placement_blocked_def)
  then show ?thesis
    unfolding mem by (simp add: node_state_of_def nd id btree_get_or_def is_schedulable_def split: option.splits)
qed

lemma node_quarantined_blocked:
  assumes "graph_wf (k_graph c)" and "graph_node (k_graph c) n \<noteq> None"
  shows "node_quarantined c n \<longleftrightarrow> blocked_by (k_graph c) (placement_blocked c) n"
proof -
  have "graph_node (k_graph c) a \<noteq> None" if "a \<in> set (ancestors (k_graph c) n)" for a
    using ancestors_known [OF _ that] assms(1) by (simp add: graph_wf_def)
  with assms placement_blocked_iff [OF assms(1)] show ?thesis
    by (simp add: node_quarantined_def blocked_by_def Let_def list_ex_iff)
qed

lemma resolve_claims_id:
  assumes "distinct (map c_node claims)" and "\<forall>cl\<in>set claims. resolve_claim g cl = Ok cl"
  shows "resolve_claims g claims = Ok claims"
proof -
  have "try_fold (\<lambda>cl (out, seen).
      if c_node cl \<in> seen then Err (DuplicateClaim (c_node cl))
      else and_then (resolve_claim g cl) (\<lambda>r. Ok (out @ [r], insert (c_node cl) seen))) claims (pre, c_node ` set pre) =
      Ok (pre @ claims, c_node ` set (pre @ claims))" if "distinct (map c_node (pre @ claims))" for pre
    using that assms(2)
  proof (induction claims arbitrary: pre)
    case (Cons cl claims)
    from Cons.IH [of "pre @ [cl]"] Cons.prems show ?case by (auto simp: image_iff)
  qed simp
  from this [of "[]"] assms(1) show ?thesis by (simp add: resolve_claims_def)
qed

text \<open>Excluding a lease that does not exist changes nothing.\<close>

lemma occupancy_except_fresh:
  assumes "ids_ok (k_leases c)" and "btree_get (k_leases c) i = None"
  shows "occupancy_from_leases (btree_values (k_leases c)) (open_binding_leases c) {i} = cluster_occupancy c"
proof -
  have "l_id l \<noteq> i" if "l \<in> set (btree_values (k_leases c))" for l
    using that assms ids_okD [OF assms(1)] by fastforce
  then have "occupying_leases (btree_values (k_leases c)) (open_binding_leases c) {i} =
      occupying_leases (btree_values (k_leases c)) (open_binding_leases c) {}"
    unfolding occupying_leases_def by (intro filter_cong) auto
  then show ?thesis by (simp add: cluster_occupancy_def occupancy_except_def occupancy_from_leases_def)
qed

locale allocator =
  fixes place :: "graph \<Rightarrow> occupancy \<Rightarrow> request \<Rightarrow> node_id set \<Rightarrow> (allocation, error) result"
  assumes place_ok: "graph_wf g \<Longrightarrow> place g occ r quarantine = Ok a \<Longrightarrow> allocation_ok g occ quarantine a"
begin

lemma place_reservable:
  assumes inv: "cluster_inv c" and agreed: "k_agreed c" and fresh: "btree_get (k_leases c) i = None"
    and ok: "place (k_graph c) (cluster_occupancy c) r q = Ok a" and q: "placement_blocked c \<subseteq> q"
  shows "cluster_apply c (ReserveLease i owner a expires_at priority) =
    (c\<lparr>k_leases := btree_insert i
        \<lparr>l_id = i, l_owner = owner, l_allocation = a, l_parent = None, l_expires_at = expires_at, l_prepare_deadline = 0,
         l_priority = priority, l_state = LReserved, l_exit_code = None\<rparr> (k_leases c),
       k_log := k_log c @ [ReserveLease i owner a expires_at priority]\<rparr>, Ok [])"
proof -
  note wf = cluster_inv_parts(1) [OF inv]
  have a: "allocation_ok (k_graph c) (cluster_occupancy c) q a" using place_ok [OF wf ok] .
  have known: "graph_node (k_graph c) (c_node cl) \<noteq> None" if "cl \<in> set (a_claims a)" for cl
    using a that by (auto simp: allocation_ok_def can_cover_Ok)
  have "resolve_claim (k_graph c) cl = Ok cl" if "cl \<in> set (a_claims a)" for cl
    using a that known [OF that] by (auto simp: allocation_ok_def resolve_claim_def is_ok_iff)
  with a have "resolve_claims (k_graph c) (a_claims a) = Ok (a_claims a)"
    by (intro resolve_claims_id) (simp_all add: allocation_ok_def)
  moreover have "quarantined_claim c (a_claims a) = None"
    using a q known node_quarantined_blocked [OF wf] by (auto simp: quarantined_claim_def allocation_ok_def blocked_by_def list_ex_iff)
  moreover have "uncovered_claim c i (a_claims a) = None"
    using a occupancy_except_fresh [OF cluster_inv_parts(6) [OF inv] fresh]
    by (auto simp: uncovered_claim_def Let_def allocation_ok_def)
  ultimately show ?thesis
    using agreed fresh a by (simp add: cluster_apply_def reserve_lease_def allocation_ok_def)
qed

end

lemma need_unit_nonempty: "\<not> btree_is_empty (need_unit n)"
  by (auto simp: need_unit_def is_consumable_need_def consumable_quantity_def btree_is_empty_iff qty_def list_ex_iff)

interpretation selector: allocator select
proof
  fix g occ r quarantine a
  assume "graph_wf g" and "select g occ r quarantine = Ok a"
  then obtain picked where rev: "a_graph_revision a = g_revision g" and a: "a_claims a = concat picked"
      and p: "placement_for g occ quarantine UNIV r picked"
    using select_placement by blast
  have claim: "\<not> btree_is_empty (c_quantity cl) \<and> \<not> blocked_by g quarantine (c_node cl) \<and>
      is_ok (claim_binding_for_quantity g (c_node cl) (c_quantity cl)) \<and> can_cover occ g cl = Ok True"
    if "cl \<in> set (concat picked)" for cl
  proof -
    from that obtain x where "x \<in> set picked" "cl \<in> set x" by auto
    then obtain k where "k < length picked" "cl \<in> set (picked ! k)" by (auto simp: in_set_conv_nth [of x])
    with p have "eligible g occ quarantine (r_needs r ! k) (c_node cl)" "c_quantity cl = need_unit (r_needs r ! k)"
      by (auto simp: placement_for_def list_all2_conv_all_nth answers_def)
    with need_unit_nonempty [of "r_needs r ! k"] show ?thesis by (cases cl) (simp add: eligible_def)
  qed
  show "allocation_ok g occ quarantine a"
    using p claim by (simp add: allocation_ok_def rev a placement_for_def respects_topology_def)
qed

text \<open>
  A placement can be reserved: in every reachable cluster that is in agreement, the allocation that
  \<^verbatim>\<open>allocate\<close> returns is accepted as a reservation under any unused identity, and the lease holds exactly its claims.
\<close>

theorem allocation_is_reservable:
  assumes "k_agreed (cluster_run es)" and "btree_get (k_leases (cluster_run es)) i = None"
    and "allocate (cluster_run es) r = Ok a"
  shows "\<exists>c' l. cluster_apply (cluster_run es) (ReserveLease i owner a expires_at priority) = (c', Ok []) \<and>
    btree_get (k_leases c') i = Some l \<and> l_state l = LReserved \<and> l_owner l = owner \<and> l_allocation l = a"
  using selector.place_reservable [OF cluster_run_inv assms(1,2) assms(3) [unfolded allocate_def] order_refl] by simp

theorem allocation_is_reservable_witness:
  "\<exists>a c'. allocate (cluster_run sample_setup) (sample_request 1 5 [sample_need Memory Bytes 8]) = Ok a \<and>
     cluster_apply (cluster_run sample_setup) (ReserveLease 11 1 a 90 5) = (c', Ok [])"
proof -
  have "is_ok (allocate (cluster_run sample_setup) (sample_request 1 5 [sample_need Memory Bytes 8]))" by code_simp
  then obtain a where a: "allocate (cluster_run sample_setup) (sample_request 1 5 [sample_need Memory Bytes 8]) = Ok a"
    by (auto simp: is_ok_iff)
  have "k_agreed (cluster_run sample_setup)" and "btree_get (k_leases (cluster_run sample_setup)) 11 = None"
    by code_simp+
  from allocation_is_reservable [OF this a, of 1 90 5] a show ?thesis by auto
qed

end
