(* ===== verification/Admission.thy ===== *)
theory Admission
  imports Allocation_Contract
begin

text \<open>
  Admission: the order of the queue, plain admission as the first admissible request, what a grant does to the
  budget of its owner, and what backfill and preemption planning may do to requests of higher priority.
\<close>

section \<open>The order of the queue\<close>

text \<open>A stable sort of the indices puts equal keys in their original order.\<close>

lemma sort_key_upt_order:
  fixes f :: "nat \<Rightarrow> 'k::linorder"
  shows "sorted_wrt (\<lambda>i j. f i < f j \<or> f i = f j \<and> i < j) (sort_key f [0..<n])"
proof -
  let ?xs = "sort_key f [0..<n]"
  have s: "sorted (map f ?xs)" by simp
  show ?thesis
    unfolding sorted_wrt_iff_nth_less
  proof (intro allI impI)
    fix i j
    assume ij: "i < j" "j < length ?xs"
    have le: "f (?xs ! i) \<le> f (?xs ! j)" using s ij by (simp add: sorted_iff_nth_mono_less)
    show "f (?xs ! i) < f (?xs ! j) \<or> f (?xs ! i) = f (?xs ! j) \<and> ?xs ! i < ?xs ! j"
    proof (cases "f (?xs ! i) = f (?xs ! j)")
      case True
      let ?P = "\<lambda>x. f x = f (?xs ! j)"
      have "filter ?P ?xs = filter ?P [0..<n]" by (rule sort_key_stable)
      then have "sorted_wrt (<) (filter ?P ?xs)" by (simp add: sorted_wrt_filter)
      moreover have "filter ?P ?xs = filter ?P (take j ?xs) @ filter ?P (drop j ?xs)"
        by (metis append_take_drop_id filter_append)
      moreover have "?xs ! i \<in> set (filter ?P (take j ?xs))" using True ij by (auto simp: in_set_conv_nth)
      moreover have "?xs ! j \<in> set (filter ?P (drop j ?xs))"
        using ij by (simp add: Cons_nth_drop_Suc [symmetric])
      ultimately have "?xs ! i < ?xs ! j" by (auto simp: sorted_wrt_append)
      with True show ?thesis by simp
    qed (use le in simp)
  qed
qed

text \<open>The documented order of two queued requests: priority, then the share of the owner when shares count, then the
  time of submission, the request id and the position in the queue.\<close>

definition served_before :: "(owner_id \<Rightarrow> int) \<Rightarrow> queued list \<Rightarrow> nat \<Rightarrow> nat \<Rightarrow> bool" where
  "served_before share queue i j \<longleftrightarrow>
     (let p = queue ! i; q = queue ! j in
      r_priority (q_request q) < r_priority (q_request p) \<or>
      r_priority (q_request q) = r_priority (q_request p) \<and>
        (share (q_owner p) < share (q_owner q) \<or>
         share (q_owner p) = share (q_owner q) \<and>
           (q_submitted_at p < q_submitted_at q \<or>
            q_submitted_at p = q_submitted_at q \<and>
              (r_id (q_request p) < r_id (q_request q) \<or>
               r_id (q_request p) = r_id (q_request q) \<and> i < j))))"

definition share_of :: "(owner_id, class_usage) btree \<Rightarrow> class_usage \<Rightarrow> admission_policy \<Rightarrow> owner_id \<Rightarrow> int" where
  "share_of usage capacity policy owner = (if ap_fair_share policy then owner_share usage capacity policy owner else 0)"

lemmas priority_key = word_less_def [symmetric] word_le_def [symmetric] word_uint_eq_iff [symmetric]

text \<open>
  The order of admission: every queued request is considered exactly once, higher priority first; within a priority
  the owner with the smaller weighted dominant share goes first when fair sharing is on, then the earlier submission,
  then the smaller id, then the position in the queue. With fair sharing off, usage has no influence.
\<close>

theorem admission_order:
  "mset (order_queue_with_policy queue usage capacity policy) = mset [0..<length queue] \<and>
   sorted_wrt (served_before (share_of usage capacity policy) queue) (order_queue_with_policy queue usage capacity policy)"
proof (cases "ap_fair_share policy")
  case True
  let ?f = "\<lambda>i. let q = queue ! i in
      (- uint (r_priority (q_request q)), owner_share usage capacity policy (q_owner q),
       q_submitted_at q, r_id (q_request q))"
  have "order_queue_with_policy queue usage capacity policy = sort_key ?f [0..<length queue]"
    using True by (simp add: order_queue_with_policy_def)
  moreover have "sorted_wrt (served_before (share_of usage capacity policy) queue) (sort_key ?f [0..<length queue])"
    by (rule sorted_wrt_mono_rel [OF _ sort_key_upt_order])
      (auto simp: Let_def served_before_def share_of_def True priority_key)
  ultimately show ?thesis by simp
next
  case False
  let ?f = "\<lambda>i. let q = queue ! i in
      (- uint (r_priority (q_request q)), q_submitted_at q, r_id (q_request q))"
  have "order_queue_with_policy queue usage capacity policy = sort_key ?f [0..<length queue]"
    using False by (simp add: order_queue_with_policy_def order_queue_def)
  moreover have "sorted_wrt (served_before (share_of usage capacity policy) queue) (sort_key ?f [0..<length queue])"
    by (rule sorted_wrt_mono_rel [OF _ sort_key_upt_order])
      (auto simp: Let_def served_before_def share_of_def False priority_key)
  ultimately show ?thesis by simp
qed

section \<open>Plain admission\<close>

definition admissible ::
    "graph \<Rightarrow> occupancy \<Rightarrow> node_id set \<Rightarrow> admission_policy \<Rightarrow> (owner_id, class_usage) btree \<Rightarrow> queued \<Rightarrow> allocation option" where
  "admissible g occ quarantine policy usage q =
     (if within_budget (btree_get_or btree_empty usage (q_owner q)) (q_request q) (ap_owner_ceiling policy) then
        (case select g occ (q_request q) quarantine of Ok a \<Rightarrow> Some a | Err _ \<Rightarrow> None)
      else None)"

lemma admit_loop_first:
  "fst (admit_loop g occ quarantine policy usage rq trace) =
     (case find (\<lambda>q. admissible g occ quarantine policy usage q \<noteq> None) (map snd rq) of
        None \<Rightarrow> None
      | Some q \<Rightarrow> map_option (admission_of q) (admissible g occ quarantine policy usage q))"
  by (induction g occ quarantine policy usage rq trace rule: admit_loop.induct)
    (auto simp: admissible_def split: result.splits)

text \<open>
  Plain admission is the first admissible request: in admission order, requests over the budget of their owner and
  requests that cannot be placed are skipped without blocking anybody, and the first one left is admitted
  with the allocation that selection finds for it.
\<close>

theorem plain_admission_is_first:
  "admit_with_policy g occ quarantine policy queue leases opens =
    (case find (\<lambda>q. admissible g occ quarantine policy (owner_usage g leases opens) q \<noteq> None)
        (map (\<lambda>i. queue ! i) (order_queue_with_policy queue (owner_usage g leases opens) (claimable_capacity g) policy)) of
       None \<Rightarrow> None
     | Some q \<Rightarrow> map_option (admission_of q) (admissible g occ quarantine policy (owner_usage g leases opens) q))"
  by (simp add: admit_with_policy_def admit_with_policy_explained_def Let_def admit_loop_first ranked_queue_def)

section \<open>Budgets\<close>

text \<open>The units of a class an allocation grants, as the budget counts them.\<close>

definition granted :: "graph \<Rightarrow> allocation \<Rightarrow> resource_class \<Rightarrow> capacity_dimension \<Rightarrow> u64" where
  "granted g a kind d =
     sum_list (map (\<lambda>cl. if charged_kind g (c_node cl) = kind then quantity_get (c_quantity cl) d else 0) (a_claims a))"

lemma need_charge_units:
  "of_nat (group_size n) * quantity_get (need_unit n) d = quantity_get (need_charge n) d"
proof (cases "is_consumable_need n")
  case True
  then show ?thesis
    by (auto simp: group_size_def need_unit_def need_charge_def consumable_quantity_def is_consumable_need_def)
next
  case False
  then show ?thesis
    by (auto simp: group_size_def need_unit_def need_charge_def is_consumable_need_def need_count_def quantity_simps qty_def)
qed

lemma granted_group:
  assumes "answers g occ quarantine allowed n x"
  shows "sum_list (map (\<lambda>cl. if charged_kind g (c_node cl) = kind then quantity_get (c_quantity cl) d else 0) x) =
    (if nd_kind n = kind then quantity_get (need_charge n) d else 0)"
proof -
  have "charged_kind g (c_node cl) = nd_kind n \<and> c_quantity cl = need_unit n" if "cl \<in> set x" for cl
    using assms that by (auto simp: answers_def eligible_def charged_kind_def)
  then have "map (\<lambda>cl. if charged_kind g (c_node cl) = kind then quantity_get (c_quantity cl) d else 0) x =
      map (\<lambda>_. if nd_kind n = kind then quantity_get (need_unit n) d else 0) x"
    by (intro map_cong) auto
  then have "sum_list (map (\<lambda>cl. if charged_kind g (c_node cl) = kind then quantity_get (c_quantity cl) d else 0) x) =
      of_nat (length x) * (if nd_kind n = kind then quantity_get (need_unit n) d else 0)"
    by (simp only: sum_list_triv)
  moreover have "length x = group_size n" using assms by (simp add: answers_def)
  ultimately show ?thesis by (simp add: need_charge_units)
qed

lemma granted_charge:
  assumes "graph_wf g" and "select g occ r quarantine = Ok a"
  shows "granted g a kind d = sum_list (map (\<lambda>n. if nd_kind n = kind then quantity_get (need_charge n) d else 0) (r_needs r))"
proof -
  obtain picked where a: "a_claims a = concat picked" and "list_all2 (answers g occ quarantine UNIV) (r_needs r) picked"
    using select_placement [OF assms] by (auto simp: placement_for_def)
  from this(2) show ?thesis
    unfolding granted_def a by (induction rule: list_all2_induct) (simp_all add: granted_group)
qed

lemma projected_usage:
  "quantity_get (btree_get_or btree_empty
      (fold (\<lambda>n. btree_entry btree_empty (\<lambda>total. quantity_add_assign total (need_charge n)) (nd_kind n)) ns usage) kind) d =
   quantity_get (btree_get_or btree_empty usage kind) d +
     sum_list (map (\<lambda>n. if nd_kind n = kind then quantity_get (need_charge n) d else 0) ns)"
  by (induction ns arbitrary: usage) (auto simp: btree_get_or_def quantity_simps)

lemma within_budget_ceiling:
  assumes "within_budget usage r ceilings" and "btree_get ceilings kind = Some ceiling"
    and "graph_wf g" and "select g occ r quarantine = Ok a"
  shows "quantity_get (btree_get_or btree_empty usage kind) d + granted g a kind d \<le> quantity_get ceiling d"
proof -
  have "\<not> btree_is_empty ceilings" using assms(2) by (auto simp: btree_is_empty_iff)
  with assms(1,2) have "quantity_le (btree_get_or btree_empty
      (fold (\<lambda>n. btree_entry btree_empty (\<lambda>total. quantity_add_assign total (need_charge n)) (nd_kind n)) (r_needs r) usage) kind) ceiling"
    by (auto simp: within_budget_def Let_def list_all_iff)
  then show ?thesis by (simp add: quantity_le_iff projected_usage granted_charge [OF assms(3,4)])
qed

section \<open>Backfill\<close>

text \<open>The head that a request in front leaves behind, if it is within budget but cannot start.\<close>

definition head_of ::
    "graph \<Rightarrow> occupancy \<Rightarrow> node_id set \<Rightarrow> request_exclusions \<Rightarrow> admission_policy \<Rightarrow> (owner_id, class_usage) btree \<Rightarrow> backfill_ctx \<Rightarrow>
     queued \<Rightarrow> blocked_head option" where
  "head_of g occ quarantine exclusions policy usage ctx q =
     (let hard = btree_get_or {} exclusions (r_id (q_request q)) in
      if within_budget (btree_get_or btree_empty usage (q_owner q)) (q_request q) (ap_owner_ceiling policy) \<and>
         \<not> is_ok (select g occ (q_request q) (quarantine \<union> hard))
      then blocking_head g occ (quarantine \<union> hard) hard (q_request q) ctx else None)"

definition backfill_ok ::
    "graph \<Rightarrow> occupancy \<Rightarrow> node_id set \<Rightarrow> request_exclusions \<Rightarrow> admission_policy \<Rightarrow> (owner_id, class_usage) btree \<Rightarrow> backfill_ctx \<Rightarrow>
     blocked_head set \<Rightarrow> queued \<Rightarrow> admission \<Rightarrow> bool" where
  "backfill_ok g occ quarantine exclusions policy usage ctx heads q adm \<longleftrightarrow>
     within_budget (btree_get_or btree_empty usage (q_owner q)) (q_request q) (ap_owner_ceiling policy) \<and>
     (\<exists>a. select g occ (q_request q) (quarantine \<union> btree_get_or {} exclusions (r_id (q_request q))) = Ok a \<and>
        adm = admission_of q a \<and>
        (\<forall>head\<in>heads. respects_head (saturating_add (bc_now ctx) (r_lifetime (q_request q))) (c_node ` set (a_claims a)) head))"

lemma backfill_loop_Some:
  assumes "fst (backfill_loop g occ quarantine exclusions policy usage ctx rq blocked trace) = Some adm"
  shows "\<exists>pre pos q rest. rq = pre @ (pos, q) # rest \<and>
    backfill_ok g occ quarantine exclusions policy usage ctx
      (set blocked \<union> {h. \<exists>p\<in>snd ` set pre. head_of g occ quarantine exclusions policy usage ctx p = Some h}) q adm"
  using assms
proof (induction rq arbitrary: blocked trace)
  case Nil
  then show ?case by simp
next
  case (Cons pq rq)
  obtain pos q where pq: "pq = (pos, q)" by fastforce
  let ?hard = "btree_get_or {} exclusions (r_id (q_request q))"
  let ?head = "head_of g occ quarantine exclusions policy usage ctx q"
  let ?budget = "within_budget (btree_get_or btree_empty usage (q_owner q)) (q_request q) (ap_owner_ceiling policy)"
  have later: ?case
    if "fst (backfill_loop g occ quarantine exclusions policy usage ctx rq blocked' trace') = Some adm"
      and "set blocked' = set blocked \<union> {h. ?head = Some h}" for blocked' trace'
  proof -
    from Cons.IH [OF that(1)] obtain pre pos' q' rest where "rq = pre @ (pos', q') # rest"
        and ok: "backfill_ok g occ quarantine exclusions policy usage ctx
          (set blocked' \<union> {h. \<exists>p\<in>snd ` set pre. head_of g occ quarantine exclusions policy usage ctx p = Some h}) q' adm"
      by blast
    then have split: "pq # rq = (pq # pre) @ (pos', q') # rest" by simp
    have heads: "set blocked' \<union> {h. \<exists>p\<in>snd ` set pre. head_of g occ quarantine exclusions policy usage ctx p = Some h} =
        set blocked \<union> {h. \<exists>p\<in>snd ` set (pq # pre). head_of g occ quarantine exclusions policy usage ctx p = Some h}"
      using that(2) pq by auto
    show ?thesis using split ok [unfolded heads] by blast
  qed
  show ?case
  proof (cases ?budget)
    case False
    with Cons.prems pq show ?thesis by (intro later) (auto simp: head_of_def)
  next
    case budget: True
    show ?thesis
    proof (cases "select g occ (q_request q) (quarantine \<union> ?hard)")
      case (Ok a)
      show ?thesis
      proof (cases "list_all (respects_head (saturating_add (bc_now ctx) (r_lifetime (q_request q))) (set (map c_node (a_claims a)))) blocked")
        case True
        with Cons.prems pq budget Ok have "backfill_ok g occ quarantine exclusions policy usage ctx (set blocked) q adm"
          by (auto simp: backfill_ok_def Let_def list_all_iff)
        then show ?thesis using pq by (intro exI [of _ "[]"]) simp
      next
        case False
        then have "fst (backfill_loop g occ quarantine exclusions policy usage ctx rq blocked
            (set_outcome pos (BackfillUnsafe (length blocked)) trace)) = Some adm"
          using Cons.prems by (simp only: pq backfill_loop.simps Let_def budget Ok result.case simp_thms if_False if_True)
        then show ?thesis by (rule later) (simp add: head_of_def Let_def Ok)
      qed
    next
      case (Err e)
      then have head: "?head = blocking_head g occ (quarantine \<union> ?hard) ?hard (q_request q) ctx"
        using budget by (simp add: head_of_def Let_def)
      show ?thesis
      proof (cases ?head)
        case None
        then have "fst (backfill_loop g occ quarantine exclusions policy usage ctx rq blocked
            (set_outcome pos (PlacementRefused (display_error e)) trace)) = Some adm"
          using Cons.prems head by (simp add: Let_def pq budget Err)
        then show ?thesis by (rule later) (simp add: None)
      next
        case (Some h)
        then have "fst (backfill_loop g occ quarantine exclusions policy usage ctx rq (blocked @ [h])
            (set_outcome pos (Blocked (bh_shadow h)) trace)) = Some adm"
          using Cons.prems head by (simp add: Let_def pq budget Err)
        then show ?thesis by (rule later) (auto simp: Some)
      qed
    qed
  qed
qed

lemma snd_enumerate_take:
  assumes "enumerate m xs = pre @ (pos, q) # rest"
  shows "\<exists>k<length xs. q = xs ! k \<and> snd ` set pre = set (take k xs)"
proof -
  have xs: "xs = map snd pre @ q # map snd rest"
    using arg_cong [OF assms, of "map snd"] by simp
  then show ?thesis by (intro exI [of _ "length pre"]) (simp add: nth_append)
qed

text \<open>
  C29. Backfill protects the requests it overtakes: an admitted request is within the budget of its owner and placeable, and
  for every request before it in admission order that is within budget but cannot start now, it either ends by
  the time that request could start or uses none of the nodes that request would take then.
\<close>

theorem backfill_protects_heads:
  assumes "admit_backfill_with_policy g occ quarantine exclusions policy queue ctx = Some adm"
  shows "let usage = owner_usage g (bc_leases ctx) (bc_open_bindings ctx);
      ordered = map (\<lambda>i. queue ! i) (order_queue_with_policy queue usage (claimable_capacity g) policy)
    in \<exists>k<length ordered. backfill_ok g occ quarantine exclusions policy usage ctx
         {h. \<exists>j<k. head_of g occ quarantine exclusions policy usage ctx (ordered ! j) = Some h} (ordered ! k) adm"
proof -
  define usage where "usage = owner_usage g (bc_leases ctx) (bc_open_bindings ctx)"
  define ordered where "ordered = map (\<lambda>i. queue ! i) (order_queue_with_policy queue usage (claimable_capacity g) policy)"
  obtain pre pos q rest where split: "enumerate 0 ordered = pre @ (pos, q) # rest"
      and ok: "backfill_ok g occ quarantine exclusions policy usage ctx
        (set [] \<union> {h. \<exists>p\<in>snd ` set pre. head_of g occ quarantine exclusions policy usage ctx p = Some h}) q adm"
    using assms backfill_loop_Some
    unfolding admit_backfill_with_policy_def admit_backfill_with_policy_explained_def Let_def ranked_queue_def
      usage_def [symmetric] ordered_def [symmetric]
    by blast
  from snd_enumerate_take [OF split] obtain k where k: "k < length ordered" "q = ordered ! k" "snd ` set pre = set (take k ordered)"
    by blast
  have "(\<exists>p\<in>set (take k ordered). P p) \<longleftrightarrow> (\<exists>j<k. P (ordered ! j))" for P
    unfolding nth_image [OF less_imp_le [OF k(1)], symmetric] by auto
  with ok k show ?thesis unfolding Let_def usage_def [symmetric] ordered_def [symmetric] by auto
qed

text \<open>A queue for the witnesses: the first request waits for the GPU that a lease holds, the second fits beside it.\<close>

definition sample_queue :: "queued list" where
  "sample_queue =
     [\<lparr>q_request = sample_request 1 5 [sample_need Gpu Count 1], q_owner = 1, q_submitted_at = 3\<rparr>,
      \<lparr>q_request = sample_request 2 4 [sample_need Memory Bytes 8], q_owner = 1, q_submitted_at = 4\<rparr>]"

definition sample_policy :: admission_policy where
  "sample_policy =
     \<lparr>ap_owner_ceiling = btree_insert Memory (qty Bytes 32) btree_empty, ap_fair_share = True, ap_owner_weights = btree_empty\<rparr>"

lemma sample_backfill:
  obtains adm where "cluster_admit_backfill_with_policy (cluster_run sample_setup) sample_queue sample_policy btree_empty = Some adm"
    and "r_id (ad_request adm) = 2" and "ad_owner adm = 1"
proof -
  have "map_option (\<lambda>adm. (r_id (ad_request adm), ad_owner adm))
      (cluster_admit_backfill_with_policy (cluster_run sample_setup) sample_queue sample_policy btree_empty) = Some (2, 1)"
    by code_simp
  then show ?thesis using that by auto
qed

theorem backfill_protects_heads_witness:
  "\<exists>adm q heads. r_id (ad_request adm) = 2 \<and>
     backfill_ok (k_graph (cluster_run sample_setup)) (cluster_occupancy (cluster_run sample_setup))
       (placement_blocked (cluster_run sample_setup)) btree_empty sample_policy
       (owner_usage (k_graph (cluster_run sample_setup)) (k_leases (cluster_run sample_setup)) (open_binding_leases (cluster_run sample_setup)))
       (cluster_backfill_ctx (cluster_run sample_setup)) heads q adm"
proof -
  obtain adm where "cluster_admit_backfill_with_policy (cluster_run sample_setup) sample_queue sample_policy btree_empty = Some adm"
    and "r_id (ad_request adm) = 2" by (rule sample_backfill)
  with backfill_protects_heads [of "k_graph (cluster_run sample_setup)" "cluster_occupancy (cluster_run sample_setup)"
      "placement_blocked (cluster_run sample_setup)" btree_empty sample_policy sample_queue
      "cluster_backfill_ctx (cluster_run sample_setup)" adm]
  show ?thesis by (auto simp: cluster_admit_backfill_with_policy_def cluster_backfill_ctx_def Let_def)
qed

text \<open>Placing a request as if some leases were gone; the occupying leases.\<close>

definition select_without ::
    "graph \<Rightarrow> node_id set \<Rightarrow> (lease_id, lease) btree \<Rightarrow> lease_id set \<Rightarrow> request \<Rightarrow> lease_id set \<Rightarrow> (allocation, error) result" where
  "select_without g quarantine leases opens r gone =
     select g (occupancy_from_leases (btree_values leases) opens gone) r quarantine"

definition occupying_ids :: "(lease_id, lease) btree \<Rightarrow> lease_id set \<Rightarrow> lease_id set" where
  "occupying_ids leases opens = l_id ` {l \<in> set (btree_values leases). occupying l opens}"

lemma allocation_nodes_eq: "allocation_nodes a = c_node ` set (a_claims a)"
proof -
  have "btree_get (claims_by_node cs) n \<noteq> None \<longleftrightarrow> n \<in> c_node ` set cs" for cs n
    by (induction cs rule: rev_induct) (auto simp: claims_by_node_def)
  then show ?thesis by (auto simp: allocation_nodes_def)
qed

lemma expiry_times_iff:
  "t \<in> set (expiry_times leases opens now) \<longleftrightarrow>
     now < t \<and> (\<exists>l\<in>set (btree_values leases). occupying l opens \<and> l_expires_at l = t)"
  by (auto simp: expiry_times_def Bex_def)

lemma shadow_loop_earliest:
  assumes "sorted ts"
  shows "case shadow_loop g quarantine leases opens r ts of
      None \<Rightarrow> \<not> (\<exists>t\<in>set ts. is_ok (select_without g quarantine leases opens r (expired_by leases t)))
    | Some head \<Rightarrow> \<exists>t\<in>set ts. bh_shadow head = Some t \<and>
        (\<exists>a. select_without g quarantine leases opens r (expired_by leases t) = Ok a \<and> bh_claims head = c_node ` set (a_claims a)) \<and>
        \<not> (\<exists>t'\<in>set ts. t' < t \<and> is_ok (select_without g quarantine leases opens r (expired_by leases t')))"
  using assms
proof (induction ts)
  case (Cons t ts)
  show ?case
  proof (cases "select_without g quarantine leases opens r (expired_by leases t)")
    case (Ok a)
    have "\<not> t' < t" if "t' \<in> set ts" for t' using Cons.prems that by fastforce
    with Ok show ?thesis by (auto simp: allocation_nodes_eq select_without_def)
  next
    case (Err e)
    then have "shadow_loop g quarantine leases opens r (t # ts) = shadow_loop g quarantine leases opens r ts"
      by (simp add: select_without_def)
    with Cons Err show ?thesis by (cases "shadow_loop g quarantine leases opens r ts") auto
  qed
qed simp

text \<open>
  The shadow of a blocked request is the earliest one: it is an expiry time of an occupying lease after now at which
  the request can be placed once the live leases that have expired by then are gone, the protected nodes are those
  of that placement, and at no earlier expiry time the request can be placed. Without such a time the nodes of
  the placement with every occupying lease gone are protected without limit, and none when there is no such
  placement either.
\<close>

theorem shadow_is_earliest:
  "case shadow_head g quarantine leases opens r now of
     None \<Rightarrow> \<not> is_ok (select_without g quarantine leases opens r (occupying_ids leases opens)) \<and>
       \<not> (\<exists>t\<in>set (expiry_times leases opens now). is_ok (select_without g quarantine leases opens r (expired_by leases t)))
   | Some head \<Rightarrow>
       (case bh_shadow head of
          Some t \<Rightarrow> now < t \<and> (\<exists>l\<in>set (btree_values leases). occupying l opens \<and> l_expires_at l = t) \<and>
            (\<exists>a. select_without g quarantine leases opens r (expired_by leases t) = Ok a \<and>
               bh_claims head = c_node ` set (a_claims a)) \<and>
            \<not> (\<exists>t'\<in>set (expiry_times leases opens now). t' < t \<and>
               is_ok (select_without g quarantine leases opens r (expired_by leases t')))
        | None \<Rightarrow>
            (\<exists>a. select_without g quarantine leases opens r (occupying_ids leases opens) = Ok a \<and>
               bh_claims head = c_node ` set (a_claims a)) \<and>
            \<not> (\<exists>t\<in>set (expiry_times leases opens now). is_ok (select_without g quarantine leases opens r (expired_by leases t))))"
proof -
  have loop: "sorted (expiry_times leases opens now)" by (simp add: expiry_times_def)
  note loop = shadow_loop_earliest [OF loop, of g quarantine leases opens r]
  have all: "set (map l_id (filter (\<lambda>l. occupying l opens) (btree_values leases))) = occupying_ids leases opens"
    by (auto simp: occupying_ids_def)
  show ?thesis
  proof (cases "shadow_loop g quarantine leases opens r (expiry_times leases opens now)")
    case None
    with loop show ?thesis
      unfolding shadow_head_def all Let_def select_without_def [symmetric]
      by (auto simp: allocation_nodes_eq split: result.split)
  next
    case (Some head)
    with loop obtain t where t: "t \<in> set (expiry_times leases opens now)" "bh_shadow head = Some t"
        "\<exists>a. select_without g quarantine leases opens r (expired_by leases t) = Ok a \<and> bh_claims head = c_node ` set (a_claims a)"
        "\<not> (\<exists>t'\<in>set (expiry_times leases opens now). t' < t \<and>
            is_ok (select_without g quarantine leases opens r (expired_by leases t')))" by auto
    with expiry_times_iff [of t leases opens now] Some show ?thesis by (simp add: shadow_head_def)
  qed
qed

section \<open>Grants\<close>

lemma admit_with_policy_Some:
  assumes "admit_with_policy g occ quarantine policy queue leases opens = Some adm"
  shows "within_budget (btree_get_or btree_empty (owner_usage g leases opens) (ad_owner adm)) (ad_request adm) (ap_owner_ceiling policy) \<and>
    select g occ (ad_request adm) quarantine = Ok (ad_allocation adm)"
  using assms
  by (auto simp: admit_with_policy_def admit_with_policy_explained_def Let_def admit_loop_first admissible_def admission_of_def
      split: option.splits if_splits result.splits)

lemma admit_backfill_Some:
  assumes "admit_backfill_with_policy g occ quarantine exclusions policy queue ctx = Some adm"
  shows "within_budget (btree_get_or btree_empty (owner_usage g (bc_leases ctx) (bc_open_bindings ctx)) (ad_owner adm))
      (ad_request adm) (ap_owner_ceiling policy) \<and>
    select g occ (ad_request adm) (quarantine \<union> btree_get_or {} exclusions (r_id (ad_request adm))) = Ok (ad_allocation adm)"
proof -
  define usage where "usage = owner_usage g (bc_leases ctx) (bc_open_bindings ctx)"
  obtain heads q where "backfill_ok g occ quarantine exclusions policy usage ctx heads q adm"
    using assms backfill_loop_Some
    unfolding admit_backfill_with_policy_def admit_backfill_with_policy_explained_def Let_def usage_def [symmetric]
    by blast
  then show ?thesis by (auto simp: backfill_ok_def admission_of_def usage_def)
qed

text \<open>
  Grants stay within the budget: when plain admission or backfill grants a request and its owner has a ceiling for a
  class, then what the owner uses and what the allocation adds, counted in 64-bit arithmetic over the
  claims it really makes, do not exceed the ceiling in any dimension.
\<close>

theorem grants_within_ceiling:
  assumes "graph_wf g" and "btree_get (ap_owner_ceiling policy) kind = Some ceiling"
    and "admit_with_policy g occ quarantine policy queue leases opens = Some adm \<or>
      admit_backfill_with_policy g occ quarantine exclusions policy queue
        \<lparr>bc_now = now, bc_leases = leases, bc_open_bindings = opens\<rparr> = Some adm"
  shows "quantity_get (btree_get_or btree_empty (btree_get_or btree_empty (owner_usage g leases opens) (ad_owner adm)) kind) d +
    granted g (ad_allocation adm) kind d \<le> quantity_get ceiling d"
proof -
  obtain q where "within_budget (btree_get_or btree_empty (owner_usage g leases opens) (ad_owner adm)) (ad_request adm) (ap_owner_ceiling policy)"
      "select g occ (ad_request adm) q = Ok (ad_allocation adm)"
    using assms(3) admit_with_policy_Some [of g occ quarantine policy queue leases opens adm] admit_backfill_Some
    by fastforce
  with assms(1,2) within_budget_ceiling show ?thesis by blast
qed

text \<open>
  C28. What admission selects can be reserved: in a reachable cluster that is in agreement, the allocation of an
  admitted request, also one admitted by backfill under exclusions, is accepted as a reservation.
\<close>

theorem admitted_is_reservable:
  assumes "k_agreed (cluster_run es)" and "btree_get (k_leases (cluster_run es)) i = None"
    and "cluster_admit_with_policy (cluster_run es) queue policy = Some adm \<or>
      cluster_admit_backfill_with_policy (cluster_run es) queue policy exclusions = Some adm"
  shows "\<exists>c' l. cluster_apply (cluster_run es) (ReserveLease i (ad_owner adm) (ad_allocation adm) expires_at priority) = (c', Ok []) \<and>
    btree_get (k_leases c') i = Some l \<and> l_state l = LReserved \<and> l_allocation l = ad_allocation adm"
proof -
  obtain q where "select (k_graph (cluster_run es)) (cluster_occupancy (cluster_run es)) (ad_request adm) q = Ok (ad_allocation adm)"
      and "placement_blocked (cluster_run es) \<subseteq> q"
    using assms(3)
    unfolding cluster_admit_with_policy_def cluster_admit_backfill_with_policy_def
    by (metis Un_upper1 admit_backfill_Some admit_with_policy_Some order_refl)
  from selector.place_reservable [OF cluster_run_inv assms(1,2) this] show ?thesis by simp
qed

section \<open>Shares\<close>

theorem grants_within_ceiling_witness:
  "\<exists>adm :: admission. r_id (ad_request adm) = 2 \<and>
     quantity_get (btree_get_or btree_empty (btree_get_or btree_empty
       (owner_usage (k_graph (cluster_run sample_setup)) (k_leases (cluster_run sample_setup)) (open_binding_leases (cluster_run sample_setup)))
       1) Memory) Bytes + granted (k_graph (cluster_run sample_setup)) (ad_allocation adm) Memory Bytes \<le> 32"
proof -
  obtain adm where adm: "cluster_admit_backfill_with_policy (cluster_run sample_setup) sample_queue sample_policy btree_empty = Some adm"
    and two: "r_id (ad_request adm) = 2" "ad_owner adm = 1" by (rule sample_backfill)
  have "btree_get (ap_owner_ceiling sample_policy) Memory = Some (qty Bytes 32)" by (simp add: sample_policy_def)
  from grants_within_ceiling [OF cluster_inv_parts(1) [OF cluster_run_inv] this
      disjI2 [OF adm [unfolded cluster_admit_backfill_with_policy_def cluster_backfill_ctx_def]], of Bytes] two
  have "quantity_get (btree_get_or btree_empty (btree_get_or btree_empty
       (owner_usage (k_graph (cluster_run sample_setup)) (k_leases (cluster_run sample_setup)) (open_binding_leases (cluster_run sample_setup)))
       1) Memory) Bytes + granted (k_graph (cluster_run sample_setup)) (ad_allocation adm) Memory Bytes \<le> quantity_get (qty Bytes 32) Bytes"
    by simp
  moreover have "quantity_get (qty Bytes 32) Bytes = 32" by code_simp
  ultimately show ?thesis using two by (intro exI [of _ adm]) simp
qed

theorem admitted_is_reservable_witness:
  "\<exists>(adm :: admission) c' l. r_id (ad_request adm) = 2 \<and>
     cluster_apply (cluster_run sample_setup) (ReserveLease 11 1 (ad_allocation adm) 90 4) = (c', Ok []) \<and>
     btree_get (k_leases c') 11 = Some l \<and> l_state l = LReserved"
proof -
  obtain adm where adm: "cluster_admit_backfill_with_policy (cluster_run sample_setup) sample_queue sample_policy btree_empty = Some adm"
    and two: "r_id (ad_request adm) = 2" "ad_owner adm = 1" by (rule sample_backfill)
  have "k_agreed (cluster_run sample_setup)" and "btree_get (k_leases (cluster_run sample_setup)) 11 = None"
    by code_simp+
  from admitted_is_reservable [OF this disjI2 [OF adm], of 90 4] two show ?thesis by (intro exI [of _ adm]) auto
qed

text \<open>No intermediate value of the share computation needs more than 128 bits.\<close>

lemma share_fits_u128:
  fixes used available :: u64 and weight :: u32
  shows "uint used * share_scale < 2 ^ 128" and "uint available * uint (max weight 1) < 2 ^ 128"
    and "uint used * share_scale div (uint available * uint (max weight 1)) < 2 ^ 128"
proof -
  have used: "uint used \<le> 2 ^ 64" and avail: "uint available \<le> 2 ^ 64" and w: "uint (max weight 1) \<le> 2 ^ 32"
    using unsigned_less [of used, where 'a = int] unsigned_less [of available, where 'a = int]
      unsigned_less [of "max weight 1", where 'a = int] by simp_all
  have "uint used * share_scale \<le> 2 ^ 64 * 10 ^ 18" using used by (simp add: share_scale_def)
  also have "\<dots> < (2 :: int) ^ 128" by simp
  finally show one: "uint used * share_scale < 2 ^ 128" .
  have "uint available * uint (max weight 1) \<le> 2 ^ 64 * 2 ^ 32" using avail w by (intro mult_mono) simp_all
  also have "\<dots> < (2 :: int) ^ 128" by simp
  finally show "uint available * uint (max weight 1) < 2 ^ 128" .
  have "0 \<le> uint used * share_scale" by (simp add: share_scale_def)
  moreover have "0 \<le> uint available * uint (max weight 1)" by simp
  ultimately have "uint used * share_scale div (uint available * uint (max weight 1)) \<le> uint used * share_scale"
    by (metis div_by_0 div_by_1 int_one_le_iff_zero_less order_le_less zdiv_mono2 zero_less_one)
  with one show "uint used * share_scale div (uint available * uint (max weight 1)) < 2 ^ 128" by linarith
qed

end
