(* ===== verification/Preemption.thy ===== *)
theory Preemption
  imports Admission
begin

text \<open>
  Preemption planning: who may be evicted, in which order, and that the planner stops at the first prefix of the
  candidates whose eviction makes room.
\<close>

lemma preemption_candidates_mem:
  assumes "cluster_inv c" and "l \<in> set (preemption_candidates c r)"
  shows "btree_get (k_leases c) (l_id l) = Some l \<and> l_parent l = None \<and> l_priority l < r_priority r \<and> occupies c (l_id l)"
  using assms(2) ids_okD [OF cluster_inv_parts(6) [OF assms(1)]] by (auto simp: preemption_candidates_def)

lemma preemption_candidates_sorted:
  "sorted_wrt (\<lambda>l l'. l_priority l \<le> l_priority l') (preemption_candidates c r)"
proof -
  let ?key = "\<lambda>l. (l_priority l, - uint (l_id l))"
  have "sorted_wrt (\<lambda>l l'. ?key l \<le> ?key l') (preemption_candidates c r)"
    using sorted_sort_key [of ?key] unfolding preemption_candidates_def sorted_map .
  then show ?thesis by (rule sorted_wrt_mono_rel [rotated]) auto
qed

text \<open>The loop stops at the first feasible prefix.\<close>

definition first_prefix :: "cluster \<Rightarrow> request \<Rightarrow> lease_id list \<Rightarrow> lease list \<Rightarrow> preemption_plan_t \<Rightarrow> bool" where
  "first_prefix c r victims ls plan \<longleftrightarrow>
     pp_outcome plan = Planned \<and> (\<exists>k<length ls. pp_victims plan = victims @ map l_id (take (Suc k) ls) \<and>
       feasible_without c r (pp_victims plan) \<and> (\<forall>j<k. \<not> feasible_without c r (victims @ map l_id (take (Suc j) ls)))) \<or>
     pp_outcome plan = NotFeasible \<and> pp_victims plan = [] \<and>
       (\<forall>k<length ls. \<not> feasible_without c r (victims @ map l_id (take (Suc k) ls)))"

lemma preemption_loop_first: "first_prefix c r victims ls (preemption_loop c r (enumerate m ls) victims steps)"
proof (induction ls arbitrary: m victims steps)
  case Nil
  then show ?case by (simp add: first_prefix_def)
next
  case (Cons l ls)
  let ?v = "victims @ [l_id l]"
  show ?case
  proof (cases "feasible_without c r ?v")
    case True
    then show ?thesis by (simp add: Let_def first_prefix_def) (rule exI [of _ 0], simp)
  next
    case False
    define plan where "plan = preemption_loop c r (enumerate (Suc m) ls) ?v
        (steps @ [\<lparr>pt_rank = m, pt_lease = l_id l, pt_owner = l_owner l, pt_priority = l_priority l, pt_feasible = False\<rparr>])"
    have eq: "preemption_loop c r (enumerate m (l # ls)) victims steps = plan" using False by (simp add: Let_def plan_def)
    have "first_prefix c r ?v ls plan" unfolding plan_def by (rule Cons.IH)
    then consider k where "pp_outcome plan = Planned" "k < length ls" "pp_victims plan = ?v @ map l_id (take (Suc k) ls)"
        "feasible_without c r (pp_victims plan)" "\<forall>j<k. \<not> feasible_without c r (?v @ map l_id (take (Suc j) ls))"
      | "pp_outcome plan = NotFeasible" "pp_victims plan = []"
        "\<forall>k<length ls. \<not> feasible_without c r (?v @ map l_id (take (Suc k) ls))"
      unfolding first_prefix_def by blast
    then show ?thesis
    proof cases
      case 1
      then show ?thesis
        unfolding eq first_prefix_def using False
        by (intro disjI1 conjI exI [of _ "Suc k"]) (auto simp: less_Suc_eq_0_disj)
    next
      case 2
      then show ?thesis unfolding eq first_prefix_def using False by (auto simp: less_Suc_eq_0_disj)
    qed
  qed
qed

text \<open>A lease that the request may evict, and the first candidates in eviction order.\<close>

definition preemptible :: "cluster \<Rightarrow> request \<Rightarrow> lease_id \<Rightarrow> lease \<Rightarrow> bool" where
  "preemptible c r i l \<longleftrightarrow> btree_get (k_leases c) i = Some l \<and> l_parent l = None \<and> l_priority l < r_priority r \<and> occupies c i"

definition first_victims :: "cluster \<Rightarrow> request \<Rightarrow> nat \<Rightarrow> lease_id list" where
  "first_victims c r k = map l_id (take k (preemption_candidates c r))"

lemma preemption_candidates_iff:
  assumes "cluster_inv c"
  shows "l \<in> set (preemption_candidates c r) \<longleftrightarrow> preemptible c r (l_id l) l"
  using ids_okD [OF cluster_inv_parts(6) [OF assms]] by (auto simp: preemption_candidates_def preemptible_def)

lemma first_victims_preemptible:
  assumes "cluster_inv c" and "i \<in> set (first_victims c r k)"
  shows "\<exists>l. preemptible c r i l"
  using assms preemption_candidates_iff [OF assms(1)] by (auto simp: first_victims_def dest: in_set_takeD)

lemma first_victims_cheapest:
  assumes inv: "cluster_inv c" and i: "i \<in> set (first_victims c r k)" "preemptible c r i l"
    and j: "j \<notin> set (first_victims c r k)" "preemptible c r j l'"
  shows "l_priority l \<le> l_priority l'"
proof -
  let ?cs = "preemption_candidates c r"
  note ids = ids_okD [OF cluster_inv_parts(6) [OF inv]]
  have "l_id l' = j" "l_id l = i" using i(2) j(2) ids by (auto simp: preemptible_def)
  with j have "l' \<in> set ?cs" "l' \<notin> set (take k ?cs)"
    by (auto simp: preemption_candidates_iff [OF inv] first_victims_def)
  then have "l' \<in> set (drop k ?cs)" by (metis Un_iff append_take_drop_id set_append)
  moreover have "l \<in> set (take k ?cs)"
  proof -
    from i(1) obtain m where m: "m \<in> set (take k ?cs)" "l_id m = i" by (auto simp: first_victims_def)
    then have "preemptible c r i m" using preemption_candidates_iff [OF inv] by (auto dest: in_set_takeD)
    with i(2) m show ?thesis by (simp add: preemptible_def)
  qed
  moreover have "sorted_wrt (\<lambda>l l'. l_priority l \<le> l_priority l') (take k ?cs @ drop k ?cs)"
    using preemption_candidates_sorted by simp
  ultimately show ?thesis unfolding sorted_wrt_append by blast
qed

lemma preemption_plan_cases:
  "pp_outcome (preemption_plan c r) = AlreadyFeasible \<and> pp_victims (preemption_plan c r) = [] \<and> is_ok (allocate c r) \<or>
   first_prefix c r [] (preemption_candidates c r) (preemption_plan c r) \<and> \<not> is_ok (allocate c r)"
  using preemption_loop_first [of c r "[]" "preemption_candidates c r" 0 "[]"]
  by (simp add: preemption_plan_def allocate_def)

text \<open>
  C30. Preemption is planned as documented: in a reachable cluster the plan is "already feasible" exactly when the request
  can be placed now, with no victim. When it names victims, they are the first candidates in eviction order: root
  leases that occupy resources, of strictly lower priority, such that no lease that could have been evicted and is spared has a lower
  priority than a victim; the request can be placed once the victims and their descendants are gone, and no
  shorter prefix of them is enough. The plan is "not feasible" exactly when no prefix of the candidates makes room.
\<close>

theorem preemption_plan_sound:
  assumes "preemption_plan (cluster_run es) r = plan"
  shows "(pp_outcome plan = AlreadyFeasible \<longleftrightarrow> is_ok (allocate (cluster_run es) r)) \<and>
    (pp_outcome plan = NotFeasible \<longleftrightarrow> \<not> is_ok (allocate (cluster_run es) r) \<and>
       \<not> (\<exists>k<length (preemption_candidates (cluster_run es) r). feasible_without (cluster_run es) r (first_victims (cluster_run es) r (Suc k)))) \<and>
    (pp_outcome plan \<noteq> Planned \<longrightarrow> pp_victims plan = []) \<and>
    (pp_outcome plan = Planned \<longrightarrow>
       (\<exists>k<length (preemption_candidates (cluster_run es) r). pp_victims plan = first_victims (cluster_run es) r (Suc k) \<and>
          feasible_without (cluster_run es) r (pp_victims plan) \<and>
          \<not> (\<exists>j<k. feasible_without (cluster_run es) r (first_victims (cluster_run es) r (Suc j))))) \<and>
    (\<forall>i\<in>set (pp_victims plan). \<exists>l. preemptible (cluster_run es) r i l \<and>
       (\<forall>j l'. preemptible (cluster_run es) r j l' \<longrightarrow> j \<notin> set (pp_victims plan) \<longrightarrow> l_priority l \<le> l_priority l'))"
proof -
  note inv = cluster_run_inv [of es]
  have victims: "\<forall>i\<in>set vs. \<exists>l. preemptible (cluster_run es) r i l \<and>
      (\<forall>j l'. preemptible (cluster_run es) r j l' \<longrightarrow> j \<notin> set vs \<longrightarrow> l_priority l \<le> l_priority l')"
    if "vs = first_victims (cluster_run es) r k" for vs k
    using that first_victims_preemptible [OF inv] first_victims_cheapest [OF inv] by blast
  consider "pp_outcome plan = AlreadyFeasible" "pp_victims plan = []" "is_ok (allocate (cluster_run es) r)"
    | k where "pp_outcome plan = Planned" "\<not> is_ok (allocate (cluster_run es) r)"
        "k < length (preemption_candidates (cluster_run es) r)" "pp_victims plan = first_victims (cluster_run es) r (Suc k)"
        "feasible_without (cluster_run es) r (pp_victims plan)"
        "\<forall>j<k. \<not> feasible_without (cluster_run es) r (first_victims (cluster_run es) r (Suc j))"
    | "pp_outcome plan = NotFeasible" "pp_victims plan = []" "\<not> is_ok (allocate (cluster_run es) r)"
        "\<forall>k<length (preemption_candidates (cluster_run es) r). \<not> feasible_without (cluster_run es) r (first_victims (cluster_run es) r (Suc k))"
    using preemption_plan_cases [of "cluster_run es" r] assms
    by (fastforce simp: first_prefix_def first_victims_def [symmetric])
  then show ?thesis
  proof cases
    case (2 k)
    then show ?thesis using victims [OF 2(4)] by auto
  qed auto
qed

theorem preemption_plan_sound_witness:
  "pp_victims (preemption_plan (cluster_run sample_setup) (sample_request 1 5 [sample_need Gpu Count 1])) = [10] \<and>
   feasible_without (cluster_run sample_setup) (sample_request 1 5 [sample_need Gpu Count 1]) [10]"
proof -
  let ?plan = "preemption_plan (cluster_run sample_setup) (sample_request 1 5 [sample_need Gpu Count 1])"
  have v: "pp_victims ?plan = [10]" by code_simp
  have "pp_outcome ?plan \<noteq> Planned \<longrightarrow> pp_victims ?plan = []"
    and "pp_outcome ?plan = Planned \<longrightarrow>
      feasible_without (cluster_run sample_setup) (sample_request 1 5 [sample_need Gpu Count 1]) (pp_victims ?plan)"
    using preemption_plan_sound [OF refl, of sample_setup "sample_request 1 5 [sample_need Gpu Count 1]"] by auto
  with v show ?thesis by auto
qed

end
