(* ===== verification/Node_Device_Filter.thy ===== *)
theory Node_Device_Filter
  imports Archon_Prelude "HOL-Library.Signed_Division"
begin

text \<open>
  The device filter of process leases (\<^verbatim>\<open>crates/node/src/device_filter.rs\<close>): which devices a lease may open, the
  eBPF program that enforces it, the encoding of its instructions, and the evaluator that the tests of the source run
  it on. \<^verbatim>\<open>i16\<close> and \<^verbatim>\<open>i32\<close> are words read with \<open>sint\<close>. What the operating system says about a path (\<^verbatim>\<open>fs::metadata\<close>) is a
  parameter; loading and attaching the program are system calls and are not modelled.
\<close>

unbundle bit_operations_syntax

section \<open>Constants of the kernel interface\<close>

type_synonym u8 = "8 word"
type_synonym u16 = "16 word"

definition BPF_LDX_MEM_W :: u8 where "BPF_LDX_MEM_W = 0x61"

definition BPF_ALU32_MOV_IMM :: u8 where "BPF_ALU32_MOV_IMM = 0xb4"

definition BPF_ALU32_AND_IMM :: u8 where "BPF_ALU32_AND_IMM = 0x54"

definition BPF_ALU32_RSH_IMM :: u8 where "BPF_ALU32_RSH_IMM = 0x74"

definition BPF_JMP32_JNE_IMM :: u8 where "BPF_JMP32_JNE_IMM = 0x56"

definition BPF_JA :: u8 where "BPF_JA = 0x05"

definition BPF_EXIT :: u8 where "BPF_EXIT = 0x95"

definition DEVCG_ACC_MKNOD :: u32 where "DEVCG_ACC_MKNOD = 1"

definition DEVCG_ACC_READ :: u32 where "DEVCG_ACC_READ = 2"

definition DEVCG_ACC_WRITE :: u32 where "DEVCG_ACC_WRITE = 4"

definition DEVCG_DEV_BLOCK :: u32 where "DEVCG_DEV_BLOCK = 1"

definition DEVCG_DEV_CHAR :: u32 where "DEVCG_DEV_CHAR = 2"

lemmas bpf_constants = BPF_LDX_MEM_W_def BPF_ALU32_MOV_IMM_def BPF_ALU32_AND_IMM_def BPF_ALU32_RSH_IMM_def
  BPF_JMP32_JNE_IMM_def BPF_JA_def BPF_EXIT_def

lemmas devcg_constants = DEVCG_ACC_MKNOD_def DEVCG_ACC_READ_def DEVCG_ACC_WRITE_def DEVCG_DEV_BLOCK_def
  DEVCG_DEV_CHAR_def

section \<open>Rules and instructions\<close>

record device_rule =
  dr_dev_type :: u32
  dr_major :: u32
  dr_minor :: u32
  dr_access :: u32

record insn =
  i_code :: u8
  i_dst_reg :: u8
  i_src_reg :: u8
  i_off :: u16
  i_imm :: u32

definition mov_imm :: "u8 \<Rightarrow> u32 \<Rightarrow> insn" where
  "mov_imm dst imm = \<lparr>i_code = BPF_ALU32_MOV_IMM, i_dst_reg = dst, i_src_reg = 0, i_off = 0, i_imm = imm\<rparr>"

definition mov_reg :: "u8 \<Rightarrow> u8 \<Rightarrow> insn" where
  "mov_reg dst src = \<lparr>i_code = 0xbf, i_dst_reg = dst, i_src_reg = src, i_off = 0, i_imm = 0\<rparr>"

definition and_imm :: "u8 \<Rightarrow> u32 \<Rightarrow> insn" where
  "and_imm dst imm = \<lparr>i_code = BPF_ALU32_AND_IMM, i_dst_reg = dst, i_src_reg = 0, i_off = 0, i_imm = imm\<rparr>"

definition rsh_imm :: "u8 \<Rightarrow> u32 \<Rightarrow> insn" where
  "rsh_imm dst imm = \<lparr>i_code = BPF_ALU32_RSH_IMM, i_dst_reg = dst, i_src_reg = 0, i_off = 0, i_imm = imm\<rparr>"

definition load_ctx_word :: "u8 \<Rightarrow> u16 \<Rightarrow> insn" where
  "load_ctx_word dst byte_off =
     \<lparr>i_code = BPF_LDX_MEM_W, i_dst_reg = dst, i_src_reg = 1, i_off = byte_off, i_imm = 0\<rparr>"

text \<open>The instructions that \<^verbatim>\<open>compile\<close> writes as literals: a conditional jump, a jump, the end.\<close>

definition jne_imm :: "u8 \<Rightarrow> u32 \<Rightarrow> u16 \<Rightarrow> insn" where
  "jne_imm dst imm off = \<lparr>i_code = BPF_JMP32_JNE_IMM, i_dst_reg = dst, i_src_reg = 0, i_off = off, i_imm = imm\<rparr>"

definition ja :: "u16 \<Rightarrow> insn" where
  "ja off = \<lparr>i_code = BPF_JA, i_dst_reg = 0, i_src_reg = 0, i_off = off, i_imm = 0\<rparr>"

definition bpf_exit :: insn where
  "bpf_exit = \<lparr>i_code = BPF_EXIT, i_dst_reg = 0, i_src_reg = 0, i_off = 0, i_imm = 0\<rparr>"

section \<open>The compiler\<close>

text \<open>\<^verbatim>\<open>(target - from - 1) as i16\<close>: the cast keeps the low 16 bits.\<close>

definition jump_to :: "nat \<Rightarrow> nat \<Rightarrow> u16" where
  "jump_to from target = of_nat (target - from - 1)"

text \<open>The ten instructions of a rule that start at position \<open>s\<close>.\<close>

definition rule_block :: "nat \<Rightarrow> nat \<Rightarrow> nat \<Rightarrow> device_rule \<Rightarrow> insn list" where
  "rule_block s next_rule allow rule =
     (let granted = dr_access rule AND (DEVCG_ACC_READ OR DEVCG_ACC_WRITE OR DEVCG_ACC_MKNOD);
          disallowed = NOT granted
      in [mov_reg 6 2,
          rsh_imm 6 16,
          and_imm 6 disallowed,
          jne_imm 6 0 (jump_to (s + 3) next_rule),
          mov_reg 6 2,
          and_imm 6 0xffff,
          jne_imm 6 (dr_dev_type rule) (jump_to (s + 6) next_rule),
          jne_imm 3 (dr_major rule) (jump_to (s + 7) next_rule),
          jne_imm 4 (dr_minor rule) (jump_to (s + 8) next_rule),
          ja (jump_to (s + 9) allow)])"

definition compile :: "device_rule list \<Rightarrow> insn list" where
  "compile rules =
     (if rules = [] then [mov_imm 0 0, bpf_exit]
      else
        let prologue = [load_ctx_word 2 0, load_ctx_word 3 4, load_ctx_word 4 8];
            allow = length prologue + length rules * 10;
            deny = allow + 2;
            prog = fold (\<lambda>(i, rule) prog.
                let s = length prog;
                    next_rule = (if i + 1 < length rules then s + 10 else deny)
                in prog @ rule_block s next_rule allow rule)
              (enumerate 0 rules) prologue
        in prog @ [mov_imm 0 1, bpf_exit, mov_imm 0 0, bpf_exit])"

text \<open>One instruction in the 64-bit layout of the kernel.\<close>

definition encode :: "insn \<Rightarrow> u64" where
  "encode insn =
     ucast (i_code insn) OR push_bit 8 (ucast (i_dst_reg insn AND 0xf)) OR push_bit 12 (ucast (i_src_reg insn AND 0xf)) OR
     push_bit 16 (ucast (i_off insn)) OR push_bit 32 (ucast (i_imm insn))"

section \<open>The evaluator\<close>

text \<open>
  \<^verbatim>\<open>run\<close> of the tests. A step goes on with new registers and a new position, returns, or panics: on an index out of
  range, a shift by 32 or more, an unknown instruction. The position is an \<^verbatim>\<open>i32\<close> in the source; it stays within
  the program and one jump of it, so it is an integer here.
\<close>

datatype bpf_next = Goto "u32 list" int | Return u64 | Panic

definition with_reg :: "u32 list \<Rightarrow> u8 \<Rightarrow> (u32 \<Rightarrow> bpf_next) \<Rightarrow> bpf_next" where
  "with_reg regs r f = (if unat r < length regs then f (regs ! unat r) else Panic)"

definition set_reg :: "u32 list \<Rightarrow> u8 \<Rightarrow> u32 \<Rightarrow> int \<Rightarrow> bpf_next" where
  "set_reg regs r v pc = (if unat r < length regs then Goto (regs[unat r := v]) pc else Panic)"

definition bpf_step :: "u32 list \<Rightarrow> insn \<Rightarrow> u32 list \<Rightarrow> int \<Rightarrow> bpf_next" where
  "bpf_step ctx insn regs pc =
     (if i_code insn = 0x61 then
        (let word = sint (i_off insn) sdiv 4 in
         if 0 \<le> word \<and> nat word < length ctx then set_reg regs (i_dst_reg insn) (ctx ! nat word) (pc + 1) else Panic)
      else if i_code insn = 0xbf then
        with_reg regs (i_src_reg insn) (\<lambda>v. set_reg regs (i_dst_reg insn) v (pc + 1))
      else if i_code insn = BPF_ALU32_MOV_IMM then set_reg regs (i_dst_reg insn) (i_imm insn) (pc + 1)
      else if i_code insn = BPF_ALU32_AND_IMM then
        with_reg regs (i_dst_reg insn) (\<lambda>v. set_reg regs (i_dst_reg insn) (v AND i_imm insn) (pc + 1))
      else if i_code insn = BPF_ALU32_RSH_IMM then
        with_reg regs (i_dst_reg insn) (\<lambda>v.
          if i_imm insn < 32 then set_reg regs (i_dst_reg insn) (drop_bit (unat (i_imm insn)) v) (pc + 1) else Panic)
      else if i_code insn = BPF_JMP32_JNE_IMM then
        with_reg regs (i_dst_reg insn) (\<lambda>v.
          Goto regs (if v \<noteq> i_imm insn then pc + sint (i_off insn) + 1 else pc + 1))
      else if i_code insn = BPF_JA then Goto regs (pc + sint (i_off insn) + 1)
      else if i_code insn = BPF_EXIT then with_reg regs 0 (\<lambda>v. Return (ucast v))
      else Panic)"

partial_function (option) bpf_loop :: "insn list \<Rightarrow> u32 list \<Rightarrow> u32 list \<Rightarrow> int \<Rightarrow> (u64, unit) result option" where
  "bpf_loop prog ctx regs pc =
     (if 0 \<le> pc \<and> nat pc < length prog then
        case bpf_step ctx (prog ! nat pc) regs pc of
          Goto regs' pc' \<Rightarrow> bpf_loop prog ctx regs' pc'
        | Return v \<Rightarrow> Some (Ok v)
        | Panic \<Rightarrow> Some (Err ())
      else Some (Err ()))"

declare bpf_loop.simps [code]

definition bpf_run :: "insn list \<Rightarrow> u32 \<Rightarrow> u32 \<Rightarrow> u32 \<Rightarrow> (u64, unit) result option" where
  "bpf_run prog access_type major minor = bpf_loop prog [access_type, major, minor] (replicate 11 0) 0"

section \<open>The rules of a lease\<close>

record device_access =
  da_id :: string
  da_dev :: string
  da_paths :: "string list"
  da_cdi :: "string option"

text \<open>What the operating system says about a path: the mode and the device number.\<close>

type_synonym metadata = "string \<Rightarrow> (u32 \<times> u64) option"

definition device_major :: "u64 \<Rightarrow> u32" where
  "device_major dev = ucast ((drop_bit 8 dev AND 0xfff) OR (drop_bit 32 dev AND NOT 0xfff))"

definition device_minor :: "u64 \<Rightarrow> u32" where
  "device_minor dev = ucast ((dev AND 0xff) OR (drop_bit 12 dev AND NOT 0xff))"

definition device_numbers :: "metadata \<Rightarrow> string \<Rightarrow> (bool \<times> u32 \<times> u32) option" where
  "device_numbers metadata path =
     (case metadata path of
        None \<Rightarrow> None
      | Some (mode, dev) \<Rightarrow>
          let is_char = mode AND 0xf000 = 0x2000;
              is_block = mode AND 0xf000 = 0x6000
          in if \<not> is_char \<and> \<not> is_block then None else Some (is_char, device_major dev, device_minor dev))"

definition device_key :: "bool \<times> u32 \<times> u32 \<Rightarrow> u32 \<times> u32 \<times> u32" where
  "device_key = (\<lambda>(is_char, major, minor). (if is_char then DEVCG_DEV_CHAR else DEVCG_DEV_BLOCK, major, minor))"

text \<open>\<^verbatim>\<open>if claimed.insert(key) { rules.push(...) }\<close>.\<close>

definition claim_device ::
    "u32 \<Rightarrow> u32 \<times> u32 \<times> u32 \<Rightarrow> (u32 \<times> u32 \<times> u32) set \<times> device_rule list \<Rightarrow> (u32 \<times> u32 \<times> u32) set \<times> device_rule list" where
  "claim_device access key = (\<lambda>(claimed, rules).
     if key \<in> claimed then (claimed, rules)
     else (insert key claimed,
       rules @ [\<lparr>dr_dev_type = fst key, dr_major = fst (snd key), dr_minor = snd (snd key), dr_access = access\<rparr>]))"

definition pseudo_devices :: "string list" where
  "pseudo_devices = [''/dev/null'', ''/dev/zero'', ''/dev/full'', ''/dev/random'', ''/dev/urandom'']"

definition pseudo_rules :: "metadata \<Rightarrow> (u32 \<times> u32 \<times> u32) set \<times> device_rule list" where
  "pseudo_rules metadata =
     fold (\<lambda>path st. case device_numbers metadata path of
         None \<Rightarrow> st
       | Some numbers \<Rightarrow> claim_device (DEVCG_ACC_READ OR DEVCG_ACC_WRITE) (device_key numbers) st)
       pseudo_devices ({}, [])"

definition claim_path ::
    "metadata \<Rightarrow> device_access \<Rightarrow> string \<Rightarrow> (u32 \<times> u32 \<times> u32) set \<times> device_rule list \<Rightarrow>
     ((u32 \<times> u32 \<times> u32) set \<times> device_rule list, string) result" where
  "claim_path metadata device path st =
     (case device_numbers metadata path of
        None \<Rightarrow> Err (''device '' @ da_id device @ '' ('' @ path @ '') is not reachable or not a device node'')
      | Some numbers \<Rightarrow>
          Ok (claim_device (DEVCG_ACC_READ OR DEVCG_ACC_WRITE OR DEVCG_ACC_MKNOD) (device_key numbers) st))"

definition claim_paths ::
    "metadata \<Rightarrow> device_access \<Rightarrow> (u32 \<times> u32 \<times> u32) set \<times> device_rule list \<Rightarrow>
     ((u32 \<times> u32 \<times> u32) set \<times> device_rule list, string) result" where
  "claim_paths metadata device = try_fold (claim_path metadata device) (da_dev device # da_paths device)"

text \<open>The rules that \<^verbatim>\<open>enforce_devices\<close> compiles, and the program it attaches.\<close>

definition device_rules :: "metadata \<Rightarrow> device_access list \<Rightarrow> (device_rule list, string) result" where
  "device_rules metadata devices =
     and_then (try_fold (claim_paths metadata) devices (pseudo_rules metadata)) (\<lambda>st. Ok (snd st))"

definition enforce_devices :: "metadata \<Rightarrow> device_access list \<Rightarrow> (insn list, string) result" where
  "enforce_devices metadata devices = and_then (device_rules metadata devices) (\<lambda>rules. Ok (compile rules))"

end
