(* ===== verification/Device_Filter.thy ===== *)
theory Device_Filter
  imports Node_Device_Filter
begin

text \<open>
  Correctness of the device filter: the compiled program decides exactly what its rules say, it always returns, and
  with the rules of a lease it lets through the claimed devices and nothing else.
\<close>

section \<open>What the rules say\<close>

definition ALL_ACCESS :: u32 where
  "ALL_ACCESS = DEVCG_ACC_READ OR DEVCG_ACC_WRITE OR DEVCG_ACC_MKNOD"

text \<open>A request carries the access flags in the upper and the type of the device in the lower half of a word.\<close>

definition rule_permits :: "u32 \<Rightarrow> u32 \<Rightarrow> u32 \<Rightarrow> device_rule \<Rightarrow> bool" where
  "rule_permits access_type major minor rule \<longleftrightarrow>
     drop_bit 16 access_type AND NOT (dr_access rule AND ALL_ACCESS) = 0 \<and> access_type AND 0xffff = dr_dev_type rule \<and>
     major = dr_major rule \<and> minor = dr_minor rule"

section \<open>The layout of a program\<close>

definition after_rule :: "nat \<Rightarrow> nat \<Rightarrow> nat" where
  "after_rule n i = (if i + 1 < n then 3 + 10 * (i + 1) else 3 + 10 * n + 2)"

definition block_at :: "device_rule list \<Rightarrow> nat \<Rightarrow> insn list" where
  "block_at rules i = rule_block (3 + 10 * i) (after_rule (length rules) i) (3 + 10 * length rules) (rules ! i)"

lemma length_rule_block [simp]: "length (rule_block s next_rule allow rule) = 10"
  by (simp add: rule_block_def Let_def)

lemma compile_layout:
  assumes "rules \<noteq> []"
  shows "compile rules = [load_ctx_word 2 0, load_ctx_word 3 4, load_ctx_word 4 8] @
    concat (map (block_at rules) [0..<length rules]) @ [mov_imm 0 1, bpf_exit, mov_imm 0 0, bpf_exit]"
proof -
  let ?n = "length rules"
  let ?step = "\<lambda>(i, rule) prog. let s = length prog; next_rule = (if i + 1 < ?n then s + 10 else 3 + ?n * 10 + 2)
      in prog @ rule_block s next_rule (3 + ?n * 10) rule"
  have "fold ?step (enumerate k rs) prog = prog @ concat (map (block_at rules) [k..<k + length rs])"
    if "length prog = 3 + 10 * k" and "drop k rules = rs" for k rs prog
    using that
  proof (induction rs arbitrary: k prog)
    case (Cons r rs)
    have k: "k < ?n" using Cons.prems(2) by (metis drop_all leI list.distinct(1))
    then have r: "r = rules ! k" and rs: "drop (Suc k) rules = rs"
      using Cons.prems(2) Cons_nth_drop_Suc [OF k] by simp_all
    have "?step (k, r) prog = prog @ block_at rules k"
      using Cons.prems(1) r by (simp add: Let_def block_at_def after_rule_def algebra_simps)
    moreover have "[k..<k + length (r # rs)] = k # [Suc k..<Suc k + length rs]" by (simp add: upt_conv_Cons del: upt_Suc)
    moreover have "length (prog @ block_at rules k) = 3 + 10 * Suc k" using Cons.prems(1) by (simp add: block_at_def)
    ultimately show ?case using Cons.IH [OF _ rs, of "prog @ block_at rules k"] by simp
  qed simp
  from this [of _ 0 rules] show ?thesis using assms by (simp add: compile_def Let_def numeral_3_eq_3 cong: if_cong)
qed

lemma nth_concat_blocks:
  assumes "\<forall>xs\<in>set xss. length xs = m" and "i < length xss" and "k < m"
  shows "concat xss ! (m * i + k) = xss ! i ! k"
  using assms
proof (induction xss arbitrary: i)
  case (Cons xs xss)
  then show ?case by (cases i) (simp_all add: nth_append)
qed simp

lemma length_blocks [simp]: "length (concat (map (block_at rules) is)) = 10 * length is"
  by (induction "is") (simp_all add: block_at_def)

lemma length_compile: "rules \<noteq> [] \<Longrightarrow> length (compile rules) = 3 + 10 * length rules + 4"
  by (simp add: compile_layout)

lemma compile_block:
  assumes "i < length rules" and "k < 10"
  shows "compile rules ! (3 + 10 * i + k) = block_at rules i ! k"
proof -
  let ?blocks = "concat (map (block_at rules) [0..<length rules])"
  have "10 * i + k < length ?blocks" using assms by simp
  then have "compile rules ! (3 + 10 * i + k) = ?blocks ! (10 * i + k)"
    using assms by (subst compile_layout) (auto simp: nth_append simp del: length_blocks)
  also have "\<dots> = block_at rules i ! k"
    using assms by (subst nth_concat_blocks) (simp_all add: block_at_def)
  finally show ?thesis .
qed

lemma compile_epilogue:
  assumes "rules \<noteq> []" and "k < 4"
  shows "compile rules ! (3 + 10 * length rules + k) = [mov_imm 0 1, bpf_exit, mov_imm 0 0, bpf_exit] ! k"
  using assms by (simp add: compile_layout nth_append)

section \<open>Execution\<close>

lemma bpf_loop_at:
  assumes "k < length prog"
  shows "bpf_loop prog ctx regs (int k) =
    (case bpf_step ctx (prog ! k) regs (int k) of
       Goto regs' pc' \<Rightarrow> bpf_loop prog ctx regs' pc' | Return v \<Rightarrow> Some (Ok v) | Panic \<Rightarrow> Some (Err ()))"
  using assms by (subst bpf_loop.simps) simp

lemma bpf_step_simps:
  "bpf_step ctx (mov_reg d s) regs pc = with_reg regs s (\<lambda>v. set_reg regs d v (pc + 1))"
  "bpf_step ctx (mov_imm d imm) regs pc = set_reg regs d imm (pc + 1)"
  "bpf_step ctx (and_imm d imm) regs pc = with_reg regs d (\<lambda>v. set_reg regs d (v AND imm) (pc + 1))"
  "bpf_step ctx (rsh_imm d 16) regs pc = with_reg regs d (\<lambda>v. set_reg regs d (drop_bit 16 v) (pc + 1))"
  "bpf_step ctx (jne_imm d imm off) regs pc =
     with_reg regs d (\<lambda>v. Goto regs (if v \<noteq> imm then pc + sint off + 1 else pc + 1))"
  "bpf_step ctx (ja off) regs pc = Goto regs (pc + sint off + 1)"
  "bpf_step ctx bpf_exit regs pc = with_reg regs 0 (\<lambda>v. Return (ucast v))"
  by (simp_all add: bpf_step_def mov_reg_def mov_imm_def and_imm_def rsh_imm_def jne_imm_def ja_def bpf_exit_def bpf_constants cong: if_cong)

lemma sint_jump:
  assumes "from < target" and "target - from \<le> 32768"
  shows "int from + sint (jump_to from target) + 1 = int target"
proof -
  have "sint (of_nat d :: u16) = int d" if "d < 32768" for d
    using that by (simp add: signed_of_nat signed_take_bit_int_eq_self)
  from this [of "target - from - 1"] show ?thesis using assms by (simp add: jump_to_def del: of_nat_diff)
qed

text \<open>The registers that hold the request.\<close>

definition holds_request :: "u32 \<Rightarrow> u32 \<Rightarrow> u32 \<Rightarrow> u32 list \<Rightarrow> bool" where
  "holds_request access_type major minor regs \<longleftrightarrow>
     length regs = 11 \<and> regs ! 2 = access_type \<and> regs ! 3 = major \<and> regs ! 4 = minor"

lemma holds_request_scratch:
  "holds_request access_type major minor regs \<Longrightarrow> holds_request access_type major minor (regs[6 := v])"
  by (simp add: holds_request_def)

lemma block_instructions:
  assumes "i < length rules"
  shows "compile rules ! (3 + 10 * i) = mov_reg 6 2"
    and "compile rules ! (4 + 10 * i) = rsh_imm 6 16"
    and "compile rules ! (5 + 10 * i) = and_imm 6 (NOT (dr_access (rules ! i) AND ALL_ACCESS))"
    and "compile rules ! (6 + 10 * i) = jne_imm 6 0 (jump_to (6 + 10 * i) (after_rule (length rules) i))"
    and "compile rules ! (7 + 10 * i) = mov_reg 6 2"
    and "compile rules ! (8 + 10 * i) = and_imm 6 0xffff"
    and "compile rules ! (9 + 10 * i) = jne_imm 6 (dr_dev_type (rules ! i)) (jump_to (9 + 10 * i) (after_rule (length rules) i))"
    and "compile rules ! (10 + 10 * i) = jne_imm 3 (dr_major (rules ! i)) (jump_to (10 + 10 * i) (after_rule (length rules) i))"
    and "compile rules ! (11 + 10 * i) = jne_imm 4 (dr_minor (rules ! i)) (jump_to (11 + 10 * i) (after_rule (length rules) i))"
    and "compile rules ! (12 + 10 * i) = ja (jump_to (12 + 10 * i) (3 + 10 * length rules))"
  using compile_block [OF assms, of 0] compile_block [OF assms, of 1] compile_block [OF assms, of 2]
    compile_block [OF assms, of 3] compile_block [OF assms, of 4] compile_block [OF assms, of 5]
    compile_block [OF assms, of 6] compile_block [OF assms, of 7] compile_block [OF assms, of 8]
    compile_block [OF assms, of 9]
  by (simp_all add: block_at_def rule_block_def Let_def ALL_ACCESS_def add.commute add.left_commute)

lemma with_reg_ok [simp]: "unat r < length regs \<Longrightarrow> with_reg regs r f = f (regs ! unat r)"
  by (simp add: with_reg_def)

lemma set_reg_ok [simp]: "unat r < length regs \<Longrightarrow> set_reg regs r v pc = Goto (regs[unat r := v]) pc"
  by (simp add: set_reg_def)

text \<open>A block leads to the end if its rule permits the request, and to what follows it otherwise.\<close>

lemma run_block:
  assumes i: "i < length rules" and small: "length rules \<le> 3277"
    and regs: "holds_request access_type major minor regs"
  shows "\<exists>regs'. holds_request access_type major minor regs' \<and>
    bpf_loop (compile rules) ctx regs (int (3 + 10 * i)) =
    bpf_loop (compile rules) ctx regs'
      (int (if rule_permits access_type major minor (rules ! i) then 3 + 10 * length rules else after_rule (length rules) i))"
proof -
  let ?loop = "bpf_loop (compile rules) ctx" and ?next = "after_rule (length rules) i"
  let ?r1 = "regs[6 := drop_bit 16 access_type AND NOT (dr_access (rules ! i) AND ALL_ACCESS)]"
  let ?r2 = "regs[6 := access_type AND 0xffff]"
  have len: "length (compile rules) = 3 + 10 * length rules + 4" using i by (intro length_compile) auto
  note regs' = regs [unfolded holds_request_def]
  have jump: "int (k + 10 * i) + sint (jump_to (k + 10 * i) ?next) + 1 = int ?next" if "6 \<le> k" "k \<le> 11" for k
    using that i by (intro sint_jump) (auto simp: after_rule_def)
  have jump_end: "int (12 + 10 * i) + sint (jump_to (12 + 10 * i) (3 + 10 * length rules)) + 1 = int (3 + 10 * length rules)"
    using i small by (intro sint_jump) auto
  note at = bpf_loop_at [where prog = "compile rules" and ctx = ctx]
  have 1: "?loop regs (int (3 + 10 * i)) = ?loop ?r1 (int (6 + 10 * i))"
  proof -
    have "?loop regs (int (3 + 10 * i)) = ?loop (regs[6 := access_type]) (int (4 + 10 * i))"
      using i regs' by (subst at) (simp_all add: len block_instructions [OF i] bpf_step_simps)
    also have "\<dots> = ?loop (regs[6 := drop_bit 16 access_type]) (int (5 + 10 * i))"
      using i regs' by (subst at) (simp_all add: len block_instructions [OF i] bpf_step_simps)
    also have "\<dots> = ?loop ?r1 (int (6 + 10 * i))"
      using i regs' by (subst at) (simp_all add: len block_instructions [OF i] bpf_step_simps)
    finally show ?thesis .
  qed
  have 2: "?loop ?r1 (int (6 + 10 * i)) =
      (if drop_bit 16 access_type AND NOT (dr_access (rules ! i) AND ALL_ACCESS) = 0 then ?loop ?r2 (int (9 + 10 * i))
       else ?loop ?r1 (int ?next))"
  proof -
    have "?loop ?r1 (int (6 + 10 * i)) =
        (if drop_bit 16 access_type AND NOT (dr_access (rules ! i) AND ALL_ACCESS) = 0 then ?loop ?r1 (int (7 + 10 * i))
         else ?loop ?r1 (int ?next))"
      using i regs' jump [of 6] by (subst at) (simp_all add: len block_instructions [OF i] bpf_step_simps)
    moreover have "?loop ?r1 (int (7 + 10 * i)) = ?loop (regs[6 := access_type]) (int (8 + 10 * i))"
      using i regs' by (subst at) (simp_all add: len block_instructions [OF i] bpf_step_simps)
    moreover have "\<dots> = ?loop ?r2 (int (9 + 10 * i))"
      using i regs' by (subst at) (simp_all add: len block_instructions [OF i] bpf_step_simps)
    ultimately show ?thesis by (simp only:)
  qed
  have 3: "?loop ?r2 (int (9 + 10 * i)) =
      (if access_type AND 0xffff = dr_dev_type (rules ! i) then ?loop ?r2 (int (10 + 10 * i)) else ?loop ?r2 (int ?next))"
    using i regs' jump [of 9] by (subst at) (simp_all add: len block_instructions [OF i] bpf_step_simps)
  have 4: "?loop ?r2 (int (10 + 10 * i)) =
      (if major = dr_major (rules ! i) then ?loop ?r2 (int (11 + 10 * i)) else ?loop ?r2 (int ?next))"
    using i regs' jump [of 10] by (subst at) (simp_all add: len block_instructions [OF i] bpf_step_simps)
  have 5: "?loop ?r2 (int (11 + 10 * i)) =
      (if minor = dr_minor (rules ! i) then ?loop ?r2 (int (12 + 10 * i)) else ?loop ?r2 (int ?next))"
    using i regs' jump [of 11] by (subst at) (simp_all add: len block_instructions [OF i] bpf_step_simps)
  have 6: "?loop ?r2 (int (12 + 10 * i)) = ?loop ?r2 (int (3 + 10 * length rules))"
  proof -
    have "?loop ?r2 (int (12 + 10 * i)) =
        ?loop ?r2 (int (12 + 10 * i) + sint (jump_to (12 + 10 * i) (3 + 10 * length rules)) + 1)"
      using i regs' by (subst at) (simp_all add: len block_instructions [OF i] bpf_step_simps)
    then show ?thesis unfolding jump_end .
  qed
  have "?loop regs (int (3 + 10 * i)) =
      (if rule_permits access_type major minor (rules ! i) then ?loop ?r2 (int (3 + 10 * length rules))
       else if drop_bit 16 access_type AND NOT (dr_access (rules ! i) AND ALL_ACCESS) = 0 then ?loop ?r2 (int ?next)
       else ?loop ?r1 (int ?next))"
    unfolding 1 2 3 4 5 6 rule_permits_def by auto
  then show ?thesis using holds_request_scratch [OF regs] by (auto split: if_splits)
qed

lemma run_end:
  assumes "rules \<noteq> []" and "holds_request access_type major minor regs"
  shows "bpf_loop (compile rules) ctx regs (int (3 + 10 * length rules)) = Some (Ok 1)"
    and "bpf_loop (compile rules) ctx regs (int (3 + 10 * length rules + 2)) = Some (Ok 0)"
proof -
  have len: "length (compile rules) = 3 + 10 * length rules + 4" using assms(1) by (rule length_compile)
  have epi: "compile rules ! (3 + 10 * length rules) = mov_imm 0 1" "compile rules ! (4 + 10 * length rules) = bpf_exit"
    "compile rules ! (5 + 10 * length rules) = mov_imm 0 0" "compile rules ! (6 + 10 * length rules) = bpf_exit"
    using compile_epilogue [OF assms(1), of 0] compile_epilogue [OF assms(1), of 1] compile_epilogue [OF assms(1), of 2]
      compile_epilogue [OF assms(1), of 3] by (simp_all add: add.commute add.left_commute)
  note regs = assms(2) [unfolded holds_request_def]
  have exit_at: "bpf_loop (compile rules) ctx (regs[0 := v]) (int (k + 10 * length rules)) = Some (Ok (ucast v))"
    if "k = 4 \<or> k = 6" for k v
    using that regs epi by (subst bpf_loop_at) (auto simp: len bpf_step_simps)
  have "bpf_loop (compile rules) ctx regs (int (3 + 10 * length rules)) =
      bpf_loop (compile rules) ctx (regs[0 := 1]) (int (4 + 10 * length rules))"
    using regs epi by (subst bpf_loop_at) (simp_all add: len bpf_step_simps)
  then show "bpf_loop (compile rules) ctx regs (int (3 + 10 * length rules)) = Some (Ok 1)" using exit_at [of 4 1] by simp
  have "bpf_loop (compile rules) ctx regs (int (5 + 10 * length rules)) =
      bpf_loop (compile rules) ctx (regs[0 := 0]) (int (6 + 10 * length rules))"
    using regs epi by (subst bpf_loop_at) (simp_all add: len bpf_step_simps)
  then show "bpf_loop (compile rules) ctx regs (int (3 + 10 * length rules + 2)) = Some (Ok 0)"
    using exit_at [of 6 0] by simp
qed

lemma run_rules:
  assumes "i < length rules" and "length rules \<le> 3277" and "holds_request access_type major minor regs"
  shows "bpf_loop (compile rules) ctx regs (int (3 + 10 * i)) =
    Some (Ok (if list_ex (rule_permits access_type major minor) (drop i rules) then 1 else 0))"
  using assms
proof (induction "length rules - i" arbitrary: i regs)
  case (Suc m)
  have ne: "rules \<noteq> []" using Suc.prems(1) by auto
  have drop: "drop i rules = rules ! i # drop (Suc i) rules" using Suc.prems(1) by (simp add: Cons_nth_drop_Suc)
  obtain regs' where regs': "holds_request access_type major minor regs'"
      and step: "bpf_loop (compile rules) ctx regs (int (3 + 10 * i)) = bpf_loop (compile rules) ctx regs'
        (int (if rule_permits access_type major minor (rules ! i) then 3 + 10 * length rules else after_rule (length rules) i))"
    using run_block [OF Suc.prems] by blast
  show ?case
  proof (cases "rule_permits access_type major minor (rules ! i)")
    case True
    then show ?thesis unfolding step drop using run_end(1) [OF ne regs'] by simp
  next
    case False
    show ?thesis
    proof (cases "Suc i < length rules")
      case True
      have "bpf_loop (compile rules) ctx regs' (int (3 + 10 * Suc i)) =
          Some (Ok (if list_ex (rule_permits access_type major minor) (drop (Suc i) rules) then 1 else 0))"
        using Suc.hyps(2) by (intro Suc.hyps(1) True Suc.prems(2) regs') simp
      with False True show ?thesis unfolding step drop by (simp add: after_rule_def)
    next
      case last: False
      with False Suc.prems(1) run_end(2) [OF ne regs'] show ?thesis
        unfolding step drop by (simp add: after_rule_def)
    qed
  qed
qed simp

lemma run_prologue:
  assumes "rules \<noteq> []"
  shows "\<exists>regs. holds_request access_type major minor regs \<and>
    bpf_run (compile rules) access_type major minor = bpf_loop (compile rules) [access_type, major, minor] regs (int 3)"
proof -
  let ?ctx = "[access_type, major, minor]" and ?r0 = "replicate 11 0 :: u32 list"
  have len: "length (compile rules) = 3 + 10 * length rules + 4" using assms by (rule length_compile)
  have pro: "compile rules ! 0 = load_ctx_word 2 0" "compile rules ! Suc 0 = load_ctx_word 3 4" "compile rules ! 2 = load_ctx_word 4 8"
    using assms by (simp_all add: compile_layout)
  have load: "bpf_step ?ctx (load_ctx_word d off) regs pc = Goto (regs[unat d := ?ctx ! k]) (pc + 1)"
    if "(d, off, k) \<in> {(2, 0, 0), (3, 4, 1), (4, 8, 2)}" "length regs = 11" for d off k regs pc
    using that by (auto simp: bpf_step_def load_ctx_word_def bpf_constants set_reg_def signed_divide_int_def)
  have "bpf_run (compile rules) access_type major minor = bpf_loop (compile rules) ?ctx ?r0 (int 0)" by (simp add: bpf_run_def)
  also have "\<dots> = bpf_loop (compile rules) ?ctx (?r0[2 := access_type]) (int 1)"
    by (subst bpf_loop_at) (simp_all add: len pro load [of _ _ 0] del: of_nat_1)
  also have "\<dots> = bpf_loop (compile rules) ?ctx (?r0[2 := access_type, 3 := major]) (int 2)"
    by (subst bpf_loop_at) (simp_all add: len pro load [of _ _ 1])
  also have "\<dots> = bpf_loop (compile rules) ?ctx (?r0[2 := access_type, 3 := major, 4 := minor]) (int 3)"
    by (subst bpf_loop_at) (simp_all add: len pro load [of _ _ 2])
  finally show ?thesis by (intro exI conjI) (auto simp: holds_request_def)
qed

lemma run_compile:
  assumes "length rules \<le> 3277"
  shows "bpf_run (compile rules) access_type major minor =
    Some (Ok (if list_ex (rule_permits access_type major minor) rules then 1 else 0))"
proof (cases "rules = []")
  case True
  have "bpf_run (compile []) access_type major minor = bpf_loop (compile []) [access_type, major, minor] ((replicate 11 0)[0 := 0]) (int 1)"
    unfolding bpf_run_def by (subst bpf_loop.simps) (simp add: compile_def bpf_step_simps)
  also have "\<dots> = Some (Ok 0)" by (subst bpf_loop_at) (simp_all add: compile_def bpf_step_simps)
  finally show ?thesis using True by simp
next
  case False
  with run_prologue [OF False, of access_type major minor] run_rules [of 0 rules access_type major minor] assms
  show ?thesis by auto
qed

section \<open>The rules of a lease\<close>

type_synonym device = "u32 \<times> u32 \<times> u32"

definition rule_table :: "device_rule list \<Rightarrow> (device \<times> u32) list" where
  "rule_table = map (\<lambda>r. ((dr_dev_type r, dr_major r, dr_minor r), dr_access r))"

text \<open>A table of rules that is built by claims: the keys are distinct and remembered.\<close>

definition claims_ok :: "device set \<times> device_rule list \<Rightarrow> bool" where
  "claims_ok st \<longleftrightarrow> fst st = fst ` set (rule_table (snd st)) \<and> distinct (map fst (rule_table (snd st)))"

lemma claim_device_table:
  assumes "claims_ok st"
  shows "claims_ok (claim_device access key st)"
    and "map_of (rule_table (snd (claim_device access key st))) = map_of (rule_table (snd st) @ [(key, access)])"
    and "length (snd (claim_device access key st)) \<le> Suc (length (snd st))"
proof -
  obtain claimed rules where st: "st = (claimed, rules)" by fastforce
  let ?new = "\<lparr>dr_dev_type = fst key, dr_major = fst (snd key), dr_minor = snd (snd key), dr_access = access\<rparr>"
  have tab: "rule_table (rules @ [?new]) = rule_table rules @ [(key, access)]" by (simp add: rule_table_def)
  have mem: "key \<in> claimed \<longleftrightarrow> key \<in> fst ` set (rule_table rules)" using assms by (simp add: st claims_ok_def)
  show "claims_ok (claim_device access key st)"
    using assms mem by (auto simp: st claim_device_def claims_ok_def tab)
  show "map_of (rule_table (snd (claim_device access key st))) = map_of (rule_table (snd st) @ [(key, access)])"
  proof (cases "key \<in> claimed")
    case True
    then have "key \<in> dom (map_of (rule_table rules))" using mem by (simp add: dom_map_of_conv_image_fst)
    then have "map_of (rule_table rules @ [(key, access)]) = map_of (rule_table rules)"
      by (auto simp: map_add_def fun_eq_iff split: option.splits)
    with True show ?thesis by (simp add: st claim_device_def)
  next
    case False
    then show ?thesis by (simp add: st claim_device_def tab)
  qed
  show "length (snd (claim_device access key st)) \<le> Suc (length (snd st))" by (simp add: st claim_device_def)
qed

lemma fold_claims:
  assumes "claims_ok st"
  shows "claims_ok (fold (\<lambda>(key, access). claim_device access key) ops st) \<and>
    map_of (rule_table (snd (fold (\<lambda>(key, access). claim_device access key) ops st))) = map_of (rule_table (snd st) @ ops) \<and>
    length (snd (fold (\<lambda>(key, access). claim_device access key) ops st)) \<le> length (snd st) + length ops"
  using assms
proof (induction ops arbitrary: st)
  case (Cons op ops)
  obtain key access where op: "op = (key, access)" by fastforce
  note step = claim_device_table [OF Cons.prems, of access key]
  from Cons.IH [OF step(1)] step(2,3) show ?case
    by (simp add: op)
qed simp

lemma permits_table:
  assumes "distinct (map fst (rule_table rules))"
  shows "list_ex (rule_permits access_type major minor) rules \<longleftrightarrow>
    (case map_of (rule_table rules) (access_type AND 0xffff, major, minor) of
       None \<Rightarrow> False
     | Some access \<Rightarrow> drop_bit 16 access_type AND NOT (access AND ALL_ACCESS) = 0)"
  using assms by (induction rules) (auto simp: rule_table_def rule_permits_def split: option.splits dest: map_of_SomeD)

text \<open>The paths a lease may open, and the claims that they make in the order of the source.\<close>

definition claimed_paths :: "device_access list \<Rightarrow> string list" where
  "claimed_paths devices = concat (map (\<lambda>d. da_dev d # da_paths d) devices)"

definition path_claims :: "metadata \<Rightarrow> u32 \<Rightarrow> string list \<Rightarrow> (device \<times> u32) list" where
  "path_claims metadata access paths = List.map_filter (\<lambda>path. map_option (\<lambda>n. (device_key n, access)) (device_numbers metadata path)) paths"

lemma path_claims_Cons:
  "path_claims metadata access (path # paths) =
     (case device_numbers metadata path of None \<Rightarrow> path_claims metadata access paths
      | Some n \<Rightarrow> (device_key n, access) # path_claims metadata access paths)"
  by (simp add: path_claims_def map_filter_def split: option.split)

lemma path_claims_Nil: "path_claims metadata access [] = []"
  by (simp add: path_claims_def map_filter_def)

lemma path_claims_append: "path_claims metadata access (xs @ ys) = path_claims metadata access xs @ path_claims metadata access ys"
  by (simp add: path_claims_def map_filter_def)

lemma length_path_claims: "length (path_claims metadata access paths) \<le> length paths"
  by (simp add: path_claims_def map_filter_def le_trans [OF length_filter_le])

lemma pseudo_rules_eq:
  "pseudo_rules metadata = fold (\<lambda>(key, access). claim_device access key)
     (path_claims metadata (DEVCG_ACC_READ OR DEVCG_ACC_WRITE) pseudo_devices) ({}, [])"
proof -
  have "fold (\<lambda>path st. case device_numbers metadata path of None \<Rightarrow> st
        | Some numbers \<Rightarrow> claim_device access (device_key numbers) st) paths st =
      fold (\<lambda>(key, access). claim_device access key) (path_claims metadata access paths) st" for access paths st
    by (induction paths arbitrary: st) (auto simp: path_claims_Cons path_claims_def map_filter_def split: option.split)
  then show ?thesis by (simp add: pseudo_rules_def)
qed

definition devices_reachable :: "metadata \<Rightarrow> string list \<Rightarrow> bool" where
  "devices_reachable metadata = list_all (\<lambda>path. device_numbers metadata path \<noteq> None)"

lemma devices_reachable_simps [simp]:
  "devices_reachable metadata []"
  "devices_reachable metadata (path # paths) \<longleftrightarrow> device_numbers metadata path \<noteq> None \<and> devices_reachable metadata paths"
  "devices_reachable metadata (xs @ ys) \<longleftrightarrow> devices_reachable metadata xs \<and> devices_reachable metadata ys"
  by (simp_all add: devices_reachable_def)

lemma claim_paths_Ok:
  "devices_reachable metadata paths \<Longrightarrow> try_fold (claim_path metadata device) paths st =
     Ok (fold (\<lambda>(key, access). claim_device access key) (path_claims metadata ALL_ACCESS paths) st)"
proof (induction paths arbitrary: st)
  case (Cons path paths)
  then obtain n where "device_numbers metadata path = Some n" by auto
  with Cons show ?case by (simp add: path_claims_Cons claim_path_def ALL_ACCESS_def)
qed (simp add: path_claims_Nil)

lemma claim_paths_Err:
  "\<not> devices_reachable metadata paths \<Longrightarrow> \<not> is_ok (try_fold (claim_path metadata device) paths st)"
proof (induction paths arbitrary: st)
  case (Cons path paths)
  then show ?case by (cases "device_numbers metadata path") (simp_all add: claim_path_def)
qed simp

lemma claimed_paths_simps [simp]:
  "claimed_paths [] = []" "claimed_paths (d # ds) = (da_dev d # da_paths d) @ claimed_paths ds"
  by (simp_all add: claimed_paths_def)

lemma claim_devices_Ok:
  "devices_reachable metadata (claimed_paths devices) \<Longrightarrow> try_fold (claim_paths metadata) devices st =
     Ok (fold (\<lambda>(key, access). claim_device access key) (path_claims metadata ALL_ACCESS (claimed_paths devices)) st)"
proof (induction devices arbitrary: st)
  case (Cons d ds)
  have "devices_reachable metadata (da_dev d # da_paths d)" and "devices_reachable metadata (claimed_paths ds)"
    using Cons.prems by simp_all
  with Cons.IH claim_paths_Ok [of metadata "da_dev d # da_paths d" d, folded claim_paths_def]
  show ?case by (simp add: path_claims_append del: append_Cons)
qed (simp add: path_claims_Nil)

lemma claim_devices_Err:
  "\<not> devices_reachable metadata (claimed_paths devices) \<Longrightarrow> \<not> is_ok (try_fold (claim_paths metadata) devices st)"
proof (induction devices arbitrary: st)
  case (Cons d ds)
  show ?case
  proof (cases "devices_reachable metadata (da_dev d # da_paths d)")
    case True
    then have "\<not> devices_reachable metadata (claimed_paths ds)" using Cons.prems by auto
    from Cons.IH [OF this] claim_paths_Ok [OF True, of d st, folded claim_paths_def] show ?thesis
      by (simp del: split_paired_All)
  next
    case False
    from claim_paths_Err [OF this, of d st, folded claim_paths_def] show ?thesis
      by (cases "claim_paths metadata d st") simp_all
  qed
qed simp

text \<open>The accesses the documentation grants: standard pseudo-devices may be read and written, claimed devices may also
  be created; a claimed device that is a pseudo-device keeps the rule of the pseudo-device.\<close>

definition devices_of :: "metadata \<Rightarrow> string list \<Rightarrow> device set" where
  "devices_of metadata paths = {device_key n |n path. path \<in> set paths \<and> device_numbers metadata path = Some n}"

definition access_granted :: "metadata \<Rightarrow> device_access list \<Rightarrow> u32 \<Rightarrow> u32 \<Rightarrow> u32 \<Rightarrow> bool" where
  "access_granted metadata devices access_type major minor \<longleftrightarrow>
     (let device = (access_type AND 0xffff, major, minor); flags = drop_bit 16 access_type in
      if device \<in> devices_of metadata pseudo_devices then flags AND NOT (DEVCG_ACC_READ OR DEVCG_ACC_WRITE) = 0
      else device \<in> devices_of metadata (claimed_paths devices) \<and>
        flags AND NOT (DEVCG_ACC_READ OR DEVCG_ACC_WRITE OR DEVCG_ACC_MKNOD) = 0)"

lemma map_of_path_claims:
  "map_of (path_claims metadata access paths) device = (if device \<in> devices_of metadata paths then Some access else None)"
  by (induction paths) (auto simp: path_claims_Cons path_claims_Nil devices_of_def split: option.splits)

lemma device_rules_permit:
  assumes "device_rules metadata devices = Ok rules"
  shows "list_ex (rule_permits access_type major minor) rules \<longleftrightarrow> access_granted metadata devices access_type major minor"
    and "length rules \<le> 5 + length (claimed_paths devices)"
proof -
  let ?rw = "DEVCG_ACC_READ OR DEVCG_ACC_WRITE"
  let ?ops = "path_claims metadata ?rw pseudo_devices @ path_claims metadata ALL_ACCESS (claimed_paths devices)"
  have masked: "?rw AND ALL_ACCESS = ?rw" "ALL_ACCESS AND ALL_ACCESS = ALL_ACCESS"
    by (simp_all add: ALL_ACCESS_def devcg_constants)
  have rules: "and_then (try_fold (claim_paths metadata) devices (pseudo_rules metadata)) (\<lambda>st. Ok (snd st)) = Ok rules"
    using assms by (simp only: device_rules_def)
  then have "is_ok (try_fold (claim_paths metadata) devices (pseudo_rules metadata))" by (auto simp: and_then_eq_Ok)
  then have "devices_reachable metadata (claimed_paths devices)" using claim_devices_Err by blast
  from rules [unfolded claim_devices_Ok [OF this] pseudo_rules_eq]
  have eq: "rules = snd (fold (\<lambda>(key, access). claim_device access key) ?ops ({}, []))" by simp
  have "claims_ok ({}, [])" by (simp add: claims_ok_def rule_table_def)
  note fold = fold_claims [OF this, of ?ops, folded eq]
  then have "distinct (map fst (rule_table rules))" and tab: "map_of (rule_table rules) = map_of ?ops"
    by (simp_all add: claims_ok_def eq rule_table_def)
  from permits_table [OF this(1)]
  show "list_ex (rule_permits access_type major minor) rules \<longleftrightarrow> access_granted metadata devices access_type major minor"
    unfolding tab by (auto simp: map_add_def map_of_path_claims access_granted_def Let_def masked ALL_ACCESS_def [symmetric])
  have "length rules \<le> length ?ops" using fold by (simp add: eq)
  also have "\<dots> \<le> length pseudo_devices + length (claimed_paths devices)"
    unfolding length_append by (intro add_mono length_path_claims)
  finally show "length rules \<le> 5 + length (claimed_paths devices)" by (simp add: pseudo_devices_def)
qed

text \<open>
  C38. The device filter of a lease is exact: with the rules of a lease that claims at most 3272 paths, preparing the filter
  fails exactly when a claimed path is not a device. Otherwise the program that is attached always returns, and it
  returns 1 precisely for the accesses that are granted: reading and writing the standard
  pseudo-devices, reading, writing and creating the other devices of the claimed paths, nothing else.
\<close>

theorem device_filter_exact:
  assumes "length (claimed_paths devices) \<le> 3272"
  shows "case enforce_devices metadata devices of
     Err e \<Rightarrow> \<exists>path\<in>set (claimed_paths devices). device_numbers metadata path = None
   | Ok prog \<Rightarrow> \<not> (\<exists>path\<in>set (claimed_paths devices). device_numbers metadata path = None) \<and>
       bpf_run prog access_type major minor =
         Some (Ok (if access_granted metadata devices access_type major minor then 1 else 0))"
proof -
  have reach: "devices_reachable metadata (claimed_paths devices) \<longleftrightarrow>
      \<not> (\<exists>path\<in>set (claimed_paths devices). device_numbers metadata path = None)"
    by (auto simp: devices_reachable_def list_all_iff)
  show ?thesis
  proof (cases "device_rules metadata devices")
    case (Ok rules)
    then have "is_ok (try_fold (claim_paths metadata) devices (pseudo_rules metadata))"
      by (auto simp: device_rules_def and_then_eq_Ok)
    then have "devices_reachable metadata (claimed_paths devices)" using claim_devices_Err by blast
    moreover have "length rules \<le> 3277" using device_rules_permit(2) [OF Ok] assms by linarith
    ultimately show ?thesis
      using Ok by (simp add: enforce_devices_def run_compile device_rules_permit(1) [OF Ok] reach)
  next
    case (Err e)
    then have "\<not> devices_reachable metadata (claimed_paths devices)"
      using claim_devices_Ok by (fastforce simp: device_rules_def)
    then have "\<exists>path\<in>set (claimed_paths devices). device_numbers metadata path = None" using reach by blast
    with Err show ?thesis by (simp add: enforce_devices_def)
  qed
qed

definition sample_metadata :: metadata where
  "sample_metadata path =
     (if path = ''/dev/null'' then Some (0x21b6, 0x103) else if path = ''/dev/nvidia0'' then Some (0x21b6, 0xc300) else None)"

theorem device_filter_exact_witness:
  "\<exists>prog. enforce_devices sample_metadata [\<lparr>da_id = ''gpu'', da_dev = ''/dev/nvidia0'', da_paths = [], da_cdi = None\<rparr>] = Ok prog \<and>
     bpf_run prog 0x60002 195 0 = Some (Ok 1) \<and> bpf_run prog 0x20002 195 1 = Some (Ok 0)"
proof -
  let ?d = "[\<lparr>da_id = ''gpu'', da_dev = ''/dev/nvidia0'', da_paths = [], da_cdi = None\<rparr>]"
  have small: "length (claimed_paths ?d) \<le> 3272" by simp
  have "is_ok (enforce_devices sample_metadata ?d)" by code_simp
  then obtain prog where prog: "enforce_devices sample_metadata ?d = Ok prog" by (auto simp: is_ok_iff)
  have "device_numbers sample_metadata ''/dev/null'' = Some (True, 1, 3)"
    and "device_numbers sample_metadata ''/dev/nvidia0'' = Some (True, 195, 0)"
    and "list_all (\<lambda>p. device_numbers sample_metadata p = None) [''/dev/zero'', ''/dev/full'', ''/dev/random'', ''/dev/urandom'']"
    by code_simp+
  then have null: "devices_of sample_metadata pseudo_devices = {(2, 1, 3)}"
    and gpu: "devices_of sample_metadata (claimed_paths ?d) = {(2, 195, 0)}"
    by (auto simp: devices_of_def pseudo_devices_def device_key_def devcg_constants)
  have "access_granted sample_metadata ?d 0x60002 195 0" and "\<not> access_granted sample_metadata ?d 0x20002 195 1"
    unfolding access_granted_def Let_def null gpu by (simp_all add: devcg_constants)
  with device_filter_exact [OF small, of sample_metadata "0x60002" 195 0] device_filter_exact [OF small, of sample_metadata "0x20002" 195 1] prog
  show ?thesis by auto
qed

section \<open>Encoding\<close>

text \<open>Reading the fields of an instruction back, as the layout of the kernel has them.\<close>

definition decode :: "u64 \<Rightarrow> insn" where
  "decode w = \<lparr>i_code = ucast w, i_dst_reg = ucast (drop_bit 8 w) AND 0xf, i_src_reg = ucast (drop_bit 12 w) AND 0xf,
     i_off = ucast (drop_bit 16 w), i_imm = ucast (drop_bit 32 w)\<rparr>"

lemma bit_word_bound: "bit w n \<Longrightarrow> n < LENGTH('w)" for w :: "'w::len word"
  by (rule bit_imp_le_length)

lemma register_bit_bound:
  fixes r :: u8
  assumes "r < 16" and "bit r n"
  shows "n < 4"
proof -
  have "take_bit 4 r = r" if "r < 16" for r :: u8
    using that by (simp add: word_uint_eq_iff unsigned_take_bit_eq take_bit_int_eq_self word_less_def)
  with assms have "bit (take_bit 4 r) n" by simp
  then show ?thesis by (simp add: bit_take_bit_iff)
qed

lemma bit_encode:
  assumes "i_dst_reg insn < 16" and "i_src_reg insn < 16"
  shows "bit (encode insn) n \<longleftrightarrow>
    n < 8 \<and> bit (i_code insn) n \<or> 8 \<le> n \<and> n < 12 \<and> bit (i_dst_reg insn) (n - 8) \<or>
    12 \<le> n \<and> n < 16 \<and> bit (i_src_reg insn) (n - 12) \<or> 16 \<le> n \<and> n < 32 \<and> bit (i_off insn) (n - 16) \<or>
    32 \<le> n \<and> n < 64 \<and> bit (i_imm insn) (n - 32)"
proof -
  have fifteen: "(0xf :: u8) = mask 4" by (simp add: mask_numeral)
  have code: "\<not> bit (i_code insn) n" if "8 \<le> n" using bit_word_bound [of "i_code insn" n] that by auto
  have off: "\<not> bit (i_off insn) (n - 16)" if "32 \<le> n" using bit_word_bound [of "i_off insn" "n - 16"] that by auto
  have dst: "\<not> bit (i_dst_reg insn) (n - 8)" if "12 \<le> n"
    using register_bit_bound [OF assms(1), of "n - 8"] that by auto
  have src: "\<not> bit (i_src_reg insn) (n - 12)" if "16 \<le> n"
    using register_bit_bound [OF assms(2), of "n - 12"] that by auto
  consider "n < 8" | "8 \<le> n" "n < 12" | "12 \<le> n" "n < 16" | "16 \<le> n" "n < 32" | "32 \<le> n" "n < 64" | "64 \<le> n"
    by linarith
  then show ?thesis
    unfolding encode_def fifteen by cases (simp_all add: bit_simps code off dst src, auto)
qed

lemma decode_encode:
  assumes "i_dst_reg insn < 16" and "i_src_reg insn < 16"
  shows "decode (encode insn) = insn"
proof -
  have fifteen: "(0xf :: u8) = mask 4" by (simp add: mask_numeral)
  note E = bit_encode [OF assms]
  have "ucast (encode insn) = i_code insn"
    by (rule bit_eqI) (simp add: bit_simps E)
  moreover have "ucast (drop_bit 8 (encode insn)) AND mask 4 = i_dst_reg insn"
    using register_bit_bound [OF assms(1)] by (intro bit_eqI) (auto simp: bit_simps E)
  moreover have "ucast (drop_bit 12 (encode insn)) AND mask 4 = i_src_reg insn"
    using register_bit_bound [OF assms(2)] by (intro bit_eqI) (auto simp: bit_simps E)
  moreover have "ucast (drop_bit 16 (encode insn)) = i_off insn"
    by (rule bit_eqI) (simp add: bit_simps E)
  moreover have "ucast (drop_bit 32 (encode insn)) = i_imm insn"
    by (rule bit_eqI) (simp add: bit_simps E)
  ultimately show ?thesis by (simp add: decode_def fifteen)
qed

lemma compile_registers:
  "insn \<in> set (compile rules) \<Longrightarrow> i_dst_reg insn < 16 \<and> i_src_reg insn < 16"
proof (cases "rules = []")
  case True
  then show "insn \<in> set (compile rules) \<Longrightarrow> i_dst_reg insn < 16 \<and> i_src_reg insn < 16"
    by (auto simp: compile_def mov_imm_def bpf_exit_def)
next
  case False
  have "insn' \<in> set (rule_block s n a r) \<Longrightarrow> i_dst_reg insn' < 16 \<and> i_src_reg insn' < 16" for insn' s n a r
    by (auto simp: rule_block_def Let_def mov_reg_def rsh_imm_def and_imm_def jne_imm_def ja_def)
  then show "insn \<in> set (compile rules) \<Longrightarrow> i_dst_reg insn < 16 \<and> i_src_reg insn < 16"
    using False by (auto simp: compile_layout block_at_def load_ctx_word_def mov_imm_def bpf_exit_def)
qed

text \<open>
  Encoding loses nothing: the instructions the compiler emits can be read back from their 64-bit encoding.
\<close>

theorem compiled_code_roundtrip: "map decode (map encode (compile rules)) = compile rules"
  using compile_registers decode_encode by (simp add: map_idI)

text \<open>Different device numbers have a different major or minor number, so a rule names one device.\<close>

lemma device_numbers_injective:
  assumes "device_major a = device_major b" and "device_minor a = device_minor b"
  shows "a = b"
proof (rule bit_eqI)
  fix n :: nat
  have mask: "(0xfff :: u64) = mask 12" "(0xff :: u64) = mask 8" by (simp_all add: mask_numeral)
  have major: "bit (device_major d) k \<longleftrightarrow> (if k < 12 then bit d (k + 8) else bit d (k + 32))" if "k < 32" for d k
    using that unfolding device_major_def mask by (auto simp: bit_simps add.commute dest: bit_word_bound)
  have minor: "bit (device_minor d) k \<longleftrightarrow> (if k < 8 then bit d k else bit d (k + 12))" if "k < 32" for d k
    using that unfolding device_minor_def mask by (auto simp: bit_simps add.commute dest: bit_word_bound)
  consider "n < 8" | "8 \<le> n" "n < 20" | "20 \<le> n" "n < 44" | "44 \<le> n" "n < 64" | "64 \<le> n" by linarith
  then show "bit a n \<longleftrightarrow> bit b n"
  proof cases
    case 1
    then show ?thesis using minor [of n a] minor [of n b] assms by simp
  next
    case 2
    then have "n - 8 < 12" "n - 8 + 8 = n" by auto
    then show ?thesis using major [of "n - 8" a] major [of "n - 8" b] assms by simp
  next
    case 3
    then have "\<not> n - 12 < 8 \<and> n - 12 < 32" "n - 12 + 12 = n" by auto
    then show ?thesis using minor [of "n - 12" a] minor [of "n - 12" b] assms by simp
  next
    case 4
    then have "\<not> n - 32 < 12 \<and> n - 32 < 32" "n - 32 + 32 = n" by auto
    then show ?thesis using major [of "n - 32" a] major [of "n - 32" b] assms by simp
  qed (use bit_word_bound [of a n] bit_word_bound [of b n] in auto)
qed

end
