(* ===== verification/Node_Provider.thy ===== *)
theory Node_Provider
  imports Kernel_Endpoint
begin

text \<open>
  The resource provider of an agent (\<^verbatim>\<open>crates/node/src/provider.rs\<close>): one endpoint per exclusive resource or per
  independent share, behind a check of the controller's session and epoch. A call returns the provider it
  leaves behind with its result; a refused call may have created an endpoint or raised the session before it failed.
\<close>

section \<open>State\<close>

datatype endpoint_key = KeyExclusive u64 u64 | KeyShare u64

text \<open>The derived order: the exclusive keys first, then by their fields.\<close>

fun endpoint_key_rank :: "endpoint_key \<Rightarrow> nat \<times> u64 \<times> u64" where
  "endpoint_key_rank (KeyExclusive provider node) = (0, provider, node)"
| "endpoint_key_rank (KeyShare binding) = (1, binding, 0)"

instantiation endpoint_key :: linorder
begin

definition less_eq_endpoint_key :: "endpoint_key \<Rightarrow> endpoint_key \<Rightarrow> bool" where
  "less_eq_endpoint_key a b \<longleftrightarrow> endpoint_key_rank a \<le> endpoint_key_rank b"

definition less_endpoint_key :: "endpoint_key \<Rightarrow> endpoint_key \<Rightarrow> bool" where
  "less_endpoint_key a b \<longleftrightarrow> endpoint_key_rank a < endpoint_key_rank b"

instance
proof
  fix a b :: endpoint_key
  have "endpoint_key_rank a = endpoint_key_rank b \<longleftrightarrow> a = b" by (cases a; cases b) auto
  then show "a \<le> b \<Longrightarrow> b \<le> a \<Longrightarrow> a = b" unfolding less_eq_endpoint_key_def by auto
qed (auto simp: less_eq_endpoint_key_def less_endpoint_key_def)

end

record endpoint_generation =
  eg_binding :: u64
  eg_node :: u64
  eg_provider :: u64
  eg_scope :: binding_scope
  eg_session :: u64
  eg_fence :: u64
  eg_epoch :: u64

record resource_provider =
  rp_session :: u64
  rp_epoch :: u64
  rp_next_handle :: u64
  rp_endpoints :: "(endpoint_key, endpoint) btree"

definition provider_new :: resource_provider where
  "provider_new = \<lparr>rp_session = 0, rp_epoch = 0, rp_next_handle = 1, rp_endpoints = btree_empty\<rparr>"

section \<open>Operations\<close>

fun debug_endpoint_phase :: "endpoint_phase \<Rightarrow> string" where
  "debug_endpoint_phase Idle = ''Idle''"
| "debug_endpoint_phase Prepared = ''Prepared''"
| "debug_endpoint_phase PhaseActive = ''Active''"

fun debug_endpoint_error :: "endpoint_error \<Rightarrow> string" where
  "debug_endpoint_error (EpStaleSession expected got) =
     ''StaleSession { expected: '' @ show_u64 expected @ '', got: '' @ show_u64 got @ '' }''"
| "debug_endpoint_error (EpStaleFence accepted got) =
     ''StaleFence { accepted: '' @ show_u64 accepted @ '', got: '' @ show_u64 got @ '' }''"
| "debug_endpoint_error EpConflict = ''Conflict''"
| "debug_endpoint_error (EpWrongPhase phase) = ''WrongPhase { phase: '' @ debug_endpoint_phase phase @ '' }''"

definition endpoint_key_of :: "endpoint_generation \<Rightarrow> endpoint_key" where
  "endpoint_key_of g =
     (case eg_scope g of
        Exclusive \<Rightarrow> KeyExclusive (eg_provider g) (eg_node g)
      | IndependentShare \<Rightarrow> KeyShare (eg_binding g))"

definition check_control_generation ::
    "resource_provider \<Rightarrow> u64 \<Rightarrow> u64 \<Rightarrow> resource_provider \<times> (unit, string) result" where
  "check_control_generation p session epoch =
     (if epoch < rp_epoch p then
        (p, Err (''stale cluster epoch '' @ show_u64 epoch @ ''; current '' @ show_u64 (rp_epoch p)))
      else if session < rp_session p then
        (p, Err (''stale agent session '' @ show_u64 session @ ''; current '' @ show_u64 (rp_session p)))
      else
        let p1 = (if epoch > rp_epoch p then p\<lparr>rp_epoch := epoch\<rparr> else p);
            p2 = (if session > rp_session p1 then
                    p1\<lparr>rp_session := session,
                       rp_endpoints := btree_map_values (\<lambda>ep. endpoint_handshake ep session) (rp_endpoints p1)\<rparr>
                  else p1)
        in (p2, Ok ()))"

text \<open>The endpoint of a key is replaced by what an operation leaves, and an error gets its prefix.\<close>

definition endpoint_outcome ::
    "resource_provider \<Rightarrow> endpoint_key \<Rightarrow> string \<Rightarrow> endpoint \<Rightarrow> (unit, endpoint_error) result \<Rightarrow>
     resource_provider \<times> (unit, string) result" where
  "endpoint_outcome p key prefix ep r =
     (p\<lparr>rp_endpoints := btree_insert key ep (rp_endpoints p)\<rparr>,
      case r of Ok u \<Rightarrow> Ok u | Err e \<Rightarrow> Err (prefix @ debug_endpoint_error e))"

definition provider_apply ::
    "resource_provider \<Rightarrow> endpoint_op \<Rightarrow> endpoint_generation \<Rightarrow> resource_provider \<times> (unit, string) result" where
  "provider_apply p op g =
     (case check_control_generation p (eg_session g) (eg_epoch g) of
        (p1, Err e) \<Rightarrow> (p1, Err e)
      | (p1, Ok _) \<Rightarrow>
          let key = endpoint_key_of g;
              adopt_on_activate = op = OpActivate \<and> \<not> btree_contains_key (rp_endpoints p1) key;
              create = adopt_on_activate \<or> op = OpPrepare \<or> op = OpRelease \<or> op = OpFence;
              p2 = (if create \<and> \<not> btree_contains_key (rp_endpoints p1) key then
                      p1\<lparr>rp_endpoints := btree_insert key (endpoint_new (eg_provider g) (eg_node g) (eg_session g))
                            (rp_endpoints p1)\<rparr>
                    else p1)
          in (case btree_get (rp_endpoints p2) key of
                None \<Rightarrow> (p2, Err ''binding endpoint has not been prepared'')
              | Some ep \<Rightarrow>
                  let ep1 = endpoint_handshake ep (eg_session g) in
                  (case (if adopt_on_activate then endpoint_apply ep1 OpPrepare (eg_binding g) (eg_fence g) (eg_session g)
                         else (ep1, Ok ())) of
                     (ep2, Err e) \<Rightarrow> endpoint_outcome p2 key ''provider endpoint rejected adoption: '' ep2 (Err e)
                   | (ep2, Ok _) \<Rightarrow>
                       (case endpoint_apply ep2 op (eg_binding g) (eg_fence g) (eg_session g) of
                          (ep3, r) \<Rightarrow> endpoint_outcome p2 key ''provider endpoint rejected generation: '' ep3 r))))"

definition provider_prepare ::
    "resource_provider \<Rightarrow> endpoint_generation \<Rightarrow> resource_provider \<times> (u64, string) result" where
  "provider_prepare p g =
     (case provider_apply p OpPrepare g of
        (p1, Err e) \<Rightarrow> (p1, Err e)
      | (p1, Ok _) \<Rightarrow> (p1\<lparr>rp_next_handle := rp_next_handle p1 + 1\<rparr>, Ok (rp_next_handle p1)))"

definition provider_activate ::
    "resource_provider \<Rightarrow> endpoint_generation \<Rightarrow> resource_provider \<times> (unit, string) result" where
  "provider_activate p g = provider_apply p OpActivate g"

definition authorize_execution ::
    "resource_provider \<Rightarrow> u64 \<Rightarrow> u64 \<Rightarrow> resource_provider \<times> (unit, string) result" where
  "authorize_execution p session epoch = check_control_generation p session epoch"

definition provider_release ::
    "resource_provider \<Rightarrow> endpoint_generation \<Rightarrow> resource_provider \<times> (unit, string) result" where
  "provider_release p g = provider_apply p OpRelease g"

definition provider_fence ::
    "resource_provider \<Rightarrow> endpoint_generation \<Rightarrow> resource_provider \<times> (unit, string) result" where
  "provider_fence p g = provider_apply p OpFence g"

record enumerated_endpoint =
  ee_node :: u64
  ee_provider :: u64
  ee_scope :: binding_scope
  ee_binding :: "u64 option"
  ee_open :: bool
  ee_accepted_fence :: u64
  ee_phase :: endpoint_phase

definition enumerate_endpoints :: "resource_provider \<Rightarrow> enumerated_endpoint list" where
  "enumerate_endpoints p =
     map (\<lambda>(key, ep).
         \<lparr>ee_node = ep_node ep, ee_provider = ep_provider ep,
          ee_scope = (case key of KeyExclusive _ _ \<Rightarrow> Exclusive | KeyShare _ \<Rightarrow> IndependentShare),
          ee_binding = ep_binding ep, ee_open = ep_open ep, ee_accepted_fence = ep_accepted_fence ep, ee_phase = ep_phase ep\<rparr>)
       (btree_entries (rp_endpoints p))"

end
