(* ===== verification/Provider_Safety.thy ===== *)
theory Provider_Safety
  imports Node_Provider
begin

text \<open>
  Runs of the provider: what one call does to each endpoint, seen as a run of the endpoint state machine, and the
  guarantees that follow. Stale controllers are refused without a trace, a call never touches the endpoint of
  another key beyond its session, and a generation that was released or fenced is never accepted again.
\<close>

datatype provider_event = Serve endpoint_op endpoint_generation | Authorize u64 u64

fun provider_step :: "provider_event \<Rightarrow> resource_provider \<Rightarrow> resource_provider" where
  "provider_step (Serve OpPrepare g) p = fst (provider_prepare p g)"
| "provider_step (Serve OpActivate g) p = fst (provider_activate p g)"
| "provider_step (Serve OpRelease g) p = fst (provider_release p g)"
| "provider_step (Serve OpFence g) p = fst (provider_fence p g)"
| "provider_step (Authorize session epoch) p = fst (authorize_execution p session epoch)"

text \<open>The endpoints of a provider are in its session, and an endpoint belongs to its key.\<close>

definition endpoint_belongs :: "endpoint_key \<Rightarrow> endpoint \<Rightarrow> bool" where
  "endpoint_belongs key ep \<longleftrightarrow>
     (case key of
        KeyExclusive provider node \<Rightarrow> ep_provider ep = provider \<and> ep_node ep = node
      | KeyShare binding \<Rightarrow> ep_binding ep = None \<or> ep_binding ep = Some binding)"

definition provider_wf :: "resource_provider \<Rightarrow> bool" where
  "provider_wf p \<longleftrightarrow> (\<forall>key ep. btree_get (rp_endpoints p) key = Some ep \<longrightarrow>
     endpoint_wf ep \<and> ep_session ep = rp_session p \<and> endpoint_belongs key ep)"

section \<open>One call\<close>

lemma check_control_generation_cases:
  obtains e where "epoch < rp_epoch p \<or> session < rp_session p" and "check_control_generation p session epoch = (p, Err e)"
  | p' where "rp_epoch p \<le> epoch" and "rp_session p \<le> session" and "check_control_generation p session epoch = (p', Ok ())"
      and "rp_epoch p' = epoch" and "rp_session p' = session" and "rp_next_handle p' = rp_next_handle p"
      and "provider_wf p \<longrightarrow> (\<forall>key. btree_get (rp_endpoints p') key =
        map_option (\<lambda>ep. ep\<lparr>ep_session := session\<rparr>) (btree_get (rp_endpoints p) key))"
proof (cases "epoch < rp_epoch p \<or> session < rp_session p")
  case True
  then show ?thesis using that(1) by (fastforce simp: check_control_generation_def)
next
  case False
  define p' where "p' = fst (check_control_generation p session epoch)"
  have check: "check_control_generation p session epoch = (p', Ok ())" and fields: "rp_epoch p' = epoch" "rp_session p' = session"
      "rp_next_handle p' = rp_next_handle p"
    using False by (auto simp: p'_def check_control_generation_def Let_def)
  have "btree_get (rp_endpoints p') key = map_option (\<lambda>ep. ep\<lparr>ep_session := session\<rparr>) (btree_get (rp_endpoints p) key)"
    if "provider_wf p" for key
  proof -
    have "btree_get (rp_endpoints p') key =
        (if rp_session p < session then map_option (\<lambda>ep. endpoint_handshake ep session) (btree_get (rp_endpoints p) key)
         else btree_get (rp_endpoints p) key)"
      using False by (simp add: p'_def check_control_generation_def Let_def)
    then show ?thesis
      using that False
      by (cases "btree_get (rp_endpoints p) key") (auto simp: provider_wf_def endpoint_handshake_def not_less)
  qed
  then show ?thesis using that(2) [of p'] False check fields by (simp add: not_less)
qed

text \<open>The endpoint a call works on: the one of its key, or a new one.\<close>

definition serving_endpoint :: "resource_provider \<Rightarrow> endpoint_generation \<Rightarrow> endpoint" where
  "serving_endpoint p g =
     (case btree_get (rp_endpoints p) (endpoint_key_of g) of
        Some ep \<Rightarrow> ep\<lparr>ep_session := eg_session g\<rparr>
      | None \<Rightarrow> endpoint_new (eg_provider g) (eg_node g) (eg_session g))"

text \<open>A call that passes the check is one or two operations on that endpoint.\<close>

definition served_operations :: "resource_provider \<Rightarrow> endpoint_op \<Rightarrow> endpoint_generation \<Rightarrow> endpoint \<times> (unit, endpoint_error) result" where
  "served_operations p op g =
     (let run = (\<lambda>op ep. endpoint_apply ep op (eg_binding g) (eg_fence g) (eg_session g)) in
      if op = OpActivate \<and> btree_get (rp_endpoints p) (endpoint_key_of g) = None then
        (case run OpPrepare (serving_endpoint p g) of
           (ep, Err e) \<Rightarrow> (ep, Err e)
         | (ep, Ok _) \<Rightarrow> run OpActivate ep)
      else run op (serving_endpoint p g))"

lemma provider_apply_cases:
  assumes "provider_wf p"
  obtains e where "eg_epoch g < rp_epoch p \<or> eg_session g < rp_session p" and "provider_apply p op g = (p, Err e)"
  | p' r ep r' where "rp_epoch p \<le> eg_epoch g" and "rp_session p \<le> eg_session g" and "provider_apply p op g = (p', r)"
      and "served_operations p op g = (ep, r')" and "is_ok r \<longleftrightarrow> is_ok r'"
      and "rp_epoch p' = eg_epoch g" and "rp_session p' = eg_session g" and "rp_next_handle p' = rp_next_handle p"
      and "btree_get (rp_endpoints p') (endpoint_key_of g) = Some ep"
      and "\<forall>key. key \<noteq> endpoint_key_of g \<longrightarrow> btree_get (rp_endpoints p') key =
        map_option (\<lambda>ep. ep\<lparr>ep_session := eg_session g\<rparr>) (btree_get (rp_endpoints p) key)"
proof (cases rule: check_control_generation_cases [of "eg_epoch g" p "eg_session g"])
  case (1 e)
  then show ?thesis using that(1) by (simp add: provider_apply_def)
next
  case (2 p1)
  note p1 = 2(7) [rule_format, OF assms]
  obtain ep r' where served: "served_operations p op g = (ep, r')" by fastforce
  have hand: "endpoint_handshake (ep\<lparr>ep_session := s\<rparr>) s = ep\<lparr>ep_session := s\<rparr>"
    "endpoint_handshake (endpoint_new a b s) s = endpoint_new a b s" for ep s a b
    by (simp_all add: endpoint_handshake_def endpoint_new_def)
  let ?p' = "fst (provider_apply p op g)" and ?r = "snd (provider_apply p op g)"
  have facts: "(is_ok ?r \<longleftrightarrow> is_ok r') \<and> rp_epoch ?p' = eg_epoch g \<and> rp_session ?p' = eg_session g \<and>
      rp_next_handle ?p' = rp_next_handle p \<and> btree_get (rp_endpoints ?p') (endpoint_key_of g) = Some ep \<and>
      (\<forall>key. key \<noteq> endpoint_key_of g \<longrightarrow> btree_get (rp_endpoints ?p') key = btree_get (rp_endpoints p1) key)"
  proof (cases "btree_get (rp_endpoints p) (endpoint_key_of g)")
    case None
    with served 2 p1 show ?thesis
      by (cases op)
        (auto simp: provider_apply_def served_operations_def serving_endpoint_def endpoint_outcome_def btree_contains_key_def
          Let_def hand split: prod.splits result.splits)
  next
    case (Some ep0)
    with served 2 p1 show ?thesis
      by (cases op)
        (auto simp: provider_apply_def served_operations_def serving_endpoint_def endpoint_outcome_def btree_contains_key_def
          Let_def hand split: prod.splits result.splits)
  qed
  show ?thesis using that(2) [OF 2(1,2) prod.collapse [symmetric] served] facts p1 by simp
qed

text \<open>What the operations of a call do to an endpoint is a run of the endpoint state machine.\<close>

lemma served_operations_run:
  obtains es where "fst (served_operations p op g) = fold endpoint_step es (serving_endpoint p g)"
    and "\<forall>e\<in>set es. \<exists>op. e = Operate op (eg_binding g) (eg_fence g) (eg_session g)"
proof -
  let ?e = "\<lambda>op. Operate op (eg_binding g) (eg_fence g) (eg_session g)"
  have "\<exists>es\<in>{[?e op], [?e OpPrepare], [?e OpPrepare, ?e OpActivate]}.
      fst (served_operations p op g) = fold endpoint_step es (serving_endpoint p g)"
    by (auto simp: served_operations_def Let_def split: prod.splits result.splits)
  then obtain es where es: "es \<in> {[?e op], [?e OpPrepare], [?e OpPrepare, ?e OpActivate]}"
      and run: "fst (served_operations p op g) = fold endpoint_step es (serving_endpoint p g)" by blast
  from es have "\<forall>e\<in>set es. \<exists>op. e = ?e op" by auto
  with run show ?thesis by (rule that)
qed

lemma endpoint_step_identity:
  "ep_provider (endpoint_step e ep) = ep_provider ep" "ep_node (endpoint_step e ep) = ep_node ep"
  by (cases e; auto simp: endpoint_defs split: endpoint_op.splits)+

lemma endpoint_step_belongs:
  assumes "endpoint_belongs (endpoint_key_of g) ep" and "e = Operate op (eg_binding g) (eg_fence g) (eg_session g)"
  shows "endpoint_belongs (endpoint_key_of g) (endpoint_step e ep)"
  using assms
  by (cases "eg_scope g"; cases op) (auto simp: endpoint_belongs_def endpoint_key_of_def endpoint_defs split: endpoint_op.splits)

lemma served_endpoint_ok:
  assumes "provider_wf p"
  shows "endpoint_wf (fst (served_operations p op g)) \<and> ep_session (fst (served_operations p op g)) = eg_session g \<and>
    endpoint_belongs (endpoint_key_of g) (fst (served_operations p op g))"
proof -
  have "fold endpoint_step es ep' = ep'' \<Longrightarrow> endpoint_wf ep' \<and> ep_session ep' = eg_session g \<and> endpoint_belongs (endpoint_key_of g) ep' \<Longrightarrow>
      \<forall>e\<in>set es. \<exists>op. e = Operate op (eg_binding g) (eg_fence g) (eg_session g) \<Longrightarrow>
      endpoint_wf ep'' \<and> ep_session ep'' = eg_session g \<and> endpoint_belongs (endpoint_key_of g) ep''" for es ep' ep''
  proof (induction es arbitrary: ep')
    case (Cons e es)
    then obtain op where e: "e = Operate op (eg_binding g) (eg_fence g) (eg_session g)" by auto
    have "ep_session (endpoint_step e ep') = ep_session ep'"
      unfolding e by (cases op) (simp_all add: endpoint_defs)
    with Cons e endpoint_step_wf [of ep' e] endpoint_step_belongs [OF _ e, of ep'] show ?case by simp
  qed simp
  moreover have "endpoint_wf (serving_endpoint p g) \<and> ep_session (serving_endpoint p g) = eg_session g \<and>
      endpoint_belongs (endpoint_key_of g) (serving_endpoint p g)"
  proof (cases "btree_get (rp_endpoints p) (endpoint_key_of g)")
    case None
    then show ?thesis
      by (auto simp: serving_endpoint_def endpoint_wf_def endpoint_new_def endpoint_belongs_def endpoint_key_of_def
          split: binding_scope.split)
  next
    case (Some ep)
    with assms have "endpoint_wf ep" "endpoint_belongs (endpoint_key_of g) ep" by (simp_all add: provider_wf_def)
    with Some show ?thesis
      by (simp add: serving_endpoint_def endpoint_wf_def endpoint_belongs_def split: endpoint_key.splits)
  qed
  moreover obtain es where "fst (served_operations p op g) = fold endpoint_step es (serving_endpoint p g)"
      and "\<forall>e\<in>set es. \<exists>op. e = Operate op (eg_binding g) (eg_fence g) (eg_session g)"
    by (rule served_operations_run)
  ultimately show ?thesis by metis
qed

lemma session_update_ok:
  "endpoint_wf (ep\<lparr>ep_session := s\<rparr>) = endpoint_wf ep" "endpoint_belongs key (ep\<lparr>ep_session := s\<rparr>) = endpoint_belongs key ep"
  by (simp_all add: endpoint_wf_def endpoint_belongs_def split: endpoint_key.split)

lemma provider_apply_wf:
  assumes wf: "provider_wf p"
  shows "provider_wf (fst (provider_apply p op g))"
proof (cases rule: provider_apply_cases [OF wf, of g op])
  case (1 e)
  with wf show ?thesis by simp
next
  case (2 p' r ep r')
  have "endpoint_wf ep' \<and> ep_session ep' = rp_session p' \<and> endpoint_belongs key ep'"
    if "btree_get (rp_endpoints p') key = Some ep'" for key ep'
  proof (cases "key = endpoint_key_of g")
    case True
    with that 2 served_endpoint_ok [OF wf, of op g] show ?thesis by simp
  next
    case False
    with that 2 obtain ep0 where "btree_get (rp_endpoints p) key = Some ep0" "ep' = ep0\<lparr>ep_session := eg_session g\<rparr>" by auto
    with wf 2 show ?thesis by (simp add: provider_wf_def session_update_ok)
  qed
  with 2 show ?thesis by (simp add: provider_wf_def)
qed

lemma provider_step_serve:
  "\<exists>n. provider_step (Serve op g) p = (fst (provider_apply p op g))\<lparr>rp_next_handle := n\<rparr>"
  by (cases op)
    (auto simp: provider_prepare_def provider_activate_def provider_release_def provider_fence_def split: prod.split result.split
      intro: exI [of _ "rp_next_handle (fst (provider_apply p op g))"])

lemma provider_step_wf: "provider_wf p \<Longrightarrow> provider_wf (provider_step e p)"
proof (cases e)
  case (Serve op g)
  assume "provider_wf p"
  with provider_apply_wf have "provider_wf (fst (provider_apply p op g))" by blast
  with provider_step_serve [of op g p] show ?thesis by (auto simp: Serve provider_wf_def)
next
  case (Authorize session epoch)
  assume wf: "provider_wf p"
  show ?thesis
    using wf
    by (cases rule: check_control_generation_cases [of epoch p session])
      (auto simp: Authorize authorize_execution_def provider_wf_def session_update_ok)
qed

lemma provider_new_wf: "provider_wf provider_new"
  by (simp add: provider_wf_def provider_new_def)

text \<open>Every event takes each endpoint along a run of the endpoint state machine; endpoints are never removed.\<close>

lemma provider_step_endpoint:
  assumes "provider_wf p" and "btree_get (rp_endpoints p) key = Some ep"
  shows "\<exists>es. btree_get (rp_endpoints (provider_step e p)) key = Some (fold endpoint_step es ep)"
proof -
  have hand: "\<exists>es. ep\<lparr>ep_session := s\<rparr> = fold endpoint_step es ep" if "rp_session p \<le> s" for s
  proof (cases "rp_session p = s")
    case True
    with assms show ?thesis by (intro exI [of _ "[]"]) (simp add: provider_wf_def)
  next
    case False
    with that have "rp_session p < s" by simp
    with assms show ?thesis by (intro exI [of _ "[Handshake s]"]) (simp add: provider_wf_def endpoint_handshake_def)
  qed
  show ?thesis
  proof (cases e)
    case (Serve op g)
    have "\<exists>es. btree_get (rp_endpoints (fst (provider_apply p op g))) key = Some (fold endpoint_step es ep)"
    proof (cases rule: provider_apply_cases [OF assms(1), of g op])
      case (1 e)
      with assms(2) show ?thesis by (auto intro: exI [of _ "[]"])
    next
      case (2 p' r ep' r')
      obtain es where es: "ep\<lparr>ep_session := eg_session g\<rparr> = fold endpoint_step es ep" using hand [OF 2(2)] by blast
      show ?thesis
      proof (cases "key = endpoint_key_of g")
        case True
        obtain es' where "fst (served_operations p op g) = fold endpoint_step es' (serving_endpoint p g)"
          by (rule served_operations_run)
        with 2 True assms(2) es show ?thesis by (intro exI [of _ "es @ es'"]) (simp add: serving_endpoint_def)
      next
        case False
        with 2 assms(2) es show ?thesis by auto
      qed
    qed
    with provider_step_serve [of op g p] show ?thesis by (auto simp: Serve)
  next
    case (Authorize session epoch)
    show ?thesis
      using assms hand [of session]
      by (cases rule: check_control_generation_cases [of epoch p session])
        (auto simp: Authorize authorize_execution_def intro: exI [of _ "[]"])
  qed
qed

section \<open>Runs\<close>

definition provider_run :: "provider_event list \<Rightarrow> resource_provider" where
  "provider_run es = fold provider_step es provider_new"

interpretation provider_inv: invariant_system provider_step provider_wf
  by unfold_locales (rule provider_step_wf)

lemma provider_run_wf: "provider_wf (provider_run es)"
  unfolding provider_run_def by (rule provider_inv.inv_run [OF provider_new_wf])

text \<open>Once a key has closed a generation, it stays closed.\<close>

definition key_closed :: "u64 \<Rightarrow> endpoint_key \<Rightarrow> resource_provider \<Rightarrow> bool" where
  "key_closed fence key p \<longleftrightarrow> (\<exists>ep. btree_get (rp_endpoints p) key = Some ep \<and> generation_closed fence ep)"

lemma generation_closed_run: "generation_closed fence ep \<Longrightarrow> generation_closed fence (fold endpoint_step es ep)"
  by (induction es arbitrary: ep) (auto intro: generation_closed_step)

lemma key_closed_step:
  assumes "provider_wf p" and "key_closed fence key p"
  shows "key_closed fence key (provider_step e p)"
proof -
  from assms(2) obtain ep where ep: "btree_get (rp_endpoints p) key = Some ep" and closed: "generation_closed fence ep"
    by (auto simp: key_closed_def)
  from provider_step_endpoint [OF assms(1) ep, of e] generation_closed_run [OF closed] show ?thesis
    by (auto simp: key_closed_def)
qed

lemma key_closed_run:
  assumes "provider_wf p" and "key_closed fence key p"
  shows "key_closed fence key (fold provider_step es p)"
  using assms by (induction es arbitrary: p) (auto intro: provider_step_wf key_closed_step)

lemma provider_close:
  assumes "provider_wf p" and "op = OpRelease \<or> op = OpFence" and "provider_apply p op g = (p', Ok ())" and "old \<le> eg_fence g"
  shows "key_closed old (endpoint_key_of g) p'"
proof (cases rule: provider_apply_cases [OF assms(1), of g op])
  case (2 p1 r ep r')
  have "ep_session (serving_endpoint p g) = eg_session g"
    by (simp add: serving_endpoint_def endpoint_new_def split: option.split)
  then have "generation_closed old (fst (served_operations p op g))"
    using assms(2,4) by (auto simp: served_operations_def endpoint_defs generation_closed_def)
  with 2 assms(3) show ?thesis by (simp add: key_closed_def)
qed (use assms(3) in simp)

lemma closed_refuses:
  assumes "provider_wf p" and "key_closed old (endpoint_key_of g) p" and "eg_fence g = old" and "op = OpPrepare \<or> op = OpActivate"
  shows "\<exists>e. snd (provider_apply p op g) = Err e"
proof -
  obtain ep0 where ep0: "btree_get (rp_endpoints p) (endpoint_key_of g) = Some ep0" and closed: "generation_closed old ep0"
    using assms(2) by (auto simp: key_closed_def)
  show ?thesis
  proof (cases rule: provider_apply_cases [OF assms(1), of g op])
    case (2 p1 r ep r')
    have "\<not> is_ok r'"
      using 2(4) ep0 closed assms(3,4)
      by (auto simp: served_operations_def serving_endpoint_def endpoint_defs generation_closed_def split: if_splits)
    with 2 show ?thesis by (cases r) auto
  qed simp
qed

text \<open>
  C39. Fencing is final at the provider: once a release or fence of a generation was accepted, then after any sequence of
  calls, from any sessions and epochs and for any resources, a prepare or an activate of that
  generation or an older one for the same endpoint is refused. Adopting a generation that the provider has
  not seen does not bring a closed one back.
\<close>

theorem provider_fencing_final:
  assumes "op = OpRelease \<or> op = OpFence" and "provider_apply (provider_run es) op g = (p, Ok ())"
    and "endpoint_key_of late = endpoint_key_of g" and "eg_fence late \<le> eg_fence g" and "late_op = OpPrepare \<or> late_op = OpActivate"
  shows "\<exists>e. snd (provider_apply (fold provider_step es' p) late_op late) = Err e"
proof -
  have wf: "provider_wf p" using provider_apply_wf [OF provider_run_wf, of es op g] assms(2) by simp
  have "key_closed (eg_fence late) (endpoint_key_of g) (fold provider_step es' p)"
    by (rule key_closed_run [OF wf provider_close [OF provider_run_wf assms(1,2,4)]])
  then show ?thesis
    by (intro closed_refuses [OF provider_inv.inv_run [OF wf] _ refl assms(5)]) (simp add: assms(3))
qed

definition sample_generation :: "u64 \<Rightarrow> u64 \<Rightarrow> endpoint_generation" where
  "sample_generation binding fence =
     \<lparr>eg_binding = binding, eg_node = 7, eg_provider = 1, eg_scope = Exclusive, eg_session = 3, eg_fence = fence, eg_epoch = 1\<rparr>"

theorem provider_fencing_final_witness:
  "\<exists>e. snd (provider_apply
     (fold provider_step [Serve OpPrepare (sample_generation 11 5)]
       (fst (provider_apply (provider_run [Serve OpActivate (sample_generation 10 4)]) OpFence (sample_generation 10 4))))
     OpActivate (sample_generation 10 4)) = Err e"
proof -
  have "snd (provider_apply (provider_run [Serve OpActivate (sample_generation 10 4)]) OpFence (sample_generation 10 4)) = Ok ()"
    by code_simp
  then have "provider_apply (provider_run [Serve OpActivate (sample_generation 10 4)]) OpFence (sample_generation 10 4) =
      (fst (provider_apply (provider_run [Serve OpActivate (sample_generation 10 4)]) OpFence (sample_generation 10 4)), Ok ())"
    by (simp add: prod_eq_iff)
  then show ?thesis by (rule provider_fencing_final [rotated]) simp_all
qed

text \<open>
  Calls are isolated: a call with an epoch or a session below the highest accepted one is refused and changes nothing at
  all. Any other call raises the two to its own, leaves the endpoint of every other key as it
  is but for the session, and when it is accepted the endpoint of its key is open for exactly that binding and generation after
  a prepare or activate, and closed for it after a release or fence.
\<close>

theorem provider_call_isolated:
  assumes "provider_apply (provider_run es) op g = (p, r)"
  shows "(eg_epoch g < rp_epoch (provider_run es) \<or> eg_session g < rp_session (provider_run es) \<longrightarrow>
      p = provider_run es \<and> \<not> is_ok r) \<and>
    (rp_epoch (provider_run es) \<le> eg_epoch g \<and> rp_session (provider_run es) \<le> eg_session g \<longrightarrow>
      rp_epoch p = eg_epoch g \<and> rp_session p = eg_session g \<and>
      (\<forall>key. key \<noteq> endpoint_key_of g \<longrightarrow> btree_get (rp_endpoints p) key =
         map_option (\<lambda>ep. ep\<lparr>ep_session := eg_session g\<rparr>) (btree_get (rp_endpoints (provider_run es)) key))) \<and>
    (is_ok r \<longrightarrow> (\<exists>ep. btree_get (rp_endpoints p) (endpoint_key_of g) = Some ep \<and>
      (if op = OpPrepare \<or> op = OpActivate
       then ep_open ep \<and> ep_binding ep = Some (eg_binding g) \<and> ep_accepted_fence ep = eg_fence g \<and>
         ep_phase ep = (if op = OpPrepare then Prepared else PhaseActive)
       else generation_closed (eg_fence g) ep)))"
proof (cases rule: provider_apply_cases [OF provider_run_wf [of es], of g op])
  case (1 e)
  with assms show ?thesis by (auto simp: not_le)
next
  case (2 p' r0 ep r')
  have "if op = OpPrepare \<or> op = OpActivate
       then ep_open ep \<and> ep_binding ep = Some (eg_binding g) \<and> ep_accepted_fence ep = eg_fence g \<and>
         ep_phase ep = (if op = OpPrepare then Prepared else PhaseActive)
       else generation_closed (eg_fence g) ep" if "is_ok r'"
    using 2(4) that
    by (cases op) (auto simp: served_operations_def Let_def endpoint_defs generation_closed_def split: if_splits prod.splits result.splits)
  with 2 assms show ?thesis by auto
qed

theorem provider_call_isolated_witness:
  "\<exists>ep. btree_get (rp_endpoints (fst (provider_apply (provider_run []) OpPrepare (sample_generation 10 4)))) (KeyExclusive 1 7) = Some ep \<and>
     ep_open ep \<and> ep_binding ep = Some 10 \<and> ep_accepted_fence ep = 4"
proof -
  have ok: "is_ok (snd (provider_apply (provider_run []) OpPrepare (sample_generation 10 4)))" by code_simp
  have "endpoint_key_of (sample_generation 10 4) = KeyExclusive 1 7" by (simp add: sample_generation_def endpoint_key_of_def)
  with ok provider_call_isolated [of "[]" OpPrepare "sample_generation 10 4", OF prod.collapse [symmetric]]
  show ?thesis by (auto simp: sample_generation_def)
qed

end
