(* ===== verification/Node_Recovery.thy ===== *)
theory Node_Recovery
  imports Provider_Safety
begin

text \<open>
  What a controller knows of a returning agent (\<^verbatim>\<open>crates/node/src/recovery.rs\<close>, with the tags of
  \<^verbatim>\<open>crates/node/src/dispatch.rs\<close>): the answers of its members, the endpoints its provider enumerated, the closes of
  stray generations that are still out. The property ties the controller's proof of a binding to the
  provider that enforces it.
\<close>

section \<open>Evidence\<close>

datatype effect_phase = PhPrepare | PhActivate | PhRelease | PhFence

datatype tag =
    TagBinding binding_id u64 u64 effect_phase
  | TagExecutionStart lease_id node_id u64
  | TagExecutionStop lease_id node_id u64
  | TagStatus lease_id node_id u64
  | TagEnumerate node_id u64
  | TagStrayFence node_id u64 node_id provider_id binding_scope binding_id u64
  | TagProbe node_id

record member_status =
  mst_running :: bool
  mst_exit_code :: "int option"

record machine_recovery =
  mr_session :: u64
  mr_members :: "(lease_id, member_status option) btree"
  mr_endpoints :: "enumerated_endpoint list option"
  mr_stray_fences :: "tag set"

definition machine_recovery_new :: "u64 \<Rightarrow> machine_recovery" where
  "machine_recovery_new session =
     \<lparr>mr_session = session, mr_members = btree_empty, mr_endpoints = None, mr_stray_fences = {}\<rparr>"

definition endpoints_settled :: "machine_recovery \<Rightarrow> bool" where
  "endpoints_settled rec \<longleftrightarrow> mr_endpoints rec \<noteq> None \<and> mr_stray_fences rec = {}"

definition recovery_complete :: "machine_recovery \<Rightarrow> bool" where
  "recovery_complete rec \<longleftrightarrow> btree_is_empty (mr_members rec) \<and> endpoints_settled rec"

definition same_generation :: "enumerated_endpoint \<Rightarrow> binding \<Rightarrow> bool" where
  "same_generation e b \<longleftrightarrow>
     ee_binding e = Some (b_id b) \<and> ee_node e = b_node b \<and> ee_provider e = b_provider b \<and> ee_scope e = b_scope b \<and>
     ee_accepted_fence e = b_fence b"

text \<open>The reports that speak of the binding or of its exclusive resource.\<close>

definition proof_candidates :: "binding \<Rightarrow> enumerated_endpoint list \<Rightarrow> enumerated_endpoint list" where
  "proof_candidates b = filter (\<lambda>e. ee_binding e = Some (b_id b) \<or>
     (b_scope b = Exclusive \<and> ee_scope e = Exclusive \<and> ee_node e = b_node b \<and> ee_provider e = b_provider b))"

definition proves :: "machine_recovery \<Rightarrow> binding \<Rightarrow> bool" where
  "proves rec b =
     (case mr_endpoints rec of
        None \<Rightarrow> False
      | Some endpoints \<Rightarrow>
          (case proof_candidates b endpoints of
             [] \<Rightarrow> False
           | e # rest \<Rightarrow>
               rest = [] \<and> b_state b = BActive \<and> same_generation e b \<and> ee_open e \<and> ee_phase e = PhaseActive))"

section \<open>What a proof means\<close>

text \<open>The endpoint key a provider uses for a binding, and the endpoint that enforces it.\<close>

definition binding_key :: "binding \<Rightarrow> endpoint_key" where
  "binding_key b = (case b_scope b of Exclusive \<Rightarrow> KeyExclusive (b_provider b) (b_node b) | IndependentShare \<Rightarrow> KeyShare (b_id b))"

definition enforces :: "resource_provider \<Rightarrow> binding \<Rightarrow> bool" where
  "enforces p b \<longleftrightarrow> (\<exists>ep. btree_get (rp_endpoints p) (binding_key b) = Some ep \<and> ep_open ep \<and> ep_phase ep = PhaseActive \<and>
     ep_binding ep = Some (b_id b) \<and> ep_accepted_fence ep = b_fence b \<and> ep_provider ep = b_provider b \<and> ep_node ep = b_node b)"

lemma distinct_singleton:
  assumes "distinct xs"
  shows "xs = [x] \<longleftrightarrow> set xs = {x}"
proof (cases xs)
  case (Cons y ys)
  then show ?thesis using assms by (cases ys) auto
qed simp

lemma enumerated_iff:
  "e \<in> set (enumerate_endpoints p) \<longleftrightarrow> (\<exists>key ep. btree_get (rp_endpoints p) key = Some ep \<and>
     e = \<lparr>ee_node = ep_node ep, ee_provider = ep_provider ep,
       ee_scope = (case key of KeyExclusive _ _ \<Rightarrow> Exclusive | KeyShare _ \<Rightarrow> IndependentShare),
       ee_binding = ep_binding ep, ee_open = ep_open ep, ee_accepted_fence = ep_accepted_fence ep, ee_phase = ep_phase ep\<rparr>)"
  by (force simp: enumerate_endpoints_def)

lemma candidate_key:
  assumes "provider_wf p" and "btree_get (rp_endpoints p) key = Some ep" and "ep_binding ep = Some (b_id b)"
    and "(case key of KeyExclusive _ _ \<Rightarrow> Exclusive | KeyShare _ \<Rightarrow> IndependentShare) = b_scope b"
    and "ep_provider ep = b_provider b" and "ep_node ep = b_node b"
  shows "key = binding_key b"
proof -
  have "endpoint_belongs key ep" using assms(1,2) by (simp add: provider_wf_def)
  with assms(3-6) show ?thesis by (cases key) (auto simp: endpoint_belongs_def binding_key_def split: binding_scope.splits)
qed

text \<open>An entry of the enumeration, and the endpoints whose entries are candidates for the proof of a binding.\<close>

definition endpoint_entry :: "endpoint_key \<times> endpoint \<Rightarrow> enumerated_endpoint" where
  "endpoint_entry = (\<lambda>(key, ep). \<lparr>ee_node = ep_node ep, ee_provider = ep_provider ep,
       ee_scope = (case key of KeyExclusive _ _ \<Rightarrow> Exclusive | KeyShare _ \<Rightarrow> IndependentShare),
       ee_binding = ep_binding ep, ee_open = ep_open ep, ee_accepted_fence = ep_accepted_fence ep, ee_phase = ep_phase ep\<rparr>)"

definition is_candidate :: "binding \<Rightarrow> endpoint_key \<times> endpoint \<Rightarrow> bool" where
  "is_candidate b = (\<lambda>(key, ep). ep_binding ep = Some (b_id b) \<or> key = binding_key b \<and> b_scope b = Exclusive)"

lemma candidates_enumerated:
  "proof_candidates b (enumerate_endpoints (provider_run es)) =
     map endpoint_entry (filter (is_candidate b) (btree_entries (rp_endpoints (provider_run es))))"
proof -
  have belongs: "endpoint_belongs key ep" if "btree_get (rp_endpoints (provider_run es)) key = Some ep" for key ep
    using provider_run_wf that by (simp add: provider_wf_def)
  show ?thesis
    unfolding proof_candidates_def enumerate_endpoints_def filter_map o_def endpoint_entry_def [symmetric] is_candidate_def
    by (intro arg_cong [where f = "map endpoint_entry"] filter_cong refl)
      (auto simp: endpoint_entry_def binding_key_def endpoint_belongs_def dest!: belongs split: endpoint_key.splits binding_scope.splits)
qed

text \<open>
  C40. A proof of recovery is sound and complete: when the controller holds the enumeration of a provider, it takes an active
  binding as proven exactly when the provider enforces that very generation and no other endpoint of the provider claims the
  same binding. A binding that was not enumerated, or that two endpoints report, is never proven.
\<close>

theorem recovery_proof_exact:
  assumes "mr_endpoints rec = Some (enumerate_endpoints (provider_run es))"
  shows "proves rec b \<longleftrightarrow> b_state b = BActive \<and> enforces (provider_run es) b \<and>
    \<not> (\<exists>key ep. key \<noteq> binding_key b \<and> btree_get (rp_endpoints (provider_run es)) key = Some ep \<and> ep_binding ep = Some (b_id b))"
proof -
  let ?p = "provider_run es"
  have wf: "provider_wf ?p" by (rule provider_run_wf)
  let ?F = "filter (is_candidate b) (btree_entries (rp_endpoints ?p))"
  have distinct: "distinct ?F" using btree_entries_distinct [of "rp_endpoints ?p"] by (simp add: distinct_map)
  note single = distinct_singleton [OF distinct]
  have memF: "(key, ep) \<in> set ?F \<longleftrightarrow> btree_get (rp_endpoints ?p) key = Some ep \<and> is_candidate b (key, ep)" for key ep by simp
  have "proves rec b \<longleftrightarrow> (\<exists>key ep. ?F = [(key, ep)] \<and> b_state b = BActive \<and> same_generation (endpoint_entry (key, ep)) b \<and>
      ep_open ep \<and> ep_phase ep = PhaseActive)"
    unfolding proves_def assms option.case candidates_enumerated by (cases ?F) (auto simp: endpoint_entry_def)
  also have "\<dots> \<longleftrightarrow> b_state b = BActive \<and> enforces ?p b \<and>
      \<not> (\<exists>key ep. key \<noteq> binding_key b \<and> btree_get (rp_endpoints ?p) key = Some ep \<and> ep_binding ep = Some (b_id b))"
    (is "?l \<longleftrightarrow> ?r")
  proof
    assume ?l
    then obtain key ep where F: "set ?F = {(key, ep)}" and state: "b_state b = BActive" and gen: "same_generation (endpoint_entry (key, ep)) b"
        and act: "ep_open ep" "ep_phase ep = PhaseActive" unfolding single by blast
    have mem: "btree_get (rp_endpoints ?p) key' = Some ep' \<Longrightarrow> is_candidate b (key', ep') \<Longrightarrow> (key', ep') = (key, ep)" for key' ep'
      using memF [of key' ep'] unfolding F by simp
    have get: "btree_get (rp_endpoints ?p) key = Some ep" using memF [of key ep] unfolding F by simp
    have key: "key = binding_key b" using gen by (intro candidate_key [OF wf get]) (simp_all add: same_generation_def endpoint_entry_def)
    with get gen act have "enforces ?p b" by (simp add: enforces_def same_generation_def endpoint_entry_def)
    moreover have "key' = binding_key b" if "btree_get (rp_endpoints ?p) key' = Some ep'" "ep_binding ep' = Some (b_id b)" for key' ep'
      using mem [OF that(1)] that(2) key by (simp add: is_candidate_def)
    ultimately show ?r using state by blast
  next
    assume r: ?r
    then obtain ep where ep: "btree_get (rp_endpoints ?p) (binding_key b) = Some ep" "ep_open ep" "ep_phase ep = PhaseActive"
        "ep_binding ep = Some (b_id b)" "ep_accepted_fence ep = b_fence b" "ep_provider ep = b_provider b" "ep_node ep = b_node b"
      by (auto simp: enforces_def)
    have "(key, ep') \<in> set ?F \<longleftrightarrow> (key, ep') = (binding_key b, ep)" for key ep'
      unfolding memF using r ep by (cases "key = binding_key b") (auto simp: is_candidate_def)
    then have "set ?F = {(binding_key b, ep)}" by (simp only: set_eq_iff split_paired_All singleton_iff) blast
    moreover have "same_generation (endpoint_entry (binding_key b, ep)) b"
      using ep by (simp add: same_generation_def endpoint_entry_def binding_key_def split: binding_scope.split)
    ultimately show ?l using r ep(2,3) unfolding single by blast
  qed
  finally show ?thesis .
qed

definition sample_bound :: binding where
  "sample_bound = \<lparr>b_id = 10, b_lease = 1, b_node = 7, b_provider = 1, b_scope = Exclusive, b_fence = 4, b_agent_session = 3,
     b_state = BActive, b_provider_handle = None\<rparr>"

theorem recovery_proof_exact_witness:
  "proves ((machine_recovery_new 4)\<lparr>mr_endpoints := Some (enumerate_endpoints (provider_run [Serve OpActivate (sample_generation 10 4)]))\<rparr>)
     sample_bound \<and> enforces (provider_run [Serve OpActivate (sample_generation 10 4)]) sample_bound"
proof -
  let ?rec = "(machine_recovery_new 4)\<lparr>mr_endpoints := Some (enumerate_endpoints (provider_run [Serve OpActivate (sample_generation 10 4)]))\<rparr>"
  have "proves ?rec sample_bound" by code_simp
  moreover have "mr_endpoints ?rec = Some (enumerate_endpoints (provider_run [Serve OpActivate (sample_generation 10 4)]))" by simp
  note recovery_proof_exact [OF this, of sample_bound]
  ultimately show ?thesis by blast
qed

end
