(* ===== verification/Node_Protocol.thy ===== *)
theory Node_Protocol
  imports Kernel_Types Node_Device_Filter
begin

text \<open>
  The agent protocol (\<^verbatim>\<open>crates/node/src/protocol.rs\<close>): lists of processor numbers with the parser of
  \<^verbatim>\<open>crates/node/src/discover.rs\<close>, limits of a lease, and the length-prefixed frames. The JSON of a message is a parameter;
  a stream is the list of bytes that arrive before its end. The messages themselves are data types.
\<close>

section \<open>Text\<close>

text \<open>\<^verbatim>\<open>str::split\<close> on a character, \<^verbatim>\<open>str::split_once\<close>, \<^verbatim>\<open>str::trim\<close> (on ASCII text) and \<^verbatim>\<open>str::parse::<u32>\<close>.\<close>

fun split_on :: "char \<Rightarrow> string \<Rightarrow> string list" where
  "split_on c [] = [[]]"
| "split_on c (x # xs) =
     (if x = c then [] # split_on c xs
      else case split_on c xs of [] \<Rightarrow> [[x]] | w # ws \<Rightarrow> (x # w) # ws)"

fun split_once :: "char \<Rightarrow> string \<Rightarrow> (string \<times> string) option" where
  "split_once c [] = None"
| "split_once c (x # xs) =
     (if x = c then Some ([], xs) else map_option (\<lambda>(a, b). (x # a, b)) (split_once c xs))"

definition is_space :: "char \<Rightarrow> bool" where
  "is_space c \<longleftrightarrow> c = CHR '' '' \<or> (9 \<le> (of_char c :: nat) \<and> (of_char c :: nat) \<le> 13)"

definition trim :: "string \<Rightarrow> string" where
  "trim s = rev (dropWhile is_space (rev (dropWhile is_space s)))"

definition is_digit :: "char \<Rightarrow> bool" where
  "is_digit c \<longleftrightarrow> 48 \<le> (of_char c :: nat) \<and> (of_char c :: nat) \<le> 57"

definition digits_value :: "string \<Rightarrow> nat" where
  "digits_value s = fold (\<lambda>c n. 10 * n + (of_char c - 48)) s 0"

definition parse_u32 :: "string \<Rightarrow> u32 option" where
  "parse_u32 s =
     (let digits = (case s of c # rest \<Rightarrow> if c = CHR ''+'' then rest else s | [] \<Rightarrow> s) in
      if digits = [] \<or> \<not> list_all is_digit digits \<or> 2 ^ 32 \<le> digits_value digits then None
      else Some (of_nat (digits_value digits)))"

section \<open>Lists of processors\<close>

datatype cpu_list_error = InvalidCpuRange string | InvertedCpuRange string

definition parse_cpu_part :: "string \<Rightarrow> u32 list \<Rightarrow> (u32 list, cpu_list_error) result" where
  "parse_cpu_part part cpus =
     (let (first, stop) = (case split_once (CHR ''-'') part of Some p \<Rightarrow> p | None \<Rightarrow> (part, part)) in
      case parse_u32 (trim first) of
        None \<Rightarrow> Err (InvalidCpuRange part)
      | Some start \<Rightarrow>
          (case parse_u32 (trim stop) of
             None \<Rightarrow> Err (InvalidCpuRange part)
           | Some end_ \<Rightarrow>
               if end_ < start then Err (InvertedCpuRange part)
               else Ok (cpus @ map of_nat [unat start..<Suc (unat end_)])))"

definition parse_cpu_list :: "string \<Rightarrow> (u32 list, cpu_list_error) result" where
  "parse_cpu_list list = try_fold parse_cpu_part (filter (\<lambda>part. part \<noteq> []) (split_on (CHR '','') list)) []"

text \<open>The inner loop of \<^verbatim>\<open>render\<close>: the end of the run that starts here, and what follows.\<close>

fun run_end :: "u32 \<Rightarrow> u32 list \<Rightarrow> u32 \<times> u32 list" where
  "run_end e [] = (e, [])"
| "run_end e (x # xs) = (if x = e + 1 then run_end x xs else (e, x # xs))"

lemma run_end_shorter: "length (snd (run_end e xs)) \<le> length xs"
  by (induction e xs rule: run_end.induct) auto

definition show_u32 :: "u32 \<Rightarrow> string" where
  "show_u32 w = show_nat (unat w)"

function render_loop :: "u32 list \<Rightarrow> string \<Rightarrow> string" where
  "render_loop [] out = out"
| "render_loop (start # rest) out =
     (case run_end start rest of
        (stop, rest') \<Rightarrow>
          render_loop rest' ((if out \<noteq> [] then out @ '','' else out) @
            (if start = stop then show_u32 start else show_u32 start @ ''-'' @ show_u32 stop)))"
  by pat_completeness auto

termination
  by (relation "measure (\<lambda>(xs, out). length xs)")
    (auto simp: less_Suc_eq_le, metis run_end_shorter snd_conv)

definition cpu_list_render :: "u32 list \<Rightarrow> string" where
  "cpu_list_render numbers = render_loop numbers []"

record cpu_placement =
  cp_cpus :: "u32 list"
  cp_mems :: "u32 list"

record lease_limits =
  ll_cpu_count :: u64
  ll_memory_bytes :: u64
  ll_placement :: cpu_placement

definition placement_is_empty :: "cpu_placement \<Rightarrow> bool" where
  "placement_is_empty p \<longleftrightarrow> cp_cpus p = [] \<and> cp_mems p = []"

definition limits_is_empty :: "lease_limits \<Rightarrow> bool" where
  "limits_is_empty l \<longleftrightarrow> ll_cpu_count l = 0 \<and> ll_memory_bytes l = 0 \<and> placement_is_empty (ll_placement l)"

section \<open>Frames\<close>

datatype frame_error = FrameTooLarge | UnexpectedEof | BadMessage

definition MAX_FRAME :: int where
  "MAX_FRAME = 16 * 1024 * 1024"

definition le_bytes :: "u32 \<Rightarrow> u8 list" where
  "le_bytes w = [ucast w, ucast (drop_bit 8 w), ucast (drop_bit 16 w), ucast (drop_bit 24 w)]"

definition from_le_bytes :: "u8 \<Rightarrow> u8 \<Rightarrow> u8 \<Rightarrow> u8 \<Rightarrow> u32" where
  "from_le_bytes a b c d = ucast a OR push_bit 8 (ucast b) OR push_bit 16 (ucast c) OR push_bit 24 (ucast d)"

text \<open>\<^verbatim>\<open>write_frame\<close> on the JSON of a message.\<close>

definition write_frame :: "('m \<Rightarrow> u8 list) \<Rightarrow> 'm \<Rightarrow> (u8 list, frame_error) result" where
  "write_frame to_json message =
     (let payload = to_json message in
      if int (length payload) > MAX_FRAME then Err FrameTooLarge
      else Ok (le_bytes (of_nat (length payload)) @ payload))"

definition read_payload :: "u8 list \<Rightarrow> (u8 list \<times> u8 list, frame_error) result" where
  "read_payload stream =
     (case stream of
        a # b # c # d # rest \<Rightarrow>
          let len = from_le_bytes a b c d in
          if uint len > MAX_FRAME then Err FrameTooLarge
          else if length rest < unat len then Err UnexpectedEof
          else Ok (take (unat len) rest, drop (unat len) rest)
      | _ \<Rightarrow> Err UnexpectedEof)"

definition read_frame :: "(u8 list \<Rightarrow> 'm option) \<Rightarrow> u8 list \<Rightarrow> ('m \<times> u8 list, frame_error) result" where
  "read_frame from_json stream =
     and_then (read_payload stream) (\<lambda>(payload, rest).
       case from_json payload of Some message \<Rightarrow> Ok (message, rest) | None \<Rightarrow> Err BadMessage)"

end
