(* ===== verification/Protocol_Roundtrip.thy ===== *)
theory Protocol_Roundtrip
  imports Node_Protocol Device_Filter
begin

text \<open>
  Round trips of the agent protocol: a rendered list of processors parses back, a written frame is read back
  whatever follows it.
\<close>

section \<open>Decimal numbers\<close>

lemma digits_value_snoc: "digits_value (s @ [c]) = 10 * digits_value s + (of_char c - 48)"
  by (simp add: digits_value_def)

lemma show_nat_digits: "show_nat n \<noteq> [] \<and> list_all is_digit (show_nat n) \<and> digits_value (show_nat n) = n"
proof (induction n rule: show_nat.induct)
  case (1 n)
  have char: "(of_char (char_of (48 + d) :: char) :: nat) = 48 + d" if "d < 10" for d :: nat
    using that by (simp add: of_char_of)
  have digit: "is_digit (char_of (48 + d))" if "d < 10" for d :: nat
    using that by (simp add: is_digit_def char)
  show ?case
  proof (cases "n < 10")
    case True
    then show ?thesis by (subst (1 2 3) show_nat.simps) (simp add: digit char digits_value_def)
  next
    case False
    with 1 show ?thesis
      by (subst (1 2 3) show_nat.simps) (simp add: digit char digits_value_snoc)
  qed
qed

lemma digit_not_special:
  assumes "is_digit c"
  shows "c \<noteq> CHR ''+''" and "c \<noteq> CHR '',''" and "c \<noteq> CHR ''-''" and "\<not> is_space c"
  using assms by (auto simp: is_digit_def is_space_def)

lemma parse_show_u32: "parse_u32 (show_u32 w) = Some w"
proof -
  have "\<not> 2 ^ 32 \<le> unat w" using unsigned_less [of w, where 'a = nat] by simp
  moreover obtain c s where cs: "show_nat (unat w) = c # s" using show_nat_digits [of "unat w"] by (cases "show_nat (unat w)") auto
  moreover have "c \<noteq> CHR ''+''" using show_nat_digits [of "unat w"] cs digit_not_special(1) by auto
  ultimately show ?thesis
    using show_nat_digits [of "unat w"] by (simp add: parse_u32_def show_u32_def cs)
qed

lemma trim_digits: "list_all is_digit s \<Longrightarrow> trim s = s"
proof -
  assume digits: "list_all is_digit s"
  have "dropWhile is_space xs = xs" if "list_all is_digit xs" for xs
    using that digit_not_special(4) by (cases xs) auto
  with digits show ?thesis by (simp add: trim_def list_all_rev)
qed

lemma split_once_none: "c \<notin> set s \<Longrightarrow> split_once c s = None"
  by (induction s) auto

lemma split_once_append: "c \<notin> set s \<Longrightarrow> split_once c (s @ c # t) = Some (s, t)"
  by (induction s) auto

section \<open>Lists of processors\<close>

definition render_run :: "u32 \<Rightarrow> u32 \<Rightarrow> string" where
  "render_run start stop = (if start = stop then show_u32 start else show_u32 start @ ''-'' @ show_u32 stop)"

lemma show_u32_chars:
  "show_u32 w \<noteq> []" "list_all is_digit (show_u32 w)" "CHR ''-'' \<notin> set (show_u32 w)" "CHR '','' \<notin> set (show_u32 w)"
proof -
  show "show_u32 w \<noteq> []" and digits: "list_all is_digit (show_u32 w)" using show_nat_digits by (simp_all add: show_u32_def)
  from digits show "CHR ''-'' \<notin> set (show_u32 w)" "CHR '','' \<notin> set (show_u32 w)"
    using digit_not_special(2,3) by (auto simp: list_all_iff)
qed

lemma parse_render_run:
  assumes "start \<le> stop"
  shows "parse_cpu_part (render_run start stop) cpus = Ok (cpus @ map of_nat [unat start..<Suc (unat stop)])"
proof (cases "start = stop")
  case True
  then show ?thesis
    by (simp add: parse_cpu_part_def render_run_def split_once_none show_u32_chars trim_digits parse_show_u32)
next
  case False
  have "split_once (CHR ''-'') (show_u32 start @ ''-'' @ show_u32 stop) = Some (show_u32 start, show_u32 stop)"
    using split_once_append [OF show_u32_chars(3), of start "show_u32 stop"] by simp
  with False assms show ?thesis
    by (simp add: parse_cpu_part_def render_run_def show_u32_chars trim_digits parse_show_u32)
qed

lemma render_run_chars: "render_run start stop \<noteq> []" "CHR '','' \<notin> set (render_run start stop)"
  by (simp_all add: render_run_def show_u32_chars)

text \<open>The runs of a list.\<close>

function runs_of :: "u32 list \<Rightarrow> (u32 \<times> u32) list" where
  "runs_of [] = []"
| "runs_of (start # rest) = (start, fst (run_end start rest)) # runs_of (snd (run_end start rest))"
  by pat_completeness auto

termination
  by (relation "measure length") (auto simp: less_Suc_eq_le run_end_shorter)

lemma render_loop_runs:
  "render_loop xs out =
     (if xs = [] then out else join '','' ((if out = [] then [] else [out]) @ map (\<lambda>(a, b). render_run a b) (runs_of xs)))"
proof (induction xs arbitrary: out rule: runs_of.induct)
  case (2 start rest)
  obtain stop rest' where run: "run_end start rest = (stop, rest')" by fastforce
  let ?out = "(if out \<noteq> [] then out @ '','' else out) @ render_run start stop"
  have "render_loop (start # rest) out = render_loop rest' ?out" by (simp add: run render_run_def)
  also have "\<dots> = (if rest' = [] then ?out else join '','' (?out # map (\<lambda>(a, b). render_run a b) (runs_of rest')))"
    using 2 [of ?out] run by (simp add: render_run_chars)
  finally show ?case by (cases "runs_of rest'"; cases rest') (auto simp: run)
qed simp

lemma split_on_no: "c \<notin> set s \<Longrightarrow> split_on c s = [s]"
  by (induction s) auto

lemma split_on_append: "c \<notin> set s \<Longrightarrow> split_on c (s @ c # t) = s # split_on c t"
  by (induction s) auto

lemma split_join:
  assumes "ws \<noteq> []" and "\<forall>w\<in>set ws. CHR '','' \<notin> set w"
  shows "split_on (CHR '','') (join '','' ws) = ws"
  using assms
proof (induction ws rule: induct_list012)
  case (3 x y ws)
  then show ?case using split_on_append [of "CHR '',''" x "join '','' (y # ws)"] by simp
qed (simp_all add: split_on_no)

text \<open>A run covers what it skips.\<close>

lemma run_end_covers:
  assumes "sorted_wrt (<) (start # rest)" and "run_end start rest = (stop, rest')"
  shows "start \<le> stop \<and> start # rest = map of_nat [unat start..<Suc (unat stop)] @ rest' \<and> sorted_wrt (<) rest'"
  using assms
proof (induction start rest rule: run_end.induct)
  case (1 e)
  then show ?case by simp
next
  case (2 e x xs)
  show ?case
  proof (cases "x = e + 1")
    case True
    with 2 have ih: "x \<le> stop" "x # xs = map of_nat [unat x..<Suc (unat stop)] @ rest'" "sorted_wrt (<) rest'" by auto
    have less: "e < x" using 2(2) by simp
    have "1 + e \<noteq> 0" using True less by (metis add.commute word_not_simps(1))
    then have "unat x = Suc (unat e)" using True unatSuc [of e] by (simp add: add.commute)
    then have "[unat e..<Suc (unat stop)] = unat e # [unat x..<Suc (unat stop)]"
      using ih(1) by (simp add: upt_conv_Cons word_le_nat_alt del: upt_Suc)
    with ih less show ?thesis by auto
  next
    case False
    with 2 show ?thesis by auto
  qed
qed

lemma parse_runs:
  assumes "sorted_wrt (<) xs"
  shows "try_fold parse_cpu_part (map (\<lambda>(a, b). render_run a b) (runs_of xs)) cpus = Ok (cpus @ xs)"
  using assms
proof (induction xs arbitrary: cpus rule: runs_of.induct)
  case (2 start rest)
  obtain stop rest' where run: "run_end start rest = (stop, rest')" by fastforce
  from run_end_covers [OF 2(2) run] have "start \<le> stop" and covered: "start # rest = map of_nat [unat start..<Suc (unat stop)] @ rest'"
    and "sorted_wrt (<) rest'" by auto
  have "try_fold parse_cpu_part (map (\<lambda>(a, b). render_run a b) (runs_of (start # rest))) cpus =
      try_fold parse_cpu_part (map (\<lambda>(a, b). render_run a b) (runs_of rest')) (cpus @ map of_nat [unat start..<Suc (unat stop)])"
    using \<open>start \<le> stop\<close> by (simp add: run parse_render_run del: upt_Suc)
  also have "\<dots> = Ok (cpus @ start # rest)"
    using 2(1) run \<open>sorted_wrt (<) rest'\<close> by (simp add: covered del: upt_Suc)
  finally show ?case .
qed simp

text \<open>
  Lists of processors survive rendering: a strictly increasing list, rendered in the compact notation of the kernel and
  parsed by discovery, comes back unchanged.
\<close>

theorem cpu_list_roundtrip:
  assumes "sorted_wrt (<) numbers"
  shows "parse_cpu_list (cpu_list_render numbers) = Ok numbers"
proof (cases "numbers = []")
  case True
  then show ?thesis by (simp add: cpu_list_render_def parse_cpu_list_def)
next
  case False
  let ?ws = "map (\<lambda>(a, b). render_run a b) (runs_of numbers)"
  have ne: "?ws \<noteq> []" using False by (cases numbers) auto
  have "cpu_list_render numbers = join '','' ?ws" using False by (simp add: cpu_list_render_def render_loop_runs)
  moreover have "split_on (CHR '','') (join '','' ?ws) = ?ws"
    using ne by (intro split_join) (auto simp: render_run_chars)
  moreover have "filter (\<lambda>part. part \<noteq> []) ?ws = ?ws"
    by (intro filter_True) (auto simp: render_run_chars)
  ultimately show ?thesis using parse_runs [OF assms, of "[]"] by (simp add: parse_cpu_list_def)
qed

theorem cpu_list_roundtrip_witness:
  "cpu_list_render [0, 1, 2, 3, 8] = ''0-3,8'' \<and> parse_cpu_list ''0-3,8'' = Ok [0, 1, 2, 3, 8]"
proof -
  have "cpu_list_render [0, 1, 2, 3, 8] = ''0-3,8''" by code_simp
  with cpu_list_roundtrip [of "[0, 1, 2, 3, 8]"] show ?thesis by simp
qed

section \<open>Frames\<close>

lemma le_bytes_roundtrip:
  "from_le_bytes (ucast w) (ucast (drop_bit 8 w)) (ucast (drop_bit 16 w)) (ucast (drop_bit 24 w)) = w"
proof (rule bit_eqI)
  fix n :: nat
  consider "n < 8" | "8 \<le> n" "n < 16" | "16 \<le> n" "n < 24" | "24 \<le> n" "n < 32" | "32 \<le> n" by linarith
  then show "bit (from_le_bytes (ucast w) (ucast (drop_bit 8 w)) (ucast (drop_bit 16 w)) (ucast (drop_bit 24 w))) n = bit w n"
    unfolding from_le_bytes_def by cases (use bit_word_bound [of w n] in \<open>auto simp: bit_simps\<close>)
qed

lemma read_written_frame:
  assumes "write_frame to_json message = Ok frame"
  shows "read_payload (frame @ rest) = Ok (to_json message, rest)"
proof -
  let ?n = "length (to_json message)"
  have small: "int ?n \<le> MAX_FRAME" and frame: "frame = le_bytes (of_nat ?n) @ to_json message"
    using assms by (auto simp: write_frame_def Let_def split: if_splits)
  from small have "?n < 2 ^ 32" by (simp add: MAX_FRAME_def)
  then have "unat (of_nat ?n :: u32) = ?n" by (simp add: unat_of_nat)
  moreover from this have "uint (of_nat ?n :: u32) = int ?n" by (metis uint_nat)
  ultimately show ?thesis
    using small by (simp add: read_payload_def frame le_bytes_def le_bytes_roundtrip Let_def)
qed

text \<open>Reading one message after another.\<close>

fun read_frames :: "(u8 list \<Rightarrow> 'm option) \<Rightarrow> nat \<Rightarrow> u8 list \<Rightarrow> ('m list \<times> u8 list, frame_error) result" where
  "read_frames from_json 0 stream = Ok ([], stream)"
| "read_frames from_json (Suc n) stream =
     and_then (read_frame from_json stream) (\<lambda>(message, rest).
       and_then (read_frames from_json n rest) (\<lambda>(messages, rest'). Ok (message # messages, rest')))"

text \<open>
  Frames do not run into each other: when every message of a sequence can be written, the reader gets back exactly that
  sequence from the concatenated frames, and what follows them is left untouched.
\<close>

theorem frames_roundtrip:
  assumes "\<And>m. from_json (to_json m) = Some m" and "try_map (write_frame to_json) messages = Ok frames"
  shows "read_frames from_json (length messages) (concat frames @ rest) = Ok (messages, rest)"
  using assms(2)
proof (induction messages arbitrary: frames)
  case (Cons m ms)
  then obtain f fs where f: "write_frame to_json m = Ok f" and fs: "try_map (write_frame to_json) ms = Ok fs" and "frames = f # fs"
    by (auto split: result.splits)
  then show ?case
    using Cons.IH [OF fs] read_written_frame [OF f, of "concat fs @ rest"] by (simp add: read_frame_def assms(1))
qed (simp add: try_map_eq_Ok)

theorem frames_roundtrip_witness:
  "read_frames (\<lambda>bytes. Some bytes) 2 (concat [[2, 0, 0, 0, 65, 66], [1, 0, 0, 0, 67]] @ [9]) = Ok ([[65, 66], [67]], [9])"
proof -
  have "try_map (write_frame (\<lambda>m. m)) [[65, 66], [67]] = Ok [[2, 0, 0, 0, 65, 66], [1, 0, 0, 0, 67]]" by code_simp
  from frames_roundtrip [OF _ this, of "\<lambda>bytes. Some bytes" "[9]"] show ?thesis by (simp add: numeral_2_eq_2)
qed

end
