(* ===== verification/Sim_World.thy ===== *)
theory Sim_World
  imports Kernel_Endpoint Kernel_Preempt
begin

text \<open>
  The closed world around the cluster (\<^verbatim>\<open>crates/sim/src/world.rs\<close>): the controller with its cluster, the agents of the
  machines, the endpoints that enforce bindings, and the queue of effects on the way between them, from which effects
  can be delivered, dropped or repeated. Every method of \<^verbatim>\<open>World\<close> is here. A method that may fail returns the world it
  leaves behind together with its result, and goes on after a call as the \<^verbatim>\<open>?\<close> of the source does (\<open>and_in\<close>).
\<close>

section \<open>State\<close>

datatype (plugins only: code size) trace_event =
    TrCommand command
  | TrSetNow u64
  | TrSetAgreement bool
  | TrAdvanceEpoch
  | TrDeliver
  | TrDrop
  | TrRestartAgent node_id u64

record agent =
  ag_session :: u64
  ag_epoch :: u64

record world =
  w_cluster :: cluster
  w_agents :: "(node_id, agent) btree"
  w_endpoints :: "(provider_id \<times> node_id, endpoint) btree"
  w_pending :: "effect list"
  w_trace :: "trace_event list"
  w_next_session :: u64
  w_next_handle :: u64
  w_queue :: "queued list"
  w_next_binding :: u64

definition world_new :: world where
  "world_new =
     \<lparr>w_cluster = cluster_new, w_agents = btree_empty, w_endpoints = btree_empty, w_pending = [], w_trace = [],
      w_next_session = 1, w_next_handle = 1, w_queue = [], w_next_binding = 1\<rparr>"

type_synonym 'a in_world = "world \<times> ('a, error) result"

fun and_in :: "'a in_world \<Rightarrow> (world \<Rightarrow> 'a \<Rightarrow> 'b in_world) \<Rightarrow> 'b in_world" where
  "and_in (w, Ok x) k = k w x"
| "and_in (w, Err e) k = (w, Err e)"

text \<open>A loop whose body may fail.\<close>

fun each_in :: "('a \<Rightarrow> world \<Rightarrow> unit in_world) \<Rightarrow> 'a list \<Rightarrow> world \<Rightarrow> unit in_world" where
  "each_in f [] w = (w, Ok ())"
| "each_in f (x # xs) w = and_in (f x w) (\<lambda>w _. each_in f xs w)"

definition push_pending :: "effect list \<Rightarrow> world \<Rightarrow> world" where
  "push_pending effects w = w\<lparr>w_pending := w_pending w @ effects\<rparr>"

definition push_trace :: "trace_event \<Rightarrow> world \<Rightarrow> world" where
  "push_trace event w = w\<lparr>w_trace := w_trace w @ [event]\<rparr>"

section \<open>Commands\<close>

definition commit :: "command \<Rightarrow> world \<Rightarrow> effect list in_world" where
  "commit command w =
     (case cluster_apply (w_cluster w) command of
        (c, Err e) \<Rightarrow> (w\<lparr>w_cluster := c\<rparr>, Err e)
      | (c, Ok effects) \<Rightarrow> (push_trace (TrCommand command) (w\<lparr>w_cluster := c\<rparr>), Ok effects))"

definition world_apply :: "command \<Rightarrow> world \<Rightarrow> effect list in_world" where
  "world_apply command w = and_in (commit command w) (\<lambda>w effects. (push_pending effects w, Ok effects))"

text \<open>\<^verbatim>\<open>self.apply(command)?; Ok(())\<close>.\<close>

definition apply_unit :: "command \<Rightarrow> world \<Rightarrow> unit in_world" where
  "apply_unit command w = and_in (world_apply command w) (\<lambda>w _. (w, Ok ()))"

definition world_apply_resource_facts ::
    "node list \<Rightarrow> edge list \<Rightarrow> claim_binding_update list \<Rightarrow> world \<Rightarrow> unit in_world" where
  "world_apply_resource_facts nodes edges claim_bindings w = apply_unit (ApplyResourceFacts nodes edges claim_bindings) w"

definition enforce_contracts :: "node list \<Rightarrow> claim_binding_update list" where
  "enforce_contracts nodes =
     concat (map (\<lambda>n. List.map_filter (\<lambda>(dimension, amount).
         if amount > 0 then
           Some \<lparr>cu_node = n_id n, cu_dimension = dimension,
                 cu_binding = Some \<lparr>cb_provider = provider_enforce, cb_scope = Exclusive\<rparr>\<rparr>
         else None) (btree_entries (n_capacity n))) nodes)"

definition world_apply_graph :: "node list \<Rightarrow> edge list \<Rightarrow> world \<Rightarrow> unit in_world" where
  "world_apply_graph nodes edges w = world_apply_resource_facts nodes edges (enforce_contracts nodes) w"

definition world_set_now :: "u64 \<Rightarrow> world \<Rightarrow> world" where
  "world_set_now now w = push_trace (TrSetNow now) (w\<lparr>w_cluster := set_now (w_cluster w) now\<rparr>)"

definition world_set_agreement :: "bool \<Rightarrow> world \<Rightarrow> world" where
  "world_set_agreement agreed w = push_trace (TrSetAgreement agreed) (w\<lparr>w_cluster := set_agreement (w_cluster w) agreed\<rparr>)"

definition world_advance_epoch :: "world \<Rightarrow> world" where
  "world_advance_epoch w = push_trace TrAdvanceEpoch (w\<lparr>w_cluster := advance_epoch (w_cluster w)\<rparr>)"

section \<open>Agents\<close>

definition enforced_under :: "cluster \<Rightarrow> node_id \<Rightarrow> (provider_id \<times> node_id) list" where
  "enforced_under c machine =
     (let nodes = set (descendants (k_graph c) machine @ [machine]) in
      sort (remdups (concat (map (\<lambda>(n, dimensions). map (\<lambda>binding. (cb_provider binding, n)) (btree_values dimensions))
        (filter (\<lambda>(n, _). n \<in> nodes) (btree_entries (g_claim_bindings (k_graph c))))))))"

text \<open>\<^verbatim>\<open>entry(key).and_modify(handshake).or_insert_with(new)\<close>.\<close>

definition greet_endpoint :: "u64 \<Rightarrow> provider_id \<times> node_id \<Rightarrow>
    (provider_id \<times> node_id, endpoint) btree \<Rightarrow> (provider_id \<times> node_id, endpoint) btree" where
  "greet_endpoint session key eps =
     (case btree_get eps key of
        Some ep \<Rightarrow> btree_insert key (endpoint_handshake ep session) eps
      | None \<Rightarrow> btree_insert key (endpoint_new (fst key) (snd key) session) eps)"

definition register_agent :: "node_id \<Rightarrow> world \<Rightarrow> u64 in_world" where
  "register_agent machine w =
     (let session = w_next_session w;
          w1 = w\<lparr>w_next_session := session + 1,
                 w_agents := btree_insert machine \<lparr>ag_session = session, ag_epoch = k_epoch (w_cluster w)\<rparr> (w_agents w)\<rparr>;
          w2 = w1\<lparr>w_endpoints := fold (greet_endpoint session) (enforced_under (w_cluster w) machine) (w_endpoints w1)\<rparr>
      in and_in (world_apply (SetAgentSession machine session) w2) (\<lambda>w _. (w, Ok session)))"

definition restart_agent :: "node_id \<Rightarrow> world \<Rightarrow> u64 in_world" where
  "restart_agent machine w =
     (let session = w_next_session w;
          w1 = w\<lparr>w_next_session := session + 1,
                 w_agents := btree_insert machine \<lparr>ag_session = session, ag_epoch = k_epoch (w_cluster w)\<rparr> (w_agents w)\<rparr>;
          w2 = w1\<lparr>w_endpoints := btree_map_values (\<lambda>ep.
                    if machine_of (k_graph (w_cluster w)) (ep_node ep) = Some machine
                    then endpoint_handshake ep session else ep) (w_endpoints w1)\<rparr>;
          w3 = push_trace (TrRestartAgent machine session) w2
      in and_in (world_apply (SetAgentSession machine session) w3) (\<lambda>w _. (w, Ok session)))"

section \<open>Delivery\<close>

text \<open>
  One enforcement effect at the endpoint it names: what it leaves of the agents, the endpoints and the handle counter, and
  the acknowledgement it causes. An effect for a machine without agent, of an older epoch or of another session is ignored.
\<close>

fun effect_parts :: "effect \<Rightarrow> (endpoint_op \<times> binding_id \<times> node_id \<times> provider_id \<times> u64 \<times> u64 \<times> u64) option" where
  "effect_parts (EffPrepare binding n provider fence session epoch) = Some (OpPrepare, binding, n, provider, fence, session, epoch)"
| "effect_parts (EffActivate binding n provider fence session epoch) = Some (OpActivate, binding, n, provider, fence, session, epoch)"
| "effect_parts (EffRelease binding n provider fence session epoch) = Some (OpRelease, binding, n, provider, fence, session, epoch)"
| "effect_parts (EffFence binding n provider fence session epoch) = Some (OpFence, binding, n, provider, fence, session, epoch)"
| "effect_parts (EffReconcile machine session epoch bindings) = None"

definition acknowledge ::
    "endpoint_op \<Rightarrow> binding_id \<Rightarrow> u64 \<Rightarrow> u64 \<Rightarrow> (unit, endpoint_error) result \<Rightarrow> world \<Rightarrow> world \<times> command option" where
  "acknowledge op binding fence session r w =
     (case r of
        Ok _ \<Rightarrow>
          (case op of
             OpPrepare \<Rightarrow> (w\<lparr>w_next_handle := w_next_handle w + 1\<rparr>,
               Some (RecordBindingPrepared binding session (w_next_handle w) fence))
           | OpActivate \<Rightarrow> (w, Some (RecordBindingActive binding session fence))
           | OpRelease \<Rightarrow> (w, Some (RecordBindingReleased binding session fence))
           | OpFence \<Rightarrow> (w, Some (RecordBindingFenced binding session fence)))
      | Err _ \<Rightarrow>
          if op = OpPrepare then (w, Some (RecordBindingFailed binding session ''endpoint rejected prepare'' fence))
          else (w, None))"

definition apply_effect :: "effect \<Rightarrow> world \<Rightarrow> world \<times> command option" where
  "apply_effect eff w =
     (case effect_parts eff of
        None \<Rightarrow> (w, None)
      | Some (op, binding, n, provider, fence, session, epoch) \<Rightarrow>
          (case machine_of (k_graph (w_cluster w)) n of
             None \<Rightarrow> (w, None)
           | Some machine \<Rightarrow>
               (case btree_get (w_agents w) machine of
                  None \<Rightarrow> (w, None)
                | Some agent \<Rightarrow>
                    if epoch < ag_epoch agent \<or> session \<noteq> ag_session agent then (w, None)
                    else
                      let w1 = (if epoch > ag_epoch agent
                                then w\<lparr>w_agents := btree_insert machine (agent\<lparr>ag_epoch := epoch\<rparr>) (w_agents w)\<rparr> else w);
                          ep = btree_get_or (endpoint_new provider n (ag_session agent)) (w_endpoints w1) (provider, n);
                          (ep', r) = endpoint_apply ep op binding fence session;
                          w2 = w1\<lparr>w_endpoints := btree_insert (provider, n) ep' (w_endpoints w1)\<rparr>
                      in acknowledge op binding fence session r w2)))"

text \<open>Reconciliation: one binding, then the endpoints that are open without a binding that justifies it.\<close>

definition provably_open :: "world \<Rightarrow> binding_id \<Rightarrow> binding \<Rightarrow> bool" where
  "provably_open w i b =
     (case btree_get (w_endpoints w) (b_provider b, b_node b) of
        None \<Rightarrow> False
      | Some ep \<Rightarrow> ep_open ep \<and> ep_binding ep = Some i \<and> ep_accepted_fence ep = b_fence b)"

definition lease_is_live :: "world \<Rightarrow> lease_id \<Rightarrow> bool" where
  "lease_is_live w i =
     (case btree_get (k_leases (w_cluster w)) i of
        None \<Rightarrow> False
      | Some l \<Rightarrow> l_state l = LReserved \<or> l_state l = LPreparing \<or> l_state l = LActive)"

definition reconcile_binding :: "u64 \<Rightarrow> u64 \<Rightarrow> binding_id \<Rightarrow> lease_id set \<Rightarrow> world \<Rightarrow> lease_id set in_world" where
  "reconcile_binding session epoch i failed_leases w =
     (case btree_get (k_bindings (w_cluster w)) i of
        None \<Rightarrow> (w, Ok failed_leases)
      | Some b \<Rightarrow>
          let lease_live = lease_is_live w (b_lease b);
              same = lease_live \<and> provably_open w i b
          in if same then
               and_in (commit (RebindSession i session) w) (\<lambda>w _.
                 let w1 = (if b_state b = BPreparing
                           then push_pending [EffPrepare i (b_node b) (b_provider b) (b_fence b) session epoch] w else w);
                     w2 = (if b_state b = BActive
                           then push_pending [EffActivate i (b_node b) (b_provider b) (b_fence b) session epoch] w1 else w1)
                 in (w2, Ok failed_leases))
             else if b_state b = BPreparing \<or> b_state b = BActive then
               if lease_live \<and> b_lease b \<notin> failed_leases then
                 and_in (world_apply (FailLease (b_lease b) ''reconciliation could not prove the binding'') w) (\<lambda>w _.
                   (w, Ok (insert (b_lease b) failed_leases)))
               else (push_pending [EffFence i (b_node b) (b_provider b) (b_fence b) session epoch] w, Ok failed_leases)
             else (w, Ok failed_leases))"

fun reconcile_bindings :: "u64 \<Rightarrow> u64 \<Rightarrow> binding_id list \<Rightarrow> lease_id set \<Rightarrow> world \<Rightarrow> unit in_world" where
  "reconcile_bindings session epoch [] failed_leases w = (w, Ok ())"
| "reconcile_bindings session epoch (i # is) failed_leases w =
     and_in (reconcile_binding session epoch i failed_leases w) (\<lambda>w failed_leases.
       reconcile_bindings session epoch is failed_leases w)"

definition stray_fence :: "world \<Rightarrow> node_id \<Rightarrow> u64 \<Rightarrow> u64 \<Rightarrow> (provider_id \<times> node_id) \<times> endpoint \<Rightarrow> effect option" where
  "stray_fence w machine session epoch = (\<lambda>((_, n), ep).
     if machine_of (k_graph (w_cluster w)) n \<noteq> Some machine \<or> \<not> ep_open ep then None
     else
       let expected = Option.bind (ep_binding ep) (btree_get (k_bindings (w_cluster w))) in
       if (case expected of None \<Rightarrow> True | Some b \<Rightarrow> \<not> (b_state b = BPreparing \<or> b_state b = BActive)) then
         map_option (\<lambda>binding. EffFence binding n (ep_provider ep) (ep_accepted_fence ep) session epoch) (ep_binding ep)
       else None)"

definition reconcile :: "node_id \<Rightarrow> u64 \<Rightarrow> u64 \<Rightarrow> binding_id list \<Rightarrow> world \<Rightarrow> unit in_world" where
  "reconcile machine session epoch bindings w =
     (case btree_get (w_agents w) machine of
        None \<Rightarrow> (w, Ok ())
      | Some agent \<Rightarrow>
          if epoch < ag_epoch agent then (w, Ok ())
          else
            let w1 = w\<lparr>w_agents := btree_insert machine (agent\<lparr>ag_epoch := epoch, ag_session := session\<rparr>) (w_agents w)\<rparr> in
            and_in (reconcile_bindings session epoch bindings {} w1) (\<lambda>w _.
              (push_pending (List.map_filter (stray_fence w machine session epoch) (btree_entries (w_endpoints w))) w, Ok ())))"

definition dispatch_effect :: "effect \<Rightarrow> world \<Rightarrow> unit in_world" where
  "dispatch_effect eff w =
     (case eff of
        EffReconcile machine session epoch bindings \<Rightarrow> reconcile machine session epoch bindings w
      | _ \<Rightarrow>
          (case apply_effect eff w of
             (w1, None) \<Rightarrow> (w1, Ok ())
           | (w1, Some command) \<Rightarrow>
               and_in (commit command w1) (\<lambda>w effects. (push_pending effects w, Ok ()))))"

definition deliver_one :: "world \<Rightarrow> bool in_world" where
  "deliver_one w =
     (case w_pending w of
        [] \<Rightarrow> (w, Ok False)
      | eff # rest \<Rightarrow>
          and_in (dispatch_effect eff (push_trace TrDeliver (w\<lparr>w_pending := rest\<rparr>))) (\<lambda>w _. (w, Ok True)))"

partial_function (option) deliver_all :: "world \<Rightarrow> unit in_world option" where
  "deliver_all w =
     (case deliver_one w of
        (w', Ok delivered) \<Rightarrow> if delivered then deliver_all w' else Some (w', Ok ())
      | (w', Err e) \<Rightarrow> Some (w', Err e))"

declare deliver_all.simps [code]

definition drop_one :: "world \<Rightarrow> world \<times> bool" where
  "drop_one w =
     (case w_pending w of
        [] \<Rightarrow> (w, False)
      | _ # rest \<Rightarrow> (push_trace TrDrop (w\<lparr>w_pending := rest\<rparr>), True))"

definition inject :: "effect \<Rightarrow> world \<Rightarrow> unit in_world" where
  "inject eff w = dispatch_effect eff w"

section \<open>The restart of the controller\<close>

definition replay_event :: "trace_event \<Rightarrow> cluster \<Rightarrow> (cluster, error) result" where
  "replay_event event c =
     (case event of
        TrCommand command \<Rightarrow> (case cluster_apply c command of (c', Ok _) \<Rightarrow> Ok c' | (_, Err e) \<Rightarrow> Err e)
      | TrSetNow now \<Rightarrow> Ok (set_now c now)
      | TrSetAgreement agreed \<Rightarrow> Ok (set_agreement c agreed)
      | TrAdvanceEpoch \<Rightarrow> Ok (advance_epoch c)
      | _ \<Rightarrow> Ok c)"

definition replay_trace :: "world \<Rightarrow> (cluster, error) result" where
  "replay_trace w = try_fold replay_event (w_trace w) cluster_new"

definition restart_controller :: "world \<Rightarrow> unit in_world" where
  "restart_controller w =
     (case replay_trace w of
        Err e \<Rightarrow> (w, Err e)
      | Ok c \<Rightarrow> (w\<lparr>w_cluster := c\<rparr>, Ok ()))"

section \<open>Leases\<close>

text \<open>\<^verbatim>\<open>(start..).zip(claims)\<close> numbers the bindings from \<open>start\<close>.\<close>

fun bind_claims :: "lease_id \<Rightarrow> u64 \<Rightarrow> claim list \<Rightarrow> binding_id list \<Rightarrow> world \<Rightarrow> binding_id list in_world" where
  "bind_claims lease binding [] bindings w = (w, Ok bindings)"
| "bind_claims lease binding (cl # claims) bindings w =
     (case claim_binding_for_quantity (k_graph (w_cluster w)) (c_node cl) (c_quantity cl) of
        Err e \<Rightarrow> (w, Err e)
      | Ok required \<Rightarrow>
          and_in (world_apply (OpenBinding binding lease (c_node cl) (cb_provider required) (cb_scope required)) w) (\<lambda>w _.
            bind_claims lease (binding + 1) claims (bindings @ [binding]) w))"

definition bind_enforced :: "lease_id \<Rightarrow> u64 \<Rightarrow> world \<Rightarrow> binding_id list in_world" where
  "bind_enforced lease start w =
     (case btree_get (k_leases (w_cluster w)) lease of
        None \<Rightarrow> (w, Err (UnknownLease lease))
      | Some l \<Rightarrow> bind_claims lease start (a_claims (l_allocation l)) [] w)"

text \<open>The last steps of admission and promotion: bind, then reserve a block of binding ids.\<close>

definition bind_next :: "lease_id \<Rightarrow> world \<Rightarrow> unit in_world" where
  "bind_next lease w =
     and_in (bind_enforced lease (w_next_binding w) w) (\<lambda>w _.
       (w\<lparr>w_next_binding := saturating_add (w_next_binding w) 32\<rparr>, Ok ()))"

definition dequeue :: "request_id \<Rightarrow> world \<Rightarrow> world" where
  "dequeue request w = w\<lparr>w_queue := filter (\<lambda>q. r_id (q_request q) \<noteq> request) (w_queue w)\<rparr>"

definition enqueue :: "request \<Rightarrow> owner_id \<Rightarrow> world \<Rightarrow> world" where
  "enqueue request owner w =
     w\<lparr>w_queue := w_queue w @ [\<lparr>q_request = request, q_owner = owner, q_submitted_at = k_now (w_cluster w)\<rparr>]\<rparr>"

definition open_admitted :: "lease_id \<Rightarrow> owner_id \<Rightarrow> admission \<Rightarrow> world \<Rightarrow> effect list in_world" where
  "open_admitted lease owner adm w =
     world_apply (OpenLease lease owner (ad_allocation adm) None
       (saturating_add (k_now (w_cluster w)) (r_lifetime (ad_request adm))) (saturating_add (k_now (w_cluster w)) 20)
       (r_priority (ad_request adm))) w"

definition admit_then_dequeue :: "admission option \<Rightarrow> lease_id \<Rightarrow> owner_id \<Rightarrow> world \<Rightarrow> request_id option in_world" where
  "admit_then_dequeue decision lease owner w =
     (case decision of
        None \<Rightarrow> (w, Ok None)
      | Some adm \<Rightarrow>
          and_in (open_admitted lease owner adm w) (\<lambda>w _.
          and_in (bind_next lease (dequeue (r_id (ad_request adm)) w)) (\<lambda>w _.
            (w, Ok (Some (r_id (ad_request adm)))))))"

definition admit_next :: "lease_id \<Rightarrow> owner_id \<Rightarrow> world \<Rightarrow> request_id option in_world" where
  "admit_next lease owner w = admit_then_dequeue (cluster_admit (w_cluster w) (w_queue w)) lease owner w"

definition admit_next_backfill :: "lease_id \<Rightarrow> owner_id \<Rightarrow> world \<Rightarrow> request_id option in_world" where
  "admit_next_backfill lease owner w =
     admit_then_dequeue (cluster_admit_backfill (w_cluster w) (w_queue w) btree_empty) lease owner w"

text \<open>This one removes the request before the lease is opened.\<close>

definition admit_next_with_ceiling :: "lease_id \<Rightarrow> owner_id \<Rightarrow> class_usage \<Rightarrow> world \<Rightarrow> request_id option in_world" where
  "admit_next_with_ceiling lease owner owner_ceiling w =
     (case cluster_admit_with_ceiling (w_cluster w) (w_queue w) owner_ceiling of
        None \<Rightarrow> (w, Ok None)
      | Some adm \<Rightarrow>
          and_in (open_admitted lease owner adm (dequeue (r_id (ad_request adm)) w)) (\<lambda>w _.
          and_in (bind_next lease w) (\<lambda>w _.
            (w, Ok (Some (r_id (ad_request adm)))))))"

definition set_health :: "node_id \<Rightarrow> string \<Rightarrow> world \<Rightarrow> unit in_world" where
  "set_health n health w = apply_unit (SetNodeHealth n health) w"

definition world_reserve :: "request \<Rightarrow> lease_id \<Rightarrow> owner_id \<Rightarrow> u64 \<Rightarrow> world \<Rightarrow> allocation in_world" where
  "world_reserve request lease owner expires_at w =
     (case allocate (w_cluster w) request of
        Err e \<Rightarrow> (w, Err e)
      | Ok allocation \<Rightarrow>
          and_in (world_apply (ReserveLease lease owner allocation expires_at (r_priority request)) w) (\<lambda>w _.
            (w, Ok allocation)))"

definition world_promote :: "lease_id \<Rightarrow> world \<Rightarrow> unit in_world" where
  "world_promote lease w =
     and_in (world_apply (PromoteLease lease (saturating_add (k_now (w_cluster w)) 20)) w) (\<lambda>w _. bind_next lease w)"

definition world_place ::
    "request \<Rightarrow> lease_id \<Rightarrow> owner_id \<Rightarrow> lease_id option \<Rightarrow> u64 \<Rightarrow> u64 \<Rightarrow> world \<Rightarrow> allocation in_world" where
  "world_place request lease owner parent expires_at prepare_deadline w =
     (case allocate (w_cluster w) request of
        Err e \<Rightarrow> (w, Err e)
      | Ok allocation \<Rightarrow>
          and_in (world_apply (OpenLease lease owner allocation parent expires_at prepare_deadline (r_priority request)) w)
            (\<lambda>w _. (w, Ok allocation)))"

definition world_activate_lease :: "lease_id \<Rightarrow> world \<Rightarrow> unit in_world" where
  "world_activate_lease lease w =
     and_in (world_apply (ActivateLease lease) w) (\<lambda>w _.
       each_in (\<lambda>binding. apply_unit (ActivateBinding binding)) (bindings_for (w_cluster w) lease) w)"

definition world_release_lease :: "lease_id \<Rightarrow> world \<Rightarrow> unit in_world" where
  "world_release_lease lease w = apply_unit (ReleaseLease lease) w"

definition world_revoke_lease :: "lease_id \<Rightarrow> world \<Rightarrow> unit in_world" where
  "world_revoke_lease lease w = apply_unit (RevokeLease lease) w"

definition preempt_for :: "request \<Rightarrow> world \<Rightarrow> lease_id list option in_world" where
  "preempt_for request w =
     (case preempt_victims (w_cluster w) request of
        None \<Rightarrow> (w, Ok None)
      | Some victims \<Rightarrow> and_in (each_in world_revoke_lease victims w) (\<lambda>w _. (w, Ok (Some victims))))"

definition machine_victims :: "cluster \<Rightarrow> node_id \<Rightarrow> lease_id list" where
  "machine_victims c machine =
     map l_id (filter (\<lambda>l. l_parent l = None \<and>
       list_ex (\<lambda>cl. machine_of (k_graph c) (c_node cl) = Some machine) (a_claims (l_allocation l)) \<and>
       occupies c (l_id l)) (btree_values (k_leases c)))"

definition fail_machine :: "node_id \<Rightarrow> world \<Rightarrow> lease_id list in_world" where
  "fail_machine machine w =
     (case graph_node (k_graph (w_cluster w)) machine of
        None \<Rightarrow> (w, Err (UnknownNode machine))
      | Some n \<Rightarrow>
          if n_kind n \<noteq> Machine then (w, Err (Invalid ''fail_machine requires a machine node''))
          else
            and_in (world_apply (QuarantineNode machine) w) (\<lambda>w _.
              let victims = machine_victims (w_cluster w) machine in
              and_in (each_in world_revoke_lease victims w) (\<lambda>w _.
                (w\<lparr>w_agents := btree_remove machine (w_agents w)\<rparr>, Ok victims))))"

definition unquarantine_machine :: "node_id \<Rightarrow> world \<Rightarrow> unit in_world" where
  "unquarantine_machine machine w = apply_unit (UnquarantineNode machine) w"

definition expire_due :: "world \<Rightarrow> unit in_world" where
  "expire_due w =
     each_in (\<lambda>lease. apply_unit (ExpireLease lease))
       (map l_id (filter (\<lambda>l. (l_state l = LPreparing \<or> l_state l = LActive \<or> l_state l = LReserved) \<and>
          k_now (w_cluster w) \<ge> l_expires_at l) (btree_values (k_leases (w_cluster w))))) w"

definition fail_late_prepares :: "world \<Rightarrow> unit in_world" where
  "fail_late_prepares w =
     each_in (\<lambda>lease. apply_unit (FailLease lease ''prepare_deadline''))
       (map l_id (filter (\<lambda>l. l_state l = LPreparing \<and> k_now (w_cluster w) \<ge> l_prepare_deadline l)
          (btree_values (k_leases (w_cluster w))))) w"

definition world_digest :: "world \<Rightarrow> digest" where
  "world_digest w = cluster_digest (w_cluster w)"

end
