(* ===== verification/Cluster_Effects.thy ===== *)
theory Cluster_Effects
  imports Sim_World Cluster_Commands
begin

text \<open>
  What the commands of the cluster send out and what they close. An effect is \<open>issued\<close> when it names a binding of the
  cluster with the node, provider and fence of that binding. Every effect of every accepted command is issued, and no
  command but the acknowledgement of a release or fence closes a binding.
\<close>

section \<open>Issued effects\<close>

definition issued :: "cluster \<Rightarrow> effect \<Rightarrow> bool" where
  "issued c eff =
     (case effect_parts eff of
        None \<Rightarrow> True
      | Some (op, i, n, provider, fence, session, epoch) \<Rightarrow>
          (\<exists>b. btree_get (k_bindings c) i = Some b \<and> b_node b = n \<and> b_provider b = provider \<and> b_fence b = fence))"

definition closed_in :: "cluster \<Rightarrow> binding_id \<Rightarrow> bool" where
  "closed_in c i \<longleftrightarrow> (\<exists>b. btree_get (k_bindings c) i = Some b \<and> is_closed (b_state b))"

definition ids_named :: "cluster \<Rightarrow> bool" where
  "ids_named c \<longleftrightarrow> (\<forall>i b. btree_get (k_bindings c) i = Some b \<longrightarrow> b_id b = i)"

fun is_fence :: "effect \<Rightarrow> bool" where
  "is_fence (EffFence i n provider fence session epoch) = True"
| "is_fence _ = False"

lemma inv_ids_named: "cluster_inv c \<Longrightarrow> ids_named c"
  by (auto simp: cluster_inv_def bindings_ok_def ids_named_def)

lemma issued_cong:
  assumes "k_bindings c' = k_bindings c"
  shows "issued c' eff = issued c eff"
  unfolding issued_def assms ..

lemma closed_in_cong: "k_bindings c' = k_bindings c \<Longrightarrow> closed_in c' i = closed_in c i"
  by (simp add: closed_in_def)

lemma binding_effect_issued:
  assumes "btree_get (k_bindings c') (b_id b) = Some b'" and "b_node b' = b_node b" and "b_provider b' = b_provider b"
    and "b_fence b' = b_fence b" and "kind \<in> {EffPrepare, EffActivate, EffRelease, EffFence}"
  shows "issued c' (binding_effect c b kind)"
  using assms by (auto simp: issued_def binding_effect_def Let_def)

lemma fence_effects_issued:
  assumes "ids_named c'" and "k_bindings c = k_bindings c'" and "eff \<in> set (fence_effects c l)"
  shows "issued c' eff"
  using assms by (auto simp: fence_effects_def ids_named_def intro!: binding_effect_issued)

lemma release_effects_issued:
  assumes "ids_named c'" and "k_bindings c = k_bindings c'" and "eff \<in> set (release_effects c l)"
  shows "issued c' eff"
  using assms by (auto simp: release_effects_def ids_named_def intro!: binding_effect_issued)

lemma fence_effects_fences: "eff \<in> set (fence_effects c l) \<Longrightarrow> is_fence eff"
  by (auto simp: fence_effects_def binding_effect_def Let_def)

section \<open>Ending leases\<close>

text \<open>The loops over descendants leave everything but the leases alone and collect fences.\<close>

definition fences_of :: "cluster \<Rightarrow> effect set" where
  "fences_of c = (\<Union>l. set (fence_effects c l))"

lemma fences_of_leases: "fence_effects (c\<lparr>k_leases := L\<rparr>) l = fence_effects c l"
  by (rule fence_effects_cong) simp_all

lemma end_descendants_fences:
  "\<exists>L effects. end_descendants kept final ds c = (c\<lparr>k_leases := L\<rparr>, effects) \<and> set effects \<subseteq> fences_of c"
proof (induction ds rule: rev_induct)
  case Nil
  have "end_descendants kept final [] c = (c\<lparr>k_leases := k_leases c\<rparr>, [])" by (simp add: end_descendants_def)
  then show ?case by (intro exI [of _ "k_leases c"] exI [of _ "[]"]) simp
next
  case (snoc d ds)
  then obtain L effects where "end_descendants kept final ds c = (c\<lparr>k_leases := L\<rparr>, effects)" "set effects \<subseteq> fences_of c"
    by blast
  then show ?case
    by (auto simp: end_descendants_def end_lease_ended Let_def fences_of_leases fences_of_def)
qed

lemma revoke_loop_fences:
  "\<exists>L effects. fold (\<lambda>d (c, effects).
       case btree_get (k_leases c) d of
         None \<Rightarrow> (c, effects)
       | Some l \<Rightarrow> let c' = end_lease kept final d c in (c', effects @ fence_effects c' d))
     ds (c, []) = (c\<lparr>k_leases := L\<rparr>, effects) \<and> set effects \<subseteq> fences_of c"
    (is "\<exists>L effects. fold ?f ds _ = _ \<and> _")
proof (induction ds rule: rev_induct)
  case Nil
  have "fold ?f [] (c, []) = (c\<lparr>k_leases := k_leases c\<rparr>, [])" by simp
  then show ?case by (intro exI [of _ "k_leases c"] exI [of _ "[]"]) simp
next
  case (snoc d ds)
  then obtain L effects where run: "fold ?f ds (c, []) = (c\<lparr>k_leases := L\<rparr>, effects)" "set effects \<subseteq> fences_of c"
    by blast
  show ?case
  proof (cases "btree_get L d")
    case None
    with run show ?thesis by (intro exI [of _ L]) simp
  next
    case (Some l)
    with run show ?thesis by (auto simp: end_lease_ended Let_def fences_of_leases fences_of_def)
  qed
qed

definition only_fences :: "cluster \<Rightarrow> outcome \<Rightarrow> bool" where
  "only_fences c out \<longleftrightarrow> (\<exists>L. fst out = c\<lparr>k_leases := L\<rparr>) \<and> (\<forall>effects. snd out = Ok effects \<longrightarrow> set effects \<subseteq> fences_of c)"

lemma only_fencesI: "set effects \<subseteq> fences_of c \<Longrightarrow> only_fences c (c\<lparr>k_leases := L\<rparr>, Ok effects)"
  by (auto simp: only_fences_def)

lemma only_fences_err: "only_fences c (c\<lparr>k_leases := L\<rparr>, Err e)" "only_fences c (c, Err e)"
proof -
  have "\<exists>L. c = c\<lparr>k_leases := L\<rparr>" by (rule exI [of _ "k_leases c"]) simp
  then show "only_fences c (c, Err e)" by (simp add: only_fences_def)
qed (auto simp: only_fences_def)

lemma only_fences_same: "set effects \<subseteq> fences_of c \<Longrightarrow> only_fences c (c, Ok effects)"
  using only_fencesI [of effects c "k_leases c"] by simp

lemma fence_effects_sub: "set (fence_effects c l) \<subseteq> fences_of c"
  by (auto simp: fences_of_def)

lemmas only_fences_intros = only_fencesI only_fences_err only_fences_same

lemma fail_lease_fences: "only_fences c (fail_lease c i r)"
proof -
  obtain L pre where "end_descendants closed_states LFailed (descendants_postorder c i) c = (c\<lparr>k_leases := L\<rparr>, pre)"
      "set pre \<subseteq> fences_of c"
    using end_descendants_fences by blast
  then show ?thesis
    by (cases "btree_get L i") (auto simp: fail_lease_def Let_def fences_of_leases fence_effects_sub intro!: only_fences_intros
        dest: subsetD [OF fence_effects_sub])
qed

lemma revoke_lease_fences: "only_fences c (revoke_lease c i)"
proof -
  obtain L pre where run: "fold (\<lambda>d (c, effects).
       case btree_get (k_leases c) d of
         None \<Rightarrow> (c, effects)
       | Some l \<Rightarrow> let c' = end_lease closed_states LRevoked d c in (c', effects @ fence_effects c' d))
     (descendants_postorder c i) (c, []) = (c\<lparr>k_leases := L\<rparr>, pre)" "set pre \<subseteq> fences_of c"
    using revoke_loop_fences by blast
  show ?thesis unfolding revoke_lease_def run(1)
    using run(2) by (cases "btree_get L i") (auto simp: Let_def end_lease_ended fences_of_leases intro!: only_fences_intros
        dest: subsetD [OF fence_effects_sub])
qed

lemma expire_lease_fences: "only_fences c (expire_lease c i)"
proof -
  obtain L pre where "end_descendants closed_states LExpired (descendants_postorder c i) c = (c\<lparr>k_leases := L\<rparr>, pre)"
      "set pre \<subseteq> fences_of c"
    using end_descendants_fences by blast
  then show ?thesis
    by (cases "btree_get (k_leases c) i"; cases "btree_get L i")
      (auto simp: expire_lease_def Let_def fences_of_leases intro!: only_fences_intros dest: subsetD [OF fence_effects_sub])
qed

lemma complete_lease_fences: "only_fences c (complete_lease c i code)"
proof -
  let ?final = "if code = 0 then LCompleted else LFailed"
  obtain L pre where run: "end_descendants (closed_states @ [LCompleted]) ?final (descendants_postorder c i) c =
      (c\<lparr>k_leases := L\<rparr>, pre)" "set pre \<subseteq> fences_of c"
    using end_descendants_fences by blast
  show ?thesis unfolding complete_lease_def Let_def run(1)
    using run(2) by (cases "btree_get (k_leases c) i"; cases "btree_get L i")
      (auto simp: Let_def fences_of_leases intro!: only_fences_intros dest: subsetD [OF fence_effects_sub])
qed

section \<open>All commands\<close>

definition emits :: "cluster \<Rightarrow> outcome \<Rightarrow> bool" where
  "emits c out \<longleftrightarrow>
     (\<forall>i. closed_in (fst out) i \<longrightarrow> closed_in c i) \<and>
     (\<forall>effects. snd out = Ok effects \<longrightarrow> (\<forall>eff\<in>set effects. issued (fst out) eff))"

named_theorems emit_intros \<open>operations that close nothing and send issued effects\<close>

lemma emits_err [emit_intros]: "k_bindings c' = k_bindings c \<Longrightarrow> emits c (c', Err e)"
  by (simp add: emits_def closed_in_def)

lemma emits_silent [emit_intros]: "k_bindings c' = k_bindings c \<Longrightarrow> emits c (c', Ok [])"
  by (simp add: emits_def closed_in_def)

lemma emits_on_ok [emit_intros]:
  "k_bindings c1 = k_bindings c \<Longrightarrow> (\<And>x. r = Ok x \<Longrightarrow> emits c (k x)) \<Longrightarrow> emits c (on_ok r c1 k)"
  by (cases r) (simp_all add: emits_err)

lemma emits_unless [emit_intros]: "emits c k \<Longrightarrow> emits c (unless_error o1 c k)"
  by (cases o1) (simp_all add: emits_err)

lemma emits_if [emit_intros]: "(b \<Longrightarrow> emits c x) \<Longrightarrow> (\<not> b \<Longrightarrow> emits c y) \<Longrightarrow> emits c (if b then x else y)"
  by simp

lemma emits_option [emit_intros]:
  "(o1 = None \<Longrightarrow> emits c x) \<Longrightarrow> (\<And>a. o1 = Some a \<Longrightarrow> emits c (f a)) \<Longrightarrow>
     emits c (case o1 of None \<Rightarrow> x | Some a \<Rightarrow> f a)"
  by (cases o1) simp_all

lemma only_fences_emits:
  assumes ids: "ids_named c" and out: "only_fences c out"
  shows "emits c out"
proof -
  from out obtain L where L: "fst out = c\<lparr>k_leases := L\<rparr>" by (auto simp: only_fences_def)
  have "issued (fst out) eff" if "snd out = Ok effects" "eff \<in> set effects" for effects eff
  proof -
    from out that obtain l where "eff \<in> set (fence_effects c l)" by (auto simp: only_fences_def fences_of_def)
    with ids show ?thesis by (intro fence_effects_issued [where c = c and l = l]) (simp_all add: L ids_named_def)
  qed
  then show ?thesis by (simp add: emits_def L closed_in_def)
qed

lemma emits_effect [emit_intros]:
  assumes "k_bindings c' = k_bindings c" and "btree_get (k_bindings c) (b_id b) = Some b"
    and "kind \<in> {EffPrepare, EffActivate, EffRelease, EffFence}"
  shows "emits c (c', Ok [binding_effect c1 b kind])"
  using assms by (auto simp: emits_def closed_in_def intro!: binding_effect_issued)

text \<open>One binding changes: it stays what it binds, is not closed, and the effect sent, if any, is its own.\<close>

lemma emits_binding:
  assumes "btree_get (k_bindings c) i = Some b" and "k_bindings c' = btree_insert i b' (k_bindings c)"
    and "is_closed (b_state b') \<longrightarrow> is_closed (b_state b)" and "ids_named c" and "b_id b' = i"
    and "b_node b' = b_node b" and "b_provider b' = b_provider b" and "b_fence b' = b_fence b"
    and "effects = [] \<or> (\<exists>kind c1. kind \<in> {EffPrepare, EffActivate, EffRelease, EffFence} \<and>
      (effects = [binding_effect c1 b kind] \<or> effects = [binding_effect c1 b' kind]))"
  shows "emits c (c', Ok effects)"
proof -
  have "b_id b = i" using assms(1,4) by (simp add: ids_named_def)
  then have "issued c' eff" if "eff \<in> set effects" for eff
    using assms that by (auto intro!: binding_effect_issued)
  moreover have "closed_in c j" if "closed_in c' j" for j
    using that assms(1-3) by (auto simp: closed_in_def split: if_splits)
  ultimately show ?thesis by (simp add: emits_def)
qed

lemma graph_commands_emit:
  "emits c (apply_graph c ns es)" "emits c (apply_resource_facts c ns es us)"
  "emits c (apply_provider_facts c bs us)" "emits c (adopt_fact_writers c as)"
  "emits c (reserve_lease c i owner alloc ex pr)" "emits c (promote_lease c i d)"
  "emits c (open_lease c i owner alloc parent ex d pr)" "emits c (activate_lease c i)" "emits c (renew_lease c i ex)"
  "emits c (set_node_state c n s)" "emits c (set_node_health c n hl)" "emits c (advance_endpoint_fence c n p f)"
  "emits c (quarantine_node c n)" "emits c (unquarantine_node c n)"
  unfolding apply_graph_def apply_resource_facts_def apply_provider_facts_def adopt_fact_writers_def
    install_resource_graph_def reserve_lease_def promote_lease_def open_lease_def activate_lease_def renew_lease_def
    quarantine_node_def unquarantine_node_def set_node_state_def set_node_health_def advance_endpoint_fence_def
    Let_def case_prod_beta
  by (intro emit_intros; simp)+

lemma release_lease_emits: "ids_named c \<Longrightarrow> emits c (release_lease c i)"
  by (cases "btree_get (k_leases c) i")
    (auto simp: release_lease_def emits_def closed_in_def Let_def ids_named_def intro!: release_effects_issued [where l = i])

lemma set_agent_session_emits: "emits c (set_agent_session c machine session)"
  unfolding set_agent_session_def Let_def
  by (intro emit_intros; simp add: emits_def closed_in_def issued_def)

lemma binding_commands_emit:
  assumes ids: "ids_named c"
  shows "emits c (activate_binding c i)" "emits c (fence_binding c i)" "emits c (fail_binding c i r)"
    "emits c (release_binding c i)" "emits c (record_prepared c i ss h f)" "emits c (record_active c i ss f)"
    "emits c (rebind_session c i ss)"
proof -
  have get: "btree_get (k_bindings c) (b_id b) = Some b" "btree_modify i g (k_bindings c) = btree_insert i (g b) (k_bindings c)"
      "b_id b = i"
    if "ok_or (btree_get (k_bindings c) i) e = Ok b" for b e g
    using ids ok_or_OkD [OF that] by (auto simp: ids_named_def btree_modify_Some)
  note flow = emits_err emits_on_ok emits_if
  note leaf = get emits_silent emits_effect
  show "emits c (activate_binding c i)" unfolding activate_binding_def
    by (intro flow; (simp add: leaf)?; rule emits_binding, assumption, simp, auto simp: get ids is_closed_def)
  show "emits c (fence_binding c i)" unfolding fence_binding_def
    by (intro flow; simp add: leaf)
  show "emits c (release_binding c i)" unfolding release_binding_def
    by (intro flow; simp add: leaf)
  show "emits c (fail_binding c i r)" unfolding fail_binding_def Let_def
    by (simp cong: if_cong; intro flow; (simp add: leaf)?; rule emits_binding, assumption, simp, auto simp: get ids is_closed_def)
  show "emits c (record_prepared c i ss h f)" unfolding record_prepared_def
    by (intro flow; (simp add: leaf)?; rule emits_binding, assumption, simp, auto simp: get ids is_closed_def)
  show "emits c (record_active c i ss f)" unfolding record_active_def
    by (intro flow; (simp add: leaf)?; rule emits_binding, assumption, simp, auto simp: get ids is_closed_def)
  show "emits c (rebind_session c i ss)" unfolding rebind_session_def
    by (intro flow; (simp add: leaf)?; rule emits_binding, assumption, simp, auto simp: get ids is_closed_def)
qed

lemma open_binding_emits:
  assumes ids: "ids_named c"
  shows "emits c (open_binding c i l n provider scope)"
proof (cases "btree_get (k_bindings c) i")
  case (Some b)
  with ids show ?thesis
    by (simp add: open_binding_def emits_silent emits_err emits_effect ids_named_def)
next
  case None
  have new: "emits c (c', Ok [binding_effect c1 b EffPrepare])"
    if "k_bindings c' = btree_insert i b (k_bindings c)" "b_id b = i" "b_state b = BPreparing" for c' c1 b
    using that None by (auto simp: emits_def closed_in_def is_closed_def intro!: binding_effect_issued split: if_splits)
  show ?thesis unfolding open_binding_def None Let_def option.case
    by (intro emits_err emits_on_ok emits_if emits_option; simp?; cases scope; simp; rule new; simp)
qed

lemma record_failed_emits:
  assumes ids: "ids_named c"
  shows "emits c (record_failed c i ss r f)"
proof -
  have "emits c (end_lease closed_states LFailed l (c\<lparr>k_bindings := btree_insert i b' (k_bindings c)\<rparr>),
      Ok (fence_effects (end_lease closed_states LFailed l (c\<lparr>k_bindings := btree_insert i b' (k_bindings c)\<rparr>)) l))"
    if "btree_get (k_bindings c) i = Some b" "is_closed (b_state b') \<longrightarrow> is_closed (b_state b)" "b_id b' = i" for b b' l
    using that ids
    by (auto simp: emits_def closed_in_def end_lease_def ids_named_def split: if_splits intro!: fence_effects_issued [where l = l])
  note ended = this
  show ?thesis
  proof (cases "btree_get (k_bindings c) i")
    case None
    then show ?thesis by (simp add: record_failed_def emits_err)
  next
    case (Some b)
    let ?b = "if is_closed (b_state b) then b\<lparr>b_agent_session := ss\<rparr> else b\<lparr>b_agent_session := ss, b_state := BFailed\<rparr>"
    have b: "is_closed (b_state ?b) \<longrightarrow> is_closed (b_state b)" "b_id ?b = i"
      using ids Some by (auto simp: ids_named_def Let_def is_closed_def)
    have err: "emits c (c\<lparr>k_bindings := btree_insert i ?b (k_bindings c)\<rparr>, Err e)" for e
      using Some b(1) by (auto simp: emits_def closed_in_def split: if_splits)
    show ?thesis
      by (cases "is_closed (b_state b)"; cases "btree_get (k_leases c) (b_lease b)"; cases "require_session c (b_node b) ss"; cases "require_fence i (b_fence b) f")
        (use ended [OF Some b] err in \<open>simp_all add: record_failed_def Some btree_modify_Some emits_err Let_def cong: if_cong\<close>)
  qed
qed

text \<open>Every command but the two acknowledgements that close a binding.\<close>

definition closes :: "command \<Rightarrow> binding_id option" where
  "closes cmd =
     (case cmd of
        RecordBindingReleased i session fence \<Rightarrow> Some i
      | RecordBindingFenced i session fence \<Rightarrow> Some i
      | _ \<Rightarrow> None)"

lemma dispatch_emits:
  assumes "ids_named c" and "closes cmd = None"
  shows "emits c (dispatch c cmd)"
proof -
  note ended = fail_lease_fences revoke_lease_fences expire_lease_fences complete_lease_fences
  note emit = graph_commands_emit release_lease_emits set_agent_session_emits binding_commands_emit open_binding_emits
    record_failed_emits ended [THEN only_fences_emits [OF assms(1)]]
  show ?thesis using assms(2) by (cases cmd) (simp_all add: emit assms(1) closes_def)
qed

lemma dispatch_closes:
  assumes "closes cmd = Some i" and "dispatch c cmd = (c', Ok effects)"
  shows "effects = []" and "closed_in c' j \<Longrightarrow> closed_in c j \<or> j = i"
    and "\<exists>session fence b. ack_of cmd = Some (i, session, fence) \<and> btree_get (k_bindings c) i = Some b \<and> b_fence b = fence"
proof -
  from assms(1) consider session fence where "cmd = RecordBindingReleased i session fence"
    | session fence where "cmd = RecordBindingFenced i session fence"
    by (cases cmd) (auto simp: closes_def)
  then show "effects = []" "closed_in c' j \<Longrightarrow> closed_in c j \<or> j = i"
    "\<exists>session fence b. ack_of cmd = Some (i, session, fence) \<and> btree_get (k_bindings c) i = Some b \<and> b_fence b = fence"
    using assms(2)
    by (cases; auto simp: record_released_def record_fenced_def op_simps closed_in_def)+
qed

text \<open>What an acknowledgement or a failure sends: nothing, or fences.\<close>

lemma ack_effects:
  assumes "dispatch c cmd = (c', Ok effects)" and "ack_of cmd \<noteq> None" and "eff \<in> set effects"
  shows "is_fence eff" and "\<exists>i session reason fence. cmd = RecordBindingFailed i session reason fence"
  using assms fence_effects_fences
  by (cases cmd; auto simp: record_prepared_def record_active_def record_released_def record_fenced_def record_failed_def
      op_simps Let_def split: if_splits)+

lemma rebind_effects: "dispatch c (RebindSession i session) = (c', Ok effects) \<Longrightarrow> effects = []"
  by (auto simp: rebind_session_def op_simps)

lemma fail_effects:
  assumes "dispatch c (FailLease i reason) = (c', Ok effects)" and "eff \<in> set effects"
  shows "is_fence eff"
proof -
  from assms fail_lease_fences [of c i reason] have "eff \<in> fences_of c" by (auto simp: only_fences_def)
  then show ?thesis by (auto simp: fences_of_def intro: fence_effects_fences)
qed

end
