(* ===== verification/World_Invariant.thy ===== *)
theory World_Invariant
  imports Cluster_Effects
begin

text \<open>
  The invariant that ties the controller to the machines. Effects on the way, and effects sent earlier, name bindings of the
  cluster; an endpoint that is open holds a binding of the cluster on its own resource with its own fence; a binding the
  cluster counts as closed is closed at its endpoint; and the committed trace rebuilds the cluster. The theory shows that
  every operation of the world keeps it. \<open>kept\<close> and its introduction rules follow the control flow of an operation.
\<close>

section \<open>The invariant\<close>

definition endpoint_ok :: "cluster \<Rightarrow> provider_id \<times> node_id \<Rightarrow> endpoint \<Rightarrow> bool" where
  "endpoint_ok c key ep \<longleftrightarrow>
     (ep_provider ep, ep_node ep) = key \<and> endpoint_wf ep \<and>
     (\<forall>i. ep_binding ep = Some i \<longrightarrow> (\<exists>b. btree_get (k_bindings c) i = Some b \<and> (b_provider b, b_node b) = key \<and>
        b_fence b = ep_accepted_fence ep))"

definition settled :: "(provider_id \<times> node_id, endpoint) btree \<Rightarrow> binding \<Rightarrow> bool" where
  "settled eps b \<longleftrightarrow> (\<exists>ep. btree_get eps (b_provider b, b_node b) = Some ep \<and> generation_closed (b_fence b) ep)"

definition world_inv :: "effect set \<Rightarrow> world \<Rightarrow> bool" where
  "world_inv S w \<longleftrightarrow>
     cluster_inv (w_cluster w) \<and>
     replay_trace w = Ok (w_cluster w) \<and>
     (\<forall>eff\<in>S \<union> set (w_pending w). issued (w_cluster w) eff) \<and>
     (\<forall>key ep. btree_get (w_endpoints w) key = Some ep \<longrightarrow> endpoint_ok (w_cluster w) key ep) \<and>
     (\<forall>i b. btree_get (k_bindings (w_cluster w)) i = Some b \<longrightarrow> is_closed (b_state b) \<longrightarrow> settled (w_endpoints w) b)"

lemma world_invD:
  assumes "world_inv S w"
  shows "cluster_inv (w_cluster w)" and "replay_trace w = Ok (w_cluster w)"
    and "eff \<in> S \<Longrightarrow> issued (w_cluster w) eff" and "eff \<in> set (w_pending w) \<Longrightarrow> issued (w_cluster w) eff"
    and "btree_get (w_endpoints w) key = Some ep \<Longrightarrow> endpoint_ok (w_cluster w) key ep"
    and "btree_get (k_bindings (w_cluster w)) i = Some b \<Longrightarrow> is_closed (b_state b) \<Longrightarrow> settled (w_endpoints w) b"
  using assms unfolding world_inv_def by blast+

text \<open>What the invariant does not look at.\<close>

lemma world_inv_fields [simp]:
  "world_inv S (w\<lparr>w_agents := agents\<rparr>) = world_inv S w"
  "world_inv S (w\<lparr>w_next_session := session\<rparr>) = world_inv S w"
  "world_inv S (w\<lparr>w_next_handle := handle\<rparr>) = world_inv S w"
  "world_inv S (w\<lparr>w_queue := queue\<rparr>) = world_inv S w"
  "world_inv S (w\<lparr>w_next_binding := binding\<rparr>) = world_inv S w"
  by (simp_all add: world_inv_def replay_trace_def)

lemma world_inv_trace:
  "replay_event event (w_cluster w) = Ok (w_cluster w) \<Longrightarrow> world_inv S w \<Longrightarrow> world_inv S (push_trace event w)"
  by (auto simp: world_inv_def push_trace_def replay_trace_def result_simps)

lemma world_inv_pending:
  "world_inv S w \<Longrightarrow> (\<And>eff. eff \<in> set effects \<Longrightarrow> issued (w_cluster w) eff) \<Longrightarrow> world_inv S (push_pending effects w)"
  by (auto simp: world_inv_def push_pending_def replay_trace_def)

lemma world_inv_rest: "world_inv S w \<Longrightarrow> set rest \<subseteq> set (w_pending w) \<Longrightarrow> world_inv S (w\<lparr>w_pending := rest\<rparr>)"
  by (auto simp: world_inv_def replay_trace_def)

lemma world_inv_sent: "world_inv S w \<Longrightarrow> world_inv (S \<union> set (w_pending w)) w"
  by (auto simp: world_inv_def)

text \<open>Endpoints may move as long as closed generations stay closed.\<close>

definition endpoints_advance ::
    "(provider_id \<times> node_id, endpoint) btree \<Rightarrow> (provider_id \<times> node_id, endpoint) btree \<Rightarrow> bool" where
  "endpoints_advance eps eps' \<longleftrightarrow>
     (\<forall>key ep. btree_get eps key = Some ep \<longrightarrow>
        (\<exists>ep'. btree_get eps' key = Some ep' \<and> (\<forall>fence. generation_closed fence ep \<longrightarrow> generation_closed fence ep')))"

lemma settled_advance: "endpoints_advance eps eps' \<Longrightarrow> settled eps b \<Longrightarrow> settled eps' b"
  unfolding endpoints_advance_def settled_def by blast

lemma world_inv_endpoints:
  assumes "world_inv S w" and "endpoints_advance (w_endpoints w) eps"
    and "\<And>key ep. btree_get eps key = Some ep \<Longrightarrow> endpoint_ok (w_cluster w) key ep"
  shows "world_inv S (w\<lparr>w_endpoints := eps\<rparr>)"
  using assms settled_advance [OF assms(2)] by (simp add: world_inv_def replay_trace_def)

lemma endpoints_advance_insert:
  assumes "\<And>ep fence. btree_get eps key = Some ep \<Longrightarrow> generation_closed fence ep \<Longrightarrow> generation_closed fence ep'"
  shows "endpoints_advance eps (btree_insert key ep' eps)"
  using assms by (auto simp: endpoints_advance_def)

lemma endpoint_ok_new: "endpoint_ok c key (endpoint_new (fst key) (snd key) session)"
  by (simp add: endpoint_ok_def endpoint_wf_new) (simp add: endpoint_new_def)

lemma endpoint_ok_handshake: "endpoint_ok c key ep \<Longrightarrow> endpoint_ok c key (endpoint_handshake ep session)"
  by (auto simp: endpoint_ok_def endpoint_handshake_def endpoint_wf_def)

lemma generation_closed_handshake: "generation_closed fence ep \<Longrightarrow> generation_closed fence (endpoint_handshake ep session)"
  using generation_closed_step [of fence ep "Handshake session"] by simp

section \<open>Commands\<close>

lemma issued_next:
  assumes "issued c eff" and "\<And>i b. btree_get (k_bindings c) i = Some b \<Longrightarrow>
    \<exists>b'. btree_get (k_bindings c') i = Some b' \<and> binding_next b b'"
  shows "issued c' eff"
  using assms by (fastforce simp: issued_def binding_next_def split: option.splits prod.splits)

lemma endpoint_ok_next:
  assumes "endpoint_ok c key ep" and "\<And>i b. btree_get (k_bindings c) i = Some b \<Longrightarrow>
    \<exists>b'. btree_get (k_bindings c') i = Some b' \<and> binding_next b b'"
  shows "endpoint_ok c' key ep"
  using assms by (fastforce simp: endpoint_ok_def binding_next_def)

lemma settled_same:
  "b_provider b' = b_provider b \<Longrightarrow> b_node b' = b_node b \<Longrightarrow> b_fence b' = b_fence b \<Longrightarrow> settled eps b' = settled eps b"
  by (simp add: settled_def)

lemma commit_kept:
  assumes inv: "world_inv S w"
    and ack: "\<And>i session fence b. closes cmd = Some i \<Longrightarrow> ack_of cmd = Some (i, session, fence) \<Longrightarrow>
      btree_get (k_bindings (w_cluster w)) i = Some b \<Longrightarrow> b_fence b = fence \<Longrightarrow> settled (w_endpoints w) b"
    and out: "commit cmd w = (w', r)"
  shows "world_inv S w'" and "r = Ok effects \<Longrightarrow> eff \<in> set effects \<Longrightarrow> issued (w_cluster w') eff"
proof -
  let ?c = "w_cluster w"
  note parts = world_invD [OF inv]
  obtain c' where app: "cluster_apply ?c cmd = (c', r)"
    using out by (auto simp: commit_def push_trace_def split: prod.splits result.splits)
  have "world_inv S w' \<and> (\<forall>effects eff. r = Ok effects \<longrightarrow> eff \<in> set effects \<longrightarrow> issued (w_cluster w') eff)"
  proof (cases r)
    case (Err e)
    then have "dispatch ?c cmd = (c', Err e)" using app by (auto simp: cluster_apply_def split: prod.splits result.splits)
    then have "c' = ?c" using dispatch_sound [OF parts(1), of cmd] by (simp add: sound_def)
    with out app Err inv show ?thesis by (auto simp: commit_def)
  next
    case (Ok effects)
    with app obtain m where m: "dispatch ?c cmd = (m, Ok effects)" and c': "c' = m\<lparr>k_log := k_log m @ [cmd]\<rparr>"
      by (auto simp: op_simps)
    have w': "w' = push_trace (TrCommand cmd) (w\<lparr>w_cluster := c'\<rparr>)" using out app Ok by (simp add: commit_def)
    have keep: "\<exists>b'. btree_get (k_bindings c') i = Some b' \<and> binding_next b b'"
      if "btree_get (k_bindings ?c) i = Some b" for i b
      using step_event_bindings [OF parts(1) that, of "EvApply cmd"] app by simp
    have settled: "settled (w_endpoints w) b'"
      if b': "btree_get (k_bindings c') i = Some b'" "is_closed (b_state b')" for i b'
    proof -
      have cl: "closed_in m i" using b' by (auto simp: closed_in_def c')
      have "\<exists>b. btree_get (k_bindings ?c) i = Some b \<and> settled (w_endpoints w) b"
      proof (cases "closed_in ?c i")
        case True
        then show ?thesis using parts(6) by (auto simp: closed_in_def)
      next
        case False
        with cl dispatch_emits [OF inv_ids_named [OF parts(1)], of cmd] m obtain j where j: "closes cmd = Some j"
          by (cases "closes cmd") (auto simp: emits_def)
        from dispatch_closes [OF j m] ack [OF j] cl False show ?thesis by blast
      qed
      then obtain b where "btree_get (k_bindings ?c) i = Some b" and s: "settled (w_endpoints w) b" by blast
      with keep b'(1) have "binding_next b b'" by fastforce
      with s show ?thesis using settled_same [of b' b] by (simp add: binding_next_def)
    qed
    have trace: "replay_trace w' = Ok c'"
      using parts(2) app Ok by (auto simp: w' push_trace_def replay_trace_def replay_event_def result_simps)
    have "cluster_inv c'" using step_event_inv [OF parts(1), of "EvApply cmd"] app by simp
    moreover have "issued c' eff" if "eff \<in> S \<union> set (w_pending w)" for eff
      using that parts(3,4) by (auto intro: issued_next [OF _ keep])
    moreover have "endpoint_ok c' key ep" if "btree_get (w_endpoints w) key = Some ep" for key ep
      by (rule endpoint_ok_next [OF parts(5) [OF that] keep])
    ultimately have "world_inv S w'" using settled trace by (simp add: world_inv_def w' push_trace_def)
    moreover have "issued c' eff" if "eff \<in> set effects" for eff
    proof (cases "closes cmd")
      case None
      then show ?thesis
        using dispatch_emits [OF inv_ids_named [OF parts(1)] None] m that issued_cong [of c' m] by (simp add: emits_def c')
    next
      case (Some j)
      with dispatch_closes(1) [OF Some m] that show ?thesis by simp
    qed
    ultimately show ?thesis using Ok by (simp add: w' push_trace_def)
  qed
  then show "world_inv S w'" and "r = Ok effects \<Longrightarrow> eff \<in> set effects \<Longrightarrow> issued (w_cluster w') eff" by auto
qed

section \<open>Control flow\<close>

definition kept :: "effect set \<Rightarrow> 'a in_world \<Rightarrow> bool" where
  "kept S out \<longleftrightarrow> world_inv S (fst out)"

named_theorems kept_intros \<open>operations that keep the invariant of the world\<close>

lemma kept_pair [kept_intros]: "world_inv S w \<Longrightarrow> kept S (w, r)"
  by (simp add: kept_def)

lemma kept_and_in [kept_intros]:
  "kept S out \<Longrightarrow> (\<And>w x. out = (w, Ok x) \<Longrightarrow> world_inv S w \<Longrightarrow> kept S (k w x)) \<Longrightarrow> kept S (and_in out k)"
  by (cases "(out, k)" rule: and_in.cases) (auto simp: kept_def)

lemma kept_if [kept_intros]: "(b \<Longrightarrow> kept S x) \<Longrightarrow> (\<not> b \<Longrightarrow> kept S y) \<Longrightarrow> kept S (if b then x else y)"
  by simp

lemma kept_option [kept_intros]:
  "(o1 = None \<Longrightarrow> kept S x) \<Longrightarrow> (\<And>a. o1 = Some a \<Longrightarrow> kept S (f a)) \<Longrightarrow>
     kept S (case o1 of None \<Rightarrow> x | Some a \<Rightarrow> f a)"
  by (cases o1) simp_all

lemma kept_result [kept_intros]:
  "(\<And>a. r = Ok a \<Longrightarrow> kept S (f a)) \<Longrightarrow> (\<And>e. r = Err e \<Longrightarrow> kept S (g e)) \<Longrightarrow>
     kept S (case r of Ok a \<Rightarrow> f a | Err e \<Rightarrow> g e)"
  by (cases r) simp_all

lemma kept_each_in [kept_intros]:
  "world_inv S w \<Longrightarrow> (\<And>x w. world_inv S w \<Longrightarrow> kept S (f x w)) \<Longrightarrow> kept S (each_in f xs w)"
  by (induction xs arbitrary: w) (auto intro!: kept_intros)

lemma kept_commit [kept_intros]: "world_inv S w \<Longrightarrow> closes cmd = None \<Longrightarrow> kept S (commit cmd w)"
  using commit_kept(1) [of S w cmd "fst (commit cmd w)" "snd (commit cmd w)"] by (simp add: kept_def)

lemma kept_apply [kept_intros]:
  assumes "world_inv S w" and "closes cmd = None"
  shows "kept S (world_apply cmd w)"
  unfolding world_apply_def
proof (intro kept_intros assms)
  fix w' effects
  assume out: "commit cmd w = (w', Ok effects)" and inv: "world_inv S w'"
  show "world_inv S (push_pending effects w')"
    by (rule world_inv_pending [OF inv commit_kept(2) [OF assms(1) _ out refl]]) (simp_all add: assms(2))
qed

lemma kept_apply_unit [kept_intros]: "world_inv S w \<Longrightarrow> closes cmd = None \<Longrightarrow> kept S (apply_unit cmd w)"
  unfolding apply_unit_def by (intro kept_intros)

section \<open>Operations on leases and facts\<close>

lemma kept_bind_claims: "world_inv S w \<Longrightarrow> kept S (bind_claims lease i claims bindings w)"
  by (induction claims arbitrary: i bindings w) (auto intro!: kept_intros simp: closes_def)

lemma kept_bind_next [kept_intros]: "world_inv S w \<Longrightarrow> kept S (bind_next lease w)"
  unfolding bind_next_def bind_enforced_def by (intro kept_intros kept_bind_claims) (simp_all add: kept_intros)

lemma kept_revoke [kept_intros]: "world_inv S w \<Longrightarrow> kept S (world_revoke_lease lease w)"
  unfolding world_revoke_lease_def by (intro kept_intros) (simp_all add: closes_def)

lemmas lease_operations = world_apply_graph_def world_apply_resource_facts_def set_health_def world_reserve_def
  world_promote_def world_place_def bind_enforced_def world_activate_lease_def world_release_lease_def preempt_for_def
  fail_machine_def unquarantine_machine_def expire_due_def fail_late_prepares_def admit_next_def admit_next_backfill_def
  admit_then_dequeue_def admit_next_with_ceiling_def open_admitted_def dequeue_def Let_def

lemma lease_operations_kept:
  assumes "world_inv S w"
  shows "kept S (world_apply_graph ns es w)" "kept S (world_apply_resource_facts ns es us w)" "kept S (set_health n h w)"
    "kept S (world_reserve r l ow ex w)" "kept S (world_promote l w)" "kept S (world_place r l ow pa ex dl w)"
    "kept S (bind_enforced l st w)" "kept S (world_activate_lease l w)" "kept S (world_release_lease l w)"
    "kept S (preempt_for r w)" "kept S (fail_machine m w)" "kept S (unquarantine_machine m w)" "kept S (expire_due w)"
    "kept S (fail_late_prepares w)" "kept S (admit_next l ow w)" "kept S (admit_next_backfill l ow w)"
    "kept S (admit_next_with_ceiling l ow cl w)"
  using assms unfolding lease_operations
  by (intro kept_intros kept_bind_claims; simp add: closes_def)+

lemma clock_operations_kept:
  assumes inv: "world_inv S w"
  shows "world_inv S (world_set_now t w)" "world_inv S (world_set_agreement a w)" "world_inv S (world_advance_epoch w)"
proof -
  have step: "world_inv S (push_trace event (w\<lparr>w_cluster := c\<rparr>))"
    if "c = step_event e (w_cluster w)" "replay_event event (w_cluster w) = Ok c" "k_bindings c = k_bindings (w_cluster w)"
    for event e c
  proof -
    have "cluster_inv c" using step_event_inv [OF world_invD(1) [OF inv]] that(1) by simp
    moreover have "endpoint_ok c key ep = endpoint_ok (w_cluster w) key ep" for key ep
      by (simp add: endpoint_ok_def that(3))
    ultimately show ?thesis
      using inv that(2,3) issued_cong [OF that(3)]
      by (simp add: world_inv_def push_trace_def replay_trace_def result_simps)
  qed
  show "world_inv S (world_set_now t w)" unfolding world_set_now_def
    by (rule step [of _ "EvNow t"]) (simp_all add: replay_event_def set_now_def)
  show "world_inv S (world_set_agreement a w)" unfolding world_set_agreement_def
    by (rule step [of _ "EvAgreement a"]) (simp_all add: replay_event_def set_agreement_def)
  show "world_inv S (world_advance_epoch w)" unfolding world_advance_epoch_def
    by (rule step [of _ EvEpoch]) (simp_all add: replay_event_def advance_epoch_def)
qed

lemma restart_controller_exact: "world_inv S w \<Longrightarrow> restart_controller w = (w, Ok ())"
  using world_invD(2) by (simp add: restart_controller_def)

section \<open>Agents\<close>

lemma greet_endpoint_ok:
  assumes "\<And>key ep. btree_get eps key = Some ep \<Longrightarrow> endpoint_ok c key ep"
    and "btree_get (greet_endpoint session k eps) key = Some ep"
  shows "endpoint_ok c key ep"
  using assms(2) assms(1) [of key] endpoint_ok_handshake [OF assms(1) [of k]] endpoint_ok_new [of c k session]
  by (auto simp: greet_endpoint_def split: option.splits if_splits)

lemma endpoints_advance_trans:
  "endpoints_advance eps eps1 \<Longrightarrow> endpoints_advance eps1 eps2 \<Longrightarrow> endpoints_advance eps eps2"
  unfolding endpoints_advance_def by blast

lemma greet_endpoints:
  assumes "\<And>key ep. btree_get eps key = Some ep \<Longrightarrow> endpoint_ok c key ep"
  shows "endpoints_advance eps (fold (greet_endpoint session) ks eps) \<and>
    (\<forall>key ep. btree_get (fold (greet_endpoint session) ks eps) key = Some ep \<longrightarrow> endpoint_ok c key ep)"
  using assms
proof (induction ks arbitrary: eps)
  case Nil
  then show ?case by (auto simp: endpoints_advance_def)
next
  case (Cons k ks)
  have "endpoints_advance eps (greet_endpoint session k eps)"
    by (auto simp: greet_endpoint_def intro!: endpoints_advance_insert generation_closed_handshake split: option.splits)
  moreover have "endpoints_advance (greet_endpoint session k eps) (fold (greet_endpoint session) (k # ks) eps) \<and>
      (\<forall>key ep. btree_get (fold (greet_endpoint session) (k # ks) eps) key = Some ep \<longrightarrow> endpoint_ok c key ep)"
    unfolding fold_Cons comp_apply by (rule Cons.IH) (rule greet_endpoint_ok [OF Cons.prems])
  ultimately show ?case using endpoints_advance_trans by blast
qed

lemma kept_register:
  assumes "world_inv S w"
  shows "kept S (register_agent machine w)"
  unfolding register_agent_def Let_def
  using greet_endpoints [OF world_invD(5) [OF assms]] assms
  by (intro kept_intros world_inv_endpoints) (auto simp: closes_def)

lemma kept_restart_agent:
  assumes "world_inv S w"
  shows "kept S (restart_agent machine w)"
proof -
  let ?eps = "btree_map_values (\<lambda>ep. if machine_of (k_graph (w_cluster w)) (ep_node ep) = Some machine
    then endpoint_handshake ep (w_next_session w) else ep) (w_endpoints w)"
  have "endpoints_advance (w_endpoints w) ?eps"
    by (auto simp: endpoints_advance_def intro: generation_closed_handshake)
  moreover have "endpoint_ok (w_cluster w) key ep" if "btree_get ?eps key = Some ep" for key ep
    using that world_invD(5) [OF assms, of key] by (auto split: if_splits intro: endpoint_ok_handshake)
  ultimately show ?thesis
    using assms unfolding restart_agent_def Let_def
    by (intro kept_intros world_inv_trace world_inv_endpoints) (simp_all add: closes_def replay_event_def)
qed

section \<open>Delivery\<close>

lemma endpoint_apply_ok:
  assumes ok: "endpoint_ok c (provider, n) ep"
    and b: "btree_get (k_bindings c) i = Some b" "b_node b = n" "b_provider b = provider" "b_fence b = fence"
  shows "endpoint_ok c (provider, n) (fst (endpoint_apply ep op i fence session))"
proof -
  have "endpoint_wf (fst (endpoint_apply ep op i fence session))"
    using endpoint_step_wf [of ep "Operate op i fence session"] ok by (simp add: endpoint_ok_def)
  then show ?thesis
    using ok b by (auto simp: endpoint_ok_def endpoint_defs split: endpoint_op.splits if_splits)
qed

lemma endpoint_apply_closes:
  "endpoint_apply ep op i fence session = (ep', Ok u) \<Longrightarrow> op = OpRelease \<or> op = OpFence \<Longrightarrow> generation_closed fence ep'"
  by (auto simp: endpoint_defs generation_closed_def split: if_splits)

lemma acknowledge_cases:
  assumes "acknowledge op i fence session r w = (w', cmd)"
  shows "(\<exists>h. w' = w\<lparr>w_next_handle := h\<rparr>)"
    and "cmd = Some command \<Longrightarrow> ack_of command = Some (i, session, fence)"
    and "cmd = Some command \<Longrightarrow> closes command \<noteq> None \<Longrightarrow> (op = OpRelease \<or> op = OpFence) \<and> r = Ok ()"
    and "cmd = Some command \<Longrightarrow> \<exists>k s reason f. command = RecordBindingFailed k s reason f \<Longrightarrow> op = OpPrepare"
proof -
  have "\<exists>h. w = w\<lparr>w_next_handle := h\<rparr>" by (rule exI [of _ "w_next_handle w"]) simp
  with assms show "\<exists>h. w' = w\<lparr>w_next_handle := h\<rparr>"
    by (auto simp: acknowledge_def split: result.splits endpoint_op.splits if_splits)
qed (use assms in \<open>auto simp: acknowledge_def closes_def split: result.splits endpoint_op.splits if_splits\<close>)

lemma apply_effect_cases:
  assumes "apply_effect eff w = (w', cmd)"
  obtains (ignored) "w' = w" and "cmd = None"
  | (applied) op i n provider fence session epoch agents ep ep' r where
      "effect_parts eff = Some (op, i, n, provider, fence, session, epoch)"
      "btree_get (w_endpoints w) (provider, n) = Some ep \<or>
        btree_get (w_endpoints w) (provider, n) = None \<and> ep = endpoint_new provider n session"
      "endpoint_apply ep op i fence session = (ep', r)"
      "acknowledge op i fence session r
        (w\<lparr>w_agents := agents, w_endpoints := btree_insert (provider, n) ep' (w_endpoints w)\<rparr>) = (w', cmd)"
proof (cases "effect_parts eff")
  case None
  with assms show ?thesis by (intro ignored) (simp_all add: apply_effect_def)
next
  case (Some parts)
  obtain op i n provider fence session epoch where parts: "parts = (op, i, n, provider, fence, session, epoch)"
    by (metis prod_cases7)
  note eff = Some [unfolded parts]
  show ?thesis
  proof (cases "machine_of (k_graph (w_cluster w)) n")
    case None
    with assms eff show ?thesis by (intro ignored) (simp_all add: apply_effect_def)
  next
    case (Some machine)
    note machine = this
    show ?thesis
    proof (cases "btree_get (w_agents w) machine")
      case None
      with assms eff machine show ?thesis by (intro ignored) (simp_all add: apply_effect_def)
    next
      case (Some agent)
      show ?thesis
      proof (cases "epoch < ag_epoch agent \<or> session \<noteq> ag_session agent")
        case True
        with assms eff machine Some show ?thesis by (intro ignored) (simp_all add: apply_effect_def)
      next
        case False
        define ep where "ep = btree_get_or (endpoint_new provider n session) (w_endpoints w) (provider, n)"
        define agents where "agents = (if epoch > ag_epoch agent
          then btree_insert machine (agent\<lparr>ag_epoch := epoch\<rparr>) (w_agents w) else w_agents w)"
        obtain ep' r where step: "endpoint_apply ep op i fence session = (ep', r)"
          by (cases "endpoint_apply ep op i fence session")
        have "acknowledge op i fence session r
            (w\<lparr>w_agents := agents, w_endpoints := btree_insert (provider, n) ep' (w_endpoints w)\<rparr>) = (w', cmd)"
          using assms eff machine Some False step
          by (cases "epoch > ag_epoch agent") (simp_all add: apply_effect_def Let_def ep_def agents_def)
        moreover have "btree_get (w_endpoints w) (provider, n) = Some ep \<or>
            btree_get (w_endpoints w) (provider, n) = None \<and> ep = endpoint_new provider n session"
          by (cases "btree_get (w_endpoints w) (provider, n)") (simp_all add: ep_def btree_get_or_def)
        ultimately show ?thesis using eff step by (intro applied)
      qed
    qed
  qed
qed

lemma apply_effect_kept:
  assumes inv: "world_inv S w" and issued: "issued (w_cluster w) eff" and out: "apply_effect eff w = (w', cmd)"
  shows "world_inv S w'"
    and "cmd = Some command \<Longrightarrow> closes command = Some j \<Longrightarrow> ack_of command = Some (j, s, f) \<Longrightarrow>
      btree_get (k_bindings (w_cluster w')) j = Some b \<Longrightarrow> b_fence b = f \<Longrightarrow> settled (w_endpoints w') b"
proof -
  from out have "world_inv S w' \<and> (\<forall>command j s f b. cmd = Some command \<longrightarrow> closes command = Some j \<longrightarrow>
      ack_of command = Some (j, s, f) \<longrightarrow> btree_get (k_bindings (w_cluster w')) j = Some b \<longrightarrow> b_fence b = f \<longrightarrow>
      settled (w_endpoints w') b)"
  proof (cases rule: apply_effect_cases)
    case ignored
    with inv show ?thesis by simp
  next
    case (applied op i n provider fence session epoch agents ep ep' r)
    let ?eps = "btree_insert (provider, n) ep' (w_endpoints w)"
    from issued applied(1) obtain b where b: "btree_get (k_bindings (w_cluster w)) i = Some b" "b_node b = n"
        "b_provider b = provider" "b_fence b = fence" by (auto simp: issued_def)
    have "endpoint_ok (w_cluster w) (provider, n) ep"
      using applied(2) world_invD(5) [OF inv] endpoint_ok_new [of _ "(provider, n)"] by auto
    then have ok: "endpoint_ok (w_cluster w) (provider, n) ep'"
      using endpoint_apply_ok [OF _ b, of ep op session] applied(3) by simp
    have closed: "generation_closed g ep'" if "generation_closed g ep" for g
      using generation_closed_step [OF that, of "Operate op i fence session"] applied(3) by simp
    have "endpoints_advance (w_endpoints w) ?eps" using applied(2) closed by (auto intro!: endpoints_advance_insert)
    then have "world_inv S (w\<lparr>w_agents := agents, w_endpoints := ?eps\<rparr>)"
      using world_invD(5) [OF inv] ok inv by (intro world_inv_endpoints) (auto split: if_splits)
    moreover obtain h where w': "w' = w\<lparr>w_agents := agents, w_endpoints := ?eps, w_next_handle := h\<rparr>"
      using acknowledge_cases(1) [OF applied(4)] by auto
    ultimately have "world_inv S w'" by simp
    moreover have "settled (w_endpoints w') b'"
      if "cmd = Some command" "closes command = Some j" "ack_of command = Some (j, s, f)"
        "btree_get (k_bindings (w_cluster w')) j = Some b'" for command j s f b'
    proof -
      have "j = i" using acknowledge_cases(2) [OF applied(4) that(1)] that(3) by simp
      with that(4) b have "b' = b" by (simp add: w')
      moreover have "generation_closed fence ep'"
        using acknowledge_cases(3) [OF applied(4) that(1)] that(2) endpoint_apply_closes [of ep op i fence session ep'] applied(3)
        by auto
      ultimately show ?thesis using b by (simp add: settled_def w')
    qed
    ultimately show ?thesis by blast
  qed
  then show "world_inv S w'"
    and "cmd = Some command \<Longrightarrow> closes command = Some j \<Longrightarrow> ack_of command = Some (j, s, f) \<Longrightarrow>
      btree_get (k_bindings (w_cluster w')) j = Some b \<Longrightarrow> b_fence b = f \<Longrightarrow> settled (w_endpoints w') b" by blast+
qed

text \<open>Reconciliation sends effects of bindings of the cluster and of open endpoints.\<close>

lemma kept_push [kept_intros]:
  "world_inv S w \<Longrightarrow> (\<And>eff. eff \<in> set effects \<Longrightarrow> issued (w_cluster w) eff) \<Longrightarrow> kept S (push_pending effects w, r)"
  by (simp add: kept_def world_inv_pending)

lemma rebind_bindings:
  assumes "commit (RebindSession i session) w = (w', Ok effects)" and "btree_get (k_bindings (w_cluster w)) i = Some b"
  shows "btree_get (k_bindings (w_cluster w')) i = Some (b\<lparr>b_agent_session := session\<rparr>)"
proof -
  obtain c' where "cluster_apply (w_cluster w) (RebindSession i session) = (c', Ok effects)" and "w_cluster w' = c'"
    using assms(1) by (auto simp: commit_def push_trace_def split: prod.splits result.splits)
  with assms(2) show ?thesis by (auto simp: op_simps rebind_session_def)
qed

lemma kept_reconcile_binding:
  assumes inv: "world_inv S w"
  shows "kept S (reconcile_binding session epoch i failed w)"
proof (cases "btree_get (k_bindings (w_cluster w)) i")
  case None
  with inv show ?thesis by (simp add: reconcile_binding_def kept_pair)
next
  case (Some b)
  have own: "issued c eff"
    if "btree_get (k_bindings c) i = Some b'" "b_node b' = b_node b" "b_provider b' = b_provider b" "b_fence b' = b_fence b"
      "eff = EffPrepare i (b_node b) (b_provider b) (b_fence b) session epoch \<or>
       eff = EffActivate i (b_node b) (b_provider b) (b_fence b) session epoch \<or>
       eff = EffFence i (b_node b) (b_provider b) (b_fence b) session epoch" for c b' eff
    using that by (auto simp: issued_def)
  have "issued (w_cluster w') eff" if "commit (RebindSession i session) w = (w', Ok effects)"
      "eff = EffPrepare i (b_node b) (b_provider b) (b_fence b) session epoch \<or>
       eff = EffActivate i (b_node b) (b_provider b) (b_fence b) session epoch" for w' effects eff
    using that(2) by (intro own [OF rebind_bindings [OF that(1) Some]]) auto
  note rebound = this
  have "issued (w_cluster w) (EffFence i (b_node b) (b_provider b) (b_fence b) session epoch)"
    by (rule own [OF Some]) simp_all
  with inv rebound show ?thesis
    unfolding reconcile_binding_def Some Let_def option.case
    by (intro kept_intros) (auto simp: closes_def intro!: world_inv_pending)
qed

lemma kept_reconcile_bindings:
  "world_inv S w \<Longrightarrow> kept S (reconcile_bindings session epoch is failed w)"
  by (induction "is" arbitrary: failed w) (auto intro!: kept_pair kept_and_in kept_reconcile_binding)

lemma stray_fence_issued:
  assumes inv: "world_inv S w" and stray: "stray_fence w machine session epoch (key, ep) = Some eff"
    and ep: "btree_get (w_endpoints w) key = Some ep"
  shows "issued (w_cluster w) eff"
proof -
  obtain provider n where key: "key = (provider, n)" by (cases key)
  from stray obtain i where i: "ep_binding ep = Some i" and
      eff: "eff = EffFence i n (ep_provider ep) (ep_accepted_fence ep) session epoch"
    by (auto simp: stray_fence_def key Let_def split: if_splits)
  from world_invD(5) [OF inv ep] i show ?thesis by (auto simp: eff endpoint_ok_def issued_def key)
qed

lemma kept_reconcile:
  assumes inv: "world_inv S w"
  shows "kept S (reconcile machine session epoch bindings w)"
proof -
  have stray: "issued (w_cluster w') eff"
    if "world_inv S w'" "eff \<in> set (List.map_filter (stray_fence w' machine session epoch) (btree_entries (w_endpoints w')))"
    for w' eff
  proof -
    from that(2) obtain key ep where "(key, ep) \<in> set (btree_entries (w_endpoints w'))"
        and s: "stray_fence w' machine session epoch (key, ep) = Some eff"
      by (auto simp: List.map_filter_def simp del: btree_mem_entries)
    then have "btree_get (w_endpoints w') key = Some ep" by simp
    with stray_fence_issued [OF that(1) s] show ?thesis by simp
  qed
  then show ?thesis
    using inv unfolding reconcile_def Let_def
    by (intro kept_option kept_if kept_and_in kept_reconcile_bindings kept_push kept_pair) simp_all
qed

lemma kept_dispatch_effect:
  assumes inv: "world_inv S w" and issued: "issued (w_cluster w) eff"
  shows "kept S (dispatch_effect eff w)"
proof -
  have other: "kept S (case apply_effect eff w of
        (w1, None) \<Rightarrow> (w1, Ok ())
      | (w1, Some command) \<Rightarrow> and_in (commit command w1) (\<lambda>w effects. (push_pending effects w, Ok ())))"
  proof -
    obtain w1 cmd where out: "apply_effect eff w = (w1, cmd)" by (cases "apply_effect eff w")
    note one = apply_effect_kept [OF inv issued out]
    show ?thesis
    proof (cases cmd)
      case None
      with one out show ?thesis by (simp add: kept_pair)
    next
      case (Some command)
      obtain w2 r where commit: "commit command w1 = (w2, r)" by (cases "commit command w1")
      note two = commit_kept [OF one(1) one(2) [OF Some] commit]
      then show ?thesis
        using out Some commit by (cases r) (auto simp: kept_def intro!: world_inv_pending)
    qed
  qed
  then show ?thesis by (cases eff) (simp_all add: dispatch_effect_def kept_reconcile [OF inv])
qed

lemma kept_deliver_one:
  assumes inv: "world_inv S w"
  shows "kept S (deliver_one w)"
proof (cases "w_pending w")
  case Nil
  with inv show ?thesis by (simp add: deliver_one_def kept_pair)
next
  case (Cons eff rest)
  let ?w = "push_trace TrDeliver (w\<lparr>w_pending := rest\<rparr>)"
  have "world_inv S ?w" using inv Cons by (intro world_inv_trace world_inv_rest) (auto simp: replay_event_def)
  moreover have "issued (w_cluster ?w) eff" using world_invD(4) [OF inv] Cons by (simp add: push_trace_def)
  ultimately show ?thesis
    unfolding deliver_one_def Cons list.case by (intro kept_and_in kept_dispatch_effect kept_pair)
qed

lemma drop_one_kept: "world_inv S w \<Longrightarrow> world_inv S (fst (drop_one w))"
  by (auto simp: drop_one_def replay_event_def split: list.splits intro!: world_inv_trace world_inv_rest)

lemma world_new_inv: "world_inv {} world_new"
  by (simp add: world_inv_def world_new_def cluster_new_inv replay_trace_def) (simp add: cluster_new_def)

end
