(* ===== verification/World_Safety.thy ===== *)
theory World_Safety
  imports World_Invariant
begin

text \<open>
  The properties of the closed world. A run is any sequence of operations of \<^verbatim>\<open>World\<close>: commands of callers, admission,
  faults, restarts of agents and of the controller, deliveries, losses and repetitions of effects. Two things
  are excluded: a caller does not forge the acknowledgement of a release or a fence, and an effect is injected
  only if it was really sent before. The theorems say that what machines enforce is always accounted for by the
  controller, that an exclusive resource has one holder, that a restart of the controller is exact, that delivery
  ends, and that a delivered fence closes.
\<close>

section \<open>Runs\<close>

datatype (plugins only: code size) world_event =
    WCommand command
  | WNow u64
  | WAgreement bool
  | WEpoch
  | WGraph "node list" "edge list"
  | WRegister node_id
  | WRestartAgent node_id
  | WRestartController
  | WDeliver
  | WDrop
  | WInject effect
  | WEnqueue request owner_id
  | WAdmit lease_id owner_id
  | WAdmitBackfill lease_id owner_id
  | WAdmitCeiling lease_id owner_id class_usage
  | WReserve request lease_id owner_id u64
  | WPromote lease_id
  | WPlace request lease_id owner_id "lease_id option" u64 u64
  | WBind lease_id u64
  | WActivate lease_id
  | WPreempt request
  | WFailMachine node_id
  | WExpireDue
  | WFailLate

fun world_step :: "world_event \<Rightarrow> world \<Rightarrow> world" where
  "world_step (WCommand command) w = fst (world_apply command w)"
| "world_step (WNow now) w = world_set_now now w"
| "world_step (WAgreement agreed) w = world_set_agreement agreed w"
| "world_step WEpoch w = world_advance_epoch w"
| "world_step (WGraph nodes edges) w = fst (world_apply_graph nodes edges w)"
| "world_step (WRegister machine) w = fst (register_agent machine w)"
| "world_step (WRestartAgent machine) w = fst (restart_agent machine w)"
| "world_step WRestartController w = fst (restart_controller w)"
| "world_step WDeliver w = fst (deliver_one w)"
| "world_step WDrop w = fst (drop_one w)"
| "world_step (WInject eff) w = fst (inject eff w)"
| "world_step (WEnqueue request owner) w = enqueue request owner w"
| "world_step (WAdmit lease owner) w = fst (admit_next lease owner w)"
| "world_step (WAdmitBackfill lease owner) w = fst (admit_next_backfill lease owner w)"
| "world_step (WAdmitCeiling lease owner ceiling) w = fst (admit_next_with_ceiling lease owner ceiling w)"
| "world_step (WReserve request lease owner expires_at) w = fst (world_reserve request lease owner expires_at w)"
| "world_step (WPromote lease) w = fst (world_promote lease w)"
| "world_step (WPlace request lease owner parent expires_at deadline) w =
     fst (world_place request lease owner parent expires_at deadline w)"
| "world_step (WBind lease start) w = fst (bind_enforced lease start w)"
| "world_step (WActivate lease) w = fst (world_activate_lease lease w)"
| "world_step (WPreempt request) w = fst (preempt_for request w)"
| "world_step (WFailMachine machine) w = fst (fail_machine machine w)"
| "world_step WExpireDue w = fst (expire_due w)"
| "world_step WFailLate w = fst (fail_late_prepares w)"

fun honest :: "effect set \<Rightarrow> world_event \<Rightarrow> bool" where
  "honest S (WCommand command) \<longleftrightarrow> closes command = None"
| "honest S (WInject eff) \<longleftrightarrow> eff \<in> S"
| "honest S _ \<longleftrightarrow> True"

text \<open>\<open>reachable w S\<close>: the world \<open>w\<close> is reached by a run in which the effects of \<open>S\<close> were sent.\<close>

inductive reachable :: "world \<Rightarrow> effect set \<Rightarrow> bool" where
  start: "reachable world_new {}"
| event: "reachable w S \<Longrightarrow> honest S ev \<Longrightarrow> reachable (world_step ev w) (S \<union> set (w_pending (world_step ev w)))"

lemma world_step_inv:
  assumes inv: "world_inv S w" and honest: "honest S ev"
  shows "world_inv S (world_step ev w)"
proof -
  note ops = lease_operations_kept [OF inv, unfolded kept_def] kept_register [OF inv, unfolded kept_def]
    kept_restart_agent [OF inv, unfolded kept_def] kept_deliver_one [OF inv, unfolded kept_def]
    kept_apply [OF inv, unfolded kept_def] kept_dispatch_effect [OF inv, unfolded kept_def]
  show ?thesis
    using honest world_invD(3) [OF inv]
    by (cases ev) (simp_all add: ops clock_operations_kept [OF inv] restart_controller_exact [OF inv] inv
        drop_one_kept [OF inv] inject_def enqueue_def)
qed

lemma reachable_inv: "reachable w S \<Longrightarrow> world_inv S w"
proof (induction rule: reachable.induct)
  case start
  show ?case by (rule world_new_inv)
next
  case (event w S ev)
  then show ?case by (intro world_inv_sent world_step_inv)
qed

section \<open>Enforcement and authority\<close>

lemma open_endpoint_binding:
  assumes inv: "world_inv S w" and ep: "btree_get (w_endpoints w) (provider, n) = Some ep" and "ep_open ep"
  obtains i b where "ep_binding ep = Some i" and "btree_get (k_bindings (w_cluster w)) i = Some b"
    and "b_provider b = provider" and "b_node b = n" and "b_fence b = ep_accepted_fence ep" and "\<not> is_closed (b_state b)"
proof -
  have ok: "endpoint_ok (w_cluster w) (provider, n) ep" by (rule world_invD(5) [OF inv ep])
  with assms(3) obtain i where i: "ep_binding ep = Some i" by (auto simp: endpoint_ok_def endpoint_wf_def)
  with ok obtain b where b: "btree_get (k_bindings (w_cluster w)) i = Some b" "b_provider b = provider" "b_node b = n"
      "b_fence b = ep_accepted_fence ep" by (auto simp: endpoint_ok_def)
  have "\<not> is_closed (b_state b)"
  proof
    assume "is_closed (b_state b)"
    from world_invD(6) [OF inv b(1) this] ep b assms(3) show False by (auto simp: settled_def generation_closed_def)
  qed
  with i b that show ?thesis by blast
qed

text \<open>
  C3. What machines enforce, the controller accounts for: in every reachable world, whatever was lost, repeated, delayed
  or restarted, an open endpoint holds a binding that the cluster knows for exactly this provider, node and fence, that
  is not closed, and whose lease occupies its claims, so that its capacity is given to nobody else.
\<close>

theorem enforcement_is_accounted:
  assumes "reachable w S" and "btree_get (w_endpoints w) (provider, n) = Some ep" and "ep_open ep"
  shows "\<exists>i b. ep_binding ep = Some i \<and> btree_get (k_bindings (w_cluster w)) i = Some b \<and> b_provider b = provider \<and>
    b_node b = n \<and> b_fence b = ep_accepted_fence ep \<and> \<not> is_closed (b_state b) \<and> occupies (w_cluster w) (b_lease b)"
proof -
  note inv = reachable_inv [OF assms(1)]
  obtain i b where "ep_binding ep = Some i" and b: "btree_get (k_bindings (w_cluster w)) i = Some b"
    and "b_provider b = provider" "b_node b = n" "b_fence b = ep_accepted_fence ep" and open1: "\<not> is_closed (b_state b)"
    using open_endpoint_binding [OF inv assms(2,3)] by blast
  moreover have "b_lease b \<in> live (w_cluster w)"
    using b open1 cluster_inv_parts(4) [OF world_invD(1) [OF inv]]
    unfolding live_iff open_binding_leases_iff bindings_ok_def by blast
  ultimately show ?thesis using occupies_iff_live [OF world_invD(1) [OF inv]] by blast
qed

text \<open>
  C4. An exclusive resource has one holder: in every reachable world, while the cluster has an exclusive binding on a
  resource that is not closed, the endpoint of the resource, if it is open at all, holds that binding.
\<close>

theorem exclusive_holder:
  assumes "reachable w S" and "btree_get (k_bindings (w_cluster w)) i = Some b" and "b_scope b = Exclusive"
    and "\<not> is_closed (b_state b)" and "btree_get (w_endpoints w) (b_provider b, b_node b) = Some ep" and "ep_open ep"
  shows "ep_binding ep = Some i \<and> ep_accepted_fence ep = b_fence b"
proof -
  note inv = reachable_inv [OF assms(1)]
  obtain j b' where b': "ep_binding ep = Some j" "btree_get (k_bindings (w_cluster w)) j = Some b'"
      "b_provider b' = b_provider b" "b_node b' = b_node b" "b_fence b' = ep_accepted_fence ep" "\<not> is_closed (b_state b')"
    using open_endpoint_binding [OF inv assms(5,6)] by blast
  have "exclusive_ok (k_bindings (w_cluster w))"
    using cluster_inv_parts(4) [OF world_invD(1) [OF inv]] by (simp add: bindings_ok_def)
  with b' assms(2-4) have "j = i" unfolding exclusive_ok_def by (metis binding_scope.distinct(1))
  with b' assms(2) show ?thesis by simp
qed

text \<open>
  C6. A restart of the controller is exact: in every reachable world the committed trace replays without error to
  the very cluster that is lost, log and clock included, so that a restart changes nothing.
\<close>

theorem controller_restart_exact:
  assumes "reachable w S"
  shows "replay_trace w = Ok (w_cluster w) \<and> restart_controller w = (w, Ok ())"
  using world_invD(2) [OF reachable_inv [OF assms]] restart_controller_exact [OF reachable_inv [OF assms]] by blast

section \<open>Delivery ends\<close>

text \<open>What an operation adds to the effects on the way.\<close>

definition adds :: "(effect \<Rightarrow> bool) \<Rightarrow> world \<Rightarrow> 'a in_world \<Rightarrow> bool" where
  "adds P w out \<longleftrightarrow> (\<exists>effects. w_pending (fst out) = w_pending w @ effects \<and> (\<forall>eff\<in>set effects. P eff))"

fun is_reconcile :: "effect \<Rightarrow> bool" where
  "is_reconcile (EffReconcile machine session epoch bindings) = True"
| "is_reconcile _ = False"

fun is_prepare :: "effect \<Rightarrow> bool" where
  "is_prepare (EffPrepare i n provider fence session epoch) = True"
| "is_prepare _ = False"

lemma fence_kinds: "is_fence eff \<Longrightarrow> \<not> is_reconcile eff" "is_fence eff \<Longrightarrow> \<not> is_prepare eff"
  by (cases eff; simp)+

named_theorems adds_intros \<open>what operations add to the effects on the way\<close>

lemma adds_same [adds_intros]: "w_pending w' = w_pending w \<Longrightarrow> adds P w (w', r)"
  by (simp add: adds_def)

lemma adds_push [adds_intros]:
  "w_pending w' = w_pending w \<Longrightarrow> (\<And>eff. eff \<in> set effects \<Longrightarrow> P eff) \<Longrightarrow> adds P w (push_pending effects w', r)"
  by (auto simp: adds_def push_pending_def)

lemma adds_and_in:
  assumes "adds P w out" and "\<And>w1 x. out = (w1, Ok x) \<Longrightarrow> adds P w1 (k w1 x)"
  shows "adds P w (and_in out k)"
proof (cases "(out, k)" rule: and_in.cases)
  case (1 w1 x k1)
  with assms(1) obtain e1 where e1: "w_pending w1 = w_pending w @ e1" "\<forall>eff\<in>set e1. P eff" by (auto simp: adds_def)
  from 1 assms(2) obtain e2 where e2: "w_pending (fst (k w1 x)) = w_pending w1 @ e2" "\<forall>eff\<in>set e2. P eff"
    by (auto simp: adds_def)
  show ?thesis unfolding adds_def
    by (rule exI [of _ "e1 @ e2"]) (use e1 e2 1 in auto)
next
  case (2 w1 e k1)
  with assms(1) show ?thesis by (simp add: adds_def)
qed

lemma commit_pending: "w_pending (fst (commit cmd w)) = w_pending w"
  by (auto simp: commit_def push_trace_def split: prod.splits result.splits)

lemma commit_dispatch:
  assumes "commit cmd w = (w', Ok effects)"
  obtains c' where "dispatch (w_cluster w) cmd = (c', Ok effects)"
  using assms by (auto simp: commit_def cluster_apply_def push_trace_def split: prod.splits result.splits)

lemma adds_commit [adds_intros]: "adds P w (commit cmd w)"
  using commit_pending [of cmd w] by (simp add: adds_def)

lemma reconcile_binding_adds:
  "adds (\<lambda>eff. \<not> is_reconcile eff) w (reconcile_binding session epoch i failed w)"
proof (cases "btree_get (k_bindings (w_cluster w)) i")
  case None
  then show ?thesis by (simp add: reconcile_binding_def adds_same)
next
  case (Some b)
  have "adds (\<lambda>eff. \<not> is_reconcile eff) w (world_apply (FailLease l reason) w)" for l reason
    unfolding world_apply_def
  proof (rule adds_and_in [OF adds_commit])
    fix w1 effects
    assume "commit (FailLease l reason) w = (w1, Ok effects)"
    then obtain c' where "dispatch (w_cluster w) (FailLease l reason) = (c', Ok effects)" by (rule commit_dispatch)
    then have "\<not> is_reconcile eff" if "eff \<in> set effects" for eff
      using fail_effects that fence_kinds(1) by blast
    then show "adds (\<lambda>eff. \<not> is_reconcile eff) w1 (push_pending effects w1, Ok effects)" by (intro adds_push) simp_all
  qed
  then show ?thesis
    unfolding reconcile_binding_def Some Let_def option.case
    by (cases "b_state b") (auto intro!: adds_and_in adds_commit adds_push intro: adds_same)
qed

lemma reconcile_bindings_adds:
  "adds (\<lambda>eff. \<not> is_reconcile eff) w (reconcile_bindings session epoch is failed w)"
  by (induction "is" arbitrary: failed w) (auto intro!: adds_same adds_and_in reconcile_binding_adds)

lemma reconcile_adds: "adds (\<lambda>eff. \<not> is_reconcile eff) w (reconcile machine session epoch bindings w)"
proof -
  have "\<not> is_reconcile eff"
    if "eff \<in> set (List.map_filter (stray_fence w' machine session epoch) (btree_entries (w_endpoints w')))" for w' eff
    using that by (auto simp: List.map_filter_def stray_fence_def Let_def split: if_splits)
  moreover have "adds (\<lambda>eff. \<not> is_reconcile eff) w (reconcile_bindings session epoch is failed (w\<lparr>w_agents := agents\<rparr>))"
    for "is" failed agents
    using reconcile_bindings_adds [of "w\<lparr>w_agents := agents\<rparr>" session epoch "is" failed] by (simp add: adds_def)
  ultimately show ?thesis
    unfolding reconcile_def Let_def
    by (auto split: option.splits intro!: adds_same adds_push adds_and_in [OF _ adds_push])
qed

lemma and_in_Ok: "and_in out k = (w', Ok y) \<longleftrightarrow> (\<exists>w x. out = (w, Ok x) \<and> k w x = (w', Ok y))"
  by (cases "(out, k)" rule: and_in.cases) auto

lemma apply_effect_pending:
  assumes "apply_effect eff w = (w', cmd)"
  shows "w_pending w' = w_pending w"
    and "cmd = Some command \<Longrightarrow> ack_of command \<noteq> None"
    and "cmd = Some command \<Longrightarrow> \<exists>k s reason f. command = RecordBindingFailed k s reason f \<Longrightarrow> is_prepare eff"
proof -
  have "w_pending w' = w_pending w \<and> (\<forall>command. cmd = Some command \<longrightarrow> ack_of command \<noteq> None \<and>
      ((\<exists>k s reason f. command = RecordBindingFailed k s reason f) \<longrightarrow> is_prepare eff))"
    using assms
  proof (cases rule: apply_effect_cases)
    case (applied op i n provider fence session epoch agents ep ep' r)
    have "op = OpPrepare \<Longrightarrow> is_prepare eff" using applied(1) by (cases eff) auto
    with acknowledge_cases [OF applied(4)] show ?thesis by fastforce
  qed simp
  then show "w_pending w' = w_pending w" "cmd = Some command \<Longrightarrow> ack_of command \<noteq> None"
    "cmd = Some command \<Longrightarrow> \<exists>k s reason f. command = RecordBindingFailed k s reason f \<Longrightarrow> is_prepare eff" by blast+
qed

lemma enforce_adds:
  assumes "\<not> is_reconcile eff"
  shows "adds (\<lambda>e. is_fence e \<and> is_prepare eff) w (dispatch_effect eff w)"
proof -
  obtain w1 cmd where out: "apply_effect eff w = (w1, cmd)" by (cases "apply_effect eff w")
  note one = apply_effect_pending [OF out]
  have "adds (\<lambda>e. is_fence e \<and> is_prepare eff) w1 (and_in (commit command w1) (\<lambda>w effects. (push_pending effects w, Ok ())))"
    if "cmd = Some command" for command
  proof (rule adds_and_in [OF adds_commit])
    fix w2 effects
    assume "commit command w1 = (w2, Ok effects)"
    then obtain c' where "dispatch (w_cluster w1) command = (c', Ok effects)" by (rule commit_dispatch)
    from ack_effects [OF this one(2) [OF that]] one(3) [OF that]
    show "adds (\<lambda>e. is_fence e \<and> is_prepare eff) w2 (push_pending effects w2, Ok ())" by (intro adds_push) auto
  qed
  then show ?thesis
    using assms out one(1) by (cases eff; cases cmd) (auto simp: dispatch_effect_def adds_def)
qed

definition delivery_order :: "(world \<times> world) set" where
  "delivery_order = measures [\<lambda>w. length (filter is_reconcile (w_pending w)),
     \<lambda>w. length (filter is_prepare (w_pending w)), \<lambda>w. length (w_pending w)]"

lemma deliver_one_order:
  assumes "deliver_one w = (w', Ok True)"
  shows "(w', w) \<in> delivery_order"
proof -
  obtain eff rest where p: "w_pending w = eff # rest" using assms by (cases "w_pending w") (auto simp: deliver_one_def)
  let ?w = "push_trace TrDeliver (w\<lparr>w_pending := rest\<rparr>)"
  have out: "fst (dispatch_effect eff ?w) = w'"
    using assms p by (auto simp: deliver_one_def and_in_Ok)
  have rest: "w_pending ?w = rest" by (simp add: push_trace_def)
  show ?thesis
  proof (cases "is_reconcile eff")
    case True
    then obtain machine session epoch bindings where "eff = EffReconcile machine session epoch bindings" by (cases eff) auto
    then obtain effects where "w_pending w' = rest @ effects" "\<forall>e\<in>set effects. \<not> is_reconcile e"
      using reconcile_adds [of ?w machine session epoch bindings] out rest by (auto simp: dispatch_effect_def adds_def)
    with p True show ?thesis by (simp add: delivery_order_def filter_empty_conv)
  next
    case False
    then obtain effects where e: "w_pending w' = rest @ effects" "\<forall>e\<in>set effects. is_fence e \<and> is_prepare eff"
      using enforce_adds [of eff ?w] out rest by (auto simp: adds_def)
    then have "filter is_reconcile effects = []" "filter is_prepare effects = []" "\<not> is_prepare eff \<Longrightarrow> effects = []"
      using fence_kinds by (auto simp: filter_empty_conv)
    with p e False show ?thesis by (simp add: delivery_order_def)
  qed
qed

text \<open>
  Delivery ends: from any world the loop that delivers the effects on the way returns, although a delivery may send
  new ones, and unless it stops at an error, nothing is left on the way.
\<close>

theorem deliver_all_returns:
  "\<exists>w' r. deliver_all w = Some (w', r) \<and> (w_pending w' = [] \<or> (\<exists>e. r = Err e))"
proof -
  have "wf delivery_order" by (simp add: delivery_order_def)
  then show ?thesis
  proof (induction w rule: wf_induct_rule)
    case (less w)
    obtain w1 r1 where one: "deliver_one w = (w1, r1)" by (cases "deliver_one w")
    show ?case
    proof (cases r1)
      case (Err e)
      with one show ?thesis by (simp add: deliver_all.simps [of w])
    next
      case (Ok delivered)
      show ?thesis
      proof (cases delivered)
        case True
        with one Ok less deliver_one_order [of w w1] show ?thesis by (simp add: deliver_all.simps [of w])
      next
        case False
        have "w_pending w1 = []"
          using one Ok False
          by (cases "w_pending w") (auto simp: deliver_one_def and_in_Ok)
        with one Ok False show ?thesis by (simp add: deliver_all.simps [of w])
      qed
    qed
  qed
qed

section \<open>Fences settle\<close>

text \<open>
  C21. A delivered fence settles: in every reachable world, a fence for a binding that reaches a machine whose agent and
  endpoint are in the session the cluster knows, and whose epoch is not newer, is acknowledged without error: the
  cluster then counts the binding as closed and the endpoint no longer holds it.
\<close>

theorem delivered_fence_closes:
  assumes "reachable w S" and b: "btree_get (k_bindings (w_cluster w)) i = Some b"
    and machine: "machine_of (k_graph (w_cluster w)) (b_node b) = Some m" "btree_get (w_agents w) m = Some agent"
    and current: "btree_get (k_sessions (w_cluster w)) m = Some (ag_session agent)" "ag_epoch agent \<le> epoch"
    and ready: "\<forall>ep. btree_get (w_endpoints w) (b_provider b, b_node b) = Some ep \<longrightarrow> ep_session ep = ag_session agent"
  shows "\<exists>w'. inject (EffFence i (b_node b) (b_provider b) (b_fence b) (ag_session agent) epoch) w = (w', Ok ()) \<and>
    closed_in (w_cluster w') i \<and>
    (\<forall>ep. btree_get (w_endpoints w') (b_provider b, b_node b) = Some ep \<longrightarrow> ep_binding ep \<noteq> Some i)"
proof -
  let ?s = "ag_session agent" and ?key = "(b_provider b, b_node b)"
  let ?eff = "EffFence i (b_node b) (b_provider b) (b_fence b) ?s epoch"
  note inv = reachable_inv [OF assms(1)]
  define ep where "ep = btree_get_or (endpoint_new (b_provider b) (b_node b) ?s) (w_endpoints w) ?key"
  have "ep_session ep = ?s"
    using ready by (cases "btree_get (w_endpoints w) ?key") (auto simp: ep_def btree_get_or_def endpoint_new_def)
  then obtain ep' where close: "endpoint_apply ep OpFence i (b_fence b) ?s = (ep', Ok ())"
    by (cases "b_fence b < ep_accepted_fence ep") (auto simp: endpoint_defs)
  define w1 where "w1 = w\<lparr>w_agents := (if epoch > ag_epoch agent then btree_insert m (agent\<lparr>ag_epoch := epoch\<rparr>) (w_agents w)
    else w_agents w), w_endpoints := btree_insert ?key ep' (w_endpoints w)\<rparr>"
  have apply1: "apply_effect ?eff w = (w1, Some (RecordBindingFenced i ?s (b_fence b)))"
    using machine current(2) close
    by (cases "epoch > ag_epoch agent") (simp_all add: apply_effect_def Let_def w1_def ep_def acknowledge_def not_less [symmetric])
  obtain c' where "dispatch (w_cluster w) (RecordBindingFenced i ?s (b_fence b)) = (c', Ok [])" and "closed_in c' i"
    using b machine(1) current(1)
    by (auto simp: record_fenced_def require_session_def require_fence_def closed_in_def is_closed_def)
  then obtain w2 where w2: "dispatch_effect ?eff w = (w2, Ok ())" "closed_in (w_cluster w2) i"
    using apply1 by (auto simp: dispatch_effect_def commit_def cluster_apply_def w1_def push_trace_def push_pending_def closed_in_def)
  have "world_inv S w2"
    using kept_dispatch_effect [OF inv, of ?eff] b w2(1) by (simp add: issued_def kept_def)
  then have "ep_binding ep2 \<noteq> Some i" if "btree_get (w_endpoints w2) ?key = Some ep2" for ep2
  proof -
    note ep2 = that
    note ok = world_invD(5) [OF \<open>world_inv S w2\<close> ep2]
    show ?thesis
    proof
      assume bound: "ep_binding ep2 = Some i"
      then have "ep_open ep2" using ok by (simp add: endpoint_ok_def endpoint_wf_def)
      then obtain b' where "btree_get (k_bindings (w_cluster w2)) i = Some b'" "\<not> is_closed (b_state b')"
        using open_endpoint_binding [OF \<open>world_inv S w2\<close> ep2] bound by (metis option.inject)
      with w2(2) show False by (simp add: closed_in_def)
    qed
  qed
  with w2 show ?thesis by (auto simp: inject_def)
qed

section \<open>A sample run\<close>

lemma honest_mono: "honest {} ev \<Longrightarrow> honest S ev"
  by (cases ev) auto

lemma reachable_run: "list_all (honest {}) es \<Longrightarrow> \<exists>S. reachable (fold world_step es world_new) S"
proof (induction es rule: rev_induct)
  case Nil
  then show ?case using reachable.start by auto
next
  case (snoc ev es)
  then show ?case using reachable.event honest_mono by fastforce
qed

definition sample_events :: "world_event list" where
  "sample_events = [WCommand (ApplyProviderFacts [sample_batch] sample_contracts), WRegister 1, WDeliver,
     WCommand (ReserveLease 10 1 sample_alloc 100 0), WPromote 10, WDeliver]"

definition sample_world :: world where
  "sample_world = fold world_step sample_events world_new"

lemma sample_reachable: "\<exists>S. reachable sample_world S"
  unfolding sample_world_def by (rule reachable_run) (simp add: sample_events_def closes_def)

definition endpoint_state :: "world \<Rightarrow> (bool \<times> binding_id option \<times> u64) option" where
  "endpoint_state w = map_option (\<lambda>ep. (ep_open ep, ep_binding ep, ep_session ep)) (btree_get (w_endpoints w) (provider_enforce, 2))"

lemma sample_endpoint: "endpoint_state sample_world = Some (True, Some 1, 1)"
  by code_simp

lemma sample_holder:
  obtains ep where "btree_get (w_endpoints sample_world) (provider_enforce, 2) = Some ep" and "ep_open ep"
    and "ep_binding ep = Some 1" and "ep_session ep = 1"
  using sample_endpoint by (auto simp: endpoint_state_def)

definition binding_view :: "world \<Rightarrow> (binding_scope \<times> bool \<times> provider_id \<times> node_id \<times> u64) option" where
  "binding_view w = map_option (\<lambda>b. (b_scope b, is_closed (b_state b), b_provider b, b_node b, b_fence b))
     (btree_get (k_bindings (w_cluster w)) 1)"

lemma sample_binding_view: "binding_view sample_world = Some (Exclusive, False, provider_enforce, 2, 1)"
  by code_simp

lemma sample_machine:
  "(machine_of (k_graph (w_cluster sample_world)) 2, btree_get (k_sessions (w_cluster sample_world)) 1,
     map_option (\<lambda>a. (ag_session a, ag_epoch a)) (btree_get (w_agents sample_world) 1)) = (Some 1, Some 1, Some (1, 1))"
  by code_simp

theorem enforcement_is_accounted_witness:
  "\<exists>i b. btree_get (k_bindings (w_cluster sample_world)) i = Some b \<and> b_node b = 2 \<and> \<not> is_closed (b_state b) \<and>
     occupies (w_cluster sample_world) (b_lease b)"
proof -
  obtain S where S: "reachable sample_world S" using sample_reachable by blast
  obtain ep where ep: "btree_get (w_endpoints sample_world) (provider_enforce, 2) = Some ep" "ep_open ep" by (rule sample_holder)
  from enforcement_is_accounted [OF S ep] show ?thesis by blast
qed

theorem exclusive_holder_witness:
  "\<exists>ep. btree_get (w_endpoints sample_world) (provider_enforce, 2) = Some ep \<and> ep_binding ep = Some 1 \<and> ep_accepted_fence ep = 1"
proof -
  obtain S where S: "reachable sample_world S" using sample_reachable by blast
  obtain b where b: "btree_get (k_bindings (w_cluster sample_world)) 1 = Some b" "b_scope b = Exclusive" "\<not> is_closed (b_state b)"
      "b_provider b = provider_enforce" "b_node b = 2" "b_fence b = 1"
    using sample_binding_view by (auto simp: binding_view_def)
  obtain ep where ep: "btree_get (w_endpoints sample_world) (provider_enforce, 2) = Some ep" "ep_open ep" by (rule sample_holder)
  from exclusive_holder [OF S b(1-3), of ep] ep b show ?thesis by simp
qed

theorem controller_restart_exact_witness: "restart_controller sample_world = (sample_world, Ok ())"
proof -
  obtain S where "reachable sample_world S" using sample_reachable by blast
  from controller_restart_exact [OF this] show ?thesis ..
qed

theorem delivered_fence_closes_witness:
  "\<exists>w'. inject (EffFence 1 2 provider_enforce 1 1 7) sample_world = (w', Ok ()) \<and> closed_in (w_cluster w') 1"
proof -
  obtain S where S: "reachable sample_world S" using sample_reachable by blast
  obtain b where b: "btree_get (k_bindings (w_cluster sample_world)) 1 = Some b"
      "b_provider b = provider_enforce" "b_node b = 2" "b_fence b = 1"
    using sample_binding_view by (auto simp: binding_view_def)
  obtain agent where agent: "btree_get (w_agents sample_world) 1 = Some agent" "ag_session agent = 1" "ag_epoch agent = 1"
    using sample_machine by auto
  obtain ep where "btree_get (w_endpoints sample_world) (provider_enforce, 2) = Some ep" "ep_session ep = 1"
    by (rule sample_holder)
  with delivered_fence_closes [OF S b(1), of 1 agent 7] b agent sample_machine show ?thesis by auto
qed

end
