(* ===== verification/Node_Workload.thy ===== *)
theory Node_Workload
  imports Node_Recovery Node_Protocol Node_Device_Filter
begin

text \<open>
  What travels between a controller and its agents, and what a controller is asked to run: the description of a machine
  (\<^verbatim>\<open>crates/node/src/discover.rs\<close>), workloads and service groups (\<^verbatim>\<open>workload.rs\<close>), the requests and answers of the agent
  protocol (\<^verbatim>\<open>protocol.rs\<close>) and the jobs of the dispatcher (\<^verbatim>\<open>dispatch.rs\<close>). A \<^verbatim>\<open>usize\<close> that the source only counts with
  is a natural number. The constructors of requests and answers carry the prefixes \<open>Rq\<close> and \<open>Rs\<close>.
\<close>

section \<open>Machines\<close>

record host_node_spec =
  hs_id :: string
  hs_kind :: resource_class
  hs_parent :: "string option"
  hs_attrs :: attrs
  hs_capacity :: quantity

record device_spec =
  ds_kind :: resource_class
  ds_id :: string
  ds_dev :: string
  ds_host_parent :: "string option"
  ds_access :: "string list"
  ds_attrs :: attrs

record machine_description =
  md_instance_id :: string
  md_name :: string
  md_cpus :: u64
  md_memory_bytes :: u64
  md_host_nodes :: "host_node_spec list"
  md_devices :: "device_spec list"

definition HOST_ID_ATTR :: string where "HOST_ID_ATTR = ''archon.host-id''"

definition DEVICE_HOST_PARENT_ATTR :: string where "DEVICE_HOST_PARENT_ATTR = ''archon.host-parent''"

definition HOST_FACT_WRITER :: fact_writer_id where "HOST_FACT_WRITER = 1"

definition DEVICE_FACT_WRITER :: fact_writer_id where "DEVICE_FACT_WRITER = 2"

section \<open>Execution capabilities\<close>

record runtime_capabilities =
  rc_available :: bool
  rc_cpu_limit :: bool
  rc_memory_limit :: bool
  rc_device_isolation :: bool
  rc_physical_cpu_placement :: bool
  rc_numa_memory_placement :: bool

record execution_capabilities =
  ec_process :: runtime_capabilities
  ec_container :: runtime_capabilities

definition runtime_capabilities_default :: runtime_capabilities where
  "runtime_capabilities_default =
     \<lparr>rc_available = False, rc_cpu_limit = False, rc_memory_limit = False, rc_device_isolation = False,
      rc_physical_cpu_placement = False, rc_numa_memory_placement = False\<rparr>"

section \<open>Workloads\<close>

record storage_mount =
  sm_host_path :: string
  sm_mount_path :: string

record port_publish =
  pp_container_port :: u16
  pp_host_port :: "u16 option"

record execution_spec =
  ex_command :: "string list"
  ex_image :: "string option"
  ex_storage :: "storage_mount list"
  ex_ports :: "port_publish list"
  ex_grace_secs :: u32

definition execution_spec_default :: execution_spec where
  "execution_spec_default = \<lparr>ex_command = [], ex_image = None, ex_storage = [], ex_ports = [], ex_grace_secs = 0\<rparr>"

definition has_program :: "execution_spec \<Rightarrow> bool" where
  "has_program e \<longleftrightarrow> ex_command e \<noteq> [] \<or> ex_image e \<noteq> None"

record workload_spec =
  ws_resources :: request
  ws_execution :: execution_spec
  ws_keep_alive :: bool

definition resource_only :: "request \<Rightarrow> workload_spec" where
  "resource_only resources =
     \<lparr>ws_resources = resources, ws_execution = execution_spec_default, ws_keep_alive = False\<rparr>"

datatype cardinality = Fixed nat | Elastic nat nat nat | PerMachine

record service_group =
  sg_id :: string
  sg_owner :: owner_id
  sg_cardinality :: cardinality
  sg_template :: workload_spec

fun desired_count :: "cardinality \<Rightarrow> nat \<Rightarrow> nat" where
  "desired_count (Fixed n) machines = n"
| "desired_count (Elastic low target high) machines = target"
| "desired_count PerMachine machines = machines"

fun cardinality_validate :: "cardinality \<Rightarrow> (unit, string) result" where
  "cardinality_validate (Fixed n) =
     (if n = 0 then Err ''fixed cardinality must be positive'' else Ok ())"
| "cardinality_validate (Elastic low target high) =
     (if low = 0 \<or> low > target \<or> target > high
      then Err ''elastic cardinality needs 1 <= min <= target <= max'' else Ok ())"
| "cardinality_validate PerMachine = Ok ()"

definition group_member :: "service_group \<Rightarrow> request_id \<Rightarrow> workload_spec" where
  "group_member g request_id =
     (let member = sg_template g
      in member\<lparr>ws_resources := (ws_resources member)\<lparr>r_id := request_id\<rparr>, ws_keep_alive := False\<rparr>)"

section \<open>Requests and answers\<close>

datatype (plugins only: code size) agent_request =
    RqHello
  | RqCapabilities
  | RqRegister string string u64 u64 "host_node_spec list" "device_spec list"
  | RqPrepare u64 u64 u64 u64 binding_scope u64 u64 u64
  | RqActivate u64 u64 u64 u64 binding_scope u64 u64 u64
  | RqStartExecution u64 u64 u64 "string list" lease_limits string "storage_mount list" "port_publish list" u32
      "device_access list"
  | RqStopExecution u64 u64 u64
  | RqRelease u64 u64 u64 u64 binding_scope u64 u64 u64
  | RqFence u64 u64 u64 u64 binding_scope u64 u64 u64
  | RqStatus u64
  | RqLogs u64
  | RqEnumerateBindings

datatype (plugins only: code size) agent_response =
    RsCapabilities execution_capabilities
  | RsWelcome string string u64 u64 "host_node_spec list" "device_spec list"
  | RsPrepared u64 u64
  | RsActivated u64
  | RsExecutionStarted u64
  | RsExecutionFailed u64 string
  | RsExecutionStopped u64
  | RsExecutionStopFailed u64 string
  | RsReleased u64
  | RsFenced u64
  | RsFailed u64 string
  | RsRunning u64 bool "int option"
  | RsLogs u64 string
  | RsBindingsEnumerated "enumerated_endpoint list"

type_synonym agent_reply = "(agent_response, string) result"

text \<open>
  Two renderings the controller takes from elsewhere: the device paths a JSON text stands for (\<^verbatim>\<open>serde_json::from_str\<close>), and the
  \<^verbatim>\<open>Debug\<close> text of an answer, which only enters explanations.
\<close>

record rendering =
  rd_paths :: "string \<Rightarrow> string list option"
  rd_debug :: "agent_response \<Rightarrow> string"

definition device_from_attrs :: "rendering \<Rightarrow> attrs \<Rightarrow> device_access option" where
  "device_from_attrs rd attrs =
     (case btree_get attrs ''dev'' of
        None \<Rightarrow> None
      | Some dev \<Rightarrow>
          if dev = [] then None
          else
            let paths = (case Option.bind (btree_get attrs ''access'') (rd_paths rd) of None \<Rightarrow> [] | Some ps \<Rightarrow> ps)
            in Some \<lparr>da_id = btree_get_or dev attrs ''id'', da_dev = dev, da_paths = paths, da_cdi = btree_get attrs ''cdi''\<rparr>)"

text \<open>The order of \<^verbatim>\<open>EffectPhase\<close> is that of its variants.\<close>

fun phase_rank :: "effect_phase \<Rightarrow> nat" where
  "phase_rank PhPrepare = 0"
| "phase_rank PhActivate = 1"
| "phase_rank PhRelease = 2"
| "phase_rank PhFence = 3"

lemma phase_rank_inject [simp]: "phase_rank p = phase_rank q \<longleftrightarrow> p = q"
  by (cases p; cases q) simp_all

instantiation effect_phase :: linorder
begin

definition less_eq_effect_phase :: "effect_phase \<Rightarrow> effect_phase \<Rightarrow> bool" where
  "less_eq_effect_phase p q \<longleftrightarrow> phase_rank p \<le> phase_rank q"

definition less_effect_phase :: "effect_phase \<Rightarrow> effect_phase \<Rightarrow> bool" where
  "less_effect_phase p q \<longleftrightarrow> phase_rank p < phase_rank q"

instance
  by standard (auto simp: less_eq_effect_phase_def less_effect_phase_def)

end

section \<open>Desired state\<close>

text \<open>Scaling keeps a valid elastic group valid, and the count a validated group wants is positive.\<close>

lemma validated_count_positive:
  assumes "cardinality_validate c = Ok ()" and "machines > 0"
  shows "desired_count c machines > 0"
  using assms by (cases c) (auto split: if_splits)

end
