(* ===== verification/Node_Service.thy ===== *)
theory Node_Service
  imports Node_Workload Cluster_Effects
begin

text \<open>
  The controller of a node (\<^verbatim>\<open>crates/node/src/service.rs\<close>): the cluster together with what the controller knows about the
  agents that enforce it. Effects of the cluster wait in \<open>s_pending\<close>, \<open>route\<close> turns each into a request for the agent of
  its machine, and \<open>absorb\<close> turns the answers back into commands. Workers and their channels are seen from the controller: a
  job it hands over is appended to \<open>s_jobs\<close>, an agent is an entry of \<open>s_agents\<close> that says whether its worker still takes
  jobs, answers arrive in \<open>s_inbox\<close>. A sink that is attached keeps what it was given. Output on the
  terminal is left out.
\<close>

section \<open>State\<close>

datatype recovery_event =
    PreparingLeaseFailed lease_id node_id
  | TerminalBindingFenced lease_id node_id binding_id
  | MemberRecovered lease_id node_id bool "int option"
  | MemberRevokedUnprovable lease_id node_id
  | MemberRevokedRebindFailed lease_id node_id
  | TerminalMemberResolved lease_id node_id
  | StrayFenced node_id node_id binding_id

datatype (plugins only: code size) delivery = Direct | Inbox tag

record job =
  jb_machine :: node_id
  jb_request :: agent_request
  jb_delivery :: delivery

record service_state =
  st_requests :: "(lease_id, workload_spec \<times> owner_id) btree"
  st_queue :: "queued list"
  st_queued_workloads :: "(request_id, workload_spec) btree"
  st_restart_handled :: "lease_id set"
  st_restart_counts :: "(request_id, u32) btree"
  st_restart_last_at :: "(request_id, u64) btree"
  st_restart_root :: "(request_id, request_id) btree"
  st_service_groups :: "(string, service_group) btree"
  st_group_members :: "(string, request_id set) btree"
  st_member_groups :: "(request_id, string) btree"
  st_group_restarts :: "(string, u32) btree"
  st_group_last_restart :: "(string, u64) btree"
  st_member_pins :: "(request_id, node_id) btree"
  st_next_lease :: u64
  st_next_request_id :: u64
  st_next_session :: u64
  st_next_binding :: u64

record node_service =
  s_cluster :: cluster
  s_agents :: "(node_id, bool) btree"
  s_execution_capabilities :: "(node_id, execution_capabilities) btree"
  s_inbox :: "(tag \<times> agent_reply) list"
  s_inflight :: "tag set"
  s_member_status :: "(lease_id \<times> node_id, member_status) btree"
  s_provider_activations :: "(binding_id \<times> u64 \<times> u64) set"
  s_execution_started :: "(lease_id \<times> node_id \<times> u64) set"
  s_execution_stopped :: "(lease_id \<times> node_id \<times> u64) set"
  s_held_effects :: "(binding_id \<times> effect_phase) set"
  s_unreachable :: "node_id list"
  s_queue :: "queued list"
  s_queued_workloads :: "(request_id, workload_spec) btree"
  s_requests :: "(lease_id, workload_spec \<times> owner_id) btree"
  s_restart_handled :: "lease_id set"
  s_restart_counts :: "(request_id, u32) btree"
  s_restart_last_at :: "(request_id, u64) btree"
  s_restart_root :: "(request_id, request_id) btree"
  s_service_groups :: "(string, service_group) btree"
  s_group_members :: "(string, request_id set) btree"
  s_member_groups :: "(request_id, string) btree"
  s_group_restarts :: "(string, u32) btree"
  s_group_last_restart :: "(string, u64) btree"
  s_member_pins :: "(request_id, node_id) btree"
  s_next_request_id :: u64
  s_next_lease :: u64
  s_pending :: "effect list"
  s_next_session :: u64
  s_next_binding :: u64
  s_recovering_machines :: "(node_id, machine_recovery) btree"
  s_recovery_events :: "recovery_event list"
  s_command_sink :: "command list option"
  s_durable_sink :: "(command option \<times> service_state) list option"
  s_history :: "command list"
  s_jobs :: "job list"

definition service_new :: node_service where
  "service_new =
     \<lparr>s_cluster = cluster_new, s_agents = btree_empty, s_execution_capabilities = btree_empty, s_inbox = [], s_inflight = {},
      s_member_status = btree_empty, s_provider_activations = {}, s_execution_started = {}, s_execution_stopped = {},
      s_held_effects = {}, s_unreachable = [], s_queue = [], s_queued_workloads = btree_empty, s_requests = btree_empty,
      s_restart_handled = {}, s_restart_counts = btree_empty, s_restart_last_at = btree_empty, s_restart_root = btree_empty,
      s_service_groups = btree_empty, s_group_members = btree_empty, s_member_groups = btree_empty,
      s_group_restarts = btree_empty, s_group_last_restart = btree_empty, s_member_pins = btree_empty,
      s_next_request_id = 1, s_next_lease = 1, s_pending = [], s_next_session = 1, s_next_binding = 1,
      s_recovering_machines = btree_empty, s_recovery_events = [], s_command_sink = None, s_durable_sink = None,
      s_history = [], s_jobs = []\<rparr>"

section \<open>Calls that fail or panic\<close>

datatype 'a answer = Done 'a | Raise error | Panic

type_synonym 'a in_service = "node_service \<times> 'a answer"

fun and_svc :: "'a in_service \<Rightarrow> (node_service \<Rightarrow> 'a \<Rightarrow> 'b in_service) \<Rightarrow> 'b in_service" where
  "and_svc (s, Done x) k = k s x"
| "and_svc (s, Raise e) k = (s, Raise e)"
| "and_svc (s, Panic) k = (s, Panic)"

fun each_svc :: "('a \<Rightarrow> node_service \<Rightarrow> unit in_service) \<Rightarrow> 'a list \<Rightarrow> node_service \<Rightarrow> unit in_service" where
  "each_svc f [] s = (s, Done ())"
| "each_svc f (x # xs) s = and_svc (f x s) (\<lambda>s _. each_svc f xs s)"

text \<open>\<^verbatim>\<open>if let Err(err) = call { eprintln!(..) }\<close>.\<close>

fun log_error :: "unit in_service \<Rightarrow> unit in_service" where
  "log_error (s, Raise e) = (s, Done ())"
| "log_error (s, Done x) = (s, Done x)"
| "log_error (s, Panic) = (s, Panic)"

fun from_result :: "node_service \<Rightarrow> ('a, error) result \<Rightarrow> 'a in_service" where
  "from_result s (Ok x) = (s, Done x)"
| "from_result s (Err e) = (s, Raise e)"

section \<open>Commands\<close>

definition state_snapshot :: "node_service \<Rightarrow> service_state" where
  "state_snapshot s =
     \<lparr>st_requests = s_requests s, st_queue = s_queue s, st_queued_workloads = s_queued_workloads s,
      st_restart_handled = s_restart_handled s, st_restart_counts = s_restart_counts s,
      st_restart_last_at = s_restart_last_at s, st_restart_root = s_restart_root s,
      st_service_groups = s_service_groups s, st_group_members = s_group_members s, st_member_groups = s_member_groups s,
      st_group_restarts = s_group_restarts s, st_group_last_restart = s_group_last_restart s,
      st_member_pins = s_member_pins s, st_next_lease = s_next_lease s, st_next_request_id = s_next_request_id s,
      st_next_session = s_next_session s, st_next_binding = s_next_binding s\<rparr>"

definition persist :: "command option \<Rightarrow> node_service \<Rightarrow> node_service" where
  "persist command s =
     (case s_durable_sink s of
        None \<Rightarrow> s
      | Some records \<Rightarrow> s\<lparr>s_durable_sink := Some (records @ [(command, state_snapshot s)])\<rparr>)"

definition service_commit :: "command \<Rightarrow> node_service \<Rightarrow> unit in_service" where
  "service_commit command s =
     (case cluster_apply (s_cluster s) command of
        (c, Err e) \<Rightarrow> (s\<lparr>s_cluster := c\<rparr>, Raise e)
      | (c, Ok effects) \<Rightarrow>
          let s1 = s\<lparr>s_cluster := c, s_history := s_history s @ [command]\<rparr>;
              s2 = s1\<lparr>s_command_sink := map_option (\<lambda>seen. seen @ [command]) (s_command_sink s1)\<rparr>;
              s3 = persist (Some command) s2
          in (s3\<lparr>s_pending := s_pending s3 @ effects\<rparr>, Done ()))"

definition try_commit_lenient :: "command \<Rightarrow> node_service \<Rightarrow> node_service \<times> bool" where
  "try_commit_lenient command s =
     (case service_commit command s of
        (s', Done _) \<Rightarrow> (s', True)
      | (s', _) \<Rightarrow> (s', False))"

definition commit_lenient :: "command \<Rightarrow> node_service \<Rightarrow> node_service" where
  "commit_lenient command s = fst (try_commit_lenient command s)"

definition set_command_sink :: "command list option \<Rightarrow> node_service \<Rightarrow> node_service" where
  "set_command_sink sink s = s\<lparr>s_command_sink := sink\<rparr>"

definition set_durable_sink :: "(command option \<times> service_state) list option \<Rightarrow> node_service \<Rightarrow> node_service" where
  "set_durable_sink sink s = s\<lparr>s_durable_sink := sink\<rparr>"

section \<open>Views\<close>

definition lease_state_of :: "node_service \<Rightarrow> lease_id \<Rightarrow> lease_state option" where
  "lease_state_of s lease = map_option l_state (btree_get (k_leases (s_cluster s)) lease)"

definition terminal_lease :: "lease_state \<Rightarrow> bool" where
  "terminal_lease state \<longleftrightarrow>
     state = LReleased \<or> state = LExpired \<or> state = LRevoked \<or> state = LFailed \<or> state = LCompleted"

text \<open>\<^verbatim>\<open>matches!(leases.get(&lease).map(|record| record.state), Some(Released | .. | Completed))\<close>.\<close>

definition lease_ended :: "node_service \<Rightarrow> lease_id \<Rightarrow> bool" where
  "lease_ended s lease = (case lease_state_of s lease of None \<Rightarrow> False | Some state \<Rightarrow> terminal_lease state)"

text \<open>\<^verbatim>\<open>requests.get(&lease).is_some_and(|(workload, _)| workload.execution.has_program())\<close>.\<close>

definition runs_program :: "node_service \<Rightarrow> lease_id \<Rightarrow> bool" where
  "runs_program s lease =
     (case btree_get (s_requests s) lease of None \<Rightarrow> False | Some (workload, _) \<Rightarrow> has_program (ws_execution workload))"

definition session_of :: "node_service \<Rightarrow> node_id \<Rightarrow> u64 option" where
  "session_of s machine = btree_get (k_sessions (s_cluster s)) machine"

definition machine_at :: "node_service \<Rightarrow> node_id \<Rightarrow> node_id option" where
  "machine_at s n = machine_of (k_graph (s_cluster s)) n"

definition binding_at :: "node_service \<Rightarrow> binding_id \<Rightarrow> binding option" where
  "binding_at s binding = btree_get (k_bindings (s_cluster s)) binding"

definition binding_lease :: "node_service \<Rightarrow> binding_id \<Rightarrow> lease_id option" where
  "binding_lease s binding = map_option b_lease (binding_at s binding)"

definition is_quiescent :: "node_service \<Rightarrow> bool" where
  "is_quiescent s \<longleftrightarrow> s_pending s = [] \<and> s_inflight s = {}"

text \<open>A \<^verbatim>\<open>BTreeSet\<close> collected from an iterator, in its order.\<close>

definition lease_machines :: "node_service \<Rightarrow> lease_id \<Rightarrow> node_id list" where
  "lease_machines s lease =
     (case btree_get (k_leases (s_cluster s)) lease of
        None \<Rightarrow> []
      | Some l \<Rightarrow> sorted_list_of_set (set (List.map_filter (\<lambda>cl. machine_at s (c_node cl)) (a_claims (l_allocation l)))))"

definition lease_machine :: "node_service \<Rightarrow> lease_id \<Rightarrow> node_id option" where
  "lease_machine s lease = (case lease_machines s lease of [] \<Rightarrow> None | machine # _ \<Rightarrow> Some machine)"

definition lease_command_of :: "node_service \<Rightarrow> lease_id \<Rightarrow> string list option" where
  "lease_command_of s lease = map_option (\<lambda>(workload, _). ex_command (ws_execution workload)) (btree_get (s_requests s) lease)"

definition executing_leases :: "node_service \<Rightarrow> lease_id list" where
  "executing_leases s =
     map l_id (filter (\<lambda>l. l_state l = LActive \<and> runs_program s (l_id l)) (btree_values (k_leases (s_cluster s))))"

definition live_lease_count :: "node_service \<Rightarrow> nat" where
  "live_lease_count s = length (filter (\<lambda>l. occupies (s_cluster s) (l_id l)) (btree_values (k_leases (s_cluster s))))"

definition member_stop_proven :: "node_service \<Rightarrow> lease_id \<Rightarrow> node_id \<Rightarrow> bool" where
  "member_stop_proven s lease machine =
     (case session_of s machine of
        None \<Rightarrow> False
      | Some session \<Rightarrow> (lease, machine, session) \<in> s_execution_stopped s)"

section \<open>Limits and devices of a member\<close>

text \<open>\<^verbatim>\<open>str::rsplit_once\<close> and \<^verbatim>\<open>str::strip_prefix\<close>.\<close>

definition rsplit_once :: "char \<Rightarrow> string \<Rightarrow> (string \<times> string) option" where
  "rsplit_once c text = map_option (\<lambda>(last, init). (rev init, rev last)) (split_once c (rev text))"

definition strip_prefix :: "string \<Rightarrow> string \<Rightarrow> string option" where
  "strip_prefix p text = (if take (length p) text = p then Some (drop (length p) text) else None)"

definition host_leaf_number :: "node_service \<Rightarrow> node_id \<Rightarrow> string \<Rightarrow> u32 option" where
  "host_leaf_number s n leaf_kind =
     Option.bind (graph_node (k_graph (s_cluster s)) n) (\<lambda>nd.
     Option.bind (btree_get (n_attrs nd) HOST_ID_ATTR) (\<lambda>host_id.
     Option.bind (rsplit_once (CHR ''/'') host_id) (\<lambda>(numa, leaf).
     Option.bind (strip_prefix ''numa/'' numa) (\<lambda>numa.
       if leaf_kind = ''cpu'' then Option.bind (strip_prefix ''cpu/'' leaf) parse_u32
       else if leaf_kind = ''memory'' \<and> leaf = ''memory'' then parse_u32 numa
       else None))))"

text \<open>What one claim adds to the limits, the processors and the memory nodes.\<close>

definition claim_limits :: "node_service \<Rightarrow> node_id \<Rightarrow> claim \<Rightarrow> lease_limits \<times> u32 list \<times> u32 list \<Rightarrow> lease_limits \<times> u32 list \<times> u32 list" where
  "claim_limits s machine cl = (\<lambda>(limits, cpus, mems).
     if machine_at s (c_node cl) \<noteq> Some machine then (limits, cpus, mems)
     else
       (case map_option n_kind (graph_node (k_graph (s_cluster s)) (c_node cl)) of
          None \<Rightarrow> (limits, cpus, mems)
        | Some kind \<Rightarrow>
            if kind = Cpu then
              (limits\<lparr>ll_cpu_count := ll_cpu_count limits + quantity_get (c_quantity cl) Count\<rparr>,
               (case host_leaf_number s (c_node cl) ''cpu/'' of None \<Rightarrow> cpus | Some number \<Rightarrow> cpus @ [number]), mems)
            else if kind = Memory then
              (limits\<lparr>ll_memory_bytes := ll_memory_bytes limits + quantity_get (c_quantity cl) Bytes\<rparr>, cpus,
               (case host_leaf_number s (c_node cl) ''memory'' of None \<Rightarrow> mems | Some number \<Rightarrow> mems @ [number]))
            else (limits, cpus, mems)))"

definition lease_limits_on_machine :: "node_service \<Rightarrow> lease_id \<Rightarrow> node_id \<Rightarrow> (lease_limits, error) result" where
  "lease_limits_on_machine s lease machine =
     (case btree_get (k_leases (s_cluster s)) lease of
        None \<Rightarrow> Err (UnknownLease lease)
      | Some l \<Rightarrow>
          let none = \<lparr>ll_cpu_count = 0, ll_memory_bytes = 0, ll_placement = \<lparr>cp_cpus = [], cp_mems = []\<rparr>\<rparr>;
              (limits, cpus, mems) = fold (claim_limits s machine) (a_claims (l_allocation l)) (none, [], [])
          in Ok (limits\<lparr>ll_placement := \<lparr>cp_cpus = remdups_adj (sort cpus), cp_mems = remdups_adj (sort mems)\<rparr>\<rparr>))"

definition device_kind :: "resource_class \<Rightarrow> bool" where
  "device_kind kind \<longleftrightarrow> kind = Gpu \<or> kind = Nic \<or> kind = Nvme"

definition lease_devices_for_machine :: "rendering \<Rightarrow> node_service \<Rightarrow> lease_id \<Rightarrow> node_id option \<Rightarrow> device_access list" where
  "lease_devices_for_machine rd s lease machine =
     (case btree_get (k_leases (s_cluster s)) lease of
        None \<Rightarrow> []
      | Some l \<Rightarrow>
          List.map_filter (\<lambda>cl. Option.bind (graph_node (k_graph (s_cluster s)) (c_node cl)) (\<lambda>nd. device_from_attrs rd (n_attrs nd)))
            (filter (\<lambda>cl. (machine = None \<or> machine_at s (c_node cl) = machine) \<and>
                (case graph_node (k_graph (s_cluster s)) (c_node cl) of None \<Rightarrow> False | Some nd \<Rightarrow> device_kind (n_kind nd)))
              (a_claims (l_allocation l))))"

definition lease_devices :: "rendering \<Rightarrow> node_service \<Rightarrow> lease_id \<Rightarrow> device_access list" where
  "lease_devices rd s lease = lease_devices_for_machine rd s lease None"

definition lease_devices_on_machine :: "rendering \<Rightarrow> node_service \<Rightarrow> lease_id \<Rightarrow> node_id \<Rightarrow> device_access list" where
  "lease_devices_on_machine rd s lease machine = lease_devices_for_machine rd s lease (Some machine)"

section \<open>Jobs for the agents\<close>

definition svc_dispatch :: "node_id \<Rightarrow> tag \<Rightarrow> agent_request \<Rightarrow> node_service \<Rightarrow> node_service" where
  "svc_dispatch machine tag request s =
     (let s1 = s\<lparr>s_inflight := insert tag (s_inflight s)\<rparr>;
          sent = (case btree_get (s_agents s1) machine of None \<Rightarrow> False | Some taking \<Rightarrow> taking)
      in if sent
         then s1\<lparr>s_jobs := s_jobs s1 @ [\<lparr>jb_machine = machine, jb_request = request, jb_delivery = Inbox tag\<rparr>]\<rparr>
         else s1\<lparr>s_inflight := s_inflight s1 - {tag}\<rparr>)"

definition request_status_on_machine :: "lease_id \<Rightarrow> node_id \<Rightarrow> node_service \<Rightarrow> node_service" where
  "request_status_on_machine lease machine s =
     (case session_of s machine of
        None \<Rightarrow> s
      | Some session \<Rightarrow>
          let tag = TagStatus lease machine session
          in if tag \<in> s_inflight s then s else svc_dispatch machine tag (RqStatus lease) s)"

definition request_status :: "lease_id \<Rightarrow> node_service \<Rightarrow> node_service" where
  "request_status lease s = fold (request_status_on_machine lease) (lease_machines s lease) s"

definition request_enumeration :: "node_id \<Rightarrow> node_service \<Rightarrow> node_service" where
  "request_enumeration machine s =
     (case btree_get (s_recovering_machines s) machine of
        None \<Rightarrow> s
      | Some recovery \<Rightarrow>
          let tag = TagEnumerate machine (mr_session recovery)
          in if tag \<in> s_inflight s then s else svc_dispatch machine tag RqEnumerateBindings s)"

definition probe_machine :: "node_id \<Rightarrow> node_service \<Rightarrow> node_service" where
  "probe_machine machine s =
     (let tag = TagProbe machine
      in if tag \<in> s_inflight s then s else svc_dispatch machine tag (RqStatus 0) s)"

definition probe_agents :: "node_service \<Rightarrow> node_service" where
  "probe_agents s = fold probe_machine (btree_keys (s_agents s)) s"

definition take_unreachable :: "node_service \<Rightarrow> node_service \<times> node_id list" where
  "take_unreachable s = (s\<lparr>s_unreachable := []\<rparr>, s_unreachable s)"

definition take_recovery_events :: "node_service \<Rightarrow> node_service \<times> recovery_event list" where
  "take_recovery_events s = (s\<lparr>s_recovery_events := []\<rparr>, s_recovery_events s)"

definition push_event :: "recovery_event \<Rightarrow> node_service \<Rightarrow> node_service" where
  "push_event event s = s\<lparr>s_recovery_events := s_recovery_events s @ [event]\<rparr>"

text \<open>A query for the output of a lease is answered to the caller, not to the inbox.\<close>

definition request_logs :: "lease_id \<Rightarrow> node_service \<Rightarrow> node_service \<times> bool" where
  "request_logs lease s =
     (case lease_machine s lease of
        None \<Rightarrow> (s, False)
      | Some machine \<Rightarrow>
          (case btree_get (s_agents s) machine of
             Some True \<Rightarrow>
               (s\<lparr>s_jobs := s_jobs s @ [\<lparr>jb_machine = machine, jb_request = RqLogs lease, jb_delivery = Direct\<rparr>]\<rparr>, True)
           | _ \<Rightarrow> (s, False)))"

section \<open>Activation, start and stop\<close>

definition maybe_activate :: "lease_id \<Rightarrow> node_service \<Rightarrow> node_service" where
  "maybe_activate lease s =
     (if lease_state_of s lease \<noteq> Some LPreparing then s
      else
        let bindings = bindings_for (s_cluster s) lease;
            all_prepared = bindings \<noteq> [] \<and>
              list_all (\<lambda>i. case binding_at s i of None \<Rightarrow> False | Some b \<Rightarrow> b_provider_handle b \<noteq> None) bindings
        in if \<not> all_prepared then s
           else fold (\<lambda>i. commit_lenient (ActivateBinding i)) bindings (commit_lenient (ActivateLease lease) s))"

text \<open>Every binding of the lease is active, and its current generation was acknowledged.\<close>

definition all_provider_active :: "node_service \<Rightarrow> lease_id \<Rightarrow> bool" where
  "all_provider_active s lease \<longleftrightarrow>
     bindings_for (s_cluster s) lease \<noteq> [] \<and>
     list_all (\<lambda>i. case binding_at s i of
         None \<Rightarrow> False
       | Some b \<Rightarrow> b_state b = BActive \<and> (i, b_agent_session b, b_fence b) \<in> s_provider_activations s)
       (bindings_for (s_cluster s) lease)"

definition start_member :: "rendering \<Rightarrow> lease_id \<Rightarrow> execution_spec \<Rightarrow> node_id \<Rightarrow> node_service \<Rightarrow> unit in_service" where
  "start_member rd lease execution machine s =
     (if btree_contains_key (s_recovering_machines s) machine then (s, Done ())
      else case session_of s machine of
        None \<Rightarrow> (s, Done ())
      | Some session \<Rightarrow>
          if (lease, machine, session) \<in> s_execution_started s \<or> TagExecutionStart lease machine session \<in> s_inflight s
          then (s, Done ())
          else
            (case lease_limits_on_machine s lease machine of
               Err e \<Rightarrow> (s, Raise e)
             | Ok limits \<Rightarrow>
                 let request = RqStartExecution lease session (k_epoch (s_cluster s)) (ex_command execution) limits
                       (case ex_image execution of None \<Rightarrow> [] | Some img \<Rightarrow> img) (ex_storage execution) (ex_ports execution)
                       (ex_grace_secs execution) (lease_devices_on_machine rd s lease machine)
                 in (svc_dispatch machine (TagExecutionStart lease machine session) request s, Done ())))"

definition maybe_start_executions :: "rendering \<Rightarrow> lease_id \<Rightarrow> node_service \<Rightarrow> unit in_service" where
  "maybe_start_executions rd lease s =
     (if lease_state_of s lease \<noteq> Some LActive then (s, Done ())
      else case btree_get (s_requests s) lease of
        None \<Rightarrow> (s, Done ())
      | Some (workload, _) \<Rightarrow>
          if \<not> has_program (ws_execution workload) then (s, Done ())
          else if \<not> all_provider_active s lease then (s, Done ())
          else each_svc (start_member rd lease (ws_execution workload)) (lease_machines s lease) s)"

definition stop_member :: "lease_id \<Rightarrow> node_id \<Rightarrow> node_service \<Rightarrow> node_service" where
  "stop_member lease machine s =
     (case session_of s machine of
        None \<Rightarrow> s
      | Some session \<Rightarrow>
          if (lease, machine, session) \<in> s_execution_stopped s \<or> TagExecutionStop lease machine session \<in> s_inflight s
          then s
          else svc_dispatch machine (TagExecutionStop lease machine session)
                 (RqStopExecution lease session (k_epoch (s_cluster s))) s)"

definition maybe_stop_executions :: "lease_id \<Rightarrow> node_service \<Rightarrow> node_service" where
  "maybe_stop_executions lease s =
     (if \<not> lease_ended s lease then s
      else if \<not> runs_program s lease then s
      else fold (stop_member lease) (lease_machines s lease) s)"

section \<open>Routing\<close>

text \<open>The members whose status a recovering machine has to prove, by the state of the lease of each binding.\<close>

definition expect_member :: "node_id \<Rightarrow> lease_id \<Rightarrow> node_service \<Rightarrow> node_service" where
  "expect_member machine lease s =
     s\<lparr>s_recovering_machines := btree_modify machine
         (\<lambda>recovery. recovery\<lparr>mr_members := btree_entry None id lease (mr_members recovery)\<rparr>) (s_recovering_machines s)\<rparr>"

fun sort_recovery ::
    "node_id \<Rightarrow> binding_id list \<Rightarrow> lease_id set \<Rightarrow> lease_id set \<Rightarrow> lease_id set \<Rightarrow> node_service \<Rightarrow>
     node_service \<times> lease_id set \<times> lease_id set \<times> lease_id set" where
  "sort_recovery machine [] active preparing terminal s = (s, active, preparing, terminal)"
| "sort_recovery machine (i # rest) active preparing terminal s =
     (case binding_at s i of
        None \<Rightarrow> sort_recovery machine rest active preparing terminal s
      | Some b \<Rightarrow>
          (case lease_state_of s (b_lease b) of
             None \<Rightarrow> sort_recovery machine rest active preparing terminal s
           | Some state \<Rightarrow>
               if state = LActive then sort_recovery machine rest (insert (b_lease b) active) preparing terminal s
               else if state = LPreparing then sort_recovery machine rest active (insert (b_lease b) preparing) terminal s
               else sort_recovery machine rest active preparing (insert (b_lease b) terminal)
                      (if b_lease b \<in> terminal then s else expect_member machine (b_lease b) s)))"

definition route_recovery :: "node_id \<Rightarrow> binding_id list \<Rightarrow> node_service \<Rightarrow> command list in_service" where
  "route_recovery machine bindings s =
     (let (s1, active, preparing, terminal) = sort_recovery machine bindings {} {} {} s;
          failing = sorted_list_of_set preparing;
          s2 = fold (\<lambda>lease. push_event (PreparingLeaseFailed lease machine)) failing s1;
          s3 = fold (\<lambda>lease s. request_status_on_machine lease machine (expect_member machine lease s))
                 (sorted_list_of_set active) s2;
          s4 = fold (\<lambda>lease. request_status_on_machine lease machine) (sorted_list_of_set terminal) s3
      in (s4, Done (map (\<lambda>lease. FailLease lease ''restart left preparation unproven'') failing)))"

text \<open>A binding that belongs to an older session moves to the current one before its effect goes out.\<close>

definition refresh_session :: "binding_id \<Rightarrow> binding \<Rightarrow> node_service \<Rightarrow> (u64 \<times> u64) in_service" where
  "refresh_session i b s =
     (case Option.bind (machine_at s (b_node b)) (session_of s) of
        None \<Rightarrow> (s, Done (b_agent_session b, b_fence b))
      | Some current \<Rightarrow>
          if current = b_agent_session b then (s, Done (b_agent_session b, b_fence b))
          else
            and_svc (service_commit (RebindSession i current) s) (\<lambda>s _.
              (case binding_at s i of
                 None \<Rightarrow> (s, Raise (UnknownBinding i))
               | Some refreshed \<Rightarrow> (s, Done (b_agent_session refreshed, b_fence refreshed)))))"

fun binding_request :: "effect_phase \<Rightarrow> binding_id \<Rightarrow> binding \<Rightarrow> u64 \<Rightarrow> u64 \<Rightarrow> u64 \<Rightarrow> agent_request" where
  "binding_request PhPrepare i b session fence epoch = RqPrepare i (b_lease b) (b_node b) (b_provider b) (b_scope b) session fence epoch"
| "binding_request PhActivate i b session fence epoch = RqActivate i (b_lease b) (b_node b) (b_provider b) (b_scope b) session fence epoch"
| "binding_request PhRelease i b session fence epoch = RqRelease i (b_lease b) (b_node b) (b_provider b) (b_scope b) session fence epoch"
| "binding_request PhFence i b session fence epoch = RqFence i (b_lease b) (b_node b) (b_provider b) (b_scope b) session fence epoch"

text \<open>The hold: the lease has ended, it ran a program, its machine has a session, and the stop of its member is not proven.\<close>

definition must_hold :: "node_service \<Rightarrow> lease_id \<Rightarrow> node_id \<Rightarrow> bool" where
  "must_hold s lease machine \<longleftrightarrow>
     lease_ended s lease \<and> runs_program s lease \<and> session_of s machine \<noteq> None \<and> \<not> member_stop_proven s lease machine"

definition route_binding :: "effect_phase \<Rightarrow> binding_id \<Rightarrow> u64 \<Rightarrow> node_service \<Rightarrow> command list in_service" where
  "route_binding phase i epoch s =
     (case binding_at s i of
        None \<Rightarrow> (s, Raise (UnknownBinding i))
      | Some b \<Rightarrow>
          and_svc (refresh_session i b s) (\<lambda>s (session, fence).
            (case machine_at s (b_node b) of
               None \<Rightarrow> (s, Raise (Refused (''binding '' @ display_binding i @ '' node has no machine ancestor'')))
             | Some machine \<Rightarrow>
                 if must_hold s (b_lease b) machine then
                   let s1 = maybe_stop_executions (b_lease b) s
                   in (s1\<lparr>s_held_effects := insert (i, phase) (s_held_effects s1)\<rparr>, Done [])
                 else
                   (svc_dispatch machine (TagBinding i session fence phase) (binding_request phase i b session fence epoch) s,
                    Done []))))"

fun effect_phase :: "effect \<Rightarrow> (effect_phase \<times> binding_id \<times> u64) option" where
  "effect_phase (EffPrepare i n provider fence session epoch) = Some (PhPrepare, i, epoch)"
| "effect_phase (EffActivate i n provider fence session epoch) = Some (PhActivate, i, epoch)"
| "effect_phase (EffRelease i n provider fence session epoch) = Some (PhRelease, i, epoch)"
| "effect_phase (EffFence i n provider fence session epoch) = Some (PhFence, i, epoch)"
| "effect_phase (EffReconcile machine session epoch bindings) = None"

definition redrive :: "node_service \<Rightarrow> u64 \<Rightarrow> binding_id \<Rightarrow> command list" where
  "redrive s session i =
     (case Option.bind (binding_at s i) (\<lambda>b. lease_state_of s (b_lease b)) of
        Some LActive \<Rightarrow> [RebindSession i session, ActivateBinding i]
      | _ \<Rightarrow> [])"

definition route :: "effect \<Rightarrow> node_service \<Rightarrow> command list in_service" where
  "route eff s =
     (case eff of
        EffReconcile machine session epoch bindings \<Rightarrow>
          if btree_contains_key (s_recovering_machines s) machine then route_recovery machine bindings s
          else (s, Done (concat (map (redrive s session) bindings)))
      | _ \<Rightarrow>
          (case effect_phase eff of
             None \<Rightarrow> (s, Panic)
           | Some (phase, i, epoch) \<Rightarrow> route_binding phase i epoch s))"

text \<open>One effect: route it and commit what it asks for.\<close>

definition deliver :: "effect \<Rightarrow> node_service \<Rightarrow> unit in_service" where
  "deliver eff s = and_svc (route eff s) (\<lambda>s commands. each_svc service_commit commands s)"

subsection \<open>The pump ends\<close>

text \<open>Sending jobs and noting what a recovery waits for touches nothing else.\<close>

definition quiet :: "node_service \<Rightarrow> node_service \<Rightarrow> bool" where
  "quiet s s' \<longleftrightarrow> (\<exists>I J R E. s' = s\<lparr>s_inflight := I, s_jobs := J, s_recovering_machines := R, s_recovery_events := E\<rparr>)"

lemma quiet_refl [simp]: "quiet s s"
  unfolding quiet_def by (rule exI [of _ "s_inflight s"], rule exI [of _ "s_jobs s"],
    rule exI [of _ "s_recovering_machines s"], rule exI [of _ "s_recovery_events s"]) simp

lemma quiet_trans [trans]: "quiet s s1 \<Longrightarrow> quiet s1 s2 \<Longrightarrow> quiet s s2"
  unfolding quiet_def by (elim exE, simp, blast)

lemma quiet_fold: "(\<And>x s. quiet s (f x s)) \<Longrightarrow> quiet s (fold f xs s)"
  by (induction xs arbitrary: s) (auto intro: quiet_trans)

lemma quiet_dispatch [simp]: "quiet s (svc_dispatch machine tag request s)"
  unfolding quiet_def svc_dispatch_def Let_def
  by (rule exI [of _ "s_inflight (svc_dispatch machine tag request s)"], rule exI [of _ "s_jobs (svc_dispatch machine tag request s)"],
    rule exI [of _ "s_recovering_machines s"], rule exI [of _ "s_recovery_events s"]) (simp add: svc_dispatch_def Let_def)

lemma quiet_expect [simp]: "quiet s (expect_member machine lease s)"
  unfolding quiet_def expect_member_def
  by (rule exI [of _ "s_inflight s"], rule exI [of _ "s_jobs s"], rule exI, rule exI [of _ "s_recovery_events s"]) simp

lemma quiet_event [simp]: "quiet s (push_event event s)"
  unfolding quiet_def push_event_def
  by (rule exI [of _ "s_inflight s"], rule exI [of _ "s_jobs s"], rule exI [of _ "s_recovering_machines s"], rule exI) simp

lemma quiet_status [simp]: "quiet s (request_status_on_machine lease machine s)"
  by (simp add: request_status_on_machine_def Let_def split: option.split)

lemma quiet_stops [simp]: "quiet s (maybe_stop_executions lease s)"
  unfolding maybe_stop_executions_def
  by (auto intro!: quiet_fold simp: stop_member_def split: option.split)

lemma quiet_sort_recovery:
  "sort_recovery machine is active preparing terminal s = (s', out) \<Longrightarrow> quiet s s'"
proof (induction "is" arbitrary: active preparing terminal s)
  case (Cons i rest)
  have "quiet s s'" if "sort_recovery machine rest a p t (expect_member machine lease s) = (s', out)" for a p t lease
    using Cons.IH [OF that] by (rule quiet_trans [OF quiet_expect])
  with Cons show ?case by (auto split: option.splits if_splits)
qed simp

lemma quiet_folds:
  "quiet s1 (fold (\<lambda>lease. request_status_on_machine lease machine) terminal
     (fold (\<lambda>lease s. request_status_on_machine lease machine (expect_member machine lease s)) active
       (fold (\<lambda>lease. push_event (PreparingLeaseFailed lease machine)) failing s1)))"
proof -
  have "quiet s (request_status_on_machine lease machine (expect_member machine lease s))" for lease s
    using quiet_expect quiet_status by (rule quiet_trans)
  then show ?thesis by (intro quiet_trans [OF quiet_fold quiet_trans [OF quiet_fold quiet_fold]]) simp_all
qed

lemma quiet_route_recovery:
  assumes "route_recovery machine is s = (s', r)"
  shows "quiet s s'" and "\<exists>leases reason. r = Done (map (\<lambda>lease. FailLease lease reason) leases)"
proof -
  obtain s1 active preparing terminal where sorted: "sort_recovery machine is {} {} {} s = (s1, active, preparing, terminal)"
    by (cases "sort_recovery machine is {} {} {} s")
  note out = assms [unfolded route_recovery_def Let_def sorted prod.case, symmetric]
  have "quiet s1 s'" using out by (simp only: prod.inject quiet_folds)
  with quiet_sort_recovery [OF sorted] show "quiet s s'" by (rule quiet_trans)
  show "\<exists>leases reason. r = Done (map (\<lambda>lease. FailLease lease reason) leases)"
    using out by (simp only: prod.inject) blast
qed

lemma quiet_fields:
  assumes "quiet s s'"
  shows "s_cluster s' = s_cluster s" "s_pending s' = s_pending s" "s_agents s' = s_agents s" "s_requests s' = s_requests s"
    "s_execution_stopped s' = s_execution_stopped s" "s_execution_started s' = s_execution_started s"
    "s_provider_activations s' = s_provider_activations s" "s_held_effects s' = s_held_effects s"
    "s_history s' = s_history s" "s_next_lease s' = s_next_lease s" "s_durable_sink s' = s_durable_sink s"
  using assms by (auto simp: quiet_def)

lemma commit_cases [consumes 1, case_names refused accepted]:
  assumes "service_commit cmd s = (s', r)"
  obtains (refused) c e where "cluster_apply (s_cluster s) cmd = (c, Err e)" and "s' = s\<lparr>s_cluster := c\<rparr>" and "r = Raise e"
  | (accepted) c effects where "cluster_apply (s_cluster s) cmd = (c, Ok effects)" and "r = Done ()"
      and "s_cluster s' = c" and "s_pending s' = s_pending s @ effects" and "s_history s' = s_history s @ [cmd]"
  using assms
  by (auto simp: service_commit_def persist_def Let_def split: prod.splits result.splits option.splits)

text \<open>What a command adds to the effects on the way.\<close>

definition sends :: "(effect \<Rightarrow> bool) \<Rightarrow> node_service \<Rightarrow> node_service \<Rightarrow> bool" where
  "sends Q s s' \<longleftrightarrow> (\<exists>effects. s_pending s' = s_pending s @ effects \<and> (\<forall>e\<in>set effects. Q e))"

lemma sends_same: "s_pending s' = s_pending s \<Longrightarrow> sends Q s s'"
  by (simp add: sends_def)

lemma sends_trans: "sends Q s s1 \<Longrightarrow> sends Q s1 s2 \<Longrightarrow> sends Q s s2"
  by (fastforce simp: sends_def)

lemma sends_commit:
  assumes "\<And>c' effects e. dispatch (s_cluster s) cmd = (c', Ok effects) \<Longrightarrow> e \<in> set effects \<Longrightarrow> Q e"
    and "service_commit cmd s = (s', r)"
  shows "sends Q s s'"
  using assms(2)
proof (cases rule: commit_cases)
  case (accepted c effects)
  then obtain c' where "dispatch (s_cluster s) cmd = (c', Ok effects)"
    by (auto simp: cluster_apply_def split: prod.splits result.splits)
  with assms(1) accepted show ?thesis by (auto simp: sends_def)
qed (simp add: sends_same)

lemma sends_each:
  assumes "\<And>x s s' r. x \<in> set xs \<Longrightarrow> f x s = (s', r) \<Longrightarrow> sends Q s s'" and "each_svc f xs s = (s', r)"
  shows "sends Q s s'"
  using assms
proof (induction xs arbitrary: s)
  case (Cons x xs)
  obtain s1 r1 where one: "f x s = (s1, r1)" by (cases "f x s")
  have "sends Q s s1" using Cons.prems(1) [of x s s1 r1] one by simp
  moreover have "sends Q s1 s'" if "each_svc f xs s1 = (s', r)"
  proof (rule Cons.IH [OF _ that])
    fix y s s' r
    assume "y \<in> set xs" "f y s = (s', r)"
    then show "sends Q s s'" using Cons.prems(1) [of y s s' r] by simp
  qed
  ultimately show ?case using one Cons.prems(2) by (cases r1) (auto intro: sends_trans)
qed (simp add: sends_same)

fun is_reconcile_effect :: "effect \<Rightarrow> bool" where
  "is_reconcile_effect (EffReconcile machine session epoch bindings) = True"
| "is_reconcile_effect _ = False"

lemma activate_effects:
  "dispatch c (ActivateBinding i) = (c', Ok effects) \<Longrightarrow> e \<in> set effects \<Longrightarrow> \<not> is_reconcile_effect e"
  by (auto simp: activate_binding_def op_simps binding_effect_def Let_def split: if_splits)

fun recovery_command :: "command \<Rightarrow> bool" where
  "recovery_command (RebindSession i session) = True"
| "recovery_command (ActivateBinding i) = True"
| "recovery_command (FailLease lease reason) = True"
| "recovery_command _ = False"

lemma fence_no_reconcile: "is_fence e \<Longrightarrow> \<not> is_reconcile_effect e"
  by (cases e) simp_all

lemma recovery_command_sends:
  assumes "service_commit cmd s = (s', r)" and "recovery_command cmd"
  shows "sends (\<lambda>e. \<not> is_reconcile_effect e) s s'"
proof (rule sends_commit [OF _ assms(1)])
  fix c' effects e
  assume "dispatch (s_cluster s) cmd = (c', Ok effects)" "e \<in> set effects"
  with assms(2) show "\<not> is_reconcile_effect e"
    using rebind_effects activate_effects fail_effects fence_no_reconcile
    by (cases cmd rule: recovery_command.cases) (simp_all, fastforce+)
qed

lemma refresh_pending: "refresh_session i b s = (s', r) \<Longrightarrow> s_pending s' = s_pending s"
proof -
  assume out: "refresh_session i b s = (s', r)"
  have silent: "s_pending s1 = s_pending s" if "service_commit (RebindSession i session) s = (s1, r1)" for session s1 r1
    using sends_commit [OF _ that, of "\<lambda>_. False"] rebind_effects by (fastforce simp: sends_def)
  have "s' = s \<or> (\<exists>session r1. service_commit (RebindSession i session) s = (s', r1))"
    using out by (fastforce simp: refresh_session_def split: option.splits if_splits elim!: and_svc.elims)
  with silent show ?thesis by blast
qed

lemma route_binding_pending:
  assumes "route_binding phase i epoch s = (s', r)"
  shows "s_pending s' = s_pending s" and "r = Done cmds \<Longrightarrow> cmds = []"
proof -
  have "s_pending s' = s_pending s \<and> (\<forall>cmds. r = Done cmds \<longrightarrow> cmds = [])"
  proof (cases "binding_at s i")
    case (Some b)
    obtain s1 r1 where ref: "refresh_session i b s = (s1, r1)" by (cases "refresh_session i b s")
    note p = refresh_pending [OF ref]
    have "s_pending (maybe_stop_executions l s1) = s_pending s1" "s_pending (svc_dispatch m t q s1) = s_pending s1" for l m t q
      using quiet_fields(2) [OF quiet_stops] quiet_fields(2) [OF quiet_dispatch] by auto
    then show ?thesis
      using assms Some ref p
      by (cases r1) (auto simp: route_binding_def Let_def split: option.splits if_splits prod.splits)
  qed (use assms in \<open>auto simp: route_binding_def\<close>)
  then show "s_pending s' = s_pending s" and "r = Done cmds \<Longrightarrow> cmds = []" by blast+
qed

definition pump_order :: "(node_service \<times> node_service) set" where
  "pump_order = measures [\<lambda>s. length (filter is_reconcile_effect (s_pending s)), \<lambda>s. length (s_pending s)]"

lemma deliver_binding_pending:
  assumes "deliver eff s = (s', r)" and "effect_phase eff = Some (phase, i, epoch)"
  shows "s_pending s' = s_pending s"
proof -
  obtain s1 r1 where one: "route_binding phase i epoch s = (s1, r1)" by (cases "route_binding phase i epoch s")
  have "route eff s = (s1, r1)" using assms(2) one by (cases eff) (simp_all add: route_def)
  then show ?thesis using assms(1) route_binding_pending [OF one] by (cases r1) (auto simp: deliver_def)
qed

lemma deliver_sends:
  assumes "deliver eff s = (s', r)"
  shows "sends (\<lambda>e. is_reconcile_effect eff \<and> \<not> is_reconcile_effect e) s s'"
proof (cases eff)
  case (EffReconcile machine session epoch bindings)
  obtain s1 r1 where route: "route eff s = (s1, r1)" by (cases "route eff s")
  have "s_pending s1 = s_pending s \<and> (\<exists>cmds. r1 = Done cmds \<and> list_all recovery_command cmds)"
  proof (cases "btree_contains_key (s_recovering_machines s) machine")
    case True
    then have rec: "route_recovery machine bindings s = (s1, r1)" using route EffReconcile by (simp add: route_def)
    from quiet_route_recovery(2) [OF rec] quiet_fields(2) [OF quiet_route_recovery(1) [OF rec]]
    show ?thesis by (auto simp: list_all_iff)
  next
    case False
    have "list_all recovery_command (redrive s session i)" for i
      by (auto simp: redrive_def split: option.splits lease_state.splits)
    with False route EffReconcile show ?thesis by (auto simp: route_def list_all_iff)
  qed
  then obtain cmds where cmds: "s_pending s1 = s_pending s" "r1 = Done cmds" "list_all recovery_command cmds"
    by blast
  then have "each_svc service_commit cmds s1 = (s', r)" using assms route by (simp add: deliver_def)
  then have "sends (\<lambda>e. \<not> is_reconcile_effect e) s1 s'"
    by (rule sends_each [rotated]) (use cmds(3) recovery_command_sends in \<open>auto simp: list_all_iff\<close>)
  then show ?thesis using cmds(1) EffReconcile by (simp add: sends_def)
qed (use assms deliver_binding_pending in \<open>auto intro!: sends_same\<close>)

lemma deliver_order:
  assumes "s_pending s = eff # rest" and "deliver eff (s\<lparr>s_pending := rest\<rparr>) = (s', r)"
  shows "(s', s) \<in> pump_order"
proof -
  obtain effects where e: "s_pending s' = rest @ effects" "\<forall>e\<in>set effects. is_reconcile_effect eff \<and> \<not> is_reconcile_effect e"
    using deliver_sends [OF assms(2)] by (auto simp: sends_def)
  then have "filter is_reconcile_effect effects = []" "\<not> is_reconcile_effect eff \<Longrightarrow> effects = []"
    by (auto simp: filter_empty_conv)
  with assms(1) e(1) show ?thesis by (simp add: pump_order_def)
qed

function pump :: "node_service \<Rightarrow> unit in_service" where
  "pump s =
     (case s_pending s of
        [] \<Rightarrow> (s, Done ())
      | eff # rest \<Rightarrow>
          (case deliver eff (s\<lparr>s_pending := rest\<rparr>) of
             (s', Done _) \<Rightarrow> pump s'
           | (s', Raise e) \<Rightarrow> (s', Raise e)
           | (s', Panic) \<Rightarrow> (s', Panic)))"
  by pat_completeness auto

termination
  by (relation pump_order) (simp add: pump_order_def, rule deliver_order, simp, rule sym, simp)

declare pump.simps [simp del]
end
