(* ===== verification/Node_Controller.thy ===== *)
theory Node_Controller
  imports Node_Service
begin

text \<open>
  The controller on the side of the answers (\<^verbatim>\<open>crates/node/src/service.rs\<close>): teardown that waited for the stop of a member, the
  recovery of a machine that came back, the absorption of answers, and the operations a control plane calls on a
  controller that is running. Waiting for answers is a list of what arrives between two rounds.
\<close>

section \<open>Held teardown\<close>

fun held_effect :: "effect_phase \<Rightarrow> binding_id \<Rightarrow> binding \<Rightarrow> u64 \<Rightarrow> effect option" where
  "held_effect PhPrepare i b epoch = None"
| "held_effect PhActivate i b epoch = None"
| "held_effect PhRelease i b epoch = Some (EffRelease i (b_node b) (b_provider b) (b_fence b) (b_agent_session b) epoch)"
| "held_effect PhFence i b epoch = Some (EffFence i (b_node b) (b_provider b) (b_fence b) (b_agent_session b) epoch)"

definition drive_held :: "binding_id \<times> effect_phase \<Rightarrow> node_service \<Rightarrow> unit in_service" where
  "drive_held = (\<lambda>(i, phase) s.
     (case binding_at s i of
        None \<Rightarrow> (s, Done ())
      | Some b \<Rightarrow>
          (case machine_at s (b_node b) of
             None \<Rightarrow> (s, Done ())
           | Some machine \<Rightarrow>
               if member_stop_proven s (b_lease b) machine then
                 (case held_effect phase i b (k_epoch (s_cluster s)) of
                    None \<Rightarrow> (s, Panic)
                  | Some eff \<Rightarrow> deliver eff s)
               else (s\<lparr>s_held_effects := insert (i, phase) (s_held_effects s)\<rparr>, Done ()))))"

definition drive_held_effects :: "node_service \<Rightarrow> unit in_service" where
  "drive_held_effects s =
     each_svc drive_held (sorted_list_of_set (s_held_effects s)) (s\<lparr>s_held_effects := {}\<rparr>)"

section \<open>Completion\<close>

definition resolve_observed_completion :: "lease_id \<Rightarrow> lease_id list \<Rightarrow> node_service \<Rightarrow> node_service \<times> lease_id list" where
  "resolve_observed_completion lease finished s =
     (if lease_state_of s lease \<noteq> Some LActive then (s, finished)
      else
        let machines = lease_machines s lease;
            exit_code_of = (\<lambda>machine. Option.bind (btree_get (s_member_status s) (lease, machine)) mst_exit_code)
        in if machines = [] then (s, finished)
           else case List.map_filter (\<lambda>machine. case exit_code_of machine of Some code \<Rightarrow> if code \<noteq> 0 then Some code else None | None \<Rightarrow> None) machines of
             exit_code # _ \<Rightarrow> (commit_lenient (CompleteLease lease exit_code) s, finished @ [lease])
           | [] \<Rightarrow>
               if list_all (\<lambda>machine. exit_code_of machine = Some 0) machines
               then (commit_lenient (CompleteLease lease 0) s, finished @ [lease])
               else (s, finished))"

section \<open>Recovery\<close>

definition finish_machine_recovery :: "node_id \<Rightarrow> node_service \<Rightarrow> node_service" where
  "finish_machine_recovery machine s =
     (let s1 = s\<lparr>s_recovering_machines := btree_remove machine (s_recovering_machines s)\<rparr>
      in commit_lenient (SetNodeHealth machine ''healthy'') (commit_lenient (UnquarantineNode machine) s1))"

definition rebind_lease_machine :: "lease_id \<Rightarrow> node_id \<Rightarrow> node_service \<Rightarrow> unit in_service" where
  "rebind_lease_machine lease machine s =
     (case session_of s machine of
        None \<Rightarrow> (s, Done ())
      | Some session \<Rightarrow>
          each_svc (\<lambda>i. service_commit (RebindSession i session))
            (filter (\<lambda>i. case binding_at s i of
                None \<Rightarrow> False
              | Some b \<Rightarrow> b_agent_session b \<noteq> session \<and> machine_at s (b_node b) = Some machine)
              (bindings_for (s_cluster s) lease)) s)"

text \<open>The proofs of the active bindings on the machine, moved to the session they now belong to.\<close>

definition adopt_activations :: "lease_id \<Rightarrow> node_id \<Rightarrow> node_service \<Rightarrow> node_service" where
  "adopt_activations lease machine s =
     fold (\<lambda>i s. case binding_at s i of
         None \<Rightarrow> s
       | Some b \<Rightarrow>
           if b_state b = BActive \<and> machine_at s (b_node b) = Some machine
           then s\<lparr>s_provider_activations := insert (i, b_agent_session b, b_fence b) (s_provider_activations s)\<rparr>
           else s) (bindings_for (s_cluster s) lease) s"

definition adopt_execution :: "lease_id \<Rightarrow> node_id \<Rightarrow> bool \<Rightarrow> node_service \<Rightarrow> node_service" where
  "adopt_execution lease machine running s =
     (case session_of s machine of
        None \<Rightarrow> s
      | Some session \<Rightarrow>
          let s1 = s\<lparr>s_execution_started := insert (lease, machine, session) (s_execution_started s)\<rparr>
          in if running then s1
             else s1\<lparr>s_execution_stopped := insert (lease, machine, session) (s_execution_stopped s1)\<rparr>)"

definition resolve_recovered_member ::
    "lease_id \<Rightarrow> node_id \<Rightarrow> bool \<Rightarrow> int option \<Rightarrow> lease_id list \<Rightarrow> node_service \<Rightarrow> lease_id list in_service" where
  "resolve_recovered_member lease machine running exit_code finished s =
     (let s1 = s\<lparr>s_member_status := btree_insert (lease, machine) \<lparr>mst_running = running, mst_exit_code = exit_code\<rparr> (s_member_status s)\<rparr>
      in if lease_ended s1 lease then
           let s2 = (case session_of s1 machine of
                       None \<Rightarrow> s1
                     | Some session \<Rightarrow>
                         if \<not> running \<and> exit_code \<noteq> None
                         then s1\<lparr>s_execution_stopped := insert (lease, machine, session) (s_execution_stopped s1)\<rparr> else s1);
               s3 = maybe_stop_executions lease s2
           in and_svc (log_error (drive_held_effects s3)) (\<lambda>s _. (push_event (TerminalMemberResolved lease machine) s, Done finished))
         else if running \<or> exit_code \<noteq> None then
           (case rebind_lease_machine lease machine s1 of
              (s2, Raise e) \<Rightarrow>
                (commit_lenient (RevokeLease lease) (push_event (MemberRevokedRebindFailed lease machine) s2), Done (finished @ [lease]))
            | (s2, Panic) \<Rightarrow> (s2, Panic)
            | (s2, Done _) \<Rightarrow>
                let s3 = adopt_execution lease machine running (adopt_activations lease machine s2);
                    (s4, finished') = resolve_observed_completion lease finished s3
                in (push_event (MemberRecovered lease machine running exit_code) s4, Done finished'))
         else
           (commit_lenient (RevokeLease lease) (push_event (MemberRevokedUnprovable lease machine) s1), Done (finished @ [lease])))"

text \<open>The members that can be decided: those not to be adopted, and those whose every open binding on the machine is proven.\<close>

definition member_proven :: "node_service \<Rightarrow> machine_recovery \<Rightarrow> node_id \<Rightarrow> lease_id \<Rightarrow> bool" where
  "member_proven s recovery machine lease \<longleftrightarrow>
     endpoints_settled recovery \<and>
     list_all (proves recovery)
       (filter (\<lambda>b. \<not> is_closed (b_state b) \<and> machine_at s (b_node b) = Some machine)
         (List.map_filter (binding_at s) (bindings_for (s_cluster s) lease)))"

definition ready_members :: "node_service \<Rightarrow> machine_recovery \<Rightarrow> node_id \<Rightarrow> (lease_id \<times> member_status) list" where
  "ready_members s recovery machine =
     List.map_filter (\<lambda>(lease, status).
         (case status of
            None \<Rightarrow> None
          | Some status \<Rightarrow>
              let active = (lease_state_of s lease = Some LActive);
                  needs_adoption = active \<and> (mst_running status \<or> mst_exit_code status \<noteq> None)
              in if \<not> needs_adoption \<or> member_proven s recovery machine lease then Some (lease, status) else None))
       (btree_entries (mr_members recovery))"

fun resolve_members ::
    "node_id \<Rightarrow> (lease_id \<times> member_status) list \<Rightarrow> lease_id list \<Rightarrow> node_service \<Rightarrow> lease_id list in_service" where
  "resolve_members machine [] finished s = (s, Done finished)"
| "resolve_members machine ((lease, status) # ready) finished s =
     and_svc (resolve_recovered_member lease machine (mst_running status) (mst_exit_code status) finished
         (s\<lparr>s_recovering_machines := btree_modify machine
             (\<lambda>recovery. recovery\<lparr>mr_members := btree_remove lease (mr_members recovery)\<rparr>) (s_recovering_machines s)\<rparr>))
       (\<lambda>s finished. resolve_members machine ready finished s)"

definition resolve_machine_recovery :: "node_id \<Rightarrow> lease_id list \<Rightarrow> node_service \<Rightarrow> lease_id list in_service" where
  "resolve_machine_recovery machine finished s =
     (case btree_get (s_recovering_machines s) machine of
        None \<Rightarrow> (s, Done finished)
      | Some recovery \<Rightarrow>
          and_svc (resolve_members machine (ready_members s recovery machine) finished s) (\<lambda>s finished.
            (case btree_get (s_recovering_machines s) machine of
               Some recovery \<Rightarrow>
                 if recovery_complete recovery then (finish_machine_recovery machine s, Done finished) else (s, Done finished)
             | None \<Rightarrow> (s, Done finished))))"

section \<open>Enumeration\<close>

definition inconsistent_endpoint :: "node_service \<Rightarrow> node_id \<Rightarrow> enumerated_endpoint \<Rightarrow> bool" where
  "inconsistent_endpoint s machine e \<longleftrightarrow>
     machine_at s (ee_node e) \<noteq> Some machine \<or> (ee_open e \<and> ee_binding e = None) \<or>
     (case Option.bind (ee_binding e) (binding_at s) of None \<Rightarrow> False | Some b \<Rightarrow> \<not> same_generation e b)"

datatype (plugins only: code size) verdict = Skip | Teardown binding_id | RecordClosed binding_id u64 | Stray binding_id

definition judge_endpoint :: "node_service \<Rightarrow> node_id \<Rightarrow> enumerated_endpoint \<Rightarrow> verdict" where
  "judge_endpoint s machine e =
     (case ee_binding e of
        None \<Rightarrow> Skip
      | Some i \<Rightarrow>
          let lease_expected_open =
                (case binding_at s i of
                   None \<Rightarrow> False
                 | Some b \<Rightarrow> \<not> is_closed (b_state b) \<and>
                     (lease_state_of s (b_lease b) = Some LActive \<or> lease_state_of s (b_lease b) = Some LPreparing))
          in if lease_expected_open then Skip
             else case binding_at s i of
               Some b \<Rightarrow>
                 if \<not> is_closed (b_state b) then
                   let needs_stop = runs_program s (b_lease b) \<and> \<not> member_stop_proven s (b_lease b) machine
                   in if ee_open e \<or> needs_stop then Teardown i else RecordClosed i (ee_accepted_fence e)
                 else if ee_open e then Stray i else Skip
             | None \<Rightarrow> if ee_open e then Stray i else Skip)"

definition fence_stray :: "node_id \<Rightarrow> u64 \<Rightarrow> binding_id \<times> enumerated_endpoint \<Rightarrow> node_service \<Rightarrow> node_service" where
  "fence_stray machine session = (\<lambda>(i, e) s.
     (let n = ee_node e;
          provider = ee_provider e;
          accepted_fence = ee_accepted_fence e;
          s1 = commit_lenient (AdvanceEndpointFence n provider accepted_fence) (push_event (StrayFenced machine n i) s);
          request = RqFence i 0 n provider (ee_scope e) session accepted_fence (k_epoch (s_cluster s1));
          tag = TagStrayFence machine session n provider (ee_scope e) i accepted_fence
      in case btree_get (s_recovering_machines s1) machine of
           None \<Rightarrow> s1
         | Some recovery \<Rightarrow>
             if tag \<in> mr_stray_fences recovery then s1
             else svc_dispatch machine tag request
                    (s1\<lparr>s_recovering_machines := btree_insert machine
                        (recovery\<lparr>mr_stray_fences := insert tag (mr_stray_fences recovery)\<rparr>) (s_recovering_machines s1)\<rparr>)))"

definition absorb_enumeration :: "node_id \<Rightarrow> enumerated_endpoint list \<Rightarrow> node_service \<Rightarrow> node_service \<times> bool" where
  "absorb_enumeration machine endpoints s =
     (case session_of s machine of
        None \<Rightarrow> (s, False)
      | Some session \<Rightarrow>
          if list_ex (inconsistent_endpoint s machine) endpoints then (s, False)
          else
            let judged = map (\<lambda>e. (judge_endpoint s machine e, e)) endpoints;
                s1 = fold (\<lambda>(verdict, e). case verdict of Teardown i \<Rightarrow> push_event (StrayFenced machine (ee_node e) i) | _ \<Rightarrow> id) judged s;
                s2 = fold (\<lambda>(verdict, e). case verdict of Teardown i \<Rightarrow> commit_lenient (FenceBinding i) | _ \<Rightarrow> id) judged s1;
                s3 = fold (\<lambda>(verdict, e). case verdict of RecordClosed i fence \<Rightarrow> commit_lenient (RecordBindingFenced i session fence) | _ \<Rightarrow> id)
                       judged s2;
                s4 = fold (\<lambda>(verdict, e). case verdict of Stray i \<Rightarrow> fence_stray machine session (i, e) | _ \<Rightarrow> id) judged s3
            in (s4, True))"

section \<open>Answers\<close>

text \<open>Answers of an older session of a machine are dropped for three kinds of call.\<close>

definition stale_answer :: "node_service \<Rightarrow> tag \<Rightarrow> bool" where
  "stale_answer s tag =
     (case tag of
        TagStatus lease machine session \<Rightarrow> session_of s machine \<noteq> Some session
      | TagEnumerate machine session \<Rightarrow> session_of s machine \<noteq> Some session
      | TagStrayFence machine session n provider scope i fence \<Rightarrow> session_of s machine \<noteq> Some session
      | _ \<Rightarrow> False)"

definition absorb_binding ::
    "rendering \<Rightarrow> binding_id \<Rightarrow> u64 \<Rightarrow> u64 \<Rightarrow> agent_reply \<Rightarrow> node_service \<Rightarrow> unit in_service" where
  "absorb_binding rd i session fence reply s =
     (case reply of
        Ok (RsPrepared _ handle) \<Rightarrow>
          let lease = binding_lease s i;
              s1 = commit_lenient (RecordBindingPrepared i session handle fence) s
          in (case lease of None \<Rightarrow> (s1, Done ()) | Some lease \<Rightarrow> (maybe_activate lease s1, Done ()))
      | Ok (RsActivated _) \<Rightarrow>
          let lease = binding_lease s i;
              (s1, accepted) = try_commit_lenient (RecordBindingActive i session fence) s
          in if accepted then
               let s2 = s1\<lparr>s_provider_activations := insert (i, session, fence) (s_provider_activations s1)\<rparr>
               in (case lease of None \<Rightarrow> (s2, Done ()) | Some lease \<Rightarrow> maybe_start_executions rd lease s2)
             else (s1, Done ())
      | Ok (RsReleased _) \<Rightarrow> (commit_lenient (RecordBindingReleased i session fence) s, Done ())
      | Ok (RsFenced _) \<Rightarrow> (commit_lenient (RecordBindingFenced i session fence) s, Done ())
      | Ok (RsFailed _ reason) \<Rightarrow> (commit_lenient (RecordBindingFailed i session reason fence) s, Done ())
      | _ \<Rightarrow> (s, Done ()))"

definition absorb_start :: "rendering \<Rightarrow> lease_id \<Rightarrow> node_id \<Rightarrow> u64 \<Rightarrow> agent_reply \<Rightarrow> node_service \<Rightarrow> node_service" where
  "absorb_start rd lease machine session reply s =
     (let current = (session_of s machine = Some session \<and> lease_state_of s lease = Some LActive);
          prefix = ''execution start on machine '' @ display_node machine;
          unexpected = (\<lambda>other. commit_lenient (FailLease lease
            (prefix @ '' returned unexpected response: '' @ rd_debug rd other)) s)
      in if \<not> current then s
         else case reply of
           Ok (RsExecutionStarted got) \<Rightarrow>
             if got = lease
             then s\<lparr>s_execution_started := insert (lease, machine, session) (s_execution_started s)\<rparr>
             else unexpected (RsExecutionStarted got)
         | Ok (RsExecutionFailed got reason) \<Rightarrow>
             if got = lease
             then commit_lenient (FailLease lease
               (''execution start failed on machine '' @ display_node machine @ '': '' @ reason)) s
             else unexpected (RsExecutionFailed got reason)
         | Ok other \<Rightarrow> unexpected other
         | Err reason \<Rightarrow> commit_lenient (FailLease lease (prefix @ '' became unprovable: '' @ reason)) s)"

definition absorb_stop :: "lease_id \<Rightarrow> node_id \<Rightarrow> u64 \<Rightarrow> agent_reply \<Rightarrow> node_service \<Rightarrow> unit in_service" where
  "absorb_stop lease machine session reply s =
     (if session_of s machine \<noteq> Some session then (s, Done ())
      else case reply of
        Ok (RsExecutionStopped got) \<Rightarrow>
          if got = lease
          then drive_held_effects (s\<lparr>s_execution_stopped := insert (lease, machine, session) (s_execution_stopped s)\<rparr>)
          else (s, Done ())
      | _ \<Rightarrow> (s, Done ()))"

definition expects_status :: "node_service \<Rightarrow> node_id \<Rightarrow> lease_id \<Rightarrow> bool" where
  "expects_status s machine lease =
     (case btree_get (s_recovering_machines s) machine of
        None \<Rightarrow> False
      | Some recovery \<Rightarrow> btree_contains_key (mr_members recovery) lease)"

definition absorb_status :: "lease_id \<Rightarrow> node_id \<Rightarrow> agent_reply \<Rightarrow> lease_id list \<Rightarrow> node_service \<Rightarrow> lease_id list in_service" where
  "absorb_status lease machine reply finished s =
     (let status = (case reply of
            Ok (RsRunning got running exit_code) \<Rightarrow>
              if got = lease then Some \<lparr>mst_running = running, mst_exit_code = exit_code\<rparr> else None
          | _ \<Rightarrow> None);
          unknown = \<lparr>mst_running = False, mst_exit_code = None\<rparr>
      in if expects_status s machine lease then
           resolve_machine_recovery machine finished
             (s\<lparr>s_recovering_machines := btree_modify machine
                 (\<lambda>recovery. recovery\<lparr>mr_members := btree_insert lease
                    (Some (case status of None \<Rightarrow> unknown | Some st \<Rightarrow> st)) (mr_members recovery)\<rparr>)
                 (s_recovering_machines s)\<rparr>)
         else case status of
           None \<Rightarrow> (s, Done finished)
         | Some st \<Rightarrow>
             let (s1, finished') = resolve_observed_completion lease finished
                   (s\<lparr>s_member_status := btree_insert (lease, machine) st (s_member_status s)\<rparr>)
             in (s1, Done finished'))"

definition absorb_bindings_enumerated ::
    "node_id \<Rightarrow> agent_reply \<Rightarrow> lease_id list \<Rightarrow> node_service \<Rightarrow> lease_id list in_service" where
  "absorb_bindings_enumerated machine reply finished s =
     (case reply of
        Ok (RsBindingsEnumerated endpoints) \<Rightarrow>
          let (s1, consistent) = absorb_enumeration machine endpoints s;
              s2 = (if consistent
                    then s1\<lparr>s_recovering_machines := btree_modify machine
                           (\<lambda>recovery. recovery\<lparr>mr_endpoints := Some endpoints\<rparr>) (s_recovering_machines s1)\<rparr>
                    else s1)
          in resolve_machine_recovery machine finished s2
      | _ \<Rightarrow> (s, Done finished))"

definition absorb_stray_fence ::
    "tag \<Rightarrow> node_id \<Rightarrow> binding_id \<Rightarrow> agent_reply \<Rightarrow> lease_id list \<Rightarrow> node_service \<Rightarrow> lease_id list in_service" where
  "absorb_stray_fence tag machine i reply finished s =
     (case reply of
        Ok (RsFenced got) \<Rightarrow>
          if got = i then
            resolve_machine_recovery machine finished
              (s\<lparr>s_recovering_machines := btree_modify machine
                  (\<lambda>recovery. recovery\<lparr>mr_stray_fences := mr_stray_fences recovery - {tag}\<rparr>) (s_recovering_machines s)\<rparr>)
          else (s, Done finished)
      | _ \<Rightarrow> (s, Done finished))"

definition absorb_one :: "rendering \<Rightarrow> tag \<times> agent_reply \<Rightarrow> lease_id list \<Rightarrow> node_service \<Rightarrow> lease_id list in_service" where
  "absorb_one rd = (\<lambda>(tag, reply) finished s.
     (let s1 = s\<lparr>s_inflight := s_inflight s - {tag}\<rparr>
      in if stale_answer s1 tag then (s1, Done finished)
         else case tag of
           TagBinding i session fence phase \<Rightarrow>
             and_svc (absorb_binding rd i session fence reply s1) (\<lambda>s _. (s, Done finished))
         | TagExecutionStart lease machine session \<Rightarrow> (absorb_start rd lease machine session reply s1, Done finished)
         | TagExecutionStop lease machine session \<Rightarrow>
             and_svc (absorb_stop lease machine session reply s1) (\<lambda>s _. (s, Done finished))
         | TagStatus lease machine session \<Rightarrow> absorb_status lease machine reply finished s1
         | TagProbe machine \<Rightarrow>
             (case reply of
                Err _ \<Rightarrow> (s1\<lparr>s_unreachable := s_unreachable s1 @ [machine]\<rparr>, Done finished)
              | Ok _ \<Rightarrow> (s1, Done finished))
         | TagEnumerate machine session \<Rightarrow> absorb_bindings_enumerated machine reply finished s1
         | TagStrayFence machine session n provider scope i fence \<Rightarrow> absorb_stray_fence tag machine i reply finished s1))"

fun absorb_all :: "rendering \<Rightarrow> (tag \<times> agent_reply) list \<Rightarrow> lease_id list \<Rightarrow> node_service \<Rightarrow> lease_id list in_service" where
  "absorb_all rd [] finished s = (s, Done finished)"
| "absorb_all rd (answer # answers) finished s =
     and_svc (absorb_one rd answer finished s) (\<lambda>s finished. absorb_all rd answers finished s)"

definition absorb :: "rendering \<Rightarrow> node_service \<Rightarrow> lease_id list in_service" where
  "absorb rd s =
     and_svc (absorb_all rd (s_inbox s) [] (s\<lparr>s_inbox := []\<rparr>)) (\<lambda>s finished.
       if finished \<noteq> [] then and_svc (pump s) (\<lambda>s _. (s, Done finished)) else (s, Done finished))"

text \<open>A worker posts the answer to a call.\<close>

definition inbox_post :: "tag \<Rightarrow> agent_reply \<Rightarrow> node_service \<Rightarrow> node_service" where
  "inbox_post tag reply s = s\<lparr>s_inbox := s_inbox s @ [(tag, reply)]\<rparr>"

text \<open>
  \<^verbatim>\<open>drive\<close> repeats until nothing is outstanding or its time is over: \<open>arriving\<close> lists the answers that come in while it waits,
  one entry per round, and the end of the list is the timeout.
\<close>

lemma and_svc_cong [fundef_cong]:
  "out = out' \<Longrightarrow> (\<And>s x. out' = (s, Done x) \<Longrightarrow> k s x = k' s x) \<Longrightarrow> and_svc out k = and_svc out' k'"
  by (cases "(out', k')" rule: and_svc.cases) auto

fun drive :: "rendering \<Rightarrow> (tag \<times> agent_reply) list list \<Rightarrow> node_service \<Rightarrow> unit in_service" where
  "drive rd arriving s =
     and_svc (absorb rd s) (\<lambda>s _. and_svc (pump s) (\<lambda>s _.
       if is_quiescent s then (s, Done ())
       else case arriving of
         [] \<Rightarrow> (s, Done ())
       | answers # arriving' \<Rightarrow> drive rd arriving' (fold (\<lambda>(tag, reply). inbox_post tag reply) answers s)))"

declare drive.simps [simp del]

section \<open>Operations of a running controller\<close>

definition service_apply :: "command \<Rightarrow> node_service \<Rightarrow> unit in_service" where
  "service_apply command s = and_svc (service_commit command s) (\<lambda>s _. pump s)"

definition revoke :: "lease_id \<Rightarrow> node_service \<Rightarrow> unit in_service" where
  "revoke lease s = and_svc (service_commit (RevokeLease lease) s) (\<lambda>s _. pump s)"

definition due_leases :: "node_service \<Rightarrow> lease_id list" where
  "due_leases s =
     map l_id (filter (\<lambda>l. (l_state l = LPreparing \<or> l_state l = LActive \<or> l_state l = LReserved) \<and>
         l_expires_at l \<le> k_now (s_cluster s)) (btree_values (k_leases (s_cluster s))))"

definition expire_due :: "node_service \<Rightarrow> lease_id list in_service" where
  "expire_due s =
     (let due = due_leases s
      in and_svc (each_svc (\<lambda>lease. service_commit (ExpireLease lease)) due s) (\<lambda>s _.
           and_svc (pump s) (\<lambda>s _. (s, Done due))))"

text \<open>The wall clock is an argument.\<close>

definition service_tick :: "u64 \<Rightarrow> node_service \<Rightarrow> lease_id list in_service" where
  "service_tick now s = expire_due (s\<lparr>s_cluster := set_now (s_cluster s) now\<rparr>)"

definition collect_completions :: "rendering \<Rightarrow> node_service \<Rightarrow> lease_id list in_service" where
  "collect_completions rd s =
     and_svc (absorb rd s) (\<lambda>s finished.
       and_svc (pump (fold request_status (executing_leases s) s)) (\<lambda>s _. (s, Done finished)))"

definition mark_machine_unhealthy :: "node_id \<Rightarrow> node_service \<Rightarrow> unit in_service" where
  "mark_machine_unhealthy machine s =
     and_svc (service_commit (SetNodeHealth machine ''unhealthy'') s) (\<lambda>s _.
     and_svc (service_commit (QuarantineNode machine) s) (\<lambda>s _.
       let live = map l_id (filter (\<lambda>l. l_state l \<notin> set closed_states \<and>
             list_ex (\<lambda>cl. machine_at s (c_node cl) = Some machine) (a_claims (l_allocation l)))
             (btree_values (k_leases (s_cluster s))))
       in and_svc (each_svc (\<lambda>lease. service_commit (FailLease lease ''machine unhealthy'')) live s) (\<lambda>s _. pump s)))"

definition mark_inventory_mismatch :: "node_id \<Rightarrow> node_service \<Rightarrow> unit in_service" where
  "mark_inventory_mismatch machine s =
     (case node_state_of (s_cluster s) machine of
        Some state \<Rightarrow>
          if state = Joining \<or> state = Schedulable then service_commit (SetNodeState machine Unavailable) s else (s, Done ())
      | None \<Rightarrow> (s, Done ()))"

definition clear_history :: "node_service \<Rightarrow> node_service" where
  "clear_history s = s\<lparr>s_history := [], s_cluster := (s_cluster s)\<lparr>k_log := []\<rparr>\<rparr>"

section \<open>Recovery of a controller\<close>

definition raise_watermarks :: "command \<Rightarrow> node_service \<Rightarrow> node_service" where
  "raise_watermarks command s =
     (case command of
        SetAgentSession machine session \<Rightarrow> s\<lparr>s_next_session := max (s_next_session s) (session + 1)\<rparr>
      | OpenBinding i lease n provider scope \<Rightarrow> s\<lparr>s_next_binding := max (s_next_binding s) (i + 1)\<rparr>
      | ReserveLease lease owner alloc expires_at priority \<Rightarrow>
          s\<lparr>s_next_lease := max (s_next_lease s) (lease + 1), s_next_request_id := max (s_next_request_id s) (lease + 1)\<rparr>
      | PromoteLease lease prepare_deadline \<Rightarrow>
          s\<lparr>s_next_lease := max (s_next_lease s) (lease + 1), s_next_request_id := max (s_next_request_id s) (lease + 1)\<rparr>
      | OpenLease lease owner alloc parent expires_at prepare_deadline priority \<Rightarrow>
          s\<lparr>s_next_lease := max (s_next_lease s) (lease + 1), s_next_request_id := max (s_next_request_id s) (lease + 1)\<rparr>
      | _ \<Rightarrow> s)"

definition set_service_replaying :: "bool \<Rightarrow> node_service \<Rightarrow> node_service" where
  "set_service_replaying replaying s = s\<lparr>s_cluster := set_replaying (s_cluster s) replaying\<rparr>"

definition service_replay :: "command list \<Rightarrow> node_service \<Rightarrow> unit in_service" where
  "service_replay commands s =
     (case each_svc (\<lambda>command s. service_commit command (raise_watermarks command s)) commands (set_service_replaying True s) of
        (s', Done _) \<Rightarrow> ((set_service_replaying False s')\<lparr>s_pending := []\<rparr>, Done ())
      | (s', r) \<Rightarrow> (set_service_replaying False s', r))"

definition restore_state :: "service_state \<Rightarrow> node_service \<Rightarrow> node_service" where
  "restore_state st s =
     s\<lparr>s_next_request_id := st_next_request_id st, s_queue := st_queue st, s_queued_workloads := st_queued_workloads st,
       s_next_session := st_next_session st, s_next_binding := st_next_binding st, s_requests := st_requests st,
       s_provider_activations := {}, s_execution_started := {}, s_execution_stopped := {}, s_held_effects := {},
       s_restart_handled := st_restart_handled st, s_restart_counts := st_restart_counts st,
       s_restart_last_at := st_restart_last_at st, s_restart_root := st_restart_root st,
       s_service_groups := st_service_groups st, s_group_members := st_group_members st,
       s_member_groups := st_member_groups st, s_group_restarts := st_group_restarts st,
       s_group_last_restart := st_group_last_restart st, s_member_pins := st_member_pins st,
       s_next_lease := st_next_lease st\<rparr>"

definition restore :: "cluster \<Rightarrow> service_state \<Rightarrow> node_service \<Rightarrow> node_service" where
  "restore c st s = restore_state st (s\<lparr>s_cluster := cluster_migrate_legacy_observations c, s_pending := []\<rparr>)"

end
