(* ===== verification/Node_Groups.thy ===== *)
theory Node_Groups
  imports Node_Controller Kernel_Preempt
begin

text \<open>
  What the controller does above the cluster (\<^verbatim>\<open>crates/node/src/service.rs\<close>): the queue of submitted work, admission with the
  guarantees the agents report, service groups and their reconciliation, and the restarts of workloads that
  are to be kept alive.
\<close>

section \<open>Submission\<close>

definition svc_enqueue :: "workload_spec \<Rightarrow> owner_id \<Rightarrow> node_service \<Rightarrow> node_service" where
  "svc_enqueue workload owner s =
     (let request = ws_resources workload
      in s\<lparr>s_next_request_id := max (s_next_request_id s) (r_id request + 1),
           s_queued_workloads := btree_insert (r_id request) workload (s_queued_workloads s),
           s_queue := s_queue s @ [\<lparr>q_request = request, q_owner = owner, q_submitted_at = k_now (s_cluster s)\<rparr>]\<rparr>)"

definition submit :: "workload_spec \<Rightarrow> owner_id \<Rightarrow> node_service \<Rightarrow> node_service" where
  "submit workload owner s = persist None (svc_enqueue workload owner s)"

section \<open>Admission\<close>

definition exclude :: "request_id \<Rightarrow> node_id \<Rightarrow> request_exclusions \<Rightarrow> request_exclusions" where
  "exclude request machine = btree_entry {} (insert machine) request"

definition needs_kind :: "request \<Rightarrow> (resource_class \<Rightarrow> bool) \<Rightarrow> bool" where
  "needs_kind request P \<longleftrightarrow> list_ex (\<lambda>need. P (nd_kind need)) (r_needs request)"

definition normalized_kind :: "graph \<Rightarrow> node_id list \<Rightarrow> resource_class \<Rightarrow> bool" where
  "normalized_kind g nodes kind \<longleftrightarrow>
     list_ex (\<lambda>n. case graph_node g n of
         None \<Rightarrow> False
       | Some nd \<Rightarrow> n_kind nd = kind \<and> btree_contains_key (n_attrs nd) HOST_ID_ATTR) nodes"

text \<open>The runtime of the machine cannot make true what the request needs.\<close>

definition incompatible :: "node_service \<Rightarrow> request \<Rightarrow> workload_spec \<Rightarrow> node_id \<Rightarrow> bool" where
  "incompatible s request workload machine \<longleftrightarrow>
     (let needs_cpu = needs_kind request (\<lambda>kind. kind = Cpu);
          needs_memory = needs_kind request (\<lambda>kind. kind = Memory);
          needs_devices = needs_kind request device_kind;
          container = (case ex_image (ws_execution workload) of None \<Rightarrow> False | Some img \<Rightarrow> img \<noteq> []);
          mode = (case btree_get (s_execution_capabilities s) machine of
                    None \<Rightarrow> runtime_capabilities_default
                  | Some caps \<Rightarrow> if container then ec_container caps else ec_process caps);
          below = descendants (k_graph (s_cluster s)) machine;
          normalized_cpu = needs_cpu \<and> normalized_kind (k_graph (s_cluster s)) below Cpu;
          normalized_memory = needs_memory \<and> normalized_kind (k_graph (s_cluster s)) below Memory
      in \<not> rc_available mode \<or> (needs_cpu \<and> \<not> rc_cpu_limit mode) \<or> (needs_memory \<and> \<not> rc_memory_limit mode) \<or>
         (needs_devices \<and> \<not> rc_device_isolation mode) \<or> (normalized_cpu \<and> \<not> rc_physical_cpu_placement mode) \<or>
         (normalized_memory \<and> \<not> rc_numa_memory_placement mode))"

definition request_excluded :: "node_service \<Rightarrow> node_id list \<Rightarrow> queued \<Rightarrow> request_exclusions \<Rightarrow> request_exclusions" where
  "request_excluded s machines q exclusions =
     (let request = q_request q
      in case btree_get (s_queued_workloads s) (r_id request) of
           None \<Rightarrow> exclusions
         | Some workload \<Rightarrow>
             let pinned = (case btree_get (s_member_pins s) (r_id request) of
                   None \<Rightarrow> exclusions
                 | Some pin \<Rightarrow> fold (\<lambda>machine. if machine \<noteq> pin then exclude (r_id request) machine else id) machines exclusions)
             in if \<not> has_program (ws_execution workload) then pinned
                else fold (\<lambda>machine. if incompatible s request workload machine then exclude (r_id request) machine else id)
                       machines pinned)"

definition execution_exclusions :: "node_service \<Rightarrow> request_exclusions" where
  "execution_exclusions s =
     fold (request_excluded s (nodes_of_class (k_graph (s_cluster s)) Machine)) (s_queue s) btree_empty"

definition enforceable_kind :: "resource_class \<Rightarrow> bool" where
  "enforceable_kind kind \<longleftrightarrow> kind = Cpu \<or> kind = Memory \<or> kind = Gpu \<or> kind = Nic \<or> kind = Nvme"

fun validate_claims :: "node_service \<Rightarrow> claim list \<Rightarrow> (unit, error) result" where
  "validate_claims s [] = Ok ()"
| "validate_claims s (cl # claims) =
     (case graph_node (k_graph (s_cluster s)) (c_node cl) of
        None \<Rightarrow> Err (UnknownNode (c_node cl))
      | Some nd \<Rightarrow>
          (case claim_binding_for_quantity (k_graph (s_cluster s)) (c_node cl) (c_quantity cl) of
             Err e \<Rightarrow> Err e
           | Ok required \<Rightarrow>
               if cb_provider required \<noteq> provider_enforce \<or> \<not> enforceable_kind (n_kind nd)
               then Err (Refused (''no registered resource provider can enforce claims on '' @ display_node (c_node cl) @
                      '' ('' @ n_kind nd @ '')''))
               else validate_claims s claims))"

definition validate_allocation_bindings :: "node_service \<Rightarrow> allocation \<Rightarrow> (unit, error) result" where
  "validate_allocation_bindings s alloc = validate_claims s (a_claims alloc)"

definition open_enforced_binding :: "lease_id \<Rightarrow> claim \<Rightarrow> node_service \<Rightarrow> unit in_service" where
  "open_enforced_binding lease cl s =
     (case claim_binding_for_quantity (k_graph (s_cluster s)) (c_node cl) (c_quantity cl) of
        Err e \<Rightarrow> (s, Raise e)
      | Ok spec \<Rightarrow>
          let i = s_next_binding s
          in service_commit (OpenBinding i lease (c_node cl) (cb_provider spec) (cb_scope spec)) (s\<lparr>s_next_binding := i + 1\<rparr>))"

definition open_enforced_bindings :: "lease_id \<Rightarrow> node_service \<Rightarrow> unit in_service" where
  "open_enforced_bindings lease s =
     (case btree_get (k_leases (s_cluster s)) lease of
        None \<Rightarrow> (s, Raise (UnknownLease lease))
      | Some l \<Rightarrow> each_svc (open_enforced_binding lease) (a_claims (l_allocation l)) s)"

fun position :: "('a \<Rightarrow> bool) \<Rightarrow> 'a list \<Rightarrow> nat option" where
  "position P [] = None"
| "position P (x # xs) = (if P x then Some 0 else map_option Suc (position P xs))"

lemma position_at: "position P xs = Some n \<Longrightarrow> n < length xs \<and> P (xs ! n)"
  by (induction xs arbitrary: n) (auto split: if_splits)

lemmas position_less = position_at [THEN conjunct1]
lemmas position_holds = position_at [THEN conjunct2]

text \<open>From the choice of the scheduler to the opened lease; a refused command puts the request back.\<close>

definition open_admitted :: "admission \<Rightarrow> node_service \<Rightarrow> lease_id in_service" where
  "open_admitted adm s =
     (let request = r_id (ad_request adm);
          lease = s_next_lease s;
          workload = btree_get_or (resource_only (ad_request adm)) (s_queued_workloads s) request;
          s1 = s\<lparr>s_next_lease := lease + 1,
                 s_queued_workloads := btree_remove request (s_queued_workloads s),
                 s_requests := btree_insert lease (workload, ad_owner adm) (s_requests s)\<rparr>;
          expires_at = saturating_add (k_now (s_cluster s)) (r_lifetime (ad_request adm));
          prepare_deadline = saturating_add (k_now (s_cluster s)) 20
      in case position (\<lambda>q. r_id (q_request q) = request) (s_queue s1) of
           None \<Rightarrow> (s1, Panic)
         | Some index \<Rightarrow>
             let queued = s_queue s1 ! index;
                 s2 = s1\<lparr>s_queue := take index (s_queue s1) @ drop (Suc index) (s_queue s1)\<rparr>
             in case service_commit (OpenLease lease (ad_owner adm) (ad_allocation adm) None expires_at prepare_deadline
                       (r_priority (ad_request adm))) s2 of
                  (s3, Raise e) \<Rightarrow>
                    (s3\<lparr>s_queue := take index (s_queue s3) @ [queued] @ drop index (s_queue s3),
                        s_requests := btree_remove lease (s_requests s3),
                        s_queued_workloads := btree_insert request workload (s_queued_workloads s3)\<rparr>, Raise e)
                | (s3, Panic) \<Rightarrow> (s3, Panic)
                | (s3, Done _) \<Rightarrow> (s3, Done lease))"

definition admit_one_with_policy :: "admission_policy \<Rightarrow> node_service \<Rightarrow> request_id option in_service" where
  "admit_one_with_policy policy s =
     (case cluster_admit_backfill_with_policy (s_cluster s) (s_queue s) policy (execution_exclusions s) of
        None \<Rightarrow> (s, Done None)
      | Some adm \<Rightarrow>
          and_svc (from_result s (validate_allocation_bindings s (ad_allocation adm))) (\<lambda>s _.
          and_svc (open_admitted adm s) (\<lambda>s lease.
          and_svc (open_enforced_bindings lease s) (\<lambda>s _.
          and_svc (pump s) (\<lambda>s _. (maybe_activate lease s, Done (Some (r_id (ad_request adm)))))))))"

definition admit_one :: "node_service \<Rightarrow> request_id option in_service" where
  "admit_one s = admit_one_with_policy (ceiling_policy btree_empty) s"

section \<open>Service groups\<close>

definition register_service_group :: "service_group \<Rightarrow> node_service \<Rightarrow> node_service \<times> (unit, string) result" where
  "register_service_group g s =
     (case cardinality_validate (sg_cardinality g) of
        Err e \<Rightarrow> (s, Err e)
      | Ok _ \<Rightarrow> (persist None (s\<lparr>s_service_groups := btree_insert (sg_id g) g (s_service_groups s)\<rparr>), Ok ()))"

definition scale_service_group :: "string \<Rightarrow> nat \<Rightarrow> node_service \<Rightarrow> node_service \<times> (nat, string) result" where
  "scale_service_group i target s =
     (case btree_get (s_service_groups s) i of
        None \<Rightarrow> (s, Err (''unknown service group '' @ i))
      | Some g \<Rightarrow>
          (case sg_cardinality g of
             Elastic low _ high \<Rightarrow>
               if target < low \<or> target > high
               then (s, Err (''target '' @ show_nat target @ '' outside elastic bounds ['' @ show_nat low @ '', '' @ show_nat high @ '']''))
               else (persist None (s\<lparr>s_service_groups :=
                       btree_insert i (g\<lparr>sg_cardinality := Elastic low target high\<rparr>) (s_service_groups s)\<rparr>), Ok target)
           | _ \<Rightarrow> (s, Err (''service group '' @ i @ '' does not use bounded-elastic cardinality''))))"

text \<open>A set is walked in the order of its elements; here the order does not matter.\<close>

definition remove_service_group :: "string \<Rightarrow> node_service \<Rightarrow> node_service" where
  "remove_service_group i s =
     (let s1 = s\<lparr>s_service_groups := btree_remove i (s_service_groups s)\<rparr>
      in persist None
           (case btree_get (s_group_members s1) i of
              None \<Rightarrow> s1
            | Some members \<Rightarrow>
                fold (\<lambda>member s. s\<lparr>s_member_groups := btree_remove member (s_member_groups s),
                                   s_member_pins := btree_remove member (s_member_pins s)\<rparr>)
                  (sorted_list_of_set members) (s1\<lparr>s_group_members := btree_remove i (s_group_members s1)\<rparr>)))"

definition lease_carries :: "node_service \<Rightarrow> request_id \<Rightarrow> lease_id \<Rightarrow> bool" where
  "lease_carries s request lease =
     (case btree_get (s_requests s) lease of None \<Rightarrow> False | Some (workload, _) \<Rightarrow> r_id (ws_resources workload) = request)"

definition group_member_leases :: "node_service \<Rightarrow> string \<Rightarrow> lease_id list" where
  "group_member_leases s i =
     (case btree_get (s_group_members s) i of
        None \<Rightarrow> []
      | Some members \<Rightarrow>
          map l_id (filter (\<lambda>l. \<not> terminal_lease (l_state l) \<and>
              (case btree_get (s_requests s) (l_id l) of
                 None \<Rightarrow> False
               | Some (workload, _) \<Rightarrow> r_id (ws_resources workload) \<in> members)) (btree_values (k_leases (s_cluster s)))))"

definition lease_of_member :: "node_service \<Rightarrow> request_id \<Rightarrow> lease_id option" where
  "lease_of_member s request =
     map_option l_id (find (\<lambda>l. \<not> terminal_lease (l_state l) \<and> lease_carries s request (l_id l))
       (btree_values (k_leases (s_cluster s))))"

definition is_queued :: "node_service \<Rightarrow> request_id \<Rightarrow> bool" where
  "is_queued s request \<longleftrightarrow> list_ex (\<lambda>q. r_id (q_request q) = request) (s_queue s)"

definition member_live :: "node_service \<Rightarrow> request_id \<Rightarrow> bool" where
  "member_live s request \<longleftrightarrow>
     is_queued s request \<or>
     list_ex (\<lambda>(workload, _). r_id (ws_resources workload) = request) (btree_values (s_requests s)) \<and>
     list_ex (\<lambda>l. \<not> terminal_lease (l_state l) \<and> lease_carries s request (l_id l)) (btree_values (k_leases (s_cluster s)))"

definition cancel_member :: "request_id \<Rightarrow> node_service \<Rightarrow> node_service" where
  "cancel_member request s =
     (let s1 = s\<lparr>s_queue := filter (\<lambda>q. r_id (q_request q) \<noteq> request) (s_queue s),
                 s_queued_workloads := btree_remove request (s_queued_workloads s),
                 s_member_pins := btree_remove request (s_member_pins s)\<rparr>
      in case btree_get (s_member_groups s1) request of
           None \<Rightarrow> s1
         | Some g \<Rightarrow>
             s1\<lparr>s_member_groups := btree_remove request (s_member_groups s1),
                s_group_members := btree_modify g (\<lambda>members. members - {request}) (s_group_members s1)\<rparr>)"

subsection \<open>Reconciliation\<close>

definition MAX_RESTARTS :: u32 where "MAX_RESTARTS = 5"

definition BACKOFF_CAP_SECS :: u64 where "BACKOFF_CAP_SECS = 60"

definition restart_delay :: "u32 \<Rightarrow> u64" where
  "restart_delay n = min (push_bit (unat (min n 6)) 1) BACKOFF_CAP_SECS"

text \<open>One fresh member, pinned to a machine in groups with one member per machine.\<close>

definition submit_member :: "service_group \<Rightarrow> node_id option \<Rightarrow> bool \<Rightarrow> request_id list \<times> node_service \<Rightarrow> request_id list \<times> node_service" where
  "submit_member g pin replaces = (\<lambda>(submitted, s).
     (let s1 = (if replaces then s\<lparr>s_group_restarts := btree_entry 0 (\<lambda>n. n + 1) (sg_id g) (s_group_restarts s)\<rparr> else s);
          member = s_next_request_id s1;
          s2 = s1\<lparr>s_next_request_id := member + 1\<rparr>;
          s3 = (case pin of None \<Rightarrow> s2 | Some machine \<Rightarrow> s2\<lparr>s_member_pins := btree_insert member machine (s_member_pins s2)\<rparr>);
          s4 = s3\<lparr>s_member_groups := btree_insert member (sg_id g) (s_member_groups s3),
                  s_group_members := btree_entry {} (insert member) (sg_id g) (s_group_members s3)\<rparr>
      in (submitted @ [member], svc_enqueue (group_member g member) (sg_owner g) s4)))"

text \<open>Dead members leave the index, and their pins go with them.\<close>

definition live_members :: "node_service \<Rightarrow> string \<Rightarrow> request_id list" where
  "live_members s i =
     (case btree_get (s_group_members s) i of
        None \<Rightarrow> []
      | Some members \<Rightarrow> filter (member_live s) (sorted_list_of_set members))"

definition member_count :: "node_service \<Rightarrow> string \<Rightarrow> nat" where
  "member_count s i = (case btree_get (s_group_members s) i of None \<Rightarrow> 0 | Some members \<Rightarrow> card members)"

definition drop_dead_members :: "string \<Rightarrow> request_id list \<Rightarrow> nat \<Rightarrow> node_service \<Rightarrow> node_service" where
  "drop_dead_members i alive died s =
     (let s1 = (case btree_get (s_group_members s) i of
                  None \<Rightarrow> s
                | Some members \<Rightarrow>
                    s\<lparr>s_group_members := btree_insert i (set alive) (s_group_members s),
                      s_member_groups := fold (\<lambda>member. btree_insert member i) (sorted_list_of_set (set alive)) (s_member_groups s)\<rparr>)
      in if died > 0 then
           s1\<lparr>s_member_pins := fold btree_remove
               (filter (\<lambda>member. btree_get (s_member_groups s1) member = Some i \<and> member \<notin> set alive) (btree_keys (s_member_pins s1)))
               (s_member_pins s1)\<rparr>
         else s1)"

definition reconcile_per_machine ::
    "service_group \<Rightarrow> node_id list \<Rightarrow> request_id list \<Rightarrow> nat \<Rightarrow> request_id list \<times> node_service \<Rightarrow> request_id list \<times> node_service" where
  "reconcile_per_machine g machines alive died = (\<lambda>(submitted, s).
     (let now = k_now (s_cluster s);
          live_machines = set (List.map_filter (btree_get (s_member_pins s)) alive);
          missing = sort (filter (\<lambda>machine. machine \<notin> live_machines) machines)
      in if missing = [] then (submitted, s)
         else
           let s1 = s\<lparr>s_group_restarts := btree_entry 0 id (sg_id g) (s_group_restarts s)\<rparr>;
               restarts = btree_get_or 0 (s_group_restarts s1) (sg_id g)
           in if restarts < MAX_RESTARTS * word_of_nat (max (length machines) 1) then
                let last_at = btree_get_or 0 (s_group_last_restart s1) (sg_id g);
                    replacement_round = (died > 0)
                in if \<not> replacement_round \<or> now \<ge> saturating_add last_at (restart_delay restarts) then
                     let (submitted', s2) = fold (\<lambda>machine. submit_member g (Some machine) replacement_round) missing (submitted, s1)
                     in (submitted', s2\<lparr>s_group_last_restart := btree_insert (sg_id g) now (s_group_last_restart s2)\<rparr>)
                   else (submitted, s1)
              else (submitted, s1)))"

fun scale_down :: "request_id list \<Rightarrow> nat \<Rightarrow> request_id list \<Rightarrow> node_service \<Rightarrow> request_id list in_service" where
  "scale_down [] to_stop stopped s = (s, Done stopped)"
| "scale_down (member # members) to_stop stopped s =
     (if to_stop = 0 then (s, Done stopped)
      else case lease_of_member s member of
        Some lease \<Rightarrow>
          (case revoke lease s of
             (s', Done _) \<Rightarrow> scale_down members (to_stop - 1) (stopped @ [member]) s'
           | (s', Raise e) \<Rightarrow> scale_down members to_stop stopped s'
           | (s', Panic) \<Rightarrow> (s', Panic))
      | None \<Rightarrow>
          if is_queued s member then scale_down members (to_stop - 1) (stopped @ [member]) (cancel_member member s)
          else scale_down members to_stop stopped s)"

text \<open>How many members may replace dead ones now: none over the cap or inside the backoff.\<close>

definition allowed_replacement :: "node_service \<Rightarrow> service_group \<Rightarrow> nat \<Rightarrow> nat \<Rightarrow> nat" where
  "allowed_replacement s g desired replacement =
     (let restarts = btree_get_or 0 (s_group_restarts s) (sg_id g);
          cap = MAX_RESTARTS * word_of_nat (max desired 1);
          last_at = btree_get_or 0 (s_group_last_restart s) (sg_id g)
      in if replacement > 0 \<and> restarts \<ge> cap then 0
         else if replacement > 0 \<and> k_now (s_cluster s) < saturating_add last_at (restart_delay restarts) then 0
         else replacement)"

definition fill_group ::
    "service_group \<Rightarrow> nat \<Rightarrow> nat \<Rightarrow> nat \<Rightarrow> request_id list \<times> node_service \<Rightarrow> request_id list \<times> node_service" where
  "fill_group g desired shortfall died = (\<lambda>(submitted, s).
     (if shortfall = 0 then (submitted, s)
      else
        let replacement = min shortfall died;
            growth = shortfall - replacement;
            s1 = s\<lparr>s_group_restarts := btree_entry 0 id (sg_id g) (s_group_restarts s)\<rparr>;
            allowed = allowed_replacement s1 g desired replacement;
            (submitted', s2) = fold (\<lambda>index. submit_member g None (index < allowed)) [0..<allowed + growth] (submitted, s1)
        in (submitted', if allowed > 0
              then s2\<lparr>s_group_last_restart := btree_insert (sg_id g) (k_now (s_cluster s)) (s_group_last_restart s2)\<rparr> else s2)))"

definition reconcile_group :: "node_id list \<Rightarrow> service_group \<Rightarrow> request_id list \<Rightarrow> node_service \<Rightarrow> request_id list in_service" where
  "reconcile_group machines g submitted s =
     (let alive = live_members s (sg_id g);
          died = member_count s (sg_id g) - length alive;
          s1 = drop_dead_members (sg_id g) alive died s
      in if sg_cardinality g = PerMachine then
           (let (submitted', s2) = reconcile_per_machine g machines alive died (submitted, s1) in (s2, Done submitted'))
         else
           let desired = desired_count (sg_cardinality g) (length machines)
           in and_svc
                (if length alive > desired then scale_down (rev (sort alive)) (length alive - desired) [] s1 else (s1, Done []))
                (\<lambda>s2 stopped.
                   let s3 = (if stopped = [] then s2
                             else s2\<lparr>s_group_members := btree_modify (sg_id g) (\<lambda>members. members - set stopped) (s_group_members s2)\<rparr>);
                       alive' = filter (\<lambda>member. member \<notin> set stopped) alive;
                       (submitted', s4) = fill_group g desired (desired - length alive') died (submitted, s3)
                   in (s4, Done submitted')))"

fun reconcile_groups :: "node_id list \<Rightarrow> service_group list \<Rightarrow> request_id list \<Rightarrow> node_service \<Rightarrow> request_id list in_service" where
  "reconcile_groups machines [] submitted s = (s, Done submitted)"
| "reconcile_groups machines (g # gs) submitted s =
     and_svc (reconcile_group machines g submitted s) (\<lambda>s submitted. reconcile_groups machines gs submitted s)"

definition reconcile_service_groups :: "node_service \<Rightarrow> request_id list in_service" where
  "reconcile_service_groups s =
     and_svc (reconcile_groups (nodes_of_class (k_graph (s_cluster s)) Machine) (btree_values (s_service_groups s)) [] s)
       (\<lambda>s submitted. (persist None s, Done submitted))"

section \<open>Restarts\<close>

definition restart_lease ::
    "lease_id \<times> lease \<Rightarrow> (workload_spec \<times> owner_id) list \<times> node_service \<Rightarrow> (workload_spec \<times> owner_id) list \<times> node_service" where
  "restart_lease = (\<lambda>(i, l) (out, s).
     (if \<not> (l_state l = LFailed \<or> l_state l = LExpired) \<or> i \<in> s_restart_handled s then (out, s)
      else case btree_get (s_requests s) i of
        None \<Rightarrow> (out, s)
      | Some (workload, owner) \<Rightarrow>
          if \<not> ws_keep_alive workload then (out, s)
          else
            let root = btree_get_or (r_id (ws_resources workload)) (s_restart_root s) (r_id (ws_resources workload));
                s1 = s\<lparr>s_restart_counts := btree_entry 0 id root (s_restart_counts s)\<rparr>;
                restarts = btree_get_or 0 (s_restart_counts s1) root
            in if restarts \<ge> MAX_RESTARTS then (out, s1\<lparr>s_restart_handled := insert i (s_restart_handled s1)\<rparr>)
               else if k_now (s_cluster s) < saturating_add (btree_get_or 0 (s_restart_last_at s1) root) (restart_delay restarts)
               then (out, s1)
               else
                 let fresh = s_next_request_id s1
                 in (out @ [(workload\<lparr>ws_resources := (ws_resources workload)\<lparr>r_id := fresh\<rparr>\<rparr>, owner)],
                     s1\<lparr>s_restart_counts := btree_insert root (restarts + 1) (s_restart_counts s1),
                        s_restart_last_at := btree_insert root (k_now (s_cluster s)) (s_restart_last_at s1),
                        s_restart_handled := insert i (s_restart_handled s1),
                        s_next_request_id := fresh + 1,
                        s_restart_root := btree_insert fresh root (s_restart_root s1)\<rparr>)))"

definition take_restarts :: "node_service \<Rightarrow> (workload_spec \<times> owner_id) list \<times> node_service" where
  "take_restarts s = fold restart_lease (btree_entries (k_leases (s_cluster s))) ([], s)"

definition queue_restarts :: "node_service \<Rightarrow> request_id list \<times> node_service" where
  "queue_restarts s =
     (let (restarts, s1) = take_restarts s
      in (map (\<lambda>(workload, _). r_id (ws_resources workload)) restarts,
          persist None (fold (\<lambda>(workload, owner). svc_enqueue workload owner) restarts s1)))"

end
