(* ===== verification/Service_Teardown.thy ===== *)
theory Service_Teardown
  imports Node_Service
begin

text \<open>
  What the controller can rely on when the cluster asks to close a binding: unless a command names the binding itself, the
  lease of the binding has ended, and it stays so.
\<close>

section \<open>Ended leases\<close>

definition ended_in :: "cluster \<Rightarrow> lease_id \<Rightarrow> bool" where
  "ended_in c lease \<longleftrightarrow> (\<exists>l. btree_get (k_leases c) lease = Some l \<and> terminal_lease (l_state l))"

definition ended_binding :: "cluster \<Rightarrow> binding_id \<Rightarrow> bool" where
  "ended_binding c i \<longleftrightarrow> (\<exists>b. btree_get (k_bindings c) i = Some b \<and> ended_in c (b_lease b))"

fun closing :: "effect_phase \<Rightarrow> bool" where
  "closing PhRelease = True"
| "closing PhFence = True"
| "closing _ = False"

definition justified :: "cluster \<Rightarrow> effect \<Rightarrow> bool" where
  "justified c eff = (case effect_phase eff of None \<Rightarrow> True | Some (phase, i, _) \<Rightarrow> (closing phase \<longrightarrow> ended_binding c i))"

lemma lease_ended_iff: "lease_ended s lease \<longleftrightarrow> ended_in (s_cluster s) lease"
  by (auto simp: lease_ended_def ended_in_def lease_state_of_def split: option.splits)

lemma terminal_iff: "terminal_lease st \<longleftrightarrow> \<not> lease_live_state st"
  by (cases st) (auto simp: terminal_lease_def lease_live_state_def)

lemma ended_step:
  assumes "kernel_step c c'" and "ended_in c lease"
  shows "ended_in c' lease"
proof -
  obtain l where l: "btree_get (k_leases c) lease = Some l" "terminal_lease (l_state l)" using assms(2) by (auto simp: ended_in_def)
  obtain l' where "btree_get (k_leases c') lease = Some l'" "lease_next l l'" using kernel_step_leases [OF assms(1) l(1)] by blast
  with l(2) show ?thesis by (auto simp: ended_in_def terminal_iff lease_next_def dest: lease_moves_dead)
qed

lemma ended_binding_step:
  assumes "kernel_step c c'" and "ended_binding c i"
  shows "ended_binding c' i"
proof -
  obtain b where b: "btree_get (k_bindings c) i = Some b" "ended_in c (b_lease b)" using assms(2) by (auto simp: ended_binding_def)
  obtain b' where "btree_get (k_bindings c') i = Some b'" "binding_next b b'" using kernel_step_bindings [OF assms(1) b(1)] by blast
  with ended_step [OF assms(1) b(2)] show ?thesis by (auto simp: ended_binding_def binding_next_def)
qed

lemma justified_step: "kernel_step c c' \<Longrightarrow> justified c eff \<Longrightarrow> justified c' eff"
  by (auto simp: justified_def split: option.splits dest: ended_binding_step)

lemma ended_in_log [simp]: "ended_in (c\<lparr>k_log := lg\<rparr>) = ended_in c"
  by (simp add: ended_in_def fun_eq_iff)

lemma ended_binding_log [simp]: "ended_binding (c\<lparr>k_log := lg\<rparr>) = ended_binding c"
  by (simp add: ended_binding_def fun_eq_iff)

lemma justified_log [simp]: "justified (c\<lparr>k_log := lg\<rparr>) = justified c"
  by (simp add: justified_def fun_eq_iff split: option.split)

section \<open>The effects of ending leases\<close>

definition known_leases :: "cluster \<Rightarrow> bool" where
  "known_leases c \<longleftrightarrow> (\<forall>i b. btree_get (k_bindings c) i = Some b \<longrightarrow> b_id b = i \<and> btree_get (k_leases c) (b_lease b) \<noteq> None)"

lemma inv_known: "cluster_inv c \<Longrightarrow> known_leases c"
  by (fastforce simp: cluster_inv_def bindings_ok_def known_leases_def)

lemma fences_justified:
  assumes "known_leases c" and "btree_get (k_leases c) lease \<noteq> None \<longrightarrow> ended_in c lease"
    and "eff \<in> set (fence_effects c lease) \<or> eff \<in> set (release_effects c lease)"
  shows "justified c eff"
  using assms
  by (fastforce simp: fence_effects_def release_effects_def binding_effect_def Let_def justified_def ended_binding_def known_leases_def)

lemma end_lease_ends:
  assumes "list_all terminal_lease kept" and "terminal_lease final"
  shows "ended_in (end_lease kept final i c) j \<longleftrightarrow> ended_in c j \<or> (j = i \<and> btree_get (k_leases c) i \<noteq> None)"
  using assms by (cases "btree_get (k_leases c) i"; cases "j = i") (auto simp: ended_in_def end_lease_def list_all_iff)

lemma end_lease_known: "known_leases c \<Longrightarrow> known_leases (end_lease kept final i c)"
  by (auto simp: known_leases_def end_lease_def)

lemma end_lease_justifies:
  assumes "list_all terminal_lease kept" and "terminal_lease final" and "justified c eff"
  shows "justified (end_lease kept final i c) eff"
  using assms end_lease_ends [OF assms(1,2)]
  by (auto simp: justified_def ended_binding_def split: option.splits) (auto simp: end_lease_def)

lemma end_lease_fences:
  assumes "list_all terminal_lease kept" and "terminal_lease final" and "known_leases c"
    and "eff \<in> set (fence_effects (end_lease kept final i c) i)"
  shows "justified (end_lease kept final i c) eff"
proof (rule fences_justified [OF end_lease_known [OF assms(3)] _ disjI1 [OF assms(4)]])
  show "btree_get (k_leases (end_lease kept final i c)) i \<noteq> None \<longrightarrow> ended_in (end_lease kept final i c) i"
    using end_lease_ends [OF assms(1,2), of i c i] by (auto simp: end_lease_def)
qed

text \<open>An accumulated state: bindings name known leases, every effect so far is justified, and what had ended still has.\<close>

definition ending :: "cluster \<Rightarrow> cluster \<times> effect list \<Rightarrow> bool" where
  "ending c out \<longleftrightarrow> known_leases (fst out) \<and> (\<forall>e\<in>set (snd out). justified (fst out) e) \<and>
     (\<forall>i. (btree_get (k_leases (fst out)) i = None) = (btree_get (k_leases c) i = None)) \<and> k_bindings (fst out) = k_bindings c"

lemma ending_extend:
  assumes "ending c (c1, effects)" and "list_all terminal_lease kept" and "terminal_lease final"
  shows "ending c (end_lease kept final d c1, effects @ fence_effects (end_lease kept final d c1) d)"
  using assms end_lease_known end_lease_justifies end_lease_fences
  by (auto simp: ending_def) (auto simp: end_lease_def split: if_splits)

lemma ending_start: "known_leases c \<Longrightarrow> ending c (c, [])"
  by (simp add: ending_def)

lemma end_descendants_ending:
  assumes "known_leases c" and "list_all terminal_lease kept" and "terminal_lease final"
  shows "ending c (end_descendants kept final ds c)"
proof (induction ds rule: rev_induct)
  case Nil
  from assms(1) show ?case by (simp add: end_descendants_def ending_start)
next
  case (snoc d ds)
  obtain c1 effects where "end_descendants kept final ds c = (c1, effects)" by (cases "end_descendants kept final ds c")
  with snoc ending_extend [OF _ assms(2,3)] show ?case by (auto simp: end_descendants_def Let_def)
qed

lemma revoke_loop_ending:
  assumes "known_leases c" and "list_all terminal_lease kept" and "terminal_lease final"
  shows "ending c (fold (\<lambda>d (c, effects).
      case btree_get (k_leases c) d of
        None \<Rightarrow> (c, effects)
      | Some l \<Rightarrow> let c' = end_lease kept final d c in (c', effects @ fence_effects c' d)) ds (c, []))"
    (is "ending c (fold ?f ds _)")
proof (induction ds rule: rev_induct)
  case Nil
  from assms(1) show ?case by (simp add: ending_start)
next
  case (snoc d ds)
  obtain c1 effects where "fold ?f ds (c, []) = (c1, effects)" by (cases "fold ?f ds (c, [])")
  with snoc ending_extend [OF _ assms(2,3)] show ?case by (auto simp: Let_def split: option.splits)
qed

text \<open>Ending the root lease after its descendants, by whatever write the operation uses.\<close>

lemma ending_root:
  assumes "ending c (c1, effects)" and "btree_get (k_leases c1) i = Some l" and "terminal_lease (l_state l')"
    and "c2 = c1\<lparr>k_leases := btree_insert i l' (k_leases c1)\<rparr>"
    and "e \<in> set effects \<or> e \<in> set (fence_effects c2 i) \<or> e \<in> set (release_effects c2 i)"
  shows "justified c2 e"
proof -
  have known: "known_leases c2" using assms(1,4) by (auto simp: ending_def known_leases_def)
  have ended: "ended_in c2 j \<longleftrightarrow> j = i \<or> ended_in c1 j" for j using assms(3,4) by (auto simp: ended_in_def)
  then have old: "justified c1 e' \<Longrightarrow> justified c2 e'" for e'
    using assms(4) by (auto simp: justified_def ended_binding_def split: option.splits)
  from assms(5) show ?thesis
  proof (elim disjE)
    assume "e \<in> set effects"
    with assms(1) old show ?thesis by (simp add: ending_def)
  qed (use fences_justified [OF known, of i e] ended in auto)
qed

lemma closed_terminal: "list_all terminal_lease closed_states" "list_all terminal_lease (closed_states @ [LCompleted])"
  by (auto simp: closed_states_def terminal_lease_def)

lemma final_terminal [simp]: "terminal_lease LFailed" "terminal_lease LRevoked" "terminal_lease LExpired" "terminal_lease LReleased"
    "terminal_lease LCompleted" "\<not> terminal_lease LActive" "\<not> terminal_lease LPreparing" "\<not> terminal_lease LReserved"
  by (auto simp: terminal_lease_def)

section \<open>Every command\<close>

definition justifies :: "outcome \<Rightarrow> bool" where
  "justifies out \<longleftrightarrow> (\<forall>effects. snd out = Ok effects \<longrightarrow> (\<forall>e\<in>set effects. justified (fst out) e))"

named_theorems just_intros \<open>control flow of operations that close only what has ended\<close>

lemma just_err [just_intros]: "justifies (c, Err e)"
  by (simp add: justifies_def)

lemma just_silent [just_intros]: "justifies (c, Ok [])"
  by (simp add: justifies_def)

lemma just_open [just_intros]:
  "justifies (c, Ok [binding_effect c1 b EffPrepare])" "justifies (c, Ok [binding_effect c1 b EffActivate])"
  "justifies (c, Ok [EffReconcile machine session epoch is])"
  by (simp_all add: justifies_def justified_def binding_effect_def Let_def)

lemma just_on_ok [just_intros]: "(\<And>x. r = Ok x \<Longrightarrow> justifies (k x)) \<Longrightarrow> justifies (on_ok r c k)"
  by (cases r) (simp_all add: just_err)

lemma just_unless [just_intros]: "justifies k \<Longrightarrow> justifies (unless_error o1 c k)"
  by (cases o1) (simp_all add: just_err)

lemma just_if [just_intros]: "(b \<Longrightarrow> justifies x) \<Longrightarrow> (\<not> b \<Longrightarrow> justifies y) \<Longrightarrow> justifies (if b then x else y)"
  by simp

lemma just_option [just_intros]:
  "(o1 = None \<Longrightarrow> justifies x) \<Longrightarrow> (\<And>a. o1 = Some a \<Longrightarrow> justifies (f a)) \<Longrightarrow> justifies (case o1 of None \<Rightarrow> x | Some a \<Rightarrow> f a)"
  by (cases o1) simp_all

lemma facts_justify:
  "justifies (apply_graph c ns es)" "justifies (apply_resource_facts c ns es us)" "justifies (apply_provider_facts c bs us)"
  "justifies (adopt_fact_writers c as)" "justifies (reserve_lease c i owner alloc ex pr)" "justifies (promote_lease c i d)"
  "justifies (open_lease c i owner alloc parent ex d pr)" "justifies (activate_lease c i)" "justifies (renew_lease c i ex)"
  "justifies (set_node_state c n st)" "justifies (set_node_health c n hl)" "justifies (advance_endpoint_fence c n p f)"
  "justifies (quarantine_node c n)" "justifies (unquarantine_node c n)" "justifies (set_agent_session c n ss)"
  unfolding apply_graph_def apply_resource_facts_def apply_provider_facts_def adopt_fact_writers_def install_resource_graph_def
    reserve_lease_def promote_lease_def open_lease_def activate_lease_def renew_lease_def set_node_state_def set_node_health_def
    advance_endpoint_fence_def quarantine_node_def unquarantine_node_def set_agent_session_def Let_def case_prod_beta
  by (intro just_intros)+

lemma bindings_justify:
  "justifies (activate_binding c i)" "justifies (record_prepared c i ss h f)" "justifies (record_active c i ss f)"
  "justifies (record_released c i ss f)" "justifies (record_fenced c i ss f)" "justifies (rebind_session c i ss)"
  "justifies (open_binding c i lease n provider scope)"
  unfolding activate_binding_def record_prepared_def record_active_def record_released_def record_fenced_def rebind_session_def
    open_binding_def Let_def case_prod_beta
  by (intro just_intros)+


lemma fail_lease_justifies:
  assumes "known_leases c"
  shows "justifies (fail_lease c i reason)"
proof -
  obtain c1 pre where run: "end_descendants closed_states LFailed (descendants_postorder c i) c = (c1, pre)"
    by (cases "end_descendants closed_states LFailed (descendants_postorder c i) c")
  have ending: "ending c (c1, pre)"
    unfolding run [symmetric] by (rule end_descendants_ending [OF assms closed_terminal(1)]) simp
  then have "justifies (c1, Ok pre)" by (simp add: justifies_def ending_def)
  moreover have "justifies (c2, Ok (pre @ fence_effects c2 i))"
    if "btree_get (k_leases c1) i = Some l" "c2 = c1\<lparr>k_leases := btree_insert i (l\<lparr>l_state := LFailed\<rparr>) (k_leases c1)\<rparr>" for l c2
    using ending_root [OF ending that(1) _ that(2)] by (auto simp: justifies_def)
  ultimately show ?thesis
    unfolding fail_lease_def run prod.case Let_def by (intro just_on_ok just_if) simp_all
qed

lemma expire_lease_justifies:
  assumes "known_leases c"
  shows "justifies (expire_lease c i)"
proof -
  obtain c1 pre where run: "end_descendants closed_states LExpired (descendants_postorder c i) c = (c1, pre)"
    by (cases "end_descendants closed_states LExpired (descendants_postorder c i) c")
  have ending: "ending c (c1, pre)"
    unfolding run [symmetric] by (rule end_descendants_ending [OF assms closed_terminal(1)]) simp
  have "justifies (c2, Ok (pre @ fence_effects c2 i))"
    if "btree_get (k_leases c1) i = Some l" "c2 = c1\<lparr>k_leases := btree_insert i (l\<lparr>l_state := LExpired\<rparr>) (k_leases c1)\<rparr>" for l c2
    using ending_root [OF ending that(1) _ that(2)] by (auto simp: justifies_def)
  moreover have "justifies (c, Ok (fence_effects c i))" if "btree_get (k_leases c) i = Some l" "l_state l = LExpired" for l
    using fences_justified [OF assms, of i] that by (auto simp: justifies_def ended_in_def)
  ultimately show ?thesis
    unfolding expire_lease_def run prod.case Let_def by (intro just_on_ok just_if just_err) simp_all
qed

lemma complete_lease_justifies:
  assumes "known_leases c"
  shows "justifies (complete_lease c i code)"
proof -
  let ?final = "if code = 0 then LCompleted else LFailed"
  obtain c1 pre where run: "end_descendants (closed_states @ [LCompleted]) ?final (descendants_postorder c i) c = (c1, pre)"
    by (cases "end_descendants (closed_states @ [LCompleted]) ?final (descendants_postorder c i) c")
  have ending: "ending c (c1, pre)"
    unfolding run [symmetric] by (rule end_descendants_ending [OF assms closed_terminal(2)]) simp
  have "justifies (c2, Ok (pre @ fence_effects c2 i))"
    if "btree_get (k_leases c1) i = Some l"
      "c2 = c1\<lparr>k_leases := btree_insert i (l\<lparr>l_state := ?final, l_exit_code := Some code\<rparr>) (k_leases c1)\<rparr>" for l c2
    using ending_root [OF ending that(1) _ that(2)] by (auto simp: justifies_def)
  moreover have "justifies (c, Ok (fence_effects c i))"
    if "btree_get (k_leases c) i = Some l" "l_state l = LCompleted \<or> l_state l = LFailed" for l
    using fences_justified [OF assms, of i] that by (auto simp: justifies_def ended_in_def)
  ultimately show ?thesis
    unfolding complete_lease_def Let_def run prod.case by (intro just_on_ok just_if just_err) simp_all
qed

lemma release_lease_justifies:
  assumes "known_leases c"
  shows "justifies (release_lease c i)"
proof -
  have "justifies (c2, Ok (release_effects c2 i))"
    if "btree_get (k_leases c) i = Some l" "c2 = c\<lparr>k_leases := btree_insert i (l\<lparr>l_state := LReleased\<rparr>) (k_leases c)\<rparr>" for l c2
    using ending_root [OF ending_start [OF assms] that(1) _ that(2)] by (auto simp: justifies_def)
  moreover have "justifies (c, Ok (release_effects c i))" if "btree_get (k_leases c) i = Some l" "l_state l = LReleased" for l
    using fences_justified [OF assms, of i] that by (auto simp: justifies_def ended_in_def)
  ultimately show ?thesis
    unfolding release_lease_def Let_def by (intro just_on_ok just_if just_err) simp_all
qed

lemma revoke_lease_justifies:
  assumes "known_leases c"
  shows "justifies (revoke_lease c i)"
proof -
  let ?loop = "fold (\<lambda>d (c, effects).
      case btree_get (k_leases c) d of
        None \<Rightarrow> (c, effects)
      | Some l \<Rightarrow> let c' = end_lease closed_states LRevoked d c in (c', effects @ fence_effects c' d))
      (descendants_postorder c i) (c, [])"
  obtain c1 pre where run: "?loop = (c1, pre)" by (cases ?loop)
  have "ending c (c1, pre)" using revoke_loop_ending [OF assms closed_terminal(1)] unfolding run [symmetric] by simp
  from ending_extend [OF this closed_terminal(1), of LRevoked i] show ?thesis
    unfolding revoke_lease_def Let_def run [unfolded Let_def] prod.case
    by (intro just_on_ok) (auto simp: justifies_def ending_def)
qed

lemma record_failed_justifies:
  assumes "known_leases c"
  shows "justifies (record_failed c i ss reason f)"
proof -
  have "known_leases (c\<lparr>k_bindings := btree_modify i g (k_bindings c)\<rparr>)"
    if "\<And>b. b_id (g b) = b_id b \<and> b_lease (g b) = b_lease b" for g
    using assms that by (auto simp: known_leases_def)
  from end_lease_fences [OF closed_terminal(1) _ this, of LFailed] show ?thesis
    unfolding record_failed_def Let_def
    by (intro just_on_ok) (auto simp: justifies_def)
qed

fun direct_close :: "command \<Rightarrow> binding_id option" where
  "direct_close (ReleaseBinding i) = Some i"
| "direct_close (FenceBinding i) = Some i"
| "direct_close (FailBinding i reason) = Some i"
| "direct_close _ = None"

lemma just_close:
  "ended_binding c (b_id b) \<Longrightarrow> justifies (c, Ok [binding_effect c1 b EffRelease])"
  "ended_binding c (b_id b) \<Longrightarrow> justifies (c, Ok [binding_effect c1 b EffFence])"
  by (simp_all add: justifies_def justified_def binding_effect_def Let_def)

lemma direct_close_justifies:
  assumes "direct_close cmd = Some i" and "ended_binding c i" and "known_leases c"
  shows "justifies (dispatch c cmd)"
proof (cases "btree_get (k_bindings c) i")
  case (Some b)
  then have "b_id b = i" using assms(3) by (simp add: known_leases_def)
  moreover have "ended_binding (c\<lparr>k_bindings := btree_insert i (b\<lparr>b_state := BFailed\<rparr>) (k_bindings c)\<rparr>) i"
    using assms(2) Some by (auto simp: ended_binding_def ended_in_def)
  ultimately have "justifies (release_binding c i)" "justifies (fence_binding c i)" "justifies (fail_binding c i reason)" for reason
    using assms(2) Some
    by (simp_all add: release_binding_def fence_binding_def fail_binding_def Let_def just_close just_silent)
  with assms(1) show ?thesis by (cases cmd rule: direct_close.cases) simp_all
qed (use assms(2) in \<open>simp add: ended_binding_def\<close>)

lemma dispatch_justifies:
  assumes "known_leases c" and "\<And>i. direct_close cmd = Some i \<Longrightarrow> ended_binding c i"
  shows "justifies (dispatch c cmd)"
proof (cases "direct_close cmd")
  case (Some i)
  with assms show ?thesis by (intro direct_close_justifies) auto
next
  case None
  then show ?thesis
    using assms(1) by (cases cmd) (simp_all add: facts_justify bindings_justify fail_lease_justifies expire_lease_justifies
      complete_lease_justifies release_lease_justifies revoke_lease_justifies record_failed_justifies)
qed


section \<open>New leases\<close>

text \<open>Only two commands enter a lease into the table, under the id they name.\<close>

fun opens_lease :: "command \<Rightarrow> lease_id option" where
  "opens_lease (ReserveLease i owner alloc expires_at priority) = Some i"
| "opens_lease (OpenLease i owner alloc parent expires_at prepare_deadline priority) = Some i"
| "opens_lease _ = None"

definition same_ids :: "cluster \<Rightarrow> outcome \<Rightarrow> bool" where
  "same_ids c out \<longleftrightarrow> (\<forall>i. btree_get (k_leases (fst out)) i = None \<longleftrightarrow> btree_get (k_leases c) i = None)"

named_theorems ids_intros \<open>control flow of operations that open no lease\<close>

lemma ids_on_ok [ids_intros]:
  "same_ids c (c1, Err undefined) \<Longrightarrow> (\<And>x. r = Ok x \<Longrightarrow> same_ids c (k x)) \<Longrightarrow> same_ids c (on_ok r c1 k)"
  by (cases r) (simp_all add: same_ids_def)

lemma ids_unless [ids_intros]: "same_ids c k \<Longrightarrow> same_ids c (unless_error o1 c k)"
  by (cases o1) (simp_all add: same_ids_def)

lemma ids_if [ids_intros]: "(b \<Longrightarrow> same_ids c x) \<Longrightarrow> (\<not> b \<Longrightarrow> same_ids c y) \<Longrightarrow> same_ids c (if b then x else y)"
  by simp

lemma ids_option [ids_intros]:
  "(o1 = None \<Longrightarrow> same_ids c x) \<Longrightarrow> (\<And>a. o1 = Some a \<Longrightarrow> same_ids c (f a)) \<Longrightarrow> same_ids c (case o1 of None \<Rightarrow> x | Some a \<Rightarrow> f a)"
  by (cases o1) simp_all

lemma ids_leases: "k_leases c' = k_leases c \<Longrightarrow> same_ids c (c', r)"
  by (simp add: same_ids_def)

lemma ids_write:
  "btree_get (k_leases c) i \<noteq> None \<Longrightarrow> same_ids c (c\<lparr>k_leases := btree_insert i l (k_leases c)\<rparr>, r)"
  "same_ids c (c\<lparr>k_leases := btree_modify i f (k_leases c)\<rparr>, r)"
  by (auto simp: same_ids_def)

lemma ids_ending:
  assumes "ending c p"
  shows "same_ids c (fst p, r)"
    and "btree_get (k_leases (fst p)) i \<noteq> None \<Longrightarrow> same_ids c ((fst p)\<lparr>k_leases := btree_insert i l (k_leases (fst p))\<rparr>, r)"
    and "same_ids c (end_lease kept final i (fst p), r)"
  using assms by (auto simp: same_ids_def ending_def end_lease_def simp del: not_None_eq split: if_splits)

lemma leases_kept:
  "same_ids c (apply_graph c ns es)" "same_ids c (apply_resource_facts c ns es us)" "same_ids c (apply_provider_facts c bs us)"
  "same_ids c (adopt_fact_writers c as)" "same_ids c (promote_lease c i d)" "same_ids c (activate_lease c i)"
  "same_ids c (renew_lease c i ex)" "same_ids c (release_lease c i)"
  "same_ids c (set_node_state c n st)" "same_ids c (set_node_health c n hl)" "same_ids c (advance_endpoint_fence c n p f)"
  "same_ids c (quarantine_node c n)" "same_ids c (unquarantine_node c n)" "same_ids c (set_agent_session c n ss)"
  "same_ids c (activate_binding c i)" "same_ids c (record_prepared c i ss h f)" "same_ids c (record_active c i ss f)"
  "same_ids c (record_released c i ss f)" "same_ids c (record_fenced c i ss f)" "same_ids c (rebind_session c i ss)"
  "same_ids c (fence_binding c i)" "same_ids c (fail_binding c i reason)" "same_ids c (release_binding c i)"
  unfolding apply_graph_def apply_resource_facts_def apply_provider_facts_def adopt_fact_writers_def install_resource_graph_def
    promote_lease_def activate_lease_def renew_lease_def set_node_state_def set_node_health_def release_lease_def
    advance_endpoint_fence_def quarantine_node_def unquarantine_node_def set_agent_session_def
    activate_binding_def record_prepared_def record_active_def record_released_def record_fenced_def rebind_session_def
    fence_binding_def fail_binding_def release_binding_def Let_def case_prod_beta
  by (intro ids_intros; (rule ids_leases, simp; fail)?; simp add: ids_write)+

lemma open_binding_ids: "same_ids c (open_binding c i lease n provider scope)"
  unfolding open_binding_def Let_def case_prod_beta
  by (intro ids_intros; rule ids_leases; cases scope; simp)

lemma record_failed_ids: "same_ids c (record_failed c i ss reason f)"
  unfolding record_failed_def Let_def
  by (intro ids_intros; auto simp: same_ids_def end_lease_def)

lemma ending_ids:
  assumes "known_leases c"
  shows "same_ids c (fail_lease c i reason)" "same_ids c (expire_lease c i)" "same_ids c (complete_lease c i code)"
    "same_ids c (revoke_lease c i)"
proof -
  have d: "ending c (end_descendants closed_states LFailed (descendants_postorder c i) c)"
    "ending c (end_descendants closed_states LExpired (descendants_postorder c i) c)"
    "ending c (end_descendants (closed_states @ [LCompleted]) (if code = 0 then LCompleted else LFailed) (descendants_postorder c i) c)"
    by (rule end_descendants_ending [OF assms]; simp add: closed_terminal)+
  note r = revoke_loop_ending [OF assms closed_terminal(1) final_terminal(2), of "descendants_postorder c i"]
  have root: "same_ids c (on_ok (ok_or (btree_get (k_leases (fst p)) i) err) (fst p)
      (\<lambda>l. ((fst p)\<lparr>k_leases := btree_insert i (g l) (k_leases (fst p))\<rparr>, Ok (effects l))))" if "ending c p" for p err g effects
    by (rule ids_on_ok [OF ids_ending(1) [OF that]], rule ids_ending(2) [OF that]) simp
  show "same_ids c (fail_lease c i reason)"
    unfolding fail_lease_def Let_def case_prod_beta
    by (rule ids_on_ok [OF ids_ending(1) [OF d(1)]], rule ids_if, rule ids_ending(1) [OF d(1)], rule ids_ending(2) [OF d(1)]) simp
  show "same_ids c (expire_lease c i)" "same_ids c (complete_lease c i code)"
    unfolding expire_lease_def complete_lease_def Let_def case_prod_beta
    by (intro ids_on_ok ids_if root d ids_leases refl)+
  show "same_ids c (revoke_lease c i)"
    using ids_ending [OF r [unfolded Let_def case_prod_beta]]
    unfolding revoke_lease_def Let_def case_prod_beta
    by (intro ids_intros; simp)
qed

lemma dispatch_ids:
  assumes "known_leases c" and "opens_lease cmd = None"
  shows "same_ids c (dispatch c cmd)"
  using assms(2) by (cases cmd) (simp_all add: leases_kept open_binding_ids record_failed_ids ending_ids [OF assms(1)])

lemma open_ids:
  assumes "cluster_inv c" and "opens_lease cmd = Some i" and "j \<noteq> i"
  shows "btree_get (k_leases (fst (dispatch c cmd))) j = btree_get (k_leases c) j"
proof -
  obtain c' r where out: "dispatch c cmd = (c', r)" by (cases "dispatch c cmd")
  show ?thesis
  proof (cases r)
    case (Err e)
    with dispatch_sound [OF assms(1), of cmd] out show ?thesis by (simp add: sound_def)
  next
    case (Ok effects)
    with out assms(2,3) show ?thesis
      by (cases cmd rule: opens_lease.cases)
        (auto simp: reserve_lease_def open_lease_def op_simps Let_def split: if_splits option.splits)
  qed
qed

end
