(* ===== verification/Service_Invariant.thy ===== *)
theory Service_Invariant
  imports Node_Groups Service_Teardown
begin

text \<open>
  The invariant of a running controller: what every request that was ever handed to an agent rests on. A start request needs
  every binding of its lease acknowledged as active and is sent once per session of the agent; a request to release or
  fence needs the lease to have ended and, if it ran a program, the stop of the member to be proven for that
  session. Each step of \<open>Node_Service\<close>, \<open>Node_Controller\<close> and \<open>Node_Groups\<close> keeps it.
\<close>

section \<open>The invariant\<close>

definition start_key :: "job \<Rightarrow> (lease_id \<times> node_id \<times> u64) option" where
  "start_key j =
     (case jb_request j of
        RqStartExecution lease session epoch command limits img storage ports grace devices \<Rightarrow> Some (lease, jb_machine j, session)
      | _ \<Rightarrow> None)"

fun close_request :: "agent_request \<Rightarrow> (binding_id \<times> lease_id \<times> u64) option" where
  "close_request (RqRelease i lease n provider scope session fence epoch) = Some (i, lease, session)"
| "close_request (RqFence i lease n provider scope session fence epoch) = Some (i, lease, session)"
| "close_request _ = None"

text \<open>Fences of strays, which name no lease of the cluster, carry a tag of their own.\<close>

definition close_key :: "job \<Rightarrow> (binding_id \<times> lease_id \<times> node_id \<times> u64) option" where
  "close_key j =
     (case jb_delivery j of
        Inbox (TagBinding i session fence phase) \<Rightarrow> map_option (\<lambda>(i, lease, session). (i, lease, jb_machine j, session)) (close_request (jb_request j))
      | _ \<Rightarrow> None)"

definition start_ok :: "node_service \<Rightarrow> lease_id \<times> node_id \<times> u64 \<Rightarrow> bool" where
  "start_ok s = (\<lambda>(lease, machine, session).
     runs_program s lease \<and>
     (\<exists>l. btree_get (k_leases (s_cluster s)) lease = Some l \<and> (l_state l = LActive \<or> terminal_lease (l_state l))) \<and>
     (\<forall>i b. btree_get (k_bindings (s_cluster s)) i = Some b \<longrightarrow> b_lease b = lease \<longrightarrow>
        (\<exists>ack. (i, ack, b_fence b) \<in> s_provider_activations s)) \<and>
     (\<exists>current. session_of s machine = Some current \<and> session \<le> current \<and>
        (session = current \<longrightarrow> (lease, machine, session) \<in> s_execution_started s \<or>
           TagExecutionStart lease machine session \<in> s_inflight s \<or> ended_in (s_cluster s) lease)))"

definition close_ok :: "node_service \<Rightarrow> binding_id \<times> lease_id \<times> node_id \<times> u64 \<Rightarrow> bool" where
  "close_ok s = (\<lambda>(i, lease, machine, session).
     (\<exists>b. btree_get (k_bindings (s_cluster s)) i = Some b \<and> b_lease b = lease) \<and> ended_in (s_cluster s) lease \<and>
     (runs_program s lease \<longrightarrow> (lease, machine, session) \<in> s_execution_stopped s))"

definition no_reserved :: "cluster \<Rightarrow> bool" where
  "no_reserved c \<longleftrightarrow> (\<forall>i b l. btree_get (k_bindings c) i = Some b \<longrightarrow> btree_get (k_leases c) (b_lease b) = Some l \<longrightarrow> l_state l \<noteq> LReserved)"

definition jobs_ok :: "node_service \<Rightarrow> bool" where
  "jobs_ok s \<longleftrightarrow>
     (\<forall>j\<in>set (s_jobs s). \<forall>key. start_key j = Some key \<longrightarrow> start_ok s key) \<and>
     (\<forall>j\<in>set (s_jobs s). \<forall>key. close_key j = Some key \<longrightarrow> close_ok s key) \<and>
     distinct (List.map_filter start_key (s_jobs s))"

definition desk_ok :: "node_service \<Rightarrow> bool" where
  "desk_ok s \<longleftrightarrow>
     (\<forall>eff\<in>set (s_pending s). justified (s_cluster s) eff) \<and>
     (\<forall>h\<in>s_held_effects s. ended_binding (s_cluster s) (fst h)) \<and>
     (\<forall>machine. btree_get (s_agents s) machine \<noteq> None \<longrightarrow> session_of s machine \<noteq> None) \<and>
     (\<forall>lease. btree_get (s_requests s) lease \<noteq> None \<longrightarrow> btree_get (k_leases (s_cluster s)) lease \<noteq> None) \<and>
     (\<forall>lease. btree_get (k_leases (s_cluster s)) lease \<noteq> None \<longrightarrow> lease < s_next_lease s)"

text \<open>\<open>H\<close> collects bindings a loop still has to close, whose leases are known to have ended.\<close>

definition service_inv :: "binding_id set \<Rightarrow> node_service \<Rightarrow> bool" where
  "service_inv H s \<longleftrightarrow> cluster_inv (s_cluster s) \<and> no_reserved (s_cluster s) \<and> desk_ok s \<and> jobs_ok s \<and>
     (\<forall>i\<in>H. ended_binding (s_cluster s) i)"

lemma inv_weaken: "service_inv H s \<Longrightarrow> H' \<subseteq> H \<Longrightarrow> service_inv H' s"
  by (auto simp: service_inv_def)

lemma inv_extend: "service_inv H s \<Longrightarrow> (\<forall>i\<in>H'. ended_binding (s_cluster s) i) \<Longrightarrow> service_inv (H \<union> H') s"
  by (auto simp: service_inv_def)

text \<open>The invariant does not look at the other fields.\<close>

lemmas inv_defs = service_inv_def desk_ok_def jobs_ok_def start_ok_def close_ok_def session_of_def runs_program_def

lemma inv_other_fields [simp]:
  "service_inv H (s\<lparr>s_execution_capabilities := a1\<rparr>) = service_inv H s" "service_inv H (s\<lparr>s_inbox := a2\<rparr>) = service_inv H s"
  "service_inv H (s\<lparr>s_member_status := a3\<rparr>) = service_inv H s" "service_inv H (s\<lparr>s_unreachable := a4\<rparr>) = service_inv H s"
  "service_inv H (s\<lparr>s_queue := a5\<rparr>) = service_inv H s" "service_inv H (s\<lparr>s_queued_workloads := a6\<rparr>) = service_inv H s"
  "service_inv H (s\<lparr>s_restart_handled := a7\<rparr>) = service_inv H s" "service_inv H (s\<lparr>s_restart_counts := a8\<rparr>) = service_inv H s"
  "service_inv H (s\<lparr>s_restart_last_at := a9\<rparr>) = service_inv H s" "service_inv H (s\<lparr>s_restart_root := a10\<rparr>) = service_inv H s"
  "service_inv H (s\<lparr>s_service_groups := a11\<rparr>) = service_inv H s" "service_inv H (s\<lparr>s_group_members := a12\<rparr>) = service_inv H s"
  "service_inv H (s\<lparr>s_member_groups := a13\<rparr>) = service_inv H s" "service_inv H (s\<lparr>s_group_restarts := a14\<rparr>) = service_inv H s"
  "service_inv H (s\<lparr>s_group_last_restart := a15\<rparr>) = service_inv H s" "service_inv H (s\<lparr>s_member_pins := a16\<rparr>) = service_inv H s"
  "service_inv H (s\<lparr>s_next_request_id := a17\<rparr>) = service_inv H s" "service_inv H (s\<lparr>s_next_session := a18\<rparr>) = service_inv H s"
  "service_inv H (s\<lparr>s_next_binding := a19\<rparr>) = service_inv H s" "service_inv H (s\<lparr>s_recovering_machines := a20\<rparr>) = service_inv H s"
  "service_inv H (s\<lparr>s_recovery_events := a21\<rparr>) = service_inv H s" "service_inv H (s\<lparr>s_command_sink := a22\<rparr>) = service_inv H s"
  "service_inv H (s\<lparr>s_durable_sink := a23\<rparr>) = service_inv H s" "service_inv H (s\<lparr>s_history := a24\<rparr>) = service_inv H s"
  by (simp_all add: inv_defs)

lemma inv_cong:
  assumes "service_inv H s" and "s_cluster s' = s_cluster s" and "s_agents s' = s_agents s" and "s_inflight s' = s_inflight s"
    and "s_provider_activations s' = s_provider_activations s" and "s_execution_started s' = s_execution_started s"
    and "s_execution_stopped s' = s_execution_stopped s" and "s_held_effects s' = s_held_effects s"
    and "s_requests s' = s_requests s" and "s_pending s' = s_pending s" and "s_next_lease s' = s_next_lease s"
    and "s_jobs s' = s_jobs s"
  shows "service_inv H s'"
  using assms by (simp add: inv_defs)

lemma inv_persist [simp]: "service_inv H (persist cmd s) = service_inv H s"
  by (simp add: persist_def split: option.split)

lemma inv_push_event [simp]: "service_inv H (push_event event s) = service_inv H s"
  by (simp add: push_event_def)

lemma inv_expect_member [simp]: "service_inv H (expect_member machine lease s) = service_inv H s"
  by (simp add: expect_member_def)

lemma inv_known_leases: "service_inv H s \<Longrightarrow> known_leases (s_cluster s)"
  by (simp add: service_inv_def inv_known)

text \<open>Observations only add up.\<close>

lemma inv_mono:
  assumes "service_inv H s" and "\<And>key. start_ok s key \<Longrightarrow> start_ok s' key" and "\<And>key. close_ok s key \<Longrightarrow> close_ok s' key"
    and "s_cluster s' = s_cluster s" and "s_agents s' = s_agents s" and "s_held_effects s' = s_held_effects s"
    and "s_requests s' = s_requests s" and "s_pending s' = s_pending s" and "s_next_lease s' = s_next_lease s"
    and "s_jobs s' = s_jobs s"
  shows "service_inv H s'"
  using assms by (simp add: service_inv_def jobs_ok_def desk_ok_def session_of_def)

lemma inv_activation: "service_inv H s \<Longrightarrow> service_inv H (s\<lparr>s_provider_activations := insert x (s_provider_activations s)\<rparr>)"
  by (erule inv_mono; fastforce simp: start_ok_def close_ok_def session_of_def runs_program_def)

lemma inv_stopped: "service_inv H s \<Longrightarrow> service_inv H (s\<lparr>s_execution_stopped := insert x (s_execution_stopped s)\<rparr>)"
  by (simp add: inv_defs)

lemma inv_started: "service_inv H s \<Longrightarrow> service_inv H (s\<lparr>s_execution_started := insert x (s_execution_started s)\<rparr>)"
  by (erule inv_mono; fastforce simp: start_ok_def close_ok_def session_of_def runs_program_def)

lemma inv_held: "service_inv H s \<Longrightarrow> ended_binding (s_cluster s) i \<Longrightarrow> service_inv H (s\<lparr>s_held_effects := insert (i, phase) (s_held_effects s)\<rparr>)"
  by (simp add: inv_defs)

lemma inv_fewer_held: "service_inv H s \<Longrightarrow> E \<subseteq> s_held_effects s \<Longrightarrow> service_inv H (s\<lparr>s_held_effects := E\<rparr>)"
  by (auto simp: inv_defs)

lemma inv_fewer_pending: "service_inv H s \<Longrightarrow> set es \<subseteq> set (s_pending s) \<Longrightarrow> service_inv H (s\<lparr>s_pending := es\<rparr>)"
  by (auto simp: inv_defs)

section \<open>Commands\<close>

lemma kernel_step_new_binding:
  assumes "kernel_step c c'" and "btree_get (k_bindings c') i = Some b" and "btree_get (k_bindings c) i = None"
  shows "k_leases c' = k_leases c" and "\<exists>l. btree_get (k_leases c) (b_lease b) = Some l \<and> l_state l = LPreparing"
proof -
  have "k_leases c' = k_leases c \<and> (\<exists>l. btree_get (k_leases c) (b_lease b) = Some l \<and> l_state l = LPreparing)"
    using assms
  proof (cases rule: kernel_step.cases)
    case (move_step L B)
    then have "rel_option binding_next None (btree_get B i)" using assms(3) by metis
    with move_step assms(2) show ?thesis by simp
  next
    case (new_binding_step b')
    with assms(2,3) show ?thesis by (auto simp: binding_admissible_def split: if_splits)
  qed auto
  then show "k_leases c' = k_leases c" and "\<exists>l. btree_get (k_leases c) (b_lease b) = Some l \<and> l_state l = LPreparing" by blast+
qed

lemma no_reserved_step:
  assumes "kernel_step c c'" and "no_reserved c" and "known_leases c"
  shows "no_reserved c'"
  unfolding no_reserved_def
proof (intro allI impI)
  fix i b' l'
  assume b': "btree_get (k_bindings c') i = Some b'" and l': "btree_get (k_leases c') (b_lease b') = Some l'"
  show "l_state l' \<noteq> LReserved"
  proof (cases "btree_get (k_bindings c) i")
    case None
    from kernel_step_new_binding [OF assms(1) b' None] l' show ?thesis by auto
  next
    case (Some b)
    then obtain l where l: "btree_get (k_leases c) (b_lease b) = Some l" using assms(3) by (fastforce simp: known_leases_def)
    have "b_lease b' = b_lease b" using kernel_step_bindings [OF assms(1) Some] b' by (auto simp: binding_next_def)
    then have "lease_moves (l_state l) (l_state l')" using kernel_step_leases [OF assms(1) l] l' by (auto simp: lease_next_def)
    moreover have "l_state l \<noteq> LReserved" using assms(2) Some l by (auto simp: no_reserved_def)
    ultimately show ?thesis by (cases "l_state l") auto
  qed
qed

lemma start_ok_step:
  assumes "kernel_step (s_cluster s) c'" and "start_ok s key" and "s_cluster s' = c'" and "s_requests s' = s_requests s"
    and "s_provider_activations s' = s_provider_activations s" and "s_execution_started s' = s_execution_started s"
    and "s_inflight s' = s_inflight s"
  shows "start_ok s' key"
proof -
  obtain lease machine session where key: "key = (lease, machine, session)" by (cases key)
  from assms(2) obtain l current where l: "btree_get (k_leases (s_cluster s)) lease = Some l" "l_state l = LActive \<or> terminal_lease (l_state l)"
      and current: "session_of s machine = Some current" "session \<le> current"
        "session = current \<Longrightarrow> (lease, machine, session) \<in> s_execution_started s \<or>
           TagExecutionStart lease machine session \<in> s_inflight s \<or> ended_in (s_cluster s) lease"
    by (auto simp: start_ok_def key)
  obtain l' where l': "btree_get (k_leases c') lease = Some l'" "lease_moves (l_state l) (l_state l')"
    using kernel_step_leases [OF assms(1) l(1)] by (auto simp: lease_next_def)
  have state: "l_state l' = LActive \<or> terminal_lease (l_state l')"
    using l(2) l'(2) by (cases "l_state l"; cases "l_state l'") auto
  obtain current' where current': "session_of s' machine = Some current'" "current \<le> current'"
    using kernel_step_sessions [OF assms(1)] current(1) assms(3) by (fastforce simp: session_of_def)
  have acks: "\<exists>ack. (i, ack, b_fence b') \<in> s_provider_activations s'"
    if b': "btree_get (k_bindings c') i = Some b'" "b_lease b' = lease" for i b'
  proof (cases "btree_get (k_bindings (s_cluster s)) i")
    case None
    from kernel_step_new_binding(2) [OF assms(1) b'(1) None] b'(2) l show ?thesis by auto
  next
    case (Some b)
    with kernel_step_bindings [OF assms(1) Some] b' have "b_lease b = lease" "b_fence b' = b_fence b" by (auto simp: binding_next_def)
    with Some assms(2,5) show ?thesis by (auto simp: start_ok_def key)
  qed
  have tail: "session = current' \<longrightarrow> (lease, machine, session) \<in> s_execution_started s' \<or>
      TagExecutionStart lease machine session \<in> s_inflight s' \<or> ended_in c' lease"
    using current(2,3) current'(2) ended_step [OF assms(1)] assms(6,7) by auto
  show ?thesis
    unfolding key start_ok_def prod.case assms(3)
    using assms(2,4) l'(1) state acks current'(1) order_trans [OF current(2) current'(2)] tail
    by (auto simp: start_ok_def key runs_program_def)
qed

lemma close_ok_step:
  assumes "kernel_step (s_cluster s) c'" and "close_ok s key" and "s_cluster s' = c'" and "s_requests s' = s_requests s"
    and "s_execution_stopped s' = s_execution_stopped s"
  shows "close_ok s' key"
  using assms kernel_step_bindings [OF assms(1)] ended_step [OF assms(1)]
  by (fastforce simp: close_ok_def runs_program_def binding_next_def)

lemma inv_cluster_step:
  assumes inv: "service_inv H s" and step: "kernel_step (s_cluster s) c'"
    and effects: "\<forall>e\<in>set effects. justified c' e"
    and ids: "\<forall>lease. btree_get (k_leases c') lease \<noteq> None \<longrightarrow> lease < s_next_lease s"
  shows "service_inv H (s\<lparr>s_cluster := c', s_pending := s_pending s @ effects\<rparr>)"
proof -
  let ?s = "s\<lparr>s_cluster := c', s_pending := s_pending s @ effects\<rparr>"
  have c: "cluster_inv (s_cluster s)" "no_reserved (s_cluster s)" using inv by (simp_all add: service_inv_def)
  have "cluster_inv c'" using kernel_step_inv [OF step c(1)] .
  moreover have "no_reserved c'" using no_reserved_step [OF step c(2) inv_known [OF c(1)]] .
  moreover have "jobs_ok ?s"
    using inv start_ok_step [OF step, where s' = ?s] close_ok_step [OF step, where s' = ?s]
    by (fastforce simp: service_inv_def jobs_ok_def)
  moreover have "desk_ok ?s"
  proof -
    have kept: "btree_get (k_sessions (s_cluster s)) m \<noteq> None \<Longrightarrow> btree_get (k_sessions c') m \<noteq> None"
      "btree_get (k_leases (s_cluster s)) i \<noteq> None \<Longrightarrow> btree_get (k_leases c') i \<noteq> None" for m i
      using kernel_step_sessions [OF step] kernel_step_leases [OF step] by fastforce+
    from inv have "desk_ok s" by (simp add: service_inv_def)
    then show ?thesis
      using effects ids justified_step [OF step] ended_binding_step [OF step] kept
      by (simp add: desk_ok_def session_of_def del: not_None_eq) blast
  qed
  moreover have "\<forall>i\<in>H. ended_binding c' i" using inv ended_binding_step [OF step] by (simp add: service_inv_def)
  ultimately show ?thesis by (simp add: service_inv_def)
qed

lemma inv_log [simp]: "service_inv H (s\<lparr>s_cluster := c\<lparr>k_log := lg\<rparr>\<rparr>) = service_inv H (s\<lparr>s_cluster := c\<rparr>)"
  by (simp add: inv_defs no_reserved_def)

lemma commit_shape:
  "service_commit cmd s =
     (case dispatch (s_cluster s) cmd of
        (c, Err e) \<Rightarrow> (s\<lparr>s_cluster := c\<rparr>, Raise e)
      | (c, Ok effects) \<Rightarrow>
          (let s1 = persist (Some cmd) (s\<lparr>s_cluster := c\<lparr>k_log := k_log c @ [cmd]\<rparr>, s_history := s_history s @ [cmd],
                 s_command_sink := map_option (\<lambda>seen. seen @ [cmd]) (s_command_sink s)\<rparr>)
           in (s1\<lparr>s_pending := s_pending s @ effects\<rparr>, Done ())))"
  by (auto simp: service_commit_def cluster_apply_def persist_def Let_def split: prod.splits result.splits option.splits)

lemma persist_pending: "(persist cmd s)\<lparr>s_pending := es\<rparr> = s\<lparr>s_pending := es, s_durable_sink := s_durable_sink (persist cmd s)\<rparr>"
  by (simp add: persist_def split: option.split)

text \<open>
  A command that names a binding to close may be committed once its lease has ended, one that opens a lease under an id that has
  been handed out, any other command at any time.
\<close>

definition allowed :: "node_service \<Rightarrow> command \<Rightarrow> bool" where
  "allowed s cmd \<longleftrightarrow> (\<forall>i. direct_close cmd = Some i \<longrightarrow> ended_binding (s_cluster s) i) \<and>
     (\<forall>i. opens_lease cmd = Some i \<longrightarrow> i < s_next_lease s)"

lemma commit_ids:
  assumes "service_inv H s" and "allowed s cmd" and "btree_get (k_leases (fst (dispatch (s_cluster s) cmd))) lease \<noteq> None"
  shows "lease < s_next_lease s"
proof (cases "btree_get (k_leases (s_cluster s)) lease")
  case None
  have c: "cluster_inv (s_cluster s)" using assms(1) by (simp add: service_inv_def)
  have "opens_lease cmd = Some lease"
  proof (cases "opens_lease cmd")
    case None
    with dispatch_ids [OF inv_known [OF c], of cmd] \<open>btree_get (k_leases (s_cluster s)) lease = None\<close> assms(3)
    show ?thesis by (simp add: same_ids_def del: not_None_eq)
  next
    case (Some i)
    with open_ids [OF c Some, of lease] None assms(3) show ?thesis by force
  qed
  with assms(2) show ?thesis by (simp add: allowed_def)
qed (use assms(1) in \<open>simp add: service_inv_def desk_ok_def\<close>)

lemma inv_commit:
  assumes "service_inv H s" and "allowed s cmd"
  shows "service_inv H (fst (service_commit cmd s))"
proof -
  have c: "cluster_inv (s_cluster s)" using assms(1) by (simp add: service_inv_def)
  obtain c' r where out: "dispatch (s_cluster s) cmd = (c', r)" by (cases "dispatch (s_cluster s) cmd")
  have sound: "sound (s_cluster s) (c', r)" using dispatch_sound [OF c, of cmd] out by simp
  show ?thesis
  proof (cases r)
    case (Err e)
    then have "c' = s_cluster s" using sound by (simp add: sound_def)
    with assms(1) out Err show ?thesis by (simp add: commit_shape)
  next
    case (Ok effects)
    have "justifies (c', Ok effects)"
      using dispatch_justifies [OF inv_known [OF c], of cmd] assms(2) out Ok by (simp add: allowed_def)
    then have "service_inv H (s\<lparr>s_cluster := c', s_pending := s_pending s @ effects\<rparr>)"
      using sound commit_ids [OF assms] out
      by (intro inv_cluster_step [OF assms(1)]) (auto simp: sound_def justifies_def)
    moreover have "s\<lparr>s_cluster := c', s_pending := s_pending s @ effects\<rparr> = s\<lparr>s_pending := s_pending s @ effects, s_cluster := c'\<rparr>"
      by simp
    ultimately have "service_inv H (s\<lparr>s_pending := s_pending s @ effects, s_cluster := c'\<lparr>k_log := k_log c' @ [cmd]\<rparr>\<rparr>)"
      by (simp only: inv_log)
    then show ?thesis
      by (rule inv_cong) (simp_all add: out Ok commit_shape persist_pending Let_def)
  qed
qed

lemma inv_commit_lenient: "service_inv H s \<Longrightarrow> allowed s cmd \<Longrightarrow> service_inv H (commit_lenient cmd s)"
  using inv_commit [of H s cmd]
  by (auto simp: commit_lenient_def try_commit_lenient_def split: prod.splits answer.splits)

lemma allowed_simps [simp]:
  "direct_close cmd = None \<Longrightarrow> opens_lease cmd = None \<Longrightarrow> allowed s cmd"
  by (simp add: allowed_def)

section \<open>Control flow\<close>

text \<open>A call keeps the invariant whether it returns, fails or panics.\<close>

definition keeps :: "binding_id set \<Rightarrow> 'a in_service \<Rightarrow> bool" where
  "keeps H out \<longleftrightarrow> service_inv H (fst out)"

lemma keeps_pair [simp]: "keeps H (s, r) = service_inv H s"
  by (simp add: keeps_def)

lemma keeps_and: "keeps H out \<Longrightarrow> (\<And>s x. service_inv H s \<Longrightarrow> out = (s, Done x) \<Longrightarrow> keeps H (k s x)) \<Longrightarrow> keeps H (and_svc out k)"
  by (cases "(out, k)" rule: and_svc.cases) auto

lemma keeps_each:
  assumes "\<And>x s. x \<in> set xs \<Longrightarrow> service_inv H s \<Longrightarrow> keeps H (f x s)" and "service_inv H s"
  shows "keeps H (each_svc f xs s)"
  using assms by (induction xs arbitrary: s) (auto intro!: keeps_and)

lemma keeps_log_error: "keeps H out \<Longrightarrow> keeps H (log_error out)"
  by (cases out rule: log_error.cases) auto

lemma inv_fold: "(\<And>x s. x \<in> set xs \<Longrightarrow> service_inv H s \<Longrightarrow> service_inv H (f x s)) \<Longrightarrow> service_inv H s \<Longrightarrow> service_inv H (fold f xs s)"
  by (induction xs arbitrary: s) auto

section \<open>Jobs\<close>

text \<open>Requests that carry no promise: neither a start nor the close of a recorded binding.\<close>

definition plain_request :: "tag \<Rightarrow> agent_request \<Rightarrow> bool" where
  "plain_request tag request \<longleftrightarrow>
     (\<forall>machine. start_key \<lparr>jb_machine = machine, jb_request = request, jb_delivery = Inbox tag\<rparr> = None \<and>
        close_key \<lparr>jb_machine = machine, jb_request = request, jb_delivery = Inbox tag\<rparr> = None) \<and>
     (\<forall>lease machine session. tag \<noteq> TagExecutionStart lease machine session)"

definition new_job_ok :: "node_service \<Rightarrow> job \<Rightarrow> bool" where
  "new_job_ok s j \<longleftrightarrow>
     (\<forall>key. start_key j = Some key \<longrightarrow> start_ok s key \<and> (\<forall>j'\<in>set (s_jobs s). start_key j' \<noteq> Some key)) \<and>
     (\<forall>key. close_key j = Some key \<longrightarrow> close_ok s key)"

lemma start_ok_inflight:
  assumes "start_ok s key" and "s_inflight s \<subseteq> I"
  shows "start_ok (s\<lparr>s_inflight := I\<rparr>) key"
  using assms by (cases key) (fastforce simp: start_ok_def session_of_def runs_program_def)

lemma inv_add_job:
  assumes "service_inv H s" and "new_job_ok s j"
  shows "service_inv H (s\<lparr>s_jobs := s_jobs s @ [j]\<rparr>)"
proof -
  have same: "start_ok (s\<lparr>s_jobs := J\<rparr>) = start_ok s" "close_ok (s\<lparr>s_jobs := J\<rparr>) = close_ok s" for J
    by (simp_all add: start_ok_def close_ok_def session_of_def runs_program_def fun_eq_iff)
  have "distinct (List.map_filter start_key (s_jobs s @ [j]))"
    using assms by (cases "start_key j") (auto simp: service_inv_def jobs_ok_def new_job_ok_def map_filter_def)
  then show ?thesis
    using assms by (auto simp: service_inv_def jobs_ok_def desk_ok_def new_job_ok_def session_of_def same)
qed

lemma inv_add_inflight:
  assumes "service_inv H s"
  shows "service_inv H (s\<lparr>s_inflight := insert tag (s_inflight s)\<rparr>)"
  by (rule inv_mono [OF assms start_ok_inflight]) (auto simp: close_ok_def runs_program_def)

lemma inv_drop_inflight:
  assumes "service_inv H s" and "\<And>lease machine session. tag \<noteq> TagExecutionStart lease machine session"
  shows "service_inv H (s\<lparr>s_inflight := s_inflight s - {tag}\<rparr>)"
proof -
  have "start_ok s key \<Longrightarrow> start_ok (s\<lparr>s_inflight := s_inflight s - {tag}\<rparr>) key" for key
    using assms(2) by (cases key) (fastforce simp: start_ok_def session_of_def runs_program_def)
  from inv_mono [OF assms(1) this] show ?thesis by (simp add: close_ok_def runs_program_def)
qed

lemma inv_dispatch:
  assumes "service_inv H s" and "tag \<notin> s_inflight s \<or> (\<forall>lease machine session. tag \<noteq> TagExecutionStart lease machine session)"
    and "btree_get (s_agents s) machine = Some True \<Longrightarrow>
      new_job_ok (s\<lparr>s_inflight := insert tag (s_inflight s)\<rparr>) \<lparr>jb_machine = machine, jb_request = request, jb_delivery = Inbox tag\<rparr>"
  shows "service_inv H (svc_dispatch machine tag request s)"
proof -
  have same: "s_inflight s - {tag} = s_inflight s" "insert tag (s_inflight s) - {tag} = s_inflight s" if "tag \<notin> s_inflight s"
    using that by auto
  have "service_inv H (s\<lparr>s_inflight := insert tag (s_inflight s) - {tag}\<rparr>)"
  proof (cases "tag \<in> s_inflight s")
    case True
    then have "insert tag (s_inflight s) - {tag} = s_inflight s - {tag}" by auto
    with True assms(1,2) inv_drop_inflight [of H s tag] show ?thesis by auto
  next
    case False
    with assms(1) show ?thesis by (simp add: same)
  qed
  moreover have "service_inv H (s\<lparr>s_inflight := insert tag (s_inflight s),
      s_jobs := s_jobs s @ [\<lparr>jb_machine = machine, jb_request = request, jb_delivery = Inbox tag\<rparr>]\<rparr>)"
    if "btree_get (s_agents s) machine = Some True"
    using inv_add_job [OF inv_add_inflight [OF assms(1)] assms(3) [OF that]] by simp
  ultimately show ?thesis by (auto simp: svc_dispatch_def Let_def split: option.splits)
qed

lemma inv_plain:
  assumes "service_inv H s" and "plain_request tag request"
  shows "service_inv H (svc_dispatch machine tag request s)"
  using assms by (intro inv_dispatch) (auto simp: plain_request_def new_job_ok_def)

lemma plain_requests [simp]:
  "plain_request (TagStatus lease machine session) (RqStatus i)" "plain_request (TagProbe machine) (RqStatus i)"
  "plain_request (TagEnumerate machine session) RqEnumerateBindings"
  "plain_request (TagExecutionStop lease machine session) (RqStopExecution i session' epoch)"
  "plain_request (TagStrayFence machine session n provider scope i fence) (RqFence j lease n' provider' scope' session' fence' epoch)"
  "plain_request (TagBinding i session fence phase) (RqPrepare j lease n' provider' scope' session' fence' epoch)"
  "plain_request (TagBinding i session fence phase) (RqActivate j lease n' provider' scope' session' fence' epoch)"
  by (simp_all add: plain_request_def start_key_def close_key_def)

end
