(* ===== verification/Service_Operations.thy ===== *)
theory Service_Operations
  imports Service_Invariant
begin

text \<open>Every operation of the controller keeps its invariant: sending, routing, answers, recovery, admission, groups and restarts.\<close>

section \<open>Sending\<close>

lemma inv_request_status_on_machine: "service_inv H s \<Longrightarrow> service_inv H (request_status_on_machine lease machine s)"
  by (auto simp: request_status_on_machine_def Let_def intro!: inv_plain split: option.split)

lemma inv_request_status: "service_inv H s \<Longrightarrow> service_inv H (request_status lease s)"
  unfolding request_status_def by (intro inv_fold inv_request_status_on_machine)

lemma inv_request_enumeration: "service_inv H s \<Longrightarrow> service_inv H (request_enumeration machine s)"
  by (auto simp: request_enumeration_def Let_def intro!: inv_plain split: option.split)

lemma inv_probe_agents: "service_inv H s \<Longrightarrow> service_inv H (probe_agents s)"
  unfolding probe_agents_def by (intro inv_fold) (auto simp: probe_machine_def Let_def intro!: inv_plain)

lemma inv_maybe_stop_executions: "service_inv H s \<Longrightarrow> service_inv H (maybe_stop_executions lease s)"
  unfolding maybe_stop_executions_def
  by (auto intro!: inv_fold simp: stop_member_def intro!: inv_plain split: option.split)

lemma inv_request_logs: "service_inv H s \<Longrightarrow> service_inv H (fst (request_logs lease s))"
  by (auto simp: request_logs_def start_key_def close_key_def new_job_ok_def intro!: inv_add_job split: option.split bool.split)

lemma inv_maybe_activate: "service_inv H s \<Longrightarrow> service_inv H (maybe_activate lease s)"
  unfolding maybe_activate_def Let_def by (auto intro!: inv_fold inv_commit_lenient)

section \<open>Starting members\<close>

text \<open>What has to hold when members of a lease are started.\<close>

definition may_start :: "node_service \<Rightarrow> lease_id \<Rightarrow> bool" where
  "may_start s lease \<longleftrightarrow> lease_state_of s lease = Some LActive \<and> runs_program s lease \<and> all_provider_active s lease"

lemma may_start_quiet:
  assumes "quiet s s'"
  shows "may_start s' lease = may_start s lease"
  unfolding may_start_def lease_state_of_def runs_program_def all_provider_active_def binding_at_def quiet_fields [OF assms] ..

lemma may_start_acks:
  assumes "service_inv H s" and "may_start s lease" and "btree_get (k_bindings (s_cluster s)) i = Some b" and "b_lease b = lease"
  shows "\<exists>ack. (i, ack, b_fence b) \<in> s_provider_activations s"
proof -
  have "b_id b = i" using inv_known_leases [OF assms(1)] assms(3) by (simp add: known_leases_def)
  then have "i \<in> set (bindings_for (s_cluster s) lease)" using assms(3,4) by (auto simp: bindings_for_def intro!: image_eqI [of _ _ b])
  moreover have "list_all (\<lambda>i. case binding_at s i of None \<Rightarrow> False
      | Some b \<Rightarrow> b_state b = BActive \<and> (i, b_agent_session b, b_fence b) \<in> s_provider_activations s) (bindings_for (s_cluster s) lease)"
    using assms(2) by (simp add: may_start_def all_provider_active_def)
  ultimately have "(i, b_agent_session b, b_fence b) \<in> s_provider_activations s"
    using assms(3) by (simp only: list_all_iff binding_at_def) (drule bspec, assumption, simp)
  then show ?thesis ..
qed

lemma inv_start_member:
  assumes "service_inv H s" and "may_start s lease"
  shows "service_inv H (fst (start_member rd lease execution machine s))"
proof (cases "btree_contains_key (s_recovering_machines s) machine \<or> session_of s machine = None")
  case False
  then obtain session where session: "session_of s machine = Some session" by auto
  let ?tag = "TagExecutionStart lease machine session" and ?key = "(lease, machine, session)"
  show ?thesis
  proof (cases "?key \<in> s_execution_started s \<or> ?tag \<in> s_inflight s \<or> (\<exists>e. lease_limits_on_machine s lease machine = Err e)")
    case True
    with False session assms(1) show ?thesis by (auto simp: start_member_def Let_def split: result.split)
  next
    case fresh: False
    then obtain limits where limits: "lease_limits_on_machine s lease machine = Ok limits" by (cases "lease_limits_on_machine s lease machine") auto
    obtain l where l: "btree_get (k_leases (s_cluster s)) lease = Some l" "l_state l = LActive"
      using assms(2) by (auto simp: may_start_def lease_state_of_def)
    have live: "\<not> ended_in (s_cluster s) lease" using l by (simp add: ended_in_def)
    have once: "start_key j \<noteq> Some ?key" if "j \<in> set (s_jobs s)" for j
    proof
      assume "start_key j = Some ?key"
      then have "start_ok s ?key" using assms(1) that by (simp add: service_inv_def jobs_ok_def)
      with session fresh live show False by (auto simp: start_ok_def)
    qed
    have "start_ok (s\<lparr>s_inflight := insert ?tag (s_inflight s)\<rparr>) ?key"
      using assms(2) l session may_start_acks [OF assms]
      by (auto simp: start_ok_def may_start_def runs_program_def session_of_def)
    then have ok: "new_job_ok (s\<lparr>s_inflight := insert ?tag (s_inflight s)\<rparr>)
        \<lparr>jb_machine = machine, jb_request = RqStartExecution lease session e c limits g t p gr d, jb_delivery = Inbox ?tag\<rparr>" for e c g t p gr d
      using once by (simp add: new_job_ok_def start_key_def close_key_def)
    show ?thesis
      using False session fresh limits inv_dispatch [OF assms(1) _ ok] by (simp add: start_member_def Let_def)
  qed
qed (use assms(1) in \<open>auto simp: start_member_def\<close>)

lemma quiet_start_member: "quiet s (fst (start_member rd lease execution machine s))"
  by (auto simp: start_member_def Let_def split: option.split result.split)

lemma each_svc_induct:
  assumes "\<And>x s. x \<in> set xs \<Longrightarrow> P s \<Longrightarrow> P (fst (f x s))" and "P s"
  shows "P (fst (each_svc f xs s))"
  using assms
proof (induction xs arbitrary: s)
  case (Cons x xs)
  obtain s1 r where "f x s = (s1, r)" by (cases "f x s")
  moreover from this have "P s1" using Cons.prems(1) [of x s] Cons.prems(2) by simp
  ultimately show ?case using Cons by (cases r) auto
qed simp

lemma keeps_maybe_start_executions:
  assumes "service_inv H s"
  shows "keeps H (maybe_start_executions rd lease s)"
proof -
  have "service_inv H (fst (each_svc (start_member rd lease (ws_execution w)) machines s)) \<and>
      may_start (fst (each_svc (start_member rd lease (ws_execution w)) machines s)) lease"
    if "may_start s lease" for w :: workload_spec and machines
    by (rule each_svc_induct)
      (use assms that inv_start_member may_start_quiet [OF quiet_start_member] in auto)
  then have run: "keeps H (each_svc (start_member rd lease (ws_execution w)) machines s)" if "may_start s lease" for w :: workload_spec and machines
    using that by (simp add: keeps_def)
  have start: "may_start s lease" if "lease_state_of s lease = Some LActive" "btree_get (s_requests s) lease = Some (w, owner)"
      "has_program (ws_execution w)" "all_provider_active s lease" for w owner
    using that by (simp add: may_start_def runs_program_def)
  show ?thesis
    using assms run start by (auto simp: maybe_start_executions_def split: option.split)
qed

section \<open>Routing\<close>

lemma rebind_cluster:
  assumes "service_commit (RebindSession i session) s = (s1, Done ())"
  shows "\<exists>lg. s_cluster s1 = (s_cluster s)\<lparr>k_bindings := btree_modify i (\<lambda>b. b\<lparr>b_agent_session := session\<rparr>) (k_bindings (s_cluster s)), k_log := lg\<rparr>"
    and "s_requests s1 = s_requests s" and "s_agents s1 = s_agents s" and "s_execution_stopped s1 = s_execution_stopped s"
  using assms
  by (auto simp: commit_shape rebind_session_def op_simps persist_pending Let_def split: prod.splits result.splits)

lemma refresh_done:
  assumes "refresh_session i b s = (s1, Done (session, fence))" and "binding_at s i = Some b"
  shows "session_of s1 = session_of s" and "machine_at s1 = machine_at s" and "s_requests s1 = s_requests s"
    and "ended_in (s_cluster s1) = ended_in (s_cluster s)" and "\<exists>b'. binding_at s1 i = Some b' \<and> b_lease b' = b_lease b"
    and "machine_at s (b_node b) = Some machine \<Longrightarrow> session_of s machine = Some current \<Longrightarrow> session = current"
proof -
  consider "s1 = s" "session = b_agent_session b" "Option.bind (machine_at s (b_node b)) (session_of s) \<in> {None, Some session}"
    | current where "service_commit (RebindSession i current) s = (s1, Done ())" "Option.bind (machine_at s (b_node b)) (session_of s) = Some current"
      "binding_at s1 i = Some (b\<lparr>b_agent_session := current\<rparr>)" "session = current"
  proof (cases "Option.bind (machine_at s (b_node b)) (session_of s)")
    case (Some current)
    show ?thesis
    proof (cases "current = b_agent_session b")
      case False
      then obtain r where commit: "service_commit (RebindSession i current) s = (s1, Done ())"
        using assms(1) Some by (auto simp: refresh_session_def split: option.splits elim!: and_svc.elims)
      then have "binding_at s1 i = Some (b\<lparr>b_agent_session := current\<rparr>)"
        using rebind_cluster(1) [OF commit] assms(2) by (auto simp: binding_at_def)
      moreover from this have "session = current" using assms(1) Some False commit by (simp add: refresh_session_def)
      ultimately show ?thesis using that(2) commit Some by blast
    qed (use assms(1) Some that(1) in \<open>simp add: refresh_session_def\<close>)
  qed (use assms(1) that(1) in \<open>simp add: refresh_session_def\<close>)
  note cases = this
  have "session_of s1 = session_of s \<and> machine_at s1 = machine_at s \<and> s_requests s1 = s_requests s \<and>
    ended_in (s_cluster s1) = ended_in (s_cluster s) \<and> (\<exists>b'. binding_at s1 i = Some b' \<and> b_lease b' = b_lease b)"
  proof (cases rule: cases)
    case (2 current)
    note rebind = rebind_cluster [OF 2(1)]
    from rebind(1) obtain lg where "s_cluster s1 =
        (s_cluster s)\<lparr>k_bindings := btree_modify i (\<lambda>b. b\<lparr>b_agent_session := current\<rparr>) (k_bindings (s_cluster s)), k_log := lg\<rparr>" by blast
    with rebind(2) 2(3) show ?thesis by (simp add: session_of_def machine_at_def ended_in_def fun_eq_iff)
  qed (use assms(2) in simp)
  then show "session_of s1 = session_of s" "machine_at s1 = machine_at s" "s_requests s1 = s_requests s"
    "ended_in (s_cluster s1) = ended_in (s_cluster s)" "\<exists>b'. binding_at s1 i = Some b' \<and> b_lease b' = b_lease b"
    by blast+
  show "machine_at s (b_node b) = Some machine \<Longrightarrow> session_of s machine = Some current \<Longrightarrow> session = current"
    using cases by (cases rule: cases) auto
qed

lemma keeps_refresh:
  assumes "service_inv H s"
  shows "keeps H (refresh_session i b s)"
proof -
  have "keeps H (service_commit (RebindSession i current) s)" for current using inv_commit [OF assms] by (simp add: keeps_def)
  then show ?thesis
    using assms by (auto simp: refresh_session_def intro!: keeps_and split: option.split)
qed


lemma keeps_route_binding:
  assumes "service_inv H s" and "closing phase \<Longrightarrow> ended_binding (s_cluster s) i"
  shows "keeps H (route_binding phase i epoch s)"
proof (cases "binding_at s i")
  case None
  with assms(1) show ?thesis by (simp add: route_binding_def)
next
  case (Some b)
  have step: "keeps H (case machine_at s1 (b_node b) of
      None \<Rightarrow> (s1, Raise e)
    | Some machine \<Rightarrow>
        if must_hold s1 (b_lease b) machine then
          let s2 = maybe_stop_executions (b_lease b) s1
          in (s2\<lparr>s_held_effects := insert (i, phase) (s_held_effects s2)\<rparr>, Done [])
        else
          (svc_dispatch machine (TagBinding i session fence phase) (binding_request phase i b session fence epoch) s1, Done []))"
    if inv: "service_inv H s1" and ref: "refresh_session i b s = (s1, Done (session, fence))" for s1 session fence e
  proof (cases "machine_at s1 (b_node b)")
    case None
    with inv show ?thesis by simp
  next
    case machine: (Some machine)
    note fresh = refresh_done [OF ref Some]
    obtain b' where b': "binding_at s1 i = Some b'" "b_lease b' = b_lease b" using fresh(5) by blast
    show ?thesis
    proof (cases "must_hold s1 (b_lease b) machine")
      case True
      let ?s = "maybe_stop_executions (b_lease b) s1"
      have "s_cluster ?s = s_cluster s1" by (rule quiet_fields(1) [OF quiet_stops])
      moreover have "ended_binding (s_cluster s1) i"
        using True b' by (auto simp: must_hold_def lease_ended_iff ended_binding_def binding_at_def)
      ultimately have "service_inv H (?s\<lparr>s_held_effects := insert (i, phase) (s_held_effects ?s)\<rparr>)"
        using inv_held [OF inv_maybe_stop_executions [OF inv]] by simp
      with True machine show ?thesis by (simp add: Let_def)
    next
      case False
      have "new_job_ok (s1\<lparr>s_inflight := insert (TagBinding i session fence phase) (s_inflight s1)\<rparr>)
          \<lparr>jb_machine = machine, jb_request = binding_request phase i b session fence epoch, jb_delivery = Inbox (TagBinding i session fence phase)\<rparr>"
        if agent: "btree_get (s_agents s1) machine = Some True"
      proof -
        obtain current where current: "session_of s1 machine = Some current"
          using inv agent by (auto simp: service_inv_def desk_ok_def)
        then have "session = current" using fresh(1,2,6) machine by simp
        moreover have "ended_in (s_cluster s1) (b_lease b)" if "closing phase"
          using assms(2) [OF that] fresh(4) Some by (simp add: ended_binding_def binding_at_def)
        ultimately have "close_ok s1 (i, b_lease b, machine, session)" if "closing phase"
          using that False current b' by (auto simp: close_ok_def must_hold_def lease_ended_iff member_stop_proven_def binding_at_def)
        then show ?thesis
          by (cases phase) (auto simp: new_job_ok_def start_key_def close_key_def close_ok_def runs_program_def)
      qed
      with False machine inv show ?thesis by (simp add: inv_dispatch)
    qed
  qed
  show ?thesis
    unfolding route_binding_def Some option.case
  proof (rule keeps_and [OF keeps_refresh [OF assms(1)]], goal_cases)
    case (1 s1 x)
    then show ?case by (cases x) (simp only: prod.case step)
  qed
qed

lemma recovery_direct: "recovery_command cmd \<Longrightarrow> direct_close cmd = None \<and> opens_lease cmd = None"
  by (cases cmd rule: recovery_command.cases) simp_all

lemma inv_route_recovery:
  assumes "service_inv H s"
  shows "keeps H (route_recovery machine is s)"
proof -
  have sorted: "service_inv H s'" if "sort_recovery machine is a p t s = (s', out)" "service_inv H s" for "is" a p t s s' out
    using that
    by (induction "is" arbitrary: a p t s) (auto split: option.splits if_splits)
  obtain s1 active preparing terminal where sort: "sort_recovery machine is {} {} {} s = (s1, active, preparing, terminal)"
    by (cases "sort_recovery machine is {} {} {} s")
  show ?thesis
    unfolding route_recovery_def Let_def sort prod.case keeps_pair
    using sorted [OF sort assms]
    by (intro inv_fold inv_request_status_on_machine) (auto intro: inv_request_status_on_machine)
qed

lemma keeps_commits:
  assumes "service_inv H s" and "list_all recovery_command cmds"
  shows "keeps H (each_svc service_commit cmds s)"
  using assms inv_commit
  by (intro keeps_each) (auto simp: keeps_def list_all_iff recovery_direct)

lemma keeps_deliver:
  assumes "service_inv H s" and "justified (s_cluster s) eff"
  shows "keeps H (deliver eff s)"
proof (cases "effect_phase eff")
  case (Some x)
  then obtain phase i epoch where x: "effect_phase eff = Some (phase, i, epoch)" by (cases x) auto
  have "route eff s = route_binding phase i epoch s" using x by (cases eff) (simp_all add: route_def)
  moreover have "keeps H (route_binding phase i epoch s)"
    using assms x by (intro keeps_route_binding) (auto simp: justified_def)
  ultimately show ?thesis
    unfolding deliver_def by (auto intro!: keeps_and keeps_commits dest!: route_binding_pending(2) [OF _ refl])
next
  case None
  then obtain machine session epoch bindings where eff: "eff = EffReconcile machine session epoch bindings" by (cases eff) auto
  show ?thesis
  proof (cases "btree_contains_key (s_recovering_machines s) machine")
    case True
    then have route: "route eff s = route_recovery machine bindings s" by (simp add: route_def eff)
    obtain s1 r where out: "route_recovery machine bindings s = (s1, r)" by (cases "route_recovery machine bindings s")
    have "service_inv H s1" using inv_route_recovery [OF assms(1), of machine bindings] out by simp
    moreover obtain leases reason where "r = Done (map (\<lambda>lease. FailLease lease reason) leases)"
      using quiet_route_recovery(2) [OF out] by blast
    ultimately show ?thesis by (simp add: deliver_def route out keeps_commits list_all_iff)
  next
    case False
    have "list_all recovery_command (concat (map (redrive s session) bindings))"
      by (auto simp: list_all_iff redrive_def split: option.splits lease_state.splits)
    with False assms(1) show ?thesis by (auto simp: deliver_def route_def eff intro!: keeps_commits)
  qed
qed

lemma keeps_pump: "service_inv H s \<Longrightarrow> keeps H (pump s)"
proof (induction s rule: pump.induct)
  case (1 s)
  show ?case
  proof (cases "s_pending s")
    case (Cons eff rest)
    let ?s = "s\<lparr>s_pending := rest\<rparr>"
    have inv: "service_inv H ?s" using 1(2) Cons by (intro inv_fewer_pending) auto
    have "justified (s_cluster ?s) eff" using 1(2) Cons by (simp add: service_inv_def desk_ok_def)
    with inv have kept: "keeps H (deliver eff ?s)" by (rule keeps_deliver)
    obtain s1 r where out: "deliver eff ?s = (s1, r)" by (cases "deliver eff ?s")
    show ?thesis
      using 1(1) [OF Cons out [symmetric]] kept out Cons by (cases r) (simp_all add: pump.simps [of s])
  qed (use 1(2) in \<open>simp add: pump.simps [of s]\<close>)
qed


section \<open>Held teardown\<close>

lemma keeps_drive_held:
  assumes "service_inv H s" and "fst h \<in> H"
  shows "keeps H (drive_held h s)"
proof -
  obtain i phase where h: "h = (i, phase)" by (cases h)
  have ended: "ended_binding (s_cluster s) i" using assms by (auto simp: service_inv_def h)
  have "keeps H (case held_effect phase i b epoch of None \<Rightarrow> (s, Panic) | Some eff \<Rightarrow> deliver eff s)" for b epoch
  proof (cases "held_effect phase i b epoch")
    case (Some eff)
    have "justified (s_cluster s) eff" using Some ended by (cases phase) (auto simp: justified_def)
    with Some keeps_deliver [OF assms(1)] show ?thesis by simp
  qed (use assms(1) in simp)
  with assms(1) inv_held [OF assms(1) ended] show ?thesis
    by (auto simp: drive_held_def h split: option.split)
qed

lemma mem_sorted_list: "x \<in> set (sorted_list_of_set A) \<Longrightarrow> x \<in> A"
  by (cases "finite A") auto

lemma keeps_drive_held_effects:
  assumes "service_inv H s"
  shows "keeps H (drive_held_effects s)"
proof -
  let ?H = "H \<union> fst ` s_held_effects s" and ?s = "s\<lparr>s_held_effects := {}\<rparr>"
  have "service_inv ?H s"
    using assms by (intro inv_extend) (auto simp: service_inv_def desk_ok_def)
  then have "service_inv ?H ?s" by (rule inv_fewer_held) simp
  then have "keeps ?H (drive_held_effects s)"
    unfolding drive_held_effects_def
    by (intro keeps_each keeps_drive_held) (auto dest!: mem_sorted_list)
  then show ?thesis unfolding keeps_def by (rule inv_weaken) simp
qed

section \<open>Recovery\<close>

lemma inv_resolve_observed_completion: "service_inv H s \<Longrightarrow> service_inv H (fst (resolve_observed_completion lease finished s))"
  by (auto simp: resolve_observed_completion_def Let_def inv_commit_lenient split: list.split)

lemma inv_finish_machine_recovery: "service_inv H s \<Longrightarrow> service_inv H (finish_machine_recovery machine s)"
  by (simp add: finish_machine_recovery_def Let_def inv_commit_lenient)

lemma keeps_commit: "service_inv H s \<Longrightarrow> direct_close cmd = None \<Longrightarrow> opens_lease cmd = None \<Longrightarrow> keeps H (service_commit cmd s)"
  by (simp add: keeps_def inv_commit)

lemma keeps_rebind_lease_machine: "service_inv H s \<Longrightarrow> keeps H (rebind_lease_machine lease machine s)"
  by (auto simp: rebind_lease_machine_def intro!: keeps_each keeps_commit split: option.split)

lemma inv_adopt_activations: "service_inv H s \<Longrightarrow> service_inv H (adopt_activations lease machine s)"
  unfolding adopt_activations_def by (rule inv_fold) (auto intro!: inv_activation split: option.split)

lemma inv_adopt_execution: "service_inv H s \<Longrightarrow> service_inv H (adopt_execution lease machine running s)"
  using inv_stopped [OF inv_started, of H s] inv_started [of H s]
  by (auto simp: adopt_execution_def Let_def split: option.split)

lemma keeps_resolve_recovered_member:
  assumes "service_inv H s"
  shows "keeps H (resolve_recovered_member lease machine running exit_code finished s)"
proof -
  let ?s = "s\<lparr>s_member_status := btree_insert (lease, machine) \<lparr>mst_running = running, mst_exit_code = exit_code\<rparr> (s_member_status s)\<rparr>"
  have inv: "service_inv H ?s" using assms by simp
  let ?ended = "case session_of ?s machine of
      None \<Rightarrow> ?s
    | Some session \<Rightarrow>
        if \<not> running \<and> exit_code \<noteq> None
        then ?s\<lparr>s_execution_stopped := insert (lease, machine, session) (s_execution_stopped ?s)\<rparr> else ?s"
  have "service_inv H ?ended" using inv inv_stopped [OF inv] by (auto split: option.split)
  then have "keeps H (log_error (drive_held_effects (maybe_stop_executions lease ?ended)))"
    by (intro keeps_log_error keeps_drive_held_effects inv_maybe_stop_executions)
  then have ended: "keeps H (and_svc (log_error (drive_held_effects (maybe_stop_executions lease ?ended)))
      (\<lambda>s _. (push_event (TerminalMemberResolved lease machine) s, Done finished)))"
    by (rule keeps_and) simp
  obtain s2 r where out: "rebind_lease_machine lease machine ?s = (s2, r)" by (cases "rebind_lease_machine lease machine ?s")
  have inv2: "service_inv H s2" using keeps_rebind_lease_machine [OF inv, of lease machine] out by simp
  have adopted: "service_inv H (fst (resolve_observed_completion lease finished
      (adopt_execution lease machine running (adopt_activations lease machine s2))))"
    using inv2 by (intro inv_resolve_observed_completion inv_adopt_execution inv_adopt_activations)
  show ?thesis
    unfolding resolve_recovered_member_def Let_def
    using inv inv2 ended adopted out
    by (auto simp: inv_commit_lenient case_prod_beta split: answer.split)
qed

lemma keeps_resolve_members: "service_inv H s \<Longrightarrow> keeps H (resolve_members machine ready finished s)"
  by (induction machine ready finished s rule: resolve_members.induct)
    (auto intro!: keeps_and keeps_resolve_recovered_member)

lemma keeps_resolve_machine_recovery: "service_inv H s \<Longrightarrow> keeps H (resolve_machine_recovery machine finished s)"
  by (auto simp: resolve_machine_recovery_def inv_finish_machine_recovery
      intro!: keeps_and keeps_resolve_members split: option.split)

lemma judged_teardown:
  assumes "service_inv H s" and "judge_endpoint s machine e = Teardown i"
  shows "ended_binding (s_cluster s) i"
proof -
  obtain b where b: "binding_at s i = Some b" and closed: "lease_state_of s (b_lease b) \<notin> {Some LActive, Some LPreparing}"
    using assms(2) by (auto simp: judge_endpoint_def Let_def split: option.splits if_splits)
  obtain l where l: "btree_get (k_leases (s_cluster s)) (b_lease b) = Some l"
    using inv_known_leases [OF assms(1)] b by (fastforce simp: known_leases_def binding_at_def)
  have "l_state l \<noteq> LReserved" using assms(1) b l by (auto simp: service_inv_def no_reserved_def binding_at_def)
  with b closed l show ?thesis
    by (cases "l_state l") (auto simp: ended_binding_def ended_in_def binding_at_def lease_state_of_def)
qed

lemma inv_fence_stray: "service_inv H s \<Longrightarrow> service_inv H (fence_stray machine session ie s)"
  by (cases ie) (auto simp: fence_stray_def Let_def inv_commit_lenient intro!: inv_plain split: option.split)

lemma inv_absorb_enumeration:
  assumes "service_inv H s"
  shows "service_inv H (fst (absorb_enumeration machine endpoints s))"
proof (cases "session_of s machine = None \<or> list_ex (inconsistent_endpoint s machine) endpoints")
  case False
  then obtain session where session: "session_of s machine = Some session" by auto
  let ?H = "H \<union> {i. \<exists>e\<in>set endpoints. judge_endpoint s machine e = Teardown i}"
  have inv: "service_inv ?H s" using assms by (intro inv_extend) (auto dest: judged_teardown [OF assms])
  have ended: "allowed s' (FenceBinding i)" if "service_inv ?H s'" "e \<in> set endpoints" "judge_endpoint s machine e = Teardown i" for s' i e
  proof -
    have "i \<in> ?H" using that(2,3) by blast
    with that(1) show ?thesis by (simp add: allowed_def service_inv_def)
  qed
  have "service_inv ?H (fst (absorb_enumeration machine endpoints s))"
    using session False
    by (simp add: absorb_enumeration_def Let_def del: fold_map set_map)
      (intro inv_fold, (auto intro!: inv_commit_lenient inv_fence_stray inv ended split: verdict.split)+)
  then show ?thesis by (rule inv_weaken) simp
qed (use assms in \<open>auto simp: absorb_enumeration_def split: option.split\<close>)


section \<open>Answers\<close>

text \<open>The answer to a start takes its call out of the outstanding ones: the member has started, or the lease has ended.\<close>

lemma inv_drop_start:
  assumes "service_inv H s"
    and "session_of s machine = Some session \<Longrightarrow> lease_state_of s lease = Some LActive \<Longrightarrow> (lease, machine, session) \<in> s_execution_started s"
  shows "service_inv H (s\<lparr>s_inflight := s_inflight s - {TagExecutionStart lease machine session}\<rparr>)"
proof -
  let ?s = "s\<lparr>s_inflight := s_inflight s - {TagExecutionStart lease machine session}\<rparr>"
  have "start_ok ?s key" if "start_ok s key" for key
  proof -
    obtain l m ss where key: "key = (l, m, ss)" by (cases key)
    have "ended_in (s_cluster s) l" if "lease_state_of s l \<noteq> Some LActive"
      using \<open>start_ok s key\<close> that by (auto simp: start_ok_def key ended_in_def lease_state_of_def)
    with that assms(2) show ?thesis
      by (cases "(l, m, ss) = (lease, machine, session)")
        (auto simp: start_ok_def key session_of_def runs_program_def)
  qed
  with assms(1) show ?thesis
    by (auto simp: service_inv_def jobs_ok_def desk_ok_def close_ok_def session_of_def runs_program_def)
qed

lemma fail_lease_ends:
  assumes "known_leases c" and "btree_get (k_leases c) i \<noteq> None"
  shows "ended_in (fst (fail_lease c i reason)) i"
proof -
  obtain c1 pre where run: "end_descendants closed_states LFailed (descendants_postorder c i) c = (c1, pre)"
    by (cases "end_descendants closed_states LFailed (descendants_postorder c i) c")
  have "ending c (c1, pre)" unfolding run [symmetric] by (rule end_descendants_ending [OF assms(1) closed_terminal(1)]) simp
  then have "btree_get (k_leases c1) i \<noteq> None" using assms(2) by (simp add: ending_def del: not_None_eq)
  then obtain l where "btree_get (k_leases c1) i = Some l" by blast
  then show ?thesis
    using closed_terminal(1) unfolding fail_lease_def run prod.case Let_def
    by (auto simp: ended_in_def list_all_iff)
qed

lemma commit_inflight:
  "service_commit cmd (s\<lparr>s_inflight := I\<rparr>) = (case service_commit cmd s of (s', r) \<Rightarrow> (s'\<lparr>s_inflight := I\<rparr>, r))"
  by (simp add: commit_shape persist_def state_snapshot_def Let_def split: prod.split result.split option.split)

lemma commit_lenient_inflight: "commit_lenient cmd (s\<lparr>s_inflight := I\<rparr>) = (commit_lenient cmd s)\<lparr>s_inflight := I\<rparr>"
  by (simp add: commit_lenient_def try_commit_lenient_def commit_inflight split: prod.split answer.split)

lemma commit_keeps_inflight: "s_inflight (commit_lenient cmd s) = s_inflight s"
  using arg_cong [OF commit_lenient_inflight [where cmd = cmd and s = s and I = "s_inflight s"], of s_inflight] by simp


lemma fail_drops_start:
  assumes "service_inv H s" and "lease_state_of s lease = Some LActive"
  shows "service_inv H (commit_lenient (FailLease lease reason) (s\<lparr>s_inflight := s_inflight s - {TagExecutionStart lease machine session}\<rparr>))"
proof -
  let ?s = "commit_lenient (FailLease lease reason) s"
  obtain c' r where out: "dispatch (s_cluster s) (FailLease lease reason) = (c', r)" by (cases "dispatch (s_cluster s) (FailLease lease reason)")
  have "ended_in c' lease"
    using fail_lease_ends [OF inv_known_leases [OF assms(1)], of lease reason] assms(2) out by (auto simp: lease_state_of_def)
  then have "ended_in (s_cluster ?s) lease"
    using out by (auto simp: commit_lenient_def try_commit_lenient_def commit_shape persist_pending Let_def split: result.split)
  then have "lease_state_of ?s lease \<noteq> Some LActive" by (auto simp: ended_in_def lease_state_of_def)
  moreover have "service_inv H ?s" using assms(1) by (simp add: inv_commit_lenient)
  ultimately have "service_inv H (?s\<lparr>s_inflight := s_inflight ?s - {TagExecutionStart lease machine session}\<rparr>)"
    by (intro inv_drop_start) auto
  then show ?thesis by (simp add: commit_lenient_inflight commit_keeps_inflight)
qed

lemma inv_absorb_start:
  assumes "service_inv H s"
  shows "service_inv H (absorb_start rd lease machine session reply
    (s\<lparr>s_inflight := s_inflight s - {TagExecutionStart lease machine session}\<rparr>))"
proof -
  let ?tag = "TagExecutionStart lease machine session"
  let ?s = "s\<lparr>s_inflight := s_inflight s - {?tag}\<rparr>"
  have views: "session_of ?s machine = session_of s machine" "lease_state_of ?s lease = lease_state_of s lease"
    by (simp_all add: session_of_def lease_state_of_def)
  show ?thesis
  proof (cases "session_of s machine = Some session \<and> lease_state_of s lease = Some LActive")
    case False
    then have "service_inv H ?s" using assms by (intro inv_drop_start) auto
    with False views show ?thesis by (auto simp: absorb_start_def Let_def)
  next
    case True
    let ?s' = "s\<lparr>s_execution_started := insert (lease, machine, session) (s_execution_started s)\<rparr>"
    have "service_inv H (?s'\<lparr>s_inflight := s_inflight ?s' - {?tag}\<rparr>)"
      using inv_started [OF assms] by (intro inv_drop_start) auto
    then have "service_inv H (?s\<lparr>s_execution_started := insert (lease, machine, session) (s_execution_started s)\<rparr>)"
      by (rule inv_cong) simp_all
    moreover have "service_inv H (commit_lenient (FailLease lease reason) ?s)" for reason
      using fail_drops_start [OF assms conjunct2 [OF True]] .
    ultimately show ?thesis
      using True views by (auto simp: absorb_start_def Let_def split: result.split agent_response.split)
  qed
qed

lemma keeps_absorb_binding:
  assumes "service_inv H s"
  shows "keeps H (absorb_binding rd i session fence reply s)"
proof -
  obtain s1 ok where out: "try_commit_lenient (RecordBindingActive i session fence) s = (s1, ok)"
    by (cases "try_commit_lenient (RecordBindingActive i session fence) s")
  have "service_inv H s1" using inv_commit_lenient [OF assms, of "RecordBindingActive i session fence"] out by (simp add: commit_lenient_def)
  then show ?thesis
    using assms out inv_activation [of H s1]
    by (auto simp: absorb_binding_def Let_def inv_commit_lenient inv_maybe_activate keeps_maybe_start_executions
        split: result.split agent_response.split option.split)
qed

lemma keeps_absorb_stop: "service_inv H s \<Longrightarrow> keeps H (absorb_stop lease machine session reply s)"
  by (auto simp: absorb_stop_def intro!: keeps_drive_held_effects inv_stopped split: result.split agent_response.split)

lemma keeps_absorb_status: "service_inv H s \<Longrightarrow> keeps H (absorb_status lease machine reply finished s)"
  using inv_resolve_observed_completion
  by (auto simp: absorb_status_def Let_def case_prod_beta intro!: keeps_resolve_machine_recovery split: option.split)

lemma keeps_absorb_bindings_enumerated:
  assumes "service_inv H s"
  shows "keeps H (absorb_bindings_enumerated machine reply finished s)"
  using assms inv_absorb_enumeration [OF assms]
  by (auto simp: absorb_bindings_enumerated_def Let_def case_prod_beta intro!: keeps_resolve_machine_recovery
      split: result.split agent_response.split)

lemma keeps_absorb_stray_fence: "service_inv H s \<Longrightarrow> keeps H (absorb_stray_fence tag machine i reply finished s)"
  by (auto simp: absorb_stray_fence_def intro!: keeps_resolve_machine_recovery split: result.split agent_response.split)

lemmas keeps_answers = keeps_absorb_binding keeps_absorb_stop keeps_absorb_status keeps_absorb_bindings_enumerated
  keeps_absorb_stray_fence

lemma keeps_absorb_one:
  assumes "service_inv H s"
  shows "keeps H (absorb_one rd answer finished s)"
proof -
  obtain tag reply where answer: "answer = (tag, reply)" by (cases answer)
  have drop: "service_inv H (s\<lparr>s_inflight := s_inflight s - {tag}\<rparr>)" if "\<forall>l m ss. tag \<noteq> TagExecutionStart l m ss"
    using that by (intro inv_drop_inflight [OF assms]) auto
  show ?thesis
    by (cases tag)
      (use drop inv_absorb_start [OF assms] in \<open>auto simp: absorb_one_def answer Let_def stale_answer_def intro!: keeps_and keeps_answers
        split: result.split\<close>)
qed

lemma keeps_absorb_all: "service_inv H s \<Longrightarrow> keeps H (absorb_all rd answers finished s)"
  by (induction rd answers finished s rule: absorb_all.induct) (auto intro!: keeps_and keeps_absorb_one)

lemma keeps_absorb: "service_inv H s \<Longrightarrow> keeps H (absorb rd s)"
  by (auto simp: absorb_def intro!: keeps_and keeps_absorb_all keeps_pump)

lemma inv_inbox_posts: "service_inv H (fold (\<lambda>(tag, reply). inbox_post tag reply) answers s) = service_inv H s"
proof (induction answers arbitrary: s)
  case (Cons answer answers)
  have "service_inv H ((case answer of (tag, reply) \<Rightarrow> inbox_post tag reply) s) = service_inv H s"
    by (cases answer) (simp add: inbox_post_def)
  then show ?case by (simp only: fold.simps o_def Cons.IH)
qed simp

lemma keeps_drive: "service_inv H s \<Longrightarrow> keeps H (drive rd arriving s)"
proof (induction arriving arbitrary: s)
  case Nil
  show ?case unfolding drive.simps [of rd "[]" s]
    by (intro keeps_and keeps_absorb keeps_pump Nil) simp_all
next
  case (Cons answers arriving)
  have next_round: "service_inv H s' \<Longrightarrow> keeps H (drive rd arriving (fold (\<lambda>(tag, reply). inbox_post tag reply) answers s'))" for s'
    by (intro Cons.IH) (simp add: inv_inbox_posts)
  show ?case unfolding drive.simps [of rd "answers # arriving" s] list.case
  proof (rule keeps_and [OF keeps_absorb [OF Cons.prems]], goal_cases)
    case (1 s1 finished)
    show ?case
    proof (rule keeps_and [OF keeps_pump [OF 1(1)]], goal_cases)
      case (1 s2 u)
      then show ?case by (cases "is_quiescent s2") (simp_all only: if_True if_False keeps_pair next_round)
    qed
  qed
qed

section \<open>Operations of a running controller\<close>

lemma keeps_service_apply: "service_inv H s \<Longrightarrow> direct_close cmd = None \<Longrightarrow> opens_lease cmd = None \<Longrightarrow> keeps H (service_apply cmd s)"
  by (auto simp: service_apply_def intro!: keeps_and keeps_commit keeps_pump)

lemma keeps_revoke: "service_inv H s \<Longrightarrow> keeps H (revoke lease s)"
  by (auto simp: revoke_def intro!: keeps_and keeps_commit keeps_pump)

lemma keeps_expire_due: "service_inv H s \<Longrightarrow> keeps H (expire_due s)"
  by (auto simp: expire_due_def Let_def intro!: keeps_and keeps_each keeps_commit keeps_pump)

lemma inv_set_now:
  assumes "service_inv H s"
  shows "service_inv H (s\<lparr>s_cluster := set_now (s_cluster s) now\<rparr>)"
proof -
  have "kernel_step (s_cluster s) (set_now (s_cluster s) now)"
    using tick_step [where c = "s_cluster s" and e = "k_epoch (s_cluster s)" and t = now and a = "k_agreed (s_cluster s)"
        and lg = "k_log (s_cluster s)"] by (simp add: set_now_def)
  from inv_cluster_step [OF assms this, of "[]"] assms show ?thesis by (simp add: service_inv_def desk_ok_def set_now_def)
qed

lemma keeps_service_tick: "service_inv H s \<Longrightarrow> keeps H (service_tick now s)"
  by (simp add: service_tick_def keeps_expire_due inv_set_now)

lemma keeps_collect_completions: "service_inv H s \<Longrightarrow> keeps H (collect_completions rd s)"
  by (auto simp: collect_completions_def intro!: keeps_and keeps_absorb keeps_pump inv_fold inv_request_status)

lemma keeps_mark_machine_unhealthy: "service_inv H s \<Longrightarrow> keeps H (mark_machine_unhealthy machine s)"
  by (auto simp: mark_machine_unhealthy_def Let_def intro!: keeps_and keeps_each keeps_commit keeps_pump)

lemma keeps_mark_inventory_mismatch: "service_inv H s \<Longrightarrow> keeps H (mark_inventory_mismatch machine s)"
  by (auto simp: mark_inventory_mismatch_def intro!: keeps_commit split: option.split)

end
