(* ===== verification/Service_Admission.thy ===== *)
theory Service_Admission
  imports Service_Operations Admission
begin

text \<open>The invariant of the controller under submission, admission, service groups and restarts.\<close>

section \<open>Admission\<close>

lemma inv_svc_enqueue [simp]: "service_inv H (svc_enqueue workload owner s) = service_inv H s"
  by (simp add: svc_enqueue_def Let_def)

lemma inv_submit [simp]: "service_inv H (submit workload owner s) = service_inv H s"
  by (simp add: submit_def)

lemma word_inc: "n \<noteq> - 1 \<Longrightarrow> n < n + 1" for n :: u64
proof -
  assume "n \<noteq> - 1"
  then have "1 + n \<noteq> 0" by (metis add.commute add_eq_0_iff2)
  then show ?thesis using unatSuc [of n] by (simp add: word_less_nat_alt add.commute)
qed

lemma inv_hand_out_lease:
  assumes "service_inv H s" and "s_next_lease s \<noteq> - 1"
  shows "service_inv H (s\<lparr>s_next_lease := s_next_lease s + 1\<rparr>)"
  using assms(1) word_inc [OF assms(2)]
  by (auto simp: service_inv_def jobs_ok_def desk_ok_def start_ok_def close_ok_def session_of_def runs_program_def dest: less_trans)

text \<open>A workload is noted for a lease that was just opened, before anything has been sent for it.\<close>

lemma inv_new_request:
  assumes inv: "service_inv H s" and fresh: "btree_get (s_requests s) lease = None"
    and l: "btree_get (k_leases (s_cluster s)) lease = Some l" "l_state l = LPreparing"
  shows "service_inv H (s\<lparr>s_requests := btree_insert lease x (s_requests s)\<rparr>)"
proof -
  let ?s = "s\<lparr>s_requests := btree_insert lease x (s_requests s)\<rparr>"
  have same: "runs_program ?s i = runs_program s i" if "i \<noteq> lease" for i using that by (simp add: runs_program_def)
  have "start_ok ?s key" if "start_ok s key" for key
    using that same fresh by (cases key) (auto simp: start_ok_def session_of_def runs_program_def)
  moreover have "close_ok ?s key" if "close_ok s key" for key
  proof -
    obtain i j m ss where key: "key = (i, j, m, ss)" by (cases key)
    have "j \<noteq> lease" using that l by (auto simp: close_ok_def key ended_in_def)
    with that same show ?thesis by (simp add: close_ok_def key)
  qed
  ultimately show ?thesis
    using inv l(1) by (auto simp: service_inv_def jobs_ok_def desk_ok_def session_of_def)
qed

lemma open_lease_fresh:
  assumes "dispatch c (OpenLease i owner alloc None ex d pr) = (c', Ok effects)" and "btree_get (k_leases c) i = None"
  shows "\<exists>l. btree_get (k_leases c') i = Some l \<and> l_state l = LPreparing"
  using assms by (auto simp: open_lease_def op_simps split: if_splits)

lemma commit_fields:
  "s_requests (fst (service_commit cmd s)) = s_requests s" "s_next_lease (fst (service_commit cmd s)) = s_next_lease s"
  "s_agents (fst (service_commit cmd s)) = s_agents s" "s_inflight (fst (service_commit cmd s)) = s_inflight s"
  "s_provider_activations (fst (service_commit cmd s)) = s_provider_activations s"
  "s_execution_started (fst (service_commit cmd s)) = s_execution_started s"
  "s_execution_stopped (fst (service_commit cmd s)) = s_execution_stopped s"
  "s_held_effects (fst (service_commit cmd s)) = s_held_effects s" "s_jobs (fst (service_commit cmd s)) = s_jobs s"
  by (simp_all add: commit_shape persist_pending Let_def split: prod.split result.split)

lemma commit_core:
  assumes "s_cluster s' = s_cluster s" and "s_pending s' = s_pending s"
  shows "s_cluster (fst (service_commit cmd s')) = s_cluster (fst (service_commit cmd s))"
    and "s_pending (fst (service_commit cmd s')) = s_pending (fst (service_commit cmd s))"
    and "snd (service_commit cmd s') = snd (service_commit cmd s)"
  using assms by (simp_all add: commit_shape persist_pending Let_def split: prod.split result.split)

lemma position_found: "list_ex P xs \<Longrightarrow> \<exists>i. position P xs = Some i"
  by (induction xs) auto

lemma keeps_open_admitted:
  assumes "service_inv H s" and "s_next_lease s \<noteq> - 1" and "is_queued s (r_id (ad_request adm))"
  shows "keeps H (open_admitted adm s)" and "snd (open_admitted adm s) \<noteq> Panic"
proof -
  let ?lease = "s_next_lease s" and ?request = "r_id (ad_request adm)"
  let ?workload = "btree_get_or (resource_only (ad_request adm)) (s_queued_workloads s) ?request"
  let ?s0 = "s\<lparr>s_next_lease := ?lease + 1\<rparr>"
  let ?s1 = "s\<lparr>s_next_lease := ?lease + 1, s_queued_workloads := btree_remove ?request (s_queued_workloads s),
      s_requests := btree_insert ?lease (?workload, ad_owner adm) (s_requests s)\<rparr>"
  let ?cmd = "OpenLease ?lease (ad_owner adm) (ad_allocation adm) None
      (saturating_add (k_now (s_cluster s)) (r_lifetime (ad_request adm))) (saturating_add (k_now (s_cluster s)) 20)
      (r_priority (ad_request adm))"
  have inv0: "service_inv H ?s0" by (rule inv_hand_out_lease [OF assms(1,2)])
  have new: "btree_get (k_leases (s_cluster s)) ?lease = None"
    using assms(1) by (fastforce simp: service_inv_def desk_ok_def)
  then have none: "btree_get (s_requests s) ?lease = None"
    using assms(1) by (fastforce simp: service_inv_def desk_ok_def)
  have "?lease < ?lease + 1" using assms(2) by (rule word_inc)
  then have kept: "service_inv H (fst (service_commit ?cmd ?s0))" using inv0 by (intro inv_commit) (simp_all add: allowed_def)
  obtain index where index: "position (\<lambda>q. r_id (q_request q) = ?request) (s_queue s) = Some index"
    using position_found assms(3) unfolding is_queued_def by blast
  let ?s2 = "?s1\<lparr>s_queue := take index (s_queue s) @ drop (Suc index) (s_queue s)\<rparr>"
  obtain s3 r where out: "service_commit ?cmd ?s2 = (s3, r)" by (cases "service_commit ?cmd ?s2")
  have core: "s_cluster s3 = s_cluster (fst (service_commit ?cmd ?s0))" "s_pending s3 = s_pending (fst (service_commit ?cmd ?s0))"
      "r = snd (service_commit ?cmd ?s0)"
    using commit_core [of ?s2 ?s0 ?cmd] out by simp_all
  note fields = commit_fields [of ?cmd ?s2, unfolded out fst_conv]
  have "keeps H (open_admitted adm s) \<and> snd (open_admitted adm s) \<noteq> Panic"
  proof (cases r)
    case (Raise e)
    have "btree_remove ?lease (btree_insert ?lease (?workload, ad_owner adm) (s_requests s)) = s_requests s"
      using none by (intro btree_ext) simp
    with kept core fields have "service_inv H (s3\<lparr>s_queue := take index (s_queue s3) @ [s_queue s ! index] @ drop index (s_queue s3),
        s_requests := btree_remove ?lease (s_requests s3), s_queued_workloads := btree_insert ?request ?workload (s_queued_workloads s3)\<rparr>)"
      by (intro inv_cong [OF kept]) (simp_all add: commit_fields)
    with Raise out index show ?thesis by (simp add: open_admitted_def Let_def)
  next
    case (Done u)
    then obtain c' effects where opened: "dispatch (s_cluster s) ?cmd = (c', Ok effects)" "s_cluster s3 = c'\<lparr>k_log := k_log c' @ [?cmd]\<rparr>"
      using out by (auto simp: commit_shape persist_pending Let_def split: prod.splits result.splits)
    obtain l where "btree_get (k_leases (s_cluster s3)) ?lease = Some l" "l_state l = LPreparing"
      using open_lease_fresh [OF opened(1) new] opened(2) by auto
    then have "service_inv H ((fst (service_commit ?cmd ?s0))\<lparr>s_requests :=
        btree_insert ?lease (?workload, ad_owner adm) (s_requests (fst (service_commit ?cmd ?s0)))\<rparr>)"
      using core(1) none by (intro inv_new_request [OF kept]) (simp_all add: commit_fields)
    then have "service_inv H s3"
      by (rule inv_cong) (simp_all add: core fields commit_fields)
    with Done out index show ?thesis by (simp add: open_admitted_def Let_def)
  next
    case Panic
    with out show ?thesis by (auto simp: commit_shape Let_def split: prod.splits result.splits)
  qed
  then show "keeps H (open_admitted adm s)" and "snd (open_admitted adm s) \<noteq> Panic" by blast+
qed

lemma keeps_open_enforced_bindings: "service_inv H s \<Longrightarrow> keeps H (open_enforced_bindings lease s)"
  by (auto simp: open_enforced_bindings_def open_enforced_binding_def Let_def intro!: keeps_each keeps_commit
      split: option.split result.split)

text \<open>What the scheduler admits stands in the queue it was given.\<close>

lemma admitted_is_queued:
  assumes "admit_backfill_with_policy g occ quarantine exclusions policy queue ctx = Some adm"
  shows "\<exists>q\<in>set queue. ad_request adm = q_request q"
proof -
  define usage where "usage = owner_usage g (bc_leases ctx) (bc_open_bindings ctx)"
  define ordered where "ordered = map (\<lambda>i. queue ! i) (order_queue_with_policy queue usage (claimable_capacity g) policy)"
  obtain pre pos q rest where "enumerate 0 ordered = pre @ (pos, q) # rest"
      and ok: "backfill_ok g occ quarantine exclusions policy usage ctx
        (set [] \<union> {h. \<exists>p\<in>snd ` set pre. head_of g occ quarantine exclusions policy usage ctx p = Some h}) q adm"
    using assms backfill_loop_Some
    unfolding admit_backfill_with_policy_def admit_backfill_with_policy_explained_def Let_def ranked_queue_def
      usage_def [symmetric] ordered_def [symmetric]
    by blast
  then have "(pos, q) \<in> set (enumerate 0 ordered)" by simp
  then have "q \<in> set ordered" by (auto simp: in_set_enumerate_eq)
  moreover have "set ordered \<subseteq> set queue" by (auto simp: ordered_def order_queue_with_policy_def order_queue_def split: if_splits)
  ultimately show ?thesis using ok by (auto simp: backfill_ok_def admission_of_def)
qed

lemma keeps_admit_one_with_policy:
  assumes "service_inv H s" and "s_next_lease s \<noteq> - 1"
  shows "keeps H (admit_one_with_policy policy s)"
proof (cases "cluster_admit_backfill_with_policy (s_cluster s) (s_queue s) policy (execution_exclusions s)")
  case (Some adm)
  then have "is_queued s (r_id (ad_request adm))"
    unfolding cluster_admit_backfill_with_policy_def is_queued_def by (auto simp: list_ex_iff dest!: admitted_is_queued)
  then have opened: "keeps H (open_admitted adm s)" by (rule keeps_open_admitted(1) [OF assms])
  show ?thesis
    unfolding admit_one_with_policy_def Some option.case
    using assms(1) opened
    by (cases "validate_allocation_bindings s (ad_allocation adm)")
      (auto intro!: keeps_and keeps_open_enforced_bindings keeps_pump inv_maybe_activate)
qed (use assms(1) in \<open>simp add: admit_one_with_policy_def\<close>)

section \<open>Groups and restarts\<close>

lemma inv_register_service_group: "service_inv H s \<Longrightarrow> service_inv H (fst (register_service_group g s))"
  by (simp add: register_service_group_def split: result.split)

lemma inv_scale_service_group: "service_inv H s \<Longrightarrow> service_inv H (fst (scale_service_group i target s))"
  by (simp add: scale_service_group_def split: option.split cardinality.split)

lemma inv_remove_service_group: "service_inv H s \<Longrightarrow> service_inv H (remove_service_group i s)"
  by (auto simp: remove_service_group_def Let_def intro!: inv_fold split: option.split)

lemma inv_cancel_member: "service_inv H s \<Longrightarrow> service_inv H (cancel_member request s)"
  by (simp add: cancel_member_def Let_def split: option.split)

lemma inv_submit_member: "service_inv H (snd (submit_member g pin replaces (submitted, s))) = service_inv H s"
  by (simp add: submit_member_def Let_def split: option.split)

lemma inv_submit_members:
  "service_inv H (snd (fold (\<lambda>x. submit_member g (pin x) (replaces x)) xs (submitted, s))) = service_inv H s"
proof (induction xs arbitrary: submitted s)
  case (Cons x xs)
  obtain submitted' s' where one: "submit_member g (pin x) (replaces x) (submitted, s) = (submitted', s')"
    by (cases "submit_member g (pin x) (replaces x) (submitted, s)")
  with inv_submit_member [of H g "pin x" "replaces x" submitted s] Cons show ?case by simp
qed simp

lemma keeps_scale_down: "service_inv H s \<Longrightarrow> keeps H (scale_down members to_stop stopped s)"
proof (induction members arbitrary: to_stop stopped s)
  case (Cons member members)
  show ?case
  proof (cases "lease_of_member s member")
    case None
    have "service_inv H (cancel_member member s)" using Cons.prems by (rule inv_cancel_member)
    from Cons.IH [OF this] Cons.IH [OF Cons.prems] None Cons.prems show ?thesis by simp
  next
    case (Some lease)
    obtain s' r where out: "revoke lease s = (s', r)" by (cases "revoke lease s")
    then have inv: "service_inv H s'" using keeps_revoke [OF Cons.prems, of lease] by simp
    from Cons.IH [OF inv] Some out inv Cons.prems show ?thesis by (cases r) simp_all
  qed
qed simp

lemma inv_drop_dead_members: "service_inv H (drop_dead_members i members died s) = service_inv H s"
  by (simp add: drop_dead_members_def Let_def split: option.split)

lemma inv_reconcile_per_machine: "service_inv H (snd (reconcile_per_machine g machines members died (submitted, s))) = service_inv H s"
  using inv_submit_members [of H g Some "\<lambda>_. died > 0"]
  by (simp add: reconcile_per_machine_def Let_def case_prod_beta)

lemma inv_fill_group: "service_inv H (snd (fill_group g desired shortfall died (submitted, s))) = service_inv H s"
proof -
  have filled: "service_inv H (snd (fold (\<lambda>i. submit_member g None (P i)) xs (submitted, s'))) = service_inv H s'"
    for P and xs :: "nat list" and s'
    by (rule inv_submit_members)
  show ?thesis unfolding fill_group_def Let_def case_prod_beta by (simp add: filled)
qed

lemma keeps_reconcile_group: "service_inv H s \<Longrightarrow> keeps H (reconcile_group machines g submitted s)"
  unfolding reconcile_group_def Let_def case_prod_beta
  by (auto simp: inv_reconcile_per_machine inv_fill_group inv_drop_dead_members intro!: keeps_and keeps_scale_down)

lemma keeps_reconcile_groups: "service_inv H s \<Longrightarrow> keeps H (reconcile_groups machines gs submitted s)"
  by (induction machines gs submitted s rule: reconcile_groups.induct) (auto intro!: keeps_and keeps_reconcile_group)

lemma keeps_reconcile_service_groups: "service_inv H s \<Longrightarrow> keeps H (reconcile_service_groups s)"
  by (auto simp: reconcile_service_groups_def intro!: keeps_and keeps_reconcile_groups)

lemma inv_restart_lease: "service_inv H (snd (restart_lease il (out, s))) = service_inv H s"
  by (cases il) (simp add: restart_lease_def Let_def split: option.split)

lemma inv_take_restarts: "service_inv H (snd (take_restarts s)) = service_inv H s"
proof -
  have "service_inv H (snd (fold restart_lease ils p)) = service_inv H (snd p)" for ils p
  proof (induction ils arbitrary: p)
    case (Cons il ils)
    then show ?case using inv_restart_lease [of H il "fst p" "snd p"] by simp
  qed simp
  then show ?thesis by (simp add: take_restarts_def)
qed

lemma inv_queue_restarts: "service_inv H (snd (queue_restarts s)) = service_inv H s"
proof -
  have "service_inv H (fold (\<lambda>(workload, owner). svc_enqueue workload owner) ws s) = service_inv H s" for ws s
  proof (induction ws arbitrary: s)
    case (Cons w ws)
    have "service_inv H ((case w of (workload, owner) \<Rightarrow> svc_enqueue workload owner) s) = service_inv H s" by (cases w) simp
    then show ?case by (simp only: fold.simps o_def Cons.IH)
  qed simp
  then show ?thesis using inv_take_restarts [of H s] by (simp add: queue_restarts_def Let_def case_prod_beta)
qed

end
