(* ===== verification/Node_Discover.thy ===== *)
theory Node_Discover
  imports Node_Service
begin

text \<open>
  The inventory of a machine (\<^verbatim>\<open>crates/node/src/discover.rs\<close>): how the texts a provider reads become a description of the
  machine, how a description is validated, the graph fragment it stands for, and the checks against the fragment that
  is already registered. Files, environment variables and the output of \<^verbatim>\<open>nvidia-smi\<close> are arguments; text is
  ASCII. \<^verbatim>\<open>serde_json::to_string\<close> is the parameter \<open>json\<close>.
\<close>

section \<open>Text\<close>

text \<open>\<^verbatim>\<open>str\<close> in \<^verbatim>\<open>{:?}\<close>: quoted, with escapes.\<close>

definition hex_digit :: "nat \<Rightarrow> char" where
  "hex_digit n = ''0123456789abcdef'' ! n"

definition debug_char :: "char \<Rightarrow> string" where
  "debug_char c =
     (if c = CHR 0x22 \<or> c = CHR 0x5C then [CHR 0x5C, c]
      else if c = CHR 0x09 then [CHR 0x5C, CHR ''t'']
      else if c = CHR 0x0A then [CHR 0x5C, CHR ''n'']
      else if c = CHR 0x0D then [CHR 0x5C, CHR ''r'']
      else if c = CHR 0x00 then [CHR 0x5C, CHR ''0'']
      else if of_char c < (0x20 :: nat) \<or> of_char c = (0x7F :: nat) then
        [CHR 0x5C, CHR ''u'', CHR ''{''] @ (if of_char c < (16 :: nat) then [] else [hex_digit (of_char c div 16)]) @
        [hex_digit (of_char c mod 16), CHR ''}'']
      else [c])"

definition debug_str :: "string \<Rightarrow> string" where
  "debug_str text = [CHR 0x22] @ concat (map debug_char text) @ [CHR 0x22]"

text \<open>\<^verbatim>\<open>str::lines\<close>, \<^verbatim>\<open>str::split_whitespace\<close>, \<^verbatim>\<open>str::parse::<u64>\<close> and the lower case.\<close>

definition text_lines :: "string \<Rightarrow> string list" where
  "text_lines text =
     (let parts = split_on (CHR 0x0A) text;
          whole = (if last parts = [] then butlast parts else parts)
      in map (\<lambda>line. if line \<noteq> [] \<and> last line = CHR 0x0D then butlast line else line) whole)"

fun split_whitespace_from :: "string \<Rightarrow> string \<Rightarrow> string list" where
  "split_whitespace_from word [] = (if word = [] then [] else [word])"
| "split_whitespace_from word (c # cs) =
     (if is_space c then (if word = [] then [] else [word]) @ split_whitespace_from [] cs
      else split_whitespace_from (word @ [c]) cs)"

definition split_whitespace :: "string \<Rightarrow> string list" where
  "split_whitespace text = split_whitespace_from [] text"

definition parse_u64 :: "string \<Rightarrow> u64 option" where
  "parse_u64 s =
     (let digits = (case s of c # rest \<Rightarrow> if c = CHR ''+'' then rest else s | [] \<Rightarrow> s) in
      if digits = [] \<or> \<not> list_all is_digit digits \<or> 2 ^ 64 \<le> digits_value digits then None
      else Some (of_nat (digits_value digits)))"

definition lower_char :: "char \<Rightarrow> char" where
  "lower_char c = (if 65 \<le> (of_char c :: nat) \<and> (of_char c :: nat) \<le> 90 then char_of (of_char c + 32 :: nat) else c)"

definition to_lowercase :: "string \<Rightarrow> string" where
  "to_lowercase text = map lower_char text"

section \<open>Devices\<close>

subsection \<open>Declared devices\<close>

text \<open>\<^verbatim>\<open>kind=id:path\<close> or \<^verbatim>\<open>kind:path\<close>, as both functions below take an entry apart.\<close>

definition split_entry :: "string \<Rightarrow> (string \<times> string \<times> string) option" where
  "split_entry entry =
     (case split_once (CHR ''='') entry of
        Some (kind, rest) \<Rightarrow> map_option (\<lambda>(ident, dev). (kind, ident, dev)) (split_once (CHR '':'') rest)
      | None \<Rightarrow> map_option (\<lambda>(kind, dev). (kind, dev, dev)) (split_once (CHR '':'') entry))"

definition entry_shape :: "string \<Rightarrow> string" where
  "entry_shape entry = (if split_once (CHR ''='') entry = None then ''kind:path'' else ''kind=id:path'')"

definition validate_declared_entry :: "string \<Rightarrow> (unit, string) result" where
  "validate_declared_entry raw =
     (let entry = trim raw
      in case split_entry entry of
           None \<Rightarrow> Err (''invalid ARCHON_DEVICES entry '' @ debug_str entry @ '': expected '' @ entry_shape entry)
         | Some (kind, ident, dev) \<Rightarrow>
             if trim ident = [] \<or> trim dev = []
             then Err (''invalid ARCHON_DEVICES entry '' @ debug_str entry @ '': empty id or path'')
             else if to_lowercase (trim kind) \<in> {''gpu'', ''nic'', ''nvme''} then Ok ()
             else Err (''invalid ARCHON_DEVICES device kind '' @ debug_str (to_lowercase (trim kind))))"

definition declared_entries :: "string \<Rightarrow> string list" where
  "declared_entries spec = filter (\<lambda>entry. trim entry \<noteq> []) (split_on (CHR '','') spec)"

definition validate_declared_devices :: "string \<Rightarrow> (unit, string) result" where
  "validate_declared_devices spec = try_fold (\<lambda>raw _. validate_declared_entry raw) (declared_entries spec) ()"

definition declared_device :: "string \<Rightarrow> device_spec option" where
  "declared_device entry =
     Option.bind (split_entry entry) (\<lambda>(kind, ident, dev).
       Option.bind
         (if to_lowercase (trim kind) = ''gpu'' then Some Gpu
          else if to_lowercase (trim kind) = ''nic'' then Some Nic
          else if to_lowercase (trim kind) = ''nvme'' then Some Nvme
          else None)
         (\<lambda>kind. Some \<lparr>ds_kind = kind, ds_id = trim ident, ds_dev = dev, ds_host_parent = None, ds_access = [],
            ds_attrs = btree_empty\<rparr>))"

definition declared_devices :: "string option \<Rightarrow> device_spec list" where
  "declared_devices variable =
     (case variable of None \<Rightarrow> [] | Some spec \<Rightarrow> List.map_filter declared_device (declared_entries spec))"

subsection \<open>NVIDIA devices\<close>

definition is_ascii_hexdigit :: "char \<Rightarrow> bool" where
  "is_ascii_hexdigit c \<longleftrightarrow> is_digit c \<or> lower_char c \<in> set ''abcdef''"

definition normalize_pci_bus_id :: "string \<Rightarrow> string" where
  "normalize_pci_bus_id value =
     (case split_once (CHR '':'') value of
        Some (domain, _) \<Rightarrow> if length domain = 8 \<and> list_all is_ascii_hexdigit domain then drop 4 value else value
      | None \<Rightarrow> value)"

text \<open>What the file system says about a path and about a PCI address.\<close>

record device_files =
  df_exists :: "string \<Rightarrow> bool"
  df_pci_attrs :: "string \<Rightarrow> attrs"

definition nvidia_row :: "device_files \<Rightarrow> string \<Rightarrow> device_spec option" where
  "nvidia_row files line =
     (case map trim (split_on (CHR '','') line) of
        [f0, uuid, model, f3, f4, f5, f6] \<Rightarrow>
          Option.bind (parse_u32 f0) (\<lambda>index.
            let pci_bus_id = normalize_pci_bus_id f3
            in Option.bind (parse_u64 f4) (\<lambda>memory_mib.
                 if uuid = [] \<or> model = [] \<or> pci_bus_id = [] then None
                 else
                   let access = filter (df_exists files)
                         [''/dev/nvidiactl'', ''/dev/nvidia-uvm'', ''/dev/nvidia-uvm-tools'', ''/dev/nvidia-modeset''];
                       attrs1 = btree_insert ''compute_capability'' f5
                         (btree_insert ''memory_bytes'' (show_nat (unat (memory_mib * 1024 * 1024)))
                           (btree_insert ''pci_bus_id'' pci_bus_id
                             (btree_insert ''uuid'' uuid
                               (btree_insert ''model'' model
                                 (btree_insert ''vendor'' ''nvidia''
                                   (btree_insert ''provider'' ''nvidia'' (df_pci_attrs files pci_bus_id)))))));
                       attrs2 = (if f6 \<noteq> [] then btree_insert ''driver_version'' f6 attrs1 else attrs1);
                       attrs3 = btree_insert ''cdi'' (''nvidia.com/gpu='' @ uuid)
                         (btree_insert ''enforcement'' ''linux-cgroup-device,oci-device''
                           (btree_insert ''whole_device'' ''true'' attrs2))
                   in Some \<lparr>ds_kind = Gpu, ds_id = uuid, ds_dev = ''/dev/nvidia'' @ show_nat (unat index), ds_host_parent = None,
                        ds_access = access, ds_attrs = attrs3\<rparr>))
      | _ \<Rightarrow> None)"

definition parse_nvidia_devices :: "device_files \<Rightarrow> string \<Rightarrow> device_spec list" where
  "parse_nvidia_devices files output = List.map_filter (nvidia_row files) (text_lines output)"

definition interpret_nvidia_query :: "device_files \<Rightarrow> bool \<Rightarrow> string \<Rightarrow> string \<Rightarrow> (device_spec list, string) result" where
  "interpret_nvidia_query files success stdout stderr =
     (if \<not> success then
        let detail = (if trim stderr = [] then trim stdout else trim stderr)
        in Err (if detail = [] then ''nvidia-smi discovery failed'' else ''nvidia-smi discovery failed: '' @ detail)
      else
        let rows = length (filter (\<lambda>line. trim line \<noteq> []) (text_lines stdout));
            devices = parse_nvidia_devices files stdout
        in if length devices \<noteq> rows
           then Err (''nvidia-smi returned an incomplete GPU inventory: parsed '' @ show_nat (length devices) @ '' of '' @
                  show_nat rows @ '' rows'')
           else Ok devices)"

section \<open>Host topology\<close>

definition host_node :: "string \<Rightarrow> resource_class \<Rightarrow> string option \<Rightarrow> quantity \<Rightarrow> host_node_spec" where
  "host_node i kind parent capacity =
     \<lparr>hs_id = i, hs_kind = kind, hs_parent = parent, hs_attrs = btree_empty, hs_capacity = capacity\<rparr>"

definition meminfo_total :: "string \<Rightarrow> u64 option" where
  "meminfo_total line =
     (case split_whitespace line of
        label # node # metric # tokens \<Rightarrow>
          if label \<noteq> ''Node'' \<or> metric \<noteq> ''MemTotal:'' then None
          else (case tokens of [] \<Rightarrow> None | kib # _ \<Rightarrow> parse_u64 kib)
      | _ \<Rightarrow> None)"

fun find_map :: "('a \<Rightarrow> 'b option) \<Rightarrow> 'a list \<Rightarrow> 'b option" where
  "find_map f [] = None"
| "find_map f (x # xs) = (case f x of None \<Rightarrow> find_map f xs | Some y \<Rightarrow> Some y)"

definition show_cpu :: "u32 \<Rightarrow> string" where
  "show_cpu cpu = show_nat (unat cpu)"

definition numa_specs :: "string \<times> u32 list \<times> u64 \<Rightarrow> host_node_spec list" where
  "numa_specs = (\<lambda>(i, cpus, bytes).
     [host_node i Numa None btree_empty, host_node (i @ ''/memory'') Memory (Some i) (qty Bytes bytes)] @
     map (\<lambda>cpu. host_node (i @ ''/cpu/'' @ show_cpu cpu) Cpu (Some i) (qty Count 1)) cpus)"

text \<open>The file names of the node directory with the text of their \<^verbatim>\<open>cpulist\<close>, in the order the directory is read.\<close>

definition cpulist_path :: "string \<Rightarrow> string" where
  "cpulist_path name = ''/sys/devices/system/node/'' @ name @ ''/cpulist''"

fun cpu_error :: "cpu_list_error \<Rightarrow> string" where
  "cpu_error (InvalidCpuRange part) = ''invalid CPU range '' @ debug_str part"
| "cpu_error (InvertedCpuRange part) = ''inverted CPU range '' @ debug_str part"

definition numa_entry ::
    "string \<times> (string, string) result \<Rightarrow> (string \<times> u32 list \<times> string) list \<Rightarrow> ((string \<times> u32 list \<times> string) list, string) result" where
  "numa_entry = (\<lambda>(name, cpulist) numa_nodes.
     (case strip_prefix ''node'' name of
        None \<Rightarrow> Ok numa_nodes
      | Some node \<Rightarrow>
          if parse_u32 node = None then Ok numa_nodes
          else case cpulist of
            Err e \<Rightarrow> Err (''read '' @ cpulist_path name @ '': '' @ e)
          | Ok text \<Rightarrow>
              (case parse_cpu_list (trim text) of
                 Err e \<Rightarrow> Err (cpulist_path name @ '': '' @ cpu_error e)
               | Ok cpus \<Rightarrow>
                   if cpus = [] then Err (''/sys/devices/system/node/'' @ name @ '' reports no CPUs'')
                   else Ok (numa_nodes @ [(''numa/'' @ node, cpus, node)]))))"

definition numa_memory ::
    "(string \<Rightarrow> (string, string) result) \<Rightarrow> string \<times> u32 list \<times> string \<Rightarrow> host_node_spec list \<Rightarrow> (host_node_spec list, string) result" where
  "numa_memory meminfo = (\<lambda>(i, cpus, node) specs.
     (let path = ''/sys/devices/system/node/node'' @ node @ ''/meminfo''
      in case meminfo node of
           Err e \<Rightarrow> Err (''read '' @ path @ '': '' @ e)
         | Ok text \<Rightarrow>
             (case find_map meminfo_total (text_lines text) of
                None \<Rightarrow> Err (''parse '' @ path @ '' MemTotal'')
              | Some kib \<Rightarrow>
                  if unat kib * 1024 < 2 ^ 64 then Ok (specs @ numa_specs (i, cpus, kib * 1024))
                  else Err (path @ '' MemTotal overflows''))))"

definition host_topology_fallible ::
    "(string \<times> (string, string) result) list \<Rightarrow> (string \<Rightarrow> (string, string) result) \<Rightarrow> (host_node_spec list, string) result" where
  "host_topology_fallible entries meminfo =
     and_then (try_fold numa_entry entries []) (\<lambda>numa_nodes.
       if numa_nodes = [] then Err ''sysfs reports no NUMA nodes''
       else try_fold (numa_memory meminfo) (sort_key fst numa_nodes) [])"

definition description_with_devices :: "host_node_spec list \<Rightarrow> string \<Rightarrow> u64 \<Rightarrow> u64 \<Rightarrow> device_spec list \<Rightarrow> machine_description" where
  "description_with_devices host_nodes hostname parallelism total_memory devices =
     \<lparr>md_instance_id = [], md_name = hostname,
      md_cpus = (if host_nodes = [] then parallelism
        else of_nat (length (filter (\<lambda>spec. hs_kind spec = Cpu) host_nodes))),
      md_memory_bytes = (if host_nodes = [] then total_memory
        else sum_list (map (\<lambda>spec. quantity_get (hs_capacity spec) Bytes) (filter (\<lambda>spec. hs_kind spec = Memory) host_nodes))),
      md_host_nodes = host_nodes, md_devices = devices\<rparr>"

end
