(* ===== verification/Node_Inventory.thy ===== *)
theory Node_Inventory
  imports Node_Discover
begin

text \<open>
  From the description of a machine to facts of the resource graph (\<^verbatim>\<open>crates/node/src/discover.rs\<close>): validation, the
  graph fragment, who writes which fact, the claim contracts, and the comparison with what is registered. Indexing a map
  with a missing key panics; \<open>build_graph\<close> is then \<open>None\<close>.
\<close>

section \<open>Validation\<close>

record host_totals =
  ht_by_id :: "(string, host_node_spec) btree"
  ht_cpus :: u64
  ht_memory :: u64
  ht_memory_nodes :: nat

definition reserved_attrs :: "attrs \<Rightarrow> bool" where
  "reserved_attrs attrs \<longleftrightarrow> btree_contains_key attrs HOST_ID_ATTR \<or> btree_contains_key attrs DEVICE_HOST_PARENT_ATTR"

definition validate_host_node :: "host_node_spec \<Rightarrow> host_totals \<Rightarrow> (host_totals, string) result" where
  "validate_host_node spec t =
     (if trim (hs_id spec) = [] then Err ''host node id must be non-empty''
      else if reserved_attrs (hs_attrs spec)
      then Err (''host node '' @ debug_str (hs_id spec) @ '' uses a reserved Archon attribute'')
      else if btree_contains_key (ht_by_id t) (hs_id spec) then Err (''duplicate host node id '' @ debug_str (hs_id spec))
      else
        let t1 = t\<lparr>ht_by_id := btree_insert (hs_id spec) spec (ht_by_id t)\<rparr>; kind = hs_kind spec
        in if kind = ''socket'' \<or> kind = Numa \<or> kind = ''pcie-root'' then
             if \<not> btree_is_empty (hs_capacity spec)
             then Err (''structural host node '' @ debug_str (hs_id spec) @ '' must not advertise claimable capacity'')
             else Ok t1
           else if kind = Cpu then
             if hs_capacity spec \<noteq> qty Count 1
             then Err (''logical CPU '' @ debug_str (hs_id spec) @
                    '' must advertise exactly count=1 under the exclusive v0 binding model'')
             else Ok (t1\<lparr>ht_cpus := ht_cpus t1 + 1\<rparr>)
           else if kind = Memory then
             if list_ex (\<lambda>dimension. dimension \<noteq> Bytes) (btree_keys (hs_capacity spec))
             then Err (''memory resource '' @ debug_str (hs_id spec) @ '' must advertise only byte capacity'')
             else
               let bytes = quantity_get (hs_capacity spec) Bytes
               in if unat (ht_memory t1) + unat bytes < 2 ^ 64
                  then Ok (t1\<lparr>ht_memory := ht_memory t1 + bytes, ht_memory_nodes := ht_memory_nodes t1 + 1\<rparr>)
                  else Err ''host memory total overflows''
           else Err (''resource class '' @ kind @ '' is not valid in the host inventory''))"

lemma walk_measure:
  assumes "i \<notin> seen"
  shows "card (set (btree_keys m) - insert i seen) < card (set (btree_keys m) - seen) \<or>
    btree_get m i = None \<and> card (set (btree_keys m) - insert i seen) = card (set (btree_keys m) - seen)"
proof (cases "i \<in> set (btree_keys m)")
  case True
  have "set (btree_keys m) - insert i seen = (set (btree_keys m) - seen) - {i}" by (rule Diff_insert)
  with True assms show ?thesis by (simp only: card_Diff1_less finite_Diff finite_set DiffI not_False_eq_True simp_thms)
next
  case False
  then have "set (btree_keys m) - insert i seen = set (btree_keys m) - seen" by (rule Diff_insert0)
  moreover from False have "btree_get m i = None" by (cases "btree_get m i") simp_all
  ultimately show ?thesis by simp
qed

text \<open>The walk from a node to the root of its containment.\<close>

function host_walk :: "(string, host_node_spec) btree \<Rightarrow> string option \<Rightarrow> string set \<Rightarrow> (unit, string) result" where
  "host_walk by_id None seen = Ok ()"
| "host_walk by_id (Some i) seen =
     (if i \<in> seen then Err (''host containment cycle through '' @ debug_str i)
      else host_walk by_id (Option.bind (btree_get by_id i) hs_parent) (insert i seen))"
  by pat_completeness auto

termination
proof (relation "measures [\<lambda>(m, i, seen). card (set (btree_keys m) - seen), \<lambda>(m, i, seen). if i = None then 0 else 1]", goal_cases)
  case (2 m i seen)
  then show ?case using walk_measure [of i seen m] by auto
qed simp

definition claimable_leaf :: "host_node_spec \<Rightarrow> bool" where
  "claimable_leaf spec \<longleftrightarrow> hs_kind spec = Cpu \<or> hs_kind spec = Memory"

definition validate_containment :: "(string, host_node_spec) btree \<Rightarrow> host_node_spec \<Rightarrow> unit \<Rightarrow> (unit, string) result" where
  "validate_containment by_id spec u =
     and_then
       (case hs_parent spec of
          None \<Rightarrow> Ok ()
        | Some parent \<Rightarrow>
            (case btree_get by_id parent of
               None \<Rightarrow> Err (''host node '' @ debug_str (hs_id spec) @ '' references unknown parent '' @ debug_str parent)
             | Some parent_spec \<Rightarrow>
                 if claimable_leaf parent_spec
                 then Err (''host node '' @ debug_str (hs_id spec) @ '' cannot be contained by claimable leaf '' @ debug_str parent)
                 else Ok ()))
       (\<lambda>_. host_walk by_id (Some (hs_id spec)) {})"

definition validate_device :: "(string, host_node_spec) btree \<Rightarrow> device_spec \<Rightarrow> string set \<Rightarrow> (string set, string) result" where
  "validate_device by_id device ids =
     (if trim (ds_id device) = [] \<or> trim (ds_dev device) = [] then Err ''device stable id and path must be non-empty''
      else if \<not> device_kind (ds_kind device)
      then Err (''resource class '' @ debug_class (ds_kind device) @ '' is not valid in a device inventory'')
      else if ds_id device \<in> ids then Err (''provider reported duplicate stable device id '' @ debug_str (ds_id device))
      else if reserved_attrs (ds_attrs device)
      then Err (''device '' @ debug_str (ds_id device) @ '' uses a reserved Archon attribute'')
      else case ds_host_parent device of
        None \<Rightarrow> Ok (insert (ds_id device) ids)
      | Some parent \<Rightarrow>
          (case btree_get by_id parent of
             None \<Rightarrow> Err (''device '' @ debug_str (ds_id device) @ '' references unknown host parent '' @ debug_str parent)
           | Some parent_spec \<Rightarrow>
               if claimable_leaf parent_spec
               then Err (''device '' @ debug_str (ds_id device) @ '' cannot be contained by claimable host leaf '' @ debug_str parent)
               else Ok (insert (ds_id device) ids)))"

definition validate_machine_description :: "machine_description \<Rightarrow> (unit, string) result" where
  "validate_machine_description d =
     and_then (try_fold validate_host_node (md_host_nodes d)
         \<lparr>ht_by_id = btree_empty, ht_cpus = 0, ht_memory = 0, ht_memory_nodes = 0\<rparr>) (\<lambda>t.
     and_then (try_fold (validate_containment (ht_by_id t)) (md_host_nodes d) ()) (\<lambda>_.
     and_then
       (if md_host_nodes d = [] then Ok ()
        else if ht_cpus t \<noteq> md_cpus d
        then Err (''host inventory reports '' @ show_nat (unat (ht_cpus t)) @ '' logical CPUs but machine summary reports '' @
               show_nat (unat (md_cpus d)))
        else if ht_memory_nodes t = 0 \<or> ht_memory t \<noteq> md_memory_bytes d
        then Err (''host inventory reports '' @ show_nat (unat (ht_memory t)) @ '' memory bytes across '' @
               show_nat (ht_memory_nodes t) @ '' nodes but machine summary reports '' @ show_nat (unat (md_memory_bytes d)))
        else Ok ()) (\<lambda>_.
     and_then (try_fold (validate_device (ht_by_id t)) (md_devices d) {}) (\<lambda>_. Ok ()))))"

section \<open>The graph of a machine\<close>

record local_machine =
  lm_machine :: node_id
  lm_cpus :: "node_id list"
  lm_memory :: "node_id list"

definition contains_edge :: "node_id \<Rightarrow> node_id \<Rightarrow> edge" where
  "contains_edge f t = \<lparr>e_from = f, e_to = t, e_kind = Contains, e_attrs = btree_empty\<rparr>"

text \<open>\<open>n\<close> fresh ids after \<open>used\<close>, in the order the generator hands them out.\<close>

definition fresh_ids :: "u64 \<Rightarrow> nat \<Rightarrow> node_id list" where
  "fresh_ids used n = map (\<lambda>k. used + 1 + of_nat k) [0..<n]"

definition machine_node :: "machine_description \<Rightarrow> node_id \<Rightarrow> node" where
  "machine_node d machine =
     \<lparr>n_id = machine, n_kind = Machine,
      n_attrs = btree_insert ''agent_id'' (md_instance_id d) (btree_insert ''name'' (md_name d) btree_empty),
      n_capacity = btree_empty\<rparr>"

definition flat_host :: "machine_description \<Rightarrow> node_id \<Rightarrow> node_id list \<Rightarrow> node_id \<Rightarrow> node list \<times> edge list" where
  "flat_host d machine cpus memory =
     (\<lparr>n_id = memory, n_kind = Memory, n_attrs = btree_empty, n_capacity = qty Bytes (md_memory_bytes d)\<rparr> #
        map (\<lambda>cpu. \<lparr>n_id = cpu, n_kind = Cpu, n_attrs = btree_empty, n_capacity = qty Count 1\<rparr>) cpus,
      contains_edge machine memory # map (contains_edge machine) cpus)"

definition host_graph_node :: "node_id \<times> host_node_spec \<Rightarrow> node" where
  "host_graph_node = (\<lambda>(i, spec).
     \<lparr>n_id = i, n_kind = hs_kind spec, n_attrs = btree_insert HOST_ID_ATTR (hs_id spec) (hs_attrs spec), n_capacity = hs_capacity spec\<rparr>)"

text \<open>\<^verbatim>\<open>parent.as_ref().map(|parent| host_ids[parent]).unwrap_or(machine)\<close>.\<close>

definition host_container :: "(string, node_id) btree \<Rightarrow> node_id \<Rightarrow> string option \<Rightarrow> node_id option" where
  "host_container host_ids machine parent =
     (case parent of None \<Rightarrow> Some machine | Some i \<Rightarrow> btree_get host_ids i)"

fun all_some :: "'a option list \<Rightarrow> 'a list option" where
  "all_some [] = Some []"
| "all_some (x # xs) = Option.bind x (\<lambda>a. map_option ((#) a) (all_some xs))"

definition device_attrs :: "(string list \<Rightarrow> string) \<Rightarrow> device_spec \<Rightarrow> attrs" where
  "device_attrs json spec =
     (let attrs1 = btree_insert ''dev'' (ds_dev spec) (btree_insert ''id'' (ds_id spec) (ds_attrs spec));
          attrs2 = (if ds_access spec \<noteq> [] then btree_insert ''access'' (json (ds_access spec)) attrs1 else attrs1)
      in case ds_host_parent spec of None \<Rightarrow> attrs2 | Some parent \<Rightarrow> btree_insert DEVICE_HOST_PARENT_ATTR parent attrs2)"

definition device_node :: "(string list \<Rightarrow> string) \<Rightarrow> node_id \<times> device_spec \<Rightarrow> node" where
  "device_node json = (\<lambda>(i, spec). \<lparr>n_id = i, n_kind = ds_kind spec, n_attrs = device_attrs json spec, n_capacity = qty Count 1\<rparr>)"

definition build_graph ::
    "(string list \<Rightarrow> string) \<Rightarrow> machine_description \<Rightarrow> u64 \<Rightarrow> (local_machine \<times> node list \<times> edge list) option" where
  "build_graph json d first_id =
     (let machine = first_id + 1;
          finish = (\<lambda>used host_ids cpus memory nodes edges.
            let devices = zip (fresh_ids used (length (md_devices d))) (md_devices d)
            in map_option (\<lambda>device_edges.
                 (\<lparr>lm_machine = machine, lm_cpus = cpus, lm_memory = memory\<rparr>,
                  machine_node d machine # nodes @ map (device_node json) devices, edges @ device_edges))
                 (all_some (map (\<lambda>(i, spec). map_option (\<lambda>parent. contains_edge parent i)
                    (host_container host_ids machine (ds_host_parent spec))) devices)))
      in if md_host_nodes d = [] then
           let cpus = fresh_ids machine (unat (md_cpus d));
               memory = machine + md_cpus d + 1;
               (nodes, edges) = flat_host d machine cpus memory
           in finish memory btree_empty cpus [memory] nodes edges
         else
           let specs = sort_key hs_id (md_host_nodes d);
               numbered = zip (fresh_ids machine (length specs)) specs;
               host_ids = fold (\<lambda>(i, spec). btree_insert (hs_id spec) i) numbered btree_empty;
               of_kind = (\<lambda>kind. List.map_filter (\<lambda>spec. btree_get host_ids (hs_id spec)) (filter (\<lambda>spec. hs_kind spec = kind) specs))
           in Option.bind
                (all_some (map (\<lambda>spec. Option.bind (btree_get host_ids (hs_id spec)) (\<lambda>child.
                   map_option (\<lambda>parent. contains_edge parent child) (host_container host_ids machine (hs_parent spec)))) specs))
                (\<lambda>edges. finish (machine + of_nat (length specs)) host_ids (of_kind Cpu) (of_kind Memory)
                   (map host_graph_node numbered) edges))"

section \<open>Writers and contracts\<close>

definition fact_writer_of :: "resource_class \<Rightarrow> fact_writer_id" where
  "fact_writer_of kind = (if device_kind kind then DEVICE_FACT_WRITER else HOST_FACT_WRITER)"

definition provider_fact_batches :: "node list \<Rightarrow> edge list \<Rightarrow> provider_fact_batch list" where
  "provider_fact_batches nodes edges =
     (let by_node = fold (\<lambda>n. btree_insert (n_id n) (fact_writer_of (n_kind n))) nodes btree_empty;
          node_writer = (\<lambda>i. btree_get_or HOST_FACT_WRITER by_node i);
          batch = (\<lambda>writer. \<lparr>pb_writer = writer,
            pb_nodes = filter (\<lambda>n. (node_writer (n_id n) = DEVICE_FACT_WRITER) = (writer = DEVICE_FACT_WRITER)) nodes,
            pb_edges = filter (\<lambda>e. (node_writer (e_to e) = DEVICE_FACT_WRITER) = (writer = DEVICE_FACT_WRITER)) edges\<rparr>)
      in filter (\<lambda>b. pb_nodes b \<noteq> [] \<or> pb_edges b \<noteq> []) [batch HOST_FACT_WRITER, batch DEVICE_FACT_WRITER])"

text \<open>Nodes of the machine whose facts the returning agent still reports: devices by their stable id, everything else always.\<close>

definition reported :: "string set \<Rightarrow> node \<Rightarrow> bool" where
  "reported current nd \<longleftrightarrow>
     device_kind (n_kind nd) \<longrightarrow> (case btree_get (n_attrs nd) ''id'' of None \<Rightarrow> False | Some i \<Rightarrow> i \<in> current)"

definition current_nodes :: "graph \<Rightarrow> node_id \<Rightarrow> device_spec list \<Rightarrow> (node_id \<times> node) list" where
  "current_nodes g machine devices =
     filter (\<lambda>(_, nd). reported (set (map ds_id devices)) nd)
       (List.map_filter (\<lambda>i. map_option (Pair i) (graph_node g i)) (descendants g machine @ [machine]))"

definition current_fact_writer_assignments :: "graph \<Rightarrow> node_id \<Rightarrow> device_spec list \<Rightarrow> fact_writer_assignment list" where
  "current_fact_writer_assignments g machine devices =
     (let nodes = current_nodes g machine devices;
          included = fold (\<lambda>(i, nd). btree_insert i (fact_writer_of (n_kind nd))) nodes btree_empty;
          edges = filter (\<lambda>e. e_kind e = Contains) (g_edges g);
          assignment = (\<lambda>writer. \<lparr>fa_writer = writer,
            fa_nodes = map fst (filter (\<lambda>(_, nd). fact_writer_of (n_kind nd) = writer) nodes),
            fa_edges = map (\<lambda>e. \<lparr>fe_from = e_from e, fe_to = e_to e, fe_kind = e_kind e\<rparr>)
              (filter (\<lambda>e. btree_get included (e_to e) = Some writer) edges)\<rparr>)
      in filter (\<lambda>a. fa_nodes a \<noteq> [] \<or> fa_edges a \<noteq> []) [assignment HOST_FACT_WRITER, assignment DEVICE_FACT_WRITER])"

definition claim_shape :: "resource_class \<Rightarrow> (capacity_dimension \<times> binding_scope) option" where
  "claim_shape kind =
     (if kind = Cpu then Some (Count, Exclusive)
      else if kind = Memory then Some (Bytes, IndependentShare)
      else if device_kind kind then Some (Count, Exclusive)
      else None)"

definition claim_bindings :: "node list \<Rightarrow> claim_binding_update list" where
  "claim_bindings nodes =
     List.map_filter (\<lambda>nd. Option.bind (claim_shape (n_kind nd)) (\<lambda>(dimension, scope).
         if btree_get_or 0 (n_capacity nd) dimension > 0
         then Some \<lparr>cu_node = n_id nd, cu_dimension = dimension,
           cu_binding = Some \<lparr>cb_provider = provider_enforce, cb_scope = scope\<rparr>\<rparr>
         else None)) nodes"

section \<open>A returning agent\<close>

definition child_nodes :: "graph \<Rightarrow> node_id \<Rightarrow> node list" where
  "child_nodes g machine = List.map_filter (graph_node g) (descendants g machine)"

definition flat_host_matches :: "graph \<Rightarrow> node_id \<Rightarrow> machine_description \<Rightarrow> bool" where
  "flat_host_matches g machine d \<longleftrightarrow>
     (let cpu_nodes = filter (\<lambda>nd. n_kind nd = Cpu) (child_nodes g machine);
          memory_nodes = filter (\<lambda>nd. n_kind nd = Memory) (child_nodes g machine)
      in of_nat (length cpu_nodes) = md_cpus d \<and> list_all (\<lambda>nd. n_capacity nd = qty Count 1) cpu_nodes \<and>
         length memory_nodes = 1 \<and> quantity_get (n_capacity (memory_nodes ! 0)) Bytes = md_memory_bytes d)"

text \<open>The host node a registered node stands for.\<close>

definition registered_host :: "graph \<Rightarrow> node_id \<Rightarrow> node_id \<Rightarrow> host_node_spec list \<Rightarrow> (host_node_spec list, string) result" where
  "registered_host g machine i actual =
     (case graph_node g i of
        None \<Rightarrow> Ok actual
      | Some nd \<Rightarrow>
          (case btree_get (n_attrs nd) HOST_ID_ATTR of
             None \<Rightarrow> Ok actual
           | Some host_id \<Rightarrow>
               and_then
                 (case graph_parent g i of
                    None \<Rightarrow> Err (''host node '' @ debug_str host_id @ '' lost containment'')
                  | Some parent \<Rightarrow>
                      if parent = machine then Ok None
                      else
                        (case Option.bind (graph_node g parent) (\<lambda>nd. btree_get (n_attrs nd) HOST_ID_ATTR) of
                           None \<Rightarrow> Err (''host node '' @ debug_str host_id @ '' has a non-host containment parent'')
                         | Some parent_id \<Rightarrow> Ok (Some parent_id)))
                 (\<lambda>parent. Ok (actual @ [\<lparr>hs_id = host_id, hs_kind = n_kind nd, hs_parent = parent,
                    hs_attrs = btree_remove HOST_ID_ATTR (n_attrs nd), hs_capacity = n_capacity nd\<rparr>]))))"

definition verify_registered_host :: "graph \<Rightarrow> node_id \<Rightarrow> machine_description \<Rightarrow> (unit, string) result" where
  "verify_registered_host g machine d =
     (let below = descendants g machine;
          normalized = list_ex (\<lambda>nd. btree_contains_key (n_attrs nd) HOST_ID_ATTR) (child_nodes g machine)
      in if md_host_nodes d = [] then
           if normalized then Err ''returning agent omitted previously authoritative normalized host topology''
           else if \<not> flat_host_matches g machine d then Err ''returning agent changed host CPU or memory facts''
           else Ok ()
         else
           and_then (try_fold (registered_host g machine) below []) (\<lambda>actual.
             if sort_key hs_id actual \<noteq> sort_key hs_id (md_host_nodes d)
             then Err ''returning agent changed authoritative host topology or capacity''
             else Ok ()))"

definition host_parent_node :: "graph \<Rightarrow> node_id \<Rightarrow> string \<Rightarrow> (node_id, string) result" where
  "host_parent_node g machine host_parent =
     (case find (\<lambda>i. Option.bind (graph_node g i) (\<lambda>nd. btree_get (n_attrs nd) HOST_ID_ATTR) = Some host_parent)
             (descendants g machine) of
        None \<Rightarrow> Err (''unknown committed host parent '' @ debug_str host_parent)
      | Some i \<Rightarrow> Ok i)"

end
