(* ===== verification/Node_Registration.thy ===== *)
theory Node_Registration
  imports Node_Inventory Node_Controller
begin

text \<open>
  Agents join a controller (\<^verbatim>\<open>crates/node/src/service.rs\<close>): what an agent reports about its machine, the facts of a new machine,
  the reconciliation of a machine that is known, and the session that starts the recovery of its bindings. The
  connection to an agent is seen as its answers; a worker that was spawned takes jobs.
\<close>

section \<open>What an agent reports\<close>

definition hello :: "rendering \<Rightarrow> agent_reply \<Rightarrow> (machine_description, error) result" where
  "hello rd reply =
     (case reply of
        Err reason \<Rightarrow> Err (Refused reason)
      | Ok (RsWelcome instance_id name cpus memory_bytes host_nodes devices) \<Rightarrow>
          Ok \<lparr>md_instance_id = instance_id, md_name = name, md_cpus = cpus, md_memory_bytes = memory_bytes,
              md_host_nodes = host_nodes, md_devices = devices\<rparr>
      | Ok other \<Rightarrow> Err (Refused (''expected Welcome, got '' @ rd_debug rd other)))"

definition query_execution_capabilities :: "rendering \<Rightarrow> agent_reply \<Rightarrow> (execution_capabilities, error) result" where
  "query_execution_capabilities rd reply =
     (case reply of
        Err reason \<Rightarrow> Err (Refused (''agent capability query failed: '' @ reason))
      | Ok (RsCapabilities capabilities) \<Rightarrow> Ok capabilities
      | Ok other \<Rightarrow> Err (Refused (''agent did not report execution capabilities: '' @ rd_debug rd other)))"

section \<open>Ownership and contracts of a returning machine\<close>

definition unowned_node :: "graph \<Rightarrow> fact_writer_id \<Rightarrow> node_id \<Rightarrow> node_id list \<Rightarrow> (node_id list, error) result" where
  "unowned_node g writer n nodes =
     (case node_fact_writer g n of
        None \<Rightarrow> Ok (nodes @ [n])
      | Some owner \<Rightarrow>
          if owner = writer then Ok nodes
          else Err (Refused (''resource node '' @ display_node n @ '' already belongs to discovery writer '' @
                 display_writer owner @ ''; returning agent expects '' @ display_writer writer)))"

definition unowned_edge :: "graph \<Rightarrow> fact_writer_id \<Rightarrow> fact_edge \<Rightarrow> fact_edge list \<Rightarrow> (fact_edge list, error) result" where
  "unowned_edge g writer e edges =
     (case edge_fact_writer g e of
        None \<Rightarrow> Ok (edges @ [e])
      | Some owner \<Rightarrow>
          if owner = writer then Ok edges
          else Err (Refused (''resource edge '' @ display_node (fe_from e) @ '' -> '' @ display_node (fe_to e) @ '' '' @
                 debug_edge_kind (fe_kind e) @ '' already belongs to discovery writer '' @ display_writer owner @
                 ''; returning agent expects '' @ display_writer writer)))"

definition missing_assignment ::
    "graph \<Rightarrow> fact_writer_assignment \<Rightarrow> fact_writer_assignment list \<Rightarrow> (fact_writer_assignment list, error) result" where
  "missing_assignment g a missing =
     and_then (try_fold (unowned_node g (fa_writer a)) (fa_nodes a) []) (\<lambda>nodes.
     and_then (try_fold (unowned_edge g (fa_writer a)) (fa_edges a) []) (\<lambda>edges.
       Ok (if nodes \<noteq> [] \<or> edges \<noteq> [] then missing @ [\<lparr>fa_writer = fa_writer a, fa_nodes = nodes, fa_edges = edges\<rparr>] else missing)))"

definition missing_fact_writer_assignments ::
    "node_service \<Rightarrow> node_id \<Rightarrow> device_spec list \<Rightarrow> (fact_writer_assignment list, error) result" where
  "missing_fact_writer_assignments s machine devices =
     (let g = k_graph (s_cluster s) in try_fold (missing_assignment g) (current_fact_writer_assignments g machine devices) [])"

definition preflight_fact_writers :: "node_id \<Rightarrow> device_spec list \<Rightarrow> node_service \<Rightarrow> unit in_service" where
  "preflight_fact_writers machine devices s =
     and_svc (from_result s (missing_fact_writer_assignments s machine devices)) (\<lambda>s _. (s, Done ()))"

definition reconcile_fact_writers :: "node_id \<Rightarrow> device_spec list \<Rightarrow> node_service \<Rightarrow> unit in_service" where
  "reconcile_fact_writers machine devices s =
     and_svc (from_result s (missing_fact_writer_assignments s machine devices)) (\<lambda>s assignments.
       if assignments \<noteq> [] then service_commit (AdoptFactWriters assignments) s else (s, Done ()))"

definition missing_contract ::
    "graph \<Rightarrow> claim_binding_update \<Rightarrow> claim_binding_update list \<Rightarrow> (claim_binding_update list, error) result" where
  "missing_contract g u missing =
     (case cu_binding u of
        None \<Rightarrow> Ok missing
      | Some expected \<Rightarrow>
          (case claim_binding_of g (cu_node u) (cu_dimension u) of
             None \<Rightarrow> Ok (missing @ [u])
           | Some actual \<Rightarrow>
               if actual = expected then Ok missing
               else Err (Refused (''resource '' @ display_node (cu_node u) @ '' dimension '' @ cu_dimension u @
                      '' already belongs to provider '' @ display_provider (cb_provider actual) @ '' with '' @
                      debug_scope (cb_scope actual) @ '' scope; returning agent reports provider '' @
                      display_provider (cb_provider expected) @ '' with '' @ debug_scope (cb_scope expected) @ '' scope''))))"

definition missing_claim_contracts :: "node_service \<Rightarrow> node list \<Rightarrow> (claim_binding_update list, error) result" where
  "missing_claim_contracts s nodes = try_fold (missing_contract (k_graph (s_cluster s))) (claim_bindings nodes) []"

definition current_claim_contract_nodes :: "node_service \<Rightarrow> node_id \<Rightarrow> device_spec list \<Rightarrow> node list" where
  "current_claim_contract_nodes s machine devices = map snd (current_nodes (k_graph (s_cluster s)) machine devices)"

definition preflight_claim_contracts :: "node_id \<Rightarrow> device_spec list \<Rightarrow> node_service \<Rightarrow> unit in_service" where
  "preflight_claim_contracts machine devices s =
     and_svc (from_result s (missing_claim_contracts s (current_claim_contract_nodes s machine devices))) (\<lambda>s _. (s, Done ()))"

definition reconcile_claim_contracts :: "node_id \<Rightarrow> device_spec list \<Rightarrow> node_service \<Rightarrow> unit in_service" where
  "reconcile_claim_contracts machine devices s =
     and_svc (from_result s (missing_claim_contracts s (current_claim_contract_nodes s machine devices))) (\<lambda>s missing.
       if missing \<noteq> [] then service_commit (ApplyProviderFacts [] missing) s else (s, Done ()))"

section \<open>Devices of a returning machine\<close>

record device_plan =
  dp_existing :: "(string, node_id) btree"
  dp_base :: u64
  dp_nodes :: "node list"
  dp_edges :: "edge list"
  dp_returning :: "node_id set"
  dp_reported :: "node_id set"

definition known_devices :: "graph \<Rightarrow> node_id \<Rightarrow> (string, node_id) btree" where
  "known_devices g machine =
     btree_collect (List.map_filter (\<lambda>child. Option.bind (graph_node g child) (\<lambda>nd.
         if device_kind (n_kind nd) then map_option (\<lambda>i. (i, child)) (btree_get (n_attrs nd) ''id'') else None))
       (descendants g machine))"

definition max_node_id :: "graph \<Rightarrow> u64" where
  "max_node_id g = fold max (map n_id (graph_nodes g)) 0"

text \<open>The checks on a device that is already in the graph.\<close>

definition check_known_device :: "cluster \<Rightarrow> node_id \<Rightarrow> device_spec \<Rightarrow> node_id option \<Rightarrow> (unit, error) result" where
  "check_known_device c i spec requested_parent =
     (case graph_node (k_graph c) i of
        None \<Rightarrow> Err (UnknownNode i)
      | Some nd \<Rightarrow>
          and_then
            (case (btree_get (n_attrs nd) DEVICE_HOST_PARENT_ATTR, ds_host_parent spec) of
               (Some previous, Some current) \<Rightarrow>
                 if previous \<noteq> current
                 then Err (Refused (''device '' @ debug_str (ds_id spec) @ '' changed host containment from '' @ debug_str previous @
                        '' to '' @ debug_str current @ ''; explicit topology reconciliation is required''))
                 else Ok ()
             | (Some previous, None) \<Rightarrow>
                 Err (Refused (''device '' @ debug_str (ds_id spec) @ '' withdrew authoritative host containment '' @
                   debug_str previous @ ''; explicit topology reconciliation is required''))
             | _ \<Rightarrow> Ok ())
            (\<lambda>_.
               if (case requested_parent of None \<Rightarrow> False | Some parent \<Rightarrow> graph_parent (k_graph c) i \<noteq> Some parent)
               then Err (Refused (''device '' @ debug_str (ds_id spec) @
                      '' changed physical containment; explicit topology reconciliation is required''))
               else if n_kind nd \<noteq> ds_kind spec
               then Err (Refused (''device '' @ debug_str (ds_id spec) @
                      '' changed resource class; replacement requires a new stable id''))
               else if node_state_of c i = Some Retired
               then Err (Refused (''device '' @ debug_str (ds_id spec) @ '' is retired; replacement requires a new stable id''))
               else Ok ()))"

definition refreshed_attrs :: "(string list \<Rightarrow> string) \<Rightarrow> device_spec \<Rightarrow> attrs" where
  "refreshed_attrs json spec =
     (let attrs1 = btree_insert ''dev'' (ds_dev spec) (btree_insert ''id'' (ds_id spec) (ds_attrs spec));
          attrs2 = (case ds_host_parent spec of None \<Rightarrow> attrs1 | Some parent \<Rightarrow> btree_insert DEVICE_HOST_PARENT_ATTR parent attrs1)
      in if ds_access spec \<noteq> [] then btree_insert ''access'' (json (ds_access spec)) attrs2 else btree_remove ''access'' attrs2)"

text \<open>One reported device: a known one keeps its node, a new one gets the next id.\<close>

definition plan_device ::
    "(string list \<Rightarrow> string) \<Rightarrow> cluster \<Rightarrow> node_id \<Rightarrow> device_spec \<Rightarrow> device_plan \<Rightarrow> (device_plan, error) result" where
  "plan_device json c machine spec plan =
     and_then
       (case ds_host_parent spec of
          None \<Rightarrow> Ok None
        | Some parent \<Rightarrow>
            (case host_parent_node (k_graph c) machine parent of Err e \<Rightarrow> Err (Refused e) | Ok i \<Rightarrow> Ok (Some i)))
       (\<lambda>requested_parent.
     and_then
       (case btree_get (dp_existing plan) (ds_id spec) of
          Some i \<Rightarrow>
            and_then (check_known_device c i spec requested_parent) (\<lambda>_.
              Ok (i, plan\<lparr>dp_existing := btree_remove (ds_id spec) (dp_existing plan),
                dp_reported := insert i (dp_reported plan),
                dp_returning := (if node_state_of c i = Some Unavailable \<or> node_state_of c i = Some Joining
                  then insert i (dp_returning plan) else dp_returning plan)\<rparr>))
        | None \<Rightarrow>
            let fresh = dp_base plan + 1
            in Ok (fresh, plan\<lparr>dp_base := fresh,
                 dp_edges := dp_edges plan @ [contains_edge (case requested_parent of None \<Rightarrow> machine | Some parent \<Rightarrow> parent) fresh]\<rparr>))
       (\<lambda>(i, plan).
          let attrs = refreshed_attrs json spec
          in if (case graph_node (k_graph c) i of None \<Rightarrow> False | Some nd \<Rightarrow> n_kind nd = ds_kind spec \<and> n_attrs nd = attrs)
             then Ok plan
             else Ok (plan\<lparr>dp_nodes := dp_nodes plan @ [\<lparr>n_id = i, n_kind = ds_kind spec, n_attrs = attrs, n_capacity = qty Count 1\<rparr>]\<rparr>)))"

definition withdraw_node :: "node_id \<Rightarrow> node_service \<Rightarrow> unit in_service" where
  "withdraw_node n s =
     (if node_state_of (s_cluster s) n = Some Schedulable \<or> node_state_of (s_cluster s) n = Some Joining
      then service_commit (SetNodeState n Unavailable) s else (s, Done ()))"

text \<open>A device that is back becomes schedulable once no open binding is left on it.\<close>

definition return_node :: "node_id \<Rightarrow> node_service \<Rightarrow> unit in_service" where
  "return_node n s =
     and_svc
       (if node_state_of (s_cluster s) n = Some Unavailable then service_commit (SetNodeState n Joining) s else (s, Done ()))
       (\<lambda>s _.
          let open_binding = list_ex (\<lambda>b. b_node b = n \<and> \<not> is_closed (b_state b)) (btree_values (k_bindings (s_cluster s)))
          in if \<not> open_binding \<and> node_state_of (s_cluster s) n = Some Joining
             then service_commit (SetNodeState n Schedulable) s else (s, Done ()))"

definition affected_leases :: "node_service \<Rightarrow> node_id set \<Rightarrow> lease_id list" where
  "affected_leases s gone =
     sorted_list_of_set (set (map l_id (filter (\<lambda>l.
         (l_state l = LReserved \<or> l_state l = LPreparing \<or> l_state l = LActive) \<and>
         list_ex (\<lambda>cl. c_node cl \<in> gone) (a_claims (l_allocation l))) (btree_values (k_leases (s_cluster s))))))"

definition reconcile_device_subtree ::
    "(string list \<Rightarrow> string) \<Rightarrow> node_id \<Rightarrow> device_spec list \<Rightarrow> node_service \<Rightarrow> unit in_service" where
  "reconcile_device_subtree json machine devices s =
     (let g = k_graph (s_cluster s);
          start = \<lparr>dp_existing = known_devices g machine, dp_base = max_node_id g, dp_nodes = [], dp_edges = [],
            dp_returning = {}, dp_reported = {}\<rparr>
      in and_svc (from_result s (try_fold (plan_device json (s_cluster s) machine) devices start)) (\<lambda>s plan.
         and_svc (from_result s (missing_claim_contracts s (List.map_filter (graph_node g) (sorted_list_of_set (dp_reported plan)))))
           (\<lambda>s missing.
         let contracts = missing @ claim_bindings (filter (\<lambda>nd. n_id nd \<notin> dp_reported plan) (dp_nodes plan));
             gone = set (btree_values (dp_existing plan))
         in and_svc
              (if dp_nodes plan \<noteq> [] \<or> dp_edges plan \<noteq> [] \<or> contracts \<noteq> []
               then service_commit (ApplyProviderFacts
                      [\<lparr>pb_writer = DEVICE_FACT_WRITER, pb_nodes = dp_nodes plan, pb_edges = dp_edges plan\<rparr>] contracts) s
               else (s, Done ())) (\<lambda>s _.
            and_svc (each_svc withdraw_node (sorted_list_of_set gone) s) (\<lambda>s _.
            and_svc (each_svc (\<lambda>lease. service_commit (FailLease lease ''provider resource disappeared'')) (affected_leases s gone) s)
              (\<lambda>s _. each_svc return_node (sorted_list_of_set (dp_returning plan)) s))))))"

section \<open>Registration\<close>

definition named_machine :: "cluster \<Rightarrow> string \<Rightarrow> node_id option" where
  "named_machine c instance_id =
     find (\<lambda>i. Option.bind (graph_node (k_graph c) i) (\<lambda>nd. btree_get (n_attrs nd) ''agent_id'') = Some instance_id)
       (nodes_of_class (k_graph c) Machine)"

text \<open>A refused step of the reconciliation takes the machine out of placement before the error is returned.\<close>

fun or_mismatch :: "node_id \<Rightarrow> unit in_service \<Rightarrow> (node_service \<Rightarrow> 'a in_service) \<Rightarrow> 'a in_service" where
  "or_mismatch machine (s, Raise e) k = and_svc (mark_inventory_mismatch machine s) (\<lambda>s _. (s, Raise e))"
| "or_mismatch machine (s, Done _) k = k s"
| "or_mismatch machine (s, Panic) k = (s, Panic)"

definition refused :: "string \<Rightarrow> (unit, string) result \<Rightarrow> (unit, error) result" where
  "refused prefix r = (case r of Ok u \<Rightarrow> Ok u | Err explanation \<Rightarrow> Err (Refused (prefix @ explanation)))"

definition readmit_machine :: "(string list \<Rightarrow> string) \<Rightarrow> machine_description \<Rightarrow> node_id \<Rightarrow> node_service \<Rightarrow> (node_id \<times> bool) in_service" where
  "readmit_machine json d machine s =
     or_mismatch machine (from_result s (refused
         ''returning agent host inventory changed; explicit topology reconciliation is required: ''
         (verify_registered_host (k_graph (s_cluster s)) machine d))) (\<lambda>s.
     or_mismatch machine (preflight_fact_writers machine (md_devices d) s) (\<lambda>s.
     or_mismatch machine (preflight_claim_contracts machine (md_devices d) s) (\<lambda>s.
     or_mismatch machine (reconcile_fact_writers machine (md_devices d) s) (\<lambda>s.
     or_mismatch machine (reconcile_device_subtree json machine (md_devices d) s) (\<lambda>s.
     or_mismatch machine (reconcile_claim_contracts machine (md_devices d) s) (\<lambda>s. (s, Done (machine, False))))))))"

definition admit_machine :: "(string list \<Rightarrow> string) \<Rightarrow> machine_description \<Rightarrow> node_service \<Rightarrow> (node_id \<times> bool) in_service" where
  "admit_machine json d s =
     (case build_graph json d (max_node_id (k_graph (s_cluster s))) of
        None \<Rightarrow> (s, Panic)
      | Some (_, nodes, edges) \<Rightarrow>
          and_svc (service_commit (ApplyProviderFacts (provider_fact_batches nodes edges) (claim_bindings nodes)) s) (\<lambda>s _.
            (case named_machine (s_cluster s) (md_instance_id d) of
               None \<Rightarrow> (s, Raise (Refused ''applied graph fragment but machine node is missing''))
             | Some machine \<Rightarrow> (s, Done (machine, True)))))"

definition forget_status :: "node_id \<Rightarrow> node_service \<Rightarrow> node_service" where
  "forget_status machine s =
     s\<lparr>s_member_status := fold btree_remove (filter (\<lambda>(_, n). n = machine) (btree_keys (s_member_status s))) (s_member_status s)\<rparr>"

definition join_agent :: "node_id \<Rightarrow> bool \<Rightarrow> execution_capabilities \<Rightarrow> node_service \<Rightarrow> node_id in_service" where
  "join_agent machine new_machine capabilities s =
     (let s1 = s\<lparr>s_execution_capabilities := btree_insert machine capabilities (s_execution_capabilities s),
                 s_agents := btree_insert machine True (s_agents s)\<rparr>;
          recovering = \<not> new_machine \<and> btree_contains_key (k_sessions (s_cluster s1)) machine;
          session = s_next_session s1;
          s2 = s1\<lparr>s_next_session := session + 1\<rparr>
      in and_svc
           (if recovering then
              (forget_status machine (s2\<lparr>s_recovering_machines :=
                 btree_insert machine (machine_recovery_new session) (s_recovering_machines s2)\<rparr>), Done ())
            else if \<not> new_machine then
              service_commit (SetNodeHealth machine ''healthy'') (commit_lenient (UnquarantineNode machine) s2)
            else (s2, Done ())) (\<lambda>s _.
         and_svc (service_commit (SetAgentSession machine session) s) (\<lambda>s _.
         and_svc (pump (if recovering then request_enumeration machine s else s)) (\<lambda>s _. (s, Done machine)))))"

definition register_agent_with_capabilities ::
    "(string list \<Rightarrow> string) \<Rightarrow> machine_description \<Rightarrow> execution_capabilities \<Rightarrow> node_service \<Rightarrow> node_id in_service" where
  "register_agent_with_capabilities json d capabilities s =
     and_svc (from_result s (refused [] (validate_machine_description d))) (\<lambda>s _.
     and_svc
       (case named_machine (s_cluster s) (md_instance_id d) of
          Some machine \<Rightarrow> readmit_machine json d machine s
        | None \<Rightarrow> admit_machine json d s) (\<lambda>s (machine, new_machine). join_agent machine new_machine capabilities s))"

definition register_agent ::
    "rendering \<Rightarrow> (string list \<Rightarrow> string) \<Rightarrow> machine_description \<Rightarrow> agent_reply \<Rightarrow> node_service \<Rightarrow> node_id in_service" where
  "register_agent rd json d reply s =
     and_svc (from_result s (query_execution_capabilities rd reply)) (\<lambda>s capabilities.
       register_agent_with_capabilities json d capabilities s)"

text \<open>A remote agent introduces itself on its connection and has to have an identity.\<close>

definition register_remote ::
    "rendering \<Rightarrow> (string list \<Rightarrow> string) \<Rightarrow> agent_reply \<Rightarrow> agent_reply \<Rightarrow> node_service \<Rightarrow> node_id in_service" where
  "register_remote rd json welcome capabilities s =
     and_svc (from_result s (hello rd welcome)) (\<lambda>s d.
       if md_instance_id d = [] then (s, Raise (Refused ''remote agent returned an empty stable instance id''))
       else register_agent rd json d capabilities s)"

end
