(* ===== verification/Service_Registration.thy ===== *)
theory Service_Registration
  imports Service_Operations Node_Registration
begin

text \<open>The invariant of the controller while agents join: facts, reconciliation of devices, sessions.\<close>

lemma keeps_from_result: "service_inv H s \<Longrightarrow> keeps H (from_result s r)"
  by (cases r) simp_all

lemma keeps_if: "(b \<Longrightarrow> keeps H x) \<Longrightarrow> (\<not> b \<Longrightarrow> keeps H y) \<Longrightarrow> keeps H (if b then x else y)"
  by simp

lemma keeps_or_mismatch:
  assumes "keeps H out" and "\<And>s. service_inv H s \<Longrightarrow> keeps H (k s)"
  shows "keeps H (or_mismatch machine out k)"
  using assms by (cases "(machine, out, k)" rule: or_mismatch.cases) (auto intro!: keeps_and keeps_mark_inventory_mismatch)

lemma keeps_plain_commit: "service_inv H s \<Longrightarrow> direct_close cmd = None \<Longrightarrow> opens_lease cmd = None \<Longrightarrow> keeps H (service_commit cmd s)"
  by (rule keeps_commit) simp_all

lemmas keeps_flow = keeps_and keeps_if keeps_from_result keeps_each keeps_plain_commit keeps_or_mismatch

lemma keeps_reconciliation:
  assumes "service_inv H s"
  shows "keeps H (preflight_fact_writers machine devices s)" "keeps H (reconcile_fact_writers machine devices s)"
    "keeps H (preflight_claim_contracts machine devices s)" "keeps H (reconcile_claim_contracts machine devices s)"
  unfolding preflight_fact_writers_def reconcile_fact_writers_def preflight_claim_contracts_def reconcile_claim_contracts_def
  using assms by (auto intro!: keeps_flow)

lemma keeps_withdraw_node: "service_inv H s \<Longrightarrow> keeps H (withdraw_node n s)"
  unfolding withdraw_node_def by (intro keeps_flow) simp_all

lemma keeps_return_node: "service_inv H s \<Longrightarrow> keeps H (return_node n s)"
  unfolding return_node_def Let_def by (intro keeps_flow) simp_all

lemma keeps_reconcile_device_subtree: "service_inv H s \<Longrightarrow> keeps H (reconcile_device_subtree json machine devices s)"
  unfolding reconcile_device_subtree_def Let_def
  by (intro keeps_flow keeps_withdraw_node keeps_return_node) simp_all

lemma keeps_readmit_machine: "service_inv H s \<Longrightarrow> keeps H (readmit_machine json d machine s)"
  unfolding readmit_machine_def
  by (intro keeps_flow keeps_reconciliation keeps_reconcile_device_subtree) simp_all

lemma keeps_admit_machine: "service_inv H s \<Longrightarrow> keeps H (admit_machine json d s)"
  by (auto simp: admit_machine_def intro!: keeps_flow split: option.split)

section \<open>A new agent\<close>

lemma inv_agents:
  assumes "service_inv H s" and "\<forall>m. btree_get A m \<noteq> None \<longrightarrow> session_of s m \<noteq> None"
  shows "service_inv H (s\<lparr>s_agents := A\<rparr>)"
  using assms by (simp add: inv_defs)

lemma commit_agents:
  "service_commit cmd (s\<lparr>s_agents := A\<rparr>) = (case service_commit cmd s of (s', r) \<Rightarrow> (s'\<lparr>s_agents := A\<rparr>, r))"
  by (simp add: commit_shape persist_def state_snapshot_def Let_def split: prod.split result.split option.split)

lemma commit_fields_agents: "s_agents (fst (service_commit cmd s)) = s_agents s"
  by (simp add: commit_shape persist_pending Let_def split: prod.split result.split)

lemma commit_lenient_agents: "commit_lenient cmd (s\<lparr>s_agents := A\<rparr>) = (commit_lenient cmd s)\<lparr>s_agents := A\<rparr>"
  by (simp add: commit_lenient_def try_commit_lenient_def commit_agents split: prod.split answer.split)

lemma session_committed:
  assumes "service_commit (SetAgentSession machine session) s = (s', Done u)"
  shows "session_of s' machine = Some session"
  using assms
  by (auto simp: commit_shape set_agent_session_def session_of_def op_simps persist_pending Let_def
      split: prod.splits result.splits option.splits if_splits)

text \<open>
  A registration is over before the agent is taken in, or the agent is taken in and its machine has a session: \<open>sessioned\<close> says
  that no agent is left without one.
\<close>

definition sessioned :: "node_service \<Rightarrow> bool" where
  "sessioned s \<longleftrightarrow> (\<forall>m. btree_get (s_agents s) m \<noteq> None \<longrightarrow> session_of s m \<noteq> None)"

lemma inv_sessioned: "service_inv H s \<Longrightarrow> sessioned s"
  by (simp add: service_inv_def desk_ok_def sessioned_def)

lemma sessioned_inv: "service_inv H (s\<lparr>s_agents := A\<rparr>) \<Longrightarrow> sessioned s \<Longrightarrow> service_inv H s"
  using inv_agents [of H "s\<lparr>s_agents := A\<rparr>" "s_agents s"] by (simp add: sessioned_def session_of_def)

lemma keeps_session_commit:
  assumes inv: "service_inv H (s\<lparr>s_agents := A\<rparr>)" and agents: "s_agents s = btree_insert machine True A"
    and k: "\<And>s. service_inv H s \<Longrightarrow> keeps H (k s)"
    and out: "and_svc (service_commit (SetAgentSession machine session) s) (\<lambda>s _. k s) = (s', r)" and "sessioned s'"
  shows "service_inv H s'"
proof -
  obtain t q where t: "service_commit (SetAgentSession machine session) (s\<lparr>s_agents := A\<rparr>) = (t, q)"
    by (cases "service_commit (SetAgentSession machine session) (s\<lparr>s_agents := A\<rparr>)")
  have inv_t: "service_inv H t" using inv_commit [OF inv, of "SetAgentSession machine session"] t by simp
  have one: "service_commit (SetAgentSession machine session) s = (t\<lparr>s_agents := s_agents s\<rparr>, q)"
    using commit_agents [where s = "s\<lparr>s_agents := A\<rparr>" and A = "s_agents s" and cmd = "SetAgentSession machine session"]
    by (simp only: t prod.case) simp
  have t_agents: "s_agents t = A" using commit_fields_agents [of "SetAgentSession machine session" "s\<lparr>s_agents := A\<rparr>"] t by simp
  show ?thesis
  proof (cases q)
    case (Done u)
    have "session_of t machine = Some session" using session_committed [OF t [unfolded Done]] .
    then have "service_inv H (t\<lparr>s_agents := s_agents s\<rparr>)"
      using inv_sessioned [OF inv_t] agents t_agents by (intro inv_agents [OF inv_t]) (auto simp: sessioned_def)
    from k [OF this] out one Done show ?thesis by (simp add: keeps_def)
  next
    case (Raise e)
    with out one have "s' = t\<lparr>s_agents := s_agents s\<rparr>" by simp
    moreover have "service_inv H (s'\<lparr>s_agents := A\<rparr>)" by (rule inv_cong [OF inv_t]) (simp_all add: t_agents calculation)
    ultimately show ?thesis using sessioned_inv assms(5) by blast
  next
    case Panic
    with out one have "s' = t\<lparr>s_agents := s_agents s\<rparr>" by simp
    moreover have "service_inv H (s'\<lparr>s_agents := A\<rparr>)" by (rule inv_cong [OF inv_t]) (simp_all add: t_agents calculation)
    ultimately show ?thesis using sessioned_inv assms(5) by blast
  qed
qed

text \<open>Before the session: the agent is in the table, and nothing looks at it.\<close>

lemma keeps_join_agent:
  assumes inv: "service_inv H s" and out: "join_agent machine new_machine capabilities s = (s', r)" and "sessioned s'"
  shows "service_inv H s'"
proof -
  define A where "A = s_agents s"
  define session where "session = s_next_session s"
  define s2 where "s2 = s\<lparr>s_execution_capabilities := btree_insert machine capabilities (s_execution_capabilities s),
      s_agents := btree_insert machine True A, s_next_session := session + 1\<rparr>"
  define recovering where "recovering = (\<not> new_machine \<and> btree_contains_key (k_sessions (s_cluster s)) machine)"
  define first where "first =
     (if recovering then
        (forget_status machine (s2\<lparr>s_recovering_machines :=
           btree_insert machine (machine_recovery_new session) (s_recovering_machines s2)\<rparr>), Done ())
      else if \<not> new_machine then
        service_commit (SetNodeHealth machine ''healthy'') (commit_lenient (UnquarantineNode machine) s2)
      else (s2, Done ()))"
  let ?rest = "\<lambda>s. and_svc (pump (if recovering then request_enumeration machine s else s)) (\<lambda>s _. (s, Done machine))"
  have joined: "join_agent machine new_machine capabilities s =
      and_svc first (\<lambda>s _. and_svc (service_commit (SetAgentSession machine session) s) (\<lambda>s _. ?rest s))"
    by (simp add: join_agent_def Let_def first_def s2_def A_def session_def recovering_def)
  have rest: "service_inv H s \<Longrightarrow> keeps H (?rest s)" for s
    by (auto intro!: keeps_and keeps_pump inv_request_enumeration)
  have inv2: "service_inv H (s2\<lparr>s_agents := A\<rparr>)" using inv by (rule inv_cong) (simp_all add: s2_def A_def)
  obtain u q where first: "first = (u, q)" by (cases first)
  have u: "service_inv H (u\<lparr>s_agents := A\<rparr>) \<and> s_agents u = btree_insert machine True A"
  proof (cases "recovering \<or> new_machine")
    case True
    then have "u = (if recovering then forget_status machine (s2\<lparr>s_recovering_machines :=
        btree_insert machine (machine_recovery_new session) (s_recovering_machines s2)\<rparr>) else s2)"
      using first unfolding first_def by (simp split: if_splits)
    moreover from this have "service_inv H (u\<lparr>s_agents := A\<rparr>)"
      by (intro inv_cong [OF inv]) (simp_all add: forget_status_def s2_def A_def)
    ultimately show ?thesis by (simp add: forget_status_def s2_def)
  next
    case False
    let ?t = "commit_lenient (UnquarantineNode machine) s2" and ?h = "SetNodeHealth machine ''healthy''"
    have health: "service_commit ?h ?t = (u, q)" using False first unfolding first_def by simp
    have t: "service_inv H (?t\<lparr>s_agents := A\<rparr>)" unfolding commit_lenient_agents [symmetric] by (rule inv_commit_lenient [OF inv2]) simp
    from inv_commit [OF t, of ?h] have "service_inv H (u\<lparr>s_agents := A\<rparr>)" unfolding commit_agents health by simp
    moreover have "s_agents u = s_agents s2"
      using commit_fields_agents [of ?h ?t] health commit_fields_agents [of "UnquarantineNode machine" s2]
      by (auto simp: commit_lenient_def try_commit_lenient_def split: prod.splits answer.splits)
    ultimately show ?thesis by (simp add: s2_def)
  qed
  show ?thesis
  proof (cases q)
    case (Done x)
    then have "and_svc (service_commit (SetAgentSession machine session) u) (\<lambda>s _. ?rest s) = (s', r)"
      using out joined first by simp
    from keeps_session_commit [OF conjunct1 [OF u] conjunct2 [OF u] rest this assms(3)] show ?thesis .
  next
    case (Raise e)
    with out joined first have "s' = u" by simp
    with u assms(3) show ?thesis using sessioned_inv by blast
  next
    case Panic
    with out joined first have "s' = u" by simp
    with u assms(3) show ?thesis using sessioned_inv by blast
  qed
qed

lemma keeps_register:
  assumes inv: "service_inv H s" and out: "register_agent_with_capabilities json d capabilities s = (s', r)" and "sessioned s'"
  shows "service_inv H s'"
proof -
  define first where "first = (case named_machine (s_cluster s) (md_instance_id d) of
      Some machine \<Rightarrow> readmit_machine json d machine s | None \<Rightarrow> admit_machine json d s)"
  have keeps: "keeps H first"
    using inv by (simp add: first_def keeps_readmit_machine keeps_admit_machine split: option.split)
  obtain u q where first: "first = (u, q)" by (cases first)
  show ?thesis
  proof (cases "validate_machine_description d")
    case (Err e)
    with out inv show ?thesis by (simp add: register_agent_with_capabilities_def refused_def)
  next
    case (Ok x)
    then have out': "and_svc (u, q) (\<lambda>s (machine, new_machine). join_agent machine new_machine capabilities s) = (s', r)"
      using out first by (simp add: register_agent_with_capabilities_def refused_def first_def)
    have "service_inv H u" using keeps first by simp
    with out' keeps_join_agent assms(3) show ?thesis by (cases q) auto
  qed
qed

end
