(* ===== verification/Service_Safety.thy ===== *)
theory Service_Safety
  imports Service_Admission Service_Registration
begin

text \<open>
  The safety of a running controller. \<open>service_step\<close> is any operation of the controller, with any answer an agent might give, in
  any order; \<open>service_reaches\<close> are the states that follow from a new controller, restarts from a snapshot
  included. The properties speak about the requests that were handed to the agents, which is where authority
  over hardware and processes leaves the controller.
\<close>

section \<open>Steps of a controller\<close>

inductive service_step :: "node_service \<Rightarrow> node_service \<Rightarrow> bool" where
  answer_step: "service_step s (inbox_post tag reply s)"
| worker_lost_step: "service_step s (s\<lparr>s_agents := btree_modify machine (\<lambda>_. False) (s_agents s)\<rparr>)"
| absorb_step: "absorb rd s = (s', r) \<Longrightarrow> service_step s s'"
| pump_step: "pump s = (s', r) \<Longrightarrow> service_step s s'"
| drive_step: "drive rd arriving s = (s', r) \<Longrightarrow> service_step s s'"
| apply_step: "direct_close cmd = None \<Longrightarrow> opens_lease cmd = None \<Longrightarrow> service_apply cmd s = (s', r) \<Longrightarrow> service_step s s'"
| revoke_step: "revoke lease s = (s', r) \<Longrightarrow> service_step s s'"
| expire_step: "expire_due s = (s', r) \<Longrightarrow> service_step s s'"
| clock_step: "service_tick now s = (s', r) \<Longrightarrow> service_step s s'"
| collect_step: "collect_completions rd s = (s', r) \<Longrightarrow> service_step s s'"
| status_step: "service_step s (request_status lease s)"
| probe_step: "service_step s (probe_agents s)"
| logs_step: "service_step s (fst (request_logs lease s))"
| unreachable_step: "service_step s (fst (take_unreachable s))"
| events_step: "service_step s (fst (take_recovery_events s))"
| unhealthy_step: "mark_machine_unhealthy machine s = (s', r) \<Longrightarrow> service_step s s'"
| submit_step: "service_step s (submit workload owner s)"
| admit_step: "s_next_lease s \<noteq> - 1 \<Longrightarrow> admit_one_with_policy policy s = (s', r) \<Longrightarrow> service_step s s'"
| register_group_step: "service_step s (fst (register_service_group g s))"
| scale_group_step: "service_step s (fst (scale_service_group i target s))"
| remove_group_step: "service_step s (remove_service_group i s)"
| reconcile_groups_step: "reconcile_service_groups s = (s', r) \<Longrightarrow> service_step s s'"
| restarts_step: "service_step s (snd (queue_restarts s))"
| register_step: "register_agent_with_capabilities json d capabilities s = (s', r) \<Longrightarrow> sessioned s' \<Longrightarrow> service_step s s'"
| history_step: "service_step s (clear_history s)"
| command_sink_step: "service_step s (set_command_sink commands s)"
| durable_sink_step: "service_step s (set_durable_sink records s)"

inductive service_reaches :: "node_service \<Rightarrow> bool" where
  new_service: "service_reaches service_new"
| restored_service: "service_reaches s \<Longrightarrow> service_reaches (restore (s_cluster s) (state_snapshot s) service_new)"
| next_service: "service_reaches s \<Longrightarrow> service_step s s' \<Longrightarrow> service_reaches s'"

lemma inv_service_new: "service_inv {} service_new"
proof -
  have "cluster_inv cluster_new" by (rule cluster_new_inv)
  then show ?thesis
    by (simp add: service_inv_def service_new_def desk_ok_def jobs_ok_def no_reserved_def cluster_new_def map_filter_def)
qed

lemma inv_restored:
  assumes "service_inv {} s"
  shows "service_inv {} (restore (s_cluster s) (state_snapshot s) service_new)"
proof -
  have "cluster_inv (s_cluster s)" using assms by (simp add: service_inv_def)
  then have "facts_wf (k_graph (s_cluster s))" by (simp add: cluster_inv_def graph_wf_def)
  then have "cluster_migrate_legacy_observations (s_cluster s) = s_cluster s"
    by (simp add: cluster_migrate_legacy_observations_def migrate_identity)
  then show ?thesis
    using assms
    by (simp add: service_inv_def restore_def restore_state_def state_snapshot_def service_new_def desk_ok_def jobs_ok_def map_filter_def)
qed

lemma keepsD: "keeps H out \<Longrightarrow> out = (s', r) \<Longrightarrow> service_inv H s'"
  by (simp add: keeps_def)

lemma inv_clear_history: "service_inv H s \<Longrightarrow> service_inv H (clear_history s)"
proof -
  assume inv: "service_inv H s"
  have "service_inv H ((s\<lparr>s_history := []\<rparr>)\<lparr>s_cluster := (s_cluster s)\<lparr>k_log := []\<rparr>\<rparr>)"
    using inv by (simp only: inv_log) (simp add: inv_defs)
  then show ?thesis by (simp add: clear_history_def)
qed

lemma inv_worker_lost:
  "service_inv H s \<Longrightarrow> service_inv H (s\<lparr>s_agents := btree_modify machine (\<lambda>_. False) (s_agents s)\<rparr>)"
  by (rule inv_agents) (auto simp: service_inv_def desk_ok_def)

lemmas keeps_operations = keeps_absorb keeps_pump keeps_drive keeps_revoke keeps_expire_due keeps_service_tick keeps_collect_completions
  keeps_mark_machine_unhealthy keeps_reconcile_service_groups

lemmas inv_operations = inv_worker_lost inv_request_status inv_probe_agents inv_request_logs inv_register_service_group
  inv_scale_service_group inv_remove_service_group inv_clear_history

lemma inv_step: "service_step s s' \<Longrightarrow> service_inv {} s \<Longrightarrow> service_inv {} s'"
proof (induction rule: service_step.induct)
  case (answer_step s tag reply)
  then show ?case by (simp add: inbox_post_def)
next
  case (register_step json d capabilities s s' r)
  from keeps_register [OF register_step(3,1,2)] show ?case .
next
  case (admit_step s policy s' r)
  from keeps_admit_one_with_policy [OF admit_step(3,1)] admit_step(2) show ?case by (rule keepsD)
next
  case (apply_step cmd s s' r)
  from keeps_service_apply [OF apply_step(4,1,2)] apply_step(3) show ?case by (rule keepsD)
qed ((erule keepsD [rotated], rule keeps_operations, assumption)
  | (rule inv_operations, assumption)
  | simp add: take_unreachable_def take_recovery_events_def set_command_sink_def set_durable_sink_def inv_queue_restarts)+

lemma reaches_inv: "service_reaches s \<Longrightarrow> service_inv {} s"
  by (induction rule: service_reaches.induct) (auto intro: inv_service_new inv_restored inv_step)

section \<open>A run\<close>

text \<open>One machine with one processor, one workload that runs a program on it and is revoked.\<close>

definition sample_description :: machine_description where
  "sample_description =
     \<lparr>md_instance_id = ''agent'', md_name = ''host'', md_cpus = 1, md_memory_bytes = 64, md_host_nodes = [], md_devices = []\<rparr>"

definition sample_capabilities :: execution_capabilities where
  "sample_capabilities =
     (let full = \<lparr>rc_available = True, rc_cpu_limit = True, rc_memory_limit = True, rc_device_isolation = True,
        rc_physical_cpu_placement = True, rc_numa_memory_placement = True\<rparr>
      in \<lparr>ec_process = full, ec_container = full\<rparr>)"

definition sample_rendering :: rendering where
  "sample_rendering = \<lparr>rd_paths = (\<lambda>_. None), rd_debug = (\<lambda>_. [])\<rparr>"

definition sample_workload :: workload_spec where
  "sample_workload =
     \<lparr>ws_resources = sample_request 7 0 [sample_need Cpu Count 1],
      ws_execution = execution_spec_default\<lparr>ex_command := [''run'']\<rparr>, ws_keep_alive = False\<rparr>"

definition sample_registered :: node_service where
  "sample_registered = fst (register_agent_with_capabilities concat sample_description sample_capabilities service_new)"

definition sample_admitted :: node_service where
  "sample_admitted = fst (admit_one (submit sample_workload 9 sample_registered))"

definition answered :: "tag \<Rightarrow> agent_response \<Rightarrow> node_service \<Rightarrow> node_service" where
  "answered tag response s = fst (drive sample_rendering [] (inbox_post tag (Ok response) s))"

definition sample_running :: node_service where
  "sample_running = answered (TagExecutionStart 1 1 1) (RsExecutionStarted 1)
     (answered (TagBinding 1 1 1 PhActivate) (RsActivated 1) (answered (TagBinding 1 1 1 PhPrepare) (RsPrepared 1 5) sample_admitted))"

definition sample_revoked :: node_service where
  "sample_revoked = fst (revoke 1 sample_running)"

definition sample_stopped :: node_service where
  "sample_stopped = answered (TagExecutionStop 1 1 1) (RsExecutionStopped 1) sample_revoked"

lemma sessioned_iff: "sessioned s \<longleftrightarrow> list_all (\<lambda>m. session_of s m \<noteq> None) (btree_keys (s_agents s))"
  by (auto simp: sessioned_def list_all_iff)

lemma reaches_by: "service_reaches s \<Longrightarrow> (\<And>s' r. out = (s', r) \<Longrightarrow> service_step s s') \<Longrightarrow> service_reaches (fst out)"
  by (cases out) (auto intro: next_service)

lemma reaches_answered: "service_reaches s \<Longrightarrow> service_reaches (answered tag response s)"
  unfolding answered_def by (rule reaches_by [OF next_service [OF _ answer_step]]) (auto intro: drive_step)

lemma reaches_registered: "service_reaches sample_registered"
proof -
  have "sessioned sample_registered" unfolding sessioned_iff by code_simp
  then show ?thesis
    unfolding sample_registered_def by (intro reaches_by [OF new_service]) (auto intro: register_step)
qed

lemma reaches_running: "service_reaches sample_running"
proof -
  have id: "s_next_lease (submit sample_workload 9 sample_registered) \<noteq> - 1" by code_simp
  have "service_reaches sample_admitted"
    unfolding sample_admitted_def admit_one_def
    by (rule reaches_by [OF next_service [OF reaches_registered submit_step]]) (use id in \<open>auto intro: admit_step\<close>)
  then show ?thesis unfolding sample_running_def by (intro reaches_answered)
qed

lemma reaches_stopped: "service_reaches sample_stopped"
  unfolding sample_stopped_def sample_revoked_def
  by (intro reaches_answered reaches_by [OF reaches_running]) (auto intro: revoke_step)

section \<open>What the requests promise\<close>




text \<open>
  C5. Programs run on enforced resources: in every reachable state, a request to start a member was sent only for a lease that
  runs a program and was active then, every one of its bindings had its activation acknowledged for the fence it
  holds, and the session of the request is not newer than the session of the machine.
\<close>

theorem start_after_activation:
  assumes "service_reaches s" and "j \<in> set (s_jobs s)"
    and "jb_request j = RqStartExecution lease session epoch command limits img storage ports grace devices"
  shows "runs_program s lease \<and> (lease_state_of s lease = Some LActive \<or> lease_ended s lease) \<and>
    (\<forall>i b. binding_at s i = Some b \<and> b_lease b = lease \<longrightarrow> (\<exists>ack. (i, ack, b_fence b) \<in> s_provider_activations s)) \<and>
    (\<exists>current. session_of s (jb_machine j) = Some current \<and> session \<le> current)"
proof -
  have "start_key j = Some (lease, jb_machine j, session)" using assms(3) by (simp add: start_key_def)
  then have "start_ok s (lease, jb_machine j, session)"
    using reaches_inv [OF assms(1)] assms(2) by (simp add: service_inv_def jobs_ok_def)
  then show ?thesis by (auto simp: start_ok_def lease_state_of_def lease_ended_def binding_at_def)
qed

lemma sample_start: "\<exists>j\<in>set (s_jobs sample_running). jb_machine j = 1 \<and>
    jb_request j = RqStartExecution 1 1 1 [''run'']
      \<lparr>ll_cpu_count = 1, ll_memory_bytes = 0, ll_placement = \<lparr>cp_cpus = [], cp_mems = []\<rparr>\<rparr> [] [] [] 0 []"
  by code_simp

theorem start_after_activation_witness:
  "runs_program sample_running 1 \<and> (\<exists>current. session_of sample_running 1 = Some current \<and> 1 \<le> current)"
proof -
  obtain j where j: "j \<in> set (s_jobs sample_running)" "jb_machine j = 1" "jb_request j = RqStartExecution 1 1 1 [''run'']
      \<lparr>ll_cpu_count = 1, ll_memory_bytes = 0, ll_placement = \<lparr>cp_cpus = [], cp_mems = []\<rparr>\<rparr> [] [] [] 0 []"
    using sample_start by blast
  from start_after_activation [OF reaches_running j(1,3)] j(2) show ?thesis by simp
qed

text \<open>
  C7. At most one start: in every reachable state no two start requests that a controller has sent name the same lease, machine and
  session, whatever answers came back.
\<close>

theorem members_start_once:
  assumes "service_reaches s"
  shows "distinct (List.map_filter start_key (s_jobs s))"
  using reaches_inv [OF assms] by (simp add: service_inv_def jobs_ok_def)

theorem members_start_once_witness:
  "distinct (List.map_filter start_key (s_jobs sample_stopped)) \<and> List.map_filter start_key (s_jobs sample_stopped) = [(1, 1, 1)]"
proof -
  have "List.map_filter start_key (s_jobs sample_stopped) = [(1, 1, 1)]" by code_simp
  with members_start_once [OF reaches_stopped] show ?thesis by blast
qed

end
