(* ===== verification/Service_Progress.thy ===== *)
theory Service_Progress
  imports Service_Safety
begin

text \<open>What the controller gets done: the pump drains what is pending, and the proof of a stop sets held teardown free.\<close>

section \<open>The pump\<close>

definition returns :: "'a in_service \<Rightarrow> bool" where
  "returns out \<longleftrightarrow> snd out \<noteq> Panic"

lemma returns_pair [simp]: "returns (s, r) \<longleftrightarrow> r \<noteq> Panic"
  by (simp add: returns_def)

lemma commit_returns: "returns (service_commit cmd s)"
  by (simp add: commit_shape Let_def returns_def split: prod.split result.split)

lemma and_returns: "returns out \<Longrightarrow> (\<And>s x. returns (k s x)) \<Longrightarrow> returns (and_svc out k)"
  by (cases "(out, k)" rule: and_svc.cases) auto

lemma each_returns: "(\<And>x s. returns (f x s)) \<Longrightarrow> returns (each_svc f xs s)"
  by (induction xs arbitrary: s) (auto intro!: and_returns)

lemma refresh_returns: "returns (refresh_session i b s)"
  by (auto simp: refresh_session_def intro!: and_returns commit_returns split: option.split)

lemma route_returns: "returns (route eff s)"
proof -
  have "returns (route_recovery machine is s)" for machine "is"
    by (simp add: route_recovery_def Let_def case_prod_beta)
  moreover have "returns (route_binding phase i epoch s)" for phase i epoch
    by (auto simp: route_binding_def Let_def intro!: and_returns refresh_returns split: option.split)
  ultimately show ?thesis by (cases eff) (simp_all add: route_def)
qed

lemma deliver_returns: "returns (deliver eff s)"
  unfolding deliver_def by (intro and_returns route_returns each_returns commit_returns)

text \<open>
  C35. The pump ends in every state, although the effects it routes commit commands that make new ones: it returns with nothing
  pending or with the error of an effect it could not route, and never panics.
\<close>

theorem pump_drains: "(\<exists>s'. pump s = (s', Done ()) \<and> s_pending s' = []) \<or> (\<exists>s' e. pump s = (s', Raise e))"
proof (induction s rule: pump.induct)
  case (1 s)
  show ?case
  proof (cases "s_pending s")
    case Nil
    then show ?thesis by (simp add: pump.simps [of s])
  next
    case (Cons eff rest)
    obtain s1 r where out: "deliver eff (s\<lparr>s_pending := rest\<rparr>) = (s1, r)" by (cases "deliver eff (s\<lparr>s_pending := rest\<rparr>)")
    with deliver_returns [of eff "s\<lparr>s_pending := rest\<rparr>"] have "r \<noteq> Panic" by simp
    with 1 [OF Cons out [symmetric]] Cons out show ?thesis by (cases r) (simp_all add: pump.simps [of s])
  qed
qed

section \<open>Held teardown\<close>

text \<open>What routing one binding leaves as it was.\<close>

definition same_desk :: "node_service \<Rightarrow> node_service \<Rightarrow> bool" where
  "same_desk s t \<longleftrightarrow> s_agents t = s_agents s \<and> session_of t = session_of s \<and> machine_at t = machine_at s \<and>
     s_execution_stopped t = s_execution_stopped s \<and> (\<exists>new. s_jobs t = s_jobs s @ new) \<and>
     (\<forall>i b. binding_at s i = Some b \<longrightarrow> (\<exists>b'. binding_at t i = Some b' \<and> b_lease b' = b_lease b \<and> b_node b' = b_node b))"

lemma desk_refl [simp]: "same_desk s s"
  by (simp add: same_desk_def)

lemma desk_trans: "same_desk s t \<Longrightarrow> same_desk t u \<Longrightarrow> same_desk s u"
  unfolding same_desk_def by (clarsimp, fastforce)

lemma desk_dispatch: "same_desk s (svc_dispatch machine tag request s)"
  by (simp add: same_desk_def svc_dispatch_def Let_def session_of_def machine_at_def binding_at_def fun_eq_iff)

lemma desk_fold: "(\<And>x s. same_desk s (f x s)) \<Longrightarrow> same_desk s (fold f xs s)"
  by (induction xs arbitrary: s) (auto intro: desk_trans)

lemma desk_stops: "same_desk s (maybe_stop_executions lease s)"
  unfolding maybe_stop_executions_def
  by (auto intro!: desk_fold simp: stop_member_def desk_dispatch split: option.split)

lemma desk_held: "same_desk s (t\<lparr>s_held_effects := E\<rparr>) = same_desk s t"
  by (simp add: same_desk_def session_of_def machine_at_def binding_at_def fun_eq_iff)

lemma desk_rebind:
  assumes "service_commit (RebindSession i session) s = (t, r)"
  shows "same_desk s t"
proof (cases r)
  case (Done u)
  then obtain lg where c: "s_cluster t = (s_cluster s)\<lparr>k_bindings := btree_modify i (\<lambda>b. b\<lparr>b_agent_session := session\<rparr>) (k_bindings (s_cluster s)), k_log := lg\<rparr>"
    using rebind_cluster(1) [of i session s t] assms by auto
  note f = commit_fields [of "RebindSession i session" s, unfolded assms fst_conv]
  from c f show ?thesis by (auto simp: same_desk_def session_of_def machine_at_def binding_at_def fun_eq_iff)
next
  case (Raise e)
  have "fst (rebind_session (s_cluster s) i session) = s_cluster s" if "snd (rebind_session (s_cluster s) i session) = Err e"
    using that unfolding rebind_session_def
    by (cases "btree_get (k_bindings (s_cluster s)) i";
        cases "require_session (s_cluster s) (b_node (the (btree_get (k_bindings (s_cluster s)) i))) session") simp_all
  then have "s_cluster t = s_cluster s"
    using assms Raise by (auto simp: commit_shape Let_def split: prod.splits result.splits)
  with commit_fields [of "RebindSession i session" s, unfolded assms fst_conv] show ?thesis
    by (simp add: same_desk_def session_of_def machine_at_def binding_at_def fun_eq_iff)
qed (use assms commit_returns [of "RebindSession i session" s] in simp)

lemma desk_refresh: "refresh_session i b s = (t, r) \<Longrightarrow> same_desk s t"
  using desk_rebind
  by (fastforce simp: refresh_session_def split: option.splits if_splits elim!: and_svc.elims)

lemma desk_route_binding: "route_binding phase i epoch s = (t, r) \<Longrightarrow> same_desk s t"
proof (cases "binding_at s i")
  case (Some b)
  assume out: "route_binding phase i epoch s = (t, r)"
  obtain s1 q where ref: "refresh_session i b s = (s1, q)" by (cases "refresh_session i b s")
  note fresh = desk_refresh [OF ref]
  have "same_desk s1 t"
    if "(case machine_at s1 (b_node b) of
          None \<Rightarrow> (s1, Raise e)
        | Some machine \<Rightarrow>
            if must_hold s1 (b_lease b) machine then
              let s2 = maybe_stop_executions (b_lease b) s1
              in (s2\<lparr>s_held_effects := insert (i, phase) (s_held_effects s2)\<rparr>, Done [])
            else (svc_dispatch machine tag request s1, Done [])) = (t, r)" for e tag request
    using that desk_stops desk_dispatch
    by (auto simp: Let_def desk_held split: option.splits if_splits)
  with fresh out ref Some show ?thesis
    by (cases q) (auto simp: route_binding_def split: prod.splits intro: desk_trans)
qed (auto simp: route_binding_def)

lemma held_delivery:
  assumes "held_effect phase i b epoch = Some eff"
  shows "deliver eff s = (case route_binding phase i epoch s of (t, Done _) \<Rightarrow> (t, Done ()) | (t, Raise e) \<Rightarrow> (t, Raise e) | (t, Panic) \<Rightarrow> (t, Panic))"
proof -
  obtain t q where out: "route_binding phase i epoch s = (t, q)" by (cases "route_binding phase i epoch s")
  have "route eff s = (t, q)" using assms out by (cases phase) (auto simp: route_def)
  then show ?thesis using out route_binding_pending(2) [OF out] by (cases q) (simp_all add: deliver_def)
qed

lemma desk_drive_held: "drive_held x s = (t, r) \<Longrightarrow> same_desk s t"
proof -
  assume out: "drive_held x s = (t, r)"
  obtain i phase where x: "x = (i, phase)" by (cases x)
  show ?thesis
  proof (cases "held_effect phase i (the (binding_at s i)) (k_epoch (s_cluster s))")
    case None
    with out x show ?thesis by (auto simp: drive_held_def desk_held split: option.splits if_splits)
  next
    case (Some eff)
    obtain u q where route: "route_binding phase i (k_epoch (s_cluster s)) s = (u, q)" by (cases "route_binding phase i (k_epoch (s_cluster s)) s")
    have "deliver eff s = (t, r) \<Longrightarrow> same_desk s t"
      using held_delivery [OF Some, of s] desk_route_binding [OF route] route by (cases q) auto
    with out x Some show ?thesis by (auto simp: drive_held_def desk_held split: option.splits if_splits)
  qed
qed

lemma each_split:
  assumes "each_svc f (us @ x # vs) s = (t, Done ())"
  obtains s1 s2 where "each_svc f us s = (s1, Done ())" and "f x s1 = (s2, Done ())" and "each_svc f vs s2 = (t, Done ())"
  using assms
proof (induction us arbitrary: s)
  case Nil
  then show ?case by (auto elim: and_svc.elims)
next
  case (Cons u us)
  obtain s1 r where one: "f u s = (s1, r)" by (cases "f u s")
  with Cons.prems(2) have "r = Done ()" by (cases r) auto
  with Cons.prems one have "each_svc f (us @ x # vs) s1 = (t, Done ())" by simp
  from Cons.IH [OF _ this] Cons.prems(1) one \<open>r = Done ()\<close> show ?case by auto
qed

lemma desk_each: "(\<And>x s t r. f x s = (t, r) \<Longrightarrow> same_desk s t) \<Longrightarrow> each_svc f xs s = (t, r) \<Longrightarrow> same_desk s t"
proof (induction xs arbitrary: s)
  case (Cons x xs)
  obtain s1 q where one: "f x s = (s1, q)" by (cases "f x s")
  have "same_desk s s1" using Cons.prems(1) one by blast
  moreover have "same_desk s1 t" if "each_svc f xs s1 = (t, r)" using Cons.IH [OF Cons.prems(1) that] .
  ultimately show ?case using one Cons.prems(2) by (cases q) (auto intro: desk_trans)
qed simp

text \<open>A request that closes the binding has gone to the machine since.\<close>

definition close_sent :: "binding_id \<Rightarrow> lease_id \<Rightarrow> node_id \<Rightarrow> job list \<Rightarrow> bool" where
  "close_sent i lease machine jobs \<longleftrightarrow>
     (\<exists>j\<in>set jobs. jb_machine j = machine \<and> (\<exists>session. close_request (jb_request j) = Some (i, lease, session)))"

lemma held_is_sent:
  assumes b: "binding_at s i = Some b" and machine: "machine_at s (b_node b) = Some machine"
    and proven: "member_stop_proven s (b_lease b) machine" and agent: "btree_get (s_agents s) machine = Some True"
    and phase: "closing phase" and out: "drive_held (i, phase) s = (t, Done ())"
  shows "\<exists>new. s_jobs t = s_jobs s @ new \<and> close_sent i (b_lease b) machine new"
proof -
  let ?epoch = "k_epoch (s_cluster s)"
  obtain eff where eff: "held_effect phase i b ?epoch = Some eff" using phase by (cases phase) auto
  obtain u q where route: "route_binding phase i ?epoch s = (u, q)" by (cases "route_binding phase i ?epoch s")
  have "deliver eff s = (t, Done ())" using out b machine proven eff by (simp add: drive_held_def)
  then have u: "u = t" "\<exists>cmds. q = Done cmds" using held_delivery [OF eff, of s] route by (cases q; simp)+
  obtain s1 q1 where ref: "refresh_session i b s = (s1, q1)" by (cases "refresh_session i b s")
  then obtain session fence where q1: "q1 = Done (session, fence)"
    using route u b by (cases q1) (auto simp: route_binding_def)
  note fresh = desk_refresh [OF ref, unfolded same_desk_def]
  have "\<not> must_hold s1 (b_lease b) machine"
    using proven fresh by (auto simp: must_hold_def member_stop_proven_def split: option.splits)
  then have "t = svc_dispatch machine (TagBinding i session fence phase) (binding_request phase i b session fence ?epoch) s1"
    using route u b ref q1 machine fresh by (auto simp: route_binding_def)
  then have "s_jobs t = s_jobs s1 @ [\<lparr>jb_machine = machine, jb_request = binding_request phase i b session fence ?epoch,
      jb_delivery = Inbox (TagBinding i session fence phase)\<rparr>]"
    using agent fresh by (simp add: svc_dispatch_def Let_def)
  moreover have "close_request (binding_request phase i b session fence ?epoch) = Some (i, b_lease b, session)"
    using phase by (cases phase) simp_all
  ultimately show ?thesis using fresh by (auto simp: close_sent_def)
qed

text \<open>
  C17. The proof of a stop sets teardown free: when the agent of a machine acknowledges, in the current session, that the member of a
  lease has stopped, the worker of the machine still takes requests, and the answer is absorbed without an error, then a request that closes the binding goes
  to the machine for every binding of the lease there whose release or fence was held; finitely many effects are held at a time. Without its worker nothing can be sent to the machine.
\<close>

theorem stop_releases_teardown:
  assumes "(i, phase) \<in> s_held_effects s" and "phase = PhRelease \<or> phase = PhFence" and "finite (s_held_effects s)"
    and "binding_at s i = Some b" and "machine_at s (b_node b) = Some machine" and "session_of s machine = Some session"
    and "btree_get (s_agents s) machine = Some True"
    and "absorb_stop (b_lease b) machine session (Ok (RsExecutionStopped (b_lease b))) s = (t, Done ())"
  shows "\<exists>new. s_jobs t = s_jobs s @ new \<and> close_sent i (b_lease b) machine new"
proof -
  let ?stopped = "s\<lparr>s_execution_stopped := insert (b_lease b, machine, session) (s_execution_stopped s), s_held_effects := {}\<rparr>"
  have closing: "closing phase" using assms(2) by auto
  have views: "session_of ?stopped = session_of s" "machine_at ?stopped = machine_at s" "binding_at ?stopped = binding_at s"
    by (simp_all add: session_of_def machine_at_def binding_at_def fun_eq_iff)
  obtain us vs where "sorted_list_of_set (s_held_effects s) = us @ (i, phase) # vs"
    using assms(1,3) by (metis set_sorted_list_of_set split_list)
  then have run: "each_svc drive_held (us @ (i, phase) # vs) ?stopped = (t, Done ())"
    using assms(6,8) by (simp add: absorb_stop_def drive_held_effects_def)
  obtain s1 s2 where split: "each_svc drive_held us ?stopped = (s1, Done ())" "drive_held (i, phase) s1 = (s2, Done ())"
      "each_svc drive_held vs s2 = (t, Done ())"
    using each_split [OF run] .
  have "same_desk ?stopped s1" "same_desk s2 t" using desk_each desk_drive_held split(1,3) by blast+
  then obtain new1 b' new3 where before: "s_jobs s1 = s_jobs s @ new1" "binding_at s1 i = Some b'" "b_lease b' = b_lease b"
      "b_node b' = b_node b" "session_of s1 = session_of s" "machine_at s1 = machine_at s" "s_agents s1 = s_agents s"
      "s_execution_stopped s1 = s_execution_stopped ?stopped" and after: "s_jobs t = s_jobs s2 @ new3"
    using assms(4) views unfolding same_desk_def by fastforce
  have "member_stop_proven s1 (b_lease b') machine"
    using before assms(6) by (simp add: member_stop_proven_def)
  from held_is_sent [OF before(2) _ this _ closing split(2)] before assms(5,7)
  obtain new2 where "s_jobs s2 = s_jobs s1 @ new2" "close_sent i (b_lease b) machine new2" by auto
  with before(1) after show ?thesis by (auto simp: close_sent_def)
qed

definition waits_for_stop :: "node_service \<Rightarrow> bool" where
  "waits_for_stop s \<longleftrightarrow> s_held_effects s = {(1, PhFence)} \<and>
     map_option (\<lambda>b. (b_lease b, machine_at s (b_node b))) (binding_at s 1) = Some (1, Some 1) \<and>
     session_of s 1 = Some 1 \<and> btree_get (s_agents s) 1 = Some True \<and>
     snd (absorb_stop 1 1 1 (Ok (RsExecutionStopped 1)) s) = Done ()"

lemma sample_held: "waits_for_stop sample_revoked"
  by code_simp

theorem stop_releases_teardown_witness:
  "\<exists>t new. absorb_stop 1 1 1 (Ok (RsExecutionStopped 1)) sample_revoked = (t, Done ()) \<and>
     s_jobs t = s_jobs sample_revoked @ new \<and> close_sent 1 1 1 new"
proof -
  obtain t where t: "absorb_stop 1 1 1 (Ok (RsExecutionStopped 1)) sample_revoked = (t, Done ())"
    using sample_held unfolding waits_for_stop_def by (cases "absorb_stop 1 1 1 (Ok (RsExecutionStopped 1)) sample_revoked") auto
  obtain b where b: "binding_at sample_revoked 1 = Some b" "b_lease b = 1" "machine_at sample_revoked (b_node b) = Some 1"
    using sample_held unfolding waits_for_stop_def by auto
  show ?thesis
    using stop_releases_teardown [of 1 PhFence sample_revoked b 1 1 t] sample_held t b unfolding waits_for_stop_def by auto
qed

section \<open>Held activations\<close>

text \<open>
  The hold does not look at the phase of the effect. An activation that is still pending when its lease ends is held like a release
  or a fence, and the answer that proves the stop runs into the branch for effects that are never held.
\<close>

definition sample_pending :: node_service where
  "sample_pending = fst (revoke 1 (fst (absorb sample_rendering (inbox_post (TagBinding 1 1 1 PhPrepare) (Ok (RsPrepared 1 5)) sample_admitted))))"

definition panics_on_stop :: "node_service \<Rightarrow> bool" where
  "panics_on_stop s \<longleftrightarrow> (1, PhActivate) \<in> s_held_effects s \<and>
     snd (absorb sample_rendering (inbox_post (TagExecutionStop 1 1 1) (Ok (RsExecutionStopped 1)) s)) = Panic"

lemma held_activation_panics: "panics_on_stop sample_pending"
  by code_simp

end
