(* ===== verification/Service_Groups.thy ===== *)
theory Service_Groups
  imports Service_Safety
begin

text \<open>Desired state: the reconciliation of service groups and the restarts of workloads that are to be kept alive.\<close>

section \<open>Restarts\<close>

definition restart_count :: "node_service \<Rightarrow> request_id \<Rightarrow> u32" where
  "restart_count s root = btree_get_or 0 (s_restart_counts s) root"

text \<open>The restarts of a list that belong to the lineage of a request.\<close>

definition restarts_of :: "node_service \<Rightarrow> request_id \<Rightarrow> (workload_spec \<times> owner_id) list \<Rightarrow> nat" where
  "restarts_of s root out = length (filter (\<lambda>x. btree_get (s_restart_root s) (r_id (ws_resources (fst x))) = Some root) out)"

definition restart_inv :: "node_service \<Rightarrow> (workload_spec \<times> owner_id) list \<times> node_service \<Rightarrow> bool" where
  "restart_inv s0 = (\<lambda>(out, s).
     unat (s_next_request_id s) = unat (s_next_request_id s0) + length out \<and>
     (\<forall>x\<in>set out. unat (r_id (ws_resources (fst x))) < unat (s_next_request_id s)) \<and>
     (\<forall>root. restart_count s root \<le> MAX_RESTARTS \<and>
        unat (restart_count s root) = unat (restart_count s0 root) + restarts_of s root out))"

lemma count_entry_id: "btree_get_or 0 (btree_entry 0 id root m) r = btree_get_or 0 m r"
  by (simp add: btree_get_or_def)

lemma restarts_of_append: "restarts_of s root (out @ more_out) = restarts_of s root out + restarts_of s root more_out"
  by (simp add: restarts_of_def)

lemma unat_word_inc: "unat n + 1 < 2 ^ LENGTH('a) \<Longrightarrow> unat (n + 1) = unat n + 1" for n :: "'a::len word"
  by (simp add: unat_word_ariths)

lemma restart_step_inv:
  assumes inv: "restart_inv s0 (out, s)" and room: "unat (s_next_request_id s0) + length out + 1 < 2 ^ 64"
  shows "restart_inv s0 (restart_lease il (out, s))"
    and "length (fst (restart_lease il (out, s))) \<le> Suc (length out)"
proof -
  obtain i l where il: "il = (i, l)" by (cases il)
  have same: "restart_inv s0 (out, t)" if "s_next_request_id t = s_next_request_id s" "s_restart_root t = s_restart_root s"
      "\<forall>r. restart_count t r = restart_count s r" for t
    using inv that by (auto simp: restart_inv_def restarts_of_def)
  have "restart_inv s0 (restart_lease il (out, s)) \<and> length (fst (restart_lease il (out, s))) \<le> Suc (length out)"
  proof (cases "(l_state l = LFailed \<or> l_state l = LExpired) \<and> i \<notin> s_restart_handled s \<and>
      (\<exists>w owner. btree_get (s_requests s) i = Some (w, owner) \<and> ws_keep_alive w)")
    case False
    with inv show ?thesis by (auto simp: restart_lease_def il split: option.split)
  next
    case True
    then obtain w owner where w: "btree_get (s_requests s) i = Some (w, owner)" "ws_keep_alive w" by blast
    define root where "root = btree_get_or (r_id (ws_resources w)) (s_restart_root s) (r_id (ws_resources w))"
    define s1 where "s1 = s\<lparr>s_restart_counts := btree_entry 0 id root (s_restart_counts s)\<rparr>"
    define n where "n = restart_count s root"
    let ?id = "s_next_request_id s"
    let ?w = "w\<lparr>ws_resources := (ws_resources w)\<lparr>r_id := ?id\<rparr>\<rparr>"
    define t where "t = s1\<lparr>s_restart_counts := btree_insert root (n + 1) (s_restart_counts s1),
        s_restart_last_at := btree_insert root (k_now (s_cluster s)) (s_restart_last_at s1),
        s_restart_handled := insert i (s_restart_handled s1), s_next_request_id := ?id + 1,
        s_restart_root := btree_insert ?id root (s_restart_root s1)\<rparr>"
    have cond: "(\<not> (l_state l = LFailed \<or> l_state l = LExpired) \<or> i \<in> s_restart_handled s) = False" using True by blast
    have eq: "restart_lease il (out, s) =
        (if n \<ge> MAX_RESTARTS then (out, s1\<lparr>s_restart_handled := insert i (s_restart_handled s1)\<rparr>)
         else if k_now (s_cluster s) < saturating_add (btree_get_or 0 (s_restart_last_at s1) root) (restart_delay n) then (out, s1)
         else (out @ [(?w, owner)], t))"
      using w(2) unfolding restart_lease_def il prod.case cond w(1) if_False option.case
      by (simp add: Let_def root_def s1_def n_def t_def restart_count_def count_entry_id)
    show ?thesis
    proof (cases "n \<ge> MAX_RESTARTS \<or> k_now (s_cluster s) < saturating_add (btree_get_or 0 (s_restart_last_at s1) root) (restart_delay n)")
      case True
      have "restart_inv s0 (out, s1)" "restart_inv s0 (out, s1\<lparr>s_restart_handled := insert i (s_restart_handled s1)\<rparr>)"
        by (rule same; simp add: s1_def restart_count_def count_entry_id)+
      with True show ?thesis unfolding eq by auto
    next
      case fresh: False
      then have step: "restart_lease il (out, s) = (out @ [(?w, owner)], t)" unfolding eq by simp
      have next_id: "unat ?id = unat (s_next_request_id s0) + length out" using inv by (simp add: restart_inv_def)
      then have "unat (?id + 1) = unat ?id + 1" using room by (intro unat_word_inc) simp
      moreover have "unat (n + 1) = unat n + 1"
        using fresh by (intro unat_word_inc) (simp add: MAX_RESTARTS_def word_le_nat_alt not_le)
      moreover have "restarts_of t r out = restarts_of s r out" for r
      proof -
        have "btree_get (s_restart_root t) (r_id (ws_resources (fst x))) = btree_get (s_restart_root s) (r_id (ws_resources (fst x)))"
          if "x \<in> set out" for x
          using that inv by (auto simp: restart_inv_def t_def s1_def)
        then have "filter (\<lambda>x. btree_get (s_restart_root t) (r_id (ws_resources (fst x))) = Some r) out =
            filter (\<lambda>x. btree_get (s_restart_root s) (r_id (ws_resources (fst x))) = Some r) out"
          by (intro filter_cong) auto
        then show ?thesis by (simp add: restarts_of_def)
      qed
      moreover have "restarts_of t r [(?w, owner)] = (if r = root then 1 else 0)" for r
        by (simp add: restarts_of_def t_def)
      moreover have "restart_count t r = (if r = root then n + 1 else restart_count s r)" for r
        by (simp add: restart_count_def t_def s1_def count_entry_id)
      moreover have "n + 1 \<le> MAX_RESTARTS"
        using fresh \<open>unat (n + 1) = unat n + 1\<close> by (simp add: MAX_RESTARTS_def word_le_nat_alt not_le)
      moreover have t_next: "s_next_request_id t = ?id + 1" by (simp add: t_def)
      ultimately have "restart_inv s0 (out @ [(?w, owner)], t)"
        using inv next_id
        by (auto simp: restart_inv_def restarts_of_append n_def t_next)
      with step show ?thesis by simp
    qed
  qed
  then show "restart_inv s0 (restart_lease il (out, s))" "length (fst (restart_lease il (out, s))) \<le> Suc (length out)" by blast+
qed

lemma restart_fold_inv:
  assumes "restart_inv s0 p" and "unat (s_next_request_id s0) + length (fst p) + length ils < 2 ^ 64"
  shows "restart_inv s0 (fold restart_lease ils p)"
  using assms
proof (induction ils arbitrary: p)
  case (Cons il ils)
  obtain out s where p: "p = (out, s)" by (cases p)
  have room: "unat (s_next_request_id s0) + length out + 1 < 2 ^ 64" using Cons.prems(2) p by simp
  note step = restart_step_inv [OF Cons.prems(1) [unfolded p] room, of il]
  have "restart_inv s0 (fold restart_lease ils (restart_lease il p))"
    using step Cons.prems(2) unfolding p by (intro Cons.IH) auto
  then show ?case by simp
qed simp

text \<open>
  C19. Restarts are counted and bounded: however many leases of one lineage have failed or expired, a round of restarts brings
  back exactly as many workloads of the lineage as its counter grows by, and the counter never passes five.
\<close>

theorem restarts_bounded:
  assumes "\<forall>root. restart_count s root \<le> MAX_RESTARTS"
    and "unat (s_next_request_id s) + length (btree_entries (k_leases (s_cluster s))) < 2 ^ 64"
    and "take_restarts s = (out, t)"
  shows "restart_count t root \<le> MAX_RESTARTS \<and>
    unat (restart_count t root) = unat (restart_count s root) + restarts_of t root out"
proof -
  have "restart_inv s ([], s)" using assms(1) by (simp add: restart_inv_def restarts_of_def)
  from restart_fold_inv [OF this, of "btree_entries (k_leases (s_cluster s))"] assms(2,3)
  show ?thesis by (simp add: take_restarts_def restart_inv_def)
qed

definition sample_failed :: node_service where
  "sample_failed = service_new\<lparr>s_cluster := cluster_new\<lparr>k_now := 10, k_leases := btree_insert 1
       \<lparr>l_id = 1, l_owner = 9, l_allocation = sample_alloc, l_parent = None, l_expires_at = 60,
        l_prepare_deadline = 20, l_priority = 0, l_state = LFailed, l_exit_code = None\<rparr> btree_empty\<rparr>,
     s_requests := btree_insert 1 (sample_workload\<lparr>ws_keep_alive := True\<rparr>, 9) btree_empty, s_next_request_id := 8\<rparr>"

lemma sample_restart:
  "map (\<lambda>(w, _). r_id (ws_resources w)) (fst (take_restarts sample_failed)) = [8] \<and>
   length (btree_entries (k_leases (s_cluster sample_failed))) = 1 \<and> s_next_request_id sample_failed = 8"
  by code_simp

theorem restarts_bounded_witness:
  "\<exists>out t. take_restarts sample_failed = (out, t) \<and> restart_count t 7 \<le> MAX_RESTARTS \<and>
     unat (restart_count t 7) = unat (restart_count sample_failed 7) + restarts_of t 7 out"
proof -
  obtain out t where out: "take_restarts sample_failed = (out, t)" by (cases "take_restarts sample_failed")
  have "\<forall>root. restart_count sample_failed root \<le> MAX_RESTARTS"
    by (simp add: restart_count_def sample_failed_def service_new_def)
  moreover have "unat (s_next_request_id sample_failed) + length (btree_entries (k_leases (s_cluster sample_failed))) < 2 ^ 64"
    using sample_restart by simp
  ultimately show ?thesis using restarts_bounded [OF _ _ out, of 7] out by blast
qed

section \<open>Groups\<close>












definition sample_group :: service_group where
  "sample_group = \<lparr>sg_id = ''web'', sg_owner = 9, sg_cardinality = Fixed 2, sg_template = sample_workload\<rparr>"


definition sample_capped :: node_service where
  "sample_capped = service_new\<lparr>s_service_groups := btree_insert ''web'' (sample_group\<lparr>sg_cardinality := Fixed 1\<rparr>) btree_empty,
     s_group_members := btree_insert ''web'' {3} btree_empty, s_member_groups := btree_insert 3 ''web'' btree_empty,
     s_group_restarts := btree_insert ''web'' 5 btree_empty, s_next_request_id := 4\<rparr>"


section \<open>The cap on replacements\<close>

text \<open>
  A round that may not replace a dead member still forgets it: the dead member leaves the index, so the next round takes
  the gap for growth and submits a member without counting it against the cap.
\<close>

lemma group_cap_lapses:
  "snd (reconcile_service_groups sample_capped) = Done []"
  "snd (reconcile_service_groups (fst (reconcile_service_groups sample_capped))) = Done [4]"
  "btree_get (s_group_restarts (fst (reconcile_service_groups (fst (reconcile_service_groups sample_capped))))) ''web'' = Some 5"
  by code_simp+

end
