(* ===== verification/Service_Placement.thy ===== *)
theory Service_Placement
  imports Service_Groups
begin

text \<open>Where the controller lets programs run: the exclusions it hands to the scheduler, and what they mean for admitted work.\<close>

lemma exclude_grows: "btree_get_or {} m r \<subseteq> btree_get_or {} (exclude request machine m) r"
  by (auto simp: exclude_def btree_get_or_def split: option.split)

lemma exclude_member: "machine \<in> btree_get_or {} (exclude request machine m) request"
  by (simp add: exclude_def btree_get_or_def)

lemma exclusions_grow:
  assumes "\<And>x m. btree_get_or {} m r \<subseteq> btree_get_or {} (f x m) r"
  shows "btree_get_or {} m r \<subseteq> btree_get_or {} (fold f xs m) r"
proof (induction xs arbitrary: m)
  case (Cons x xs)
  have "btree_get_or {} m r \<subseteq> btree_get_or {} (f x m) r" by (rule assms)
  also have "\<dots> \<subseteq> btree_get_or {} (fold f xs (f x m)) r" by (rule Cons.IH)
  finally show ?case by simp
qed simp

lemma excluded_by_fold:
  assumes "x \<in> set xs" and "\<And>m. machine \<in> btree_get_or {} (f x m) r" and "\<And>x m. btree_get_or {} m r \<subseteq> btree_get_or {} (f x m) r"
  shows "machine \<in> btree_get_or {} (fold f xs m) r"
proof -
  obtain us vs where xs: "xs = us @ x # vs" using split_list [OF assms(1)] by blast
  have "machine \<in> btree_get_or {} (f x (fold f us m)) r" by (rule assms(2))
  moreover have "btree_get_or {} (f x (fold f us m)) r \<subseteq> btree_get_or {} (fold f vs (f x (fold f us m))) r"
    by (rule exclusions_grow [OF assms(3)])
  ultimately show ?thesis unfolding xs by auto
qed

lemma exclude_if_grows: "btree_get_or {} m r \<subseteq> btree_get_or {} ((if b then exclude request machine else id) m) r"
  using exclude_grows by simp

lemma request_excluded_grows: "btree_get_or {} m r \<subseteq> btree_get_or {} (request_excluded s machines q m) r"
proof -
  have folds: "btree_get_or {} m r \<subseteq> btree_get_or {} (fold (\<lambda>machine. if P machine then exclude request machine else id) machines m) r"
    for P request m by (rule exclusions_grow) (rule exclude_if_grows)
  show ?thesis
    unfolding request_excluded_def Let_def
    using folds subset_trans [OF folds folds] by (simp split: option.split)
qed

text \<open>The machines that cannot run a queued program, or are not the one it is pinned to.\<close>

definition unfit :: "node_service \<Rightarrow> request \<Rightarrow> workload_spec \<Rightarrow> node_id \<Rightarrow> bool" where
  "unfit s request workload machine \<longleftrightarrow>
     incompatible s request workload machine \<or> (\<exists>pin. btree_get (s_member_pins s) (r_id request) = Some pin \<and> machine \<noteq> pin)"

lemma unfit_excluded:
  assumes "q \<in> set (s_queue s)" and "btree_get (s_queued_workloads s) (r_id (q_request q)) = Some workload"
    and "has_program (ws_execution workload)" and "machine \<in> set (nodes_of_class (k_graph (s_cluster s)) Machine)"
    and "unfit s (q_request q) workload machine"
  shows "machine \<in> btree_get_or {} (execution_exclusions s) (r_id (q_request q))"
  unfolding execution_exclusions_def
proof (rule excluded_by_fold [OF assms(1) _ request_excluded_grows])
  fix m
  let ?machines = "nodes_of_class (k_graph (s_cluster s)) Machine" and ?r = "r_id (q_request q)"
  have hit: "machine \<in> btree_get_or {} (fold (\<lambda>machine. if P machine then exclude ?r machine else id) ?machines m) ?r" if "P machine" for P m
    by (rule excluded_by_fold [OF assms(4)]) (use that exclude_member exclude_if_grows in auto)
  have keep: "btree_get_or {} m ?r \<subseteq> btree_get_or {} (fold (\<lambda>machine. if P machine then exclude ?r machine else id) ?machines m) ?r" for P m
    by (rule exclusions_grow) (rule exclude_if_grows)
  show "machine \<in> btree_get_or {} (request_excluded s ?machines q m) ?r"
    using assms(2,3,5) hit subsetD [OF keep hit]
    by (auto simp: request_excluded_def Let_def unfit_def split: option.split)
qed

text \<open>
  C20. Programs are only placed where they can be enforced: in every reachable state, when the scheduler admits a queued request
  that runs a program, no claim of the allocation lies on a machine whose reported runtime cannot enforce what the
  request needs, or on a machine other than the one a group member is pinned to.
\<close>

theorem placed_where_enforceable:
  assumes "service_reaches s"
    and "cluster_admit_backfill_with_policy (s_cluster s) (s_queue s) policy (execution_exclusions s) = Some adm"
    and "btree_get (s_queued_workloads s) (r_id (ad_request adm)) = Some workload" and "has_program (ws_execution workload)"
    and "cl \<in> set (a_claims (ad_allocation adm))" and "machine_at s (c_node cl) = Some machine"
  shows "\<not> unfit s (ad_request adm) workload machine"
proof
  assume unfit: "unfit s (ad_request adm) workload machine"
  let ?g = "k_graph (s_cluster s)"
  have wf: "graph_wf ?g" using reaches_inv [OF assms(1)] by (simp add: service_inv_def cluster_inv_def)
  obtain q where q: "q \<in> set (s_queue s)" "ad_request adm = q_request q"
    using admitted_is_queued assms(2) unfolding cluster_admit_backfill_with_policy_def by blast
  have "node_has_kind ?g Machine machine"
    using assms(6) by (auto simp: machine_at_def machine_of_def ancestor_of_class_def find_Some_iff split: if_splits)
  then have "machine \<in> set (nodes_of_class ?g Machine)" using wf by (simp add: nodes_of_class_iff graph_wf_def)
  then have hit: "machine \<in> btree_get_or {} (execution_exclusions s) (r_id (ad_request adm))"
    using unfit_excluded [OF q(1)] assms(3,4) unfit q(2) by simp
  have "select ?g (cluster_occupancy (s_cluster s)) (ad_request adm)
      (placement_blocked (s_cluster s) \<union> btree_get_or {} (execution_exclusions s) (r_id (ad_request adm))) = Ok (ad_allocation adm)"
    using admit_backfill_Some assms(2) unfolding cluster_admit_backfill_with_policy_def by blast
  from selector.place_ok [OF wf this] assms(5)
  have "\<not> blocked_by ?g (placement_blocked (s_cluster s) \<union> btree_get_or {} (execution_exclusions s) (r_id (ad_request adm))) (c_node cl)"
    by (simp add: allocation_ok_def)
  moreover have "machine = c_node cl \<or> machine \<in> set (ancestors ?g (c_node cl))"
    using assms(6) by (auto simp: machine_at_def machine_of_def ancestor_of_class_def find_Some_iff split: if_splits)
  ultimately show False using hit by (auto simp: blocked_by_def list_ex_iff)
qed

definition sample_queued :: node_service where
  "sample_queued = submit sample_workload 9 sample_registered"

definition admits_sample :: "node_service \<Rightarrow> bool" where
  "admits_sample s = (case cluster_admit_backfill_with_policy (s_cluster s) (s_queue s) (ceiling_policy btree_empty) (execution_exclusions s) of
       None \<Rightarrow> False
     | Some adm \<Rightarrow> r_id (ad_request adm) = 7 \<and> map (\<lambda>cl. (c_node cl, machine_at s (c_node cl))) (a_claims (ad_allocation adm)) = [(2, Some 1)])"

theorem placed_where_enforceable_witness:
  "\<exists>adm. cluster_admit_backfill_with_policy (s_cluster sample_queued) (s_queue sample_queued) (ceiling_policy btree_empty)
       (execution_exclusions sample_queued) = Some adm \<and> \<not> unfit sample_queued (ad_request adm) sample_workload 1"
proof -
  have "admits_sample sample_queued" by code_simp
  then obtain adm where adm: "cluster_admit_backfill_with_policy (s_cluster sample_queued) (s_queue sample_queued) (ceiling_policy btree_empty)
        (execution_exclusions sample_queued) = Some adm" "r_id (ad_request adm) = 7"
      and claims: "map (\<lambda>cl. (c_node cl, machine_at sample_queued (c_node cl))) (a_claims (ad_allocation adm)) = [(2, Some 1)]"
    by (auto simp: admits_sample_def split: option.splits)
  obtain cl where "cl \<in> set (a_claims (ad_allocation adm))" "machine_at sample_queued (c_node cl) = Some 1"
    using claims by (cases "a_claims (ad_allocation adm)") auto
  moreover have "btree_get (s_queued_workloads sample_queued) 7 = Some sample_workload"
    by (simp add: sample_queued_def submit_def svc_enqueue_def persist_def Let_def sample_workload_def sample_request_def split: option.split)
  moreover have "has_program (ws_execution sample_workload)" by (simp add: has_program_def sample_workload_def)
  moreover have "service_reaches sample_queued"
    unfolding sample_queued_def by (rule next_service [OF reaches_registered submit_step])
  ultimately show ?thesis using placed_where_enforceable [OF _ adm(1)] adm by fastforce
qed

end
