(* ===== verification/Inventory_Facts.thy ===== *)
theory Inventory_Facts
  imports Node_Registration Protocol_Roundtrip
begin

text \<open>What the inventory of a machine guarantees: complete device lists, graphs that can be built, facts that are read back.\<close>

section \<open>Device inventories\<close>

lemma split_on_nonempty [simp]: "split_on c cs \<noteq> []"
  by (induction cs) (auto split: list.split)

lemma map_filter_length: "length (List.map_filter f xs) = length (filter (\<lambda>x. f x \<noteq> None) xs)"
  by (induction xs) (auto simp: map_filter_def)

lemma trim_spaces:
  assumes "trim cs = []"
  shows "\<forall>c\<in>set cs. is_space c"
proof -
  have "\<forall>c\<in>set (dropWhile is_space cs). is_space c" using assms by (simp add: trim_def dropWhile_eq_Nil_conv)
  then have "dropWhile is_space cs = []" using hd_dropWhile [of is_space cs] by (cases "dropWhile is_space cs") (auto simp: dropWhile_eq_Nil_conv)
  then show ?thesis by (simp add: dropWhile_eq_Nil_conv)
qed

lemma blank_row: "trim line = [] \<Longrightarrow> nvidia_row files line = None"
proof -
  assume "trim line = []"
  moreover have "\<not> is_space (CHR '','')" by (simp add: is_space_def)
  ultimately have "CHR '','' \<notin> set line" using trim_spaces by blast
  moreover have "split_on c cs = [cs]" if "c \<notin> set cs" for c cs
    using that by (induction cs) auto
  ultimately show ?thesis by (simp add: nvidia_row_def)
qed

text \<open>
  C37. A device inventory is complete or refused: when the answer of the vendor tool is accepted, every row of it that is not blank has
  become a device, in the order of the rows; a failed query is never an empty inventory.
\<close>

theorem inventory_complete:
  assumes "interpret_nvidia_query files success stdout stderr = Ok devices"
  shows "success \<and> map Some devices = map (nvidia_row files) (filter (\<lambda>line. trim line \<noteq> []) (text_lines stdout))"
proof -
  let ?rows = "filter (\<lambda>line. trim line \<noteq> []) (text_lines stdout)"
  have same: "List.map_filter (nvidia_row files) xs = List.map_filter (nvidia_row files) (filter (\<lambda>line. trim line \<noteq> []) xs)" for xs
    by (induction xs) (auto simp: map_filter_def blank_row)
  have all: "map Some (List.map_filter f xs) = map f xs" if "length (List.map_filter f xs) = length xs"
    for f :: "string \<Rightarrow> device_spec option" and xs
    using that
  proof (induction xs)
    case (Cons x xs)
    have "length (List.map_filter f xs) \<le> length xs" by (simp add: map_filter_length)
    with Cons show ?case by (cases "f x") (auto simp: map_filter_def)
  qed (simp add: map_filter_def)
  from assms have "success" and "devices = parse_nvidia_devices files stdout" and "length devices = length ?rows"
    by (auto simp: interpret_nvidia_query_def Let_def split: if_splits)
  with same [of "text_lines stdout"] all [of "nvidia_row files" ?rows] show ?thesis by (simp add: parse_nvidia_devices_def)
qed

definition sample_row :: string where
  "sample_row = ''0, GPU-1, A100, 00000000:01:00.0, 81920, 8.0, 550''"

definition sample_files :: device_files where
  "sample_files = \<lparr>df_exists = (\<lambda>path. path = ''/dev/nvidiactl''), df_pci_attrs = (\<lambda>_. btree_empty)\<rparr>"

theorem inventory_complete_witness:
  "\<exists>devices. interpret_nvidia_query sample_files True (sample_row @ [CHR 0x0A]) [] = Ok devices \<and> length devices = 1 \<and>
     map Some devices = map (nvidia_row sample_files) [sample_row]"
proof -
  have lines: "text_lines (sample_row @ [CHR 0x0A]) = [sample_row]" by (simp add: text_lines_def sample_row_def)
  have blank: "trim sample_row \<noteq> []" by (simp add: sample_row_def trim_def is_space_def)
  have row: "nvidia_row sample_files sample_row \<noteq> None"
    by (simp add: nvidia_row_def sample_row_def trim_def is_space_def parse_u32_def parse_u64_def is_digit_def digits_value_def
        normalize_pci_bus_id_def list_all_iff is_ascii_hexdigit_def Let_def)
  have "\<exists>devices. interpret_nvidia_query sample_files True (sample_row @ [CHR 0x0A]) [] = Ok devices \<and> length devices = 1"
    using lines blank row by (auto simp: interpret_nvidia_query_def parse_nvidia_devices_def Let_def map_filter_def)
  then show ?thesis
    using inventory_complete [of sample_files True "sample_row @ [CHR 0x0A]" "[]"] lines blank by fastforce
qed

text \<open>
  A declared device keeps the blanks around its path: validation trims the entry, the list of devices does not.
\<close>

lemma declared_path_keeps_blanks:
  "validate_declared_devices ''gpu:/dev/g0 ,nic:/dev/n0'' = Ok ()"
  "map ds_dev (declared_devices (Some ''gpu:/dev/g0 ,nic:/dev/n0'')) = [''/dev/g0 '', ''/dev/n0'']"
  by code_simp+

section \<open>Devices are read back\<close>

text \<open>
  What a device was registered with is what a lease on it may open: from the facts of a registered device the controller reads the
  stable id, the path and the further paths that were reported, for any JSON encoding that decodes these paths.
\<close>

theorem device_roundtrip:
  assumes "ds_dev spec \<noteq> []" and "rd_paths rd (json (ds_access spec)) = Some (ds_access spec)"
    and "ds_access spec = [] \<longrightarrow> btree_get (ds_attrs spec) ''access'' = None"
    and "device = \<lparr>da_id = ds_id spec, da_dev = ds_dev spec, da_paths = ds_access spec, da_cdi = btree_get (ds_attrs spec) ''cdi''\<rparr>"
  shows "device_from_attrs rd (device_attrs json spec) = Some device \<and> device_from_attrs rd (refreshed_attrs json spec) = Some device"
  using assms
  by (auto simp: device_from_attrs_def device_attrs_def refreshed_attrs_def Let_def DEVICE_HOST_PARENT_ATTR_def btree_get_or_def
      split: option.split)

definition sample_device :: device_spec where
  "sample_device = \<lparr>ds_kind = Gpu, ds_id = ''GPU-1'', ds_dev = ''/dev/nvidia0'', ds_host_parent = None, ds_access = [''/dev/nvidiactl''],
     ds_attrs = btree_empty\<rparr>"

theorem device_roundtrip_witness:
  "device_from_attrs \<lparr>rd_paths = (\<lambda>text. Some [text]), rd_debug = (\<lambda>_. [])\<rparr> (device_attrs hd sample_device) =
     Some \<lparr>da_id = ''GPU-1'', da_dev = ''/dev/nvidia0'', da_paths = [''/dev/nvidiactl''], da_cdi = None\<rparr>"
  using device_roundtrip [of sample_device "\<lparr>rd_paths = (\<lambda>text. Some [text]), rd_debug = (\<lambda>_. [])\<rparr>" hd, OF _ _ _ refl]
  by (simp add: sample_device_def)

section \<open>Validated descriptions\<close>

lemma validate_host_node_ok:
  assumes "validate_host_node spec t = Ok t'"
  shows "ht_by_id t' = btree_insert (hs_id spec) spec (ht_by_id t)" and "btree_get (ht_by_id t) (hs_id spec) = None"
  using assms
  by (auto simp: validate_host_node_def Let_def btree_contains_key_def split: if_splits)

lemma validated_hosts:
  assumes "try_fold validate_host_node specs t = Ok t'"
  shows "distinct (map hs_id specs) \<and> (\<forall>spec\<in>set specs. btree_get (ht_by_id t) (hs_id spec) = None) \<and>
    (\<forall>i. btree_get (ht_by_id t') i \<noteq> None \<longleftrightarrow> btree_get (ht_by_id t) i \<noteq> None \<or> i \<in> hs_id ` set specs)"
  using assms
proof (induction specs arbitrary: t)
  case (Cons spec specs)
  then obtain t1 where t1: "validate_host_node spec t = Ok t1" "try_fold validate_host_node specs t1 = Ok t'"
    by (auto split: result.splits)
  note one = validate_host_node_ok [OF t1(1)]
  from Cons.IH [OF t1(2)] one show ?case by (auto simp: one split: if_splits)
qed simp

lemma validated_all: "try_fold (\<lambda>x (u::unit). f x u) xs () = Ok () \<Longrightarrow> x \<in> set xs \<Longrightarrow> f x () = Ok ()"
  by (induction xs) (auto split: result.splits)

lemma validated_devices:
  "try_fold (validate_device by_id) ds ids = Ok ids' \<Longrightarrow> spec \<in> set ds \<Longrightarrow> ds_host_parent spec = Some p \<Longrightarrow> btree_get by_id p \<noteq> None"
  by (induction ds arbitrary: ids) (auto simp: validate_device_def split: result.splits if_splits option.splits)

lemma validated_description:
  assumes "validate_machine_description d = Ok ()"
  shows "distinct (map hs_id (md_host_nodes d))"
    and "spec \<in> set (md_host_nodes d) \<Longrightarrow> hs_parent spec = Some p \<Longrightarrow> p \<in> hs_id ` set (md_host_nodes d)"
    and "dspec \<in> set (md_devices d) \<Longrightarrow> ds_host_parent dspec = Some p \<Longrightarrow> p \<in> hs_id ` set (md_host_nodes d)"
proof -
  obtain t ids where t: "try_fold validate_host_node (md_host_nodes d) \<lparr>ht_by_id = btree_empty, ht_cpus = 0, ht_memory = 0, ht_memory_nodes = 0\<rparr> = Ok t"
      and c: "try_fold (validate_containment (ht_by_id t)) (md_host_nodes d) () = Ok ()"
      and ds: "try_fold (validate_device (ht_by_id t)) (md_devices d) {} = Ok ids"
    using assms by (auto simp: validate_machine_description_def and_then_eq_Ok)
  note hosts = validated_hosts [OF t]
  have known: "p \<in> hs_id ` set (md_host_nodes d)" if "btree_get (ht_by_id t) p \<noteq> None" for p using hosts that by simp
  show "distinct (map hs_id (md_host_nodes d))" using hosts by blast
  show "spec \<in> set (md_host_nodes d) \<Longrightarrow> hs_parent spec = Some p \<Longrightarrow> p \<in> hs_id ` set (md_host_nodes d)"
    using validated_all [OF c, of spec] known by (auto simp: validate_containment_def and_then_eq_Ok split: option.splits)
  show "dspec \<in> set (md_devices d) \<Longrightarrow> ds_host_parent dspec = Some p \<Longrightarrow> p \<in> hs_id ` set (md_host_nodes d)"
    using validated_devices [OF ds] known by blast
qed

lemma all_some_map: "(\<And>x. x \<in> set xs \<Longrightarrow> f x = Some (g x)) \<Longrightarrow> all_some (map f xs) = Some (map g xs)"
  by (induction xs) auto

lemma unnumbered:
  "k \<notin> (\<lambda>(i, spec). hs_id spec) ` set ps \<Longrightarrow> btree_get (fold (\<lambda>(i, spec). btree_insert (hs_id spec) i) ps m) k = btree_get m k"
  by (induction ps arbitrary: m) auto

lemma numbered_ids:
  "distinct (map (\<lambda>(i, spec). hs_id spec) ps) \<Longrightarrow> (i, spec) \<in> set ps \<Longrightarrow>
   btree_get (fold (\<lambda>(i, spec). btree_insert (hs_id spec) i) ps m) (hs_id spec) = Some i"
proof (induction ps arbitrary: m)
  case (Cons q ps)
  obtain j sp where q: "q = (j, sp)" by (cases q)
  from Cons.prems(1) have new: "hs_id sp \<notin> (\<lambda>(i, spec). hs_id spec) ` set ps" by (simp add: q)
  show ?case
  proof (cases "(i, spec) = q")
    case True
    then have "btree_get (fold (\<lambda>(i, spec). btree_insert (hs_id spec) i) ps (btree_insert (hs_id sp) j m)) (hs_id sp) = Some j"
      using unnumbered [OF new] by simp
    with True q show ?thesis by simp
  next
    case False
    with Cons.prems(2) have "(i, spec) \<in> set ps" by auto
    from Cons.IH [OF _ this] Cons.prems(1) show ?thesis by (simp add: q)
  qed
qed simp

lemma length_fresh_ids [simp]: "length (fresh_ids used n) = n"
  by (simp add: fresh_ids_def)

text \<open>The devices of a machine hang below it or below a host node with a number.\<close>

definition attached :: "node_id list \<Rightarrow> node_id list \<Rightarrow> edge list \<Rightarrow> bool" where
  "attached parents children edges \<longleftrightarrow> map e_to edges = children \<and> (\<forall>e\<in>set edges. e_kind e = Contains \<and> e_from e \<in> set parents)"

lemma attach:
  assumes "\<And>i x. (i, x) \<in> set ps \<Longrightarrow> f x \<noteq> None \<and> the (f x) \<in> set parents"
  shows "\<exists>edges. all_some (map (\<lambda>(i, x). map_option (\<lambda>parent. contains_edge parent i) (f x)) ps) = Some edges \<and>
    attached parents (map fst ps) edges"
proof -
  have "all_some (map (\<lambda>(i, x). map_option (\<lambda>parent. contains_edge parent i) (f x)) ps) =
      Some (map (\<lambda>(i, x). contains_edge (the (f x)) i) ps)"
    by (rule all_some_map) (use assms in fastforce)
  then show ?thesis using assms by (auto simp: attached_def contains_edge_def)
qed

lemma attached_append:
  "attached parents xs es \<Longrightarrow> attached parents ys es' \<Longrightarrow> attached parents (xs @ ys) (es @ es')"
  by (auto simp: attached_def)

lemma attached_more: "attached parents xs es \<Longrightarrow> set parents \<subseteq> set more_parents \<Longrightarrow> attached more_parents xs es"
  by (auto simp: attached_def)

text \<open>The devices come last; \<open>host_ids\<close> numbers the host nodes they may hang below.\<close>

lemma devices_attach:
  assumes "\<And>spec p. spec \<in> set (md_devices d) \<Longrightarrow> ds_host_parent spec = Some p \<Longrightarrow> \<exists>i\<in>set host. btree_get host_ids p = Some i"
  shows "\<exists>edges. all_some (map (\<lambda>(i, spec). map_option (\<lambda>parent. contains_edge parent i) (host_container host_ids machine (ds_host_parent spec)))
      (zip (fresh_ids used (length (md_devices d))) (md_devices d))) = Some edges \<and>
    attached (machine # host) (map n_id (map (device_node json) (zip (fresh_ids used (length (md_devices d))) (md_devices d)))) edges"
proof -
  let ?ps = "zip (fresh_ids used (length (md_devices d))) (md_devices d)"
  have "host_container host_ids machine (ds_host_parent spec) \<noteq> None \<and>
      the (host_container host_ids machine (ds_host_parent spec)) \<in> set (machine # host)" if "(i, spec) \<in> set ?ps" for i spec
    using assms [of spec] set_zip_rightD [OF that] by (auto simp: host_container_def split: option.split)
  from attach [where f = "\<lambda>spec. host_container host_ids machine (ds_host_parent spec)" and ps = ?ps, OF this]
  have "\<exists>edges. all_some (map (\<lambda>(i, spec). map_option (\<lambda>parent. contains_edge parent i) (host_container host_ids machine (ds_host_parent spec))) ?ps) =
      Some edges \<and> attached (machine # host) (map fst ?ps) edges" by simp
  moreover have "map fst ?ps = map n_id (map (device_node json) ?ps)"
    unfolding map_map by (rule map_cong [OF refl]) (simp add: device_node_def split: prod.split)
  ultimately show ?thesis by simp
qed

text \<open>The nodes of a host are numbered in the order of their names; every name that a validated description refers to has a number.\<close>

definition host_numbers :: "machine_description \<Rightarrow> node_id \<Rightarrow> (node_id \<times> host_node_spec) list" where
  "host_numbers d m = (let specs = sort_key hs_id (md_host_nodes d) in zip (fresh_ids m (length specs)) specs)"

definition host_index :: "(node_id \<times> host_node_spec) list \<Rightarrow> (string, node_id) btree" where
  "host_index ps = fold (\<lambda>(i, spec). btree_insert (hs_id spec) i) ps btree_empty"

lemma host_numbers_specs: "map snd (host_numbers d m) = sort_key hs_id (md_host_nodes d)"
  by (simp add: host_numbers_def Let_def)

lemma host_numbers_spec: "(i, spec) \<in> set (host_numbers d m) \<Longrightarrow> spec \<in> set (md_host_nodes d)"
  using arg_cong [OF host_numbers_specs, of set d m] by force

lemma host_index_number:
  assumes "validate_machine_description d = Ok ()" and "(i, spec) \<in> set (host_numbers d m)"
  shows "btree_get (host_index (host_numbers d m)) (hs_id spec) = Some i"
proof -
  have "distinct (map hs_id (map snd (host_numbers d m)))"
    using validated_description(1) [OF assms(1)] unfolding host_numbers_specs by (simp add: distinct_map)
  then have "distinct (map (\<lambda>(i, spec). hs_id spec) (host_numbers d m))" by (simp add: case_prod_unfold comp_def)
  from numbered_ids [OF this, of _ _ btree_empty] assms(2) show ?thesis unfolding host_index_def by blast
qed

lemma host_index_known:
  assumes "validate_machine_description d = Ok ()" and "p \<in> hs_id ` set (md_host_nodes d)"
  shows "\<exists>i\<in>set (map fst (host_numbers d m)). btree_get (host_index (host_numbers d m)) p = Some i"
proof -
  obtain spec where "spec \<in> set (map snd (host_numbers d m))" "hs_id spec = p" using assms(2) unfolding host_numbers_specs by auto
  then obtain i where "(i, spec) \<in> set (host_numbers d m)" by auto
  with host_index_number [OF assms(1) this] \<open>hs_id spec = p\<close> show ?thesis by force
qed

lemma host_index_parent:
  assumes "validate_machine_description d = Ok ()" and "(i, spec) \<in> set (host_numbers d m)"
  shows "host_container (host_index (host_numbers d m)) m (hs_parent spec) \<noteq> None \<and>
    the (host_container (host_index (host_numbers d m)) m (hs_parent spec)) \<in> set (m # map fst (host_numbers d m))"
proof (cases "hs_parent spec")
  case (Some p)
  obtain i where "i \<in> set (map fst (host_numbers d m))" "btree_get (host_index (host_numbers d m)) p = Some i"
    using host_index_known [OF assms(1) validated_description(2) [OF assms(1) host_numbers_spec [OF assms(2)] Some]] by blast
  with Some show ?thesis by (simp add: host_container_def)
qed (simp add: host_container_def)

lemma flat_graph_builds:
  assumes "validate_machine_description d = Ok ()" and flat: "md_host_nodes d = []"
  shows "\<exists>lm nodes edges. build_graph json d first_id = Some (lm, machine_node d (first_id + 1) # nodes, edges) \<and>
    attached ((first_id + 1) # map n_id nodes) (map n_id nodes) edges"
proof -
  let ?m = "first_id + 1"
  let ?cpus = "fresh_ids ?m (unat (md_cpus d))" and ?memory = "?m + md_cpus d + 1"
  let ?nodes = "fst (flat_host d ?m ?cpus ?memory)" and ?edges = "snd (flat_host d ?m ?cpus ?memory)"
  let ?devices = "map (device_node json) (zip (fresh_ids ?memory (length (md_devices d))) (md_devices d))"
  obtain es where es: "all_some (map (\<lambda>(i, spec). map_option (\<lambda>parent. contains_edge parent i) (host_container btree_empty ?m (ds_host_parent spec)))
      (zip (fresh_ids ?memory (length (md_devices d))) (md_devices d))) = Some es" "attached [?m] (map n_id ?devices) es"
    using devices_attach [where host = "[]" and host_ids = btree_empty and machine = ?m and used = ?memory and d = d and json = json]
      validated_description(3) [OF assms(1)] flat by auto
  have "attached [?m] (map n_id ?nodes) ?edges" by (auto simp: attached_def flat_host_def contains_edge_def)
  then have "attached [?m] (map n_id (?nodes @ ?devices)) (?edges @ es)"
    using attached_append es(2) by (simp only: map_append)
  then have "attached (?m # map n_id (?nodes @ ?devices)) (map n_id (?nodes @ ?devices)) (?edges @ es)"
    by (rule attached_more) simp
  moreover have "build_graph json d first_id =
      Some (\<lparr>lm_machine = ?m, lm_cpus = ?cpus, lm_memory = [?memory]\<rparr>, machine_node d ?m # ?nodes @ ?devices, ?edges @ es)"
    using es(1) flat by (simp add: build_graph_def Let_def case_prod_beta)
  ultimately show ?thesis by blast
qed

lemma host_graph_builds:
  assumes valid: "validate_machine_description d = Ok ()" and deep: "md_host_nodes d \<noteq> []"
  shows "\<exists>lm nodes edges. build_graph json d first_id = Some (lm, machine_node d (first_id + 1) # nodes, edges) \<and>
    attached ((first_id + 1) # map n_id nodes) (map n_id nodes) edges"
proof -
  let ?m = "first_id + 1"
  define specs where "specs = sort_key hs_id (md_host_nodes d)"
  define ps where "ps = host_numbers d ?m"
  define host_ids where "host_ids = host_index ps"
  let ?nodes = "map host_graph_node ps"
  note index = ps_def [symmetric] host_ids_def [symmetric]
  have ids: "map n_id ?nodes = map fst ps"
    unfolding map_map by (rule map_cong [OF refl]) (simp add: host_graph_node_def split: prod.split)
  obtain es where es: "all_some (map (\<lambda>(i, spec). map_option (\<lambda>parent. contains_edge parent i) (host_container host_ids ?m (hs_parent spec))) ps) = Some es"
      "attached (?m # map fst ps) (map fst ps) es"
    using attach [of ps "\<lambda>spec. host_container host_ids ?m (hs_parent spec)" "?m # map fst ps"]
      host_index_parent [OF valid, of _ _ ?m, unfolded index] by blast
  have "map (\<lambda>spec. Option.bind (btree_get host_ids (hs_id spec)) (\<lambda>child.
      map_option (\<lambda>parent. contains_edge parent child) (host_container host_ids ?m (hs_parent spec)))) (map snd ps) =
      map (\<lambda>(i, spec). map_option (\<lambda>parent. contains_edge parent i) (host_container host_ids ?m (hs_parent spec))) ps"
    unfolding map_map using host_index_number [OF valid, of _ _ ?m, unfolded index] by (intro map_cong) auto
  note host_edges = this [unfolded ps_def host_numbers_specs, folded specs_def ps_def, THEN arg_cong [of _ _ all_some], unfolded es(1)]
  let ?used = "?m + of_nat (length specs)"
  let ?devices = "map (device_node json) (zip (fresh_ids ?used (length (md_devices d))) (md_devices d))"
  obtain ds where ds: "all_some (map (\<lambda>(i, spec). map_option (\<lambda>parent. contains_edge parent i) (host_container host_ids ?m (ds_host_parent spec)))
      (zip (fresh_ids ?used (length (md_devices d))) (md_devices d))) = Some ds" "attached (?m # map fst ps) (map n_id ?devices) ds"
    using devices_attach [where host = "map fst ps" and host_ids = host_ids and machine = ?m and used = ?used and d = d and json = json]
      validated_description(3) [OF valid] host_index_known [OF valid, of _ ?m, unfolded index] by blast
  have "attached (?m # map n_id (?nodes @ ?devices)) (map n_id (?nodes @ ?devices)) (es @ ds)"
    unfolding map_append ids by (rule attached_more [OF attached_append [OF es(2) ds(2)]]) auto
  moreover have "\<exists>lm. build_graph json d first_id = Some (lm, machine_node d ?m # ?nodes @ ?devices, es @ ds)"
    using deep ds(1) host_edges
    unfolding build_graph_def Let_def host_ids_def host_index_def ps_def host_numbers_def specs_def [symmetric] by simp
  ultimately show ?thesis by blast
qed

text \<open>
  C36. A validated description becomes a graph: building it does not panic, the first node is the machine, and every other node has
  exactly one containment edge, which comes from a node of the fragment.
\<close>

theorem validated_graph_builds:
  assumes "validate_machine_description d = Ok ()"
  shows "\<exists>lm nodes edges. build_graph json d first_id = Some (lm, machine_node d (first_id + 1) # nodes, edges) \<and>
    attached ((first_id + 1) # map n_id nodes) (map n_id nodes) edges"
proof (cases "md_host_nodes d = []")
  case True
  with assms show ?thesis by (rule flat_graph_builds)
next
  case False
  with assms show ?thesis by (rule host_graph_builds)
qed

lemma keys_single: "set (btree_keys (btree_insert k v btree_empty)) = {k}"
  by (auto simp: set_eq_iff split: if_splits)

definition sample_host :: machine_description where
  "sample_host = \<lparr>md_instance_id = ''agent'', md_name = ''host'', md_cpus = 1, md_memory_bytes = 64,
     md_host_nodes = [host_node ''numa/0'' Numa None btree_empty, host_node ''numa/0/memory'' Memory (Some ''numa/0'') (qty Bytes 64),
       host_node ''numa/0/cpu/7'' Cpu (Some ''numa/0'') (qty Count 1)],
     md_devices = [sample_device\<lparr>ds_host_parent := Some ''numa/0''\<rparr>]\<rparr>"

theorem validated_graph_builds_witness:
  "\<exists>lm nodes edges. build_graph concat sample_host 0 = Some (lm, machine_node sample_host 1 # nodes, edges) \<and>
     attached (1 # map n_id nodes) (map n_id nodes) edges"
proof -
  have "validate_machine_description sample_host = Ok ()"
    by (simp add: validate_machine_description_def sample_host_def sample_device_def host_node_def validate_host_node_def
        validate_containment_def validate_device_def reserved_attrs_def btree_contains_key_def btree_is_empty_iff list_ex_iff
        trim_def is_space_def device_kind_def claimable_leaf_def quantity_get_def qty_def Let_def keys_single)
  from validated_graph_builds [OF this, of concat 0] show ?thesis by simp
qed

section \<open>Processors and memory nodes of a member\<close>

text \<open>
  The controller asks for the number behind a \<^verbatim>\<open>cpu/\<close> leaf, a kind the parser does not know: no execution is ever pinned to
  processors. Memory nodes of the normalized topology are found.
\<close>

lemma cpu_leaf_unknown: "host_leaf_number s n ''cpu/'' = None"
  by (auto simp: host_leaf_number_def split: option.split bind_splits)

lemma cpus_never_pinned:
  assumes "lease_limits_on_machine s lease machine = Ok limits"
  shows "cp_cpus (ll_placement limits) = []"
proof -
  have one: "fst (snd (claim_limits s machine cl p)) = fst (snd p)" for cl p
    by (cases p) (simp add: claim_limits_def cpu_leaf_unknown split: option.split)
  have "fst (snd (fold (claim_limits s machine) cls p)) = fst (snd p)" for cls p
    by (induction cls arbitrary: p) (simp_all add: one)
  with assms show ?thesis
    by (auto simp: lease_limits_on_machine_def Let_def case_prod_unfold split: option.splits)
qed

lemma memory_leaf_number:
  assumes "graph_node (k_graph (s_cluster s)) n = Some nd" and "btree_get (n_attrs nd) HOST_ID_ATTR = Some (''numa/'' @ show_u32 node @ ''/memory'')"
  shows "host_leaf_number s n ''memory'' = Some node"
proof -
  have "rsplit_once (CHR ''/'') ((''numa/'' @ show_u32 node) @ ''/memory'') = Some (''numa/'' @ show_u32 node, ''memory'')"
    using split_once_append [of "CHR ''/''" "rev ''memory''" "rev (''numa/'' @ show_u32 node)"] by (simp add: rsplit_once_def)
  with assms show ?thesis by (simp add: host_leaf_number_def strip_prefix_def parse_show_u32)
qed

end
