(* ===== verification/Control_Log.thy ===== *)
theory Control_Log
  imports Node_Groups
begin

text \<open>
  The journal of the controller (\<^verbatim>\<open>crates/control/src/log.rs\<close>): one JSON record per line, appended and synced before anything is
  acknowledged. The file is its list of bytes. The JSON encoding is the parameter \<open>journal_codec\<close>; the locks and
  the syncs of the file leave no trace in its contents. A crash can leave a part of the last line behind.
\<close>

type_synonym bytes = "8 word list"

record journal_record =
  jr_sequence :: u64
  jr_command :: "command option"
  jr_state :: service_state

datatype (plugins only: code size) log_record = Controller journal_record | Legacy command

text \<open>What \<^verbatim>\<open>serde_json\<close> does with records, single commands and states.\<close>

record journal_codec =
  jc_record :: "journal_record \<Rightarrow> bytes"
  jc_command :: "command \<Rightarrow> bytes"
  jc_state :: "service_state \<Rightarrow> bytes"
  jc_read_record :: "bytes \<Rightarrow> (journal_record, string) result"
  jc_read_command :: "bytes \<Rightarrow> (command, string) result"

definition newline :: "8 word" where "newline = 10"

section \<open>Writing\<close>

definition append_value :: "bytes \<Rightarrow> bytes \<Rightarrow> bytes" where
  "append_value value file = file @ value @ [newline]"

definition append_command :: "journal_codec \<Rightarrow> command \<Rightarrow> bytes \<Rightarrow> bytes" where
  "append_command codec command file = append_value (jc_command codec command) file"

definition append_record :: "journal_codec \<Rightarrow> journal_record \<Rightarrow> bytes \<Rightarrow> bytes" where
  "append_record codec entry file = append_value (jc_record codec entry) file"

text \<open>\<^verbatim>\<open>truncate\<close> empties the file.\<close>

definition truncate_log :: "bytes \<Rightarrow> bytes" where
  "truncate_log file = []"

section \<open>Reading\<close>

definition is_ascii_whitespace :: "8 word \<Rightarrow> bool" where
  "is_ascii_whitespace b \<longleftrightarrow> b = 32 \<or> b = 9 \<or> b = 10 \<or> b = 12 \<or> b = 13"

definition parse_line :: "journal_codec \<Rightarrow> nat \<Rightarrow> bytes \<Rightarrow> (log_record, string) result" where
  "parse_line codec line_no line =
     (case jc_read_record codec line of
        Ok entry \<Rightarrow> Ok (Controller entry)
      | Err journal_error \<Rightarrow>
          (case jc_read_command codec line of
             Ok command \<Rightarrow> Ok (Legacy command)
           | Err legacy_error \<Rightarrow>
               Err (''corrupt log entry '' @ show_nat line_no @ '': '' @ journal_error @ ''; '' @ legacy_error)))"

text \<open>The loop over the lines from \<open>line_start\<close>; it returns the file it leaves, without the torn tail, and the records.\<close>

function read_lines :: "journal_codec \<Rightarrow> bytes \<Rightarrow> nat \<Rightarrow> nat \<Rightarrow> log_record list \<Rightarrow> bytes \<times> (log_record list, string) result" where
  "read_lines codec bytes line_start line_no commands =
     (case position (\<lambda>b. b = newline) (drop line_start bytes) of
        None \<Rightarrow> (if line_start < length bytes then take line_start bytes else bytes, Ok commands)
      | Some index \<Rightarrow>
          let line = take index (drop line_start bytes)
          in if list_all is_ascii_whitespace line then read_lines codec bytes (line_start + index + 1) (line_no + 1) commands
             else case parse_line codec line_no line of
               Err e \<Rightarrow> (bytes, Err e)
             | Ok entry \<Rightarrow> read_lines codec bytes (line_start + index + 1) (line_no + 1) (commands @ [entry]))"
  by pat_completeness auto

termination
  by (relation "measure (\<lambda>(codec, bytes, line_start, line_no, commands). length bytes - line_start)") (auto dest: position_less)

declare read_lines.simps [simp del]

definition read_records :: "journal_codec \<Rightarrow> bytes \<Rightarrow> bytes \<times> (log_record list, string) result" where
  "read_records codec file = read_lines codec file 0 1 []"

definition read_commands :: "journal_codec \<Rightarrow> bytes \<Rightarrow> bytes \<times> (command list, string) result" where
  "read_commands codec file =
     (case read_records codec file of
        (file', Err e) \<Rightarrow> (file', Err e)
      | (file', Ok records) \<Rightarrow>
          (file', Ok (List.map_filter (\<lambda>entry. case entry of Controller entry \<Rightarrow> jr_command entry | Legacy command \<Rightarrow> Some command) records)))"

section \<open>Reading what was written\<close>

fun log_line :: "journal_codec \<Rightarrow> log_record \<Rightarrow> bytes" where
  "log_line codec (Controller entry) = jc_record codec entry"
| "log_line codec (Legacy command) = jc_command codec command"

text \<open>
  What the journal relies on of the encoding of an entry: it has no line break, it is more than blanks, and reading it gives the entry back
  (which, for a command of an old journal, includes that it does not read as a record).
\<close>

definition reads_back :: "journal_codec \<Rightarrow> log_record \<Rightarrow> bool" where
  "reads_back codec entry \<longleftrightarrow>
     newline \<notin> set (log_line codec entry) \<and> \<not> list_all is_ascii_whitespace (log_line codec entry) \<and>
     (\<forall>line_no. parse_line codec line_no (log_line codec entry) = Ok entry)"

definition log_file :: "journal_codec \<Rightarrow> log_record list \<Rightarrow> bytes" where
  "log_file codec entries = concat (map (\<lambda>entry. log_line codec entry @ [newline]) entries)"

lemma log_file_append: "log_file codec (xs @ ys) = log_file codec xs @ log_file codec ys"
  by (simp add: log_file_def)

lemma position_append: "(\<forall>x\<in>set xs. \<not> P x) \<Longrightarrow> P z \<Longrightarrow> position P (xs @ z # ys) = Some (length xs)"
  by (induction xs) auto

lemma position_none: "(\<forall>x\<in>set xs. \<not> P x) \<Longrightarrow> position P xs = None"
  by (induction xs) auto

lemma read_lines_entries:
  assumes "list_all (reads_back codec) entries" and "newline \<notin> set tail"
  shows "read_lines codec (seen @ log_file codec entries @ tail) (length seen) line_no out =
    (seen @ log_file codec entries, Ok (out @ entries))"
  using assms(1)
proof (induction entries arbitrary: seen line_no out)
  case Nil
  have "position (\<lambda>b. b = newline) tail = None" using assms(2) by (intro position_none) auto
  then show ?case by (simp add: read_lines.simps log_file_def)
next
  case (Cons entry entries)
  let ?line = "log_line codec entry"
  let ?rest = "log_file codec entries @ tail"
  have entry: "newline \<notin> set ?line" "\<not> list_all is_ascii_whitespace ?line" "parse_line codec line_no ?line = Ok entry"
    using Cons.prems by (simp_all add: reads_back_def)
  have split: "seen @ log_file codec (entry # entries) @ tail = (seen @ ?line @ [newline]) @ ?rest" by (simp add: log_file_def)
  have "position (\<lambda>b. b = newline) (?line @ newline # ?rest) = Some (length ?line)"
    by (rule position_append) (use entry(1) in auto)
  then have "read_lines codec (seen @ log_file codec (entry # entries) @ tail) (length seen) line_no out =
      read_lines codec ((seen @ ?line @ [newline]) @ ?rest) (length (seen @ ?line @ [newline])) (line_no + 1) (out @ [entry])"
    unfolding split using entry(2,3) by (subst read_lines.simps) (simp add: Let_def)
  also have "\<dots> = ((seen @ ?line @ [newline]) @ log_file codec entries, Ok ((out @ [entry]) @ entries))"
    using Cons.prems by (intro Cons.IH) simp
  finally show ?case by (simp add: log_file_def)
qed

lemma read_records_entries:
  "list_all (reads_back codec) entries \<Longrightarrow> newline \<notin> set tail \<Longrightarrow>
     read_records codec (log_file codec entries @ tail) = (log_file codec entries, Ok entries)"
  using read_lines_entries [where seen = "[]" and out = "[]"] by (simp add: read_records_def)

end
