(* ===== verification/Service_Journal.thy ===== *)
theory Service_Journal
  imports Service_Registration Cluster_Replay
begin

text \<open>
  What every operation of the controller has in common. The locales \<open>pump_relation\<close> and \<open>service_relation\<close> fix a relation between the state
  before and after, ask that the primitive changes (a commit, a persisted state, the clock, fields beside the cluster) satisfy it,
  and give it for every operation. Two instances: the queue is untouched by the pump, and an operation writes
  down every command that the cluster accepted, in order (\<open>journals\<close>).
\<close>

section \<open>Relations that every operation respects\<close>

locale pump_relation =
  fixes rel :: "node_service \<Rightarrow> node_service \<Rightarrow> bool"
  assumes rel_trans: "rel s t \<Longrightarrow> rel t u \<Longrightarrow> rel s u"
    and rel_commit: "rel s (fst (service_commit command s))"
    and rel_quiet: "quiet s t \<Longrightarrow> rel s t"
    and rel_pending: "rel s (s\<lparr>s_pending := effects\<rparr>)"
    and rel_held: "rel s (s\<lparr>s_held_effects := held\<rparr>)"
    and rel_next_binding: "rel s (s\<lparr>s_next_binding := i\<rparr>)"
begin

lemma rel_refl: "rel s s"
  by (rule rel_quiet) simp

lemma rel_then:
  "rel s (fst m) \<Longrightarrow> (\<And>t x. m = (t, Done x) \<Longrightarrow> rel t (fst (k t x))) \<Longrightarrow> rel s (fst (and_svc m k))"
  by (cases "(m, k)" rule: and_svc.cases) (auto intro: rel_trans)

lemma rel_each: "(\<And>x s. rel s (fst (f x s))) \<Longrightarrow> rel s (fst (each_svc f xs s))"
  by (induction xs arbitrary: s) (auto intro: rel_then rel_refl)

lemma rel_fold: "(\<And>x s. rel s (f x s)) \<Longrightarrow> rel s (fold f xs s)"
  by (induction xs arbitrary: s) (auto intro: rel_trans rel_refl)

lemma rel_try_lenient: "rel s (fst (try_commit_lenient command s))"
  using rel_commit [of s command] by (auto simp: try_commit_lenient_def split: prod.splits answer.splits)

lemma rel_lenient: "rel s (commit_lenient command s)"
  by (simp add: commit_lenient_def rel_try_lenient)

lemma rel_commits: "rel s (fst (each_svc (\<lambda>x. service_commit (command x)) xs s))"
  by (rule rel_each) (rule rel_commit)

lemma rel_refresh: "rel s (fst (refresh_session i b s))"
  by (auto simp: refresh_session_def intro!: rel_then rel_refl rel_commit split: option.split)

lemma rel_route_binding: "rel s (fst (route_binding phase i epoch s))"
proof -
  have "rel t ((maybe_stop_executions lease t)\<lparr>s_held_effects := held\<rparr>)" for t lease held
    using rel_quiet [OF quiet_stops] rel_held by (rule rel_trans)
  then show ?thesis
    by (auto simp: route_binding_def Let_def intro!: rel_then rel_refl rel_refresh rel_quiet [OF quiet_dispatch] split: option.split)
qed

lemma rel_route: "rel s (fst (route eff s))"
proof -
  have "rel s (fst (route_recovery machine is s))" for machine "is"
    using quiet_route_recovery(1) by (intro rel_quiet) (metis prod.collapse)
  then show ?thesis by (auto simp: route_def intro: rel_refl rel_route_binding split: effect.split option.split)
qed

lemma rel_deliver: "rel s (fst (deliver eff s))"
  unfolding deliver_def by (intro rel_then rel_route rel_each rel_commit)

lemma rel_pump: "rel s (fst (pump s))"
proof (induction s rule: pump.induct)
  case (1 s)
  show ?case
  proof (cases "s_pending s")
    case Nil
    then show ?thesis by (simp add: pump.simps [of s] rel_refl)
  next
    case (Cons eff rest)
    obtain s1 r where out: "deliver eff (s\<lparr>s_pending := rest\<rparr>) = (s1, r)" by (cases "deliver eff (s\<lparr>s_pending := rest\<rparr>)")
    have "rel s s1" using rel_trans [OF rel_pending [of s rest] rel_deliver [of _ eff]] out by simp
    with 1 [OF Cons out [symmetric]] Cons out show ?thesis
      by (cases r) (auto simp: pump.simps [of s] intro: rel_trans)
  qed
qed

lemma rel_then_pump: "rel s t \<Longrightarrow> rel s (fst (pump t))"
  by (erule rel_trans) (rule rel_pump)

lemma rel_maybe_activate: "rel s (maybe_activate lease s)"
  by (auto simp: maybe_activate_def Let_def intro!: rel_refl rel_trans [OF rel_lenient rel_fold] rel_lenient split: option.split)

lemma rel_open_enforced_bindings: "rel s (fst (open_enforced_bindings lease s))"
proof -
  have "rel s (fst (open_enforced_binding lease cl s))" for cl s
    by (auto simp: open_enforced_binding_def Let_def intro!: rel_refl rel_trans [OF rel_next_binding rel_commit] split: result.split)
  then show ?thesis by (auto simp: open_enforced_bindings_def intro!: rel_refl rel_each split: option.split)
qed

end

locale service_relation = pump_relation +
  assumes rel_local: "s_cluster t = s_cluster s \<Longrightarrow> s_durable_sink t = s_durable_sink s \<Longrightarrow> rel s t"
    and rel_persist: "rel s (persist None s)"
    and rel_clock: "rel s (s\<lparr>s_cluster := set_now (s_cluster s) now\<rparr>)"
begin

lemma rel_after: "rel s t \<Longrightarrow> s_cluster u = s_cluster t \<Longrightarrow> s_durable_sink u = s_durable_sink t \<Longrightarrow> rel s u"
  by (erule rel_trans) (rule rel_local)

lemma rel_before: "rel t u \<Longrightarrow> s_cluster t = s_cluster s \<Longrightarrow> s_durable_sink t = s_durable_sink s \<Longrightarrow> rel s u"
  by (rule rel_trans [OF rel_local])

lemma rel_persisted: "rel s t \<Longrightarrow> rel s (persist None t)"
  by (erule rel_trans) (rule rel_persist)

lemma rel_event: "rel s t \<Longrightarrow> rel s (push_event event t)"
  by (erule rel_trans) (rule rel_quiet, simp)

lemma rel_log_error: "rel s (fst m) \<Longrightarrow> rel s (fst (log_error m))"
  by (cases m rule: log_error.cases) simp_all

subsection \<open>Absorbing answers\<close>

lemma rel_maybe_start_executions: "rel s (fst (maybe_start_executions rd lease s))"
  by (auto simp: maybe_start_executions_def intro!: rel_refl rel_each rel_quiet [OF quiet_start_member] split: option.split)

lemma rel_drive_held: "rel s (fst (drive_held x s))"
  by (cases x) (auto simp: drive_held_def intro: rel_refl rel_held rel_deliver split: option.split)

lemma rel_drive_held_effects: "rel s (fst (drive_held_effects s))"
  unfolding drive_held_effects_def by (rule rel_trans [OF rel_held rel_each]) (rule rel_drive_held)

lemma rel_resolve_observed_completion: "rel s (fst (resolve_observed_completion lease finished s))"
  by (auto simp: resolve_observed_completion_def Let_def intro: rel_refl rel_lenient split: list.split)

lemma rel_finish_machine_recovery: "rel s (finish_machine_recovery machine s)"
  unfolding finish_machine_recovery_def Let_def
  by (rule rel_trans [OF rel_trans [OF rel_local rel_lenient] rel_lenient]) simp_all

lemma rel_rebind_lease_machine: "rel s (fst (rebind_lease_machine lease machine s))"
  by (auto simp: rebind_lease_machine_def intro: rel_refl rel_commits split: option.split)

lemma rel_adopt: "rel s (adopt_execution lease machine running (adopt_activations lease machine s))"
proof -
  have "rel s (adopt_activations lease machine s)"
    unfolding adopt_activations_def by (rule rel_fold, rule rel_local) (auto split: option.split)
  moreover have "rel t (adopt_execution lease machine running t)" for t
    by (rule rel_local) (auto simp: adopt_execution_def Let_def split: option.split)
  ultimately show ?thesis by (rule rel_trans)
qed

lemma rel_terminal_member:
  "rel s (fst (and_svc (log_error (drive_held_effects (maybe_stop_executions lease s))) (\<lambda>s _. (push_event event s, Done finished))))"
  by (intro rel_then rel_log_error rel_trans [OF rel_quiet [OF quiet_stops] rel_drive_held_effects]) (simp add: rel_event rel_refl)

lemma rel_resolve_recovered_member: "rel s (fst (resolve_recovered_member lease machine running exit_code finished s))"
proof -
  let ?s1 = "s\<lparr>s_member_status := btree_insert (lease, machine) \<lparr>mst_running = running, mst_exit_code = exit_code\<rparr> (s_member_status s)\<rparr>"
  have one: "rel s ?s1" by (rule rel_local) simp_all
  let ?s2 = "case session_of ?s1 machine of None \<Rightarrow> ?s1 | Some session \<Rightarrow>
      if \<not> running \<and> exit_code \<noteq> None then ?s1\<lparr>s_execution_stopped := insert (lease, machine, session) (s_execution_stopped ?s1)\<rparr> else ?s1"
  have two: "rel s ?s2" by (rule rel_local) (auto split: option.split)
  have revoked: "rel s (commit_lenient command (push_event event t))" if "rel s t" for command event t
    using rel_event [OF that] rel_lenient by (rule rel_trans)
  have adopted: "rel s (push_event event (fst (resolve_observed_completion lease finished
      (adopt_execution lease machine running (adopt_activations lease machine t)))))" if "rel s t" for event t
    by (rule rel_event, rule rel_trans [OF rel_trans [OF that rel_adopt] rel_resolve_observed_completion])
  obtain s2 r where rebind: "rebind_lease_machine lease machine ?s1 = (s2, r)" by (cases "rebind_lease_machine lease machine ?s1")
  have "rel s s2" using rel_trans [OF one rel_rebind_lease_machine [of ?s1 lease machine]] rebind by simp
  then have adopt: "rel s (fst (case rebind_lease_machine lease machine ?s1 of
              (s2, Raise e) \<Rightarrow>
                (commit_lenient (RevokeLease lease) (push_event (MemberRevokedRebindFailed lease machine) s2), Done (finished @ [lease]))
            | (s2, Panic) \<Rightarrow> (s2, Panic)
            | (s2, Done _) \<Rightarrow>
                let s3 = adopt_execution lease machine running (adopt_activations lease machine s2);
                    (s4, finished') = resolve_observed_completion lease finished s3
                in (push_event (MemberRecovered lease machine running exit_code) s4, Done finished')))"
    by (auto simp: rebind Let_def case_prod_beta adopted revoked split: answer.split)
  have branch: "rel s (fst (if b then x else y))" if "rel s (fst x)" "rel s (fst y)" for b and x y :: "lease_id list in_service"
    using that by simp
  show ?thesis
    unfolding resolve_recovered_member_def Let_def
    by (intro branch rel_trans [OF two rel_terminal_member] adopt [unfolded Let_def]) (simp only: fst_conv revoked [OF one])
qed

lemma rel_resolve_members: "rel s (fst (resolve_members machine ready finished s))"
proof (induction ready arbitrary: finished s)
  case (Cons x ready)
  obtain lease status where x: "x = (lease, status)" by (cases x)
  show ?case unfolding x resolve_members.simps by (intro rel_then rel_before [OF rel_resolve_recovered_member] Cons.IH) simp_all
qed (simp add: rel_refl)

lemma rel_resolve_machine_recovery: "rel s (fst (resolve_machine_recovery machine finished s))"
  by (auto simp: resolve_machine_recovery_def intro!: rel_refl rel_then rel_resolve_members rel_finish_machine_recovery split: option.split)

lemma rel_fence_stray: "rel s (fence_stray machine session x s)"
proof -
  obtain i e where x: "x = (i, e)" by (cases x)
  have one: "rel s (commit_lenient command (push_event event s))" for command event
    using rel_event [OF rel_refl] rel_lenient by (rule rel_trans)
  have "rel t (svc_dispatch machine tag request (t\<lparr>s_recovering_machines := R\<rparr>))" for t tag request R
    by (rule rel_trans [OF rel_local rel_quiet [OF quiet_dispatch]]) simp_all
  from rel_trans [OF one this] show ?thesis
    using one by (auto simp: fence_stray_def x Let_def split: option.split)
qed

lemma rel_absorb_enumeration: "rel s (fst (absorb_enumeration machine endpoints s))"
proof -
  have folds: "rel s (fold (\<lambda>(verdict, e). case verdict of Teardown i \<Rightarrow> push_event (StrayFenced machine (ee_node e) i) | _ \<Rightarrow> id) judged s)"
    "rel s (fold (\<lambda>(verdict, e). case verdict of Teardown i \<Rightarrow> commit_lenient (FenceBinding i) | _ \<Rightarrow> id) judged s)"
    "rel s (fold (\<lambda>(verdict, e). case verdict of RecordClosed i fence \<Rightarrow> commit_lenient (RecordBindingFenced i session fence) | _ \<Rightarrow> id) judged s)"
    "rel s (fold (\<lambda>(verdict, e). case verdict of Stray i \<Rightarrow> fence_stray machine session (i, e) | _ \<Rightarrow> id) judged s)" for s judged session
    by (rule rel_fold, auto split: prod.split verdict.split simp: rel_refl rel_event rel_lenient rel_fence_stray)+
  show ?thesis
    using rel_trans [OF rel_trans [OF rel_trans [OF folds(1) folds(2)] folds(3)] folds(4)]
    by (auto simp: absorb_enumeration_def Let_def intro: rel_refl split: option.split)
qed

lemma rel_absorb_binding: "rel s (fst (absorb_binding rd i session fence reply s))"
proof -
  have prepared: "rel s (maybe_activate lease (commit_lenient command s))" for lease command
    using rel_lenient rel_maybe_activate by (rule rel_trans)
  have activated: "rel s (fst (maybe_start_executions rd lease (t\<lparr>s_provider_activations := A\<rparr>)))"
      "rel s (t\<lparr>s_provider_activations := A\<rparr>)" if "rel s t" for t A lease
    using rel_trans [OF that rel_before [OF rel_maybe_start_executions]] rel_after [OF that] by simp_all
  obtain t ok where active: "try_commit_lenient (RecordBindingActive i session fence) s = (t, ok)"
    by (cases "try_commit_lenient (RecordBindingActive i session fence) s")
  with rel_try_lenient [of s "RecordBindingActive i session fence"] have "rel s t" by simp
  then show ?thesis
    by (auto simp: absorb_binding_def Let_def active intro!: rel_refl rel_lenient prepared activated
        split: result.split agent_response.split option.split)
qed

lemma rel_absorb_start: "rel s (absorb_start rd lease machine session reply s)"
proof -
  have "rel s (s\<lparr>s_execution_started := A\<rparr>)" for A by (rule rel_local) simp_all
  then show ?thesis
    by (auto simp: absorb_start_def Let_def intro: rel_refl rel_lenient split: result.split agent_response.split)
qed

lemma rel_absorb_stop: "rel s (fst (absorb_stop lease machine session reply s))"
  by (auto simp: absorb_stop_def intro!: rel_refl rel_before [OF rel_drive_held_effects] split: result.split agent_response.split)

lemma rel_absorb_status: "rel s (fst (absorb_status lease machine reply finished s))"
  unfolding absorb_status_def Let_def
  by (auto simp: case_prod_beta intro!: rel_refl rel_before [OF rel_resolve_machine_recovery]
      rel_before [OF rel_resolve_observed_completion] split: option.split)

lemma rel_absorb_bindings_enumerated: "rel s (fst (absorb_bindings_enumerated machine reply finished s))"
proof -
  have "rel s (fst (resolve_machine_recovery machine finished
      (if ok then (fst (absorb_enumeration machine es s))\<lparr>s_recovering_machines := R\<rparr> else fst (absorb_enumeration machine es s))))" for ok es R
    by (auto intro: rel_trans [OF rel_absorb_enumeration rel_resolve_machine_recovery]
        rel_trans [OF rel_absorb_enumeration rel_before [OF rel_resolve_machine_recovery]])
  then show ?thesis
    by (auto simp: absorb_bindings_enumerated_def Let_def case_prod_beta intro: rel_refl split: result.split agent_response.split)
qed

lemma rel_absorb_stray_fence: "rel s (fst (absorb_stray_fence tag machine i reply finished s))"
  by (auto simp: absorb_stray_fence_def intro!: rel_refl rel_before [OF rel_resolve_machine_recovery] split: result.split agent_response.split)

lemma rel_absorb_one: "rel s (fst (absorb_one rd answer finished s))"
proof -
  obtain tag reply where answer: "answer = (tag, reply)" by (cases answer)
  let ?s1 = "s\<lparr>s_inflight := s_inflight s - {tag}\<rparr>"
  have one: "rel s ?s1" by (rule rel_local) simp_all
  have unreachable: "rel (s\<lparr>s_inflight := A\<rparr>) (s\<lparr>s_inflight := A, s_unreachable := u\<rparr>)" for A u by (rule rel_local) simp_all
  have ignore: "rel t (fst (and_svc m (\<lambda>s _. (s, Done finished))))" if "rel t (fst m)" for t and m :: "unit in_service"
    by (rule rel_then [OF that]) (simp add: rel_refl)
  have "rel ?s1 (fst (absorb_one rd answer finished s))"
    unfolding answer absorb_one_def Let_def prod.case
    by (auto intro: rel_refl unreachable ignore rel_absorb_binding rel_absorb_start rel_absorb_stop rel_absorb_status
        rel_absorb_bindings_enumerated rel_absorb_stray_fence split: tag.split result.split)
  with one show ?thesis by (rule rel_trans)
qed

lemma rel_absorb_all: "rel s (fst (absorb_all rd answers finished s))"
  by (induction answers arbitrary: finished s) (auto intro: rel_refl rel_then rel_absorb_one)

lemma rel_absorb: "rel s (fst (absorb rd s))"
  unfolding absorb_def
  by (intro rel_then rel_before [OF rel_absorb_all]) (auto intro!: rel_refl rel_then [OF rel_pump])

lemma rel_drive: "rel s (fst (drive rd arriving s))"
proof (induction rd arriving s rule: drive.induct)
  case (1 rd arriving s)
  have posts: "rel t (fold (\<lambda>(tag, reply). inbox_post tag reply) answers t)" for answers t
    by (rule rel_fold, rule rel_local) (auto simp: inbox_post_def split: prod.split)
  show ?case
    unfolding drive.simps [of rd arriving s]
    by (intro rel_then rel_absorb rel_pump)
      (auto intro!: rel_refl rel_trans [OF posts 1] split: list.split)
qed

subsection \<open>Operations of a running controller\<close>

lemma rel_service_apply: "rel s (fst (service_apply command s))"
  unfolding service_apply_def by (intro rel_then rel_commit rel_pump)

lemma rel_revoke: "rel s (fst (revoke lease s))"
  unfolding revoke_def by (intro rel_then rel_commit rel_pump)

lemma rel_service_tick: "rel s (fst (service_tick now s))"
proof -
  have "rel t (fst (expire_due t))" for t
    unfolding expire_due_def Let_def by (intro rel_then rel_commits rel_pump) (simp add: rel_refl)
  with rel_clock show ?thesis unfolding service_tick_def by (rule rel_trans)
qed

lemma rel_request_status: "rel s (request_status lease s)"
  unfolding request_status_def by (rule rel_fold) (rule rel_quiet, simp)

lemma rel_collect_completions: "rel s (fst (collect_completions rd s))"
  unfolding collect_completions_def
  by (intro rel_then rel_absorb rel_then_pump rel_fold rel_request_status) (simp add: rel_refl)

lemma rel_probe_agents: "rel s (probe_agents s)"
  unfolding probe_agents_def by (rule rel_fold) (auto simp: probe_machine_def Let_def intro: rel_refl rel_quiet)

lemma rel_request_logs: "rel s (fst (request_logs lease s))"
  by (rule rel_local) (auto simp: request_logs_def Let_def split: option.split bool.split)

lemma rel_mark_machine_unhealthy: "rel s (fst (mark_machine_unhealthy machine s))"
  unfolding mark_machine_unhealthy_def Let_def by (intro rel_then rel_commit rel_commits rel_pump)

lemma rel_mark_inventory_mismatch: "rel s (fst (mark_inventory_mismatch machine s))"
  by (auto simp: mark_inventory_mismatch_def intro: rel_refl rel_commit split: option.split)

subsection \<open>Admission and groups\<close>

lemma rel_submit: "rel s (submit workload owner s)"
  unfolding submit_def by (rule rel_persisted, rule rel_local) (simp_all add: svc_enqueue_def Let_def)

lemma rel_from_result: "rel s (fst (from_result s r))"
  by (cases r) (simp_all add: rel_refl)

lemma rel_open_admitted: "rel s (fst (open_admitted adm s))"
proof -
  let ?request = "r_id (ad_request adm)" and ?lease = "s_next_lease s"
  let ?workload = "btree_get_or (resource_only (ad_request adm)) (s_queued_workloads s) ?request"
  let ?s1 = "s\<lparr>s_next_lease := ?lease + 1, s_queued_workloads := btree_remove ?request (s_queued_workloads s),
      s_requests := btree_insert ?lease (?workload, ad_owner adm) (s_requests s)\<rparr>"
  show ?thesis
  proof (cases "position (\<lambda>q. r_id (q_request q) = ?request) (s_queue s)")
    case None
    have "rel s ?s1" by (rule rel_local) simp_all
    with None show ?thesis by (simp add: open_admitted_def Let_def)
  next
    case (Some index)
    let ?s2 = "?s1\<lparr>s_queue := take index (s_queue s) @ drop (Suc index) (s_queue s)\<rparr>"
    let ?open = "OpenLease ?lease (ad_owner adm) (ad_allocation adm) None (saturating_add (k_now (s_cluster s)) (r_lifetime (ad_request adm)))
        (saturating_add (k_now (s_cluster s)) 20) (r_priority (ad_request adm))"
    obtain s3 r where out: "service_commit ?open ?s2 = (s3, r)" by (cases "service_commit ?open ?s2")
    have "rel s s3" using rel_before [OF rel_commit [of ?s2 ?open], of s] out by simp
    moreover from this have "rel s (s3\<lparr>s_queue := Q, s_requests := R, s_queued_workloads := W\<rparr>)" for Q R W
      by (rule rel_after) simp_all
    ultimately show ?thesis using Some out by (cases r) (simp_all add: open_admitted_def Let_def)
  qed
qed

lemma rel_admit_one_with_policy: "rel s (fst (admit_one_with_policy policy s))"
  unfolding admit_one_with_policy_def
  by (auto intro!: rel_refl rel_then rel_from_result rel_open_admitted rel_open_enforced_bindings rel_pump rel_maybe_activate
      split: option.split)

lemma rel_admit_one: "rel s (fst (admit_one s))"
  unfolding admit_one_def by (rule rel_admit_one_with_policy)

lemma rel_register_service_group: "rel s (fst (register_service_group g s))"
  by (auto simp: register_service_group_def intro!: rel_refl rel_persisted rel_local split: result.split)

lemma rel_scale_service_group: "rel s (fst (scale_service_group i target s))"
  by (auto simp: scale_service_group_def intro!: rel_refl rel_persisted rel_local split: option.split cardinality.split)

lemma rel_remove_service_group: "rel s (remove_service_group i s)"
proof -
  have drop: "rel t (fold (\<lambda>member s. s\<lparr>s_member_groups := btree_remove member (s_member_groups s),
      s_member_pins := btree_remove member (s_member_pins s)\<rparr>) members t)" for members t
    by (rule rel_fold, rule rel_local) simp_all
  show ?thesis
    unfolding remove_service_group_def Let_def
    by (rule rel_persisted) (auto intro: rel_local rel_before [OF drop] split: option.split)
qed

lemma rel_submit_member: "rel s (snd (submit_member g pin replaces (submitted, s)))"
  by (rule rel_local) (auto simp: submit_member_def Let_def svc_enqueue_def split: option.split)

lemma rel_fold_submit: "rel s (snd (fold (\<lambda>x. submit_member g (pin x) (replaces x)) xs (submitted, s)))"
proof (induction xs arbitrary: submitted s)
  case (Cons x xs)
  obtain submitted' s' where one: "submit_member g (pin x) (replaces x) (submitted, s) = (submitted', s')"
    by (cases "submit_member g (pin x) (replaces x) (submitted, s)")
  with rel_submit_member [of s g "pin x" "replaces x" submitted] have "rel s s'" by simp
  with Cons [of s' submitted'] one show ?case by (auto intro: rel_trans)
qed (simp add: rel_refl)

lemma rel_reconcile_per_machine: "rel s (snd (reconcile_per_machine g machines alive died (submitted, s)))"
proof -
  let ?s1 = "s\<lparr>s_group_restarts := btree_entry 0 id (sg_id g) (s_group_restarts s)\<rparr>"
  have one: "rel s ?s1" by (rule rel_local) simp_all
  have "rel s (snd (case fold (\<lambda>machine. submit_member g (Some machine) replaces) missing (submitted, ?s1) of
      (submitted', s2) \<Rightarrow> (submitted', s2\<lparr>s_group_last_restart := R s2\<rparr>)))" for missing replaces R
    using rel_after [OF rel_trans [OF one rel_fold_submit [of ?s1 g Some "\<lambda>_. replaces" missing submitted]]]
    by (simp add: case_prod_beta)
  with one show ?thesis by (auto simp: reconcile_per_machine_def Let_def intro: rel_refl)
qed

lemma rel_cancel_member: "rel s (cancel_member member s)"
  by (rule rel_local) (auto simp: cancel_member_def Let_def split: option.split)

lemma rel_scale_down: "rel s (fst (scale_down members to_stop stopped s))"
proof (induction members arbitrary: to_stop stopped s)
  case (Cons member members)
  show ?case
  proof (cases "lease_of_member s member")
    case None
    then show ?thesis using rel_trans [OF rel_cancel_member Cons.IH] Cons.IH by (simp add: rel_refl)
  next
    case (Some lease)
    obtain t r where out: "revoke lease s = (t, r)" by (cases "revoke lease s")
    with rel_revoke [of s lease] have "rel s t" by simp
    with rel_trans [OF this Cons.IH] Some out show ?thesis by (cases r) (simp_all add: rel_refl)
  qed
qed (simp add: rel_refl)

lemma rel_fill_group: "rel s (snd (fill_group g desired shortfall died (submitted, s)))"
proof -
  let ?s1 = "s\<lparr>s_group_restarts := btree_entry 0 id (sg_id g) (s_group_restarts s)\<rparr>"
  have one: "rel s ?s1" by (rule rel_local) simp_all
  have "rel s (snd (case fold (\<lambda>index. submit_member g None (index < allowed)) xs (submitted, ?s1) of
      (submitted', s2) \<Rightarrow> (submitted', if b then s2\<lparr>s_group_last_restart := R s2\<rparr> else s2)))" for allowed xs b R
    using rel_trans [OF one rel_fold_submit [of ?s1 g "\<lambda>_. None" "\<lambda>index. index < allowed" xs submitted]] rel_after
    by (auto simp: case_prod_beta)
  then show ?thesis by (auto simp: fill_group_def Let_def intro: rel_refl)
qed

lemma rel_drop_dead_members: "rel s (drop_dead_members i alive died s)"
  by (rule rel_local) (auto simp: drop_dead_members_def Let_def split: option.split)

lemma rel_reconcile_group: "rel s (fst (reconcile_group machines g submitted s))"
proof -
  let ?alive = "live_members s (sg_id g)"
  let ?died = "member_count s (sg_id g) - length ?alive"
  let ?s1 = "drop_dead_members (sg_id g) ?alive ?died s"
  have per: "rel s (snd (reconcile_per_machine g machines ?alive ?died (submitted, ?s1)))"
    using rel_drop_dead_members rel_reconcile_per_machine by (rule rel_trans)
  have down: "rel s (fst (if b then scale_down members n [] ?s1 else (?s1, Done [])))" for b members n
    using rel_trans [OF rel_drop_dead_members rel_scale_down] rel_drop_dead_members by simp
  have fill: "rel t (fst (case fill_group g desired shortfall ?died (submitted, if b then t else t\<lparr>s_group_members := M\<rparr>) of
      (submitted', s4) \<Rightarrow> (s4, Done submitted')))" for t desired shortfall b M
    using rel_fill_group [of t] rel_before [OF rel_fill_group [of "t\<lparr>s_group_members := M\<rparr>"], of t] by (simp add: case_prod_beta)
  show ?thesis
  proof (cases "sg_cardinality g = PerMachine")
    case True
    with per show ?thesis by (simp add: reconcile_group_def Let_def case_prod_beta)
  next
    case False
    then show ?thesis
      unfolding reconcile_group_def Let_def by (simp only: if_False) (rule rel_then [OF down], rule fill)
  qed
qed

lemma rel_reconcile_groups: "rel s (fst (reconcile_groups machines gs submitted s))"
  by (induction gs arbitrary: submitted s) (auto intro: rel_refl rel_then rel_reconcile_group)

lemma rel_reconcile_service_groups: "rel s (fst (reconcile_service_groups s))"
  unfolding reconcile_service_groups_def by (intro rel_then rel_reconcile_groups) (simp add: rel_persist)

lemma rel_restart_lease: "rel s (snd (restart_lease x (out, s)))"
  by (cases x, rule rel_local) (auto simp: restart_lease_def Let_def split: option.split)

lemma rel_queue_restarts: "rel s (snd (queue_restarts s))"
proof -
  have "rel t (snd (fold restart_lease xs (out, t)))" for xs out t
  proof (induction xs arbitrary: out t)
    case (Cons x xs)
    obtain out' t' where one: "restart_lease x (out, t) = (out', t')" by (cases "restart_lease x (out, t)")
    with rel_restart_lease [of t x out] have "rel t t'" by simp
    with Cons [of t' out'] one show ?case by (auto intro: rel_trans)
  qed (simp add: rel_refl)
  then have "rel s (snd (take_restarts s))" unfolding take_restarts_def .
  moreover have "rel t (fold (\<lambda>(workload, owner). svc_enqueue workload owner) xs t)" for xs t
    by (rule rel_fold, rule rel_local) (auto simp: svc_enqueue_def Let_def split: prod.split)
  ultimately have "rel s (fold (\<lambda>(workload, owner). svc_enqueue workload owner) xs (snd (take_restarts s)))" for xs
    by (rule rel_trans)
  then show ?thesis by (simp add: queue_restarts_def case_prod_beta rel_persisted)
qed

subsection \<open>Registration\<close>

lemma rel_or_mismatch: "rel s (fst m) \<Longrightarrow> (\<And>t. rel t (fst (k t))) \<Longrightarrow> rel s (fst (or_mismatch machine m k))"
  by (cases "(machine, m, k)" rule: or_mismatch.cases)
    (auto intro: rel_trans intro!: rel_then rel_refl rel_trans [OF _ rel_mark_inventory_mismatch])

lemma rel_preflights:
  "rel s (fst (preflight_fact_writers machine devices s))" "rel s (fst (preflight_claim_contracts machine devices s))"
  "rel s (fst (reconcile_fact_writers machine devices s))" "rel s (fst (reconcile_claim_contracts machine devices s))"
  unfolding preflight_fact_writers_def preflight_claim_contracts_def reconcile_fact_writers_def reconcile_claim_contracts_def
  by (intro rel_then rel_from_result; simp add: rel_refl rel_commit)+

lemma rel_reconcile_device_subtree: "rel s (fst (reconcile_device_subtree json machine devices s))"
proof -
  have withdraw: "rel t (fst (withdraw_node n t))" for n t by (simp add: withdraw_node_def rel_refl rel_commit)
  have return: "rel t (fst (return_node n t))" for n t
    unfolding return_node_def Let_def by (rule rel_then) (simp_all add: rel_refl rel_commit)
  have commit: "rel t (fst (if b then service_commit command t else (t, Done ())))" for b command t by (simp add: rel_refl rel_commit)
  show ?thesis
    unfolding reconcile_device_subtree_def Let_def
    by (intro rel_then rel_from_result commit rel_each withdraw rel_commit return)
qed

lemma rel_join_agent: "rel s (fst (join_agent machine new_machine capabilities s))"
proof -
  have desk: "rel s (fst (if recovering then (forget_status machine (s2\<lparr>s_recovering_machines := R\<rparr>), Done ())
      else if b then service_commit command (commit_lenient command' s2) else (s2, Done ())))"
    if "s_cluster s2 = s_cluster s" "s_durable_sink s2 = s_durable_sink s" for s2 recovering R b command command'
    using that by (auto simp: forget_status_def intro: rel_local rel_before [OF rel_trans [OF rel_lenient rel_commit]])
  have enumerate: "rel t (fst (pump (if recovering then request_enumeration machine t else t)))" for t recovering
    by (rule rel_then_pump) (auto simp: request_enumeration_def Let_def intro: rel_refl rel_quiet split: option.split)
  show ?thesis
    unfolding join_agent_def Let_def
    by (intro rel_then enumerate rel_commit desk) (simp_all add: rel_refl)
qed

lemma rel_register_agent_with_capabilities: "rel s (fst (register_agent_with_capabilities json d capabilities s))"
proof -
  have readmit: "rel t (fst (readmit_machine json d machine t))" for machine t
    unfolding readmit_machine_def
    by (intro rel_or_mismatch rel_from_result rel_preflights rel_reconcile_device_subtree) (simp add: rel_refl)
  have admit: "rel t (fst (admit_machine json d t))" for t
    by (auto simp: admit_machine_def intro!: rel_refl rel_then rel_commit split: option.split prod.split)
  show ?thesis
    unfolding register_agent_with_capabilities_def
    by (intro rel_then rel_from_result) (auto intro: readmit admit rel_join_agent split: option.split prod.split)
qed

lemma rel_register_agent: "rel s (fst (register_agent rd json d reply s))"
  unfolding register_agent_def by (intro rel_then rel_from_result rel_register_agent_with_capabilities)

lemma rel_register_remote: "rel s (fst (register_remote rd json welcome capabilities s))"
  unfolding register_remote_def by (intro rel_then rel_from_result) (simp add: rel_refl rel_register_agent)

end

section \<open>The queue and the pump\<close>

definition same_queue :: "node_service \<Rightarrow> node_service \<Rightarrow> bool" where
  "same_queue s t \<longleftrightarrow> s_queue t = s_queue s"

interpretation queue: pump_relation same_queue
proof
  show "same_queue s (fst (service_commit command s))" for s command
    by (auto simp: same_queue_def service_commit_def persist_def Let_def split: prod.splits result.splits option.splits)
qed (auto simp: same_queue_def quiet_def)

lemma and_svc_Done: "and_svc m k = (t, Done x) \<longleftrightarrow> (\<exists>s y. m = (s, Done y) \<and> k s y = (t, Done x))"
  by (cases "(m, k)" rule: and_svc.cases) auto

lemma open_admitted_shrinks:
  assumes "open_admitted adm s = (t, Done lease)"
  shows "length (s_queue t) < length (s_queue s)"
proof -
  have kept: "s_queue u = s_queue v" if "service_commit command v = (u, r)" for command u v r
    using queue.rel_commit [of v command] that by (simp add: same_queue_def)
  show ?thesis
    using assms kept
    by (fastforce simp: open_admitted_def Let_def dest: position_less split: option.splits prod.splits answer.splits)
qed

text \<open>Every admission takes one request out of the queue.\<close>

lemma admit_one_shrinks:
  assumes "admit_one s = (t, Done (Some request))"
  shows "length (s_queue t) < length (s_queue s)"
proof -
  obtain adm where adm: "cluster_admit_backfill_with_policy (s_cluster s) (s_queue s) (ceiling_policy btree_empty) (execution_exclusions s) = Some adm"
    using assms by (auto simp: admit_one_def admit_one_with_policy_def split: option.splits)
  obtain s1 lease s2 s3 where run: "open_admitted adm s = (s1, Done lease)" "open_enforced_bindings lease s1 = (s2, Done ())"
      "pump s2 = (s3, Done ())" "t = maybe_activate lease s3"
    using assms adm
    by (auto simp: admit_one_def admit_one_with_policy_def and_svc_Done elim!: from_result.elims split: option.splits)
  have "same_queue s1 t"
    using queue.rel_open_enforced_bindings [of s1 lease] queue.rel_pump [of s2] queue.rel_maybe_activate [of s3 lease] run
    by (auto simp: same_queue_def)
  moreover have "length (s_queue s1) < length (s_queue s)"
    using run(1) by (rule open_admitted_shrinks)
  ultimately show ?thesis by (simp add: same_queue_def)
qed

section \<open>The journal\<close>

text \<open>What a cluster accepted during a sequence of events.\<close>

fun accepted :: "event list \<Rightarrow> cluster \<Rightarrow> command list" where
  "accepted [] c = []"
| "accepted (e # es) c =
     (case e of
        EvApply command \<Rightarrow> if is_ok (snd (cluster_apply c command)) then [command] else []
      | _ \<Rightarrow> []) @ accepted es (step_event e c)"

lemma accepted_append: "accepted (es @ es') c = accepted es c @ accepted es' (fold step_event es c)"
  by (induction es arbitrary: c) simp_all

text \<open>An operation is a sequence of commands and clock readings of the cluster, and the durable sink is told every accepted command.\<close>

fun controller_event :: "event \<Rightarrow> bool" where
  "controller_event (EvApply command) = True"
| "controller_event (EvNow now) = True"
| "controller_event _ = False"

definition journals :: "node_service \<Rightarrow> node_service \<Rightarrow> bool" where
  "journals s t \<longleftrightarrow> (\<exists>es new. list_all controller_event es \<and> s_cluster t = fold step_event es (s_cluster s) \<and>
     s_durable_sink t = map_option (\<lambda>calls. calls @ new) (s_durable_sink s) \<and>
     List.map_filter fst new = accepted es (s_cluster s))"

lemma journals_local: "s_cluster t = s_cluster s \<Longrightarrow> s_durable_sink t = s_durable_sink s \<Longrightarrow> journals s t"
  unfolding journals_def by (intro exI [of _ "[]"]) (simp add: map_filter_def option.map_ident)

lemma journals_trans: "journals s t \<Longrightarrow> journals t u \<Longrightarrow> journals s u"
proof -
  assume "journals s t" "journals t u"
  then obtain es new es' new' where "list_all controller_event es" "s_cluster t = fold step_event es (s_cluster s)"
      "s_durable_sink t = map_option (\<lambda>calls. calls @ new) (s_durable_sink s)" "List.map_filter fst new = accepted es (s_cluster s)"
      "list_all controller_event es'" "s_cluster u = fold step_event es' (s_cluster t)"
      "s_durable_sink u = map_option (\<lambda>calls. calls @ new') (s_durable_sink t)" "List.map_filter fst new' = accepted es' (s_cluster t)"
    unfolding journals_def by blast
  then show ?thesis
    unfolding journals_def
    by (intro exI [of _ "es @ es'"] exI [of _ "new @ new'"])
      (simp add: accepted_append map_filter_def option.map_comp comp_def)
qed

lemma journals_commit: "journals s (fst (service_commit command s))"
proof -
  obtain c r where out: "cluster_apply (s_cluster s) command = (c, r)" by (cases "cluster_apply (s_cluster s) command")
  show ?thesis
  proof (cases r)
    case (Ok effects)
    then show ?thesis
      unfolding journals_def
      by (intro exI [of _ "[EvApply command]"] exI [of _ "[(Some command, state_snapshot s)]"])
        (simp add: out service_commit_def Let_def persist_def state_snapshot_def map_filter_def split: option.split)
  next
    case (Err e)
    then show ?thesis
      unfolding journals_def
      by (intro exI [of _ "[EvApply command]"] exI [of _ "[]"])
        (simp add: out service_commit_def map_filter_def option.map_ident)
  qed
qed

interpretation journal: service_relation journals
proof
  show "journals s t \<Longrightarrow> journals t u \<Longrightarrow> journals s u" for s t u by (rule journals_trans)
  show "journals s (fst (service_commit command s))" for s command by (rule journals_commit)
  show "s_cluster t = s_cluster s \<Longrightarrow> s_durable_sink t = s_durable_sink s \<Longrightarrow> journals s t" for s t by (rule journals_local)
  show "journals s (persist None s)" for s
    unfolding journals_def
    by (intro exI [of _ "[]"] exI [of _ "[(None, state_snapshot s)]"]) (auto simp: persist_def map_filter_def split: option.split)
  show "journals s (s\<lparr>s_cluster := set_now (s_cluster s) now\<rparr>)" for s now
    unfolding journals_def by (intro exI [of _ "[EvNow now]"] exI [of _ "[]"]) (simp add: map_filter_def option.map_ident)
qed (auto intro: journals_local simp: quiet_def)

end
