(* ===== verification/Control_Plane.thy ===== *)
theory Control_Plane
  imports Control_Log Service_Journal
begin

text \<open>
  The control plane (\<^verbatim>\<open>crates/control/src/server.rs\<close>, the messages of \<^verbatim>\<open>api.rs\<close>): boot from a snapshot and a journal, the sink that
  writes the journal, compaction, periodic maintenance, and the requests of clients. The two files are their bytes
  (\<open>disk\<close>). What comes from outside is an argument: the encodings, the clock, the answers of agents, the logs
  of processes. Sockets, the handshake, the lock of the plane and its threads are left out: operations on the plane
  exclude each other in the code, so a run is a sequence of them. Errors of the file system stop the process
  or leave the files as they are and are left out too.
\<close>

section \<open>State\<close>

record snapshot_envelope =
  sn_version :: u32
  sn_sequence :: u64
  sn_cluster :: cluster
  sn_state :: service_state

record plane_environment =
  pe_journal :: journal_codec
  pe_write_snapshot :: "snapshot_envelope \<Rightarrow> bytes"
  pe_read_snapshot :: "bytes \<Rightarrow> (snapshot_envelope, string) result"
  pe_rendering :: rendering
  pe_json :: "string list \<Rightarrow> string"

record disk =
  dk_journal :: bytes
  dk_snapshot :: "bytes option"

text \<open>\<open>cp_last_state\<close> belongs to the sink; the path of the log and the token of the links are not needed.\<close>

record control_plane =
  cp_service :: node_service
  cp_disk :: disk
  cp_sequence :: u64
  cp_compact_every :: u64
  cp_compacted_sequence :: u64
  cp_last_state :: bytes

section \<open>Recovery\<close>

record recovered =
  rv_service :: node_service
  rv_sequence :: u64

definition load_snapshot :: "plane_environment \<Rightarrow> bytes option \<Rightarrow> (recovered \<times> bool, string) result" where
  "load_snapshot env snapshot =
     (case snapshot of
        None \<Rightarrow> Ok (\<lparr>rv_service = service_new, rv_sequence = 0\<rparr>, False)
      | Some content \<Rightarrow>
          (case pe_read_snapshot env content of
             Err e \<Rightarrow> Err e
           | Ok envelope \<Rightarrow>
               if sn_version envelope \<noteq> 1 \<and> sn_version envelope \<noteq> 2
               then Err (''unsupported snapshot version '' @ show_nat (unat (sn_version envelope)))
               else Ok (\<lparr>rv_service = restore (sn_cluster envelope) (sn_state envelope) service_new,
                         rv_sequence = sn_sequence envelope\<rparr>, sn_version envelope = 2)))"

definition replay_command :: "command \<Rightarrow> recovered \<Rightarrow> (recovered, string) result" where
  "replay_command command rv =
     (case service_replay [command] (rv_service rv) of
        (s, Done _) \<Rightarrow> Ok (rv\<lparr>rv_service := s\<rparr>)
      | (s, Raise e) \<Rightarrow> Err (display_error e)
      | (s, Panic) \<Rightarrow> Err [])"

definition opens_work :: "command \<Rightarrow> bool" where
  "opens_work command =
     (case command of
        OpenLease lease owner alloc parent expires_at prepare_deadline priority \<Rightarrow> True
      | ReserveLease lease owner alloc expires_at priority \<Rightarrow> True
      | _ \<Rightarrow> False)"

text \<open>One entry of the journal; \<open>compacted\<close> is the sequence of the snapshot.\<close>

fun recover_entry :: "bool \<Rightarrow> bool \<Rightarrow> u64 \<Rightarrow> log_record \<Rightarrow> recovered \<Rightarrow> (recovered, string) result" where
  "recover_entry restored sequenced compacted (Legacy command) rv =
     (if sequenced then Ok rv
      else if rv_sequence rv \<noteq> 0 then Err ''legacy command after sequenced controller state''
      else if restored \<and> opens_work command
      then Err (''cannot recover legacy workload lineage: lease admission after '' @
             ''a version-1 snapshot requires operator reconciliation'')
      else replay_command command rv)"
| "recover_entry restored sequenced compacted (Controller entry) rv =
     (if jr_sequence entry \<le> compacted then Ok rv
      else if rv_sequence rv = - 1 then Err ''journal sequence exhausted''
      else if jr_sequence entry \<noteq> rv_sequence rv + 1 then Err ''non-contiguous controller journal''
      else and_then (case jr_command entry of None \<Rightarrow> Ok rv | Some command \<Rightarrow> replay_command command rv) (\<lambda>rv.
        Ok \<lparr>rv_service = restore_state (jr_state entry) (rv_service rv), rv_sequence = jr_sequence entry\<rparr>))"

text \<open>The disk it leaves (without a torn tail), the controller, its sequence and the sequence of the snapshot.\<close>

definition recover :: "plane_environment \<Rightarrow> disk \<Rightarrow> disk \<times> (recovered \<times> u64, string) result" where
  "recover env disk =
     (case load_snapshot env (dk_snapshot disk) of
        Err e \<Rightarrow> (disk, Err e)
      | Ok (rv, sequenced) \<Rightarrow>
          (case read_records (pe_journal env) (dk_journal disk) of
             (journal, Err e) \<Rightarrow> (disk\<lparr>dk_journal := journal\<rparr>, Err e)
           | (journal, Ok records) \<Rightarrow>
               (disk\<lparr>dk_journal := journal\<rparr>,
                and_then (try_fold (recover_entry (dk_snapshot disk \<noteq> None) sequenced (rv_sequence rv)) records rv)
                  (\<lambda>rv'. Ok (rv', rv_sequence rv)))))"

section \<open>The sink\<close>

text \<open>
  The sink is called for every accepted command and for every persisted state. Writing the calls of an operation at its end gives the file that
  the calls give one by one. \<open>None\<close>: the sequence is exhausted and the process panics.
\<close>

definition sink_call :: "plane_environment \<Rightarrow> command option \<times> service_state \<Rightarrow> control_plane \<Rightarrow> control_plane option" where
  "sink_call env = (\<lambda>(command, state) p.
     (let encoded_state = jc_state (pe_journal env) state
      in if command = None \<and> encoded_state = cp_last_state p then Some p
         else if cp_sequence p = - 1 then None
         else
           let sequence = cp_sequence p + 1;
               entry = \<lparr>jr_sequence = sequence, jr_command = command, jr_state = state\<rparr>
           in Some (p\<lparr>cp_disk := (cp_disk p)\<lparr>dk_journal := append_record (pe_journal env) entry (dk_journal (cp_disk p))\<rparr>,
                      cp_last_state := encoded_state, cp_sequence := sequence\<rparr>)))"

fun sink_calls :: "plane_environment \<Rightarrow> (command option \<times> service_state) list \<Rightarrow> control_plane \<Rightarrow> control_plane option" where
  "sink_calls env [] p = Some p"
| "sink_calls env (call # calls) p = Option.bind (sink_call env call p) (sink_calls env calls)"

definition durable_calls :: "node_service \<Rightarrow> (command option \<times> service_state) list" where
  "durable_calls s = (case s_durable_sink s of None \<Rightarrow> [] | Some calls \<Rightarrow> calls)"

text \<open>An operation of the controller inside the plane.\<close>

definition through_sink ::
    "plane_environment \<Rightarrow> (node_service \<Rightarrow> 'a in_service) \<Rightarrow> control_plane \<Rightarrow> (control_plane \<times> 'a answer) option" where
  "through_sink env f p =
     (case f (cp_service p) of
        (s, r) \<Rightarrow>
          map_option (\<lambda>p'. (p'\<lparr>cp_service := set_durable_sink (Some []) s\<rparr>, r)) (sink_calls env (durable_calls s) p))"

section \<open>Boot\<close>

text \<open>How the plane reaches its first agent: what was discovered and what the agent answers.\<close>

datatype (plugins only: code size) agent_link =
    LinkLocal "(machine_description, string) result" agent_reply
  | LinkRemote agent_reply agent_reply
  | LinkNone

definition register_local ::
    "rendering \<Rightarrow> (string list \<Rightarrow> string) \<Rightarrow> (machine_description, string) result \<Rightarrow> agent_reply \<Rightarrow> node_service \<Rightarrow> node_id in_service" where
  "register_local rd json described capabilities s =
     (case described of
        Err reason \<Rightarrow> (s, Raise (Refused (''local device discovery incomplete: '' @ reason)))
      | Ok d \<Rightarrow> register_agent rd json d capabilities s)"

definition register_link :: "plane_environment \<Rightarrow> agent_link \<Rightarrow> node_service \<Rightarrow> unit in_service" where
  "register_link env link s =
     (case link of
        LinkLocal described capabilities \<Rightarrow>
          and_svc (register_local (pe_rendering env) (pe_json env) described capabilities s) (\<lambda>s _. (s, Done ()))
      | LinkRemote welcome capabilities \<Rightarrow>
          and_svc (register_remote (pe_rendering env) (pe_json env) welcome capabilities s) (\<lambda>s _. (s, Done ()))
      | LinkNone \<Rightarrow> (s, Done ()))"

text \<open>The plane before its first agent registers.\<close>

definition recovered_plane :: "u64 \<Rightarrow> disk \<Rightarrow> recovered \<Rightarrow> u64 \<Rightarrow> control_plane" where
  "recovered_plane compact_every disk rv compacted =
     \<lparr>cp_service = set_durable_sink (Some []) (rv_service rv), cp_disk = disk, cp_sequence = rv_sequence rv,
      cp_compact_every = compact_every, cp_compacted_sequence = compacted, cp_last_state = []\<rparr>"

definition boot :: "plane_environment \<Rightarrow> agent_link \<Rightarrow> u64 \<Rightarrow> disk \<Rightarrow> (disk \<times> (control_plane, string) result) option" where
  "boot env link compact_every disk =
     (case recover env disk of
        (disk', Err e) \<Rightarrow> Some (disk', Err e)
      | (disk', Ok (rv, compacted)) \<Rightarrow>
          (case through_sink env (register_link env link) (recovered_plane compact_every disk' rv compacted) of
             None \<Rightarrow> None
           | Some (p, Done _) \<Rightarrow> Some (cp_disk p, Ok p)
           | Some (p, Raise e) \<Rightarrow> Some (cp_disk p, Err (display_error e))
           | Some (p, Panic) \<Rightarrow> None))"

section \<open>Compaction\<close>

text \<open>Serialisation leaves out the history and the flag of a replay.\<close>

definition stored_cluster :: "cluster \<Rightarrow> cluster" where
  "stored_cluster c = c\<lparr>k_log := [], k_replaying := False\<rparr>"

definition snapshot_of :: "control_plane \<Rightarrow> snapshot_envelope" where
  "snapshot_of p =
     \<lparr>sn_version = 2, sn_sequence = cp_sequence p, sn_cluster = stored_cluster (s_cluster (cp_service p)),
      sn_state = state_snapshot (cp_service p)\<rparr>"

text \<open>The disk after the new snapshot took the place of the old one, and before the journal is truncated.\<close>

definition renamed :: "plane_environment \<Rightarrow> control_plane \<Rightarrow> disk" where
  "renamed env p = (cp_disk p)\<lparr>dk_snapshot := Some (pe_write_snapshot env (snapshot_of p))\<rparr>"

definition compact :: "plane_environment \<Rightarrow> control_plane \<Rightarrow> control_plane" where
  "compact env p =
     p\<lparr>cp_disk := (renamed env p)\<lparr>dk_journal := truncate_log (dk_journal (renamed env p))\<rparr>,
       cp_service := clear_history (cp_service p), cp_compacted_sequence := sn_sequence (snapshot_of p)\<rparr>"

end
