(* ===== verification/Control_Requests.thy ===== *)
theory Control_Requests
  imports Control_Plane
begin

text \<open>
  What the control plane does for its clients and on its timer (\<^verbatim>\<open>crates/control/src/server.rs\<close>, \<^verbatim>\<open>api.rs\<close>): maintenance, submission
  of workloads and groups, scaling, status, revocation and logs. Each operation is one on the controller, which
  \<open>through_sink\<close> puts into the plane; its errors are responses.
\<close>

section \<open>Messages\<close>

record workload_wire =
  wr_cpus :: u64
  wr_memory_mib :: u64
  wr_lifetime_secs :: u64
  wr_command :: "string list"
  wr_volumes :: "string list"
  wr_ports :: "string list"
  wr_grace_secs :: u32
  wr_image :: "string option"
  wr_gpus :: u64

record submit_spec =
  su_owner :: u64
  su_keep_alive :: bool
  su_wire :: workload_wire

record service_spec =
  sv_id :: string
  sv_owner :: u64
  sv_desired :: u32
  sv_max :: "u32 option"
  sv_min :: "u32 option"
  sv_per_machine :: bool
  sv_wire :: workload_wire

datatype (plugins only: code size) client_request =
    CqSubmit submit_spec
  | CqSubmitService service_spec
  | CqScaleService string u32
  | CqStatus
  | CqRevoke u64
  | CqLogs u64

record lease_info =
  li_id :: u64
  li_owner :: u64
  li_state :: string
  li_expires_at :: u64
  li_exit_code :: "int option"
  li_command :: "string list"

datatype (plugins only: code size) server_response =
    SrSubmitted u64 u64
  | SrServiceRegistered string u32
  | SrScaled string u32
  | SrStatus nat "lease_info list"
  | SrRevoked
  | SrLogs u64 string
  | SrError string

section \<open>Compiling a workload\<close>

definition parse_u16 :: "string \<Rightarrow> u16 option" where
  "parse_u16 s =
     (let digits = (case s of c # rest \<Rightarrow> if c = CHR ''+'' then rest else s | [] \<Rightarrow> s) in
      if digits = [] \<or> \<not> list_all is_digit digits \<or> 2 ^ 16 \<le> digits_value digits then None
      else Some (of_nat (digits_value digits)))"

definition parse_volume :: "string \<Rightarrow> (storage_mount, string) result" where
  "parse_volume spec =
     (case split_once CHR '':'' spec of
        None \<Rightarrow> Err ''invalid volume spec (expected host_path:mount_path)''
      | Some (host_path, mount_path) \<Rightarrow>
          if host_path = [] \<or> mount_path = [] then Err ''invalid volume spec (expected host_path:mount_path)''
          else Ok \<lparr>sm_host_path = host_path, sm_mount_path = mount_path\<rparr>)"

definition invalid_port :: string where
  "invalid_port = ''invalid port spec (expected [host:]container)''"

definition parse_port :: "string \<Rightarrow> (port_publish, string) result" where
  "parse_port spec =
     (case split_once CHR '':'' spec of
        Some (host, container) \<Rightarrow>
          (case parse_u16 container of
             None \<Rightarrow> Err invalid_port
           | Some container_port \<Rightarrow>
               (case parse_u16 host of
                  None \<Rightarrow> Err invalid_port
                | Some host_port \<Rightarrow> Ok \<lparr>pp_container_port = container_port, pp_host_port = Some host_port\<rparr>))
      | None \<Rightarrow>
          (case parse_u16 spec of
             None \<Rightarrow> Err invalid_port
           | Some container_port \<Rightarrow> Ok \<lparr>pp_container_port = container_port, pp_host_port = None\<rparr>))"

definition workload_needs :: "workload_wire \<Rightarrow> (need list, string) result" where
  "workload_needs wire =
     (let cpu = \<lparr>nd_kind = Cpu, nd_quantity = qty Count (max (wr_cpus wire) 1), nd_filters = []\<rparr>;
          gpu = (if wr_gpus wire > 0 then [\<lparr>nd_kind = Gpu, nd_quantity = qty Count (wr_gpus wire), nd_filters = []\<rparr>] else [])
      in if wr_memory_mib wire > 0 then
           if uint (wr_memory_mib wire) * 2 ^ 20 < 2 ^ 64
           then Ok (cpu # \<lparr>nd_kind = Memory, nd_quantity = qty Bytes (wr_memory_mib wire * 2 ^ 20), nd_filters = []\<rparr> # gpu)
           else Err ''memory_mib overflows''
         else Ok (cpu # gpu))"

definition compile_workload :: "request_id \<Rightarrow> workload_wire \<Rightarrow> (workload_spec, string) result" where
  "compile_workload i wire =
     (if wr_command wire = [] \<and> wr_image wire = None then Err ''empty command''
      else
        and_then (workload_needs wire) (\<lambda>needs.
        and_then (try_map parse_volume (wr_volumes wire)) (\<lambda>storage.
        and_then (try_map parse_port (wr_ports wire)) (\<lambda>ports.
          if wr_image wire = None \<and> (storage \<noteq> [] \<or> ports \<noteq> [])
          then Err ''volumes and published ports need an OCI image (--image)''
          else Ok
            \<lparr>ws_resources = \<lparr>r_id = i, r_class = Batch, r_needs = needs, r_topology = [], r_preferences = [], r_data = [],
               r_lifetime = max (wr_lifetime_secs wire) 1, r_priority = 1, r_machine_local = True\<rparr>,
             ws_execution = \<lparr>ex_command = wr_command wire, ex_image = wr_image wire, ex_storage = storage, ex_ports = ports,
               ex_grace_secs = wr_grace_secs wire\<rparr>,
             ws_keep_alive = False\<rparr>))))"

section \<open>Admission\<close>

text \<open>\<^verbatim>\<open>.ok()\<close> and the arms that only print an error.\<close>

fun ignore_error :: "'a in_service \<Rightarrow> unit in_service" where
  "ignore_error (s, Done x) = (s, Done ())"
| "ignore_error (s, Raise e) = (s, Done ())"
| "ignore_error (s, Panic) = (s, Panic)"

text \<open>The queue is drained until nothing more places.\<close>

function admit_all :: "node_service \<Rightarrow> unit in_service" where
  "admit_all s =
     (case admit_one s of
        (s', Done (Some request)) \<Rightarrow> admit_all s'
      | (s', Done None) \<Rightarrow> (s', Done ())
      | (s', Raise e) \<Rightarrow> (s', Done ())
      | (s', Panic) \<Rightarrow> (s', Panic))"
  by pat_completeness auto

termination
  by (relation "measure (\<lambda>s. length (s_queue s))") (auto dest: admit_one_shrinks [OF sym])

declare admit_all.simps [simp del]

text \<open>One attempt per new request; which one is admitted makes no difference to the loop.\<close>

definition admit_each :: "request_id list \<Rightarrow> node_service \<Rightarrow> unit in_service" where
  "admit_each requests = each_svc (\<lambda>_ s. ignore_error (admit_one s)) requests"

section \<open>Maintenance\<close>

definition maintain_service :: "rendering \<Rightarrow> u64 \<Rightarrow> node_service \<Rightarrow> unit in_service" where
  "maintain_service rd now s =
     and_svc (ignore_error (service_tick now s)) (\<lambda>s _.
     and_svc (ignore_error (collect_completions rd s)) (\<lambda>s _.
     and_svc (admit_all s) (\<lambda>s _.
       let (s, unreachable) = take_unreachable s
       in and_svc (each_svc (\<lambda>machine s. ignore_error (mark_machine_unhealthy machine s)) unreachable s) (\<lambda>s _.
            let (restarts, s) = queue_restarts (probe_agents s)
            in and_svc (admit_each restarts s) (\<lambda>s _.
               and_svc (reconcile_service_groups s) (\<lambda>s members. admit_each members s))))))"

definition maintain :: "plane_environment \<Rightarrow> u64 \<Rightarrow> control_plane \<Rightarrow> (control_plane \<times> unit answer) option" where
  "maintain env now p =
     (case through_sink env (maintain_service (pe_rendering env) now) p of
        Some (p', Done _) \<Rightarrow>
          Some (if cp_compact_every p' > 0 \<and> cp_sequence p' - cp_compacted_sequence p' \<ge> cp_compact_every p'
                then compact env p' else p', Done ())
      | out \<Rightarrow> out)"

text \<open>\<^verbatim>\<open>drive\<close> without waiting makes one round.\<close>

definition advance_service :: "rendering \<Rightarrow> node_service \<Rightarrow> unit in_service" where
  "advance_service rd s = ignore_error (drive rd [] s)"

definition plane_settled :: "control_plane \<Rightarrow> bool" where
  "plane_settled p = is_quiescent (cp_service p)"

section \<open>Requests\<close>

definition lease_of_request :: "node_service \<Rightarrow> u64" where
  "lease_of_request s = fold max (btree_keys (k_leases (s_cluster s))) 0"

definition submit_request :: "submit_spec \<Rightarrow> node_service \<Rightarrow> server_response in_service" where
  "submit_request spec s =
     (if wr_command (su_wire spec) = [] then (s, Done (SrError ''empty command''))
      else
        let i = s_next_request_id s
        in case compile_workload i (su_wire spec) of
             Err reason \<Rightarrow> (s, Done (SrError reason))
           | Ok workload \<Rightarrow>
               (case admit_one (submit (workload\<lparr>ws_keep_alive := su_keep_alive spec\<rparr>) (su_owner spec) s) of
                  (s', Done (Some admitted)) \<Rightarrow> (s', Done (SrSubmitted i (lease_of_request s')))
                | (s', Done None) \<Rightarrow> (s', Done (SrSubmitted i 0))
                | (s', Raise e) \<Rightarrow> (s', Done (SrError (display_error e)))
                | (s', Panic) \<Rightarrow> (s', Panic)))"

definition service_cardinality :: "service_spec \<Rightarrow> cardinality" where
  "service_cardinality spec =
     (if sv_per_machine spec then PerMachine
      else case (sv_min spec, sv_max spec) of
        (Some low, Some high) \<Rightarrow> Elastic (unat low) (unat (sv_desired spec)) (unat high)
      | _ \<Rightarrow> Fixed (unat (sv_desired spec)))"

definition submit_service :: "service_spec \<Rightarrow> node_service \<Rightarrow> server_response in_service" where
  "submit_service spec s =
     (let cardinality = service_cardinality spec
      in case cardinality_validate cardinality of
           Err reason \<Rightarrow> (s, Done (SrError reason))
         | Ok _ \<Rightarrow>
             (case compile_workload 0 (sv_wire spec) of
                Err reason \<Rightarrow> (s, Done (SrError reason))
              | Ok template \<Rightarrow>
                  (case register_service_group
                          \<lparr>sg_id = sv_id spec, sg_owner = sv_owner spec, sg_cardinality = cardinality, sg_template = template\<rparr> s of
                     (s', Err reason) \<Rightarrow> (s', Done (SrError reason))
                   | (s', Ok _) \<Rightarrow>
                       and_svc (reconcile_service_groups s') (\<lambda>s members.
                       and_svc (admit_each members s) (\<lambda>s _.
                         (s, Done (SrServiceRegistered (sv_id spec) (if cardinality = PerMachine then 0 else sv_desired spec))))))))"

definition scale_service :: "string \<Rightarrow> u32 \<Rightarrow> node_service \<Rightarrow> server_response in_service" where
  "scale_service i target s =
     (case scale_service_group i (unat target) s of
        (s', Err reason) \<Rightarrow> (s', Done (SrError reason))
      | (s', Ok applied) \<Rightarrow>
          and_svc (reconcile_service_groups s') (\<lambda>s members.
          and_svc (admit_each members s) (\<lambda>s _. (s, Done (SrScaled i (word_of_nat applied))))))"

definition status_response :: "node_service \<Rightarrow> server_response" where
  "status_response s =
     SrStatus (length (s_queue s))
       (map (\<lambda>l. \<lparr>li_id = l_id l, li_owner = l_owner l, li_state = debug_lease_state (l_state l), li_expires_at = l_expires_at l,
              li_exit_code = l_exit_code l, li_command = (case lease_command_of s (l_id l) of None \<Rightarrow> [] | Some command \<Rightarrow> command)\<rparr>)
         (btree_values (k_leases (s_cluster s))))"

definition revoke_request :: "u64 \<Rightarrow> node_service \<Rightarrow> server_response in_service" where
  "revoke_request lease s =
     (case revoke lease s of
        (s', Done _) \<Rightarrow> (s', Done SrRevoked)
      | (s', Raise e) \<Rightarrow> (s', Done (SrError (display_error e)))
      | (s', Panic) \<Rightarrow> (s', Panic))"

text \<open>The answer of the agent, \<open>None\<close> when none came in time.\<close>

definition logs_reply_to_response :: "rendering \<Rightarrow> u64 \<Rightarrow> agent_reply option \<Rightarrow> server_response" where
  "logs_reply_to_response rd lease reply =
     (case reply of
        Some (Ok (RsLogs _ output)) \<Rightarrow> SrLogs lease output
      | Some (Ok other) \<Rightarrow> SrError (''expected Logs, got '' @ rd_debug rd other)
      | Some (Err reason) \<Rightarrow> SrError reason
      | None \<Rightarrow> SrError ''timed out waiting for agent logs'')"

definition lease_logs :: "rendering \<Rightarrow> agent_reply option \<Rightarrow> (u64 \<Rightarrow> string) \<Rightarrow> lease_id \<Rightarrow> node_service \<Rightarrow> string in_service" where
  "lease_logs rd reply read_log lease s =
     (case request_logs lease s of
        (s', False) \<Rightarrow> (s', Done (read_log lease))
      | (s', True) \<Rightarrow>
          (s', case reply of
             Some (Ok (RsLogs _ output)) \<Rightarrow> Done output
           | Some (Ok other) \<Rightarrow> Raise (Refused (''expected Logs, got '' @ rd_debug rd other))
           | Some (Err reason) \<Rightarrow> Raise (Refused reason)
           | None \<Rightarrow> Raise (Refused ''timed out waiting for agent logs'')))"

definition logs_request :: "rendering \<Rightarrow> agent_reply option \<Rightarrow> (u64 \<Rightarrow> string) \<Rightarrow> u64 \<Rightarrow> node_service \<Rightarrow> server_response in_service" where
  "logs_request rd reply read_log lease s =
     (case request_logs lease s of
        (s', True) \<Rightarrow> (s', Done (logs_reply_to_response rd lease reply))
      | (s', False) \<Rightarrow>
          (case lease_logs rd reply read_log lease s' of
             (s'', Done output) \<Rightarrow> (s'', Done (SrLogs lease output))
           | (s'', Raise e) \<Rightarrow> (s'', Done (SrError (display_error e)))
           | (s'', Panic) \<Rightarrow> (s'', Panic)))"

fun handle :: "rendering \<Rightarrow> agent_reply option \<Rightarrow> (u64 \<Rightarrow> string) \<Rightarrow> client_request \<Rightarrow> node_service \<Rightarrow> server_response in_service" where
  "handle rd reply read_log (CqSubmit spec) s = submit_request spec s"
| "handle rd reply read_log (CqSubmitService spec) s = submit_service (spec\<lparr>sv_wire := (sv_wire spec)\<lparr>wr_gpus := 0\<rparr>\<rparr>) s"
| "handle rd reply read_log (CqScaleService i target) s = scale_service i target s"
| "handle rd reply read_log CqStatus s = (s, Done (status_response s))"
| "handle rd reply read_log (CqRevoke lease) s = revoke_request lease s"
| "handle rd reply read_log (CqLogs lease) s = logs_request rd reply read_log lease s"

text \<open>The path of a connection: the lock is released while the agent answers.\<close>

definition logs_without_lock ::
    "rendering \<Rightarrow> agent_reply option \<Rightarrow> (u64 \<Rightarrow> string) \<Rightarrow> u64 \<Rightarrow> node_service \<Rightarrow> server_response in_service" where
  "logs_without_lock rd reply read_log lease s =
     (case request_logs lease s of
        (s', True) \<Rightarrow> (s', Done (logs_reply_to_response rd lease reply))
      | (s', False) \<Rightarrow> handle rd reply read_log (CqLogs lease) s')"

definition tick_and_handle ::
    "rendering \<Rightarrow> u64 \<Rightarrow> agent_reply option \<Rightarrow> (u64 \<Rightarrow> string) \<Rightarrow> client_request \<Rightarrow> node_service \<Rightarrow> server_response in_service" where
  "tick_and_handle rd now reply read_log request s =
     and_svc (ignore_error (service_tick now s)) (\<lambda>s _.
     and_svc (ignore_error (drive rd [] s)) (\<lambda>s _. handle rd reply read_log request s))"

definition register_dial_in ::
    "(string list \<Rightarrow> string) \<Rightarrow> machine_description \<Rightarrow> execution_capabilities \<Rightarrow> node_service \<Rightarrow> unit in_service" where
  "register_dial_in json d capabilities s =
     and_svc (register_agent_with_capabilities json d capabilities s) (\<lambda>s _. (s, Done ()))"

end
