(* ===== verification/Control_Recovery.thy ===== *)
theory Control_Recovery
  imports Control_Requests Service_Admission
begin

text \<open>
  Recovery of the control plane. \<open>stands\<close> says which cluster and which controller state the files of a plane hold. Every call of the sink moves
  the files along with the cluster (\<open>sink_calls_stands\<close>), since replay of an accepted command on a cluster of the same authority succeeds
  (\<open>replay_command_twin\<close>); compaction leaves what they hold. \<open>plane_run\<close> are the runs of a plane with operations, crashes and compactions,
  and \<open>run_inv\<close> is their invariant.
\<close>

section \<open>The twin of a cluster\<close>

definition same_authority :: "cluster \<Rightarrow> cluster \<Rightarrow> bool" where
  "same_authority a c \<longleftrightarrow>
     k_graph a = k_graph c \<and> k_leases a = k_leases c \<and> k_bindings a = k_bindings c \<and> k_sessions a = k_sessions c \<and>
     k_last_fence a = k_last_fence c \<and> k_node_states a = k_node_states c"

lemma authority_refl [simp]: "same_authority c c"
  by (simp add: same_authority_def)

lemma authority_trans: "same_authority a b \<Longrightarrow> same_authority b c \<Longrightarrow> same_authority a c"
  by (simp add: same_authority_def)

lemma authority_shadow [simp]: "same_authority (shadow e t lg c) c"
  by (simp add: same_authority_def)

text \<open>Clusters as the controller keeps them: sound, in agreement and outside a replay.\<close>

definition in_service :: "cluster \<Rightarrow> bool" where
  "in_service c \<longleftrightarrow> cluster_inv c \<and> k_agreed c \<and> \<not> k_replaying c"

lemma in_service_twin:
  "same_authority a c \<Longrightarrow> in_service c \<Longrightarrow> k_agreed a \<Longrightarrow> \<not> k_replaying a \<Longrightarrow> in_service a"
  using cluster_inv_cong [of a c] by (simp add: in_service_def same_authority_def)

lemma apply_keeps: "k_agreed (fst (cluster_apply c cmd)) = k_agreed c" "k_replaying (fst (cluster_apply c cmd)) = k_replaying c"
  using dispatch_keeps_log [of c cmd] by (auto simp: keeps_log_def cluster_apply_def split: prod.splits result.splits)

lemma apply_in_service: "in_service c \<Longrightarrow> in_service (fst (cluster_apply c cmd))"
proof -
  assume c: "in_service c"
  have "cluster_inv (step_event (EvApply cmd) c)"
    using c step_event_inv [of c "EvApply cmd"] by (simp add: in_service_def)
  with c show ?thesis by (simp add: in_service_def apply_keeps)
qed

lemma refused_apply: "in_service c \<Longrightarrow> \<not> is_ok (snd (cluster_apply c cmd)) \<Longrightarrow> fst (cluster_apply c cmd) = c"
  using dispatch_sound [of c cmd]
  by (auto simp: in_service_def sound_def cluster_apply_def split: prod.splits result.splits)

lemma set_replaying_twin:
  "same_authority a c \<Longrightarrow> k_agreed a \<Longrightarrow> set_replaying a True = shadow (k_epoch a) (k_now a) (k_log a) c"
  by (cases a; cases c) (simp add: same_authority_def set_replaying_def shadow_def)

text \<open>Replay of an accepted command on a twin succeeds and leaves a twin.\<close>

lemma replay_command_twin:
  assumes "cluster_apply c cmd = (c', Ok effects)" and "same_authority (s_cluster (rv_service rv)) c"
    and "k_agreed (s_cluster (rv_service rv))"
  obtains s where "replay_command cmd rv = Ok (rv\<lparr>rv_service := s\<rparr>)" and "same_authority (s_cluster s) c'"
    and "k_agreed (s_cluster s)" and "\<not> k_replaying (s_cluster s)"
proof -
  let ?s = "raise_watermarks cmd (set_service_replaying True (rv_service rv))"
  let ?a = "s_cluster (rv_service rv)"
  have cluster: "s_cluster ?s = shadow (k_epoch ?a) (k_now ?a) (k_log ?a) c"
    using set_replaying_twin [OF assms(2,3)]
    by (auto simp: raise_watermarks_def set_service_replaying_def split: command.split)
  obtain again where "cluster_apply (s_cluster ?s) cmd = (shadow (k_epoch ?a) (k_now ?a) (k_log ?a @ [cmd]) c', Ok again)"
    unfolding cluster using cluster_apply_follows [OF assms(1)] by blast
  then have "\<exists>s. service_commit cmd ?s = (s, Done ()) \<and> s_cluster s = shadow (k_epoch ?a) (k_now ?a) (k_log ?a @ [cmd]) c'"
    by (simp add: service_commit_def Let_def persist_def split: option.split)
  then obtain s where s: "service_commit cmd ?s = (s, Done ())" "s_cluster s = shadow (k_epoch ?a) (k_now ?a) (k_log ?a @ [cmd]) c'"
    by blast
  have "replay_command cmd rv = Ok (rv\<lparr>rv_service := (set_service_replaying False s)\<lparr>s_pending := []\<rparr>\<rparr>)"
    by (simp add: replay_command_def service_replay_def s)
  then show ?thesis
    by (rule that) (simp_all add: set_service_replaying_def set_replaying_def s same_authority_def)
qed

section \<open>What a cluster accepted\<close>

lemma step_in_service: "controller_event e \<Longrightarrow> in_service c \<Longrightarrow> in_service (step_event e c)"
  using apply_in_service cluster_inv_cong [of "set_now c t" c for t]
  by (cases e) (auto simp: in_service_def set_now_def)

lemma steps_in_service: "list_all controller_event es \<Longrightarrow> in_service c \<Longrightarrow> in_service (fold step_event es c)"
  by (induction es arbitrary: c) (auto intro: step_in_service)

text \<open>Without an accepted command nothing but the clock changes.\<close>

lemma silent_step:
  assumes "controller_event e" and "in_service c" and "\<And>cmd. e = EvApply cmd \<Longrightarrow> \<not> is_ok (snd (cluster_apply c cmd))"
  shows "same_authority (step_event e c) c"
  using assms refused_apply by (cases e) (auto simp: same_authority_def set_now_def)

lemma accepted_nothing:
  "list_all controller_event es \<Longrightarrow> in_service c \<Longrightarrow> accepted es c = [] \<Longrightarrow> same_authority (fold step_event es c) c"
proof (induction es arbitrary: c)
  case (Cons e es)
  then have "same_authority (step_event e c) c" by (intro silent_step) auto
  moreover have "same_authority (fold step_event es (step_event e c)) (step_event e c)"
    using Cons step_in_service by (intro Cons.IH) auto
  ultimately show ?case by (auto intro: authority_trans)
qed simp

lemma accepted_first:
  assumes "list_all controller_event es" and "in_service c" and "accepted es c = cmd # cmds"
  obtains m effects m' es' where "same_authority m c" and "in_service m" and "cluster_apply m cmd = (m', Ok effects)"
    and "list_all controller_event es'" and "accepted es' m' = cmds" and "fold step_event es c = fold step_event es' m'"
  using assms
proof (induction es arbitrary: c thesis)
  case (Cons e es)
  show ?case
  proof (cases "\<exists>x. e = EvApply x \<and> is_ok (snd (cluster_apply c x))")
    case True
    then obtain x m' effects where x: "e = EvApply x" "cluster_apply c x = (m', Ok effects)"
      by (auto simp: is_ok_iff) (metis prod.collapse)
    with Cons.prems have "x = cmd" "accepted es m' = cmds" by auto
    with x Cons.prems show ?thesis by (intro Cons.prems(1) [of c m' effects es]) auto
  next
    case False
    then have step: "same_authority (step_event e c) c" using Cons.prems by (intro silent_step) auto
    have "accepted es (step_event e c) = cmd # cmds" using False Cons.prems(4) by (auto split: event.splits)
    moreover have "list_all controller_event es" "in_service (step_event e c)"
      using Cons.prems step_in_service by auto
    ultimately obtain m effects m' es' where "same_authority m (step_event e c)" "in_service m"
        "cluster_apply m cmd = (m', Ok effects)" "list_all controller_event es'" "accepted es' m' = cmds"
        "fold step_event es (step_event e c) = fold step_event es' m'"
      using Cons.IH by blast
    then show ?thesis using step by (intro Cons.prems(1) [of m m' effects es']) (auto intro: authority_trans)
  qed
qed simp

text \<open>The first commands that were accepted are what a part of the events had accepted.\<close>

lemma accepted_take:
  assumes "list_all controller_event es"
  shows "\<exists>es'. list_all controller_event es' \<and> accepted es' c = take n (accepted es c)"
  using assms
proof (induction es arbitrary: c n)
  case (Cons e es)
  show ?case
  proof (cases n)
    case (Suc k)
    define here where "here = accepted [e] c"
    have split: "accepted (e # es) c = here @ accepted es (step_event e c)"
      by (simp add: here_def split: event.split)
    obtain es' where "list_all controller_event es'" "accepted es' (step_event e c) = take (n - length here) (accepted es (step_event e c))"
      using Cons by auto
    moreover have "length here \<le> n" using Suc by (auto simp: here_def split: event.split)
    ultimately show ?thesis
      unfolding split using Cons.prems by (intro exI [of _ "e # es'"]) (simp add: here_def split: event.split)
  qed (auto intro: exI [of _ "[]"])
qed (auto intro: exI [of _ "[]"])

section \<open>What the files hold\<close>

text \<open>
  The files of plane \<open>p\<close> stand for cluster \<open>c\<close> and controller state \<open>st\<close>: the snapshot loads, the journal is made of records that read
  back, and their replay ends in a twin of \<open>c\<close>, in \<open>st\<close> and in the sequence of the plane.
\<close>

definition stands :: "plane_environment \<Rightarrow> service_state \<Rightarrow> cluster \<Rightarrow> control_plane \<Rightarrow> bool" where
  "stands env st c p \<longleftrightarrow> (\<exists>base sequenced records rv.
     load_snapshot env (dk_snapshot (cp_disk p)) = Ok (base, sequenced) \<and>
     dk_journal (cp_disk p) = log_file (pe_journal env) (map Controller records) \<and>
     list_all (reads_back (pe_journal env)) (map Controller records) \<and>
     list_all (\<lambda>entry. jr_sequence entry \<le> cp_sequence p) records \<and>
     try_fold (recover_entry (dk_snapshot (cp_disk p) \<noteq> None) sequenced (rv_sequence base)) (map Controller records) base = Ok rv \<and>
     rv_sequence base \<le> cp_sequence p \<and> rv_sequence rv = cp_sequence p \<and>
     same_authority (s_cluster (rv_service rv)) c \<and> k_agreed (s_cluster (rv_service rv)) \<and> \<not> k_replaying (s_cluster (rv_service rv)) \<and>
     state_snapshot (rv_service rv) = st)"

lemma stands_fresh:
  "stands env (state_snapshot service_new) cluster_new
     (recovered_plane every \<lparr>dk_journal = [], dk_snapshot = None\<rparr> \<lparr>rv_service = service_new, rv_sequence = 0\<rparr> 0)"
  unfolding stands_def
  by (intro exI [of _ "\<lparr>rv_service = service_new, rv_sequence = 0\<rparr>"] exI [of _ False] exI [of _ "[]"])
    (simp add: recovered_plane_def load_snapshot_def log_file_def service_new_def cluster_new_def)

lemma stands_authority: "stands env st c p \<Longrightarrow> same_authority c c' \<Longrightarrow> stands env st c' p"
  unfolding stands_def using authority_trans by blast

lemma stands_service: "stands env st c (p\<lparr>cp_service := s\<rparr>) \<longleftrightarrow> stands env st c p"
  by (simp add: stands_def)

text \<open>A crash may leave a part of a record behind the last complete one.\<close>

definition torn_disk :: "bytes \<Rightarrow> disk \<Rightarrow> disk" where
  "torn_disk torn disk = disk\<lparr>dk_journal := dk_journal disk @ torn\<rparr>"

lemma stands_recover:
  assumes "stands env st c p" and "newline \<notin> set torn"
  obtains rv compacted where "recover env (torn_disk torn (cp_disk p)) = (cp_disk p, Ok (rv, compacted))"
    and "rv_sequence rv = cp_sequence p" and "same_authority (s_cluster (rv_service rv)) c" and "k_agreed (s_cluster (rv_service rv))"
    and "\<not> k_replaying (s_cluster (rv_service rv))" and "state_snapshot (rv_service rv) = st"
    and "stands env st c (recovered_plane every (cp_disk p) rv compacted)"
proof -
  obtain base sequenced records rv where holds: "load_snapshot env (dk_snapshot (cp_disk p)) = Ok (base, sequenced)"
      "dk_journal (cp_disk p) = log_file (pe_journal env) (map Controller records)"
      "list_all (reads_back (pe_journal env)) (map Controller records)" "list_all (\<lambda>entry. jr_sequence entry \<le> cp_sequence p) records"
      "try_fold (recover_entry (dk_snapshot (cp_disk p) \<noteq> None) sequenced (rv_sequence base)) (map Controller records) base = Ok rv"
      "rv_sequence base \<le> cp_sequence p" "rv_sequence rv = cp_sequence p"
      "same_authority (s_cluster (rv_service rv)) c" "k_agreed (s_cluster (rv_service rv))" "\<not> k_replaying (s_cluster (rv_service rv))"
      "state_snapshot (rv_service rv) = st"
    using assms(1) unfolding stands_def by blast
  have "read_records (pe_journal env) (dk_journal (cp_disk p) @ torn) = (dk_journal (cp_disk p), Ok (map Controller records))"
    using holds(2,3) assms(2) by (simp add: read_records_entries)
  then have "recover env (torn_disk torn (cp_disk p)) = (cp_disk p, Ok (rv, rv_sequence base))"
    using holds(1,5) by (simp add: recover_def torn_disk_def)
  moreover have "stands env st c (recovered_plane every (cp_disk p) rv (rv_sequence base))"
    unfolding stands_def recovered_plane_def using holds by auto
  ultimately show ?thesis using holds(7-11) that by blast
qed

section \<open>The sink\<close>

text \<open>What the sink relies on of the encoding: the records that it writes read back.\<close>

fun faithful_calls :: "plane_environment \<Rightarrow> (command option \<times> service_state) list \<Rightarrow> control_plane \<Rightarrow> bool" where
  "faithful_calls env [] p = True"
| "faithful_calls env (call # calls) p =
     (reads_back (pe_journal env) (Controller \<lparr>jr_sequence = cp_sequence p + 1, jr_command = fst call, jr_state = snd call\<rparr>) \<and>
      (case sink_call env call p of None \<Rightarrow> True | Some p' \<Rightarrow> faithful_calls env calls p'))"

text \<open>The state of the last record written, \<open>st\<close> if none was.\<close>

fun durable_state :: "plane_environment \<Rightarrow> (command option \<times> service_state) list \<Rightarrow> control_plane \<Rightarrow> service_state \<Rightarrow> service_state" where
  "durable_state env [] p st = st"
| "durable_state env (call # calls) p st =
     (case sink_call env call p of
        None \<Rightarrow> st
      | Some p' \<Rightarrow> durable_state env calls p' (if cp_sequence p' = cp_sequence p then st else snd call))"

lemma faithful_take: "faithful_calls env calls p \<Longrightarrow> faithful_calls env (take n calls) p"
proof (induction calls arbitrary: n p)
  case (Cons call calls)
  then show ?case by (cases n) (auto split: option.splits)
qed simp

lemma sink_call_service: "sink_call env call p = Some p' \<Longrightarrow> cp_service p' = cp_service p"
  by (cases call) (auto simp: sink_call_def Let_def split: if_splits)

lemma sink_calls_service: "sink_calls env calls p = Some p' \<Longrightarrow> cp_service p' = cp_service p"
  by (induction calls arbitrary: p) (auto simp: bind_eq_Some_conv sink_call_service)

lemma state_of_restored: "state_snapshot (restore_state st s) = st"
  by (simp add: state_snapshot_def restore_state_def)

lemma cluster_of_restored: "s_cluster (restore_state st s) = s_cluster s"
  by (simp add: restore_state_def)

text \<open>One call: a command that the cluster accepted, or a state.\<close>

lemma sink_call_stands:
  assumes holds: "stands env st c p" and call: "sink_call env (command, st') p = Some p'"
    and faithful: "faithful_calls env [(command, st')] p"
    and step: "case command of None \<Rightarrow> c' = c | Some cmd \<Rightarrow> \<exists>effects. cluster_apply c cmd = (c', Ok effects)"
  shows "stands env (if cp_sequence p' = cp_sequence p then st else st') c' p'"
proof (cases "command = None \<and> jc_state (pe_journal env) st' = cp_last_state p")
  case True
  then show ?thesis using holds call step by (simp add: sink_call_def)
next
  case False
  define entry where "entry = \<lparr>jr_sequence = cp_sequence p + 1, jr_command = command, jr_state = st'\<rparr>"
  have room: "cp_sequence p \<noteq> - 1" using call False by (auto simp: sink_call_def Let_def)
  then have p': "p' = p\<lparr>cp_disk := (cp_disk p)\<lparr>dk_journal := append_record (pe_journal env) entry (dk_journal (cp_disk p))\<rparr>,
      cp_last_state := jc_state (pe_journal env) st', cp_sequence := cp_sequence p + 1\<rparr>"
    using call False by (auto simp: sink_call_def Let_def entry_def)
  obtain base sequenced records rv where old: "load_snapshot env (dk_snapshot (cp_disk p)) = Ok (base, sequenced)"
      "dk_journal (cp_disk p) = log_file (pe_journal env) (map Controller records)"
      "list_all (reads_back (pe_journal env)) (map Controller records)" "list_all (\<lambda>entry. jr_sequence entry \<le> cp_sequence p) records"
      "try_fold (recover_entry (dk_snapshot (cp_disk p) \<noteq> None) sequenced (rv_sequence base)) (map Controller records) base = Ok rv"
      "rv_sequence base \<le> cp_sequence p" "rv_sequence rv = cp_sequence p"
      "same_authority (s_cluster (rv_service rv)) c" "k_agreed (s_cluster (rv_service rv))" "\<not> k_replaying (s_cluster (rv_service rv))"
    using holds unfolding stands_def by blast
  have next_sequence: "cp_sequence p < cp_sequence p + 1" using room by (rule word_inc)
  obtain s where s: "(case command of None \<Rightarrow> Ok rv | Some command \<Rightarrow> replay_command command rv) = Ok (rv\<lparr>rv_service := s\<rparr>)"
      "same_authority (s_cluster s) c'" "k_agreed (s_cluster s)" "\<not> k_replaying (s_cluster s)"
  proof (cases command)
    case None
    then show ?thesis using old(8-10) step by (intro that [of "rv_service rv"]) simp_all
  next
    case (Some cmd)
    then obtain effects where "cluster_apply c cmd = (c', Ok effects)" using step by auto
    from replay_command_twin [OF this old(8,9)] Some show ?thesis by (metis option.simps(5) that)
  qed
  define rv' where "rv' = \<lparr>rv_service = restore_state st' s, rv_sequence = cp_sequence p + 1\<rparr>"
  have "recover_entry (dk_snapshot (cp_disk p) \<noteq> None) sequenced (rv_sequence base) (Controller entry) rv = Ok rv'"
    using old(6,7) room next_sequence s(1) by (simp add: entry_def rv'_def)
  then have "try_fold (recover_entry (dk_snapshot (cp_disk p) \<noteq> None) sequenced (rv_sequence base)) (map Controller (records @ [entry])) base = Ok rv'"
    using old(5) by (simp add: try_fold_append)
  moreover have "list_all (\<lambda>e. jr_sequence e \<le> cp_sequence p + 1) (records @ [entry])"
    using old(4) next_sequence by (auto simp: list_all_iff entry_def)
  moreover have "append_record (pe_journal env) entry (dk_journal (cp_disk p)) = log_file (pe_journal env) (map Controller (records @ [entry]))"
    using old(2) by (simp add: append_record_def append_value_def log_file_def)
  moreover have "list_all (reads_back (pe_journal env)) (map Controller (records @ [entry]))"
    using old(3) faithful by (simp add: entry_def)
  ultimately show ?thesis
    unfolding stands_def p' using old(1,6) next_sequence s(2-4)
    by (intro exI [of _ base] exI [of _ sequenced] exI [of _ "records @ [entry]"] exI [of _ rv'])
      (auto simp: rv'_def state_of_restored cluster_of_restored)
qed

text \<open>The calls of an operation leave the files of the cluster it leaves.\<close>

lemma sink_calls_stands:
  assumes "stands env st c p" and "sink_calls env calls p = Some p'" and "faithful_calls env calls p"
    and "in_service c" and "list_all controller_event es" and "List.map_filter fst calls = accepted es c"
  shows "stands env (durable_state env calls p st) (fold step_event es c) p'"
  using assms
proof (induction calls arbitrary: p st c es)
  case Nil
  then have "same_authority c (fold step_event es c)"
    using accepted_nothing [of es c] by (simp add: map_filter_def same_authority_def)
  with Nil show ?case by (auto intro: stands_authority)
next
  case (Cons call calls)
  obtain command st' where call: "call = (command, st')" by (cases call)
  obtain q where q: "sink_call env (command, st') p = Some q" "sink_calls env calls q = Some p'"
    using Cons.prems(2) by (auto simp: call bind_eq_Some_conv)
  have faithful: "faithful_calls env [(command, st')] p" "faithful_calls env calls q"
    using Cons.prems(3) q(1) by (auto simp: call split: option.splits)
  obtain m es' where m: "stands env (if cp_sequence q = cp_sequence p then st else st') m q" "in_service m"
      "list_all controller_event es'" "List.map_filter fst calls = accepted es' m" "fold step_event es c = fold step_event es' m"
  proof (cases command)
    case None
    then have "stands env (if cp_sequence q = cp_sequence p then st else st') c q"
      using sink_call_stands [OF Cons.prems(1) q(1) faithful(1), of c] by simp
    then show ?thesis using Cons.prems(4-6) None by (intro that [of c es]) (simp_all add: call map_filter_def)
  next
    case (Some cmd)
    then have "accepted es c = cmd # List.map_filter fst calls" using Cons.prems(6) by (simp add: call map_filter_def)
    then obtain m effects m' es' where first: "same_authority m c" "in_service m" "cluster_apply m cmd = (m', Ok effects)"
        "list_all controller_event es'" "accepted es' m' = List.map_filter fst calls" "fold step_event es c = fold step_event es' m'"
      using accepted_first Cons.prems(4,5) by metis
    have "stands env st m p" by (rule stands_authority [OF Cons.prems(1)]) (use first(1) in \<open>simp add: same_authority_def\<close>)
    then have "stands env (if cp_sequence q = cp_sequence p then st else st') m' q"
      using sink_call_stands [OF _ q(1) faithful(1), of st m m'] first(3) Some by simp
    moreover have "in_service m'" using apply_in_service [OF first(2), of cmd] first(3) by simp
    ultimately show ?thesis using first(4-6) by (intro that [of m' es']) simp_all
  qed
  have "stands env (durable_state env calls q (if cp_sequence q = cp_sequence p then st else st')) (fold step_event es' m) p'"
    by (rule Cons.IH [OF m(1) q(2) faithful(2) m(2-4)])
  then show ?case by (auto simp: call q(1) m(5))
qed

section \<open>Compaction\<close>

text \<open>With the new snapshot in place, the records of the old journal are skipped.\<close>

lemma compacted_records:
  "list_all (\<lambda>entry. jr_sequence entry \<le> compacted) records \<Longrightarrow>
     try_fold (recover_entry restored sequenced compacted) (map Controller records) rv = Ok rv"
  by (induction records) simp_all

definition snapshot_reads_back :: "plane_environment \<Rightarrow> control_plane \<Rightarrow> bool" where
  "snapshot_reads_back env p \<longleftrightarrow> pe_read_snapshot env (pe_write_snapshot env (snapshot_of p)) = Ok (snapshot_of p)"

lemma migrate_stored:
  "in_service c \<Longrightarrow> cluster_migrate_legacy_observations (stored_cluster c) = stored_cluster c"
  using cluster_inv_parts(1) [of c]
  by (simp add: in_service_def cluster_migrate_legacy_observations_def stored_cluster_def graph_wf_def migrate_identity)

definition snapshot_recovered :: "control_plane \<Rightarrow> recovered" where
  "snapshot_recovered p =
     \<lparr>rv_service = restore (stored_cluster (s_cluster (cp_service p))) (state_snapshot (cp_service p)) service_new,
      rv_sequence = cp_sequence p\<rparr>"

lemma load_snapshot_of:
  "snapshot_reads_back env p \<Longrightarrow> load_snapshot env (Some (pe_write_snapshot env (snapshot_of p))) = Ok (snapshot_recovered p, True)"
  by (simp add: load_snapshot_def snapshot_reads_back_def snapshot_of_def snapshot_recovered_def)

lemma recovered_of_snapshot:
  assumes "in_service (s_cluster (cp_service p))"
  shows "same_authority (s_cluster (rv_service (snapshot_recovered p))) (s_cluster (cp_service p))"
    and "k_agreed (s_cluster (rv_service (snapshot_recovered p)))" and "\<not> k_replaying (s_cluster (rv_service (snapshot_recovered p)))"
    and "state_snapshot (rv_service (snapshot_recovered p)) = state_snapshot (cp_service p)"
    and "rv_sequence (snapshot_recovered p) = cp_sequence p"
  using assms migrate_stored [OF assms]
  by (simp_all add: snapshot_recovered_def restore_def cluster_of_restored state_of_restored stored_cluster_def same_authority_def in_service_def)

text \<open>A journal that ends before the snapshot.\<close>

definition compacted_journal :: "plane_environment \<Rightarrow> control_plane \<Rightarrow> bytes \<Rightarrow> bool" where
  "compacted_journal env p journal \<longleftrightarrow> (\<exists>records. journal = log_file (pe_journal env) (map Controller records) \<and>
     list_all (reads_back (pe_journal env)) (map Controller records) \<and> list_all (\<lambda>entry. jr_sequence entry \<le> cp_sequence p) records)"

lemma compacted_journals:
  "compacted_journal env p (dk_journal (cp_disk (compact env p)))"
  "stands env st c p \<Longrightarrow> compacted_journal env p (dk_journal (renamed env p))"
proof -
  show "compacted_journal env p (dk_journal (cp_disk (compact env p)))"
    by (auto simp: compacted_journal_def compact_def truncate_log_def log_file_def intro: exI [of _ "[]"])
  show "stands env st c p \<Longrightarrow> compacted_journal env p (dk_journal (renamed env p))"
    by (auto simp: compacted_journal_def stands_def renamed_def)
qed

lemma snapshot_recovers:
  assumes "dk_snapshot disk = Some (pe_write_snapshot env (snapshot_of p))" and "compacted_journal env p (dk_journal disk)"
    and "snapshot_reads_back env p"
  shows "recover env disk = (disk, Ok (snapshot_recovered p, cp_sequence p))"
proof -
  obtain records where records: "dk_journal disk = log_file (pe_journal env) (map Controller records)"
      "list_all (reads_back (pe_journal env)) (map Controller records)" "list_all (\<lambda>entry. jr_sequence entry \<le> cp_sequence p) records"
    using assms(2) by (auto simp: compacted_journal_def)
  have "read_records (pe_journal env) (dk_journal disk) = (dk_journal disk, Ok (map Controller records))"
    using read_records_entries [OF records(2), of "[]"] by (simp add: records(1))
  moreover have "try_fold (recover_entry (dk_snapshot disk \<noteq> None) True (cp_sequence p)) (map Controller records) (snapshot_recovered p) =
      Ok (snapshot_recovered p)"
    using records(3) by (rule compacted_records)
  ultimately show ?thesis
    using load_snapshot_of [OF assms(3)] by (simp add: recover_def assms(1)) (simp add: snapshot_recovered_def)
qed

lemma snapshot_stands:
  assumes "dk_snapshot (cp_disk q) = Some (pe_write_snapshot env (snapshot_of p))" and "snapshot_reads_back env p"
    and "compacted_journal env p (dk_journal (cp_disk q))" and "cp_sequence q = cp_sequence p"
    and "in_service (s_cluster (cp_service p))"
  shows "stands env (state_snapshot (cp_service p)) (s_cluster (cp_service p)) q"
proof -
  obtain records where records: "dk_journal (cp_disk q) = log_file (pe_journal env) (map Controller records)"
      "list_all (reads_back (pe_journal env)) (map Controller records)" "list_all (\<lambda>entry. jr_sequence entry \<le> cp_sequence p) records"
    using assms(3) by (auto simp: compacted_journal_def)
  have "try_fold (recover_entry (dk_snapshot (cp_disk q) \<noteq> None) True (cp_sequence p)) (map Controller records) (snapshot_recovered p) =
      Ok (snapshot_recovered p)"
    using records(3) by (rule compacted_records)
  then show ?thesis
    unfolding stands_def using assms(1,4) records recovered_of_snapshot [OF assms(5)] load_snapshot_of [OF assms(2)]
    by (intro exI [of _ "snapshot_recovered p"] exI [of _ True] exI [of _ records]) simp
qed

lemma renamed_stands:
  assumes "stands env st c p" and "snapshot_reads_back env p" and "in_service (s_cluster (cp_service p))"
  shows "stands env (state_snapshot (cp_service p)) (s_cluster (cp_service p)) (p\<lparr>cp_disk := renamed env p\<rparr>)"
  using assms compacted_journals(2) [OF assms(1)] by (intro snapshot_stands) (simp_all add: renamed_def)

lemma compact_stands:
  assumes "snapshot_reads_back env p" and "in_service (s_cluster (cp_service p))"
  shows "stands env (state_snapshot (cp_service p)) (s_cluster (cp_service p)) (compact env p)"
  using assms compacted_journals(1) by (intro snapshot_stands) (simp_all add: compact_def renamed_def)

section \<open>Operations of the plane\<close>

context service_relation
begin

lemma rel_ignore_error: "rel s (fst m) \<Longrightarrow> rel s (fst (ignore_error m))"
  by (cases m rule: ignore_error.cases) simp_all

lemma rel_admit_all: "rel s (fst (admit_all s))"
proof (induction s rule: admit_all.induct)
  case (1 s)
  have "rel s (fst (admit_one s))" by (rule rel_admit_one)
  with 1 show ?case
    by (subst admit_all.simps) (auto split: prod.split answer.split option.split intro: rel_trans)
qed

lemma rel_admit_each: "rel s (fst (admit_each requests s))"
  unfolding admit_each_def by (intro rel_each rel_ignore_error rel_admit_one)

lemma rel_members: "rel s t \<Longrightarrow> rel s (fst (and_svc (reconcile_service_groups t) (\<lambda>s members. admit_each members s)))"
  by (erule rel_trans) (intro rel_then rel_reconcile_service_groups rel_admit_each)

lemma rel_restarts:
  "rel s (fst (let (restarts, s) = queue_restarts (probe_agents s)
     in and_svc (admit_each restarts s) (\<lambda>s _. and_svc (reconcile_service_groups s) (\<lambda>s members. admit_each members s))))"
proof -
  obtain restarts t where out: "queue_restarts (probe_agents s) = (restarts, t)" by (cases "queue_restarts (probe_agents s)")
  have "rel s t" using rel_trans [OF rel_probe_agents rel_queue_restarts, of s] by (simp add: out)
  moreover have "rel t (fst (and_svc (admit_each restarts t) (\<lambda>s _. and_svc (reconcile_service_groups s) (\<lambda>s members. admit_each members s))))"
    by (intro rel_then [OF rel_admit_each] rel_members rel_refl)
  ultimately show ?thesis by (auto simp: out intro: rel_trans)
qed

lemma rel_unreachable:
  "rel s (fst (let (s, unreachable) = take_unreachable s
     in and_svc (each_svc (\<lambda>machine s. ignore_error (mark_machine_unhealthy machine s)) unreachable s) (\<lambda>s _.
          let (restarts, s) = queue_restarts (probe_agents s)
          in and_svc (admit_each restarts s) (\<lambda>s _. and_svc (reconcile_service_groups s) (\<lambda>s members. admit_each members s)))))"
proof -
  obtain t machines where out: "take_unreachable s = (t, machines)" by (cases "take_unreachable s")
  have "rel s t" by (rule rel_local) (use out in \<open>auto simp: take_unreachable_def\<close>)
  moreover have "rel t (fst (and_svc (each_svc (\<lambda>machine s. ignore_error (mark_machine_unhealthy machine s)) machines t) (\<lambda>s _.
          let (restarts, s) = queue_restarts (probe_agents s)
          in and_svc (admit_each restarts s) (\<lambda>s _. and_svc (reconcile_service_groups s) (\<lambda>s members. admit_each members s)))))"
    by (intro rel_then rel_each rel_ignore_error rel_mark_machine_unhealthy rel_restarts)
  ultimately show ?thesis by (auto simp: out intro: rel_trans)
qed

lemma rel_maintain_service: "rel s (fst (maintain_service rd now s))"
  unfolding maintain_service_def
  by (intro rel_then [OF rel_ignore_error [OF rel_service_tick]] rel_then [OF rel_ignore_error [OF rel_collect_completions]]
      rel_then [OF rel_admit_all] rel_unreachable)

lemma rel_advance_service: "rel s (fst (advance_service rd s))"
  unfolding advance_service_def by (intro rel_ignore_error rel_drive)

lemma rel_submit_request: "rel s (fst (submit_request spec s))"
proof -
  have "rel s t" if "admit_one (submit workload owner s) = (t, r)" for workload owner t r
    using rel_trans [OF rel_submit rel_admit_one, of s workload owner] that by simp
  then show ?thesis
    by (auto simp: submit_request_def Let_def rel_refl split: prod.split answer.split option.split result.split)
qed

lemma rel_submit_members:
  "rel s t \<Longrightarrow> rel s (fst (and_svc (reconcile_service_groups t) (\<lambda>s members. and_svc (admit_each members s) (\<lambda>s _. (s, Done x)))))"
  by (erule rel_trans) (intro rel_then rel_reconcile_service_groups rel_admit_each, simp add: rel_refl)

lemma rel_submit_service: "rel s (fst (submit_service spec s))"
proof -
  have "rel s t" if "register_service_group g s = (t, r)" for g t r
    using rel_register_service_group [of s g] that by simp
  then show ?thesis
    by (auto simp: submit_service_def Let_def rel_refl intro!: rel_submit_members split: prod.split result.split)
qed

lemma rel_scale_service: "rel s (fst (scale_service i target s))"
proof -
  have "rel s t" if "scale_service_group i (unat target) s = (t, r)" for t r
    using rel_scale_service_group [of s i "unat target"] that by simp
  then show ?thesis
    by (auto simp: scale_service_def intro!: rel_submit_members split: prod.split result.split)
qed

lemma rel_revoke_request: "rel s (fst (revoke_request lease s))"
  using rel_revoke [of s lease] by (auto simp: revoke_request_def split: prod.split answer.split)

lemma rel_lease_logs: "rel s (fst (lease_logs rd reply read_log lease s))"
  using rel_request_logs [of s lease] by (auto simp: lease_logs_def split: prod.split bool.split)

lemma rel_logs_request: "rel s (fst (logs_request rd reply read_log lease s))"
proof -
  have "rel s u" if "request_logs lease s = (t, b)" "lease_logs rd reply read_log lease t = (u, r)" for t b u r
    using rel_trans [of s t, OF _ rel_lease_logs [of t rd reply read_log lease]] rel_request_logs [of s lease] that by simp
  then show ?thesis
    using rel_request_logs [of s lease] by (auto simp: logs_request_def split: prod.split bool.split answer.split)
qed

lemma rel_handle: "rel s (fst (handle rd reply read_log request s))"
  by (cases request)
    (simp_all add: rel_refl rel_submit_request rel_submit_service rel_scale_service rel_revoke_request rel_logs_request)

lemma rel_logs_without_lock: "rel s (fst (logs_without_lock rd reply read_log lease s))"
proof -
  have "rel s (fst (logs_request rd reply read_log lease t))" if "request_logs lease s = (t, b)" for t b
    using rel_trans [of s t, OF _ rel_logs_request [of t rd reply read_log lease]] rel_request_logs [of s lease] that by simp
  then show ?thesis
    using rel_request_logs [of s lease] by (auto simp: logs_without_lock_def split: prod.split bool.split)
qed

lemma rel_tick_and_handle: "rel s (fst (tick_and_handle rd now reply read_log request s))"
  unfolding tick_and_handle_def by (intro rel_then rel_ignore_error rel_service_tick rel_drive rel_handle)

lemma rel_register_dial_in: "rel s (fst (register_dial_in json d capabilities s))"
  unfolding register_dial_in_def by (intro rel_then rel_register_agent_with_capabilities) (simp add: rel_refl)

lemma rel_register_link: "rel s (fst (register_link env link s))"
proof -
  have local: "rel s (fst (register_local rd json described capabilities s))" for rd json described capabilities
    by (auto simp: register_local_def rel_refl rel_register_agent split: result.split)
  show ?thesis
    by (cases link) (auto simp: register_link_def rel_refl intro!: rel_then local rel_register_remote)
qed

end

section \<open>Runs\<close>

text \<open>
  What happens to a plane between two restarts. \<open>CallLink\<close> is the registration at the end of boot, \<open>CallMaintain\<close> the timer before
  compaction, \<open>CallAnswer\<close> an answer that a worker puts into the inbox.
\<close>

datatype (plugins only: code size) plane_call =
    CallLink agent_link
  | CallDialIn machine_description execution_capabilities
  | CallAnswer tag agent_reply
  | CallAdvance
  | CallMaintain u64
  | CallRequest u64 "agent_reply option" "u64 \<Rightarrow> string" client_request
  | CallLogs "agent_reply option" "u64 \<Rightarrow> string" u64

definition and_response :: "server_response in_service \<Rightarrow> server_response option in_service" where
  "and_response m = and_svc m (\<lambda>s response. (s, Done (Some response)))"

definition no_response :: "unit in_service \<Rightarrow> server_response option in_service" where
  "no_response m = and_svc m (\<lambda>s _. (s, Done None))"

fun perform :: "plane_environment \<Rightarrow> plane_call \<Rightarrow> node_service \<Rightarrow> server_response option in_service" where
  "perform env (CallLink link) s = no_response (register_link env link s)"
| "perform env (CallDialIn d capabilities) s = no_response (register_dial_in (pe_json env) d capabilities s)"
| "perform env (CallAnswer tag reply) s = (inbox_post tag reply s, Done None)"
| "perform env CallAdvance s = no_response (advance_service (pe_rendering env) s)"
| "perform env (CallMaintain now) s = no_response (maintain_service (pe_rendering env) now s)"
| "perform env (CallRequest now reply read_log request) s = and_response (tick_and_handle (pe_rendering env) now reply read_log request s)"
| "perform env (CallLogs reply read_log lease) s = and_response (logs_without_lock (pe_rendering env) reply read_log lease s)"

lemma perform_journals: "journals s (fst (perform env call s))"
proof -
  have "journals s (fst (no_response m))" if "journals s (fst m)" for m
    unfolding no_response_def by (intro journal.rel_then that) (simp add: journal.rel_refl)
  moreover have "journals s (fst (and_response m))" if "journals s (fst m)" for m
    unfolding and_response_def by (intro journal.rel_then that) (simp add: journal.rel_refl)
  ultimately show ?thesis
    by (cases call)
      (simp_all add: journal.rel_register_link journal.rel_register_dial_in journal.rel_advance_service journal.rel_maintain_service
        journal.rel_tick_and_handle journal.rel_logs_without_lock journals_local inbox_post_def)
qed

text \<open>
  Runs of a plane from empty files, with the controller state that its files hold. A crash comes between two operations, after some
  records of an operation, or between the two halves of a compaction; it may leave a torn record. The encodings read back what was
  written.
\<close>

inductive plane_run :: "plane_environment \<Rightarrow> service_state \<Rightarrow> control_plane \<Rightarrow> bool" for env where
  Fresh: "plane_run env (state_snapshot service_new)
    (recovered_plane every \<lparr>dk_journal = [], dk_snapshot = None\<rparr> \<lparr>rv_service = service_new, rv_sequence = 0\<rparr> 0)"
| Operate: "plane_run env st p \<Longrightarrow> through_sink env (perform env call) p = Some (p', r) \<Longrightarrow>
    calls = durable_calls (fst (perform env call (cp_service p))) \<Longrightarrow> faithful_calls env calls p \<Longrightarrow>
    plane_run env (durable_state env calls p st) p'"
| Interrupt: "plane_run env st p \<Longrightarrow> calls = take n (durable_calls (fst (perform env call (cp_service p)))) \<Longrightarrow>
    faithful_calls env calls p \<Longrightarrow> sink_calls env calls p = Some q \<Longrightarrow> newline \<notin> set torn \<Longrightarrow>
    recover env (torn_disk torn (cp_disk q)) = (disk, Ok (rv, compacted)) \<Longrightarrow>
    plane_run env (durable_state env calls p st) (recovered_plane every disk rv compacted)"
| Compact: "plane_run env st p \<Longrightarrow> snapshot_reads_back env p \<Longrightarrow>
    plane_run env (state_snapshot (cp_service p)) (compact env p)"
| Interrupt_compaction: "plane_run env st p \<Longrightarrow> snapshot_reads_back env p \<Longrightarrow>
    recover env (renamed env p) = (disk, Ok (rv, compacted)) \<Longrightarrow>
    plane_run env (state_snapshot (cp_service p)) (recovered_plane every disk rv compacted)"

text \<open>The invariant of runs.\<close>

definition plane_inv :: "plane_environment \<Rightarrow> service_state \<Rightarrow> control_plane \<Rightarrow> bool" where
  "plane_inv env st p \<longleftrightarrow>
     stands env st (s_cluster (cp_service p)) p \<and> in_service (s_cluster (cp_service p)) \<and> s_durable_sink (cp_service p) = Some []"

lemma perform_events:
  assumes "s_durable_sink s = Some []"
  obtains es where "list_all controller_event es" and "s_cluster (fst (perform env call s)) = fold step_event es (s_cluster s)"
    and "List.map_filter fst (durable_calls (fst (perform env call s))) = accepted es (s_cluster s)"
  using perform_journals [of s env call] assms by (auto simp: journals_def durable_calls_def)

lemma map_filter_take: "\<exists>k. List.map_filter f (take n xs) = take k (List.map_filter f xs)"
proof -
  have "List.map_filter f xs = List.map_filter f (take n xs) @ List.map_filter f (drop n xs)"
    by (simp add: map_filter_def flip: map_append filter_append)
  then show ?thesis by (intro exI [of _ "length (List.map_filter f (take n xs))"]) simp
qed

lemma interrupted_stands:
  assumes inv: "plane_inv env st p" and calls: "calls = take n (durable_calls (fst (perform env call (cp_service p))))"
    and faithful: "faithful_calls env calls p" and sink: "sink_calls env calls p = Some q"
  obtains es where "list_all controller_event es" and "accepted es (s_cluster (cp_service p)) = List.map_filter fst calls"
    and "stands env (durable_state env calls p st) (fold step_event es (s_cluster (cp_service p))) q"
proof -
  obtain es where "list_all controller_event es"
      "List.map_filter fst (durable_calls (fst (perform env call (cp_service p)))) = accepted es (s_cluster (cp_service p))"
    using perform_events inv unfolding plane_inv_def by metis
  then obtain es' where es': "list_all controller_event es'" "accepted es' (s_cluster (cp_service p)) = List.map_filter fst calls"
    using map_filter_take [of fst n "durable_calls (fst (perform env call (cp_service p)))"] accepted_take unfolding calls by metis
  moreover have "stands env (durable_state env calls p st) (fold step_event es' (s_cluster (cp_service p))) q"
    using inv es' by (intro sink_calls_stands [OF _ sink faithful]) (simp_all add: plane_inv_def)
  ultimately show ?thesis by (rule that)
qed

lemma recovered_inv:
  assumes holds: "stands env st c q" and c: "in_service c" and torn: "newline \<notin> set torn"
    and recover: "recover env (torn_disk torn (cp_disk q)) = (disk, Ok (rv, compacted))"
  shows "plane_inv env st (recovered_plane every disk rv compacted)"
proof -
  from stands_recover [OF holds torn, of every] recover have "disk = cp_disk q"
      "same_authority (s_cluster (rv_service rv)) c" "k_agreed (s_cluster (rv_service rv))" "\<not> k_replaying (s_cluster (rv_service rv))"
      "stands env st c (recovered_plane every disk rv compacted)"
    by auto
  moreover from this have "in_service (s_cluster (rv_service rv))" using c by (blast intro: in_service_twin)
  moreover have "same_authority c (s_cluster (rv_service rv))" using calculation(2) by (simp add: same_authority_def)
  ultimately show ?thesis
    using stands_authority by (auto simp: plane_inv_def recovered_plane_def set_durable_sink_def)
qed

lemma torn_nothing: "torn_disk [] disk = disk"
  by (simp add: torn_disk_def)

lemma run_inv: "plane_run env st p \<Longrightarrow> plane_inv env st p"
proof (induction rule: plane_run.induct)
  case (Fresh every)
  show ?case
    using stands_fresh [of env every] cluster_new_inv
    by (simp add: plane_inv_def in_service_def recovered_plane_def set_durable_sink_def service_new_def cluster_new_def)
next
  case (Operate st p call p' r calls)
  obtain s where out: "perform env call (cp_service p) = (s, r)" by (cases "perform env call (cp_service p)")
      (use Operate(2) in \<open>auto simp: through_sink_def\<close>)
  then obtain q where q: "sink_calls env calls p = Some q" "p' = q\<lparr>cp_service := set_durable_sink (Some []) s\<rparr>"
    using Operate(2,3) by (auto simp: through_sink_def)
  obtain es where es: "list_all controller_event es" "s_cluster s = fold step_event es (s_cluster (cp_service p))"
      "List.map_filter fst calls = accepted es (s_cluster (cp_service p))"
    using perform_events [of "cp_service p" env call] Operate(3,5) out by (auto simp: plane_inv_def)
  then have "stands env (durable_state env calls p st) (s_cluster s) q"
    using Operate(4,5) q(1) sink_calls_stands by (simp add: plane_inv_def)
  moreover have "in_service (s_cluster s)" using es steps_in_service Operate(5) by (simp add: plane_inv_def)
  ultimately show ?case by (simp add: plane_inv_def q(2) set_durable_sink_def stands_service)
next
  case (Interrupt st p calls n call q torn disk rv compacted every)
  obtain es where es: "list_all controller_event es" "stands env (durable_state env calls p st) (fold step_event es (s_cluster (cp_service p))) q"
    using interrupted_stands Interrupt(2,3,4,7) by metis
  then have "in_service (fold step_event es (s_cluster (cp_service p)))" using steps_in_service Interrupt(7) by (simp add: plane_inv_def)
  with es(2) Interrupt(5,6) show ?case by (intro recovered_inv)
next
  case (Compact st p)
  then have "stands env (state_snapshot (cp_service p)) (s_cluster (cp_service p)) (compact env p)" by (intro compact_stands) (simp_all add: plane_inv_def)
  moreover have "same_authority (s_cluster (cp_service p)) (s_cluster (cp_service (compact env p)))"
    by (simp add: compact_def clear_history_def same_authority_def)
  ultimately have "stands env (state_snapshot (cp_service p)) (s_cluster (cp_service (compact env p))) (compact env p)" by (rule stands_authority)
  moreover have "in_service (s_cluster (cp_service (compact env p)))" "s_durable_sink (cp_service (compact env p)) = Some []"
    using Compact(3) by (simp_all add: plane_inv_def in_service_def compact_def clear_history_def)
  ultimately show ?case by (simp add: plane_inv_def)
next
  case (Interrupt_compaction st p disk rv compacted every)
  then have "stands env (state_snapshot (cp_service p)) (s_cluster (cp_service p)) (p\<lparr>cp_disk := renamed env p\<rparr>)"
    by (intro renamed_stands [of env st "s_cluster (cp_service p)"]) (simp_all add: plane_inv_def)
  from recovered_inv [OF this, where torn = "[]"] show ?case
    using Interrupt_compaction by (simp add: plane_inv_def torn_nothing)
qed

text \<open>The functions \<open>boot\<close> and \<open>maintain\<close> are such runs.\<close>

lemma through_no_response:
  "through_sink env f p = Some (p', Done x) \<Longrightarrow> through_sink env (\<lambda>s. no_response (f s)) p = Some (p', Done None)"
  by (auto simp: through_sink_def no_response_def split: prod.splits)

lemma durable_no_response: "durable_calls (fst (no_response m)) = durable_calls (fst m)"
  by (cases m; cases "snd m") (auto simp: no_response_def)

lemma boot_run:
  assumes run: "plane_run env st p" and torn: "newline \<notin> set torn"
    and boot: "boot env link every (torn_disk torn (cp_disk p)) = Some (disk, Ok p')"
    and faithful: "\<And>rv compacted s. recover env (torn_disk torn (cp_disk p)) = (cp_disk p, Ok (rv, compacted)) \<Longrightarrow>
      faithful_calls env (durable_calls (fst (register_link env link (set_durable_sink (Some []) (rv_service rv)))))
        (recovered_plane every (cp_disk p) rv compacted)"
  shows "\<exists>st'. plane_run env st' p'"
proof -
  have "stands env st (s_cluster (cp_service p)) p" using run_inv [OF run] by (simp add: plane_inv_def)
  from stands_recover [OF this torn] obtain rv compacted where rv: "recover env (torn_disk torn (cp_disk p)) = (cp_disk p, Ok (rv, compacted))"
    by metis
  let ?q = "recovered_plane every (cp_disk p) rv compacted"
  have q: "plane_run env st ?q"
    using Interrupt [where n = 0 and calls = "[]", OF run _ _ _ torn rv] by simp
  obtain x where "through_sink env (register_link env link) ?q = Some (p', Done x)"
    using boot rv by (auto simp: boot_def split: option.splits prod.splits answer.splits)
  then have "through_sink env (perform env (CallLink link)) ?q = Some (p', Done None)"
    using through_no_response by (simp add: fun_eq_iff through_sink_def)
  moreover have "faithful_calls env (durable_calls (fst (perform env (CallLink link) (cp_service ?q)))) ?q"
    using faithful [OF rv] by (simp add: durable_no_response recovered_plane_def)
  ultimately show ?thesis using Operate [OF q] by blast
qed

lemma maintain_run:
  assumes run: "plane_run env st p" and maintain: "maintain env now p = Some (p', Done ())"
    and faithful: "faithful_calls env (durable_calls (fst (maintain_service (pe_rendering env) now (cp_service p)))) p"
    and snapshot: "\<And>q r. through_sink env (maintain_service (pe_rendering env) now) p = Some (q, r) \<Longrightarrow> snapshot_reads_back env q"
  shows "\<exists>st'. plane_run env st' p'"
proof -
  obtain q where q: "through_sink env (maintain_service (pe_rendering env) now) p = Some (q, Done ())"
      "p' = (if cp_compact_every q > 0 \<and> cp_sequence q - cp_compacted_sequence q \<ge> cp_compact_every q then compact env q else q)"
    using maintain by (auto simp: maintain_def split: option.splits prod.splits answer.splits)
  have "through_sink env (perform env (CallMaintain now)) p = Some (q, Done None)"
    using through_no_response [OF q(1)] by (simp add: through_sink_def)
  moreover have "faithful_calls env (durable_calls (fst (perform env (CallMaintain now) (cp_service p)))) p"
    using faithful by (simp add: durable_no_response)
  ultimately obtain st' where "plane_run env st' q" using Operate [OF run] by blast
  then show ?thesis using Compact snapshot [OF q(1)] q(2) by metis
qed

end
