(* ===== verification/Control_Durability.thy ===== *)
theory Control_Durability
  imports Control_Recovery Service_Safety
begin

text \<open>
  What survives a crash of the control plane: authority, acknowledged submissions, and everything across compaction. The samples run a
  plane from empty files through one submission.
\<close>

section \<open>Submissions\<close>

text \<open>A state knows a request: it is queued with its workload, or a lease carries it.\<close>

definition queued_with_workload :: "request_id \<Rightarrow> service_state \<Rightarrow> bool" where
  "queued_with_workload i st \<longleftrightarrow> (\<exists>q\<in>set (st_queue st). r_id (q_request q) = i) \<and>
     (\<exists>w. btree_get (st_queued_workloads st) i = Some w \<and> r_id (ws_resources w) = i)"

definition knows :: "request_id \<Rightarrow> service_state \<Rightarrow> bool" where
  "knows i st \<longleftrightarrow> queued_with_workload i st \<or>
     (\<exists>lease w owner. btree_get (st_requests st) lease = Some (w, owner) \<and> r_id (ws_resources w) = i)"

text \<open>A change that keeps a known request known and tells the sink only states that know it.\<close>

definition retains :: "request_id \<Rightarrow> node_service \<Rightarrow> node_service \<Rightarrow> bool" where
  "retains i s t \<longleftrightarrow> (\<exists>new. s_durable_sink t = map_option (\<lambda>calls. calls @ new) (s_durable_sink s) \<and>
     (knows i (state_snapshot s) \<longrightarrow> knows i (state_snapshot t) \<and> (\<forall>call\<in>set new. knows i (snd call))))"

lemma retains_unchanged:
  "s_durable_sink t = s_durable_sink s \<Longrightarrow> s_queue t = s_queue s \<Longrightarrow> s_queued_workloads t = s_queued_workloads s \<Longrightarrow>
     s_requests t = s_requests s \<Longrightarrow> retains i s t"
  unfolding retains_def
  by (intro exI [of _ "[]"]) (simp add: option.map_ident knows_def queued_with_workload_def state_snapshot_def)

lemma retains_trans: "retains i s t \<Longrightarrow> retains i t u \<Longrightarrow> retains i s u"
proof -
  assume "retains i s t" "retains i t u"
  then obtain new new' where "s_durable_sink t = map_option (\<lambda>calls. calls @ new) (s_durable_sink s)"
      "knows i (state_snapshot s) \<Longrightarrow> knows i (state_snapshot t) \<and> (\<forall>call\<in>set new. knows i (snd call))"
      "s_durable_sink u = map_option (\<lambda>calls. calls @ new') (s_durable_sink t)"
      "knows i (state_snapshot t) \<Longrightarrow> knows i (state_snapshot u) \<and> (\<forall>call\<in>set new'. knows i (snd call))"
    unfolding retains_def by blast
  then show ?thesis unfolding retains_def by (intro exI [of _ "new @ new'"]) (auto simp: option.map_comp comp_def)
qed

lemma commit_told:
  "\<exists>new. s_durable_sink (fst (service_commit command s)) = map_option (\<lambda>calls. calls @ new) (s_durable_sink s) \<and>
     (\<forall>call\<in>set new. snd call = state_snapshot s) \<and> state_snapshot (fst (service_commit command s)) = state_snapshot s"
proof -
  obtain c r where out: "cluster_apply (s_cluster s) command = (c, r)" by (cases "cluster_apply (s_cluster s) command")
  show ?thesis
  proof (cases r)
    case (Ok effects)
    then show ?thesis
      by (intro exI [of _ "[(Some command, state_snapshot s)]"])
        (simp add: out service_commit_def Let_def persist_def state_snapshot_def split: option.split)
  next
    case (Err e)
    then show ?thesis
      by (intro exI [of _ "[]"]) (simp add: out service_commit_def state_snapshot_def option.map_ident)
  qed
qed

interpretation kept: pump_relation "retains i" for i
proof
  show "retains i s t \<Longrightarrow> retains i t u \<Longrightarrow> retains i s u" for s t u by (rule retains_trans)
  show "retains i s (fst (service_commit command s))" for s command
    using commit_told [of command s] unfolding retains_def by metis
qed (auto intro!: retains_unchanged simp: quiet_def)

text \<open>An admission takes a queued request only to give it a lease.\<close>

lemma open_admitted_retains:
  assumes "open_admitted adm s = (t, Done lease)" and "queued_with_workload i (state_snapshot s)"
  shows "retains i s t"
proof -
  let ?request = "r_id (ad_request adm)"
  let ?workload = "btree_get_or (resource_only (ad_request adm)) (s_queued_workloads s) ?request"
  obtain index where index: "position (\<lambda>q. r_id (q_request q) = ?request) (s_queue s) = Some index"
    using assms(1) by (auto simp: open_admitted_def Let_def split: option.splits)
  define s2 where "s2 = s\<lparr>s_next_lease := s_next_lease s + 1, s_queued_workloads := btree_remove ?request (s_queued_workloads s),
    s_requests := btree_insert (s_next_lease s) (?workload, ad_owner adm) (s_requests s),
    s_queue := take index (s_queue s) @ drop (Suc index) (s_queue s)\<rparr>"
  obtain command r where t: "service_commit command s2 = (t, r)"
    using assms(1) index by (auto simp: open_admitted_def Let_def s2_def split: prod.splits answer.splits)
  have "knows i (state_snapshot s2)"
  proof (cases "?request = i")
    case True
    then have "r_id (ws_resources ?workload) = i"
      using assms(2) by (auto simp: queued_with_workload_def state_snapshot_def btree_get_or_def)
    then have "\<exists>lease w owner. btree_get (s_requests s2) lease = Some (w, owner) \<and> r_id (ws_resources w) = i"
      by (intro exI [of _ "s_next_lease s"]) (simp add: s2_def)
    then show ?thesis by (simp add: knows_def state_snapshot_def)
  next
    case False
    then have "r_id (q_request (s_queue s ! index)) \<noteq> i" using position_holds [OF index] by simp
    moreover obtain q where q: "q \<in> set (s_queue s)" "r_id (q_request q) = i"
      using assms(2) by (auto simp: queued_with_workload_def state_snapshot_def)
    moreover have "q \<in> set (take index (s_queue s) @ s_queue s ! index # drop (Suc index) (s_queue s))"
      using q(1) by (metis id_take_nth_drop position_less index)
    ultimately have "\<exists>q\<in>set (s_queue s2). r_id (q_request q) = i" by (auto simp: s2_def)
    then show ?thesis
      using assms(2) False by (simp add: knows_def queued_with_workload_def state_snapshot_def s2_def)
  qed
  moreover have "s_durable_sink s2 = s_durable_sink s" by (simp add: s2_def)
  ultimately show ?thesis using t commit_told [of command s2] unfolding retains_def by (metis fst_conv)
qed

lemma admit_one_retains:
  assumes "admit_one s = (t, Done r)" and "queued_with_workload i (state_snapshot s)"
  shows "retains i s t"
proof (cases r)
  case None
  then have "t = s" using assms(1)
    by (auto simp: admit_one_def admit_one_with_policy_def and_svc_Done split: option.splits)
  then show ?thesis by (simp add: kept.rel_refl)
next
  case (Some request)
  then obtain s1 lease s2 s3 adm where run: "open_admitted adm s = (s1, Done lease)" "open_enforced_bindings lease s1 = (s2, Done ())"
      "pump s2 = (s3, Done ())" "t = maybe_activate lease s3"
    using assms(1)
    by (auto simp: admit_one_def admit_one_with_policy_def and_svc_Done elim!: from_result.elims split: option.splits)
  have "retains i s1 t"
    using kept.rel_open_enforced_bindings [of i s1 lease] kept.rel_pump [of i s2] kept.rel_maybe_activate [of i s3 lease] run
    by (auto intro: retains_trans)
  with open_admitted_retains [OF run(1) assms(2)] show ?thesis by (rule retains_trans)
qed

lemma submission_told:
  assumes "submit_request spec s = (t, Done (SrSubmitted i lease))" and "s_durable_sink s = Some calls"
  shows "\<exists>told. s_durable_sink t = Some told \<and> told \<noteq> [] \<and> knows i (snd (last told))"
proof -
  obtain workload where w: "compile_workload (s_next_request_id s) (su_wire spec) = Ok workload" and i: "i = s_next_request_id s"
    using assms(1) by (auto simp: submit_request_def Let_def split: if_splits result.splits prod.splits answer.splits option.splits)
  define s1 where "s1 = submit (workload\<lparr>ws_keep_alive := su_keep_alive spec\<rparr>) (su_owner spec) s"
  obtain r where admit: "admit_one s1 = (t, Done r)"
    using assms(1) w by (auto simp: submit_request_def Let_def s1_def split: if_splits result.splits prod.splits answer.splits option.splits)
  have "r_id (ws_resources workload) = i"
    using w by (auto simp: i compile_workload_def and_then_eq_Ok split: if_splits)
  then have q: "queued_with_workload i (state_snapshot s1)"
    by (simp add: s1_def submit_def persist_def assms(2) svc_enqueue_def queued_with_workload_def state_snapshot_def Let_def)
  have told: "\<exists>first. s_durable_sink s1 = Some (calls @ [first]) \<and> snd first = state_snapshot s1"
    by (simp add: s1_def submit_def persist_def assms(2) svc_enqueue_def state_snapshot_def Let_def)
  have "knows i (state_snapshot s1)" using q by (simp add: knows_def)
  with admit_one_retains [OF admit q] told obtain first new where
      "s_durable_sink t = Some (calls @ first # new)" "snd first = state_snapshot s1" "\<forall>call\<in>set new. knows i (snd call)"
    by (auto simp: retains_def)
  with \<open>knows i (state_snapshot s1)\<close> show ?thesis by (cases new rule: rev_cases) auto
qed

text \<open>The encoding of a state is not empty and tells it from every other one.\<close>

definition encodes :: "journal_codec \<Rightarrow> service_state \<Rightarrow> bool" where
  "encodes codec st \<longleftrightarrow> jc_state codec st \<noteq> [] \<and> (\<forall>st'. jc_state codec st' = jc_state codec st \<longrightarrow> st' = st)"

lemma durable_last:
  assumes "cp_last_state p = [] \<or> cp_last_state p = jc_state (pe_journal env) st"
    and "list_all (\<lambda>call. encodes (pe_journal env) (snd call)) calls" and "sink_calls env calls p = Some p'"
  shows "durable_state env calls p st = (if calls = [] then st else snd (last calls))"
  using assms
proof (induction calls arbitrary: p st)
  case (Cons call calls)
  obtain command st' where call: "call = (command, st')" by (cases call)
  obtain q where q: "sink_call env (command, st') p = Some q" "sink_calls env calls q = Some p'"
    using Cons.prems(3) by (auto simp: call bind_eq_Some_conv)
  have state: "encodes (pe_journal env) st'" using Cons.prems(2) by (simp add: call)
  have "cp_last_state q = jc_state (pe_journal env) st' \<and> (if cp_sequence q = cp_sequence p then st else st') = st'"
    using q(1) state Cons.prems(1) by (auto simp: sink_call_def Let_def encodes_def split: if_splits)
  moreover from this have "durable_state env calls q st' = (if calls = [] then st' else snd (last calls))"
    using Cons.IH [of q st'] Cons.prems(2) q(2) by simp
  ultimately show ?case by (simp add: call q(1) split: if_splits)
qed simp

lemma submission_performed:
  assumes "perform env (CallRequest now reply read_log (CqSubmit spec)) s = (t, Done (Some (SrSubmitted i lease)))"
    and "s_durable_sink s = Some []"
  shows "durable_calls t \<noteq> [] \<and> knows i (snd (last (durable_calls t)))"
proof -
  obtain s1 s2 where run: "ignore_error (service_tick now s) = (s1, Done ())" "ignore_error (drive (pe_rendering env) [] s1) = (s2, Done ())"
      "submit_request spec s2 = (t, Done (SrSubmitted i lease))"
    using assms(1) by (auto simp: and_response_def tick_and_handle_def and_svc_Done)
  have "journals s s1" "journals s1 s2"
    using journal.rel_ignore_error [OF journal.rel_service_tick [of s now]]
      journal.rel_ignore_error [OF journal.rel_drive [of s1 "pe_rendering env" "[]"]] run(1,2) by simp_all
  then obtain calls where "s_durable_sink s2 = Some calls" using assms(2) by (auto simp: journals_def)
  from submission_told [OF run(3) this] show ?thesis by (auto simp: durable_calls_def)
qed

section \<open>Samples\<close>

definition sample_wire :: workload_wire where
  "sample_wire = \<lparr>wr_cpus = 2, wr_memory_mib = 0, wr_lifetime_secs = 60, wr_command = [''run''], wr_volumes = [], wr_ports = [],
     wr_grace_secs = 5, wr_image = None, wr_gpus = 0\<rparr>"

definition sample_call :: plane_call where
  "sample_call = CallRequest 5 None (\<lambda>_. []) (CqSubmit \<lparr>su_owner = 9, su_keep_alive = False, su_wire = sample_wire\<rparr>)"

definition sample_state :: service_state where
  "sample_state =
     (case compile_workload 1 sample_wire of
        Ok workload \<Rightarrow> state_snapshot (svc_enqueue workload 9 (service_new\<lparr>s_cluster := set_now cluster_new 5\<rparr>))
      | Err _ \<Rightarrow> state_snapshot service_new)"

definition sample_record :: journal_record where
  "sample_record = \<lparr>jr_sequence = 1, jr_command = None, jr_state = sample_state\<rparr>"

definition sample_snapshot :: snapshot_envelope where
  "sample_snapshot = \<lparr>sn_version = 2, sn_sequence = 1, sn_cluster = set_now cluster_new 5, sn_state = sample_state\<rparr>"

definition sample_environment :: plane_environment where
  "sample_environment =
     \<lparr>pe_journal = \<lparr>jc_record = (\<lambda>_. [1]), jc_command = (\<lambda>_. [2]), jc_state = (\<lambda>st. if st = sample_state then [1] else [2]),
        jc_read_record = (\<lambda>_. Ok sample_record), jc_read_command = (\<lambda>_. Err [])\<rparr>,
      pe_write_snapshot = (\<lambda>_. [3]), pe_read_snapshot = (\<lambda>_. Ok sample_snapshot),
      pe_rendering = \<lparr>rd_paths = (\<lambda>_. None), rd_debug = (\<lambda>_. [])\<rparr>, pe_json = (\<lambda>_. [])\<rparr>"

definition sample_plane :: control_plane where
  "sample_plane = recovered_plane 0 \<lparr>dk_journal = [], dk_snapshot = None\<rparr> \<lparr>rv_service = service_new, rv_sequence = 0\<rparr> 0"

lemma sample_performed:
  "durable_calls (fst (perform sample_environment sample_call (cp_service sample_plane))) = [(None, sample_state)]"
  by code_simp

lemma sample_answer:
  "snd (perform sample_environment sample_call (cp_service sample_plane)) = Done (Some (SrSubmitted 1 0))"
  by code_simp

lemma sample_clusters:
  "s_cluster (fst (perform sample_environment sample_call (cp_service sample_plane))) = set_now cluster_new 5"
  by code_simp

lemma sample_kept: "state_snapshot (fst (perform sample_environment sample_call (cp_service sample_plane))) = sample_state"
  by code_simp

definition sample_submitted :: control_plane where
  "sample_submitted = sample_plane\<lparr>cp_disk := \<lparr>dk_journal = [1, newline], dk_snapshot = None\<rparr>, cp_last_state := [1], cp_sequence := 1,
     cp_service := set_durable_sink (Some []) (fst (perform sample_environment sample_call (cp_service sample_plane)))\<rparr>"

definition sample_written :: control_plane where
  "sample_written = sample_plane\<lparr>cp_disk := \<lparr>dk_journal = [1, newline], dk_snapshot = None\<rparr>, cp_last_state := [1], cp_sequence := 1\<rparr>"

lemma sample_sink: "sink_calls sample_environment [(None, sample_state)] sample_plane = Some sample_written"
  by (simp add: sink_call_def sample_environment_def sample_plane_def sample_written_def recovered_plane_def append_record_def append_value_def)

lemma sample_through:
  "through_sink sample_environment (perform sample_environment sample_call) sample_plane = Some (sample_submitted, Done (Some (SrSubmitted 1 0)))"
proof -
  obtain s where s: "perform sample_environment sample_call (cp_service sample_plane) = (s, Done (Some (SrSubmitted 1 0)))"
    using sample_answer by (metis prod.collapse)
  then have "durable_calls s = [(None, sample_state)]" using sample_performed by simp
  with s sample_sink show ?thesis by (simp add: through_sink_def sample_submitted_def sample_written_def)
qed

lemma sample_faithful:
  "faithful_calls sample_environment [(None, sample_state)] sample_plane"
  "encodes (pe_journal sample_environment) sample_state"
proof -
  show "faithful_calls sample_environment [(None, sample_state)] sample_plane"
    by (auto simp: sample_environment_def sample_plane_def recovered_plane_def reads_back_def parse_line_def newline_def
        is_ascii_whitespace_def sample_record_def split: option.split)
  show "encodes (pe_journal sample_environment) sample_state"
    by (simp add: encodes_def sample_environment_def)
qed

lemma sample_durable: "durable_state sample_environment [(None, sample_state)] sample_plane st = sample_state"
  using sample_sink by (auto simp: bind_eq_Some_conv sample_written_def sample_plane_def recovered_plane_def)

lemma sample_fresh: "plane_run sample_environment (state_snapshot service_new) sample_plane"
  unfolding sample_plane_def by (rule Fresh)

lemma sample_run: "plane_run sample_environment sample_state sample_submitted"
  using Operate [OF sample_fresh sample_through sample_performed [symmetric] sample_faithful(1)] by (simp only: sample_durable)

lemma sample_reads_back: "snapshot_reads_back sample_environment sample_submitted"
proof -
  have "snapshot_of sample_submitted = sample_snapshot"
    using sample_clusters sample_kept
    by (simp add: snapshot_of_def sample_submitted_def sample_snapshot_def set_durable_sink_def stored_cluster_def set_now_def cluster_new_def
        state_snapshot_def)
  then show ?thesis by (simp add: snapshot_reads_back_def sample_environment_def)
qed

text \<open>
  The answer to a submission names the newest lease. When another request of the queue is admitted instead, that is the lease of the other
  request: here request 8 is answered with lease 1, which carries request 7, while request 8 stays in the queue.
\<close>

lemma submission_answered_with_other_lease:
  "let out = submit_request \<lparr>su_owner = 9, su_keep_alive = False, su_wire = sample_wire\<rparr> (submit sample_workload 9 sample_registered)
   in snd out = Done (SrSubmitted 8 1) \<and> lease_carries (fst out) 7 1 \<and> is_queued (fst out) 8"
  by code_simp

section \<open>Properties\<close>

text \<open>
  C8. Recovery restores authority: whatever operations, restarts, crashes and compactions a control plane went through, after a crash that
  leaves any part of a further record behind, recovery from its files succeeds, removes the torn record and gives back the
  graph, leases, bindings, sessions, fences and node states of the lost cluster, the sequence of the journal, and the controller state of
  the last record written.
\<close>

theorem recovery_restores:
  assumes "plane_run env st p" and "newline \<notin> set torn"
  shows "\<exists>rv compacted. recover env (torn_disk torn (cp_disk p)) = (cp_disk p, Ok (rv, compacted)) \<and>
    same_authority (s_cluster (rv_service rv)) (s_cluster (cp_service p)) \<and> rv_sequence rv = cp_sequence p \<and>
    state_snapshot (rv_service rv) = st"
proof -
  have "stands env st (s_cluster (cp_service p)) p" using run_inv [OF assms(1)] by (simp add: plane_inv_def)
  from stands_recover [OF this assms(2)] show ?thesis by metis
qed

theorem recovery_restores_witness:
  "\<exists>rv compacted. recover sample_environment (torn_disk [7, 7] (cp_disk sample_submitted)) = (cp_disk sample_submitted, Ok (rv, compacted)) \<and>
     same_authority (s_cluster (rv_service rv)) (s_cluster (cp_service sample_submitted)) \<and> rv_sequence rv = cp_sequence sample_submitted \<and>
     state_snapshot (rv_service rv) = sample_state"
  by (rule recovery_restores [OF sample_run]) (simp add: newline_def)

text \<open>
  C10. A crash in the middle of an operation: when some of the records of an operation are complete and the next one is torn, recovery
  succeeds with the cluster that had accepted exactly the commands of these records, and with their last state.
\<close>

theorem interrupted_operation_recovers:
  assumes "plane_run env st p" and "calls = take n (durable_calls (fst (perform env call (cp_service p))))"
    and "faithful_calls env calls p" and "sink_calls env calls p = Some q" and "newline \<notin> set torn"
  shows "\<exists>rv compacted es. recover env (torn_disk torn (cp_disk q)) = (cp_disk q, Ok (rv, compacted)) \<and>
    list_all controller_event es \<and> accepted es (s_cluster (cp_service p)) = List.map_filter fst calls \<and>
    same_authority (s_cluster (rv_service rv)) (fold step_event es (s_cluster (cp_service p))) \<and>
    rv_sequence rv = cp_sequence q \<and> state_snapshot (rv_service rv) = durable_state env calls p st"
proof -
  obtain es where es: "list_all controller_event es" "accepted es (s_cluster (cp_service p)) = List.map_filter fst calls"
      "stands env (durable_state env calls p st) (fold step_event es (s_cluster (cp_service p))) q"
    using interrupted_stands [OF run_inv [OF assms(1)] assms(2-4)] by metis
  from stands_recover [OF es(3) assms(5)] es(1,2) show ?thesis by metis
qed

theorem interrupted_operation_recovers_witness:
  "\<exists>rv compacted es. recover sample_environment (torn_disk [7] (cp_disk sample_written)) = (cp_disk sample_written, Ok (rv, compacted)) \<and>
     list_all controller_event es \<and> accepted es (s_cluster (cp_service sample_plane)) = List.map_filter fst [(None, sample_state)] \<and>
     same_authority (s_cluster (rv_service rv)) (fold step_event es (s_cluster (cp_service sample_plane))) \<and>
     rv_sequence rv = cp_sequence sample_written \<and>
     state_snapshot (rv_service rv) = durable_state sample_environment [(None, sample_state)] sample_plane (state_snapshot service_new)"
  by (rule interrupted_operation_recovers [OF sample_fresh, where n = 1 and call = sample_call])
    (simp_all only: sample_performed sample_faithful sample_sink, simp_all add: newline_def)

text \<open>
  C11. Compaction is safe at its two steps: recovery from the new snapshot beside the old journal, and recovery from the new snapshot beside the
  truncated journal, give the same controller, and it has the authority, the controller state and the sequence of the compacted plane.
\<close>

theorem compaction_crash_safe:
  assumes "plane_run env st p" and "snapshot_reads_back env p"
  shows "\<exists>rv. recover env (renamed env p) = (renamed env p, Ok (rv, cp_sequence p)) \<and>
    recover env (cp_disk (compact env p)) = (cp_disk (compact env p), Ok (rv, cp_sequence p)) \<and>
    same_authority (s_cluster (rv_service rv)) (s_cluster (cp_service p)) \<and>
    state_snapshot (rv_service rv) = state_snapshot (cp_service p) \<and> rv_sequence rv = cp_sequence p"
proof -
  have inv: "stands env st (s_cluster (cp_service p)) p" "in_service (s_cluster (cp_service p))"
    using run_inv [OF assms(1)] by (simp_all add: plane_inv_def)
  have "recover env (renamed env p) = (renamed env p, Ok (snapshot_recovered p, cp_sequence p))"
    using compacted_journals(2) [OF inv(1)] assms(2) by (intro snapshot_recovers) (simp_all add: renamed_def)
  moreover have "recover env (cp_disk (compact env p)) = (cp_disk (compact env p), Ok (snapshot_recovered p, cp_sequence p))"
    using compacted_journals(1) assms(2) by (intro snapshot_recovers) (simp_all add: compact_def renamed_def)
  ultimately show ?thesis using recovered_of_snapshot [OF inv(2)] by auto
qed

theorem compaction_crash_safe_witness:
  "\<exists>rv. recover sample_environment (renamed sample_environment sample_submitted) =
       (renamed sample_environment sample_submitted, Ok (rv, cp_sequence sample_submitted)) \<and>
     recover sample_environment (cp_disk (compact sample_environment sample_submitted)) =
       (cp_disk (compact sample_environment sample_submitted), Ok (rv, cp_sequence sample_submitted)) \<and>
     same_authority (s_cluster (rv_service rv)) (s_cluster (cp_service sample_submitted)) \<and>
     state_snapshot (rv_service rv) = state_snapshot (cp_service sample_submitted) \<and> rv_sequence rv = cp_sequence sample_submitted"
  by (rule compaction_crash_safe [OF sample_run sample_reads_back])

text \<open>
  C9. An acknowledged submission survives: when the plane answers a client that its request was accepted, and crashes afterwards, the recovered
  controller has the request in its queue with its workload, or a lease that carries it. The hypothesis on the sink says that the last
  state it wrote is the one in the files.
\<close>

theorem submission_survives:
  assumes "plane_run env st p" and "cp_last_state p = [] \<or> cp_last_state p = jc_state (pe_journal env) st"
    and "call = CallRequest now reply read_log (CqSubmit spec)" and "calls = durable_calls (fst (perform env call (cp_service p)))"
    and "faithful_calls env calls p" and "list_all (\<lambda>c. encodes (pe_journal env) (snd c)) calls"
    and "through_sink env (perform env call) p = Some (p', Done (Some (SrSubmitted i lease)))" and "newline \<notin> set torn"
  shows "\<exists>rv compacted. recover env (torn_disk torn (cp_disk p')) = (cp_disk p', Ok (rv, compacted)) \<and>
    knows i (state_snapshot (rv_service rv))"
proof -
  have run: "plane_run env (durable_state env calls p st) p'"
    using Operate [OF assms(1,7,4,5)] .
  obtain s where s: "perform env call (cp_service p) = (s, Done (Some (SrSubmitted i lease)))"
    using assms(7) by (cases "perform env call (cp_service p)") (auto simp: through_sink_def)
  have "calls \<noteq> [] \<and> knows i (snd (last calls))"
    using submission_performed [of env now reply read_log spec "cp_service p"] run_inv [OF assms(1)] s
    by (simp add: assms(3,4) plane_inv_def)
  moreover obtain q where "sink_calls env calls p = Some q"
    using assms(4,7) s by (auto simp: through_sink_def)
  ultimately have "knows i (durable_state env calls p st)"
    using durable_last [OF assms(2,6)] by simp
  moreover have "stands env (durable_state env calls p st) (s_cluster (cp_service p')) p'"
    using run_inv [OF run] by (simp add: plane_inv_def)
  ultimately show ?thesis using stands_recover [OF _ assms(8)] by metis
qed

theorem submission_survives_witness:
  "\<exists>rv compacted. recover sample_environment (torn_disk [7] (cp_disk sample_submitted)) = (cp_disk sample_submitted, Ok (rv, compacted)) \<and>
     knows 1 (state_snapshot (rv_service rv))"
  by (rule submission_survives [OF sample_fresh _ sample_call_def sample_performed [symmetric] sample_faithful(1) _ sample_through])
    (simp_all add: sample_faithful(2) newline_def, simp add: sample_plane_def recovered_plane_def)

end
