(* ===== verification/Node_Runtime.thy ===== *)
theory Node_Runtime
  imports Node_Discover "HOL-Library.Sublist"
begin

text \<open>
  The runtimes of an agent on Linux: cgroups (\<^verbatim>\<open>crates/node/src/cgroup.rs\<close>), processes (\<^verbatim>\<open>runtime.rs\<close>), containers
  (\<^verbatim>\<open>container.rs\<close>) and the supervisor over both (\<^verbatim>\<open>executor.rs\<close>). The operating system is the parameter \<open>os\<close>: what it answers to a
  call may depend on every call before, so it is a function of the trace of calls, the newest first. Operations take the trace and return the
  longer one. Texts of errors come from the operating system. What is inside a call (the fork of \<^verbatim>\<open>linux_process.rs\<close>, the filter program, the
  wait for a group to drain) is the operating system's.
\<close>

section \<open>The operating system\<close>

text \<open>A cgroup is its directory: that of a lease or of a probe.\<close>

datatype cgroup = LeaseGroup string lease_id | ProbeGroup string nat

datatype os_action =
    CreateRoot string
  | ReadControl string
  | WriteControl string string
  | MakeGroup cgroup
  | WriteGroup cgroup string string
  | RemoveGroup cgroup
  | ReadAffinity
  | ReadMempolicy
  | ReadOnlineNodes
  | ProbeFilter cgroup
  | ProbeSpawn cgroup
  | CreateLogDir
  | OpenLog lease_id
  | CloneLog lease_id
  | ReadLog lease_id
  | AttachFilter cgroup "device_access list"
  | SpawnInGroup cgroup string "string list"
  | SpawnStandard lease_id string "string list"
  | TryWait lease_id
  | Wait lease_id
  | Kill lease_id
  | Drain cgroup u32
  | EngineRun lease_id "string list"
  | EngineStop string u32
  | EngineRemove lease_id string
  | EngineInspect string string
  | EngineLogs string

datatype os_value =
    Nothing
  | Existed
  | Text string
  | Numbers "u32 list"
  | StillRuns
  | Ended "int option"
  | Output bool string string

type_synonym os_trace = "os_action list"
type_synonym os = "os_trace \<Rightarrow> (os_value, string) result"

text \<open>A call of which only success matters.\<close>

definition ask :: "os \<Rightarrow> os_action \<Rightarrow> os_trace \<Rightarrow> os_trace \<times> (unit, string) result" where
  "ask os a t = (a # t, case os (a # t) of Ok _ \<Rightarrow> Ok () | Err e \<Rightarrow> Err e)"

definition then_ask ::
    "os_trace \<times> ('a, string) result \<Rightarrow> (os_trace \<Rightarrow> 'a \<Rightarrow> os_trace \<times> ('b, string) result) \<Rightarrow> os_trace \<times> ('b, string) result" where
  "then_ask m k = (case m of (t, Ok x) \<Rightarrow> k t x | (t, Err e) \<Rightarrow> (t, Err e))"

section \<open>Cgroups\<close>

definition required_controllers :: "lease_limits \<Rightarrow> string list" where
  "required_controllers limits =
     (if ll_cpu_count limits > 0 then [''cpu''] else []) @ (if ll_memory_bytes limits > 0 then [''memory''] else []) @
     (if cp_cpus (ll_placement limits) \<noteq> [] \<or> cp_mems (ll_placement limits) \<noteq> [] then [''cpuset''] else [])"

definition missing_controllers :: "lease_limits \<Rightarrow> string \<Rightarrow> string list" where
  "missing_controllers limits current =
     filter (\<lambda>controller. controller \<notin> set (split_whitespace current)) (required_controllers limits)"

definition enable_controllers :: "os \<Rightarrow> string \<Rightarrow> lease_limits \<Rightarrow> os_trace \<Rightarrow> os_trace \<times> (unit, string) result" where
  "enable_controllers os root limits t =
     (if required_controllers limits = [] then (t, Ok ())
      else
        let t' = ReadControl root # t
        in case os t' of
             Err e \<Rightarrow> (t', Err e)
           | Ok (Text current) \<Rightarrow>
               if missing_controllers limits current = [] then (t', Ok ())
               else ask os (WriteControl root (join '' '' (map (\<lambda>controller. CHR ''+'' # controller) (missing_controllers limits current)))) t'
           | Ok _ \<Rightarrow> (t', Err []))"

definition prepare_root :: "os \<Rightarrow> string \<Rightarrow> lease_limits \<Rightarrow> os_trace \<Rightarrow> os_trace \<times> (unit, string) result" where
  "prepare_root os root limits t = then_ask (ask os (CreateRoot root) t) (\<lambda>t _. enable_controllers os root limits t)"

text \<open>The files that hold the limits and what is written to them, in order.\<close>

definition limit_writes :: "lease_limits \<Rightarrow> ((string \<times> string) list, string) result" where
  "limit_writes limits =
     (if 2 ^ 64 \<le> uint (ll_cpu_count limits) * 100000 then Err ''cpu quota overflow''
      else Ok
        ((if ll_cpu_count limits > 0
          then [(''cpu.max'', show_u64 (ll_cpu_count limits * 100000) @ '' 100000'')] else []) @
         (if ll_memory_bytes limits > 0
          then [(''memory.max'', show_u64 (ll_memory_bytes limits)), (''memory.swap.max'', ''0'')] else []) @
         (if cp_cpus (ll_placement limits) \<noteq> [] then [(''cpuset.cpus'', cpu_list_render (cp_cpus (ll_placement limits)))] else []) @
         (if cp_mems (ll_placement limits) \<noteq> [] then [(''cpuset.mems'', cpu_list_render (cp_mems (ll_placement limits)))] else [])))"

fun write_files :: "os \<Rightarrow> cgroup \<Rightarrow> (string \<times> string) list \<Rightarrow> os_trace \<Rightarrow> os_trace \<times> (unit, string) result" where
  "write_files os cg [] t = (t, Ok ())"
| "write_files os cg ((name, content) # files) t =
     then_ask (ask os (WriteGroup cg name content) t) (\<lambda>t _. write_files os cg files t)"

definition configure_limits :: "os \<Rightarrow> cgroup \<Rightarrow> lease_limits \<Rightarrow> os_trace \<Rightarrow> os_trace \<times> (unit, string) result" where
  "configure_limits os cg limits t =
     (case limit_writes limits of Err e \<Rightarrow> (t, Err e) | Ok files \<Rightarrow> write_files os cg files t)"

definition group_kill :: "os \<Rightarrow> cgroup \<Rightarrow> os_trace \<Rightarrow> os_trace \<times> (unit, string) result" where
  "group_kill os cg t = ask os (WriteGroup cg ''cgroup.kill'' ''1'') t"

definition group_destroy :: "os \<Rightarrow> cgroup \<Rightarrow> os_trace \<Rightarrow> os_trace \<times> (unit, string) result" where
  "group_destroy os cg t = ask os (RemoveGroup cg) t"

text \<open>Removal after a failure; its own errors are ignored.\<close>

definition discard_group :: "os \<Rightarrow> cgroup \<Rightarrow> os_trace \<Rightarrow> os_trace" where
  "discard_group os cg t = fst (group_destroy os cg (fst (group_kill os cg t)))"

definition make_group :: "os \<Rightarrow> cgroup \<Rightarrow> os_trace \<Rightarrow> os_trace \<times> (unit, string) result" where
  "make_group os cg t =
     (let t' = MakeGroup cg # t
      in case os t' of
           Err e \<Rightarrow> (t', Err e)
         | Ok Existed \<Rightarrow> group_kill os cg t'
         | Ok _ \<Rightarrow> (t', Ok ()))"

definition cgroup_create :: "os \<Rightarrow> string \<Rightarrow> lease_id \<Rightarrow> lease_limits \<Rightarrow> os_trace \<Rightarrow> os_trace \<times> (cgroup, string) result" where
  "cgroup_create os root lease limits t =
     (let cg = LeaseGroup root lease
      in then_ask (prepare_root os root limits t) (\<lambda>t _.
         then_ask (make_group os cg t) (\<lambda>t _.
           case configure_limits os cg limits t of
             (t, Ok _) \<Rightarrow> (t, Ok cg)
           | (t, Err e) \<Rightarrow> (discard_group os cg t, Err e))))"

text \<open>The counter of probes is global; it is the number of probe groups made before.\<close>

fun probe_count :: "os_trace \<Rightarrow> nat" where
  "probe_count [] = 0"
| "probe_count (a # t) = (case a of MakeGroup (ProbeGroup _ _) \<Rightarrow> 1 | _ \<Rightarrow> 0) + probe_count t"

definition create_probe :: "os \<Rightarrow> string \<Rightarrow> lease_limits \<Rightarrow> os_trace \<Rightarrow> os_trace \<times> (cgroup, string) result" where
  "create_probe os root limits t =
     then_ask (prepare_root os root limits t) (\<lambda>t _.
       let cg = ProbeGroup root (probe_count t)
       in then_ask (ask os (MakeGroup cg) t) (\<lambda>t _.
            case configure_limits os cg limits t of
              (t, Ok _) \<Rightarrow> (t, Ok cg)
            | (t, Err e) \<Rightarrow> (fst (group_destroy os cg t), Err e)))"

section \<open>Processes\<close>

datatype work_status = Gone | Running | Exited int

text \<open>\<open>rt_children\<close> says of a tracked child whether it was started in a cgroup.\<close>

record process_runtime =
  rt_children :: "(lease_id, bool) btree"
  rt_groups :: "(lease_id, cgroup) btree"
  rt_cgroup_root :: "string option"

definition process_runtime_new :: "string option \<Rightarrow> process_runtime" where
  "process_runtime_new root = \<lparr>rt_children = btree_empty, rt_groups = btree_empty, rt_cgroup_root = root\<rparr>"

text \<open>The last 64 KiB of the log.\<close>

definition read_log :: "os \<Rightarrow> lease_id \<Rightarrow> os_trace \<Rightarrow> os_trace \<times> string" where
  "read_log os lease t =
     (let t' = ReadLog lease # t
      in (t', case os t' of
                Ok (Text bytes) \<Rightarrow> if length bytes > 64 * 1024 then drop (length bytes - 64 * 1024) bytes else bytes
              | _ \<Rightarrow> []))"

subsection \<open>Capabilities\<close>

definition no_limits :: lease_limits where
  "no_limits = \<lparr>ll_cpu_count = 0, ll_memory_bytes = 0, ll_placement = \<lparr>cp_cpus = [], cp_mems = []\<rparr>\<rparr>"

definition probe_process_limit :: "os \<Rightarrow> string \<Rightarrow> lease_limits \<Rightarrow> os_trace \<Rightarrow> os_trace \<times> bool" where
  "probe_process_limit os root limits t =
     (case create_probe os root limits t of
        (t, Err e) \<Rightarrow> (t, False)
      | (t, Ok cg) \<Rightarrow>
          let (t, proof_result) = ask os (ProbeSpawn cg) t;
              (t, cleanup) = group_destroy os cg t
          in (t, is_ok proof_result \<and> is_ok cleanup))"

definition probe_device_isolation :: "os \<Rightarrow> string \<Rightarrow> os_trace \<Rightarrow> os_trace \<times> bool" where
  "probe_device_isolation os root t =
     (case create_probe os root no_limits t of
        (t, Err e) \<Rightarrow> (t, False)
      | (t, Ok cg) \<Rightarrow>
          let (t, filter_result) = ask os (ProbeFilter cg) t;
              (t, process) = (if is_ok filter_result then ask os (ProbeSpawn cg) t else (t, Ok ()));
              (t, cleanup) = group_destroy os cg t
          in (t, is_ok filter_result \<and> is_ok process \<and> is_ok cleanup))"

definition sched_affinity_list :: "os \<Rightarrow> os_trace \<Rightarrow> os_trace \<times> u32 list" where
  "sched_affinity_list os t =
     (let t' = ReadAffinity # t in (t', case os t' of Ok (Numbers numbers) \<Rightarrow> numbers | _ \<Rightarrow> []))"

definition numa_mems_list :: "os \<Rightarrow> os_trace \<Rightarrow> os_trace \<times> u32 list" where
  "numa_mems_list os t =
     (let t' = ReadMempolicy # t
      in case os t' of
           Ok (Numbers numbers) \<Rightarrow> (t', numbers)
         | _ \<Rightarrow>
             let t'' = ReadOnlineNodes # t'
             in (t'', case os t'' of
                        Ok (Text list) \<Rightarrow> (case parse_cpu_list (trim list) of Ok numbers \<Rightarrow> numbers | Err _ \<Rightarrow> [])
                      | _ \<Rightarrow> []))"

definition probe_placement :: "os \<Rightarrow> string \<Rightarrow> u32 list \<Rightarrow> u32 list \<Rightarrow> os_trace \<Rightarrow> os_trace \<times> bool" where
  "probe_placement os root cpus mems t =
     (if cpus = [] \<or> mems = [] then (t, False)
      else case create_probe os root (no_limits\<lparr>ll_placement := \<lparr>cp_cpus = cpus, cp_mems = mems\<rparr>\<rparr>) t of
        (t, Err e) \<Rightarrow> (t, False)
      | (t, Ok cg) \<Rightarrow> (case group_destroy os cg t of (t, cleanup) \<Rightarrow> (t, is_ok cleanup)))"

definition process_capabilities :: "os \<Rightarrow> process_runtime \<Rightarrow> os_trace \<Rightarrow> os_trace \<times> runtime_capabilities" where
  "process_capabilities os rt t =
     (case rt_cgroup_root rt of
        None \<Rightarrow> (t, runtime_capabilities_default\<lparr>rc_available := True\<rparr>)
      | Some root \<Rightarrow>
          let (t, cpu_limit) = probe_process_limit os root (no_limits\<lparr>ll_cpu_count := 1\<rparr>) t;
              (t, memory_limit) = probe_process_limit os root (no_limits\<lparr>ll_memory_bytes := 2 ^ 20\<rparr>) t;
              (t, device_isolation) = probe_device_isolation os root t;
              (t, cpus) = sched_affinity_list os t;
              (t, mems) = numa_mems_list os t;
              (t, placement) = probe_placement os root cpus mems t
          in (t, \<lparr>rc_available = True, rc_cpu_limit = cpu_limit, rc_memory_limit = memory_limit, rc_device_isolation = device_isolation,
                  rc_physical_cpu_placement = placement, rc_numa_memory_placement = placement\<rparr>))"

subsection \<open>Starting\<close>

definition spawn_in_group ::
    "os \<Rightarrow> lease_id \<Rightarrow> string \<Rightarrow> string list \<Rightarrow> device_access list \<Rightarrow> cgroup \<Rightarrow> os_trace \<Rightarrow> process_runtime \<Rightarrow>
       os_trace \<times> process_runtime \<times> (unit, string) result" where
  "spawn_in_group os lease program args devices cg t rt =
     (case (if devices = [] then (t, Ok ()) else ask os (AttachFilter cg devices) t) of
        (t, Err e) \<Rightarrow>
          (discard_group os cg t, rt, Err (''device enforcement for lease '' @ display_lease lease @ '': '' @ e))
      | (t, Ok _) \<Rightarrow>
          (case ask os (SpawnInGroup cg program args) t of
             (t, Ok _) \<Rightarrow>
               (t, rt\<lparr>rt_groups := btree_insert lease cg (rt_groups rt), rt_children := btree_insert lease True (rt_children rt)\<rparr>, Ok ())
           | (t, Err e) \<Rightarrow> (discard_group os cg t, rt, Err (''spawn '' @ program @ '': '' @ e))))"

definition spawn_standard ::
    "os \<Rightarrow> lease_id \<Rightarrow> string \<Rightarrow> string list \<Rightarrow> os_trace \<Rightarrow> process_runtime \<Rightarrow> os_trace \<times> process_runtime \<times> (unit, string) result" where
  "spawn_standard os lease program args t rt =
     (case ask os (CloneLog lease) t of
        (t, Err e) \<Rightarrow> (t, rt, Err e)
      | (t, Ok _) \<Rightarrow>
          (case ask os (SpawnStandard lease program args) t of
             (t, Err e) \<Rightarrow> (t, rt, Err (''spawn '' @ program @ '': '' @ e))
           | (t, Ok _) \<Rightarrow> (t, rt\<lparr>rt_children := btree_insert lease False (rt_children rt)\<rparr>, Ok ())))"

definition process_activate ::
    "os \<Rightarrow> lease_id \<Rightarrow> string list \<Rightarrow> lease_limits \<Rightarrow> device_access list \<Rightarrow> os_trace \<Rightarrow> process_runtime \<Rightarrow>
       os_trace \<times> process_runtime \<times> (unit, string) result" where
  "process_activate os lease command limits devices t rt =
     (if btree_contains_key (rt_children rt) lease then (t, rt, Ok ())
      else case command of
        [] \<Rightarrow> (t, rt, Err (''lease '' @ display_lease lease @ '' has no command to execute''))
      | program # args \<Rightarrow>
          if devices \<noteq> [] \<and> rt_cgroup_root rt = None
          then (t, rt, Err (''lease '' @ display_lease lease @
                 '' has device claims but process device enforcement requires a cgroup v2 root''))
          else case then_ask (ask os CreateLogDir t) (\<lambda>t _. ask os (OpenLog lease) t) of
            (t, Err e) \<Rightarrow> (t, rt, Err e)
          | (t, Ok _) \<Rightarrow>
              (case rt_cgroup_root rt of
                 Some root \<Rightarrow>
                   if limits_is_empty limits \<and> devices = [] then spawn_standard os lease program args t rt
                   else (case cgroup_create os root lease limits t of
                           (t, Err e) \<Rightarrow> (t, rt, Err e)
                         | (t, Ok cg) \<Rightarrow> spawn_in_group os lease program args devices cg t rt)
               | None \<Rightarrow> spawn_standard os lease program args t rt))"

subsection \<open>Stopping\<close>

text \<open>A child that was seen to have ended remembers it: waiting for it needs no call.\<close>

definition reap :: "os \<Rightarrow> lease_id \<Rightarrow> os_trace \<Rightarrow> process_runtime \<Rightarrow> os_trace \<times> process_runtime \<times> (bool, string) result" where
  "reap os lease t rt =
     (if \<not> btree_contains_key (rt_children rt) lease then (t, rt, Ok False)
      else
        let rt' = rt\<lparr>rt_children := btree_remove lease (rt_children rt)\<rparr>;
            t1 = TryWait lease # t
        in case os t1 of
             Ok (Ended _) \<Rightarrow> (t1, rt', Ok False)
           | polled \<Rightarrow>
               (case ask os (Wait lease) t1 of
                  (t2, Ok _) \<Rightarrow> (t2, rt', Ok (polled = Ok StillRuns))
                | (t2, Err e) \<Rightarrow> (t2, rt', Err (''reap lease '' @ display_lease lease @ '': '' @ e))))"

definition terminate_child :: "os \<Rightarrow> lease_id \<Rightarrow> os_trace \<Rightarrow> process_runtime \<Rightarrow> os_trace \<times> process_runtime \<times> (bool, string) result" where
  "terminate_child os lease t rt =
     (if \<not> btree_contains_key (rt_children rt) lease then (t, rt, Ok False)
      else
        let rt' = rt\<lparr>rt_children := btree_remove lease (rt_children rt)\<rparr>;
            t1 = TryWait lease # t
        in case os t1 of
             Ok (Ended _) \<Rightarrow> (t1, rt', Ok False)
           | Ok _ \<Rightarrow>
               (case ask os (Kill lease) t1 of
                  (t2, Err e) \<Rightarrow> (t2, rt', Err (''kill lease '' @ display_lease lease @ '': '' @ e))
                | (t2, Ok _) \<Rightarrow>
                    (case ask os (Wait lease) t2 of
                       (t3, Err e) \<Rightarrow> (t3, rt', Err (''reap lease '' @ display_lease lease @ '': '' @ e))
                     | (t3, Ok _) \<Rightarrow> (t3, rt', Ok True)))
           | Err e \<Rightarrow> (t1, rt', Err (''poll lease '' @ display_lease lease @ '': '' @ e)))"

definition process_terminate :: "os \<Rightarrow> lease_id \<Rightarrow> os_trace \<Rightarrow> process_runtime \<Rightarrow> os_trace \<times> process_runtime \<times> (bool, string) result" where
  "process_terminate os lease t rt =
     (case btree_get (rt_groups rt) lease of
        None \<Rightarrow> terminate_child os lease t rt
      | Some cg \<Rightarrow>
          (case group_kill os cg t of
             (t, Err e) \<Rightarrow> (t, rt, Err e)
           | (t, Ok _) \<Rightarrow>
               (case reap os lease t rt of
                  (t, rt, Err e) \<Rightarrow> (t, rt, Err e)
                | (t, rt, Ok killed) \<Rightarrow>
                    (fst (group_destroy os cg t), rt\<lparr>rt_groups := btree_remove lease (rt_groups rt)\<rparr>, Ok killed))))"

definition process_status :: "os \<Rightarrow> lease_id \<Rightarrow> os_trace \<Rightarrow> process_runtime \<Rightarrow> os_trace \<times> process_runtime \<times> work_status" where
  "process_status os lease t rt =
     (if \<not> btree_contains_key (rt_children rt) lease then (t, rt, Gone)
      else
        let t' = TryWait lease # t
        in case os t' of
             Ok (Ended code) \<Rightarrow>
               (t', rt\<lparr>rt_children := btree_remove lease (rt_children rt)\<rparr>, Exited (case code of None \<Rightarrow> - 1 | Some code \<Rightarrow> code))
           | Ok _ \<Rightarrow> (t', rt, Running)
           | Err e \<Rightarrow> (t', rt, Gone))"

definition process_terminate_with_grace ::
    "os \<Rightarrow> lease_id \<Rightarrow> u32 \<Rightarrow> os_trace \<Rightarrow> process_runtime \<Rightarrow> os_trace \<times> process_runtime \<times> (bool, string) result" where
  "process_terminate_with_grace os lease grace_secs t rt =
     (if grace_secs = 0 then process_terminate os lease t rt
      else case btree_get (rt_groups rt) lease of
        None \<Rightarrow> process_terminate os lease t rt
      | Some cg \<Rightarrow> process_terminate os lease (fst (ask os (Drain cg grace_secs) t)) rt)"

text \<open>A dropped runtime leaves no workload behind.\<close>

definition process_drop :: "os \<Rightarrow> os_trace \<Rightarrow> process_runtime \<Rightarrow> os_trace \<times> process_runtime" where
  "process_drop os t rt =
     fold (\<lambda>lease (t, rt). case process_terminate os lease t rt of (t, rt, _) \<Rightarrow> (t, rt))
       (remdups (sort (btree_keys (rt_children rt) @ btree_keys (rt_groups rt)))) (t, rt)"

section \<open>Containers\<close>

record container_runtime =
  cr_engine :: string
  cr_namespace :: string
  cr_available :: bool
  cr_containers :: "(lease_id, string) btree"
  cr_relabels :: bool
  cr_use_cdi :: bool
  cr_cdi_spec_dir :: "string option"

definition contains_text :: "string \<Rightarrow> string \<Rightarrow> bool" where
  "contains_text pattern text \<longleftrightarrow> list_ex (prefix pattern) (suffixes text)"

text \<open>From the answer of the engine to \<^verbatim>\<open>--version\<close> and the two environment variables.\<close>

definition container_runtime_new ::
    "string \<Rightarrow> string \<Rightarrow> (bool \<times> string \<times> string) option \<Rightarrow> string option \<Rightarrow> string option \<Rightarrow> container_runtime" where
  "container_runtime_new engine namespace version use_cdi_var cdi_dir_var =
     (let version_text = (case version of None \<Rightarrow> [] | Some (_, stdout, stderr) \<Rightarrow> to_lowercase (stdout @ stderr));
          recognized = contains_text ''docker'' version_text \<or> contains_text ''podman'' version_text;
          available = (case version of None \<Rightarrow> False | Some (success, _, _) \<Rightarrow> success) \<and> recognized;
          relabels = available \<and> contains_text ''podman'' version_text;
          use_cdi = (case use_cdi_var of
            None \<Rightarrow> False | Some value \<Rightarrow> to_lowercase (trim value) \<in> {''1'', ''true'', ''yes''})
      in \<lparr>cr_engine = engine, cr_namespace = namespace, cr_available = available, cr_containers = btree_empty, cr_relabels = relabels,
          cr_use_cdi = use_cdi, cr_cdi_spec_dir = (if use_cdi \<and> relabels then cdi_dir_var else None)\<rparr>)"

definition container_capabilities :: "container_runtime \<Rightarrow> runtime_capabilities" where
  "container_capabilities cr =
     \<lparr>rc_available = cr_available cr, rc_cpu_limit = cr_available cr, rc_memory_limit = cr_available cr,
      rc_device_isolation = cr_available cr, rc_physical_cpu_placement = False, rc_numa_memory_placement = False\<rparr>"

definition container_name :: "container_runtime \<Rightarrow> lease_id \<Rightarrow> string" where
  "container_name cr lease = ''archon-'' @ cr_namespace cr @ ''-lease-'' @ show_u64 lease"

record execution_start =
  xs_command :: "string list"
  xs_limits :: lease_limits
  xs_image :: string
  xs_storage :: "storage_mount list"
  xs_ports :: "port_publish list"
  xs_grace_secs :: u32
  xs_devices :: "device_access list"

definition device_args :: "container_runtime \<Rightarrow> device_access \<Rightarrow> string list" where
  "device_args cr device =
     (case (cr_use_cdi cr, da_cdi device) of
        (True, Some cdi) \<Rightarrow> [''--device='' @ cdi]
      | _ \<Rightarrow> map (\<lambda>path. ''--device='' @ path @ '':'' @ path) (da_dev device # da_paths device))"

definition volume_arg :: "container_runtime \<Rightarrow> storage_mount \<Rightarrow> string" where
  "volume_arg cr mount = ''--volume='' @ sm_host_path mount @ '':'' @ sm_mount_path mount @ (if cr_relabels cr then '':Z'' else [])"

definition port_arg :: "port_publish \<Rightarrow> string" where
  "port_arg port =
     ''-p='' @ (case pp_host_port port of None \<Rightarrow> [] | Some host \<Rightarrow> show_nat (unat host) @ '':'') @ show_nat (unat (pp_container_port port))"

text \<open>The arguments of the engine.\<close>

definition run_args :: "container_runtime \<Rightarrow> lease_id \<Rightarrow> execution_start \<Rightarrow> string list" where
  "run_args cr lease start =
     (case cr_cdi_spec_dir cr of None \<Rightarrow> [] | Some dir \<Rightarrow> [''--cdi-spec-dir'', dir]) @
     [''run'', ''-d'', ''--name'', container_name cr lease, ''--pull'', ''missing''] @
     (if ll_cpu_count (xs_limits start) > 0 then [''--cpus='' @ show_u64 (ll_cpu_count (xs_limits start))] else []) @
     (if ll_memory_bytes (xs_limits start) > 0 then [''--memory='' @ show_u64 (ll_memory_bytes (xs_limits start)) @ ''b''] else []) @
     concat (map (device_args cr) (xs_devices start)) @ map (volume_arg cr) (xs_storage start) @ map port_arg (xs_ports start) @
     [xs_image start] @ xs_command start"

definition engine_failed :: "container_runtime \<Rightarrow> string \<Rightarrow> string \<Rightarrow> string" where
  "engine_failed cr what stderr = cr_engine cr @ what @ trim stderr"

definition container_activate ::
    "os \<Rightarrow> lease_id \<Rightarrow> execution_start \<Rightarrow> os_trace \<Rightarrow> container_runtime \<Rightarrow> os_trace \<times> container_runtime \<times> (unit, string) result" where
  "container_activate os lease start t cr =
     (if btree_contains_key (cr_containers cr) lease then (t, cr, Ok ())
      else
        let t' = EngineRun lease (run_args cr lease start) # t
        in case os t' of
             Err e \<Rightarrow> (t', cr, Err (''run '' @ cr_engine cr @ '': '' @ e))
           | Ok (Output True stdout stderr) \<Rightarrow>
               (t', cr\<lparr>cr_containers := btree_insert lease (container_name cr lease) (cr_containers cr)\<rparr>, Ok ())
           | Ok (Output False stdout stderr) \<Rightarrow> (t', cr, Err (engine_failed cr '' run failed: '' stderr))
           | Ok _ \<Rightarrow> (t', cr, Err []))"

definition is_tracked :: "container_runtime \<Rightarrow> lease_id \<Rightarrow> bool" where
  "is_tracked cr lease = btree_contains_key (cr_containers cr) lease"

text \<open>\<^verbatim>\<open>i32\<close> from decimal digits.\<close>

definition parse_i32 :: "string \<Rightarrow> int option" where
  "parse_i32 s =
     (let (negative, digits) = (case s of
            c # rest \<Rightarrow> if c = CHR ''-'' then (True, rest) else if c = CHR ''+'' then (False, rest) else (False, s)
          | [] \<Rightarrow> (False, s));
          value = (if negative then - int (digits_value digits) else int (digits_value digits))
      in if digits = [] \<or> \<not> list_all is_digit digits \<or> value < - (2 ^ 31) \<or> 2 ^ 31 \<le> value then None else Some value)"

definition container_status :: "os \<Rightarrow> lease_id \<Rightarrow> os_trace \<Rightarrow> container_runtime \<Rightarrow> os_trace \<times> work_status" where
  "container_status os lease t cr =
     (case btree_get (cr_containers cr) lease of
        None \<Rightarrow> (t, Gone)
      | Some name \<Rightarrow>
          let t1 = EngineInspect ''{{.State.Running}}'' name # t
          in case os t1 of
               Err e \<Rightarrow> (t1, Gone)
             | Ok running \<Rightarrow>
                 if (case running of Output True stdout stderr \<Rightarrow> trim stdout = ''true'' | _ \<Rightarrow> False) then (t1, Running)
                 else
                   let t2 = EngineInspect ''{{.State.ExitCode}}'' name # t1
                   in (t2, Exited (case os t2 of
                             Ok (Output True stdout stderr) \<Rightarrow> (case parse_i32 (trim stdout) of None \<Rightarrow> - 1 | Some code \<Rightarrow> code)
                           | _ \<Rightarrow> - 1)))"

definition container_logs :: "os \<Rightarrow> lease_id \<Rightarrow> os_trace \<Rightarrow> container_runtime \<Rightarrow> os_trace \<times> string" where
  "container_logs os lease t cr =
     (case btree_get (cr_containers cr) lease of
        None \<Rightarrow> (t, [])
      | Some name \<Rightarrow>
          let t' = EngineLogs name # t
          in (t', case os t' of Ok (Output success stdout stderr) \<Rightarrow> stdout @ stderr | _ \<Rightarrow> []))"

definition container_terminate_with_grace ::
    "os \<Rightarrow> lease_id \<Rightarrow> u32 \<Rightarrow> os_trace \<Rightarrow> container_runtime \<Rightarrow> os_trace \<times> container_runtime \<times> (bool, string) result" where
  "container_terminate_with_grace os lease grace_secs t cr =
     (case btree_get (cr_containers cr) lease of
        None \<Rightarrow> (t, cr, Ok False)
      | Some name \<Rightarrow>
          let t1 = EngineStop name grace_secs # t
          in case os t1 of
               Err e \<Rightarrow> (t1, cr, Err (cr_engine cr @ '' stop: '' @ e))
             | Ok (Output True stdout stderr) \<Rightarrow>
                 (let t2 = EngineRemove lease name # t1
                  in case os t2 of
                       Err e \<Rightarrow> (t2, cr, Err (cr_engine cr @ '' rm: '' @ e))
                     | Ok (Output True stdout stderr) \<Rightarrow> (t2, cr\<lparr>cr_containers := btree_remove lease (cr_containers cr)\<rparr>, Ok True)
                     | Ok (Output False stdout stderr) \<Rightarrow> (t2, cr, Err (engine_failed cr ('' rm '' @ name @ '': '') stderr))
                     | Ok _ \<Rightarrow> (t2, cr, Err []))
             | Ok (Output False stdout stderr) \<Rightarrow> (t1, cr, Err (engine_failed cr ('' stop '' @ name @ '': '') stderr))
             | Ok _ \<Rightarrow> (t1, cr, Err []))"

text \<open>Removal without a grace period.\<close>

definition container_terminate ::
    "os \<Rightarrow> lease_id \<Rightarrow> os_trace \<Rightarrow> container_runtime \<Rightarrow> os_trace \<times> container_runtime \<times> (bool, string) result" where
  "container_terminate os lease t cr =
     (case btree_get (cr_containers cr) lease of
        None \<Rightarrow> (t, cr, Ok False)
      | Some name \<Rightarrow>
          let cr' = cr\<lparr>cr_containers := btree_remove lease (cr_containers cr)\<rparr>;
              t' = EngineRemove lease name # t
          in case os t' of
               Err e \<Rightarrow> (t', cr', Err (cr_engine cr @ '' rm: '' @ e))
             | Ok (Output success stdout stderr) \<Rightarrow> (t', cr', Ok success)
             | Ok _ \<Rightarrow> (t', cr', Err []))"

section \<open>The supervisor\<close>

record supervisor =
  sp_process :: process_runtime
  sp_containers :: container_runtime
  sp_grace :: "(lease_id, u32) btree"

definition supervisor_new :: "process_runtime \<Rightarrow> container_runtime \<Rightarrow> supervisor" where
  "supervisor_new rt cr = \<lparr>sp_process = rt, sp_containers = cr, sp_grace = btree_empty\<rparr>"

definition supervisor_capabilities :: "os \<Rightarrow> supervisor \<Rightarrow> os_trace \<Rightarrow> os_trace \<times> execution_capabilities" where
  "supervisor_capabilities os sp t =
     (case process_capabilities os (sp_process sp) t of
        (t, capabilities) \<Rightarrow> (t, \<lparr>ec_process = capabilities, ec_container = container_capabilities (sp_containers sp)\<rparr>))"

definition supervisor_start ::
    "os \<Rightarrow> lease_id \<Rightarrow> execution_start \<Rightarrow> os_trace \<Rightarrow> supervisor \<Rightarrow> os_trace \<times> supervisor \<times> (unit, string) result" where
  "supervisor_start os lease start t sp =
     (if xs_image start = [] \<and> (xs_storage start \<noteq> [] \<or> xs_ports start \<noteq> [])
      then (t, sp, Err ''volumes and published ports need an OCI image'')
      else
        let (t, sp, result) =
              (if xs_image start = [] then
                 (case process_activate os lease (xs_command start) (xs_limits start) (xs_devices start) t (sp_process sp) of
                    (t, rt, result) \<Rightarrow> (t, sp\<lparr>sp_process := rt\<rparr>, result))
               else
                 (case container_activate os lease start t (sp_containers sp) of
                    (t, cr, result) \<Rightarrow> (t, sp\<lparr>sp_containers := cr\<rparr>, result)))
        in (t, if is_ok result then sp\<lparr>sp_grace := btree_insert lease (xs_grace_secs start) (sp_grace sp)\<rparr> else sp, result))"

definition supervisor_status :: "os \<Rightarrow> lease_id \<Rightarrow> os_trace \<Rightarrow> supervisor \<Rightarrow> os_trace \<times> supervisor \<times> work_status" where
  "supervisor_status os lease t sp =
     (if is_tracked (sp_containers sp) lease
      then (case container_status os lease t (sp_containers sp) of (t, status) \<Rightarrow> (t, sp, status))
      else (case process_status os lease t (sp_process sp) of (t, rt, status) \<Rightarrow> (t, sp\<lparr>sp_process := rt\<rparr>, status)))"

definition supervisor_logs :: "os \<Rightarrow> lease_id \<Rightarrow> os_trace \<Rightarrow> supervisor \<Rightarrow> os_trace \<times> string" where
  "supervisor_logs os lease t sp =
     (if is_tracked (sp_containers sp) lease then container_logs os lease t (sp_containers sp) else read_log os lease t)"

definition supervisor_stop :: "os \<Rightarrow> lease_id \<Rightarrow> os_trace \<Rightarrow> supervisor \<Rightarrow> os_trace \<times> supervisor \<times> (bool, string) result" where
  "supervisor_stop os lease t sp =
     (let grace = btree_get_or 0 (sp_grace sp) lease;
          sp = sp\<lparr>sp_grace := btree_remove lease (sp_grace sp)\<rparr>
      in if is_tracked (sp_containers sp) lease
         then (case container_terminate_with_grace os lease grace t (sp_containers sp) of
                 (t, cr, result) \<Rightarrow> (t, sp\<lparr>sp_containers := cr\<rparr>, result))
         else (case process_terminate_with_grace os lease grace t (sp_process sp) of
                 (t, rt, result) \<Rightarrow> (t, sp\<lparr>sp_process := rt\<rparr>, result)))"

end
