(* ===== verification/Node_Agent.thy ===== *)
theory Node_Agent
  imports Node_Runtime
begin

text \<open>
  The agent on a machine (\<^verbatim>\<open>crates/node/src/agent.rs\<close>): the resource provider for bindings and the supervisor for programs behind one
  protocol. What discovery reports (\<^verbatim>\<open>try_describe\<close>) is an argument.
\<close>

record lease_agent =
  ag_provider :: resource_provider
  ag_execution :: supervisor
  ag_instance_id :: string
  ag_name :: "string option"

definition lease_agent_new :: "process_runtime \<Rightarrow> container_runtime \<Rightarrow> lease_agent" where
  "lease_agent_new rt cr =
     \<lparr>ag_provider = provider_new, ag_execution = supervisor_new rt cr, ag_instance_id = [], ag_name = None\<rparr>"

definition with_identity :: "string \<Rightarrow> string option \<Rightarrow> lease_agent \<Rightarrow> lease_agent" where
  "with_identity instance_id name a = a\<lparr>ag_instance_id := instance_id, ag_name := name\<rparr>"

definition agent_hello :: "(machine_description, string) result \<Rightarrow> lease_agent \<Rightarrow> agent_response" where
  "agent_hello described a =
     (case described of
        Err reason \<Rightarrow> RsFailed 0 (''device discovery incomplete: '' @ reason)
      | Ok d \<Rightarrow>
          RsWelcome (ag_instance_id a) (case ag_name a of None \<Rightarrow> md_name d | Some name \<Rightarrow> name) (md_cpus d) (md_memory_bytes d)
            (md_host_nodes d) (md_devices d))"

text \<open>The generation of an endpoint that a request names.\<close>

definition generation_of :: "u64 \<Rightarrow> u64 \<Rightarrow> u64 \<Rightarrow> binding_scope \<Rightarrow> u64 \<Rightarrow> u64 \<Rightarrow> u64 \<Rightarrow> endpoint_generation" where
  "generation_of i n provider scope session fence epoch =
     \<lparr>eg_binding = i, eg_node = n, eg_provider = provider, eg_scope = scope, eg_session = session, eg_fence = fence, eg_epoch = epoch\<rparr>"

definition closing_response :: "u64 \<Rightarrow> (u64 \<Rightarrow> agent_response) \<Rightarrow> ('a, string) result \<Rightarrow> agent_response" where
  "closing_response i done_response r = (case r of Ok _ \<Rightarrow> done_response i | Err reason \<Rightarrow> RsFailed i reason)"

fun agent_handle ::
    "os \<Rightarrow> (machine_description, string) result \<Rightarrow> agent_request \<Rightarrow> os_trace \<Rightarrow> lease_agent \<Rightarrow> os_trace \<times> lease_agent \<times> agent_response" where
  "agent_handle os described RqHello t a = (t, a, agent_hello described a)"
| "agent_handle os described RqCapabilities t a =
     (case supervisor_capabilities os (ag_execution a) t of (t, capabilities) \<Rightarrow> (t, a, RsCapabilities capabilities))"
| "agent_handle os described (RqRegister instance_id name cpus memory host_nodes devices) t a =
     (t, a, RsFailed 0 ''Register is not handled by an agent'')"
| "agent_handle os described (RqStatus lease) t a =
     (case supervisor_status os lease t (ag_execution a) of
        (t, sp, status) \<Rightarrow>
          (t, a\<lparr>ag_execution := sp\<rparr>, RsRunning lease (status = Running) (case status of Exited code \<Rightarrow> Some code | _ \<Rightarrow> None)))"
| "agent_handle os described (RqLogs lease) t a =
     (case supervisor_logs os lease t (ag_execution a) of (t, output) \<Rightarrow> (t, a, RsLogs lease output))"
| "agent_handle os described RqEnumerateBindings t a = (t, a, RsBindingsEnumerated (enumerate_endpoints (ag_provider a)))"
| "agent_handle os described (RqPrepare i lease n provider scope session fence epoch) t a =
     (case provider_prepare (ag_provider a) (generation_of i n provider scope session fence epoch) of
        (p, Ok handle) \<Rightarrow> (t, a\<lparr>ag_provider := p\<rparr>, RsPrepared i handle)
      | (p, Err reason) \<Rightarrow> (t, a\<lparr>ag_provider := p\<rparr>, RsFailed i reason))"
| "agent_handle os described (RqActivate i lease n provider scope session fence epoch) t a =
     (case provider_activate (ag_provider a) (generation_of i n provider scope session fence epoch) of
        (p, r) \<Rightarrow> (t, a\<lparr>ag_provider := p\<rparr>, closing_response i RsActivated r))"
| "agent_handle os described (RqStartExecution lease session epoch command limits img storage ports grace_secs devices) t a =
     (case authorize_execution (ag_provider a) session epoch of
        (p, Err reason) \<Rightarrow> (t, a\<lparr>ag_provider := p\<rparr>, RsExecutionFailed lease reason)
      | (p, Ok _) \<Rightarrow>
          (case supervisor_start os lease \<lparr>xs_command = command, xs_limits = limits, xs_image = img, xs_storage = storage, xs_ports = ports,
                  xs_grace_secs = grace_secs, xs_devices = devices\<rparr> t (ag_execution a) of
             (t, sp, Ok _) \<Rightarrow> (t, a\<lparr>ag_provider := p, ag_execution := sp\<rparr>, RsExecutionStarted lease)
           | (t, sp, Err reason) \<Rightarrow> (t, a\<lparr>ag_provider := p, ag_execution := sp\<rparr>, RsExecutionFailed lease reason)))"
| "agent_handle os described (RqRelease i lease n provider scope session fence epoch) t a =
     (case provider_release (ag_provider a) (generation_of i n provider scope session fence epoch) of
        (p, r) \<Rightarrow> (t, a\<lparr>ag_provider := p\<rparr>, closing_response i RsReleased r))"
| "agent_handle os described (RqFence i lease n provider scope session fence epoch) t a =
     (case provider_fence (ag_provider a) (generation_of i n provider scope session fence epoch) of
        (p, r) \<Rightarrow> (t, a\<lparr>ag_provider := p\<rparr>, closing_response i RsFenced r))"
| "agent_handle os described (RqStopExecution lease session epoch) t a =
     (case authorize_execution (ag_provider a) session epoch of
        (p, Err reason) \<Rightarrow> (t, a\<lparr>ag_provider := p\<rparr>, RsExecutionStopFailed lease reason)
      | (p, Ok _) \<Rightarrow>
          (case supervisor_stop os lease t (ag_execution a) of
             (t, sp, Ok _) \<Rightarrow> (t, a\<lparr>ag_provider := p, ag_execution := sp\<rparr>, RsExecutionStopped lease)
           | (t, sp, Err reason) \<Rightarrow> (t, a\<lparr>ag_provider := p, ag_execution := sp\<rparr>, RsExecutionStopFailed lease reason)))"

end
