(* ===== verification/Runtime_Tracking.thy ===== *)
theory Runtime_Tracking
  imports Node_Agent
begin

text \<open>
  What the runtimes of an agent know of the programs they started. From the trace of calls the theory reads which groups, children and
  containers were started and not seen to end; the invariant says that each of them is still tracked. The relation \<open>calm\<close> between traces covers every
  call that starts nothing.
\<close>

section \<open>What the calls prove\<close>

text \<open>
  The groups, children and containers that were started and not seen to end. A kill of a group ends everything in it; a child has ended when a wait
  for it returns; a container when its removal succeeds.
\<close>

fun live_groups :: "os \<Rightarrow> os_trace \<Rightarrow> cgroup set" where
  "live_groups os [] = {}"
| "live_groups os (a # t) =
     (case a of
        SpawnInGroup cg program args \<Rightarrow> if is_ok (os (a # t)) then insert cg (live_groups os t) else live_groups os t
      | WriteGroup cg name content \<Rightarrow> if name = ''cgroup.kill'' \<and> is_ok (os (a # t)) then live_groups os t - {cg} else live_groups os t
      | _ \<Rightarrow> live_groups os t)"

fun live_children :: "os \<Rightarrow> os_trace \<Rightarrow> lease_id set" where
  "live_children os [] = {}"
| "live_children os (a # t) =
     (case a of
        SpawnStandard lease program args \<Rightarrow> if is_ok (os (a # t)) then insert lease (live_children os t) else live_children os t
      | TryWait lease \<Rightarrow> (case os (a # t) of Ok (Ended _) \<Rightarrow> live_children os t - {lease} | _ \<Rightarrow> live_children os t)
      | Wait lease \<Rightarrow> if is_ok (os (a # t)) then live_children os t - {lease} else live_children os t
      | _ \<Rightarrow> live_children os t)"

fun live_containers :: "os \<Rightarrow> os_trace \<Rightarrow> lease_id set" where
  "live_containers os [] = {}"
| "live_containers os (a # t) =
     (case a of
        EngineRun lease args \<Rightarrow> (case os (a # t) of Ok (Output True _ _) \<Rightarrow> insert lease (live_containers os t) | _ \<Rightarrow> live_containers os t)
      | EngineRemove lease name \<Rightarrow> (case os (a # t) of Ok (Output True _ _) \<Rightarrow> live_containers os t - {lease} | _ \<Rightarrow> live_containers os t)
      | _ \<Rightarrow> live_containers os t)"

text \<open>The leases of which a poll, a kill or a wait failed.\<close>

fun lost :: "os \<Rightarrow> os_trace \<Rightarrow> lease_id set" where
  "lost os [] = {}"
| "lost os (a # t) =
     (case a of
        TryWait lease \<Rightarrow> if is_ok (os (a # t)) then lost os t else insert lease (lost os t)
      | Kill lease \<Rightarrow> if is_ok (os (a # t)) then lost os t else insert lease (lost os t)
      | Wait lease \<Rightarrow> if is_ok (os (a # t)) then lost os t else insert lease (lost os t)
      | _ \<Rightarrow> lost os t)"

text \<open>A program of the lease may still run.\<close>

definition may_run :: "os \<Rightarrow> os_trace \<Rightarrow> lease_id \<Rightarrow> bool" where
  "may_run os t lease \<longleftrightarrow>
     lease \<in> live_children os t \<or> lease \<in> live_containers os t \<or> (\<exists>root. LeaseGroup root lease \<in> live_groups os t)"

section \<open>Calls that start nothing\<close>

definition calm :: "os \<Rightarrow> os_trace \<Rightarrow> os_trace \<Rightarrow> bool" where
  "calm os t t' \<longleftrightarrow> live_groups os t' \<subseteq> live_groups os t \<and> live_children os t' \<subseteq> live_children os t \<and>
     live_containers os t' \<subseteq> live_containers os t \<and> lost os t \<subseteq> lost os t'"

fun starts :: "os_action \<Rightarrow> bool" where
  "starts (SpawnInGroup cg program args) = True"
| "starts (SpawnStandard lease program args) = True"
| "starts (EngineRun lease args) = True"
| "starts _ = False"

lemma calm_refl [simp]: "calm os t t"
  by (simp add: calm_def)

lemma calm_trans: "calm os t t' \<Longrightarrow> calm os t' t'' \<Longrightarrow> calm os t t''"
  by (auto simp: calm_def)

lemma calm_action: "\<not> starts a \<Longrightarrow> calm os t (a # t)"
  by (cases a) (auto simp: calm_def split: result.split os_value.split bool.split)

lemma calm_ask: "\<not> starts a \<Longrightarrow> calm os t (fst (ask os a t))"
  by (simp add: ask_def calm_action)

lemma calm_then:
  "calm os t (fst m) \<Longrightarrow> (\<And>u x. calm os u (fst (k u x))) \<Longrightarrow> calm os t (fst (then_ask m k))"
  by (auto simp: then_ask_def split: prod.split result.split intro: calm_trans) 

lemma calm_enable: "calm os t (fst (enable_controllers os root limits t))"
proof -
  have opened: "calm os t (ReadControl root # t)" by (simp add: calm_action)
  have written: "calm os t (fst (ask os (WriteControl root content) (ReadControl root # t)))" for content
    by (rule calm_trans [OF opened calm_ask]) simp
  show ?thesis using opened written by (simp add: enable_controllers_def Let_def split: result.split os_value.split)
qed

lemma calm_write_files: "calm os t (fst (write_files os cg files t))"
proof (induction files arbitrary: t)
  case (Cons f files)
  then show ?case by (cases f) (simp add: calm_then calm_ask)
qed simp

lemma calm_configure: "calm os t (fst (configure_limits os cg limits t))"
  by (simp add: configure_limits_def calm_write_files split: result.split)

lemma calm_group: "calm os t (fst (group_kill os cg t))" "calm os t (fst (group_destroy os cg t))" "calm os t (discard_group os cg t)"
proof -
  show kill: "calm os t (fst (group_kill os cg t))" for t by (simp add: group_kill_def calm_ask)
  show destroy: "calm os t (fst (group_destroy os cg t))" for t by (simp add: group_destroy_def calm_ask)
  show "calm os t (discard_group os cg t)" unfolding discard_group_def by (rule calm_trans [OF kill destroy])
qed

lemma calm_prepare: "calm os t (fst (prepare_root os root limits t))"
  unfolding prepare_root_def by (intro calm_then calm_ask calm_enable) simp

lemma calm_make: "calm os t (fst (make_group os cg t))"
proof -
  have made: "calm os t (MakeGroup cg # t)" by (simp add: calm_action)
  have "calm os t (fst (group_kill os cg (MakeGroup cg # t)))" by (rule calm_trans [OF made calm_group(1)])
  with made show ?thesis by (simp add: make_group_def Let_def split: result.split os_value.split)
qed

lemma calm_create: "calm os t (fst (cgroup_create os root lease limits t))"
proof -
  have "calm os u (fst (case configure_limits os cg limits u of (v, Ok x) \<Rightarrow> (v, Ok cg) | (v, Err e) \<Rightarrow> (discard_group os cg v, Err e)))" for u cg
    using calm_configure [of os u cg limits] calm_group(3) [of os _ cg]
    by (auto split: prod.split result.split intro: calm_trans)
  then show ?thesis
    unfolding cgroup_create_def Let_def by (intro calm_then calm_prepare calm_make)
qed

lemma calm_log: "calm os t (fst (then_ask (ask os CreateLogDir t) (\<lambda>t _. ask os (OpenLog lease) t)))"
  by (intro calm_then calm_ask) simp_all

section \<open>The invariant\<close>

text \<open>What may run is tracked, or its end could not be observed. Every tracked group belongs to its lease.\<close>

definition processes_ok :: "os \<Rightarrow> os_trace \<Rightarrow> process_runtime \<Rightarrow> bool" where
  "processes_ok os t rt \<longleftrightarrow>
     (\<forall>cg\<in>live_groups os t. \<exists>lease. btree_get (rt_groups rt) lease = Some cg) \<and>
     (\<forall>lease cg. btree_get (rt_groups rt) lease = Some cg \<longrightarrow> (\<exists>root. rt_cgroup_root rt = Some root \<and> cg = LeaseGroup root lease)) \<and>
     (\<forall>lease\<in>live_children os t. btree_get (rt_children rt) lease = Some False \<or> lease \<in> lost os t)"

definition containers_ok :: "os \<Rightarrow> os_trace \<Rightarrow> container_runtime \<Rightarrow> bool" where
  "containers_ok os t cr \<longleftrightarrow> (\<forall>lease\<in>live_containers os t. is_tracked cr lease)"

lemma processes_calm: "processes_ok os t rt \<Longrightarrow> calm os t t' \<Longrightarrow> processes_ok os t' rt"
  unfolding processes_ok_def calm_def by blast

lemma containers_calm: "containers_ok os t cr \<Longrightarrow> calm os t t' \<Longrightarrow> containers_ok os t' cr"
  unfolding containers_ok_def calm_def by blast

text \<open>Processes and containers do not disturb each other.\<close>

fun engine_start :: "os_action \<Rightarrow> bool" where
  "engine_start (EngineRun lease args) = True"
| "engine_start _ = False"

lemma containers_spawn: "containers_ok os t cr \<Longrightarrow> \<not> engine_start a \<Longrightarrow> containers_ok os (a # t) cr"
  by (cases a) (auto simp: containers_ok_def split: result.splits os_value.splits bool.splits)

lemma processes_engine: "processes_ok os t rt \<Longrightarrow> processes_ok os (EngineRun lease args # t) rt"
  by (simp add: processes_ok_def)

section \<open>Processes\<close>

text \<open>The outcome of an operation on the process runtime, with the trace before it.\<close>

definition keeps_processes :: "os \<Rightarrow> os_trace \<times> process_runtime \<times> 'r \<Rightarrow> bool" where
  "keeps_processes os out = (case out of (t, rt, r) \<Rightarrow> processes_ok os t rt)"

lemma keeps_group_spawn:
  assumes ok: "processes_ok os t rt" and cg: "cg = LeaseGroup root lease" "rt_cgroup_root rt = Some root"
    and fresh: "\<not> btree_contains_key (rt_children rt) lease"
  shows "keeps_processes os (spawn_in_group os lease program args devices cg t rt)"
proof -
  obtain t1 r where filter: "(if devices = [] then (t, Ok ()) else ask os (AttachFilter cg devices) t) = (t1, r)"
    by (cases "if devices = [] then (t, Ok ()) else ask os (AttachFilter cg devices) t")
  have "calm os t t1" using calm_ask [of "AttachFilter cg devices" os t] filter by (auto split: if_splits)
  with ok have ok1: "processes_ok os t1 rt" by (rule processes_calm)
  let ?spawn = "SpawnInGroup cg program args # t1"
  show ?thesis
  proof (cases "is_ok (os ?spawn)")
    case True
    have own: "\<exists>l. btree_get (btree_insert lease cg (rt_groups rt)) l = Some other" if other: "other \<in> live_groups os t1" for other
    proof -
      obtain l where l: "btree_get (rt_groups rt) l = Some other" using other ok1 unfolding processes_ok_def by blast
      then have "l = lease \<Longrightarrow> other = cg" using ok1 cg unfolding processes_ok_def by force
      with l show ?thesis by (intro exI [of _ l]) simp
    qed
    have own_self: "\<exists>l. btree_get (btree_insert lease cg (rt_groups rt)) l = Some cg" by (rule exI [of _ lease]) simp
    have "processes_ok os ?spawn (rt\<lparr>rt_groups := btree_insert lease cg (rt_groups rt), rt_children := btree_insert lease True (rt_children rt)\<rparr>)"
      unfolding processes_ok_def
    proof (intro conjI allI ballI impI)
      show "\<exists>l. btree_get (rt_groups (rt\<lparr>rt_groups := btree_insert lease cg (rt_groups rt), rt_children := btree_insert lease True (rt_children rt)\<rparr>)) l =
          Some other" if "other \<in> live_groups os ?spawn" for other
        using that own [of other] own_self True by (cases "other = cg") (auto simp del: btree_get_insert)
    qed (use ok1 cg fresh in \<open>auto simp: processes_ok_def btree_contains_key_def split: if_splits\<close>)
    with True ok1 calm_group(3) show ?thesis
      by (auto simp: keeps_processes_def spawn_in_group_def filter ask_def is_ok_iff intro: processes_calm split: result.split)
  next
    case False
    then have "processes_ok os ?spawn rt" using ok1 by (simp add: processes_ok_def)
    with False ok1 calm_group(3) show ?thesis
      by (auto simp: keeps_processes_def spawn_in_group_def filter ask_def is_ok_iff intro: processes_calm split: result.split)
  qed
qed

lemma keeps_standard_spawn:
  assumes ok: "processes_ok os t rt" and fresh: "\<not> btree_contains_key (rt_children rt) lease"
  shows "keeps_processes os (spawn_standard os lease program args t rt)"
proof -
  let ?clone = "CloneLog lease # t"
  let ?spawn = "SpawnStandard lease program args # ?clone"
  have clone: "processes_ok os ?clone rt" using ok by (simp add: processes_ok_def)
  have "processes_ok os ?spawn rt" if "\<not> is_ok (os ?spawn)" using that clone by (simp add: processes_ok_def)
  moreover have "processes_ok os ?spawn (rt\<lparr>rt_children := btree_insert lease False (rt_children rt)\<rparr>)" if "is_ok (os ?spawn)"
    using that clone fresh unfolding processes_ok_def by (auto simp: btree_get_insert btree_contains_key_def)
  ultimately show ?thesis
    using clone by (auto simp: keeps_processes_def spawn_standard_def ask_def is_ok_iff split: result.split)
qed

lemma keeps_process_activate:
  assumes ok: "processes_ok os t rt"
  shows "keeps_processes os (process_activate os lease command limits devices t rt)"
proof (cases "btree_contains_key (rt_children rt) lease \<or> command = [] \<or> devices \<noteq> [] \<and> rt_cgroup_root rt = None")
  case True
  then show ?thesis using ok by (auto simp: keeps_processes_def process_activate_def split: list.split)
next
  case False
  then obtain program args where command: "command = program # args" by (auto simp: neq_Nil_conv)
  have fresh: "\<not> btree_contains_key (rt_children rt) lease" using False by blast
  obtain t1 r where log: "then_ask (ask os CreateLogDir t) (\<lambda>t _. ask os (OpenLog lease) t) = (t1, r)"
    by (cases "then_ask (ask os CreateLogDir t) (\<lambda>t _. ask os (OpenLog lease) t)")
  have "calm os t t1" using calm_log [of os t lease] log by simp
  with ok have ok1: "processes_ok os t1 rt" by (rule processes_calm)
  show ?thesis
  proof (cases r)
    case (Err e)
    with False ok1 show ?thesis by (auto simp: process_activate_def command log keeps_processes_def)
  next
    case (Ok u)
    note plain = keeps_standard_spawn [OF ok1 fresh, of program args]
    show ?thesis
    proof (cases "rt_cgroup_root rt")
      case None
      with False Ok plain show ?thesis by (auto simp: process_activate_def command log)
    next
      case (Some root)
      obtain t2 made where create: "cgroup_create os root lease limits t1 = (t2, made)" by (cases "cgroup_create os root lease limits t1")
      have ok2: "processes_ok os t2 rt" using processes_calm [OF ok1] calm_create [of os t1 root lease limits] create by simp
      have "cg = LeaseGroup root lease" if "made = Ok cg" for cg
        using create that by (auto simp: cgroup_create_def Let_def then_ask_def split: prod.splits result.splits)
      then have "keeps_processes os (spawn_in_group os lease program args devices cg t2 rt)" if "made = Ok cg" for cg
        using that keeps_group_spawn [OF ok2 _ Some fresh] by blast
      with False Ok Some plain create ok2 show ?thesis
        by (auto simp: process_activate_def command log keeps_processes_def split: result.split)
    qed
  qed
qed

text \<open>Without its child and its group, a lease runs no process.\<close>

lemma processes_drop_child:
  assumes "processes_ok os t rt" and "calm os t t'" and "lease \<in> live_children os t' \<Longrightarrow> lease \<in> lost os t'"
  shows "processes_ok os t' (rt\<lparr>rt_children := btree_remove lease (rt_children rt)\<rparr>)"
  using assms unfolding processes_ok_def calm_def by (auto simp: btree_get_remove)

lemma keeps_reap:
  assumes "processes_ok os t rt"
  shows "keeps_processes os (reap os lease t rt)"
proof -
  let ?poll = "TryWait lease # t"
  have poll: "calm os t ?poll" "calm os t (Wait lease # ?poll)"
    using calm_action [of "TryWait lease" os t] calm_action [of "Wait lease" os ?poll] by (auto intro: calm_trans)
  show ?thesis
    using processes_drop_child [OF assms poll(1), of lease] processes_drop_child [OF assms poll(2), of lease] assms
    by (auto simp: keeps_processes_def reap_def Let_def ask_def split: result.splits os_value.splits)
qed

lemma keeps_terminate_child:
  assumes "processes_ok os t rt"
  shows "keeps_processes os (terminate_child os lease t rt)"
proof -
  let ?poll = "TryWait lease # t"
  have poll: "calm os t ?poll" "calm os t (Kill lease # ?poll)" "calm os t (Wait lease # Kill lease # ?poll)"
    using calm_action [of "TryWait lease" os t] calm_action [of "Kill lease" os ?poll] calm_action [of "Wait lease" os "Kill lease # ?poll"]
    by (auto intro: calm_trans)
  show ?thesis
    using processes_drop_child [OF assms poll(1), of lease] processes_drop_child [OF assms poll(2), of lease]
      processes_drop_child [OF assms poll(3), of lease] assms
    by (auto simp: keeps_processes_def terminate_child_def Let_def ask_def split: result.splits os_value.splits)
qed

text \<open>After a kill of the group and the reaping of its child, the group may be forgotten.\<close>

lemma reap_groups:
  "reap os lease t rt = (t', rt', r) \<Longrightarrow> calm os t t' \<and> rt_groups rt' = rt_groups rt \<and> rt_cgroup_root rt' = rt_cgroup_root rt"
  using calm_action [of "TryWait lease" os t] calm_trans [OF calm_action calm_action, of "TryWait lease" "Wait lease" os t]
  by (auto simp: reap_def Let_def ask_def split: if_splits result.splits os_value.splits)

lemma processes_drop_group:
  assumes "processes_ok os t rt" and "calm os t t'" and "btree_get (rt_groups rt) lease = Some cg" and "cg \<notin> live_groups os t'"
  shows "processes_ok os t' (rt\<lparr>rt_groups := btree_remove lease (rt_groups rt)\<rparr>)"
proof -
  have ok: "processes_ok os t' rt" using assms(1,2) by (rule processes_calm)
  have "\<exists>l. l \<noteq> lease \<and> btree_get (rt_groups rt) l = Some other" if "other \<in> live_groups os t'" for other
    using that ok assms(3,4) unfolding processes_ok_def by (metis option.inject)
  with ok show ?thesis unfolding processes_ok_def by (auto split: if_splits) (metis)
qed

lemma keeps_process_terminate:
  assumes ok: "processes_ok os t rt"
  shows "keeps_processes os (process_terminate os lease t rt)"
proof (cases "btree_get (rt_groups rt) lease")
  case None
  then show ?thesis using keeps_terminate_child [OF ok, of lease] by (simp add: process_terminate_def)
next
  case (Some cg)
  let ?kill = "WriteGroup cg ''cgroup.kill'' ''1'' # t"
  have ok1: "processes_ok os ?kill rt" using ok calm_action [of "WriteGroup cg ''cgroup.kill'' ''1''" os t] by (auto intro: processes_calm)
  obtain t2 rt2 r where reaped: "reap os lease ?kill rt = (t2, rt2, r)" by (cases "reap os lease ?kill rt")
  have ok2: "processes_ok os t2 rt2" using keeps_reap [OF ok1, of lease] reaped by (simp add: keeps_processes_def)
  have kept: "calm os ?kill t2" "btree_get (rt_groups rt2) lease = Some cg" using reap_groups [OF reaped] Some by simp_all
  have "processes_ok os (fst (group_destroy os cg t2)) (rt2\<lparr>rt_groups := btree_remove lease (rt_groups rt2)\<rparr>)" if "is_ok (os ?kill)"
  proof (rule processes_drop_group [OF ok2 calm_group(2) kept(2)])
    have "cg \<notin> live_groups os ?kill" using that by simp
    moreover have "live_groups os (fst (group_destroy os cg t2)) \<subseteq> live_groups os ?kill"
      using kept(1) calm_group(2) [of os t2 cg] unfolding calm_def by blast
    ultimately show "cg \<notin> live_groups os (fst (group_destroy os cg t2))" by blast
  qed
  with ok1 ok2 show ?thesis
    by (auto simp: process_terminate_def Some group_kill_def ask_def reaped keeps_processes_def is_ok_iff split: result.split)
qed

lemma keeps_process_status:
  assumes "processes_ok os t rt"
  shows "keeps_processes os (process_status os lease t rt)"
proof -
  have poll: "calm os t (TryWait lease # t)" by (simp add: calm_action)
  show ?thesis
    using processes_drop_child [OF assms poll, of lease] processes_calm [OF assms poll] assms
    by (auto simp: keeps_processes_def process_status_def Let_def split: result.splits os_value.splits)
qed

lemma keeps_terminate_with_grace:
  assumes "processes_ok os t rt"
  shows "keeps_processes os (process_terminate_with_grace os lease grace t rt)"
  using keeps_process_terminate [OF assms, of lease] keeps_process_terminate [OF processes_calm [OF assms calm_ask], of "Drain cg grace" for cg]
  by (auto simp: process_terminate_with_grace_def split: option.split)

text \<open>What a successful stop leaves tracked.\<close>

lemma terminate_untracks:
  assumes "process_terminate os lease t rt = (t', rt', Ok killed)"
  shows "btree_get (rt_groups rt') lease = None \<and> btree_get (rt_children rt') lease = None"
proof -
  have child: "btree_get (rt_children r) lease = None \<and> rt_groups r = rt_groups q" if "terminate_child os lease u q = (v, r, Ok b)" for u v q r b
    using that by (auto simp: terminate_child_def Let_def btree_contains_key_def split: if_splits result.splits os_value.splits prod.splits)
  have reaped: "btree_get (rt_children r) lease = None" if "reap os lease u q = (v, r, Ok b)" for u v q r b
    using that by (auto simp: reap_def Let_def btree_contains_key_def split: if_splits result.splits os_value.splits prod.splits)
  show ?thesis
    using assms child reaped
    by (auto simp: process_terminate_def split: option.splits prod.splits result.splits)
qed

lemma terminate_with_grace_untracks:
  "process_terminate_with_grace os lease grace t rt = (t', rt', Ok killed) \<Longrightarrow>
     btree_get (rt_groups rt') lease = None \<and> btree_get (rt_children rt') lease = None"
  using terminate_untracks by (auto simp: process_terminate_with_grace_def split: if_splits option.splits)

section \<open>Processes beside containers\<close>

definition tracks :: "process_runtime \<Rightarrow> lease_id set" where
  "tracks rt = {lease. btree_get (rt_children rt) lease \<noteq> None \<or> btree_get (rt_groups rt) lease \<noteq> None}"

lemma calm_reap: "calm os t (fst (reap os lease t rt))"
  using reap_groups [of os lease t rt] by (metis prod.collapse)

lemma calm_terminate_child: "calm os t (fst (terminate_child os lease t rt))"
proof -
  let ?poll = "TryWait lease # t"
  have poll: "calm os t ?poll" "calm os t (Kill lease # ?poll)" "calm os t (Wait lease # Kill lease # ?poll)"
    using calm_action [of "TryWait lease" os t] calm_action [of "Kill lease" os ?poll] calm_action [of "Wait lease" os "Kill lease # ?poll"]
    by (auto intro: calm_trans)
  then show ?thesis by (auto simp: terminate_child_def Let_def ask_def split: result.splits os_value.splits)
qed

lemma calm_process_terminate: "calm os t (fst (process_terminate os lease t rt))"
proof (cases "btree_get (rt_groups rt) lease")
  case None
  then show ?thesis by (simp add: process_terminate_def calm_terminate_child)
next
  case (Some cg)
  obtain t1 r where kill: "group_kill os cg t = (t1, r)" by (cases "group_kill os cg t")
  obtain t2 rt2 r2 where reaped: "reap os lease t1 rt = (t2, rt2, r2)" by (cases "reap os lease t1 rt")
  have "calm os t t1" "calm os t1 t2" "calm os t2 (fst (group_destroy os cg t2))"
    using calm_group(1) [of os t cg] calm_reap [of os t1 lease rt] calm_group(2) kill reaped by simp_all
  then show ?thesis
    by (auto simp: process_terminate_def Some kill reaped split: result.split intro: calm_trans)
qed

lemma calm_terminate_with_grace: "calm os t (fst (process_terminate_with_grace os lease grace t rt))"
  using calm_process_terminate [of os _ lease rt] calm_trans [OF calm_ask calm_process_terminate, of "Drain cg grace" for cg]
  by (auto simp: process_terminate_with_grace_def split: option.split)

lemma calm_process_status: "calm os t (fst (process_status os lease t rt))"
  using calm_action [of "TryWait lease" os t]
  by (auto simp: process_status_def Let_def split: result.split os_value.split)

text \<open>Stopping and observing forget leases only; a start may add its own.\<close>

lemma reap_tracks: "tracks (fst (snd (reap os lease t rt))) \<subseteq> tracks rt"
  by (auto simp: reap_def Let_def ask_def tracks_def split: if_splits result.splits os_value.splits)

lemma terminate_tracks: "tracks (fst (snd (process_terminate os lease t rt))) \<subseteq> tracks rt"
proof (cases "btree_get (rt_groups rt) lease")
  case None
  have "tracks (fst (snd (terminate_child os lease t rt))) \<subseteq> tracks rt"
    by (auto simp: terminate_child_def Let_def ask_def tracks_def split: if_splits result.splits os_value.splits)
  with None show ?thesis by (simp add: process_terminate_def)
next
  case (Some cg)
  obtain t1 r where kill: "group_kill os cg t = (t1, r)" by (cases "group_kill os cg t")
  obtain t2 rt2 r2 where reaped: "reap os lease t1 rt = (t2, rt2, r2)" by (cases "reap os lease t1 rt")
  have "tracks rt2 \<subseteq> tracks rt" using reap_tracks [of os lease t1 rt] reaped by simp
  moreover have "tracks (rt2\<lparr>rt_groups := btree_remove lease (rt_groups rt2)\<rparr>) \<subseteq> tracks rt2" by (auto simp: tracks_def split: if_splits)
  ultimately show ?thesis by (auto simp: process_terminate_def Some kill reaped split: result.split)
qed

lemma grace_tracks: "tracks (fst (snd (process_terminate_with_grace os lease grace t rt))) \<subseteq> tracks rt"
  using terminate_tracks by (simp add: process_terminate_with_grace_def split: option.split)

lemma status_tracks: "tracks (fst (snd (process_status os lease t rt))) \<subseteq> tracks rt"
  by (auto simp: process_status_def Let_def tracks_def split: if_splits result.splits os_value.splits)

lemma spawn_tracks:
  "tracks (fst (snd (spawn_in_group os lease program args devices cg t rt))) \<subseteq> insert lease (tracks rt)"
  "tracks (fst (snd (spawn_standard os lease program args t rt))) \<subseteq> insert lease (tracks rt)"
  by (auto simp: spawn_in_group_def spawn_standard_def ask_def tracks_def split: if_splits prod.splits result.splits)

lemma activate_tracks: "tracks (fst (snd (process_activate os lease command limits devices t rt))) \<subseteq> insert lease (tracks rt)"
  using spawn_tracks
  by (simp add: process_activate_def then_ask_def split: list.split prod.split result.split option.split) blast

lemma spawn_containers:
  "live_containers os (fst (spawn_in_group os lease program args devices cg t rt)) \<subseteq> live_containers os t"
  "live_containers os (fst (spawn_standard os lease program args t rt)) \<subseteq> live_containers os t"
proof -
  have "live_containers os (discard_group os cg u) \<subseteq> live_containers os u" for u
    using calm_group(3) [of os u cg] by (simp add: calm_def)
  from this [of "AttachFilter cg devices # t"] this [of "SpawnInGroup cg program args # t"]
    this [of "SpawnInGroup cg program args # AttachFilter cg devices # t"]
  show "live_containers os (fst (spawn_in_group os lease program args devices cg t rt)) \<subseteq> live_containers os t"
    by (auto simp: spawn_in_group_def ask_def split: result.split)
  show "live_containers os (fst (spawn_standard os lease program args t rt)) \<subseteq> live_containers os t"
    by (auto simp: spawn_standard_def ask_def split: result.split)
qed

lemma activate_containers:
  "live_containers os (fst (process_activate os lease command limits devices t rt)) \<subseteq> live_containers os t"
proof -
  obtain t1 r where log: "then_ask (ask os CreateLogDir t) (\<lambda>t _. ask os (OpenLog lease) t) = (t1, r)"
    by (cases "then_ask (ask os CreateLogDir t) (\<lambda>t _. ask os (OpenLog lease) t)")
  have log_calm: "live_containers os t1 \<subseteq> live_containers os t"
    using calm_log [of os t lease] log by (simp add: calm_def)
  have plain: "live_containers os (fst (spawn_standard os lease program args t1 rt)) \<subseteq> live_containers os t" for program args
    using spawn_containers(2) log_calm by (rule subset_trans)
  have made: "live_containers os t2 \<subseteq> live_containers os t" if "cgroup_create os root lease limits t1 = (t2, r2)" for root t2 r2
    using calm_create [of os t1 root lease limits] that log_calm by (auto simp: calm_def)
  have "live_containers os (fst (spawn_in_group os lease program args devices cg t2 rt)) \<subseteq> live_containers os t"
    if "cgroup_create os root lease limits t1 = (t2, r2)" for root t2 r2 program args devices cg
    using spawn_containers(1) made [OF that] by (rule subset_trans)
  with plain made log_calm show ?thesis
    by (simp add: process_activate_def log split: list.split prod.split result.split option.split)
qed

section \<open>The supervisor\<close>

text \<open>
  \<open>kind\<close> says of some leases whether they are always started in a container or never; nothing is said of the others.
\<close>

definition supervisor_inv :: "os \<Rightarrow> (lease_id \<rightharpoonup> bool) \<Rightarrow> os_trace \<Rightarrow> supervisor \<Rightarrow> bool" where
  "supervisor_inv os kind t sp \<longleftrightarrow>
     processes_ok os t (sp_process sp) \<and> containers_ok os t (sp_containers sp) \<and>
     (\<forall>lease. is_tracked (sp_containers sp) lease \<longrightarrow> kind lease \<noteq> Some False) \<and> (\<forall>lease\<in>tracks (sp_process sp). kind lease \<noteq> Some True)"

lemma supervisor_calm: "supervisor_inv os kind t sp \<Longrightarrow> calm os t t' \<Longrightarrow> supervisor_inv os kind t' sp"
  using processes_calm containers_calm unfolding supervisor_inv_def by blast

lemma supervisor_grace: "supervisor_inv os kind t (sp\<lparr>sp_grace := g\<rparr>) \<longleftrightarrow> supervisor_inv os kind t sp"
  by (simp add: supervisor_inv_def)

lemma supervisor_process:
  assumes "supervisor_inv os kind t sp" and "keeps_processes os (t', rt, r)" and "live_containers os t' \<subseteq> live_containers os t"
    and "tracks rt \<subseteq> tracks (sp_process sp) \<union> {lease. kind lease \<noteq> Some True}"
  shows "supervisor_inv os kind t' (sp\<lparr>sp_process := rt\<rparr>)"
  using assms unfolding supervisor_inv_def keeps_processes_def containers_ok_def by auto

lemma supervisor_container:
  assumes "supervisor_inv os kind t sp" and "containers_ok os t' cr" and "processes_ok os t' (sp_process sp)"
    and "\<And>l. is_tracked cr l \<Longrightarrow> is_tracked (sp_containers sp) l \<or> kind l \<noteq> Some False"
  shows "supervisor_inv os kind t' (sp\<lparr>sp_containers := cr\<rparr>)"
  using assms unfolding supervisor_inv_def by auto

lemma supervisor_start_inv:
  assumes inv: "supervisor_inv os kind t sp" and fits: "kind lease \<in> {None, Some (xs_image start \<noteq> [])}"
    and out: "supervisor_start os lease start t sp = (t', sp', r)"
  shows "supervisor_inv os kind t' sp'"
proof (cases "xs_image start = []")
  case True
  obtain t1 rt r1 where run: "process_activate os lease (xs_command start) (xs_limits start) (xs_devices start) t (sp_process sp) = (t1, rt, r1)"
    by (cases "process_activate os lease (xs_command start) (xs_limits start) (xs_devices start) t (sp_process sp)")
  have "keeps_processes os (t1, rt, r1)"
    using keeps_process_activate [of os t "sp_process sp"] inv run unfolding supervisor_inv_def by metis
  moreover have "live_containers os t1 \<subseteq> live_containers os t" "tracks rt \<subseteq> insert lease (tracks (sp_process sp))"
    using activate_containers [of os lease "xs_command start" "xs_limits start" "xs_devices start" t "sp_process sp"]
      activate_tracks [of os lease "xs_command start" "xs_limits start" "xs_devices start" t "sp_process sp"] run by simp_all
  ultimately have "supervisor_inv os kind t1 (sp\<lparr>sp_process := rt\<rparr>)"
    using supervisor_process [OF inv] fits True by fastforce
  then show ?thesis
    using out inv True by (auto simp: supervisor_start_def run Let_def supervisor_grace split: if_splits)
next
  case False
  have "supervisor_inv os kind t1 (sp\<lparr>sp_containers := cr\<rparr>)" if run: "container_activate os lease start t (sp_containers sp) = (t1, cr, r1)" for t1 cr r1
  proof (rule supervisor_container [OF inv])
    show "containers_ok os t1 cr"
      using inv run
      by (auto simp: supervisor_inv_def containers_ok_def container_activate_def Let_def is_tracked_def btree_contains_key_def
          split: if_splits result.splits os_value.splits bool.splits)
    show "processes_ok os t1 (sp_process sp)"
      using inv run processes_engine [of os t "sp_process sp"]
      by (auto simp: supervisor_inv_def container_activate_def Let_def split: if_splits result.splits os_value.splits bool.splits)
    show "is_tracked cr l \<Longrightarrow> is_tracked (sp_containers sp) l \<or> kind l \<noteq> Some False" for l
      using run fits False
      by (auto simp: container_activate_def Let_def is_tracked_def btree_contains_key_def
          split: if_splits result.splits os_value.splits bool.splits)
  qed
  then show ?thesis
    using out inv False by (auto simp: supervisor_start_def Let_def supervisor_grace split: if_splits prod.splits)
qed

lemma container_stop:
  assumes "containers_ok os t cr" and "container_terminate_with_grace os lease grace t cr = (t', cr', r)"
  shows "calm os t t' \<and> containers_ok os t' cr' \<and> (\<forall>l. is_tracked cr' l \<longrightarrow> is_tracked cr l) \<and> (is_ok r \<longrightarrow> \<not> is_tracked cr' lease)"
proof (cases "btree_get (cr_containers cr) lease")
  case None
  then show ?thesis using assms by (simp add: container_terminate_with_grace_def is_tracked_def btree_contains_key_def)
next
  case (Some name)
  let ?stop = "EngineStop name grace # t"
  let ?remove = "EngineRemove lease name # ?stop"
  have calm: "calm os t ?stop" "calm os t ?remove"
    using calm_action [of "EngineStop name grace" os t] calm_action [of "EngineRemove lease name" os ?stop] by (auto intro: calm_trans)
  have "containers_ok os ?remove (cr\<lparr>cr_containers := btree_remove lease (cr_containers cr)\<rparr>)" if "os ?remove = Ok (Output True x y)" for x y
    using assms(1) that by (auto simp: containers_ok_def is_tracked_def btree_contains_key_def)
  with calm containers_calm [OF assms(1) calm(1)] containers_calm [OF assms(1) calm(2)] assms(2) show ?thesis
    by (auto simp: container_terminate_with_grace_def Some Let_def is_tracked_def btree_contains_key_def
        split: result.splits os_value.splits bool.splits if_splits)
qed

lemma supervisor_stop_inv:
  assumes inv: "supervisor_inv os kind t sp" and out: "supervisor_stop os lease t sp = (t', sp', r)"
  shows "supervisor_inv os kind t' sp' \<and> (is_ok r \<longrightarrow> kind lease \<noteq> None \<longrightarrow> \<not> is_tracked (sp_containers sp') lease \<and> lease \<notin> tracks (sp_process sp'))"
proof (cases "is_tracked (sp_containers sp) lease")
  case True
  obtain t1 cr r1 where run: "container_terminate_with_grace os lease (btree_get_or 0 (sp_grace sp) lease) t (sp_containers sp) = (t1, cr, r1)"
    by (cases "container_terminate_with_grace os lease (btree_get_or 0 (sp_grace sp) lease) t (sp_containers sp)")
  have stopped: "calm os t t1 \<and> containers_ok os t1 cr \<and> (\<forall>l. is_tracked cr l \<longrightarrow> is_tracked (sp_containers sp) l) \<and> (is_ok r1 \<longrightarrow> \<not> is_tracked cr lease)"
    using container_stop [OF _ run] inv by (simp add: supervisor_inv_def)
  have "kind lease \<noteq> Some False" using inv True by (simp add: supervisor_inv_def)
  then have "kind lease \<noteq> None \<Longrightarrow> lease \<notin> tracks (sp_process sp)" using inv by (auto simp: supervisor_inv_def)
  moreover have "supervisor_inv os kind t1 (sp\<lparr>sp_containers := cr\<rparr>)"
    using stopped inv processes_calm by (intro supervisor_container [OF inv]) (auto simp: supervisor_inv_def)
  ultimately show ?thesis
    using out True stopped by (auto simp: supervisor_stop_def Let_def run supervisor_inv_def)
next
  case False
  obtain t1 rt r1 where run: "process_terminate_with_grace os lease (btree_get_or 0 (sp_grace sp) lease) t (sp_process sp) = (t1, rt, r1)"
    by (cases "process_terminate_with_grace os lease (btree_get_or 0 (sp_grace sp) lease) t (sp_process sp)")
  have "keeps_processes os (t1, rt, r1)"
    using keeps_terminate_with_grace [of os t "sp_process sp"] inv run unfolding supervisor_inv_def by metis
  moreover have "live_containers os t1 \<subseteq> live_containers os t" "tracks rt \<subseteq> tracks (sp_process sp)"
    using calm_terminate_with_grace [of os t lease "btree_get_or 0 (sp_grace sp) lease" "sp_process sp"]
      grace_tracks [of os lease "btree_get_or 0 (sp_grace sp) lease" t "sp_process sp"] run by (simp_all add: calm_def)
  ultimately have "supervisor_inv os kind t1 (sp\<lparr>sp_process := rt\<rparr>)"
    by (intro supervisor_process [OF inv]) auto
  moreover have "is_ok r1 \<Longrightarrow> lease \<notin> tracks rt"
    using terminate_with_grace_untracks [of os lease _ t "sp_process sp" t1 rt] run by (auto simp: is_ok_iff tracks_def)
  ultimately show ?thesis
    using out False by (auto simp: supervisor_stop_def Let_def run supervisor_inv_def)
qed

lemma supervisor_status_inv:
  assumes inv: "supervisor_inv os kind t sp" and out: "supervisor_status os lease t sp = (t', sp', status)"
  shows "supervisor_inv os kind t' sp'"
proof (cases "is_tracked (sp_containers sp) lease")
  case True
  have "calm os t (fst (container_status os lease t (sp_containers sp)))"
    using calm_trans [OF calm_action calm_action] calm_action
    by (auto simp: container_status_def Let_def split: option.split result.split)
  then show ?thesis using out True inv by (auto simp: supervisor_status_def split: prod.splits intro: supervisor_calm)
next
  case False
  obtain t1 rt r1 where run: "process_status os lease t (sp_process sp) = (t1, rt, r1)" by (cases "process_status os lease t (sp_process sp)")
  have "supervisor_inv os kind t1 (sp\<lparr>sp_process := rt\<rparr>)"
    using keeps_process_status [of os t "sp_process sp" lease] calm_process_status [of os t lease "sp_process sp"]
      status_tracks [of os lease t "sp_process sp"] inv run
    by (intro supervisor_process [OF inv]) (auto simp: supervisor_inv_def calm_def keeps_processes_def)
  then show ?thesis using out False by (simp add: supervisor_status_def run)
qed

end
