(* ===== verification/Agent_Safety.thy ===== *)
theory Agent_Safety
  imports Runtime_Tracking
begin

text \<open>
  What a controller can rely on when an agent answers: an acknowledged stop is true, a started program is confined. Runs of an agent are
  sequences of arbitrary requests against an arbitrary operating system.
\<close>

section \<open>The agent\<close>

lemma calm_create_probe: "calm os t (fst (create_probe os root limits t))"
proof -
  have "calm os u (fst (case configure_limits os cg limits u of (v, Ok x) \<Rightarrow> (v, Ok cg) | (v, Err e) \<Rightarrow> (fst (group_destroy os cg v), Err e)))" for u cg
    using calm_configure [of os u cg limits] calm_group(2) [of os _ cg]
    by (auto split: prod.split result.split intro: calm_trans)
  then show ?thesis
    unfolding create_probe_def Let_def by (intro calm_then calm_prepare calm_ask) simp_all
qed

lemma calm_probes:
  "calm os t (fst (probe_process_limit os root limits t))" "calm os t (fst (probe_device_isolation os root t))"
  "calm os t (fst (probe_placement os root cpus mems t))"
proof -
  have ask: "calm os u (fst (ask os (ProbeSpawn cg) u))" "calm os u (fst (ask os (ProbeFilter cg) u))" for u cg by (simp_all add: calm_ask)
  have tail: "calm os u (fst (group_destroy os cg (fst (ask os (ProbeSpawn cg) u))))" for u cg
    by (rule calm_trans [OF ask(1) calm_group(2)])
  have filtered: "calm os u (fst (group_destroy os cg (fst (if b then ask os (ProbeSpawn cg) v else (v, Ok ())))))"
    if "calm os u v" for u v cg b
    using that tail calm_group(2) by (auto intro: calm_trans)
  have out: "calm os t (fst (case create_probe os root limits t of (u, Err e) \<Rightarrow> (u, False) | (u, Ok cg) \<Rightarrow> k u cg))"
    if "\<And>u cg. calm os u (fst (k u cg))" for limits and k :: "os_trace \<Rightarrow> cgroup \<Rightarrow> os_trace \<times> bool"
    using calm_create_probe [of os t root limits] that by (auto split: prod.split result.split intro: calm_trans)
  show "calm os t (fst (probe_process_limit os root limits t))"
    unfolding probe_process_limit_def by (rule out) (simp add: case_prod_beta Let_def tail)
  show "calm os t (fst (probe_device_isolation os root t))"
    unfolding probe_device_isolation_def by (rule out) (simp add: case_prod_beta Let_def filtered [OF ask(2)])
  have "calm os t (fst (case create_probe os root limits t of (u, Err e) \<Rightarrow> (u, False)
      | (u, Ok cg) \<Rightarrow> (case group_destroy os cg u of (v, cleanup) \<Rightarrow> (v, is_ok cleanup))))" for limits
    by (rule out) (simp add: case_prod_beta calm_group(2))
  then show "calm os t (fst (probe_placement os root cpus mems t))" by (simp add: probe_placement_def)
qed

lemma calm_numbers: "calm os t (fst (sched_affinity_list os t))" "calm os t (fst (numa_mems_list os t))"
proof -
  show "calm os t (fst (sched_affinity_list os t))" by (simp add: sched_affinity_list_def Let_def calm_action)
  have "calm os t (ReadMempolicy # t)" "calm os t (ReadOnlineNodes # ReadMempolicy # t)"
    using calm_action [of ReadMempolicy os t] calm_action [of ReadOnlineNodes os "ReadMempolicy # t"] by (auto intro: calm_trans)
  then show "calm os t (fst (numa_mems_list os t))"
    by (simp add: numa_mems_list_def Let_def split: result.split os_value.split)
qed

lemma calm_capabilities: "calm os t (fst (process_capabilities os rt t))"
proof (cases "rt_cgroup_root rt")
  case (Some root)
  define t1 where "t1 = fst (probe_process_limit os root (no_limits\<lparr>ll_cpu_count := 1\<rparr>) t)"
  define t2 where "t2 = fst (probe_process_limit os root (no_limits\<lparr>ll_memory_bytes := 2 ^ 20\<rparr>) t1)"
  define t3 where "t3 = fst (probe_device_isolation os root t2)"
  define t4 where "t4 = fst (sched_affinity_list os t3)"
  define t5 where "t5 = fst (numa_mems_list os t4)"
  define t6 where "t6 = fst (probe_placement os root (snd (sched_affinity_list os t3)) (snd (numa_mems_list os t4)) t5)"
  have "calm os t t1" "calm os t1 t2" "calm os t2 t3" "calm os t3 t4" "calm os t4 t5" "calm os t5 t6"
    by (simp_all add: t1_def t2_def t3_def t4_def t5_def t6_def calm_probes calm_numbers)
  then have "calm os t t6" by (blast intro: calm_trans)
  then show ?thesis
    by (simp add: process_capabilities_def Some case_prod_beta Let_def t1_def t2_def t3_def t4_def t5_def t6_def)
qed (simp add: process_capabilities_def)

lemma calm_logs: "calm os t (fst (supervisor_logs os lease t sp))"
  using calm_action [of "ReadLog lease" os t] calm_action [of "EngineLogs name" os t for name]
  by (auto simp: supervisor_logs_def container_logs_def read_log_def Let_def split: option.split)

text \<open>Requests that agree with \<open>kind\<close>, and the runs of an agent from its start.\<close>

fun fits :: "(lease_id \<rightharpoonup> bool) \<Rightarrow> agent_request \<Rightarrow> bool" where
  "fits kind (RqStartExecution lease session epoch command limits img storage ports grace_secs devices) \<longleftrightarrow> kind lease \<in> {None, Some (img \<noteq> [])}"
| "fits kind _ \<longleftrightarrow> True"

inductive agent_run :: "os \<Rightarrow> (lease_id \<rightharpoonup> bool) \<Rightarrow> os_trace \<Rightarrow> lease_agent \<Rightarrow> bool" for os kind where
  Boot: "agent_run os kind []
    (with_identity instance_id name (lease_agent_new (process_runtime_new root) (container_runtime_new engine namespace version use_cdi cdi_dir)))"
| Handle: "agent_run os kind t a \<Longrightarrow> fits kind request \<Longrightarrow> agent_handle os described request t a = (t', a', response) \<Longrightarrow>
    agent_run os kind t' a'"

lemma agent_handle_inv:
  assumes "supervisor_inv os kind t (ag_execution a)" and "fits kind request" and "agent_handle os described request t a = (t', a', response)"
  shows "supervisor_inv os kind t' (ag_execution a')"
proof (cases request)
  case RqCapabilities
  have "calm os t (fst (supervisor_capabilities os (ag_execution a) t))"
    using calm_capabilities [of os t "sp_process (ag_execution a)"] by (simp add: supervisor_capabilities_def case_prod_beta)
  then show ?thesis using assms RqCapabilities by (auto split: prod.splits intro: supervisor_calm)
next
  case (RqLogs lease)
  then show ?thesis using assms calm_logs [of os t lease "ag_execution a"] by (auto split: prod.splits intro: supervisor_calm)
next
  case (RqStatus lease)
  then show ?thesis using assms supervisor_status_inv by (auto split: prod.splits)
next
  case (RqStartExecution lease session epoch command limits img storage ports grace devices)
  then show ?thesis
    using assms supervisor_start_inv [OF assms(1), of lease "\<lparr>xs_command = command, xs_limits = limits, xs_image = img, xs_storage = storage,
      xs_ports = ports, xs_grace_secs = grace, xs_devices = devices\<rparr>"]
    by (simp split: prod.splits result.splits, safe) simp_all
next
  case (RqStopExecution lease session epoch)
  then show ?thesis using assms supervisor_stop_inv [OF assms(1)] by (auto split: prod.splits result.splits)
qed (use assms in \<open>auto split: prod.splits result.splits\<close>)

lemma agent_run_inv: "agent_run os kind t a \<Longrightarrow> supervisor_inv os kind t (ag_execution a)"
proof (induction rule: agent_run.induct)
  case (Boot instance_id name root engine namespace version use_cdi cdi_dir)
  show ?case
    by (simp add: supervisor_inv_def with_identity_def lease_agent_new_def supervisor_new_def process_runtime_new_def container_runtime_new_def Let_def
        processes_ok_def containers_ok_def tracks_def is_tracked_def btree_contains_key_def)
qed (rule agent_handle_inv)

text \<open>What a stop that was acknowledged leaves behind.\<close>

lemma agent_stopped:
  assumes "agent_run os kind t a" and "agent_handle os described (RqStopExecution lease session epoch) t a = (t', a', RsExecutionStopped l)"
    and "kind lease \<noteq> None"
  shows "supervisor_inv os kind t' (ag_execution a') \<and> \<not> is_tracked (sp_containers (ag_execution a')) lease \<and>
    lease \<notin> tracks (sp_process (ag_execution a'))"
  using assms(2,3) supervisor_stop_inv [OF agent_run_inv [OF assms(1)], of lease] by (auto split: prod.splits result.splits)

section \<open>Confinement\<close>

definition happened :: "os \<Rightarrow> os_trace \<Rightarrow> os_action \<Rightarrow> bool" where
  "happened os t a \<longleftrightarrow> (\<exists>u. suffix (a # u) t \<and> is_ok (os (a # u)))"

lemma happened_later: "happened os t a \<Longrightarrow> suffix t t' \<Longrightarrow> happened os t' a"
  unfolding happened_def using suffix_order.trans by blast

lemma happened_now: "is_ok (os (a # t)) \<Longrightarrow> happened os (a # t) a"
  unfolding happened_def by blast

lemma write_files_happened:
  "write_files os cg files t = (t', Ok x) \<Longrightarrow> suffix t t' \<and> (\<forall>(name, content)\<in>set files. happened os t' (WriteGroup cg name content))"
proof (induction files arbitrary: t)
  case (Cons f files)
  obtain name content where f: "f = (name, content)" by (cases f)
  let ?t = "WriteGroup cg name content # t"
  have "is_ok (os ?t)" "write_files os cg files ?t = (t', Ok x)"
    using Cons.prems by (auto simp: f then_ask_def ask_def split: result.splits)
  with Cons.IH [of ?t] have rest: "suffix ?t t'" "\<forall>(name, content)\<in>set files. happened os t' (WriteGroup cg name content)" by blast+
  have "happened os t' (WriteGroup cg name content)"
    using happened_now [of os "WriteGroup cg name content" t] \<open>is_ok (os ?t)\<close> rest(1) by (blast intro: happened_later)
  with rest show ?case by (auto simp: f intro: suffix_ConsD)
qed simp

lemma cgroup_created:
  assumes "cgroup_create os root lease limits t = (t', Ok cg)"
  shows "cg = LeaseGroup root lease \<and>
    (\<exists>files. limit_writes limits = Ok files \<and> (\<forall>(name, content)\<in>set files. happened os t' (WriteGroup cg name content)))"
  using assms write_files_happened
  by (auto simp: cgroup_create_def Let_def then_ask_def configure_limits_def split: prod.splits result.splits) fastforce

section \<open>Properties\<close>

text \<open>
  C12. An acknowledged stop is true: when an agent that has started a lease always in a container, or never in one, answers that the program of the lease
  has stopped, then nothing that it started for the lease, in whatever order of requests and whatever it did for other leases, can still run: the group of the
  lease was killed after the last start in it, its container was removed, and a child outside a group was waited for, unless the operating system had
  refused to poll, to kill or to wait for that child before.
\<close>

theorem stop_acknowledged_truthfully:
  assumes "agent_run os [lease \<mapsto> container] t a"
    and "agent_handle os described (RqStopExecution lease session epoch) t a = (t', a', RsExecutionStopped l)"
  shows "(\<forall>root. LeaseGroup root lease \<notin> live_groups os t') \<and> lease \<notin> live_containers os t' \<and>
    (lease \<in> live_children os t' \<longrightarrow> lease \<in> lost os t')"
proof -
  let ?sp = "ag_execution a'"
  have after: "processes_ok os t' (sp_process ?sp)" "containers_ok os t' (sp_containers ?sp)"
      "\<not> is_tracked (sp_containers ?sp) lease" "lease \<notin> tracks (sp_process ?sp)"
    using agent_stopped [OF assms] by (simp_all add: supervisor_inv_def)
  have "LeaseGroup root lease \<notin> live_groups os t'" for root
    using after(1,4) by (fastforce simp: processes_ok_def tracks_def)
  with after show ?thesis by (auto simp: processes_ok_def containers_ok_def tracks_def)
qed

definition sample_os :: os where
  "sample_os t = (case t of TryWait lease # rest \<Rightarrow> Ok StillRuns | ReadControl root # rest \<Rightarrow> Ok (Text []) | _ \<Rightarrow> Ok Nothing)"

definition sample_limits :: lease_limits where
  "sample_limits = no_limits\<lparr>ll_memory_bytes := 64\<rparr>"

definition sample_gpu :: device_access where
  "sample_gpu = \<lparr>da_id = ''gpu0'', da_dev = ''/dev/g'', da_paths = [], da_cdi = None\<rparr>"

definition sample_start :: agent_request where
  "sample_start = RqStartExecution 7 1 1 [''run'', ''fast''] sample_limits [] [] [] 5 [sample_gpu]"

definition sample_agent :: lease_agent where
  "sample_agent = with_identity ''a'' None
     (lease_agent_new (process_runtime_new (Some ''/cg'')) (container_runtime_new ''docker'' ''n'' None None None))"

definition sample_started :: "os_trace \<times> lease_agent \<times> agent_response" where
  "sample_started = agent_handle sample_os (Err []) sample_start [] sample_agent"

definition sample_halted :: "os_trace \<times> lease_agent \<times> agent_response" where
  "sample_halted = agent_handle sample_os (Err []) (RqStopExecution 7 1 1) (fst sample_started) (fst (snd sample_started))"

lemma sample_answers: "snd (snd sample_started) = RsExecutionStarted 7" "snd (snd sample_halted) = RsExecutionStopped 7"
  by code_simp+

lemma sample_agent_run: "agent_run sample_os [7 \<mapsto> False] (fst sample_started) (fst (snd sample_started))"
proof (rule Handle)
  show "agent_run sample_os [7 \<mapsto> False] [] sample_agent" unfolding sample_agent_def by (rule Boot)
  show "fits [7 \<mapsto> False] sample_start" by (simp add: sample_start_def)
  show "agent_handle sample_os (Err []) sample_start [] sample_agent = (fst sample_started, fst (snd sample_started), snd (snd sample_started))"
    by (simp add: sample_started_def)
qed

theorem stop_acknowledged_truthfully_witness:
  "(\<forall>root. LeaseGroup root 7 \<notin> live_groups sample_os (fst sample_halted)) \<and> 7 \<notin> live_containers sample_os (fst sample_halted) \<and>
     7 \<notin> live_children sample_os (fst sample_halted)"
proof -
  have "agent_handle sample_os (Err []) (RqStopExecution 7 1 1) (fst sample_started) (fst (snd sample_started)) =
      (fst sample_halted, fst (snd sample_halted), RsExecutionStopped 7)"
    using sample_answers(2) by (metis prod.collapse sample_halted_def)
  moreover have "7 \<notin> lost sample_os (fst sample_halted)" by code_simp
  ultimately show ?thesis using stop_acknowledged_truthfully [OF sample_agent_run] by blast
qed

text \<open>
  C13. A program starts confined: when an agent starts a process for a lease that has device claims, or limits on a machine with a cgroup root, then the start was
  the last thing it did, inside the group of the lease, and before it the device filter of the claims was attached to the group and every limit was written
  to it.
\<close>

theorem started_confined:
  assumes "agent_handle os described (RqStartExecution lease session epoch command limits [] storage ports grace_secs devices) t a =
      (t', a', RsExecutionStarted l)"
    and "rt = sp_process (ag_execution a)" and "btree_get (rt_children rt) lease = None"
    and "devices \<noteq> [] \<or> rt_cgroup_root rt \<noteq> None \<and> \<not> limits_is_empty limits"
  shows "\<exists>root program args u files. t' = SpawnInGroup (LeaseGroup root lease) program args # u \<and> is_ok (os t') \<and> command = program # args \<and>
    (devices \<noteq> [] \<longrightarrow> happened os u (AttachFilter (LeaseGroup root lease) devices)) \<and>
    limit_writes limits = Ok files \<and> (\<forall>(name, content)\<in>set files. happened os u (WriteGroup (LeaseGroup root lease) name content))"
proof -
  obtain rt' where start: "process_activate os lease command limits devices t rt = (t', rt', Ok ())"
    using assms(1,2) by (auto simp: supervisor_start_def Let_def split: prod.splits result.splits if_splits)
  obtain program args where command: "command = program # args"
    using start assms(3) by (cases command) (auto simp: process_activate_def btree_contains_key_def)
  obtain t1 t2 root cg where made: "cgroup_create os root lease limits t1 = (t2, Ok cg)"
      and run: "spawn_in_group os lease program args devices cg t2 rt = (t', rt', Ok ())"
    using start assms(3,4) command
    by (auto simp: process_activate_def btree_contains_key_def split: prod.splits result.splits option.splits if_splits)
  obtain files where files: "cg = LeaseGroup root lease" "limit_writes limits = Ok files"
      "\<forall>(name, content)\<in>set files. happened os t2 (WriteGroup cg name content)"
    using cgroup_created [OF made] by blast
  let ?t3 = "if devices = [] then t2 else AttachFilter cg devices # t2"
  have spawn: "t' = SpawnInGroup cg program args # ?t3" "is_ok (os t')" "devices \<noteq> [] \<Longrightarrow> is_ok (os ?t3)"
    using run by (auto simp: spawn_in_group_def ask_def is_ok_iff split: if_splits result.splits)
  have "suffix t2 ?t3" by (simp add: suffix_ConsI)
  then have "\<forall>(name, content)\<in>set files. happened os ?t3 (WriteGroup cg name content)" using files(3) happened_later by blast
  moreover have "devices \<noteq> [] \<Longrightarrow> happened os ?t3 (AttachFilter cg devices)"
    using spawn(3) happened_now [of os "AttachFilter cg devices" t2] by simp
  ultimately show ?thesis using spawn files(1,2) command by blast
qed

theorem started_confined_witness:
  "\<exists>root program args u files. fst sample_started = SpawnInGroup (LeaseGroup root 7) program args # u \<and> is_ok (sample_os (fst sample_started)) \<and>
     [''run'', ''fast''] = program # args \<and> happened sample_os u (AttachFilter (LeaseGroup root 7) [sample_gpu]) \<and>
     limit_writes sample_limits = Ok files \<and> list_all (\<lambda>(name, content). happened sample_os u (WriteGroup (LeaseGroup root 7) name content)) files"
proof -
  have handled: "agent_handle sample_os (Err []) (RqStartExecution 7 1 1 [''run'', ''fast''] sample_limits [] [] [] 5 [sample_gpu]) [] sample_agent =
      (fst sample_started, fst (snd sample_started), RsExecutionStarted 7)"
    using sample_answers(1) by (metis prod.collapse sample_started_def sample_start_def)
  have fresh: "btree_get (rt_children (sp_process (ag_execution sample_agent))) 7 = None"
    by (simp add: sample_agent_def with_identity_def lease_agent_new_def supervisor_new_def process_runtime_new_def)
  show ?thesis using started_confined [OF handled refl fresh] by (simp add: list_all_iff)
qed

text \<open>
  The condition of the first theorem is needed. The supervisor does not refuse a lease that it has started in the other way; of a lease that it
  tracks both as a process and as a container it stops only the container, and acknowledges the stop while the process runs on.
\<close>

definition container_os :: os where
  "container_os t = (case t of EngineRun lease args # rest \<Rightarrow> Ok (Output True [] []) | EngineStop name grace # rest \<Rightarrow> Ok (Output True [] [])
     | EngineRemove lease name # rest \<Rightarrow> Ok (Output True [] []) | _ \<Rightarrow> sample_os t)"

lemma stop_leaves_other_kind:
  "let (t, a, first) = agent_handle container_os (Err []) sample_start [] sample_agent;
       (t, a, second) = agent_handle container_os (Err []) (RqStartExecution 7 1 1 [''run''] no_limits ''img'' [] [] 0 []) t a;
       (t, a, third) = agent_handle container_os (Err []) (RqStopExecution 7 1 1) t a
   in first = RsExecutionStarted 7 \<and> second = RsExecutionStarted 7 \<and> third = RsExecutionStopped 7 \<and>
      LeaseGroup ''/cg'' 7 \<in> live_groups container_os t"
  by code_simp

text \<open>
  The exception in the first theorem is real. Without a cgroup root the runtime forgets a child before it has killed it: when the kill fails, the
  stop is reported as failed, and the next stop finds nothing to do and is acknowledged, although the child was never seen to end.
\<close>

definition failing_os :: os where
  "failing_os t = (case t of Kill lease # rest \<Rightarrow> Err ''refused'' | _ \<Rightarrow> sample_os t)"

lemma failed_kill_forgets_child:
  "let (t, a, started) = agent_handle failing_os (Err []) (RqStartExecution 7 1 1 [''run''] no_limits [] [] [] 0 []) []
         (lease_agent_new (process_runtime_new None) (container_runtime_new ''docker'' ''n'' None None None));
       (t, a, first) = agent_handle failing_os (Err []) (RqStopExecution 7 1 1) t a;
       (t, a, second) = agent_handle failing_os (Err []) (RqStopExecution 7 1 1) t a
   in started = RsExecutionStarted 7 \<and> first = RsExecutionStopFailed 7 (''kill lease '' @ display_lease 7 @ '': refused'') \<and>
      second = RsExecutionStopped 7 \<and> 7 \<in> live_children failing_os t"
  by code_simp

end
