(* ===== verification/Command_Line.thy ===== *)
theory Command_Line
  imports Control_Requests Node_Agent
begin

text \<open>
  The program \<^verbatim>\<open>archon\<close> (\<^verbatim>\<open>crates/cli/src/main.rs\<close>): the choice of the role, the arguments of the control plane, of an agent and of a client, the token and
  the identity of an agent, and the links an agent serves. Environment variables, files, random bytes and what the network does are fields of
  \<open>host\<close>, \<open>client_network\<close>, \<open>inbound_link\<close> and \<open>dial\<close>; text is ASCII. A process that exits is an error of type \<open>cli_stop\<close>; lines on the standard error are modelled only where the
  process exits with them.
\<close>

section \<open>Exits\<close>

text \<open>\<open>StopFail\<close> is what \<^verbatim>\<open>fail\<close> reports, after the name of the program; \<open>StopError\<close> and \<open>StopRefuse\<close> carry the whole line.\<close>

datatype (plugins only: code size) cli_stop = StopUsage | StopFail string | StopBadValue string string | StopError string | StopRefuse string

fun stop_code :: "cli_stop \<Rightarrow> nat" where
  "stop_code StopUsage = 2"
| "stop_code (StopFail message) = 1"
| "stop_code (StopBadValue flag value) = 1"
| "stop_code (StopError message) = 1"
| "stop_code (StopRefuse message) = 2"

text \<open>The text of the parser's own error is not modelled.\<close>

definition parse_flag :: "(string \<Rightarrow> 'a option) \<Rightarrow> string \<Rightarrow> string \<Rightarrow> ('a, cli_stop) result" where
  "parse_flag parse value flag = (case parse value of Some v \<Rightarrow> Ok v | None \<Rightarrow> Err (StopBadValue flag value))"

section \<open>The role\<close>

datatype (plugins only: code size) role = RoleServe "string list" | RoleAgent "string list" | RoleClient "string option" string "string list"

text \<open>\<^verbatim>\<open>-c ADDR\<close> is taken out of the arguments before \<^verbatim>\<open>--\<close>; the last one counts.\<close>

fun extract_connect :: "string list \<Rightarrow> string option \<Rightarrow> (string list \<times> string option, cli_stop) result" where
  "extract_connect [] connect = Ok ([], connect)"
| "extract_connect (arg # rest) connect =
     (if arg = ''--'' then Ok (arg # rest, connect)
      else if arg = ''-c'' then (case rest of [] \<Rightarrow> Err (StopFail ''-c requires an address'') | addr # rest' \<Rightarrow> extract_connect rest' (Some addr))
      else and_then (extract_connect rest connect) (\<lambda>(args, connect). Ok (arg # args, connect)))"

definition main_role :: "string list \<Rightarrow> (role, cli_stop) result" where
  "main_role args =
     and_then (extract_connect args None) (\<lambda>(args, connect).
       case args of
         [] \<Rightarrow> Err StopUsage
       | command # rest \<Rightarrow>
           if command = ''serve'' then Ok (RoleServe rest)
           else if command = ''agent'' then Ok (RoleAgent rest)
           else if command \<in> {''submit'', ''service'', ''scale'', ''status'', ''revoke'', ''logs''} then Ok (RoleClient connect command rest)
           else Err StopUsage)"

section \<open>The host\<close>

record host =
  ho_token :: "string option"
  ho_cgroup_root :: "string option"
  ho_state_home :: "string option"
  ho_home :: "string option"
  ho_read :: "string \<Rightarrow> (string, string) result"
  ho_random :: "u8 list option"
  ho_nanos :: u64
  ho_pid :: u32
  ho_create_dir :: "string \<Rightarrow> (unit, string) result"
  ho_write :: "string \<Rightarrow> (unit, string) result"

definition env_token :: "host \<Rightarrow> string option" where
  "env_token h = (case ho_token h of None \<Rightarrow> None | Some t \<Rightarrow> if t = [] then None else Some t)"

definition load_token :: "host \<Rightarrow> string option \<Rightarrow> (string option, cli_stop) result" where
  "load_token h token_file =
     (case token_file of
        Some path \<Rightarrow>
          (case ho_read h path of
             Err e \<Rightarrow> Err (StopRefuse (''archon: cannot read token file '' @ path @ '': '' @ e))
           | Ok content \<Rightarrow> Ok (Some (trim content)))
      | None \<Rightarrow> Ok (env_token h))"

section \<open>Arguments of the servers\<close>

text \<open>The loops of \<^verbatim>\<open>serve\<close> and \<^verbatim>\<open>agent\<close>: \<open>switch\<close> takes an argument that stands alone, \<open>assign\<close> a flag with its value.\<close>

fun option_loop ::
    "(string \<Rightarrow> 'o \<Rightarrow> 'o option) \<Rightarrow> (string \<Rightarrow> string \<Rightarrow> 'o \<Rightarrow> ('o, cli_stop) result) \<Rightarrow> string list \<Rightarrow> 'o \<Rightarrow> ('o, cli_stop) result" where
  "option_loop switch assign [] opts = Ok opts"
| "option_loop switch assign (flag # rest) opts =
     (case switch flag opts of
        Some opts' \<Rightarrow> option_loop switch assign rest opts'
      | None \<Rightarrow>
          (case rest of
             [] \<Rightarrow> Err StopUsage
           | value # rest' \<Rightarrow>
               (case assign flag value opts of
                  Err stop \<Rightarrow> Err stop
                | Ok opts' \<Rightarrow> option_loop switch assign rest' opts')))"

record serve_options =
  so_listen :: "string option"
  so_log :: "string option"
  so_remote :: "string option"
  so_no_local :: bool
  so_token_file :: "string option"
  so_probe_secs :: u64
  so_compact_every :: u64
  so_cgroup_root :: "string option"

definition serve_options_new :: "host \<Rightarrow> serve_options" where
  "serve_options_new h =
     \<lparr>so_listen = None, so_log = None, so_remote = None, so_no_local = False, so_token_file = None, so_probe_secs = 5, so_compact_every = 10000,
      so_cgroup_root = ho_cgroup_root h\<rparr>"

definition serve_switch :: "string \<Rightarrow> serve_options \<Rightarrow> serve_options option" where
  "serve_switch flag opts = (if flag = ''--no-local'' then Some (opts\<lparr>so_no_local := True\<rparr>) else None)"

definition serve_assign :: "string \<Rightarrow> string \<Rightarrow> serve_options \<Rightarrow> (serve_options, cli_stop) result" where
  "serve_assign flag value opts =
     (if flag = ''--listen'' then Ok (opts\<lparr>so_listen := Some value\<rparr>)
      else if flag = ''--log'' then Ok (opts\<lparr>so_log := Some value\<rparr>)
      else if flag = ''--remote'' then Ok (opts\<lparr>so_remote := Some value\<rparr>)
      else if flag = ''--token-file'' then Ok (opts\<lparr>so_token_file := Some value\<rparr>)
      else if flag = ''--probe-secs'' then and_then (parse_flag parse_u64 value flag) (\<lambda>n. Ok (opts\<lparr>so_probe_secs := n\<rparr>))
      else if flag = ''--compact-every'' then and_then (parse_flag parse_u64 value flag) (\<lambda>n. Ok (opts\<lparr>so_compact_every := n\<rparr>))
      else if flag = ''--cgroup-root'' then Ok (opts\<lparr>so_cgroup_root := Some value\<rparr>)
      else Err StopUsage)"

text \<open>\<^verbatim>\<open>AgentLink\<close> of the control plane.\<close>

datatype (plugins only: code size) link_choice = ChooseLocal "string option" | ChooseRemote string "string option" | ChooseNone

record serve_plan =
  pl_listen :: string
  pl_log :: string
  pl_token :: "string option"
  pl_link :: link_choice
  pl_probe_secs :: u64
  pl_compact_every :: u64

definition serve_plan_of :: "host \<Rightarrow> string list \<Rightarrow> (serve_plan, cli_stop) result" where
  "serve_plan_of h args =
     and_then (option_loop serve_switch serve_assign args (serve_options_new h)) (\<lambda>opts.
       case (so_listen opts, so_log opts) of
         (Some listen, Some log) \<Rightarrow>
           and_then (load_token h (so_token_file opts)) (\<lambda>token.
             Ok \<lparr>pl_listen = listen, pl_log = log, pl_token = token,
                 pl_link = (case so_remote opts of
                     Some addr \<Rightarrow> ChooseRemote addr token
                   | None \<Rightarrow> if so_no_local opts then ChooseNone else ChooseLocal (so_cgroup_root opts)),
                 pl_probe_secs = so_probe_secs opts, pl_compact_every = so_compact_every opts\<rparr>)
       | _ \<Rightarrow> Err StopUsage)"

text \<open>The plane that \<^verbatim>\<open>serve\<close> boots and the token it requires; \<open>reach\<close> is what the link meets. As for \<open>boot\<close>, \<open>None\<close> is a panic.\<close>

definition serve_boot ::
    "plane_environment \<Rightarrow> (link_choice \<Rightarrow> agent_link) \<Rightarrow> host \<Rightarrow> string list \<Rightarrow> disk \<Rightarrow>
       (disk \<times> (control_plane \<times> string option, cli_stop) result) option" where
  "serve_boot env reach h args disk =
     (case serve_plan_of h args of
        Err stop \<Rightarrow> Some (disk, Err stop)
      | Ok plan \<Rightarrow>
          (case boot env (reach (pl_link plan)) (pl_compact_every plan) disk of
             None \<Rightarrow> None
           | Some (disk', Err e) \<Rightarrow> Some (disk', Err (StopFail (''boot failed: '' @ e)))
           | Some (disk', Ok plane) \<Rightarrow> Some (disk', Ok (plane, pl_token plan))))"

record agent_options =
  ao_listen :: "string option"
  ao_register :: "string option"
  ao_name :: "string option"
  ao_id :: "string option"
  ao_token_file :: "string option"
  ao_cgroup_root :: "string option"

definition agent_options_new :: "host \<Rightarrow> agent_options" where
  "agent_options_new h =
     \<lparr>ao_listen = None, ao_register = None, ao_name = None, ao_id = None, ao_token_file = None, ao_cgroup_root = ho_cgroup_root h\<rparr>"

definition agent_assign :: "string \<Rightarrow> string \<Rightarrow> agent_options \<Rightarrow> (agent_options, cli_stop) result" where
  "agent_assign flag value opts =
     (if flag = ''--listen'' then Ok (opts\<lparr>ao_listen := Some value\<rparr>)
      else if flag = ''--register'' then Ok (opts\<lparr>ao_register := Some value\<rparr>)
      else if flag = ''--name'' then Ok (opts\<lparr>ao_name := Some value\<rparr>)
      else if flag = ''--id'' then Ok (opts\<lparr>ao_id := Some value\<rparr>)
      else if flag = ''--token-file'' then Ok (opts\<lparr>ao_token_file := Some value\<rparr>)
      else if flag = ''--cgroup-root'' then Ok (opts\<lparr>ao_cgroup_root := Some value\<rparr>)
      else Err StopUsage)"

section \<open>The identity of an agent\<close>

definition path_join :: "string \<Rightarrow> string \<Rightarrow> string" where
  "path_join base name = (if base = [] \<or> last base = CHR ''/'' then base @ name else base @ ''/'' @ name)"

definition state_dir :: "host \<Rightarrow> string option" where
  "state_dir h =
     (case ho_state_home h of Some state \<Rightarrow> Some state | None \<Rightarrow> map_option (\<lambda>home. path_join home ''.local/state'') (ho_home h))"

text \<open>\<^verbatim>\<open>{:016x}\<close> and \<^verbatim>\<open>u64::from_le_bytes\<close>.\<close>

definition hex16 :: "u64 \<Rightarrow> string" where
  "hex16 w = map (\<lambda>i. hex_digit (unat (take_bit 4 (drop_bit (4 * (15 - i)) w)))) [0..<16]"

definition u64_of_le :: "u8 list \<Rightarrow> u64" where
  "u64_of_le bytes = foldr (\<lambda>b w. ucast b + 256 * w) bytes 0"

definition fresh_id :: "host \<Rightarrow> string" where
  "fresh_id h =
     hex16 (case ho_random h of Some bytes \<Rightarrow> u64_of_le bytes | None \<Rightarrow> xor (ho_nanos h) (ucast (ho_pid h)))"

text \<open>The identity, and the file that was written with it, if one was.\<close>

definition load_instance_id :: "host \<Rightarrow> string option \<Rightarrow> (string \<times> string) option \<times> (string, cli_stop) result" where
  "load_instance_id h i =
     (case i of
        Some i \<Rightarrow> (None, Ok i)
      | None \<Rightarrow>
          (case state_dir h of
             None \<Rightarrow> (None, Err (StopRefuse ''archon: no state directory for the agent id; pass --id''))
           | Some state \<Rightarrow>
               let path = path_join state ''archon/agent-id'';
                   existing = (case ho_read h path of Ok text \<Rightarrow> trim text | Err e \<Rightarrow> [])
               in if existing \<noteq> [] then (None, Ok existing)
                  else
                    let new = fresh_id h; parent = path_join state ''archon''
                    in case ho_create_dir h parent of
                         Err e \<Rightarrow> (None, Err (StopFail (''cannot create state directory '' @ parent @ '': '' @ e)))
                       | Ok _ \<Rightarrow>
                           (case ho_write h path of
                              Err e \<Rightarrow> (None, Err (StopFail (''cannot persist agent id to '' @ path @ '': '' @ e)))
                            | Ok _ \<Rightarrow> (Some (path, new), Ok new))))"

section \<open>The links of an agent\<close>

datatype (plugins only: code size) greeting =
    GreetAgent string string u64 u64 "host_node_spec list" "device_spec list"
  | GreetClient

definition build_runtime :: "string option \<Rightarrow> process_runtime" where
  "build_runtime cgroup_root = process_runtime_new cgroup_root"

text \<open>
  A request that arrives, with what discovery reports when it is handled and whether its response can be written. The session ends with the
  first response that cannot be written, or when no request can be read any more.
\<close>

type_synonym arrival = "(machine_description, string) result \<times> agent_request \<times> bool"

fun link_session :: "os \<Rightarrow> arrival list \<Rightarrow> os_trace \<Rightarrow> lease_agent \<Rightarrow> os_trace \<times> lease_agent \<times> agent_response list" where
  "link_session os [] t a = (t, a, [])"
| "link_session os ((described, request, written) # rest) t a =
     (case agent_handle os described request t a of
        (t, a, response) \<Rightarrow>
          if written then (case link_session os rest t a of (t, a, responses) \<Rightarrow> (t, a, response # responses))
          else (t, a, [response]))"

text \<open>
  The agent lives as long as its link: the runtime of processes is dropped at its end, and the runtime of containers, which has no destructor, is
  forgotten. \<open>containers\<close> is the runtime of containers that the constructor of the agent builds.
\<close>

definition run_link ::
    "os \<Rightarrow> container_runtime \<Rightarrow> string option \<Rightarrow> string \<Rightarrow> string option \<Rightarrow> arrival list \<Rightarrow> os_trace \<Rightarrow> os_trace \<times> agent_response list" where
  "run_link os containers cgroup_root instance_id name arrivals t =
     (case link_session os arrivals t (with_identity instance_id name (lease_agent_new (build_runtime cgroup_root) containers)) of
        (t, a, responses) \<Rightarrow> (fst (process_drop os t (sp_process (ag_execution a))), responses))"

record inbound_link =
  il_handshake :: bool
  il_greeting :: "greeting option"
  il_arrivals :: "arrival list"

definition listen_link ::
    "os \<Rightarrow> container_runtime \<Rightarrow> string option \<Rightarrow> string \<Rightarrow> string option \<Rightarrow> inbound_link \<Rightarrow> os_trace \<Rightarrow> os_trace \<times> agent_response list" where
  "listen_link os containers cgroup_root instance_id name link t =
     (if \<not> il_handshake link then (t, [])
      else case il_greeting link of
        Some (GreetAgent _ _ _ _ _ _) \<Rightarrow> run_link os containers cgroup_root instance_id name (il_arrivals link) t
      | _ \<Rightarrow> (t, []))"

record dial =
  dl_connected :: bool
  dl_handshake :: "(unit, string) result"
  dl_described :: "(machine_description, string) result"
  dl_greeted :: bool
  dl_arrivals :: "arrival list"

datatype (plugins only: code size) dial_outcome =
    Unreachable | HandshakeFailed string | Deferred string | GreetingLost greeting | Served greeting "agent_response list"

definition agent_greeting :: "string \<Rightarrow> string option \<Rightarrow> machine_description \<Rightarrow> greeting" where
  "agent_greeting instance_id name d =
     GreetAgent instance_id (case name of None \<Rightarrow> md_name d | Some name \<Rightarrow> name) (md_cpus d) (md_memory_bytes d) (md_host_nodes d) (md_devices d)"

text \<open>One turn of the loop of \<^verbatim>\<open>dial_in\<close>; every outcome but a served link waits two seconds before the next turn.\<close>

definition dial_attempt ::
    "os \<Rightarrow> container_runtime \<Rightarrow> string option \<Rightarrow> string \<Rightarrow> string option \<Rightarrow> dial \<Rightarrow> os_trace \<Rightarrow> os_trace \<times> dial_outcome" where
  "dial_attempt os containers cgroup_root instance_id name d t =
     (if \<not> dl_connected d then (t, Unreachable)
      else case dl_handshake d of
        Err e \<Rightarrow> (t, HandshakeFailed e)
      | Ok _ \<Rightarrow>
          (case dl_described d of
             Err e \<Rightarrow> (t, Deferred e)
           | Ok description \<Rightarrow>
               let greeting = agent_greeting instance_id name description
               in if \<not> dl_greeted d then (t, GreetingLost greeting)
                  else case run_link os containers cgroup_root instance_id name (dl_arrivals d) t of
                    (t, responses) \<Rightarrow> (t, Served greeting responses)))"

fun pause_secs :: "dial_outcome \<Rightarrow> nat" where
  "pause_secs (Served _ _) = 0"
| "pause_secs _ = 2"

fun dial_in ::
    "os \<Rightarrow> string option \<Rightarrow> string \<Rightarrow> string option \<Rightarrow> (container_runtime \<times> dial) list \<Rightarrow> os_trace \<Rightarrow> os_trace \<times> dial_outcome list" where
  "dial_in os cgroup_root instance_id name [] t = (t, [])"
| "dial_in os cgroup_root instance_id name ((containers, d) # rest) t =
     (case dial_attempt os containers cgroup_root instance_id name d t of
        (t, outcome) \<Rightarrow> (case dial_in os cgroup_root instance_id name rest t of (t, outcomes) \<Rightarrow> (t, outcome # outcomes)))"

fun listen_links ::
    "os \<Rightarrow> string option \<Rightarrow> string \<Rightarrow> string option \<Rightarrow> (container_runtime \<times> inbound_link) list \<Rightarrow> os_trace \<Rightarrow> os_trace \<times> agent_response list list" where
  "listen_links os cgroup_root instance_id name [] t = (t, [])"
| "listen_links os cgroup_root instance_id name ((containers, link) # rest) t =
     (case listen_link os containers cgroup_root instance_id name link t of
        (t, responses) \<Rightarrow> (case listen_links os cgroup_root instance_id name rest t of (t, others) \<Rightarrow> (t, responses # others)))"

text \<open>What the arguments make of an agent: an address to dial or to listen on, its identity, its name, its token and its cgroup root.\<close>

datatype (plugins only: code size) agent_mode = DialIn string | ListenOn string

record agent_plan =
  ap_mode :: agent_mode
  ap_instance_id :: string
  ap_agent_name :: "string option"
  ap_token :: "string option"
  ap_cgroup_root :: "string option"

definition agent_plan_of :: "host \<Rightarrow> string list \<Rightarrow> (string \<times> string) option \<times> (agent_plan, cli_stop) result" where
  "agent_plan_of h args =
     (case option_loop (\<lambda>_ _. None) agent_assign args (agent_options_new h) of
        Err stop \<Rightarrow> (None, Err stop)
      | Ok opts \<Rightarrow>
          let plan = (\<lambda>mode i token. \<lparr>ap_mode = mode, ap_instance_id = i, ap_agent_name = ao_name opts, ap_token = token,
                ap_cgroup_root = ao_cgroup_root opts\<rparr>)
          in case ao_register opts of
               Some addr \<Rightarrow>
                 (case load_token h (ao_token_file opts) of
                    Err stop \<Rightarrow> (None, Err stop)
                  | Ok token \<Rightarrow>
                      (case load_instance_id h (ao_id opts) of (w, r) \<Rightarrow> (w, and_then r (\<lambda>i. Ok (plan (DialIn addr) i token)))))
             | None \<Rightarrow>
                 (case ao_listen opts of
                    None \<Rightarrow> (None, Err StopUsage)
                  | Some listen \<Rightarrow>
                      (case load_instance_id h (ao_id opts) of
                         (w, r) \<Rightarrow> (w, and_then r (\<lambda>i. and_then (load_token h (ao_token_file opts)) (\<lambda>token. Ok (plan (ListenOn listen) i token)))))))"

section \<open>Requests of a client\<close>

definition is_flag :: "string \<Rightarrow> bool" where
  "is_flag arg \<longleftrightarrow> take 2 arg = ''--'' \<and> arg \<noteq> ''--''"

text \<open>The loop that \<^verbatim>\<open>service_request\<close>, \<^verbatim>\<open>scale_request\<close> and \<^verbatim>\<open>submit_request\<close> share: also an argument that stands alone must be followed by another one.\<close>

fun flag_loop ::
    "(string \<Rightarrow> 'o \<Rightarrow> 'o option) \<Rightarrow> (string \<Rightarrow> string \<Rightarrow> 'o \<Rightarrow> ('o, cli_stop) result) \<Rightarrow> string list \<Rightarrow> 'o \<Rightarrow> (string list \<times> 'o, cli_stop) result" where
  "flag_loop switch assign [] opts = Ok ([], opts)"
| "flag_loop switch assign (flag # rest) opts =
     (if \<not> is_flag flag then Ok (flag # rest, opts)
      else case rest of
        [] \<Rightarrow> Err (StopFail (''flag '' @ flag @ '' needs a value''))
      | value # rest' \<Rightarrow>
          (case switch flag opts of
             Some opts' \<Rightarrow> flag_loop switch assign rest opts'
           | None \<Rightarrow>
               (case assign flag value opts of
                  Err stop \<Rightarrow> Err stop
                | Ok opts' \<Rightarrow> flag_loop switch assign rest' opts')))"

definition unknown_flag :: "string \<Rightarrow> cli_stop" where
  "unknown_flag flag = StopRefuse (''unknown flag '' @ flag)"

definition command_after :: "string \<Rightarrow> string list \<Rightarrow> (string list, cli_stop) result" where
  "command_after what rest =
     (case rest of
        sep # command \<Rightarrow> if sep = ''--'' then Ok command else Err (StopRefuse (what @ '' needs `-- CMD...`''))
      | [] \<Rightarrow> Err (StopRefuse (what @ '' needs `-- CMD...`'')))"

text \<open>The flags that describe the workload, common to \<^verbatim>\<open>submit\<close> and \<^verbatim>\<open>service\<close>; \<open>None\<close> is a flag of another kind.\<close>

definition wire_assign :: "string \<Rightarrow> string \<Rightarrow> workload_wire \<Rightarrow> (workload_wire, cli_stop) result option" where
  "wire_assign flag value w =
     (if flag = ''--cpus'' then Some (and_then (parse_flag parse_u64 value flag) (\<lambda>n. Ok (w\<lparr>wr_cpus := n\<rparr>)))
      else if flag = ''--mem-mib'' then Some (and_then (parse_flag parse_u64 value flag) (\<lambda>n. Ok (w\<lparr>wr_memory_mib := n\<rparr>)))
      else if flag = ''--lifetime'' then Some (and_then (parse_flag parse_u64 value flag) (\<lambda>n. Ok (w\<lparr>wr_lifetime_secs := n\<rparr>)))
      else if flag = ''--grace-secs'' then Some (and_then (parse_flag parse_u32 value flag) (\<lambda>n. Ok (w\<lparr>wr_grace_secs := n\<rparr>)))
      else if flag = ''--image'' then Some (Ok (w\<lparr>wr_image := Some value\<rparr>))
      else if flag = ''--volume'' then Some (Ok (w\<lparr>wr_volumes := wr_volumes w @ [value]\<rparr>))
      else if flag = ''--publish'' then Some (Ok (w\<lparr>wr_ports := wr_ports w @ [value]\<rparr>))
      else None)"

definition wire_new :: "u64 \<Rightarrow> workload_wire" where
  "wire_new lifetime =
     \<lparr>wr_cpus = 1, wr_memory_mib = 0, wr_lifetime_secs = lifetime, wr_command = [], wr_volumes = [], wr_ports = [], wr_grace_secs = 0,
      wr_image = None, wr_gpus = 0\<rparr>"

definition submit_switch :: "string \<Rightarrow> submit_spec \<Rightarrow> submit_spec option" where
  "submit_switch flag o1 = (if flag = ''--keep-alive'' then Some (o1\<lparr>su_keep_alive := True\<rparr>) else None)"

definition submit_assign :: "string \<Rightarrow> string \<Rightarrow> submit_spec \<Rightarrow> (submit_spec, cli_stop) result" where
  "submit_assign flag value o1 =
     (if flag = ''--owner'' then and_then (parse_flag parse_u64 value flag) (\<lambda>n. Ok (o1\<lparr>su_owner := n\<rparr>))
      else if flag = ''--gpu'' then and_then (parse_flag parse_u64 value flag) (\<lambda>n. Ok (o1\<lparr>su_wire := (su_wire o1)\<lparr>wr_gpus := n\<rparr>\<rparr>))
      else case wire_assign flag value (su_wire o1) of
        Some r \<Rightarrow> and_then r (\<lambda>w. Ok (o1\<lparr>su_wire := w\<rparr>))
      | None \<Rightarrow> Err (unknown_flag flag))"

definition submit_args :: "string list \<Rightarrow> (client_request, cli_stop) result" where
  "submit_args args =
     and_then (flag_loop submit_switch submit_assign args \<lparr>su_owner = 1, su_keep_alive = False, su_wire = wire_new 60\<rparr>) (\<lambda>(rest, o1).
     and_then (command_after ''submit'' rest) (\<lambda>command.
       Ok (CqSubmit (o1\<lparr>su_wire := (su_wire o1)\<lparr>wr_command := command\<rparr>\<rparr>))))"

text \<open>The identity of a group is optional until the end.\<close>

definition service_switch :: "string \<Rightarrow> string option \<times> service_spec \<Rightarrow> (string option \<times> service_spec) option" where
  "service_switch flag o1 = (if flag = ''--per-machine'' then Some (fst o1, (snd o1)\<lparr>sv_per_machine := True\<rparr>) else None)"

definition service_assign :: "string \<Rightarrow> string \<Rightarrow> string option \<times> service_spec \<Rightarrow> (string option \<times> service_spec, cli_stop) result" where
  "service_assign flag value o1 =
     (let (i, v) = o1 in
      if flag = ''--id'' then Ok (Some value, v)
      else if flag = ''--owner'' then and_then (parse_flag parse_u64 value flag) (\<lambda>n. Ok (i, v\<lparr>sv_owner := n\<rparr>))
      else if flag = ''--replicas'' \<or> flag = ''--target'' then and_then (parse_flag parse_u32 value flag) (\<lambda>n. Ok (i, v\<lparr>sv_desired := n\<rparr>))
      else if flag = ''--min'' then and_then (parse_flag parse_u32 value flag) (\<lambda>n. Ok (i, v\<lparr>sv_min := Some n\<rparr>))
      else if flag = ''--max'' then and_then (parse_flag parse_u32 value flag) (\<lambda>n. Ok (i, v\<lparr>sv_max := Some n\<rparr>))
      else case wire_assign flag value (sv_wire v) of
        Some r \<Rightarrow> and_then r (\<lambda>w. Ok (i, v\<lparr>sv_wire := w\<rparr>))
      | None \<Rightarrow> Err (unknown_flag flag))"

definition service_args :: "string list \<Rightarrow> (client_request, cli_stop) result" where
  "service_args args =
     and_then (flag_loop service_switch service_assign args
         (None, \<lparr>sv_id = [], sv_owner = 1, sv_desired = 1, sv_max = None, sv_min = None, sv_per_machine = False, sv_wire = wire_new 3600\<rparr>))
       (\<lambda>(rest, i, v).
         case i of
           None \<Rightarrow> Err (StopRefuse ''service needs --id NAME'')
         | Some i \<Rightarrow>
             and_then (command_after ''service'' rest) (\<lambda>command.
               Ok (CqSubmitService (v\<lparr>sv_id := i, sv_wire := (sv_wire v)\<lparr>wr_command := command\<rparr>\<rparr>))))"

definition scale_assign :: "string \<Rightarrow> string \<Rightarrow> string option \<times> u32 \<Rightarrow> (string option \<times> u32, cli_stop) result" where
  "scale_assign flag value o1 =
     (if flag = ''--id'' then Ok (Some value, snd o1)
      else if flag = ''--target'' then and_then (parse_flag parse_u32 value flag) (\<lambda>n. Ok (fst o1, n))
      else Err (unknown_flag flag))"

definition scale_args :: "string list \<Rightarrow> (client_request, cli_stop) result" where
  "scale_args args =
     and_then (flag_loop (\<lambda>_ _. None) scale_assign args (None, 1)) (\<lambda>(rest, i, target).
       case i of None \<Rightarrow> Err (StopRefuse ''scale needs --id NAME'') | Some i \<Rightarrow> Ok (CqScaleService i target))"

definition request_args :: "string \<Rightarrow> string list \<Rightarrow> (client_request, cli_stop) result" where
  "request_args command rest =
     (if command = ''submit'' then submit_args rest
      else if command = ''service'' then service_args rest
      else if command = ''scale'' then scale_args rest
      else if command = ''status'' then Ok CqStatus
      else if command = ''revoke'' \<or> command = ''logs'' then
        (case rest of
           [] \<Rightarrow> Err (StopFail ''lease id required (archon -c ADDR revoke|logs LEASE)'')
         | value # _ \<Rightarrow>
             and_then (parse_flag parse_u64 value ''lease id'') (\<lambda>lease. Ok (if command = ''revoke'' then CqRevoke lease else CqLogs lease)))
      else Err StopUsage)"

section \<open>The client\<close>

definition line :: "string \<Rightarrow> string" where
  "line text = text @ [CHR 0x0A]"

definition print_lease :: "lease_info \<Rightarrow> string" where
  "print_lease l =
     line (''lease '' @ show_u64 (li_id l) @ '' owner='' @ show_u64 (li_owner l) @ '' state='' @ li_state l @
       (case li_exit_code l of None \<Rightarrow> [] | Some code \<Rightarrow> '' exit='' @ show_int code) @ '' ['' @ join '' '' (li_command l) @ '']'')"

fun print_response :: "server_response \<Rightarrow> (string, cli_stop) result" where
  "print_response (SrSubmitted i lease) =
     Ok (line (if lease = 0 then ''queued request '' @ show_u64 i @ '' (nothing admitted yet)''
               else ''request '' @ show_u64 i @ '' admitted as lease '' @ show_u64 lease))"
| "print_response (SrServiceRegistered i desired) =
     Ok (line (''service '' @ i @ '' registered, desired '' @ show_u32 desired @ '' members; reconciliation runs with maintenance''))"
| "print_response (SrScaled i target) =
     Ok (line (''service '' @ i @ '' scaled to target '' @ show_u32 target @ ''; reconciliation applies it''))"
| "print_response (SrStatus queue_len leases) =
     Ok (line (''queue: '' @ show_nat queue_len) @ (if leases = [] then line ''no leases'' else []) @ concat (map print_lease leases))"
| "print_response SrRevoked = Ok (line ''revoked'')"
| "print_response (SrLogs lease output) = Ok output"
| "print_response (SrError reason) = Err (StopError (''error: '' @ reason))"

text \<open>What the network does: the connection with its handshake, the greeting, the request, and the reply if one arrives.\<close>

record client_network =
  cn_connect :: "string \<Rightarrow> string option \<Rightarrow> (unit, string) result"
  cn_greet :: "greeting \<Rightarrow> (unit, string) result"
  cn_send :: "client_request \<Rightarrow> (unit, string) result"
  cn_reply :: "client_request \<Rightarrow> server_response option"

definition client :: "host \<Rightarrow> client_network \<Rightarrow> string option \<Rightarrow> string \<Rightarrow> string list \<Rightarrow> (string, cli_stop) result" where
  "client h net connect command rest =
     (case connect of
        None \<Rightarrow> Err StopUsage
      | Some addr \<Rightarrow>
          (case cn_connect net addr (env_token h) of
             Err e \<Rightarrow> Err (StopFail (''cannot reach control plane at '' @ addr @ '': '' @ e))
           | Ok _ \<Rightarrow>
               (case cn_greet net GreetClient of
                  Err e \<Rightarrow> Err (StopFail (''cannot greet control plane at '' @ addr @ '': '' @ e))
                | Ok _ \<Rightarrow>
                    and_then (request_args command rest) (\<lambda>request.
                      case cn_send net request of
                        Err e \<Rightarrow> Err (StopFail (''cannot send request: '' @ e))
                      | Ok _ \<Rightarrow>
                          (case cn_reply net request of
                             None \<Rightarrow> Err (StopError ''error: connection closed by control plane (bad token?)'')
                           | Some reply \<Rightarrow> print_response reply)))))"

end
