(* ===== verification/Secure_Transport.thy ===== *)
theory Secure_Transport
  imports Node_Protocol
begin

text \<open>
  The encrypted stream under every link (\<^verbatim>\<open>crates/node/src/transport.rs\<close>): the key that a token stands for, raw frames, and the reads and writes of a
  \<^verbatim>\<open>SecureStream\<close>. The hash and the two halves of a Noise session are parameters: \<open>seal\<close> is \<^verbatim>\<open>write_message\<close>, \<open>unseal\<close> is \<^verbatim>\<open>read_message\<close>, each with its session state. A refused message
  leaves something in the buffer it was to be decrypted into. The TCP stream is the list of bytes that one side writes and the other one reads.
\<close>

section \<open>Keys and raw frames\<close>

definition psk_for :: "(u8 list \<Rightarrow> u8 list) \<Rightarrow> (string \<Rightarrow> u8 list) \<Rightarrow> string option \<Rightarrow> u8 list" where
  "psk_for sha256 as_bytes token = sha256 (as_bytes ''archon-noise:'' @ as_bytes (case token of None \<Rightarrow> '''' | Some t \<Rightarrow> t))"

definition TAG_LEN :: nat where
  "TAG_LEN = 16"

definition MAX_PLAINTEXT :: nat where
  "MAX_PLAINTEXT = 65535 - TAG_LEN"

text \<open>\<^verbatim>\<open>u16::to_be_bytes\<close> and \<^verbatim>\<open>u16::from_be_bytes\<close>.\<close>

definition be_bytes :: "u16 \<Rightarrow> u8 list" where
  "be_bytes w = [ucast (drop_bit 8 w), ucast w]"

definition from_be_bytes :: "u8 \<Rightarrow> u8 \<Rightarrow> u16" where
  "from_be_bytes a b = push_bit 8 (ucast a) OR ucast b"

datatype transport_error = TransportEof | MessageTooLarge | Refused_message

definition read_raw_frame :: "u8 list \<Rightarrow> (u8 list \<times> u8 list, transport_error) result" where
  "read_raw_frame stream =
     (case stream of
        a # b # rest \<Rightarrow>
          let len = unat (from_be_bytes a b) in
          if length rest < len then Err TransportEof else Ok (take len rest, drop len rest)
      | _ \<Rightarrow> Err TransportEof)"

definition write_raw_frame :: "u8 list \<Rightarrow> (u8 list, transport_error) result" where
  "write_raw_frame payload =
     (if length payload > 65535 then Err MessageTooLarge else Ok (be_bytes (of_nat (length payload)) @ payload))"

section \<open>The secure stream\<close>

text \<open>The sending half: the session after the call, the bytes on the wire, and the result.\<close>

function chunks :: "nat \<Rightarrow> 'a list \<Rightarrow> 'a list list" where
  "chunks n xs = (if xs = [] \<or> n = 0 then [] else take n xs # chunks n (drop n xs))"
  by pat_completeness auto

termination
  by (relation "measure (\<lambda>(n, xs). length xs)") auto

declare chunks.simps [simp del]

fun seal_chunks :: "('s \<Rightarrow> u8 list \<Rightarrow> ('s \<times> u8 list) option) \<Rightarrow> 's \<Rightarrow> u8 list list \<Rightarrow> 's \<times> u8 list \<times> (unit, transport_error) result" where
  "seal_chunks seal s [] = (s, [], Ok ())"
| "seal_chunks seal s (chunk # rest) =
     (case seal s chunk of
        None \<Rightarrow> (s, [], Err Refused_message)
      | Some (s, ct) \<Rightarrow>
          (case seal_chunks seal s rest of (s, bytes, r) \<Rightarrow> (s, be_bytes (of_nat (length ct)) @ ct @ bytes, r)))"

definition secure_write :: "('s \<Rightarrow> u8 list \<Rightarrow> ('s \<times> u8 list) option) \<Rightarrow> 's \<Rightarrow> u8 list \<Rightarrow> 's \<times> u8 list \<times> (nat, transport_error) result" where
  "secure_write seal s data =
     (if data = [] then (s, [], Ok 0)
      else case seal_chunks seal s (chunks MAX_PLAINTEXT data) of
        (s, bytes, Ok _) \<Rightarrow> (s, bytes, Ok (length data))
      | (s, bytes, Err e) \<Rightarrow> (s, bytes, Err e))"

text \<open>The receiving half. A frame without content is skipped.\<close>

record 'r secure_stream =
  ss_noise :: 'r
  ss_pending :: "u8 list"
  ss_input :: "u8 list"

type_synonym 'r unseal = "'r \<Rightarrow> u8 list \<Rightarrow> ('r \<times> u8 list, u8 list) result"

lemma read_raw_frame_shorter: "read_raw_frame stream = Ok (ct, rest) \<Longrightarrow> length rest < length stream"
  by (auto simp: read_raw_frame_def Let_def split: list.splits if_splits)

function fill_pending :: "'r unseal \<Rightarrow> 'r secure_stream \<Rightarrow> 'r secure_stream \<times> (unit, transport_error) result" where
  "fill_pending unseal st =
     (if ss_pending st \<noteq> [] then (st, Ok ())
      else case read_raw_frame (ss_input st) of
        Err e \<Rightarrow> (st, Err e)
      | Ok (ct, rest) \<Rightarrow>
          (case unseal (ss_noise st) ct of
             Err buffer \<Rightarrow> (st\<lparr>ss_pending := buffer, ss_input := rest\<rparr>, Err Refused_message)
           | Ok (r, plaintext) \<Rightarrow> fill_pending unseal (st\<lparr>ss_noise := r, ss_pending := plaintext, ss_input := rest\<rparr>)))"
  by pat_completeness auto

termination
  by (relation "measure (\<lambda>(unseal, st). length (ss_input st))") (auto dest: read_raw_frame_shorter)

declare fill_pending.simps [simp del]

definition secure_read :: "'r unseal \<Rightarrow> nat \<Rightarrow> 'r secure_stream \<Rightarrow> 'r secure_stream \<times> (u8 list, transport_error) result" where
  "secure_read unseal n st =
     (if n = 0 then (st, Ok [])
      else case fill_pending unseal st of
        (st, Err e) \<Rightarrow> (st, Err e)
      | (st, Ok _) \<Rightarrow>
          let k = min (length (ss_pending st)) n
          in (st\<lparr>ss_pending := drop k (ss_pending st)\<rparr>, Ok (take k (ss_pending st))))"

section \<open>Reading and writing whole messages\<close>

text \<open>\<^verbatim>\<open>Write::write_all\<close> for a sequence of buffers, and \<^verbatim>\<open>Read::read_exact\<close>.\<close>

fun write_buffers :: "('s \<Rightarrow> u8 list \<Rightarrow> ('s \<times> u8 list) option) \<Rightarrow> 's \<Rightarrow> u8 list list \<Rightarrow> 's \<times> u8 list \<times> (unit, transport_error) result" where
  "write_buffers seal s [] = (s, [], Ok ())"
| "write_buffers seal s (data # rest) =
     (case secure_write seal s data of
        (s, bytes, Err e) \<Rightarrow> (s, bytes, Err e)
      | (s, bytes, Ok _) \<Rightarrow> (case write_buffers seal s rest of (s, later, r) \<Rightarrow> (s, bytes @ later, r)))"

function read_exact :: "'r unseal \<Rightarrow> nat \<Rightarrow> 'r secure_stream \<Rightarrow> 'r secure_stream \<times> (u8 list, transport_error) result" where
  "read_exact unseal n st =
     (if n = 0 then (st, Ok [])
      else case secure_read unseal n st of
        (st, Err e) \<Rightarrow> (st, Err e)
      | (st, Ok bytes) \<Rightarrow>
          if bytes = [] then (st, Err TransportEof)
          else case read_exact unseal (n - length bytes) st of
            (st, Err e) \<Rightarrow> (st, Err e)
          | (st, Ok later) \<Rightarrow> (st, Ok (bytes @ later)))"
  by pat_completeness auto

termination
  by (relation "measure (\<lambda>(unseal, n, st). n)") auto

declare read_exact.simps [simp del]

fun read_buffers :: "'r unseal \<Rightarrow> nat list \<Rightarrow> 'r secure_stream \<Rightarrow> 'r secure_stream \<times> (u8 list list, transport_error) result" where
  "read_buffers unseal [] st = (st, Ok [])"
| "read_buffers unseal (n # rest) st =
     (case read_exact unseal n st of
        (st, Err e) \<Rightarrow> (st, Err e)
      | (st, Ok data) \<Rightarrow>
          (case read_buffers unseal rest st of
             (st, Err e) \<Rightarrow> (st, Err e)
           | (st, Ok later) \<Rightarrow> (st, Ok (data # later))))"

section \<open>What is written is read\<close>

text \<open>
  Two halves of a session that agree: a message of at most \<open>MAX_PLAINTEXT\<close> bytes grows by the tag and is read back, and the halves agree again.
\<close>

definition halves_agree :: "('s \<Rightarrow> u8 list \<Rightarrow> ('s \<times> u8 list) option) \<Rightarrow> 'r unseal \<Rightarrow> ('s \<Rightarrow> 'r \<Rightarrow> bool) \<Rightarrow> bool" where
  "halves_agree seal unseal agree \<longleftrightarrow>
     (\<forall>s r p. agree s r \<longrightarrow> length p \<le> MAX_PLAINTEXT \<longrightarrow>
        (\<exists>s' ct r'. seal s p = Some (s', ct) \<and> length ct = length p + TAG_LEN \<and> unseal r ct = Ok (r', p) \<and> agree s' r'))"

lemma be_bytes_roundtrip: "from_be_bytes (ucast (drop_bit 8 w)) (ucast w) = w"
  unfolding from_be_bytes_def
  by (rule bit_word_eqI) (auto simp: bit_simps)

lemma read_raw_written:
  assumes "length ct \<le> 65535"
  shows "read_raw_frame (be_bytes (of_nat (length ct)) @ ct @ rest) = Ok (ct, rest)"
proof -
  have "unat (of_nat (length ct) :: u16) = length ct" using assms by (simp add: unat_of_nat take_bit_nat_eq_self)
  then show ?thesis by (simp add: read_raw_frame_def be_bytes_def be_bytes_roundtrip)
qed

text \<open>The input carries the data: it is a sequence of frames that decrypt to it one after the other.\<close>

inductive carries :: "'r unseal \<Rightarrow> 'r \<Rightarrow> u8 list \<Rightarrow> u8 list \<Rightarrow> bool" for unseal where
  Empty: "carries unseal r [] []"
| Frame: "unseal r ct = Ok (r', p) \<Longrightarrow> length ct \<le> 65535 \<Longrightarrow> carries unseal r' input data \<Longrightarrow>
    carries unseal r (be_bytes (of_nat (length ct)) @ ct @ input) (p @ data)"

lemma chunks_small: "c \<in> set (chunks n xs) \<Longrightarrow> length c \<le> n"
proof (induction n xs rule: chunks.induct)
  case (1 n xs)
  then show ?case by (subst (asm) chunks.simps) (auto split: if_splits)
qed

lemma concat_chunks: "0 < n \<Longrightarrow> concat (chunks n xs) = xs"
proof (induction n xs rule: chunks.induct)
  case (1 n xs)
  then show ?case by (subst chunks.simps) auto
qed

lemma sealed_carries:
  assumes "halves_agree seal unseal agree"
  shows "agree s r \<Longrightarrow> \<forall>p\<in>set ps. length p \<le> MAX_PLAINTEXT \<Longrightarrow>
    \<exists>s' bytes r'. seal_chunks seal s ps = (s', bytes, Ok ()) \<and> agree s' r' \<and>
      (\<forall>input data. carries unseal r' input data \<longrightarrow> carries unseal r (bytes @ input) (concat ps @ data))"
proof (induction ps arbitrary: s r)
  case (Cons p ps)
  obtain s1 ct r1 where sealed: "seal s p = Some (s1, ct)" "length ct = length p + TAG_LEN" "unseal r ct = Ok (r1, p)" "agree s1 r1"
    using assms Cons.prems unfolding halves_agree_def by fastforce
  have small: "length ct \<le> 65535" using sealed(2) Cons.prems(2) by (simp add: MAX_PLAINTEXT_def TAG_LEN_def)
  obtain s' bytes r' where rest: "seal_chunks seal s1 ps = (s', bytes, Ok ())" "agree s' r'"
      "\<forall>input data. carries unseal r' input data \<longrightarrow> carries unseal r1 (bytes @ input) (concat ps @ data)"
    using Cons.IH [OF sealed(4)] Cons.prems(2) by auto
  have "carries unseal r (be_bytes (of_nat (length ct)) @ ct @ bytes @ input) (p @ concat ps @ data)" if "carries unseal r' input data" for input data
    by (rule Frame [where unseal = unseal]) (use sealed(3) small rest(3) that in auto)
  then show ?case using sealed(1) rest(1,2) by auto
qed auto

lemma written_carries:
  assumes agreed: "halves_agree seal unseal agree"
  shows "agree s r \<Longrightarrow> \<exists>s' bytes r'. write_buffers seal s writes = (s', bytes, Ok ()) \<and> agree s' r' \<and>
      (\<forall>input data. carries unseal r' input data \<longrightarrow> carries unseal r (bytes @ input) (concat writes @ data))"
proof (induction writes arbitrary: s r)
  case (Cons w writes)
  have ps: "\<forall>p\<in>set (chunks MAX_PLAINTEXT w). length p \<le> MAX_PLAINTEXT" using chunks_small by blast
  have whole: "concat (chunks MAX_PLAINTEXT w) = w" by (rule concat_chunks) (simp add: MAX_PLAINTEXT_def TAG_LEN_def)
  obtain s1 bytes r1 n where first: "secure_write seal s w = (s1, bytes, Ok n)" "agree s1 r1"
      "\<forall>input data. carries unseal r1 input data \<longrightarrow> carries unseal r (bytes @ input) (w @ data)"
  proof (cases "w = []")
    case True
    then show thesis using that [of s "[]" 0 r] Cons.prems by (simp add: secure_write_def)
  next
    case False
    obtain s1 bytes r1 where "seal_chunks seal s (chunks MAX_PLAINTEXT w) = (s1, bytes, Ok ())" "agree s1 r1"
        "\<forall>input data. carries unseal r1 input data \<longrightarrow> carries unseal r (bytes @ input) (w @ data)"
      using sealed_carries [OF agreed Cons.prems ps] unfolding whole by blast
    then show thesis using that [of s1 bytes "length w" r1] False by (simp add: secure_write_def)
  qed
  obtain s' later r' where rest: "write_buffers seal s1 writes = (s', later, Ok ())" "agree s' r'"
      "\<forall>input data. carries unseal r' input data \<longrightarrow> carries unseal r1 (later @ input) (concat writes @ data)"
    using Cons.IH [OF first(2)] by blast
  have "carries unseal r (bytes @ later @ input) (w @ concat writes @ data)" if "carries unseal r' input data" for input data
    using first(3) rest(3) that by blast
  then show ?case using first(1) rest(1,2) by auto
qed auto

text \<open>A stream holds the data: what is pending, and what its input carries.\<close>

definition holds :: "'r unseal \<Rightarrow> 'r secure_stream \<Rightarrow> u8 list \<Rightarrow> bool" where
  "holds unseal st data \<longleftrightarrow> (\<exists>rest. carries unseal (ss_noise st) (ss_input st) rest \<and> data = ss_pending st @ rest)"

lemma fill_holds:
  assumes "carries unseal (ss_noise st) (ss_input st) rest" and "ss_pending st @ rest \<noteq> []"
  shows "\<exists>st'. fill_pending unseal st = (st', Ok ()) \<and> ss_pending st' \<noteq> [] \<and> holds unseal st' (ss_pending st @ rest)"
  using assms
proof (induction "ss_noise st" "ss_input st" rest arbitrary: st rule: carries.induct)
  case Empty
  then show ?case by (subst fill_pending.simps) (auto simp: holds_def intro: carries.Empty)
next
  case (Frame ct r' p input data)
  show ?case
  proof (cases "ss_pending st = []")
    case False
    then show ?thesis using Frame.hyps carries.Frame [of unseal "ss_noise st" ct r' p input data]
      by (subst fill_pending.simps) (auto simp: holds_def)
  next
    case True
    let ?st = "st\<lparr>ss_noise := r', ss_pending := p, ss_input := input\<rparr>"
    have "read_raw_frame (ss_input st) = Ok (ct, input)" using Frame.hyps(2,5) read_raw_written [of ct input] by simp
    then have "fill_pending unseal st = fill_pending unseal ?st"
      using True Frame.hyps(1) by (subst fill_pending.simps) simp
    then show ?thesis using Frame.hyps(4) [of ?st] Frame.prems True by simp
  qed
qed

lemma read_holds:
  assumes "holds unseal st data" and "n \<noteq> 0" and "data \<noteq> []"
  shows "\<exists>st' k. secure_read unseal n st = (st', Ok (take k data)) \<and> 0 < k \<and> k \<le> n \<and> k \<le> length data \<and> holds unseal st' (drop k data)"
proof -
  obtain rest where "carries unseal (ss_noise st) (ss_input st) rest" "data = ss_pending st @ rest" using assms(1) unfolding holds_def by blast
  then obtain st1 where fill: "fill_pending unseal st = (st1, Ok ())" "ss_pending st1 \<noteq> []" "holds unseal st1 data"
    using fill_holds [of unseal st rest] assms(3) by auto
  obtain rest1 where tail: "carries unseal (ss_noise st1) (ss_input st1) rest1" "data = ss_pending st1 @ rest1"
    using fill(3) unfolding holds_def by blast
  let ?k = "min (length (ss_pending st1)) n"
  have "secure_read unseal n st = (st1\<lparr>ss_pending := drop ?k (ss_pending st1)\<rparr>, Ok (take ?k data))"
    using assms(2) fill(1) tail(2) by (simp add: secure_read_def Let_def)
  moreover have "holds unseal (st1\<lparr>ss_pending := drop ?k (ss_pending st1)\<rparr>) (drop ?k data)"
    using tail by (auto simp: holds_def)
  moreover have "0 < ?k" "?k \<le> length data" using fill(2) assms(2) tail(2) by auto
  ultimately show ?thesis by (metis min.cobounded2)
qed

lemma exact_holds:
  "holds unseal st data \<Longrightarrow> n \<le> length data \<Longrightarrow> \<exists>st'. read_exact unseal n st = (st', Ok (take n data)) \<and> holds unseal st' (drop n data)"
proof (induction n arbitrary: st data rule: less_induct)
  case (less n)
  show ?case
  proof (cases "n = 0")
    case True
    then show ?thesis using less.prems(1) by (subst read_exact.simps) simp
  next
    case False
    then have data: "data \<noteq> []" using less.prems(2) by auto
    obtain st1 k where step: "secure_read unseal n st = (st1, Ok (take k data))" "0 < k" "k \<le> n" "k \<le> length data" "holds unseal st1 (drop k data)"
      using read_holds [OF less.prems(1) False data] by blast
    have "n - k < n" "n - k \<le> length (drop k data)" using step(2,3) less.prems(2) False by simp_all
    then obtain st' where "read_exact unseal (n - k) st1 = (st', Ok (take (n - k) (drop k data)))" "holds unseal st' (drop (n - k) (drop k data))"
      using less.IH [of "n - k" st1 "drop k data"] step(5) by blast
    moreover have "take n data = take k data @ take (n - k) (drop k data)" using step(3) by (metis le_add_diff_inverse take_add)
    ultimately show ?thesis using step False by (subst read_exact.simps) auto
  qed
qed

text \<open>Consecutive pieces of a list.\<close>

fun pieces :: "nat list \<Rightarrow> 'a list \<Rightarrow> 'a list list" where
  "pieces [] xs = []"
| "pieces (n # ns) xs = take n xs # pieces ns (drop n xs)"

lemma buffers_hold:
  "holds unseal st data \<Longrightarrow> sum_list ns \<le> length data \<Longrightarrow> \<exists>st'. read_buffers unseal ns st = (st', Ok (pieces ns data))"
proof (induction ns arbitrary: st data)
  case (Cons n ns)
  obtain st1 where first: "read_exact unseal n st = (st1, Ok (take n data))" "holds unseal st1 (drop n data)"
    using exact_holds [OF Cons.prems(1), of n] Cons.prems(2) by auto
  have "sum_list ns \<le> length (drop n data)" using Cons.prems(2) by simp
  then obtain st2 where "read_buffers unseal ns st1 = (st2, Ok (pieces ns (drop n data)))" using Cons.IH [OF first(2)] by blast
  then show ?case using first(1) by simp
qed simp

section \<open>Delivery\<close>

text \<open>
  C16. A link delivers what is written, in order: whatever buffers one side writes, of any size, all writes succeed, and the other side reads their concatenation in
  pieces of any sizes it asks for.
\<close>

theorem link_delivers:
  assumes "halves_agree seal unseal agree" and "agree s r" and "sum_list ns \<le> length (concat writes)"
  shows "\<exists>s' bytes st. write_buffers seal s writes = (s', bytes, Ok ()) \<and>
    read_buffers unseal ns \<lparr>ss_noise = r, ss_pending = [], ss_input = bytes\<rparr> = (st, Ok (pieces ns (concat writes)))"
proof -
  obtain s' bytes r' where written: "write_buffers seal s writes = (s', bytes, Ok ())"
      "\<forall>input data. carries unseal r' input data \<longrightarrow> carries unseal r (bytes @ input) (concat writes @ data)"
    using written_carries [OF assms(1,2), of writes] by blast
  have "carries unseal r bytes (concat writes)" using written(2) carries.Empty [of unseal r'] by fastforce
  then have "holds unseal \<lparr>ss_noise = r, ss_pending = [], ss_input = bytes\<rparr> (concat writes)" by (simp add: holds_def)
  then show ?thesis using buffers_hold assms(3) written(1) by blast
qed

text \<open>A session that counts its messages and marks each with the count, as a witness that halves can agree.\<close>

definition count_seal :: "nat \<Rightarrow> u8 list \<Rightarrow> (nat \<times> u8 list) option" where
  "count_seal n p = Some (Suc n, replicate TAG_LEN (of_nat n) @ p)"

definition count_unseal :: "nat unseal" where
  "count_unseal n ct = (if take TAG_LEN ct = replicate TAG_LEN (of_nat n) then Ok (Suc n, drop TAG_LEN ct) else Err ct)"

lemma count_halves_agree: "halves_agree count_seal count_unseal (=)"
  by (simp add: halves_agree_def count_seal_def count_unseal_def)

theorem link_delivers_witness:
  "\<exists>s' bytes st. write_buffers count_seal 0 [[1, 2], [3]] = (s', bytes, Ok ()) \<and>
     read_buffers count_unseal [1, 2] \<lparr>ss_noise = 0, ss_pending = [], ss_input = bytes\<rparr> = (st, Ok [[1], [2, 3]])"
  using link_delivers [OF count_halves_agree refl, of "[1, 2]" "[[1, 2], [3]]" 0] by (simp add: numeral_2_eq_2)

text \<open>
  A frame that fails to decrypt is an error once. The buffer it was to be decrypted into stays pending, as long as the ciphertext: a caller that reads on
  gets its content as if the other side had sent it.
\<close>

lemma refused_frame_is_read_next:
  assumes "ss_pending st = []" and "ss_input st = be_bytes (of_nat (length ct)) @ ct @ rest" and "length ct \<le> 65535"
    and "unseal (ss_noise st) ct = Err buffer" and "buffer \<noteq> []" and "0 < n"
  shows "secure_read unseal n st = (st\<lparr>ss_pending := buffer, ss_input := rest\<rparr>, Err Refused_message) \<and>
    snd (secure_read unseal n (st\<lparr>ss_pending := buffer, ss_input := rest\<rparr>)) = Ok (take n buffer)"
proof -
  have "fill_pending unseal st = (st\<lparr>ss_pending := buffer, ss_input := rest\<rparr>, Err Refused_message)"
    using assms(1-4) read_raw_written [of ct rest] by (subst fill_pending.simps) simp
  moreover have "fill_pending unseal (st\<lparr>ss_pending := buffer, ss_input := rest\<rparr>) = (st\<lparr>ss_pending := buffer, ss_input := rest\<rparr>, Ok ())"
    using assms(5) by (subst fill_pending.simps) simp
  ultimately show ?thesis using assms(6) by (simp add: secure_read_def Let_def min_def)
qed

end
