(* ===== verification/Command_Facts.thy ===== *)
theory Command_Facts
  imports Command_Line Agent_Safety Protocol_Roundtrip Secure_Transport
begin

text \<open>
  What the command line and the links of an agent guarantee: a request survives its way through the arguments, an identity survives a restart of the
  agent, and an agent that loses its link leaves no process behind.
\<close>

section \<open>Processes over one link\<close>

lemma container_stop_calm: "calm os t (fst (container_terminate_with_grace os lease grace t cr))"
proof -
  have "calm os t (EngineStop name grace # t)" "calm os t (EngineRemove lease name # EngineStop name grace # t)" for name
    using calm_action [of "EngineStop name grace" os t] calm_action [of "EngineRemove lease name" os "EngineStop name grace # t"]
    by (auto intro: calm_trans)
  then show ?thesis
    by (auto simp: container_terminate_with_grace_def Let_def split: option.split result.split os_value.split bool.split)
qed

lemma start_keeps_processes:
  assumes "processes_ok os t (sp_process sp)" and "supervisor_start os lease start t sp = (t', sp', r)"
  shows "processes_ok os t' (sp_process sp')"
  using assms keeps_process_activate [OF assms(1), of lease "xs_command start" "xs_limits start" "xs_devices start"]
    processes_engine [OF assms(1), of lease "run_args (sp_containers sp) lease start"]
  by (auto simp: supervisor_start_def keeps_processes_def container_activate_def Let_def
      split: if_splits prod.splits result.splits os_value.splits bool.splits)

lemma stop_keeps_processes:
  assumes "processes_ok os t (sp_process sp)" and "supervisor_stop os lease t sp = (t', sp', r)"
  shows "processes_ok os t' (sp_process sp')"
proof -
  let ?g = "btree_get_or 0 (sp_grace sp) lease"
  have "processes_ok os (fst (container_terminate_with_grace os lease ?g t (sp_containers sp))) (sp_process sp)"
    by (rule processes_calm [OF assms(1) container_stop_calm])
  then show ?thesis
    using assms(2) keeps_terminate_with_grace [OF assms(1), of lease ?g]
    by (auto simp: supervisor_stop_def keeps_processes_def Let_def split: if_splits prod.splits)
qed

lemma status_keeps_processes:
  assumes "processes_ok os t (sp_process sp)" and "supervisor_status os lease t sp = (t', sp', r)"
  shows "processes_ok os t' (sp_process sp')"
proof -
  have "calm os t (fst (container_status os lease t (sp_containers sp)))"
    using calm_trans [OF calm_action calm_action] calm_action
    by (auto simp: container_status_def Let_def split: option.split result.split)
  then have "processes_ok os (fst (container_status os lease t (sp_containers sp))) (sp_process sp)"
    by (rule processes_calm [OF assms(1)])
  then show ?thesis
    using assms(2) keeps_process_status [OF assms(1), of lease]
    by (auto simp: supervisor_status_def keeps_processes_def split: if_splits prod.splits)
qed

lemma handle_keeps_processes:
  assumes "processes_ok os t (sp_process (ag_execution a))" and "agent_handle os described request t a = (t', a', response)"
  shows "processes_ok os t' (sp_process (ag_execution a'))"
proof (cases request)
  case RqCapabilities
  have "calm os t (fst (supervisor_capabilities os (ag_execution a) t))"
    using calm_capabilities [of os t "sp_process (ag_execution a)"] by (simp add: supervisor_capabilities_def case_prod_beta)
  then show ?thesis using assms RqCapabilities by (auto split: prod.splits intro: processes_calm)
next
  case (RqLogs lease)
  then show ?thesis using assms calm_logs [of os t lease "ag_execution a"] by (auto split: prod.splits intro: processes_calm)
next
  case (RqStatus lease)
  then show ?thesis using assms status_keeps_processes by (auto split: prod.splits)
next
  case (RqStartExecution lease session epoch command limits img storage ports grace devices)
  then show ?thesis using assms start_keeps_processes [OF assms(1)] by (auto split: prod.splits result.splits)
next
  case (RqStopExecution lease session epoch)
  then show ?thesis using assms stop_keeps_processes [OF assms(1)] by (auto split: prod.splits result.splits)
qed (use assms in \<open>auto split: prod.splits result.splits\<close>)

lemma session_keeps_processes:
  "processes_ok os t (sp_process (ag_execution a)) \<Longrightarrow> link_session os arrivals t a = (t', a', responses) \<Longrightarrow>
     processes_ok os t' (sp_process (ag_execution a'))"
proof (induction os arrivals t a arbitrary: responses rule: link_session.induct)
  case (2 os described request written rest t a)
  obtain t1 a1 r1 where handled: "agent_handle os described request t a = (t1, a1, r1)" by (cases "agent_handle os described request t a")
  have "processes_ok os t1 (sp_process (ag_execution a1))" using handle_keeps_processes [OF 2(2) handled] .
  then show ?case using 2(1) [OF handled [symmetric] refl] 2(3) handled by (auto split: if_splits prod.splits)
qed simp

section \<open>The end of a link\<close>

text \<open>What may run belongs to one of the leases, or its end could not be observed.\<close>

definition runs_only :: "os \<Rightarrow> lease_id set \<Rightarrow> os_trace \<Rightarrow> process_runtime \<Rightarrow> bool" where
  "runs_only os leases t rt \<longleftrightarrow>
     (\<forall>cg\<in>live_groups os t. \<exists>lease\<in>leases. btree_get (rt_groups rt) lease = Some cg) \<and> live_children os t \<subseteq> leases \<union> lost os t"

lemma terminate_child_frame:
  "terminate_child os lease t rt = (t', rt', r) \<Longrightarrow>
     rt_groups rt' = rt_groups rt \<and> (\<forall>l. l \<noteq> lease \<longrightarrow> btree_get (rt_children rt') l = btree_get (rt_children rt) l) \<and>
     btree_get (rt_children rt') lease = None"
  by (auto simp: terminate_child_def Let_def ask_def btree_contains_key_def split: if_splits result.splits os_value.splits)

lemma reap_frame:
  "reap os lease t rt = (t', rt', r) \<Longrightarrow>
     rt_groups rt' = rt_groups rt \<and> (\<forall>l. l \<noteq> lease \<longrightarrow> btree_get (rt_children rt') l = btree_get (rt_children rt) l) \<and>
     btree_get (rt_children rt') lease = None"
  by (auto simp: reap_def Let_def ask_def btree_contains_key_def split: if_splits result.splits os_value.splits)

text \<open>The system never refuses to kill a group.\<close>

definition kills_groups :: "os \<Rightarrow> bool" where
  "kills_groups os \<longleftrightarrow> (\<forall>cg u. is_ok (os (WriteGroup cg ''cgroup.kill'' ''1'' # u)))"

text \<open>Where groups can always be killed, terminating a lease ends its group and forgets its child.\<close>

lemma terminate_ends:
  assumes kills: "kills_groups os" and out: "process_terminate os lease t rt = (t', rt', r)"
  shows "(\<forall>l. l \<noteq> lease \<longrightarrow> btree_get (rt_groups rt') l = btree_get (rt_groups rt) l) \<and> btree_get (rt_children rt') lease = None \<and>
    (\<forall>cg. btree_get (rt_groups rt) lease = Some cg \<longrightarrow> cg \<notin> live_groups os t')"
proof (cases "btree_get (rt_groups rt) lease")
  case None
  then show ?thesis using out terminate_child_frame [of os lease t rt] by (auto simp: process_terminate_def)
next
  case (Some cg)
  let ?kill = "WriteGroup cg ''cgroup.kill'' ''1'' # t"
  obtain t2 rt2 r2 where reaped: "reap os lease ?kill rt = (t2, rt2, r2)" by (cases "reap os lease ?kill rt")
  have killed: "cg \<notin> live_groups os ?kill" "group_kill os cg t = (?kill, Ok ())"
    using kills unfolding kills_groups_def by (simp_all add: group_kill_def ask_def is_ok_iff split: result.split) (metis result.distinct(1))
  have "calm os ?kill t2" using reap_groups [OF reaped] by simp
  moreover have "calm os t2 (fst (group_destroy os cg t2))" by (rule calm_group(2))
  ultimately have "cg \<notin> live_groups os t2" "cg \<notin> live_groups os (fst (group_destroy os cg t2))" using killed(1) unfolding calm_def by blast+
  then show ?thesis
    using out reap_frame [OF reaped] by (auto simp: process_terminate_def Some killed(2) reaped split: result.splits)
qed

lemma terminate_runs_only:
  assumes "kills_groups os" and "processes_ok os t rt" and "runs_only os (insert lease leases) t rt"
    and "process_terminate os lease t rt = (t', rt', r)"
  shows "processes_ok os t' rt' \<and> runs_only os leases t' rt'"
proof -
  have ok: "processes_ok os t' rt'" using keeps_process_terminate [OF assms(2), of lease] assms(4) by (simp add: keeps_processes_def)
  have calm: "calm os t t'" using calm_process_terminate [of os t lease rt] assms(4) by simp
  note ends = terminate_ends [OF assms(1,4)]
  have others: "btree_get (rt_groups rt') l = btree_get (rt_groups rt) l" if "l \<noteq> lease" for l using ends that by blast
  have own: "btree_get (rt_groups rt) lease \<noteq> Some cg" if "cg \<in> live_groups os t'" for cg using ends that by blast
  have "\<exists>l\<in>leases. btree_get (rt_groups rt') l = Some cg" if live: "cg \<in> live_groups os t'" for cg
  proof -
    have "cg \<in> live_groups os t" using live calm by (auto simp: calm_def)
    then obtain l where l: "l \<in> insert lease leases" "btree_get (rt_groups rt) l = Some cg" using assms(3) by (auto simp: runs_only_def)
    then have "l \<noteq> lease" using own [OF live] by auto
    then show ?thesis using l others [of l] by auto
  qed
  moreover have "l \<in> leases \<union> lost os t'" if "l \<in> live_children os t'" for l
  proof (cases "l = lease")
    case True
    then show ?thesis using that ok ends unfolding processes_ok_def by auto
  next
    case False
    then show ?thesis using that calm assms(3) unfolding calm_def runs_only_def by blast
  qed
  ultimately show ?thesis using ok unfolding runs_only_def by blast
qed

lemma drop_runs_nothing:
  assumes "kills_groups os" and "processes_ok os t rt" and "runs_only os (set leases) t rt"
    and "fold (\<lambda>lease (t, rt). case process_terminate os lease t rt of (t, rt, _) \<Rightarrow> (t, rt)) leases (t, rt) = (t', rt')"
  shows "runs_only os {} t' rt'"
  using assms(2-4)
proof (induction leases arbitrary: t rt)
  case (Cons lease leases)
  obtain t1 rt1 r1 where out: "process_terminate os lease t rt = (t1, rt1, r1)" by (cases "process_terminate os lease t rt")
  have "processes_ok os t1 rt1 \<and> runs_only os (set leases) t1 rt1"
    using terminate_runs_only [OF assms(1) Cons.prems(1) _ out, of "set leases"] Cons.prems(2) by simp
  then show ?case using Cons.IH [of t1 rt1] Cons.prems(3) out by simp
qed simp

text \<open>Nothing may run but what could not be observed.\<close>

definition quiet :: "os \<Rightarrow> os_trace \<Rightarrow> bool" where
  "quiet os t \<longleftrightarrow> live_groups os t = {} \<and> live_children os t \<subseteq> lost os t"

lemma process_drop_quiet:
  assumes "kills_groups os" and ok: "processes_ok os t rt"
  shows "quiet os (fst (process_drop os t rt))"
proof -
  let ?leases = "remdups (sort (btree_keys (rt_children rt) @ btree_keys (rt_groups rt)))"
  have "\<exists>lease\<in>set ?leases. btree_get (rt_groups rt) lease = Some cg" if "cg \<in> live_groups os t" for cg
    using ok that by (force simp: processes_ok_def)
  moreover have "lease \<in> set ?leases \<union> lost os t" if "lease \<in> live_children os t" for lease
    using ok that by (auto simp: processes_ok_def)
  ultimately have "runs_only os (set ?leases) t rt" unfolding runs_only_def by blast
  then show ?thesis
    using drop_runs_nothing [OF assms(1) ok, of ?leases]
    by (cases "process_drop os t rt") (auto simp: process_drop_def runs_only_def quiet_def)
qed

lemma run_link_quiet:
  assumes "kills_groups os" and "quiet os t"
  shows "quiet os (fst (run_link os containers cgroup_root instance_id name arrivals t))"
proof -
  let ?a = "with_identity instance_id name (lease_agent_new (build_runtime cgroup_root) containers)"
  obtain t1 a1 rs where served: "link_session os arrivals t ?a = (t1, a1, rs)" by (cases "link_session os arrivals t ?a")
  have "processes_ok os t (sp_process (ag_execution ?a))"
    using assms(2) by (auto simp: quiet_def processes_ok_def with_identity_def lease_agent_new_def supervisor_new_def build_runtime_def process_runtime_new_def)
  then have "processes_ok os t1 (sp_process (ag_execution a1))" by (rule session_keeps_processes [OF _ served])
  then show ?thesis using process_drop_quiet [OF assms(1)] by (simp add: run_link_def served)
qed

section \<open>The arguments of a request\<close>

lemma parse_show_u64: "parse_u64 (show_u64 w) = Some w"
proof -
  have "\<not> 2 ^ 64 \<le> unat w" using unsigned_less [of w, where 'a = nat] by simp
  moreover obtain c s where cs: "show_nat (unat w) = c # s" using show_nat_digits [of "unat w"] by (cases "show_nat (unat w)") auto
  moreover have "c \<noteq> CHR ''+''" using show_nat_digits [of "unat w"] cs digit_not_special(1) by auto
  ultimately show ?thesis
    using show_nat_digits [of "unat w"] by (simp add: parse_u64_def show_u64_def cs)
qed

lemma shown_number_plain: "show_u64 w \<noteq> ''-c''" "show_u64 w \<noteq> ''--''" "show_u32 v \<noteq> ''-c''" "show_u32 v \<noteq> ''--''"
proof -
  have "show_nat n \<noteq> CHR ''-'' # s" for n s using show_nat_digits [of n] by (auto simp: is_digit_def)
  then show "show_u64 w \<noteq> ''-c''" "show_u64 w \<noteq> ''--''" "show_u32 v \<noteq> ''-c''" "show_u32 v \<noteq> ''--''"
    by (simp_all add: show_u64_def show_u32_def)
qed

text \<open>A flag with its value, and a flag that stands alone.\<close>

lemma flag_loop_assign:
  "is_flag flag \<Longrightarrow> switch flag opts = None \<Longrightarrow> assign flag value opts = Ok opts' \<Longrightarrow>
     flag_loop switch assign (flag # value # rest) opts = flag_loop switch assign rest opts'"
  by simp

lemma flag_loop_value:
  "is_flag flag \<Longrightarrow> switch flag opts = None \<Longrightarrow>
     flag_loop switch assign (flag # value # rest) opts =
       (case assign flag value opts of Err stop \<Rightarrow> Err stop | Ok opts' \<Rightarrow> flag_loop switch assign rest opts')"
  by simp

lemma flag_loop_switch:
  "is_flag flag \<Longrightarrow> switch flag opts = Some opts' \<Longrightarrow> rest \<noteq> [] \<Longrightarrow> flag_loop switch assign (flag # rest) opts = flag_loop switch assign rest opts'"
  by (cases rest) simp_all

text \<open>Arguments that stand for a workload, as a user may write them.\<close>

definition flag_values :: "string \<Rightarrow> string list \<Rightarrow> string list" where
  "flag_values flag values = concat (map (\<lambda>value. [flag, value]) values)"

definition wire_line :: "workload_wire \<Rightarrow> string list" where
  "wire_line w =
     [''--cpus'', show_u64 (wr_cpus w), ''--mem-mib'', show_u64 (wr_memory_mib w), ''--lifetime'', show_u64 (wr_lifetime_secs w),
      ''--grace-secs'', show_u32 (wr_grace_secs w)] @
     (case wr_image w of None \<Rightarrow> [] | Some img \<Rightarrow> [''--image'', img]) @ flag_values ''--volume'' (wr_volumes w) @ flag_values ''--publish'' (wr_ports w)"

definition submit_line :: "submit_spec \<Rightarrow> string list" where
  "submit_line spec =
     [''--owner'', show_u64 (su_owner spec), ''--gpu'', show_u64 (wr_gpus (su_wire spec))] @
     (if su_keep_alive spec then [''--keep-alive''] else []) @ wire_line (su_wire spec) @ ''--'' # wr_command (su_wire spec)"

definition service_line :: "service_spec \<Rightarrow> string list" where
  "service_line spec =
     [''--id'', sv_id spec, ''--owner'', show_u64 (sv_owner spec), ''--target'', show_u32 (sv_desired spec)] @
     (case sv_min spec of None \<Rightarrow> [] | Some n \<Rightarrow> [''--min'', show_u32 n]) @ (case sv_max spec of None \<Rightarrow> [] | Some n \<Rightarrow> [''--max'', show_u32 n]) @
     (if sv_per_machine spec then [''--per-machine''] else []) @ wire_line (sv_wire spec) @ ''--'' # wr_command (sv_wire spec)"

text \<open>A reader of options that passes the flags of a workload on to \<open>wire_assign\<close>.\<close>

locale wire_reader =
  fixes switch :: "string \<Rightarrow> 'o \<Rightarrow> 'o option" and assign :: "string \<Rightarrow> string \<Rightarrow> 'o \<Rightarrow> ('o, cli_stop) result"
    and with_wire :: "workload_wire \<Rightarrow> 'o"
  assumes no_switch: "wire_assign flag value w = Some (Ok w') \<Longrightarrow> switch flag (with_wire w) = None"
    and passes: "wire_assign flag value w = Some (Ok w') \<Longrightarrow> assign flag value (with_wire w) = Ok (with_wire w')"
begin

lemma wire_step:
  assumes "is_flag flag" and "wire_assign flag value w = Some (Ok w')"
  shows "flag_loop switch assign (flag # value # rest) (with_wire w) = flag_loop switch assign rest (with_wire w')"
  by (rule flag_loop_assign) (fact assms(1) no_switch [OF assms(2)] passes [OF assms(2)])+

lemma wire_volumes:
  "flag_loop switch assign (flag_values ''--volume'' volumes @ rest) (with_wire w) =
     flag_loop switch assign rest (with_wire (w\<lparr>wr_volumes := wr_volumes w @ volumes\<rparr>))"
proof (induction volumes arbitrary: w)
  case (Cons v volumes)
  have "wire_assign ''--volume'' v w = Some (Ok (w\<lparr>wr_volumes := wr_volumes w @ [v]\<rparr>))" by (simp add: wire_assign_def)
  from wire_step [OF _ this] Cons.IH show ?case by (simp add: flag_values_def is_flag_def)
qed (simp add: flag_values_def)

lemma wire_ports:
  "flag_loop switch assign (flag_values ''--publish'' ports @ rest) (with_wire w) =
     flag_loop switch assign rest (with_wire (w\<lparr>wr_ports := wr_ports w @ ports\<rparr>))"
proof (induction ports arbitrary: w)
  case (Cons v ports)
  have "wire_assign ''--publish'' v w = Some (Ok (w\<lparr>wr_ports := wr_ports w @ [v]\<rparr>))" by (simp add: wire_assign_def)
  from wire_step [OF _ this] Cons.IH show ?case by (simp add: flag_values_def is_flag_def)
qed (simp add: flag_values_def)

text \<open>All flags of a workload, read over the defaults.\<close>

lemma wire_read:
  assumes "wr_volumes w = []" and "wr_ports w = []" and "wr_image w = None"
  shows "flag_loop switch assign (wire_line v @ rest) (with_wire w) =
     flag_loop switch assign rest (with_wire (v\<lparr>wr_command := wr_command w, wr_gpus := wr_gpus w\<rparr>))"
proof -
  let ?w1 = "w\<lparr>wr_cpus := wr_cpus v\<rparr>"
  let ?w2 = "?w1\<lparr>wr_memory_mib := wr_memory_mib v\<rparr>"
  let ?w3 = "?w2\<lparr>wr_lifetime_secs := wr_lifetime_secs v\<rparr>"
  let ?w4 = "?w3\<lparr>wr_grace_secs := wr_grace_secs v\<rparr>"
  let ?w5 = "?w4\<lparr>wr_image := wr_image v\<rparr>"
  have steps: "wire_assign ''--cpus'' (show_u64 (wr_cpus v)) w = Some (Ok ?w1)"
    "wire_assign ''--mem-mib'' (show_u64 (wr_memory_mib v)) ?w1 = Some (Ok ?w2)"
    "wire_assign ''--lifetime'' (show_u64 (wr_lifetime_secs v)) ?w2 = Some (Ok ?w3)"
    "wire_assign ''--grace-secs'' (show_u32 (wr_grace_secs v)) ?w3 = Some (Ok ?w4)"
    "wr_image v = Some img \<Longrightarrow> wire_assign ''--image'' img ?w4 = Some (Ok ?w5)" for img
    by (simp_all add: wire_assign_def parse_flag_def parse_show_u64 parse_show_u32)
  have img: "flag_loop switch assign ((case wr_image v of None \<Rightarrow> [] | Some img \<Rightarrow> [''--image'', img]) @ more) (with_wire ?w4) =
      flag_loop switch assign more (with_wire ?w5)" for more
    using wire_step [OF _ steps(5)] assms(3) by (cases w, cases "wr_image v") (simp_all add: is_flag_def)
  have same: "?w5\<lparr>wr_volumes := wr_volumes v, wr_ports := wr_ports v\<rparr> = v\<lparr>wr_command := wr_command w, wr_gpus := wr_gpus w\<rparr>"
    by (cases w, cases v) simp
  have "flag_loop switch assign (wire_line v @ rest) (with_wire w) =
      flag_loop switch assign rest (with_wire (?w5\<lparr>wr_volumes := wr_volumes v, wr_ports := wr_ports v\<rparr>))"
    using wire_step [OF _ steps(1)] wire_step [OF _ steps(2)] wire_step [OF _ steps(3)] wire_step [OF _ steps(4)] img wire_volumes wire_ports assms(1,2)
    by (simp add: wire_line_def is_flag_def)
  then show ?thesis unfolding same .
qed

end

lemma wire_assign_other:
  "wire_assign ''--keep-alive'' value w = None" "wire_assign ''--per-machine'' value w = None" "wire_assign ''--owner'' value w = None"
  "wire_assign ''--gpu'' value w = None" "wire_assign ''--id'' value w = None" "wire_assign ''--replicas'' value w = None"
  "wire_assign ''--target'' value w = None" "wire_assign ''--min'' value w = None" "wire_assign ''--max'' value w = None"
  by (simp_all add: wire_assign_def)

lemma wire_assign_flag:
  assumes "wire_assign flag value w = Some r"
  shows "flag \<notin> {''--keep-alive'', ''--per-machine'', ''--owner'', ''--gpu'', ''--id'', ''--replicas'', ''--target'', ''--min'', ''--max''}"
  using assms wire_assign_other [of "value" w] by auto

interpretation submit_reader: wire_reader submit_switch submit_assign "\<lambda>w. \<lparr>su_owner = owner, su_keep_alive = keep, su_wire = w\<rparr>" for owner keep
proof unfold_locales
  fix flag "value" w w'
  assume wire: "wire_assign flag value w = Some (Ok w')"
  show "submit_switch flag \<lparr>su_owner = owner, su_keep_alive = keep, su_wire = w\<rparr> = None"
    using wire_assign_flag [OF wire] unfolding submit_switch_def by simp
  show "submit_assign flag value \<lparr>su_owner = owner, su_keep_alive = keep, su_wire = w\<rparr> = Ok \<lparr>su_owner = owner, su_keep_alive = keep, su_wire = w'\<rparr>"
    using wire wire_assign_flag [OF wire] unfolding submit_assign_def by simp
qed

interpretation service_reader: wire_reader service_switch service_assign "\<lambda>w. (i, spec\<lparr>sv_wire := w\<rparr>)" for i spec
proof unfold_locales
  fix flag "value" w w'
  assume wire: "wire_assign flag value w = Some (Ok w')"
  show "service_switch flag (i, spec\<lparr>sv_wire := w\<rparr>) = None"
    using wire_assign_flag [OF wire] unfolding service_switch_def by simp
  show "service_assign flag value (i, spec\<lparr>sv_wire := w\<rparr>) = Ok (i, spec\<lparr>sv_wire := w'\<rparr>)"
    using wire wire_assign_flag [OF wire] unfolding service_assign_def by simp
qed

text \<open>Arguments that the search for \<^verbatim>\<open>-c\<close> passes over.\<close>

definition plain :: "string \<Rightarrow> bool" where
  "plain arg \<longleftrightarrow> arg \<noteq> ''-c'' \<and> arg \<noteq> ''--''"

definition plain_wire :: "workload_wire \<Rightarrow> bool" where
  "plain_wire w \<longleftrightarrow> list_all plain (wr_volumes w) \<and> list_all plain (wr_ports w) \<and> (case wr_image w of None \<Rightarrow> True | Some img \<Rightarrow> plain img)"

lemma extract_plain: "list_all plain args \<Longrightarrow> extract_connect (args @ ''--'' # command) connect = Ok (args @ ''--'' # command, connect)"
  by (induction args) (simp_all add: plain_def)

lemma flag_values_plain: "plain flag \<Longrightarrow> list_all plain values \<Longrightarrow> list_all plain (flag_values flag values)"
  by (induction "values") (simp_all add: flag_values_def)

lemma wire_line_plain:
  assumes "plain_wire w"
  shows "list_all plain (wire_line w)"
proof -
  have "list_all plain (flag_values ''--volume'' (wr_volumes w))" "list_all plain (flag_values ''--publish'' (wr_ports w))"
    using assms by (auto simp: plain_wire_def plain_def intro: flag_values_plain)
  then show ?thesis
    using assms by (cases "wr_image w") (simp_all add: wire_line_def plain_wire_def plain_def shown_number_plain)
qed

lemma submit_line_read: "submit_args (submit_line spec) = Ok (CqSubmit spec)"
proof -
  let ?w = "(wire_new 60)\<lparr>wr_gpus := wr_gpus (su_wire spec)\<rparr>"
  let ?v = "su_wire spec"
  define tail where "tail = wire_line ?v @ ''--'' # wr_command ?v"
  have keep: "flag_loop submit_switch submit_assign (''--keep-alive'' # tail) opts = flag_loop submit_switch submit_assign tail (opts\<lparr>su_keep_alive := True\<rparr>)" for opts
    by (rule flag_loop_switch) (simp_all add: is_flag_def submit_switch_def tail_def)
  have start: "flag_loop submit_switch submit_assign (submit_line spec) \<lparr>su_owner = 1, su_keep_alive = False, su_wire = wire_new 60\<rparr> =
      flag_loop submit_switch submit_assign tail \<lparr>su_owner = su_owner spec, su_keep_alive = su_keep_alive spec, su_wire = ?w\<rparr>"
    by (simp add: submit_line_def is_flag_def submit_switch_def submit_assign_def parse_flag_def parse_show_u64 keep flag_loop_value
        tail_def [symmetric] del: flag_loop.simps)
  have "flag_loop submit_switch submit_assign (submit_line spec) \<lparr>su_owner = 1, su_keep_alive = False, su_wire = wire_new 60\<rparr> =
      Ok (''--'' # wr_command ?v, \<lparr>su_owner = su_owner spec, su_keep_alive = su_keep_alive spec, su_wire = ?v\<lparr>wr_command := []\<rparr>\<rparr>)"
    unfolding start tail_def by (subst submit_reader.wire_read) (simp_all add: wire_new_def is_flag_def)
  then show ?thesis by (simp add: submit_args_def command_after_def)
qed

lemma service_line_read:
  assumes "wr_gpus (sv_wire spec) = 0"
  shows "service_args (service_line spec) = Ok (CqSubmitService spec)"
proof -
  let ?v = "sv_wire spec"
  let ?o = "\<lparr>sv_id = [], sv_owner = sv_owner spec, sv_desired = sv_desired spec, sv_max = sv_max spec, sv_min = sv_min spec,
      sv_per_machine = sv_per_machine spec, sv_wire = wire_new 3600\<rparr>"
  let ?init = "(None, \<lparr>sv_id = [], sv_owner = 1, sv_desired = 1, sv_max = None, sv_min = None, sv_per_machine = False, sv_wire = wire_new 3600\<rparr>)"
  define tail where "tail = wire_line ?v @ ''--'' # wr_command ?v"
  have machine: "flag_loop service_switch service_assign (''--per-machine'' # tail) opts =
      flag_loop service_switch service_assign tail (fst opts, (snd opts)\<lparr>sv_per_machine := True\<rparr>)" for opts
    by (rule flag_loop_switch) (simp_all add: is_flag_def service_switch_def tail_def)
  have start: "flag_loop service_switch service_assign (service_line spec) ?init =
      flag_loop service_switch service_assign tail (Some (sv_id spec), ?o\<lparr>sv_wire := wire_new 3600\<rparr>)"
    by (cases "sv_min spec"; cases "sv_max spec")
      (simp_all add: service_line_def is_flag_def service_switch_def service_assign_def parse_flag_def parse_show_u64 parse_show_u32 machine
        flag_loop_value tail_def [symmetric] del: flag_loop.simps)
  have "flag_loop service_switch service_assign (service_line spec) ?init =
      Ok (''--'' # wr_command ?v, Some (sv_id spec), ?o\<lparr>sv_wire := ?v\<lparr>wr_command := []\<rparr>\<rparr>)"
    unfolding start tail_def using assms by (subst service_reader.wire_read) (simp_all add: wire_new_def is_flag_def)
  then show ?thesis by (simp add: service_args_def command_after_def)
qed

section \<open>Identities\<close>

lemma trim_plain: "list_all (\<lambda>c. \<not> is_space c) s \<Longrightarrow> trim s = s"
proof -
  have keep: "dropWhile is_space s = s" if "list_all (\<lambda>c. \<not> is_space c) s" for s using that by (cases s) simp_all
  assume plain: "list_all (\<lambda>c. \<not> is_space c) s"
  then have "list_all (\<lambda>c. \<not> is_space c) (rev s)" by simp
  with plain show ?thesis by (simp add: trim_def keep)
qed

lemma hex16_text: "hex16 w \<noteq> []" "trim (hex16 w) = hex16 w"
proof -
  have "list_all (\<lambda>n. \<not> is_space (hex_digit n)) [0..<16]" by code_simp
  then have "\<not> is_space (hex_digit n)" if "n < 16" for n using that by (simp add: list_all_iff)
  moreover have "unat (take_bit 4 v) < 16" for v :: u64
    using take_bit_nat_less_exp [of 4 "unat v"] by (simp add: unsigned_take_bit_eq)
  ultimately show "trim (hex16 w) = hex16 w" by (intro trim_plain) (simp add: hex16_def list_all_iff)
  show "hex16 w \<noteq> []" by (simp add: hex16_def)
qed

text \<open>
  The identity of an agent survives its restart: the next run reads what the first one wrote, whatever its random bytes, clock and process number are.
\<close>

lemma identity_survives_restart:
  assumes "load_instance_id h None = (written, Ok i)" and "state_dir h' = state_dir h"
    and "ho_read h' = (case written of None \<Rightarrow> ho_read h | Some (path, text) \<Rightarrow> (ho_read h)(path := Ok text))"
  shows "load_instance_id h' None = (None, Ok i)"
proof -
  obtain state where state: "state_dir h = Some state" using assms(1) by (auto simp: load_instance_id_def split: option.splits)
  let ?path = "path_join state ''archon/agent-id''"
  let ?old = "case ho_read h ?path of Ok text \<Rightarrow> trim text | Err e \<Rightarrow> []"
  show ?thesis
  proof (cases "?old = []")
    case True
    then have "written = Some (?path, i)" "i = fresh_id h"
      using assms(1) state by (auto simp: load_instance_id_def Let_def split: result.splits if_splits)
    then show ?thesis using assms(2,3) state hex16_text by (simp add: load_instance_id_def fresh_id_def)
  next
    case False
    then have "written = None" "i = ?old" using assms(1) state by (simp_all add: load_instance_id_def Let_def)
    with False show ?thesis using assms(2,3) state by (simp add: load_instance_id_def Let_def)
  qed
qed

section \<open>Properties\<close>

text \<open>
  C15. A request survives the command line: for every workload and every group whose image, volumes, ports and name are not the words \<^verbatim>\<open>-c\<close> or
  \<^verbatim>\<open>--\<close>, there is a line of arguments from which the program, whatever the command of the workload contains, these words included, takes the
  address of the control plane and builds exactly that request. A group asks for no GPUs, its request has no field for them.
\<close>

theorem request_line_roundtrip:
  assumes "plain_wire (su_wire work)" and "plain_wire (sv_wire members)" and "plain (sv_id members)" and "wr_gpus (sv_wire members) = 0"
  shows "main_role ([''-c'', addr, ''submit''] @ submit_line work) = Ok (RoleClient (Some addr) ''submit'' (submit_line work)) \<and>
    request_args ''submit'' (submit_line work) = Ok (CqSubmit work) \<and>
    main_role ([''-c'', addr, ''service''] @ service_line members) = Ok (RoleClient (Some addr) ''service'' (service_line members)) \<and>
    request_args ''service'' (service_line members) = Ok (CqSubmitService members)"
proof -
  let ?submit = "[''--owner'', show_u64 (su_owner work), ''--gpu'', show_u64 (wr_gpus (su_wire work))] @
      (if su_keep_alive work then [''--keep-alive''] else []) @ wire_line (su_wire work)"
  let ?service = "[''--id'', sv_id members, ''--owner'', show_u64 (sv_owner members), ''--target'', show_u32 (sv_desired members)] @
      (case sv_min members of None \<Rightarrow> [] | Some n \<Rightarrow> [''--min'', show_u32 n]) @ (case sv_max members of None \<Rightarrow> [] | Some n \<Rightarrow> [''--max'', show_u32 n]) @
      (if sv_per_machine members then [''--per-machine''] else []) @ wire_line (sv_wire members)"
  have lines: "submit_line work = ?submit @ ''--'' # wr_command (su_wire work)" "service_line members = ?service @ ''--'' # wr_command (sv_wire members)"
    by (simp_all add: submit_line_def service_line_def)
  have plain: "list_all plain ?submit" "list_all plain ?service"
    using wire_line_plain [OF assms(1)] wire_line_plain [OF assms(2)] assms(3)
    by (simp_all add: plain_def shown_number_plain split: option.split)
  have "extract_connect (submit_line work) c = Ok (submit_line work, c)" for c
    unfolding lines(1) by (rule extract_plain [OF plain(1)])
  moreover have "extract_connect (service_line members) c = Ok (service_line members, c)" for c
    unfolding lines(2) by (rule extract_plain [OF plain(2)])
  ultimately show ?thesis
    by (simp add: main_role_def request_args_def submit_line_read service_line_read [OF assms(4)])
qed

definition sample_line_wire :: workload_wire where
  "sample_line_wire = (wire_new 60)\<lparr>wr_command := [''sh'', ''-c'', ''run'', ''--'', ''-c''], wr_image := Some ''img'', wr_volumes := [''/a:/b'']\<rparr>"

theorem request_line_roundtrip_witness:
  "main_role ([''-c'', ''host:1'', ''submit''] @ submit_line \<lparr>su_owner = 3, su_keep_alive = True, su_wire = sample_line_wire\<rparr>) =
     Ok (RoleClient (Some ''host:1'') ''submit'' (submit_line \<lparr>su_owner = 3, su_keep_alive = True, su_wire = sample_line_wire\<rparr>)) \<and>
   request_args ''service'' (service_line \<lparr>sv_id = ''web'', sv_owner = 3, sv_desired = 2, sv_max = Some 4, sv_min = None, sv_per_machine = False,
     sv_wire = sample_line_wire\<rparr>) =
     Ok (CqSubmitService \<lparr>sv_id = ''web'', sv_owner = 3, sv_desired = 2, sv_max = Some 4, sv_min = None, sv_per_machine = False,
     sv_wire = sample_line_wire\<rparr>)"
proof -
  have "plain_wire sample_line_wire" "plain ''web''" "wr_gpus sample_line_wire = 0"
    by (simp_all add: plain_wire_def sample_line_wire_def wire_new_def plain_def)
  then show ?thesis
    using request_line_roundtrip [of "\<lparr>su_owner = 3, su_keep_alive = True, su_wire = sample_line_wire\<rparr>"
        "\<lparr>sv_id = ''web'', sv_owner = 3, sv_desired = 2, sv_max = Some 4, sv_min = None, sv_per_machine = False, sv_wire = sample_line_wire\<rparr>" "''host:1''"]
    by simp
qed

text \<open>
  C14. An agent that loses its link leaves no process behind: after any sequence of links, dialled or accepted, with any requests over them, every group in
  which a program was started has been killed after the last start in it, and every child outside a group has been waited for, unless the
  system refused to poll, to kill or to wait for that child. The system is assumed never to refuse the kill of a group.
\<close>

theorem links_leave_no_process:
  assumes "kills_groups os"
  shows "quiet os (fst (dial_in os cgroup_root instance_id name dials [])) \<and> quiet os (fst (listen_links os cgroup_root instance_id name links []))"
proof -
  have link: "quiet os (fst (run_link os containers cgroup_root instance_id name arrivals t))" if "quiet os t" for containers arrivals t
    using run_link_quiet [OF assms that] .
  have dial: "quiet os (fst (dial_attempt os containers cgroup_root instance_id name d t))" if "quiet os t" for containers d t
    using that link [OF that, of containers "dl_arrivals d"] by (auto simp: dial_attempt_def Let_def split: result.split prod.split)
  have listen: "quiet os (fst (listen_link os containers cgroup_root instance_id name l t))" if "quiet os t" for containers l t
    using that link [OF that, of containers "il_arrivals l"] by (auto simp: listen_link_def split: option.split greeting.split)
  have "quiet os (fst (dial_in os cgroup_root instance_id name dials t))" if "quiet os t" for t
    using that
  proof (induction dials arbitrary: t)
    case (Cons d dials)
    then show ?case using dial [OF Cons.prems] by (cases d) (simp add: case_prod_beta)
  qed simp
  moreover have "quiet os (fst (listen_links os cgroup_root instance_id name links t))" if "quiet os t" for t
    using that
  proof (induction links arbitrary: t)
    case (Cons l links)
    then show ?case using listen [OF Cons.prems] by (cases l) (simp add: case_prod_beta)
  qed simp
  ultimately show ?thesis by (simp add: quiet_def)
qed

definition sample_containers :: container_runtime where
  "sample_containers = container_runtime_new ''docker'' ''n'' None None None"

definition sample_dial :: "arrival list \<Rightarrow> dial" where
  "sample_dial arrivals =
     \<lparr>dl_connected = True, dl_handshake = Ok (),
      dl_described = Ok \<lparr>md_instance_id = [], md_name = ''m'', md_cpus = 1, md_memory_bytes = 1, md_host_nodes = [], md_devices = []\<rparr>, dl_greeted = True, dl_arrivals = arrivals\<rparr>"

theorem links_leave_no_process_witness:
  "snd (dial_in sample_os (Some ''/cg'') ''a'' None [(sample_containers, sample_dial [(Err [], sample_start, True)])] []) =
     [Served (GreetAgent ''a'' ''m'' 1 1 [] []) [RsExecutionStarted 7]] \<and>
   quiet sample_os (fst (dial_in sample_os (Some ''/cg'') ''a'' None [(sample_containers, sample_dial [(Err [], sample_start, True)])] []))"
proof -
  have "kills_groups sample_os" by (simp add: kills_groups_def sample_os_def)
  note quiet = links_leave_no_process [OF this, THEN conjunct1]
  have "snd (dial_in sample_os (Some ''/cg'') ''a'' None [(sample_containers, sample_dial [(Err [], sample_start, True)])] []) =
      [Served (GreetAgent ''a'' ''m'' 1 1 [] []) [RsExecutionStarted 7]]"
    by code_simp
  with quiet show ?thesis by blast
qed

section \<open>What the end of a link and an empty token leave open\<close>

text \<open>
  Containers are not stopped: the runtime of containers has no destructor, and the next one names its containers differently. A program that was started in a
  container runs on after the link is lost, while the controller reconciles its lease against a new agent that knows nothing of it.
\<close>

definition engine_os :: os where
  "engine_os t = (case t of EngineRun lease args # rest \<Rightarrow> Ok (Output True [] []) | _ \<Rightarrow> sample_os t)"

lemma lost_link_leaves_container:
  "case dial_in engine_os (Some ''/cg'') ''a'' None
      [(sample_containers, sample_dial [(Err [], RqStartExecution 7 1 1 [''run''] no_limits ''img'' [] [] 0 [], True)]),
       (sample_containers\<lparr>cr_namespace := ''o''\<rparr>, sample_dial [(Err [], RqStatus 7, True), (Err [], RqStopExecution 7 2 1, True)])] [] of
     (t, outcomes) \<Rightarrow>
       outcomes = [Served (GreetAgent ''a'' ''m'' 1 1 [] []) [RsExecutionStarted 7],
         Served (GreetAgent ''a'' ''m'' 1 1 [] []) [RsRunning 7 False None, RsExecutionStopped 7]] \<and>
       7 \<in> live_containers engine_os t"
  by code_simp

text \<open>An empty variable is no token, but an empty file is the empty one, and its links are open to whoever has none.\<close>

lemma empty_token_file_opens_links:
  assumes "ho_read h path = Ok text" and "list_all is_space text"
  shows "load_token h (Some path) = Ok (Some []) \<and> psk_for sha256 as_bytes (Some []) = psk_for sha256 as_bytes None"
proof -
  have "trim text = []" using assms(2) by (auto simp: trim_def list_all_iff dest: set_dropWhileD)
  then show ?thesis using assms(1) by (simp add: load_token_def psk_for_def)
qed

end
