(* ===== verification/Spec2Isabelle.thy ===== *)
theory Spec2Isabelle
  imports Kernel_Endpoint Graph_Facts Cluster_Runs Cluster_Commands Cluster_Replay Placement_Search Allocation_Contract
    Admission Preemption Device_Filter Provider_Safety Node_Recovery Protocol_Roundtrip World_Safety
    Service_Progress Service_Placement Inventory_Facts Control_Durability Agent_Safety Command_Facts
begin

text \<open>
  A verification of Archon, a control plane that hands out exclusive or shared authority over machines, devices and
  memory: its kernel (\<^verbatim>\<open>crates/kernel\<close>), the controller around it and the decisions of the agents on the machines
  (\<^verbatim>\<open>crates/node\<close>), the server with its journal (\<^verbatim>\<open>crates/control\<close>), the program that runs them (\<^verbatim>\<open>crates/cli\<close>), and the closed world of its simulator (\<^verbatim>\<open>crates/sim\<close>).

  \<^bold>\<open>The program.\<close> A resource graph holds nodes with capacities, the edges between them and, per node and
  capacity dimension, the provider contract that makes the capacity claimable. A request is placed on the
  graph, the placement becomes a lease, a lease gets bindings, and a binding is enforced by an endpoint on a
  machine through effects that carry a fence, a session and an epoch. The cluster is the deterministic state
  machine behind the replicated log: it validates each command completely, changes its state, returns the
  effects and appends the command to the log. On a machine, the resource provider of the agent runs one endpoint per
  exclusive resource or share; it refuses calls of old controllers, sessions and generations. A process lease is confined
  by an eBPF program that allows the claimed devices only. After a restart the controller compares what an agent
  enumerates with its own bindings before it trusts them. The controller keeps a queue of workloads, admits them, sends the
  effects of the cluster as requests to the agents, absorbs their answers, starts and stops the programs of leases, keeps the
  members of service groups alive and registers machines with the inventory their agents report. The server runs the controller for its
  clients and on a timer, writes every accepted command with the state of the controller to a journal before it answers, compacts the journal into
  a snapshot, and recovers from both. An agent serves one link after the other, each over an encrypted stream and with a new runtime.

  \<^bold>\<open>Theories.\<close>
  \<^item> \<open>Archon_Prelude\<close>: machine integers (\<open>u64\<close> and \<open>u32\<close> are words, \<open>+\<close> wraps as in a release build), saturating
    arithmetic, the \<open>result\<close> type with the early returns of the source (\<open>and_then\<close>, \<open>try_fold\<close>, \<open>try_map\<close>,
    \<open>try_all\<close>), printing of numbers.
  \<^item> \<open>Ordered_Map\<close>: \<open>BTreeMap\<close> as an ordered association list (type \<open>btree\<close>), with the locale \<open>ordered_map\<close> for
    its contract. \<open>Parent_Forest\<close>: the locale \<open>forest\<close> of parent maps with the loops that walk up and down.
    \<open>Step_Systems\<close>: the locales of invariants and monotone counters of a step function.
  \<^item> \<open>Kernel_Types\<close> (\<^verbatim>\<open>types.rs\<close>, \<^verbatim>\<open>ids.rs\<close>), \<open>Kernel_Endpoint\<close> (\<^verbatim>\<open>endpoint.rs\<close>), \<open>Kernel_Error\<close> (\<^verbatim>\<open>error.rs\<close>),
    \<open>Kernel_Graph\<close> (\<^verbatim>\<open>graph.rs\<close>), \<open>Kernel_Occupancy\<close> (\<^verbatim>\<open>occupancy.rs\<close>), \<open>Kernel_Command\<close> (\<^verbatim>\<open>command.rs\<close>) and
    \<open>Kernel_Cluster\<close> (\<^verbatim>\<open>cluster.rs\<close>): the model. A struct is a record whose fields carry a prefix (\<open>l_\<close> for a
    lease, \<open>b_\<close> for a binding, \<open>k_\<close> for the cluster), an enum is a datatype, a method that changes the cluster
    returns the cluster it leaves behind together with its result, also when the result is an error.
  \<^item> \<open>Kernel_Select\<close> (\<^verbatim>\<open>select.rs\<close>), \<open>Kernel_Admit\<close> (\<^verbatim>\<open>admit.rs\<close>), \<open>Kernel_Preempt\<close> (\<^verbatim>\<open>preempt.rs\<close> and the facade in
    \<^verbatim>\<open>lib.rs\<close>): the schedulers, which read the cluster and never change it.
  \<^item> \<open>Graph_Facts\<close>: well-formedness of the graph, which every update keeps; the containment check is exact; the
    walks terminate; ownership of facts. \<open>Delegation\<close>: trees of leases and what their roots hold.
  \<^item> \<open>Cluster_Spec\<close>: the specification, a step relation \<open>kernel_step\<close> over the cluster state that says what may
    change at all, and the invariant. \<open>Cluster_Invariant\<close>: every step of the specification keeps it.
    \<open>Cluster_Refinement\<close>: every operation of the model is sound for the specification.
  \<^item> \<open>Cluster_Runs\<close>, \<open>Cluster_Commands\<close>, \<open>Cluster_Replay\<close>: the properties of runs, of single commands and of replay.
  \<^item> \<open>Placement\<close>: what a placement of a request is, and that each greedy step yields a part of one. \<open>Placement_Search\<close>:
    the backtracking search is exact within its budget. \<open>Allocation_Contract\<close>: selection returns a placement; the
    locale \<open>allocator\<close> states what the cluster needs of an allocation to accept it as a reservation, and selection
    is an instance of it. \<open>Admission\<close>: order of the queue, budgets, backfill. \<open>Preemption\<close>: victim selection.
  \<^item> \<open>Node_Device_Filter\<close> (\<^verbatim>\<open>device_filter.rs\<close>), \<open>Node_Provider\<close> (\<^verbatim>\<open>provider.rs\<close>), \<open>Node_Recovery\<close> (\<^verbatim>\<open>recovery.rs\<close>, the tags of
    \<^verbatim>\<open>dispatch.rs\<close>), \<open>Node_Protocol\<close> (\<^verbatim>\<open>protocol.rs\<close>, the list parser of \<^verbatim>\<open>discover.rs\<close>): the model of the agent.
    \<open>Device_Filter\<close>: the compiled program returns and decides as the rules of the lease say, and its encoding loses
    nothing. \<open>Provider_Safety\<close>: fencing on a machine is final and calls do not disturb each other's endpoints.
    \<open>Node_Recovery\<close> also holds the exactness of the recovery proof. \<open>Protocol_Roundtrip\<close>: CPU lists and frames.
    What the operating system says of a path and the JSON encoding of messages are parameters.
  \<^item> \<open>Sim_World\<close> (\<^verbatim>\<open>crates/sim/src/world.rs\<close>): the closed world of the controller, the agents, the endpoints and the effects
    between them, with loss, repetition, restarts and failures. \<open>Cluster_Effects\<close>: what commands send out and close.
    \<open>World_Invariant\<close>: the invariant that ties the cluster to the endpoints, kept by every operation. \<open>World_Safety\<close>: what
    machines enforce is accounted for, exclusive resources have one holder, a restart of the controller is exact, delivery
    ends, fences settle.
  \<^item> \<open>Node_Workload\<close> (\<^verbatim>\<open>workload.rs\<close>, the messages of \<^verbatim>\<open>protocol.rs\<close>): workloads, groups, requests and responses of agents.
    \<open>Node_Service\<close>, \<open>Node_Controller\<close>, \<open>Node_Groups\<close> (\<^verbatim>\<open>service.rs\<close>, the inbox of \<^verbatim>\<open>dispatch.rs\<close>): the controller. Its struct is
    the record \<open>node_service\<close> (prefix \<open>s_\<close>); a method returns the new state with \<open>Done\<close> a value, \<open>Raise\<close> an error or \<open>Panic\<close>.
    Requests sent to agents are kept in order in \<open>s_jobs\<close>, a field the code does not have: it is what the channels have carried.
    \<open>Node_Service\<close> holds commits, routing, starts, stops and the pump; \<open>Node_Controller\<close> the absorption of answers, recovery,
    expiry, replay and restore; \<open>Node_Groups\<close> submission, admission, groups and restarts.
    \<open>Node_Discover\<close>, \<open>Node_Inventory\<close> (\<^verbatim>\<open>discover.rs\<close>): parsers of declared devices, of the GPU tool and of the NUMA tree;
    validation of a description, the graph and the facts made of it, the check of a returning host. \<open>Node_Registration\<close>
    (\<^verbatim>\<open>service.rs\<close>): the handshake, the reconciliation of devices, writers and contracts, joining and rejoining.
  \<^item> \<open>Service_Teardown\<close>, \<open>Service_Invariant\<close>, \<open>Service_Operations\<close>, \<open>Service_Admission\<close>, \<open>Service_Registration\<close>: the invariant of
    the controller (what was sent, what is held, what is proven and how that fits the cluster) and that every operation keeps it.
    \<open>Service_Safety\<close>: the controller as a step relation over its operations and arbitrary answers; no reuse before a proven
    stop, no start before activation, at most one start. \<open>Service_Progress\<close>: the pump ends, a proven stop sets held teardown
    free. \<open>Service_Groups\<close>: reconciliation submits exactly the missing members, short of the replacements it refuses; restarts are bounded. \<open>Service_Placement\<close>: programs are placed only where they can
    be enforced. \<open>Inventory_Facts\<close>: inventories are complete or refused, validated descriptions become trees, the facts of a
    device give back what was reported.
  \<^item> \<open>Node_Runtime\<close> (\<^verbatim>\<open>runtime.rs\<close>, \<^verbatim>\<open>cgroup.rs\<close>, \<^verbatim>\<open>container.rs\<close>, \<^verbatim>\<open>executor.rs\<close>), \<open>Node_Agent\<close> (\<^verbatim>\<open>agent.rs\<close>): how an agent starts, observes
    and stops programs on Linux, and its protocol. The operating system is a function from the trace of calls to answers. \<open>Runtime_Tracking\<close>: what was
    started and not seen to end is tracked. \<open>Agent_Safety\<close>: an acknowledged stop is true for a lease that was always started in the same way, a program starts confined.
  \<^item> \<open>Control_Log\<close> (\<^verbatim>\<open>log.rs\<close>): records, appending and reading a file of bytes. \<open>Control_Plane\<close> (\<^verbatim>\<open>server.rs\<close>): boot, recovery, the sink of
    the controller, compaction. \<open>Control_Requests\<close> (\<^verbatim>\<open>server.rs\<close>, \<^verbatim>\<open>api.rs\<close>): maintenance and the requests of clients. \<open>Service_Journal\<close>: the
    locales \<open>pump_relation\<close> and \<open>service_relation\<close> carry a relation from single changes to every operation of the controller; an instance is that
    an operation tells the sink every command the cluster accepted, in order. \<open>Control_Recovery\<close>: which cluster and state the files of a plane
    hold, and that operations, crashes and compactions keep them in step. \<open>Control_Durability\<close>: recovery restores authority, also
    after a crash within an operation or a compaction, and acknowledged submissions survive.
  \<^item> \<open>Command_Line\<close> (\<^verbatim>\<open>cli/src/main.rs\<close>): roles, arguments, token, identity, the links an agent serves, the client and what it prints; a
    process that exits is an error \<open>cli_stop\<close>. \<open>Secure_Transport\<close> (\<^verbatim>\<open>transport.rs\<close>): the key of a token, raw frames and the encrypted stream; what is written
    is read. \<open>Command_Facts\<close>: the locale \<open>wire_reader\<close> of the loops that read the flags of a workload, the round trip of requests through arguments,
    the identity over restarts, and that the end of a link leaves no process.

  \<^bold>\<open>Parameters.\<close> The JSON encoding of paths and the debug output of responses (\<open>rendering\<close>, \<open>json\<close>), what the file system says of device
  files and of the PCI tree (\<open>device_files\<close>), the answers of agents and the moments they arrive (\<open>drive\<close> takes the list of answers
  that each of its rounds finds in the inbox, \<open>inbox_post\<close> adds one), the clock. The JSON encodings of records and snapshots are \<open>journal_codec\<close>
  and \<open>plane_environment\<close>; the theorems on recovery ask of them that what was written reads back (\<open>reads_back\<close>, \<open>snapshot_reads_back\<close>).
  The two halves of a Noise session are \<open>seal\<close> and \<open>unseal\<close>; the theorem on delivery asks that they agree (\<open>halves_agree\<close>). Environment variables, files and the network
  of the command line are the records \<open>host\<close>, \<open>client_network\<close>, \<open>inbound_link\<close> and \<open>dial\<close>.

  \<^bold>\<open>Bounds.\<close> No fuel is used, apart from the budget of 4096 steps that the source gives its backtracking search.
  The jumps of the device program are 16 bits wide, which bounds the number of rules by 3277. The walks over parents and children
  are defined by iteration until they return, with a default where they do not; on the graphs and lease tables the invariant allows
  they always return. The pump of the controller is a function with a termination proof: only a
  reconciliation makes it commit commands, and none of these sends a reconciliation. Scores (\<^verbatim>\<open>i64\<close>) and weighted shares (\<^verbatim>\<open>u128\<close>) are integers; the shares are shown to fit. Sums of
  quantities are 64-bit words; that they do not wrap in a reachable cluster is part of the theorem on overcommitment.
  Counts of members and machines (\<^verbatim>\<open>usize\<close>) are natural numbers. Texts are strings of ASCII characters.

  \<^bold>\<open>Not modelled.\<close> Serialisation (\<^verbatim>\<open>serde\<close>), sockets, threads and locks: the socket client of the
  controller, its method \<^verbatim>\<open>is_running\<close> (which blocks on an agent), the connections and the lock of the control server (its operations exclude
  each other, so a run is a sequence of them), errors of the file system there; the system calls behind the creation of a process
  (\<^verbatim>\<open>linux_process.rs\<close>) and the agent on other systems than Linux; the Noise handshake; the timer thread of the control plane. Messages on standard error are left out.
\<close>

end
